(* ===== verification/Prelude.thy ===== *)
theory Prelude
  imports Complex_Main "HOL-Library.AList" "HOL-Library.Monad_Syntax"
begin

text \<open>
  Shared vocabulary of the development.

  \<^item> Python text is \<open>string\<close>, a list of code points below 256; \<open>strip\<close> and \<open>lower\<close>
    are \<open>str.strip\<close> and \<open>str.lower\<close> on that range.
  \<^item> Python dictionaries keep their insertion order, so a dictionary whose order matters is
    an association list with distinct keys: \<open>map_of\<close> reads it, \<open>AList.update\<close> is
    \<open>d[k] = v\<close> and \<open>AList.delete\<close> is \<open>d.pop(k, None)\<close>.
  \<^item> A \<open>datetime\<close> is its wall clock in microseconds since 1970-01-01T00:00 together with its
    offset from UTC, which is absent for a naive one. \<open>fromisoformat\<close> reads the extended
    calendar form \<open>YYYY-MM-DD[*HH[:MM[:SS[.f]]][+HH:MM[:SS]]]\<close>; the compact and ISO week
    spellings of newer Python releases are not read.
  \<^item> A floating point number is the rational it denotes; rounding is not modelled.
\<close>

named_theorems refresh_simps \<open>unfolding rules of the repository refresh decisions\<close>
named_theorems dict_simps \<open>reading dictionaries after an update\<close>

section \<open>Dictionaries\<close>

type_synonym ('k, 'v) dict = "('k \<times> 'v) list"

abbreviation dict_keys :: "('k, 'v) dict \<Rightarrow> 'k list" where
  "dict_keys d \<equiv> map fst d"

definition wf_dict :: "('k, 'v) dict \<Rightarrow> bool" where
  "wf_dict d \<longleftrightarrow> distinct (map fst d)"

definition dict_default :: "('k, 'v) dict \<Rightarrow> 'k \<Rightarrow> 'v \<Rightarrow> 'v" where
  "dict_default d k v = (case map_of d k of None \<Rightarrow> v | Some x \<Rightarrow> x)"

lemma map_of_update [dict_simps, simp]:
  "map_of (AList.update k v d) j = (if j = k then Some v else map_of d j)"
  by (simp add: update_conv')

lemma map_of_delete [dict_simps, simp]:
  "map_of (AList.delete k d) j = (if j = k then None else map_of d j)"
  by (simp add: delete_conv')

lemma wf_dict_Nil [simp, intro]: "wf_dict []"
  by (simp add: wf_dict_def)

lemma wf_dict_update [intro]: "wf_dict d \<Longrightarrow> wf_dict (AList.update k v d)"
  by (simp add: wf_dict_def distinct_update)

lemma wf_dict_delete [intro]: "wf_dict d \<Longrightarrow> wf_dict (AList.delete k d)"
  by (simp add: wf_dict_def distinct_delete)

lemma dict_default_update [dict_simps]:
  "dict_default (AList.update k v d) j w = (if j = k then v else dict_default d j w)"
  by (simp add: dict_default_def)

section \<open>Text\<close>

definition py_space :: "char \<Rightarrow> bool" where
  "py_space c = (let n = (of_char c :: nat)
     in 9 \<le> n \<and> n \<le> 13 \<or> 28 \<le> n \<and> n \<le> 32 \<or> n = 133 \<or> n = 160)"

definition lstrip :: "string \<Rightarrow> string" where
  "lstrip s = dropWhile py_space s"

definition rstrip :: "string \<Rightarrow> string" where
  "rstrip s = rev (dropWhile py_space (rev s))"

definition strip :: "string \<Rightarrow> string" where
  "strip s = rstrip (lstrip s)"

definition strip_chars :: "string \<Rightarrow> string \<Rightarrow> string" where
  "strip_chars cs s =
     rev (dropWhile (\<lambda>c. c \<in> set cs) (rev (dropWhile (\<lambda>c. c \<in> set cs) s)))"

definition lower_char :: "char \<Rightarrow> char" where
  "lower_char c = (let n = (of_char c :: nat)
     in if 65 \<le> n \<and> n \<le> 90 \<or> 192 \<le> n \<and> n \<le> 222 \<and> n \<noteq> 215
        then char_of (n + 32) else c)"

definition lower :: "string \<Rightarrow> string" where
  "lower s = map lower_char s"

lemma rstrip_idem [simp]: "rstrip (rstrip s) = rstrip s"
  by (simp add: rstrip_def)

lemma lstrip_idem [simp]: "lstrip (lstrip s) = lstrip s"
  by (simp add: lstrip_def)

lemma lstrip_append: "lstrip (xs @ ys) = (if list_all py_space xs then lstrip ys else lstrip xs @ ys)"
  by (induction xs) (auto simp: lstrip_def)

lemma rstrip_eq_take: "\<exists>n. rstrip s = take n s"
  by (metis append_eq_conv_conj rev_append rev_rev_ident rstrip_def takeWhile_dropWhile_id)

lemma hd_lstrip: "lstrip s \<noteq> [] \<Longrightarrow> \<not> py_space (hd (lstrip s))"
  unfolding lstrip_def by (rule hd_dropWhile)

lemma lstrip_id: "s = [] \<or> \<not> py_space (hd s) \<Longrightarrow> lstrip s = s"
  by (cases s) (auto simp: lstrip_def)

lemma strip_idem [simp]: "strip (strip s) = strip s"
proof -
  obtain n where n: "strip s = take n (lstrip s)"
    using rstrip_eq_take unfolding strip_def by blast
  have "lstrip (strip s) = strip s"
  proof (rule lstrip_id)
    show "strip s = [] \<or> \<not> py_space (hd (strip s))"
      using hd_lstrip[of s] unfolding n by (cases n; cases "lstrip s"; simp)
  qed
  then have "strip (strip s) = rstrip (strip s)"
    by (simp add: strip_def)
  also have "\<dots> = strip s"
    by (simp add: strip_def)
  finally show ?thesis .
qed

lemma strip_Nil [simp]: "strip [] = []"
  by (simp add: strip_def lstrip_def rstrip_def)

text \<open>\<open>(x or "").strip() or None\<close> and the checksum normalisers of the refresh modules.\<close>

definition nonempty :: "string \<Rightarrow> string option" where
  "nonempty s = (if s = [] then None else Some s)"

lemma nonempty_iff [simp]: "nonempty s = Some t \<longleftrightarrow> s \<noteq> [] \<and> t = s"
  by (auto simp: nonempty_def)

lemma nonempty_None [simp]: "nonempty s = None \<longleftrightarrow> s = []"
  by (auto simp: nonempty_def)


section \<open>Dates and times\<close>

text \<open>Microseconds per second, minute, hour and day.\<close>

abbreviation usec :: int where "usec \<equiv> 1000000"
abbreviation hour_usec :: int where "hour_usec \<equiv> 3600000000"
abbreviation day_usec :: int where "day_usec \<equiv> 86400000000"

record py_datetime =
  dt_wall :: int
  dt_offset :: "int option"

text \<open>What a caller may hand to a timestamp parameter: \<open>None\<close>, a \<open>datetime\<close>, text, or
  a value of another type.\<close>

datatype timestamp =
  TsNone | TsDatetime py_datetime | TsText string | TsOther

definition with_utc :: "py_datetime \<Rightarrow> py_datetime" where
  "with_utc d = (case dt_offset d of None \<Rightarrow> d\<lparr>dt_offset := Some 0\<rparr> | Some _ \<Rightarrow> d)"

definition instant :: "py_datetime \<Rightarrow> int" where
  "instant d = dt_wall d - (case dt_offset d of None \<Rightarrow> 0 | Some off \<Rightarrow> off)"

lemma instant_with_utc [simp]: "instant (with_utc d) = instant d"
  by (simp add: instant_def with_utc_def split: option.splits)

definition digit_val :: "char \<Rightarrow> int option" where
  "digit_val c = (let n = of_char c in if 48 \<le> n \<and> n \<le> 57 then Some (n - 48) else None)"

fun read_digits :: "nat \<Rightarrow> int \<Rightarrow> string \<Rightarrow> (int \<times> string) option" where
  "read_digits 0 acc s = Some (acc, s)"
| "read_digits (Suc n) acc [] = None"
| "read_digits (Suc n) acc (c # s) =
     (case digit_val c of None \<Rightarrow> None | Some d \<Rightarrow> read_digits n (10 * acc + d) s)"

fun expect_char :: "char \<Rightarrow> string \<Rightarrow> string option" where
  "expect_char c [] = None"
| "expect_char c (x # s) = (if x = c then Some s else None)"

definition leap_year :: "int \<Rightarrow> bool" where
  "leap_year y \<longleftrightarrow> 4 dvd y \<and> (\<not> 100 dvd y \<or> 400 dvd y)"

definition days_in_month :: "int \<Rightarrow> int \<Rightarrow> int" where
  "days_in_month y m =
     (if m = 2 then (if leap_year y then 29 else 28)
      else if m = 4 \<or> m = 6 \<or> m = 9 \<or> m = 11 then 30 else 31)"

definition days_before_month :: "int \<Rightarrow> int \<Rightarrow> int" where
  "days_before_month y m = (\<Sum>k\<leftarrow>[1..m - 1]. days_in_month y k)"

text \<open>Days since 1970-01-01 of a proleptic Gregorian date.\<close>

definition epoch_day :: "int \<Rightarrow> int \<Rightarrow> int \<Rightarrow> int" where
  "epoch_day y m d =
     (y - 1) * 365 + (y - 1) div 4 - (y - 1) div 100 + (y - 1) div 400
     + days_before_month y m + d - 719163"

definition read_date :: "string \<Rightarrow> (int \<times> string) option" where
  "read_date s = do {
     (y, s) \<leftarrow> read_digits 4 0 s;
     s \<leftarrow> expect_char (CHR ''-'') s;
     (m, s) \<leftarrow> read_digits 2 0 s;
     s \<leftarrow> expect_char (CHR ''-'') s;
     (d, s) \<leftarrow> read_digits 2 0 s;
     if 1 \<le> y \<and> 1 \<le> m \<and> m \<le> 12 \<and> 1 \<le> d \<and> d \<le> days_in_month y m
     then Some (epoch_day y m d, s) else None }"

fun read_fraction :: "nat \<Rightarrow> int \<Rightarrow> string \<Rightarrow> int \<times> string" where
  "read_fraction k acc [] = (acc * 10 ^ k, [])"
| "read_fraction k acc (c # s) =
     (case digit_val c of
        None \<Rightarrow> (acc * 10 ^ k, c # s)
      | Some d \<Rightarrow> (case k of 0 \<Rightarrow> read_fraction 0 acc s
                   | Suc j \<Rightarrow> read_fraction j (10 * acc + d) s))"

text \<open>\<open>HH[:MM[:SS[.f]]]\<close> as microseconds.\<close>

definition read_clock :: "string \<Rightarrow> (int \<times> string) option" where
  "read_clock s = do {
     (h, s) \<leftarrow> read_digits 2 0 s;
     (m, s, more) \<leftarrow> (case expect_char (CHR '':'') s of
        None \<Rightarrow> Some (0, s, False)
      | Some r \<Rightarrow> (case read_digits 2 0 r of None \<Rightarrow> None | Some (m, r) \<Rightarrow> Some (m, r, True)));
     (sec, s, more) \<leftarrow> (case (if more then expect_char (CHR '':'') s else None) of
        None \<Rightarrow> Some (0, s, False)
      | Some r \<Rightarrow> (case read_digits 2 0 r of None \<Rightarrow> None | Some (x, r) \<Rightarrow> Some (x, r, True)));
     (f, s) \<leftarrow> (case (if more then expect_char (CHR ''.'') s else None) of
        None \<Rightarrow> Some (0, s)
      | Some [] \<Rightarrow> None
      | Some (c # r) \<Rightarrow> (if digit_val c = None then None else Some (read_fraction 6 0 (c # r))));
     if h < 24 \<and> m < 60 \<and> sec < 60
     then Some (((h * 60 + m) * 60 + sec) * usec + f, s) else None }"

definition read_offset :: "string \<Rightarrow> (int option) option" where
  "read_offset s = (case s of
     [] \<Rightarrow> Some None
   | c # r \<Rightarrow>
       (if c = CHR ''+'' \<or> c = CHR ''-'' then
          (case read_clock r of
             Some (off, []) \<Rightarrow> Some (Some (if c = CHR ''-'' then - off else off))
           | _ \<Rightarrow> None)
        else None))"

definition fromisoformat :: "string \<Rightarrow> py_datetime option" where
  "fromisoformat s = (case read_date s of
     None \<Rightarrow> None
   | Some (day, []) \<Rightarrow> Some \<lparr>dt_wall = day * day_usec, dt_offset = None\<rparr>
   | Some (day, _ # r) \<Rightarrow>
       (case read_clock r of
          None \<Rightarrow> None
        | Some (t, z) \<Rightarrow>
            map_option (\<lambda>off. \<lparr>dt_wall = day * day_usec + t, dt_offset = off\<rparr>) (read_offset z)))"

lemma fromisoformat_example:
  "fromisoformat ''2026-11-03T21:00:00+00:00''
     = Some \<lparr>dt_wall = 1793739600 * usec, dt_offset = Some 0\<rparr>"
  by code_simp

end
