(* ===== verification/Freshness.thy ===== *)
theory Freshness
  imports Prelude
begin

text \<open>
  The per-file decisions of the repository auto-refresh
  (\<open>apiome-rest/src/app/repository_refresh_comparator.py\<close>,
  \<open>repository_refresh_status.py\<close> and \<open>repository_checksum_idempotency.py\<close>):
  the newer-than comparator, the materialised status of a file, and the content-checksum
  guard that turns the comparator's verdict into an action. Every enumeration has the
  members of the source; the keyword arguments of the source are positional here, in the
  source's order.
\<close>

section \<open>The newer-than comparator\<close>

datatype refresh_reason =
  NEWER_CONTENT | IDEMPOTENT | STALE | CHECKSUM_FALLBACK_CHANGED
| CHECKSUM_FALLBACK_UNCHANGED | NO_PRIOR_IMPORT

record refresh_decision =
  should_refresh :: bool
  rd_reason :: refresh_reason
  used_timestamp :: bool

text \<open>A trailing \<open>Z\<close> or \<open>z\<close> becomes an explicit zero offset before the text is read.\<close>

definition zulu_to_offset :: "string \<Rightarrow> string" where
  "zulu_to_offset raw =
     (if raw \<noteq> [] \<and> (last raw = CHR ''Z'' \<or> last raw = CHR ''z'')
      then butlast raw @ ''+00:00'' else raw)"

fun parse_timestamp :: "timestamp \<Rightarrow> py_datetime option" where
  "parse_timestamp TsNone = None"
| "parse_timestamp (TsDatetime dt) = Some (with_utc dt)"
| "parse_timestamp (TsText value) =
     (let raw = strip value
      in if raw = [] then None
         else (case fromisoformat (zulu_to_offset raw) of
                 None \<Rightarrow> None
               | Some dt \<Rightarrow> Some (with_utc dt)))"
| "parse_timestamp TsOther = None"

definition normalise_checksum :: "string option \<Rightarrow> string option" where
  "normalise_checksum value =
     (case value of None \<Rightarrow> None | Some v \<Rightarrow> nonempty (strip v))"

definition evaluate_refresh ::
  "timestamp \<Rightarrow> timestamp \<Rightarrow> string option \<Rightarrow> string option \<Rightarrow> refresh_decision" where
  "evaluate_refresh remote_committed_at last_imported_committed_at
      remote_checksum last_imported_checksum =
     (let remote_ts = parse_timestamp remote_committed_at;
          last_ts = parse_timestamp last_imported_committed_at;
          remote_sum = normalise_checksum remote_checksum;
          last_sum = normalise_checksum last_imported_checksum
      in if last_ts = None \<and> last_sum = None then
           \<lparr>should_refresh = True, rd_reason = NO_PRIOR_IMPORT, used_timestamp = False\<rparr>
         else
           (let content_differs = (remote_sum \<noteq> last_sum)
            in case (remote_ts, last_ts) of
                 (Some r, Some l) \<Rightarrow>
                   (if instant r > instant l then
                      (if content_differs
                       then \<lparr>should_refresh = True, rd_reason = NEWER_CONTENT, used_timestamp = True\<rparr>
                       else \<lparr>should_refresh = False, rd_reason = IDEMPOTENT, used_timestamp = True\<rparr>)
                    else \<lparr>should_refresh = False, rd_reason = STALE, used_timestamp = True\<rparr>)
               | _ \<Rightarrow>
                   (if content_differs
                    then \<lparr>should_refresh = True, rd_reason = CHECKSUM_FALLBACK_CHANGED,
                          used_timestamp = False\<rparr>
                    else \<lparr>should_refresh = False, rd_reason = CHECKSUM_FALLBACK_UNCHANGED,
                          used_timestamp = False\<rparr>)))"

section \<open>The materialised status\<close>

datatype refresh_status = UP_TO_DATE | RS_STALE | REFRESHING | FAILED | DIVERGED

definition compute_refresh_status ::
  "timestamp \<Rightarrow> timestamp \<Rightarrow> string option \<Rightarrow> string option \<Rightarrow> bool \<Rightarrow> bool \<Rightarrow> bool
     \<Rightarrow> refresh_status" where
  "compute_refresh_status remote_committed_at last_imported_committed_at
      remote_checksum last_imported_checksum is_refreshing last_refresh_failed diverged =
     (if is_refreshing then REFRESHING
      else if diverged then DIVERGED
      else if last_refresh_failed then FAILED
      else if should_refresh (evaluate_refresh remote_committed_at last_imported_committed_at
                                remote_checksum last_imported_checksum)
           then RS_STALE else UP_TO_DATE)"

section \<open>The checksum idempotency guard\<close>

datatype refresh_action = REIMPORT | ADVANCE_ANCHOR_ONLY | SKIP

datatype idempotency_reason =
  FIRST_IMPORT | CONTENT_CHANGED | UNCHANGED_CHECKSUM | IR_STALE | UNCHANGED

record idempotency_outcome =
  io_action :: refresh_action
  io_reason :: idempotency_reason
  advance_committed_anchor :: bool

definition evaluate_checksum_idempotency ::
  "refresh_decision \<Rightarrow> string option \<Rightarrow> string option \<Rightarrow> idempotency_outcome" where
  "evaluate_checksum_idempotency decision remote_content_checksum last_imported_content_checksum =
     (let reason = rd_reason decision
      in if reason = NO_PRIOR_IMPORT then
           \<lparr>io_action = REIMPORT, io_reason = FIRST_IMPORT, advance_committed_anchor = False\<rparr>
         else if reason = STALE then
           \<lparr>io_action = SKIP, io_reason = IR_STALE, advance_committed_anchor = False\<rparr>
         else
           (let newer_commit = (reason = NEWER_CONTENT \<or> reason = IDEMPOTENT)
            in case (normalise_checksum remote_content_checksum,
                     normalise_checksum last_imported_content_checksum) of
                 (Some remote_sum, Some last_sum) \<Rightarrow>
                   (if remote_sum = last_sum then
                      (if newer_commit
                       then \<lparr>io_action = ADVANCE_ANCHOR_ONLY, io_reason = UNCHANGED_CHECKSUM,
                             advance_committed_anchor = True\<rparr>
                       else \<lparr>io_action = SKIP, io_reason = UNCHANGED,
                             advance_committed_anchor = False\<rparr>)
                    else \<lparr>io_action = REIMPORT, io_reason = CONTENT_CHANGED,
                          advance_committed_anchor = newer_commit\<rparr>)
               | _ \<Rightarrow>
                   (if should_refresh decision
                    then \<lparr>io_action = REIMPORT, io_reason = CONTENT_CHANGED,
                          advance_committed_anchor = newer_commit\<rparr>
                    else \<lparr>io_action = SKIP, io_reason = UNCHANGED,
                          advance_committed_anchor = False\<rparr>)))"

definition guard_refresh ::
  "timestamp \<Rightarrow> timestamp \<Rightarrow> string option \<Rightarrow> string option \<Rightarrow> string option \<Rightarrow> string option
     \<Rightarrow> idempotency_outcome" where
  "guard_refresh remote_committed_at last_imported_committed_at remote_blob_sha
      last_imported_blob_sha remote_content_checksum last_imported_content_checksum =
     evaluate_checksum_idempotency
       (evaluate_refresh remote_committed_at last_imported_committed_at
          remote_blob_sha last_imported_blob_sha)
       remote_content_checksum last_imported_content_checksum"

section \<open>Facts about the comparator\<close>

lemmas decision_defs [refresh_simps] = evaluate_refresh_def Let_def

text \<open>The three lemmas below are the whole decision table; later proofs use them only.\<close>

lemma evaluate_refresh_timed:
  assumes "parse_timestamp rt = Some r" and "parse_timestamp lt = Some l"
  shows "evaluate_refresh rt lt rc lc =
    (if instant l < instant r then
       (if normalise_checksum rc \<noteq> normalise_checksum lc
        then \<lparr>should_refresh = True, rd_reason = NEWER_CONTENT, used_timestamp = True\<rparr>
        else \<lparr>should_refresh = False, rd_reason = IDEMPOTENT, used_timestamp = True\<rparr>)
     else \<lparr>should_refresh = False, rd_reason = STALE, used_timestamp = True\<rparr>)"
  using assms by (simp add: refresh_simps)

lemma evaluate_refresh_first:
  assumes "parse_timestamp lt = None" and "normalise_checksum lc = None"
  shows "evaluate_refresh rt lt rc lc =
    \<lparr>should_refresh = True, rd_reason = NO_PRIOR_IMPORT, used_timestamp = False\<rparr>"
  using assms by (simp add: refresh_simps)

lemma evaluate_refresh_fallback:
  assumes "parse_timestamp rt = None \<or> parse_timestamp lt = None"
    and "\<not> (parse_timestamp lt = None \<and> normalise_checksum lc = None)"
  shows "evaluate_refresh rt lt rc lc =
    (if normalise_checksum rc \<noteq> normalise_checksum lc
     then \<lparr>should_refresh = True, rd_reason = CHECKSUM_FALLBACK_CHANGED, used_timestamp = False\<rparr>
     else \<lparr>should_refresh = False, rd_reason = CHECKSUM_FALLBACK_UNCHANGED, used_timestamp = False\<rparr>)"
  using assms by (auto simp: refresh_simps split: option.splits)

lemma evaluate_refresh_cases:
  obtains (first) "parse_timestamp lt = None" "normalise_checksum lc = None"
  | (timed) r l where "parse_timestamp rt = Some r" "parse_timestamp lt = Some l"
  | (fallback) "parse_timestamp rt = None \<or> parse_timestamp lt = None"
      "\<not> (parse_timestamp lt = None \<and> normalise_checksum lc = None)"
  by (cases "parse_timestamp rt"; cases "parse_timestamp lt"; cases "normalise_checksum lc") auto


lemma normalise_checksum_cases:
  "normalise_checksum x = None \<longleftrightarrow> x = None \<or> (\<exists>v. x = Some v \<and> strip v = [])"
  by (auto simp: normalise_checksum_def split: option.splits)

section \<open>Facts about the guard\<close>

lemma guard_refresh_timed_old:
  assumes "parse_timestamp rt = Some r" and "parse_timestamp lt = Some l"
    and "instant r \<le> instant l"
  shows "guard_refresh rt lt rb lb rc lc =
    \<lparr>io_action = SKIP, io_reason = IR_STALE, advance_committed_anchor = False\<rparr>"
  using assms
  by (simp add: guard_refresh_def evaluate_refresh_timed evaluate_checksum_idempotency_def)

lemma evaluate_refresh_newer_iff:
  "rd_reason (evaluate_refresh rt lt rc lc) \<in> {NEWER_CONTENT, IDEMPOTENT} \<longleftrightarrow>
     (\<exists>r l. parse_timestamp rt = Some r \<and> parse_timestamp lt = Some l \<and> instant l < instant r)"
  by (cases rule: evaluate_refresh_cases[where lt = lt and lc = lc and rt = rt])
     (auto simp: evaluate_refresh_first evaluate_refresh_timed evaluate_refresh_fallback)

lemma idempotency_advance:
  "advance_committed_anchor (evaluate_checksum_idempotency d rc lc) \<Longrightarrow>
     rd_reason d \<in> {NEWER_CONTENT, IDEMPOTENT}"
  by (auto simp: evaluate_checksum_idempotency_def Let_def split: if_splits option.splits)

lemma idempotency_reimport:
  "io_action (evaluate_checksum_idempotency d rc lc) = REIMPORT \<longleftrightarrow>
     rd_reason d = NO_PRIOR_IMPORT \<or>
     (rd_reason d \<noteq> STALE \<and>
       (if normalise_checksum rc = None \<or> normalise_checksum lc = None
        then should_refresh d else normalise_checksum rc \<noteq> normalise_checksum lc))"
  by (auto simp: evaluate_checksum_idempotency_def Let_def split: option.splits)

section \<open>Properties\<close>

text \<open>a file whose observed commit is not newer than the imported one is never pulled: the
  comparator refuses it and the combined guard skips it and leaves the recency anchor alone,
  whatever the blob and content checksums say.\<close>

theorem stale_commit_never_pulled:
  assumes "parse_timestamp rt = Some r" and "parse_timestamp lt = Some l"
    and "instant r \<le> instant l"
  shows "\<not> should_refresh (evaluate_refresh rt lt rb lb)
    \<and> io_action (guard_refresh rt lt rb lb rc lc) = SKIP
    \<and> \<not> advance_committed_anchor (guard_refresh rt lt rb lb rc lc)"
  using assms by (simp add: evaluate_refresh_timed guard_refresh_timed_old)

theorem stale_commit_never_pulled_witness:
  "\<not> should_refresh (evaluate_refresh (TsText ''2026-01-01T10:00:00Z'')
        (TsText ''2026-01-01T12:00:00+01:00'') (Some ''aaa'') (Some ''bbb''))
    \<and> io_action (guard_refresh (TsText ''2026-01-01T10:00:00Z'')
        (TsText ''2026-01-01T12:00:00+01:00'') (Some ''aaa'') (Some ''bbb'')
        (Some ''x'') (Some ''y'')) = SKIP
    \<and> \<not> advance_committed_anchor (guard_refresh (TsText ''2026-01-01T10:00:00Z'')
        (TsText ''2026-01-01T12:00:00+01:00'') (Some ''aaa'') (Some ''bbb'')
        (Some ''x'') (Some ''y''))"
proof (rule stale_commit_never_pulled)
  show "parse_timestamp (TsText ''2026-01-01T10:00:00Z'')
    = Some \<lparr>dt_wall = 1767261600 * usec, dt_offset = Some 0\<rparr>"
    by code_simp
  show "parse_timestamp (TsText ''2026-01-01T12:00:00+01:00'')
    = Some \<lparr>dt_wall = 1767268800 * usec, dt_offset = Some hour_usec\<rparr>"
    by code_simp
  show "instant \<lparr>dt_wall = 1767261600 * usec, dt_offset = Some 0\<rparr>
    \<le> instant \<lparr>dt_wall = 1767268800 * usec, dt_offset = Some hour_usec\<rparr>"
    by (simp add: instant_def)
qed

text \<open>the recency anchor only moves forward: whenever the guard tells the dispatcher to
  advance it, both commit times are known and the observed one is strictly later.\<close>

theorem anchor_moves_forward:
  assumes "advance_committed_anchor (guard_refresh rt lt rb lb rc lc)"
  shows "\<exists>r l. parse_timestamp rt = Some r \<and> parse_timestamp lt = Some l \<and> instant l < instant r"
  using assms idempotency_advance evaluate_refresh_newer_iff
  unfolding guard_refresh_def by blast

theorem anchor_moves_forward_witness:
  "\<exists>r l. parse_timestamp (TsText ''2026-01-02'') = Some r
     \<and> parse_timestamp (TsText ''2026-01-01'') = Some l \<and> instant l < instant r"
  by (rule anchor_moves_forward
        [where rb = "Some ''a''" and lb = "Some ''b''" and rc = "Some ''c''" and lc = "Some '' c ''"])
     code_simp

text \<open>No version churn: once a refresh has stored the observed signals as the import
  anchor, evaluating the same remote state again does nothing. The one exception is a file
  with neither a readable commit time nor a blob identity, which can leave no anchor and is
  imported again at every evaluation. When the commit time is known this holds even if only
  the time was advanced and the stored checksums are older ones.\<close>

theorem refresh_is_quiescent:
  "io_action (guard_refresh t t b b c c) =
     (if parse_timestamp t = None \<and> normalise_checksum b = None then REIMPORT else SKIP)
   \<and> (parse_timestamp t \<noteq> None \<longrightarrow> io_action (guard_refresh t t b b' c c') = SKIP)"
proof (intro conjI impI)
  show "io_action (guard_refresh t t b b c c) =
     (if parse_timestamp t = None \<and> normalise_checksum b = None then REIMPORT else SKIP)"
    by (cases rule: evaluate_refresh_cases[where lt = t and lc = b and rt = t])
       (auto simp: guard_refresh_def evaluate_refresh_first evaluate_refresh_timed
          evaluate_refresh_fallback evaluate_checksum_idempotency_def split: option.splits)
  show "io_action (guard_refresh t t b b' c c') = SKIP" if "parse_timestamp t \<noteq> None"
    using that guard_refresh_timed_old by fastforce
qed

theorem refresh_is_quiescent_witness:
  "io_action (guard_refresh (TsText ''2026-01-02'') (TsText ''2026-01-02'')
      (Some ''blob1'') (Some ''blob0'') (Some ''sum1'') (Some ''sum0'')) = SKIP"
proof -
  have "parse_timestamp (TsText ''2026-01-02'') \<noteq> None"
    by code_simp
  with refresh_is_quiescent[of "TsText ''2026-01-02''" "Some ''blob1''" "Some ''sum1''"
      "Some ''blob0''" "Some ''sum0''"]
  show ?thesis by simp
qed

text \<open>Which refreshes create a version. The guard re-imports a first import, and otherwise
  only when the commit is not stale and the content is known to differ; without both content
  checksums the blob-level verdict stands. So a newer commit with identical content never
  creates a version.\<close>

theorem reimport_exactly_on_new_content:
  "io_action (guard_refresh rt lt rb lb rc lc) = REIMPORT \<longleftrightarrow>
     (parse_timestamp lt = None \<and> normalise_checksum lb = None) \<or>
     (\<not> (\<exists>r l. parse_timestamp rt = Some r \<and> parse_timestamp lt = Some l \<and> instant r \<le> instant l)
      \<and> (case (normalise_checksum rc, normalise_checksum lc) of
           (Some x, Some y) \<Rightarrow> x \<noteq> y
         | _ \<Rightarrow> normalise_checksum rb \<noteq> normalise_checksum lb))"
  by (cases rule: evaluate_refresh_cases[where lt = lt and lc = lb and rt = rt])
     (auto simp: guard_refresh_def evaluate_refresh_first evaluate_refresh_timed
        evaluate_refresh_fallback idempotency_reimport split: option.splits)

end
