(* ===== verification/Cadence.thy ===== *)
theory Cadence
  imports Prelude Freshness "HOL-Library.Multiset" "HOL-Library.Char_ord"
    "HOL-Library.List_Lexorder" "HOL-Library.Product_Lexorder"
begin

text \<open>
  When a repository, or one of its branches, is refreshed
  (\<open>apiome-rest/src/app/repository_refresh_cadence.py\<close>, \<open>repository_refresh_backoff.py\<close>,
  \<open>mcp_discovery_backoff.py\<close> and \<open>repository_branch_refresh_policy.py\<close>): the effective
  interval and its floor, the due test, the two exponential back-off curves, and the branch
  rules with their globs. Text and tuples are ordered lexicographically, as in Python.
\<close>

section \<open>Cadence\<close>

definition resolve_refresh_interval :: "int option \<Rightarrow> int \<Rightarrow> int \<Rightarrow> int" where
  "resolve_refresh_interval configured_seconds floor_seconds default_seconds =
     (let flr = (if floor_seconds \<ge> 1 then floor_seconds else 1);
          interval = (case configured_seconds of
             None \<Rightarrow> default_seconds
           | Some c \<Rightarrow> (if c \<le> 0 then default_seconds else c))
      in if interval < flr then flr else interval)"

definition default_refresh_interval_seconds :: int where
  "default_refresh_interval_seconds = 300"

definition to_utc :: "py_datetime \<Rightarrow> py_datetime" where
  "to_utc d = \<lparr>dt_wall = instant d, dt_offset = Some 0\<rparr>"

definition as_utc :: "timestamp \<Rightarrow> py_datetime option" where
  "as_utc value = map_option to_utc (parse_timestamp value)"

text \<open>\<open>clock\<close> is what \<open>datetime.now(timezone.utc)\<close> returns when no usable \<open>now\<close> is given.\<close>

definition is_repository_due :: "timestamp \<Rightarrow> int \<Rightarrow> timestamp \<Rightarrow> py_datetime \<Rightarrow> bool" where
  "is_repository_due last_refreshed_at interval_seconds now clock =
     (case as_utc last_refreshed_at of
        None \<Rightarrow> True
      | Some prev \<Rightarrow>
          (let current = (case as_utc now of None \<Rightarrow> clock | Some c \<Rightarrow> c)
           in instant current - instant prev \<ge> interval_seconds * usec))"

section \<open>Back-off\<close>

definition max_backoff_exponent :: int where
  "max_backoff_exponent = 5"

definition compute_refresh_backoff_seconds :: "int \<Rightarrow> int \<Rightarrow> int \<Rightarrow> int" where
  "compute_refresh_backoff_seconds consecutive_failures interval_seconds max_seconds =
     (let interval = max 1 interval_seconds;
          ceiling_s = max interval max_seconds;
          exponent = min (max 0 consecutive_failures) max_backoff_exponent
      in min (interval * 2 ^ nat exponent) ceiling_s)"

definition should_auto_pause :: "int \<Rightarrow> int \<Rightarrow> bool" where
  "should_auto_pause consecutive_failures threshold \<longleftrightarrow>
     threshold > 0 \<and> consecutive_failures \<ge> threshold"

text \<open>The back-off of the MCP re-discovery sweep, on floating point seconds.\<close>

definition compute_backoff_seconds :: "int \<Rightarrow> rat \<Rightarrow> rat \<Rightarrow> rat option \<Rightarrow> rat" where
  "compute_backoff_seconds consecutive_failures base_seconds max_seconds retry_after_seconds =
     (let base = max 1 base_seconds;
          ceiling_s = max base max_seconds;
          steps = max 0 (consecutive_failures - 1);
          capped_steps = min steps 60;
          delay = min (base * 2 ^ nat capped_steps) ceiling_s
      in case retry_after_seconds of
           Some r \<Rightarrow> (if r > 0 then max delay r else delay)
         | None \<Rightarrow> delay)"

section \<open>Branch rules\<close>

record branch_refresh_rule =
  branch_pattern :: string
  refresh_enabled :: bool
  rule_interval_seconds :: "int option"
  rule_version_line :: "string option"

record effective_branch_refresh =
  eb_branch :: string
  eb_enabled :: bool
  eb_interval_seconds :: int
  eb_version_line :: "string option"
  eb_rule_pattern :: "string option"

definition glob_char :: "char \<Rightarrow> bool" where
  "glob_char c \<longleftrightarrow> c = CHR ''*'' \<or> c = CHR ''?''"

definition is_glob :: "string \<Rightarrow> bool" where
  "is_glob pattern \<longleftrightarrow> list_ex glob_char pattern"

text \<open>The regular expression of a glob: \<open>.*\<close>, \<open>[^/]*\<close>, \<open>[^/]\<close> or an escaped literal.\<close>

datatype glob_token = AnyChars | SegmentChars | OneChar | Literal char

fun glob_regex :: "string \<Rightarrow> glob_token list" where
  "glob_regex [] = []"
| "glob_regex [c] =
     [if c = CHR ''*'' then SegmentChars else if c = CHR ''?'' then OneChar else Literal c]"
| "glob_regex (c # d # cs) =
     (if c = CHR ''*'' \<and> d = CHR ''*'' then AnyChars # glob_regex cs
      else (if c = CHR ''*'' then SegmentChars else if c = CHR ''?'' then OneChar else Literal c)
             # glob_regex (d # cs))"

text \<open>\<open>re.match\<close> of \<open>^...$\<close>: the dot does not match a newline, and \<open>$\<close> also matches just before
  a final one.\<close>

fun token_match :: "glob_token list \<Rightarrow> string \<Rightarrow> bool" where
  "token_match [] s \<longleftrightarrow> s = [] \<or> s = [CHR 0x0A]"
| "token_match (AnyChars # ts) s \<longleftrightarrow> token_match ts s \<or>
     (case s of [] \<Rightarrow> False | c # cs \<Rightarrow> c \<noteq> CHR 0x0A \<and> token_match (AnyChars # ts) cs)"
| "token_match (SegmentChars # ts) s \<longleftrightarrow> token_match ts s \<or>
     (case s of [] \<Rightarrow> False | c # cs \<Rightarrow> c \<noteq> CHR ''/'' \<and> token_match (SegmentChars # ts) cs)"
| "token_match (OneChar # ts) s \<longleftrightarrow>
     (case s of [] \<Rightarrow> False | c # cs \<Rightarrow> c \<noteq> CHR ''/'' \<and> token_match ts cs)"
| "token_match (Literal x # ts) s \<longleftrightarrow>
     (case s of [] \<Rightarrow> False | c # cs \<Rightarrow> c = x \<and> token_match ts cs)"

definition pattern_matches :: "string \<Rightarrow> string \<Rightarrow> bool" where
  "pattern_matches pattern branch =
     (if \<not> is_glob pattern then pattern = branch else token_match (glob_regex pattern) branch)"

definition specificity :: "string \<Rightarrow> nat \<times> int \<times> string" where
  "specificity pattern =
     (let literal = length (filter (\<lambda>ch. \<not> glob_char ch) pattern)
      in (if \<not> is_glob pattern then 0 else 1, - int literal, pattern))"

text \<open>Python's \<open>min(xs, key=f)\<close>: the first element with the least key.\<close>

fun min_key :: "('a \<Rightarrow> 'k::linorder) \<Rightarrow> 'a \<Rightarrow> 'a list \<Rightarrow> 'a" where
  "min_key f best [] = best"
| "min_key f best (x # xs) = min_key f (if f x < f best then x else best) xs"

definition resolve_branch_rule ::
  "branch_refresh_rule list \<Rightarrow> string \<Rightarrow> branch_refresh_rule option" where
  "resolve_branch_rule rules branch =
     (case filter (\<lambda>rule. pattern_matches (branch_pattern rule) branch) rules of
        [] \<Rightarrow> None
      | r # rs \<Rightarrow> Some (min_key (\<lambda>rule. specificity (branch_pattern rule)) r rs))"

definition effective_branch_refresh ::
  "branch_refresh_rule list \<Rightarrow> string \<Rightarrow> bool \<Rightarrow> int option \<Rightarrow> int \<Rightarrow> effective_branch_refresh" where
  "effective_branch_refresh rules branch repository_enabled repository_interval_seconds
      floor_seconds =
     (let rule = resolve_branch_rule rules branch;
          interval = (case rule of
             Some r \<Rightarrow> (if rule_interval_seconds r \<noteq> None then rule_interval_seconds r
                        else repository_interval_seconds)
           | None \<Rightarrow> repository_interval_seconds)
      in \<lparr>eb_branch = branch,
          eb_enabled = (repository_enabled \<and> (case rule of None \<Rightarrow> True | Some r \<Rightarrow> refresh_enabled r)),
          eb_interval_seconds =
            resolve_refresh_interval interval floor_seconds default_refresh_interval_seconds,
          eb_version_line = (case rule of None \<Rightarrow> None | Some r \<Rightarrow> rule_version_line r),
          eb_rule_pattern = map_option branch_pattern rule\<rparr>)"

definition is_branch_due :: "py_datetime option \<Rightarrow> int \<Rightarrow> py_datetime \<Rightarrow> bool" where
  "is_branch_due last_refreshed_at interval_seconds clock =
     is_repository_due
       (case last_refreshed_at of None \<Rightarrow> TsNone | Some d \<Rightarrow> TsDatetime d)
       interval_seconds TsNone clock"

text \<open>Validation of a submitted rule: \<open>Inl\<close> is the \<open>ValueError\<close>.\<close>

datatype rule_error =
  PatternRequired | PatternWhitespace | PatternSlash | LineTooLong | LineCharacters

definition validate_branch_pattern :: "string \<Rightarrow> rule_error + string" where
  "validate_branch_pattern pattern =
     (let t = strip pattern
      in if t = [] then Inl PatternRequired
         else if list_ex py_space t then Inl PatternWhitespace
         else if hd t = CHR ''/'' \<or> last t = CHR ''/'' then Inl PatternSlash
         else Inr t)"

definition alnum :: "char \<Rightarrow> bool" where
  "alnum c = (let n = (of_char c :: nat)
     in 65 \<le> n \<and> n \<le> 90 \<or> 97 \<le> n \<and> n \<le> 122 \<or> 48 \<le> n \<and> n \<le> 57)"

definition version_line_pattern :: "string \<Rightarrow> bool" where
  "version_line_pattern t =
     (case t of [] \<Rightarrow> False
      | c # cs \<Rightarrow> alnum c \<and>
          (let body = (if cs \<noteq> [] \<and> last cs = CHR 0x0A then butlast cs else cs)
           in list_all (\<lambda>x. alnum x \<or> x \<in> set ''._-'') body))"

definition validate_version_line :: "string option \<Rightarrow> rule_error + string option" where
  "validate_version_line line =
     (let t = strip (case line of None \<Rightarrow> [] | Some l \<Rightarrow> l)
      in if t = [] then Inr None
         else if length t > 64 then Inl LineTooLong
         else if \<not> version_line_pattern t then Inl LineCharacters
         else Inr (Some t))"

text \<open>A version row is its label and its creation instant.\<close>

definition label_in_line :: "string \<Rightarrow> string \<Rightarrow> bool" where
  "label_in_line label line \<longleftrightarrow> label = line \<or> take (length line + 1) label = line @ ''-''"

fun max_key :: "('a \<Rightarrow> 'k::linorder) \<Rightarrow> 'a \<Rightarrow> 'a list \<Rightarrow> 'a" where
  "max_key f best [] = best"
| "max_key f best (x # xs) = max_key f (if f best < f x then x else best) xs"

definition select_version_line_parent ::
  "(string \<times> int option) list \<Rightarrow> string \<Rightarrow> (string \<times> int option) option" where
  "select_version_line_parent versions line =
     (case filter (\<lambda>v. label_in_line (fst v) line) versions of
        [] \<Rightarrow> None
      | v # vs \<Rightarrow>
          Some (max_key (\<lambda>v. (snd v \<noteq> None, case snd v of None \<Rightarrow> 0 | Some t \<Rightarrow> t)) v vs))"


section \<open>Facts about cadence and back-off\<close>

lemma resolve_refresh_interval_floor: "resolve_refresh_interval c flr d \<ge> max flr 1"
  by (simp add: resolve_refresh_interval_def Let_def split: option.splits)

lemma instant_to_utc [simp]: "instant (to_utc d) = instant d"
  by (simp add: to_utc_def instant_def)

lemma is_branch_due_Some:
  "is_branch_due (Some d) i clock \<longleftrightarrow> instant clock - instant d \<ge> i * usec"
  by (simp add: is_branch_due_def is_repository_due_def as_utc_def)

lemma backoff_mono:
  assumes "n \<le> n'"
  shows "compute_refresh_backoff_seconds n i m \<le> compute_refresh_backoff_seconds n' i m"
proof -
  have e: "nat (min (max 0 n) max_backoff_exponent) \<le> nat (min (max 0 n') max_backoff_exponent)"
    using assms by (intro nat_mono) (auto simp: min_def max_def)
  have "(2::int) ^ nat (min (max 0 n) max_backoff_exponent)
      \<le> 2 ^ nat (min (max 0 n') max_backoff_exponent)"
    using e by (rule power_increasing) simp
  then have "max 1 i * 2 ^ nat (min (max 0 n) max_backoff_exponent)
      \<le> max 1 i * 2 ^ nat (min (max 0 n') max_backoff_exponent)"
    by (intro mult_left_mono) auto
  then show ?thesis
    unfolding compute_refresh_backoff_seconds_def Let_def by (intro min.mono) auto
qed

lemma backoff_at_least_interval: "max 1 i \<le> compute_refresh_backoff_seconds n i m"
proof -
  have "(1::int) \<le> 2 ^ nat (min (max 0 n) max_backoff_exponent)"
    by (rule one_le_power) simp
  then have "max 1 i * 1 \<le> max 1 i * 2 ^ nat (min (max 0 n) max_backoff_exponent)"
    by (intro mult_left_mono) auto
  then show ?thesis
    by (auto simp: compute_refresh_backoff_seconds_def Let_def)
qed

lemma backoff_at_most: "compute_refresh_backoff_seconds n i m \<le> min (32 * max 1 i) (max (max 1 i) m)"
proof -
  have "nat (min (max 0 n) max_backoff_exponent) \<le> 5"
    by (simp add: max_backoff_exponent_def)
  then have "(2::int) ^ nat (min (max 0 n) max_backoff_exponent) \<le> 2 ^ 5"
    by (rule power_increasing) simp
  then have "max 1 i * 2 ^ nat (min (max 0 n) max_backoff_exponent) \<le> max 1 i * 32"
    by (intro mult_left_mono) auto
  then show ?thesis
    unfolding compute_refresh_backoff_seconds_def Let_def
    by (simp add: min.coboundedI1 mult.commute)
qed

section \<open>Facts about globs and rules\<close>

fun token_accepts :: "glob_token \<Rightarrow> string \<Rightarrow> bool" where
  "token_accepts AnyChars w \<longleftrightarrow> CHR 0x0A \<notin> set w"
| "token_accepts SegmentChars w \<longleftrightarrow> CHR ''/'' \<notin> set w"
| "token_accepts OneChar w \<longleftrightarrow> (\<exists>c. w = [c] \<and> c \<noteq> CHR ''/'')"
| "token_accepts (Literal x) w \<longleftrightarrow> w = [x]"

definition token_language :: "glob_token list \<Rightarrow> string \<Rightarrow> bool" where
  "token_language ts s \<longleftrightarrow>
     (\<exists>ws e. list_all2 token_accepts ts ws \<and> s = concat ws @ e \<and> (e = [] \<or> e = [CHR 0x0A]))"

lemma token_language_Nil: "token_language [] s \<longleftrightarrow> s = [] \<or> s = [CHR 0x0A]"
  by (auto simp: token_language_def)

lemma token_language_Cons:
  "token_language (t # ts) s \<longleftrightarrow> (\<exists>w r. token_accepts t w \<and> token_language ts r \<and> s = w @ r)"
  by (fastforce simp: token_language_def list_all2_Cons1)

lemma token_language_star:
  assumes acc: "\<And>w. token_accepts t w \<longleftrightarrow> x \<notin> set w"
  shows "token_language (t # ts) s \<longleftrightarrow> token_language ts s \<or>
     (case s of [] \<Rightarrow> False | c # cs \<Rightarrow> c \<noteq> x \<and> token_language (t # ts) cs)"
proof
  assume "token_language (t # ts) s"
  then obtain w r where w: "x \<notin> set w" "token_language ts r" "s = w @ r"
    by (auto simp: token_language_Cons acc)
  then show "token_language ts s \<or>
     (case s of [] \<Rightarrow> False | c # cs \<Rightarrow> c \<noteq> x \<and> token_language (t # ts) cs)"
    by (cases w) (auto simp: token_language_Cons acc)
next
  assume "token_language ts s \<or>
     (case s of [] \<Rightarrow> False | c # cs \<Rightarrow> c \<noteq> x \<and> token_language (t # ts) cs)"
  then show "token_language (t # ts) s"
  proof
    assume "token_language ts s"
    then show ?thesis
      unfolding token_language_Cons acc by (intro exI[of _ "[]"] exI[of _ s]) simp
  next
    assume "case s of [] \<Rightarrow> False | c # cs \<Rightarrow> c \<noteq> x \<and> token_language (t # ts) cs"
    then obtain c cs w r where "s = c # cs" "c \<noteq> x" "x \<notin> set w" "token_language ts r" "cs = w @ r"
      by (cases s) (auto simp: token_language_Cons acc)
    then show ?thesis
      unfolding token_language_Cons acc by (intro exI[of _ "c # w"] exI[of _ r]) auto
  qed
qed

lemma token_match_language: "token_match ts s \<longleftrightarrow> token_language ts s"
proof (induction ts s rule: token_match.induct)
  case (1 s)
  then show ?case by (simp add: token_language_Nil)
next
  case (2 ts s)
  have "token_language (AnyChars # ts) s \<longleftrightarrow> token_language ts s \<or>
     (case s of [] \<Rightarrow> False | c # cs \<Rightarrow> c \<noteq> CHR 0x0A \<and> token_language (AnyChars # ts) cs)"
    by (rule token_language_star) simp
  with 2 show ?case by (auto split: list.splits)
next
  case (3 ts s)
  have "token_language (SegmentChars # ts) s \<longleftrightarrow> token_language ts s \<or>
     (case s of [] \<Rightarrow> False | c # cs \<Rightarrow> c \<noteq> CHR ''/'' \<and> token_language (SegmentChars # ts) cs)"
    by (rule token_language_star) simp
  with 3 show ?case by (auto split: list.splits)
next
  case (4 ts s)
  then show ?case by (auto simp: token_language_Cons Cons_eq_append_conv split: list.splits)
next
  case (5 x ts s)
  then show ?case by (auto simp: token_language_Cons Cons_eq_append_conv split: list.splits)
qed

lemma min_key_in: "min_key f x xs \<in> set (x # xs)"
  by (induction f x xs rule: min_key.induct) (auto split: if_splits)

lemma min_key_le: "y \<in> set (x # xs) \<Longrightarrow> f (min_key f x xs) \<le> f y"
proof (induction f x xs arbitrary: y rule: min_key.induct)
  case (2 f best x xs)
  show ?case
  proof (cases "y \<in> set xs")
    case True
    then show ?thesis using "2.IH"[of y] by simp
  next
    case False
    with "2.prems" have "y = best \<or> y = x" by auto
    then show ?thesis
      using "2.IH"[of "if f x < f best then x else best"] by (auto split: if_splits)
  qed
qed simp

lemma max_key_in: "max_key f x xs \<in> set (x # xs)"
  by (induction f x xs rule: max_key.induct) (auto split: if_splits)

lemma max_key_ge: "y \<in> set (x # xs) \<Longrightarrow> f y \<le> f (max_key f x xs)"
proof (induction f x xs arbitrary: y rule: max_key.induct)
  case (2 f best x xs)
  show ?case
  proof (cases "y \<in> set xs")
    case True
    then show ?thesis using "2.IH"[of y] by simp
  next
    case False
    with "2.prems" have "y = best \<or> y = x" by auto
    then show ?thesis
      using "2.IH"[of "if f best < f x then x else best"] by (auto split: if_splits)
  qed
qed simp

lemma specificity_inj: "specificity p = specificity q \<Longrightarrow> p = q"
  by (simp add: specificity_def Let_def)

text \<open>The governing rule is a matching one of least key, and conversely.\<close>

lemma resolve_branch_rule_Some:
  assumes "resolve_branch_rule rules b = Some r"
  shows "r \<in> set rules" and "pattern_matches (branch_pattern r) b"
    and "\<And>q. q \<in> set rules \<Longrightarrow> pattern_matches (branch_pattern q) b \<Longrightarrow>
           specificity (branch_pattern r) \<le> specificity (branch_pattern q)"
proof -
  let ?m = "filter (\<lambda>rule. pattern_matches (branch_pattern rule) b) rules"
  obtain x xs where m: "?m = x # xs"
    and r: "r = min_key (\<lambda>rule. specificity (branch_pattern rule)) x xs"
    using assms by (auto simp: resolve_branch_rule_def split: list.splits)
  have "r \<in> set ?m"
    unfolding m r by (rule min_key_in)
  then show "r \<in> set rules" and "pattern_matches (branch_pattern r) b"
    by auto
  show "specificity (branch_pattern r) \<le> specificity (branch_pattern q)"
    if "q \<in> set rules" "pattern_matches (branch_pattern q) b" for q
  proof -
    have "q \<in> set (x # xs)" using that unfolding m[symmetric] by simp
    then show ?thesis unfolding r by (rule min_key_le)
  qed
qed

lemma resolve_branch_rule_None:
  "resolve_branch_rule rules b = None \<longleftrightarrow>
     (\<forall>q \<in> set rules. \<not> pattern_matches (branch_pattern q) b)"
  unfolding resolve_branch_rule_def filter_empty_conv[symmetric] by (simp split: list.splits)


section \<open>Properties\<close>

text \<open>the deferral after a failed refresh is never shorter than one interval, never longer than
  32 intervals nor than the cap (or one interval where the cap is smaller), grows with the
  number of consecutive failures, and doubles with each of the first five failures until the
  cap is reached.\<close>

theorem refresh_backoff_curve:
  assumes "n \<le> n'"
  shows "max 1 i \<le> compute_refresh_backoff_seconds n i m
    \<and> compute_refresh_backoff_seconds n i m \<le> min (32 * max 1 i) (max (max 1 i) m)
    \<and> compute_refresh_backoff_seconds n i m \<le> compute_refresh_backoff_seconds n' i m
    \<and> (0 \<le> n \<and> n < 5 \<and> 2 * compute_refresh_backoff_seconds n i m \<le> max (max 1 i) m \<longrightarrow>
        compute_refresh_backoff_seconds (n + 1) i m = 2 * compute_refresh_backoff_seconds n i m)"
proof (intro conjI impI)
  assume a: "0 \<le> n \<and> n < 5 \<and> 2 * compute_refresh_backoff_seconds n i m \<le> max (max 1 i) m"
  have e: "nat (min (max 0 (n + 1)) max_backoff_exponent) = Suc (nat (min (max 0 n) max_backoff_exponent))"
    using a by (auto simp: max_backoff_exponent_def min_def max_def)
  show "compute_refresh_backoff_seconds (n + 1) i m = 2 * compute_refresh_backoff_seconds n i m"
    using a unfolding compute_refresh_backoff_seconds_def Let_def e
    by (auto simp: min_def split: if_splits)
qed (use backoff_at_least_interval backoff_at_most backoff_mono[OF assms] in blast)+

theorem refresh_backoff_curve_witness:
  "300 \<le> compute_refresh_backoff_seconds 3 300 604800
    \<and> compute_refresh_backoff_seconds 3 300 604800 \<le> compute_refresh_backoff_seconds 8 300 604800
    \<and> compute_refresh_backoff_seconds 4 300 604800 = 2 * compute_refresh_backoff_seconds 3 300 604800"
proof -
  have c: "compute_refresh_backoff_seconds 3 300 604800 = 2400" by code_simp
  show ?thesis
    using refresh_backoff_curve[of 3 8 300 604800] unfolding c by simp
qed

text \<open>a glob denotes what its documentation says: a branch matches exactly when it splits into
  one piece per token of the pattern, \<open>**\<close> taking any characters, \<open>*\<close> any but a slash, \<open>?\<close> one
  character but a slash and every other character itself; a pattern without wildcards matches
  its own text only. Branch names have no newline.\<close>

theorem pattern_matches_language:
  assumes "CHR 0x0A \<notin> set branch"
  shows "pattern_matches pattern branch \<longleftrightarrow>
    (if is_glob pattern
     then \<exists>ws. list_all2 token_accepts (glob_regex pattern) ws \<and> branch = concat ws
     else branch = pattern)"
  using assms
  by (auto simp: pattern_matches_def token_match_language token_language_def)

theorem pattern_matches_language_witness:
  "pattern_matches ''release/*'' ''release/2.0'' \<and> \<not> pattern_matches ''release/*'' ''release/2.0/hotfix''
   \<and> (\<exists>ws. list_all2 token_accepts (glob_regex ''release/*'') ws \<and> ''release/2.0'' = concat ws)"
proof -
  have g: "is_glob ''release/*''" and m: "pattern_matches ''release/*'' ''release/2.0''"
    and n: "\<not> pattern_matches ''release/*'' ''release/2.0/hotfix''"
    by code_simp+
  show ?thesis
    using pattern_matches_language[of "''release/2.0''" "''release/*''"] g m n by simp
qed

text \<open>the rule that governs a branch does not depend on the order the rules are stored in, and a
  rule naming the branch exactly beats every glob. (A repository's rules have distinct
  patterns.)\<close>

theorem branch_rule_resolution:
  assumes "distinct (map branch_pattern rules)" and "mset rules' = mset rules"
  shows "resolve_branch_rule rules' b = resolve_branch_rule rules b
    \<and> (\<forall>r \<in> set rules. \<not> is_glob (branch_pattern r) \<and> branch_pattern r = b
          \<longrightarrow> resolve_branch_rule rules b = Some r)"
proof
  have set: "set rules' = set rules"
    using assms(2) by (metis set_mset_mset)
  have uniq: "q = r" if "q \<in> set rules" "r \<in> set rules" "branch_pattern q = branch_pattern r" for q r
    using assms(1) that by (simp add: distinct_map inj_on_def)
  show "resolve_branch_rule rules' b = resolve_branch_rule rules b"
  proof (cases "resolve_branch_rule rules b")
    case None
    then have "resolve_branch_rule rules' b = None"
      unfolding resolve_branch_rule_None set .
    with None show ?thesis by simp
  next
    case (Some r)
    then obtain q where q: "resolve_branch_rule rules' b = Some q"
      using resolve_branch_rule_None[of rules' b] resolve_branch_rule_Some(1,2)[OF Some] set by auto
    have "specificity (branch_pattern q) = specificity (branch_pattern r)"
      using resolve_branch_rule_Some[OF Some] resolve_branch_rule_Some[OF q] set by (metis antisym)
    then show ?thesis
      using uniq resolve_branch_rule_Some(1)[OF Some] resolve_branch_rule_Some(1)[OF q] set q Some
        specificity_inj by metis
  qed
  show "\<forall>r \<in> set rules. \<not> is_glob (branch_pattern r) \<and> branch_pattern r = b
          \<longrightarrow> resolve_branch_rule rules b = Some r"
  proof (intro ballI impI)
    fix r assume r: "r \<in> set rules" "\<not> is_glob (branch_pattern r) \<and> branch_pattern r = b"
    then have m: "pattern_matches (branch_pattern r) b" using r(2) by (auto simp: pattern_matches_def)
    then obtain q where q: "resolve_branch_rule rules b = Some q"
      using r resolve_branch_rule_None[of rules b] by auto
    have "specificity (branch_pattern q) \<le> specificity (branch_pattern r)"
      using resolve_branch_rule_Some(3)[OF q r(1) m] .
    then have "\<not> is_glob (branch_pattern q)"
      using r(2) by (auto simp: specificity_def Let_def less_eq_prod_def split: if_splits)
    then have "branch_pattern q = b"
      using resolve_branch_rule_Some(2)[OF q] by (simp add: pattern_matches_def)
    then show "resolve_branch_rule rules b = Some r"
      using uniq[of q r] r resolve_branch_rule_Some(1)[OF q] q by simp
  qed
qed

theorem branch_rule_resolution_witness:
  "let a = \<lparr>branch_pattern = ''release/*'', refresh_enabled = True, rule_interval_seconds = None,
            rule_version_line = None\<rparr>;
       m = \<lparr>branch_pattern = ''release/2'', refresh_enabled = False, rule_interval_seconds = Some 90,
            rule_version_line = None\<rparr>
   in resolve_branch_rule [a, m] ''release/2'' = Some m
    \<and> resolve_branch_rule [m, a] ''release/2'' = Some m"
  using branch_rule_resolution
    [of "[\<lparr>branch_pattern = ''release/*'', refresh_enabled = True, rule_interval_seconds = None,
            rule_version_line = None\<rparr>,
          \<lparr>branch_pattern = ''release/2'', refresh_enabled = False, rule_interval_seconds = Some 90,
            rule_version_line = None\<rparr>]"
        "[\<lparr>branch_pattern = ''release/2'', refresh_enabled = False, rule_interval_seconds = Some 90,
            rule_version_line = None\<rparr>,
          \<lparr>branch_pattern = ''release/*'', refresh_enabled = True, rule_interval_seconds = None,
            rule_version_line = None\<rparr>]" "''release/2''"]
  by (simp add: is_glob_def glob_char_def)

text \<open>no configuration makes a branch refresh faster than the floor: whatever the repository's
  interval, the rules and the (possibly misconfigured) floor, a branch that is due again was
  last refreshed at least the floor, and at least one second, ago; and no rule refreshes a
  branch of a repository whose master switch is off.\<close>

theorem branch_refresh_respects_floor:
  assumes "is_branch_due (Some prev)
      (eb_interval_seconds (effective_branch_refresh rules b enabled interval flr)) clock"
  shows "max flr 1 * usec \<le> instant clock - instant prev
    \<and> (eb_enabled (effective_branch_refresh rules b enabled interval flr) \<longrightarrow> enabled)"
proof -
  have "max flr 1 \<le> eb_interval_seconds (effective_branch_refresh rules b enabled interval flr)"
    unfolding effective_branch_refresh_def Let_def
    by (simp only: effective_branch_refresh.select_convs resolve_refresh_interval_floor)
  then have "max flr 1 * usec
      \<le> eb_interval_seconds (effective_branch_refresh rules b enabled interval flr) * usec"
    by (rule mult_right_mono) simp
  then show ?thesis
    using assms by (auto simp: is_branch_due_Some effective_branch_refresh_def Let_def)
qed

theorem branch_refresh_respects_floor_witness:
  "max 60 1 * usec \<le> instant \<lparr>dt_wall = 70 * usec, dt_offset = None\<rparr>
      - instant \<lparr>dt_wall = 0, dt_offset = None\<rparr>"
  using branch_refresh_respects_floor
    [of "\<lparr>dt_wall = 0, dt_offset = None\<rparr>"
        "[\<lparr>branch_pattern = ''main'', refresh_enabled = True, rule_interval_seconds = Some 5,
           rule_version_line = None\<rparr>]" "''main''" True "Some 3600" 60
        "\<lparr>dt_wall = 70 * usec, dt_offset = None\<rparr>"]
  by (simp add: is_branch_due_Some instant_def effective_branch_refresh_def Let_def
      resolve_branch_rule_def pattern_matches_def is_glob_def glob_char_def
      resolve_refresh_interval_def)

end
