(* ===== verification/Quota.thy ===== *)
theory Quota
  imports Cadence "HOL-Library.While_Combinator"
begin

text \<open>
  Fairness and polling quotas of the refresh sweep
  (\<open>apiome-rest/src/app/repository_refresh_quota.py\<close>) and the durable rolling-window counters
  behind the quota dashboard (\<open>repository_quota_window.py\<close> with the
  \<open>repository_quota_window\<close> table of \<open>database.py\<close>). The dashboard's labels and
  descriptions, constant texts, are left out of the projection; a calendar date is its day
  number since 1970-01-01.
\<close>

section \<open>Round robin over tenants\<close>

fun group_by_tenant ::
  "('r \<Rightarrow> string) \<Rightarrow> 'r list \<Rightarrow> (string, 'r list) dict \<Rightarrow> (string, 'r list) dict" where
  "group_by_tenant tenant [] by_tenant = by_tenant"
| "group_by_tenant tenant (row # rows) by_tenant =
     group_by_tenant tenant rows
       (AList.update (tenant row) (dict_default by_tenant (tenant row) [] @ [row]) by_tenant)"

definition take_round :: "'r list list \<Rightarrow> nat \<Rightarrow> 'r list" where
  "take_round queues depth =
     concat (map (\<lambda>queue. if depth < length queue then [queue ! depth] else []) queues)"

definition interleave_due_rows_by_tenant :: "('r \<Rightarrow> string) \<Rightarrow> 'r list \<Rightarrow> 'r list option" where
  "interleave_due_rows_by_tenant tenant rows =
     (let by_tenant = group_by_tenant tenant rows []
      in if length by_tenant \<le> 1 then Some rows
         else
           (let queues = map snd by_tenant
            in map_option fst
                 (while_option
                    (\<lambda>(interleaved, depth). length interleaved < length rows)
                    (\<lambda>(interleaved, depth). (interleaved @ take_round queues depth, depth + 1))
                    ([], 0))))"

section \<open>The quota of one tenant\<close>

definition default_tenant_quota_window_seconds :: int where
  "default_tenant_quota_window_seconds = 3600"

text \<open>\<open>None\<close> is \<open>UNLIMITED\<close>.\<close>

definition resolve_tenant_polls_per_hour :: "int option \<Rightarrow> int \<Rightarrow> int option" where
  "resolve_tenant_polls_per_hour configured default_quota =
     (let effective = (case configured of
            None \<Rightarrow> default_quota
          | Some c \<Rightarrow> (if c < 0 then default_quota else c))
      in if effective > 0 then Some effective else None)"

datatype quota_error = ValueError string

record quota_tracker =
  tq_quota :: int
  tq_used :: "(string, int) dict"
  tq_limits :: "(string, int option) dict"

definition tenant_refresh_quota_tracker ::
  "int \<Rightarrow> (string, int) dict \<Rightarrow> (string, int option) dict \<Rightarrow> quota_error + quota_tracker" where
  "tenant_refresh_quota_tracker default_quota used_by_tenant limits_by_tenant =
     (if default_quota \<le> 0
      then Inl (ValueError ''quota must be positive; disable with a None tracker'')
      else Inr \<lparr>
        tq_quota = default_quota,
        tq_used = map (\<lambda>(tenant, n). (tenant, max 0 n)) used_by_tenant,
        tq_limits = map (\<lambda>(tenant, limit).
            (tenant, resolve_tenant_polls_per_hour limit default_quota)) limits_by_tenant\<rparr>)"

definition quota_for :: "quota_tracker \<Rightarrow> string \<Rightarrow> int option" where
  "quota_for q tenant = dict_default (tq_limits q) tenant (Some (tq_quota q))"

definition remaining :: "quota_tracker \<Rightarrow> string \<Rightarrow> int option" where
  "remaining q tenant =
     (case quota_for q tenant of
        None \<Rightarrow> None
      | Some limit \<Rightarrow> Some (max 0 (limit - dict_default (tq_used q) tenant 0)))"

definition is_exhausted :: "quota_tracker \<Rightarrow> string \<Rightarrow> bool" where
  "is_exhausted q tenant = (case remaining q tenant of None \<Rightarrow> False | Some r \<Rightarrow> r \<le> 0)"

definition consume :: "quota_tracker \<Rightarrow> string \<Rightarrow> int \<Rightarrow> quota_tracker" where
  "consume q tenant jobs =
     (if jobs \<le> 0 then q
      else q\<lparr>tq_used := AList.update tenant (dict_default (tq_used q) tenant 0 + jobs) (tq_used q)\<rparr>)"

text \<open>The two database reads of the loader: \<open>None\<close> is a read that raised.\<close>

definition quota_window :: "int \<Rightarrow> int" where
  "quota_window configured =
     (if configured \<le> 0 then default_tenant_quota_window_seconds else configured)"

definition load_tenant_refresh_quota_tracker ::
  "int \<Rightarrow> int \<Rightarrow> (int \<Rightarrow> (string, int) dict option) \<Rightarrow> (string, int) dict option
     \<Rightarrow> quota_tracker option" where
  "load_tenant_refresh_quota_tracker quota_jobs quota_window_seconds count_recent polls_per_hour =
     (if quota_jobs \<le> 0 then None
      else (case count_recent (quota_window quota_window_seconds) of
          None \<Rightarrow> None
        | Some used \<Rightarrow>
            (let limits = (case polls_per_hour of None \<Rightarrow> [] | Some l \<Rightarrow> map (\<lambda>(t, n). (t, Some n)) l)
             in case tenant_refresh_quota_tracker quota_jobs used limits of
                  Inl _ \<Rightarrow> None | Inr q \<Rightarrow> Some q)))"

record polling_quota =
  pq_polls_per_hour :: int
  pq_effective_polls_per_hour :: "int option"
  pq_window_seconds :: int
  pq_used_this_window :: int
  pq_remaining_this_window :: "int option"
  pq_enforced :: bool

definition describe_tenant_polling_quota ::
  "int \<Rightarrow> int \<Rightarrow> int option \<Rightarrow> (int \<Rightarrow> (string, int) dict option) \<Rightarrow> string \<Rightarrow> polling_quota" where
  "describe_tenant_polling_quota default_quota quota_window_seconds stored count_recent tenant =
     (let window = quota_window quota_window_seconds;
          persisted = (case stored of None \<Rightarrow> default_quota | Some s \<Rightarrow> s);
          effective = (if default_quota \<le> 0 then None
                       else resolve_tenant_polls_per_hour stored default_quota);
          used = (case count_recent window of None \<Rightarrow> 0 | Some d \<Rightarrow> dict_default d tenant 0)
      in \<lparr>pq_polls_per_hour = max 0 persisted,
          pq_effective_polls_per_hour = effective,
          pq_window_seconds = window,
          pq_used_this_window = used,
          pq_remaining_this_window = map_option (\<lambda>e. max 0 (e - used)) effective,
          pq_enforced = (effective \<noteq> None)\<rparr>)"

section \<open>Rolling-window counters\<close>

datatype window_kind = WINDOW_HOUR | WINDOW_DAY

definition window_kind_by_metric :: "(string, window_kind) dict" where
  "window_kind_by_metric =
     [(''polls'', WINDOW_HOUR), (''polls_deferred'', WINDOW_HOUR), (''files_deferred'', WINDOW_HOUR),
      (''scans'', WINDOW_DAY), (''bytes_scanned'', WINDOW_DAY)]"

definition all_metrics :: "string list" where
  "all_metrics = [''polls'', ''polls_deferred'', ''files_deferred'', ''scans'', ''bytes_scanned'']"

definition deferral_metrics :: "string list" where
  "deferral_metrics = [''polls_deferred'', ''files_deferred'']"

definition unit_of_metric :: "string \<Rightarrow> string" where
  "unit_of_metric metric = (if metric = ''bytes_scanned'' then ''bytes'' else ''count'')"

definition window_kind_for :: "string \<Rightarrow> quota_error + window_kind" where
  "window_kind_for metric =
     (case map_of window_kind_by_metric metric of
        None \<Rightarrow> Inl (ValueError (''unsupported quota telemetry metric: '' @ metric))
      | Some kind \<Rightarrow> Inr kind)"

text \<open>The moment is already the caller's \<open>now\<close> or the clock's.\<close>

definition floor_to_window :: "py_datetime \<Rightarrow> window_kind \<Rightarrow> py_datetime" where
  "floor_to_window moment kind =
     (let base = to_utc moment
      in case kind of
           WINDOW_HOUR \<Rightarrow> base\<lparr>dt_wall := dt_wall base - dt_wall base mod hour_usec\<rparr>
         | WINDOW_DAY \<Rightarrow> base\<lparr>dt_wall := dt_wall base - dt_wall base mod day_usec\<rparr>)"

text \<open>The table: primary key (tenant, metric, window start).\<close>

type_synonym quota_windows = "(string \<times> string \<times> int, window_kind \<times> int) dict"

definition increment_repository_quota_window ::
  "quota_windows \<Rightarrow> string \<Rightarrow> string \<Rightarrow> window_kind \<Rightarrow> py_datetime \<Rightarrow> int \<Rightarrow> quota_windows" where
  "increment_repository_quota_window table tenant metric kind window_start amount =
     (let key = (tenant, metric, instant window_start)
      in case map_of table key of
           None \<Rightarrow> AList.update key (kind, amount) table
         | Some (k, n) \<Rightarrow> AList.update key (k, n + amount) table)"

text \<open>\<open>writable\<close> says whether the database takes the write; a refused one is swallowed.\<close>

definition record_quota_usage ::
  "bool \<Rightarrow> quota_windows \<Rightarrow> string \<Rightarrow> string \<Rightarrow> int \<Rightarrow> py_datetime
     \<Rightarrow> quota_error + (bool \<times> quota_windows)" where
  "record_quota_usage writable table tenant metric amount now =
     (case window_kind_for metric of
        Inl e \<Rightarrow> Inl e
      | Inr kind \<Rightarrow>
          (if amount \<le> 0 then Inr (False, table)
           else if writable
           then Inr (True, increment_repository_quota_window table tenant metric kind
                             (floor_to_window now kind) amount)
           else Inr (False, table)))"

definition resolve_telemetry_days :: "int option \<Rightarrow> int" where
  "resolve_telemetry_days days =
     (case days of None \<Rightarrow> 7 | Some requested \<Rightarrow> max 1 (min 90 requested))"

record quota_window_row =
  qw_metric :: string
  qw_kind :: window_kind
  qw_start :: int
  qw_amount :: int

definition list_repository_quota_windows ::
  "quota_windows \<Rightarrow> string \<Rightarrow> int \<Rightarrow> quota_window_row list" where
  "list_repository_quota_windows table tenant since =
     sort_key (\<lambda>r. (qw_start r, qw_metric r))
       (map (\<lambda>((t, m, s), (k, n)). \<lparr>qw_metric = m, qw_kind = k, qw_start = s, qw_amount = n\<rparr>)
         (filter (\<lambda>((t, m, s), _). t = tenant \<and> s \<ge> since) table))"

definition prune_repository_quota_windows :: "quota_windows \<Rightarrow> int \<Rightarrow> quota_windows \<times> nat" where
  "prune_repository_quota_windows table older_than =
     (let kept = filter (\<lambda>((t, m, s), _). \<not> s < older_than) table
      in (kept, length table - length kept))"

definition day_keys :: "int \<Rightarrow> int \<Rightarrow> int list" where
  "day_keys end_day days = map (\<lambda>offset. end_day - (days - 1) + offset) [0..days - 1]"

definition empty_daily_series :: "int list \<Rightarrow> (int, int) dict" where
  "empty_daily_series keys = map (\<lambda>key. (key, 0)) keys"

record metric_projection =
  mp_metric :: string
  mp_window_kind :: "window_kind option"
  mp_unit :: string
  mp_deferral :: bool
  mp_points :: "(int \<times> int) list"
  mp_total :: int
  mp_peak :: int
  mp_current_window :: int

definition project_metric :: "string \<Rightarrow> (int, int) dict \<Rightarrow> int list \<Rightarrow> int \<Rightarrow> metric_projection" where
  "project_metric metric daily keys current_window =
     (let points = map (\<lambda>key. (key, dict_default daily key 0)) keys;
          vals = map snd points
      in \<lparr>mp_metric = metric,
          mp_window_kind = map_of window_kind_by_metric metric,
          mp_unit = unit_of_metric metric,
          mp_deferral = (metric \<in> set deferral_metrics),
          mp_points = points,
          mp_total = sum_list vals,
          mp_peak = (case vals of [] \<Rightarrow> 0 | v # vs \<Rightarrow> fold max vs v),
          mp_current_window = current_window\<rparr>)"

record quota_telemetry =
  qt_days :: int
  qt_range_start :: int
  qt_range_end :: int
  qt_available :: bool
  qt_metrics :: "metric_projection list"

definition current_bucket :: "py_datetime \<Rightarrow> string \<Rightarrow> int" where
  "current_bucket clock metric =
     (case map_of window_kind_by_metric metric of
        None \<Rightarrow> 0 | Some kind \<Rightarrow> instant (floor_to_window clock kind))"

fun telemetry_step ::
  "py_datetime \<Rightarrow> quota_window_row
     \<Rightarrow> (string, (int, int) dict) dict \<times> (string, int) dict
     \<Rightarrow> (string, (int, int) dict) dict \<times> (string, int) dict" where
  "telemetry_step clock row (daily, current) =
     (case map_of daily (qw_metric row) of
        None \<Rightarrow> (daily, current)
      | Some series \<Rightarrow>
          (let metric = qw_metric row;
               amount = max 0 (qw_amount row);
               key = qw_start row div day_usec
           in (if key \<in> set (dict_keys series)
               then AList.update metric (AList.update key (dict_default series key 0 + amount) series) daily
               else daily,
               if qw_start row = current_bucket clock metric
               then AList.update metric (dict_default current metric 0 + amount) current
               else current)))"

definition describe_quota_telemetry ::
  "(int \<Rightarrow> quota_window_row list option) \<Rightarrow> int option \<Rightarrow> py_datetime \<Rightarrow> quota_telemetry" where
  "describe_quota_telemetry read_windows days now =
     (let span = resolve_telemetry_days days;
          clock = to_utc now;
          end_day = instant (floor_to_window clock WINDOW_DAY) div day_usec;
          range_start = (end_day - (span - 1)) * day_usec;
          keys = day_keys end_day span;
          daily0 = map (\<lambda>metric. (metric, empty_daily_series keys)) all_metrics;
          current0 = map (\<lambda>metric. (metric, 0)) all_metrics;
          (available, rows) = (case read_windows range_start of
              None \<Rightarrow> (False, []) | Some rows \<Rightarrow> (True, rows));
          (daily, current) = fold (telemetry_step clock) rows (daily0, current0)
      in \<lparr>qt_days = span,
          qt_range_start = range_start,
          qt_range_end = end_day * day_usec,
          qt_available = available,
          qt_metrics = map (\<lambda>metric. project_metric metric (dict_default daily metric [])
                              keys (dict_default current metric 0)) all_metrics\<rparr>)"


section \<open>Facts about the round robin\<close>

text \<open>The queue of a tenant is its rows in their order.\<close>

abbreviation rows_of :: "('r \<Rightarrow> string) \<Rightarrow> string \<Rightarrow> 'r list \<Rightarrow> 'r list" where
  "rows_of tenant t rows \<equiv> filter (\<lambda>r. tenant r = t) rows"

lemma group_by_tenant_lookup:
  "dict_default (group_by_tenant tenant rows d) t [] = dict_default d t [] @ rows_of tenant t rows"
  by (induction rows arbitrary: d) (auto simp: dict_default_update)

lemma group_by_tenant_wf: "wf_dict d \<Longrightarrow> wf_dict (group_by_tenant tenant rows d)"
  by (induction rows arbitrary: d) (auto intro!: wf_dict_update)

lemma group_by_tenant_keys:
  "set (dict_keys (group_by_tenant tenant rows d)) = set (dict_keys d) \<union> tenant ` set rows"
  by (induction rows arbitrary: d) (simp_all add: dom_update)

lemma wf_dict_member: "wf_dict d \<Longrightarrow> (k, v) \<in> set d \<Longrightarrow> map_of d k = Some v"
  by (simp add: wf_dict_def map_of_is_SomeI)

lemma group_by_tenant_entries:
  assumes "(t, q) \<in> set (group_by_tenant tenant rows [])"
  shows "q = rows_of tenant t rows"
  using wf_dict_member[OF group_by_tenant_wf[OF wf_dict_Nil] assms]
    group_by_tenant_lookup[of tenant rows "[]" t]
  by (simp add: dict_default_def)

lemma group_by_tenant_eq:
  "group_by_tenant tenant rows [] =
     map (\<lambda>t. (t, rows_of tenant t rows)) (dict_keys (group_by_tenant tenant rows []))"
  using group_by_tenant_entries[of _ _ tenant rows] by (auto intro!: map_idI[symmetric])

lemma distinct_group_keys: "distinct (dict_keys (group_by_tenant tenant rows []))"
  using group_by_tenant_wf[OF wf_dict_Nil] by (simp add: wf_dict_def)

lemma rows_of_take_round:
  assumes "distinct ts" and "t \<in> set ts"
  shows "rows_of tenant t (take_round (map (\<lambda>u. rows_of tenant u rows) ts) d) =
    (if d < length (rows_of tenant t rows) then [rows_of tenant t rows ! d] else [])"
proof -
  have own: "tenant (rows_of tenant u rows ! d) = u" if "d < length (rows_of tenant u rows)" for u
    using nth_mem[OF that] by simp
  have other: "rows_of tenant t (take_round (map (\<lambda>u. rows_of tenant u rows) us) d) = []"
    if "t \<notin> set us" for us
    using that by (induction us) (auto simp: take_round_def own)
  show ?thesis
    using assms
  proof (induction ts)
    case (Cons u us)
    have step: "take_round (map (\<lambda>u. rows_of tenant u rows) (u # us)) d =
        (if d < length (rows_of tenant u rows) then [rows_of tenant u rows ! d] else [])
        @ take_round (map (\<lambda>u. rows_of tenant u rows) us) d"
      by (simp add: take_round_def)
    show ?case
      using Cons other[of us] own[of t] own[of u] unfolding step by (cases "u = t") auto
  qed simp
qed

definition rounds :: "'r list list \<Rightarrow> nat \<Rightarrow> 'r list" where
  "rounds queues n = concat (map (take_round queues) [0..<n])"

lemma rounds_Suc: "rounds queues (Suc n) = rounds queues n @ take_round queues n"
  by (simp add: rounds_def)

lemma rows_of_rounds:
  assumes "distinct ts" and "t \<in> set ts"
  shows "rows_of tenant t (rounds (map (\<lambda>u. rows_of tenant u rows) ts) n) =
    take n (rows_of tenant t rows)"
proof (induction n)
  case (Suc n)
  then show ?case
    using rows_of_take_round[OF assms, of tenant rows n]
    by (simp add: rounds_Suc take_Suc_conv_app_nth)
qed (simp add: rounds_def)

lemma take_round_tenants:
  "r \<in> set (take_round (map (\<lambda>u. rows_of tenant u rows) ts) d) \<Longrightarrow> tenant r \<in> set ts"
  by (auto simp: take_round_def split: if_splits dest: nth_mem)

lemma mset_eq_by_tenant:
  assumes "\<And>t. rows_of tenant t xs = rows_of tenant t ys"
  shows "mset xs = mset ys"
proof (rule multiset_eqI)
  fix r
  have "count (mset zs) r = count (mset (rows_of tenant (tenant r) zs)) r" for zs
    by (induction zs) auto
  then show "count (mset xs) r = count (mset ys) r"
    using assms by metis
qed


abbreviation tenant_queues :: "('r \<Rightarrow> string) \<Rightarrow> 'r list \<Rightarrow> 'r list list" where
  "tenant_queues tenant rows \<equiv> map snd (group_by_tenant tenant rows [])"

lemma tenant_queues_cases:
  obtains ts where "tenant_queues tenant rows = map (\<lambda>t. rows_of tenant t rows) ts"
    and "distinct ts" and "set ts = tenant ` set rows"
proof
  show "tenant_queues tenant rows =
      map (\<lambda>t. rows_of tenant t rows) (dict_keys (group_by_tenant tenant rows []))"
    by (subst group_by_tenant_eq) (simp add: comp_def)
  show "set (dict_keys (group_by_tenant tenant rows [])) = tenant ` set rows"
    using group_by_tenant_keys[of tenant rows "[]"] by simp
qed (rule distinct_group_keys)

lemma rows_of_queue_rounds:
  "rows_of tenant t (rounds (tenant_queues tenant rows) n) = take n (rows_of tenant t rows)"
proof -
  obtain ts where ts: "tenant_queues tenant rows = map (\<lambda>t. rows_of tenant t rows) ts"
      "distinct ts" "set ts = tenant ` set rows"
    by (rule tenant_queues_cases)
  show ?thesis
  proof (cases "t \<in> set ts")
    case True
    then show ?thesis unfolding ts(1) by (intro rows_of_rounds ts(2))
  next
    case False
    then have "rows_of tenant t rows = []" unfolding ts(3) by (auto simp: filter_empty_conv)
    moreover have "tenant r \<in> set ts" if r: "r \<in> set (rounds (tenant_queues tenant rows) n)" for r
    proof -
      obtain d where "r \<in> set (take_round (map (\<lambda>t. rows_of tenant t rows) ts) d)"
        using r unfolding ts(1) rounds_def by auto
      then show ?thesis by (rule take_round_tenants)
    qed
    ultimately show ?thesis using False by (auto simp: filter_empty_conv)
  qed
qed

lemma rounds_complete:
  assumes "length rows \<le> n"
  shows "mset (rounds (tenant_queues tenant rows) n) = mset rows"
proof (rule mset_eq_by_tenant)
  fix t
  have "length (rows_of tenant t rows) \<le> n"
    using length_filter_le[of "\<lambda>r. tenant r = t" rows] assms by linarith
  then show "rows_of tenant t (rounds (tenant_queues tenant rows) n) = rows_of tenant t rows"
    unfolding rows_of_queue_rounds by simp
qed

lemma rounds_add: "\<exists>xs. rounds queues (n + m) = rounds queues n @ xs"
  using upt_add_eq_append[of 0 n m] by (simp add: rounds_def del: upt.simps)

lemma rounds_stop:
  assumes "length rows \<le> length (rounds (tenant_queues tenant rows) n)"
  shows "rounds (tenant_queues tenant rows) n = rounds (tenant_queues tenant rows) (length rows)"
proof -
  let ?q = "tenant_queues tenant rows"
  have total: "length (rounds ?q (length rows + n)) = length rows"
    using rounds_complete[of rows "length rows + n" tenant] by (metis le_add1 size_mset)
  moreover have "length (rounds ?q (length rows)) = length rows"
    using rounds_complete[of rows "length rows" tenant] by (metis le_refl size_mset)
  moreover obtain xs ys where "rounds ?q (length rows + n) = rounds ?q (length rows) @ xs"
      "rounds ?q (n + length rows) = rounds ?q n @ ys"
    using rounds_add by metis
  ultimately show ?thesis using assms by (simp add: add.commute)
qed

lemma rounds_loop:
  "map_option fst (while_option
      (\<lambda>(interleaved, depth). length interleaved < length rows)
      (\<lambda>(interleaved, depth).
         (interleaved @ take_round (tenant_queues tenant rows) depth, depth + 1)) ([], 0))
    = Some (rounds (tenant_queues tenant rows) (length rows))"
proof -
  let ?q = "tenant_queues tenant rows"
  let ?b = "\<lambda>(interleaved, depth). length interleaved < length rows"
  let ?c = "\<lambda>(interleaved, depth). (interleaved @ take_round ?q depth, depth + 1)"
  let ?P = "\<lambda>s. fst s = rounds ?q (snd s)"
  have start: "?P ([], 0)" by (simp add: rounds_def)
  have stuck: "snd s < length rows" if "?P s" "?b s" for s
  proof (rule ccontr)
    assume "\<not> snd s < length rows"
    then have "length (fst s) = length rows"
      using rounds_complete[of rows "snd s" tenant] that(1)
      by (metis not_less size_mset)
    with that(2) show False by (simp add: case_prod_beta)
  qed
  have "\<exists>t. while_option ?b ?c ([], 0) = Some t"
  proof (rule measure_while_option_Some[where P = ?P and f = "\<lambda>s. length rows - snd s"])
    show "?P (?c s) \<and> length rows - snd (?c s) < length rows - snd s" if "?P s" "?b s" for s
      using that stuck[OF that] by (auto simp: rounds_Suc case_prod_beta)
  qed (rule start)
  then obtain t where t: "while_option ?b ?c ([], 0) = Some t" by blast
  have "?P t"
    using while_option_rule[where P = ?P, OF _ t start] by (auto simp: rounds_Suc)
  moreover have "\<not> ?b t" using while_option_stop[OF t] .
  ultimately have "fst t = rounds ?q (length rows)"
    using rounds_stop[of rows tenant "snd t"] by (auto simp: case_prod_beta not_less)
  then show ?thesis unfolding t by simp
qed

lemma interleave_eq:
  "interleave_due_rows_by_tenant tenant rows
     = Some (rounds (tenant_queues tenant rows) (length rows))"
proof (cases "length (group_by_tenant tenant rows []) \<le> 1")
  case True
  then obtain t where one: "tenant ` set rows \<subseteq> {t}"
    using group_by_tenant_keys[of tenant rows "[]"]
    by (cases "group_by_tenant tenant rows []") auto
  let ?out = "rounds (tenant_queues tenant rows) (length rows)"
  have "rows_of tenant t ?out = rows_of tenant t rows"
    unfolding rows_of_queue_rounds by simp
  moreover have "rows_of tenant t rows = rows"
    using one by (auto intro: filter_True)
  moreover have "set ?out = set rows"
    using rounds_complete[of rows "length rows" tenant] by (metis le_refl set_mset_mset)
  then have "rows_of tenant t ?out = ?out"
    using one by (auto intro: filter_True)
  ultimately show ?thesis
    using True by (simp add: interleave_due_rows_by_tenant_def)
next
  case False
  then show ?thesis
    using rounds_loop[of rows tenant] by (simp add: interleave_due_rows_by_tenant_def Let_def)
qed


lemma rounds_prefix:
  assumes "pre @ post = rounds queues n"
  shows "\<exists>k j. pre = rounds queues k @ take j (take_round queues k)"
  using assms
proof (induction n arbitrary: post)
  case 0
  then have "pre = rounds queues 0 @ take 0 (take_round queues 0)" by (simp add: rounds_def)
  then show ?case by blast
next
  case (Suc n)
  then consider us where "pre = rounds queues n @ us" "us @ post = take_round queues n"
    | us where "pre @ us = rounds queues n"
    unfolding rounds_Suc append_eq_append_conv2 by blast
  then show ?case
  proof cases
    case 1
    then have "pre = rounds queues n @ take (length us) (take_round queues n)"
      by (metis append_eq_conv_conj)
    then show ?thesis by blast
  qed (rule Suc.IH)
qed

abbreviation served :: "('r \<Rightarrow> string) \<Rightarrow> string \<Rightarrow> 'r list \<Rightarrow> nat" where
  "served tenant t rows \<equiv> length (rows_of tenant t rows)"

lemma served_in_round: "served tenant t (take_round (tenant_queues tenant rows) k) \<le> 1"
proof -
  have "served tenant t (rounds (tenant_queues tenant rows) (Suc k))
      \<le> served tenant t (rounds (tenant_queues tenant rows) k) + 1"
    unfolding rows_of_queue_rounds by simp
  then show ?thesis by (simp add: rounds_Suc)
qed

lemma served_take: "served tenant t (take j xs) \<le> served tenant t xs"
  by (metis append_take_drop_id filter_append le_add1 length_append)

section \<open>A budget drawn down over a tick\<close>

text \<open>A spender asks the budget before each expense; \<open>within_budget\<close> says that no expense is
  larger than what the budget has left for its tenant at that moment.\<close>

fun within_budget ::
  "('b \<Rightarrow> string \<Rightarrow> int option) \<Rightarrow> ('b \<Rightarrow> string \<Rightarrow> int \<Rightarrow> 'b) \<Rightarrow> 'b \<Rightarrow> (string \<times> int) list \<Rightarrow> bool"
where
  "within_budget rest spend b [] = True"
| "within_budget rest spend b ((t, n) # evs) \<longleftrightarrow>
     0 \<le> n \<and> (case rest b t of None \<Rightarrow> True | Some r \<Rightarrow> n \<le> r)
     \<and> within_budget rest spend (spend b t n) evs"

definition spent :: "string \<Rightarrow> (string \<times> int) list \<Rightarrow> int" where
  "spent t evs = (\<Sum>(u, n)\<leftarrow>evs. if u = t then n else 0)"

lemma spent_simps [simp]:
  "spent t [] = 0"
  "spent t ((u, n) # evs) = (if u = t then n else 0) + spent t evs"
  "spent t (evs @ evs') = spent t evs + spent t evs'"
  by (simp_all add: spent_def)

locale tenant_budget =
  fixes rest :: "'b \<Rightarrow> string \<Rightarrow> int option"
    and spend :: "'b \<Rightarrow> string \<Rightarrow> int \<Rightarrow> 'b"
  assumes rest_spend: "0 \<le> n \<Longrightarrow> rest (spend b t n) u =
      (if u = t then map_option (\<lambda>r. max 0 (r - n)) (rest b u) else rest b u)"
    and rest_nonneg: "rest b t = Some r \<Longrightarrow> 0 \<le> r"
begin

lemma spent_le_rest:
  assumes "within_budget rest spend b evs" and "rest b t = Some r"
  shows "spent t evs \<le> r"
  using assms
proof (induction evs arbitrary: b r)
  case (Cons e evs)
  obtain u n where e: "e = (u, n)" by (cases e)
  have n: "0 \<le> n" and tail: "within_budget rest spend (spend b u n) evs"
    using Cons.prems(1) by (simp_all add: e)
  show ?case
  proof (cases "u = t")
    case True
    then have "n \<le> r" using Cons.prems by (simp add: e)
    then have "rest (spend b u n) t = Some (r - n)"
      using rest_spend[OF n, of b u t] True Cons.prems(2) by simp
    then show ?thesis using Cons.IH[OF tail] True by (fastforce simp: e)
  next
    case False
    then have "rest (spend b u n) t = Some r"
      using rest_spend[OF n, of b u t] Cons.prems(2) by simp
    then show ?thesis using Cons.IH[OF tail] False by (simp add: e)
  qed
qed (use rest_nonneg in simp)

lemma within_append:
  "within_budget rest spend b (evs @ evs') \<longleftrightarrow>
     within_budget rest spend b evs
     \<and> within_budget rest spend (fold (\<lambda>(t, n) c. spend c t n) evs b) evs'"
proof (induction evs arbitrary: b)
  case (Cons e evs)
  then show ?case by (cases e) simp
qed simp

end

lemma quota_for_consume [simp]: "quota_for (consume q t n) u = quota_for q u"
  by (simp add: quota_for_def consume_def)

lemma used_consume:
  "0 \<le> n \<Longrightarrow> dict_default (tq_used (consume q t n)) u 0 =
     dict_default (tq_used q) u 0 + (if u = t then n else 0)"
  by (auto simp: consume_def dict_default_update)

lemma remaining_consume:
  assumes "0 \<le> n"
  shows "remaining (consume q t n) u =
     (if u = t then map_option (\<lambda>r. max 0 (r - n)) (remaining q u) else remaining q u)"
proof (cases "quota_for q u")
  case (Some limit)
  show ?thesis
  proof (cases "u = t")
    case True
    with Some assms show ?thesis by (simp add: remaining_def used_consume)
  qed (use Some assms in \<open>simp add: remaining_def used_consume\<close>)
qed (auto simp: remaining_def)

interpretation tracker: tenant_budget remaining consume
proof
  show "remaining b t = Some r \<Longrightarrow> 0 \<le> r" for b t r
    by (auto simp: remaining_def split: option.splits)
qed (rule remaining_consume)

lemma is_exhausted_iff: "is_exhausted q t \<longleftrightarrow> remaining q t = Some 0"
  using tracker.rest_nonneg[of q t]
  by (force simp: is_exhausted_def split: option.splits)


section \<open>Facts about the counters\<close>

text \<open>The sum of a table over the keys that satisfy a predicate.\<close>

definition tally :: "('k \<Rightarrow> bool) \<Rightarrow> ('k, window_kind \<times> int) dict \<Rightarrow> int" where
  "tally P table = (\<Sum>(k, v)\<leftarrow>table. if P k then snd v else 0)"

lemma tally_simps [simp]:
  "tally P [] = 0"
  "tally P ((k, v) # table) = (if P k then snd v else 0) + tally P table"
  by (simp_all add: tally_def)

lemma tally_update_new:
  "map_of table k = None \<Longrightarrow> tally P (AList.update k v table) = tally P table + (if P k then snd v else 0)"
  by (induction table) (auto split: if_splits)

lemma tally_update_old:
  "map_of table k = Some w \<Longrightarrow>
     tally P (AList.update k v table) = tally P table + (if P k then snd v - snd w else 0)"
  by (induction table) (auto split: if_splits)

lemma tally_increment:
  "tally P (increment_repository_quota_window table t m kind s n) =
     tally P table + (if P (t, m, instant s) then n else 0)"
  by (auto simp: increment_repository_quota_window_def Let_def tally_update_new tally_update_old
      split: option.splits)

lemma floor_hour: "instant (floor_to_window d WINDOW_HOUR) = instant d - instant d mod hour_usec"
  by (simp add: floor_to_window_def to_utc_def instant_def)

lemma floor_day: "instant (floor_to_window d WINDOW_DAY) = instant d - instant d mod day_usec"
  by (simp add: floor_to_window_def to_utc_def instant_def)

lemma hour_in_day: "((x::int) - x mod hour_usec) div day_usec = x div day_usec"
proof -
  have "(hour_usec * y) div (hour_usec * 24) = y div 24" for y :: int by simp
  moreover have "x div day_usec = x div hour_usec div 24"
    by (simp add: zdiv_zmult2_eq[symmetric])
  moreover have "x - x mod hour_usec = hour_usec * (x div hour_usec)"
    by (simp add: minus_mod_eq_mult_div)
  ultimately show ?thesis by simp
qed

lemma floor_keeps_day: "instant (floor_to_window d kind) div day_usec = instant d div day_usec"
proof (cases kind)
  case WINDOW_HOUR
  then show ?thesis by (simp only: floor_hour hour_in_day)
next
  case WINDOW_DAY
  have "instant d - instant d mod day_usec = day_usec * (instant d div day_usec)"
    by (simp add: minus_mod_eq_mult_div)
  then show ?thesis by (simp add: WINDOW_DAY floor_day)
qed

text \<open>A use of a quota: the write was possible, tenant, metric, amount, moment.\<close>

type_synonym quota_use = "bool \<times> string \<times> string \<times> int \<times> py_datetime"

fun usage_log :: "quota_use list \<Rightarrow> quota_windows \<Rightarrow> quota_windows" where
  "usage_log [] table = table"
| "usage_log ((ok, tenant, metric, amount, now) # uses) table =
     usage_log uses (case record_quota_usage ok table tenant metric amount now of
       Inl _ \<Rightarrow> table | Inr (_, table') \<Rightarrow> table')"

definition used_on_day :: "quota_use list \<Rightarrow> string \<Rightarrow> string \<Rightarrow> int \<Rightarrow> int" where
  "used_on_day uses tenant metric day =
     (\<Sum>(ok, t, m, n, now)\<leftarrow>uses.
        if ok \<and> t = tenant \<and> m = metric \<and> instant now div day_usec = day then max 0 n else 0)"

lemma window_kind_for_metrics: "m \<in> set all_metrics \<Longrightarrow> \<exists>kind. window_kind_for m = Inr kind"
  by (auto simp: all_metrics_def window_kind_for_def window_kind_by_metric_def)

lemma tally_usage_log:
  assumes "metric \<in> set all_metrics"
  shows "tally (\<lambda>(t, m, s). t = tenant \<and> m = metric \<and> s div day_usec = day) (usage_log uses table) =
    tally (\<lambda>(t, m, s). t = tenant \<and> m = metric \<and> s div day_usec = day) table
    + used_on_day uses tenant metric day"
proof (induction uses arbitrary: table)
  case (Cons u uses)
  obtain ok t m n now where u: "u = (ok, t, m, n, now)" by (cases u) auto
  show ?case
  proof (cases "window_kind_for m")
    case (Inl e)
    then have "m \<noteq> metric" using window_kind_for_metrics[OF assms] by auto
    then show ?thesis using Cons Inl by (simp add: u record_quota_usage_def used_on_day_def)
  next
    case (Inr kind)
    then show ?thesis
      using Cons by (simp add: u record_quota_usage_def used_on_day_def tally_increment
          floor_keeps_day max_def)
  qed
qed (simp add: used_on_day_def)


lemma usage_log_nonneg:
  assumes "list_all (\<lambda>(k, v). 0 \<le> snd v) table"
  shows "list_all (\<lambda>(k, v). 0 \<le> snd v) (usage_log uses table)"
  using assms
proof (induction uses arbitrary: table)
  case (Cons u uses)
  obtain ok t m n now where u: "u = (ok, t, m, n, now)" by (cases u) auto
  have keep: "list_all (\<lambda>(k, v). 0 \<le> snd v) (AList.update key w d)"
    if "list_all (\<lambda>(k, v). 0 \<le> snd v) d" "0 \<le> snd w"
    for key :: "string \<times> string \<times> int" and w :: "window_kind \<times> int" and d
    using that by (induction d) auto
  have pos: "0 \<le> snd w" if "map_of table key = Some w" for key w
    using map_of_SomeD[OF that] Cons.prems by (auto simp: list_all_iff)
  show ?case
    unfolding u usage_log.simps
    by (rule Cons.IH)
      (auto simp: record_quota_usage_def increment_repository_quota_window_def Let_def Cons.prems
        intro!: keep dest!: pos split: option.splits sum.splits)
qed simp

lemma sum_list_sort_key: "(\<Sum>x\<leftarrow>sort_key g xs. (f x :: int)) = (\<Sum>x\<leftarrow>xs. f x)"
  by (metis mset_map mset_sort sum_mset_sum_list)

lemma listed_windows_sum:
  assumes "list_all (\<lambda>(k, v). 0 \<le> snd v) table" and "since \<le> day * day_usec"
  shows "(\<Sum>r\<leftarrow>list_repository_quota_windows table tenant since.
        if qw_metric r = metric \<and> qw_start r div day_usec = day then max 0 (qw_amount r) else 0) =
    tally (\<lambda>(t, m, s). t = tenant \<and> m = metric \<and> s div day_usec = day) table"
proof -
  have late: "since \<le> s" if "s div day_usec = day" for s
    using that assms(2) by (metis div_mult_mod_eq le_add_same_cancel1 order_trans
        pos_mod_sign zero_less_numeral)
  have "(\<Sum>r\<leftarrow>map (\<lambda>((t, m, s), (k, n)). \<lparr>qw_metric = m, qw_kind = k, qw_start = s, qw_amount = n\<rparr>)
         (filter (\<lambda>((t, m, s), _). t = tenant \<and> s \<ge> since) table).
        if qw_metric r = metric \<and> qw_start r div day_usec = day then max 0 (qw_amount r) else 0) =
    tally (\<lambda>(t, m, s). t = tenant \<and> m = metric \<and> s div day_usec = day) table"
    using assms(1)
  proof (induction table)
    case (Cons e table)
    obtain t m s k n where e: "e = ((t, m, s), (k, n))" by (cases e) auto
    show ?case
      using Cons late[of s] by (cases "s div day_usec = day") (simp_all add: e)
  qed simp
  then show ?thesis
    unfolding list_repository_quota_windows_def sum_list_sort_key by simp
qed

lemma telemetry_step_series:
  assumes "map_of (fst acc) metric = Some series"
  shows "\<exists>s. map_of (fst (telemetry_step clock r acc)) metric = Some s
     \<and> dict_keys s = dict_keys series
     \<and> (\<forall>key \<in> set (dict_keys series). dict_default s key 0 = dict_default series key 0
          + (if qw_metric r = metric \<and> qw_start r div day_usec = key then max 0 (qw_amount r) else 0))"
proof (cases "qw_metric r = metric \<and> qw_start r div day_usec \<in> set (dict_keys series)")
  case True
  let ?key = "qw_start r div day_usec"
  let ?s = "AList.update ?key (dict_default series ?key 0 + max 0 (qw_amount r)) series"
  have "map_of (fst (telemetry_step clock r acc)) metric = Some ?s"
    using True assms by (cases acc) (simp add: Let_def)
  moreover have "dict_keys ?s = dict_keys series"
    using True by (simp add: update_keys)
  ultimately show ?thesis
    using True by (auto simp: dict_default_update)
next
  case False
  have "map_of (fst (telemetry_step clock r acc)) metric = Some series"
    using False assms
    by (cases acc; cases "map_of (fst acc) (qw_metric r)"; cases "qw_metric r = metric")
      (simp_all add: Let_def)
  then show ?thesis using False by auto
qed

lemma telemetry_fold:
  assumes "map_of (fst acc) metric = Some series"
  shows "\<exists>s. map_of (fst (fold (telemetry_step clock) rows acc)) metric = Some s
     \<and> dict_keys s = dict_keys series
     \<and> (\<forall>key \<in> set (dict_keys series). dict_default s key 0 = dict_default series key 0
          + (\<Sum>r\<leftarrow>rows. if qw_metric r = metric \<and> qw_start r div day_usec = key
                        then max 0 (qw_amount r) else 0))"
  using assms
proof (induction rows arbitrary: acc series)
  case (Cons r rows)
  obtain s where s: "map_of (fst (telemetry_step clock r acc)) metric = Some s"
    "dict_keys s = dict_keys series"
    "\<forall>key \<in> set (dict_keys series). dict_default s key 0 = dict_default series key 0
       + (if qw_metric r = metric \<and> qw_start r div day_usec = key then max 0 (qw_amount r) else 0)"
    using telemetry_step_series[OF Cons.prems] by blast
  obtain s' where s': "map_of (fst (fold (telemetry_step clock) rows (telemetry_step clock r acc))) metric = Some s'"
    "dict_keys s' = dict_keys s"
    "\<forall>key \<in> set (dict_keys s). dict_default s' key 0 = dict_default s key 0
       + (\<Sum>r\<leftarrow>rows. if qw_metric r = metric \<and> qw_start r div day_usec = key
                     then max 0 (qw_amount r) else 0)"
    using Cons.IH[OF s(1)] by blast
  show ?case
    using s s' by (intro exI[of _ s']) (simp add: add.assoc)
qed simp


lemma telemetry_keys:
  "fst ` set (map (\<lambda>metric. (metric, empty_daily_series keys)) all_metrics) = set all_metrics"
  by force

lemma daily_start:
  "m \<in> set all_metrics \<Longrightarrow>
     map_of (map (\<lambda>metric. (metric, empty_daily_series keys)) all_metrics) m
       = Some (empty_daily_series keys)"
  by (auto simp: map_of_map_restrict all_metrics_def)

lemma empty_series [simp]:
  "dict_keys (empty_daily_series keys) = keys"
  "dict_default (empty_daily_series keys) key 0 = 0"
proof -
  show "dict_keys (empty_daily_series keys) = keys"
    by (simp add: empty_daily_series_def comp_def)
  show "dict_default (empty_daily_series keys) key 0 = 0"
    by (induction keys) (auto simp: empty_daily_series_def dict_default_def)
qed

lemma day_keys_late: "day \<in> set (day_keys end_day days_n) \<Longrightarrow> (end_day - (days_n - 1)) * day_usec \<le> day * day_usec"
  by (auto simp: day_keys_def)

section \<open>Properties\<close>

text \<open>the round robin always ends, on a permutation of the due rows that keeps each tenant's
  rows in their order.\<close>

theorem interleave_permutes:
  "\<exists>out. interleave_due_rows_by_tenant tenant rows = Some out
     \<and> mset out = mset rows
     \<and> (\<forall>t. rows_of tenant t out = rows_of tenant t rows)"
  unfolding interleave_eq using rounds_complete[of rows "length rows" tenant]
  by (simp add: rows_of_queue_rounds)

text \<open>no tenant starves another: at every moment of the sweep, a tenant that still has a
  repository waiting has been served at most one repository fewer than any other tenant.\<close>

theorem interleave_fair:
  assumes "interleave_due_rows_by_tenant tenant rows = Some (pre @ post)"
    and "\<exists>r \<in> set post. tenant r = t"
  shows "served tenant u pre \<le> served tenant t pre + 1"
proof -
  let ?q = "tenant_queues tenant rows"
  have out: "pre @ post = rounds ?q (length rows)"
    using assms(1) unfolding interleave_eq by simp
  obtain k j where pre: "pre = rounds ?q k @ take j (take_round ?q k)"
    using rounds_prefix[OF out] by blast
  have count: "min (served tenant v rows) k \<le> served tenant v pre"
    "served tenant v pre \<le> min (served tenant v rows) k + 1" for v
    using served_take[of tenant v j "take_round ?q k"] served_in_round[of tenant v rows k]
    unfolding pre by (simp_all add: rows_of_queue_rounds)
  have "rows_of tenant t pre @ rows_of tenant t post = rows_of tenant t rows"
    using arg_cong[OF out, of "rows_of tenant t"] by (simp add: rows_of_queue_rounds)
  moreover have "rows_of tenant t post \<noteq> []"
    using assms(2) by (auto simp: filter_empty_conv)
  ultimately have "served tenant t pre < served tenant t rows"
    by (metis length_append length_greater_0_conv less_add_same_cancel1)
  then have "k \<le> served tenant t pre" using count(1)[of t] by simp
  then show ?thesis using count(2)[of u] by linarith
qed

theorem interleave_fair_witness:
  "served fst ''a'' [(''a'', 1::nat), (''b'', 4), (''a'', 2)]
     \<le> served fst ''b'' [(''a'', 1::nat), (''b'', 4), (''a'', 2)] + 1"
proof (rule interleave_fair)
  show "interleave_due_rows_by_tenant fst
      [(''a'', 1), (''a'', 2), (''a'', 3), (''b'', 4), (''b'', 5)]
      = Some ([(''a'', 1::nat), (''b'', 4), (''a'', 2)] @ [(''b'', 5), (''a'', 3)])"
    by code_simp
qed simp

text \<open>The tracker bounds a tick: if the sweep never spends more on a tenant than the tracker
  has left for it, then what it spends on a bounded tenant is at most the tenant's limit less what the
  window had already used (never less than nothing).\<close>

theorem tracker_bounds_tick:
  assumes "within_budget remaining consume q evs" and "quota_for q t = Some limit"
  shows "spent t evs \<le> max 0 (limit - dict_default (tq_used q) t 0)"
  by (rule tracker.spent_le_rest[OF assms(1)]) (simp add: remaining_def assms(2))

theorem tracker_bounds_tick_witness:
  "spent ''acme'' [(''acme'', 2), (''beta'', 90), (''acme'', 1)] \<le> 3"
  using tracker_bounds_tick
    [of "\<lparr>tq_quota = 60, tq_used = [(''acme'', 7)], tq_limits = [(''acme'', Some 10), (''beta'', None)]\<rparr>"
        "[(''acme'', 2), (''beta'', 90), (''acme'', 1)]" "''acme''" 10]
  by (simp add: remaining_def quota_for_def consume_def dict_default_def)

text \<open>the dashboard counts every recorded use exactly once: each metric's series has one point
  per day of the range, holding the sum of the positive amounts recorded for that tenant and metric on
  that UTC day, whatever the width of the metric's windows.\<close>

theorem telemetry_counts_usage:
  "map (\<lambda>p. (mp_metric p, mp_points p))
     (qt_metrics (describe_quota_telemetry
        (\<lambda>since. Some (list_repository_quota_windows (usage_log uses []) tenant since)) days now)) =
   map (\<lambda>metric. (metric, map (\<lambda>day. (day, used_on_day uses tenant metric day))
          (day_keys (instant now div day_usec) (resolve_telemetry_days days)))) all_metrics"
proof -
  define days_n where "days_n = resolve_telemetry_days days"
  define end_day where "end_day = instant now div day_usec"
  define keys where "keys = day_keys end_day days_n"
  define rows where "rows = list_repository_quota_windows (usage_log uses []) tenant
     ((end_day - (days_n - 1)) * day_usec)"
  define acc where "acc = (map (\<lambda>m. (m, empty_daily_series keys)) all_metrics,
     map (\<lambda>m. (m, 0 :: int)) all_metrics)"
  have today: "instant (floor_to_window (to_utc now) WINDOW_DAY) div day_usec = end_day"
    unfolding floor_keeps_day end_day_def by simp
  have series: "map (\<lambda>key. (key, dict_default (dict_default
        (fst (fold (telemetry_step (to_utc now)) rows acc)) m []) key 0)) keys =
      map (\<lambda>day. (day, used_on_day uses tenant m day)) keys" if m: "m \<in> set all_metrics" for m
  proof -
    have start: "map_of (fst acc) m = Some (empty_daily_series keys)"
      unfolding acc_def fst_conv by (rule daily_start[OF m])
    obtain s where s: "map_of (fst (fold (telemetry_step (to_utc now)) rows acc)) m = Some s"
      "\<forall>key \<in> set keys. dict_default s key 0 =
         (\<Sum>r\<leftarrow>rows. if qw_metric r = m \<and> qw_start r div day_usec = key
                       then max 0 (qw_amount r) else 0)"
      using telemetry_fold[OF start, of "to_utc now" rows] by auto
    have "dict_default s key 0 = used_on_day uses tenant m key" if "key \<in> set keys" for key
      using s(2) that
        listed_windows_sum[OF usage_log_nonneg[of "[]" uses] day_keys_late[of key end_day days_n]]
        tally_usage_log[OF m, of tenant key uses "[]"]
      unfolding rows_def keys_def by simp
    then show ?thesis using s(1) by (simp add: dict_default_def)
  qed
  show ?thesis
    unfolding describe_quota_telemetry_def Let_def today
      days_n_def[symmetric] end_day_def[symmetric] option.case prod.case
    unfolding keys_def[symmetric] rows_def[symmetric]
    unfolding acc_def[symmetric] case_prod_beta
    using series by (simp add: project_metric_def Let_def comp_def)
qed

end
