(* ===== verification/RefreshDb.thy ===== *)
theory RefreshDb
  imports Quota
begin

text \<open>
  The rows behind the refresh sweep and the statements of
  \<open>apiome-rest/src/app/database.py\<close> that read and write them. A table is the list of its
  rows, an \<open>UPDATE ... WHERE\<close> a map over it and a \<open>SELECT\<close> a filter; a statement takes the
  server's clock, in microseconds, where it uses \<open>now()\<close>. Identifiers are text. Columns that
  no modelled statement reads (names, URLs, \<open>updated_at\<close>) are left out. The partial unique
  index on active jobs is the \<open>ON CONFLICT\<close> test of the insert.
\<close>

section \<open>Rows\<close>

record repository =
  repo_id :: string
  repo_tenant :: string
  repo_deleted :: bool
  repo_status :: string
  auto_refresh_enabled :: bool
  refresh_interval_seconds :: int
  last_refreshed_at :: "int option"
  repo_created_at :: int
  refresh_consecutive_failures :: int
  refresh_backoff_until :: "int option"
  refresh_paused_at :: "int option"
  refresh_pause_reason :: "string option"

record import_spec =
  spec_id :: string
  spec_repository :: string
  spec_branch :: string
  spec_path :: string
  spec_project :: "string option"
  spec_source_kind :: "string option"
  spec_format_override :: "string option"
  spec_content_type :: "string option"
  spec_options :: string
  spec_schema_version :: "int option"
  spec_created_by :: "string option"
  last_imported_commit_sha :: "string option"
  last_imported_committed_at :: timestamp
  last_imported_blob_sha :: "string option"

record indexed_file =
  file_repository :: string
  file_branch :: string
  file_path :: string
  file_commit_sha :: "string option"
  file_committed_at :: timestamp
  file_blob_sha :: "string option"

datatype job_status = QUEUED | RUNNING | SUCCEEDED | JOB_FAILED

text \<open>\<open>job_pull_count\<close> is the number of documents a connector run pulled; a Git job has none.\<close>

record refresh_job =
  job_tenant :: string
  job_repository :: string
  job_branch :: string
  job_path :: string
  job_spec_id :: "string option"
  job_project :: "string option"
  job_source_kind :: "string option"
  job_format_override :: "string option"
  job_content_type :: "string option"
  job_options :: string
  job_schema_version :: int
  job_created_by :: "string option"
  job_remote_commit_sha :: "string option"
  job_remote_committed_at :: timestamp
  job_remote_blob_sha :: "string option"
  job_reason :: refresh_reason
  job_version_line :: "string option"
  job_status :: job_status
  job_created_at :: int
  job_pull_count :: "int option"

record refresh_settings =
  rs_enabled :: bool
  rs_min_interval :: int
  rs_default_interval :: int
  rs_pause_threshold :: int
  rs_backoff_max :: int
  rs_tenant_quota :: int
  rs_quota_window :: int

record rule_row =
  row_tenant :: string
  row_repository :: string
  row_rule :: branch_refresh_rule

record refresh_db =
  repositories :: "repository list"
  branch_rules :: "rule_row list"
  branch_state :: "(string \<times> string, int) dict"
  import_specs :: "import_spec list"
  indexed_files :: "indexed_file list"
  refresh_jobs :: "refresh_job list"
  tenant_limits :: "(string \<times> bool \<times> int option) list"
  quota_rows :: quota_windows
  held_locks :: "int list"
  foreign_locks :: "int list"
  db_clock :: int

text \<open>The defaults of \<open>config.py\<close>, and a fresh row as the insert of a repository leaves it.\<close>

definition default_refresh_settings :: refresh_settings where
  "default_refresh_settings = \<lparr>rs_enabled = True, rs_min_interval = 60, rs_default_interval = 300,
     rs_pause_threshold = 8, rs_backoff_max = 604800, rs_tenant_quota = 60, rs_quota_window = 3600\<rparr>"

definition fresh_repository :: "string \<Rightarrow> string \<Rightarrow> int \<Rightarrow> repository" where
  "fresh_repository rid tenant created = \<lparr>repo_id = rid, repo_tenant = tenant, repo_deleted = False,
     repo_status = ''ready'', auto_refresh_enabled = True, refresh_interval_seconds = 300,
     last_refreshed_at = None, repo_created_at = created, refresh_consecutive_failures = 0,
     refresh_backoff_until = None, refresh_paused_at = None, refresh_pause_reason = None\<rparr>"

definition empty_refresh_db :: "int \<Rightarrow> refresh_db" where
  "empty_refresh_db clock = \<lparr>repositories = [], branch_rules = [], branch_state = [],
     import_specs = [], indexed_files = [], refresh_jobs = [], tenant_limits = [], quota_rows = [],
     held_locks = [], foreign_locks = [], db_clock = clock\<rparr>"

section \<open>Due selection\<close>

definition due_floor :: "int \<Rightarrow> int" where
  "due_floor flr = (if flr < 1 then 60 else flr)"

text \<open>\<open>SELECT MIN(...)\<close> over the enabled rules; \<open>NULL\<close> without any.\<close>

definition shortest_rule_interval :: "refresh_db \<Rightarrow> repository \<Rightarrow> int option" where
  "shortest_rule_interval db r =
     (case map (\<lambda>row. case rule_interval_seconds (row_rule row) of
                   None \<Rightarrow> refresh_interval_seconds r | Some s \<Rightarrow> s)
            (filter (\<lambda>row. row_repository row = repo_id r \<and> refresh_enabled (row_rule row))
               (branch_rules db)) of
        [] \<Rightarrow> None
      | x # xs \<Rightarrow> Some (fold min xs x))"

definition due_interval :: "int \<Rightarrow> refresh_db \<Rightarrow> repository \<Rightarrow> int" where
  "due_interval flr db r =
     max (min (refresh_interval_seconds r)
              (case shortest_rule_interval db r of None \<Rightarrow> refresh_interval_seconds r | Some s \<Rightarrow> s))
         (due_floor flr)"

definition is_due_row :: "int \<Rightarrow> refresh_db \<Rightarrow> repository \<Rightarrow> bool" where
  "is_due_row flr db r \<longleftrightarrow>
     \<not> repo_deleted r
     \<and> (repo_status r = ''ready'' \<or> repo_status r = ''error'')
     \<and> auto_refresh_enabled r
     \<and> refresh_paused_at r = None
     \<and> (case refresh_backoff_until r of None \<Rightarrow> True | Some t \<Rightarrow> t \<le> db_clock db)
     \<and> (case last_refreshed_at r of
          None \<Rightarrow> True
        | Some t \<Rightarrow> t \<le> db_clock db - due_interval flr db r * usec)"

definition due_order :: "repository \<Rightarrow> int \<times> int \<times> int" where
  "due_order r = (case last_refreshed_at r of
       None \<Rightarrow> (0, 0, repo_created_at r)
     | Some t \<Rightarrow> (1, t, repo_created_at r))"

definition list_due_repositories :: "int \<Rightarrow> refresh_db \<Rightarrow> repository list" where
  "list_due_repositories flr db = sort_key due_order (filter (is_due_row flr db) (repositories db))"

section \<open>Updating a repository row\<close>

definition live_row :: "string \<Rightarrow> repository \<Rightarrow> bool" where
  "live_row rid r \<longleftrightarrow> repo_id r = rid \<and> \<not> repo_deleted r"

definition get_tenant_repository :: "string \<Rightarrow> string \<Rightarrow> refresh_db \<Rightarrow> repository option" where
  "get_tenant_repository tenant rid db =
     find (\<lambda>r. live_row rid r \<and> repo_tenant r = tenant) (repositories db)"

definition update_repositories ::
  "(repository \<Rightarrow> bool) \<Rightarrow> (repository \<Rightarrow> repository) \<Rightarrow> refresh_db \<Rightarrow> refresh_db" where
  "update_repositories p f db =
     db\<lparr>repositories := map (\<lambda>r. if p r then f r else r) (repositories db)\<rparr>"

definition mark_repository_refreshed :: "string \<Rightarrow> refresh_db \<Rightarrow> bool \<times> refresh_db" where
  "mark_repository_refreshed rid db =
     (list_ex (live_row rid) (repositories db),
      update_repositories (live_row rid) (\<lambda>r. r\<lparr>last_refreshed_at := Some (db_clock db)\<rparr>) db)"

definition set_repository_refresh_interval ::
  "refresh_settings \<Rightarrow> string \<Rightarrow> string \<Rightarrow> int option \<Rightarrow> refresh_db \<Rightarrow> int option \<times> refresh_db" where
  "set_repository_refresh_interval st tenant rid interval_seconds db =
     (let effective = resolve_refresh_interval interval_seconds (rs_min_interval st) (rs_default_interval st);
          hit = (\<lambda>r. live_row rid r \<and> repo_tenant r = tenant)
      in (if list_ex hit (repositories db) then Some effective else None,
          update_repositories hit (\<lambda>r. r\<lparr>refresh_interval_seconds := effective\<rparr>) db))"

record failure_outcome =
  fo_consecutive_failures :: int
  fo_backoff_seconds :: int
  fo_paused :: bool
  fo_newly_paused :: bool

text \<open>Both updates of the transaction, on the row.\<close>

definition fail_row ::
  "refresh_settings \<Rightarrow> int \<Rightarrow> string option \<Rightarrow> repository \<Rightarrow> failure_outcome \<times> repository" where
  "fail_row st clock error r =
     (let failures = refresh_consecutive_failures r + 1;
          already_paused = (refresh_paused_at r \<noteq> None);
          interval = resolve_refresh_interval (Some (refresh_interval_seconds r))
                       (rs_min_interval st) (rs_default_interval st);
          backoff_seconds = compute_refresh_backoff_seconds failures interval (rs_backoff_max st);
          pause = should_auto_pause failures (rs_pause_threshold st)
      in (\<lparr>fo_consecutive_failures = failures,
           fo_backoff_seconds = backoff_seconds,
           fo_paused = (pause \<or> already_paused),
           fo_newly_paused = (pause \<and> \<not> already_paused)\<rparr>,
          r\<lparr>refresh_consecutive_failures := failures,
            refresh_backoff_until := Some (clock + backoff_seconds * usec),
            refresh_paused_at := (if pause
                then (case refresh_paused_at r of None \<Rightarrow> Some clock | Some t \<Rightarrow> Some t)
                else refresh_paused_at r),
            refresh_pause_reason := (if pause \<and> refresh_paused_at r = None then error
                else refresh_pause_reason r)\<rparr>))"

definition record_repository_refresh_failure ::
  "refresh_settings \<Rightarrow> string \<Rightarrow> string option \<Rightarrow> refresh_db \<Rightarrow> failure_outcome option \<times> refresh_db"
where
  "record_repository_refresh_failure st rid error db =
     (case find (live_row rid) (repositories db) of
        None \<Rightarrow> (None, db)
      | Some r \<Rightarrow>
          (Some (fst (fail_row st (db_clock db) error r)),
           update_repositories (live_row rid) (\<lambda>r. snd (fail_row st (db_clock db) error r)) db))"

definition succeed_row :: "repository \<Rightarrow> repository" where
  "succeed_row r = r\<lparr>refresh_consecutive_failures := 0, refresh_backoff_until := None\<rparr>"

definition record_repository_refresh_success :: "string \<Rightarrow> refresh_db \<Rightarrow> bool \<times> refresh_db" where
  "record_repository_refresh_success rid db =
     (list_ex (live_row rid) (repositories db), update_repositories (live_row rid) succeed_row db)"

definition resume_row :: "repository \<Rightarrow> repository" where
  "resume_row r = r\<lparr>refresh_paused_at := None, refresh_pause_reason := None,
     refresh_consecutive_failures := 0, refresh_backoff_until := None\<rparr>"

text \<open>\<open>Some was_paused\<close>, or \<open>None\<close> when no live repository of the tenant matches.\<close>

definition resume_repository_refresh :: "string \<Rightarrow> string \<Rightarrow> refresh_db \<Rightarrow> bool option \<times> refresh_db" where
  "resume_repository_refresh tenant rid db =
     (case get_tenant_repository tenant rid db of
        None \<Rightarrow> (None, db)
      | Some pre \<Rightarrow>
          (Some (refresh_paused_at pre \<noteq> None),
           update_repositories (\<lambda>r. live_row rid r \<and> repo_tenant r = tenant) resume_row db))"

section \<open>Branch rules and branch state\<close>

definition list_repository_branch_refresh_rules ::
  "string \<Rightarrow> string \<Rightarrow> refresh_db \<Rightarrow> branch_refresh_rule list" where
  "list_repository_branch_refresh_rules tenant rid db =
     sort_key branch_pattern
       (map row_rule
         (filter (\<lambda>row. row_tenant row = tenant \<and> row_repository row = rid) (branch_rules db)))"

text \<open>The upsert of one rule; a rule keeps the row, and the tenant, of its pattern.\<close>

fun upsert_rule :: "string \<Rightarrow> string \<Rightarrow> branch_refresh_rule \<Rightarrow> rule_row list \<Rightarrow> rule_row list" where
  "upsert_rule tenant rid rule [] =
     [\<lparr>row_tenant = tenant, row_repository = rid, row_rule = rule\<rparr>]"
| "upsert_rule tenant rid rule (row # rows) =
     (if row_repository row = rid \<and> branch_pattern (row_rule row) = branch_pattern rule
      then row\<lparr>row_rule := rule\<rparr> # rows
      else row # upsert_rule tenant rid rule rows)"

definition replace_repository_branch_refresh_rules ::
  "string \<Rightarrow> string \<Rightarrow> branch_refresh_rule list \<Rightarrow> refresh_db \<Rightarrow> bool \<times> refresh_db" where
  "replace_repository_branch_refresh_rules tenant rid rules db =
     (if get_tenant_repository tenant rid db = None then (False, db)
      else
        (let patterns = map branch_pattern rules;
             kept = filter (\<lambda>row. \<not> (row_repository row = rid
                        \<and> branch_pattern (row_rule row) \<notin> set patterns)) (branch_rules db)
         in (True, db\<lparr>branch_rules := fold (upsert_rule tenant rid) rules kept\<rparr>)))"

definition list_repository_branch_refresh_state :: "string \<Rightarrow> refresh_db \<Rightarrow> (string, int) dict" where
  "list_repository_branch_refresh_state rid db =
     map (\<lambda>((_, branch), t). (branch, t)) (filter (\<lambda>((r, _), _). r = rid) (branch_state db))"

definition mark_repository_branch_refreshed :: "string \<Rightarrow> string \<Rightarrow> refresh_db \<Rightarrow> refresh_db" where
  "mark_repository_branch_refreshed rid branch db =
     db\<lparr>branch_state := AList.update (rid, branch) (db_clock db) (branch_state db)\<rparr>"

section \<open>Specs, candidates and jobs\<close>

definition list_repository_import_spec_branches :: "string \<Rightarrow> refresh_db \<Rightarrow> string list" where
  "list_repository_import_spec_branches rid db =
     filter (\<lambda>b. b \<noteq> [])
       (sort (remdups (map spec_branch (filter (\<lambda>s. spec_repository s = rid) (import_specs db)))))"

definition list_repository_import_spec_paths :: "string \<Rightarrow> string \<Rightarrow> refresh_db \<Rightarrow> string list" where
  "list_repository_import_spec_paths rid branch db =
     filter (\<lambda>p. p \<noteq> [])
       (sort (map spec_path
         (filter (\<lambda>s. spec_repository s = rid \<and> spec_branch s = branch) (import_specs db))))"

definition list_repository_refresh_candidates ::
  "string \<Rightarrow> string \<Rightarrow> refresh_db \<Rightarrow> (import_spec \<times> indexed_file) list" where
  "list_repository_refresh_candidates rid branch db =
     sort_key (\<lambda>(s, _). spec_path s)
       [(s, f). s \<leftarrow> import_specs db, spec_repository s = rid \<and> spec_branch s = branch,
                f \<leftarrow> indexed_files db, file_repository f = rid \<and> file_branch f = branch
                                        \<and> file_path f = spec_path s]"

definition active_job :: "refresh_job \<Rightarrow> bool" where
  "active_job j \<longleftrightarrow> job_status j = QUEUED \<or> job_status j = RUNNING"

definition job_lineage :: "refresh_job \<Rightarrow> string \<times> string \<times> string" where
  "job_lineage j = (job_repository j, job_branch j, job_path j)"

text \<open>\<open>Inr None\<close>: an active job already covers the lineage. \<open>Inl\<close> is another refusal of the
  insert by the database, a broken reference for instance; which inserts it refuses is the
  argument \<open>refuses\<close>.\<close>

definition enqueue_repository_refresh_job ::
  "(refresh_job \<Rightarrow> string option) \<Rightarrow> refresh_job \<Rightarrow> refresh_db
     \<Rightarrow> (string + refresh_job option) \<times> refresh_db" where
  "enqueue_repository_refresh_job refuses request db =
     (let job = request\<lparr>job_options := (if strip (job_options request) = [] then ''{}''
                                        else job_options request),
                       job_status := QUEUED, job_created_at := db_clock db, job_pull_count := None\<rparr>
      in case refuses job of
           Some error \<Rightarrow> (Inl error, db)
         | None \<Rightarrow>
             (if list_ex (\<lambda>j. active_job j \<and> job_lineage j = job_lineage job) (refresh_jobs db)
              then (Inr None, db)
              else (Inr (Some job), db\<lparr>refresh_jobs := refresh_jobs db @ [job]\<rparr>)))"

definition job_weight :: "refresh_job \<Rightarrow> int" where
  "job_weight j = (case job_pull_count j of None \<Rightarrow> 1 | Some n \<Rightarrow> n)"

definition jobs_of_tenant :: "string \<Rightarrow> refresh_job list \<Rightarrow> int" where
  "jobs_of_tenant tenant js = (\<Sum>j\<leftarrow>filter (\<lambda>j. job_tenant j = tenant) js. job_weight j)"

definition count_recent_repository_refresh_jobs_by_tenant ::
  "refresh_db \<Rightarrow> int \<Rightarrow> (string, int) dict" where
  "count_recent_repository_refresh_jobs_by_tenant db window_length =
     (let recent = filter (\<lambda>j. job_created_at j \<ge> db_clock db - window_length * usec) (refresh_jobs db)
      in map (\<lambda>t. (t, jobs_of_tenant t recent)) (remdups (map job_tenant recent)))"

text \<open>A row of the tenants table: id, soft-deleted, stored quota.\<close>

definition list_tenant_repository_polls_per_hour :: "refresh_db \<Rightarrow> (string, int) dict" where
  "list_tenant_repository_polls_per_hour db =
     concat (map (\<lambda>(t, deleted, quota). case quota of
          None \<Rightarrow> [] | Some n \<Rightarrow> (if deleted then [] else [(t, n)])) (tenant_limits db))"

section \<open>The advisory lock of a repository\<close>

text \<open>Session advisory locks count: a session may take one it holds again. \<open>hashtext\<close> is the
  server's hash.\<close>

definition lock_key :: "(string \<Rightarrow> int) \<Rightarrow> string \<Rightarrow> int" where
  "lock_key hashtext rid = hashtext (''repo-refresh:'' @ rid)"

definition try_acquire_repository_refresh_lock ::
  "(string \<Rightarrow> int) \<Rightarrow> string \<Rightarrow> refresh_db \<Rightarrow> bool \<times> refresh_db" where
  "try_acquire_repository_refresh_lock hashtext rid db =
     (if lock_key hashtext rid \<in> set (foreign_locks db) then (False, db)
      else (True, db\<lparr>held_locks := lock_key hashtext rid # held_locks db\<rparr>))"

definition release_repository_refresh_lock :: "(string \<Rightarrow> int) \<Rightarrow> string \<Rightarrow> refresh_db \<Rightarrow> refresh_db" where
  "release_repository_refresh_lock hashtext rid db =
     db\<lparr>held_locks := remove1 (lock_key hashtext rid) (held_locks db)\<rparr>"


section \<open>Facts about the statements\<close>

lemma update_repositories_simps [simp]: "refresh_jobs (update_repositories p f db) = refresh_jobs db"
  "import_specs (update_repositories p f db) = import_specs db"
  "indexed_files (update_repositories p f db) = indexed_files db"
  "branch_rules (update_repositories p f db) = branch_rules db"
  "branch_state (update_repositories p f db) = branch_state db"
  "tenant_limits (update_repositories p f db) = tenant_limits db"
  "quota_rows (update_repositories p f db) = quota_rows db"
  "held_locks (update_repositories p f db) = held_locks db"
  "foreign_locks (update_repositories p f db) = foreign_locks db"
  "db_clock (update_repositories p f db) = db_clock db"
  by (simp_all add: update_repositories_def)

lemma instant_utc [simp]: "instant \<lparr>dt_wall = t, dt_offset = Some 0\<rparr> = t"
  by (simp add: instant_def)

lemma is_branch_due_None: "is_branch_due None i clock"
  by (simp add: is_branch_due_def is_repository_due_def as_utc_def)

lemma fail_row_simps [simp]:
  "repo_id (snd (fail_row st c e r)) = repo_id r"
  "repo_tenant (snd (fail_row st c e r)) = repo_tenant r"
  "repo_deleted (snd (fail_row st c e r)) = repo_deleted r"
  "repo_status (snd (fail_row st c e r)) = repo_status r"
  "auto_refresh_enabled (snd (fail_row st c e r)) = auto_refresh_enabled r"
  "refresh_interval_seconds (snd (fail_row st c e r)) = refresh_interval_seconds r"
  "last_refreshed_at (snd (fail_row st c e r)) = last_refreshed_at r"
  "refresh_consecutive_failures (snd (fail_row st c e r)) = refresh_consecutive_failures r + 1"
  "fo_consecutive_failures (fst (fail_row st c e r)) = refresh_consecutive_failures r + 1"
  by (simp_all add: fail_row_def Let_def)

lemma fail_row_paused:
  "refresh_paused_at (snd (fail_row st c e r)) =
     (case refresh_paused_at r of
        Some t \<Rightarrow> Some t
      | None \<Rightarrow> (if should_auto_pause (refresh_consecutive_failures r + 1) (rs_pause_threshold st)
                then Some c else None))"
  by (simp add: fail_row_def Let_def split: option.splits)

lemma fail_row_reason:
  "refresh_pause_reason (snd (fail_row st c e r)) =
     (if should_auto_pause (refresh_consecutive_failures r + 1) (rs_pause_threshold st)
         \<and> refresh_paused_at r = None then e else refresh_pause_reason r)"
  by (simp add: fail_row_def Let_def)

lemma fail_row_backoff:
  "refresh_backoff_until (snd (fail_row st c e r)) =
     Some (c + compute_refresh_backoff_seconds (refresh_consecutive_failures r + 1)
       (resolve_refresh_interval (Some (refresh_interval_seconds r)) (rs_min_interval st)
          (rs_default_interval st)) (rs_backoff_max st) * usec)"
  by (simp add: fail_row_def Let_def)

lemma fail_row_outcome:
  "fo_newly_paused (fst (fail_row st c e r)) \<longleftrightarrow>
     refresh_paused_at r = None \<and> refresh_paused_at (snd (fail_row st c e r)) \<noteq> None"
  "fo_paused (fst (fail_row st c e r)) \<longleftrightarrow> refresh_paused_at (snd (fail_row st c e r)) \<noteq> None"
  by (auto simp: fail_row_def Let_def split: option.splits)

text \<open>A run of failed ticks without a success in between, each at its own time.\<close>

fun fail_all :: "refresh_settings \<Rightarrow> (int \<times> string option) list \<Rightarrow> repository \<Rightarrow> repository" where
  "fail_all st [] r = r"
| "fail_all st ((clock, error) # fs) r = fail_all st fs (snd (fail_row st clock error r))"

lemma fail_all_append:
  "fail_all st (fs @ [(clock, error)]) r = snd (fail_row st clock error (fail_all st fs r))"
  by (induction fs arbitrary: r) auto

lemma fail_all_interval [simp]:
  "refresh_interval_seconds (fail_all st fs r) = refresh_interval_seconds r"
  by (induction fs arbitrary: r) auto

lemma fail_all_count [simp]:
  "refresh_consecutive_failures (fail_all st fs r) = refresh_consecutive_failures r + int (length fs)"
  by (induction fs arbitrary: r) auto

lemma fail_all_pause:
  assumes "refresh_consecutive_failures r = 0" and "refresh_paused_at r = None"
  shows "refresh_paused_at (fail_all st fs r) =
      (if 0 < rs_pause_threshold st \<and> rs_pause_threshold st \<le> int (length fs)
       then Some (fst (fs ! nat (rs_pause_threshold st - 1))) else None)
    \<and> refresh_pause_reason (fail_all st fs r) =
      (if 0 < rs_pause_threshold st \<and> rs_pause_threshold st \<le> int (length fs)
       then snd (fs ! nat (rs_pause_threshold st - 1)) else refresh_pause_reason r)"
proof (induction fs rule: rev_induct)
  case Nil
  then show ?case using assms by auto
next
  case (snoc f fs)
  obtain clock error where f: "f = (clock, error)" by (cases f)
  let ?th = "rs_pause_threshold st"
  consider "?th \<le> 0" | "0 < ?th" "?th \<le> int (length fs)" | "?th = int (length fs) + 1"
    | "int (length fs) + 1 < ?th"
    by linarith
  then show ?case
  proof cases
    case 2
    then have "nat (?th - 1) < length fs" by linarith
    then show ?thesis
      using 2 snoc by (simp add: f fail_all_append fail_row_paused fail_row_reason nth_append)
  next
    case 3
    then have "nat (?th - 1) = length fs" by linarith
    then show ?thesis
      using 3 snoc assms
      by (simp add: f fail_all_append fail_row_paused fail_row_reason should_auto_pause_def)
  qed (use snoc assms in
      \<open>simp_all add: f fail_all_append fail_row_paused fail_row_reason should_auto_pause_def\<close>)
qed

lemma shortest_rule_interval_None:
  "(\<forall>row \<in> set (branch_rules db). row_repository row = repo_id r \<longrightarrow> \<not> refresh_enabled (row_rule row)) \<Longrightarrow>
     shortest_rule_interval db r = None"
  unfolding shortest_rule_interval_def by (subst filter_False) auto

text \<open>The rows of a repository, and the key of the rules table.\<close>

abbreviation rules_of :: "string \<Rightarrow> rule_row list \<Rightarrow> rule_row list" where
  "rules_of rid rows \<equiv> filter (\<lambda>row. row_repository row = rid) rows"

abbreviation row_pattern :: "rule_row \<Rightarrow> string" where
  "row_pattern row \<equiv> branch_pattern (row_rule row)"

definition rules_wf :: "string \<Rightarrow> string \<Rightarrow> rule_row list \<Rightarrow> bool" where
  "rules_wf tenant rid rows \<longleftrightarrow>
     distinct (map row_pattern (rules_of rid rows))
     \<and> list_all (\<lambda>row. row_tenant row = tenant) (rules_of rid rows)"

lemma rules_of_upsert_other:
  "r \<noteq> rid \<Longrightarrow> rules_of r (upsert_rule tenant rid rule rows) = rules_of r rows"
  by (induction rows) auto

lemma rules_of_upsert:
  "rules_of rid (upsert_rule tenant rid rule rows) = upsert_rule tenant rid rule (rules_of rid rows)"
  by (induction rows) auto

lemma upsert_rule_patterns:
  "list_all (\<lambda>row. row_repository row = rid) rows \<Longrightarrow>
   map row_pattern (upsert_rule tenant rid rule rows) =
     (if branch_pattern rule \<in> set (map row_pattern rows) then map row_pattern rows
      else map row_pattern rows @ [branch_pattern rule])"
  by (induction rows) auto

lemma upsert_rule_set:
  assumes "distinct (map row_pattern rows)"
    and "list_all (\<lambda>row. row_repository row = rid \<and> row_tenant row = tenant) rows"
  shows "set (upsert_rule tenant rid rule rows) =
    insert \<lparr>row_tenant = tenant, row_repository = rid, row_rule = rule\<rparr>
      {row \<in> set rows. row_pattern row \<noteq> branch_pattern rule}"
  using assms
proof (induction rows)
  case (Cons row rows)
  show ?case
  proof (cases "row_pattern row = branch_pattern rule")
    case True
    have "row\<lparr>row_rule := rule\<rparr> = \<lparr>row_tenant = tenant, row_repository = rid, row_rule = rule\<rparr>"
      using Cons.prems(2) by simp
    moreover have "branch_pattern rule \<notin> row_pattern ` set rows"
      using True Cons.prems(1) by simp
    then have "row_pattern q \<noteq> branch_pattern rule" if "q \<in> set rows" for q
      using that by (metis image_eqI)
    then have "{q \<in> set (row # rows). row_pattern q \<noteq> branch_pattern rule} = set rows"
      using True by auto
    ultimately show ?thesis using True Cons.prems(2) by (cases row) auto
  next
    case False
    then show ?thesis using Cons by auto
  qed
qed simp

lemma rules_wf_list_all:
  "rules_wf tenant rid rows \<longleftrightarrow> distinct (map row_pattern (rules_of rid rows))
     \<and> list_all (\<lambda>row. row_repository row = rid \<and> row_tenant row = tenant) (rules_of rid rows)"
  by (auto simp: rules_wf_def list_all_iff)

lemma rules_wf_upsert:
  assumes "rules_wf tenant rid rows"
  shows "rules_wf tenant rid (upsert_rule tenant rid rule rows)"
    and "set (rules_of rid (upsert_rule tenant rid rule rows)) =
      insert \<lparr>row_tenant = tenant, row_repository = rid, row_rule = rule\<rparr>
        {row \<in> set (rules_of rid rows). row_pattern row \<noteq> branch_pattern rule}"
proof -
  have wf: "distinct (map row_pattern (rules_of rid rows))"
    "list_all (\<lambda>row. row_repository row = rid \<and> row_tenant row = tenant) (rules_of rid rows)"
    using assms unfolding rules_wf_list_all by auto
  show s: "set (rules_of rid (upsert_rule tenant rid rule rows)) =
      insert \<lparr>row_tenant = tenant, row_repository = rid, row_rule = rule\<rparr>
        {row \<in> set (rules_of rid rows). row_pattern row \<noteq> branch_pattern rule}"
    unfolding rules_of_upsert by (rule upsert_rule_set[OF wf])
  have "distinct (map row_pattern (rules_of rid (upsert_rule tenant rid rule rows)))"
    using wf(1) upsert_rule_patterns[of rid "rules_of rid rows" tenant rule]
    unfolding rules_of_upsert by (simp add: list_all_iff)
  moreover have "\<forall>row \<in> set (rules_of rid (upsert_rule tenant rid rule rows)). row_tenant row = tenant"
    unfolding s using wf(2) by (auto simp: list_all_iff)
  ultimately show "rules_wf tenant rid (upsert_rule tenant rid rule rows)"
    unfolding rules_wf_def list_all_iff by blast
qed

lemma fold_upsert_rules:
  assumes "rules_wf tenant rid rows" and "distinct (map branch_pattern rules)"
  shows "rules_wf tenant rid (fold (upsert_rule tenant rid) rules rows)
    \<and> set (rules_of rid (fold (upsert_rule tenant rid) rules rows)) =
        {row \<in> set (rules_of rid rows). row_pattern row \<notin> branch_pattern ` set rules}
        \<union> (\<lambda>rule. \<lparr>row_tenant = tenant, row_repository = rid, row_rule = rule\<rparr>) ` set rules"
  using assms
proof (induction rules arbitrary: rows)
  case (Cons rule rules)
  have fresh: "branch_pattern rule \<notin> branch_pattern ` set rules" "distinct (map branch_pattern rules)"
    using Cons.prems(2) by auto
  let ?n = "\<lparr>row_tenant = tenant, row_repository = rid, row_rule = rule\<rparr>"
  have "{row \<in> insert ?n {row \<in> set (rules_of rid rows). row_pattern row \<noteq> branch_pattern rule}.
          row_pattern row \<notin> branch_pattern ` set rules}
      = insert ?n {row \<in> set (rules_of rid rows). row_pattern row \<notin> branch_pattern ` set (rule # rules)}"
    using fresh(1) by auto
  then show ?case
    using Cons.IH[OF rules_wf_upsert(1)[OF Cons.prems(1), of rule] fresh(2)]
    unfolding rules_wf_upsert(2)[OF Cons.prems(1)] by simp
qed auto

lemma fold_upsert_other:
  "r \<noteq> rid \<Longrightarrow> rules_of r (fold (upsert_rule tenant rid) rules rows) = rules_of r rows"
  by (induction rules arbitrary: rows) (simp_all add: rules_of_upsert_other)

text \<open>Sorting by an injective key leaves one possible order.\<close>

lemma sort_key_unique:
  assumes "distinct (map f xs)" and "distinct (map f ys)" and "set xs = set ys"
  shows "sort_key f xs = sort_key f ys"
proof -
  have "mset xs = mset ys"
    using assms by (metis distinct_map set_eq_iff_mset_eq_distinct)
  moreover have "inj_on f (set xs)" using assms(1) by (simp add: distinct_map)
  ultimately show ?thesis
    by (intro sort_key_inj_key_eq) simp_all
qed

section \<open>Properties\<close>

text \<open>auto-pause trips exactly at the threshold. A healthy repository that fails some number
  of times in a row counts every failure, is paused precisely when the threshold is positive and
  reached, since the failure that reached it and with that failure's diagnostic (later failures do
  not renew the pause), and is deferred by the back-off of its latest failure.\<close>

theorem auto_pause_at_threshold:
  assumes "refresh_consecutive_failures r = 0" and "refresh_paused_at r = None"
    and "fs = older @ [(clock, error)]"
  shows "refresh_consecutive_failures (fail_all st fs r) = int (length fs)
    \<and> (case refresh_paused_at (fail_all st fs r) of
          None \<Rightarrow> \<not> should_auto_pause (int (length fs)) (rs_pause_threshold st)
        | Some t \<Rightarrow> should_auto_pause (int (length fs)) (rs_pause_threshold st)
            \<and> (t, refresh_pause_reason (fail_all st fs r)) = fs ! nat (rs_pause_threshold st - 1))
    \<and> refresh_backoff_until (fail_all st fs r) =
        Some (clock + compute_refresh_backoff_seconds (int (length fs))
          (resolve_refresh_interval (Some (refresh_interval_seconds r)) (rs_min_interval st)
             (rs_default_interval st)) (rs_backoff_max st) * usec)"
proof -
  have "refresh_backoff_until (fail_all st fs r) =
        Some (clock + compute_refresh_backoff_seconds (int (length fs))
          (resolve_refresh_interval (Some (refresh_interval_seconds r)) (rs_min_interval st)
             (rs_default_interval st)) (rs_backoff_max st) * usec)"
    using assms(1) unfolding assms(3) by (simp add: fail_all_append fail_row_backoff add.commute)
  then show ?thesis
    using assms(1) fail_all_pause[OF assms(1,2), of st fs]
    by (auto simp: should_auto_pause_def split: if_splits)
qed


theorem auto_pause_at_threshold_witness:
  "let r = fail_all (default_refresh_settings\<lparr>rs_pause_threshold := 2\<rparr>)
             [(10, Some ''a''), (20, Some ''b''), (30, Some ''c'')] (fresh_repository ''r'' ''t'' 0)
   in refresh_consecutive_failures r = 3 \<and> refresh_paused_at r = Some 20
    \<and> refresh_pause_reason r = Some ''b''"
  using auto_pause_at_threshold
    [of "fresh_repository ''r'' ''t'' 0" "[(10, Some ''a''), (20, Some ''b''), (30, Some ''c'')]"
        "[(10, Some ''a''), (20, Some ''b'')]" 30 "Some ''c''"
        "default_refresh_settings\<lparr>rs_pause_threshold := 2\<rparr>"]
  by (simp add: fresh_repository_def default_refresh_settings_def should_auto_pause_def
      del: fail_all.simps split: option.splits)

text \<open>the two due tests agree: for a live, enabled, unpaused repository in a scannable state
  whose back-off has elapsed, with no enabled branch rule, a positive floor and a positive stored interval
  (the column's CHECK), the SQL selection picks the row exactly when the Python cadence says
  the repository is due.\<close>

theorem due_selection_agrees:
  assumes "1 \<le> flr" and "0 < refresh_interval_seconds r"
    and "\<forall>row \<in> set (branch_rules db). row_repository row = repo_id r
           \<longrightarrow> \<not> refresh_enabled (row_rule row)"
  shows "is_due_row flr db r \<longleftrightarrow>
    \<not> repo_deleted r \<and> repo_status r \<in> {''ready'', ''error''} \<and> auto_refresh_enabled r
    \<and> refresh_paused_at r = None \<and> (\<forall>t. refresh_backoff_until r = Some t \<longrightarrow> t \<le> db_clock db)
    \<and> is_branch_due (map_option (\<lambda>t. \<lparr>dt_wall = t, dt_offset = Some 0\<rparr>) (last_refreshed_at r))
        (resolve_refresh_interval (Some (refresh_interval_seconds r)) flr d)
        \<lparr>dt_wall = db_clock db, dt_offset = Some 0\<rparr>"
proof -
  have interval: "due_interval flr db r = resolve_refresh_interval (Some (refresh_interval_seconds r)) flr d"
    using assms(1,2) shortest_rule_interval_None[OF assms(3)]
    by (simp add: due_interval_def due_floor_def resolve_refresh_interval_def max_def Let_def)
  show ?thesis
    unfolding is_due_row_def interval
    by (cases "last_refreshed_at r"; cases "refresh_backoff_until r")
      (auto simp: is_branch_due_Some is_branch_due_None)
qed

theorem due_selection_agrees_witness:
  "is_due_row 60 (empty_refresh_db (400 * usec))
     ((fresh_repository ''r'' ''t'' 0)\<lparr>last_refreshed_at := Some (90 * usec)\<rparr>)"
  by (subst due_selection_agrees[where d = 300])
    (simp_all add: is_branch_due_Some instant_def resolve_refresh_interval_def
      fresh_repository_def empty_refresh_db_def)

text \<open>saving a rule set is exact: for a live repository of the tenant, reading the rules back
  gives the saved rules, each once, in pattern order, and the rules of every other repository are
  untouched. (Saved patterns are distinct; the stored rows carry their repository's tenant and
  distinct patterns per repository.)\<close>

theorem branch_rules_roundtrip:
  assumes "get_tenant_repository tenant rid db = Some r"
    and "distinct (map branch_pattern rules)"
    and "rules_wf tenant rid (branch_rules db)"
    and "replace_repository_branch_refresh_rules tenant rid rules db = (ok, db')"
  shows "ok \<and> list_repository_branch_refresh_rules tenant rid db' = sort_key branch_pattern rules
    \<and> (\<forall>q. q \<noteq> rid \<longrightarrow> rules_of q (branch_rules db') = rules_of q (branch_rules db))"
proof -
  define kept where "kept = filter (\<lambda>row. \<not> (row_repository row = rid
    \<and> row_pattern row \<notin> branch_pattern ` set rules)) (branch_rules db)"
  define new where "new = fold (upsert_rule tenant rid) rules kept"
  have db': "ok" "branch_rules db' = new"
    using assms(1,4)
    by (auto simp: replace_repository_branch_refresh_rules_def Let_def new_def kept_def)
  have rows: "rules_of rid kept = filter (\<lambda>row. row_pattern row \<in> branch_pattern ` set rules)
      (rules_of rid (branch_rules db))"
    unfolding kept_def filter_filter by (rule filter_cong) auto
  have kept_wf: "rules_wf tenant rid kept"
    unfolding rules_wf_def rows
  proof
    show "distinct (map row_pattern (filter (\<lambda>row. row_pattern row \<in> branch_pattern ` set rules)
        (rules_of rid (branch_rules db))))"
      using assms(3) unfolding rules_wf_def by (rule distinct_map_filter[OF conjunct1])
  qed (use assms(3) in \<open>auto simp: rules_wf_def list_all_iff\<close>)
  have new: "rules_wf tenant rid new"
    "set (rules_of rid new) =
       (\<lambda>rule. \<lparr>row_tenant = tenant, row_repository = rid, row_rule = rule\<rparr>) ` set rules"
    using fold_upsert_rules[OF kept_wf assms(2)] unfolding new_def[symmetric] rows by auto
  have "filter (\<lambda>row. row_tenant row = tenant \<and> row_repository row = rid) new = rules_of rid new"
    using new(1) by (intro filter_cong) (auto simp: rules_wf_def list_all_iff)
  moreover have "sort_key branch_pattern (map row_rule (rules_of rid new)) = sort_key branch_pattern rules"
  proof (rule sort_key_unique)
    show "set (map row_rule (rules_of rid new)) = set rules"
      unfolding set_map new(2) by (simp add: image_image)
    show "distinct (map branch_pattern (map row_rule (rules_of rid new)))"
      using new(1) by (simp add: rules_wf_def comp_def)
  qed (rule assms(2))
  moreover have "rules_of q new = rules_of q (branch_rules db)" if "q \<noteq> rid" for q
    unfolding new_def fold_upsert_other[OF that] kept_def filter_filter
    using that by (intro filter_cong) auto
  ultimately show ?thesis
    using db' by (simp add: list_repository_branch_refresh_rules_def)
qed


theorem branch_rules_roundtrip_witness:
  "let db = (empty_refresh_db 0)\<lparr>repositories := [fresh_repository ''r'' ''t'' 0]\<rparr>;
       a = \<lparr>branch_pattern = ''main'', refresh_enabled = True, rule_interval_seconds = None,
            rule_version_line = None\<rparr>;
       b = \<lparr>branch_pattern = ''dev'', refresh_enabled = False, rule_interval_seconds = None,
            rule_version_line = None\<rparr>
   in list_repository_branch_refresh_rules ''t'' ''r''
        (snd (replace_repository_branch_refresh_rules ''t'' ''r'' [a, b] db)) = [b, a]"
  unfolding Let_def
  by (subst branch_rules_roundtrip[THEN conjunct2, THEN conjunct1, OF _ _ _ prod.collapse[symmetric]])
    (code_simp | simp add: get_tenant_repository_def empty_refresh_db_def rules_wf_def)+

end
