(* ===== verification/Sweep.thy ===== *)
theory Sweep
  imports RefreshDb
begin

text \<open>
  One tick of the repository auto-refresh (\<open>apiome-rest/src/app/refresh_source.py\<close> and
  \<open>repository_refresh_sweep.py\<close>): candidates of a Git branch, the enqueue loop of a branch,
  the branches of a repository, the outcome bookkeeping and the whole tick over the due
  repositories. The GitHub walk, the inserts the database refuses and the reads that fail are
  the arguments gathered in \<open>refresh_env\<close>. A computation that may raise returns its
  \<open>Inl\<close> diagnostic together with the database as the exception left it. The in-process
  telemetry registry and the log are left out; the notifications a tick asks for are returned.
\<close>

section \<open>Refresh sources\<close>

definition error_class_for_status :: "int option \<Rightarrow> string" where
  "error_class_for_status http_status = (case http_status of
       None \<Rightarrow> ''unavailable''
     | Some s \<Rightarrow>
         (if s = 401 \<or> s = 403 then ''auth''
          else if s = 404 then ''not-found''
          else if s = 429 then ''rate-limited''
          else if 500 \<le> s \<and> s \<le> 599 then ''unavailable''
          else ''unexpected''))"

record refresh_candidate =
  rc_remote_id :: string
  rc_revision :: "string option"
  rc_updated_at :: timestamp
  rc_raw :: "import_spec \<times> indexed_file"

record freshness_key =
  fk_remote_updated_at :: timestamp
  fk_remote_checksum :: "string option"
  fk_last_updated_at :: timestamp
  fk_last_checksum :: "string option"

definition decide_refresh :: "('c \<Rightarrow> freshness_key) \<Rightarrow> 'c \<Rightarrow> refresh_decision" where
  "decide_refresh key_of candidate =
     (let key = key_of candidate
      in evaluate_refresh (fk_remote_updated_at key) (fk_last_updated_at key)
           (fk_remote_checksum key) (fk_last_checksum key))"

definition git_freshness_key :: "refresh_candidate \<Rightarrow> freshness_key" where
  "git_freshness_key cand = (case rc_raw cand of (s, f) \<Rightarrow>
     \<lparr>fk_remote_updated_at = file_committed_at f,
      fk_remote_checksum = file_blob_sha f,
      fk_last_updated_at = last_imported_committed_at s,
      fk_last_checksum = last_imported_blob_sha s\<rparr>)"

text \<open>What a walk of one branch does: the files it indexed, the time it took, and the error it
  ended with, if any.\<close>

record scan_outcome =
  scan_files :: "indexed_file list"
  scan_elapsed :: nat
  scan_error :: "string option"

record refresh_env =
  walk :: "repository \<Rightarrow> string \<Rightarrow> refresh_db \<Rightarrow> scan_outcome"
  refuses :: "refresh_job \<Rightarrow> string option"
  listing_error :: "string \<Rightarrow> string option"
  usage_unreadable :: bool
  limits_unreadable :: bool
  telemetry_writable :: bool
  hashtext :: "string \<Rightarrow> int"

definition scan_repository_branch_into_index ::
  "refresh_env \<Rightarrow> repository \<Rightarrow> string \<Rightarrow> refresh_db \<Rightarrow> (string + unit) \<times> refresh_db" where
  "scan_repository_branch_into_index env repo branch db =
     (let s = walk env repo branch db;
          others = filter (\<lambda>f. \<not> (file_repository f = repo_id repo \<and> file_branch f = branch))
                     (indexed_files db);
          found = map (\<lambda>f. f\<lparr>file_repository := repo_id repo, file_branch := branch\<rparr>) (scan_files s)
      in (case scan_error s of None \<Rightarrow> Inr () | Some error \<Rightarrow> Inl error,
          db\<lparr>indexed_files := others @ found, db_clock := db_clock db + int (scan_elapsed s)\<rparr>))"

definition git_list_candidates ::
  "refresh_env \<Rightarrow> repository \<Rightarrow> string \<Rightarrow> string list option \<Rightarrow> refresh_db
     \<Rightarrow> (string + refresh_candidate list) \<times> refresh_db" where
  "git_list_candidates env repo branch path_filter db =
     (case scan_repository_branch_into_index env repo branch db of
        (Inl error, db) \<Rightarrow> (Inl error, db)
      | (Inr _, db) \<Rightarrow>
          (Inr (map (\<lambda>(s, f). \<lparr>rc_remote_id = spec_path s, rc_revision = file_commit_sha f,
                              rc_updated_at = file_committed_at f, rc_raw = (s, f)\<rparr>)
                 (filter (\<lambda>(s, f). case path_filter of None \<Rightarrow> True | Some ps \<Rightarrow> spec_path s \<in> set ps)
                   (list_repository_refresh_candidates (repo_id repo) branch db))),
           db))"

text \<open>The job of one stale file; its status, time and weight are the insert's.\<close>

definition git_fetch :: "repository \<Rightarrow> string \<Rightarrow> refresh_candidate \<Rightarrow> refresh_job" where
  "git_fetch repo branch cand = (case rc_raw cand of (s, f) \<Rightarrow>
     \<lparr>job_tenant = repo_tenant repo, job_repository = repo_id repo, job_branch = branch,
      job_path = spec_path s, job_spec_id = Some (spec_id s), job_project = spec_project s,
      job_source_kind = spec_source_kind s, job_format_override = spec_format_override s,
      job_content_type = spec_content_type s, job_options = spec_options s,
      job_schema_version = (case spec_schema_version s of None \<Rightarrow> 1 | Some v \<Rightarrow> if v = 0 then 1 else v),
      job_created_by = spec_created_by s, job_remote_commit_sha = file_commit_sha f,
      job_remote_committed_at = file_committed_at f, job_remote_blob_sha = file_blob_sha f,
      job_reason = rd_reason (decide_refresh git_freshness_key cand), job_version_line = None,
      job_status = QUEUED, job_created_at = 0, job_pull_count = None\<rparr>)"

section \<open>One branch\<close>

record branch_result =
  br_enqueued :: int
  br_skipped :: int
  br_deferred :: int

fun enqueue_candidates ::
  "refresh_env \<Rightarrow> repository \<Rightarrow> string \<Rightarrow> int option \<Rightarrow> string option \<Rightarrow> refresh_candidate list
     \<Rightarrow> branch_result \<Rightarrow> refresh_db \<Rightarrow> (string + branch_result) \<times> refresh_db" where
  "enqueue_candidates env repo branch max_enqueues line [] acc db = (Inr acc, db)"
| "enqueue_candidates env repo branch max_enqueues line (cand # cands) acc db =
     (if \<not> should_refresh (decide_refresh git_freshness_key cand)
      then enqueue_candidates env repo branch max_enqueues line cands
             (acc\<lparr>br_skipped := br_skipped acc + 1\<rparr>) db
      else if (case max_enqueues of None \<Rightarrow> False | Some m \<Rightarrow> br_enqueued acc \<ge> m)
      then enqueue_candidates env repo branch max_enqueues line cands
             (acc\<lparr>br_deferred := br_deferred acc + 1\<rparr>) db
      else
        (let request = git_fetch repo branch cand;
             request = (case line of None \<Rightarrow> request
                | Some l \<Rightarrow> if l = [] then request else request\<lparr>job_version_line := Some l\<rparr>)
         in case enqueue_repository_refresh_job (refuses env) request db of
              (Inl error, db) \<Rightarrow> (Inl error, db)
            | (Inr (Some job), db) \<Rightarrow>
                enqueue_candidates env repo branch max_enqueues line cands
                  (acc\<lparr>br_enqueued := br_enqueued acc + 1\<rparr>) db
            | (Inr None, db) \<Rightarrow>
                enqueue_candidates env repo branch max_enqueues line cands
                  (acc\<lparr>br_skipped := br_skipped acc + 1\<rparr>) db))"

definition enqueue_stale_files_for_branch ::
  "refresh_env \<Rightarrow> repository \<Rightarrow> string \<Rightarrow> string list option \<Rightarrow> int option \<Rightarrow> string option
     \<Rightarrow> refresh_db \<Rightarrow> (string + branch_result) \<times> refresh_db" where
  "enqueue_stale_files_for_branch env repo branch path_filter max_enqueues line db =
     (case git_list_candidates env repo branch path_filter db of
        (Inl error, db) \<Rightarrow> (Inl error, db)
      | (Inr cands, db) \<Rightarrow>
          enqueue_candidates env repo branch max_enqueues line cands
            \<lparr>br_enqueued = 0, br_skipped = 0, br_deferred = 0\<rparr> db)"

section \<open>One repository\<close>

record repository_result =
  rr_enqueued :: int
  rr_failed :: bool
  rr_error :: "string option"
  rr_deferred :: int

abbreviation "idle_result \<equiv> \<lparr>rr_enqueued = 0, rr_failed = False, rr_error = None, rr_deferred = 0\<rparr>"

definition resolve_branch_refresh ::
  "refresh_settings \<Rightarrow> branch_refresh_rule list \<Rightarrow> repository \<Rightarrow> string \<Rightarrow> effective_branch_refresh" where
  "resolve_branch_refresh st rules repo branch =
     effective_branch_refresh rules branch (auto_refresh_enabled repo)
       (Some (refresh_interval_seconds repo)) (rs_min_interval st)"

definition utc_time :: "int \<Rightarrow> py_datetime" where
  "utc_time t = \<lparr>dt_wall = t, dt_offset = Some 0\<rparr>"

text \<open>One branch visited, with the settings that govern it, if the repository has rules, and
  what is left of the tick's bound.\<close>

definition refresh_branch ::
  "refresh_env \<Rightarrow> repository \<Rightarrow> string \<Rightarrow> effective_branch_refresh option \<Rightarrow> int option
     \<Rightarrow> repository_result \<Rightarrow> refresh_db \<Rightarrow> repository_result \<times> refresh_db" where
  "refresh_branch env repo branch policy rest acc db =
     (case enqueue_stale_files_for_branch env repo branch None rest
             (case policy of None \<Rightarrow> None | Some p \<Rightarrow> eb_version_line p) db of
        (Inl error, db) \<Rightarrow>
          (acc\<lparr>rr_failed := True, rr_error := Some (''branch '' @ branch @ '': '' @ error)\<rparr>, db)
      | (Inr result, db) \<Rightarrow>
          (acc\<lparr>rr_enqueued := rr_enqueued acc + br_enqueued result,
               rr_deferred := rr_deferred acc + br_deferred result\<rparr>,
           if policy \<noteq> None \<and> br_deferred result = 0
           then mark_repository_branch_refreshed (repo_id repo) branch db else db))"

fun refresh_branches ::
  "refresh_env \<Rightarrow> refresh_settings \<Rightarrow> repository \<Rightarrow> branch_refresh_rule list \<Rightarrow> (string, int) dict
     \<Rightarrow> int option \<Rightarrow> string list \<Rightarrow> repository_result \<Rightarrow> refresh_db \<Rightarrow> repository_result \<times> refresh_db"
where
  "refresh_branches env st repo rules seen max_enqueues [] acc db = (acc, db)"
| "refresh_branches env st repo rules seen max_enqueues (branch # branches) acc db =
     (let policy = (if rules = [] then None else Some (resolve_branch_refresh st rules repo branch));
          skip = (case policy of None \<Rightarrow> False
            | Some p \<Rightarrow> \<not> eb_enabled p
                \<or> \<not> is_branch_due (map_option utc_time (map_of seen branch)) (eb_interval_seconds p)
                      (utc_time (db_clock db)));
          rest = map_option (\<lambda>m. max 0 (m - rr_enqueued acc)) max_enqueues
      in if skip then refresh_branches env st repo rules seen max_enqueues branches acc db
         else if rest = Some 0 then (acc, db)
         else (case refresh_branch env repo branch policy rest acc db of
             (acc, db) \<Rightarrow> refresh_branches env st repo rules seen max_enqueues branches acc db))"

definition refresh_one_repository ::
  "refresh_env \<Rightarrow> refresh_settings \<Rightarrow> repository \<Rightarrow> int option \<Rightarrow> refresh_db
     \<Rightarrow> (string + repository_result) \<times> refresh_db" where
  "refresh_one_repository env st due_row max_enqueues db =
     (case listing_error env (repo_id due_row) of
        Some error \<Rightarrow> (Inl error, db)
      | None \<Rightarrow>
          (let branches = list_repository_import_spec_branches (repo_id due_row) db
           in if branches = [] then (Inr idle_result, db)
              else (case get_tenant_repository (repo_tenant due_row) (repo_id due_row) db of
                  None \<Rightarrow> (Inr idle_result, db)
                | Some repo \<Rightarrow>
                    (let rules = list_repository_branch_refresh_rules (repo_tenant due_row)
                                   (repo_id due_row) db;
                         seen = (if rules = [] then []
                                 else list_repository_branch_refresh_state (repo_id due_row) db)
                     in case refresh_branches env st repo rules seen max_enqueues branches
                               idle_result db of
                          (result, db) \<Rightarrow> (Inr result, db)))))"

section \<open>The bookkeeping of a tick\<close>

datatype notification =
  AutoPaused string string int int "string option"
| RepeatedFailures string string int int "string option"

definition repeated_failure_threshold :: int where
  "repeated_failure_threshold = 3"

definition record_refresh_outcome ::
  "refresh_settings \<Rightarrow> repository \<Rightarrow> repository_result \<Rightarrow> refresh_db \<Rightarrow> notification list \<times> refresh_db"
where
  "record_refresh_outcome st due_row result db =
     (if \<not> rr_failed result then
        ([], if refresh_consecutive_failures due_row > 0
             then snd (record_repository_refresh_success (repo_id due_row) db) else db)
      else (case record_repository_refresh_failure st (repo_id due_row) (rr_error result) db of
          (None, db) \<Rightarrow> ([], db)
        | (Some outcome, db) \<Rightarrow>
            (if fo_newly_paused outcome
             then [AutoPaused (repo_tenant due_row) (repo_id due_row) (fo_consecutive_failures outcome)
                     (rs_pause_threshold st) (rr_error result)]
             else if \<not> fo_paused outcome
                  \<and> fo_consecutive_failures outcome \<ge> repeated_failure_threshold
             then [RepeatedFailures (repo_tenant due_row) (repo_id due_row)
                     (fo_consecutive_failures outcome) (rs_pause_threshold st) (rr_error result)]
             else [], db)))"

definition record_usage ::
  "refresh_env \<Rightarrow> string \<Rightarrow> string \<Rightarrow> int \<Rightarrow> refresh_db \<Rightarrow> refresh_db" where
  "record_usage env tenant metric amount db =
     (case record_quota_usage (telemetry_writable env) (quota_rows db) tenant metric amount
             (utc_time (db_clock db)) of
        Inl _ \<Rightarrow> db
      | Inr (_, table) \<Rightarrow> db\<lparr>quota_rows := table\<rparr>)"

definition record_poll_telemetry ::
  "refresh_env \<Rightarrow> repository \<Rightarrow> repository_result \<Rightarrow> refresh_db \<Rightarrow> refresh_db" where
  "record_poll_telemetry env due_row result db =
     record_usage env (repo_tenant due_row) ''files_deferred'' (rr_deferred result)
       (record_usage env (repo_tenant due_row) ''polls'' (rr_enqueued result) db)"

section \<open>The tick\<close>

record sweep_state =
  sw_db :: refresh_db
  sw_quota :: "quota_tracker option"
  sw_total :: int
  sw_notices :: "notification list"

definition load_tracker :: "refresh_env \<Rightarrow> refresh_settings \<Rightarrow> refresh_db \<Rightarrow> quota_tracker option" where
  "load_tracker env st db =
     load_tenant_refresh_quota_tracker (rs_tenant_quota st) (rs_quota_window st)
       (\<lambda>window. if usage_unreadable env then None
                 else Some (count_recent_repository_refresh_jobs_by_tenant db window))
       (if limits_unreadable env then None else Some (list_tenant_repository_polls_per_hour db))"

text \<open>The repository's pass, its lock already taken: refresh, consume, record.\<close>

definition polled_state ::
  "refresh_env \<Rightarrow> refresh_settings \<Rightarrow> repository \<Rightarrow> sweep_state \<Rightarrow> repository_result \<times> sweep_state" where
  "polled_state env st due_row s =
     (let tenant = repo_tenant due_row;
          bound = (case sw_quota s of None \<Rightarrow> None | Some q \<Rightarrow> remaining q tenant)
      in case refresh_one_repository env st due_row bound (sw_db s) of
           (Inl error, db) \<Rightarrow>
             (\<lparr>rr_enqueued = 0, rr_failed = True, rr_error = Some error, rr_deferred = 0\<rparr>,
              s\<lparr>sw_db := db\<rparr>)
         | (Inr result, db) \<Rightarrow>
             (result,
              s\<lparr>sw_db := record_poll_telemetry env due_row result db,
                sw_quota := map_option (\<lambda>q. consume q tenant (rr_enqueued result)) (sw_quota s),
                sw_total := sw_total s + rr_enqueued result\<rparr>))"

definition sweep_repository ::
  "refresh_env \<Rightarrow> refresh_settings \<Rightarrow> repository \<Rightarrow> sweep_state \<Rightarrow> sweep_state" where
  "sweep_repository env st due_row s =
     (if (case sw_quota s of None \<Rightarrow> False | Some q \<Rightarrow> is_exhausted q (repo_tenant due_row))
      then s\<lparr>sw_db := record_usage env (repo_tenant due_row) ''polls_deferred'' 1 (sw_db s)\<rparr>
      else (case try_acquire_repository_refresh_lock (hashtext env) (repo_id due_row) (sw_db s) of
          (False, db) \<Rightarrow> s\<lparr>sw_db := db\<rparr>
        | (True, db) \<Rightarrow>
            (case polled_state env st due_row (s\<lparr>sw_db := db\<rparr>) of
               (result, s) \<Rightarrow>
                 (case record_refresh_outcome st due_row result (sw_db s) of
                    (notices, db) \<Rightarrow>
                      s\<lparr>sw_db := release_repository_refresh_lock (hashtext env) (repo_id due_row)
                                   (snd (mark_repository_refreshed (repo_id due_row) db)),
                        sw_notices := sw_notices s @ notices\<rparr>))))"

text \<open>\<open>None\<close> would be a tick that does not end.\<close>

definition process_repository_refresh_sweep ::
  "refresh_env \<Rightarrow> refresh_settings \<Rightarrow> refresh_db \<Rightarrow> sweep_state option" where
  "process_repository_refresh_sweep env st db =
     (if \<not> rs_enabled st
      then Some \<lparr>sw_db = db, sw_quota = None, sw_total = 0, sw_notices = []\<rparr>
      else map_option
        (\<lambda>rows. fold (sweep_repository env st) rows
          \<lparr>sw_db = db, sw_quota = load_tracker env st db, sw_total = 0, sw_notices = []\<rparr>)
        (interleave_due_rows_by_tenant repo_tenant
           (list_due_repositories (rs_min_interval st) db)))"


section \<open>What a pass over one repository does to the database\<close>

definition jobs_ok :: "refresh_db \<Rightarrow> bool" where
  "jobs_ok db \<longleftrightarrow> distinct (map job_lineage (filter active_job (refresh_jobs db)))"

definition refreshing_reason :: "refresh_reason \<Rightarrow> bool" where
  "refreshing_reason r \<longleftrightarrow> r \<in> {NEWER_CONTENT, CHECKSUM_FALLBACK_CHANGED, NO_PRIOR_IMPORT}"

lemma should_refresh_reason:
  "should_refresh (decide_refresh k c) \<Longrightarrow> refreshing_reason (rd_reason (decide_refresh k c))"
  by (auto simp: decide_refresh_def evaluate_refresh_def refreshing_reason_def Let_def
      split: option.splits if_splits)

text \<open>A job that replays a stored spec: same file and the captured request, field by field.\<close>

definition replays :: "import_spec \<Rightarrow> refresh_job \<Rightarrow> bool" where
  "replays s j \<longleftrightarrow> job_lineage j = (spec_repository s, spec_branch s, spec_path s)
     \<and> job_spec_id j = Some (spec_id s) \<and> job_project j = spec_project s
     \<and> job_source_kind j = spec_source_kind s \<and> job_format_override j = spec_format_override s
     \<and> job_content_type j = spec_content_type s \<and> job_created_by j = spec_created_by s
     \<and> (strip (spec_options s) \<noteq> [] \<longrightarrow> job_options j = spec_options s)"

definition new_job :: "refresh_env \<Rightarrow> repository \<Rightarrow> import_spec list \<Rightarrow> refresh_job \<Rightarrow> bool" where
  "new_job env repo specs j \<longleftrightarrow> (\<exists>s \<in> set specs. replays s j) \<and> job_tenant j = repo_tenant repo \<and> job_repository j = repo_id repo
     \<and> active_job j \<and> job_pull_count j = None \<and> refuses env j = None \<and> refreshing_reason (job_reason j)"

text \<open>\<open>repo_pass env repo new db db'\<close>: from \<open>db\<close> to \<open>db'\<close> only the file index, the branch state, the
  clock and the jobs moved, and the jobs grew by \<open>new\<close>.\<close>

definition repo_pass ::
  "refresh_env \<Rightarrow> repository \<Rightarrow> refresh_job list \<Rightarrow> refresh_db \<Rightarrow> refresh_db \<Rightarrow> bool" where
  "repo_pass env repo new db db' \<longleftrightarrow>
     repositories db' = repositories db \<and> branch_rules db' = branch_rules db
     \<and> import_specs db' = import_specs db \<and> tenant_limits db' = tenant_limits db
     \<and> quota_rows db' = quota_rows db \<and> held_locks db' = held_locks db
     \<and> foreign_locks db' = foreign_locks db \<and> db_clock db \<le> db_clock db'
     \<and> refresh_jobs db' = refresh_jobs db @ new \<and> list_all (new_job env repo (import_specs db)) new
     \<and> (jobs_ok db \<longrightarrow> jobs_ok db')"

lemma repo_pass_refl: "repo_pass env repo [] db db"
  by (simp add: repo_pass_def)

lemma repo_pass_trans:
  "repo_pass env repo new db db' \<Longrightarrow> repo_pass env repo new' db' db'' \<Longrightarrow>
     repo_pass env repo (new @ new') db db''"
  by (auto simp: repo_pass_def)

definition candidate_of :: "repository \<Rightarrow> string \<Rightarrow> import_spec list \<Rightarrow> refresh_candidate \<Rightarrow> bool" where
  "candidate_of repo branch specs c \<longleftrightarrow> (let s = fst (rc_raw c)
     in s \<in> set specs \<and> spec_repository s = repo_id repo \<and> spec_branch s = branch)"

lemma git_fetch_job:
  assumes "candidate_of repo branch (import_specs db) cand"
    and "should_refresh (decide_refresh git_freshness_key cand)"
    and "request = git_fetch repo branch cand \<or> (\<exists>l. request = (git_fetch repo branch cand)\<lparr>job_version_line := l\<rparr>)"
    and "enqueue_repository_refresh_job (refuses env) request db = (Inr (Some job), db')"
  shows "repo_pass env repo [job] db db'"
proof -
  obtain s f where cand: "rc_raw cand = (s, f)" by (cases "rc_raw cand")
  define job' where "job' = request\<lparr>job_options := (if strip (job_options request) = [] then ''{}''
      else job_options request), job_status := QUEUED, job_created_at := db_clock db, job_pull_count := None\<rparr>"
  have job: "job = job'" "refuses env job' = None"
    using assms(4) unfolding enqueue_repository_refresh_job_def Let_def job'_def[symmetric]
    by (auto split: option.splits if_splits)
  have "replays s job'"
    using assms(1,3) by (auto simp: job'_def git_fetch_def cand replays_def job_lineage_def
        candidate_of_def Let_def)
  moreover have "job_tenant job' = repo_tenant repo" "job_repository job' = repo_id repo"
    "active_job job'" "job_pull_count job' = None"
    "job_reason job' = rd_reason (decide_refresh git_freshness_key cand)"
    using assms(3) by (auto simp: job'_def git_fetch_def cand active_job_def)
  ultimately have new: "new_job env repo (import_specs db) job"
    using assms(1) should_refresh_reason[OF assms(2)] job
    by (auto simp: new_job_def candidate_of_def Let_def cand)
  have jobs: "db' = db\<lparr>refresh_jobs := refresh_jobs db @ [job]\<rparr>"
    "\<not> list_ex (\<lambda>j. active_job j \<and> job_lineage j = job_lineage job) (refresh_jobs db)"
    using assms(4) by (auto simp: enqueue_repository_refresh_job_def Let_def split: option.splits if_splits)
  then have "jobs_ok db \<longrightarrow> jobs_ok db'"
    by (auto simp: jobs_ok_def list_ex_iff)
  then show ?thesis
    using new jobs(1) by (simp add: repo_pass_def)
qed

lemma enqueue_refused:
  "enqueue_repository_refresh_job f request db = (Inl e, db') \<Longrightarrow> db' = db \<and> (\<exists>j. f j = Some e)"
  "enqueue_repository_refresh_job f request db = (Inr None, db') \<Longrightarrow> db' = db"
  by (auto simp: enqueue_repository_refresh_job_def Let_def split: option.splits if_splits)

lemma enqueue_candidates_pass:
  assumes "enqueue_candidates env repo branch m line cands acc db = (res, db')"
    and "list_all (candidate_of repo branch (import_specs db)) cands"
  shows "\<exists>new. repo_pass env repo new db db'
    \<and> (\<forall>e. res = Inl e \<longrightarrow> (\<exists>j. refuses env j = Some e))
    \<and> (\<forall>r. res = Inr r \<longrightarrow> br_enqueued r = br_enqueued acc + int (length new)
           \<and> (\<forall>k. m = Some k \<longrightarrow> br_enqueued r \<le> max k (br_enqueued acc)))"
  using assms
proof (induction cands arbitrary: acc db)
  case Nil
  then show ?case using repo_pass_refl[of env repo db] by (intro exI[of _ "[]"]) auto
next
  case (Cons cand cands)
  let ?stale = "should_refresh (decide_refresh git_freshness_key cand)"
  let ?full = "case m of None \<Rightarrow> False | Some k \<Rightarrow> br_enqueued acc \<ge> k"
  define request where "request = (case line of None \<Rightarrow> git_fetch repo branch cand
     | Some l \<Rightarrow> if l = [] then git_fetch repo branch cand
                 else (git_fetch repo branch cand)\<lparr>job_version_line := Some l\<rparr>)"
  consider "\<not> ?stale" | "?stale" "?full" | "?stale" "\<not> ?full" by blast
  then show ?case
  proof cases
    case 1
    then show ?thesis
      using Cons.prems Cons.IH[of "acc\<lparr>br_skipped := br_skipped acc + 1\<rparr>" db] by simp
  next
    case 2
    then show ?thesis
      using Cons.prems Cons.IH[of "acc\<lparr>br_deferred := br_deferred acc + 1\<rparr>" db] by simp
  next
    case 3
    obtain r db1 where e: "enqueue_repository_refresh_job (refuses env) request db = (r, db1)"
      by (cases "enqueue_repository_refresh_job (refuses env) request db")
    have step: "enqueue_candidates env repo branch m line (cand # cands) acc db =
      (case (r, db1) of (Inl error, db) \<Rightarrow> (Inl error, db)
        | (Inr (Some job), db) \<Rightarrow> enqueue_candidates env repo branch m line cands
                  (acc\<lparr>br_enqueued := br_enqueued acc + 1\<rparr>) db
        | (Inr None, db) \<Rightarrow> enqueue_candidates env repo branch m line cands
                  (acc\<lparr>br_skipped := br_skipped acc + 1\<rparr>) db)"
      using 3 by (simp add: Let_def request_def[symmetric] e)
    have req: "request = git_fetch repo branch cand
        \<or> (\<exists>l. request = (git_fetch repo branch cand)\<lparr>job_version_line := l\<rparr>)"
      by (auto simp: request_def split: option.splits)
    consider error where "r = Inl error" | "r = Inr None" | job where "r = Inr (Some job)"
      by (metis option.exhaust sum.exhaust)
    then show ?thesis
    proof cases
      case 1
      then have "db1 = db \<and> (\<exists>j. refuses env j = Some error)" using enqueue_refused(1) e by simp
      then show ?thesis
        using Cons.prems 1 repo_pass_refl[of env repo db] unfolding step by auto
    next
      case 2
      then have "db1 = db" using enqueue_refused(2) e by simp
      then show ?thesis
        using Cons.prems Cons.IH[of "acc\<lparr>br_skipped := br_skipped acc + 1\<rparr>" db] 2
        unfolding step by simp
    next
      case job: 3
      have pass: "repo_pass env repo [job] db db1"
        by (rule git_fetch_job[OF _ 3(1) req]) (use e job Cons.prems(2) in simp_all)
      have "list_all (candidate_of repo branch (import_specs db1)) cands"
        using pass Cons.prems(2) by (simp add: repo_pass_def)
      then obtain new where new: "repo_pass env repo new db1 db'"
        "\<forall>e. res = Inl e \<longrightarrow> (\<exists>j. refuses env j = Some e)"
        "\<forall>r. res = Inr r \<longrightarrow> br_enqueued r = br_enqueued acc + 1 + int (length new)
             \<and> (\<forall>k. m = Some k \<longrightarrow> br_enqueued r \<le> max k (br_enqueued acc + 1))"
        using Cons.prems Cons.IH[of "acc\<lparr>br_enqueued := br_enqueued acc + 1\<rparr>" db1] job
        unfolding step by auto
      have "repo_pass env repo ([job] @ new) db db'"
        by (rule repo_pass_trans[OF pass new(1)])
      moreover have "br_enqueued r = br_enqueued acc + int (length ([job] @ new))
          \<and> (\<forall>k. m = Some k \<longrightarrow> br_enqueued r \<le> max k (br_enqueued acc))" if "res = Inr r" for r
        using new(3)[rule_format, OF that] 3(2) by (auto simp: max_def split: if_splits)
      ultimately show ?thesis
        using new(2) by blast
    qed
  qed
qed


lemma scan_pass:
  "scan_repository_branch_into_index env repo branch db = (r, db') \<Longrightarrow> repo_pass env repo' [] db db'"
  by (auto simp: scan_repository_branch_into_index_def Let_def repo_pass_def jobs_ok_def)

lemma git_list_pass:
  "git_list_candidates env repo branch ps db = (r, db') \<Longrightarrow> repo_pass env repo' [] db db'"
  by (auto simp: git_list_candidates_def split: prod.splits sum.splits dest: scan_pass)

lemma git_list_candidates_of:
  "git_list_candidates env repo branch ps db = (Inr cands, db') \<Longrightarrow>
     list_all (candidate_of repo branch (import_specs db')) cands"
  by (auto simp: git_list_candidates_def list_all_iff candidate_of_def
      list_repository_refresh_candidates_def split: prod.splits sum.splits)

definition no_refusals :: "refresh_env \<Rightarrow> bool" where
  "no_refusals env \<longleftrightarrow> (\<forall>j. refuses env j = None)"

lemma enqueue_stale_pass:
  assumes "enqueue_stale_files_for_branch env repo branch ps m line db = (res, db')"
  shows "\<exists>new. repo_pass env repo new db db'
    \<and> (\<forall>e. res = Inl e \<longrightarrow> new = [] \<or> \<not> no_refusals env)
    \<and> (\<forall>r. res = Inr r \<longrightarrow> br_enqueued r = int (length new)
           \<and> (\<forall>k. m = Some k \<longrightarrow> br_enqueued r \<le> max k 0))"
proof -
  obtain l db1 where l: "git_list_candidates env repo branch ps db = (l, db1)"
    by (cases "git_list_candidates env repo branch ps db")
  note pass = git_list_pass[OF l, of repo]
  show ?thesis
  proof (cases l)
    case (Inl e)
    then show ?thesis
      using assms pass by (intro exI[of _ "[]"]) (auto simp: enqueue_stale_files_for_branch_def l)
  next
    case (Inr cands)
    then have "enqueue_candidates env repo branch m line cands
        \<lparr>br_enqueued = 0, br_skipped = 0, br_deferred = 0\<rparr> db1 = (res, db')"
      using assms by (simp add: enqueue_stale_files_for_branch_def l)
    from enqueue_candidates_pass[OF this] git_list_candidates_of l Inr obtain new where
      new: "repo_pass env repo new db1 db'"
        "\<forall>e. res = Inl e \<longrightarrow> (\<exists>j. refuses env j = Some e)"
        "\<forall>r. res = Inr r \<longrightarrow> br_enqueued r = int (length new) \<and> (\<forall>k. m = Some k \<longrightarrow> br_enqueued r \<le> max k 0)"
      by auto
    then show ?thesis
      using repo_pass_trans[OF pass new(1)]
      by (intro exI[of _ new]) (fastforce simp: no_refusals_def)
  qed
qed

lemma mark_branch_pass: "repo_pass env repo [] db (mark_repository_branch_refreshed rid branch db)"
  by (simp add: repo_pass_def mark_repository_branch_refreshed_def jobs_ok_def)

lemma refresh_branch_pass:
  assumes "refresh_branch env repo branch policy rest acc db = (acc', db')"
  shows "\<exists>new. repo_pass env repo new db db'
    \<and> (no_refusals env \<longrightarrow> rr_enqueued acc' = rr_enqueued acc + int (length new))
    \<and> rr_enqueued acc \<le> rr_enqueued acc'
    \<and> (\<forall>k. rest = Some k \<longrightarrow> rr_enqueued acc' \<le> rr_enqueued acc + max k 0)"
proof -
  define line where "line = (case policy of None \<Rightarrow> None | Some p \<Rightarrow> eb_version_line p)"
  obtain res db1 where e: "enqueue_stale_files_for_branch env repo branch None rest line db = (res, db1)"
    by (cases "enqueue_stale_files_for_branch env repo branch None rest line db")
  obtain new where new: "repo_pass env repo new db db1"
      "\<forall>e. res = Inl e \<longrightarrow> new = [] \<or> \<not> no_refusals env"
      "\<forall>r. res = Inr r \<longrightarrow> br_enqueued r = int (length new)
           \<and> (\<forall>k. rest = Some k \<longrightarrow> br_enqueued r \<le> max k 0)"
    using enqueue_stale_pass[OF e] by blast
  show ?thesis
  proof (cases res)
    case (Inl error)
    then show ?thesis
      using assms new by (intro exI[of _ new])
        (auto simp: refresh_branch_def line_def[symmetric] e)
  next
    case (Inr r)
    have "repo_pass env repo new db db'"
      using assms Inr new(1) repo_pass_trans[OF new(1) mark_branch_pass, of "repo_id repo" branch]
      by (auto simp: refresh_branch_def line_def[symmetric] e)
    then show ?thesis
      using assms Inr new(3) by (intro exI[of _ new])
        (auto simp: refresh_branch_def line_def[symmetric] e)
  qed
qed

lemma refresh_branches_pass:
  assumes "refresh_branches env st repo rules seen m branches acc db = (acc', db')"
  shows "\<exists>new. repo_pass env repo new db db'
    \<and> (no_refusals env \<longrightarrow> rr_enqueued acc' = rr_enqueued acc + int (length new))
    \<and> rr_enqueued acc \<le> rr_enqueued acc'
    \<and> (\<forall>k. m = Some k \<and> rr_enqueued acc \<le> k \<longrightarrow> rr_enqueued acc' \<le> k)"
  using assms
proof (induction branches arbitrary: acc db)
  case Nil
  then show ?case using repo_pass_refl[of env repo db] by (intro exI[of _ "[]"]) auto
next
  case (Cons branch branches)
  define policy where "policy = (if rules = [] then None else Some (resolve_branch_refresh st rules repo branch))"
  define skip where "skip = (case policy of None \<Rightarrow> False
            | Some p \<Rightarrow> \<not> eb_enabled p
                \<or> \<not> is_branch_due (map_option utc_time (map_of seen branch)) (eb_interval_seconds p)
                      (utc_time (db_clock db)))"
  define rest where "rest = map_option (\<lambda>k. max 0 (k - rr_enqueued acc)) m"
  obtain acc1 db1 where b: "refresh_branch env repo branch policy rest acc db = (acc1, db1)"
    by (cases "refresh_branch env repo branch policy rest acc db")
  have step: "refresh_branches env st repo rules seen m (branch # branches) acc db =
      (if skip then refresh_branches env st repo rules seen m branches acc db
       else if rest = Some 0 then (acc, db)
       else refresh_branches env st repo rules seen m branches acc1 db1)"
    unfolding refresh_branches.simps Let_def policy_def[symmetric]
    unfolding skip_def[symmetric] rest_def[symmetric] b by simp
  consider "skip" | "\<not> skip" "rest = Some 0" | "\<not> skip" "rest \<noteq> Some 0" by blast
  then show ?case
  proof cases
    case 1
    then show ?thesis using Cons.prems Cons.IH[of acc db] unfolding step by simp
  next
    case 2
    then show ?thesis
      using Cons.prems repo_pass_refl[of env repo db] unfolding step by (intro exI[of _ "[]"]) auto
  next
    case 3
    obtain new where new: "repo_pass env repo new db db1"
      "no_refusals env \<longrightarrow> rr_enqueued acc1 = rr_enqueued acc + int (length new)"
      "rr_enqueued acc \<le> rr_enqueued acc1"
      "\<forall>k. rest = Some k \<longrightarrow> rr_enqueued acc1 \<le> rr_enqueued acc + max k 0"
      using refresh_branch_pass[OF b] by blast
    obtain more where more: "repo_pass env repo more db1 db'"
      "no_refusals env \<longrightarrow> rr_enqueued acc' = rr_enqueued acc1 + int (length more)"
      "rr_enqueued acc1 \<le> rr_enqueued acc'"
      "\<forall>k. m = Some k \<and> rr_enqueued acc1 \<le> k \<longrightarrow> rr_enqueued acc' \<le> k"
      using Cons.IH[of acc1 db1] Cons.prems 3 unfolding step by auto
    have "rr_enqueued acc1 \<le> k" if "m = Some k" "rr_enqueued acc \<le> k" for k
      using new(4) that by (simp add: rest_def)
    then show ?thesis
      using repo_pass_trans[OF new(1) more(1)] new(2,3) more(2,3,4)
      by (intro exI[of _ "new @ more"]) auto
  qed
qed

lemma refresh_one_pass:
  assumes "refresh_one_repository env st due_row m db = (res, db')"
  shows "\<exists>new. repo_pass env due_row new db db'
    \<and> (\<forall>e. res = Inl e \<longrightarrow> new = [])
    \<and> (\<forall>r. res = Inr r \<longrightarrow> (no_refusals env \<longrightarrow> rr_enqueued r = int (length new))
        \<and> 0 \<le> rr_enqueued r \<and> (\<forall>k. m = Some k \<and> 0 \<le> k \<longrightarrow> rr_enqueued r \<le> k))"
proof -
  have idle: ?thesis if "db' = db" "\<forall>r. res = Inr r \<longrightarrow> rr_enqueued r = 0"
    using that repo_pass_refl[of env due_row db] by (intro exI[of _ "[]"]) auto
  show ?thesis
  proof (cases "get_tenant_repository (repo_tenant due_row) (repo_id due_row) db")
    case None
    then show ?thesis
      using assms by (intro idle)
        (auto simp: refresh_one_repository_def Let_def split: option.splits if_splits)
  next
    case (Some repo)
    then have same: "repo_id repo = repo_id due_row" "repo_tenant repo = repo_tenant due_row"
      by (auto simp: get_tenant_repository_def live_row_def find_Some_iff)
    then have pass: "repo_pass env repo = repo_pass env due_row"
      by (intro ext) (simp add: repo_pass_def new_job_def[abs_def])
    show ?thesis
    proof (cases "listing_error env (repo_id due_row) \<noteq> None
        \<or> list_repository_import_spec_branches (repo_id due_row) db = []")
      case True
      then show ?thesis
        using assms by (intro idle)
          (auto simp: refresh_one_repository_def Let_def split: option.splits if_splits)
    next
      case False
      define rules where "rules = list_repository_branch_refresh_rules (repo_tenant due_row) (repo_id due_row) db"
      obtain r db1 where r: "refresh_branches env st repo rules
          (if rules = [] then [] else list_repository_branch_refresh_state (repo_id due_row) db)
          m (list_repository_import_spec_branches (repo_id due_row) db) idle_result db = (r, db1)"
        by fastforce
      then have "res = Inr r" "db' = db1"
        using assms False Some by (auto simp: refresh_one_repository_def Let_def rules_def)
      then show ?thesis
        using refresh_branches_pass[OF r] unfolding pass by auto
    qed
  qed
qed


section \<open>What a pass does to the sweep's state\<close>

lemma record_usage_simps [simp]:
  "repositories (record_usage env t m n db) = repositories db"
  "branch_rules (record_usage env t m n db) = branch_rules db"
  "import_specs (record_usage env t m n db) = import_specs db"
  "refresh_jobs (record_usage env t m n db) = refresh_jobs db"
  "tenant_limits (record_usage env t m n db) = tenant_limits db"
  "held_locks (record_usage env t m n db) = held_locks db"
  "foreign_locks (record_usage env t m n db) = foreign_locks db"
  "db_clock (record_usage env t m n db) = db_clock db"
  by (simp_all add: record_usage_def split: sum.splits prod.splits)

lemma jobs_ok_cong: "refresh_jobs db' = refresh_jobs db \<Longrightarrow> jobs_ok db' = jobs_ok db"
  by (simp add: jobs_ok_def)

lemma jobs_ok_record_usage [simp]: "jobs_ok (record_usage env t m n db) = jobs_ok db"
  by (rule jobs_ok_cong) simp

text \<open>The row of the repository after the bookkeeping of its pass.\<close>

definition outcome_row ::
  "refresh_settings \<Rightarrow> int \<Rightarrow> repository_result \<Rightarrow> repository \<Rightarrow> repository \<Rightarrow> repository" where
  "outcome_row st clock result due_row r =
     (if rr_failed result then snd (fail_row st clock (rr_error result) r)
      else if refresh_consecutive_failures due_row > 0 then succeed_row r else r)"

definition finish_row ::
  "refresh_settings \<Rightarrow> int \<Rightarrow> repository_result \<Rightarrow> repository \<Rightarrow> repository \<Rightarrow> repository" where
  "finish_row st clock result due_row r =
     (outcome_row st clock result due_row r)\<lparr>last_refreshed_at := Some clock\<rparr>"

lemma finish_row_simps [simp]:
  "repo_id (finish_row st c result d r) = repo_id r"
  "repo_tenant (finish_row st c result d r) = repo_tenant r"
  "repo_deleted (finish_row st c result d r) = repo_deleted r"
  "last_refreshed_at (finish_row st c result d r) = Some c"
  by (simp_all add: finish_row_def outcome_row_def succeed_row_def)

lemma update_repositories_None:
  "find p (repositories db) = None \<Longrightarrow> update_repositories p f db = db"
  by (simp add: update_repositories_def find_None_iff map_idI)

lemma record_refresh_outcome_db:
  "snd (record_refresh_outcome st d result db) =
     update_repositories (live_row (repo_id d)) (outcome_row st (db_clock db) result d) db"
proof (cases "rr_failed result")
  case True
  then show ?thesis
    by (simp add: record_refresh_outcome_def record_repository_refresh_failure_def
        outcome_row_def[abs_def] update_repositories_None split: option.splits)
next
  case False
  then show ?thesis
    by (cases "refresh_consecutive_failures d > 0")
      (simp_all add: record_refresh_outcome_def record_repository_refresh_success_def
        outcome_row_def[abs_def] update_repositories_def)
qed

text \<open>\<open>polled env st d new result n s s'\<close>: the pass over the due row \<open>d\<close> ran, inserted the jobs
  \<open>new\<close>, charged \<open>n\<close> of them to the tenant and ended with \<open>result\<close>.\<close>

definition polled ::
  "refresh_env \<Rightarrow> refresh_settings \<Rightarrow> repository \<Rightarrow> refresh_job list \<Rightarrow> repository_result \<Rightarrow> int
     \<Rightarrow> sweep_state \<Rightarrow> sweep_state \<Rightarrow> bool" where
  "polled env st d new result n s s' \<longleftrightarrow>
     repositories (sw_db s') = map (\<lambda>r. if live_row (repo_id d) r
        then finish_row st (db_clock (sw_db s')) result d r else r) (repositories (sw_db s))
     \<and> refresh_jobs (sw_db s') = refresh_jobs (sw_db s) @ new
     \<and> list_all (new_job env d (import_specs (sw_db s))) new
     \<and> (jobs_ok (sw_db s) \<longrightarrow> jobs_ok (sw_db s'))
     \<and> import_specs (sw_db s') = import_specs (sw_db s)
     \<and> held_locks (sw_db s') = held_locks (sw_db s)
     \<and> foreign_locks (sw_db s') = foreign_locks (sw_db s)
     \<and> db_clock (sw_db s) \<le> db_clock (sw_db s')
     \<and> sw_quota s' = map_option (\<lambda>q. consume q (repo_tenant d) n) (sw_quota s)
     \<and> sw_total s' = sw_total s + n \<and> 0 \<le> n
     \<and> (no_refusals env \<longrightarrow> n = int (length new))
     \<and> (\<forall>q k. sw_quota s = Some q \<and> remaining q (repo_tenant d) = Some k \<longrightarrow> n \<le> k)
     \<and> (\<exists>db. repositories db = repositories (sw_db s) \<and> db_clock db = db_clock (sw_db s')
          \<and> sw_notices s' = sw_notices s @ fst (record_refresh_outcome st d result db))"

definition idle :: "sweep_state \<Rightarrow> sweep_state \<Rightarrow> bool" where
  "idle s s' \<longleftrightarrow> repositories (sw_db s') = repositories (sw_db s)
     \<and> refresh_jobs (sw_db s') = refresh_jobs (sw_db s)
     \<and> import_specs (sw_db s') = import_specs (sw_db s)
     \<and> held_locks (sw_db s') = held_locks (sw_db s)
     \<and> foreign_locks (sw_db s') = foreign_locks (sw_db s)
     \<and> db_clock (sw_db s') = db_clock (sw_db s)
     \<and> sw_quota s' = sw_quota s \<and> sw_total s' = sw_total s \<and> sw_notices s' = sw_notices s"

lemma consume_0 [simp]: "consume q t 0 = q"
  by (simp add: consume_def)

lemma polled_state_pass:
  assumes "polled_state env st d s = (result, s')"
  shows "\<exists>new n. repositories (sw_db s') = repositories (sw_db s)
     \<and> refresh_jobs (sw_db s') = refresh_jobs (sw_db s) @ new
     \<and> list_all (new_job env d (import_specs (sw_db s))) new
     \<and> (jobs_ok (sw_db s) \<longrightarrow> jobs_ok (sw_db s'))
     \<and> import_specs (sw_db s') = import_specs (sw_db s)
     \<and> held_locks (sw_db s') = held_locks (sw_db s)
     \<and> foreign_locks (sw_db s') = foreign_locks (sw_db s)
     \<and> db_clock (sw_db s) \<le> db_clock (sw_db s')
     \<and> sw_quota s' = map_option (\<lambda>q. consume q (repo_tenant d) n) (sw_quota s)
     \<and> sw_total s' = sw_total s + n \<and> 0 \<le> n
     \<and> (no_refusals env \<longrightarrow> n = int (length new))
     \<and> (\<forall>q k. sw_quota s = Some q \<and> remaining q (repo_tenant d) = Some k \<longrightarrow> n \<le> k)
     \<and> sw_notices s' = sw_notices s"
proof -
  define bound where "bound = (case sw_quota s of None \<Rightarrow> None | Some q \<Rightarrow> remaining q (repo_tenant d))"
  obtain res db where r: "refresh_one_repository env st d bound (sw_db s) = (res, db)"
    by (cases "refresh_one_repository env st d bound (sw_db s)")
  obtain new where new: "repo_pass env d new (sw_db s) db" "\<forall>e. res = Inl e \<longrightarrow> new = []"
    "\<forall>r. res = Inr r \<longrightarrow> (no_refusals env \<longrightarrow> rr_enqueued r = int (length new))
        \<and> 0 \<le> rr_enqueued r \<and> (\<forall>k. bound = Some k \<and> 0 \<le> k \<longrightarrow> rr_enqueued r \<le> k)"
    using refresh_one_pass[OF r] by blast
  have pos: "0 \<le> k" if "sw_quota s = Some q" "remaining q (repo_tenant d) = Some k" for q k
    using tracker.rest_nonneg[OF that(2)] .
  show ?thesis
  proof (cases res)
    case (Inl e)
    have "s' = s\<lparr>sw_db := db\<rparr>"
      using assms r Inl by (simp add: polled_state_def Let_def bound_def)
    moreover have "map_option (\<lambda>q. consume q (repo_tenant d) 0) (sw_quota s) = sw_quota s"
      by (cases "sw_quota s") auto
    ultimately show ?thesis
      using new(1,2) Inl pos by (intro exI[of _ "[]"] exI[of _ 0]) (auto simp: repo_pass_def)
  next
    case (Inr x)
    have "s' = s\<lparr>sw_db := record_poll_telemetry env d x db,
                sw_quota := map_option (\<lambda>q. consume q (repo_tenant d) (rr_enqueued x)) (sw_quota s),
                sw_total := sw_total s + rr_enqueued x\<rparr>"
      using assms r Inr by (auto simp: polled_state_def Let_def bound_def)
    moreover have "rr_enqueued x \<le> k" if "sw_quota s = Some q" "remaining q (repo_tenant d) = Some k" for q k
      using new(3) Inr pos[OF that] that by (simp add: bound_def)
    ultimately show ?thesis
      using new(1,3) Inr by (intro exI[of _ new] exI[of _ "rr_enqueued x"])
        (auto simp: repo_pass_def record_poll_telemetry_def)
  qed
qed

lemma sweep_repository_cases:
  obtains (idle) "idle s (sweep_repository env st d s)"
  | (polled) new result n where "polled env st d new result n s (sweep_repository env st d s)"
proof -
  let ?gone = "case sw_quota s of None \<Rightarrow> False | Some q \<Rightarrow> is_exhausted q (repo_tenant d)"
  show thesis
  proof (cases "?gone \<or> lock_key (hashtext env) (repo_id d) \<in> set (foreign_locks (sw_db s))")
    case True
    then have "idle s (sweep_repository env st d s)"
      by (auto simp: idle_def sweep_repository_def try_acquire_repository_refresh_lock_def)
    then show thesis by (rule idle)
  next
    case False
    define key where "key = lock_key (hashtext env) (repo_id d)"
    define s1 where "s1 = s\<lparr>sw_db := (sw_db s)\<lparr>held_locks := key # held_locks (sw_db s)\<rparr>\<rparr>"
    obtain result s2 where p: "polled_state env st d s1 = (result, s2)"
      by (cases "polled_state env st d s1")
    obtain notices db where o: "record_refresh_outcome st d result (sw_db s2) = (notices, db)"
      by (cases "record_refresh_outcome st d result (sw_db s2)")
    have db: "db = update_repositories (live_row (repo_id d))
        (outcome_row st (db_clock (sw_db s2)) result d) (sw_db s2)"
      using record_refresh_outcome_db[of st d result "sw_db s2"] o by simp
    have s': "sweep_repository env st d s =
      s2\<lparr>sw_db := release_repository_refresh_lock (hashtext env) (repo_id d)
            (snd (mark_repository_refreshed (repo_id d) db)),
         sw_notices := sw_notices s2 @ notices\<rparr>"
      using False p o
      by (simp add: sweep_repository_def try_acquire_repository_refresh_lock_def
          s1_def[symmetric] key_def[symmetric] del: sweep_state.update_convs)
    obtain new n where new: "repositories (sw_db s2) = repositories (sw_db s1)"
     "refresh_jobs (sw_db s2) = refresh_jobs (sw_db s1) @ new"
     "list_all (new_job env d (import_specs (sw_db s1))) new"
     "jobs_ok (sw_db s1) \<longrightarrow> jobs_ok (sw_db s2)"
     "import_specs (sw_db s2) = import_specs (sw_db s1)"
     "held_locks (sw_db s2) = held_locks (sw_db s1)"
     "foreign_locks (sw_db s2) = foreign_locks (sw_db s1)"
     "db_clock (sw_db s1) \<le> db_clock (sw_db s2)"
     "sw_quota s2 = map_option (\<lambda>q. consume q (repo_tenant d) n) (sw_quota s1)"
     "sw_total s2 = sw_total s1 + n" "0 \<le> n"
     "no_refusals env \<longrightarrow> n = int (length new)"
     "\<forall>q k. sw_quota s1 = Some q \<and> remaining q (repo_tenant d) = Some k \<longrightarrow> n \<le> k"
     "sw_notices s2 = sw_notices s1"
      using polled_state_pass[OF p] by blast
    have s1 [simp]: "repositories (sw_db s1) = repositories (sw_db s)"
      "refresh_jobs (sw_db s1) = refresh_jobs (sw_db s)" "import_specs (sw_db s1) = import_specs (sw_db s)"
      "held_locks (sw_db s1) = key # held_locks (sw_db s)"
      "foreign_locks (sw_db s1) = foreign_locks (sw_db s)" "db_clock (sw_db s1) = db_clock (sw_db s)"
      "sw_quota s1 = sw_quota s" "sw_total s1 = sw_total s" "sw_notices s1 = sw_notices s"
      "jobs_ok (sw_db s1) = jobs_ok (sw_db s)"
      by (simp_all add: s1_def jobs_ok_def)
    have rows: "repositories (sw_db (sweep_repository env st d s)) = map (\<lambda>r. if live_row (repo_id d) r
        then finish_row st (db_clock (sw_db s2)) result d r else r) (repositories (sw_db s))"
      using new(1) by (auto simp: s' db mark_repository_refreshed_def update_repositories_def
          release_repository_refresh_lock_def finish_row_def live_row_def outcome_row_def succeed_row_def)
    have rest: "refresh_jobs (sw_db (sweep_repository env st d s)) = refresh_jobs (sw_db s2)"
      "import_specs (sw_db (sweep_repository env st d s)) = import_specs (sw_db s2)"
      "held_locks (sw_db (sweep_repository env st d s)) = remove1 key (held_locks (sw_db s2))"
      "foreign_locks (sw_db (sweep_repository env st d s)) = foreign_locks (sw_db s2)"
      "db_clock (sw_db (sweep_repository env st d s)) = db_clock (sw_db s2)"
      "sw_quota (sweep_repository env st d s) = sw_quota s2"
      "sw_total (sweep_repository env st d s) = sw_total s2"
      "sw_notices (sweep_repository env st d s) = sw_notices s2 @ notices"
      by (simp_all add: s' db mark_repository_refreshed_def release_repository_refresh_lock_def key_def)
    have "polled env st d new result n s (sweep_repository env st d s)"
      unfolding polled_def rows rest jobs_ok_cong[OF rest(1)]
      using new o by (auto intro!: exI[of _ "sw_db s2"])
    then show thesis by (rule polled)
  qed
qed


section \<open>The whole tick\<close>

lemma sweep_returns:
  "\<exists>s. process_repository_refresh_sweep env st db = Some s"
  by (simp add: process_repository_refresh_sweep_def interleave_eq)

text \<open>The due rows in the order the tick visits them.\<close>

lemma sweep_visits:
  assumes "process_repository_refresh_sweep env st db = Some s" and "rs_enabled st"
  obtains rows where "mset rows = mset (list_due_repositories (rs_min_interval st) db)"
    and "s = fold (sweep_repository env st) rows
      \<lparr>sw_db = db, sw_quota = load_tracker env st db, sw_total = 0, sw_notices = []\<rparr>"
  using assms rounds_complete[OF order_refl, of repo_tenant]
  by (auto simp: process_repository_refresh_sweep_def interleave_eq)

lemma sweep_disabled:
  "\<not> rs_enabled st \<Longrightarrow> process_repository_refresh_sweep env st db =
     Some \<lparr>sw_db = db, sw_quota = None, sw_total = 0, sw_notices = []\<rparr>"
  by (simp add: process_repository_refresh_sweep_def)

text \<open>An invariant of every pass is an invariant of the tick.\<close>

lemma sweep_induct:
  assumes "\<And>d s s'. d \<in> set rows \<Longrightarrow> P s \<Longrightarrow> idle s s' \<Longrightarrow> P s'"
    and "\<And>d new result n s s'. d \<in> set rows \<Longrightarrow> P s \<Longrightarrow> polled env st d new result n s s' \<Longrightarrow> P s'"
    and "P s"
  shows "P (fold (sweep_repository env st) rows s)"
  using assms
proof (induction rows arbitrary: s)
  case (Cons d rows)
  have step: "P (sweep_repository env st d s)"
  proof (cases rule: sweep_repository_cases[of s env st d])
    case idle
    show ?thesis by (rule Cons.prems(1)[of d, OF _ Cons.prems(3) idle]) simp
  next
    case polled
    show ?thesis by (rule Cons.prems(2)[of d, OF _ Cons.prems(3) polled]) simp
  qed
  have "P (fold (sweep_repository env st) rows (sweep_repository env st d s))"
  proof (rule Cons.IH)
    show "P s'" if "e \<in> set rows" "P s" "idle s s'" for e s s'
      by (rule Cons.prems(1)[of e]) (use that in auto)
    show "P s'" if "e \<in> set rows" "P s" "polled env st e new result n s s'" for e new result n s s'
      by (rule Cons.prems(2)[of e s new result n]) (use that in auto)
  qed (rule step)
  then show ?case by simp
qed simp

lemma due_rows: "set (list_due_repositories flr db) = {r \<in> set (repositories db). is_due_row flr db r}"
  by (auto simp: list_due_repositories_def)

lemma distinct_ids:
  assumes "distinct (map repo_id rows)" and "r \<in> set rows" and "q \<in> set rows" and "repo_id r = repo_id q"
  shows "r = q"
  using assms by (metis distinct_map inj_onD)

text \<open>How one row may move while the tick visits the due rows \<open>ds\<close>, from the time \<open>c\<close> on.\<close>

definition row_moves :: "repository list \<Rightarrow> int \<Rightarrow> repository \<Rightarrow> repository \<Rightarrow> bool" where
  "row_moves ds c r r' \<longleftrightarrow> repo_id r' = repo_id r \<and> repo_deleted r' = repo_deleted r
     \<and> repo_tenant r' = repo_tenant r
     \<and> ((\<forall>d \<in> set ds. \<not> live_row (repo_id d) r) \<longrightarrow> r' = r)
     \<and> (r' = r \<or> (\<exists>t \<ge> c. last_refreshed_at r' = Some t))"

lemma row_moves_refl: "row_moves ds c r r"
  by (simp add: row_moves_def)

lemma row_moves_step:
  "row_moves ds c r r' \<Longrightarrow> d \<in> set ds \<Longrightarrow> c \<le> c' \<Longrightarrow> live_row (repo_id d) r' \<Longrightarrow>
     row_moves ds c r (finish_row st c' result d r')"
  by (auto simp: row_moves_def live_row_def)

lemma sweep_rows:
  "list_all2 (row_moves ds (db_clock (sw_db s0))) (repositories (sw_db s0))
     (repositories (sw_db (fold (sweep_repository env st) ds s0)))
   \<and> db_clock (sw_db s0) \<le> db_clock (sw_db (fold (sweep_repository env st) ds s0))"
proof (rule sweep_induct)
  let ?P = "\<lambda>s. list_all2 (row_moves ds (db_clock (sw_db s0))) (repositories (sw_db s0))
     (repositories (sw_db s)) \<and> db_clock (sw_db s0) \<le> db_clock (sw_db s)"
  show "?P s0" by (simp add: list_all2_refl row_moves_refl)
  show "?P s'" if "?P s" "idle s s'" for s s' using that by (simp add: idle_def)
  show "?P s'" if d: "d \<in> set ds" and "?P s" "polled env st d new result n s s'"
    for d new result n s s'
  proof -
    have rows: "repositories (sw_db s') = map (\<lambda>r. if live_row (repo_id d) r
        then finish_row st (db_clock (sw_db s')) result d r else r) (repositories (sw_db s))"
      and c: "db_clock (sw_db s0) \<le> db_clock (sw_db s')"
      using that(2,3) by (auto simp: polled_def)
    show ?thesis
      unfolding rows list_all2_map2
      using that(2) c d by (auto elim!: list_all2_mono intro: row_moves_step)
  qed
qed

lemma sweep_frame:
  "held_locks (sw_db (fold (sweep_repository env st) ds s0)) = held_locks (sw_db s0)
   \<and> foreign_locks (sw_db (fold (sweep_repository env st) ds s0)) = foreign_locks (sw_db s0)
   \<and> import_specs (sw_db (fold (sweep_repository env st) ds s0)) = import_specs (sw_db s0)
   \<and> (jobs_ok (sw_db s0) \<longrightarrow> jobs_ok (sw_db (fold (sweep_repository env st) ds s0)))"
  by (rule sweep_induct) (auto simp: idle_def polled_def dest: jobs_ok_cong)

lemma sweep_jobs:
  "\<exists>new. refresh_jobs (sw_db (fold (sweep_repository env st) ds s0)) = refresh_jobs (sw_db s0) @ new
     \<and> (\<forall>j \<in> set new. \<exists>d \<in> set ds. new_job env d (import_specs (sw_db s0)) j)
     \<and> import_specs (sw_db (fold (sweep_repository env st) ds s0)) = import_specs (sw_db s0)"
  by (rule sweep_induct) (fastforce simp: idle_def polled_def list_all_iff)+

lemma jobs_of_tenant_append:
  "jobs_of_tenant t (js @ ks) = jobs_of_tenant t js + jobs_of_tenant t ks"
  by (simp add: jobs_of_tenant_def)

lemma jobs_of_tenant_new:
  "list_all (new_job env d specs) new \<Longrightarrow>
     jobs_of_tenant t new = (if repo_tenant d = t then int (length new) else 0)"
  by (induction new) (auto simp: jobs_of_tenant_def new_job_def job_weight_def)

lemma sweep_spends:
  assumes "no_refusals env" and "sw_quota s0 = Some q0"
  shows "\<exists>evs. within_budget remaining consume q0 evs
     \<and> sw_quota (fold (sweep_repository env st) ds s0) = Some (fold (\<lambda>(t, n) q. consume q t n) evs q0)
     \<and> (\<forall>t. jobs_of_tenant t (refresh_jobs (sw_db (fold (sweep_repository env st) ds s0)))
          = jobs_of_tenant t (refresh_jobs (sw_db s0)) + spent t evs)"
proof (rule sweep_induct)
  let ?P = "\<lambda>s. \<exists>evs. within_budget remaining consume q0 evs
     \<and> sw_quota s = Some (fold (\<lambda>(t, n) q. consume q t n) evs q0)
     \<and> (\<forall>t. jobs_of_tenant t (refresh_jobs (sw_db s))
          = jobs_of_tenant t (refresh_jobs (sw_db s0)) + spent t evs)"
  show "?P s0" using assms(2) by (intro exI[of _ "[]"]) simp
  show "?P s'" if "?P s" "idle s s'" for s s' using that by (auto simp: idle_def)
  show "?P s'" if P: "?P s" and p: "polled env st d new result n s s'" for d new result n s s'
  proof -
    obtain evs where evs: "within_budget remaining consume q0 evs"
      "sw_quota s = Some (fold (\<lambda>(t, n) q. consume q t n) evs q0)"
      "\<forall>t. jobs_of_tenant t (refresh_jobs (sw_db s))
          = jobs_of_tenant t (refresh_jobs (sw_db s0)) + spent t evs"
      using P by blast
    have n: "0 \<le> n" "n = int (length new)"
      "\<forall>k. remaining (fold (\<lambda>(t, n) q. consume q t n) evs q0) (repo_tenant d) = Some k \<longrightarrow> n \<le> k"
      using p evs(2) assms(1) by (auto simp: polled_def)
    have "within_budget remaining consume q0 (evs @ [(repo_tenant d, n)])"
      unfolding tracker.within_append using evs(1) n by (auto split: option.splits)
    moreover have "sw_quota s' = Some (fold (\<lambda>(t, n) q. consume q t n) (evs @ [(repo_tenant d, n)]) q0)"
      using p evs(2) by (simp add: polled_def)
    moreover have "jobs_of_tenant t (refresh_jobs (sw_db s')) =
        jobs_of_tenant t (refresh_jobs (sw_db s0)) + spent t (evs @ [(repo_tenant d, n)])" for t
      using p evs(3) n(2) jobs_of_tenant_new[of env d _ new t]
      by (auto simp: polled_def jobs_of_tenant_append)
    ultimately show ?thesis by blast
  qed
qed


section \<open>Auto-pause across a tick\<close>

fun auto_paused_id :: "notification \<Rightarrow> string list" where
  "auto_paused_id (AutoPaused _ rid _ _ _) = [rid]"
| "auto_paused_id (RepeatedFailures _ _ _ _ _) = []"

definition auto_paused_ids :: "notification list \<Rightarrow> string list" where
  "auto_paused_ids notices = concat (map auto_paused_id notices)"

text \<open>The repository \<open>rid\<close> went from unpaused to paused.\<close>

definition became_paused :: "repository list \<Rightarrow> repository list \<Rightarrow> string \<Rightarrow> bool" where
  "became_paused rows rows' rid \<longleftrightarrow> (\<exists>i < length rows. repo_id (rows ! i) = rid
     \<and> refresh_paused_at (rows ! i) = None \<and> refresh_paused_at (rows' ! i) \<noteq> None)"

lemma finish_row_paused:
  "refresh_paused_at (finish_row st c result d r) =
     (if rr_failed result then refresh_paused_at (snd (fail_row st c (rr_error result) r))
      else refresh_paused_at r)"
  by (simp add: finish_row_def outcome_row_def succeed_row_def)

lemma finish_row_keeps_pause:
  "refresh_paused_at r \<noteq> None \<Longrightarrow> refresh_paused_at (finish_row st c result d r) \<noteq> None"
  by (auto simp: finish_row_paused fail_row_paused)

lemma find_live:
  assumes "distinct (map repo_id rows)"
  shows "find (live_row rid) rows = Some r \<longleftrightarrow> r \<in> set rows \<and> live_row rid r"
proof
  assume "find (live_row rid) rows = Some r"
  then show "r \<in> set rows \<and> live_row rid r" by (auto simp: find_Some_iff)
next
  assume r: "r \<in> set rows \<and> live_row rid r"
  then obtain q where q: "find (live_row rid) rows = Some q"
    by (metis find_None_iff not_None_eq)
  then have "q \<in> set rows" "live_row rid q" by (auto simp: find_Some_iff)
  then show "find (live_row rid) rows = Some r"
    using q distinct_ids[OF assms, of q r] r by (simp add: live_row_def)
qed

lemma outcome_notices:
  assumes "distinct (map repo_id (repositories db))"
  shows "auto_paused_ids (fst (record_refresh_outcome st d result db)) =
    (if \<exists>r \<in> set (repositories db). live_row (repo_id d) r \<and> refresh_paused_at r = None
          \<and> refresh_paused_at (finish_row st (db_clock db) result d r) \<noteq> None
     then [repo_id d] else [])"
proof (cases "find (live_row (repo_id d)) (repositories db)")
  case None
  then have "\<not> live_row (repo_id d) r" if "r \<in> set (repositories db)" for r
    using that by (auto simp: find_None_iff)
  then show ?thesis
    by (auto simp: record_refresh_outcome_def record_repository_refresh_failure_def None auto_paused_ids_def)
next
  case (Some r)
  then have r: "r \<in> set (repositories db)" "live_row (repo_id d) r"
    using find_live[OF assms] by auto
  have uniq: "q = r" if "q \<in> set (repositories db)" "live_row (repo_id d) q" for q
    using find_live[OF assms, of "repo_id d" q] Some that by simp
  have "(\<exists>r \<in> set (repositories db). live_row (repo_id d) r \<and> refresh_paused_at r = None
          \<and> refresh_paused_at (finish_row st (db_clock db) result d r) \<noteq> None) \<longleftrightarrow>
      refresh_paused_at r = None \<and> refresh_paused_at (finish_row st (db_clock db) result d r) \<noteq> None"
    using r uniq by blast
  also have "\<dots> \<longleftrightarrow>
      rr_failed result \<and> fo_newly_paused (fst (fail_row st (db_clock db) (rr_error result) r))"
    by (auto simp: finish_row_paused fail_row_outcome)
  finally have "(\<exists>r \<in> set (repositories db). live_row (repo_id d) r \<and> refresh_paused_at r = None
          \<and> refresh_paused_at (finish_row st (db_clock db) result d r) \<noteq> None) \<longleftrightarrow>
      rr_failed result \<and> fo_newly_paused (fst (fail_row st (db_clock db) (rr_error result) r))" .
  then show ?thesis
    by (simp add: record_refresh_outcome_def record_repository_refresh_failure_def Some auto_paused_ids_def)
qed

lemma polled_pauses:
  assumes "distinct (map repo_id (repositories (sw_db s)))" and "polled env st d new result n s s'"
  shows "\<exists>notices. sw_notices s' = sw_notices s @ notices
    \<and> auto_paused_ids notices = (if became_paused (repositories (sw_db s)) (repositories (sw_db s')) (repo_id d)
        then [repo_id d] else [])
    \<and> (\<forall>rid. rid \<noteq> repo_id d \<longrightarrow> \<not> became_paused (repositories (sw_db s)) (repositories (sw_db s')) rid)"
proof -
  let ?f = "\<lambda>r. if live_row (repo_id d) r then finish_row st (db_clock (sw_db s')) result d r else r"
  have rows: "repositories (sw_db s') = map ?f (repositories (sw_db s))"
    using assms(2) by (simp add: polled_def)
  obtain db where db: "repositories db = repositories (sw_db s)" "db_clock db = db_clock (sw_db s')"
    "sw_notices s' = sw_notices s @ fst (record_refresh_outcome st d result db)"
    using assms(2) by (auto simp: polled_def)
  have became: "became_paused (repositories (sw_db s)) (repositories (sw_db s')) rid \<longleftrightarrow>
      (\<exists>r \<in> set (repositories (sw_db s)). repo_id r = rid \<and> live_row (repo_id d) r
         \<and> refresh_paused_at r = None \<and> refresh_paused_at (finish_row st (db_clock (sw_db s')) result d r) \<noteq> None)"
    for rid
    unfolding rows became_paused_def by (auto simp: in_set_conv_nth Bex_def split: if_splits)
  have "auto_paused_ids (fst (record_refresh_outcome st d result db)) =
      (if became_paused (repositories (sw_db s)) (repositories (sw_db s')) (repo_id d) then [repo_id d] else [])"
    using outcome_notices[of db st d result] assms(1) db(1,2) unfolding became
    by (auto simp: live_row_def)
  then show ?thesis
    using db(3) became by (auto simp: live_row_def)
qed

lemma sweep_pauses:
  assumes "distinct (map repo_id (repositories (sw_db s0)))" and "sw_notices s0 = []"
  shows "let s = fold (sweep_repository env st) ds s0 in
    map repo_id (repositories (sw_db s)) = map repo_id (repositories (sw_db s0))
    \<and> (\<forall>i < length (repositories (sw_db s0)). refresh_paused_at (repositories (sw_db s0) ! i) \<noteq> None
         \<longrightarrow> refresh_paused_at (repositories (sw_db s) ! i) \<noteq> None)
    \<and> distinct (auto_paused_ids (sw_notices s))
    \<and> (\<forall>rid. rid \<in> set (auto_paused_ids (sw_notices s)) \<longleftrightarrow>
          became_paused (repositories (sw_db s0)) (repositories (sw_db s)) rid)"
  unfolding Let_def
proof (rule sweep_induct)
  let ?init = "repositories (sw_db s0)"
  let ?P = "\<lambda>s. map repo_id (repositories (sw_db s)) = map repo_id ?init
    \<and> (\<forall>i < length ?init. refresh_paused_at (?init ! i) \<noteq> None
         \<longrightarrow> refresh_paused_at (repositories (sw_db s) ! i) \<noteq> None)
    \<and> distinct (auto_paused_ids (sw_notices s))
    \<and> (\<forall>rid. rid \<in> set (auto_paused_ids (sw_notices s)) \<longleftrightarrow>
          became_paused ?init (repositories (sw_db s)) rid)"
  show "?P s0" using assms(2) by (auto simp: became_paused_def auto_paused_ids_def)
  show "?P s'" if "?P s" "idle s s'" for s s' using that by (simp add: idle_def)
  show "?P s'" if P: "?P s" and p: "polled env st d new result n s s'" for d new result n s s'
  proof -
    let ?rows = "repositories (sw_db s)" and ?rows' = "repositories (sw_db s')"
    have len: "length ?rows = length ?init" using P by (metis length_map)
    have id: "repo_id (?rows ! i) = repo_id (?init ! i)" if "i < length ?init" for i
      using P len that by (metis nth_map)
    have d: "distinct (map repo_id ?rows)" using P assms(1) by simp
    have rows: "?rows' = map (\<lambda>r. if live_row (repo_id d) r
        then finish_row st (db_clock (sw_db s')) result d r else r) ?rows"
      using p by (simp add: polled_def)
    have keep: "refresh_paused_at (?rows' ! i) \<noteq> None"
      if "i < length ?init" "refresh_paused_at (?rows ! i) \<noteq> None" for i
      using that len finish_row_keeps_pause unfolding rows by auto
    have "map repo_id ?rows' = map repo_id ?rows" unfolding rows by simp
    then have ids: "map repo_id ?rows' = map repo_id ?init" using P by simp
    obtain notices where notices: "sw_notices s' = sw_notices s @ notices"
      "auto_paused_ids notices = (if became_paused ?rows ?rows' (repo_id d) then [repo_id d] else [])"
      "\<forall>rid. rid \<noteq> repo_id d \<longrightarrow> \<not> became_paused ?rows ?rows' rid"
      using polled_pauses[OF d p] by blast
    have split: "became_paused ?init ?rows' rid \<longleftrightarrow>
        became_paused ?init ?rows rid \<or> became_paused ?rows ?rows' rid" for rid
    proof
      assume "became_paused ?init ?rows' rid"
      then obtain i where i: "i < length ?init" "repo_id (?init ! i) = rid"
        "refresh_paused_at (?init ! i) = None" "refresh_paused_at (?rows' ! i) \<noteq> None"
        unfolding became_paused_def by blast
      show "became_paused ?init ?rows rid \<or> became_paused ?rows ?rows' rid"
      proof (cases "refresh_paused_at (?rows ! i)")
        case None
        then show ?thesis
          using i id[OF i(1)] len unfolding became_paused_def by (intro disjI2 exI[of _ i]) simp
      next
        case (Some t)
        then show ?thesis
          using i unfolding became_paused_def by (intro disjI1 exI[of _ i]) simp
      qed
    next
      assume "became_paused ?init ?rows rid \<or> became_paused ?rows ?rows' rid"
      then obtain i where i: "i < length ?init" "repo_id (?init ! i) = rid"
        "refresh_paused_at (?init ! i) = None" "refresh_paused_at (?rows' ! i) \<noteq> None"
        using P keep len id unfolding became_paused_def by fastforce
      then show "became_paused ?init ?rows' rid"
        unfolding became_paused_def by blast
    qed
    have disjoint: "\<not> (became_paused ?init ?rows rid \<and> became_paused ?rows ?rows' rid)" for rid
    proof
      assume "became_paused ?init ?rows rid \<and> became_paused ?rows ?rows' rid"
      then obtain i j where "i < length ?init" "repo_id (?rows ! i) = rid"
        "refresh_paused_at (?rows ! i) \<noteq> None"
        "j < length ?init" "repo_id (?rows ! j) = rid" "refresh_paused_at (?rows ! j) = None"
        using id len unfolding became_paused_def by auto
      then show False
        using distinct_ids[OF d, of "?rows ! i" "?rows ! j"] len by simp
    qed
    have app: "auto_paused_ids (sw_notices s') = auto_paused_ids (sw_notices s) @ auto_paused_ids notices"
      by (simp add: notices(1) auto_paused_ids_def)
    have set: "set (auto_paused_ids notices) = {rid. became_paused ?rows ?rows' rid}"
    proof (intro set_eqI)
      fix rid
      show "rid \<in> set (auto_paused_ids notices) \<longleftrightarrow> rid \<in> {rid. became_paused ?rows ?rows' rid}"
        using notices(2,3) by (cases "rid = repo_id d") auto
    qed
    have old: "set (auto_paused_ids (sw_notices s)) = {rid. became_paused ?init ?rows rid}"
      using P by auto
    have "distinct (auto_paused_ids (sw_notices s'))"
      unfolding app distinct_append set old using P notices(2) disjoint by auto
    moreover have "set (auto_paused_ids (sw_notices s')) = {rid. became_paused ?init ?rows' rid}"
      unfolding app set_append set old by (intro set_eqI) (simp add: split)
    moreover have "refresh_paused_at (?rows' ! i) \<noteq> None"
      if "i < length ?init" "refresh_paused_at (?init ! i) \<noteq> None" for i
      using P keep that by blast
    ultimately show ?thesis using ids by blast
  qed
qed

text \<open>A row counts its failures and is paused exactly when the count has reached the threshold.\<close>

definition row_ok :: "refresh_settings \<Rightarrow> repository \<Rightarrow> bool" where
  "row_ok st r \<longleftrightarrow> 0 \<le> refresh_consecutive_failures r
     \<and> (refresh_paused_at r \<noteq> None \<longleftrightarrow>
          should_auto_pause (refresh_consecutive_failures r) (rs_pause_threshold st))"

lemma finish_row_ok:
  "row_ok st r \<Longrightarrow> refresh_paused_at r = None \<Longrightarrow> row_ok st (finish_row st c result d r)"
  by (auto simp: row_ok_def finish_row_def outcome_row_def succeed_row_def fail_row_paused
      should_auto_pause_def)

lemma sweep_rows_ok:
  assumes "list_all (row_ok st) (repositories (sw_db s))" and "distinct (map repo_id ds)"
    and "\<forall>d \<in> set ds. \<forall>r \<in> set (repositories (sw_db s)). live_row (repo_id d) r \<longrightarrow> refresh_paused_at r = None"
  shows "list_all (row_ok st) (repositories (sw_db (fold (sweep_repository env st) ds s)))"
  using assms
proof (induction ds arbitrary: s)
  case (Cons d ds)
  let ?s = "sweep_repository env st d s"
  have "list_all (row_ok st) (repositories (sw_db ?s)) \<and>
    (\<forall>e \<in> set ds. \<forall>r \<in> set (repositories (sw_db ?s)). live_row (repo_id e) r \<longrightarrow> refresh_paused_at r = None)"
  proof (cases rule: sweep_repository_cases[of s env st d])
    case idle
    then show ?thesis using Cons.prems by (simp add: idle_def)
  next
    case (polled new result n)
    then have rows: "repositories (sw_db ?s) = map (\<lambda>r. if live_row (repo_id d) r
        then finish_row st (db_clock (sw_db ?s)) result d r else r) (repositories (sw_db s))"
      by (simp add: polled_def)
    have ok: "row_ok st (if live_row (repo_id d) r then finish_row st (db_clock (sw_db ?s)) result d r else r)"
      if "r \<in> set (repositories (sw_db s))" for r
      using that Cons.prems(1,3) finish_row_ok[of st r] by (simp add: list_all_iff)
    have calm: "refresh_paused_at (if live_row (repo_id d) r then finish_row st (db_clock (sw_db ?s)) result d r else r) = None"
      if e: "e \<in> set ds" and r: "r \<in> set (repositories (sw_db s))"
        and live: "live_row (repo_id e) (if live_row (repo_id d) r then finish_row st (db_clock (sw_db ?s)) result d r else r)"
      for e r
    proof -
      have "repo_id d \<notin> repo_id ` set ds" using Cons.prems(2) by simp
      then have "repo_id e \<noteq> repo_id d" using e by (metis image_eqI)
      then have "\<not> live_row (repo_id d) r" using live by (auto simp: live_row_def split: if_splits)
      then show ?thesis using live Cons.prems(3) e r by auto
    qed
    show ?thesis
    proof
      show "list_all (row_ok st) (repositories (sw_db ?s))"
        unfolding rows list_all_iff set_map using ok by blast
      show "\<forall>e \<in> set ds. \<forall>r \<in> set (repositories (sw_db ?s)). live_row (repo_id e) r \<longrightarrow> refresh_paused_at r = None"
      proof (intro ballI impI)
        fix e q
        assume q: "e \<in> set ds" "q \<in> set (repositories (sw_db ?s))" "live_row (repo_id e) q"
        then obtain r where "r \<in> set (repositories (sw_db s))" "q = (if live_row (repo_id d) r
            then finish_row st (db_clock (sw_db ?s)) result d r else r)"
          unfolding rows set_map by blast
        note r = this
        show "refresh_paused_at q = None"
          using calm[OF q(1) r(1)] q(3) unfolding r(2) by blast
      qed
    qed
  qed
  then have "list_all (row_ok st) (repositories (sw_db (fold (sweep_repository env st) ds ?s)))"
    using Cons.prems(2) by (intro Cons.IH) simp_all
  then show ?case by simp
qed simp


section \<open>The system around the tick\<close>

text \<open>What can happen to the database between and during ticks: a tick, time passing, a manual
  resume, a change of cadence or of branch rules, and the executor taking and finishing a
  job.\<close>

inductive refresh_step :: "refresh_env \<Rightarrow> refresh_settings \<Rightarrow> refresh_db \<Rightarrow> refresh_db \<Rightarrow> bool"
  for env :: refresh_env and st :: refresh_settings where
  tick: "process_repository_refresh_sweep env st db = Some s \<Longrightarrow> refresh_step env st db (sw_db s)"
| wait: "0 \<le> t \<Longrightarrow> refresh_step env st db (db\<lparr>db_clock := db_clock db + t\<rparr>)"
| resume: "resume_repository_refresh tenant rid db = (r, db') \<Longrightarrow> refresh_step env st db db'"
| set_interval: "set_repository_refresh_interval st tenant rid i db = (r, db') \<Longrightarrow> refresh_step env st db db'"
| set_rules: "replace_repository_branch_refresh_rules tenant rid rules db = (ok, db') \<Longrightarrow>
    refresh_step env st db db'"
| claim: "i < length (refresh_jobs db) \<Longrightarrow> job_status (refresh_jobs db ! i) = QUEUED \<Longrightarrow>
    refresh_step env st db
      (db\<lparr>refresh_jobs := (refresh_jobs db)[i := (refresh_jobs db ! i)\<lparr>job_status := RUNNING\<rparr>]\<rparr>)"
| finish: "i < length (refresh_jobs db) \<Longrightarrow> job_status (refresh_jobs db ! i) = RUNNING \<Longrightarrow>
    outcome \<in> {SUCCEEDED, JOB_FAILED} \<Longrightarrow>
    refresh_step env st db
      (db\<lparr>refresh_jobs := (refresh_jobs db)[i := (refresh_jobs db ! i)\<lparr>job_status := outcome\<rparr>]\<rparr>)"

inductive_cases refresh_stepE: "refresh_step env st db db'"

definition refresh_inv :: "refresh_settings \<Rightarrow> refresh_db \<Rightarrow> bool" where
  "refresh_inv st db \<longleftrightarrow> distinct (map repo_id (repositories db))
     \<and> list_all (row_ok st) (repositories db) \<and> jobs_ok db \<and> held_locks db = []"

lemma due_order_visits:
  assumes "mset rows = mset (list_due_repositories flr db)" and "distinct (map repo_id (repositories db))"
  shows "distinct (map repo_id rows)"
    and "d \<in> set rows \<Longrightarrow> r \<in> set (repositories db) \<Longrightarrow> live_row (repo_id d) r \<Longrightarrow>
      r = d \<and> is_due_row flr db r"
proof -
  have "mset (list_due_repositories flr db) = mset (filter (is_due_row flr db) (repositories db))"
    by (simp add: list_due_repositories_def)
  then have "mset (map repo_id rows) = mset (map repo_id (filter (is_due_row flr db) (repositories db)))"
    using assms(1) by simp
  then show "distinct (map repo_id rows)"
    using assms(2) by (metis distinct_map_filter mset_eq_imp_distinct_iff)
  have "set rows = {r \<in> set (repositories db). is_due_row flr db r}"
    using assms(1) due_rows by (metis set_mset_mset)
  then show "r = d \<and> is_due_row flr db r"
    if "d \<in> set rows" "r \<in> set (repositories db)" "live_row (repo_id d) r"
    using that distinct_ids[OF assms(2), of r d] by (auto simp: live_row_def)
qed

lemma sweep_keeps_inv:
  assumes "refresh_inv st db" and "process_repository_refresh_sweep env st db = Some s"
  shows "refresh_inv st (sw_db s)"
proof (cases "rs_enabled st")
  case False
  then show ?thesis using assms sweep_disabled by force
next
  case True
  let ?s0 = "\<lparr>sw_db = db, sw_quota = load_tracker env st db, sw_total = 0, sw_notices = []\<rparr>"
  obtain rows where rows: "mset rows = mset (list_due_repositories (rs_min_interval st) db)"
    and s: "s = fold (sweep_repository env st) rows ?s0"
    using sweep_visits[OF assms(2) True] .
  have d: "distinct (map repo_id (repositories db))" using assms(1) by (simp add: refresh_inv_def)
  note visits = due_order_visits[OF rows d]
  have calm: "\<forall>e \<in> set rows. \<forall>r \<in> set (repositories (sw_db ?s0)). live_row (repo_id e) r \<longrightarrow> refresh_paused_at r = None"
    using visits(2) by (auto simp: is_due_row_def)
  have "list_all (row_ok st) (repositories (sw_db s))"
    unfolding s by (rule sweep_rows_ok[OF _ visits(1) calm]) (use assms(1) in \<open>simp add: refresh_inv_def\<close>)
  moreover have "map repo_id (repositories (sw_db s)) = map repo_id (repositories db)"
    using sweep_pauses[of ?s0 env st rows] d unfolding s[symmetric] by (simp add: Let_def)
  moreover have "held_locks (sw_db s) = held_locks db" "jobs_ok db \<longrightarrow> jobs_ok (sw_db s)"
    using sweep_frame[of env st rows ?s0] unfolding s[symmetric] by auto
  ultimately show ?thesis using assms(1) by (simp add: refresh_inv_def)
qed

lemma update_keeps_rows:
  assumes "refresh_inv st db" and "\<And>r. row_ok st r \<Longrightarrow> row_ok st (f r) \<and> repo_id (f r) = repo_id r"
  shows "refresh_inv st (update_repositories p f db)"
proof -
  have "repo_id (f r) = repo_id r" if "r \<in> set (repositories db)" for r
    using that assms by (auto simp: refresh_inv_def list_all_iff)
  then have "map repo_id (repositories (update_repositories p f db)) = map repo_id (repositories db)"
    by (simp add: update_repositories_def)
  moreover have "list_all (row_ok st) (repositories (update_repositories p f db))"
    using assms by (auto simp: refresh_inv_def update_repositories_def list_all_iff)
  ultimately show ?thesis
    using assms(1) by (simp add: refresh_inv_def jobs_ok_def)
qed

lemma resume_row_ok: "row_ok st (resume_row r) \<and> repo_id (resume_row r) = repo_id r"
  by (simp add: row_ok_def resume_row_def should_auto_pause_def)

lemma interval_row_ok:
  "row_ok st r \<Longrightarrow> row_ok st (r\<lparr>refresh_interval_seconds := i\<rparr>)
     \<and> repo_id (r\<lparr>refresh_interval_seconds := i\<rparr>) = repo_id r"
  by (simp add: row_ok_def)

lemma job_update_ok:
  assumes "jobs_ok db" and "i < length (refresh_jobs db)" and "job_lineage j = job_lineage (refresh_jobs db ! i)"
    and "active_job j \<Longrightarrow> active_job (refresh_jobs db ! i)"
  shows "jobs_ok (db\<lparr>refresh_jobs := (refresh_jobs db)[i := j]\<rparr>)"
proof -
  let ?js = "refresh_jobs db"
  have split: "?js = take i ?js @ ?js ! i # drop (Suc i) ?js"
    by (rule id_take_nth_drop[OF assms(2)])
  have "distinct (map job_lineage (filter active_job (take i ?js @ ?js ! i # drop (Suc i) ?js)))"
    using assms(1) split by (simp add: jobs_ok_def)
  then show ?thesis
    using assms(3,4) by (auto simp: jobs_ok_def upd_conv_take_nth_drop[OF assms(2)] split: if_splits)
qed

lemma refresh_step_inv: "refresh_step env st db db' \<Longrightarrow> refresh_inv st db \<Longrightarrow> refresh_inv st db'"
proof (induction rule: refresh_step.induct)
  case (tick db s)
  then show ?case using sweep_keeps_inv by blast
next
  case (wait t db)
  then show ?case by (simp add: refresh_inv_def jobs_ok_def)
next
  case (resume tenant rid db r db')
  then show ?case
    using update_keeps_rows[OF resume(2), of resume_row] resume_row_ok
    by (auto simp: resume_repository_refresh_def split: option.splits)
next
  case (set_interval tenant rid i db r db')
  then show ?case
    using update_keeps_rows[OF set_interval(2)] interval_row_ok
    by (auto simp: set_repository_refresh_interval_def Let_def)
next
  case (set_rules tenant rid rules db ok db')
  then show ?case
    by (auto simp: replace_repository_branch_refresh_rules_def refresh_inv_def jobs_ok_def Let_def
        split: if_splits)
next
  case (claim i db)
  then show ?case
    using job_update_ok[of db i "(refresh_jobs db ! i)\<lparr>job_status := RUNNING\<rparr>"]
    by (auto simp: refresh_inv_def active_job_def job_lineage_def)
next
  case (finish i db outcome)
  then show ?case
    using job_update_ok[of db i "(refresh_jobs db ! i)\<lparr>job_status := outcome\<rparr>"]
    by (auto simp: refresh_inv_def active_job_def job_lineage_def)
qed


section \<open>A small example\<close>

text \<open>One repository of one tenant whose quota is two jobs, with two branches and two stale files on
  each.\<close>

definition example_spec :: "string \<Rightarrow> string \<Rightarrow> string \<Rightarrow> import_spec" where
  "example_spec rid branch path = \<lparr>spec_id = path, spec_repository = rid, spec_branch = branch,
     spec_path = path, spec_project = None, spec_source_kind = Some ''openapi-3'',
     spec_format_override = None, spec_content_type = None, spec_options = ''{}'',
     spec_schema_version = Some 1, spec_created_by = None, last_imported_commit_sha = None,
     last_imported_committed_at = TsNone, last_imported_blob_sha = Some ''old''\<rparr>"

definition example_file :: "string \<Rightarrow> indexed_file" where
  "example_file path = \<lparr>file_repository = [], file_branch = [], file_path = path,
     file_commit_sha = None, file_committed_at = TsNone, file_blob_sha = Some ''new''\<rparr>"

text \<open>Every walk finds the files \<open>a\<close> and \<open>b\<close>; \<open>bad\<close> is the path whose job the database refuses.\<close>

definition example_env :: "string \<Rightarrow> refresh_env" where
  "example_env bad = \<lparr>
     walk = (\<lambda>repo branch db. \<lparr>scan_files = [example_file ''a'', example_file ''b''],
              scan_elapsed = 5, scan_error = None\<rparr>),
     refuses = (\<lambda>j. if job_branch j @ job_path j = bad then Some ''violates foreign key'' else None),
     listing_error = (\<lambda>_. None), usage_unreadable = False, limits_unreadable = False,
     telemetry_writable = True, hashtext = int \<circ> length\<rparr>"

definition example_db :: refresh_db where
  "example_db = (empty_refresh_db (1000 * usec))\<lparr>
     repositories := [fresh_repository ''r'' ''t'' 0],
     import_specs := [example_spec ''r'' ''x'' ''a'', example_spec ''r'' ''x'' ''b'',
                      example_spec ''r'' ''y'' ''a'', example_spec ''r'' ''y'' ''b''],
     tenant_limits := [(''t'', False, Some 2)]\<rparr>"


lemma example_inv: "refresh_inv default_refresh_settings example_db"
  by (simp add: refresh_inv_def example_db_def empty_refresh_db_def fresh_repository_def row_ok_def
      jobs_ok_def default_refresh_settings_def should_auto_pause_def)

lemma the_sweep:
  "process_repository_refresh_sweep env st db = Some (the (process_repository_refresh_sweep env st db))"
  using sweep_returns[of env st db] by force

section \<open>Properties\<close>



text \<open>C6: what a tick enqueues is exactly a re-import of something stored: every job it adds replays,
  field by field, a stored import spec of a repository that was due, for that repository's tenant,
  and carries a reason for which the newer-than comparator refreshes; and the jobs keep at most
  one active job per file, whatever the inserts that were refused.\<close>

theorem tick_jobs_are_faithful:
  assumes "process_repository_refresh_sweep env st db = Some s"
  shows "\<exists>new. refresh_jobs (sw_db s) = refresh_jobs db @ new
    \<and> (\<forall>j \<in> set new. active_job j \<and> refreshing_reason (job_reason j)
         \<and> (\<exists>spec \<in> set (import_specs db). replays spec j)
         \<and> (\<exists>r \<in> set (repositories db). is_due_row (rs_min_interval st) db r
               \<and> job_repository j = repo_id r \<and> job_tenant j = repo_tenant r))
    \<and> (jobs_ok db \<longrightarrow> jobs_ok (sw_db s))"
proof (cases "rs_enabled st")
  case False
  then show ?thesis using assms sweep_disabled[OF False, of env db] by auto
next
  case True
  let ?s0 = "\<lparr>sw_db = db, sw_quota = load_tracker env st db, sw_total = 0, sw_notices = []\<rparr>"
  obtain rows where rows: "mset rows = mset (list_due_repositories (rs_min_interval st) db)"
    and fold: "s = fold (sweep_repository env st) rows ?s0"
    using sweep_visits[OF assms True] .
  have due: "set rows = {r \<in> set (repositories db). is_due_row (rs_min_interval st) db r}"
    using rows due_rows by (metis set_mset_mset)
  obtain new where "refresh_jobs (sw_db s) = refresh_jobs db @ new"
    "\<forall>j \<in> set new. \<exists>d \<in> set rows. new_job env d (import_specs db) j"
    using sweep_jobs[of env st rows ?s0] unfolding fold by auto
  moreover have "jobs_ok db \<longrightarrow> jobs_ok (sw_db s)"
    using sweep_frame[of env st rows ?s0] unfolding fold by simp
  ultimately show ?thesis
    unfolding due new_job_def by blast
qed

theorem tick_jobs_are_faithful_witness:
  "jobs_ok (sw_db (the (process_repository_refresh_sweep (example_env ''xb'')
      default_refresh_settings example_db)))"
  using tick_jobs_are_faithful[OF the_sweep, of "example_env ''xb''" default_refresh_settings example_db]
    example_inv
  by (auto simp: refresh_inv_def)

text \<open>C4: a tick never pushes a tenant past its quota as long as the database refuses no insert: the
  jobs a tick adds for a bounded tenant are at most its limit less what the rolling window had
  already used, however many of its repositories, branches and files are due.\<close>

theorem tick_respects_quota:
  assumes "no_refusals env" and "load_tracker env st db = Some q" and "quota_for q t = Some limit"
    and "process_repository_refresh_sweep env st db = Some s"
  shows "jobs_of_tenant t (refresh_jobs (sw_db s)) - jobs_of_tenant t (refresh_jobs db)
    \<le> max 0 (limit - dict_default (tq_used q) t 0)"
proof (cases "rs_enabled st")
  case False
  then show ?thesis using assms(4) sweep_disabled[OF False, of env db] by auto
next
  case True
  let ?s0 = "\<lparr>sw_db = db, sw_quota = load_tracker env st db, sw_total = 0, sw_notices = []\<rparr>"
  obtain rows where "s = fold (sweep_repository env st) rows ?s0"
    using sweep_visits[OF assms(4) True] .
  then obtain evs where "within_budget remaining consume q evs"
      "jobs_of_tenant t (refresh_jobs (sw_db s)) = jobs_of_tenant t (refresh_jobs db) + spent t evs"
    using sweep_spends[OF assms(1), of ?s0 q st rows] assms(2) by auto
  then show ?thesis
    using tracker.spent_le_rest[of q evs t] assms(3) by (simp add: remaining_def)
qed

theorem tick_respects_quota_witness:
  "jobs_of_tenant ''t'' (refresh_jobs (sw_db (the (process_repository_refresh_sweep
      ((example_env [])\<lparr>refuses := \<lambda>_. None\<rparr>) default_refresh_settings example_db)))) \<le> 2"
  using tick_respects_quota[OF _ _ _ the_sweep, of "(example_env [])\<lparr>refuses := \<lambda>_. None\<rparr>"
      default_refresh_settings example_db
      "\<lparr>tq_quota = 60, tq_used = [], tq_limits = [(''t'', Some 2)]\<rparr>" "''t''" 2]
  by (simp add: no_refusals_def load_tracker_def load_tenant_refresh_quota_tracker_def
      tenant_refresh_quota_tracker_def default_refresh_settings_def example_env_def example_db_def
      empty_refresh_db_def count_recent_repository_refresh_jobs_by_tenant_def quota_for_def
      list_tenant_repository_polls_per_hour_def resolve_tenant_polls_per_hour_def
      dict_default_def jobs_of_tenant_def)

text \<open>with a refused insert the bound fails: the jobs a branch had inserted before the exception
  are charged to nobody, so a tenant limited to two jobs gets three in one tick.\<close>

theorem refused_insert_overruns_quota:
  "map_option (\<lambda>s. (sw_total s, jobs_of_tenant ''t'' (refresh_jobs (sw_db s))))
     (process_repository_refresh_sweep (example_env ''xb'') default_refresh_settings example_db)
   = Some (2, 3)"
  by code_simp

text \<open>auto-pause notifies exactly once: the auto-pause notices of a tick are distinct, and a
  repository has one exactly when the tick took it from unpaused to paused; no tick unpauses a
  repository.\<close>

theorem auto_pause_notified_once:
  assumes "distinct (map repo_id (repositories db))"
    and "process_repository_refresh_sweep env st db = Some s"
  shows "distinct (auto_paused_ids (sw_notices s))
    \<and> (\<forall>rid. rid \<in> set (auto_paused_ids (sw_notices s)) \<longleftrightarrow>
          became_paused (repositories db) (repositories (sw_db s)) rid)
    \<and> (\<forall>i < length (repositories db). refresh_paused_at (repositories db ! i) \<noteq> None
          \<longrightarrow> refresh_paused_at (repositories (sw_db s) ! i) \<noteq> None)"
proof (cases "rs_enabled st")
  case False
  then show ?thesis
    using assms(2) sweep_disabled[OF False, of env db]
    by (auto simp: auto_paused_ids_def became_paused_def)
next
  case True
  let ?s0 = "\<lparr>sw_db = db, sw_quota = load_tracker env st db, sw_total = 0, sw_notices = []\<rparr>"
  obtain rows where "s = fold (sweep_repository env st) rows ?s0"
    using sweep_visits[OF assms(2) True] .
  then show ?thesis
    using sweep_pauses[of ?s0 env st rows] assms(1) by (simp add: Let_def)
qed

theorem auto_pause_notified_once_witness:
  "let env = (example_env [])\<lparr>listing_error := \<lambda>_. Some ''timeout''\<rparr>;
       st = default_refresh_settings\<lparr>rs_pause_threshold := 1\<rparr>;
       s = the (process_repository_refresh_sweep env st example_db)
   in set (auto_paused_ids (sw_notices s)) = {''r''} \<and> distinct (auto_paused_ids (sw_notices s))"
proof -
  define env where "env = (example_env [])\<lparr>listing_error := \<lambda>_. Some ''timeout''\<rparr>"
  define st where "st = default_refresh_settings\<lparr>rs_pause_threshold := 1\<rparr>"
  define s where "s = the (process_repository_refresh_sweep env st example_db)"
  have "refresh_paused_at (repositories (sw_db s) ! 0) = Some (1000 * usec)"
    unfolding s_def env_def st_def by code_simp
  moreover have "repositories example_db = [fresh_repository ''r'' ''t'' 0]"
    by (simp add: example_db_def)
  ultimately have "became_paused (repositories example_db) (repositories (sw_db s)) rid \<longleftrightarrow> rid = ''r''" for rid
    by (auto simp: became_paused_def fresh_repository_def)
  moreover have "distinct (map repo_id (repositories example_db))"
    by (simp add: example_db_def)
  ultimately have "distinct (auto_paused_ids (sw_notices s)) \<and> set (auto_paused_ids (sw_notices s)) = {''r''}"
    using auto_pause_notified_once[OF _ the_sweep, of example_db env st] unfolding s_def by blast
  then show ?thesis
    unfolding Let_def s_def env_def st_def by simp
qed



end
