(* ===== verification/Conflict.thy ===== *)
theory Conflict
  imports Prelude Freshness
begin

text \<open>
  What an auto-refresh does with a hand-edited version
  (\<open>apiome-rest/src/app/repository_divergence_guard.py\<close> and
  \<open>repository_conflict_policy.py\<close>): the divergence guard, the resolution of the policy that
  applies to a file, the branch name of a diverted refresh, and the resulting action.

  A policy argument of the source may be \<open>None\<close>, an enumeration member, text, or a value of
  another type: \<open>policy_input\<close>. The hex SHA-256 of \<open>hashlib\<close> is the parameter \<open>digest\<close>.
\<close>

section \<open>The divergence guard\<close>

datatype divergence_policy = HOLD | OVERWRITE

datatype divergence_reason = NO_BASELINE | DR_UNCHANGED | MANUAL_EDIT

record divergence_decision =
  dd_diverged :: bool
  should_hold :: bool
  dd_reason :: divergence_reason
  dd_policy :: divergence_policy

definition compute_content_checksum :: "(string \<Rightarrow> string) \<Rightarrow> string option \<Rightarrow> string option" where
  "compute_content_checksum digest content =
     (case content of
        None \<Rightarrow> None
      | Some c \<Rightarrow> (let trimmed = strip c in if trimmed = [] then None else Some (digest trimmed)))"

definition evaluate_divergence ::
  "string option \<Rightarrow> string option \<Rightarrow> divergence_policy \<Rightarrow> divergence_decision" where
  "evaluate_divergence post_import_checksum current_checksum policy =
     (let baseline = normalise_checksum post_import_checksum;
          current = normalise_checksum current_checksum
      in if baseline = None then
           \<lparr>dd_diverged = False, should_hold = False, dd_reason = NO_BASELINE, dd_policy = policy\<rparr>
         else if baseline = current then
           \<lparr>dd_diverged = False, should_hold = False, dd_reason = DR_UNCHANGED, dd_policy = policy\<rparr>
         else
           \<lparr>dd_diverged = True, should_hold = (policy = HOLD), dd_reason = MANUAL_EDIT,
            dd_policy = policy\<rparr>)"

definition guard_divergence ::
  "(string \<Rightarrow> string) \<Rightarrow> string option \<Rightarrow> string option \<Rightarrow> divergence_policy \<Rightarrow> divergence_decision"
where
  "guard_divergence digest post_import_content current_content policy =
     evaluate_divergence (compute_content_checksum digest post_import_content)
       (compute_content_checksum digest current_content) policy"

section \<open>Which policy applies\<close>

datatype conflict_policy = CP_OVERWRITE | HOLD_FOR_REVIEW | NEW_BRANCH

datatype conflict_policy_source = FROM_FILE | FROM_REPOSITORY | FROM_DEFAULT

datatype conflict_action = APPLY | CA_HOLD | CA_NEW_BRANCH

datatype policy_input = PNone | PMember conflict_policy | PText string | POther

definition default_conflict_policy :: conflict_policy where
  "default_conflict_policy = HOLD_FOR_REVIEW"

fun policy_value :: "conflict_policy \<Rightarrow> string" where
  "policy_value CP_OVERWRITE = ''overwrite''"
| "policy_value HOLD_FOR_REVIEW = ''hold-for-review''"
| "policy_value NEW_BRANCH = ''new-branch''"

fun guard_policy :: "conflict_policy \<Rightarrow> divergence_policy" where
  "guard_policy CP_OVERWRITE = OVERWRITE"
| "guard_policy HOLD_FOR_REVIEW = HOLD"
| "guard_policy NEW_BRANCH = HOLD"

definition policy_aliases :: "(string, conflict_policy) dict" where
  "policy_aliases =
     [(''hold'', HOLD_FOR_REVIEW), (''hold_for_review'', HOLD_FOR_REVIEW),
      (''holdforreview'', HOLD_FOR_REVIEW), (''review'', HOLD_FOR_REVIEW),
      (''new_branch'', NEW_BRANCH), (''newbranch'', NEW_BRANCH), (''branch'', NEW_BRANCH),
      (''clobber'', CP_OVERWRITE)]"

definition policy_of_value :: "string \<Rightarrow> conflict_policy option" where
  "policy_of_value token =
     find (\<lambda>p. policy_value p = token) [CP_OVERWRITE, HOLD_FOR_REVIEW, NEW_BRANCH]"

definition dash_to_underscore :: "string \<Rightarrow> string" where
  "dash_to_underscore s = map (\<lambda>c. if c = CHR ''-'' then CHR ''_'' else c) s"

fun parse_conflict_policy ::
  "policy_input \<Rightarrow> conflict_policy option \<Rightarrow> conflict_policy option" where
  "parse_conflict_policy (PMember p) dflt = Some p"
| "parse_conflict_policy (PText value) dflt =
     (let token = lower (strip value)
      in if token = [] then dflt
         else (case policy_of_value token of
                 Some p \<Rightarrow> Some p
               | None \<Rightarrow> (case map_of policy_aliases (dash_to_underscore token) of
                            Some p \<Rightarrow> Some p | None \<Rightarrow> dflt)))"
| "parse_conflict_policy PNone dflt = dflt"
| "parse_conflict_policy POther dflt = dflt"

record resolved_conflict_policy =
  rp_policy :: conflict_policy
  rp_source :: conflict_policy_source

definition resolve_conflict_policy ::
  "policy_input \<Rightarrow> policy_input \<Rightarrow> conflict_policy \<Rightarrow> resolved_conflict_policy" where
  "resolve_conflict_policy file_policy repository_policy dflt =
     (case parse_conflict_policy file_policy None of
        Some p \<Rightarrow> \<lparr>rp_policy = p, rp_source = FROM_FILE\<rparr>
      | None \<Rightarrow>
          (case parse_conflict_policy repository_policy None of
             Some p \<Rightarrow> \<lparr>rp_policy = p, rp_source = FROM_REPOSITORY\<rparr>
           | None \<Rightarrow> \<lparr>rp_policy = dflt, rp_source = FROM_DEFAULT\<rparr>))"

section \<open>The branch a diverted refresh lands on\<close>

definition safe_ref_char :: "char \<Rightarrow> bool" where
  "safe_ref_char c = (let n = (of_char c :: nat)
     in 65 \<le> n \<and> n \<le> 90 \<or> 97 \<le> n \<and> n \<le> 122 \<or> 48 \<le> n \<and> n \<le> 57
        \<or> c \<in> set ''._/-'')"

text \<open>\<open>re.sub(r"[^A-Za-z0-9._/-]+", "-", value)\<close>: a maximal run of unsafe characters becomes one
  dash; \<open>run\<close> says whether the previous character belongs to such a run.\<close>

fun sub_unsafe :: "bool \<Rightarrow> string \<Rightarrow> string" where
  "sub_unsafe run [] = []"
| "sub_unsafe run (c # s) =
     (if safe_ref_char c then c # sub_unsafe False s
      else if run then sub_unsafe True s else CHR ''-'' # sub_unsafe True s)"

definition safe_ref_segment :: "string \<Rightarrow> string" where
  "safe_ref_segment value = strip_chars ''-./'' (sub_unsafe False value)"

text \<open>\<open>s.rsplit(sep, 1)[-1]\<close> and \<open>s.rsplit(sep, 1)[0]\<close>.\<close>

definition rsplit_last :: "char \<Rightarrow> string \<Rightarrow> string" where
  "rsplit_last sep s = rev (takeWhile (\<lambda>c. c \<noteq> sep) (rev s))"

definition rsplit_init :: "char \<Rightarrow> string \<Rightarrow> string" where
  "rsplit_init sep s =
     (if sep \<in> set s then rev (drop 1 (dropWhile (\<lambda>c. c \<noteq> sep) (rev s))) else s)"

definition rstrip_chars :: "string \<Rightarrow> string \<Rightarrow> string" where
  "rstrip_chars cs s = rev (dropWhile (\<lambda>c. c \<in> set cs) (rev s))"

fun join :: "string \<Rightarrow> string list \<Rightarrow> string" where
  "join sep [] = []"
| "join sep [x] = x"
| "join sep (x # xs) = x @ sep @ join sep xs"

text \<open>The file stem and the short commit of a branch name; blank where there is none.\<close>

definition ref_leaf :: "string option \<Rightarrow> string" where
  "ref_leaf path = (case path of
      None \<Rightarrow> []
    | Some p \<Rightarrow>
        (if p = [] then []
         else safe_ref_segment (rsplit_init (CHR ''.'')
                (rsplit_last (CHR ''/'') (rstrip_chars ''/'' (strip p))))))"

definition ref_sha :: "string option \<Rightarrow> string" where
  "ref_sha commit_sha =
     take 12 (safe_ref_segment (strip (case commit_sha of None \<Rightarrow> [] | Some c \<Rightarrow> c)))"

definition refresh_branch_name ::
  "string option \<Rightarrow> string option \<Rightarrow> string option \<Rightarrow> string option" where
  "refresh_branch_name base_branch path commit_sha =
     (let base = strip_chars ''/'' (strip (case base_branch of None \<Rightarrow> [] | Some b \<Rightarrow> b))
      in if base = [] then None
         else
           (let suffix = join ''-'' (filter (\<lambda>part. part \<noteq> []) [ref_leaf path, ref_sha commit_sha]);
                segments = [safe_ref_segment base] @ (if suffix \<noteq> [] then [suffix] else [])
            in Some (''apiome-refresh/'' @ join ''/'' (filter (\<lambda>part. part \<noteq> []) segments))))"

section \<open>The action\<close>

record conflict_outcome =
  co_action :: conflict_action
  co_diverged :: bool
  co_reason :: divergence_reason
  co_policy :: conflict_policy
  co_source :: conflict_policy_source
  co_branch_name :: "string option"

definition decide_conflict ::
  "string option \<Rightarrow> string option \<Rightarrow> policy_input \<Rightarrow> policy_input
     \<Rightarrow> string option \<Rightarrow> string option \<Rightarrow> string option \<Rightarrow> conflict_outcome" where
  "decide_conflict post_import_checksum current_checksum file_policy repository_policy
      base_branch path commit_sha =
     (let resolved = resolve_conflict_policy file_policy repository_policy default_conflict_policy;
          decision = evaluate_divergence post_import_checksum current_checksum
                       (guard_policy (rp_policy resolved));
          (act, branch) =
            (if \<not> should_hold decision then (APPLY, None)
             else if rp_policy resolved = NEW_BRANCH
             then (CA_NEW_BRANCH, refresh_branch_name base_branch path commit_sha)
             else (CA_HOLD, None))
      in \<lparr>co_action = act, co_diverged = dd_diverged decision, co_reason = dd_reason decision,
          co_policy = rp_policy resolved, co_source = rp_source resolved,
          co_branch_name = branch\<rparr>)"


section \<open>Facts about the guard and the policies\<close>

definition has_diverged :: "string option \<Rightarrow> string option \<Rightarrow> bool" where
  "has_diverged baseline current \<longleftrightarrow>
     normalise_checksum baseline \<noteq> None \<and> normalise_checksum baseline \<noteq> normalise_checksum current"

lemma evaluate_divergence_simps [refresh_simps]:
  "dd_diverged (evaluate_divergence b c p) = has_diverged b c"
  "should_hold (evaluate_divergence b c p) = (has_diverged b c \<and> p = HOLD)"
  "dd_policy (evaluate_divergence b c p) = p"
  by (auto simp: evaluate_divergence_def has_diverged_def Let_def)

lemma guard_policy_HOLD [simp]: "guard_policy p = HOLD \<longleftrightarrow> p \<noteq> CP_OVERWRITE"
  by (cases p) auto

lemma resolved_policy [refresh_simps]:
  "rp_policy (resolve_conflict_policy f r d) =
     (case parse_conflict_policy f None of Some p \<Rightarrow> p
      | None \<Rightarrow> (case parse_conflict_policy r None of Some p \<Rightarrow> p | None \<Rightarrow> d))"
  by (simp add: resolve_conflict_policy_def split: option.splits)

lemma lower_char_space: "py_space c \<Longrightarrow> lower_char c = c"
  by (auto simp: py_space_def lower_char_def Let_def)

lemma policy_value_no_space: "c \<in> set (policy_value p) \<Longrightarrow> \<not> py_space c"
  by (cases p) (auto simp: py_space_def Let_def)

lemma policy_of_value_value [simp]: "policy_of_value (policy_value p) = Some p"
  by (cases p) (auto simp: policy_of_value_def)

lemma policy_value_nonempty [simp]: "policy_value p \<noteq> []"
  by (cases p) auto

lemma lstrip_spaces: "list_all py_space a \<Longrightarrow> lstrip (a @ s) = lstrip s"
  by (simp add: lstrip_append)

lemma rstrip_spaces: "list_all py_space b \<Longrightarrow> rstrip (s @ b) = rstrip s"
  using lstrip_append[of "rev b" "rev s"] by (simp add: rstrip_def lstrip_def)

lemma strip_spaces:
  assumes "list_all py_space a" and "list_all py_space b"
    and "t \<noteq> []" and "\<not> py_space (hd t)" and "\<not> py_space (last t)"
  shows "strip (a @ t @ b) = t"
proof -
  have "lstrip (a @ t @ b) = lstrip (t @ b)"
    using assms(1) by (rule lstrip_spaces)
  also have "\<dots> = t @ b"
    using assms by (intro lstrip_id) simp
  finally have "lstrip (a @ t @ b) = t @ b" .
  then have "strip (a @ t @ b) = rstrip t"
    using assms(2) by (simp add: strip_def rstrip_spaces)
  also have "rstrip t = t"
    using assms(3,5) by (cases t rule: rev_cases) (auto simp: rstrip_def)
  finally show ?thesis .
qed

lemma safe_lower_no_space:
  assumes "lower t = policy_value p"
  shows "t \<noteq> []" and "\<not> py_space (hd t)" and "\<not> py_space (last t)"
proof -
  show ne: "t \<noteq> []"
    using assms by (cases p) (auto simp: lower_def)
  have "\<not> py_space c" if "c \<in> set t" for c
  proof
    assume sp: "py_space c"
    then have "c \<in> set (policy_value p)"
      using that by (simp flip: assms add: lower_def lower_char_space image_iff) (metis lower_char_space)
    with sp show False using policy_value_no_space by blast
  qed
  with ne show "\<not> py_space (hd t)" and "\<not> py_space (last t)"
    by simp_all
qed

section \<open>Facts about branch names\<close>

lemma set_sub_unsafe: "c \<in> set (sub_unsafe run s) \<Longrightarrow> safe_ref_char c"
  by (induction run s rule: sub_unsafe.induct)
     (auto split: if_splits simp: safe_ref_char_def)

lemma set_strip_chars: "set (strip_chars cs s) \<subseteq> set s"
  unfolding strip_chars_def by (metis set_dropWhileD set_rev subsetI)

lemma dropWhile_rev_Nil: "dropWhile P (rev (dropWhile P s)) = [] \<longleftrightarrow> list_all P s"
proof (cases "dropWhile P s")
  case Nil
  then have "list_all P s" by (simp add: dropWhile_eq_Nil_conv list_all_iff)
  then show ?thesis unfolding Nil by simp
next
  case (Cons x xs)
  then have "\<not> P x" using hd_dropWhile[of P s] by simp
  moreover have "x \<in> set s" using Cons set_dropWhileD[of x P s] by simp
  ultimately show ?thesis by (auto simp: Cons dropWhile_eq_Nil_conv list_all_iff)
qed

lemma strip_chars_Nil: "strip_chars cs s = [] \<longleftrightarrow> set s \<subseteq> set cs"
  unfolding strip_chars_def rev_is_Nil_conv dropWhile_rev_Nil list_all_iff by blast

lemma safe_segment: "list_all safe_ref_char (safe_ref_segment v)"
  using set_strip_chars[of "''-./''" "sub_unsafe False v"] set_sub_unsafe
  by (fastforce simp: safe_ref_segment_def list_all_iff)

lemma sub_unsafe_id: "list_all safe_ref_char s \<Longrightarrow> sub_unsafe run s = s"
  by (induction s arbitrary: run) auto

lemma list_all_join:
  "list_all P sep \<Longrightarrow> (\<And>x. x \<in> set xs \<Longrightarrow> list_all P x) \<Longrightarrow> list_all P (join sep xs)"
  by (induction sep xs rule: join.induct) auto

lemma list_all_take: "list_all P xs \<Longrightarrow> list_all P (take n xs)"
  by (auto simp: list_all_iff dest: in_set_takeD)

lemma safe_ref_parts:
  "list_all safe_ref_char (ref_leaf p)" "list_all safe_ref_char (ref_sha c)"
  "list_all safe_ref_char ''-''" "list_all safe_ref_char ''/''"
  "list_all safe_ref_char ''apiome-refresh/''"
  by (auto simp: ref_leaf_def ref_sha_def safe_segment list_all_take safe_ref_char_def
      split: option.splits)

lemma refresh_branch_name_safe_chars:
  assumes "refresh_branch_name b p c = Some n"
  shows "list_all safe_ref_char n"
proof -
  let ?suf = "join ''-'' (filter (\<lambda>part. part \<noteq> []) [ref_leaf p, ref_sha c])"
  let ?segs = "\<lambda>base. [safe_ref_segment base] @ (if ?suf \<noteq> [] then [?suf] else [])"
  have suf: "list_all safe_ref_char ?suf"
    using safe_ref_parts(1)[of p] safe_ref_parts(2)[of c]
    by (intro list_all_join safe_ref_parts(3)) (auto split: if_splits)
  have "list_all safe_ref_char (''apiome-refresh/'' @ join ''/'' (filter (\<lambda>part. part \<noteq> []) (?segs v)))"
    for v
    unfolding list_all_append using suf
    by (intro conjI list_all_join safe_ref_parts) (auto simp: safe_segment split: if_splits)
  then show ?thesis
    using assms unfolding refresh_branch_name_def Let_def
    by (metis option.distinct(1) option.inject)
qed

section \<open>Properties\<close>

text \<open>what a refresh does with a file, for every combination of snapshot, current content and
  stored policies. A file that has not diverged is refreshed; a hand-edited one is replaced
  only when the file's own override says so, or when the file has no usable override and the
  repository says so; it is diverted to a branch under \<open>new-branch\<close>, and held in every other
  case, including every unreadable policy. A branch name appears only with a diverted
  refresh, and the divergence is reported whatever is done about it.\<close>

theorem decide_conflict_spec:
  "let out = decide_conflict baseline current fp rp base path sha;
       eff = (case parse_conflict_policy fp None of Some p \<Rightarrow> p
              | None \<Rightarrow> (case parse_conflict_policy rp None of Some p \<Rightarrow> p
                         | None \<Rightarrow> HOLD_FOR_REVIEW))
   in co_diverged out = has_diverged baseline current
    \<and> co_policy out = eff
    \<and> co_action out = (if \<not> has_diverged baseline current \<or> eff = CP_OVERWRITE then APPLY
                       else if eff = NEW_BRANCH then CA_NEW_BRANCH else CA_HOLD)
    \<and> (co_action out \<noteq> CA_NEW_BRANCH \<longrightarrow> co_branch_name out = None)"
  unfolding decide_conflict_def Let_def
  by (auto simp: refresh_simps default_conflict_policy_def split: option.splits)

theorem decide_conflict_spec_witness:
  "co_action (decide_conflict (Some ''s1'') (Some ''s2'') PNone (PText ''nonsense'') None None None)
     = CA_HOLD
   \<and> co_branch_name (decide_conflict (Some ''s1'') (Some ''s2'') PNone (PText ''nonsense'')
        None None None) = None"
proof -
  have d: "has_diverged (Some ''s1'') (Some ''s2'')" by code_simp
  have p: "parse_conflict_policy (PText ''nonsense'') None = None" by code_simp
  show ?thesis
    using decide_conflict_spec[of "Some ''s1''" "Some ''s2''" PNone "PText ''nonsense''" None None None]
    by (simp add: d p Let_def del: parse_conflict_policy.simps(2))
qed

text \<open>a stored policy is read back: any spelling of a canonical token, in any letter case and
  with any surrounding white space, parses to its policy, whatever the caller's default.\<close>

theorem policy_token_roundtrip:
  assumes "lower t = policy_value p" and "list_all py_space a" and "list_all py_space b"
  shows "parse_conflict_policy (PText (a @ t @ b)) dflt = Some p"
proof -
  have "strip (a @ t @ b) = t"
    by (rule strip_spaces) (use assms safe_lower_no_space in auto)
  then show ?thesis
    using assms(1) by (simp add: Let_def)
qed

theorem policy_token_roundtrip_witness:
  "parse_conflict_policy (PText (''  '' @ ''Hold-For-REVIEW'' @ '' '')) (Some CP_OVERWRITE)
     = Some HOLD_FOR_REVIEW"
  by (rule policy_token_roundtrip) code_simp+

text \<open>the branch a diverted refresh lands on has only letters, digits and \<open>._/-\<close>, and starts
  with \<open>apiome-refresh/\<close>; there is no name exactly when the base branch is blank or only
  slashes.\<close>

theorem refresh_branch_name_safe:
  "(case refresh_branch_name base path sha of
      None \<Rightarrow> set (strip (case base of None \<Rightarrow> [] | Some b \<Rightarrow> b)) \<subseteq> {CHR ''/''}
    | Some n \<Rightarrow> list_all safe_ref_char n \<and> take 15 n = ''apiome-refresh/''
        \<and> \<not> set (strip (case base of None \<Rightarrow> [] | Some b \<Rightarrow> b)) \<subseteq> {CHR ''/''})"
proof (cases "refresh_branch_name base path sha")
  case None
  then show ?thesis
    by (simp add: refresh_branch_name_def Let_def strip_chars_Nil split: if_splits)
next
  case (Some n)
  then have "\<not> set (strip (case base of None \<Rightarrow> [] | Some b \<Rightarrow> b)) \<subseteq> {CHR ''/''}"
    and "take 15 n = ''apiome-refresh/''"
    by (auto simp: refresh_branch_name_def Let_def strip_chars_Nil split: if_splits)
  with Some show ?thesis
    using refresh_branch_name_safe_chars by simp
qed

text \<open>A base branch without any safe character leaves no segment of its own, so the name can be
  the bare prefix with its trailing slash.\<close>

lemma branch_name_degenerate:
  "refresh_branch_name (Some ''###'') None None = Some ''apiome-refresh/''"
  by code_simp

end
