(* ===== verification/RevisionDag.thy ===== *)
theory RevisionDag
  imports Cadence
begin

text \<open>
  Ancestors and merge bases of schema revisions (\<open>apiome-rest/src/app/revision_dag.py\<close>). The
  breadth-first loop is a recursive function on the loop's two variables, the distances, in
  insertion order, and the queue; it terminates on every graph, cyclic ones included. Python
  iterates the set of common revisions in an arbitrary order; the model takes the order of the
  first walk, which only matters between revisions that are not in the graph, the only ones with
  equal sort keys. Timestamps compare as instants.
\<close>

section \<open>The graph\<close>

record revision_node =
  revision_id :: string
  parent_id :: "string option"
  merge_parent_id :: "string option"
  rev_created_at :: timestamp
  version_label :: "string option"

definition parents :: "revision_node \<Rightarrow> string list" where
  "parents n = filter (\<lambda>p. p \<noteq> [])
     ((case parent_id n of None \<Rightarrow> [] | Some p \<Rightarrow> [p])
      @ (case merge_parent_id n of None \<Rightarrow> [] | Some p \<Rightarrow> [p]))"

type_synonym revision_graph = "(string, revision_node) dict"

definition index_nodes :: "revision_node list \<Rightarrow> revision_graph" where
  "index_nodes nodes = fold (\<lambda>n. AList.update (revision_id n) n) nodes []"

section \<open>Ancestors\<close>

fun relax :: "int \<Rightarrow> string list \<Rightarrow> (string, int) dict \<times> string list \<Rightarrow> (string, int) dict \<times> string list"
where
  "relax step [] (distances, queue) = (distances, queue)"
| "relax step (p # ps) (distances, queue) =
     (if p \<in> set (dict_keys distances) then relax step ps (distances, queue)
      else relax step ps (distances @ [(p, step + 1)], queue @ [p]))"

definition all_parents :: "revision_graph \<Rightarrow> string set" where
  "all_parents graph = (\<Union>(_, n) \<in> set graph. set (parents n))"

lemma relax_append:
  "\<exists>ps'. relax step ps (distances, queue) =
       (distances @ map (\<lambda>p. (p, step + 1)) ps', queue @ ps')
     \<and> set ps' = set ps - set (dict_keys distances) \<and> distinct ps'"
proof (induction ps arbitrary: distances queue)
  case (Cons p ps)
  show ?case
  proof (cases "p \<in> set (dict_keys distances)")
    case True
    then show ?thesis using Cons.IH[of distances queue] by auto
  next
    case False
    obtain ps' where ps': "relax step ps (distances @ [(p, step + 1)], queue @ [p]) =
        ((distances @ [(p, step + 1)]) @ map (\<lambda>p. (p, step + 1)) ps', (queue @ [p]) @ ps')"
      "set ps' = set ps - set (dict_keys (distances @ [(p, step + 1)]))" "distinct ps'"
      using Cons.IH by blast
    show ?thesis
      by (rule exI[of _ "p # ps'"]) (use False ps' in auto)
  qed
qed auto

function walk_ancestors ::
  "revision_graph \<Rightarrow> int option \<Rightarrow> (string, int) dict \<Rightarrow> string list \<Rightarrow> (string, int) dict" where
  "walk_ancestors graph depth distances [] = distances"
| "walk_ancestors graph depth distances (current # queue) =
     (let step = dict_default distances current 0
      in if (case depth of None \<Rightarrow> False | Some d \<Rightarrow> step \<ge> d)
         then walk_ancestors graph depth distances queue
         else (case map_of graph current of
             None \<Rightarrow> walk_ancestors graph depth distances queue
           | Some node \<Rightarrow>
               (case relax step (parents node) (distances, queue) of
                  (distances, queue) \<Rightarrow> walk_ancestors graph depth distances queue)))"
  by pat_completeness auto

termination
proof (relation "measure (\<lambda>(graph, depth, distances, queue).
    length queue + 2 * card (all_parents graph - set (dict_keys distances)))", goal_cases)
  case (4 graph depth distances current queue step node distances' queue')
  let ?U = "all_parents graph"
  obtain ps where ps: "distances' = distances @ map (\<lambda>p. (p, step + 1)) ps" "queue' = queue @ ps"
    "set ps = set (parents node) - set (dict_keys distances)" "distinct ps"
    using relax_append[of step "parents node" distances queue] 4(4) by auto
  have "finite ?U" by (auto simp: all_parents_def)
  moreover have "set ps \<subseteq> ?U - set (dict_keys distances)"
    using ps(3) map_of_SomeD[OF 4(3)] by (force simp: all_parents_def)
  moreover have "?U - set (dict_keys distances') = ?U - set (dict_keys distances) - set ps"
    unfolding ps(1) by auto
  ultimately have "card (?U - set (dict_keys distances')) + length ps = card (?U - set (dict_keys distances))"
    using ps(4) by (metis card_Diff_subset card_mono distinct_card finite_Diff finite_set le_add_diff_inverse2)
  then show ?case by (simp add: ps(2))
qed auto

fun start_tips :: "string list \<Rightarrow> (string, int) dict \<Rightarrow> (string, int) dict" where
  "start_tips [] distances = distances"
| "start_tips (tip # tips) distances =
     (if tip \<in> set (dict_keys distances) then start_tips tips distances
      else start_tips tips (distances @ [(tip, 0)]))"

definition ancestors :: "revision_graph \<Rightarrow> string list \<Rightarrow> int option \<Rightarrow> (string, int) dict" where
  "ancestors graph tips depth =
     (let distances = start_tips tips []
      in walk_ancestors graph depth distances (dict_keys distances))"

section \<open>Merge bases\<close>

definition zulu_replaced :: "string \<Rightarrow> string" where
  "zulu_replaced s = concat (map (\<lambda>c. if c = CHR ''Z'' then ''+00:00'' else [c]) s)"

definition created_instant :: "timestamp \<Rightarrow> int" where
  "created_instant t = (case t of
       TsDatetime d \<Rightarrow> instant d
     | TsText s \<Rightarrow> (case fromisoformat (zulu_replaced s) of None \<Rightarrow> 0 | Some d \<Rightarrow> instant d)
     | _ \<Rightarrow> 0)"

definition created_key :: "revision_node option \<Rightarrow> int \<times> string" where
  "created_key node = (case node of
       None \<Rightarrow> (0, [])
     | Some n \<Rightarrow> (created_instant (rev_created_at n), revision_id n))"

definition merge_base_candidates :: "revision_graph \<Rightarrow> string \<Rightarrow> string \<Rightarrow> string list" where
  "merge_base_candidates graph rev_a rev_b =
     (let common = filter (\<lambda>r. r \<in> set (dict_keys (ancestors graph [rev_b] None)))
                     (dict_keys (ancestors graph [rev_a] None));
          parents_of_common = concat (map (\<lambda>c. case map_of graph c of
                                 None \<Rightarrow> [] | Some n \<Rightarrow> parents n) common);
          dominated = (if parents_of_common = [] then []
                       else dict_keys (ancestors graph parents_of_common None));
          best = filter (\<lambda>c. c \<notin> set dominated) common
      in rev (sort_key (\<lambda>r. created_key (map_of graph r)) (rev best)))"

definition merge_base :: "revision_graph \<Rightarrow> string \<Rightarrow> string \<Rightarrow> string option" where
  "merge_base graph rev_a rev_b =
     (case merge_base_candidates graph rev_a rev_b of [] \<Rightarrow> None | c # _ \<Rightarrow> Some c)"

section \<open>History windows\<close>

record window_result =
  hw_nodes :: "revision_node list"
  hw_distances :: "(string, int) dict"
  hw_truncated :: bool

definition window_distances :: "revision_graph \<Rightarrow> string list \<Rightarrow> int \<Rightarrow> (string, int) dict" where
  "window_distances graph tips depth =
     filter (\<lambda>(r, _). map_of graph r \<noteq> None) (ancestors graph tips (Some depth))"

definition beyond_depth :: "revision_graph \<Rightarrow> (string, int) dict \<Rightarrow> int \<Rightarrow> bool" where
  "beyond_depth graph distances depth \<longleftrightarrow> list_ex (\<lambda>(r, d). d = depth
     \<and> list_ex (\<lambda>p. map_of graph p \<noteq> None \<and> p \<notin> set (dict_keys distances))
          (case map_of graph r of None \<Rightarrow> [] | Some n \<Rightarrow> parents n)) distances"

definition window_order :: "revision_graph \<Rightarrow> (string, int) dict \<Rightarrow> string list" where
  "window_order graph distances =
     sort_key (\<lambda>r. (dict_default distances r 0,
         - fst (created_key (map_of graph r)), snd (created_key (map_of graph r))))
       (dict_keys distances)"

definition history_window :: "revision_graph \<Rightarrow> string list \<Rightarrow> int \<Rightarrow> int \<Rightarrow> window_result" where
  "history_window graph tips depth limit =
     (let depth = max 0 (min depth 1000);
          limit = max 1 (min limit 5000);
          distances = window_distances graph tips depth;
          ordered = window_order graph distances;
          kept = take (nat limit) ordered
      in \<lparr>hw_nodes = map (\<lambda>r. the (map_of graph r)) kept,
          hw_distances = map (\<lambda>r. (r, dict_default distances r 0)) kept,
          hw_truncated = (beyond_depth graph distances depth \<or> int (length ordered) > limit)\<rparr>)"

section \<open>The walk finds shortest distances\<close>

definition parent_of :: "revision_graph \<Rightarrow> string \<Rightarrow> string \<Rightarrow> bool" where
  "parent_of graph c p \<longleftrightarrow> (\<exists>n. map_of graph c = Some n \<and> p \<in> set (parents n))"

definition reaches :: "revision_graph \<Rightarrow> string list \<Rightarrow> nat \<Rightarrow> string \<Rightarrow> bool" where
  "reaches graph tips n r \<longleftrightarrow> (\<exists>t \<in> set tips. (parent_of graph ^^ n) t r)"

lemma reaches_0 [simp]: "reaches graph tips 0 r \<longleftrightarrow> r \<in> set tips"
  by (auto simp: reaches_def)

lemma reaches_Suc: "reaches graph tips (Suc n) p \<longleftrightarrow> (\<exists>c. reaches graph tips n c \<and> parent_of graph c p)"
  by (auto simp: reaches_def)

definition below :: "int option \<Rightarrow> int \<Rightarrow> bool" where
  "below depth d \<longleftrightarrow> (case depth of None \<Rightarrow> True | Some k \<Rightarrow> d < k)"

definition in_range :: "int option \<Rightarrow> nat \<Rightarrow> bool" where
  "in_range depth n \<longleftrightarrow> n = 0 \<or> below depth (int n - 1)"

text \<open>The state of the walk: the distances list the revisions done and those queued, in order of
  distance, the queue spans at most two distances, every distance is that of some path, and the
  parents of every expanded revision are in.\<close>

definition walk_inv ::
  "revision_graph \<Rightarrow> string list \<Rightarrow> int option \<Rightarrow> string list \<Rightarrow> (string, int) dict \<Rightarrow> string list \<Rightarrow> bool"
where
  "walk_inv graph tips depth visited distances queue \<longleftrightarrow>
     dict_keys distances = visited @ queue \<and> distinct (visited @ queue)
     \<and> sorted (map snd distances)
     \<and> (\<forall>r d. (r, d) \<in> set distances \<longrightarrow> (\<exists>n. d = int n \<and> reaches graph tips n r \<and> in_range depth n))
     \<and> (queue \<noteq> [] \<longrightarrow> (\<forall>d \<in> snd ` set distances. d \<le> dict_default distances (hd queue) 0 + 1))
     \<and> (\<forall>c \<in> set visited. \<forall>p. parent_of graph c p \<and> below depth (dict_default distances c 0)
          \<longrightarrow> (\<exists>d. (p, d) \<in> set distances \<and> d \<le> dict_default distances c 0 + 1))
     \<and> (\<forall>t \<in> set tips. (t, 0) \<in> set distances)"

lemma dict_default_member:
  "distinct (dict_keys d) \<Longrightarrow> (k, v) \<in> set d \<Longrightarrow> dict_default d k w = v"
  by (simp add: dict_default_def map_of_is_SomeI)

lemma dict_default_append:
  "k \<in> set (dict_keys d) \<Longrightarrow> dict_default (d @ e) k w = dict_default d k w"
  by (auto simp: dict_default_def map_of_eq_None_iff split: option.splits dest: map_of_SomeD)

lemma dict_default_in:
  "k \<in> set (dict_keys d) \<Longrightarrow> (k, dict_default d k w) \<in> set d"
  by (auto simp: dict_default_def map_of_eq_None_iff split: option.splits dest: map_of_SomeD)

lemma sorted_values_pop:
  assumes "dict_keys distances = visited @ current # queue" and "distinct (visited @ current # queue)"
    and "sorted (map snd distances)" and "q \<in> set queue"
  shows "dict_default distances current w \<le> dict_default distances q w"
proof -
  obtain before v later where d: "distances = before @ (current, v) # later" "dict_keys later = queue"
    using assms(1) by (auto simp: map_eq_append_conv map_eq_Cons_conv)
  obtain u where u: "(q, u) \<in> set later" using assms(4) d(2) by auto
  have keys: "distinct (dict_keys distances)" using assms(1,2) by simp
  have "v \<le> u" using assms(3) u unfolding d(1) by (force simp: sorted_append)
  moreover have "dict_default distances current w = v" "dict_default distances q w = u"
    using dict_default_member[OF keys] u unfolding d(1) by auto
  ultimately show ?thesis by simp
qed

lemma walk_inv_max:
  assumes "walk_inv graph tips depth visited distances (current # queue)" and "(r, d) \<in> set distances"
  shows "d \<le> dict_default distances current 0 + 1"
  using assms by (force simp: walk_inv_def)

lemma walk_inv_skip:
  assumes "walk_inv graph tips depth visited distances (current # queue)"
    and "\<not> below depth (dict_default distances current 0) \<or> map_of graph current = None"
  shows "walk_inv graph tips depth (visited @ [current]) distances queue"
proof -
  have inv: "dict_keys distances = visited @ current # queue" "distinct (visited @ current # queue)"
    "sorted (map snd distances)"
    using assms(1) by (auto simp: walk_inv_def)
  have bound: "d \<le> dict_default distances (hd queue) 0 + 1"
    if "queue \<noteq> []" "(r, d) \<in> set distances" for r d
    using sorted_values_pop[OF inv, of "hd queue" 0] walk_inv_max[OF assms(1) that(2)] that(1) by simp
  have "\<not> (parent_of graph current p \<and> below depth (dict_default distances current 0))" for p
    using assms(2) by (auto simp: parent_of_def)
  then show ?thesis
    using assms(1) bound unfolding walk_inv_def by auto
qed

lemma walk_inv_relax:
  assumes "walk_inv graph tips depth visited distances (current # queue)"
    and "below depth (dict_default distances current 0)" and "map_of graph current = Some node"
    and "relax (dict_default distances current 0) (parents node) (distances, queue) = (distances', queue')"
  shows "walk_inv graph tips depth (visited @ [current]) distances' queue'"
proof -
  let ?step = "dict_default distances current 0"
  obtain ps where ps: "distances' = distances @ map (\<lambda>p. (p, ?step + 1)) ps" "queue' = queue @ ps"
    "set ps = set (parents node) - set (dict_keys distances)" "distinct ps"
    using relax_append[of ?step "parents node" distances queue] assms(4) by auto
  have inv: "dict_keys distances = visited @ current # queue" "distinct (visited @ current # queue)"
    "sorted (map snd distances)"
    "\<And>r d. (r, d) \<in> set distances \<Longrightarrow> \<exists>n. d = int n \<and> reaches graph tips n r \<and> in_range depth n"
    "\<And>c p. c \<in> set visited \<Longrightarrow> parent_of graph c p \<Longrightarrow> below depth (dict_default distances c 0)
       \<Longrightarrow> \<exists>d. (p, d) \<in> set distances \<and> d \<le> dict_default distances c 0 + 1"
    "\<And>t. t \<in> set tips \<Longrightarrow> (t, 0) \<in> set distances"
    using assms(1) by (auto simp: walk_inv_def)
  have keys': "dict_keys distances' = (visited @ [current]) @ queue'"
    using inv(1) by (simp add: ps comp_def)
  have distinct': "distinct ((visited @ [current]) @ queue')"
    using inv(1,2) ps(3,4) by (auto simp: ps(2))
  have max: "d \<le> ?step + 1" if "(r, d) \<in> set distances'" for r d
    using that walk_inv_max[OF assms(1), of r d] by (auto simp: ps(1))
  have cur: "(current, ?step) \<in> set distances"
    by (rule dict_default_in) (simp add: inv(1))
  obtain n where n: "?step = int n" "reaches graph tips n current" "in_range depth n"
    using inv(4)[OF cur] by blast
  have new: "\<exists>m. ?step + 1 = int m \<and> reaches graph tips m p \<and> in_range depth m" if "p \<in> set ps" for p
  proof (intro exI[of _ "Suc n"] conjI)
    show "?step + 1 = int (Suc n)" using n(1) by simp
    show "reaches graph tips (Suc n) p"
      using n(2) that ps(3) assms(3) by (auto simp: reaches_Suc parent_of_def)
    show "in_range depth (Suc n)" using assms(2) n(1) by (simp add: in_range_def)
  qed
  have same: "dict_default distances' c 0 = dict_default distances c 0" if "c \<in> set (dict_keys distances)" for c
    unfolding ps(1) by (rule dict_default_append[OF that])
  have low: "?step \<le> dict_default distances' q 0" if "q \<in> set queue'" for q
  proof (cases "q \<in> set queue")
    case True
    then show ?thesis using sorted_values_pop[OF inv(1-3) True, of 0] same[of q] inv(1) by simp
  next
    case False
    then have "(q, ?step + 1) \<in> set distances'" using that by (auto simp: ps)
    then show ?thesis
      using dict_default_member[of distances' q "?step + 1" 0] keys' distinct' by simp
  qed
  have "sorted (map (\<lambda>_. ?step + 1) ps)"
    by (induction ps) auto
  then have "sorted (map snd distances')"
    using inv(3) walk_inv_max[OF assms(1)] by (auto simp: ps(1) sorted_append comp_def)
  moreover have "\<exists>m. d = int m \<and> reaches graph tips m r \<and> in_range depth m"
    if "(r, d) \<in> set distances'" for r d
    using that inv(4) new by (auto simp: ps(1))
  moreover have "d \<le> dict_default distances' (hd queue') 0 + 1"
    if "queue' \<noteq> []" "(r, d) \<in> set distances'" for r d
    using max[OF that(2)] low[of "hd queue'"] that(1) by simp
  moreover have "\<exists>d. (p, d) \<in> set distances' \<and> d \<le> dict_default distances' c 0 + 1"
    if c: "c \<in> set (visited @ [current])" and p: "parent_of graph c p" and b: "below depth (dict_default distances' c 0)"
    for c p
  proof (cases "c = current")
    case True
    have step: "dict_default distances' current 0 = ?step" using same[of current] inv(1) by simp
    have "p \<in> set (parents node)" using p assms(3) True by (simp add: parent_of_def)
    then consider "p \<in> set ps" | "p \<in> set (dict_keys distances)" using ps(3) by blast
    then show ?thesis
    proof cases
      case 1
      then show ?thesis unfolding True step by (intro exI[of _ "?step + 1"]) (simp add: ps(1))
    next
      case 2
      then show ?thesis
        unfolding True step using dict_default_in[OF 2, of 0] walk_inv_max[OF assms(1)]
        by (intro exI[of _ "dict_default distances p 0"]) (auto simp: ps(1))
    qed
  next
    case False
    then have v: "c \<in> set visited" using c by simp
    then show ?thesis using inv(5)[OF v p] same[of c] inv(1) b by (auto simp: ps(1))
  qed
  moreover have "(t, 0) \<in> set distances'" if "t \<in> set tips" for t
    using inv(6)[OF that] by (simp add: ps(1))
  ultimately show ?thesis
    using keys' distinct' unfolding walk_inv_def by auto
qed

lemma walk_ancestors_inv:
  "walk_inv graph tips depth visited distances queue \<Longrightarrow>
     \<exists>visited'. walk_inv graph tips depth visited' (walk_ancestors graph depth distances queue) []"
proof (induction graph depth distances queue arbitrary: visited rule: walk_ancestors.induct)
  case (1 graph depth distances)
  then show ?case by auto
next
  case (2 graph depth distances current queue)
  let ?step = "dict_default distances current 0"
  show ?case
  proof (cases "below depth ?step")
    case False
    then have full: "case depth of None \<Rightarrow> False | Some d \<Rightarrow> ?step \<ge> d"
      by (auto simp: below_def split: option.splits)
    then have "walk_ancestors graph depth distances (current # queue) = walk_ancestors graph depth distances queue"
      by (simp add: Let_def)
    then show ?thesis
      using "2.IH"(1)[OF refl full] walk_inv_skip[OF 2(4)] False by simp
  next
    case True
    then have go: "\<not> (case depth of None \<Rightarrow> False | Some d \<Rightarrow> ?step \<ge> d)"
      by (auto simp: below_def split: option.splits)
    show ?thesis
    proof (cases "map_of graph current")
      case None
      then have "walk_ancestors graph depth distances (current # queue) = walk_ancestors graph depth distances queue"
        using go by (simp add: Let_def)
      then show ?thesis
        using "2.IH"(2)[OF refl go None] walk_inv_skip[OF 2(4)] None by simp
    next
      case (Some node)
      obtain distances' queue' where r: "relax ?step (parents node) (distances, queue) = (distances', queue')"
        by (cases "relax ?step (parents node) (distances, queue)")
      then have "walk_ancestors graph depth distances (current # queue) = walk_ancestors graph depth distances' queue'"
        using go Some by (simp add: Let_def)
      then show ?thesis
        using "2.IH"(3)[OF refl go Some r[symmetric]] walk_inv_relax[OF 2(4) True Some r] by simp
    qed
  qed
qed


lemma start_tips_spec:
  "\<exists>ts. start_tips tips d = d @ map (\<lambda>t. (t, 0)) ts \<and> distinct ts
     \<and> set ts = set tips - set (dict_keys d)"
proof (induction tips arbitrary: d)
  case (Cons t tips)
  show ?case
  proof (cases "t \<in> set (dict_keys d)")
    case True
    then show ?thesis using Cons.IH[of d] by auto
  next
    case False
    obtain ts where "start_tips tips (d @ [(t, 0)]) = (d @ [(t, 0)]) @ map (\<lambda>t. (t, 0)) ts"
      "distinct ts" "set ts = set tips - set (dict_keys (d @ [(t, 0)]))"
      using Cons.IH by blast
    then show ?thesis
      using False by (intro exI[of _ "t # ts"]) auto
  qed
qed auto

lemma ancestors_inv: "\<exists>visited. walk_inv graph tips depth visited (ancestors graph tips depth) []"
proof -
  obtain ts where ts: "start_tips tips [] = map (\<lambda>t. (t, 0)) ts" "distinct ts" "set ts = set tips"
    using start_tips_spec[of tips "[]"] by auto
  have "dict_default (map (\<lambda>t. (t, 0)) ts) t 0 = (0::int)" for t
    by (induction ts) (auto simp: dict_default_def)
  moreover have "sorted (map snd (map (\<lambda>t. (t, 0::int)) ts))"
    by (induction ts) auto
  ultimately have "walk_inv graph tips depth [] (start_tips tips []) (dict_keys (start_tips tips []))"
    using ts by (auto simp: walk_inv_def comp_def in_range_def intro!: exI[of _ "0::nat"])
  then show ?thesis
    unfolding ancestors_def Let_def by (rule walk_ancestors_inv)
qed

lemma ancestors_member:
  assumes "(r, d) \<in> set (ancestors graph tips depth)"
  shows "\<exists>n. d = int n \<and> reaches graph tips n r \<and> in_range depth n"
  using ancestors_inv[of graph tips depth] assms unfolding walk_inv_def by blast

lemma ancestors_distinct: "distinct (dict_keys (ancestors graph tips depth))"
  using ancestors_inv[of graph tips depth] unfolding walk_inv_def by auto

lemma ancestors_complete:
  assumes "reaches graph tips n r" and "in_range depth n"
  shows "\<exists>d. (r, d) \<in> set (ancestors graph tips depth) \<and> d \<le> int n"
  using assms
proof (induction n arbitrary: r)
  case 0
  then show ?case using ancestors_inv[of graph tips depth] unfolding walk_inv_def by fastforce
next
  case (Suc n)
  obtain c where c: "reaches graph tips n c" "parent_of graph c r"
    using Suc.prems(1) by (auto simp: reaches_Suc)
  have b: "below depth (int n)" using Suc.prems(2) by (simp add: in_range_def)
  then have "in_range depth n" by (auto simp: in_range_def below_def split: option.splits)
  then obtain d where d: "(c, d) \<in> set (ancestors graph tips depth)" "d \<le> int n"
    using Suc.IH c(1) by blast
  have dd: "dict_default (ancestors graph tips depth) c 0 = d"
    by (rule dict_default_member[OF ancestors_distinct d(1)])
  have "below depth d" using b d(2) by (auto simp: below_def split: option.splits)
  moreover obtain visited where v: "walk_inv graph tips depth visited (ancestors graph tips depth) []"
    using ancestors_inv by blast
  moreover have "c \<in> set visited"
    using v d(1) unfolding walk_inv_def by (metis append_Nil2 fst_conv image_eqI set_map)
  ultimately obtain e where "(r, e) \<in> set (ancestors graph tips depth)" "e \<le> d + 1"
    using c(2) unfolding walk_inv_def dd[symmetric] by blast
  then show ?case using d(2) by (intro exI[of _ e]) simp
qed

text \<open>All ancestors, without a depth.\<close>

lemma ancestors_all:
  "r \<in> set (dict_keys (ancestors graph tips None)) \<longleftrightarrow> (\<exists>t \<in> set tips. (parent_of graph)\<^sup>*\<^sup>* t r)"
proof
  assume "r \<in> set (dict_keys (ancestors graph tips None))"
  then obtain d where "(r, d) \<in> set (ancestors graph tips None)" by auto
  then obtain n where "reaches graph tips n r" using ancestors_member by blast
  then show "\<exists>t \<in> set tips. (parent_of graph)\<^sup>*\<^sup>* t r"
    unfolding reaches_def by (meson rtranclp_power)
next
  assume "\<exists>t \<in> set tips. (parent_of graph)\<^sup>*\<^sup>* t r"
  then obtain n where "reaches graph tips n r"
    unfolding reaches_def by (meson rtranclp_power)
  then obtain d where "(r, d) \<in> set (ancestors graph tips None)"
    using ancestors_complete[of graph tips n r None] by (auto simp: in_range_def below_def)
  then show "r \<in> set (dict_keys (ancestors graph tips None))" by force
qed

section \<open>Merge bases and windows\<close>

definition common_ancestor :: "revision_graph \<Rightarrow> string \<Rightarrow> string \<Rightarrow> string \<Rightarrow> bool" where
  "common_ancestor graph a b c \<longleftrightarrow> (parent_of graph)\<^sup>*\<^sup>* a c \<and> (parent_of graph)\<^sup>*\<^sup>* b c"

text \<open>A best common ancestor is no strict ancestor of another common one.\<close>

definition best_common :: "revision_graph \<Rightarrow> string \<Rightarrow> string \<Rightarrow> string \<Rightarrow> bool" where
  "best_common graph a b c \<longleftrightarrow> common_ancestor graph a b c
     \<and> \<not> (\<exists>c'. common_ancestor graph a b c' \<and> (parent_of graph)\<^sup>+\<^sup>+ c' c)"

lemma candidates_best: "set (merge_base_candidates graph a b) = {c. best_common graph a b c}"
proof -
  define common where "common = filter (\<lambda>r. r \<in> set (dict_keys (ancestors graph [b] None)))
                     (dict_keys (ancestors graph [a] None))"
  define ps where "ps = concat (map (\<lambda>c. case map_of graph c of None \<Rightarrow> [] | Some n \<Rightarrow> parents n) common)"
  have common: "c \<in> set common \<longleftrightarrow> common_ancestor graph a b c" for c
    unfolding common_def set_filter common_ancestor_def mem_Collect_eq ancestors_all by auto
  have ps: "p \<in> set ps \<longleftrightarrow> (\<exists>c. common_ancestor graph a b c \<and> parent_of graph c p)" for p
  proof -
    have pc: "p \<in> set (case map_of graph c of None \<Rightarrow> [] | Some n \<Rightarrow> parents n) \<longleftrightarrow> parent_of graph c p" for c
      by (cases "map_of graph c") (simp_all add: parent_of_def)
    have "p \<in> set ps \<longleftrightarrow> (\<exists>c \<in> set common. p \<in> set (case map_of graph c of None \<Rightarrow> [] | Some n \<Rightarrow> parents n))"
      by (auto simp: ps_def)
    also have "\<dots> \<longleftrightarrow> (\<exists>c \<in> set common. parent_of graph c p)"
      by (simp only: pc)
    finally show ?thesis unfolding Bex_def common .
  qed
  have dominated: "r \<in> set (if ps = [] then [] else dict_keys (ancestors graph ps None)) \<longleftrightarrow>
      (\<exists>c. common_ancestor graph a b c \<and> (parent_of graph)\<^sup>+\<^sup>+ c r)" for r
  proof -
    have "r \<in> set (if ps = [] then [] else dict_keys (ancestors graph ps None)) \<longleftrightarrow>
        (\<exists>p \<in> set ps. (parent_of graph)\<^sup>*\<^sup>* p r)"
      using ancestors_all[of r graph ps] by auto
    then show ?thesis
      unfolding Bex_def ps by (meson rtranclp_into_tranclp2 tranclpD)
  qed
  have "set (merge_base_candidates graph a b) =
      {c \<in> set common. c \<notin> set (if ps = [] then [] else dict_keys (ancestors graph ps None))}"
    unfolding merge_base_candidates_def Let_def common_def[symmetric] ps_def[symmetric] by simp
  then show ?thesis
    unfolding dominated common best_common_def by blast
qed

lemma finite_parent_of: "finite {(c, p). parent_of graph c p}"
proof (rule finite_subset)
  show "{(c, p). parent_of graph c p} \<subseteq> set (dict_keys graph) \<times> all_parents graph"
    by (force simp: parent_of_def all_parents_def dest: map_of_SomeD)
  show "finite (set (dict_keys graph) \<times> all_parents graph)"
    by (auto simp: all_parents_def)
qed

lemma best_common_exists:
  assumes "acyclicP (parent_of graph)" and "common_ancestor graph a b c"
  shows "\<exists>m. best_common graph a b m"
proof -
  let ?R = "{(c, p). parent_of graph c p}"
  have "wf (?R\<^sup>+)"
    using finite_acyclic_wf[OF finite_parent_of assms(1)] by (rule wf_trancl)
  then obtain m where "common_ancestor graph a b m" "\<And>y. (y, m) \<in> ?R\<^sup>+ \<Longrightarrow> \<not> common_ancestor graph a b y"
    using assms(2) wf_eq_minimal[THEN iffD1, rule_format, of "?R\<^sup>+" c "{c. common_ancestor graph a b c}"]
    by auto
  then show ?thesis
    unfolding best_common_def by (auto simp: tranclp_unfold)
qed

lemma sorted_hd_max:
  assumes "rev (sort_key f (rev xs)) = m # ms" and "x \<in> set xs"
  shows "f x \<le> (f m :: 'a :: linorder)"
proof -
  have s: "sort_key f (rev xs) = rev ms @ [m]" using assms(1) by (metis rev.simps(2) rev_rev_ident)
  have "sorted (map f (rev ms @ [m]))" unfolding s[symmetric] by simp
  moreover have "x \<in> set (rev ms @ [m])" using assms(2) unfolding s[symmetric] by simp
  ultimately show ?thesis by (auto simp: sorted_append)
qed

lemma merge_base_Some:
  assumes "merge_base graph a b = Some m"
  shows "best_common graph a b m"
    and "best_common graph a b c \<Longrightarrow> created_key (map_of graph c) \<le> created_key (map_of graph m)"
proof -
  obtain ms where ms: "merge_base_candidates graph a b = m # ms"
    using assms by (auto simp: merge_base_def split: list.splits)
  then show "best_common graph a b m" using candidates_best[of graph a b] by auto
  show "created_key (map_of graph c) \<le> created_key (map_of graph m)" if "best_common graph a b c"
  proof -
    obtain best where best: "merge_base_candidates graph a b =
        rev (sort_key (\<lambda>r. created_key (map_of graph r)) (rev best))"
      by (simp add: merge_base_candidates_def Let_def)
    have "c \<in> set (merge_base_candidates graph a b)" using candidates_best that by blast
    then have "c \<in> set best" unfolding best by simp
    then show ?thesis using sorted_hd_max[OF trans[OF best[symmetric] ms]] by blast
  qed
qed

lemma merge_base_None:
  "merge_base graph a b = None \<longleftrightarrow> \<not> (\<exists>c. best_common graph a b c)"
  using candidates_best[of graph a b] by (auto simp: merge_base_def split: list.splits)

lemma merge_base_unique:
  assumes "acyclicP (parent_of graph)" and "common_ancestor graph a b m"
    and "\<And>c. common_ancestor graph a b c \<Longrightarrow> (parent_of graph)\<^sup>*\<^sup>* m c"
  shows "merge_base graph a b = Some m"
proof -
  obtain c where c: "merge_base graph a b = Some c"
    using best_common_exists[OF assms(1,2)] merge_base_None by (metis not_None_eq)
  then have best: "best_common graph a b c" by (rule merge_base_Some(1))
  then have "(parent_of graph)\<^sup>*\<^sup>* m c" "\<not> (parent_of graph)\<^sup>+\<^sup>+ m c"
    using assms(2,3) by (auto simp: best_common_def)
  then show ?thesis using c by (metis rtranclpD)
qed

lemma acyclic_by_rank:
  assumes "\<forall>(c, n) \<in> set graph. \<forall>p \<in> set (parents n). f p < (f c :: nat)"
  shows "acyclicP (parent_of graph)"
proof (rule acyclic_subset)
  show "acyclic ((measure f)\<inverse>)" by (simp add: wf_acyclic)
  show "{(c, p). parent_of graph c p} \<subseteq> (measure f)\<inverse>"
    using assms by (fastforce simp: parent_of_def dest: map_of_SomeD)
qed

section \<open>Complete windows\<close>

lemma window_sound:
  assumes "r \<in> set (dict_keys (window_distances graph tips depth))"
  shows "map_of graph r \<noteq> None \<and> (\<exists>t \<in> set tips. (parent_of graph)\<^sup>*\<^sup>* t r)"
proof -
  obtain d where "(r, d) \<in> set (ancestors graph tips (Some depth))" "map_of graph r \<noteq> None"
    using assms by (auto simp: window_distances_def)
  moreover then obtain n where "reaches graph tips n r"
    using ancestors_member by blast
  ultimately show ?thesis
    unfolding reaches_def by (meson rtranclp_power)
qed

lemma window_member:
  assumes "reaches graph tips n r" and "in_range (Some depth) n" and "map_of graph r \<noteq> None"
  shows "r \<in> set (dict_keys (window_distances graph tips depth))"
  using ancestors_complete[OF assms(1,2)] assms(3) by (force simp: window_distances_def)

lemma window_closed:
  assumes "\<not> beyond_depth graph (window_distances graph tips depth) depth" and "0 \<le> depth"
    and "c \<in> set (dict_keys (window_distances graph tips depth))" and "parent_of graph c r"
    and "map_of graph r \<noteq> None"
  shows "r \<in> set (dict_keys (window_distances graph tips depth))"
proof -
  obtain d where d: "(c, d) \<in> set (window_distances graph tips depth)" using assms(3) by auto
  then obtain m where m: "d = int m" "reaches graph tips m c" "in_range (Some depth) m"
    using ancestors_member[of c d graph tips "Some depth"] by (auto simp: window_distances_def)
  show ?thesis
  proof (cases "d = depth")
    case True
    have "\<not> list_ex (\<lambda>p. map_of graph p \<noteq> None \<and> p \<notin> set (dict_keys (window_distances graph tips depth)))
        (case map_of graph c of None \<Rightarrow> [] | Some n \<Rightarrow> parents n)"
      using assms(1) d True unfolding beyond_depth_def by (auto simp only: list_ex_iff)
    then show ?thesis
      using assms(4,5) by (auto simp: list_ex_iff parent_of_def)
  next
    case False
    then have "in_range (Some depth) (Suc m)"
      using m(1,3) assms(2) by (auto simp: in_range_def below_def)
    moreover have "reaches graph tips (Suc m) r" using m(2) assms(4) by (auto simp: reaches_Suc)
    ultimately show ?thesis
      using window_member[of graph tips "Suc m" r depth] assms(5) by auto
  qed
qed

lemma window_complete:
  assumes "\<not> beyond_depth graph (window_distances graph tips depth) depth" and "0 \<le> depth"
  shows "set (dict_keys (window_distances graph tips depth)) =
     {r. map_of graph r \<noteq> None \<and> (\<exists>t \<in> set tips. (parent_of graph)\<^sup>*\<^sup>* t r)}"
proof -
  have "r \<in> set (dict_keys (window_distances graph tips depth))"
    if "reaches graph tips n r" "map_of graph r \<noteq> None" for n r
    using that
  proof (induction n arbitrary: r)
    case 0
    then show ?case using window_member[of graph tips 0 r depth] by (simp add: in_range_def)
  next
    case (Suc n)
    obtain c where c: "reaches graph tips n c" "parent_of graph c r"
      using Suc.prems(1) by (auto simp: reaches_Suc)
    then have "c \<in> set (dict_keys (window_distances graph tips depth))"
      by (intro Suc.IH) (auto simp: parent_of_def)
    then show ?case by (rule window_closed[OF assms]) (use c(2) Suc.prems(2) in auto)
  qed
  then have "r \<in> set (dict_keys (window_distances graph tips depth))"
    if "map_of graph r \<noteq> None" "t \<in> set tips" "(parent_of graph)\<^sup>*\<^sup>* t r" for r t
    using that unfolding reaches_def by (meson rtranclp_power)
  then show ?thesis using window_sound by blast
qed

text \<open>A branch, a second branch and their merge.\<close>

definition example_graph :: revision_graph where
  "example_graph = index_nodes
     [\<lparr>revision_id = ''a'', parent_id = None, merge_parent_id = None, rev_created_at = TsText ''2026-01-01'', version_label = None\<rparr>,
      \<lparr>revision_id = ''b'', parent_id = Some ''a'', merge_parent_id = None, rev_created_at = TsText ''2026-01-02'', version_label = None\<rparr>,
      \<lparr>revision_id = ''c'', parent_id = Some ''a'', merge_parent_id = None, rev_created_at = TsText ''2026-01-03'', version_label = None\<rparr>,
      \<lparr>revision_id = ''m'', parent_id = Some ''b'', merge_parent_id = Some ''c'', rev_created_at = TsText ''2026-01-04'', version_label = None\<rparr>]"

section \<open>Properties\<close>

text \<open>the walk is exact: a revision is in the result with distance \<open>d\<close> just when \<open>d\<close> is the
  length of a shortest path of parent links from some tip, and the depth, if given, allows that
  many steps. Cycles, diamonds and missing parents included.\<close>

theorem ancestors_shortest:
  "map_of (ancestors graph tips depth) r = Some d \<longleftrightarrow>
     (\<exists>n. d = int n \<and> reaches graph tips n r \<and> (\<forall>m < n. \<not> reaches graph tips m r)
        \<and> (n = 0 \<or> (case depth of None \<Rightarrow> True | Some k \<Rightarrow> int n \<le> k)))"
proof -
  let ?A = "ancestors graph tips depth"
  have range: "in_range depth n \<longleftrightarrow> n = 0 \<or> (case depth of None \<Rightarrow> True | Some k \<Rightarrow> int n \<le> k)" for n
    by (auto simp: in_range_def below_def split: option.splits)
  have mono: "in_range depth m" if "in_range depth n" "m < n" for m n
    using that by (auto simp: in_range_def below_def split: option.splits)
  have member: "map_of ?A r = Some d \<longleftrightarrow> (r, d) \<in> set ?A"
    using ancestors_distinct[of graph tips depth] by (auto dest: map_of_SomeD)
  show ?thesis
    unfolding member range[symmetric]
  proof
    assume r: "(r, d) \<in> set ?A"
    obtain n where n: "d = int n" "reaches graph tips n r" "in_range depth n"
      using ancestors_member[OF r] by blast
    have "\<not> reaches graph tips m r" if lt: "m < n" for m
    proof
      assume "reaches graph tips m r"
      then obtain e where "(r, e) \<in> set ?A" "e \<le> int m"
        using ancestors_complete mono[OF n(3) lt] by blast
      then show False
        using dict_default_member[OF ancestors_distinct r, of 0]
          dict_default_member[OF ancestors_distinct, of r e graph tips depth 0] lt n(1) by simp
    qed
    then show "\<exists>n. d = int n \<and> reaches graph tips n r \<and> (\<forall>m < n. \<not> reaches graph tips m r) \<and> in_range depth n"
      using n by blast
  next
    assume "\<exists>n. d = int n \<and> reaches graph tips n r \<and> (\<forall>m < n. \<not> reaches graph tips m r) \<and> in_range depth n"
    then obtain n where n: "d = int n" "reaches graph tips n r" "\<forall>m < n. \<not> reaches graph tips m r"
      "in_range depth n" by blast
    obtain e where e: "(r, e) \<in> set ?A" "e \<le> int n" using ancestors_complete[OF n(2,4)] by blast
    obtain m where "e = int m" "reaches graph tips m r" using ancestors_member[OF e(1)] by blast
    then show "(r, d) \<in> set ?A" using e n(1,3) by (metis le_neq_implies_less nat_int_comparison(3))
  qed
qed

theorem ancestors_shortest_witness:
  "reaches example_graph [''m''] 2 ''a'' \<and> \<not> reaches example_graph [''m''] 1 ''a''"
proof -
  have "map_of (ancestors example_graph [''m''] (Some 2)) ''a'' = Some 2"
    by code_simp
  then obtain n where "2 = int n" "reaches example_graph [''m''] n ''a''"
    "\<forall>m < n. \<not> reaches example_graph [''m''] m ''a''"
    unfolding ancestors_shortest by blast
  moreover have "n = 2" using \<open>2 = int n\<close> by simp
  ultimately show ?thesis by simp
qed

text \<open>C36: in an acyclic history the merge base is right: there is none exactly when the two
  revisions share no ancestor; otherwise it is a common ancestor that is no strict ancestor of
  another common one, the newest of those (the id breaking ties); and when one revision is an
  ancestor of the other it is that revision.\<close>

theorem merge_base_correct:
  assumes "acyclicP (parent_of graph)"
  shows "(merge_base graph a b = None \<longleftrightarrow> (\<forall>c. \<not> common_ancestor graph a b c))
    \<and> (\<forall>m. merge_base graph a b = Some m \<longrightarrow> best_common graph a b m
         \<and> (\<forall>c. best_common graph a b c \<longrightarrow> created_key (map_of graph c) \<le> created_key (map_of graph m)))
    \<and> ((parent_of graph)\<^sup>*\<^sup>* a b \<longrightarrow> merge_base graph a b = Some b)"
proof (intro conjI impI)
  show "merge_base graph a b = None \<longleftrightarrow> (\<forall>c. \<not> common_ancestor graph a b c)"
    using best_common_exists[OF assms] unfolding merge_base_None by (metis best_common_def)
  show "\<forall>m. merge_base graph a b = Some m \<longrightarrow> best_common graph a b m
         \<and> (\<forall>c. best_common graph a b c \<longrightarrow> created_key (map_of graph c) \<le> created_key (map_of graph m))"
    using merge_base_Some by blast
  show "merge_base graph a b = Some b" if "(parent_of graph)\<^sup>*\<^sup>* a b"
    by (rule merge_base_unique[OF assms]) (use that in \<open>auto simp: common_ancestor_def\<close>)
qed

theorem merge_base_correct_witness:
  "best_common example_graph ''b'' ''c'' ''a'' \<and> acyclicP (parent_of example_graph)"
proof -
  have "acyclicP (parent_of example_graph)"
    by (rule acyclic_by_rank[where f = "\<lambda>r. if r = ''a'' then 0 else if r = ''m'' then 2 else 1"])
      (auto simp: example_graph_def index_nodes_def parents_def)
  moreover have "merge_base example_graph ''b'' ''c'' = Some ''a''"
    by code_simp
  ultimately show ?thesis
    using merge_base_correct[of example_graph "''b''" "''c''"] by blast
qed

text \<open>a window that is not marked truncated is the whole history: it never has more revisions
  than the limit, and unless truncated it lists exactly the loaded revisions reachable from the tips.\<close>

theorem untruncated_window_complete:
  "length (hw_nodes (history_window graph tips depth limit)) \<le> nat (max 1 (min limit 5000))
   \<and> (hw_truncated (history_window graph tips depth limit)
      \<or> set (dict_keys (hw_distances (history_window graph tips depth limit))) =
          {r. map_of graph r \<noteq> None \<and> (\<exists>t \<in> set tips. (parent_of graph)\<^sup>*\<^sup>* t r)})"
proof -
  let ?k = "max 0 (min depth 1000)" and ?limit = "max 1 (min limit 5000)"
  let ?d = "window_distances graph tips ?k"
  have order: "set (window_order graph ?d) = set (dict_keys ?d)" by (simp add: window_order_def)
  have "set (dict_keys (hw_distances (history_window graph tips depth limit))) =
          {r. map_of graph r \<noteq> None \<and> (\<exists>t \<in> set tips. (parent_of graph)\<^sup>*\<^sup>* t r)}"
    if shown: "\<not> hw_truncated (history_window graph tips depth limit)"
  proof -
    have "\<not> beyond_depth graph ?d ?k" "int (length (window_order graph ?d)) \<le> ?limit"
      using shown by (auto simp only: history_window_def Let_def window_result.select_convs)
    then have "take (nat ?limit) (window_order graph ?d) = window_order graph ?d" by simp
    then show ?thesis
      using window_complete[OF \<open>\<not> beyond_depth graph ?d ?k\<close>] order
      by (simp only: history_window_def Let_def window_result.select_convs) (simp add: comp_def)
  qed
  then show ?thesis by (auto simp: history_window_def Let_def)
qed

theorem untruncated_window_complete_witness:
  "{r. map_of example_graph r \<noteq> None \<and> (\<exists>t \<in> set [''b'']. (parent_of example_graph)\<^sup>*\<^sup>* t r)}
     = set [''b'', ''a'']"
proof -
  have e: "\<not> hw_truncated (history_window example_graph [''b''] 5 10)"
    "dict_keys (hw_distances (history_window example_graph [''b''] 5 10)) = [''b'', ''a'']"
    by code_simp+
  have "set (dict_keys (hw_distances (history_window example_graph [''b''] 5 10))) =
      {r. map_of example_graph r \<noteq> None \<and> (\<exists>t \<in> set [''b'']. (parent_of example_graph)\<^sup>*\<^sup>* t r)}"
    using untruncated_window_complete[of example_graph "[''b'']" 5 10] e(1) by blast
  then show ?thesis unfolding e(2) by (rule sym)
qed

end
