(* ===== verification/SessionProtocol.thy ===== *)
theory SessionProtocol
  imports Prelude
begin

text \<open>
  What the session stores of the stateful mock share
  (\<open>apiome-mock/src/apiome_mock/session_store.py\<close>): resources and their size, session keys and
  caps, and the protocol, as the locale \<open>session_store\<close>, with the reads it promises after any
  script of writes. The in-process store (theory \<open>SessionStore\<close>) and the Postgres store (theory
  \<open>PgSessionStore\<close>) interpret it. An operation takes the reading of the clock and the store and
  returns its result, \<open>Inl\<close> being the \<open>SessionCapacityError\<close>, with the store it leaves. Clock
  readings are rationals. A resource is a JSON object; its size is the length of the compact
  ASCII dump, a float counting as its literal.
\<close>

section \<open>Resources\<close>

datatype json = JNull | JBool bool | JInt int | JFloat string | JString string
  | JArray "json list" | JObject "(string \<times> json) list"

type_synonym resource = "(string \<times> json) list"

fun decimal_length :: "nat \<Rightarrow> int" where
  "decimal_length n = (if n < 10 then 1 else 1 + decimal_length (n div 10))"

definition int_length :: "int \<Rightarrow> int" where
  "int_length i = (if i < 0 then 1 else 0) + decimal_length (nat \<bar>i\<bar>)"

definition escaped_length :: "char \<Rightarrow> int" where
  "escaped_length c = (let n = (of_char c :: nat) in
     if n = 34 \<or> n = 92 then 2
     else if n = 8 \<or> n = 9 \<or> n = 10 \<or> n = 12 \<or> n = 13 then 2
     else if n < 32 \<or> n > 126 then 6 else 1)"

definition text_length :: "string \<Rightarrow> int" where
  "text_length s = 2 + (\<Sum>c\<leftarrow>s. escaped_length c)"

definition commas :: "'a list \<Rightarrow> int" where
  "commas xs = (case xs of [] \<Rightarrow> 0 | _ # ys \<Rightarrow> int (length ys))"

fun json_length :: "json \<Rightarrow> int" where
  "json_length JNull = 4"
| "json_length (JBool b) = (if b then 4 else 5)"
| "json_length (JInt i) = int_length i"
| "json_length (JFloat s) = int (length s)"
| "json_length (JString s) = text_length s"
| "json_length (JArray xs) = 2 + commas xs + (\<Sum>x\<leftarrow>xs. json_length x)"
| "json_length (JObject kvs) = 2 + commas kvs + (\<Sum>(k, v)\<leftarrow>kvs. text_length k + 1 + json_length v)"

definition resource_byte_size :: "resource \<Rightarrow> int" where
  "resource_byte_size r = json_length (JObject r)"

declare decimal_length.simps [simp del]

lemma decimal_length_pos: "1 \<le> decimal_length n"
proof (induction n rule: decimal_length.induct)
  case (1 n)
  show ?case
  proof (cases "n < 10")
    case True
    then show ?thesis by (subst decimal_length.simps) simp
  next
    case False
    then show ?thesis using 1 by (subst decimal_length.simps) simp
  qed
qed

lemma text_length_pos: "2 \<le> text_length s"
proof -
  have "0 \<le> (\<Sum>c\<leftarrow>s. escaped_length c)"
    by (intro sum_list_nonneg) (auto simp: escaped_length_def Let_def)
  then show ?thesis by (simp add: text_length_def)
qed

lemma commas_nonneg: "0 \<le> commas xs"
  by (simp add: commas_def split: list.splits)

lemma json_length_nonneg: "0 \<le> json_length j"
proof (induction j)
  case (JInt i)
  then show ?case using decimal_length_pos[of "nat \<bar>i\<bar>"] by (simp add: int_length_def)
next
  case (JString s)
  then show ?case using text_length_pos[of s] by simp
next
  case (JArray xs)
  have "0 \<le> (\<Sum>x\<leftarrow>xs. json_length x)"
    using JArray by (intro sum_list_nonneg) auto
  then show ?case using commas_nonneg[of xs] by simp
next
  case (JObject kvs)
  have "0 \<le> (\<Sum>(k, v)\<leftarrow>kvs. text_length k + 1 + json_length v)"
  proof (rule sum_list_nonneg)
    fix x assume "x \<in> set (map (\<lambda>(k, v). text_length k + 1 + json_length v) kvs)"
    then obtain k v where kv: "(k, v) \<in> set kvs" "x = text_length k + 1 + json_length v" by auto
    have "0 \<le> json_length v" using JObject[OF kv(1), of v] by simp
    then show "0 \<le> x" using text_length_pos[of k] kv(2) by simp
  qed
  then show ?case using commas_nonneg[of kvs] by simp
qed auto

lemma resource_byte_size_nonneg: "0 \<le> resource_byte_size r"
  unfolding resource_byte_size_def by (rule json_length_nonneg)

section \<open>Keys and caps\<close>

record session_key =
  sk_tenant :: string
  sk_project :: string
  sk_version :: string
  sk_token :: string

record session_caps =
  ttl_seconds :: rat
  max_resources :: int
  max_bytes :: int
  max_sessions :: int

datatype capacity_error = SessionLimit int | ResourceLimit int | SizeLimit int

definition caps_ok :: "session_caps \<Rightarrow> bool" where
  "caps_ok caps \<longleftrightarrow> 0 \<le> max_resources caps \<and> 0 \<le> max_bytes caps \<and> 0 \<le> max_sessions caps"

section \<open>Integer identifiers\<close>

text \<open>\<open>int(text)\<close>: surrounding space, a sign, digits with single underscores between them.\<close>

fun py_digits :: "bool \<Rightarrow> int \<Rightarrow> string \<Rightarrow> int option" where
  "py_digits after_digit acc [] = (if after_digit then Some acc else None)"
| "py_digits after_digit acc (c # s) =
     (case digit_val c of
        Some d \<Rightarrow> py_digits True (10 * acc + d) s
      | None \<Rightarrow> (if c = CHR ''_'' \<and> after_digit then py_digits False acc s else None))"

definition py_int :: "string \<Rightarrow> int option" where
  "py_int text = (case strip text of
       [] \<Rightarrow> None
     | c # s \<Rightarrow>
         (if c = CHR ''-'' then map_option uminus (py_digits False 0 s)
          else if c = CHR ''+'' then py_digits False 0 s
          else py_digits False 0 (c # s)))"

lemma fold_max_ge:
  "(start :: int) \<le> fold (\<lambda>rid c. case py_int rid of None \<Rightarrow> c | Some i \<Rightarrow> max c (i + 1)) rids start
   \<and> (\<forall>rid \<in> set rids. \<forall>i. py_int rid = Some i \<longrightarrow>
        i < fold (\<lambda>rid c. case py_int rid of None \<Rightarrow> c | Some i \<Rightarrow> max c (i + 1)) rids start)"
proof (induction rids arbitrary: start)
  case (Cons r rids)
  let ?start = "case py_int r of None \<Rightarrow> start | Some i \<Rightarrow> max start (i + 1)"
  have "start \<le> ?start" "\<And>i. py_int r = Some i \<Longrightarrow> i < ?start" by (auto split: option.splits)
  then show ?case using Cons.IH[of ?start] by (auto intro: order.trans less_le_trans)
qed simp

section \<open>The protocol\<close>

text \<open>What the mock's handlers rely on: within the lifetime of a session a write is read back, and
  a write, whether it succeeds or fails, changes nothing else. \<open>stored\<close> is what the store makes of
  a resource it keeps. A store that \<open>slides\<close> starts a new lifetime with every call, the failed
  ones included; one that does not starts it with the writes that succeed.\<close>

locale session_store =
  fixes get :: "rat \<Rightarrow> 'k \<Rightarrow> string \<Rightarrow> string \<Rightarrow> 's \<Rightarrow> 'r option \<times> 's"
    and put :: "rat \<Rightarrow> 'k \<Rightarrow> string \<Rightarrow> string \<Rightarrow> 'r \<Rightarrow> 's \<Rightarrow> ('e + 'r) \<times> 's"
    and delete :: "rat \<Rightarrow> 'k \<Rightarrow> string \<Rightarrow> string \<Rightarrow> 's \<Rightarrow> bool \<times> 's"
    and ttl :: rat and stored :: "'r \<Rightarrow> 'r" and slides :: bool
  assumes get_put: "put now k path rid r st = (Inr x, st') \<Longrightarrow> now \<le> t \<Longrightarrow> t < now + ttl \<Longrightarrow>
      fst (get t k path' rid' st') =
        (if path' = path \<and> rid' = rid then Some (stored r) else fst (get now k path' rid' st))"
    and get_put_error: "put now k path rid r st = (Inl e, st') \<Longrightarrow> now \<le> t \<Longrightarrow> t < now + ttl \<Longrightarrow>
      fst (get t k path' rid' st') = fst (get (if slides then now else t) k path' rid' st)"
    and get_delete: "delete now k path rid st = (True, st') \<Longrightarrow> now \<le> t \<Longrightarrow> t < now + ttl \<Longrightarrow>
      fst (get t k path' rid' st') =
        (if path' = path \<and> rid' = rid then None else fst (get now k path' rid' st))"
    and get_delete_missing: "delete now k path rid st = (False, st') \<Longrightarrow> now \<le> t \<Longrightarrow> t < now + ttl \<Longrightarrow>
      fst (get t k path' rid' st') = fst (get (if slides then now else t) k path' rid' st)"
    and delete_found: "0 < ttl \<Longrightarrow> fst (delete now k path rid st) \<longleftrightarrow> fst (get now k path rid st) \<noteq> None"

text \<open>A script of writes on one session, with whether each was accepted or found its resource; a
  read at its end sees the last one that was.\<close>

datatype 'r store_write = Put string string 'r | Delete string string

definition accepted :: "'e + 'r \<Rightarrow> bool" where
  "accepted res = (case res of Inl _ \<Rightarrow> False | Inr _ \<Rightarrow> True)"

fun run_writes ::
  "(rat \<Rightarrow> 'k \<Rightarrow> string \<Rightarrow> string \<Rightarrow> 'r \<Rightarrow> 's \<Rightarrow> ('e + 'r) \<times> 's)
     \<Rightarrow> (rat \<Rightarrow> 'k \<Rightarrow> string \<Rightarrow> string \<Rightarrow> 's \<Rightarrow> bool \<times> 's)
     \<Rightarrow> 'k \<Rightarrow> (rat \<times> 'r store_write) list \<Rightarrow> 's \<Rightarrow> bool list \<times> 's" where
  "run_writes put delete k [] st = ([], st)"
| "run_writes put delete k ((now, Put path rid r) # ws) st =
     (case put now k path rid r st of (res, st) \<Rightarrow>
        (case run_writes put delete k ws st of (oks, st) \<Rightarrow> (accepted res # oks, st)))"
| "run_writes put delete k ((now, Delete path rid) # ws) st =
     (case delete now k path rid st of (b, st) \<Rightarrow>
        (case run_writes put delete k ws st of (oks, st) \<Rightarrow> (b # oks, st)))"

fun apply_write :: "'r store_write \<Rightarrow> (string \<times> string \<Rightarrow> 'r option) \<Rightarrow> string \<times> string \<Rightarrow> 'r option" where
  "apply_write (Put path rid r) m = m((path, rid) \<mapsto> r)"
| "apply_write (Delete path rid) m = m((path, rid) := None)"

fun apply_writes :: "(rat \<times> 'r store_write) list \<Rightarrow> bool list \<Rightarrow> (string \<times> string \<Rightarrow> 'r option) \<Rightarrow> string \<times> string \<Rightarrow> 'r option"
where
  "apply_writes ((_, w) # ws) (ok # oks) m = apply_writes ws oks (if ok then apply_write w m else m)"
| "apply_writes _ _ m = m"

text \<open>Times do not go back and no gap reaches the lifetime.\<close>

fun paced :: "rat \<Rightarrow> rat \<Rightarrow> rat list \<Rightarrow> bool" where
  "paced ttl now [] = True"
| "paced ttl now (t # ts) \<longleftrightarrow> now \<le> t \<and> t < now + ttl \<and> paced ttl t ts"

text \<open>Times do not go back and the session lives at each of them, its lifetime ending at the deadline.\<close>

fun lasting :: "bool \<Rightarrow> rat \<Rightarrow> rat \<Rightarrow> rat \<Rightarrow> (rat \<times> 'r store_write) list \<Rightarrow> bool list \<Rightarrow> rat \<Rightarrow> bool" where
  "lasting slides ttl now deadline ((u, _) # ws) (ok # oks) t \<longleftrightarrow> now \<le> u \<and> u < deadline
     \<and> lasting slides ttl u (if ok \<or> slides then u + ttl else deadline) ws oks t"
| "lasting slides ttl now deadline _ _ t \<longleftrightarrow> now \<le> t \<and> t < deadline"

lemma run_writes_length: "run_writes put delete k ws st = (oks, st') \<Longrightarrow> length oks = length ws"
  by (induction put delete k ws st arbitrary: oks st' rule: run_writes.induct) (auto split: prod.splits)

lemma paced_lasting:
  "length oks = length ws \<Longrightarrow> paced ttl now (map fst ws @ [t]) \<Longrightarrow> lasting True ttl now (now + ttl) ws oks t"
proof (induction ws arbitrary: oks now)
  case (Cons w ws)
  then show ?case by (cases oks; cases w) auto
qed simp

lemma lasting_paced:
  assumes "length oks = length ws" and "lasting slides ttl now deadline ws oks t" and "deadline \<le> now + ttl"
  shows "paced ttl now (map fst ws @ [t])"
  using assms
proof (induction ws arbitrary: oks now deadline)
  case (Cons w ws)
  obtain ok oks' where oks: "oks = ok # oks'" using Cons.prems(1) by (cases oks) auto
  obtain u act where w: "w = (u, act)" by (cases w)
  have "paced ttl u (map fst ws @ [t])"
    using Cons.prems by (intro Cons.IH[of oks' u "if ok \<or> slides then u + ttl else deadline"]) (auto simp: oks w)
  then show ?case using Cons.prems(2,3) by (simp add: oks w)
qed auto

context session_store
begin

lemma write_step:
  assumes "run_writes put delete k [(u, act)] st = ([ok], st')"
    and "now \<le> u" and "u < d" and "d \<le> now + ttl"
    and "\<And>v path rid. now \<le> v \<Longrightarrow> v < d \<Longrightarrow> fst (get v k path rid st) = map_option stored (m (path, rid))"
    and "u \<le> v" and "v < (if ok \<or> slides then u + ttl else d)"
  shows "fst (get v k path rid st') = map_option stored ((if ok then apply_write act m else m) (path, rid))"
proof -
  have v: "v < u + ttl" using assms(2,4,7) by (auto split: if_splits)
  have here: "fst (get u k path rid st) = map_option stored (m (path, rid))" for path rid
    using assms(2,3,5) by simp
  have later: "fst (get (if slides then u else v) k path rid st) = map_option stored (m (path, rid))" if "\<not> ok"
    using assms(2,3,5,6,7) that by (auto split: if_splits)
  show ?thesis
  proof (cases act)
    case (Put p i r)
    obtain res where put: "put u k p i r st = (res, st')" "ok \<longleftrightarrow> accepted res"
      using assms(1) by (auto simp: Put split: prod.splits)
    show ?thesis
    proof (cases res)
      case (Inl e)
      then show ?thesis
        using get_put_error[of u k p i r st e st' v path rid] put later assms(6) v by (simp add: accepted_def)
    next
      case (Inr x)
      then show ?thesis
        using get_put[of u k p i r st x st' v path rid] put here assms(6) v by (simp add: accepted_def Put)
    qed
  next
    case (Delete p i)
    have del: "delete u k p i st = (ok, st')" using assms(1) by (auto simp: Delete split: prod.splits)
    show ?thesis
      using get_delete[of u k p i st st' v path rid] get_delete_missing[of u k p i st st' v path rid]
        del later here assms(6) v by (cases ok) (auto simp: Delete)
  qed
qed

lemma run_writes_Cons:
  assumes "run_writes put delete k (w # ws) st = (oks, st')"
  obtains ok oks' st1 where "oks = ok # oks'" "run_writes put delete k [w] st = ([ok], st1)"
    "run_writes put delete k ws st1 = (oks', st')"
proof -
  obtain u act where w: "w = (u, act)" by (cases w)
  show ?thesis using assms that by (cases act) (auto simp: w split: prod.splits)
qed

lemma reads_after_writes:
  assumes "run_writes put delete k ws st = (oks, st')" and "lasting slides ttl now d ws oks t" and "d \<le> now + ttl"
    and "\<And>v path rid. now \<le> v \<Longrightarrow> v < d \<Longrightarrow> fst (get v k path rid st) = map_option stored (m (path, rid))"
  shows "fst (get t k path rid st') = map_option stored (apply_writes ws oks m (path, rid))"
  using assms
proof (induction ws arbitrary: st oks now d m)
  case Nil
  then show ?case by auto
next
  case (Cons w ws)
  obtain u act where w: "w = (u, act)" by (cases w)
  from Cons.prems(1) obtain ok oks' st1 where run: "oks = ok # oks'"
    "run_writes put delete k [w] st = ([ok], st1)" "run_writes put delete k ws st1 = (oks', st')"
    by (rule run_writes_Cons)
  let ?d = "if ok \<or> slides then u + ttl else d" and ?m = "if ok then apply_write act m else m"
  have u: "now \<le> u" "u < d" and rest: "lasting slides ttl u ?d ws oks' t"
    using Cons.prems(2) by (auto simp: w run(1))
  have "fst (get v k p i st1) = map_option stored (?m (p, i))" if "u \<le> v" "v < ?d" for v p i
    using write_step[OF run(2)[unfolded w] u Cons.prems(3,4) that] .
  from Cons.IH[OF run(3) rest _ this] show ?case using Cons.prems(3) u by (simp add: w run(1))
qed

end

end
