(* ===== verification/SessionStore.thy ===== *)
theory SessionStore
  imports SessionProtocol
begin

text \<open>
  The in-process session store (\<open>apiome-mock/src/apiome_mock/memory_session_store.py\<close>): a
  dictionary of sessions, each with its resources by collection and identifier, its counters and
  its deadline. The lock makes every operation atomic. Shown: the counters equal the content
  and stay within the caps, the protocol of \<open>SessionProtocol\<close> (interpretation \<open>mem\<close>, a store that
  slides), isolation of sessions, atomic seeding and growing identifiers.
\<close>

section \<open>The state\<close>

type_synonym bucket = "(string, resource) dict"

record session_data =
  sd_collections :: "(string, bucket) dict"
  sd_next_ids :: "(string, int) dict"
  sd_total_bytes :: int
  sd_resource_count :: int
  sd_expires_at :: rat
  sd_last_activity :: rat

type_synonym sessions = "(session_key, session_data) dict"

definition empty_session :: session_data where
  "empty_session = \<lparr>sd_collections = [], sd_next_ids = [], sd_total_bytes = 0,
     sd_resource_count = 0, sd_expires_at = 0, sd_last_activity = 0\<rparr>"

definition purge_expired :: "rat \<Rightarrow> sessions \<Rightarrow> sessions" where
  "purge_expired now st = filter (\<lambda>(_, s). \<not> sd_expires_at s \<le> now) st"

definition touch :: "session_caps \<Rightarrow> rat \<Rightarrow> session_data \<Rightarrow> session_data" where
  "touch caps now s = s\<lparr>sd_last_activity := now, sd_expires_at := now + ttl_seconds caps\<rparr>"

definition get_live ::
  "session_caps \<Rightarrow> session_key \<Rightarrow> rat \<Rightarrow> sessions \<Rightarrow> session_data option \<times> sessions" where
  "get_live caps key now st =
     (let st = purge_expired now st
      in case map_of st key of
           None \<Rightarrow> (None, st)
         | Some s \<Rightarrow>
             (if sd_expires_at s \<le> now then (None, AList.delete key st)
              else (Some (touch caps now s), AList.update key (touch caps now s) st)))"

definition ensure_session ::
  "session_caps \<Rightarrow> session_key \<Rightarrow> rat \<Rightarrow> sessions \<Rightarrow> (capacity_error + session_data) \<times> sessions" where
  "ensure_session caps key now st =
     (case get_live caps key now st of
        (Some s, st) \<Rightarrow> (Inr s, st)
      | (None, st) \<Rightarrow>
          (if int (length st) \<ge> max_sessions caps then (Inl (SessionLimit (max_sessions caps)), st)
           else (Inr (touch caps now empty_session), AList.update key (touch caps now empty_session) st)))"

section \<open>The operations\<close>

definition list_resources ::
  "session_caps \<Rightarrow> rat \<Rightarrow> session_key \<Rightarrow> string \<Rightarrow> sessions \<Rightarrow> resource list \<times> sessions" where
  "list_resources caps now key path st =
     (case get_live caps key now st of
        (None, st) \<Rightarrow> ([], st)
      | (Some s, st) \<Rightarrow> (map snd (dict_default (sd_collections s) path []), st))"

definition get_resource ::
  "session_caps \<Rightarrow> rat \<Rightarrow> session_key \<Rightarrow> string \<Rightarrow> string \<Rightarrow> sessions \<Rightarrow> resource option \<times> sessions" where
  "get_resource caps now key path rid st =
     (case get_live caps key now st of
        (None, st) \<Rightarrow> (None, st)
      | (Some s, st) \<Rightarrow> (map_of (dict_default (sd_collections s) path []) rid, st))"

definition put_resource ::
  "session_caps \<Rightarrow> rat \<Rightarrow> session_key \<Rightarrow> string \<Rightarrow> string \<Rightarrow> resource \<Rightarrow> sessions
     \<Rightarrow> (capacity_error + resource) \<times> sessions" where
  "put_resource caps now key path rid payload st =
     (let new_size = resource_byte_size payload
      in case ensure_session caps key now st of
           (Inl e, st) \<Rightarrow> (Inl e, st)
         | (Inr s, st) \<Rightarrow>
             (let bucket = dict_default (sd_collections s) path [];
                  s = s\<lparr>sd_collections := AList.update path bucket (sd_collections s)\<rparr>;
                  existing = map_of bucket rid;
                  old_size = (case existing of None \<Rightarrow> 0 | Some r \<Rightarrow> resource_byte_size r);
                  projected_count = sd_resource_count s + (if existing = None then 1 else 0);
                  projected_bytes = sd_total_bytes s - old_size + new_size
              in if projected_count > max_resources caps
                 then (Inl (ResourceLimit (max_resources caps)), AList.update key s st)
                 else if projected_bytes > max_bytes caps
                 then (Inl (SizeLimit (max_bytes caps)), AList.update key s st)
                 else (Inr payload,
                       AList.update key
                         (touch caps now
                           (s\<lparr>sd_collections := AList.update path (AList.update rid payload bucket)
                                (sd_collections s),
                              sd_resource_count := projected_count,
                              sd_total_bytes := projected_bytes\<rparr>)) st)))"

definition delete_resource ::
  "session_caps \<Rightarrow> rat \<Rightarrow> session_key \<Rightarrow> string \<Rightarrow> string \<Rightarrow> sessions \<Rightarrow> bool \<times> sessions" where
  "delete_resource caps now key path rid st =
     (case get_live caps key now st of
        (None, st) \<Rightarrow> (False, st)
      | (Some s, st) \<Rightarrow>
          (case map_of (sd_collections s) path of
             None \<Rightarrow> (False, st)
           | Some bucket \<Rightarrow>
               (case map_of bucket rid of
                  None \<Rightarrow> (False, st)
                | Some existing \<Rightarrow>
                    (let bucket = AList.delete rid bucket
                     in (True,
                         AList.update key
                           (touch caps now
                             (s\<lparr>sd_resource_count := max 0 (sd_resource_count s - 1),
                                sd_total_bytes := max 0 (sd_total_bytes s - resource_byte_size existing),
                                sd_collections := (if bucket = [] then AList.delete path (sd_collections s)
                                   else AList.update path bucket (sd_collections s))\<rparr>)) st)))))"

fun build_bucket :: "(string \<times> resource) list \<Rightarrow> bucket \<Rightarrow> bucket" where
  "build_bucket [] bucket = bucket"
| "build_bucket ((rid, r) # items) bucket = build_bucket items (AList.update rid r bucket)"

fun build_collections ::
  "(string \<times> (string \<times> resource) list) list \<Rightarrow> (string, bucket) dict \<times> int \<times> int
     \<Rightarrow> (string, bucket) dict \<times> int \<times> int" where
  "build_collections [] (built, n, bytes) = (built, n, bytes)"
| "build_collections ((path, items) # rest) (built, n, bytes) =
     (let bucket = build_bucket items []
      in if bucket = [] then build_collections rest (built, n, bytes)
         else build_collections rest
           (AList.update path bucket built, n + int (length bucket),
            bytes + (\<Sum>r\<leftarrow>map snd bucket. resource_byte_size r)))"

text \<open>The seed is a mapping: its paths are distinct.\<close>

definition replace_session ::
  "session_caps \<Rightarrow> rat \<Rightarrow> session_key \<Rightarrow> (string \<times> (string \<times> resource) list) list \<Rightarrow> sessions
     \<Rightarrow> (capacity_error + int \<times> int) \<times> sessions" where
  "replace_session caps now key seed st =
     (case build_collections seed ([], 0, 0) of (built, n, bytes) \<Rightarrow>
        (if n > max_resources caps then (Inl (ResourceLimit (max_resources caps)), st)
         else if bytes > max_bytes caps then (Inl (SizeLimit (max_bytes caps)), st)
         else
           (let st = purge_expired now st
            in if built = [] then (Inr (0, 0), AList.delete key st)
               else if map_of st key = None \<and> int (length st) \<ge> max_sessions caps
               then (Inl (SessionLimit (max_sessions caps)), st)
               else (Inr (n, bytes),
                     AList.update key
                       (touch caps now (empty_session\<lparr>sd_collections := built,
                          sd_total_bytes := bytes, sd_resource_count := n\<rparr>)) st))))"

definition next_integer_id ::
  "session_caps \<Rightarrow> rat \<Rightarrow> session_key \<Rightarrow> string \<Rightarrow> sessions \<Rightarrow> (capacity_error + int) \<times> sessions" where
  "next_integer_id caps now key path st =
     (case ensure_session caps key now st of
        (Inl e, st) \<Rightarrow> (Inl e, st)
      | (Inr s, st) \<Rightarrow>
          (let start = dict_default (sd_next_ids s) path 0 + 1;
               current = fold (\<lambda>rid current. case py_int rid of
                              None \<Rightarrow> current | Some i \<Rightarrow> max current (i + 1))
                           (dict_keys (dict_default (sd_collections s) path [])) start
           in (Inr current,
               AList.update key
                 (touch caps now (s\<lparr>sd_next_ids := AList.update path current (sd_next_ids s)\<rparr>)) st)))"


section \<open>Sums over dictionaries\<close>

definition dsum :: "('v \<Rightarrow> int) \<Rightarrow> ('k, 'v) dict \<Rightarrow> int" where
  "dsum f d = (\<Sum>(_, v)\<leftarrow>d. f v)"

lemma dsum_simps [simp]: "dsum f [] = 0" "dsum f ((k, v) # d) = f v + dsum f d"
  by (simp_all add: dsum_def)

lemma dsum_update:
  "dsum f (AList.update k v d) = dsum f d - (case map_of d k of None \<Rightarrow> 0 | Some w \<Rightarrow> f w) + f v"
  by (induction d) auto

lemma delete_absent: "k \<notin> set (dict_keys d) \<Longrightarrow> AList.delete k d = d"
  by (induction d) auto

lemma dsum_delete:
  "wf_dict d \<Longrightarrow> dsum f (AList.delete k d) = dsum f d - (case map_of d k of None \<Rightarrow> 0 | Some w \<Rightarrow> f w)"
proof (induction d)
  case (Cons e d)
  obtain j v where e: "e = (j, v)" by (cases e)
  have wf: "wf_dict d" "j \<notin> set (dict_keys d)" using Cons.prems by (auto simp: e wf_dict_def)
  then show ?case
    using Cons.IH[OF wf(1)] delete_absent[OF wf(2)] by (cases "j = k") (simp_all add: e)
qed simp

lemma dsum_nonneg: "(\<And>v. 0 \<le> f v) \<Longrightarrow> 0 \<le> dsum f d"
  by (induction d) (auto intro: add_nonneg_nonneg)

lemma dsum_one: "dsum (\<lambda>_. 1) d = int (length d)"
  by (induction d) auto

lemma dsum_map_snd: "(\<Sum>r\<leftarrow>map snd d. f r) = dsum f d"
  by (induction d) auto

abbreviation total :: "(resource \<Rightarrow> int) \<Rightarrow> (string, bucket) dict \<Rightarrow> int" where
  "total f cols \<equiv> dsum (dsum f) cols"

lemma total_default: "(case map_of cols path of None \<Rightarrow> 0 | Some w \<Rightarrow> dsum f w) = dsum f (dict_default cols path [])"
  by (simp add: dict_default_def split: option.splits)

lemma total_put:
  fixes cols path
  defines "b \<equiv> dict_default cols path []"
  shows "total f (AList.update path (AList.update rid r b) (AList.update path b cols)) =
    total f cols - (case map_of b rid of None \<Rightarrow> 0 | Some w \<Rightarrow> f w) + f r"
    and "total f (AList.update path b cols) = total f cols"
  unfolding dsum_update total_default by (simp_all add: b_def dsum_update dict_default_update)

section \<open>Accounting\<close>

definition session_ok :: "session_caps \<Rightarrow> session_data \<Rightarrow> bool" where
  "session_ok caps s \<longleftrightarrow> wf_dict (sd_collections s)
     \<and> (\<forall>(_, b) \<in> set (sd_collections s). wf_dict b)
     \<and> sd_resource_count s = total (\<lambda>_. 1) (sd_collections s)
     \<and> sd_total_bytes s = total resource_byte_size (sd_collections s)
     \<and> sd_resource_count s \<le> max_resources caps \<and> sd_total_bytes s \<le> max_bytes caps"

definition store_ok :: "session_caps \<Rightarrow> sessions \<Rightarrow> bool" where
  "store_ok caps st \<longleftrightarrow> wf_dict st \<and> int (length st) \<le> max_sessions caps
     \<and> (\<forall>(_, s) \<in> set st. session_ok caps s)"

lemma dict_default_wf:
  "\<forall>(_, b) \<in> set cols. wf_dict b \<Longrightarrow> wf_dict (dict_default cols path [])"
  by (auto simp: dict_default_def split: option.splits dest: map_of_SomeD)

lemma set_update_subset: "set (AList.update k v d) \<subseteq> insert (k, v) (set d)"
  by (induction d) auto

lemma set_delete_subset: "set (AList.delete k d) \<subseteq> set d"
  by (induction d) auto

lemma length_update: "length (AList.update k v d) = (if k \<in> set (dict_keys d) then length d else Suc (length d))"
  by (induction d) auto

lemma length_delete: "length (AList.delete k d) \<le> length d"
  by (induction d) auto

lemma touch_simps [simp]:
  "sd_collections (touch caps now s) = sd_collections s"
  "sd_next_ids (touch caps now s) = sd_next_ids s"
  "sd_expires_at (touch caps now s) = now + ttl_seconds caps"
  "session_ok caps (touch caps now s) = session_ok caps s"
  by (simp_all add: touch_def session_ok_def)

lemma empty_session_ok: "caps_ok caps \<Longrightarrow> session_ok caps empty_session"
  by (simp add: session_ok_def empty_session_def caps_ok_def)

lemma store_ok_purge: "store_ok caps st \<Longrightarrow> store_ok caps (purge_expired now st)"
proof -
  assume a: "store_ok caps st"
  have "length (purge_expired now st) \<le> length st"
    unfolding purge_expired_def by (rule length_filter_le)
  then have "int (length (purge_expired now st)) \<le> max_sessions caps"
    using a by (simp add: store_ok_def)
  then show ?thesis
    using a by (auto simp: store_ok_def purge_expired_def wf_dict_def distinct_map_filter)
qed

lemma store_ok_member: "store_ok caps st \<Longrightarrow> map_of st key = Some s \<Longrightarrow> session_ok caps s"
  by (auto simp: store_ok_def dest: map_of_SomeD)

lemma store_ok_update:
  assumes "store_ok caps st" and "session_ok caps s"
    and "key \<in> set (dict_keys st) \<or> int (length st) < max_sessions caps"
  shows "store_ok caps (AList.update key s st)"
  using assms set_update_subset[of key s st]
  by (auto simp: store_ok_def length_update intro: wf_dict_update)

lemma store_ok_delete: "store_ok caps st \<Longrightarrow> store_ok caps (AList.delete key st)"
  using set_delete_subset[of key st] length_delete[of key st]
  by (auto simp: store_ok_def intro: wf_dict_delete)

lemma map_of_keys: "map_of d k = Some v \<Longrightarrow> k \<in> set (dict_keys d)"
  by (metis domI dom_map_of_conv_image_fst list.set_map)

lemma get_live_ok:
  assumes "store_ok caps st" and "get_live caps key now st = (r, st')"
  shows "store_ok caps st' \<and> (\<forall>s. r = Some s \<longrightarrow> session_ok caps s \<and> map_of st' key = Some s)"
proof -
  have p: "store_ok caps (purge_expired now st)" by (rule store_ok_purge[OF assms(1)])
  show ?thesis
  proof (cases "map_of (purge_expired now st) key")
    case None
    then show ?thesis using assms(2) p by (auto simp: get_live_def)
  next
    case (Some s)
    show ?thesis
    proof (cases "sd_expires_at s \<le> now")
      case True
      then show ?thesis using assms(2) p Some by (auto simp: get_live_def store_ok_delete)
    next
      case False
      have "store_ok caps (AList.update key (touch caps now s) (purge_expired now st))"
        by (rule store_ok_update[OF p]) (use store_ok_member[OF p Some] map_of_keys[OF Some] in auto)
      then show ?thesis
        using assms(2) Some False store_ok_member[OF p Some] by (auto simp: get_live_def)
    qed
  qed
qed

lemma ensure_ok:
  assumes "caps_ok caps" and "store_ok caps st" and "ensure_session caps key now st = (r, st')"
  shows "store_ok caps st' \<and> (\<forall>s. r = Inr s \<longrightarrow> session_ok caps s \<and> map_of st' key = Some s)"
proof -
  obtain l st1 where l: "get_live caps key now st = (l, st1)" by (cases "get_live caps key now st")
  note live = get_live_ok[OF assms(2) l]
  show ?thesis
  proof (cases l)
    case None
    have "store_ok caps (AList.update key (touch caps now empty_session) st1)"
      if "int (length st1) < max_sessions caps"
      by (rule store_ok_update) (use live that empty_session_ok[OF assms(1)] in auto)
    then show ?thesis
      using assms(3) live None empty_session_ok[OF assms(1)]
      by (auto simp: ensure_session_def l split: if_splits)
  next
    case (Some s)
    then show ?thesis using assms(3) live by (auto simp: ensure_session_def l)
  qed
qed

lemma put_session_ok:
  fixes cols path
  defines "b \<equiv> dict_default cols path []"
  assumes "session_ok caps s" and "sd_collections s = cols"
    and "n = sd_resource_count s + (if map_of b rid = None then 1 else 0)" and "n \<le> max_resources caps"
    and "m = sd_total_bytes s - (case map_of b rid of None \<Rightarrow> 0 | Some r \<Rightarrow> resource_byte_size r)
               + resource_byte_size payload" and "m \<le> max_bytes caps"
  shows "session_ok caps (s\<lparr>sd_collections := AList.update path (AList.update rid payload b)
            (AList.update path b cols), sd_resource_count := n, sd_total_bytes := m\<rparr>)"
proof -
  have ok: "wf_dict cols" "\<forall>(_, b) \<in> set cols. wf_dict b"
    "sd_resource_count s = total (\<lambda>_. 1) cols" "sd_total_bytes s = total resource_byte_size cols"
    using assms(2,3) by (auto simp: session_ok_def)
  have "wf_dict b" unfolding b_def by (rule dict_default_wf[OF ok(2)])
  then have buckets: "\<forall>(_, b) \<in> set (AList.update path (AList.update rid payload b) (AList.update path b cols)). wf_dict b"
    using ok(2) set_update_subset[of path "AList.update rid payload b" "AList.update path b cols"]
      set_update_subset[of path b cols] by (auto intro: wf_dict_update)
  have "(case map_of b rid of None \<Rightarrow> 0 | Some _ \<Rightarrow> 1) = (1 :: int) - (if map_of b rid = None then 1 else 0)"
    by (simp split: option.splits)
  then have "n = total (\<lambda>_. 1) (AList.update path (AList.update rid payload b) (AList.update path b cols))"
    unfolding b_def total_put(1) using assms(4) ok(3) unfolding b_def by simp
  moreover have "m = total resource_byte_size (AList.update path (AList.update rid payload b) (AList.update path b cols))"
    unfolding b_def total_put(1) using assms(6) ok(4) unfolding b_def by simp
  moreover have "wf_dict (AList.update path (AList.update rid payload b) (AList.update path b cols))"
    by (intro wf_dict_update ok(1))
  ultimately show ?thesis
    using buckets assms(5,7) by (simp add: session_ok_def)
qed

lemma bucket_session_ok:
  assumes "session_ok caps s"
  shows "session_ok caps (s\<lparr>sd_collections := AList.update path (dict_default (sd_collections s) path [])
            (sd_collections s)\<rparr>)"
proof -
  have ok: "wf_dict (sd_collections s)" "\<forall>(_, b) \<in> set (sd_collections s). wf_dict b"
    using assms by (auto simp: session_ok_def)
  have "\<forall>(_, b) \<in> set (AList.update path (dict_default (sd_collections s) path []) (sd_collections s)). wf_dict b"
    using ok(2) dict_default_wf[OF ok(2)] set_update_subset[of path _ "sd_collections s"] by blast
  then show ?thesis
    using assms wf_dict_update[OF ok(1)] by (simp add: session_ok_def total_put(2))
qed

lemma put_store_ok:
  assumes "caps_ok caps" and "store_ok caps st"
  shows "store_ok caps (snd (put_resource caps now key path rid payload st))"
proof -
  obtain r st1 where e: "ensure_session caps key now st = (r, st1)" by (cases "ensure_session caps key now st")
  note ens = ensure_ok[OF assms e]
  show ?thesis
  proof (cases r)
    case (Inl error)
    then show ?thesis using ens by (simp add: put_resource_def e)
  next
    case (Inr s)
    then have s: "session_ok caps s" "key \<in> set (dict_keys st1)"
      using ens map_of_keys by auto
    have keep: "store_ok caps (AList.update key s' st1)" if "session_ok caps s'" for s'
      by (rule store_ok_update) (use ens that s(2) in auto)
    let ?b = "dict_default (sd_collections s) path []"
    let ?s = "s\<lparr>sd_collections := AList.update path ?b (sd_collections s)\<rparr>"
    let ?n = "sd_resource_count s + (if map_of ?b rid = None then 1 else 0)"
    let ?m = "sd_total_bytes s - (case map_of ?b rid of None \<Rightarrow> 0 | Some r \<Rightarrow> resource_byte_size r)
        + resource_byte_size payload"
    let ?s' = "s\<lparr>sd_collections := AList.update path (AList.update rid payload ?b)
            (AList.update path ?b (sd_collections s)), sd_resource_count := ?n, sd_total_bytes := ?m\<rparr>"
    have full: "session_ok caps ?s'" if "?n \<le> max_resources caps" "?m \<le> max_bytes caps"
      by (rule put_session_ok[OF s(1) refl refl that(1) refl that(2)])
    have result: "snd (put_resource caps now key path rid payload st) =
       (if ?n > max_resources caps \<or> ?m > max_bytes caps then AList.update key ?s st1
        else AList.update key (touch caps now ?s') st1)"
      by (simp add: put_resource_def Let_def e Inr)
    show ?thesis
      unfolding result using keep bucket_session_ok[OF s(1), of path] full by auto
  qed
qed

lemma delete_session_ok:
  fixes cols
  assumes "session_ok caps s" and "sd_collections s = cols"
    and "map_of cols path = Some b" and "map_of b rid = Some r"
  shows "session_ok caps (s\<lparr>sd_resource_count := max 0 (sd_resource_count s - 1),
            sd_total_bytes := max 0 (sd_total_bytes s - resource_byte_size r),
            sd_collections := (if AList.delete rid b = [] then AList.delete path cols
               else AList.update path (AList.delete rid b) cols)\<rparr>)"
proof -
  have ok: "wf_dict cols" "\<forall>(_, b) \<in> set cols. wf_dict b"
    "sd_resource_count s = total (\<lambda>_. 1) cols" "sd_total_bytes s = total resource_byte_size cols"
    using assms(1,2) by (auto simp: session_ok_def)
  let ?new = "if AList.delete rid b = [] then AList.delete path cols
     else AList.update path (AList.delete rid b) cols"
  have wf_b: "wf_dict b" using ok(2) map_of_SomeD[OF assms(3)] by auto
  have buckets: "\<forall>(_, b) \<in> set ?new. wf_dict b"
    using ok(2) set_delete_subset[of path cols] set_update_subset[of path "AList.delete rid b" cols]
      wf_dict_delete[OF wf_b, of rid] by auto
  have wf: "wf_dict ?new" using ok(1) by (auto intro: wf_dict_update wf_dict_delete)
  have sum: "total f ?new = total f cols - f r" for f
  proof (cases "AList.delete rid b = []")
    case True
    then have "dsum f b = f r" using dsum_delete[OF wf_b, of f rid] assms(4) by simp
    then show ?thesis using True dsum_delete[OF ok(1), of "dsum f" path] assms(3) by simp
  next
    case False
    then show ?thesis
      using dsum_update[of "dsum f" path "AList.delete rid b" cols] dsum_delete[OF wf_b, of f rid] assms(3,4)
      by simp
  qed
  have "0 \<le> total (\<lambda>_. 1) ?new" by (intro dsum_nonneg) simp
  then have count: "max 0 (sd_resource_count s - 1) = total (\<lambda>_. 1) ?new"
    unfolding sum ok(3) by simp
  have "0 \<le> total resource_byte_size ?new"
    by (intro dsum_nonneg resource_byte_size_nonneg)
  then have bytes: "max 0 (sd_total_bytes s - resource_byte_size r) = total resource_byte_size ?new"
    unfolding sum ok(4) by simp
  have "total (\<lambda>_. 1) ?new \<le> max_resources caps" "total resource_byte_size ?new \<le> max_bytes caps"
    using assms(1) ok(3,4) resource_byte_size_nonneg[of r] unfolding sum by (auto simp: session_ok_def)
  then show ?thesis
    unfolding count bytes using wf buckets by (simp add: session_ok_def)
qed

lemma delete_store_ok:
  assumes "store_ok caps st"
  shows "store_ok caps (snd (delete_resource caps now key path rid st))"
proof -
  obtain l st1 where l: "get_live caps key now st = (l, st1)" by (cases "get_live caps key now st")
  note live = get_live_ok[OF assms l]
  show ?thesis
  proof (cases l)
    case None
    then show ?thesis using live by (simp add: delete_resource_def l)
  next
    case (Some s)
    then have s: "session_ok caps s" "key \<in> set (dict_keys st1)" using live map_of_keys by auto
    have keep: "store_ok caps (AList.update key s' st1)" if "session_ok caps s'" for s'
      by (rule store_ok_update) (use live that s(2) in auto)
    show ?thesis
    proof (cases "\<exists>b r. map_of (sd_collections s) path = Some b \<and> map_of b rid = Some r")
      case True
      then obtain b r where b: "map_of (sd_collections s) path = Some b" "map_of b rid = Some r" by blast
      show ?thesis
        using keep delete_session_ok[OF s(1) refl b] by (simp add: delete_resource_def l Some b Let_def)
    next
      case False
      then show ?thesis
        using live by (auto simp: delete_resource_def l Some split: option.splits)
    qed
  qed
qed

lemma build_bucket_wf: "wf_dict b \<Longrightarrow> wf_dict (build_bucket items b)"
  by (induction items b rule: build_bucket.induct) (auto intro: wf_dict_update)

lemma build_collections_ok:
  assumes "wf_dict built" and "\<forall>(_, b) \<in> set built. wf_dict b"
    and "n = total (\<lambda>_. 1) built" and "bytes = total resource_byte_size built"
    and "distinct (map fst seed)" and "set (map fst seed) \<inter> set (dict_keys built) = {}"
    and "build_collections seed (built, n, bytes) = (built', n', bytes')"
  shows "wf_dict built' \<and> (\<forall>(_, b) \<in> set built'. wf_dict b)
    \<and> n' = total (\<lambda>_. 1) built' \<and> bytes' = total resource_byte_size built'"
  using assms
proof (induction seed arbitrary: built n bytes)
  case Nil
  from Nil.prems(7) have "built' = built" "n' = n" "bytes' = bytes" by simp_all
  then show ?case using Nil.prems(1-4) by simp
next
  case (Cons e seed)
  obtain path items where e: "e = (path, items)" by (cases e)
  let ?b = "build_bucket items []"
  show ?case
  proof (cases "?b = []")
    case True
    have "build_collections seed (built, n, bytes) = (built', n', bytes')"
      using Cons.prems(7) True by (simp add: e)
    then show ?thesis
      using Cons.prems by (intro Cons.IH[of built n bytes]) auto
  next
    case False
    have fresh: "map_of built path = None"
      using Cons.prems(6) by (auto simp: e map_of_eq_None_iff)
    show ?thesis
    proof (rule Cons.IH)
      show "wf_dict (AList.update path ?b built)" by (rule wf_dict_update[OF Cons.prems(1)])
      show "\<forall>(_, b) \<in> set (AList.update path ?b built). wf_dict b"
        using Cons.prems(2) set_update_subset[of path ?b built] build_bucket_wf[OF wf_dict_Nil, of items] by auto
      show "n + int (length ?b) = total (\<lambda>_. 1) (AList.update path ?b built)"
        unfolding dsum_update fresh dsum_one[symmetric] Cons.prems(3) by simp
      show "bytes + (\<Sum>r\<leftarrow>map snd ?b. resource_byte_size r) = total resource_byte_size (AList.update path ?b built)"
        unfolding dsum_update fresh dsum_map_snd Cons.prems(4) by simp
      show "distinct (map fst seed)" using Cons.prems(5) by simp
      show "set (map fst seed) \<inter> set (dict_keys (AList.update path ?b built)) = {}"
        using Cons.prems(5,6) by (auto simp: e update_keys)
      show "build_collections seed (AList.update path ?b built, n + int (length ?b),
          bytes + (\<Sum>r\<leftarrow>map snd ?b. resource_byte_size r)) = (built', n', bytes')"
        using Cons.prems(7) False by (simp add: e Let_def)
    qed
  qed
qed

lemma replace_store_ok:
  assumes "store_ok caps st" and "distinct (map fst seed)"
  shows "store_ok caps (snd (replace_session caps now key seed st))"
proof -
  obtain built n bytes where b: "build_collections seed ([], 0, 0) = (built, n, bytes)"
    by (metis prod_cases3)
  have built: "wf_dict built" "\<forall>(_, b) \<in> set built. wf_dict b"
    "n = total (\<lambda>_. 1) built" "bytes = total resource_byte_size built"
    using build_collections_ok[OF _ _ _ _ assms(2) _ b] by auto
  let ?st = "purge_expired now st"
  let ?s = "touch caps now (empty_session\<lparr>sd_collections := built, sd_total_bytes := bytes, sd_resource_count := n\<rparr>)"
  have p: "store_ok caps ?st" by (rule store_ok_purge[OF assms(1)])
  have s: "session_ok caps ?s" if "n \<le> max_resources caps" "bytes \<le> max_bytes caps"
    using that built by (simp add: session_ok_def touch_def)
  have upd: "store_ok caps (AList.update key ?s ?st)"
    if "n \<le> max_resources caps" "bytes \<le> max_bytes caps"
      "map_of ?st key \<noteq> None \<or> int (length ?st) < max_sessions caps"
    using that by (intro store_ok_update p s) (auto dest: map_of_keys)
  show ?thesis
    unfolding replace_session_def b prod.case Let_def
    using assms(1) p upd store_ok_delete[OF p] by (auto simp: not_le)
qed

lemma next_id_store_ok:
  assumes "caps_ok caps" and "store_ok caps st"
  shows "store_ok caps (snd (next_integer_id caps now key path st))"
proof -
  obtain r st1 where e: "ensure_session caps key now st = (r, st1)" by (cases "ensure_session caps key now st")
  note ens = ensure_ok[OF assms e]
  show ?thesis
  proof (cases r)
    case (Inl error)
    then show ?thesis using ens by (simp add: next_integer_id_def e)
  next
    case (Inr s)
    then have "session_ok caps (s\<lparr>sd_next_ids := ids\<rparr>)" for ids
      using ens by (simp add: session_ok_def)
    moreover have "key \<in> set (dict_keys st1)" using ens Inr map_of_keys by auto
    ultimately have "store_ok caps (AList.update key (touch caps now (s\<lparr>sd_next_ids := ids\<rparr>)) st1)" for ids
      using ens by (intro store_ok_update) simp_all
    then show ?thesis by (simp add: next_integer_id_def e Inr Let_def)
  qed
qed

lemma read_store_ok:
  assumes "store_ok caps st"
  shows "store_ok caps (snd (get_resource caps now key path rid st))"
    and "store_ok caps (snd (list_resources caps now key path st))"
proof -
  obtain l st1 where l: "get_live caps key now st = (l, st1)" by (cases "get_live caps key now st")
  then show "store_ok caps (snd (get_resource caps now key path rid st))"
    and "store_ok caps (snd (list_resources caps now key path st))"
    using get_live_ok[OF assms l] by (auto simp: get_resource_def list_resources_def split: option.splits)
qed

section \<open>Histories\<close>

inductive store_step :: "session_caps \<Rightarrow> sessions \<Rightarrow> sessions \<Rightarrow> bool" for caps where
  "store_step caps st (snd (list_resources caps now key path st))"
| "store_step caps st (snd (get_resource caps now key path rid st))"
| "store_step caps st (snd (put_resource caps now key path rid payload st))"
| "store_step caps st (snd (delete_resource caps now key path rid st))"
| "distinct (map fst seed) \<Longrightarrow> store_step caps st (snd (replace_session caps now key seed st))"
| "store_step caps st (snd (next_integer_id caps now key path st))"

lemma store_step_ok: "store_step caps st st' \<Longrightarrow> caps_ok caps \<Longrightarrow> store_ok caps st \<Longrightarrow> store_ok caps st'"
  by (induction rule: store_step.induct)
    (simp_all add: read_store_ok put_store_ok delete_store_ok replace_store_ok next_id_store_ok)

section \<open>The in-process store keeps the protocol\<close>

lemma map_of_filter_first: "map_of d k = Some v \<Longrightarrow> P v \<Longrightarrow> map_of (filter (\<lambda>(_, v). P v) d) k = Some v"
  by (induction d) (auto split: if_splits)

lemma map_of_filter_absent: "map_of d k = None \<Longrightarrow> map_of (filter P d) k = None"
  by (induction d) (auto split: if_splits)

lemma purge_some: "map_of st key = Some s \<Longrightarrow> t < sd_expires_at s \<Longrightarrow> map_of (purge_expired t st) key = Some s"
  unfolding purge_expired_def by (rule map_of_filter_first) auto

lemma purge_none: "map_of st key = None \<Longrightarrow> map_of (purge_expired t st) key = None"
  unfolding purge_expired_def by (rule map_of_filter_absent)

lemma get_live_some:
  "map_of st key = Some s \<Longrightarrow> t < sd_expires_at s \<Longrightarrow>
     get_live caps key t st = (Some (touch caps t s), AList.update key (touch caps t s) (purge_expired t st))"
  by (simp add: get_live_def purge_some)

lemma get_live_none: "map_of st key = None \<Longrightarrow> fst (get_live caps key t st) = None"
  by (simp add: get_live_def purge_none Let_def)

definition alive :: "session_caps \<Rightarrow> session_key \<Rightarrow> rat \<Rightarrow> session_data \<Rightarrow> sessions \<Rightarrow> bool" where
  "alive caps key now s st \<longleftrightarrow> map_of st key = Some s \<and> sd_expires_at s = now + ttl_seconds caps"

lemma get_live_result:
  assumes "get_live caps key now st = (r, st1)"
  shows "(r = None \<and> map_of st1 key = None) \<or> (\<exists>s. r = Some s \<and> alive caps key now s st1)"
proof (cases "map_of (purge_expired now st) key")
  case None
  then show ?thesis using assms by (auto simp: get_live_def)
next
  case (Some s)
  then show ?thesis
    using assms by (auto simp: get_live_def alive_def Let_def AList.update_conv' AList.delete_conv' split: if_splits)
qed

lemma ensure_result:
  assumes "ensure_session caps key now st = (r, st1)"
  shows "(fst (get_live caps key now st) = None \<and> r = Inl (SessionLimit (max_sessions caps)) \<and> map_of st1 key = None)
     \<or> (\<exists>s. r = Inr s \<and> alive caps key now s st1 \<and>
          (case fst (get_live caps key now st) of None \<Rightarrow> s = touch caps now empty_session | Some s' \<Rightarrow> s = s'))"
proof -
  obtain l st2 where l: "get_live caps key now st = (l, st2)" by (cases "get_live caps key now st")
  from get_live_result[OF l] show ?thesis
    using assms by (auto simp: ensure_session_def l alive_def AList.update_conv' split: if_splits)
qed

lemma get_alive:
  assumes "alive caps key now s st" and "t < now + ttl_seconds caps"
  shows "fst (get_resource caps t key path rid st) = map_of (dict_default (sd_collections s) path []) rid"
  using assms get_live_some[of st key s t caps] by (simp add: alive_def get_resource_def)

lemma get_absent: "map_of st key = None \<Longrightarrow> fst (get_resource caps t key path rid st) = None"
  using get_live_none[of st key caps t]
  by (cases "get_live caps key t st") (simp add: get_resource_def)

lemma get_now:
  "fst (get_resource caps now key path rid st) = (case fst (get_live caps key now st) of
     None \<Rightarrow> None | Some s \<Rightarrow> map_of (dict_default (sd_collections s) path []) rid)"
  by (cases "get_live caps key now st") (simp add: get_resource_def split: option.splits)

lemma get_now_ensured:
  assumes "ensure_session caps key now st = (Inr s, st1)"
  shows "fst (get_resource caps now key path rid st) = map_of (dict_default (sd_collections s) path []) rid"
  using ensure_result[OF assms] by (auto simp: get_now empty_session_def dict_default_def split: option.splits)

lemma put_result:
  assumes "put_resource caps now key path rid payload st = (r, st')"
  shows "(fst (get_live caps key now st) = None \<and> isl r \<and> map_of st' key = None) \<or>
    (\<exists>s st1 s'. ensure_session caps key now st = (Inr s, st1) \<and> alive caps key now s' st' \<and>
       sd_next_ids s' = sd_next_ids s \<and>
       sd_collections s' = AList.update path
         ((if isl r then id else AList.update rid payload) (dict_default (sd_collections s) path []))
         (if isl r then sd_collections s else AList.update path (dict_default (sd_collections s) path []) (sd_collections s)))"
proof -
  obtain e st1 where e: "ensure_session caps key now st = (e, st1)" by (cases "ensure_session caps key now st")
  show ?thesis
  proof (cases e)
    case (Inl x)
    then show ?thesis using ensure_result[OF e] assms by (auto simp: put_resource_def e)
  next
    case (Inr s)
    have "alive caps key now s st1" using ensure_result[OF e] Inr by auto
    then show ?thesis
      using assms e unfolding Inr
      by (auto simp: put_resource_def Let_def alive_def AList.update_conv' split: if_splits)
  qed
qed


lemma reads_after_put:
  assumes "put_resource caps now key path rid payload st = (r, st')" and "t < now + ttl_seconds caps"
  shows "fst (get_resource caps t key p i st') =
    (if p = path \<and> i = rid \<and> \<not> isl r then Some payload else fst (get_resource caps now key p i st))"
  using put_result[OF assms(1)]
proof
  assume "fst (get_live caps key now st) = None \<and> isl r \<and> map_of st' key = None"
  then show ?thesis by (simp add: get_now get_live_none)
next
  assume "\<exists>s st1 s'. ensure_session caps key now st = (Inr s, st1) \<and> alive caps key now s' st' \<and>
       sd_next_ids s' = sd_next_ids s \<and>
       sd_collections s' = AList.update path
         ((if isl r then id else AList.update rid payload) (dict_default (sd_collections s) path []))
         (if isl r then sd_collections s else AList.update path (dict_default (sd_collections s) path []) (sd_collections s))"
  then obtain s st1 s' where s: "ensure_session caps key now st = (Inr s, st1)" "alive caps key now s' st'"
    and cols: "sd_collections s' = AList.update path
         ((if isl r then id else AList.update rid payload) (dict_default (sd_collections s) path []))
         (if isl r then sd_collections s else AList.update path (dict_default (sd_collections s) path []) (sd_collections s))"
    by blast
  show ?thesis
    unfolding get_alive[OF s(2) assms(2)] get_now_ensured[OF s(1)] cols
    by (simp add: dict_default_update AList.update_conv')
qed

lemma delete_result:
  assumes "delete_resource caps now key path rid st = (b, st')"
  shows "(fst (get_live caps key now st) = None \<and> \<not> b \<and> map_of st' key = None) \<or>
    (\<exists>s s'. fst (get_live caps key now st) = Some s \<and> alive caps key now s' st' \<and>
       sd_next_ids s' = sd_next_ids s \<and>
       (b \<longleftrightarrow> map_of (dict_default (sd_collections s) path []) rid \<noteq> None) \<and>
       (\<forall>p i. map_of (dict_default (sd_collections s') p []) i =
          (if p = path \<and> i = rid then None else map_of (dict_default (sd_collections s) p []) i)))"
proof -
  obtain l st1 where l: "get_live caps key now st = (l, st1)" by (cases "get_live caps key now st")
  show ?thesis
  proof (cases l)
    case None
    then show ?thesis using get_live_result[OF l] assms by (simp add: delete_resource_def l)
  next
    case (Some s)
    then have s: "alive caps key now s st1" using get_live_result[OF l] by simp
    show ?thesis
    proof (cases "\<exists>bkt r. map_of (sd_collections s) path = Some bkt \<and> map_of bkt rid = Some r")
      case True
      then obtain bkt r where b: "map_of (sd_collections s) path = Some bkt" "map_of bkt rid = Some r" by blast
      define cols where "cols = (if AList.delete rid bkt = [] then AList.delete path (sd_collections s)
        else AList.update path (AList.delete rid bkt) (sd_collections s))"
      define s' where "s' = touch caps now (s\<lparr>sd_resource_count := max 0 (sd_resource_count s - 1),
         sd_total_bytes := max 0 (sd_total_bytes s - resource_byte_size r), sd_collections := cols\<rparr>)"
      have res: "b" "st' = AList.update key s' st1"
        using assms by (auto simp: delete_resource_def l Some b Let_def s'_def cols_def)
      have reads: "map_of (dict_default cols p []) i =
          (if p = path \<and> i = rid then None else map_of (dict_default (sd_collections s) p []) i)" for p i
      proof (cases "AList.delete rid bkt = []")
        case True
        then have "map_of bkt i = (if i = rid then map_of bkt rid else None)"
          using AList.delete_conv'[of rid bkt] by (metis fun_upd_apply map_of.simps(1))
        then show ?thesis
          using True b by (auto simp: cols_def dict_default_def AList.delete_conv')
      next
        case False
        then show ?thesis
          using b by (auto simp: cols_def dict_default_def AList.delete_conv' AList.update_conv')
      qed
      have "alive caps key now s' st'" "sd_next_ids s' = sd_next_ids s" "sd_collections s' = cols"
        by (simp_all add: alive_def res(2) AList.update_conv' s'_def)
      moreover have "map_of (dict_default (sd_collections s) path []) rid \<noteq> None"
        using b by (simp add: dict_default_def)
      ultimately show ?thesis using res(1) reads by (auto simp: l Some)
    next
      case False
      then have "\<not> b \<and> st' = st1" using assms by (auto simp: delete_resource_def l Some split: option.splits)
      moreover have "map_of (dict_default (sd_collections s) path []) rid = None"
        using False by (auto simp: dict_default_def split: option.splits)
      ultimately show ?thesis using s by (auto simp: l Some)
    qed
  qed
qed

lemma reads_after_delete:
  assumes "delete_resource caps now key path rid st = (b, st')" and "t < now + ttl_seconds caps"
  shows "fst (get_resource caps t key p i st') =
    (if p = path \<and> i = rid then None else fst (get_resource caps now key p i st))"
  using delete_result[OF assms(1)] get_alive[OF _ assms(2)]
  by (auto simp: get_now get_live_none)

interpretation mem: session_store "get_resource caps" "put_resource caps" "delete_resource caps"
  "ttl_seconds caps" id True
  for caps
proof (unfold_locales, goal_cases)
  case (1 now k path rid r st x st' t path' rid')
  then show ?case using reads_after_put[OF 1(1), of t] by auto
next
  case (2 now k path rid r st e st' t path' rid')
  then show ?case using reads_after_put[OF 2(1), of t] by simp
next
  case (3 now k path rid st st' t path' rid')
  then show ?case using reads_after_delete[OF 3(1), of t] by simp
next
  case (4 now k path rid st st' t path' rid')
  have "fst (get_resource caps now k path rid st) = None"
    using delete_result[OF 4(1)] by (auto simp: get_now)
  then show ?case using reads_after_delete[OF 4(1), of t] 4(3) by auto
next
  case (5 now k path rid st)
  show ?case
    using delete_result[of caps now k path rid st] by (cases "delete_resource caps now k path rid st") (auto simp: get_now)
qed

section \<open>Other sessions\<close>

definition same_others :: "session_key \<Rightarrow> rat \<Rightarrow> sessions \<Rightarrow> sessions \<Rightarrow> bool" where
  "same_others key now st st' \<longleftrightarrow> (\<forall>key' t. key' \<noteq> key \<longrightarrow> now \<le> t \<longrightarrow>
     map_of (purge_expired t st') key' = map_of (purge_expired t st) key')"

lemma purge_purge: "now \<le> t \<Longrightarrow> purge_expired t (purge_expired now st) = purge_expired t st"
  by (induction st) (auto simp: purge_expired_def)

lemma map_of_filter_update: "j \<noteq> k \<Longrightarrow> map_of (filter P (AList.update k v d)) j = map_of (filter P d) j"
  by (induction d) auto

lemma map_of_filter_delete: "j \<noteq> k \<Longrightarrow> map_of (filter P (AList.delete k d)) j = map_of (filter P d) j"
  by (induction d) auto

lemma same_others_intros:
  "same_others key now st st"
  "same_others key now st st' \<Longrightarrow> same_others key now st (purge_expired now st')"
  "same_others key now st st' \<Longrightarrow> same_others key now st (AList.update key s st')"
  "same_others key now st st' \<Longrightarrow> same_others key now st (AList.delete key st')"
  unfolding same_others_def
  by (simp_all add: purge_purge) (simp_all add: purge_expired_def map_of_filter_update map_of_filter_delete)

lemma get_live_others: "get_live caps key now st = (r, st') \<Longrightarrow> same_others key now st st'"
  by (auto simp: get_live_def Let_def intro!: same_others_intros split: option.splits if_splits)

lemma ensure_others: "ensure_session caps key now st = (r, st') \<Longrightarrow> same_others key now st st'"
  by (auto simp: ensure_session_def split: prod.splits option.splits if_splits
      dest!: get_live_others intro: same_others_intros)

lemma put_others: "put_resource caps now key path rid payload st = (r, st') \<Longrightarrow> same_others key now st st'"
  by (auto simp: put_resource_def Let_def split: prod.splits sum.splits if_splits
      dest!: ensure_others intro: same_others_intros)

lemma delete_others: "delete_resource caps now key path rid st = (r, st') \<Longrightarrow> same_others key now st st'"
  by (auto simp: delete_resource_def Let_def split: prod.splits option.splits
      dest!: get_live_others intro!: same_others_intros)

lemma next_id_others: "next_integer_id caps now key path st = (r, st') \<Longrightarrow> same_others key now st st'"
  by (auto simp: next_integer_id_def Let_def split: prod.splits sum.splits
      dest!: ensure_others intro: same_others_intros)

lemma replace_others: "replace_session caps now key seed st = (r, st') \<Longrightarrow> same_others key now st st'"
  by (auto simp: replace_session_def Let_def split: prod.splits if_splits intro!: same_others_intros)

lemma get_via_purge:
  "fst (get_resource caps t key path rid st) = (case map_of (purge_expired t st) key of None \<Rightarrow> None
     | Some s \<Rightarrow> if sd_expires_at s \<le> t then None else map_of (dict_default (sd_collections s) path []) rid)"
  by (simp add: get_now get_live_def Let_def split: option.splits)

lemma same_others_get:
  "same_others key now st st' \<Longrightarrow> key' \<noteq> key \<Longrightarrow> now \<le> t \<Longrightarrow>
     fst (get_resource caps t key' path rid st') = fst (get_resource caps t key' path rid st)"
  by (simp add: same_others_def get_via_purge)

section \<open>Replacing a session\<close>

lemma build_bucket_map: "map_of (build_bucket items b) rid = (map_of b ++ map_of (rev items)) rid"
  by (induction items b rule: build_bucket.induct)
    (auto simp: AList.update_conv' map_add_def split: option.splits)

lemma build_bucket_nil: "build_bucket items [] = [] \<longleftrightarrow> items = []"
proof (cases items)
  case (Cons e items')
  obtain rid r where e: "e = (rid, r)" by (cases e)
  have "rid \<in> dom (map_of (rev items))" unfolding dom_map_of_conv_image_fst by (simp add: Cons e)
  then have "map_of (build_bucket items []) rid \<noteq> None" unfolding build_bucket_map by auto
  then show ?thesis using Cons by auto
qed simp

lemma build_collections_map:
  assumes "build_collections seed (built, n, bytes) = (built', n', bytes')" and "distinct (map fst seed)"
    and "set (map fst seed) \<inter> set (dict_keys built) = {}"
  shows "map_of (dict_default built' path []) rid = (case map_of seed path of
     None \<Rightarrow> map_of (dict_default built path []) rid | Some items \<Rightarrow> map_of (rev items) rid)"
  using assms
proof (induction seed arbitrary: built n bytes)
  case (Cons e seed)
  obtain p items where e: "e = (p, items)" by (cases e)
  show ?case
  proof (cases "build_bucket items [] = []")
    case True
    have "build_collections seed (built, n, bytes) = (built', n', bytes')"
      using Cons.prems(1) True by (simp add: e)
    then have "map_of (dict_default built' path []) rid = (case map_of seed path of
        None \<Rightarrow> map_of (dict_default built path []) rid | Some items \<Rightarrow> map_of (rev items) rid)"
      using Cons.prems(2,3) by (intro Cons.IH[of built n bytes]) auto
    moreover have "map_of seed p = None" "map_of built p = None" "items = []"
      using Cons.prems(2,3) True by (auto simp: e map_of_eq_None_iff build_bucket_nil)
    ultimately show ?thesis by (auto simp: e dict_default_def)
  next
    case False
    let ?built = "AList.update p (build_bucket items []) built"
    have "map_of (dict_default built' path []) rid = (case map_of seed path of
        None \<Rightarrow> map_of (dict_default ?built path []) rid | Some items \<Rightarrow> map_of (rev items) rid)"
    proof (rule Cons.IH)
      show "build_collections seed (?built, n + int (length (build_bucket items [])),
          bytes + (\<Sum>r\<leftarrow>map snd (build_bucket items []). resource_byte_size r)) = (built', n', bytes')"
        using Cons.prems(1) False by (simp add: e Let_def)
      show "distinct (map fst seed)" using Cons.prems(2) by simp
      show "set (map fst seed) \<inter> set (dict_keys ?built) = {}"
        using Cons.prems(2,3) by (auto simp: e update_keys)
    qed
    moreover have "map_of seed p = None" using Cons.prems(2) by (auto simp: e map_of_eq_None_iff)
    ultimately show ?thesis by (auto simp: e dict_default_update build_bucket_map split: option.splits)
  qed
qed simp

section \<open>Allocated identifiers\<close>

lemma next_result:
  assumes "next_integer_id caps now key path st = (Inr i, st')"
  obtains s st1 s' where "ensure_session caps key now st = (Inr s, st1)" "alive caps key now s' st'"
    "sd_collections s' = sd_collections s" "dict_default (sd_next_ids s') path 0 = i"
    "dict_default (sd_next_ids s) path 0 < i"
    "\<And>rid j. map_of (dict_default (sd_collections s) path []) rid \<noteq> None \<Longrightarrow> py_int rid = Some j \<Longrightarrow> j < i"
proof -
  obtain e st1 where e: "ensure_session caps key now st = (e, st1)" by (cases "ensure_session caps key now st")
  obtain s where s: "e = Inr s" using assms by (cases e) (auto simp: next_integer_id_def e)
  let ?keys = "dict_keys (dict_default (sd_collections s) path [])"
  let ?s' = "touch caps now (s\<lparr>sd_next_ids := AList.update path i (sd_next_ids s)\<rparr>)"
  have i: "i = fold (\<lambda>rid c. case py_int rid of None \<Rightarrow> c | Some i \<Rightarrow> max c (i + 1)) ?keys
      (dict_default (sd_next_ids s) path 0 + 1)" and st': "st' = AList.update key ?s' st1"
    using assms by (auto simp: next_integer_id_def e s Let_def)
  have keys: "rid \<in> set ?keys" if "map_of (dict_default (sd_collections s) path []) rid \<noteq> None" for rid
    using that by (simp add: map_of_eq_None_iff)
  show ?thesis
  proof (rule that)
    show "ensure_session caps key now st = (Inr s, st1)" using e s by simp
    show "alive caps key now ?s' st'" by (simp add: alive_def st' AList.update_conv')
    show "sd_collections ?s' = sd_collections s" by simp
    show "dict_default (sd_next_ids ?s') path 0 = i" by (simp add: dict_default_update)
    show "dict_default (sd_next_ids s) path 0 < i"
      using fold_max_ge[of "dict_default (sd_next_ids s) path 0 + 1" ?keys] unfolding i[symmetric] by simp
    show "j < i" if "map_of (dict_default (sd_collections s) path []) rid \<noteq> None" "py_int rid = Some j" for rid j
      using fold_max_ge[of "dict_default (sd_next_ids s) path 0 + 1" ?keys] keys[OF that(1)] that(2)
      unfolding i[symmetric] by blast
  qed
qed

lemma alive_live: "alive caps key now s st \<Longrightarrow> t < now + ttl_seconds caps \<Longrightarrow> fst (get_live caps key t st) = Some (touch caps t s)"
  by (simp add: alive_def get_live_some)

lemma alive_ensure:
  assumes "alive caps key now s st" and "t < now + ttl_seconds caps"
    and "ensure_session caps key t st = (Inr s', st')"
  shows "s' = touch caps t s"
  using ensure_result[OF assms(3)] alive_live[OF assms(1,2)] by simp

lemma put_keeps_counters:
  assumes "alive caps key now s st" and "t < now + ttl_seconds caps"
    and "put_resource caps t key path rid payload st = (r, st')"
  shows "\<exists>s'. alive caps key t s' st' \<and> sd_next_ids s' = sd_next_ids s"
  using put_result[OF assms(3)] alive_live[OF assms(1,2)] alive_ensure[OF assms(1,2)] by fastforce

lemma delete_keeps_counters:
  assumes "alive caps key now s st" and "t < now + ttl_seconds caps"
    and "delete_resource caps t key path rid st = (r, st')"
  shows "\<exists>s'. alive caps key t s' st' \<and> sd_next_ids s' = sd_next_ids s"
  using delete_result[OF assms(3)] alive_live[OF assms(1,2)] by fastforce

lemma writes_keep_counters:
  assumes "run_writes (put_resource caps) (delete_resource caps) key ws st = (oks, st')"
    and "paced (ttl_seconds caps) now (map fst ws @ [t])" and "alive caps key now s st"
  shows "\<exists>u s'. alive caps key u s' st' \<and> sd_next_ids s' = sd_next_ids s \<and> t < u + ttl_seconds caps"
  using assms
proof (induction ws arbitrary: st oks now s)
  case Nil
  then show ?case by auto
next
  case (Cons w ws)
  obtain u act where w: "w = (u, act)" by (cases w)
  have u: "u < now + ttl_seconds caps" and rest: "paced (ttl_seconds caps) u (map fst ws @ [t])"
    using Cons.prems(2) by (auto simp: w)
  have "\<exists>st1 oks1 s1. run_writes (put_resource caps) (delete_resource caps) key ws st1 = (oks1, st')
     \<and> alive caps key u s1 st1 \<and> sd_next_ids s1 = sd_next_ids s"
  proof (cases act)
    case (Put p i r)
    obtain res st1 where put: "put_resource caps u key p i r st = (res, st1)"
      by (cases "put_resource caps u key p i r st")
    show ?thesis
      using Cons.prems(1) put_keeps_counters[OF Cons.prems(3) u put]
      by (auto simp: w Put put split: prod.splits)
  next
    case (Delete p i)
    obtain b st1 where del: "delete_resource caps u key p i st = (b, st1)"
      by (cases "delete_resource caps u key p i st")
    show ?thesis
      using Cons.prems(1) delete_keeps_counters[OF Cons.prems(3) u del]
      by (auto simp: w Delete del split: prod.splits)
  qed
  then obtain st1 oks1 s1 where tail: "run_writes (put_resource caps) (delete_resource caps) key ws st1 = (oks1, st')"
    "alive caps key u s1 st1" "sd_next_ids s1 = sd_next_ids s" by blast
  show ?case using Cons.IH[OF tail(1) rest tail(2)] tail(3) by simp
qed

lemma next_id_increases:
  assumes "alive caps key now s st" and "t < now + ttl_seconds caps"
    and "next_integer_id caps t key path st = (Inr j, st')"
  shows "dict_default (sd_next_ids s) path 0 < j"
  using assms(3)
proof (rule next_result)
  fix s1 st1 s2
  assume a: "ensure_session caps key t st = (Inr s1, st1)" "dict_default (sd_next_ids s1) path 0 < j"
  show ?thesis using alive_ensure[OF assms(1,2) a(1)] a(2) by simp
qed

section \<open>Properties of the store\<close>

text \<open>C25: In every state the store reaches from empty, whatever the operations, keys and clock
  readings, the number of sessions is within the cap and each session's counters equal the number
  and the total size of the resources it holds and are within its caps.\<close>

theorem sessions_within_caps:
  assumes "caps_ok caps" and "(store_step caps)\<^sup>*\<^sup>* [] st"
  shows "wf_dict st \<and> int (length st) \<le> max_sessions caps \<and>
    (\<forall>(key, s) \<in> set st.
       sd_resource_count s = (\<Sum>(_, b)\<leftarrow>sd_collections s. int (length b)) \<and>
       sd_total_bytes s = (\<Sum>(_, b)\<leftarrow>sd_collections s. \<Sum>(_, r)\<leftarrow>b. resource_byte_size r) \<and>
       sd_resource_count s \<le> max_resources caps \<and> sd_total_bytes s \<le> max_bytes caps)"
proof -
  have "store_ok caps st"
    using assms(2)
  proof (induction rule: rtranclp_induct)
    case base
    then show ?case using assms(1) by (simp add: store_ok_def caps_ok_def)
  next
    case (step st st')
    then show ?case using store_step_ok assms(1) by blast
  qed
  moreover have "total (\<lambda>_. 1) cols = (\<Sum>(_, b)\<leftarrow>cols. int (length b))"
    and "total resource_byte_size cols = (\<Sum>(_, b)\<leftarrow>cols. \<Sum>(_, r)\<leftarrow>b. resource_byte_size r)" for cols
    by (simp_all add: dsum_def sum_list_triv split_def)
  ultimately show ?thesis by (auto simp: store_ok_def session_ok_def)
qed

definition demo_caps :: session_caps where
  "demo_caps = \<lparr>ttl_seconds = 60, max_resources = 2, max_bytes = 100, max_sessions = 1\<rparr>"

definition demo_key :: "string \<Rightarrow> session_key" where
  "demo_key tok = \<lparr>sk_tenant = ''t'', sk_project = ''p'', sk_version = ''v1'', sk_token = tok\<rparr>"

definition demo_store :: sessions where
  "demo_store = snd (put_resource demo_caps 5 (demo_key ''a'') ''pets'' ''7'' [(''id'', JInt 7)] [])"

lemma demo_reachable: "(store_step demo_caps)\<^sup>*\<^sup>* [] demo_store"
  unfolding demo_store_def by (rule r_into_rtranclp) (rule store_step.intros)

lemma sessions_within_caps_witness:
  "int (length demo_store) \<le> max_sessions demo_caps \<and> length demo_store = 1"
proof -
  have "caps_ok demo_caps" by (simp add: caps_ok_def demo_caps_def)
  moreover have "length demo_store = 1" by code_simp
  ultimately show ?thesis using sessions_within_caps[of demo_caps demo_store] demo_reachable by simp
qed

definition demo_writes :: "(rat \<times> resource store_write) list" where
  "demo_writes = [(10, Put ''pets'' ''1'' [(''id'', JInt 1)]), (40, Put ''pets'' ''2'' [(''id'', JInt 2)]),
     (90, Put ''pets'' ''3'' [(''id'', JInt 3)]), (100, Delete ''pets'' ''1'')]"

text \<open>C24: A session that starts empty and is used before each lifetime runs out answers every read
  by the last successful write of that resource: what was put and not deleted since, nothing for
  a resource deleted or never stored, and a write refused by a cap changes no answer.\<close>

theorem reads_see_the_last_write:
  assumes "map_of st key = None"
    and "run_writes (put_resource caps) (delete_resource caps) key ws st = (oks, st')"
    and "paced (ttl_seconds caps) now (map fst ws @ [t])"
  shows "fst (get_resource caps t key path rid st') = apply_writes ws oks (\<lambda>_. None) (path, rid)"
  using mem.reads_after_writes[OF assms(2) paced_lasting[OF run_writes_length[OF assms(2)] assms(3)], of "\<lambda>_. None"]
  by (simp add: get_absent assms(1) option.map_id)

lemma reads_see_the_last_write_witness:
  "fst (run_writes (put_resource demo_caps) (delete_resource demo_caps) (demo_key ''a'') demo_writes []) = [True, True, False, True]
   \<and> (let st = snd (run_writes (put_resource demo_caps) (delete_resource demo_caps) (demo_key ''a'') demo_writes [])
      in fst (get_resource demo_caps 130 (demo_key ''a'') ''pets'' ''2'' st) = Some [(''id'', JInt 2)])"
proof -
  let ?run = "run_writes (put_resource demo_caps) (delete_resource demo_caps) (demo_key ''a'') demo_writes []"
  have oks: "fst ?run = [True, True, False, True]" by code_simp
  have pace: "paced (ttl_seconds demo_caps) 0 (map fst demo_writes @ [130])" by code_simp
  have "apply_writes demo_writes [True, True, False, True] (\<lambda>_. None) (''pets'', ''2'') = Some [(''id'', JInt 2)]"
    by code_simp
  moreover have run: "?run = ([True, True, False, True], snd ?run)" using oks by (metis prod.collapse)
  ultimately show ?thesis
    using oks reads_see_the_last_write[OF _ run pace, of "''pets''" "''2''"] by (simp add: Let_def)
qed

text \<open>Seeding a session is all or nothing. A refused seed changes no read of any session; an
  accepted one makes the seed, the last entry of a duplicated identifier winning, the whole
  content of the session; no read of another session changes either way.\<close>

theorem replace_session_all_or_nothing:
  assumes "distinct (map fst seed)" and "replace_session caps now key seed st = (res, st')"
    and "now \<le> t" and "t < now + ttl_seconds caps"
  shows "fst (get_resource caps t key' path rid st') =
    (if key' = key \<and> \<not> isl res
     then (case map_of seed path of None \<Rightarrow> None | Some items \<Rightarrow> map_of (rev items) rid)
     else fst (get_resource caps t key' path rid st))"
proof (cases "key' = key")
  case False
  then show ?thesis using same_others_get[OF replace_others[OF assms(2)] False assms(3)] by simp
next
  case True
  obtain built n bytes where b: "build_collections seed ([], 0, 0) = (built, n, bytes)"
    by (metis prod_cases3)
  have content: "map_of (dict_default built path []) rid =
      (case map_of seed path of None \<Rightarrow> None | Some items \<Rightarrow> map_of (rev items) rid)"
    using build_collections_map[OF b assms(1)] by (simp add: dict_default_def[of "[]"] split: option.splits)
  show ?thesis
  proof (cases "isl res")
    case failed: True
    then have "st' = st \<or> st' = purge_expired now st"
      using assms(2) by (auto simp: replace_session_def b Let_def split: if_splits)
    then show ?thesis using failed by (auto simp: get_via_purge purge_purge[OF assms(3)])
  next
    case stored: False
    show ?thesis
    proof (cases "built = []")
      case True
      then have "map_of st' key = None"
        using assms(2) stored by (auto simp: replace_session_def b Let_def AList.delete_conv' split: if_splits)
      then show ?thesis using content True stored \<open>key' = key\<close> by (simp add: get_absent dict_default_def)
    next
      case False
      let ?s = "touch caps now (empty_session\<lparr>sd_collections := built, sd_total_bytes := bytes, sd_resource_count := n\<rparr>)"
      have "st' = AList.update key ?s (purge_expired now st)"
        using assms(2) stored False by (auto simp: replace_session_def b Let_def split: if_splits)
      then have "alive caps key now ?s st'" by (simp add: alive_def AList.update_conv')
      then show ?thesis using get_alive[OF _ assms(4)] content stored \<open>key' = key\<close> by simp
    qed
  qed
qed

definition demo_seed :: "(string \<times> (string \<times> resource) list) list" where
  "demo_seed = [(''pets'', [(''1'', [(''n'', JInt 1)]), (''1'', [(''n'', JInt 2)])]), (''toys'', [])]"

lemma replace_session_all_or_nothing_witness:
  "fst (get_resource demo_caps 20 (demo_key ''a'') ''pets'' ''1'' (snd (replace_session demo_caps 10 (demo_key ''a'') demo_seed [])))
     = Some [(''n'', JInt 2)]"
proof -
  let ?r = "replace_session demo_caps 10 (demo_key ''a'') demo_seed []"
  have "distinct (map fst demo_seed)" by code_simp
  moreover have "?r = (fst ?r, snd ?r)" by simp
  moreover have "(10 :: rat) \<le> 20" "20 < 10 + ttl_seconds demo_caps" by code_simp+
  ultimately have "fst (get_resource demo_caps 20 (demo_key ''a'') ''pets'' ''1'' (snd ?r)) =
    (if demo_key ''a'' = demo_key ''a'' \<and> \<not> isl (fst ?r)
     then (case map_of demo_seed ''pets'' of None \<Rightarrow> None | Some items \<Rightarrow> map_of (rev items) ''1'')
     else fst (get_resource demo_caps 20 (demo_key ''a'') ''pets'' ''1'' []))"
    by (rule replace_session_all_or_nothing)
  moreover have "\<not> isl (fst ?r)" by code_simp
  moreover have "(case map_of demo_seed ''pets'' of None \<Rightarrow> None | Some items \<Rightarrow> map_of (rev items) ''1'') = Some [(''n'', JInt 2)]"
    by code_simp
  ultimately show ?thesis by simp
qed

text \<open>Writes, deletions and identifier allocations of one session never change what a read of
  another session answers at that time or later, although every call also purges the expired
  sessions of all.\<close>

theorem sessions_are_isolated:
  assumes "key' \<noteq> key" and "now \<le> t"
    and "st' = snd (put_resource caps now key p i payload st) \<or> st' = snd (delete_resource caps now key p i st)
       \<or> st' = snd (next_integer_id caps now key p st) \<or> st' = snd (replace_session caps now key seed st)"
  shows "fst (get_resource caps t key' path rid st') = fst (get_resource caps t key' path rid st)"
proof -
  have "same_others key now st st'"
    using assms(3) put_others delete_others next_id_others replace_others by (metis prod.collapse)
  then show ?thesis by (rule same_others_get[OF _ assms(1,2)])
qed

lemma sessions_are_isolated_witness:
  "fst (get_resource demo_caps 60 (demo_key ''a'') ''pets'' ''7''
     (snd (delete_resource demo_caps 30 (demo_key ''b'') ''pets'' ''7'' demo_store))) = Some [(''id'', JInt 7)]"
proof -
  have "demo_key ''a'' \<noteq> demo_key ''b''" by (simp add: demo_key_def)
  then have "fst (get_resource demo_caps 60 (demo_key ''a'') ''pets'' ''7''
     (snd (delete_resource demo_caps 30 (demo_key ''b'') ''pets'' ''7'' demo_store)))
     = fst (get_resource demo_caps 60 (demo_key ''a'') ''pets'' ''7'' demo_store)"
    by (rule sessions_are_isolated[where now = 30 and key = "demo_key ''b''"]) auto
  also have "\<dots> = Some [(''id'', JInt 7)]" by code_simp
  finally show ?thesis .
qed

text \<open>An allocated identifier exceeds every identifier of the collection that reads as an
  integer, so it is not in use, and exceeds every identifier the live session allocated for the
  collection before, whatever was put and deleted in between.\<close>

theorem allocated_ids_increase:
  assumes "next_integer_id caps now key path st = (Inr i, st1)"
    and "run_writes (put_resource caps) (delete_resource caps) key ws st1 = (oks, st2)"
    and "paced (ttl_seconds caps) now (map fst ws @ [t])"
    and "next_integer_id caps t key path st2 = (Inr j, st3)"
  shows "i < j \<and> (\<forall>rid k. fst (get_resource caps now key path rid st) \<noteq> None \<longrightarrow> py_int rid = Some k \<longrightarrow> k < i)"
  using assms(1)
proof (rule next_result)
  fix s st0 s'
  assume e: "ensure_session caps key now st = (Inr s, st0)" and live: "alive caps key now s' st1"
    and i: "dict_default (sd_next_ids s') path 0 = i"
    and below: "\<And>rid k. map_of (dict_default (sd_collections s) path []) rid \<noteq> None \<Longrightarrow> py_int rid = Some k \<Longrightarrow> k < i"
  obtain u s2 where s2: "alive caps key u s2 st2" "sd_next_ids s2 = sd_next_ids s'" "t < u + ttl_seconds caps"
    using writes_keep_counters[OF assms(2,3) live] by blast
  have "i < j" using next_id_increases[OF s2(1,3) assms(4)] i s2(2) by simp
  then show ?thesis using below by (simp add: get_now_ensured[OF e])
qed

lemma allocated_ids_increase_witness:
  "(let (a, st1) = next_integer_id demo_caps 10 (demo_key ''a'') ''pets'' demo_store;
        (oks, st2) = run_writes (put_resource demo_caps) (delete_resource demo_caps) (demo_key ''a'')
           [(20, Delete ''pets'' ''7'')] st1
    in a = Inr 8 \<and> (\<forall>j. fst (next_integer_id demo_caps 30 (demo_key ''a'') ''pets'' st2) = Inr j \<longrightarrow> 8 < j))"
proof -
  let ?a = "next_integer_id demo_caps 10 (demo_key ''a'') ''pets'' demo_store"
  let ?w = "run_writes (put_resource demo_caps) (delete_resource demo_caps) (demo_key ''a'') [(20, Delete ''pets'' ''7'')] (snd ?a)"
  have a: "fst ?a = Inr 8" by code_simp
  have pace: "paced (ttl_seconds demo_caps) 10 (map fst [(20, Delete ''pets'' ''7'' :: resource store_write)] @ [30])"
    by code_simp
  have "8 < j" if "fst (next_integer_id demo_caps 30 (demo_key ''a'') ''pets'' (snd ?w)) = Inr j" for j
    using allocated_ids_increase[of demo_caps 10 "demo_key ''a''" "''pets''" demo_store 8 "snd ?a"
        "[(20, Delete ''pets'' ''7'')]" "fst ?w" "snd ?w" 30 j] a that pace by (metis prod.collapse)
  then show ?thesis using a by (simp add: split_def Let_def)
qed
end
