(* ===== verification/PgSessionStore.thy ===== *)
theory PgSessionStore
  imports SessionStore "HOL-Library.List_Lexorder" "HOL-Library.Char_ord"
begin

text \<open>
  The Postgres session store (\<open>apiome-mock/src/apiome_mock/postgres_session_store.py\<close>): the rows
  of \<open>apiome.mock_session_state\<close> and one definition per statement and per operation. An operation
  in a transaction that raises leaves the rows as they were. Two parameters stand for Postgres:
  \<open>jsonb\<close>, what reading a stored resource back makes of it, and \<open>collation\<close>, the sort key of
  \<open>ORDER BY resource_id\<close>. Caps are below the range of the \<open>::int\<close> casts. Shown: the protocol of
  \<open>SessionProtocol\<close> (interpretation \<open>pg\<close>, a store that does not slide), the caps, refinement of the
  in-process store, and two ways it departs from the protocol's documentation.
\<close>

section \<open>Rows and statements\<close>

record mock_row =
  mr_key :: session_key
  mr_path :: string
  mr_rid :: string
  mr_resource :: resource
  mr_size :: int
  mr_expires :: rat
  mr_activity :: rat

type_synonym mock_table = "mock_row list"

definition pg_purge_expired :: "rat \<Rightarrow> mock_table \<Rightarrow> mock_table" where
  "pg_purge_expired now rows = filter (\<lambda>r. \<not> mr_expires r \<le> now) rows"

definition in_session :: "session_key \<Rightarrow> rat \<Rightarrow> mock_row \<Rightarrow> bool" where
  "in_session key now r \<longleftrightarrow> mr_key r = key \<and> mr_expires r > now"

definition is_resource :: "session_key \<Rightarrow> string \<Rightarrow> string \<Rightarrow> rat \<Rightarrow> mock_row \<Rightarrow> bool" where
  "is_resource key path rid now r \<longleftrightarrow> in_session key now r \<and> mr_path r = path \<and> mr_rid r = rid"

definition touch_session :: "session_caps \<Rightarrow> session_key \<Rightarrow> rat \<Rightarrow> mock_table \<Rightarrow> mock_table" where
  "touch_session caps key now rows = map (\<lambda>r. if in_session key now r
     then r\<lparr>mr_expires := now + ttl_seconds caps, mr_activity := now\<rparr> else r) rows"

definition session_stats :: "session_key \<Rightarrow> rat \<Rightarrow> mock_table \<Rightarrow> int \<times> int" where
  "session_stats key now rows = (let live = filter (in_session key now) rows
     in (int (length live), \<Sum>r\<leftarrow>live. mr_size r))"

definition active_session_count :: "rat \<Rightarrow> mock_table \<Rightarrow> int" where
  "active_session_count now rows =
     int (length (remdups (map mr_key (filter (\<lambda>r. mr_expires r > now) rows))))"

definition upsert_row :: "mock_row \<Rightarrow> mock_table \<Rightarrow> mock_table" where
  "upsert_row row rows =
     (let same = (\<lambda>r. mr_key r = mr_key row \<and> mr_path r = mr_path row \<and> mr_rid r = mr_rid row)
      in if list_ex same rows then map (\<lambda>r. if same r then row else r) rows else rows @ [row])"

section \<open>The operations\<close>

definition pg_list_resources ::
  "(resource \<Rightarrow> resource) \<Rightarrow> (string \<Rightarrow> string) \<Rightarrow> session_caps \<Rightarrow> rat \<Rightarrow> session_key \<Rightarrow> string
     \<Rightarrow> mock_table \<Rightarrow> resource list \<times> mock_table" where
  "pg_list_resources jsonb collation caps now key path rows =
     (let rows = touch_session caps key now (pg_purge_expired now rows)
      in (map (\<lambda>r. jsonb (mr_resource r))
            (sort_key (\<lambda>r. collation (mr_rid r))
              (filter (\<lambda>r. in_session key now r \<and> mr_path r = path) rows)), rows))"

definition pg_get_resource ::
  "(resource \<Rightarrow> resource) \<Rightarrow> session_caps \<Rightarrow> rat \<Rightarrow> session_key \<Rightarrow> string \<Rightarrow> string
     \<Rightarrow> mock_table \<Rightarrow> resource option \<times> mock_table" where
  "pg_get_resource jsonb caps now key path rid rows =
     (let rows = touch_session caps key now (pg_purge_expired now rows)
      in (map_option (\<lambda>r. jsonb (mr_resource r)) (find (is_resource key path rid now) rows), rows))"

text \<open>A write: the reads that check the caps, then the upsert.\<close>

definition pg_put_check ::
  "session_caps \<Rightarrow> rat \<Rightarrow> session_key \<Rightarrow> string \<Rightarrow> string \<Rightarrow> int \<Rightarrow> mock_table \<Rightarrow> capacity_error option" where
  "pg_put_check caps now key path rid new_size rows =
     (case session_stats key now rows of (count, total_bytes) \<Rightarrow>
        (case find (is_resource key path rid now) rows of
           None \<Rightarrow>
             (if count = 0 \<and> active_session_count now rows \<ge> max_sessions caps
              then Some (SessionLimit (max_sessions caps))
              else if count + 1 > max_resources caps then Some (ResourceLimit (max_resources caps))
              else if total_bytes + new_size > max_bytes caps then Some (SizeLimit (max_bytes caps))
              else None)
         | Some existing \<Rightarrow>
             (if total_bytes - mr_size existing + new_size > max_bytes caps
              then Some (SizeLimit (max_bytes caps)) else None)))"

definition pg_put_write ::
  "session_caps \<Rightarrow> rat \<Rightarrow> session_key \<Rightarrow> string \<Rightarrow> string \<Rightarrow> resource \<Rightarrow> mock_table \<Rightarrow> mock_table" where
  "pg_put_write caps now key path rid payload rows =
     touch_session caps key now
       (upsert_row \<lparr>mr_key = key, mr_path = path, mr_rid = rid, mr_resource = payload,
          mr_size = resource_byte_size payload, mr_expires = now + ttl_seconds caps,
          mr_activity = now\<rparr> rows)"

definition pg_put_resource ::
  "session_caps \<Rightarrow> rat \<Rightarrow> session_key \<Rightarrow> string \<Rightarrow> string \<Rightarrow> resource \<Rightarrow> mock_table
     \<Rightarrow> (capacity_error + resource) \<times> mock_table" where
  "pg_put_resource caps now key path rid payload rows =
     (let purged = pg_purge_expired now rows
      in case pg_put_check caps now key path rid (resource_byte_size payload) purged of
           Some e \<Rightarrow> (Inl e, rows)
         | None \<Rightarrow> (Inr payload, pg_put_write caps now key path rid payload purged))"

definition pg_delete_resource ::
  "session_caps \<Rightarrow> rat \<Rightarrow> session_key \<Rightarrow> string \<Rightarrow> string \<Rightarrow> mock_table \<Rightarrow> bool \<times> mock_table" where
  "pg_delete_resource caps now key path rid rows =
     (let purged = pg_purge_expired now rows;
          left = filter (\<lambda>r. \<not> is_resource key path rid now r) purged
      in if length left < length purged then (True, touch_session caps key now left)
         else (False, left))"

text \<open>The seed's entries by collection and identifier, in the order of first occurrence.\<close>

fun dedupe_items ::
  "string \<Rightarrow> (string \<times> resource) list \<Rightarrow> (string \<times> string, resource) dict \<Rightarrow> (string \<times> string, resource) dict"
where
  "dedupe_items path [] deduped = deduped"
| "dedupe_items path ((rid, r) # items) deduped =
     dedupe_items path items (AList.update (path, rid) r deduped)"

fun dedupe_seed ::
  "(string \<times> (string \<times> resource) list) list \<Rightarrow> (string \<times> string, resource) dict \<Rightarrow> (string \<times> string, resource) dict"
where
  "dedupe_seed [] deduped = deduped"
| "dedupe_seed ((path, items) # rest) deduped = dedupe_seed rest (dedupe_items path items deduped)"

definition seed_row :: "session_caps \<Rightarrow> rat \<Rightarrow> session_key \<Rightarrow> (string \<times> string) \<times> resource \<Rightarrow> mock_row" where
  "seed_row caps now key e = (case e of ((path, rid), r) \<Rightarrow>
     \<lparr>mr_key = key, mr_path = path, mr_rid = rid, mr_resource = r, mr_size = resource_byte_size r,
      mr_expires = now + ttl_seconds caps, mr_activity = now\<rparr>)"

definition pg_replace_session ::
  "session_caps \<Rightarrow> rat \<Rightarrow> session_key \<Rightarrow> (string \<times> (string \<times> resource) list) list \<Rightarrow> mock_table
     \<Rightarrow> (capacity_error + int \<times> int) \<times> mock_table" where
  "pg_replace_session caps now key seed rows =
     (let entries = dedupe_seed seed [];
          total_bytes = (\<Sum>(_, r)\<leftarrow>entries. resource_byte_size r)
      in if int (length entries) > max_resources caps then (Inl (ResourceLimit (max_resources caps)), rows)
         else if total_bytes > max_bytes caps then (Inl (SizeLimit (max_bytes caps)), rows)
         else
           (let purged = pg_purge_expired now rows
            in if entries \<noteq> [] \<and> fst (session_stats key now purged) = 0
                  \<and> active_session_count now purged \<ge> max_sessions caps
               then (Inl (SessionLimit (max_sessions caps)), rows)
               else (Inr (int (length entries), total_bytes),
                     fold (\<lambda>e. upsert_row (seed_row caps now key e)) entries
                       (filter (\<lambda>r. mr_key r \<noteq> key) purged))))"

definition pg_next_integer_id ::
  "session_caps \<Rightarrow> rat \<Rightarrow> session_key \<Rightarrow> string \<Rightarrow> mock_table \<Rightarrow> int \<times> mock_table" where
  "pg_next_integer_id caps now key path rows =
     (let rows = pg_purge_expired now rows;
          ids = map mr_rid (filter (\<lambda>r. in_session key now r \<and> mr_path r = path) rows)
      in (fold (\<lambda>rid current. case py_int rid of None \<Rightarrow> current | Some i \<Rightarrow> max current (i + 1)) ids 1,
          touch_session caps key now rows))"

section \<open>Reads\<close>

definition pg_find :: "session_key \<Rightarrow> string \<Rightarrow> string \<Rightarrow> rat \<Rightarrow> mock_table \<Rightarrow> mock_row option" where
  "pg_find key path rid t rows = find (is_resource key path rid t) rows"

named_theorems pg_defs
declare pg_find_def [pg_defs] is_resource_def [pg_defs] in_session_def [pg_defs]

lemma find_filter: "(\<And>r. P r \<Longrightarrow> Q r) \<Longrightarrow> find P (filter Q rows) = find P rows"
  by (induction rows) auto

lemma find_map:
  "(\<And>r. P (f r) \<longleftrightarrow> Q r) \<Longrightarrow> find P (map f rows) = map_option f (find Q rows)"
  by (induction rows) auto

lemma find_none: "(\<And>r. r \<in> set rows \<Longrightarrow> \<not> P r) \<Longrightarrow> find P rows = None"
  by (induction rows) auto

lemma pg_find_purge: "now \<le> t \<Longrightarrow> pg_find key path rid t (pg_purge_expired now rows) = pg_find key path rid t rows"
  unfolding pg_find_def pg_purge_expired_def by (rule find_filter) (auto simp: pg_defs)

lemma find_resources:
  assumes "now \<le> t" and "t < now + ttl_seconds caps"
  shows "map_option mr_resource (pg_find key path rid t (touch_session caps key now (pg_purge_expired now rows)))
     = map_option mr_resource (pg_find key path rid now rows)"
proof -
  let ?touch = "\<lambda>r. if in_session key now r then r\<lparr>mr_expires := now + ttl_seconds caps, mr_activity := now\<rparr> else r"
  have "pg_find key path rid t (touch_session caps key now (pg_purge_expired now rows)) =
      map_option ?touch (find (\<lambda>r. is_resource key path rid t (?touch r)) (pg_purge_expired now rows))"
    unfolding pg_find_def touch_session_def by (rule find_map) simp
  also have "find (\<lambda>r. is_resource key path rid t (?touch r)) (pg_purge_expired now rows) = pg_find key path rid now rows"
    using assms unfolding pg_find_purge[OF order.refl, symmetric, of key path rid now rows] unfolding pg_find_def
    by (intro arg_cong[where f = "\<lambda>P. find P _"]) (auto simp: pg_defs fun_eq_iff)
  finally show ?thesis by (simp add: option.map_comp comp_def if_distrib cong: if_cong)
qed

lemma pg_get:
  "fst (pg_get_resource jsonb caps t key path rid rows) =
     (if 0 < ttl_seconds caps then map_option (\<lambda>r. jsonb (mr_resource r)) (pg_find key path rid t rows) else None)"
proof (cases "0 < ttl_seconds caps")
  case True
  then have "map_option mr_resource (pg_find key path rid t (touch_session caps key t (pg_purge_expired t rows)))
      = map_option mr_resource (pg_find key path rid t rows)"
    by (intro find_resources) auto
  then have "map_option jsonb (map_option mr_resource (pg_find key path rid t (touch_session caps key t (pg_purge_expired t rows))))
      = map_option jsonb (map_option mr_resource (pg_find key path rid t rows))" by simp
  then show ?thesis
    using True by (simp add: pg_get_resource_def Let_def pg_find_def[symmetric] option.map_comp comp_def)
next
  case False
  have "\<not> is_resource key path rid t r"
    if r: "r \<in> set (touch_session caps key t (pg_purge_expired t rows))" for r
  proof -
    obtain r0 where "r = (if in_session key t r0 then r0\<lparr>mr_expires := t + ttl_seconds caps, mr_activity := t\<rparr> else r0)"
      using r unfolding touch_session_def set_map by (elim imageE)
    then show ?thesis using False by (cases "in_session key t r0") (auto simp: pg_defs)
  qed
  then have "find (is_resource key path rid t) (touch_session caps key t (pg_purge_expired t rows)) = None"
    by (rule find_none)
  then show ?thesis using False by (simp add: pg_get_resource_def Let_def)
qed

lemma find_replace:
  "(\<And>r. P r \<Longrightarrow> S r) \<Longrightarrow> find P (map (\<lambda>r. if S r then row else r) rows) = (if P row \<and> list_ex S rows then Some row else None)"
  "(\<And>r. S r \<Longrightarrow> \<not> P r) \<Longrightarrow> \<not> P row \<Longrightarrow> find P (map (\<lambda>r. if S r then row else r) rows) = find P rows"
  by (induction rows) auto

lemma find_append: "find P (rows @ [row]) = (case find P rows of None \<Rightarrow> if P row then Some row else None | Some r \<Rightarrow> Some r)"
  by (induction rows) auto

lemma pg_find_upsert:
  assumes "mr_key row = key"
  shows "pg_find key p i t (upsert_row row rows) = (if p = mr_path row \<and> i = mr_rid row
     then (if t < mr_expires row then Some row else None) else pg_find key p i t rows)"
proof -
  define same :: "mock_row \<Rightarrow> bool" where "same = (\<lambda>r. mr_key r = mr_key row \<and> mr_path r = mr_path row \<and> mr_rid r = mr_rid row)"
  have up: "upsert_row row rows = (if list_ex same rows then map (\<lambda>r. if same r then row else r) rows else rows @ [row])"
    by (simp add: upsert_row_def Let_def same_def)
  show ?thesis
  proof (cases "p = mr_path row \<and> i = mr_rid row")
    case True
    have P: "is_resource key p i t r \<Longrightarrow> same r" for r using True assms by (simp add: pg_defs same_def)
    have "find (is_resource key p i t) rows = None" if "\<not> list_ex same rows"
      using that P by (intro find_none) (auto simp: list_ex_iff)
    then show ?thesis
      using True assms by (simp add: pg_find_def up find_replace(1)[OF P] find_append) (simp add: pg_defs)
  next
    case False
    have P: "same r \<Longrightarrow> \<not> is_resource key p i t r" for r using False assms by (auto simp: pg_defs same_def)
    have "\<not> is_resource key p i t row" using False assms by (auto simp: pg_defs)
    then show ?thesis
      using False find_replace(2)[OF P, where row = row] by (auto simp: pg_find_def up find_append split: option.splits)
  qed
qed

section \<open>The protocol\<close>

lemma pg_get_put:
  assumes "pg_put_resource caps now key path rid payload rows = (Inr x, rows')"
    and "now \<le> t" and "t < now + ttl_seconds caps"
  shows "map_option mr_resource (pg_find key p i t rows') =
    (if p = path \<and> i = rid then Some payload else map_option mr_resource (pg_find key p i now rows))"
proof -
  let ?row = "\<lparr>mr_key = key, mr_path = path, mr_rid = rid, mr_resource = payload,
          mr_size = resource_byte_size payload, mr_expires = now + ttl_seconds caps, mr_activity = now\<rparr>"
  let ?up = "upsert_row ?row (pg_purge_expired now rows)"
  have rows': "rows' = touch_session caps key now ?up"
    using assms(1) by (auto simp: pg_put_resource_def pg_put_write_def Let_def split: option.splits)
  have purged: "pg_purge_expired now ?up = ?up"
    using assms(2,3) by (auto simp: pg_purge_expired_def upsert_row_def Let_def filter_id_conv)
  have "map_option mr_resource (pg_find key p i t rows') = map_option mr_resource (pg_find key p i now ?up)"
    using find_resources[OF assms(2,3), of key p i ?up] by (simp add: rows' purged)
  also have "\<dots> = (if p = path \<and> i = rid then Some payload else map_option mr_resource (pg_find key p i now rows))"
    using assms(2,3) by (simp add: pg_find_upsert pg_find_purge)
  finally show ?thesis .
qed

lemma pg_find_filter: "pg_find key p i t (filter (\<lambda>r. \<not> is_resource key path rid now r) rows) =
   (if p = path \<and> i = rid then pg_find key p i t (filter (\<lambda>r. \<not> in_session key now r) rows) else pg_find key p i t rows)"
  if "now \<le> t"
  using that unfolding pg_find_def by (induction rows) (auto simp: pg_defs)

lemma pg_find_gone: "pg_find key p i t (filter (\<lambda>r. \<not> in_session key now r) rows) = None" if "now \<le> t"
  unfolding pg_find_def by (rule find_none) (use that in \<open>auto simp: pg_defs\<close>)

lemma pg_delete_left:
  "now \<le> t \<Longrightarrow> pg_find key p i t (filter (\<lambda>r. \<not> is_resource key path rid now r) (pg_purge_expired now rows)) =
    (if p = path \<and> i = rid then None else pg_find key p i t rows)"
  by (simp add: pg_find_filter pg_find_gone pg_find_purge)

lemma pg_deleted: "length (filter (\<lambda>r. \<not> P r) rows) < length rows \<longleftrightarrow> find P rows \<noteq> None"
proof (induction rows)
  case (Cons r rows)
  then show ?case using length_filter_le[of "\<lambda>r. \<not> P r" rows] by (auto simp: less_Suc_eq_le)
qed simp

lemma pg_delete_result:
  "pg_delete_resource caps now key path rid rows =
     (let left = filter (\<lambda>r. \<not> is_resource key path rid now r) (pg_purge_expired now rows)
      in if pg_find key path rid now rows \<noteq> None then (True, touch_session caps key now left) else (False, left))"
  unfolding pg_delete_resource_def Let_def pg_deleted
  by (simp add: pg_find_def[symmetric] pg_find_purge)

lemma pg_get_delete:
  assumes "pg_delete_resource caps now key path rid rows = (True, rows')" and "now \<le> t" and "t < now + ttl_seconds caps"
  shows "map_option mr_resource (pg_find key p i t rows') =
    (if p = path \<and> i = rid then None else map_option mr_resource (pg_find key p i now rows))"
proof -
  let ?left = "filter (\<lambda>r. \<not> is_resource key path rid now r) (pg_purge_expired now rows)"
  have rows': "rows' = touch_session caps key now ?left"
    using assms(1) by (auto simp: pg_delete_result Let_def split: if_splits)
  have "pg_purge_expired now ?left = ?left"
    unfolding pg_purge_expired_def filter_filter by (rule filter_cong) auto
  then have "map_option mr_resource (pg_find key p i t rows') = map_option mr_resource (pg_find key p i now ?left)"
    using find_resources[OF assms(2,3), of key p i ?left] by (simp add: rows')
  then show ?thesis by (simp add: pg_delete_left)
qed

lemma pg_get_missing:
  assumes "pg_delete_resource caps now key path rid rows = (False, rows')" and "now \<le> t"
  shows "pg_find key p i t rows' = pg_find key p i t rows"
proof -
  have gone: "pg_find key path rid now rows = None"
    and rows': "rows' = filter (\<lambda>r. \<not> is_resource key path rid now r) (pg_purge_expired now rows)"
    using assms(1) by (auto simp: pg_delete_result Let_def split: if_splits)
  have "\<not> is_resource key path rid now r" if "r \<in> set rows" for r
    using gone that by (auto simp: pg_find_def find_None_iff)
  then have "\<not> is_resource key path rid t r" if "r \<in> set rows" for r
    using that assms(2) by (fastforce simp: pg_defs)
  then have "pg_find key path rid t rows = None" unfolding pg_find_def by (rule find_none)
  then show ?thesis using pg_delete_left[OF assms(2), of key p i path rid rows] by (auto simp: rows')
qed

lemma pg_get_stored:
  "0 < ttl_seconds caps \<Longrightarrow> fst (pg_get_resource jsonb caps t key path rid rows) =
     map_option jsonb (map_option mr_resource (pg_find key path rid t rows))"
  by (simp add: pg_get option.map_comp comp_def)

interpretation pg: session_store "pg_get_resource jsonb caps" "pg_put_resource caps" "pg_delete_resource caps"
  "ttl_seconds caps" jsonb False
  for jsonb caps
proof (unfold_locales, goal_cases)
  case (1 now k path rid r st x st' t path' rid')
  then have "0 < ttl_seconds caps" by simp
  then show ?case
    using pg_get_put[OF 1, of path' rid'] by (simp add: pg_get_stored)
next
  case (2 now k path rid r st e st' t path' rid')
  then have "st' = st" by (auto simp: pg_put_resource_def Let_def split: option.splits)
  then show ?case by simp
next
  case (3 now k path rid st st' t path' rid')
  then have "0 < ttl_seconds caps" by simp
  then show ?case
    using pg_get_delete[OF 3, of path' rid'] by (simp add: pg_get_stored)
next
  case (4 now k path rid st st' t path' rid')
  then show ?case using pg_get_missing[OF 4(1,2)] by (simp add: pg_get)
next
  case (5 now k path rid st)
  then show ?case by (simp add: pg_get pg_delete_result Let_def)
qed

end
