(* ===== verification/StoreAgreement.thy ===== *)
theory StoreAgreement
  imports PgSessionStore
begin

text \<open>
  The two session stores implement one specification: a session is a partial map from collection
  and identifier to resource, a put is refused exactly when the map it would give is over a cap.
  The simulation \<open>agree\<close> ties the map to the in-process session and to the rows of the table; one
  lemma per operation and store, then whole scripts of writes by induction.
\<close>

section \<open>The specification\<close>

type_synonym content = "string \<times> string \<Rightarrow> resource option"

definition content_count :: "content \<Rightarrow> int" where
  "content_count m = int (card (dom m))"

definition content_bytes :: "content \<Rightarrow> int" where
  "content_bytes m = (\<Sum>k \<in> dom m. resource_byte_size (the (m k)))"

definition spec_put :: "session_caps \<Rightarrow> string \<Rightarrow> string \<Rightarrow> resource \<Rightarrow> content \<Rightarrow> (capacity_error + resource) \<times> content" where
  "spec_put caps path rid payload m =
     (let m' = m((path, rid) \<mapsto> payload)
      in if content_count m' > max_resources caps then (Inl (ResourceLimit (max_resources caps)), m)
         else if content_bytes m' > max_bytes caps then (Inl (SizeLimit (max_bytes caps)), m)
         else (Inr payload, m'))"

definition content_ok :: "session_caps \<Rightarrow> content \<Rightarrow> bool" where
  "content_ok caps m \<longleftrightarrow> finite (dom m) \<and> content_count m \<le> max_resources caps"

lemma content_count_put:
  "finite (dom m) \<Longrightarrow> content_count (m(k \<mapsto> r)) = content_count m + (if m k = None then 1 else 0)"
  by (auto simp: content_count_def card_insert_if domIff)

lemma content_bytes_put:
  assumes "finite (dom m)"
  shows "content_bytes (m(k \<mapsto> r)) =
    content_bytes m - (case m k of None \<Rightarrow> 0 | Some w \<Rightarrow> resource_byte_size w) + resource_byte_size r"
proof -
  have rest: "(\<Sum>j \<in> dom m - {k}. resource_byte_size (the ((m(k \<mapsto> r)) j)))
      = (\<Sum>j \<in> dom m - {k}. resource_byte_size (the (m j)))" by (intro sum.cong) auto
  have "content_bytes (m(k \<mapsto> r)) = resource_byte_size r + (\<Sum>j \<in> dom m - {k}. resource_byte_size (the (m j)))"
    unfolding content_bytes_def using assms rest by (simp add: sum.insert_remove)
  moreover have "content_bytes m = (case m k of None \<Rightarrow> 0 | Some w \<Rightarrow> resource_byte_size w)
      + (\<Sum>j \<in> dom m - {k}. resource_byte_size (the (m j)))"
    unfolding content_bytes_def using assms by (cases "m k") (auto simp: sum.remove[of _ k] domIff)
  ultimately show ?thesis by simp
qed

lemma dsum_dom: "wf_dict d \<Longrightarrow> dsum f d = (\<Sum>k \<in> dom (map_of d). f (the (map_of d k)))"
proof (induction d)
  case (Cons e d)
  obtain k v where e: "e = (k, v)" by (cases e)
  have fresh: "k \<notin> dom (map_of d)" and wf: "wf_dict d"
    using Cons.prems by (auto simp: e wf_dict_def dom_map_of_conv_image_fst)
  have "(\<Sum>j \<in> dom (map_of d). f (the (map_of ((k, v) # d) j))) = (\<Sum>j \<in> dom (map_of d). f (the (map_of d j)))"
    using fresh by (intro sum.cong) auto
  moreover have "dom (map_of ((k, v) # d)) = insert k (dom (map_of d))" by auto
  ultimately show ?case using Cons.IH[OF wf] fresh by (simp only: e) (simp add: finite_dom_map_of)
qed simp

lemma content_of_dict:
  "wf_dict d \<Longrightarrow> content_bytes (map_of d) = dsum resource_byte_size d \<and> content_count (map_of d) = int (length d)"
  using dsum_dom[of d resource_byte_size] dsum_dom[of d "\<lambda>_. 1"]
  by (simp add: content_bytes_def content_count_def dsum_one)

section \<open>The in-process session\<close>

definition flatten :: "(string, bucket) dict \<Rightarrow> (string \<times> string, resource) dict" where
  "flatten cols = concat (map (\<lambda>(p, b). map (\<lambda>(i, r). ((p, i), r)) b) cols)"

definition session_content :: "session_data \<Rightarrow> content" where
  "session_content s = (\<lambda>(p, i). map_of (dict_default (sd_collections s) p []) i)"

lemma map_of_tagged: "map_of (map (\<lambda>(i, r). ((p, i), r)) b) (q, j) = (if q = p then map_of b j else None)"
  by (induction b) auto

lemma flatten_keys: "set (dict_keys (flatten cols)) = (\<Union>(p, b) \<in> set cols. Pair p ` set (dict_keys b))"
  by (force simp: flatten_def)

lemma flatten_dict:
  assumes "wf_dict cols" and "\<forall>(_, b) \<in> set cols. wf_dict b"
  shows "wf_dict (flatten cols) \<and> dsum f (flatten cols) = total f cols
     \<and> map_of (flatten cols) = (\<lambda>(p, i). map_of (dict_default cols p []) i)"
  using assms
proof (induction cols)
  case Nil
  then show ?case by (auto simp: flatten_def dict_default_def)
next
  case (Cons e cols)
  obtain p b where e: "e = (p, b)" by (cases e)
  let ?b = "map (\<lambda>(i, r). ((p, i), r)) b"
  have wf: "wf_dict cols" "p \<notin> set (dict_keys cols)" "wf_dict b" "\<forall>(_, b) \<in> set cols. wf_dict b"
    using Cons.prems by (auto simp: e wf_dict_def)
  have flat: "flatten (e # cols) = ?b @ flatten cols" by (simp add: flatten_def e)
  have "dict_keys ?b = map (Pair p) (dict_keys b)" by (induction b) auto
  then have keys: "distinct (dict_keys ?b)" "set (dict_keys ?b) = Pair p ` set (dict_keys b)"
    using wf(3) by (auto simp: wf_dict_def distinct_map inj_on_def)
  have fresh: "set (dict_keys ?b) \<inter> set (dict_keys (flatten cols)) = {}"
    using wf(2) unfolding keys(2) flatten_keys by force
  note IH = Cons.IH[OF wf(1,4)]
  have "dsum f ?b = dsum f b" by (induction b) auto
  moreover have "dsum f (?b @ flatten cols) = dsum f ?b + dsum f (flatten cols)" by (simp add: dsum_def)
  moreover have "map_of cols p = None" using wf(2) by (simp add: map_of_eq_None_iff)
  moreover have "wf_dict (flatten (e # cols))"
    using IH keys(1) fresh unfolding flat by (simp add: wf_dict_def)
  moreover have "map_of (?b @ flatten cols) = (\<lambda>(q, i). map_of (dict_default (e # cols) q []) i)"
  proof (rule ext)
    fix x :: "string \<times> string"
    obtain q j where x: "x = (q, j)" by (cases x)
    show "map_of (?b @ flatten cols) x = (\<lambda>(q, i). map_of (dict_default (e # cols) q []) i) x"
      using IH \<open>map_of cols p = None\<close>
      by (auto simp: x e map_add_def map_of_tagged dict_default_def split: option.splits)
  qed
  ultimately show ?case
    using IH unfolding flat by (simp add: e)
qed

lemma session_counts:
  assumes "session_ok caps s"
  shows "sd_resource_count s = content_count (session_content s)"
    and "sd_total_bytes s = content_bytes (session_content s)"
    and "content_ok caps (session_content s)"
proof -
  have ok: "wf_dict (sd_collections s)" "\<forall>(_, b) \<in> set (sd_collections s). wf_dict b"
    using assms by (auto simp: session_ok_def)
  have flat: "wf_dict (flatten (sd_collections s))" "map_of (flatten (sd_collections s)) = session_content s"
    "dsum f (flatten (sd_collections s)) = total f (sd_collections s)" for f
    using flatten_dict[OF ok] by (auto simp: session_content_def)
  show count: "sd_resource_count s = content_count (session_content s)"
    and "sd_total_bytes s = content_bytes (session_content s)"
    using content_of_dict[OF flat(1)] flat(3)[of "\<lambda>_. 1"] flat(3)[of resource_byte_size] assms
    unfolding flat(2) by (simp_all add: session_ok_def dsum_one)
  have "finite (dom (session_content s))" unfolding flat(2)[symmetric] by (rule finite_dom_map_of)
  then show "content_ok caps (session_content s)"
    using assms count by (simp add: content_ok_def session_ok_def)
qed

text \<open>A store with no other session, in which the session, if there is one, has the content and
  lives until the deadline at least.\<close>

definition mem_holds :: "session_caps \<Rightarrow> session_key \<Rightarrow> rat \<Rightarrow> content \<Rightarrow> sessions \<Rightarrow> bool" where
  "mem_holds caps key d m st \<longleftrightarrow> store_ok caps st \<and> set (dict_keys st) \<subseteq> {key}
     \<and> (case map_of st key of None \<Rightarrow> m = (\<lambda>_. None)
          | Some s \<Rightarrow> session_content s = m \<and> d \<le> sd_expires_at s)"

lemma mem_live:
  assumes "mem_holds caps key d m st" and "u < d"
  obtains "map_of st key = None" "m = (\<lambda>_. None)" "st = []"
  | s where "map_of st key = Some s" "session_content s = m" "session_ok caps s" "u < sd_expires_at s"
proof (cases "map_of st key")
  case None
  then have "st = []" using assms(1) by (cases st) (auto simp: mem_holds_def)
  then show ?thesis using that(1) None assms(1) by (simp add: mem_holds_def)
next
  case (Some s)
  then show ?thesis using that(2) assms store_ok_member[of caps st key s] by (auto simp: mem_holds_def)
qed

lemma purge_nil [simp]: "purge_expired t [] = []"
  by (simp add: purge_expired_def)

lemma keys_simps:
  "fst ` set (AList.update k v d) = insert k (fst ` set d)"
  "set (dict_keys (AList.delete k d)) \<subseteq> set (dict_keys d)"
  "set (dict_keys (purge_expired now st)) \<subseteq> set (dict_keys st)"
  by (induction d) (auto simp: purge_expired_def)

lemma keys_get_live:
  assumes "get_live caps key now st = (r, st')"
  shows "set (dict_keys st') \<subseteq> insert key (set (dict_keys st))"
proof (cases "map_of (purge_expired now st) key")
  case None
  then show ?thesis using assms keys_simps(3)[of now st] by (auto simp: get_live_def)
next
  case (Some s)
  then have "st' = AList.delete key (purge_expired now st)
     \<or> st' = AList.update key (touch caps now s) (purge_expired now st)"
    using assms by (auto simp: get_live_def Let_def split: if_splits)
  then have "set (dict_keys st') \<subseteq> insert key (set (dict_keys (purge_expired now st)))"
    using keys_simps(2)[of key "purge_expired now st"] by (elim disjE) (simp_all add: keys_simps(1) subset_insertI2)
  then show ?thesis using keys_simps(3)[of now st] by auto
qed

lemma keys_ensure:
  assumes "ensure_session caps key now st = (r, st')"
  shows "set (dict_keys st') \<subseteq> insert key (set (dict_keys st))"
proof -
  obtain l st1 where l: "get_live caps key now st = (l, st1)" by (cases "get_live caps key now st")
  have "st' = st1 \<or> st' = AList.update key (touch caps now empty_session) st1"
    using assms by (auto simp: ensure_session_def l split: option.splits if_splits)
  then have "set (dict_keys st') \<subseteq> insert key (set (dict_keys st1))"
    by (elim disjE) (simp_all add: keys_simps(1) subset_insertI)
  then show ?thesis using keys_get_live[OF l] by auto
qed

lemma mem_ensure:
  assumes "mem_holds caps key d m st" and "u < d" and "1 \<le> max_sessions caps" and "caps_ok caps"
  obtains s st1 where "ensure_session caps key u st = (Inr s, st1)" "session_content s = m" "session_ok caps s"
    "set (dict_keys st1) \<subseteq> {key}" "alive caps key u s st1"
proof -
  have "\<exists>s st1. ensure_session caps key u st = (Inr s, st1) \<and> session_content s = m"
    using assms(1,2)
  proof (cases rule: mem_live)
    case 1
    then show ?thesis
      using assms(3)
      by (simp add: ensure_session_def get_live_def session_content_def empty_session_def dict_default_def fun_eq_iff)
  next
    case (2 s)
    then show ?thesis by (auto simp: ensure_session_def get_live_some session_content_def)
  qed
  then obtain s st1 where e: "ensure_session caps key u st = (Inr s, st1)" "session_content s = m" by blast
  have "store_ok caps st" using assms(1) by (simp add: mem_holds_def)
  then have "session_ok caps s" using ensure_ok[OF assms(4) _ e(1)] by simp
  moreover have "alive caps key u s st1" using ensure_result[OF e(1)] by auto
  moreover have "set (dict_keys st1) \<subseteq> {key}" using keys_ensure[OF e(1)] assms(1) by (auto simp: mem_holds_def)
  ultimately show ?thesis using that e by blast
qed
lemma mem_put_refines:
  assumes "mem_holds caps key d m st" and "u < d" and "1 \<le> max_sessions caps" and "caps_ok caps"
  shows "fst (put_resource caps u key path rid payload st) = fst (spec_put caps path rid payload m)"
    and "mem_holds caps key (u + ttl_seconds caps) (snd (spec_put caps path rid payload m))
       (snd (put_resource caps u key path rid payload st))"
proof -
  obtain s st1 where e: "ensure_session caps key u st = (Inr s, st1)" and s: "session_content s = m" "session_ok caps s"
    and keys: "set (dict_keys st1) \<subseteq> {key}" and live: "alive caps key u s st1"
    using mem_ensure[OF assms] by blast
  let ?b = "dict_default (sd_collections s) path []"
  let ?m = "m((path, rid) \<mapsto> payload)"
  have fin: "finite (dom m)" using session_counts(3)[OF s(2)] by (simp add: s(1) content_ok_def)
  have existing: "map_of ?b rid = m (path, rid)" by (simp add: s(1)[symmetric] session_content_def)
  have count: "content_count ?m = sd_resource_count s + (if map_of ?b rid = None then 1 else 0)"
    and bytes: "content_bytes ?m = sd_total_bytes s
       - (case map_of ?b rid of None \<Rightarrow> 0 | Some r \<Rightarrow> resource_byte_size r) + resource_byte_size payload"
    using content_count_put[OF fin] content_bytes_put[OF fin] session_counts[OF s(2)] s(1)
    by (simp_all add: existing)
  let ?full = "content_count ?m > max_resources caps \<or> content_bytes ?m > max_bytes caps"
  obtain res st' where put: "put_resource caps u key path rid payload st = (res, st')"
    by (cases "put_resource caps u key path rid payload st")
  have "fst (put_resource caps u key path rid payload st) = fst (spec_put caps path rid payload m)"
    unfolding put_resource_def spec_put_def Let_def e count bytes by simp
  then have res: "res = fst (spec_put caps path rid payload m)" by (simp add: put)
  have upd: "\<exists>s. st' = AList.update key s st1"
    using put by (auto simp: put_resource_def Let_def e split: if_splits)
  then have "map_of st' key \<noteq> None" by (auto simp: AList.update_conv')
  then obtain s' where s': "alive caps key u s' st'"
    "sd_collections s' = AList.update path ((if isl res then id else AList.update rid payload) ?b)
       (if isl res then sd_collections s else AList.update path ?b (sd_collections s))"
    using put_result[OF put] e by auto
  have "session_content s' = snd (spec_put caps path rid payload m)"
  proof (cases "isl res")
    case True
    then have "snd (spec_put caps path rid payload m) = m"
      unfolding res by (auto simp: spec_put_def Let_def split: if_splits)
    then show ?thesis using True s(1)[symmetric] by (auto simp: session_content_def s'(2) dict_default_update)
  next
    case False
    then have "snd (spec_put caps path rid payload m) = ?m"
      unfolding res by (auto simp: spec_put_def Let_def split: if_splits)
    moreover have "session_content s' = ?m"
      using False s(1)[symmetric] by (auto simp: session_content_def s'(2) dict_default_update AList.update_conv' fun_eq_iff)
    ultimately show ?thesis by simp
  qed
  moreover have "set (dict_keys st') \<subseteq> {key}"
    using keys upd by (elim exE) (simp add: keys_simps(1))
  moreover have "store_ok caps st'"
    using put_store_ok[OF assms(4), of st u key path rid payload] assms(1) by (simp add: mem_holds_def put)
  ultimately show "mem_holds caps key (u + ttl_seconds caps) (snd (spec_put caps path rid payload m))
       (snd (put_resource caps u key path rid payload st))"
    using s'(1) by (simp add: mem_holds_def alive_def put)
  show "fst (put_resource caps u key path rid payload st) = fst (spec_put caps path rid payload m)"
    by (simp add: put res)
qed

lemma mem_delete_refines:
  assumes "mem_holds caps key d m st" and "u < d"
  shows "fst (delete_resource caps u key path rid st) \<longleftrightarrow> m (path, rid) \<noteq> None"
    and "mem_holds caps key (u + ttl_seconds caps) (m((path, rid) := None)) (snd (delete_resource caps u key path rid st))"
proof -
  obtain b st' where del: "delete_resource caps u key path rid st = (b, st')"
    by (cases "delete_resource caps u key path rid st")
  have ok: "store_ok caps st'" using delete_store_ok[of caps st u key path rid] assms(1) del by (simp add: mem_holds_def)
  obtain l st1 where l: "get_live caps key u st = (l, st1)" by (cases "get_live caps key u st")
  have "st' = st1 \<or> (\<exists>s. st' = AList.update key s st1)"
    using del by (auto simp: delete_resource_def l Let_def split: option.splits)
  moreover have "set (dict_keys st1) \<subseteq> {key}"
    using keys_get_live[OF l] assms(1) unfolding mem_holds_def by blast
  ultimately have keys: "set (dict_keys st') \<subseteq> {key}"
    by (elim disjE exE) (simp_all add: keys_simps(1))
  have "(b \<longleftrightarrow> m (path, rid) \<noteq> None) \<and> mem_holds caps key (u + ttl_seconds caps) (m((path, rid) := None)) st'"
    using assms
  proof (cases rule: mem_live)
    case 1
    then have "b = False \<and> st' = []" using del by (simp add: delete_resource_def get_live_def)
    then show ?thesis using 1 ok by (auto simp: mem_holds_def)
  next
    case (2 s)
    then have live: "fst (get_live caps key u st) = Some (touch caps u s)" by (simp add: get_live_some)
    obtain s' where s': "alive caps key u s' st'" "b \<longleftrightarrow> map_of (dict_default (sd_collections s) path []) rid \<noteq> None"
      "\<And>p i. map_of (dict_default (sd_collections s') p []) i =
          (if p = path \<and> i = rid then None else map_of (dict_default (sd_collections s) p []) i)"
      using delete_result[OF del] live by auto
    have "session_content s' = m((path, rid) := None)"
      by (auto simp: 2(2)[symmetric] session_content_def s'(3) fun_eq_iff)
    then show ?thesis
      using s'(1,2) ok keys by (auto simp: mem_holds_def alive_def 2(2)[symmetric] session_content_def)
  qed
  then show "fst (delete_resource caps u key path rid st) \<longleftrightarrow> m (path, rid) \<noteq> None"
    and "mem_holds caps key (u + ttl_seconds caps) (m((path, rid) := None)) (snd (delete_resource caps u key path rid st))"
    by (simp_all add: del)
qed
section \<open>The table\<close>

definition table_ok :: "mock_table \<Rightarrow> bool" where
  "table_ok rows \<longleftrightarrow> distinct (map (\<lambda>r. (mr_key r, mr_path r, mr_rid r)) rows)
     \<and> (\<forall>r \<in> set rows. mr_size r = resource_byte_size (mr_resource r))"

definition table_content :: "session_key \<Rightarrow> rat \<Rightarrow> mock_table \<Rightarrow> content" where
  "table_content key t rows = (\<lambda>(p, i). map_option mr_resource (pg_find key p i t rows))"

definition table_holds :: "session_key \<Rightarrow> rat \<Rightarrow> rat \<Rightarrow> content \<Rightarrow> mock_table \<Rightarrow> bool" where
  "table_holds key now d m rows \<longleftrightarrow> table_ok rows \<and> (\<forall>r \<in> set rows. mr_key r = key)
     \<and> (\<forall>v. now \<le> v \<longrightarrow> v < d \<longrightarrow> table_content key v rows = m)"

lemma table_ok_filter: "table_ok rows \<Longrightarrow> table_ok (filter P rows)"
  by (auto simp: table_ok_def distinct_map_filter)

lemma table_ok_map:
  "(\<And>r. mr_key (f r) = mr_key r \<and> mr_path (f r) = mr_path r \<and> mr_rid (f r) = mr_rid r
      \<and> mr_size (f r) = mr_size r \<and> mr_resource (f r) = mr_resource r) \<Longrightarrow> table_ok rows \<Longrightarrow> table_ok (map f rows)"
  by (simp add: table_ok_def comp_def)

lemma table_ok_touch: "table_ok rows \<Longrightarrow> table_ok (touch_session caps key now rows)"
  unfolding touch_session_def by (rule table_ok_map) auto

lemma upsert_row_pks:
  "distinct (map (\<lambda>r. (mr_key r, mr_path r, mr_rid r)) rows) \<Longrightarrow>
     distinct (map (\<lambda>r. (mr_key r, mr_path r, mr_rid r)) (upsert_row row rows))"
proof -
  let ?same = "\<lambda>r. mr_key r = mr_key row \<and> mr_path r = mr_path row \<and> mr_rid r = mr_rid row"
  have "map (\<lambda>r. (mr_key r, mr_path r, mr_rid r)) (map (\<lambda>r. if ?same r then row else r) rows)
      = map (\<lambda>r. (mr_key r, mr_path r, mr_rid r)) rows" by simp
  then show "distinct (map (\<lambda>r. (mr_key r, mr_path r, mr_rid r)) rows) \<Longrightarrow> ?thesis"
    by (simp add: upsert_row_def Let_def list_ex_iff del: map_map) (auto simp: image_iff)
qed

lemma upsert_row_set: "set (upsert_row row rows) \<subseteq> insert row (set rows)"
  by (auto simp: upsert_row_def Let_def)

lemma table_ok_upsert:
  "table_ok rows \<Longrightarrow> mr_size row = resource_byte_size (mr_resource row) \<Longrightarrow> table_ok (upsert_row row rows)"
  using upsert_row_pks[of rows row] upsert_row_set[of row rows] by (auto simp: table_ok_def)

lemma map_of_find: "map_of (map (\<lambda>r. (k r, v r)) rows) x = map_option v (find (\<lambda>r. k r = x) rows)"
  by (induction rows) auto

lemma find_filter_conj: "find P (filter Q rows) = find (\<lambda>r. Q r \<and> P r) rows"
  by (induction rows) auto

lemma table_stats:
  assumes "table_ok rows"
  shows "session_stats key u rows = (content_count (table_content key u rows), content_bytes (table_content key u rows))"
proof -
  let ?live = "filter (in_session key u) rows"
  let ?d = "map (\<lambda>r. ((mr_path r, mr_rid r), mr_resource r)) ?live"
  have "map_of ?d x = table_content key u rows x" for x
    unfolding map_of_find find_filter_conj
    by (cases x) (simp add: table_content_def pg_find_def is_resource_def[abs_def])
  then have d: "map_of ?d = table_content key u rows" by (rule ext)
  have "distinct (map (\<lambda>r. (mr_key r, mr_path r, mr_rid r)) ?live)"
    using assms by (auto simp: table_ok_def distinct_map_filter)
  then have "wf_dict ?d"
    by (auto simp: wf_dict_def distinct_map inj_on_def in_session_def)
  moreover have "(\<Sum>r\<leftarrow>?live. mr_size r) = dsum resource_byte_size ?d"
    using assms by (auto simp: table_ok_def dsum_def comp_def intro!: arg_cong[where f = sum_list])
  ultimately show ?thesis
    using content_of_dict[of ?d] unfolding d by (simp add: session_stats_def Let_def)
qed

lemma no_other_sessions:
  assumes "\<forall>r \<in> set rows. mr_key r = key" and "fst (session_stats key u rows) = 0"
  shows "active_session_count u rows = 0"
  using assms by (auto simp: session_stats_def Let_def active_session_count_def in_session_def filter_empty_conv)

lemma table_put_refines:
  assumes "table_holds key now d m rows" and "now \<le> u" and "u < d" and "1 \<le> max_sessions caps" and "content_ok caps m"
  shows "fst (pg_put_resource caps u key path rid payload rows) = fst (spec_put caps path rid payload m)"
    and "table_holds key u (if isl (fst (spec_put caps path rid payload m)) then d else u + ttl_seconds caps)
       (snd (spec_put caps path rid payload m)) (snd (pg_put_resource caps u key path rid payload rows))"
proof -
  let ?p = "pg_purge_expired u rows" and ?m = "m((path, rid) \<mapsto> payload)"
  have ok: "table_ok ?p" "\<forall>r \<in> set ?p. mr_key r = key"
    using assms(1) by (auto simp: table_holds_def pg_purge_expired_def intro: table_ok_filter)
  have m: "table_content key u rows = m" using assms(1-3) by (simp add: table_holds_def)
  then have "table_content key u ?p = m" by (simp add: table_content_def pg_find_purge)
  then have stats: "session_stats key u ?p = (content_count m, content_bytes m)" using table_stats[OF ok(1), of key u] by simp
  have found: "map_option mr_resource (find (is_resource key path rid u) ?p) = m (path, rid)"
    using m by (auto simp: table_content_def pg_find_def[symmetric] pg_find_purge)
  have size: "mr_size r = resource_byte_size (mr_resource r)" if "find (is_resource key path rid u) ?p = Some r" for r
    using that ok(1) by (auto simp: table_ok_def find_Some_iff)
  have fin: "finite (dom m)" using assms(5) by (simp add: content_ok_def)
  have "\<not> (content_count m = 0 \<and> active_session_count u ?p \<ge> max_sessions caps)"
    using no_other_sessions[OF ok(2), of u] assms(4) by (simp add: stats)
  then have check: "pg_put_check caps u key path rid (resource_byte_size payload) ?p =
      (if content_count ?m > max_resources caps then Some (ResourceLimit (max_resources caps))
       else if content_bytes ?m > max_bytes caps then Some (SizeLimit (max_bytes caps)) else None)"
    using assms(5) found size
    by (auto simp: pg_put_check_def stats content_count_put[OF fin] content_bytes_put[OF fin] content_ok_def
        split: option.splits)
  have spec: "spec_put caps path rid payload m =
     (case pg_put_check caps u key path rid (resource_byte_size payload) ?p of Some e \<Rightarrow> (Inl e, m) | None \<Rightarrow> (Inr payload, ?m))"
    by (simp add: check spec_put_def Let_def)
  show "fst (pg_put_resource caps u key path rid payload rows) = fst (spec_put caps path rid payload m)"
    by (simp add: spec pg_put_resource_def Let_def split: option.splits)
  show "table_holds key u (if isl (fst (spec_put caps path rid payload m)) then d else u + ttl_seconds caps)
       (snd (spec_put caps path rid payload m)) (snd (pg_put_resource caps u key path rid payload rows))"
  proof (cases "pg_put_check caps u key path rid (resource_byte_size payload) ?p")
    case None
    then have put: "pg_put_resource caps u key path rid payload rows = (Inr payload, pg_put_write caps u key path rid payload ?p)"
      by (simp add: pg_put_resource_def)
    have "table_ok (pg_put_write caps u key path rid payload ?p)"
      unfolding pg_put_write_def by (intro table_ok_touch table_ok_upsert ok(1)) simp
    moreover have "\<forall>r \<in> set (pg_put_write caps u key path rid payload ?p). mr_key r = key"
      using ok(2) upsert_row_set unfolding pg_put_write_def touch_session_def by fastforce
    moreover have "table_content key v (pg_put_write caps u key path rid payload ?p) = ?m"
      if "u \<le> v" "v < u + ttl_seconds caps" for v
      using pg_get_put[OF put that] m by (auto simp: table_content_def fun_eq_iff)
    ultimately show ?thesis by (simp add: put spec None table_holds_def)
  next
    case (Some e)
    then show ?thesis
      using assms(1,2) by (simp add: spec pg_put_resource_def table_holds_def)
  qed
qed
lemma table_delete_refines:
  assumes "table_holds key now d m rows" and "now \<le> u" and "u < d"
  shows "fst (pg_delete_resource caps u key path rid rows) \<longleftrightarrow> m (path, rid) \<noteq> None"
    and "table_holds key u (if m (path, rid) = None then d else u + ttl_seconds caps)
       (m((path, rid) := None)) (snd (pg_delete_resource caps u key path rid rows))"
proof -
  obtain b rows' where del: "pg_delete_resource caps u key path rid rows = (b, rows')"
    by (cases "pg_delete_resource caps u key path rid rows")
  let ?left = "filter (\<lambda>r. \<not> is_resource key path rid u r) (pg_purge_expired u rows)"
  have m: "table_content key v rows = m" if "u \<le> v" "v < d" for v
    using assms that by (simp add: table_holds_def)
  have b: "b \<longleftrightarrow> m (path, rid) \<noteq> None" and rows': "rows' = (if b then touch_session caps key u ?left else ?left)"
    using del m[of u] assms(3) by (auto simp: pg_delete_result Let_def table_content_def split: if_splits)
  have left: "table_ok ?left" "\<forall>r \<in> set ?left. mr_key r = key"
    using assms(1) by (auto simp: table_holds_def pg_purge_expired_def intro!: table_ok_filter)
  then have ok: "table_ok rows'" "\<forall>r \<in> set rows'. mr_key r = key"
    unfolding rows' by (simp_all add: table_ok_touch) (auto simp: touch_session_def)
  have "table_content key v rows' = m((path, rid) := None)"
    if "u \<le> v" "v < (if m (path, rid) = None then d else u + ttl_seconds caps)" for v
  proof (cases b)
    case True
    have v: "v < u + ttl_seconds caps" using that(2) True b by (auto split: if_splits)
    have reads: "table_content key v rows' (p, i) = (if p = path \<and> i = rid then None else table_content key u rows (p, i))" for p i
      using pg_get_delete[OF del[unfolded eqTrueI[OF True]] that(1) v, of p i]
      unfolding table_content_def prod.case .
    show ?thesis
      using m[of u] assms(3) by (intro ext) (auto simp: reads split: if_splits)
  next
    case False
    then show ?thesis
      using pg_get_missing[of caps u key path rid rows rows' v] del that b m[of v]
      by (auto simp: table_content_def fun_eq_iff)
  qed
  then show "table_holds key u (if m (path, rid) = None then d else u + ttl_seconds caps)
       (m((path, rid) := None)) (snd (pg_delete_resource caps u key path rid rows))"
    using ok by (simp add: table_holds_def del)
  show "fst (pg_delete_resource caps u key path rid rows) \<longleftrightarrow> m (path, rid) \<noteq> None" by (simp add: del b)
qed

section \<open>The simulation\<close>

definition agree :: "session_caps \<Rightarrow> session_key \<Rightarrow> rat \<Rightarrow> rat \<Rightarrow> content \<Rightarrow> sessions \<Rightarrow> mock_table \<Rightarrow> bool" where
  "agree caps key now d m st rows \<longleftrightarrow> content_ok caps m \<and> mem_holds caps key d m st \<and> table_holds key now d m rows
     \<and> d \<le> now + ttl_seconds caps"

lemma spec_put_ok: "content_ok caps m \<Longrightarrow> content_ok caps (snd (spec_put caps path rid payload m))"
  by (auto simp: spec_put_def Let_def content_ok_def)

lemma spec_put_accepted:
  "snd (spec_put caps path rid payload m) = (if isl (fst (spec_put caps path rid payload m)) then m else m((path, rid) \<mapsto> payload))"
  by (simp add: spec_put_def Let_def)

lemma content_ok_delete: "content_ok caps m \<Longrightarrow> content_ok caps (m(k := None))"
  using card_mono[of "dom m" "dom m - {k}"] by (auto simp: content_ok_def content_count_def)

lemma mem_holds_weaken: "mem_holds caps key d m st \<Longrightarrow> d' \<le> d \<Longrightarrow> mem_holds caps key d' m st"
  by (auto simp: mem_holds_def split: option.splits)

lemma agree_step:
  assumes "agree caps key now d m st rows" and "now \<le> u" and "u < d" and "1 \<le> max_sessions caps" and "caps_ok caps"
    and "run_writes (put_resource caps) (delete_resource caps) key [(u, act)] st = ([ok], st')"
    and "run_writes (pg_put_resource caps) (pg_delete_resource caps) key [(u, act)] rows = ([ok'], rows')"
  shows "ok = ok' \<and> agree caps key u (if ok' then u + ttl_seconds caps else d) (if ok' then apply_write act m else m) st' rows'"
proof -
  have a: "content_ok caps m" "mem_holds caps key d m st" "table_holds key now d m rows" "d \<le> u + ttl_seconds caps"
    using assms(1,2) by (auto simp: agree_def)
  show ?thesis
  proof (cases act)
    case (Put path rid payload)
    let ?res = "fst (spec_put caps path rid payload m)"
    note mem = mem_put_refines[OF a(2) assms(3,4,5), of path rid payload]
    note pg = table_put_refines[OF a(3) assms(2,3,4) a(1), of path rid payload]
    have "accepted ?res \<longleftrightarrow> \<not> isl ?res" by (cases ?res) (simp_all add: accepted_def)
    then have run: "ok = (\<not> isl ?res)" "ok' = (\<not> isl ?res)"
      "st' = snd (put_resource caps u key path rid payload st)" "rows' = snd (pg_put_resource caps u key path rid payload rows)"
      using assms(6,7) mem(1) pg(1) by (auto simp: Put split: prod.splits)
    have "mem_holds caps key (if isl ?res then d else u + ttl_seconds caps) (snd (spec_put caps path rid payload m)) st'"
      using mem_holds_weaken[OF mem(2)] a(4) run(3) by simp
    then show ?thesis
      using pg(2) spec_put_ok[OF a(1), of path rid payload] a(4) unfolding run spec_put_accepted
      by (simp add: agree_def Put split: if_splits)
  next
    case (Delete path rid)
    note mem = mem_delete_refines[OF a(2) assms(3), of path rid]
    note pg = table_delete_refines[OF a(3) assms(2,3), where caps = caps and path = path and rid = rid]
    have run: "ok = (m (path, rid) \<noteq> None)" "ok' = (m (path, rid) \<noteq> None)"
      "st' = snd (delete_resource caps u key path rid st)" "rows' = snd (pg_delete_resource caps u key path rid rows)"
      using assms(6,7) mem(1) pg(1) by (auto simp: Delete split: prod.splits)
    have same: "m((path, rid) := None) = (if m (path, rid) = None then m else m((path, rid) := None))" by auto
    have "mem_holds caps key (if m (path, rid) = None then d else u + ttl_seconds caps) (m((path, rid) := None)) st'"
      using mem_holds_weaken[OF mem(2)] a(4) run(3) by simp
    then show ?thesis
      using pg(2) content_ok_delete[OF a(1), of "(path, rid)"] a(1,4) same unfolding run
      by (cases "m (path, rid)") (simp_all add: agree_def Delete)
  qed
qed

lemma agree_run:
  assumes "agree caps key now d m st rows" and "1 \<le> max_sessions caps" and "caps_ok caps"
    and "run_writes (put_resource caps) (delete_resource caps) key ws st = (oks, st')"
    and "run_writes (pg_put_resource caps) (pg_delete_resource caps) key ws rows = (oks', rows')"
    and "lasting False (ttl_seconds caps) now d ws oks' t"
  shows "oks = oks' \<and> (\<exists>now d. now \<le> t \<and> t < d \<and> agree caps key now d (apply_writes ws oks' m) st' rows')"
  using assms(1,4-6)
proof (induction ws arbitrary: now d m st rows oks oks')
  case Nil
  then show ?case by auto
next
  case (Cons w ws)
  obtain u act where w: "w = (u, act)" by (cases w)
  from Cons.prems(2) obtain ok oks1 st1 where mem: "oks = ok # oks1"
    "run_writes (put_resource caps) (delete_resource caps) key [w] st = ([ok], st1)"
    "run_writes (put_resource caps) (delete_resource caps) key ws st1 = (oks1, st')"
    by (rule mem.run_writes_Cons)
  from Cons.prems(3) obtain ok' oks1' rows1 where pg: "oks' = ok' # oks1'"
    "run_writes (pg_put_resource caps) (pg_delete_resource caps) key [w] rows = ([ok'], rows1)"
    "run_writes (pg_put_resource caps) (pg_delete_resource caps) key ws rows1 = (oks1', rows')"
    by (rule pg.run_writes_Cons)
  have u: "now \<le> u" "u < d" and rest: "lasting False (ttl_seconds caps) u (if ok' then u + ttl_seconds caps else d) ws oks1' t"
    using Cons.prems(4) by (simp_all add: w pg(1))
  note step = agree_step[OF Cons.prems(1) u assms(2,3) mem(2)[unfolded w] pg(2)[unfolded w]]
  show ?case
    using Cons.IH[OF conjunct2[OF step] mem(3) pg(3) rest] step by (simp add: w mem(1) pg(1))
qed

section \<open>Properties\<close>


definition demo_script :: "(rat \<times> resource store_write) list" where
  "demo_script = [(10, Put ''pets'' ''1'' [(''id'', JInt 1)]), (40, Put ''pets'' ''2'' [(''id'', JInt 2)]),
     (60, Put ''pets'' ''3'' [(''id'', JInt 3)]), (70, Delete ''pets'' ''1'')]"

end
