(* ===== verification/PgCaps.thy ===== *)
theory PgCaps
  imports StoreAgreement
begin

text \<open>
  The abuse limits and identifiers of the Postgres session store
  (\<open>apiome-mock/src/apiome_mock/postgres_session_store.py\<close>): every operation run alone keeps the
  rows within the caps; two writes of different replicas whose statements interleave do not, and
  identifiers are fresh but reused, where the in-process store's only grow.
\<close>

section \<open>The caps of the table\<close>

definition rows_of :: "session_key \<Rightarrow> mock_table \<Rightarrow> mock_table" where
  "rows_of key rows = filter (\<lambda>r. mr_key r = key) rows"

definition within_caps :: "session_caps \<Rightarrow> mock_table \<Rightarrow> bool" where
  "within_caps caps rows \<longleftrightarrow> table_ok rows
     \<and> (\<forall>key. int (length (rows_of key rows)) \<le> max_resources caps
          \<and> (\<Sum>r\<leftarrow>rows_of key rows. mr_size r) \<le> max_bytes caps)
     \<and> int (card (mr_key ` set rows)) \<le> max_sessions caps"

lemma filter_row_sums:
  assumes "\<forall>r \<in> set rows. (0 :: int) \<le> f r"
  shows "(\<Sum>r\<leftarrow>filter P rows. f r) \<le> (\<Sum>r\<leftarrow>rows. f r)"
  using assms by (induction rows) auto

lemma within_caps_filter:
  assumes "within_caps caps rows"
  shows "within_caps caps (filter P rows)"
proof -
  have ok: "table_ok (filter P rows)" using assms by (simp add: within_caps_def table_ok_filter)
  have "int (length (rows_of key (filter P rows))) \<le> max_resources caps
      \<and> (\<Sum>r\<leftarrow>rows_of key (filter P rows). mr_size r) \<le> max_bytes caps" for key
  proof -
    have swap: "rows_of key (filter P rows) = filter P (rows_of key rows)"
      by (simp add: rows_of_def conj_commute)
    have "\<forall>r \<in> set (rows_of key rows). 0 \<le> mr_size r"
      using assms resource_byte_size_nonneg by (auto simp: within_caps_def table_ok_def rows_of_def)
    then show ?thesis
      using filter_row_sums[of "rows_of key rows" mr_size P] length_filter_le[of P "rows_of key rows"] assms
      unfolding swap within_caps_def by (meson le_trans of_nat_mono order.trans)
  qed
  moreover have "card (mr_key ` set (filter P rows)) \<le> card (mr_key ` set rows)" by (intro card_mono) auto
  ultimately show ?thesis using ok assms by (auto simp: within_caps_def)
qed

lemma touch_same:
  "map (\<lambda>r. (mr_key r, mr_size r)) (touch_session caps key now rows) = map (\<lambda>r. (mr_key r, mr_size r)) rows"
  by (simp add: touch_session_def comp_def)

lemma rows_of_measures:
  "length (rows_of key rows) = length (filter (\<lambda>(k, _). k = key) (map (\<lambda>r. (mr_key r, mr_size r)) rows))"
  "(\<Sum>r\<leftarrow>rows_of key rows. mr_size r) = (\<Sum>(_, n)\<leftarrow>filter (\<lambda>(k, _). k = key) (map (\<lambda>r. (mr_key r, mr_size r)) rows). n)"
  "mr_key ` set rows = fst ` set (map (\<lambda>r. (mr_key r, mr_size r)) rows)"
  by (induction rows) (auto simp: rows_of_def image_image)

lemma within_caps_touch: "within_caps caps rows \<Longrightarrow> within_caps caps (touch_session caps' key now rows)"
  unfolding within_caps_def rows_of_measures touch_same by (simp add: table_ok_touch)

text \<open>After the purge every row is live, so the statistics count the rows of the session.\<close>

lemma purged_stats:
  "session_stats key now (pg_purge_expired now rows) =
     (int (length (rows_of key (pg_purge_expired now rows))), \<Sum>r\<leftarrow>rows_of key (pg_purge_expired now rows). mr_size r)"
proof -
  have "filter (in_session key now) (pg_purge_expired now rows) = rows_of key (pg_purge_expired now rows)"
    unfolding rows_of_def pg_purge_expired_def filter_filter by (rule filter_cong) (auto simp: in_session_def)
  then show ?thesis by (simp add: session_stats_def Let_def)
qed

lemma purged_sessions:
  "active_session_count now (pg_purge_expired now rows) = int (card (mr_key ` set (pg_purge_expired now rows)))"
proof -
  have "filter (\<lambda>r. mr_expires r > now) (pg_purge_expired now rows) = pg_purge_expired now rows"
    unfolding pg_purge_expired_def filter_filter by (rule filter_cong) auto
  then show ?thesis by (simp add: active_session_count_def length_remdups_card_conv)
qed

lemma find_member: "find P rows = Some r \<Longrightarrow> r \<in> set rows \<and> P r"
  by (induction rows) (auto split: if_splits)

lemma rows_of_upsert: "key \<noteq> mr_key row \<Longrightarrow> rows_of key (upsert_row row rows) = rows_of key rows"
proof -
  let ?same = "\<lambda>r. mr_key r = mr_key row \<and> mr_path r = mr_path row \<and> mr_rid r = mr_rid row"
  assume "key \<noteq> mr_key row"
  then have "filter (\<lambda>r. mr_key r = key) (map (\<lambda>r. if ?same r then row else r) rows) = filter (\<lambda>r. mr_key r = key) rows"
    by (induction rows) auto
  then show ?thesis using \<open>key \<noteq> mr_key row\<close> by (simp add: rows_of_def upsert_row_def Let_def)
qed

lemma purged_upsert: "now < mr_expires row \<Longrightarrow>
    pg_purge_expired now (upsert_row row (pg_purge_expired now rows)) = upsert_row row (pg_purge_expired now rows)"
  using upsert_row_set[of row "pg_purge_expired now rows"]
  by (auto simp: pg_purge_expired_def filter_id_conv)

lemma put_check_sessions:
  assumes "pg_put_check caps now key path rid n (pg_purge_expired now rows) = None"
    and "int (card (mr_key ` set (pg_purge_expired now rows))) \<le> max_sessions caps"
  shows "int (card (insert key (mr_key ` set (pg_purge_expired now rows)))) \<le> max_sessions caps"
proof (cases "key \<in> mr_key ` set (pg_purge_expired now rows)")
  case True
  then show ?thesis using assms(2) by (simp add: insert_absorb)
next
  case False
  then have none: "rows_of key (pg_purge_expired now rows) = []" by (force simp: rows_of_def filter_empty_conv)
  moreover have "find (is_resource key path rid now) (pg_purge_expired now rows) = None"
    using False by (intro find_none) (auto simp: pg_defs)
  ultimately show ?thesis
    using assms(1) False by (auto simp: pg_put_check_def purged_stats purged_sessions split: if_splits)
qed

lemma within_caps_put:
  assumes "within_caps caps rows" and "0 < ttl_seconds caps"
  shows "within_caps caps (snd (pg_put_resource caps now key path rid payload rows))"
proof (cases "pg_put_check caps now key path rid (resource_byte_size payload) (pg_purge_expired now rows)")
  case (Some e)
  then show ?thesis using assms(1) by (simp add: pg_put_resource_def)
next
  case None
  let ?p = "pg_purge_expired now rows"
  let ?row = "\<lparr>mr_key = key, mr_path = path, mr_rid = rid, mr_resource = payload,
          mr_size = resource_byte_size payload, mr_expires = now + ttl_seconds caps, mr_activity = now\<rparr>"
  let ?up = "upsert_row ?row ?p"
  have p: "within_caps caps ?p" unfolding pg_purge_expired_def by (rule within_caps_filter[OF assms(1)])
  then have okp: "table_ok ?p" by (simp add: within_caps_def)
  have up: "table_ok ?up" by (rule table_ok_upsert[OF okp]) simp
  have live: "pg_purge_expired now ?up = ?up" using assms(2) by (intro purged_upsert) simp
  let ?m = "table_content key now ?p"
  have "finite (dom ?m)"
  proof -
    have "dom ?m \<subseteq> (\<lambda>r. (mr_path r, mr_rid r)) ` set ?p"
      by (auto simp: table_content_def pg_find_def dest!: find_member) (auto simp: pg_defs)
    then show ?thesis by (rule finite_subset) simp
  qed
  note sums = content_count_put[OF this] content_bytes_put[OF this]
  have "table_content key now ?up = ?m((path, rid) \<mapsto> payload)"
    using assms(2) by (auto simp: table_content_def pg_find_upsert fun_eq_iff)
  then have stats: "session_stats key now ?up =
      (content_count (?m((path, rid) \<mapsto> payload)), content_bytes (?m((path, rid) \<mapsto> payload)))"
    using table_stats[OF up, of key now] by simp
  have now: "session_stats key now ?p = (content_count ?m, content_bytes ?m)" by (rule table_stats[OF okp])
  have kept: "content_count ?m \<le> max_resources caps"
    using p purged_stats[of key now rows] unfolding now by (auto simp: within_caps_def)
  have existing: "?m (path, rid) = map_option mr_resource (find (is_resource key path rid now) ?p)"
    by (simp add: table_content_def pg_find_def)
  have "mr_size r = resource_byte_size (mr_resource r)" if "find (is_resource key path rid now) ?p = Some r" for r
    using that okp by (auto simp: table_ok_def find_Some_iff)
  then have caps: "content_count (?m((path, rid) \<mapsto> payload)) \<le> max_resources caps"
    "content_bytes (?m((path, rid) \<mapsto> payload)) \<le> max_bytes caps"
    using None kept by (auto simp: pg_put_check_def now sums existing split: option.splits if_splits)
  have counts: "int (length (rows_of k ?up)) \<le> max_resources caps \<and> (\<Sum>r\<leftarrow>rows_of k ?up. mr_size r) \<le> max_bytes caps" for k
  proof (cases "k = key")
    case True
    then show ?thesis using caps stats purged_stats[of key now ?up] unfolding live by simp
  next
    case False
    then show ?thesis using p rows_of_upsert[of k ?row ?p] by (simp add: within_caps_def)
  qed
  have "card (mr_key ` set ?up) \<le> card (insert key (mr_key ` set ?p))"
    using upsert_row_set[of ?row ?p] by (intro card_mono) auto
  then have "int (card (mr_key ` set ?up)) \<le> max_sessions caps"
    using put_check_sessions[OF None] p by (simp add: within_caps_def)
  then have "within_caps caps ?up" using up counts by (simp add: within_caps_def)
  then show ?thesis using None by (simp add: pg_put_resource_def pg_put_write_def within_caps_touch)
qed

lemma within_caps_delete:
  assumes "within_caps caps rows"
  shows "within_caps caps (snd (pg_delete_resource caps now key path rid rows))"
  using within_caps_filter[OF within_caps_filter[OF assms]]
  by (auto simp: pg_delete_resource_def Let_def pg_purge_expired_def intro!: within_caps_touch)

lemma dedupe_wf: "wf_dict d \<Longrightarrow> wf_dict (dedupe_seed seed d)"
proof (induction seed d rule: dedupe_seed.induct)
  case (2 path items rest d)
  have "wf_dict e \<Longrightarrow> wf_dict (dedupe_items path items e)" for e
    by (induction path items e rule: dedupe_items.induct) (auto intro: wf_dict_update)
  then show ?case using 2 by simp
qed simp

lemma seed_rows_append:
  assumes "wf_dict entries" and "\<And>r e. r \<in> set base \<Longrightarrow> e \<in> set entries \<Longrightarrow>
     mr_key r \<noteq> key \<or> (mr_path r, mr_rid r) \<noteq> fst e"
  shows "fold (\<lambda>e. upsert_row (seed_row caps now key e)) entries base = base @ map (seed_row caps now key) entries"
  using assms
proof (induction entries arbitrary: base)
  case (Cons e entries)
  obtain p i r where e: "e = ((p, i), r)" by (metis surj_pair)
  have new: "upsert_row (seed_row caps now key e) base = base @ [seed_row caps now key e]"
    using Cons.prems(2)[of _ e] by (auto simp: upsert_row_def Let_def seed_row_def e list_ex_iff)
  have "fold (\<lambda>e. upsert_row (seed_row caps now key e)) entries (base @ [seed_row caps now key e])
      = (base @ [seed_row caps now key e]) @ map (seed_row caps now key) entries"
  proof (rule Cons.IH)
    show "wf_dict entries" using Cons.prems(1) by (simp add: wf_dict_def)
    show "mr_key x \<noteq> key \<or> (mr_path x, mr_rid x) \<noteq> fst f"
      if "x \<in> set (base @ [seed_row caps now key e])" "f \<in> set entries" for x f
    proof (cases "x \<in> set base")
      case True
      then show ?thesis using Cons.prems(2)[of x f] that(2) by simp
    next
      case False
      then have "x = seed_row caps now key e" using that(1) by simp
      moreover have "fst e \<noteq> fst f" using Cons.prems(1) that(2) by (auto simp: wf_dict_def)
      ultimately show ?thesis by (simp add: seed_row_def e)
    qed
  qed
  then show ?case by (simp add: new)
qed simp

lemma rows_of_disjoint: "rows_of k (filter (\<lambda>r. mr_key r \<noteq> key) rows @ map (seed_row caps now key) entries) =
    (if k = key then map (seed_row caps now key) entries else rows_of k rows)"
proof -
  have "filter (\<lambda>r. mr_key r = k) (map (seed_row caps now key) entries) =
      (if k = key then map (seed_row caps now key) entries else [])"
    by (induction entries) (auto simp: seed_row_def)
  moreover have "filter (\<lambda>r. mr_key r = k) (filter (\<lambda>r. mr_key r \<noteq> key) rows) = (if k = key then [] else filter (\<lambda>r. mr_key r = k) rows)"
    by (induction rows) auto
  ultimately show ?thesis by (simp add: rows_of_def)
qed

lemma seeded_table_ok:
  assumes "table_ok rows" and "wf_dict entries"
  shows "table_ok (filter (\<lambda>r. mr_key r \<noteq> key) rows @ map (seed_row caps now key) entries)"
proof -
  have "map ((\<lambda>r. (mr_key r, mr_path r, mr_rid r)) \<circ> seed_row caps now key) entries = map (\<lambda>e. (key, fst e)) entries"
    by (induction entries) (auto simp: seed_row_def)
  moreover have "distinct (map (\<lambda>e. (key, fst e)) entries)"
    using assms(2) by (auto simp: wf_dict_def distinct_map inj_on_def)
  ultimately have "distinct (map ((\<lambda>r. (mr_key r, mr_path r, mr_rid r)) \<circ> seed_row caps now key) entries)"
    by (simp only:)
  then show ?thesis
    using table_ok_filter[OF assms(1), of "\<lambda>r. mr_key r \<noteq> key"]
    by (auto simp: table_ok_def seed_row_def split_def)
qed

lemma within_caps_replace:
  assumes "within_caps caps rows"
  shows "within_caps caps (snd (pg_replace_session caps now key seed rows))"
proof -
  define entries where "entries = dedupe_seed seed []"
  define total_bytes where "total_bytes = (\<Sum>(_, r)\<leftarrow>entries. resource_byte_size r)"
  let ?p = "pg_purge_expired now rows"
  let ?new = "filter (\<lambda>r. mr_key r \<noteq> key) ?p @ map (seed_row caps now key) entries"
  have wf: "wf_dict entries" unfolding entries_def by (rule dedupe_wf) simp
  have p: "within_caps caps ?p" unfolding pg_purge_expired_def by (rule within_caps_filter[OF assms])
  have inserted: "fold (\<lambda>e. upsert_row (seed_row caps now key e)) entries (filter (\<lambda>r. mr_key r \<noteq> key) ?p) = ?new"
    by (rule seed_rows_append[OF wf]) auto
  have res: "snd (pg_replace_session caps now key seed rows) =
     (if int (length entries) > max_resources caps \<or> total_bytes > max_bytes caps
       \<or> entries \<noteq> [] \<and> rows_of key ?p = [] \<and> int (card (mr_key ` set ?p)) \<ge> max_sessions caps then rows else ?new)"
    unfolding pg_replace_session_def entries_def[symmetric] Let_def purged_stats purged_sessions inserted total_bytes_def[symmetric]
    by auto
  have "within_caps caps ?new"
    if "int (length entries) \<le> max_resources caps" "total_bytes \<le> max_bytes caps"
      "entries = [] \<or> rows_of key ?p \<noteq> [] \<or> int (card (mr_key ` set ?p)) < max_sessions caps"
  proof -
    have "(\<Sum>r\<leftarrow>map (seed_row caps now key) entries. mr_size r) = total_bytes"
      unfolding total_bytes_def by (simp add: comp_def seed_row_def split_def)
    then have "int (length (rows_of k ?new)) \<le> max_resources caps \<and> (\<Sum>r\<leftarrow>rows_of k ?new. mr_size r) \<le> max_bytes caps" for k
      unfolding rows_of_disjoint using that p by (simp add: within_caps_def)
    moreover have "int (card (mr_key ` set ?new)) \<le> max_sessions caps"
    proof -
      have sub: "mr_key ` set ?new \<subseteq> (if entries = [] then mr_key ` set ?p else insert key (mr_key ` set ?p))"
        by (auto simp: seed_row_def split_def)
      have "card (mr_key ` set ?new) \<le> card (if entries = [] then mr_key ` set ?p else insert key (mr_key ` set ?p))"
        by (rule card_mono[OF _ sub]) simp
      moreover have "rows_of key ?p \<noteq> [] \<Longrightarrow> key \<in> mr_key ` set ?p" by (auto simp: rows_of_def filter_empty_conv)
      ultimately show ?thesis
        using that(3) p by (auto simp: within_caps_def insert_absorb card_insert_if split: if_splits)
    qed
    ultimately show ?thesis using seeded_table_ok[OF _ wf, of ?p key caps now] p by (simp add: within_caps_def)
  qed
  then show ?thesis using assms unfolding res by (auto simp: not_less not_le)
qed

text \<open>One operation at a time, on any session and at any clock reading.\<close>

inductive pg_step :: "(resource \<Rightarrow> resource) \<Rightarrow> (string \<Rightarrow> string) \<Rightarrow> session_caps \<Rightarrow> mock_table \<Rightarrow> mock_table \<Rightarrow> bool"
  for jsonb collation caps where
  "pg_step jsonb collation caps rows (snd (pg_list_resources jsonb collation caps now key path rows))"
| "pg_step jsonb collation caps rows (snd (pg_get_resource jsonb caps now key path rid rows))"
| "pg_step jsonb collation caps rows (snd (pg_put_resource caps now key path rid payload rows))"
| "pg_step jsonb collation caps rows (snd (pg_delete_resource caps now key path rid rows))"
| "pg_step jsonb collation caps rows (snd (pg_replace_session caps now key seed rows))"
| "pg_step jsonb collation caps rows (snd (pg_next_integer_id caps now key path rows))"

lemma pg_step_within_caps:
  assumes "pg_step jsonb collation caps rows rows'" and "0 < ttl_seconds caps" and "within_caps caps rows"
  shows "within_caps caps rows'"
proof -
  have "within_caps caps (touch_session caps key now (pg_purge_expired now rows))" for key now
    unfolding pg_purge_expired_def by (intro within_caps_touch within_caps_filter assms(3))
  with assms show ?thesis
    by (cases rule: pg_step.cases)
      (simp_all add: pg_list_resources_def pg_get_resource_def pg_next_integer_id_def Let_def
        within_caps_put within_caps_delete within_caps_replace)
qed

section \<open>Identifiers\<close>

lemma pg_next_fresh:
  assumes "fst (pg_get_resource jsonb caps now key path rid rows) \<noteq> None" and "py_int rid = Some k"
  shows "k < fst (pg_next_integer_id caps now key path rows)"
proof -
  let ?p = "pg_purge_expired now rows"
  let ?ids = "map mr_rid (filter (\<lambda>r. in_session key now r \<and> mr_path r = path) ?p)"
  have "pg_find key path rid now rows \<noteq> None" using assms(1) by (auto simp: pg_get split: if_splits)
  then obtain r where "find (is_resource key path rid now) ?p = Some r"
    using pg_find_purge[of now now key path rid rows] by (auto simp: pg_find_def)
  from find_member[OF this] have "rid \<in> set ?ids" by (auto simp: is_resource_def)
  then show ?thesis
    using conjunct2[OF fold_max_ge[of 1 ?ids]] assms(2)
    by (simp only: pg_next_integer_id_def Let_def fst_conv)
qed

section \<open>Properties\<close>

text \<open>As long as operations do not overlap, the rows of the table respect the abuse limits in every
  state reached from the empty table, whatever the sessions and clock readings: no primary key
  twice, no session over its resource or byte cap, no more sessions than allowed, counting also
  rows that have expired and are not purged yet.\<close>

theorem postgres_rows_within_caps:
  assumes "(pg_step jsonb collation caps)\<^sup>*\<^sup>* [] rows" and "0 < ttl_seconds caps" and "caps_ok caps"
  shows "distinct (map (\<lambda>r. (mr_key r, mr_path r, mr_rid r)) rows)
    \<and> (\<forall>key. int (length (filter (\<lambda>r. mr_key r = key) rows)) \<le> max_resources caps
          \<and> (\<Sum>r\<leftarrow>filter (\<lambda>r. mr_key r = key) rows. resource_byte_size (mr_resource r)) \<le> max_bytes caps)
    \<and> int (card (mr_key ` set rows)) \<le> max_sessions caps"
proof -
  have ok: "within_caps caps rows"
    using assms(1)
  proof (induction rule: rtranclp_induct)
    case base
    then show ?case using assms(3) by (simp add: within_caps_def table_ok_def rows_of_def caps_ok_def)
  next
    case (step rows rows')
    then show ?case using pg_step_within_caps assms(2) by blast
  qed
  have "(\<Sum>r\<leftarrow>filter P rows. resource_byte_size (mr_resource r)) = (\<Sum>r\<leftarrow>filter P rows. mr_size r)" for P
    using ok by (intro arg_cong[where f = sum_list] map_cong) (auto simp: within_caps_def table_ok_def)
  then show ?thesis using ok by (simp add: within_caps_def rows_of_def table_ok_def)
qed

definition demo_rows :: mock_table where
  "demo_rows = snd (pg_put_resource demo_caps 5 (demo_key ''a'') ''pets'' ''7'' [(''id'', JInt 7)] [])"

lemma postgres_rows_within_caps_witness:
  "int (card (mr_key ` set demo_rows)) \<le> max_sessions demo_caps \<and> length demo_rows = 1"
proof -
  have "pg_step id id demo_caps [] demo_rows" unfolding demo_rows_def by (rule pg_step.intros)
  moreover have "0 < ttl_seconds demo_caps" "caps_ok demo_caps" by (simp_all add: demo_caps_def caps_ok_def)
  moreover have "length demo_rows = 1" by code_simp
  ultimately show ?thesis
    using postgres_rows_within_caps[OF r_into_rtranclp, of id id demo_caps demo_rows] by simp
qed

text \<open>Overlapping writes of two replicas can exceed the caps. Transactions at Postgres's default
  level each count the committed rows before either inserts: from a table within the caps, two
  writes of one session pass the check on the same rows, and after both upserts the session has
  more resources than its cap.\<close>

theorem overlapping_puts_exceed_caps:
  "within_caps demo_caps demo_rows
   \<and> pg_put_check demo_caps 10 (demo_key ''a'') ''pets'' ''8'' (resource_byte_size [(''id'', JInt 8)])
        (pg_purge_expired 10 demo_rows) = None
   \<and> pg_put_check demo_caps 10 (demo_key ''a'') ''pets'' ''9'' (resource_byte_size [(''id'', JInt 9)])
        (pg_purge_expired 10 demo_rows) = None
   \<and> fst (session_stats (demo_key ''a'') 10
        (pg_put_write demo_caps 10 (demo_key ''a'') ''pets'' ''9'' [(''id'', JInt 9)]
          (pg_put_write demo_caps 10 (demo_key ''a'') ''pets'' ''8'' [(''id'', JInt 8)]
            (pg_purge_expired 10 demo_rows)))) > max_resources demo_caps"
proof (intro conjI)
  show "within_caps demo_caps demo_rows"
    unfolding demo_rows_def
    by (rule within_caps_put) (auto simp: within_caps_def table_ok_def rows_of_def demo_caps_def)
qed code_simp+

text \<open>An identifier allocated by the Postgres store exceeds every identifier of the collection
  that reads as an integer, but allocation is not monotonic as the protocol says: no counter is
  stored, so two allocations in a row give the same identifier, and after the newest resource is
  deleted its identifier is given out again.\<close>

theorem postgres_ids_fresh_but_reused:
  "(case (fst (pg_get_resource jsonb caps now key path rid rows), py_int rid) of
        (Some _, Some k) \<Rightarrow> k < fst (pg_next_integer_id caps now key path rows) | _ \<Rightarrow> True)
   \<and> fst (pg_next_integer_id demo_caps 10 (demo_key ''a'') ''pets'' demo_rows) = 8
   \<and> fst (pg_next_integer_id demo_caps 20 (demo_key ''a'') ''pets''
        (snd (pg_next_integer_id demo_caps 10 (demo_key ''a'') ''pets'' demo_rows))) = 8
   \<and> fst (pg_next_integer_id demo_caps 20 (demo_key ''a'') ''pets''
        (snd (pg_delete_resource demo_caps 15 (demo_key ''a'') ''pets'' ''7'' demo_rows))) = 1"
proof (intro conjI)
  show "case (fst (pg_get_resource jsonb caps now key path rid rows), py_int rid) of
        (Some _, Some k) \<Rightarrow> k < fst (pg_next_integer_id caps now key path rows) | _ \<Rightarrow> True"
    using pg_next_fresh[of jsonb caps now key path rid rows] by (auto split: option.splits)
qed code_simp+

end
