(* ===== verification/RateLimit.thy ===== *)
theory RateLimit
  imports Prelude
begin

text \<open>
  The two token-bucket limiters: the mock data plane's
  (\<open>apiome-mock/src/apiome_mock/rate_limit.py\<close>, \<open>TokenBucketRateLimiter\<close>) and the agent surface's
  (\<open>apiome-mcp/src/apiome_mcp/agent_quotas.py\<close>, \<open>TokenBuckets\<close>). The lock makes a check atomic;
  floats are rationals. Their contract is the locale \<open>rate_limiter\<close>, over the tokens a key has at
  a moment; both interpret it. The contract says that dropping idle buckets is invisible, which
  needs a rate of at least one token per 300 seconds and at most 50,000 keys.
\<close>

section \<open>The mock data plane's limiter\<close>

record token_bucket =
  tokens :: rat
  last_update :: rat

type_synonym buckets = "(string, token_bucket) dict"

record limiter =
  lm_buckets :: buckets
  lm_evict_counter :: int

definition empty_limiter :: limiter where
  "empty_limiter = \<lparr>lm_buckets = [], lm_evict_counter = 0\<rparr>"

definition evict_stale :: "rat \<Rightarrow> buckets \<Rightarrow> buckets" where
  "evict_stale now bs =
     (let cutoff = now - 300;
          bs = filter (\<lambda>(_, b). \<not> last_update b < cutoff) bs
      in if length bs > 50000
         then (let sorted_keys = map fst (sort_key (\<lambda>(_, b). last_update b) bs);
                   dropped = set (take (length bs - 50000) sorted_keys)
               in filter (\<lambda>(k, _). k \<notin> dropped) bs)
         else bs)"

definition check :: "limiter \<Rightarrow> string \<Rightarrow> rat \<Rightarrow> rat \<Rightarrow> (bool \<times> int) \<times> limiter" where
  "check lm key rate now =
     (if rate \<le> 0 then ((True, 0), lm)
      else
        (let capacity = max 1 rate;
             counter = lm_evict_counter lm + 1;
             (counter, bs) = (if counter \<ge> 1000 then (0, evict_stale now (lm_buckets lm))
                              else (counter, lm_buckets lm));
             bucket = (case map_of bs key of
                         None \<Rightarrow> \<lparr>tokens = capacity, last_update = now\<rparr> | Some b \<Rightarrow> b);
             elapsed = max 0 (now - last_update bucket);
             available = min capacity (tokens bucket + elapsed * rate)
         in if available \<ge> 1
            then ((True, 0), \<lparr>lm_buckets = AList.update key \<lparr>tokens = available - 1, last_update = now\<rparr> bs,
                              lm_evict_counter = counter\<rparr>)
            else (let deficit = 1 - available
                  in ((False, max 1 \<lceil>deficit / rate\<rceil>),
                      \<lparr>lm_buckets = AList.update key \<lparr>tokens = available, last_update = now\<rparr> bs,
                       lm_evict_counter = counter\<rparr>))))"

text \<open>The seconds to wait, 0 for an allowed call.\<close>

definition wait_of :: "(bool \<times> int) \<times> limiter \<Rightarrow> int \<times> limiter" where
  "wait_of r = (case r of ((allowed, retry), lm) \<Rightarrow> (if allowed then 0 else retry, lm))"

section \<open>The agent surface's limiter\<close>

record agent_buckets =
  ab_buckets :: buckets
  ab_checks :: int

definition empty_buckets :: agent_buckets where
  "empty_buckets = \<lparr>ab_buckets = [], ab_checks = 0\<rparr>"

definition evict_idle :: "rat \<Rightarrow> buckets \<Rightarrow> buckets" where
  "evict_idle now bs =
     (let bs = filter (\<lambda>(_, b). \<not> last_update b < now - 300) bs
      in if length bs > 50000
         then (let oldest = map fst (sort_key (\<lambda>(_, b). last_update b) bs)
               in filter (\<lambda>(k, _). k \<notin> set (take (length bs - 50000) oldest)) bs)
         else bs)"

definition take_token :: "agent_buckets \<Rightarrow> string \<Rightarrow> rat \<Rightarrow> rat \<Rightarrow> int \<times> agent_buckets" where
  "take_token ab key rate now =
     (let capacity = max 1 rate;
          checks = ab_checks ab + 1;
          (checks, bs) = (if checks \<ge> 1000 then (0, evict_idle now (ab_buckets ab)) else (checks, ab_buckets ab));
          bucket = (case map_of bs key of None \<Rightarrow> \<lparr>tokens = capacity, last_update = now\<rparr> | Some b \<Rightarrow> b);
          available = min capacity (tokens bucket + max 0 (now - last_update bucket) * rate)
      in if available \<ge> 1
         then (0, \<lparr>ab_buckets = AList.update key \<lparr>tokens = available - 1, last_update = now\<rparr> bs, ab_checks = checks\<rparr>)
         else (max 1 \<lceil>(1 - available) / rate\<rceil>,
               \<lparr>ab_buckets = AList.update key \<lparr>tokens = available, last_update = now\<rparr> bs, ab_checks = checks\<rparr>))"

section \<open>The contract\<close>

text \<open>A rate at which an idle bucket is full again before it may be dropped.\<close>

definition refills :: "rat \<Rightarrow> bool" where
  "refills rate \<longleftrightarrow> 1 \<le> 300 * rate"

lemma refills_pos: "refills rate \<Longrightarrow> 0 < rate"
  unfolding refills_def by (cases "0 < rate") auto

locale rate_limiter =
  fixes take_one :: "'s \<Rightarrow> string \<Rightarrow> rat \<Rightarrow> rat \<Rightarrow> int \<times> 's"
    and avail :: "'s \<Rightarrow> string \<Rightarrow> rat \<Rightarrow> rat \<Rightarrow> rat"
    and ok :: "string set \<Rightarrow> rat \<Rightarrow> 's \<Rightarrow> bool"
  assumes ok_take: "ok K now st \<Longrightarrow> k \<in> K \<Longrightarrow> refills rate \<Longrightarrow> now \<le> t \<Longrightarrow> ok K t (snd (take_one st k rate t))"
    and ok_later: "ok K now st \<Longrightarrow> now \<le> t \<Longrightarrow> ok K t st"
    and take_result: "ok K now st \<Longrightarrow> refills rate \<Longrightarrow> now \<le> t \<Longrightarrow> fst (take_one st k rate t) =
       (if 1 \<le> avail st k rate t then 0 else max 1 \<lceil>(1 - avail st k rate t) / rate\<rceil>)"
    and avail_self: "ok K now st \<Longrightarrow> refills rate \<Longrightarrow> now \<le> t \<Longrightarrow> t \<le> t' \<Longrightarrow>
       avail (snd (take_one st k rate t)) k rate t' =
         min (max 1 rate) (avail st k rate t - (if fst (take_one st k rate t) = 0 then 1 else 0) + (t' - t) * rate)"
    and avail_other: "ok K now st \<Longrightarrow> k' \<noteq> k \<Longrightarrow> refills rate \<Longrightarrow> refills rate' \<Longrightarrow> now \<le> t \<Longrightarrow> t \<le> t' \<Longrightarrow>
       avail (snd (take_one st k rate t)) k' rate' t' = avail st k' rate' t'"
    and avail_range: "ok K now st \<Longrightarrow> refills rate \<Longrightarrow> 0 \<le> avail st k rate t \<and> avail st k rate t \<le> max 1 rate"
    and avail_grows: "ok K now st \<Longrightarrow> refills rate \<Longrightarrow> now \<le> t \<Longrightarrow> t \<le> t' \<Longrightarrow>
       avail st k rate t' = min (max 1 rate) (avail st k rate t + (t' - t) * rate)"

text \<open>A history of calls, each with its key and clock reading; the waits it is answered.\<close>

fun run_calls :: "('s \<Rightarrow> string \<Rightarrow> rat \<Rightarrow> rat \<Rightarrow> int \<times> 's) \<Rightarrow> (string \<Rightarrow> rat) \<Rightarrow> (string \<times> rat) list \<Rightarrow> 's \<Rightarrow> int list \<times> 's"
where
  "run_calls take_one rates [] st = ([], st)"
| "run_calls take_one rates ((k, t) # cs) st =
     (case take_one st k (rates k) t of (w, st) \<Rightarrow>
        (case run_calls take_one rates cs st of (ws, st) \<Rightarrow> (w # ws, st)))"

definition allowed :: "string \<Rightarrow> (string \<times> rat) list \<Rightarrow> int list \<Rightarrow> nat" where
  "allowed key cs ws = length (filter (\<lambda>((k, _), w). k = key \<and> w = 0) (zip cs ws))"

fun in_order :: "rat \<Rightarrow> (string \<times> rat) list \<Rightarrow> rat \<Rightarrow> bool" where
  "in_order t0 [] t1 \<longleftrightarrow> t0 \<le> t1"
| "in_order t0 ((_, t) # cs) t1 \<longleftrightarrow> t0 \<le> t \<and> in_order t cs t1"

lemma in_order_le: "in_order t0 cs t1 \<Longrightarrow> t0 \<le> t1"
  by (induction t0 cs t1 rule: in_order.induct) auto

lemma allowed_simps [simp]:
  "allowed key [] ws = 0"
  "allowed key ((k, t) # cs) (w # ws) = (if k = key \<and> w = 0 then 1 else 0) + allowed key cs ws"
  by (simp_all add: allowed_def)

context rate_limiter
begin

lemma run_Cons:
  assumes "run_calls take_one rates ((k, t) # cs) st = (ws, st')" and "ok K now st" and "k \<in> K"
    and "refills (rates k)" and "now \<le> t"
  obtains w ws1 st1 where "ws = w # ws1" "take_one st k (rates k) t = (w, st1)" "ok K t st1"
    "run_calls take_one rates cs st1 = (ws1, st')"
proof -
  obtain w st1 where w: "take_one st k (rates k) t = (w, st1)" by (cases "take_one st k (rates k) t")
  moreover have "ok K t st1" using ok_take[OF assms(2-5)] by (simp add: w)
  ultimately show ?thesis using assms(1) that by (auto split: prod.splits)
qed

lemma run_state:
  assumes "run_calls take_one rates cs st = (ws, st')" and "ok K now st" and "fst ` set cs \<subseteq> K"
    and "\<forall>k. refills (rates k)" and "in_order now cs t1"
  shows "ok K t1 st'"
  using assms
proof (induction cs arbitrary: now st ws)
  case Nil
  then show ?case using ok_later by simp
next
  case (Cons c cs)
  obtain k t where c: "c = (k, t)" by (cases c)
  have k: "k \<in> K" "refills (rates k)" "now \<le> t" using Cons.prems(3-5) by (auto simp: c)
  from run_Cons[OF Cons.prems(1)[unfolded c] Cons.prems(2) k] show ?case
    using Cons.IH[of _ _ t] Cons.prems(3-5) by (metis c image_subset_iff in_order.simps(2) list.set_intros(2))
qed

text \<open>What a key was allowed and what it has left come from what it had and what the rate gave.\<close>

lemma allowed_budget:
  assumes "run_calls take_one rates cs st = (ws, st')" and "ok K now st" and "fst ` set cs \<subseteq> K"
    and "\<forall>k. refills (rates k)" and "in_order now cs t1"
  shows "of_nat (allowed key cs ws) + avail st' key (rates key) t1
     \<le> avail st key (rates key) now + rates key * (t1 - now)"
  using assms
proof (induction cs arbitrary: now st ws)
  case Nil
  then show ?case using avail_grows[of K now st "rates key" now t1 key] by (simp add: mult.commute)
next
  case (Cons c cs)
  obtain k t where c: "c = (k, t)" by (cases c)
  have k: "k \<in> K" "refills (rates k)" "now \<le> t" "refills (rates key)" using Cons.prems(3-5) by (auto simp: c)
  from run_Cons[OF Cons.prems(1)[unfolded c] Cons.prems(2) k(1-3)] obtain w ws1 st1 where
    w: "ws = w # ws1" "take_one st k (rates k) t = (w, st1)" "ok K t st1" "run_calls take_one rates cs st1 = (ws1, st')"
    by blast
  have "of_nat (allowed key cs ws1) + avail st' key (rates key) t1 \<le> avail st1 key (rates key) t + rates key * (t1 - t)"
    using Cons.IH[OF w(4,3)] Cons.prems(3-5) by (auto simp: c)
  moreover have "avail st key (rates key) t \<le> avail st key (rates key) now + rates key * (t - now)"
    using avail_grows[OF Cons.prems(2) k(4) order.refl k(3), of key] by (simp add: mult.commute)
  moreover have "(if k = key \<and> w = 0 then 1 else 0) + avail st1 key (rates key) t \<le> avail st key (rates key) t"
  proof (cases "k = key")
    case True
    then show ?thesis using avail_self[OF Cons.prems(2) k(2,3) order.refl, of k] w(2) by simp
  next
    case False
    then show ?thesis using avail_other[OF Cons.prems(2) _ k(2,4,3) order.refl, of key k] w(2) by simp
  qed
  moreover have "rates key * (t1 - now) = rates key * (t1 - t) + rates key * (t - now)"
    by (simp add: right_diff_distrib)
  moreover have "of_nat (allowed key (c # cs) ws) = (if k = key \<and> w = 0 then 1 else 0) + (of_nat (allowed key cs ws1) :: rat)"
    by (simp add: w(1) c)
  ultimately show ?case by linarith
qed

lemma allowed_bound:
  assumes "run_calls take_one rates cs st = (ws, st')" and "ok K now st" and "fst ` set cs \<subseteq> K"
    and "\<forall>k. refills (rates k)" and "in_order now cs t1"
  shows "of_nat (allowed key cs ws) \<le> max 1 (rates key) + rates key * (t1 - now)"
proof -
  have "0 \<le> avail st' key (rates key) t1"
    using avail_range[OF run_state[OF assms]] assms(4) by simp
  moreover have "avail st key (rates key) now \<le> max 1 (rates key)"
    using avail_range[OF assms(2)] assms(4) by simp
  ultimately show ?thesis using allowed_budget[OF assms, of key] by simp
qed

lemma others_keep:
  assumes "run_calls take_one rates cs st = (ws, st')" and "ok K now st" and "fst ` set cs \<subseteq> K"
    and "\<forall>k. refills (rates k)" and "in_order now cs t1" and "key \<notin> fst ` set cs" and "t1 \<le> t2"
  shows "avail st' key (rates key) t2 = avail st key (rates key) t2"
  using assms
proof (induction cs arbitrary: now st ws)
  case (Cons c cs)
  obtain k t where c: "c = (k, t)" by (cases c)
  have k: "k \<in> K" "refills (rates k)" "now \<le> t" "refills (rates key)" "key \<noteq> k" using Cons.prems(3-6) by (auto simp: c)
  from run_Cons[OF Cons.prems(1)[unfolded c] Cons.prems(2) k(1-3)] obtain w ws1 st1 where
    w: "ws = w # ws1" "take_one st k (rates k) t = (w, st1)" "ok K t st1" "run_calls take_one rates cs st1 = (ws1, st')"
    by blast
  have "in_order t cs t1" using Cons.prems(5) by (simp add: c)
  then have "t \<le> t2" using in_order_le Cons.prems(7) by fastforce
  then have "avail st1 key (rates key) t2 = avail st key (rates key) t2"
    using avail_other[OF Cons.prems(2) k(5,2,4,3), of t2] w(2) by simp
  then show ?case
    using Cons.IH[OF w(4,3)] Cons.prems(3-7) \<open>in_order t cs t1\<close> by (auto simp: c)
qed simp

text \<open>A refused call is told the exact wait, to the second.\<close>

lemma retry_exact:
  assumes "take_one st key (rates key) t = (w, st1)" and "w \<noteq> 0"
    and "ok K now st" and "key \<in> K" and "now \<le> t" and "\<forall>k. refills (rates k)"
    and "run_calls take_one rates cs st1 = (ws, st2)" and "fst ` set cs \<subseteq> K" and "key \<notin> fst ` set cs"
    and "in_order t cs t2"
  shows "(t + of_int w \<le> t2 \<longrightarrow> fst (take_one st2 key (rates key) t2) = 0)
     \<and> (t2 \<le> t + of_int w - 1 \<longrightarrow> fst (take_one st2 key (rates key) t2) \<noteq> 0)"
proof -
  let ?r = "rates key" and ?a = "avail st key (rates key) t"
  have r: "refills ?r" "0 < ?r" using assms(6) refills_pos by auto
  have "t \<le> t2" by (rule in_order_le[OF assms(10)])
  have w: "w = max 1 \<lceil>(1 - ?a) / ?r\<rceil>" "?a < 1"
    using take_result[OF assms(3) r(1) assms(5), of key] assms(1,2) by (auto split: if_splits)
  have ok1: "ok K t st1" using ok_take[OF assms(3,4) r(1) assms(5)] by (simp add: assms(1))
  have "avail st2 key ?r t2 = avail st1 key ?r t2"
    by (rule others_keep[OF assms(7) ok1 assms(8,6,10,9) order.refl])
  also have "\<dots> = min (max 1 ?r) (?a + (t2 - t) * ?r)"
    using avail_self[OF assms(3) r(1) assms(5) \<open>t \<le> t2\<close>, of key] assms(1,2) by simp
  finally have have_then: "1 \<le> avail st2 key ?r t2 \<longleftrightarrow> 1 - ?a \<le> (t2 - t) * ?r" by auto
  have "fst (take_one st2 key ?r t2) = 0 \<longleftrightarrow> 1 \<le> avail st2 key ?r t2"
    using take_result[OF run_state[OF assms(7) ok1 assms(8,6,10)] r(1) order.refl, of key] by auto
  also have "\<dots> \<longleftrightarrow> (1 - ?a) / ?r \<le> t2 - t" unfolding have_then using r(2) by (simp add: pos_divide_le_eq)
  finally have granted: "fst (take_one st2 key ?r t2) = 0 \<longleftrightarrow> (1 - ?a) / ?r \<le> t2 - t" .
  show ?thesis
  proof (intro conjI impI)
    assume "t + of_int w \<le> t2"
    moreover have "\<lceil>(1 - ?a) / ?r\<rceil> \<le> w" using w(1) by simp
    then have "(1 - ?a) / ?r \<le> of_int w" by (simp only: ceiling_le_iff)
    ultimately show "fst (take_one st2 key ?r t2) = 0" unfolding granted by linarith
  next
    assume early: "t2 \<le> t + of_int w - 1"
    have "of_int w - 1 < (1 - ?a) / ?r"
    proof (cases "\<lceil>(1 - ?a) / ?r\<rceil> \<le> 1")
      case True
      then show ?thesis using w r(2) by (simp add: max_absorb1)
    next
      case False
      then have "w = \<lceil>(1 - ?a) / ?r\<rceil>" using w(1) by simp
      then show ?thesis by linarith
    qed
    then show "fst (take_one st2 key ?r t2) \<noteq> 0" unfolding granted using early by linarith
  qed
qed

end

section \<open>Both limiters keep the contract\<close>

definition bucket_avail :: "buckets \<Rightarrow> string \<Rightarrow> rat \<Rightarrow> rat \<Rightarrow> rat" where
  "bucket_avail bs key rate now = (case map_of bs key of
       None \<Rightarrow> max 1 rate
     | Some b \<Rightarrow> min (max 1 rate) (tokens b + max 0 (now - last_update b) * rate))"

definition buckets_ok :: "string set \<Rightarrow> rat \<Rightarrow> buckets \<Rightarrow> bool" where
  "buckets_ok K now bs \<longleftrightarrow> finite K \<and> card K \<le> 50000 \<and> wf_dict bs \<and> fst ` set bs \<subseteq> K
     \<and> (\<forall>(_, b) \<in> set bs. 0 \<le> tokens b \<and> last_update b \<le> now)"

definition spend :: "buckets \<Rightarrow> string \<Rightarrow> rat \<Rightarrow> rat \<Rightarrow> int \<times> buckets" where
  "spend bs key rate now = (let a = bucket_avail bs key rate now in
     if 1 \<le> a then (0, AList.update key \<lparr>tokens = a - 1, last_update = now\<rparr> bs)
     else (max 1 \<lceil>(1 - a) / rate\<rceil>, AList.update key \<lparr>tokens = a, last_update = now\<rparr> bs))"

definition drop_idle :: "rat \<Rightarrow> buckets \<Rightarrow> buckets" where
  "drop_idle now bs = filter (\<lambda>(_, b). \<not> last_update b < now - 300) bs"

lemma bucket_avail_cases:
  "min (max 1 rate) (tokens (case map_of bs key of None \<Rightarrow> \<lparr>tokens = max 1 rate, last_update = now\<rparr> | Some b \<Rightarrow> b)
     + max 0 (now - last_update (case map_of bs key of None \<Rightarrow> \<lparr>tokens = max 1 rate, last_update = now\<rparr> | Some b \<Rightarrow> b)) * rate)
   = bucket_avail bs key rate now"
  by (simp add: bucket_avail_def split: option.splits)

lemma buckets_few:
  assumes "buckets_ok K now bs"
  shows "\<not> 50000 < length (drop_idle t bs)"
proof -
  have "length bs = card (fst ` set bs)"
    using assms distinct_card[of "map fst bs"] by (simp add: buckets_ok_def wf_dict_def)
  also have "\<dots> \<le> card K" using assms by (intro card_mono) (auto simp: buckets_ok_def)
  finally have "length bs \<le> 50000" using assms by (simp add: buckets_ok_def)
  moreover have "length (drop_idle t bs) \<le> length bs" unfolding drop_idle_def by (rule length_filter_le)
  ultimately show ?thesis by linarith
qed

lemma evict_drops:
  assumes "buckets_ok K now bs"
  shows "evict_stale t bs = drop_idle t bs" and "evict_idle t bs = drop_idle t bs"
  using buckets_few[OF assms, of t] by (simp_all add: evict_stale_def evict_idle_def drop_idle_def[symmetric] Let_def)

lemma take_token_spends:
  assumes "buckets_ok K now (ab_buckets ab)"
  shows "take_token ab key rate t =
    (let n = ab_checks ab + 1; bs = (if n \<ge> 1000 then drop_idle t (ab_buckets ab) else ab_buckets ab)
     in (fst (spend bs key rate t), \<lparr>ab_buckets = snd (spend bs key rate t), ab_checks = (if n \<ge> 1000 then 0 else n)\<rparr>))"
  by (cases "ab_checks ab + 1 \<ge> 1000")
    (simp_all only: take_token_def evict_drops[OF assms] Let_def spend_def bucket_avail_cases if_True if_False
      prod.case fst_conv snd_conv if_distrib[of fst] if_distrib[of snd] split: if_splits, simp_all)

lemma check_spends:
  assumes "buckets_ok K now (lm_buckets lm)" and "0 < rate"
  shows "wait_of (check lm key rate t) =
    (let n = lm_evict_counter lm + 1; bs = (if n \<ge> 1000 then drop_idle t (lm_buckets lm) else lm_buckets lm)
     in (fst (spend bs key rate t), \<lparr>lm_buckets = snd (spend bs key rate t), lm_evict_counter = (if n \<ge> 1000 then 0 else n)\<rparr>))"
proof -
  have "\<not> rate \<le> 0" using assms(2) by simp
  then show ?thesis
    by (cases "lm_evict_counter lm + 1 \<ge> 1000")
      (simp_all only: check_def evict_drops[OF assms(1)] Let_def spend_def bucket_avail_cases if_True if_False
        prod.case, simp_all add: wait_of_def)
qed

lemma drop_idle_ok: "buckets_ok K now bs \<Longrightarrow> buckets_ok K now (drop_idle t bs)"
  by (auto simp: buckets_ok_def drop_idle_def wf_dict_def distinct_map_filter)

lemma map_of_drop_idle:
  assumes "wf_dict bs"
  shows "map_of (drop_idle t bs) k = (case map_of bs k of None \<Rightarrow> None
     | Some b \<Rightarrow> if last_update b < t - 300 then None else Some b)"
  using assms
proof (induction bs)
  case (Cons e bs)
  then show ?case
    by (cases e) (auto simp: drop_idle_def wf_dict_def split: option.splits dest!: map_of_SomeD intro: rev_image_eqI)
qed (simp add: drop_idle_def)

lemma drop_idle_avail:
  assumes "buckets_ok K now bs" and "refills rate" and "t \<le> t'"
  shows "bucket_avail (drop_idle t bs) k rate t' = bucket_avail bs k rate t'"
proof (cases "map_of bs k")
  case None
  then show ?thesis using assms(1) by (simp add: bucket_avail_def map_of_drop_idle buckets_ok_def)
next
  case (Some b)
  have b: "0 \<le> tokens b" using assms(1) map_of_SomeD[OF Some] by (auto simp: buckets_ok_def)
  have rate: "0 < rate" "1 \<le> 300 * rate" using assms(2) refills_pos by (auto simp: refills_def)
  have "max 1 rate \<le> tokens b + max 0 (t' - last_update b) * rate" if "last_update b < t - 300"
  proof -
    have "300 * rate \<le> (t' - last_update b) * rate" using that assms(3) rate(1) by (intro mult_right_mono) auto
    moreover have "max 1 rate \<le> 300 * rate" using rate by auto
    moreover have "max 0 (t' - last_update b) = t' - last_update b" using that assms(3) by simp
    ultimately show ?thesis using b by linarith
  qed
  then show ?thesis
    using Some assms(1) by (auto simp: bucket_avail_def map_of_drop_idle buckets_ok_def)
qed

lemma bucket_avail_range:
  "buckets_ok K now bs \<Longrightarrow> 0 < rate \<Longrightarrow> 0 \<le> bucket_avail bs k rate t \<and> bucket_avail bs k rate t \<le> max 1 rate"
  by (auto simp: bucket_avail_def buckets_ok_def split: option.splits dest!: map_of_SomeD
      intro!: add_nonneg_nonneg mult_nonneg_nonneg)

lemma max1_nonzero: "max 1 (x :: int) \<noteq> 0"
  by (simp add: max_def)

lemma min_add: "0 \<le> d \<Longrightarrow> min c (x + d) = min c (min c x + d)" for d :: rat
  by (auto simp: min_def)

lemma min_refill:
  fixes rate :: rat
  assumes "0 < rate" and "t \<le> t'" and "l \<le> t"
  shows "min (max 1 rate) (n + max 0 (t' - l) * rate) = min (max 1 rate) (min (max 1 rate) (n + max 0 (t - l) * rate) + (t' - t) * rate)"
proof -
  have "(t' - l) * rate = (t - l) * rate + (t' - t) * rate" by (simp only: left_diff_distrib)
  moreover have "0 \<le> (t' - t) * rate" using assms by simp
  ultimately show ?thesis using assms(2,3) min_add[of "(t' - t) * rate"] by (simp add: add.assoc)
qed

lemma bucket_avail_grows:
  assumes "buckets_ok K now bs" and "0 < rate" and "now \<le> t" and "t \<le> t'"
  shows "bucket_avail bs k rate t' = min (max 1 rate) (bucket_avail bs k rate t + (t' - t) * rate)"
proof (cases "map_of bs k")
  case None
  then show ?thesis using assms(2,4) by (simp add: bucket_avail_def)
next
  case (Some b)
  then have "last_update b \<le> t" using assms(1,3) map_of_SomeD[OF Some] by (auto simp: buckets_ok_def)
  then show ?thesis using min_refill[OF assms(2,4)] by (simp add: bucket_avail_def Some)
qed

lemma buckets_later: "buckets_ok K now bs \<Longrightarrow> now \<le> t \<Longrightarrow> buckets_ok K t bs"
  by (fastforce simp: buckets_ok_def)

lemma spend_ok:
  assumes "buckets_ok K now bs" and "k \<in> K" and "0 < rate" and "now \<le> t"
  shows "buckets_ok K t (snd (spend bs k rate t))"
proof -
  have new: "buckets_ok K t (AList.update k b bs)" if "0 \<le> tokens b" "last_update b \<le> t" for b
  proof -
    have sub: "set (AList.update k b bs) \<subseteq> insert (k, b) (set bs)"
      and keys: "fst ` set (AList.update k b bs) = insert k (fst ` set bs)" by (induction bs) auto
    have "buckets_ok K t bs" by (rule buckets_later[OF assms(1,4)])
    then show ?thesis
      using that sub assms(2) unfolding buckets_ok_def keys by (auto intro: wf_dict_update)
  qed
  show ?thesis
    using bucket_avail_range[OF assms(1,3), of k t] by (auto simp: spend_def Let_def intro!: new)
qed

lemma spend_avail:
  assumes "0 < rate" and "t \<le> t'"
  shows "bucket_avail (snd (spend bs k rate t)) k rate t' =
      min (max 1 rate) (bucket_avail bs k rate t - (if 1 \<le> bucket_avail bs k rate t then 1 else 0) + (t' - t) * rate)"
    and "k' \<noteq> k \<Longrightarrow> bucket_avail (snd (spend bs k rate t)) k' rate' t' = bucket_avail bs k' rate' t'"
  using assms by (auto simp: spend_def Let_def bucket_avail_def[of "AList.update k _ bs"] AList.update_conv')
    (simp_all add: bucket_avail_def)

lemmas buckets_laws = drop_idle_ok spend_ok bucket_avail_range bucket_avail_grows buckets_later

definition evicted :: "bool \<Rightarrow> rat \<Rightarrow> buckets \<Rightarrow> buckets" where
  "evicted due t bs = (if due then drop_idle t bs else bs)"

lemma evicted_ok: "buckets_ok K now bs \<Longrightarrow> buckets_ok K now (evicted due t bs)"
  by (simp add: evicted_def drop_idle_ok)

lemma evicted_avail:
  "buckets_ok K now bs \<Longrightarrow> refills rate \<Longrightarrow> t \<le> t' \<Longrightarrow> bucket_avail (evicted due t bs) k rate t' = bucket_avail bs k rate t'"
  by (simp add: evicted_def drop_idle_avail)

text \<open>A limiter whose check is: evict or not, then spend.\<close>

lemma spending_limiter:
  assumes "\<And>K now st k rate t. buckets_ok K now (bs_of st) \<Longrightarrow> 0 < rate \<Longrightarrow> \<exists>due.
      fst (take_one st k rate t) = fst (spend (evicted due t (bs_of st)) k rate t)
      \<and> bs_of (snd (take_one st k rate t)) = snd (spend (evicted due t (bs_of st)) k rate t)"
  shows "rate_limiter take_one (\<lambda>st. bucket_avail (bs_of st)) (\<lambda>K now st. buckets_ok K now (bs_of st))"
proof (unfold_locales, goal_cases)
  case (1 K now st k rate t)
  then obtain due where "bs_of (snd (take_one st k rate t)) = snd (spend (evicted due t (bs_of st)) k rate t)"
    using assms refills_pos by blast
  then show ?case using spend_ok[OF evicted_ok[OF 1(1)] 1(2) refills_pos[OF 1(3)] 1(4)] by simp
next
  case (2 K now st t)
  then show ?case by (rule buckets_later)
next
  case (3 K now st rate t k)
  then obtain due where "fst (take_one st k rate t) = fst (spend (evicted due t (bs_of st)) k rate t)"
    using assms refills_pos by blast
  then show ?case using evicted_avail[OF 3(1,2) order.refl] by (simp add: spend_def Let_def)
next
  case (4 K now st rate t t' k)
  then obtain due where due: "fst (take_one st k rate t) = fst (spend (evicted due t (bs_of st)) k rate t)"
    "bs_of (snd (take_one st k rate t)) = snd (spend (evicted due t (bs_of st)) k rate t)"
    using assms refills_pos by blast
  have "fst (spend bs k rate t) = 0 \<longleftrightarrow> 1 \<le> bucket_avail bs k rate t" for bs
    by (simp add: spend_def Let_def max1_nonzero)
  then show ?case
    unfolding due spend_avail(1)[OF refills_pos[OF 4(2)] 4(4)] by (simp add: evicted_avail[OF 4(1,2) order.refl])
next
  case (5 K now st k' k rate rate' t t')
  then obtain due where "bs_of (snd (take_one st k rate t)) = snd (spend (evicted due t (bs_of st)) k rate t)"
    using assms refills_pos by blast
  then show ?case
    using spend_avail(2)[OF refills_pos[OF 5(3)] 5(6,2)] evicted_avail[OF 5(1,4,6)] by simp
next
  case (6 K now st rate k t)
  then show ?case using bucket_avail_range refills_pos by blast
next
  case (7 K now st rate t t' k)
  then show ?case using bucket_avail_grows refills_pos by blast
qed

interpretation mock_limiter: rate_limiter "\<lambda>lm key rate now. wait_of (check lm key rate now)"
  "\<lambda>lm. bucket_avail (lm_buckets lm)" "\<lambda>K now lm. buckets_ok K now (lm_buckets lm)"
proof (rule spending_limiter, goal_cases)
  case (1 K now st k rate t)
  show ?case
    unfolding check_spends[OF 1]
    by (rule exI[of _ "lm_evict_counter st + 1 \<ge> 1000"]) (simp add: Let_def evicted_def)
qed

interpretation agent_limiter: rate_limiter take_token
  "\<lambda>ab. bucket_avail (ab_buckets ab)" "\<lambda>K now ab. buckets_ok K now (ab_buckets ab)"
proof (rule spending_limiter, goal_cases)
  case (1 K now st k rate t)
  show ?case
    unfolding take_token_spends[OF 1(1)]
    by (rule exI[of _ "ab_checks st + 1 \<ge> 1000"]) (simp add: Let_def evicted_def)
qed

lemma check_answers: "fst (check lm key rate t) = (True, 0) \<or> (\<exists>v. 1 \<le> v \<and> fst (check lm key rate t) = (False, v))"
proof -
  have ask: "(if P then ((True, 0), a) else ((False, max 1 (x :: int)), b)) = r \<Longrightarrow>
      fst r = (True, 0) \<or> (\<exists>v. 1 \<le> v \<and> fst r = (False, v))" for P x r and a b :: limiter
    by (cases P) auto
  show ?thesis
  proof (cases "rate \<le> 0")
    case False
    then show ?thesis
      by (intro ask) (simp only: check_def Let_def if_False split_def)
  qed (simp add: check_def)
qed

section \<open>Properties\<close>



text \<open>The wait a refused call is told is exact to the second, for both limiters: if the key makes
  no call before then, a call after the wait is let through, and a call more than a second before
  its end is refused, whatever other keys do meanwhile.\<close>

theorem retry_after_is_exact:
  assumes "buckets_ok K now (ab_buckets ab)" and "buckets_ok K now (lm_buckets lm)" and "key \<in> K"
    and "now \<le> t" and "\<forall>k. refills (rates k)" and "fst ` set cs \<subseteq> K - {key}" and "in_order t cs t2"
    and "take_token ab key (rates key) t = (w, ab1)" and "w \<noteq> 0"
    and "check lm key (rates key) t = ((False, v), lm1)"
  shows "(t + of_int w \<le> t2 \<longrightarrow> fst (take_token (snd (run_calls take_token rates cs ab1)) key (rates key) t2) = 0)
     \<and> (t2 \<le> t + of_int w - 1 \<longrightarrow> fst (take_token (snd (run_calls take_token rates cs ab1)) key (rates key) t2) \<noteq> 0)
     \<and> (let lm2 = snd (run_calls (\<lambda>lm key rate now. wait_of (check lm key rate now)) rates cs lm1)
        in (t + of_int v \<le> t2 \<longrightarrow> fst (fst (check lm2 key (rates key) t2)))
         \<and> (t2 \<le> t + of_int v - 1 \<longrightarrow> \<not> fst (fst (check lm2 key (rates key) t2))))"
proof -
  have cs: "fst ` set cs \<subseteq> K" "key \<notin> fst ` set cs" using assms(6) by auto
  have wait: "wait_of (check lm key (rates key) t) = (v, lm1)" by (simp add: assms(10) wait_of_def)
  have r: "0 < rates key" using assms(5) refills_pos by auto
  have "v \<noteq> 0" using check_answers[of lm key "rates key" t] assms(10) by auto
  have granted: "fst (wait_of (check lm' key (rates key) t2)) = 0 \<longleftrightarrow> fst (fst (check lm' key (rates key) t2))" for lm'
    using check_answers[of lm' key "rates key" t2] by (auto simp: wait_of_def split_def)
  show ?thesis
    using agent_limiter.retry_exact[OF assms(8,9,1,3,4,5) surjective_pairing cs assms(7)]
      mock_limiter.retry_exact[OF wait \<open>v \<noteq> 0\<close> assms(2,3,4,5) surjective_pairing cs assms(7)]
    unfolding granted Let_def by simp
qed

lemma retry_after_is_exact_witness:
  "(let ab1 = snd (take_token empty_buckets ''a'' (1/10) 0); ab2 = snd (take_token ab1 ''a'' (1/10) 4)
    in fst (take_token ab1 ''a'' (1/10) 4) = 6
       \<and> fst (take_token (snd (take_token ab2 ''b'' (1/10) 7)) ''a'' (1/10) 10) = 0)"
proof -
  let ?ab = "snd (take_token empty_buckets ''a'' (1/10) 0)"
  let ?lm = "snd (check empty_limiter ''a'' (1/10) 0)"
  have ab: "ab_buckets ?ab = [(''a'', \<lparr>tokens = 0, last_update = 0\<rparr>)]" by code_simp
  have lm: "lm_buckets ?lm = [(''a'', \<lparr>tokens = 0, last_update = 0\<rparr>)]" by code_simp
  have ok: "buckets_ok {''a'', ''b''} 0 (ab_buckets ?ab)" "buckets_ok {''a'', ''b''} 0 (lm_buckets ?lm)"
    unfolding ab lm by (simp_all add: buckets_ok_def wf_dict_def)
  have six: "fst (take_token ?ab ''a'' (1/10) 4) = 6" by code_simp
  have mock: "fst (check ?lm ''a'' (1/10) 4) = (False, 6)" by code_simp
  have "in_order 4 [(''b'', 7 :: rat)] 10" by code_simp
  then have "fst (take_token (snd (run_calls take_token (\<lambda>_. 1/10) [(''b'', 7)] (snd (take_token ?ab ''a'' (1/10) 4)))) ''a'' (1/10) 10) = 0"
    using retry_after_is_exact[OF ok, of "''a''" 4 "\<lambda>_. 1/10" "[(''b'', 7)]" 10 6 _ 6] six mock
    by (simp add: refills_def prod_eq_iff)
  then show ?thesis using six by (simp add: Let_def split_def)
qed

end
