(* ===== verification/AgentQuota.thy ===== *)
theory AgentQuota
  imports RateLimit
begin

text \<open>
  Quotas of agent keys (\<open>apiome-mcp/src/apiome_mcp/agent_quotas.py\<close>): the caps a tenant has, the
  count of a key's calls today and the guard that admits or refuses each call, on top of the
  token buckets of \<open>RateLimit\<close>. What the database answers, or that it fails, is given with each
  call. Clock readings are rationals, the wall clock a number of microseconds UTC. A call runs
  alone: from the last await of \<open>admit\<close> to its end the code is not interrupted.
\<close>

section \<open>Caps and counts\<close>

record agent_limits =
  al_rps :: "rat option"
  al_daily :: "int option"
  al_license :: "string option"

definition free_limits :: agent_limits where
  "free_limits = \<lparr>al_rps = Some 2, al_daily = Some 1000, al_license = None\<rparr>"

datatype db_value = DbNull | DbBool bool | DbNumber rat | DbText string

record quota_row =
  qr_license :: "string option"
  qr_rps :: db_value
  qr_daily :: db_value

definition positive_float :: "db_value \<Rightarrow> rat option" where
  "positive_float raw = (case raw of DbNumber v \<Rightarrow> if v > 0 then Some v else None | _ \<Rightarrow> None)"

definition load_agent_quota_limits :: "quota_row option \<Rightarrow> agent_limits" where
  "load_agent_quota_limits row = (case row of
       None \<Rightarrow> free_limits
     | Some r \<Rightarrow> \<lparr>al_rps = positive_float (qr_rps r), al_daily = map_option floor (positive_float (qr_daily r)),
                  al_license = qr_license r\<rparr>)"

definition count_agent_key_calls :: "int option option \<Rightarrow> int" where
  "count_agent_key_calls row = (case row of Some (Some n) \<Rightarrow> n | _ \<Rightarrow> 0)"

definition day_of :: "int \<Rightarrow> int" where
  "day_of wall = wall div 86400000000"

definition seconds_until_next_utc_day :: "int \<Rightarrow> int" where
  "seconds_until_next_utc_day wall =
     (let midnight = (day_of wall + 1) * 86400000000
      in max 1 \<lceil>(of_int (midnight - wall) :: rat) / 1000000\<rceil>)"

section \<open>The guard\<close>

datatype quota_limit = Rps | DailyCalls

datatype quota_reason = RateLimited | DailyCapReached

definition reason_by_limit :: "quota_limit \<Rightarrow> quota_reason" where
  "reason_by_limit l = (case l of Rps \<Rightarrow> RateLimited | DailyCalls \<Rightarrow> DailyCapReached)"

record quota_refusal =
  rf_limit :: quota_limit
  rf_cap :: rat
  rf_used :: int
  rf_retry_after :: int
  rf_retry_at :: int

record cached_limits =
  cl_limits :: agent_limits
  cl_expires :: rat

record daily_usage =
  du_day :: int
  du_counted :: int
  du_admitted :: int
  du_admitted_today :: int
  du_refresh_at :: rat

definition used :: "daily_usage \<Rightarrow> int" where
  "used u = max (du_counted u + du_admitted u) (du_admitted_today u)"

record quota_guard =
  qg_limits_ttl :: rat
  qg_usage_ttl :: rat
  qg_limits :: "(string, cached_limits) dict"
  qg_usage :: "(string, daily_usage) dict"
  qg_buckets :: agent_buckets

definition new_guard :: "rat \<Rightarrow> rat \<Rightarrow> quota_guard" where
  "new_guard limits_cache_seconds usage_cache_seconds =
     \<lparr>qg_limits_ttl = max 0 limits_cache_seconds, qg_usage_ttl = max 0 usage_cache_seconds,
      qg_limits = [], qg_usage = [], qg_buckets = empty_buckets\<rparr>"

text \<open>\<open>reply\<close> is what the loader returns, \<open>None\<close> when it raises; it is asked only when needed.\<close>

definition limits_for :: "agent_limits option \<Rightarrow> string \<Rightarrow> rat \<Rightarrow> quota_guard \<Rightarrow> agent_limits \<times> quota_guard" where
  "limits_for reply tenant now g =
     (let cached = map_of (qg_limits g) tenant;
          fresh = (let limits = (case reply of Some l \<Rightarrow> l
                                   | None \<Rightarrow> (case cached of Some c \<Rightarrow> cl_limits c | None \<Rightarrow> free_limits))
                   in (limits, g\<lparr>qg_limits := AList.update tenant
                         \<lparr>cl_limits = limits, cl_expires = now + qg_limits_ttl g\<rparr> (qg_limits g)\<rparr>))
      in case cached of
           Some c \<Rightarrow> if now < cl_expires c then (cl_limits c, g) else fresh
         | None \<Rightarrow> fresh)"

definition usage_for :: "int option \<Rightarrow> string \<Rightarrow> int \<Rightarrow> rat \<Rightarrow> quota_guard \<Rightarrow> daily_usage \<times> quota_guard" where
  "usage_for reply key today now g =
     (let start = \<lparr>du_day = today, du_counted = 0, du_admitted = 0, du_admitted_today = 0, du_refresh_at = 0\<rparr>;
          u = (case map_of (qg_usage g) key of
                 None \<Rightarrow> start | Some u \<Rightarrow> if du_day u \<noteq> today then start else u);
          u = (if now \<ge> du_refresh_at u
               then (case reply of
                       Some n \<Rightarrow> u\<lparr>du_counted := n, du_admitted := 0, du_refresh_at := now + qg_usage_ttl g\<rparr>
                     | None \<Rightarrow> u\<lparr>du_refresh_at := now + qg_usage_ttl g\<rparr>)
               else u)
      in (u, g\<lparr>qg_usage := AList.update key u (qg_usage g)\<rparr>))"

record call =
  c_key :: string
  c_tenant :: string
  c_wall :: int
  c_now :: rat
  c_limits :: "agent_limits option"
  c_count :: "int option"

definition rps_step :: "call \<Rightarrow> agent_limits \<Rightarrow> quota_guard \<Rightarrow> quota_refusal option \<times> quota_guard" where
  "rps_step c limits g = (case al_rps limits of
       None \<Rightarrow> (None, g)
     | Some rps \<Rightarrow>
         (case take_token (qg_buckets g) (c_key c) rps (c_now c) of (wait, buckets) \<Rightarrow>
            (if wait \<noteq> 0
             then (Some \<lparr>rf_limit = Rps, rf_cap = rps, rf_used = \<lfloor>max 1 rps\<rfloor>, rf_retry_after = wait,
                     rf_retry_at = c_wall c + wait * 1000000\<rparr>, g\<lparr>qg_buckets := buckets\<rparr>)
             else (None, g\<lparr>qg_buckets := buckets\<rparr>))))"

definition admit :: "call \<Rightarrow> quota_guard \<Rightarrow> quota_refusal option \<times> quota_guard" where
  "admit c g =
     (case limits_for (c_limits c) (c_tenant c) (c_now c) g of (limits, g) \<Rightarrow>
        (case al_daily limits of
           None \<Rightarrow> rps_step c limits g
         | Some cap \<Rightarrow>
             (case usage_for (c_count c) (c_key c) (day_of (c_wall c)) (c_now c) g of (usage, g) \<Rightarrow>
                (if used usage \<ge> cap
                 then (let wait = seconds_until_next_utc_day (c_wall c)
                       in (Some \<lparr>rf_limit = DailyCalls, rf_cap = of_int cap, rf_used = used usage,
                             rf_retry_after = wait, rf_retry_at = c_wall c + wait * 1000000\<rparr>, g))
                 else (case rps_step c limits g of
                         (Some refusal, g) \<Rightarrow> (Some refusal, g)
                       | (None, g) \<Rightarrow>
                           (None, g\<lparr>qg_usage := AList.update (c_key c)
                                     (usage\<lparr>du_admitted := du_admitted usage + 1,
                                        du_admitted_today := du_admitted_today usage + 1\<rparr>) (qg_usage g)\<rparr>))))))"

fun run_admits :: "call list \<Rightarrow> quota_guard \<Rightarrow> bool list \<times> quota_guard" where
  "run_admits [] g = ([], g)"
| "run_admits (c # cs) g =
     (case admit c g of (r, g) \<Rightarrow> (case run_admits cs g of (oks, g) \<Rightarrow> ((r = None) # oks, g)))"
section \<open>One call\<close>

text \<open>The caps that the loader gives for each tenant, a failing load standing for the Free caps.\<close>

definition serves :: "(string \<Rightarrow> agent_limits) \<Rightarrow> call \<Rightarrow> bool" where
  "serves caps c \<longleftrightarrow> (case c_limits c of Some l \<Rightarrow> l = caps (c_tenant c) | None \<Rightarrow> caps (c_tenant c) = free_limits)"

definition cache_ok :: "(string \<Rightarrow> agent_limits) \<Rightarrow> quota_guard \<Rightarrow> bool" where
  "cache_ok caps g \<longleftrightarrow> (\<forall>t c. map_of (qg_limits g) t = Some c \<longrightarrow> cl_limits c = caps t)"

lemma limits_for_caps:
  assumes "cache_ok caps g" and "serves caps c" and "limits_for (c_limits c) (c_tenant c) now g = (l, g1)"
  shows "l = caps (c_tenant c) \<and> cache_ok caps g1 \<and> qg_usage g1 = qg_usage g \<and> qg_buckets g1 = qg_buckets g"
  using assms
  by (auto simp: limits_for_def Let_def serves_def cache_ok_def AList.update_conv' split: option.splits if_splits)

definition spent_on :: "int \<Rightarrow> string \<Rightarrow> quota_guard \<Rightarrow> int" where
  "spent_on d key g = (case map_of (qg_usage g) key of
       None \<Rightarrow> 0 | Some u \<Rightarrow> if du_day u = d then du_admitted_today u else 0)"

definition usage_before :: "int \<Rightarrow> string \<Rightarrow> quota_guard \<Rightarrow> bool" where
  "usage_before d key g \<longleftrightarrow> (\<forall>u. map_of (qg_usage g) key = Some u \<longrightarrow> du_day u \<le> d)"

lemma usage_for_spent:
  assumes "usage_for reply key today now g = (u, g1)"
  shows "du_day u = today \<and> du_admitted_today u = spent_on today key g \<and> qg_usage g1 = AList.update key u (qg_usage g)
     \<and> qg_buckets g1 = qg_buckets g \<and> qg_limits g1 = qg_limits g \<and> spent_on today key g \<le> used u"
  using assms by (auto simp: usage_for_def Let_def spent_on_def used_def split: option.splits if_splits)

text \<open>Whether the call gets as far as the token bucket.\<close>

definition asks_bucket :: "call \<Rightarrow> quota_guard \<Rightarrow> bool" where
  "asks_bucket c g = (case limits_for (c_limits c) (c_tenant c) (c_now c) g of (limits, g) \<Rightarrow>
     al_rps limits \<noteq> None \<and>
     (case al_daily limits of None \<Rightarrow> True
      | Some cap \<Rightarrow> used (fst (usage_for (c_count c) (c_key c) (day_of (c_wall c)) (c_now c) g)) < cap))"

lemma rps_step_simps [simp]:
  "rps_step c limits g = (r, g1) \<Longrightarrow> qg_usage g1 = qg_usage g"
  "rps_step c limits g = (r, g1) \<Longrightarrow> qg_limits g1 = qg_limits g"
  by (auto simp: rps_step_def split: option.splits prod.splits if_splits)

lemma rps_step_bucket:
  "al_rps limits = Some rps \<Longrightarrow> rps_step c limits g = (r, g1) \<Longrightarrow>
     qg_buckets g1 = snd (take_token (qg_buckets g) (c_key c) rps (c_now c))
     \<and> (r = None \<longleftrightarrow> fst (take_token (qg_buckets g) (c_key c) rps (c_now c)) = 0)"
  by (auto simp: rps_step_def split: prod.splits if_splits)

lemma admit_daily:
  assumes "admit c g = (r, g')" and "cache_ok caps g" and "serves caps c" and "al_daily (caps (c_tenant c)) = Some cap"
    and "day = day_of (c_wall c)"
  shows "cache_ok caps g'"
    and "usage_before day (c_key c) g'"
    and "r = None \<Longrightarrow> spent_on day (c_key c) g < cap"
    and "spent_on day (c_key c) g' = spent_on day (c_key c) g + (if r = None then 1 else 0)"
    and "key \<noteq> c_key c \<Longrightarrow> map_of (qg_usage g') key = map_of (qg_usage g) key"
proof -
  obtain l g1 where l: "limits_for (c_limits c) (c_tenant c) (c_now c) g = (l, g1)"
    by (cases "limits_for (c_limits c) (c_tenant c) (c_now c) g")
  note lim = limits_for_caps[OF assms(2,3) l]
  obtain u g2 where u: "usage_for (c_count c) (c_key c) day (c_now c) g1 = (u, g2)"
    by (cases "usage_for (c_count c) (c_key c) day (c_now c) g1")
  note use = usage_for_spent[OF u]
  obtain r3 g3 where rps: "rps_step c l g2 = (r3, g3)" by (cases "rps_step c l g2")
  have day: "spent_on day (c_key c) g1 = spent_on day (c_key c) g" using lim by (simp add: spent_on_def)
  have step: "(r, g') = (if used u \<ge> cap
       then (let wait = seconds_until_next_utc_day (c_wall c)
             in (Some \<lparr>rf_limit = DailyCalls, rf_cap = of_int cap, rf_used = used u,
                   rf_retry_after = wait, rf_retry_at = c_wall c + wait * 1000000\<rparr>, g2))
       else (case r3 of Some refusal \<Rightarrow> (Some refusal, g3)
             | None \<Rightarrow> (None, g3\<lparr>qg_usage := AList.update (c_key c)
                   (u\<lparr>du_admitted := du_admitted u + 1, du_admitted_today := du_admitted_today u + 1\<rparr>) (qg_usage g3)\<rparr>)))"
    using assms(1) conjunct1[OF lim] assms(4) rps
    by (cases "used u \<ge> cap"; cases r3) (auto simp: admit_def l u[unfolded assms(5)] Let_def)
  have limits: "qg_limits g' = qg_limits g1"
    using step use rps_step_simps(2)[OF rps] by (auto simp: Let_def split: if_splits option.splits)
  then show "cache_ok caps g'" using lim by (simp add: cache_ok_def)
  have entry: "map_of (qg_usage g') k = (if k = c_key c then Some (if r = None
         then u\<lparr>du_admitted := du_admitted u + 1, du_admitted_today := du_admitted_today u + 1\<rparr> else u)
       else map_of (qg_usage g) k)" for k
    using step use rps_step_simps(1)[OF rps] lim
    by (auto simp: Let_def AList.update_conv' split: if_splits option.splits)
  show "usage_before day (c_key c) g'" using entry use by (auto simp: usage_before_def)
  show "spent_on day (c_key c) g' = spent_on day (c_key c) g + (if r = None then 1 else 0)"
    using entry[of "c_key c"] use day by (auto simp: spent_on_def[of _ _ g'])
  show "spent_on day (c_key c) g < cap" if "r = None"
    using step that use day by (auto simp: Let_def split: if_splits)
  show "map_of (qg_usage g') key = map_of (qg_usage g) key" if "key \<noteq> c_key c"
    using entry that by simp
qed

lemma admit_bucket:
  assumes "admit c g = (r, g')" and "cache_ok caps g" and "serves caps c"
    and "al_daily (caps (c_tenant c)) = Some cap" and "al_rps (caps (c_tenant c)) = Some rate"
  shows "qg_buckets g' = (if asks_bucket c g then snd (take_token (qg_buckets g) (c_key c) rate (c_now c)) else qg_buckets g)"
    and "r = None \<longleftrightarrow> asks_bucket c g \<and> fst (take_token (qg_buckets g) (c_key c) rate (c_now c)) = 0"
proof -
  obtain l g1 where l: "limits_for (c_limits c) (c_tenant c) (c_now c) g = (l, g1)"
    by (cases "limits_for (c_limits c) (c_tenant c) (c_now c) g")
  note lim = limits_for_caps[OF assms(2,3) l]
  obtain u g2 where u: "usage_for (c_count c) (c_key c) (day_of (c_wall c)) (c_now c) g1 = (u, g2)"
    by (cases "usage_for (c_count c) (c_key c) (day_of (c_wall c)) (c_now c) g1")
  obtain r3 g3 where rps: "rps_step c l g2 = (r3, g3)" by (cases "rps_step c l g2")
  have asks: "asks_bucket c g \<longleftrightarrow> used u < cap" using assms(4,5) conjunct1[OF lim] by (simp add: asks_bucket_def l u)
  have bucket: "qg_buckets g3 = snd (take_token (qg_buckets g) (c_key c) rate (c_now c))"
    "r3 = None \<longleftrightarrow> fst (take_token (qg_buckets g) (c_key c) rate (c_now c)) = 0"
    using rps_step_bucket[OF _ rps, of rate] assms(5) lim usage_for_spent[OF u] by auto
  have "qg_buckets g' = (if asks_bucket c g then qg_buckets g3 else qg_buckets g) \<and> (r = None \<longleftrightarrow> asks_bucket c g \<and> r3 = None)"
    using assms(1,4) conjunct1[OF lim] rps lim usage_for_spent[OF u] unfolding asks
    by (cases "used u \<ge> cap"; cases r3) (auto simp: admit_def l u Let_def)
  then show "qg_buckets g' = (if asks_bucket c g then snd (take_token (qg_buckets g) (c_key c) rate (c_now c)) else qg_buckets g)"
    and "r = None \<longleftrightarrow> asks_bucket c g \<and> fst (take_token (qg_buckets g) (c_key c) rate (c_now c)) = 0"
    using bucket by auto
qed

section \<open>Runs\<close>

definition admitted_on :: "int \<Rightarrow> string \<Rightarrow> call list \<Rightarrow> bool list \<Rightarrow> nat" where
  "admitted_on d key cs oks = length (filter (\<lambda>(c, ok). ok \<and> c_key c = key \<and> day_of (c_wall c) = d) (zip cs oks))"

definition admitted :: "string \<Rightarrow> call list \<Rightarrow> bool list \<Rightarrow> nat" where
  "admitted key cs oks = length (filter (\<lambda>(c, ok). ok \<and> c_key c = key) (zip cs oks))"

fun days_in_order :: "int \<Rightarrow> call list \<Rightarrow> bool" where
  "days_in_order d [] \<longleftrightarrow> True"
| "days_in_order d (c # cs) \<longleftrightarrow> d \<le> day_of (c_wall c) \<and> days_in_order (day_of (c_wall c)) cs"

lemma admitted_simps [simp]:
  "admitted_on d key [] oks = 0" "admitted key [] oks = 0"
  "admitted_on d key (c # cs) (ok # oks) = (if ok \<and> c_key c = key \<and> day_of (c_wall c) = d then 1 else 0) + admitted_on d key cs oks"
  "admitted key (c # cs) (ok # oks) = (if ok \<and> c_key c = key then 1 else 0) + admitted key cs oks"
  by (simp_all add: admitted_on_def admitted_def)

lemma earlier_days: "days_in_order d cs \<Longrightarrow> d' < d \<Longrightarrow> admitted_on d' key cs oks = 0"
proof (induction cs arbitrary: d oks)
  case (Cons c cs)
  then show ?case by (cases oks) (auto simp: admitted_on_def intro: less_le_trans)
qed simp

lemma run_admits_Cons:
  assumes "run_admits (c # cs) g = (oks, g')"
  obtains r g1 oks1 where "admit c g = (r, g1)" "oks = (r = None) # oks1" "run_admits cs g1 = (oks1, g')"
  using assms that by (auto split: prod.splits)

lemma daily_cap_kept:
  assumes "run_admits cs g = (oks, g')" and "cache_ok caps g" and "\<forall>c \<in> set cs. serves caps c"
    and "\<forall>c \<in> set cs. c_key c = key \<longrightarrow> c_tenant c = tenant" and "al_daily (caps tenant) = Some cap" and "0 \<le> cap"
    and "\<forall>c \<in> set cs. al_daily (caps (c_tenant c)) \<noteq> None"
    and "days_in_order d0 cs" and "usage_before d0 key g"
  shows "int (admitted_on d key cs oks) + spent_on d key g \<le> max cap (spent_on d key g)"
  using assms(1-4,7-9)
proof (induction cs arbitrary: g oks d0)
  case Nil
  then show ?case by simp
next
  case (Cons c cs)
  from Cons.prems(1) obtain r g1 oks1 where r: "admit c g = (r, g1)" "oks = (r = None) # oks1" "run_admits cs g1 = (oks1, g')"
    by (rule run_admits_Cons)
  let ?day = "day_of (c_wall c)"
  obtain cap' where cap': "al_daily (caps (c_tenant c)) = Some cap'" using Cons.prems(5) by auto
  note step = admit_daily[OF r(1) Cons.prems(2) _ cap' refl]
  have serves: "serves caps c" and days: "d0 \<le> ?day" "days_in_order ?day cs" using Cons.prems(3,6) by auto
  have before: "usage_before ?day key g1"
  proof (cases "c_key c = key")
    case True
    then show ?thesis using step(2)[OF serves] by simp
  next
    case False
    then show ?thesis using step(5)[OF serves, of key] Cons.prems(7) days(1) by (auto simp: usage_before_def)
  qed
  have IH: "int (admitted_on d key cs oks1) + spent_on d key g1 \<le> max cap (spent_on d key g1)"
    using Cons.IH[OF r(3) step(1)[OF serves] _ _ _ days(2) before] Cons.prems(3-5) by simp
  show ?case
  proof (cases "c_key c = key")
    case False
    then have "spent_on d key g1 = spent_on d key g" using step(5)[OF serves, of key] by (simp add: spent_on_def)
    then show ?thesis using IH False by (simp add: r(2))
  next
    case True
    then have "cap' = cap" using cap' Cons.prems(4) assms(5) by simp
    show ?thesis
    proof (cases "d = ?day")
      case day: True
      show ?thesis using IH step(3,4)[OF serves] True day \<open>cap' = cap\<close> by (auto simp: r(2) max_def split: if_splits)
    next
      case other: False
      show ?thesis
      proof (cases "d < ?day")
        case True
        then show ?thesis using earlier_days[OF days(2)] other by (simp add: r(2))
      next
        case False
        have "spent_on d key g = 0" using Cons.prems(7) days(1) False other by (auto simp: spent_on_def usage_before_def split: option.splits)
        moreover have "spent_on d key g1 = 0" using before False other by (auto simp: spent_on_def usage_before_def split: option.splits)
        ultimately show ?thesis using IH other assms(6) by (simp add: r(2))
      qed
    qed
  qed
qed
text \<open>The checks of the token buckets that a run makes.\<close>

fun bucket_calls :: "call list \<Rightarrow> quota_guard \<Rightarrow> (string \<times> rat) list" where
  "bucket_calls [] g = []"
| "bucket_calls (c # cs) g =
     (if asks_bucket c g then [(c_key c, c_now c)] else []) @ bucket_calls cs (snd (admit c g))"

lemma bucket_calls_keys: "fst ` set (bucket_calls cs g) \<subseteq> c_key ` set cs"
proof (induction cs arbitrary: g)
  case (Cons c cs)
  then show ?case using Cons.IH[of "snd (admit c g)"] by auto
qed simp

lemma in_order_earlier: "in_order t cs t1 \<Longrightarrow> t0 \<le> t \<Longrightarrow> in_order t0 cs t1"
  by (cases cs) (auto simp: split_paired_all)

lemma bucket_calls_in_order:
  "in_order t0 (map (\<lambda>c. (c_key c, c_now c)) cs) t1 \<Longrightarrow> in_order t0 (bucket_calls cs g) t1"
  by (induction cs arbitrary: t0 g) (auto intro: in_order_earlier)

lemma admitted_calls:
  assumes "run_admits cs g = (oks, g')" and "cache_ok caps g" and "\<forall>c \<in> set cs. serves caps c"
    and "\<forall>c \<in> set cs. al_daily (caps (c_tenant c)) \<noteq> None \<and> al_rps (caps (c_tenant c)) = Some (rates (c_key c))"
  shows "snd (run_calls take_token rates (bucket_calls cs g) (qg_buckets g)) = qg_buckets g'
    \<and> admitted key cs oks = allowed key (bucket_calls cs g) (fst (run_calls take_token rates (bucket_calls cs g) (qg_buckets g)))"
  using assms
proof (induction cs arbitrary: g oks)
  case Nil
  then show ?case by simp
next
  case (Cons c cs)
  from Cons.prems(1) obtain r g1 oks1 where r: "admit c g = (r, g1)" "oks = (r = None) # oks1" "run_admits cs g1 = (oks1, g')"
    by (rule run_admits_Cons)
  obtain cap where caps: "al_daily (caps (c_tenant c)) = Some cap" "al_rps (caps (c_tenant c)) = Some (rates (c_key c))"
    using Cons.prems(4) by auto
  have serves: "serves caps c" using Cons.prems(3) by simp
  note step = admit_bucket[OF r(1) Cons.prems(2) serves caps]
  have IH: "snd (run_calls take_token rates (bucket_calls cs g1) (qg_buckets g1)) = qg_buckets g'
    \<and> admitted key cs oks1 = allowed key (bucket_calls cs g1) (fst (run_calls take_token rates (bucket_calls cs g1) (qg_buckets g1)))"
    using Cons.prems(3,4) by (intro Cons.IH[OF r(3) admit_daily(1)[OF r(1) Cons.prems(2) serves caps(1) refl]]) auto
  show ?case
  proof (cases "asks_bucket c g")
    case True
    obtain w bs where w: "take_token (qg_buckets g) (c_key c) (rates (c_key c)) (c_now c) = (w, bs)"
      by (cases "take_token (qg_buckets g) (c_key c) (rates (c_key c)) (c_now c)")
    have "qg_buckets g1 = bs" "r = None \<longleftrightarrow> w = 0" using step True w by simp_all
    then show ?thesis using IH True by (simp add: r(1,2) w split_def)
  next
    case False
    then have "qg_buckets g1 = qg_buckets g" "r \<noteq> None" using step by simp_all
    then show ?thesis using IH False by (simp add: r(1,2))
  qed
qed

section \<open>Properties\<close>

text \<open>An agent key stays within both caps of its tenant, in a process that starts with no state
  and whatever the database counts, lags behind or fails to count: on each UTC day at most the
  daily cap of calls is admitted, and over the whole run at most the burst plus the rate times the
  time spanned. The tenant's caps do not change during the run; the clocks do not go back.\<close>

theorem agent_key_within_caps:
  assumes "\<forall>c \<in> set cs. serves caps c" and "\<forall>c \<in> set cs. al_daily (caps (c_tenant c)) \<noteq> None
      \<and> al_rps (caps (c_tenant c)) = Some (rates (c_key c))"
    and "\<forall>c \<in> set cs. c_key c = key \<longrightarrow> c_tenant c = tenant" and "al_daily (caps tenant) = Some cap" and "0 \<le> cap"
    and "days_in_order d0 cs" and "in_order t0 (map (\<lambda>c. (c_key c, c_now c)) cs) t1"
    and "\<forall>k. refills (rates k)" and "card (c_key ` set cs) \<le> 50000"
  shows "int (admitted_on d key cs (fst (run_admits cs (new_guard lt ut)))) \<le> cap
    \<and> of_nat (admitted key cs (fst (run_admits cs (new_guard lt ut)))) \<le> max 1 (rates key) + rates key * (t1 - t0)"
proof
  let ?g = "new_guard lt ut"
  have start: "cache_ok caps ?g" "usage_before d0 key ?g" "spent_on d key ?g = 0" "qg_buckets ?g = empty_buckets"
    by (simp_all add: new_guard_def cache_ok_def usage_before_def spent_on_def)
  show "int (admitted_on d key cs (fst (run_admits cs ?g))) \<le> cap"
    using daily_cap_kept[OF surjective_pairing start(1) assms(1,3,4,5) _ assms(6) start(2), of d] assms(2,5) start(3) by simp
  let ?K = "c_key ` set cs" and ?cs = "bucket_calls cs ?g"
  have "buckets_ok ?K t0 (ab_buckets empty_buckets)"
    using assms(9) by (simp add: buckets_ok_def empty_buckets_def)
  then have "of_nat (allowed key ?cs (fst (run_calls take_token rates ?cs empty_buckets))) \<le> max 1 (rates key) + rates key * (t1 - t0)"
    by (rule agent_limiter.allowed_bound[OF surjective_pairing _ bucket_calls_keys assms(8) bucket_calls_in_order[OF assms(7)]])
  then show "of_nat (admitted key cs (fst (run_admits cs ?g))) \<le> max 1 (rates key) + rates key * (t1 - t0)"
    using admitted_calls[OF surjective_pairing start(1) assms(1,2), of key] start(4) by simp
qed

definition demo_limits :: "string \<Rightarrow> agent_limits" where
  "demo_limits t = \<lparr>al_rps = Some 1, al_daily = Some 2, al_license = Some ''Free''\<rparr>"

definition demo_call :: "rat \<Rightarrow> int option \<Rightarrow> call" where
  "demo_call now n = \<lparr>c_key = ''k'', c_tenant = ''t'', c_wall = \<lfloor>now\<rfloor> * 1000000, c_now = now,
     c_limits = Some (demo_limits ''t''), c_count = n\<rparr>"

definition demo_calls :: "call list" where
  "demo_calls = [demo_call 1 (Some 0), demo_call (3/2) None, demo_call 3 (Some 0), demo_call 9 None, demo_call 100000 (Some 0)]"

lemma agent_key_within_caps_witness:
  "fst (run_admits demo_calls (new_guard 60 5)) = [True, False, True, False, True]
   \<and> int (admitted_on 0 ''k'' demo_calls (fst (run_admits demo_calls (new_guard 60 5)))) \<le> 2
   \<and> int (admitted_on 0 ''k'' demo_calls (fst (run_admits demo_calls (new_guard 60 5)))) = 2"
proof -
  have ok: "\<forall>c \<in> set demo_calls. serves demo_limits c" "\<forall>c \<in> set demo_calls. al_daily (demo_limits (c_tenant c)) \<noteq> None
      \<and> al_rps (demo_limits (c_tenant c)) = Some 1" "\<forall>c \<in> set demo_calls. c_key c = ''k'' \<longrightarrow> c_tenant c = ''t''"
    by (auto simp: demo_calls_def demo_call_def serves_def demo_limits_def)
  have ordered: "days_in_order 0 demo_calls" "in_order 0 (map (\<lambda>c. (c_key c, c_now c)) demo_calls) 100000" by code_simp+
  have cap: "al_daily (demo_limits ''t'') = Some 2" by (simp add: demo_limits_def)
  have "card (c_key ` set demo_calls) \<le> 50000" by (simp add: demo_calls_def demo_call_def)
  then have "int (admitted_on 0 ''k'' demo_calls (fst (run_admits demo_calls (new_guard 60 5)))) \<le> 2"
    using agent_key_within_caps[OF ok cap _ ordered, of 0 60 5] by (simp add: refills_def)
  moreover have "fst (run_admits demo_calls (new_guard 60 5)) = [True, False, True, False, True]" by code_simp
  moreover have "admitted_on 0 ''k'' demo_calls [True, False, True, False, True] = 2" by code_simp
  ultimately show ?thesis by simp
qed

text \<open>A call refused for the day is told to come back just after the next UTC midnight.\<close>

lemma daily_retry_next_day:
  "day_of (wall + seconds_until_next_utc_day wall * 1000000) = day_of wall + 1
   \<and> (wall + seconds_until_next_utc_day wall * 1000000) - (day_of wall + 1) * 86400000000 < 1000000"
proof -
  define left where "left = (day_of wall + 1) * 86400000000 - wall"
  have left: "0 < left" "left \<le> 86400000000"
    unfolding left_def day_of_def using pos_mod_bound[of 86400000000 wall] pos_mod_sign[of 86400000000 wall]
      div_mult_mod_eq[of wall 86400000000] by (auto simp: algebra_simps)
  have "seconds_until_next_utc_day wall = \<lceil>(of_int left :: rat) / 1000000\<rceil>"
    unfolding seconds_until_next_utc_day_def Let_def left_def[symmetric]
    by (intro max_absorb2) (use left(1) in simp)
  then have up: "(of_int left :: rat) / 1000000 \<le> of_int (seconds_until_next_utc_day wall)"
    "of_int (seconds_until_next_utc_day wall) < (of_int left :: rat) / 1000000 + 1"
    using le_of_int_ceiling[of "(of_int left :: rat) / 1000000"] by linarith+
  then have "(of_int left :: rat) \<le> of_int (seconds_until_next_utc_day wall * 1000000)"
    "(of_int (seconds_until_next_utc_day wall * 1000000) :: rat) < of_int (left + 1000000)" by simp_all
  then have s: "left \<le> seconds_until_next_utc_day wall * 1000000" "seconds_until_next_utc_day wall * 1000000 < left + 1000000"
    by (simp_all only: of_int_le_iff of_int_less_iff)
  have at: "wall + seconds_until_next_utc_day wall * 1000000 =
      (day_of wall + 1) * 86400000000 + (seconds_until_next_utc_day wall * 1000000 - left)"
    by (simp add: left_def)
  have "((day_of wall + 1) * 86400000000 + x) div 86400000000 = day_of wall + 1" if "0 \<le> x" "x < 1000000" for x :: int
    using that by (simp add: div_pos_pos_trivial)
  then show ?thesis using s unfolding at day_of_def[of "_ + _"] by simp
qed

end
