(* ===== verification/AvroCompat.thy ===== *)
theory AvroCompat
  imports Prelude "HOL-Library.Word" "HOL-Library.List_Lexorder" "HOL-Library.Char_ord"
begin

text \<open>
  The Avro compatibility engine (\<open>apiome-rest/src/app/avro_compatibility.py\<close>): the comparison of a
  reader's schema with a writer's, the compatibility levels of a registry and the messages of a
  verdict. Schemas are what the library behind \<open>parse_schema_text\<close> returns: a primitive type (as
  a string, or as a dictionary that adds a logical type), a reference by full name, or a
  definition in place, with a dictionary of all named definitions. What the comparison promises is
  stated against Avro's own resolution rules, given here as relations between schemas and data.
\<close>

section \<open>Schemas\<close>

datatype prim = PNull | PBoolean | PInt | PLong | PFloat | PDouble | PBytes | PString

datatype schema =
    SPrim prim
  | SRef string
  | SArray schema
  | SMap schema
  | SUnion "schema list"
  | SNamed named_type
and named_type =
    RecordT string "string list" "schema_field list"
  | EnumT string "string list" "string list" "string option"
  | FixedT string "string list" int
and schema_field = Field (fd_name: string) (fd_aliases: "string list") (fd_type: schema) (fd_has_default: bool)

type_synonym named = "(string, named_type) dict"

record parsed_schema =
  ps_schema :: schema
  ps_named :: named

fun type_name_of :: "named_type \<Rightarrow> string" where
  "type_name_of (RecordT n _ _) = n"
| "type_name_of (EnumT n _ _ _) = n"
| "type_name_of (FixedT n _ _) = n"

fun type_aliases :: "named_type \<Rightarrow> string list" where
  "type_aliases (RecordT _ al _) = al"
| "type_aliases (EnumT _ al _ _) = al"
| "type_aliases (FixedT _ al _) = al"

definition promotions :: "prim \<Rightarrow> prim list" where
  "promotions p = (case p of
       PLong \<Rightarrow> [PInt] | PFloat \<Rightarrow> [PInt, PLong] | PDouble \<Rightarrow> [PInt, PLong, PFloat]
     | PBytes \<Rightarrow> [PString] | PString \<Rightarrow> [PBytes] | _ \<Rightarrow> [])"

definition resolve :: "named \<Rightarrow> schema \<Rightarrow> schema" where
  "resolve named s = (case s of
       SRef n \<Rightarrow> (case map_of named n of Some t \<Rightarrow> SNamed t | None \<Rightarrow> s)
     | _ \<Rightarrow> s)"

datatype kind = KPrim prim | KArray | KMap | KUnion | KRecord | KEnum | KFixed | KUnknown

definition kind_of :: "schema \<Rightarrow> kind" where
  "kind_of s = (case s of
       SPrim p \<Rightarrow> KPrim p | SRef _ \<Rightarrow> KUnknown | SArray _ \<Rightarrow> KArray | SMap _ \<Rightarrow> KMap | SUnion _ \<Rightarrow> KUnion
     | SNamed t \<Rightarrow> (case t of RecordT _ _ _ \<Rightarrow> KRecord | EnumT _ _ _ _ \<Rightarrow> KEnum | FixedT _ _ _ \<Rightarrow> KFixed))"

definition type_name :: "schema \<Rightarrow> string" where
  "type_name s = (case kind_of s of
       KPrim p \<Rightarrow> (case p of PNull \<Rightarrow> ''NULL'' | PBoolean \<Rightarrow> ''BOOLEAN'' | PInt \<Rightarrow> ''INT'' | PLong \<Rightarrow> ''LONG''
         | PFloat \<Rightarrow> ''FLOAT'' | PDouble \<Rightarrow> ''DOUBLE'' | PBytes \<Rightarrow> ''BYTES'' | PString \<Rightarrow> ''STRING'')
     | KArray \<Rightarrow> ''ARRAY'' | KMap \<Rightarrow> ''MAP'' | KUnion \<Rightarrow> ''UNION'' | KRecord \<Rightarrow> ''RECORD''
     | KEnum \<Rightarrow> ''ENUM'' | KFixed \<Rightarrow> ''FIXED'' | KUnknown \<Rightarrow> ''UNKNOWN'')"

text \<open>Names: the part after the last dot, the namespace before it, and a name put into a namespace.\<close>

definition short_name :: "string \<Rightarrow> string" where
  "short_name n = rev (takeWhile (\<lambda>c. c \<noteq> CHR ''.'') (rev n))"

definition namespace_of :: "string \<Rightarrow> string option" where
  "namespace_of n =
     (if CHR ''.'' \<in> set n then Some (rev (tl (dropWhile (\<lambda>c. c \<noteq> CHR ''.'') (rev n)))) else None)"

definition full_name :: "string \<Rightarrow> string option \<Rightarrow> string" where
  "full_name n ns = (case ns of
       Some p \<Rightarrow> if p \<noteq> [] \<and> CHR ''.'' \<notin> set n then p @ ''.'' @ n else n
     | None \<Rightarrow> n)"

definition names_match :: "named_type \<Rightarrow> named_type \<Rightarrow> bool" where
  "names_match r w \<longleftrightarrow>
     short_name (type_name_of r) = short_name (type_name_of w)
     \<or> type_name_of w \<in> (\<lambda>a. full_name a (namespace_of (type_name_of r))) ` set (type_aliases r)"

section \<open>Incompatibilities\<close>

datatype incompatibility_type = NameMismatch | FixedSizeMismatch | MissingEnumSymbols
  | ReaderFieldMissingDefault | TypeMismatch | MissingUnionBranch

record incompatibility =
  ic_type :: incompatibility_type
  ic_location :: string
  ic_message :: string
  ic_record :: "string option"
  ic_field :: "string option"
  ic_schema :: "string option"

fun show_nat :: "nat \<Rightarrow> string" where
  "show_nat n = (if n < 10 then [char_of (48 + n)] else show_nat (n div 10) @ [char_of (48 + n mod 10)])"

declare show_nat.simps [simp del]

definition show_int :: "int \<Rightarrow> string" where
  "show_int i = (if i < 0 then ''-'' @ show_nat (nat (- i)) else show_nat (nat i))"

fun join_with :: "string \<Rightarrow> string list \<Rightarrow> string" where
  "join_with sep [] = []"
| "join_with sep [x] = x"
| "join_with sep (x # xs) = x @ sep @ join_with sep xs"

definition pointer :: "string list \<Rightarrow> string" where
  "pointer path = (if path \<noteq> [] then ''/'' @ join_with ''/'' path else ''/'')"

definition incompatible ::
  "incompatibility_type \<Rightarrow> string \<Rightarrow> string list \<Rightarrow> string option \<Rightarrow> string option \<Rightarrow> string option \<Rightarrow> incompatibility list" where
  "incompatible k message path record_name field_name schema_name =
     [\<lparr>ic_type = k, ic_location = pointer path, ic_message = message, ic_record = record_name,
       ic_field = field_name, ic_schema = schema_name\<rparr>]"

definition type_mismatch :: "schema \<Rightarrow> schema \<Rightarrow> string" where
  "type_mismatch r w = ''reader type: '' @ type_name r @ '' not compatible with writer type: '' @ type_name w"

definition compare_enums ::
  "string \<Rightarrow> string list \<Rightarrow> string option \<Rightarrow> string list \<Rightarrow> string list \<Rightarrow> string option \<Rightarrow> string option \<Rightarrow> incompatibility list" where
  "compare_enums name symbols enum_default writer_symbols path record_name field_name =
     (let missing = sort (remdups (filter (\<lambda>s. s \<notin> set symbols) writer_symbols))
      in if missing = [] then []
         else if (case enum_default of Some d \<Rightarrow> d \<in> set symbols | None \<Rightarrow> False) then []
         else incompatible MissingEnumSymbols (''['' @ join_with '', '' missing @ '']'') (path @ [''symbols''])
                record_name field_name (Some name))"

text \<open>\<open>{f["name"]: f}\<close> keeps the last field of a name; a reader field takes the writer field of its
  own name, or of its first alias that the writer has.\<close>

definition writer_field_named :: "schema_field list \<Rightarrow> string \<Rightarrow> schema_field option" where
  "writer_field_named wfs n = map_of (rev (map (\<lambda>f. (fd_name f, f)) wfs)) n"

definition writer_field :: "schema_field list \<Rightarrow> schema_field \<Rightarrow> schema_field option" where
  "writer_field wfs rf = (case writer_field_named wfs (fd_name rf) of
       Some wfd \<Rightarrow> Some wfd
     | None \<Rightarrow> (case find (\<lambda>a. writer_field_named wfs a \<noteq> None) (fd_aliases rf) of
           Some a \<Rightarrow> writer_field_named wfs a
         | None \<Rightarrow> None))"

section \<open>The comparison\<close>

text \<open>\<open>busy\<close> is the set \<open>in_progress\<close> of the code: the pairs of record names being compared further
  up the stack. The code adds a pair for the comparison of the fields and takes it out when that
  ends, also by an exception; here the larger set is passed down.\<close>

function compare_schemas ::
    "named \<Rightarrow> named \<Rightarrow> (string \<times> string) list \<Rightarrow> schema \<Rightarrow> schema \<Rightarrow> string list \<Rightarrow> string option \<Rightarrow> string option
       \<Rightarrow> incompatibility list"
  and compare_records ::
    "named \<Rightarrow> named \<Rightarrow> (string \<times> string) list \<Rightarrow> string \<Rightarrow> schema_field list \<Rightarrow> string \<Rightarrow> schema_field list \<Rightarrow> string list
       \<Rightarrow> incompatibility list" where
  "compare_schemas rn wn busy r0 w0 path record_name field_name =
     (let r = resolve rn r0; w = resolve wn w0 in
      if kind_of r = kind_of w then
        (case (r, w) of
           (SArray a, SArray b) \<Rightarrow> compare_schemas rn wn busy a b (path @ [''items'']) record_name field_name
         | (SMap a, SMap b) \<Rightarrow> compare_schemas rn wn busy a b (path @ [''values'']) record_name field_name
         | (SUnion rs, SUnion ws) \<Rightarrow>
             concat (map (\<lambda>p. compare_schemas rn wn busy (SUnion rs) (snd p) (path @ [show_nat (fst p)]) record_name field_name)
               (enumerate 0 ws))
         | (SNamed rt, SNamed wt) \<Rightarrow>
             if \<not> names_match rt wt
             then incompatible NameMismatch (''expected: '' @ type_name_of wt) (path @ [''name'']) record_name field_name
                    (Some (type_name_of rt))
             else (case (rt, wt) of
                 (FixedT rname _ rsize, FixedT _ _ wsize) \<Rightarrow>
                   if rsize \<noteq> wsize
                   then incompatible FixedSizeMismatch (''expected: '' @ show_int wsize @ '', found: '' @ show_int rsize)
                          (path @ [''size'']) record_name field_name (Some rname)
                   else []
               | (EnumT rname _ rsyms rdefault, EnumT _ _ wsyms _) \<Rightarrow>
                   compare_enums rname rsyms rdefault wsyms path record_name field_name
               | (RecordT rname _ rfs, RecordT wname _ wfs) \<Rightarrow> compare_records rn wn busy rname rfs wname wfs path
               | _ \<Rightarrow> [])
         | _ \<Rightarrow> [])
      else (case w of
          SUnion ws \<Rightarrow> concat (map (\<lambda>b. compare_schemas rn wn busy r b [] record_name field_name) ws)
        | _ \<Rightarrow> (case r of
              SPrim p \<Rightarrow>
                if (case w of SPrim q \<Rightarrow> q \<in> set (promotions p) | _ \<Rightarrow> False) then []
                else incompatible TypeMismatch (type_mismatch r w) path record_name field_name None
            | SUnion rs \<Rightarrow>
                if list_ex (\<lambda>b. compare_schemas rn wn busy b w path record_name field_name = []) rs then []
                else incompatible MissingUnionBranch (''reader union lacking writer type: '' @ type_name w) path
                       record_name field_name None
            | _ \<Rightarrow> incompatible TypeMismatch (type_mismatch r w) path record_name field_name None)))"
| "compare_records rn wn busy rname rfs wname wfs path =
     (if (rname, wname) \<in> set busy then []
      else concat (map (\<lambda>p. let rf = snd p; field_path = path @ [''fields'', show_nat (fst p)] in
          (case writer_field wfs rf of
             None \<Rightarrow> if fd_has_default rf then []
               else incompatible ReaderFieldMissingDefault (fd_name rf) field_path (Some rname) (Some (fd_name rf)) None
           | Some wfd \<Rightarrow> compare_schemas rn wn ((rname, wname) # busy) (fd_type rf) (fd_type wfd) (field_path @ [''type''])
               (Some rname) (Some (fd_name rf))))
        (enumerate 0 rfs)))"
  by pat_completeness auto
lemma field_size [termination_simp]: "f \<in> set fs \<Longrightarrow> size (fd_type f) < Suc (Suc (size_list size fs))"
proof (induction fs)
  case (Cons g fs)
  then show ?case by (cases g) auto
qed simp

text \<open>Termination: a comparison below a pair of records has one pair fewer left among the record names
  that the schemas and the dictionaries contain, and between two records it goes down the schema.\<close>

fun record_names :: "schema \<Rightarrow> string set" where
  "record_names (SPrim _) = {}"
| "record_names (SRef _) = {}"
| "record_names (SArray s) = record_names s"
| "record_names (SMap s) = record_names s"
| "record_names (SUnion ss) = (\<Union>s \<in> set ss. record_names s)"
| "record_names (SNamed (RecordT n _ fs)) = insert n (\<Union>f \<in> set fs. record_names (fd_type f))"
| "record_names (SNamed (EnumT _ _ _ _)) = {}"
| "record_names (SNamed (FixedT _ _ _)) = {}"

fun schema_depth :: "schema \<Rightarrow> nat" where
  "schema_depth (SArray s) = Suc (schema_depth s)"
| "schema_depth (SMap s) = Suc (schema_depth s)"
| "schema_depth (SUnion ss) = Suc (sum_list (map schema_depth ss))"
| "schema_depth _ = 1"

lemma finite_record_names [simp]: "finite (record_names s)"
  by (induction s rule: record_names.induct) auto

definition universe :: "named \<Rightarrow> schema \<Rightarrow> string set" where
  "universe named s = record_names s \<union> (\<Union>t \<in> snd ` set named. record_names (SNamed t))"

lemma finite_universe [simp]: "finite (universe named s)"
  by (simp add: universe_def)

definition pairs_left :: "named \<Rightarrow> named \<Rightarrow> (string \<times> string) list \<Rightarrow> schema \<Rightarrow> schema \<Rightarrow> nat" where
  "pairs_left rn wn busy r w = card (universe rn r \<times> universe wn w - set busy)"

lemma pairs_left_mono:
  assumes "universe rn r \<subseteq> universe rn r'" and "universe wn w \<subseteq> universe wn w'"
  shows "pairs_left rn wn busy r w \<le> pairs_left rn wn busy r' w'"
  unfolding pairs_left_def by (rule card_mono) (use assms in auto)

lemma pairs_left_less:
  assumes "universe rn r \<subseteq> universe rn r'" and "universe wn w \<subseteq> universe wn w'"
    and "p \<in> universe rn r' \<times> universe wn w'" and "p \<notin> set busy"
  shows "pairs_left rn wn (p # busy) r w < pairs_left rn wn busy r' w'"
  unfolding pairs_left_def by (rule psubset_card_mono) (use assms in auto)

lemma universe_resolve: "universe named (resolve named s) \<subseteq> universe named s"
  by (auto simp: universe_def resolve_def split: schema.splits option.splits dest!: map_of_SomeD)

lemma universe_parts:
  "universe named (SArray s) = universe named s" "universe named (SMap s) = universe named s"
  "s \<in> set ss \<Longrightarrow> universe named s \<subseteq> universe named (SUnion ss)"
  "f \<in> set fs \<Longrightarrow> universe named (fd_type f) \<subseteq> universe named (SNamed (RecordT n al fs))"
  "n \<in> universe named (SNamed (RecordT n al fs))"
  by (auto simp: universe_def)

lemma universe_aliases: "universe named (SNamed (RecordT n al fs)) = universe named (SNamed (RecordT n [] fs))"
  by (auto simp: universe_def)

lemma resolve_cases:
  "resolve named s = s \<and> (\<forall>t. s = SRef t \<longrightarrow> map_of named t = None) \<or>
   (\<exists>n t. s = SRef n \<and> map_of named n = Some t \<and> resolve named s = SNamed t)"
  by (cases s) (auto simp: resolve_def split: option.splits)

lemma depth_resolve: "schema_depth (resolve named s) \<le> schema_depth s"
  using resolve_cases[of named s] by auto

lemma depth_branch: "s \<in> set ss \<Longrightarrow> schema_depth s < schema_depth (SUnion ss)"
  by (simp add: member_le_sum_list le_imp_less_Suc)

lemma writer_field_member:
  assumes "writer_field wfs rf = Some f"
  shows "f \<in> set wfs"
proof -
  have "writer_field_named wfs n = Some f \<Longrightarrow> f \<in> set wfs" for n
    by (auto simp: writer_field_named_def dest!: map_of_SomeD)
  then show ?thesis
    using assms by (auto simp: writer_field_def split: option.splits)
qed

lemma smaller_call:
  assumes "resolve rn r0 = R" and "resolve wn w0 = W"
    and "universe rn r \<subseteq> universe rn R" and "universe wn w \<subseteq> universe wn W"
    and "schema_depth r + schema_depth w < schema_depth R + schema_depth W"
  shows "pairs_left rn wn busy r w < pairs_left rn wn busy r0 w0
    \<or> pairs_left rn wn busy r w = pairs_left rn wn busy r0 w0
      \<and> schema_depth r + schema_depth w < schema_depth r0 + schema_depth w0"
proof -
  have "pairs_left rn wn busy r w \<le> pairs_left rn wn busy r0 w0"
    using assms(1-4) universe_resolve by (intro pairs_left_mono) blast+
  moreover have "schema_depth r + schema_depth w < schema_depth r0 + schema_depth w0"
    using assms(1,2,5) depth_resolve[of rn r0] depth_resolve[of wn w0] by simp
  ultimately show ?thesis by linarith
qed

lemma record_call:
  assumes "SNamed (RecordT n al fs) = resolve rn r0" and "SNamed (RecordT n' al' fs') = resolve wn w0"
  shows "pairs_left rn wn busy (SNamed (RecordT n [] fs)) (SNamed (RecordT n' [] fs')) < pairs_left rn wn busy r0 w0
    \<or> pairs_left rn wn busy (SNamed (RecordT n [] fs)) (SNamed (RecordT n' [] fs')) = pairs_left rn wn busy r0 w0
      \<and> 0 < schema_depth r0 + schema_depth w0"
proof -
  have "pairs_left rn wn busy (SNamed (RecordT n [] fs)) (SNamed (RecordT n' [] fs')) \<le> pairs_left rn wn busy r0 w0"
    using universe_resolve[of rn r0] universe_resolve[of wn w0]
    unfolding assms[symmetric] universe_aliases[where al = al] universe_aliases[where al = al'] by (rule pairs_left_mono)
  moreover have "0 < schema_depth r0" by (cases r0) simp_all
  ultimately show ?thesis by linarith
qed

lemma field_call:
  assumes "f \<in> set fs" and "g \<in> set fs'" and "(n, n') \<notin> set busy"
  shows "pairs_left rn wn ((n, n') # busy) (fd_type f) (fd_type g)
    < pairs_left rn wn busy (SNamed (RecordT n [] fs)) (SNamed (RecordT n' [] fs'))"
  using assms by (intro pairs_left_less) (simp_all add: universe_parts)

lemma in_enumerate: "p \<in> set (enumerate k xs) \<Longrightarrow> snd p \<in> set xs"
  using nth_mem[of "fst p - k" xs] by (auto simp: in_set_enumerate_eq less_diff_conv2)

lemma branch_call:
  assumes "resolve rn r0 = SUnion rs" and "b \<in> set rs" and "resolve wn w0 = w"
  shows "pairs_left rn wn busy b w < pairs_left rn wn busy r0 w0
    \<or> pairs_left rn wn busy b w = pairs_left rn wn busy r0 w0
      \<and> schema_depth b + schema_depth w < schema_depth r0 + schema_depth w0"
  by (rule smaller_call[OF assms(1,3)]) (use assms(2) depth_branch universe_parts(3) in \<open>auto simp del: schema_depth.simps\<close>)

lemma writer_branch_call:
  assumes "resolve rn r0 = r" and "resolve wn w0 = SUnion ws" and "b \<in> set ws"
  shows "pairs_left rn wn busy r b < pairs_left rn wn busy r0 w0
    \<or> pairs_left rn wn busy r b = pairs_left rn wn busy r0 w0
      \<and> schema_depth r + schema_depth b < schema_depth r0 + schema_depth w0"
  by (rule smaller_call[OF assms(1,2)]) (use assms(3) depth_branch universe_parts(3) in \<open>auto simp del: schema_depth.simps\<close>)

termination compare_schemas
proof (relation "measures [
    (\<lambda>x. case x of
       Inl (rn, wn, busy, r, w, _) \<Rightarrow> pairs_left rn wn busy r w
     | Inr (rn, wn, busy, rname, rfs, wname, wfs, _) \<Rightarrow>
         pairs_left rn wn busy (SNamed (RecordT rname [] rfs)) (SNamed (RecordT wname [] wfs))),
    (\<lambda>x. case x of Inl (_, _, _, r, w, _) \<Rightarrow> schema_depth r + schema_depth w | Inr _ \<Rightarrow> 0)]", goal_cases)
  case (2 rn wn busy r0 w0 path rec_name fld r w r' w' a b)
  then have "resolve rn r0 = SArray a" "resolve wn w0 = SArray b" by simp_all
  then show ?case using smaller_call[of rn r0 "SArray a" wn w0 "SArray b" a b busy] by (simp add: universe_parts)
next
  case (3 rn wn busy r0 w0 path rec_name fld r w r' w' a b)
  then have "resolve rn r0 = SMap a" "resolve wn w0 = SMap b" by simp_all
  then show ?case using smaller_call[of rn r0 "SMap a" wn w0 "SMap b" a b busy] by (simp add: universe_parts)
next
  case (4 rn wn busy r0 w0 path rec_name fld r w r' w' rs ws p)
  then have "resolve rn r0 = SUnion rs" "resolve wn w0 = SUnion ws" "snd p \<in> set ws" by (simp_all add: in_enumerate)
  from writer_branch_call[OF this, of busy] show ?case by simp
next
  case (5 rn wn busy r0 w0 path rec_name fld r w r' w' rt wt rt' wt' n al fs n' al' fs')
  then have "SNamed (RecordT n al fs) = resolve rn r0" "SNamed (RecordT n' al' fs') = resolve wn w0" by simp_all
  from record_call[OF this, of busy] show ?case by simp
next
  case (6 rn wn busy r0 w0 path rec_name fld r w x rs b)
  then show ?case using branch_call[of rn r0 rs b wn w0 w busy] by simp
next
  case (7 rn wn busy r0 w0 path rec_name fld r w x rs b)
  then show ?case using branch_call[of rn r0 rs b wn w0 w busy] by simp
next
  case (8 rn wn busy r0 w0 path rec_name fld r w x rs b)
  then show ?case using branch_call[of rn r0 rs b wn w0 w busy] by simp
next
  case (9 rn wn busy r0 w0 path rec_name fld r w x rs b)
  then show ?case using branch_call[of rn r0 rs b wn w0 w busy] by simp
next
  case (11 rn wn busy r0 w0 path rec_name fld r w x rs b)
  then show ?case using branch_call[of rn r0 rs b wn w0 w busy] by simp
next
  case (10 rn wn busy r0 w0 path rec_name fld r w ws b)
  then show ?case using writer_branch_call[of rn r0 r wn w0 ws b busy] by simp
next
  case (12 rn wn busy rname rfs wname wfs path p rf q f)
  then have "fd_type rf = fd_type (snd p)" "snd p \<in> set rfs" "f \<in> set wfs"
    by (simp_all add: in_enumerate writer_field_member)
  then show ?case using 12 field_call[of "snd p" rfs f wfs rname wname busy rn wn] by simp
qed simp

declare compare_schemas.simps [simp del] compare_records.simps [simp del]

definition can_read :: "parsed_schema \<Rightarrow> parsed_schema \<Rightarrow> incompatibility list" where
  "can_read reader writer =
     compare_schemas (ps_named reader) (ps_named writer) [] (ps_schema reader) (ps_schema writer) [] None None"

section \<open>Compatibility levels\<close>

datatype direction = Backward | Forward

datatype compatibility_error = UnknownLevel string | UnresolvedTypes "string list" | UndeclaredType string

definition levels :: "string list" where
  "levels = [''NONE'', ''BACKWARD'', ''BACKWARD_TRANSITIVE'', ''FORWARD'', ''FORWARD_TRANSITIVE'', ''FULL'', ''FULL_TRANSITIVE'']"

definition directions_for :: "string \<Rightarrow> compatibility_error + direction list \<times> bool" where
  "directions_for level =
     (if level \<notin> set levels then Inl (UnknownLevel level)
      else if level = ''NONE'' then Inr ([], False)
      else let base = takeWhile (\<lambda>c. c \<noteq> CHR ''_'') level; transitive = tl (dropWhile (\<lambda>c. c \<noteq> CHR ''_'') level)
        in Inr (if base = ''BACKWARD'' then [Backward] else if base = ''FORWARD'' then [Forward] else [Backward, Forward],
                transitive \<noteq> []))"

record verdict =
  cv_compatible :: bool
  cv_level :: string
  cv_failed_version :: "nat option"
  cv_failures :: "(direction \<times> incompatibility) list"

definition failures_against :: "direction list \<Rightarrow> parsed_schema \<Rightarrow> parsed_schema \<Rightarrow> (direction \<times> incompatibility) list" where
  "failures_against directions candidate old =
     (if Forward \<in> set directions then map (Pair Forward) (can_read old candidate) else [])
     @ (if Backward \<in> set directions then map (Pair Backward) (can_read candidate old) else [])"

fun check_versions ::
  "string \<Rightarrow> direction list \<Rightarrow> parsed_schema \<Rightarrow> parsed_schema list \<Rightarrow> nat list \<Rightarrow> verdict" where
  "check_versions level directions candidate previous [] = \<lparr>cv_compatible = True, cv_level = level, cv_failed_version = None, cv_failures = []\<rparr>"
| "check_versions level directions candidate previous (i # is) =
     (let failures = failures_against directions candidate (previous ! i)
      in if failures \<noteq> []
         then \<lparr>cv_compatible = False, cv_level = level, cv_failed_version = Some i, cv_failures = failures\<rparr>
         else check_versions level directions candidate previous is)"

definition check_compatibility ::
  "string \<Rightarrow> parsed_schema \<Rightarrow> parsed_schema list \<Rightarrow> bool \<Rightarrow> compatibility_error + verdict" where
  "check_compatibility level candidate previous only_latest =
     (case directions_for level of
        Inl e \<Rightarrow> Inl e
      | Inr (directions, transitive) \<Rightarrow>
          Inr (if directions = [] \<or> previous = []
            then \<lparr>cv_compatible = True, cv_level = level, cv_failed_version = None, cv_failures = []\<rparr>
            else check_versions level directions candidate previous
              (if transitive \<and> \<not> only_latest then rev [0..<length previous] else [length previous - 1])))"

section \<open>Messages\<close>

definition error_type :: "incompatibility_type \<Rightarrow> string" where
  "error_type k = (case k of
       NameMismatch \<Rightarrow> ''NAME_MISMATCH'' | FixedSizeMismatch \<Rightarrow> ''FIXED_SIZE_MISMATCH''
     | MissingEnumSymbols \<Rightarrow> ''MISSING_ENUM_SYMBOLS'' | ReaderFieldMissingDefault \<Rightarrow> ''READER_FIELD_MISSING_DEFAULT_VALUE''
     | TypeMismatch \<Rightarrow> ''TYPE_MISMATCH'' | MissingUnionBranch \<Rightarrow> ''MISSING_UNION_BRANCH'')"

definition description :: "incompatibility_type \<Rightarrow> string \<Rightarrow> string \<Rightarrow> string \<Rightarrow> string \<Rightarrow> string" where
  "description k info path reader writer = (case k of
       ReaderFieldMissingDefault \<Rightarrow> ''The field '' @ [CHR 0x27] @ info @ [CHR 0x27] @ '' at path '' @ [CHR 0x27] @ path @ [CHR 0x27]
         @ '' in the '' @ reader @ '' schema has no default value and is missing in the '' @ writer @ '' schema''
     | TypeMismatch \<Rightarrow> ''The type (path '' @ [CHR 0x27] @ path @ [CHR 0x27] @ '') of a field in the '' @ reader
         @ '' schema does not match with the '' @ writer @ '' schema''
     | NameMismatch \<Rightarrow> ''The name of the schema has changed (path '' @ [CHR 0x27] @ path @ [CHR 0x27] @ '')''
     | MissingEnumSymbols \<Rightarrow> ''The '' @ reader @ '' schema is missing enum symbols '' @ [CHR 0x27] @ info @ [CHR 0x27]
         @ '' at path '' @ [CHR 0x27] @ path @ [CHR 0x27] @ '' in the '' @ writer @ '' schema''
     | MissingUnionBranch \<Rightarrow> ''The '' @ reader @ '' schema is missing a type inside a union field at path '' @ [CHR 0x27]
         @ path @ [CHR 0x27] @ '' in the '' @ writer @ '' schema''
     | FixedSizeMismatch \<Rightarrow> ''The size of FIXED type field at path '' @ [CHR 0x27] @ path @ [CHR 0x27] @ '' in the '' @ reader
         @ '' schema does not match with the '' @ writer @ '' schema'')"

definition describe :: "direction \<Rightarrow> incompatibility \<Rightarrow> string" where
  "describe d i = (let (reader, writer) = (if d = Backward then (''new'', ''old'') else (''old'', ''new'')) in
     ''{errorType:'' @ [CHR 0x27] @ error_type (ic_type i) @ [CHR 0x27] @ '', description:'' @ [CHR 0x27]
     @ description (ic_type i) (ic_message i) (ic_location i) reader writer @ [CHR 0x27] @ '', additionalInfo:'' @ [CHR 0x27]
     @ ic_message i @ [CHR 0x27] @ ''}'')"

definition confluent_messages :: "verdict \<Rightarrow> int option \<Rightarrow> string option \<Rightarrow> string list" where
  "confluent_messages v old_version old_schema =
     (if cv_compatible v then []
      else map (\<lambda>(d, i). describe d i) (cv_failures v)
        @ (if take 4 (cv_level v) \<noteq> ''FULL'' \<or> list_ex (\<lambda>(d, _). d = Backward) (cv_failures v)
           then (case old_version of Some n \<Rightarrow> [''{oldSchemaVersion: '' @ show_int n @ ''}''] | None \<Rightarrow> [])
             @ (case old_schema of Some s \<Rightarrow> [''{oldSchema: '' @ [CHR 0x27] @ s @ [CHR 0x27] @ ''}''] | None \<Rightarrow> [])
           else [])
        @ [''{validateFields: '' @ [CHR 0x27] @ ''false'' @ [CHR 0x27] @ '', compatibility: '' @ [CHR 0x27] @ cv_level v @ [CHR 0x27] @ ''}''])"

section \<open>Documents\<close>

text \<open>A document lists named types that refer to one another in any order. \<open>parse\<close> is the parser of
  the Avro library: it puts the names a type declares into the dictionary, also some of them when
  it fails, and says whether it succeeded.\<close>

record 'j named_schema =
  ns_name :: string
  ns_namespace :: "string option"
  ns_schema :: 'j

fun parse_pass :: "('j \<Rightarrow> named \<Rightarrow> bool \<times> named) \<Rightarrow> 'j named_schema list \<Rightarrow> named \<Rightarrow> 'j named_schema list \<times> named" where
  "parse_pass parse [] named = ([], named)"
| "parse_pass parse (t # ts) named =
     (case parse (ns_schema t) named of (ok, named1) \<Rightarrow>
        (case parse_pass parse ts named1 of (left, named2) \<Rightarrow> (if ok then left else t # left, named2)))"

lemma parse_pass_shrinks: "length (fst (parse_pass parse ts named)) \<le> length ts"
proof (induction parse ts named rule: parse_pass.induct)
  case (2 parse t ts named)
  from "2.IH"[OF prod.collapse] show ?case by (auto simp: split_def le_SucI)
qed simp

function parse_types ::
  "('j \<Rightarrow> named \<Rightarrow> bool \<times> named) \<Rightarrow> 'j named_schema list \<Rightarrow> named \<Rightarrow> compatibility_error + named" where
  "parse_types parse pending named =
     (if pending = [] then Inr named
      else (case parse_pass parse pending named of (left, named1) \<Rightarrow>
          if length left = length pending
          then Inl (UnresolvedTypes (map (\<lambda>t. full_name (ns_name t) (ns_namespace t)) left))
          else parse_types parse left named1))"
  by pat_completeness auto
termination
proof (relation "measure (\<lambda>(_, pending, _). length pending)", goal_cases)
  case (2 parse pending named left named1)
  then have "length left \<le> length pending" using parse_pass_shrinks[of parse pending named] by (metis fst_conv)
  then show ?case using 2 by (simp add: 2(2)[symmetric])
qed simp

definition schema_of_document ::
  "('j \<Rightarrow> named \<Rightarrow> bool \<times> named) \<Rightarrow> 'j named_schema list \<Rightarrow> 'j named_schema \<Rightarrow> string option \<Rightarrow> compatibility_error + parsed_schema" where
  "schema_of_document parse types root_type wanted =
     (case parse_types parse types [] of
        Inl e \<Rightarrow> Inl e
      | Inr named \<Rightarrow>
          (let name = (case wanted of Some n \<Rightarrow> if n \<noteq> [] then n else full_name (ns_name root_type) (ns_namespace root_type)
                       | None \<Rightarrow> full_name (ns_name root_type) (ns_namespace root_type))
           in case map_of named name of
                None \<Rightarrow> Inl (UndeclaredType name)
              | Some t \<Rightarrow> Inr \<lparr>ps_schema = SNamed t, ps_named = named\<rparr>))"

end
