(* ===== verification/AvroSound.thy ===== *)
theory AvroSound
  imports AvroCompat
begin

text \<open>
  What the Avro compatibility check promises. The resolution rules of the Avro specification are
  given as relations on data (\<open>has_type\<close>, \<open>reads\<close>); a comparison without findings is
  sound for them, recursive schemas included, and a schema is always compatible with itself.
\<close>

section \<open>Schema resolution\<close>

text \<open>Avro data, the data of a schema, and which data written with one schema another schema reads,
  after the resolution rules of the specification: a union is written as the index of a branch and
  the branch's data, a record as its fields' data in the writer's order.\<close>

datatype prim_value = DNull | DBoolean bool | DInt "32 word" | DLong "64 word" | DFloat "32 word" | DDouble "64 word"
  | DBytes "8 word list" | DString string

fun prim_of :: "prim_value \<Rightarrow> prim" where
  "prim_of DNull = PNull" | "prim_of (DBoolean _) = PBoolean" | "prim_of (DInt _) = PInt" | "prim_of (DLong _) = PLong"
| "prim_of (DFloat _) = PFloat" | "prim_of (DDouble _) = PDouble" | "prim_of (DBytes _) = PBytes" | "prim_of (DString _) = PString"

datatype avro_data =
    VPrim prim_value
  | VArray "avro_data list"
  | VMap "(string \<times> avro_data) list"
  | VUnion nat avro_data
  | VRecord "avro_data list"
  | VEnum string
  | VFixed "8 word list"

inductive has_type :: "named \<Rightarrow> schema \<Rightarrow> avro_data \<Rightarrow> bool" for named where
  t_prim: "prim_of v = p \<Longrightarrow> has_type named (SPrim p) (VPrim v)"
| t_ref: "map_of named n = Some t \<Longrightarrow> has_type named (SNamed t) v \<Longrightarrow> has_type named (SRef n) v"
| t_array: "\<forall>v \<in> set vs. has_type named s v \<Longrightarrow> has_type named (SArray s) (VArray vs)"
| t_map: "\<forall>v \<in> snd ` set kvs. has_type named s v \<Longrightarrow> has_type named (SMap s) (VMap kvs)"
| t_union: "i < length ss \<Longrightarrow> has_type named (ss ! i) v \<Longrightarrow> has_type named (SUnion ss) (VUnion i v)"
| t_record: "length vs = length fs \<Longrightarrow> \<forall>i < length fs. has_type named (fd_type (fs ! i)) (vs ! i)
    \<Longrightarrow> has_type named (SNamed (RecordT n al fs)) (VRecord vs)"
| t_enum: "s \<in> set symbols \<Longrightarrow> has_type named (SNamed (EnumT n al symbols d)) (VEnum s)"
| t_fixed: "int (length bs) = k \<Longrightarrow> has_type named (SNamed (FixedT n al k)) (VFixed bs)"

inductive reads :: "named \<Rightarrow> named \<Rightarrow> schema \<Rightarrow> schema \<Rightarrow> avro_data \<Rightarrow> bool" for rn wn where
  r_prim: "p = q \<or> q \<in> set (promotions p) \<Longrightarrow> reads rn wn (SPrim p) (SPrim q) (VPrim v)"
| r_reader_ref: "map_of rn n = Some t \<Longrightarrow> reads rn wn (SNamed t) w v \<Longrightarrow> reads rn wn (SRef n) w v"
| r_writer_ref: "map_of wn n = Some t \<Longrightarrow> reads rn wn r (SNamed t) v \<Longrightarrow> reads rn wn r (SRef n) v"
| r_array: "\<forall>v \<in> set vs. reads rn wn r w v \<Longrightarrow> reads rn wn (SArray r) (SArray w) (VArray vs)"
| r_map: "\<forall>v \<in> snd ` set kvs. reads rn wn r w v \<Longrightarrow> reads rn wn (SMap r) (SMap w) (VMap kvs)"
| r_writer_union: "i < length ws \<Longrightarrow> reads rn wn r (ws ! i) v \<Longrightarrow> reads rn wn r (SUnion ws) (VUnion i v)"
| r_reader_union: "r \<in> set rs \<Longrightarrow> reads rn wn r w v \<Longrightarrow> reads rn wn (SUnion rs) w v"
| r_record: "names_match (RecordT n al rfs) (RecordT n' al' wfs) \<Longrightarrow> length vs = length wfs
    \<Longrightarrow> \<forall>rf \<in> set rfs.
          (\<exists>i < length wfs. (fd_name (wfs ! i) = fd_name rf \<or> fd_name (wfs ! i) \<in> set (fd_aliases rf))
             \<and> reads rn wn (fd_type rf) (fd_type (wfs ! i)) (vs ! i))
          \<or> fd_has_default rf \<and> (\<forall>f \<in> set wfs. fd_name f \<noteq> fd_name rf \<and> fd_name f \<notin> set (fd_aliases rf))
    \<Longrightarrow> reads rn wn (SNamed (RecordT n al rfs)) (SNamed (RecordT n' al' wfs)) (VRecord vs)"
| r_enum: "names_match (EnumT n al rsyms d) (EnumT n' al' wsyms d')
    \<Longrightarrow> s \<in> set rsyms \<or> (\<exists>x. d = Some x \<and> x \<in> set rsyms)
    \<Longrightarrow> reads rn wn (SNamed (EnumT n al rsyms d)) (SNamed (EnumT n' al' wsyms d')) (VEnum s)"
| r_fixed: "names_match (FixedT n al k) (FixedT n' al' k)
    \<Longrightarrow> reads rn wn (SNamed (FixedT n al k)) (SNamed (FixedT n' al' k)) (VFixed bs)"

inductive_cases typed_prim: "has_type named (SPrim p) v"
inductive_cases typed_ref: "has_type named (SRef n) v"
inductive_cases typed_array: "has_type named (SArray s) v"
inductive_cases typed_map: "has_type named (SMap s) v"
inductive_cases typed_union: "has_type named (SUnion ss) v"
inductive_cases typed_record: "has_type named (SNamed (RecordT n al fs)) v"
inductive_cases typed_enum: "has_type named (SNamed (EnumT n al ss d)) v"
inductive_cases typed_fixed: "has_type named (SNamed (FixedT n al k)) v"

lemmas typed_elims = typed_prim typed_array typed_map typed_union typed_record typed_enum typed_fixed

text \<open>What the parser guarantees: every reference is declared, and a definition met in place is the
  one the dictionary holds under its name.\<close>

fun well_named :: "named \<Rightarrow> schema \<Rightarrow> bool" where
  "well_named named (SPrim _) = True"
| "well_named named (SRef n) = (map_of named n \<noteq> None)"
| "well_named named (SArray s) = well_named named s"
| "well_named named (SMap s) = well_named named s"
| "well_named named (SUnion ss) = (\<forall>s \<in> set ss. well_named named s)"
| "well_named named (SNamed (RecordT n al fs)) =
     (map_of named n = Some (RecordT n al fs) \<and> (\<forall>f \<in> set fs. well_named named (fd_type f)))"
| "well_named named (SNamed (EnumT _ _ _ _)) = True"
| "well_named named (SNamed (FixedT _ _ _)) = True"

definition well_parsed :: "parsed_schema \<Rightarrow> bool" where
  "well_parsed p \<longleftrightarrow> well_named (ps_named p) (ps_schema p)
     \<and> (\<forall>t \<in> snd ` set (ps_named p). well_named (ps_named p) (SNamed t))"

section \<open>Soundness\<close>

fun data_size :: "avro_data \<Rightarrow> nat" where
  "data_size (VPrim _) = 1"
| "data_size (VArray vs) = Suc (sum_list (map data_size vs))"
| "data_size (VMap kvs) = Suc (sum_list (map (\<lambda>(k, v). data_size v) kvs))"
| "data_size (VUnion _ v) = Suc (data_size v)"
| "data_size (VRecord vs) = Suc (sum_list (map data_size vs))"
| "data_size (VEnum _) = 1"
| "data_size (VFixed _) = 1"

lemma data_size_array: "v \<in> set vs \<Longrightarrow> data_size v < data_size (VArray vs)"
  by (simp add: member_le_sum_list le_imp_less_Suc)

lemma data_size_record: "i < length vs \<Longrightarrow> data_size (vs ! i) < data_size (VRecord vs)"
  by (simp add: member_le_sum_list le_imp_less_Suc)

lemma data_size_map: "v \<in> snd ` set kvs \<Longrightarrow> data_size v < data_size (VMap kvs)"
proof -
  assume "v \<in> snd ` set kvs"
  then have "data_size v \<in> set (map (\<lambda>(k, v). data_size v) kvs)" by force
  then show ?thesis by (simp add: member_le_sum_list le_imp_less_Suc)
qed

lemma well_named_resolve:
  assumes "well_named named s" and "\<forall>t \<in> snd ` set named. well_named named (SNamed t)"
  shows "well_named named (resolve named s)"
  using assms by (cases s) (force simp: resolve_def split: option.splits dest: map_of_SomeD)+

lemma typed_resolve: "has_type named s v \<Longrightarrow> has_type named (resolve named s) v"
  by (cases s) (auto simp: resolve_def elim: typed_ref)

lemma reads_resolve: "reads rn wn (resolve rn r) (resolve wn w) v \<Longrightarrow> reads rn wn r w v"
proof -
  assume "reads rn wn (resolve rn r) (resolve wn w) v"
  then have "reads rn wn (resolve rn r) w v"
    by (cases w) (auto simp: resolve_def[of wn] intro: r_writer_ref split: option.splits)
  then show ?thesis
    by (cases r) (auto simp: resolve_def[of rn] intro: r_reader_ref split: option.splits)
qed

lemma resolved_not_ref:
  assumes "well_named named s" shows "resolve named s \<noteq> SRef n"
  using assms by (cases s) (auto simp: resolve_def split: option.splits)

text \<open>The pairs in progress may be relied on, for data smaller than the datum in question.\<close>

definition relied_on :: "named \<Rightarrow> named \<Rightarrow> nat \<Rightarrow> (string \<times> string) list \<Rightarrow> bool" where
  "relied_on rn wn m busy \<longleftrightarrow> (\<forall>p \<in> set busy. \<forall>R W v. map_of rn (fst p) = Some R \<longrightarrow> map_of wn (snd p) = Some W \<longrightarrow>
     data_size v < m \<longrightarrow> has_type wn (SNamed W) v \<longrightarrow> reads rn wn (SNamed R) (SNamed W) v)"

lemma relied_on_less: "relied_on rn wn m busy \<Longrightarrow> k \<le> m \<Longrightarrow> relied_on rn wn k busy"
  unfolding relied_on_def using order_less_le_trans by blast

lemma writer_field_matches:
  assumes "writer_field wfs rf = Some f"
  shows "fd_name f = fd_name rf \<or> fd_name f \<in> set (fd_aliases rf)"
proof -
  have name: "writer_field_named wfs n = Some f \<Longrightarrow> fd_name f = n" for n
    by (auto simp: writer_field_named_def dest!: map_of_SomeD)
  then show ?thesis
    using assms by (auto simp: writer_field_def find_Some_iff split: option.splits)
qed

lemma writer_field_none:
  assumes "writer_field wfs rf = None" and "f \<in> set wfs"
  shows "fd_name f \<noteq> fd_name rf \<and> fd_name f \<notin> set (fd_aliases rf)"
proof -
  have none: "writer_field_named wfs n = None \<longleftrightarrow> n \<notin> fd_name ` set wfs" for n
    by (simp add: writer_field_named_def map_of_eq_None_iff image_image)
  have "fd_name rf \<notin> fd_name ` set wfs" "\<forall>a \<in> set (fd_aliases rf). a \<notin> fd_name ` set wfs"
    using assms(1) by (auto simp: writer_field_def find_None_iff find_Some_iff none split: option.splits)
  then show ?thesis using imageI[OF assms(2), of fd_name] by metis
qed

lemma record_reads:
  assumes "names_match (RecordT n al rfs) (RecordT n' al' wfs)"
    and "\<And>i rf f m v. rf \<in> set rfs \<Longrightarrow> writer_field wfs rf = Some f \<Longrightarrow> relied_on rn wn m ((n, n') # busy)
      \<Longrightarrow> data_size v < m \<Longrightarrow> has_type wn (fd_type f) v \<Longrightarrow> reads rn wn (fd_type rf) (fd_type f) v"
    and "\<And>rf. rf \<in> set rfs \<Longrightarrow> writer_field wfs rf = None \<Longrightarrow> fd_has_default rf"
    and "map_of rn n = Some (RecordT n al rfs)" and "map_of wn n' = Some (RecordT n' al' wfs)"
    and "relied_on rn wn m busy"
  shows "data_size v < m \<Longrightarrow> has_type wn (SNamed (RecordT n' al' wfs)) v
    \<Longrightarrow> reads rn wn (SNamed (RecordT n al rfs)) (SNamed (RecordT n' al' wfs)) v"
proof (induction "data_size v" arbitrary: v rule: less_induct)
  case less
  from less.prems(2) obtain vs where vs: "v = VRecord vs" "length vs = length wfs"
    "\<forall>i < length wfs. has_type wn (fd_type (wfs ! i)) (vs ! i)"
    by (auto elim: typed_record)
  have rely: "relied_on rn wn (data_size v) ((n, n') # busy)"
    using less relied_on_less[OF assms(6), of "data_size v"] assms(4,5) by (simp add: relied_on_def)
  have "(\<exists>i < length wfs. (fd_name (wfs ! i) = fd_name rf \<or> fd_name (wfs ! i) \<in> set (fd_aliases rf))
             \<and> reads rn wn (fd_type rf) (fd_type (wfs ! i)) (vs ! i))
          \<or> fd_has_default rf \<and> (\<forall>f \<in> set wfs. fd_name f \<noteq> fd_name rf \<and> fd_name f \<notin> set (fd_aliases rf))"
    if rf: "rf \<in> set rfs" for rf
  proof (cases "writer_field wfs rf")
    case None
    then show ?thesis using assms(3)[OF rf] writer_field_none by blast
  next
    case (Some f)
    then obtain i where i: "i < length wfs" "wfs ! i = f"
      using writer_field_member by (metis in_set_conv_nth)
    then have "data_size (vs ! i) < data_size v" using vs(1,2) by (simp only: data_size_record)
    then have "reads rn wn (fd_type rf) (fd_type f) (vs ! i)"
      using assms(2)[OF rf Some rely] vs(3) i by blast
    then show ?thesis using i writer_field_matches[OF Some] by blast
  qed
  then show ?case unfolding vs(1) using vs(2) assms(1) by (intro r_record) blast+
qed

lemma same_kind_cases [consumes 1, case_names prims refs arrays maps unions records enums fixeds]:
  assumes "kind_of r = kind_of w"
  obtains p where "r = SPrim p" "w = SPrim p"
    | n n' where "r = SRef n" "w = SRef n'"
    | a b where "r = SArray a" "w = SArray b"
    | a b where "r = SMap a" "w = SMap b"
    | rs ws where "r = SUnion rs" "w = SUnion ws"
    | n al fs n' al' fs' where "r = SNamed (RecordT n al fs)" "w = SNamed (RecordT n' al' fs')"
    | n al ss d n' al' ss' d' where "r = SNamed (EnumT n al ss d)" "w = SNamed (EnumT n' al' ss' d')"
    | n al k n' al' k' where "r = SNamed (FixedT n al k)" "w = SNamed (FixedT n' al' k')"
  using assms by (cases r; cases w) (auto simp: kind_of_def split: named_type.splits)

lemma enum_compared:
  assumes "compare_enums n ss d ss' path record_name field_name = []" and "e \<in> set ss'"
  shows "e \<in> set ss \<or> (\<exists>x. d = Some x \<and> x \<in> set ss)"
proof (rule ccontr)
  assume no: "\<not> ?thesis"
  then have "e \<in> set (sort (remdups (filter (\<lambda>s. s \<notin> set ss) ss')))" using assms(2) by simp
  then have "sort (remdups (filter (\<lambda>s. s \<notin> set ss) ss')) \<noteq> []" by (metis empty_iff empty_set)
  then show False using assms(1) no by (auto simp: compare_enums_def Let_def incompatible_def split: option.splits)
qed

lemma compare_sound:
  "compare_schemas rn wn busy r w path record_name field_name = []
    \<Longrightarrow> \<forall>t \<in> snd ` set rn. well_named rn (SNamed t) \<Longrightarrow> \<forall>t \<in> snd ` set wn. well_named wn (SNamed t)
    \<Longrightarrow> well_named rn r \<Longrightarrow> well_named wn w \<Longrightarrow> relied_on rn wn m busy \<Longrightarrow> data_size v < m \<Longrightarrow> has_type wn w v
    \<Longrightarrow> reads rn wn r w v"
  "compare_records rn wn busy n rfs n' wfs path = []
    \<Longrightarrow> \<forall>t \<in> snd ` set rn. well_named rn (SNamed t) \<Longrightarrow> \<forall>t \<in> snd ` set wn. well_named wn (SNamed t)
    \<Longrightarrow> (n, n') \<notin> set busy \<Longrightarrow> \<forall>f \<in> set rfs. well_named rn (fd_type f) \<Longrightarrow> \<forall>f \<in> set wfs. well_named wn (fd_type f)
    \<Longrightarrow> rf \<in> set rfs \<Longrightarrow> (writer_field wfs rf = None \<longrightarrow> fd_has_default rf)
      \<and> (\<forall>f. writer_field wfs rf = Some f \<longrightarrow> relied_on rn wn m ((n, n') # busy) \<longrightarrow> data_size v < m
          \<longrightarrow> has_type wn (fd_type f) v \<longrightarrow> reads rn wn (fd_type rf) (fd_type f) v)"
proof (induction rn wn busy r w path record_name field_name and rn wn busy n rfs n' wfs path
    arbitrary: m v and m v rf rule: compare_schemas_compare_records.induct)
  case (1 rn wn busy r w path record_name field_name m v)
  note IH = "1.IH" and prems = "1.prems"
  let ?R = "resolve rn r" and ?W = "resolve wn w"
  note unfolded = compare_schemas.simps[of rn wn busy r w path record_name field_name]
  have wn': "well_named rn ?R" "well_named wn ?W" using prems(2-5) well_named_resolve by blast+
  have noref: "?R \<noteq> SRef k" "?W \<noteq> SRef k" for k using prems(4,5) resolved_not_ref by blast+
  have typed: "has_type wn ?W v" using prems(8) typed_resolve by blast
  have "reads rn wn ?R ?W v"
  proof (cases "kind_of ?R = kind_of ?W")
    case True
    then show ?thesis
    proof (cases rule: same_kind_cases)
      case (prims p)
      then show ?thesis using typed by (auto elim: typed_prim intro: r_prim)
    next
      case (refs n n')
      then show ?thesis using noref by blast
    next
      case (arrays a b)
      then obtain vs where vs: "v = VArray vs" "\<forall>u \<in> set vs. has_type wn b u"
        using typed by (auto elim: typed_array)
      have "compare_schemas rn wn busy a b (path @ [''items'']) record_name field_name = []"
        using prems(1) arrays True by (simp add: unfolded)
      from IH(1)[OF refl refl True refl arrays this prems(2,3)] wn' arrays prems(6)
      have "reads rn wn a b u" if "u \<in> set vs" for u
        using vs(2) that data_size_array[OF that] prems(7) vs(1) by auto
      then show ?thesis using arrays vs(1) by (simp add: r_array)
    next
      case (maps a b)
      then obtain kvs where vs: "v = VMap kvs" "\<forall>u \<in> snd ` set kvs. has_type wn b u"
        using typed by (auto elim: typed_map)
      have "compare_schemas rn wn busy a b (path @ [''values'']) record_name field_name = []"
        using prems(1) maps True by (simp add: unfolded)
      from IH(2)[OF refl refl True refl maps this prems(2,3)] wn' maps prems(6)
      have "reads rn wn a b u" if "u \<in> snd ` set kvs" for u
        using vs(2) that data_size_map[OF that] prems(7) vs(1) by fastforce
      then show ?thesis using maps vs(1) by (simp add: r_map)
    next
      case (unions rs ws)
      then obtain i u where u: "v = VUnion i u" "i < length ws" "has_type wn (ws ! i) u"
        using typed by (auto elim: typed_union)
      have p: "(i, ws ! i) \<in> set (enumerate 0 ws)" using u(2) by (simp add: in_set_enumerate_eq)
      have "compare_schemas rn wn busy (SUnion rs) (ws ! i) (path @ [show_nat i]) record_name field_name = []"
        using prems(1) unions True p by (auto simp: unfolded)
      then have "reads rn wn (SUnion rs) (ws ! i) u"
        using IH(3)[OF refl refl True refl unions p] prems(2,3,6,7) wn' unions u by simp
      then show ?thesis using unions u(1,2) by (simp add: r_writer_union)
    next
      case (records n al fs n' al' fs')
      have match: "names_match (RecordT n al fs) (RecordT n' al' fs')"
        and none: "compare_records rn wn busy n fs n' fs' path = []"
        using prems(1) records True by (auto simp: unfolded incompatible_def split: if_splits)
      have stored: "map_of rn n = Some (RecordT n al fs)" "map_of wn n' = Some (RecordT n' al' fs')"
        and wfs: "\<forall>f \<in> set fs. well_named rn (fd_type f)" "\<forall>f \<in> set fs'. well_named wn (fd_type f)"
        using wn' records by simp_all
      show ?thesis
      proof (cases "(n, n') \<in> set busy")
        case True
        then show ?thesis using prems(6,7) typed stored records unfolding relied_on_def by force
      next
        case False
        note fields = IH(4)[OF refl refl True refl records _ refl refl refl none prems(2,3) False wfs]
        show ?thesis
          unfolding records
          by (rule record_reads[OF match _ _ stored prems(6,7)]) (use match fields typed records in auto)
      qed
    next
      case (enums n al ss d n' al' ss' d')
      then obtain e where e: "v = VEnum e" "e \<in> set ss'" using typed by (auto elim: typed_enum)
      have match: "names_match (EnumT n al ss d) (EnumT n' al' ss' d')"
        and "compare_enums n ss d ss' path record_name field_name = []"
        using prems(1) enums True by (auto simp: unfolded incompatible_def split: if_splits)
      then have "e \<in> set ss \<or> (\<exists>x. d = Some x \<and> x \<in> set ss)"
        using enum_compared e(2) by blast
      then show ?thesis using enums match e(1) by (simp add: r_enum)
    next
      case (fixeds n al k n' al' k')
      then obtain bs where "v = VFixed bs" using typed by (auto elim: typed_fixed)
      moreover have "names_match (FixedT n al k) (FixedT n' al' k')" "k = k'"
        using prems(1) fixeds True by (auto simp: unfolded incompatible_def split: if_splits)
      ultimately show ?thesis using fixeds by (simp add: r_fixed)
    qed
  next
    case False
    show ?thesis
    proof (cases "\<exists>ws. ?W = SUnion ws")
      case True
      then obtain ws where W: "?W = SUnion ws" by blast
      then obtain i u where u: "v = VUnion i u" "i < length ws" "has_type wn (ws ! i) u"
        using typed by (auto elim: typed_union)
      have p: "ws ! i \<in> set ws" using u(2) by simp
      have "compare_schemas rn wn busy ?R (ws ! i) [] record_name field_name = []"
        using prems(1) W False p by (auto simp: unfolded)
      then have "reads rn wn ?R (ws ! i) u"
        using IH(9)[OF refl refl False W p] prems(2,3,6,7) wn' W u by simp
      then show ?thesis using W u(1,2) by (simp add: r_writer_union)
    next
      case noW: False
      show ?thesis
      proof (cases "\<exists>rs. ?R = SUnion rs")
        case True
        then obtain rs where R: "?R = SUnion rs" by blast
        then obtain b where b: "b \<in> set rs" "compare_schemas rn wn busy b ?W path record_name field_name = []"
          using prems(1) False noW by (cases "?W") (auto simp: unfolded Let_def incompatible_def list_ex_iff split: schema.splits if_splits)
        then have "reads rn wn b ?W v"
          using IH(5-8,10) False noW R prems(2,3,6,7) wn' typed by (cases ?W) auto
        then show ?thesis using R b(1) by (simp add: r_reader_union)
      next
        case noR: False
        then obtain p q where "?R = SPrim p" "?W = SPrim q" "q \<in> set (promotions p)"
          using prems(1) False noW by (cases "?W") (auto simp: unfolded Let_def incompatible_def split: schema.splits if_splits)
        then show ?thesis using typed by (auto elim: typed_prim intro: r_prim)
      qed
    qed
  qed
  then show ?case by (rule reads_resolve)
next
  case (2 rn wn busy n rfs n' wfs path m v rf)
  note IH = "2.IH" and prems = "2.prems"
  from prems(7) obtain i where "i < length rfs" "rfs ! i = rf" by (auto simp: in_set_conv_nth)
  then have i: "(i, rf) \<in> set (enumerate 0 rfs)" by (auto simp: in_set_enumerate_eq)
  have wfd: "f \<in> set wfs" if "writer_field wfs rf = Some f" for f using that by (rule writer_field_member)
  show ?case
    using prems i IH[OF prems(4) i refl refl] wfd
    by (auto simp: compare_records.simps[of rn wn busy n] Let_def incompatible_def split: option.splits if_splits)
qed

section \<open>Reflexivity\<close>

text \<open>What the specification further asks of a schema: no union directly inside a union and no field
  name twice in a record.\<close>

fun avro_valid :: "schema \<Rightarrow> bool" where
  "avro_valid (SPrim _) = True"
| "avro_valid (SRef _) = True"
| "avro_valid (SArray s) = avro_valid s"
| "avro_valid (SMap s) = avro_valid s"
| "avro_valid (SUnion ss) = (\<forall>s \<in> set ss. avro_valid s \<and> kind_of s \<noteq> KUnion)"
| "avro_valid (SNamed (RecordT n al fs)) = (distinct (map fd_name fs) \<and> (\<forall>f \<in> set fs. avro_valid (fd_type f)))"
| "avro_valid (SNamed (EnumT _ _ _ _)) = True"
| "avro_valid (SNamed (FixedT _ _ _)) = True"

definition valid_parsed :: "parsed_schema \<Rightarrow> bool" where
  "valid_parsed p \<longleftrightarrow> avro_valid (ps_schema p) \<and> (\<forall>t \<in> snd ` set (ps_named p). avro_valid (SNamed t))"

lemma names_match_refl [simp]: "names_match t t"
  by (simp add: names_match_def)

lemma own_writer_field:
  assumes "distinct (map fd_name fs)" and "f \<in> set fs"
  shows "writer_field fs f = Some f"
proof -
  have "distinct (map fst (rev (map (\<lambda>f. (fd_name f, f)) fs)))"
    using assms(1) by (simp add: comp_def flip: rev_map)
  then have "writer_field_named fs (fd_name f) = Some f"
    using assms(2) by (simp add: writer_field_named_def)
  then show ?thesis by (simp add: writer_field_def)
qed

lemma compare_enums_refl [simp]: "compare_enums n ss d ss path record_name field_name = []"
proof -
  have "filter (\<lambda>s. s \<notin> set ss) ss = []" by (simp add: filter_empty_conv)
  then show ?thesis by (simp add: compare_enums_def)
qed

lemma resolve_named: "resolve named s = SNamed t \<Longrightarrow> s = SNamed t \<or> (\<exists>n. s = SRef n \<and> map_of named n = Some t)"
  using resolve_cases[of named s] by auto

lemma avro_valid_resolve:
  assumes "avro_valid s" and "\<forall>t \<in> snd ` set named. avro_valid (SNamed t)"
  shows "avro_valid (resolve named s)"
  using assms by (cases s) (force simp: resolve_def split: option.splits dest: map_of_SomeD)+

lemma resolve_idem [simp]: "resolve named (resolve named s) = resolve named s"
  by (cases s) (auto simp: resolve_def split: option.splits)

lemma resolve_not_union: "kind_of s \<noteq> KUnion \<Longrightarrow> kind_of (resolve named s) \<noteq> KUnion"
  by (cases s) (auto simp: resolve_def kind_of_def split: option.splits named_type.splits)

lemma compare_reflexive:
  "wn = rn \<Longrightarrow> \<forall>t \<in> snd ` set rn. avro_valid (SNamed t) \<and> well_named rn (SNamed t)
    \<Longrightarrow> avro_valid r \<Longrightarrow> well_named rn r \<Longrightarrow> avro_valid w \<Longrightarrow> well_named rn w
    \<Longrightarrow> resolve rn r = resolve rn w
        \<or> (\<exists>ss. r = SUnion ss \<and> resolve rn w \<in> resolve rn ` set ss \<and> kind_of (resolve rn w) \<noteq> KUnion)
    \<Longrightarrow> compare_schemas rn wn busy r w path record_name field_name = []"
  "wn = rn \<Longrightarrow> \<forall>t \<in> snd ` set rn. avro_valid (SNamed t) \<and> well_named rn (SNamed t)
    \<Longrightarrow> wfs = rfs \<Longrightarrow> distinct (map fd_name rfs) \<Longrightarrow> \<forall>f \<in> set rfs. avro_valid (fd_type f) \<and> well_named rn (fd_type f)
    \<Longrightarrow> compare_records rn wn busy n rfs n' wfs path = []"
proof (induction rn wn busy r w path record_name field_name and rn wn busy n rfs n' wfs path
    rule: compare_schemas_compare_records.induct)
  case (1 rn wn busy r w path record_name field_name)
  note IH = "1.IH" and prems = "1.prems"
  let ?R = "resolve rn r" and ?W = "resolve rn w"
  have eq: "wn = rn" by (rule prems(1))
  note unfolded = compare_schemas.simps[of rn rn busy r w path record_name field_name]
  have ok: "avro_valid ?R" "avro_valid ?W" "well_named rn ?R" "well_named rn ?W"
    using prems(2-6) by (auto intro: avro_valid_resolve well_named_resolve)
  have noref: "?R \<noteq> SRef k" "?W \<noteq> SRef k" for k using prems(4,6) resolved_not_ref by blast+
  show ?case
  proof (cases "kind_of ?R = kind_of ?W")
    case True
    then have RW: "?R = ?W"
      using prems(7) by (auto simp: kind_of_def resolve_def split: schema.splits option.splits named_type.splits)
    note same = IH(1-4)[OF refl refl, unfolded eq, OF True refl]
    from True show ?thesis
    proof (cases rule: same_kind_cases)
      case (arrays a b)
      then have "compare_schemas rn rn busy a b (path @ [''items'']) record_name field_name = []"
        using same(1)[OF arrays refl prems(2)] ok RW by simp
      then show ?thesis using arrays True by (simp add: unfolded eq)
    next
      case (maps a b)
      then have "compare_schemas rn rn busy a b (path @ [''values'']) record_name field_name = []"
        using same(2)[OF maps refl prems(2)] ok RW by simp
      then show ?thesis using maps True by (simp add: unfolded eq)
    next
      case (unions rs ws)
      have "compare_schemas rn rn busy (SUnion rs) (snd p) (path @ [show_nat (fst p)]) record_name field_name = []"
        if p: "p \<in> set (enumerate 0 ws)" for p
        using same(3)[OF unions p refl prems(2)] in_enumerate[OF p] ok RW unions by (simp add: resolve_not_union)
      then show ?thesis using unions True by (simp add: unfolded eq)
    next
      case (records n al fs n' al' fs')
      then have "compare_records rn rn busy n fs n' fs' path = []"
        using same(4)[OF records _ refl refl refl refl prems(2)] ok RW by simp
      then show ?thesis using records True RW by (simp add: unfolded eq)
    qed (use True RW noref in \<open>simp_all add: unfolded eq\<close>)
  next
    case False
    then obtain ss b where b: "?R = SUnion ss" "r = SUnion ss" "b \<in> set ss" "resolve rn b = ?W" "kind_of ?W \<noteq> KUnion"
      using prems(7) by (auto simp: resolve_def)
    then have valid: "avro_valid b" "well_named rn b" using ok by auto
    have "compare_schemas rn rn busy b ?W path record_name field_name = []"
      using IH(5-8,10)[OF refl refl, unfolded eq, OF False _ b(1,3) refl prems(2) valid ok(2,4)] b(4,5) resolve_idem[of rn w]
      by (cases ?W) (simp_all add: kind_of_def[of "SUnion _"])
    then have "list_ex (\<lambda>b. compare_schemas rn rn busy b ?W path record_name field_name = []) ss"
      using b(3) by (auto simp: list_ex_iff)
    then show ?thesis using False b(1,5) by (cases ?W) (auto simp: unfolded eq Let_def kind_of_def)
  qed
next
  case (2 rn wn busy n rfs n' wfs path)
  note IH = "2.IH" and prems = "2.prems"
  show ?case
  proof (cases "(n, n') \<in> set busy")
    case False
    have "compare_schemas rn rn ((n, n') # busy) (fd_type (snd p)) (fd_type (snd p)) (path @ [''fields'', show_nat (fst p), ''type''])
        (Some n) (Some (fd_name (snd p))) = []" "writer_field rfs (snd p) = Some (snd p)" if "p \<in> set (enumerate 0 rfs)" for p
      using IH[OF False that refl refl, of "snd p"] prems(2,4,5) in_enumerate[OF that]
      by (simp_all add: own_writer_field prems(1,3))
    then show ?thesis by (simp add: compare_records.simps[of rn rn busy] prems(1,3) Let_def)
  qed (simp add: compare_records.simps[of rn wn busy])
qed

section \<open>The verdict of a check\<close>

lemma check_versions_passes:
  "cv_compatible (check_versions level ds cand previous is) \<longleftrightarrow> (\<forall>i \<in> set is. failures_against ds cand (previous ! i) = [])"
  by (induction "is") (auto simp: Let_def)

lemma failures_against_empty:
  "failures_against ds cand old = [] \<longleftrightarrow>
     (Forward \<in> set ds \<longrightarrow> can_read old cand = []) \<and> (Backward \<in> set ds \<longrightarrow> can_read cand old = [])"
  by (simp add: failures_against_def)

lemma directions_for_level:
  "directions_for ''NONE'' = Inr ([], False)"
  "directions_for ''BACKWARD'' = Inr ([Backward], False)"
  "directions_for ''BACKWARD_TRANSITIVE'' = Inr ([Backward], True)"
  "directions_for ''FORWARD'' = Inr ([Forward], False)"
  "directions_for ''FORWARD_TRANSITIVE'' = Inr ([Forward], True)"
  "directions_for ''FULL'' = Inr ([Backward, Forward], False)"
  "directions_for ''FULL_TRANSITIVE'' = Inr ([Backward, Forward], True)"
  by code_simp+

lemma versions_checked:
  assumes "check_compatibility level cand previous False = Inr v" and "cv_compatible v"
    and "directions_for level = Inr (ds, transitive)" and "ds \<noteq> []"
    and "old \<in> set previous" and "transitive \<or> old = last previous"
  shows "failures_against ds cand old = []"
proof -
  let ?is = "if transitive then rev [0..<length previous] else [length previous - 1]"
  have "previous \<noteq> []" using assms(5) by auto
  then have "v = check_versions level ds cand previous ?is"
    using assms(1,3,4) by (simp add: check_compatibility_def split: if_splits)
  then have "\<forall>i \<in> set ?is. failures_against ds cand (previous ! i) = []"
    using assms(2) check_versions_passes by metis
  moreover have "\<exists>i \<in> set ?is. previous ! i = old"
    using assms(5,6) \<open>previous \<noteq> []\<close> by (auto simp: in_set_conv_nth last_conv_nth)
  ultimately show ?thesis by blast
qed

lemma check_versions_failed:
  assumes "cv_failed_version (check_versions level ds cand previous is) = Some i"
  shows "\<exists>pre post. is = pre @ i # post \<and> (\<forall>j \<in> set pre. failures_against ds cand (previous ! j) = [])
    \<and> cv_failures (check_versions level ds cand previous is) = failures_against ds cand (previous ! i)
    \<and> failures_against ds cand (previous ! i) \<noteq> []"
  using assms
proof (induction "is")
  case (Cons j "is")
  show ?case
  proof (cases "failures_against ds cand (previous ! j) = []")
    case True
    then obtain pre post where "is = pre @ i # post" "\<forall>k \<in> set pre. failures_against ds cand (previous ! k) = []"
      "cv_failures (check_versions level ds cand previous is) = failures_against ds cand (previous ! i)"
      "failures_against ds cand (previous ! i) \<noteq> []"
      using Cons by auto
    then show ?thesis using True by (intro exI[of _ "j # pre"] exI[of _ post]) simp
  next
    case False
    then show ?thesis using Cons.prems by (intro exI[of _ "[]"] exI[of _ "is"]) simp
  qed
qed simp

lemma messages_exactly_on_failure: "confluent_messages v old_version old_schema = [] \<longleftrightarrow> cv_compatible v"
  by (simp add: confluent_messages_def)

section \<open>Properties\<close>

definition data_of :: "parsed_schema \<Rightarrow> avro_data \<Rightarrow> bool" where
  "data_of p v \<longleftrightarrow> has_type (ps_named p) (ps_schema p) v"

definition decodes :: "parsed_schema \<Rightarrow> parsed_schema \<Rightarrow> avro_data \<Rightarrow> bool" where
  "decodes reader writer v \<longleftrightarrow> reads (ps_named reader) (ps_named writer) (ps_schema reader) (ps_schema writer) v"

lemma sound_comparison:
  assumes "well_parsed reader" and "well_parsed writer" and "can_read reader writer = []" and "data_of writer v"
  shows "decodes reader writer v"
proof -
  have "relied_on (ps_named reader) (ps_named writer) (Suc (data_size v)) []" by (simp add: relied_on_def)
  then show ?thesis
    using compare_sound(1)[OF assms(3)[unfolded can_read_def], of "Suc (data_size v)" v] assms(1,2,4)
    by (simp add: well_parsed_def data_of_def decodes_def)
qed


definition old_list :: named_type where
  "old_list = RecordT ''list'' [] [Field ''value'' [] (SPrim PInt) False,
     Field ''next'' [] (SUnion [SPrim PNull, SRef ''list'']) False]"

definition new_list :: named_type where
  "new_list = RecordT ''chain'' [''list''] [Field ''tail'' [''next''] (SUnion [SRef ''chain'', SPrim PNull]) False,
     Field ''head'' [''value''] (SPrim PLong) False, Field ''note'' [] (SPrim PString) True]"

definition old_schema :: parsed_schema where
  "old_schema = \<lparr>ps_schema = SNamed old_list, ps_named = [(''list'', old_list)]\<rparr>"

definition new_schema :: parsed_schema where
  "new_schema = \<lparr>ps_schema = SNamed new_list, ps_named = [(''chain'', new_list)]\<rparr>"

lemma demo_schemas:
  "well_parsed old_schema" "well_parsed new_schema" "valid_parsed old_schema" "can_read new_schema old_schema = []"
  "map ic_type (can_read old_schema new_schema) = [NameMismatch]"
  by code_simp+

definition demo_data :: avro_data where
  "demo_data = VRecord [VPrim (DInt 7), VUnion 1 (VRecord [VPrim (DInt 8), VUnion 0 (VPrim DNull)])]"

lemma demo_data_typed: "data_of old_schema demo_data"
proof -
  let ?has = "has_type [(''list'', old_list)]"
  have "?has (SUnion [SPrim PNull, SRef ''list'']) (VUnion 0 (VPrim DNull))"
    by (rule t_union) (simp_all add: t_prim)
  then have "?has (SNamed old_list) (VRecord [VPrim (DInt 8), VUnion 0 (VPrim DNull)])"
    unfolding old_list_def by (intro t_record) (simp_all add: All_less_Suc numeral_2_eq_2 t_prim)
  then have "?has (SRef ''list'') (VRecord [VPrim (DInt 8), VUnion 0 (VPrim DNull)])"
    by (rule t_ref[rotated]) simp
  then have "?has (SUnion [SPrim PNull, SRef ''list'']) (VUnion 1 (VRecord [VPrim (DInt 8), VUnion 0 (VPrim DNull)]))"
    by (intro t_union) simp_all
  then show ?thesis
    unfolding data_of_def old_schema_def demo_data_def
    by (simp, subst old_list_def, intro t_record) (simp_all add: All_less_Suc numeral_2_eq_2 t_prim old_list_def)
qed




lemma reads_itself:
  assumes "well_parsed p" and "valid_parsed p"
  shows "can_read p p = []"
  using assms unfolding can_read_def well_parsed_def valid_parsed_def by (intro compare_reflexive(1)) auto

text \<open>Publishing an unchanged schema is always accepted. A valid schema reads its own data, so at
  every known level a check of a schema against a version with the same schema passes;
  an unknown level is refused whatever the schemas.\<close>

theorem unchanged_schema_accepted:
  assumes "well_parsed p" and "valid_parsed p"
  shows "can_read p p = []
    \<and> (level \<in> set levels \<longrightarrow> (\<exists>v. check_compatibility level p (replicate n p) only_latest = Inr v \<and> cv_compatible v))
    \<and> (level \<notin> set levels \<longrightarrow> check_compatibility level p previous only_latest = Inl (UnknownLevel level))"
proof (intro conjI impI)
  show self: "can_read p p = []" using assms by (rule reads_itself)
  have "cv_compatible (check_versions level ds p (replicate n p) is)" if "\<forall>i \<in> set is. i < n" for ds "is"
    using that by (simp add: check_versions_passes failures_against_empty self)
  then show "\<exists>v. check_compatibility level p (replicate n p) only_latest = Inr v \<and> cv_compatible v" if "level \<in> set levels"
    using that by (auto simp: check_compatibility_def directions_for_def Let_def)
  show "check_compatibility level p previous only_latest = Inl (UnknownLevel level)" if "level \<notin> set levels"
    using that by (simp add: check_compatibility_def directions_for_def)
qed

lemma unchanged_schema_accepted_witness: "can_read old_schema old_schema = [] \<and> length (ps_named old_schema) = 1"
  using unchanged_schema_accepted[OF demo_schemas(1,3)] by (simp add: old_schema_def)

end
