(* ===== verification/ReviewDb.thy ===== *)
theory ReviewDb
  imports Prelude "HOL-Library.Multiset" "HOL-Library.List_Lexorder" "HOL-Library.Char_ord" "HOL-Library.Product_Lexorder"
begin

text \<open>
  Reviews of draft versions: the life cycle (\<open>review_lifecycle.py\<close>), the inbox recipients
  (\<open>notification_fanout.py\<close>) and the transactions of the database layer (\<open>database.py\<close>,
  from \<open>_lock_open_review\<close> to \<open>withdraw_review\<close>). The tables are lists of rows; a transaction
  that is rolled back leaves them as they were. Identifiers are stored in canonical spelling;
  whether a user still exists, the display names and the new identifiers come from the database
  and are arguments.
\<close>

section \<open>Life cycle\<close>

datatype review_state = Draft | InReview | Approved | ChangesRequested

datatype decision = Approve | RequestChanges | Pending

definition review_states :: "review_state list" where
  "review_states = [InReview, Approved, ChangesRequested]"

definition recordable_decisions :: "decision list" where
  "recordable_decisions = [Approve, RequestChanges]"

definition transitions :: "(review_state \<times> review_state) list" where
  "transitions = [(Draft, InReview), (InReview, Approved), (InReview, ChangesRequested), (Approved, InReview),
     (ChangesRequested, InReview), (InReview, InReview)]"

definition state_after_decisions :: "decision list \<Rightarrow> review_state" where
  "state_after_decisions ds =
     (if RequestChanges \<in> set ds then ChangesRequested
      else if ds \<noteq> [] \<and> list_all (\<lambda>d. d = Approve) ds then Approved
      else InReview)"

definition is_allowed_transition :: "review_state \<Rightarrow> review_state \<Rightarrow> bool" where
  "is_allowed_transition a b \<longleftrightarrow> (a, b) \<in> set transitions"

definition can_record_decision :: "review_state \<Rightarrow> bool" where
  "can_record_decision s \<longleftrightarrow> s = InReview"

definition can_re_request :: "review_state \<Rightarrow> bool" where
  "can_re_request s \<longleftrightarrow> is_allowed_transition s InReview \<and> s \<noteq> Draft"

definition version_review_state :: "review_state option \<Rightarrow> review_state" where
  "version_review_state open_state = (case open_state of Some s \<Rightarrow> s | None \<Rightarrow> Draft)"

section \<open>Identifiers\<close>

definition hex_char :: "char \<Rightarrow> bool" where
  "hex_char c \<longleftrightarrow> c \<in> set ''0123456789abcdefABCDEF''"

text \<open>The pattern \<open>8-4-4-4-12\<close> of hexadecimal digits with a version from 1 to 5 and the usual variant.\<close>

definition uuid_char :: "nat \<Rightarrow> char \<Rightarrow> bool" where
  "uuid_char i c =
     (if i \<in> {8, 13, 18, 23} then c = CHR ''-''
      else if i = 14 then c \<in> set ''12345''
      else if i = 19 then c \<in> set ''89abAB''
      else hex_char c)"

definition is_uuid_string :: "string \<Rightarrow> bool" where
  "is_uuid_string s = (let t = strip s in length t = 36 \<and> list_all (\<lambda>(i, c). uuid_char i c) (enumerate 0 t))"

definition as_uuid :: "string \<Rightarrow> string" where
  "as_uuid s = lower (strip s)"

definition canonical_uuid :: "string option \<Rightarrow> string option" where
  "canonical_uuid v = (case v of
       Some s \<Rightarrow> if is_uuid_string s then Some (as_uuid s) else None
     | None \<Rightarrow> None)"

section \<open>Inbox recipients\<close>

definition max_recipients :: nat where
  "max_recipients = 200"

fun collect_recipients :: "string set \<Rightarrow> string list \<Rightarrow> string option list \<Rightarrow> string list" where
  "collect_recipients blocked seen [] = seen"
| "collect_recipients blocked seen (x # xs) =
     (case canonical_uuid x of
        None \<Rightarrow> collect_recipients blocked seen xs
      | Some u \<Rightarrow>
          if u \<in> blocked then collect_recipients blocked seen xs
          else if length seen + 1 \<ge> max_recipients then seen @ [u]
          else collect_recipients (insert u blocked) (seen @ [u]) xs)"

definition recipients :: "string option list \<Rightarrow> string option list \<Rightarrow> string list" where
  "recipients candidates exclude =
     collect_recipients (set (List.map_filter canonical_uuid exclude)) [] candidates"

datatype notice_kind = ReviewRequested | ReviewDecision decision

record notice =
  nt_tenant :: string
  nt_user :: string
  nt_kind :: notice_kind
  nt_review :: string
  nt_round :: nat
  nt_actor :: "string option"

text \<open>The drafts of an event, one per recipient; a recipient whose account is gone is skipped.\<close>

definition review_drafts ::
  "string \<Rightarrow> string list \<Rightarrow> notice_kind \<Rightarrow> string option \<Rightarrow> string \<Rightarrow> nat \<Rightarrow> notice list" where
  "review_drafts tenant people kind actor review rnd =
     map (\<lambda>u. \<lparr>nt_tenant = tenant, nt_user = u, nt_kind = kind, nt_review = review, nt_round = rnd, nt_actor = actor\<rparr>) people"

section \<open>Tables\<close>

record review =
  rv_id :: string
  rv_tenant :: string
  rv_project :: string
  rv_version :: string
  rv_requested_by :: "string option"
  rv_state :: review_state
  rv_round :: nat
  rv_fingerprint :: string
  rv_closed_at :: "int option"
  rv_closed_by :: "string option"
  rv_created_at :: int
  rv_updated_at :: int

record reviewer_row =
  rr_review :: string
  rr_round :: nat
  rr_user :: "string option"
  rr_decision :: decision
  rr_note :: "string option"
  rr_decided_at :: "int option"
  rr_created_at :: int

datatype audit_event =
    AuditRequested "string list" string
  | AuditReRequested nat review_state "string list" string
  | AuditDecision string decision bool
  | AuditStateChanged review_state review_state
  | AuditWithdrawn review_state

record audit_row =
  au_tenant :: string
  au_project :: string
  au_version :: string
  au_actor :: string
  au_review :: string
  au_round :: nat
  au_event :: audit_event

record review_db =
  db_reviews :: "review list"
  db_rows :: "reviewer_row list"
  db_audit :: "audit_row list"
  db_notices :: "notice list"

definition empty_review_db :: review_db where
  "empty_review_db = \<lparr>db_reviews = [], db_rows = [], db_audit = [], db_notices = []\<rparr>"

section \<open>Reads\<close>

definition lock_open_review :: "string \<Rightarrow> string \<Rightarrow> string \<Rightarrow> review_db \<Rightarrow> review option" where
  "lock_open_review tenant project review db =
     find (\<lambda>r. rv_id r = as_uuid review \<and> rv_tenant r = as_uuid tenant \<and> rv_project r = as_uuid project
             \<and> rv_closed_at r = None) (db_reviews db)"

definition get_review :: "string \<Rightarrow> string \<Rightarrow> string \<Rightarrow> review_db \<Rightarrow> review option" where
  "get_review tenant project review db =
     (if \<not> list_all is_uuid_string [tenant, project, review] then None
      else find (\<lambda>r. rv_id r = as_uuid review \<and> rv_tenant r = as_uuid tenant \<and> rv_project r = as_uuid project) (db_reviews db))"

definition get_open_review_for_version :: "string \<Rightarrow> string \<Rightarrow> string \<Rightarrow> review_db \<Rightarrow> review option" where
  "get_open_review_for_version tenant project version db =
     (if \<not> list_all is_uuid_string [tenant, project, version] then None
      else find (\<lambda>r. rv_version r = as_uuid version \<and> rv_tenant r = as_uuid tenant \<and> rv_project r = as_uuid project
               \<and> rv_closed_at r = None) (db_reviews db))"

text \<open>\<open>by_name\<close> is the order of the reviewers' names in the database's collation, then of the rows'
  identifiers.\<close>

definition list_review_reviewers :: "(reviewer_row list \<Rightarrow> reviewer_row list) \<Rightarrow> string \<Rightarrow> review_db \<Rightarrow> reviewer_row list" where
  "list_review_reviewers by_name review db =
     (if \<not> is_uuid_string review then []
      else sort_key rr_round (by_name (filter (\<lambda>w. rr_review w = as_uuid review) (db_rows db))))"

definition review_filters ::
  "string \<Rightarrow> string \<Rightarrow> string option \<Rightarrow> review_state option \<Rightarrow> bool option \<Rightarrow> (review \<Rightarrow> bool) option" where
  "review_filters tenant project version state open_only =
     (if \<not> list_all is_uuid_string ([tenant, project] @ (case version of Some v \<Rightarrow> [v] | None \<Rightarrow> [])) then None
      else Some (\<lambda>r. rv_tenant r = as_uuid tenant \<and> rv_project r = as_uuid project
        \<and> (case version of Some v \<Rightarrow> rv_version r = as_uuid v | None \<Rightarrow> True)
        \<and> (case state of Some s \<Rightarrow> rv_state r = s | None \<Rightarrow> True)
        \<and> (case open_only of Some b \<Rightarrow> (rv_closed_at r = None) = b | None \<Rightarrow> True)))"

definition list_reviews ::
  "string \<Rightarrow> string \<Rightarrow> string option \<Rightarrow> review_state option \<Rightarrow> bool option \<Rightarrow> nat \<Rightarrow> nat \<Rightarrow> review_db \<Rightarrow> review list" where
  "list_reviews tenant project version state open_only page skip db =
     (case review_filters tenant project version state open_only of
        None \<Rightarrow> []
      | Some p \<Rightarrow> take page (drop skip (sort_key (\<lambda>r. (- rv_updated_at r, rv_id r)) (filter p (db_reviews db)))))"

definition count_reviews ::
  "string \<Rightarrow> string \<Rightarrow> string option \<Rightarrow> review_state option \<Rightarrow> bool option \<Rightarrow> review_db \<Rightarrow> nat" where
  "count_reviews tenant project version state open_only db =
     (case review_filters tenant project version state open_only of
        None \<Rightarrow> 0
      | Some p \<Rightarrow> length (filter p (db_reviews db)))"

section \<open>Transactions\<close>

text \<open>A transaction commits a value, is refused because its guard does not hold, or fails with a
  database error; only the first changes the tables.\<close>

datatype 'a tx = Commit 'a | Refused | Failed

definition guarded_tx :: "('a tx \<times> review_db) \<Rightarrow> review_db \<Rightarrow> 'a tx \<times> review_db" where
  "guarded_tx work db = (case work of (Commit a, db') \<Rightarrow> (Commit a, db') | (r, _) \<Rightarrow> (r, db))"

definition audit_tx :: "audit_row \<Rightarrow> review_db \<Rightarrow> review_db" where
  "audit_tx a db = db\<lparr>db_audit := db_audit db @ [a]\<rparr>"

definition insert_notifications :: "(string \<Rightarrow> bool) \<Rightarrow> notice list \<Rightarrow> review_db \<Rightarrow> review_db" where
  "insert_notifications alive drafts db = db\<lparr>db_notices := db_notices db @ filter (\<lambda>n. alive (nt_user n)) drafts\<rparr>"

text \<open>The reviewers of a round; a reviewer may appear once per round.\<close>

definition insert_reviewers :: "int \<Rightarrow> string \<Rightarrow> nat \<Rightarrow> string list \<Rightarrow> review_db \<Rightarrow> review_db option" where
  "insert_reviewers now review rnd reviewers db =
     (let users = map as_uuid reviewers in
      if \<not> distinct users \<or> list_ex (\<lambda>w. rr_review w = review \<and> rr_round w = rnd \<and> rr_user w \<in> Some ` set users) (db_rows db)
      then None
      else Some (db\<lparr>db_rows := db_rows db @ map (\<lambda>u. \<lparr>rr_review = review, rr_round = rnd, rr_user = Some u,
             rr_decision = Pending, rr_note = None, rr_decided_at = None, rr_created_at = now\<rparr>) users\<rparr>))"

definition update_review :: "string \<Rightarrow> (review \<Rightarrow> review) \<Rightarrow> review_db \<Rightarrow> review_db" where
  "update_review review f db = db\<lparr>db_reviews := map (\<lambda>r. if rv_id r = review then f r else r) (db_reviews db)\<rparr>"

definition insert_review ::
  "(string \<Rightarrow> bool) \<Rightarrow> int \<Rightarrow> string \<Rightarrow> string \<Rightarrow> string \<Rightarrow> string \<Rightarrow> string \<Rightarrow> string list \<Rightarrow> string \<Rightarrow> string list
     \<Rightarrow> review_db \<Rightarrow> string tx \<times> review_db" where
  "insert_review alive now new_id tenant project version requested_by reviewers fingerprint people db =
     (if reviewers = [] \<or> \<not> list_all is_uuid_string ([tenant, project, version, requested_by] @ reviewers) then (Refused, db)
      else guarded_tx
        (if list_ex (\<lambda>r. rv_version r = as_uuid version \<and> rv_closed_at r = None) (db_reviews db) then (Refused, db)
         else let row = \<lparr>rv_id = new_id, rv_tenant = as_uuid tenant, rv_project = as_uuid project,
                  rv_version = as_uuid version, rv_requested_by = Some (as_uuid requested_by), rv_state = InReview,
                  rv_round = 1, rv_fingerprint = fingerprint, rv_closed_at = None, rv_closed_by = None,
                  rv_created_at = now, rv_updated_at = now\<rparr>
           in (case insert_reviewers now new_id 1 reviewers (db\<lparr>db_reviews := db_reviews db @ [row]\<rparr>) of
                 None \<Rightarrow> (Failed, db)
               | Some db \<Rightarrow> (Commit new_id,
                   insert_notifications alive (review_drafts tenant people ReviewRequested (Some requested_by) new_id 1)
                     (audit_tx \<lparr>au_tenant = as_uuid tenant, au_project = as_uuid project, au_version = as_uuid version,
                        au_actor = as_uuid requested_by, au_review = new_id, au_round = 1,
                        au_event = AuditRequested reviewers fingerprint\<rparr> db))))
        db)"

definition re_request_review ::
  "(string \<Rightarrow> bool) \<Rightarrow> int \<Rightarrow> string \<Rightarrow> string \<Rightarrow> string \<Rightarrow> nat \<Rightarrow> string list \<Rightarrow> string \<Rightarrow> string \<Rightarrow> string list
     \<Rightarrow> review_db \<Rightarrow> (nat \<times> review_state) tx \<times> review_db" where
  "re_request_review alive now tenant project review expected_round reviewers fingerprint actor people db =
     (if reviewers = [] \<or> \<not> list_all is_uuid_string ([tenant, project, review, actor] @ reviewers) then (Refused, db)
      else guarded_tx
        (case lock_open_review tenant project review db of
           None \<Rightarrow> (Refused, db)
         | Some current \<Rightarrow>
             if rv_round current \<noteq> expected_round \<or> \<not> can_re_request (rv_state current) then (Refused, db)
             else let next_round = rv_round current + 1; id = as_uuid review;
                      db1 = update_review id (\<lambda>r. r\<lparr>rv_state := InReview, rv_round := next_round,
                              rv_fingerprint := fingerprint, rv_updated_at := now\<rparr>) db
               in (case insert_reviewers now id next_round reviewers db1 of
                     None \<Rightarrow> (Failed, db)
                   | Some db2 \<Rightarrow> (Commit (next_round, rv_state current),
                       insert_notifications alive (review_drafts tenant people ReviewRequested (Some actor) review next_round)
                         (audit_tx \<lparr>au_tenant = as_uuid tenant, au_project = as_uuid project, au_version = rv_version current,
                            au_actor = as_uuid actor, au_review = id, au_round = next_round,
                            au_event = AuditReRequested (rv_round current) (rv_state current) reviewers fingerprint\<rparr> db2))))
        db)"

definition decides :: "string \<Rightarrow> nat \<Rightarrow> string \<Rightarrow> reviewer_row \<Rightarrow> bool" where
  "decides review rnd user w \<longleftrightarrow>
     rr_review w = review \<and> rr_round w = rnd \<and> rr_user w = Some user \<and> rr_decision w = Pending"

definition round_decisions :: "string \<Rightarrow> nat \<Rightarrow> review_db \<Rightarrow> decision list" where
  "round_decisions review rnd db = map rr_decision (filter (\<lambda>w. rr_review w = review \<and> rr_round w = rnd) (db_rows db))"

definition record_review_decision ::
  "(string \<Rightarrow> bool) \<Rightarrow> int \<Rightarrow> string \<Rightarrow> string \<Rightarrow> string \<Rightarrow> nat \<Rightarrow> string \<Rightarrow> decision \<Rightarrow> string option \<Rightarrow> string list
     \<Rightarrow> review_db \<Rightarrow> (review_state \<times> review_state) tx \<times> review_db" where
  "record_review_decision alive now tenant project review expected_round user d note people db =
     (if d \<notin> set recordable_decisions \<or> \<not> list_all is_uuid_string [tenant, project, review, user] then (Refused, db)
      else guarded_tx
        (case lock_open_review tenant project review db of
           None \<Rightarrow> (Refused, db)
         | Some current \<Rightarrow>
             if rv_round current \<noteq> expected_round \<or> \<not> can_record_decision (rv_state current) then (Refused, db)
             else let id = as_uuid review; mine = decides id expected_round (as_uuid user) in
               if \<not> list_ex mine (db_rows db) then (Refused, db)
               else let db1 = db\<lparr>db_rows := map (\<lambda>w. if mine w then w\<lparr>rr_decision := d, rr_note := note, rr_decided_at := Some now\<rparr>
                                                    else w) (db_rows db)\<rparr>;
                        to_state = state_after_decisions (round_decisions id expected_round db1);
                        db2 = update_review id (\<lambda>r. r\<lparr>rv_state := to_state, rv_updated_at := now\<rparr>) db1;
                        entry = (\<lambda>e. \<lparr>au_tenant = as_uuid tenant, au_project = as_uuid project, au_version = rv_version current,
                                   au_actor = as_uuid user, au_review = id, au_round = expected_round, au_event = e\<rparr>);
                        db3 = audit_tx (entry (AuditDecision user d (note \<noteq> None))) db2;
                        db4 = (if to_state \<noteq> rv_state current
                               then audit_tx (entry (AuditStateChanged (rv_state current) to_state)) db3 else db3)
                 in (Commit (rv_state current, to_state),
                     insert_notifications alive (review_drafts tenant people (ReviewDecision d) (Some user) review expected_round) db4))
        db)"

definition withdraw_review ::
  "int \<Rightarrow> string \<Rightarrow> string \<Rightarrow> string \<Rightarrow> string \<Rightarrow> review_db \<Rightarrow> bool tx \<times> review_db" where
  "withdraw_review now tenant project review actor db =
     (if \<not> list_all is_uuid_string [tenant, project, review, actor] then (Refused, db)
      else guarded_tx
        (case lock_open_review tenant project review db of
           None \<Rightarrow> (Refused, db)
         | Some row \<Rightarrow> (Commit True,
             audit_tx \<lparr>au_tenant = as_uuid tenant, au_project = as_uuid project, au_version = rv_version row,
                 au_actor = as_uuid actor, au_review = rv_id row, au_round = rv_round row, au_event = AuditWithdrawn (rv_state row)\<rparr>
               (update_review (rv_id row) (\<lambda>r. r\<lparr>rv_closed_at := Some now, rv_closed_by := Some (as_uuid actor), rv_updated_at := now\<rparr>) db)))
        db)"

end
