(* ===== verification/ReviewIds.thy ===== *)
theory ReviewIds
  imports ReviewDb
begin

text \<open>
  Facts on identifiers: the canonical spelling of a UUID, which is what the tables store and what
  every check of the review store hands on.
\<close>

section \<open>Canonical spelling\<close>

definition uuid_letters :: string where
  "uuid_letters = ''0123456789abcdefABCDEF-''"

lemma lower_letters:
  "map lower_char uuid_letters = ''0123456789abcdefabcdef-''"
  "map lower_char ''0123456789abcdefabcdef-'' = ''0123456789abcdefabcdef-''"
  "map lower_char ''0123456789abcdefABCDEF'' = ''0123456789abcdefabcdef''"
  "map lower_char ''12345-'' = ''12345-''" "map lower_char ''89abAB'' = ''89abab''"
  by code_simp+

lemma map_member: "map f xs = ys \<Longrightarrow> x \<in> set xs \<Longrightarrow> f x \<in> set ys"
  by auto

lemma map_fixed: "map f xs = xs \<Longrightarrow> x \<in> set xs \<Longrightarrow> f x = x"
  by (metis list.map_ident map_eq_conv)

lemma uuid_alphabet:
  assumes "c \<in> set uuid_letters"
  shows "\<not> py_space (lower_char c)" "lower_char (lower_char c) = lower_char c"
proof -
  have lower: "lower_char c \<in> set ''0123456789abcdefabcdef-''" using map_member[OF lower_letters(1) assms] .
  have "\<forall>d \<in> set ''0123456789abcdefabcdef-''. \<not> py_space d" by (simp add: py_space_def)
  then show "\<not> py_space (lower_char c)" using lower by blast
  show "lower_char (lower_char c) = lower_char c" using map_fixed[OF lower_letters(2) lower] .
qed

lemma uuid_char_alphabet:
  assumes "uuid_char i c"
  shows "c \<in> set uuid_letters"
proof (cases "hex_char c")
  case False
  then have "c = CHR ''-'' \<or> c \<in> set ''12345'' \<or> c \<in> set ''89abAB''"
    using assms unfolding uuid_char_def by (metis (full_types))
  then show ?thesis by (auto simp: uuid_letters_def)
qed (auto simp: hex_char_def uuid_letters_def)

lemma lower_uuid_chars:
  "hex_char c \<Longrightarrow> hex_char (lower_char c)" "c \<in> set ''12345-'' \<Longrightarrow> lower_char c = c"
  "c \<in> set ''89abAB'' \<Longrightarrow> lower_char c \<in> set ''89abAB''"
proof -
  show "hex_char c \<Longrightarrow> hex_char (lower_char c)"
    using map_member[OF lower_letters(3), of c] unfolding hex_char_def by auto
  show "c \<in> set ''12345-'' \<Longrightarrow> lower_char c = c" by (rule map_fixed[OF lower_letters(4)])
  show "c \<in> set ''89abAB'' \<Longrightarrow> lower_char c \<in> set ''89abAB''" using map_member[OF lower_letters(5), of c] by auto
qed

lemma uuid_char_lower:
  assumes "uuid_char i c"
  shows "uuid_char i (lower_char c)"
proof -
  consider "i \<in> {8, 13, 18, 23}" | "i = 14" | "i = 19" | "i \<notin> {8, 13, 18, 23}" "i \<noteq> 14" "i \<noteq> 19" by blast
  then show ?thesis
  proof cases
    case 1
    then have "c = CHR ''-''" using assms unfolding uuid_char_def by (simp only: if_True)
    then show ?thesis using assms lower_uuid_chars(2)[of c] by simp
  next
    case 2
    then have "c \<in> set ''12345''" using assms by (simp add: uuid_char_def)
    then show ?thesis using assms lower_uuid_chars(2)[of c] by auto
  next
    case 3
    then have "c \<in> set ''89abAB''" using assms by (simp add: uuid_char_def)
    then show ?thesis using 3 lower_uuid_chars(3)[of c] by (simp add: uuid_char_def)
  next
    case 4
    then have "hex_char c" using assms unfolding uuid_char_def by (simp only: if_False)
    then show ?thesis using 4 lower_uuid_chars(1)[of c] unfolding uuid_char_def by (simp only: if_False)
  qed
qed

lemma strip_clean:
  assumes "\<forall>c \<in> set s. \<not> py_space c"
  shows "strip s = s"
proof -
  have "dropWhile py_space t = t" if "\<forall>c \<in> set t. \<not> py_space c" for t
    using that by (cases t) auto
  from this[of s] this[of "rev s"] show ?thesis using assms by (simp add: strip_def lstrip_def rstrip_def)
qed

lemma uuid_chars:
  assumes "is_uuid_string s"
  shows "\<forall>i < 36. uuid_char i (strip s ! i)" "length (strip s) = 36"
  using assms by (auto simp: is_uuid_string_def Let_def list_all_length nth_enumerate_eq)

lemma uuid_text:
  assumes "is_uuid_string s" and "c \<in> set (strip s)"
  shows "c \<in> set uuid_letters"
proof -
  obtain i where "i < length (strip s)" "strip s ! i = c" using assms(2) by (metis in_set_conv_nth)
  then show ?thesis using uuid_chars[OF assms(1)] uuid_char_alphabet by metis
qed

lemma as_uuid_clean:
  assumes "is_uuid_string s"
  shows "strip (as_uuid s) = as_uuid s"
proof (rule strip_clean, rule ballI)
  fix c assume "c \<in> set (as_uuid s)"
  then obtain d where "d \<in> set (strip s)" "c = lower_char d" by (auto simp: as_uuid_def lower_def)
  then show "\<not> py_space c" using uuid_alphabet(1) uuid_text[OF assms] by simp
qed

lemma is_uuid_as_uuid [simp]:
  assumes "is_uuid_string s"
  shows "is_uuid_string (as_uuid s)"
proof -
  have "as_uuid s = map lower_char (strip s)" by (simp add: as_uuid_def lower_def)
  then have "length (as_uuid s) = 36" "\<forall>i < 36. uuid_char i (as_uuid s ! i)"
    using uuid_chars[OF assms] uuid_char_lower by simp_all
  then show ?thesis
    by (simp add: is_uuid_string_def as_uuid_clean[OF assms] list_all_length nth_enumerate_eq)
qed

lemma as_uuid_idem [simp]:
  assumes "is_uuid_string s"
  shows "as_uuid (as_uuid s) = as_uuid s"
proof -
  have "lower_char (lower_char c) = lower_char c" if "c \<in> set (strip s)" for c
    using uuid_alphabet(2)[OF uuid_text[OF assms that]] .
  then have "lower (as_uuid s) = as_uuid s" by (simp add: as_uuid_def lower_def)
  then show ?thesis by (simp add: as_uuid_def[of "as_uuid s"] as_uuid_clean[OF assms])
qed

definition canonical :: "string \<Rightarrow> bool" where
  "canonical u \<longleftrightarrow> is_uuid_string u \<and> as_uuid u = u"

lemma canonical_uuid_some: "canonical_uuid v = Some u \<Longrightarrow> canonical u"
  by (auto simp: canonical_uuid_def canonical_def split: option.splits if_splits)

lemma canonical_uuid_canonical: "canonical u \<Longrightarrow> canonical_uuid (Some u) = Some u"
  by (simp add: canonical_uuid_def canonical_def)

lemma canonicalD [simp]: "canonical u \<Longrightarrow> as_uuid u = u"
  by (simp add: canonical_def)

section \<open>Identifiers for examples\<close>

definition demo_id :: "char \<Rightarrow> string" where
  "demo_id c = replicate 8 c @ ''-'' @ replicate 4 c @ ''-4'' @ replicate 3 c @ ''-8'' @ replicate 3 c @ ''-'' @ replicate 12 c"

lemma demo_id_inj [simp]: "demo_id c = demo_id d \<longleftrightarrow> c = d"
proof
  have "hd (demo_id x) = x" for x by (simp add: demo_id_def)
  then show "demo_id c = demo_id d \<Longrightarrow> c = d" by metis
qed simp

lemma demo_id_not_empty [simp]: "demo_id c \<noteq> []" "[] \<noteq> demo_id c"
  by (simp_all add: demo_id_def)

lemma demo_id_canonical:
  assumes "c \<in> set ''0123456789abcdef''"
  shows "canonical (demo_id c)"
proof -
  have "\<forall>d \<in> set ''0123456789abcdef''. \<not> py_space d" by (simp add: py_space_def)
  then have c: "\<not> py_space c" "hex_char c" using assms by (blast, auto simp: hex_char_def)
  have "c \<in> set ''0123456789abcdefabcdef-''" using assms by auto
  then have lower_c: "lower_char c = c" by (rule map_fixed[OF lower_letters(2)])
  have fixed: "lower_char CHR ''-'' = CHR ''-''" "lower_char CHR ''4'' = CHR ''4''" "lower_char CHR ''8'' = CHR ''8''"
    by (rule map_fixed[OF lower_letters(2)], simp)+
  have spelled: "demo_id c = [c, c, c, c, c, c, c, c, CHR ''-'', c, c, c, c, CHR ''-'', CHR ''4'', c, c, c, CHR ''-'', CHR ''8'', c, c, c,
     CHR ''-'', c, c, c, c, c, c, c, c, c, c, c, c]"
    by (simp add: demo_id_def numeral_eq_Suc)
  have clean: "strip (demo_id c) = demo_id c"
    by (rule strip_clean) (use c(1) in \<open>auto simp: spelled py_space_def\<close>)
  have "as_uuid (demo_id c) = demo_id c"
    unfolding as_uuid_def clean unfolding lower_def spelled by (simp add: lower_c fixed)
  moreover have "is_uuid_string (demo_id c)"
    unfolding is_uuid_string_def clean unfolding spelled by (simp add: uuid_char_def c(2))
  ultimately show ?thesis by (simp add: canonical_def)
qed

lemma demo_ids [simp]:
  assumes "c \<in> set ''0123456789abcdef''"
  shows "is_uuid_string (demo_id c)" "as_uuid (demo_id c) = demo_id c"
  using demo_id_canonical[OF assms] unfolding canonical_def by blast+

end
