(* ===== verification/ReviewInvariant.thy ===== *)
theory ReviewInvariant
  imports ReviewIds
begin

text \<open>
  What the review transactions keep, in any order and from any number of replicas: each runs
  atomically, so a history is a sequence of them with arbitrary arguments. The stored state is
  always the one the current round's decisions give, decided rows and earlier rounds never
  change, and the audit log replays to the stored state.
\<close>

section \<open>Life cycle facts\<close>

lemma state_after_not_draft [simp]: "state_after_decisions ds \<noteq> Draft"
  by (simp add: state_after_decisions_def)

lemma state_after_pending: "\<forall>d \<in> set ds. d = Pending \<Longrightarrow> state_after_decisions ds = InReview"
  by (auto simp: state_after_decisions_def list_all_iff) (metis decision.distinct(3) last_in_set)+

lemma approved_iff: "state_after_decisions ds = Approved \<longleftrightarrow> ds \<noteq> [] \<and> (\<forall>d \<in> set ds. d = Approve)"
  by (auto simp: state_after_decisions_def list_all_iff)

lemma changes_iff: "state_after_decisions ds = ChangesRequested \<longleftrightarrow> RequestChanges \<in> set ds"
  by (auto simp: state_after_decisions_def)

lemma can_re_request_iff: "can_re_request s \<longleftrightarrow> s \<noteq> Draft"
  by (cases s) (simp_all add: can_re_request_def is_allowed_transition_def transitions_def)

section \<open>Consistency\<close>

definition row_key :: "reviewer_row \<Rightarrow> string \<times> nat \<times> string option" where
  "row_key w = (rr_review w, rr_round w, rr_user w)"

abbreviation open_review :: "review \<Rightarrow> bool" where
  "open_review r \<equiv> rv_closed_at r = None"

definition review_inv :: "review_db \<Rightarrow> bool" where
  "review_inv db \<longleftrightarrow>
     distinct (map rv_id (db_reviews db))
     \<and> distinct (map rv_version (filter open_review (db_reviews db)))
     \<and> distinct (map row_key (db_rows db))
     \<and> (\<forall>r \<in> set (db_reviews db). 1 \<le> rv_round r
           \<and> rv_state r = state_after_decisions (round_decisions (rv_id r) (rv_round r) db))
     \<and> (\<forall>w \<in> set (db_rows db). (\<exists>r \<in> set (db_reviews db). rv_id r = rr_review w \<and> 1 \<le> rr_round w \<and> rr_round w \<le> rv_round r)
           \<and> (rr_decision w = Pending \<longleftrightarrow> rr_decided_at w = None))"

lemma review_invD:
  assumes "review_inv db"
  shows "distinct (map rv_id (db_reviews db))" "distinct (map rv_version (filter open_review (db_reviews db)))"
    "distinct (map row_key (db_rows db))"
    "r \<in> set (db_reviews db) \<Longrightarrow> 1 \<le> rv_round r"
    "r \<in> set (db_reviews db) \<Longrightarrow> rv_state r = state_after_decisions (round_decisions (rv_id r) (rv_round r) db)"
    "w \<in> set (db_rows db) \<Longrightarrow> \<exists>r \<in> set (db_reviews db). rv_id r = rr_review w \<and> 1 \<le> rr_round w \<and> rr_round w \<le> rv_round r"
    "w \<in> set (db_rows db) \<Longrightarrow> rr_decision w = Pending \<longleftrightarrow> rr_decided_at w = None"
  using assms by (auto simp: review_inv_def)

lemma same_review:
  assumes "review_inv db" and "r \<in> set (db_reviews db)" and "r' \<in> set (db_reviews db)" and "rv_id r = rv_id r'"
  shows "r = r'"
  using review_invD(1)[OF assms(1)] assms(2-4) by (auto simp: distinct_map inj_on_def)

lemma found_member: "find P xs = Some x \<Longrightarrow> x \<in> set xs \<and> P x"
  by (auto simp: find_Some_iff)

lemma lock_open_review_some:
  assumes "lock_open_review tenant project review db = Some r"
  shows "r \<in> set (db_reviews db)" "rv_id r = as_uuid review" "rv_tenant r = as_uuid tenant" "rv_project r = as_uuid project"
    "open_review r"
  using found_member[OF assms[unfolded lock_open_review_def]] by auto

text \<open>The tables after each committed transaction.\<close>

definition new_rows :: "int \<Rightarrow> string \<Rightarrow> nat \<Rightarrow> string list \<Rightarrow> reviewer_row list" where
  "new_rows now review rnd reviewers = map (\<lambda>u. \<lparr>rr_review = review, rr_round = rnd, rr_user = Some (as_uuid u),
     rr_decision = Pending, rr_note = None, rr_decided_at = None, rr_created_at = now\<rparr>) reviewers"

lemma insert_reviewers_some:
  assumes "insert_reviewers now review rnd reviewers db = Some db'"
  shows "db' = db\<lparr>db_rows := db_rows db @ new_rows now review rnd reviewers\<rparr> \<and> distinct (map as_uuid reviewers)"
  using assms by (auto simp: insert_reviewers_def new_rows_def Let_def comp_def split: if_splits)

lemma new_rows_simps:
  "w \<in> set (new_rows now review rnd reviewers) \<Longrightarrow>
     rr_review w = review \<and> rr_round w = rnd \<and> rr_decision w = Pending \<and> rr_decided_at w = None \<and> rr_note w = None"
  by (auto simp: new_rows_def)

lemma new_rows_member:
  assumes "w \<in> set (new_rows now review rnd reviewers)"
  obtains u where "u \<in> set reviewers" "rr_user w = Some (as_uuid u)" "rr_review w = review"
  using assms by (auto simp: new_rows_def)

lemma distinct_new_rows: "distinct (map as_uuid us) \<Longrightarrow> distinct (map row_key (new_rows now review rnd us))"
  by (simp add: new_rows_def row_key_def comp_def distinct_map inj_on_def)

lemma insert_review_cases:
  assumes "insert_review alive now new_id tenant project version by reviewers fp people db = (res, db')"
  shows "db' = db \<and> (\<forall>x. res \<noteq> Commit x)
    \<or> res = Commit new_id
      \<and> db_reviews db' = db_reviews db @ [\<lparr>rv_id = new_id, rv_tenant = as_uuid tenant, rv_project = as_uuid project,
          rv_version = as_uuid version, rv_requested_by = Some (as_uuid by), rv_state = InReview, rv_round = 1,
          rv_fingerprint = fp, rv_closed_at = None, rv_closed_by = None, rv_created_at = now, rv_updated_at = now\<rparr>]
      \<and> db_rows db' = db_rows db @ new_rows now new_id 1 reviewers
      \<and> db_audit db' = db_audit db @ [\<lparr>au_tenant = as_uuid tenant, au_project = as_uuid project, au_version = as_uuid version,
            au_actor = as_uuid by, au_review = new_id, au_round = 1, au_event = AuditRequested reviewers fp\<rparr>]
      \<and> reviewers \<noteq> [] \<and> distinct (map as_uuid reviewers)
      \<and> (\<forall>r \<in> set (db_reviews db). open_review r \<longrightarrow> rv_version r \<noteq> as_uuid version)"
  using assms
  by (auto simp: insert_review_def guarded_tx_def Let_def audit_tx_def insert_notifications_def list_ex_iff
      split: if_splits option.splits dest!: insert_reviewers_some)

lemma re_request_review_cases:
  assumes "re_request_review alive now tenant project review expected reviewers fp actor people db = (res, db')"
  shows "db' = db \<and> (\<forall>x. res \<noteq> Commit x)
    \<or> (\<exists>r. lock_open_review tenant project review db = Some r \<and> rv_round r = expected \<and> can_re_request (rv_state r)
      \<and> res = Commit (rv_round r + 1, rv_state r)
      \<and> db_reviews db' = map (\<lambda>q. if rv_id q = as_uuid review then q\<lparr>rv_state := InReview, rv_round := rv_round r + 1,
            rv_fingerprint := fp, rv_updated_at := now\<rparr> else q) (db_reviews db)
      \<and> db_rows db' = db_rows db @ new_rows now (as_uuid review) (rv_round r + 1) reviewers
      \<and> db_audit db' = db_audit db @ [\<lparr>au_tenant = as_uuid tenant, au_project = as_uuid project, au_version = rv_version r,
            au_actor = as_uuid actor, au_review = as_uuid review, au_round = rv_round r + 1,
            au_event = AuditReRequested (rv_round r) (rv_state r) reviewers fp\<rparr>]
      \<and> reviewers \<noteq> [] \<and> distinct (map as_uuid reviewers))"
  using assms
  by (auto simp: re_request_review_def guarded_tx_def Let_def audit_tx_def insert_notifications_def update_review_def
      split: if_splits option.splits dest!: insert_reviewers_some)

definition decide_row :: "string \<Rightarrow> nat \<Rightarrow> string \<Rightarrow> decision \<Rightarrow> string option \<Rightarrow> int \<Rightarrow> reviewer_row \<Rightarrow> reviewer_row" where
  "decide_row review rnd user d note now w =
     (if decides review rnd user w then w\<lparr>rr_decision := d, rr_note := note, rr_decided_at := Some now\<rparr> else w)"

lemma record_review_decision_cases:
  assumes "record_review_decision alive now tenant project review expected user d note people db = (res, db')"
  shows "db' = db \<and> (\<forall>x. res \<noteq> Commit x)
    \<or> (\<exists>r. lock_open_review tenant project review db = Some r \<and> rv_round r = expected \<and> rv_state r = InReview
      \<and> d \<noteq> Pending \<and> list_ex (decides (as_uuid review) expected (as_uuid user)) (db_rows db)
      \<and> db_rows db' = map (decide_row (as_uuid review) expected (as_uuid user) d note now) (db_rows db)
      \<and> res = Commit (rv_state r, state_after_decisions (round_decisions (as_uuid review) expected db'))
      \<and> db_reviews db' = map (\<lambda>q. if rv_id q = as_uuid review then q\<lparr>rv_state :=
            state_after_decisions (round_decisions (as_uuid review) expected db'), rv_updated_at := now\<rparr> else q) (db_reviews db)
      \<and> (\<exists>es. db_audit db' = db_audit db @ es \<and> map au_event es = AuditDecision user d (note \<noteq> None) #
             (if state_after_decisions (round_decisions (as_uuid review) expected db') = InReview then [] else
               [AuditStateChanged InReview (state_after_decisions (round_decisions (as_uuid review) expected db'))])
           \<and> (\<forall>e \<in> set es. au_review e = as_uuid review \<and> au_round e = expected)))"
proof (cases "d \<notin> set recordable_decisions \<or> \<not> list_all is_uuid_string [tenant, project, review, user]")
  case False
  then have d: "d \<noteq> Pending" by (auto simp: recordable_decisions_def)
  show ?thesis
  proof (cases "lock_open_review tenant project review db")
    case (Some r)
    let ?ok = "rv_round r = expected \<and> rv_state r = InReview
      \<and> list_ex (decides (as_uuid review) expected (as_uuid user)) (db_rows db)"
    have fold: "map (\<lambda>w. if decides (as_uuid review) expected (as_uuid user) w
          then w\<lparr>rr_decision := d, rr_note := note, rr_decided_at := Some now\<rparr> else w) (db_rows db)
        = map (decide_row (as_uuid review) expected (as_uuid user) d note now) (db_rows db)"
      by (simp add: decide_row_def)
    show ?thesis
      using assms Some False d
      by (cases ?ok) (auto simp: record_review_decision_def guarded_tx_def Let_def audit_tx_def insert_notifications_def
          update_review_def can_record_decision_def round_decisions_def fold split: if_splits)
  qed (use assms False in \<open>auto simp: record_review_decision_def guarded_tx_def\<close>)
qed (use assms in \<open>auto simp: record_review_decision_def\<close>)

lemma withdraw_review_cases:
  assumes "withdraw_review now tenant project review actor db = (res, db')"
  shows "db' = db \<and> (\<forall>x. res \<noteq> Commit x)
    \<or> (\<exists>r. lock_open_review tenant project review db = Some r \<and> res = Commit True
      \<and> db_reviews db' = map (\<lambda>q. if rv_id q = rv_id r then q\<lparr>rv_closed_at := Some now,
            rv_closed_by := Some (as_uuid actor), rv_updated_at := now\<rparr> else q) (db_reviews db)
      \<and> db_rows db' = db_rows db
      \<and> db_audit db' = db_audit db @ [\<lparr>au_tenant = as_uuid tenant, au_project = as_uuid project, au_version = rv_version r,
            au_actor = as_uuid actor, au_review = rv_id r, au_round = rv_round r, au_event = AuditWithdrawn (rv_state r)\<rparr>])"
  using assms
  by (auto simp: withdraw_review_def guarded_tx_def audit_tx_def update_review_def split: if_splits option.splits)

section \<open>Every transaction keeps the tables consistent\<close>

lemma open_versions_map:
  assumes "\<And>r. rv_version (f r) = rv_version r \<and> rv_closed_at (f r) = rv_closed_at r"
  shows "map rv_version (filter open_review (map f rs)) = map rv_version (filter open_review rs)"
  using assms by (induction rs) auto

lemma no_rows_of_new:
  assumes "review_inv db" and "new_id \<notin> rv_id ` set (db_reviews db)" and "w \<in> set (db_rows db)"
  shows "rr_review w \<noteq> new_id"
  using review_invD(6)[OF assms(1,3)] assms(2) by (metis imageI)

lemma no_rows_of_next:
  assumes "review_inv db" and "r \<in> set (db_reviews db)" and "w \<in> set (db_rows db)" and "rr_review w = rv_id r"
  shows "rr_round w \<noteq> Suc (rv_round r)"
  using review_invD(6)[OF assms(1,3)] same_review[OF assms(1) _ assms(2)] assms(4) by fastforce

lemma new_round_decisions:
  assumes "\<forall>w \<in> set rows. rr_review w = review \<longrightarrow> rr_round w \<noteq> rnd"
  shows "state_after_decisions (map rr_decision (filter (\<lambda>w. rr_review w = review \<and> rr_round w = rnd)
     (rows @ new_rows now review rnd us))) = InReview"
proof -
  have "filter (\<lambda>w. rr_review w = review \<and> rr_round w = rnd) rows = []"
    using assms by (auto simp: filter_empty_conv)
  then show ?thesis by (intro state_after_pending) (auto dest: new_rows_simps)
qed

lemma other_round_decisions:
  assumes "review' \<noteq> review \<or> rnd' \<noteq> rnd"
  shows "filter (\<lambda>w. rr_review w = review' \<and> rr_round w = rnd') (rows @ new_rows now review rnd us)
    = filter (\<lambda>w. rr_review w = review' \<and> rr_round w = rnd') rows"
  using assms by (auto simp: filter_empty_conv dest: new_rows_simps)

lemma distinct_keys_new:
  assumes "distinct (map row_key rows)" and "\<forall>w \<in> set rows. rr_review w = review \<longrightarrow> rr_round w \<noteq> rnd"
    and "distinct (map as_uuid us)"
  shows "distinct (map row_key (rows @ new_rows now review rnd us))"
  using assms distinct_new_rows[OF assms(3)] by (auto simp: row_key_def dest: new_rows_simps)

lemma insert_review_inv:
  assumes "review_inv db" and "new_id \<notin> rv_id ` set (db_reviews db)"
  shows "review_inv (snd (insert_review alive now new_id tenant project version by reviewers fp people db))"
proof (cases "insert_review alive now new_id tenant project version by reviewers fp people db")
  case (Pair res db')
  note inv = review_invD[OF assms(1)]
  from insert_review_cases[OF Pair] show ?thesis
  proof (elim disjE conjE)
    assume "db' = db"
    then show ?thesis using assms(1) Pair by simp
  next
    assume reviews: "db_reviews db' = db_reviews db @ [\<lparr>rv_id = new_id, rv_tenant = as_uuid tenant, rv_project = as_uuid project,
          rv_version = as_uuid version, rv_requested_by = Some (as_uuid by), rv_state = InReview, rv_round = 1,
          rv_fingerprint = fp, rv_closed_at = None, rv_closed_by = None, rv_created_at = now, rv_updated_at = now\<rparr>]"
      and rows: "db_rows db' = db_rows db @ new_rows now new_id 1 reviewers"
      and free: "\<forall>r \<in> set (db_reviews db). open_review r \<longrightarrow> rv_version r \<noteq> as_uuid version"
      and us: "distinct (map as_uuid reviewers)"
    have none: "\<forall>w \<in> set (db_rows db). rr_review w = new_id \<longrightarrow> rr_round w \<noteq> 1"
      using no_rows_of_new[OF assms] by blast
    have "round_decisions (rv_id r) (rv_round r) db' = round_decisions (rv_id r) (rv_round r) db"
      if "r \<in> set (db_reviews db)" for r
    proof -
      have "rv_id r \<noteq> new_id" using assms(2) that by auto
      then show ?thesis by (simp add: round_decisions_def rows other_round_decisions del: filter_append)
    qed
    moreover have "state_after_decisions (round_decisions new_id 1 db') = InReview"
      unfolding round_decisions_def rows by (rule new_round_decisions[OF none])
    moreover have "distinct (map row_key (db_rows db'))"
      unfolding rows by (rule distinct_keys_new[OF inv(3) none us])
    moreover have "\<exists>r \<in> set (db_reviews db'). rv_id r = rr_review w \<and> 1 \<le> rr_round w \<and> rr_round w \<le> rv_round r"
      if "w \<in> set (db_rows db')" for w
      using that inv(6)[of w] by (auto simp: rows reviews dest: new_rows_simps)
    moreover have "rr_decision w = Pending \<longleftrightarrow> rr_decided_at w = None" if "w \<in> set (db_rows db')" for w
      using that inv(7)[of w] by (auto simp: rows dest: new_rows_simps)
    ultimately show ?thesis
      using inv(1,2,4,5) assms(2) free Pair unfolding review_inv_def by (auto simp: reviews)
  qed
qed

lemma re_request_review_inv:
  assumes "review_inv db"
  shows "review_inv (snd (re_request_review alive now tenant project review expected reviewers fp actor people db))"
proof (cases "re_request_review alive now tenant project review expected reviewers fp actor people db")
  case (Pair res db')
  note inv = review_invD[OF assms(1)]
  from re_request_review_cases[OF Pair] show ?thesis
  proof (elim disjE conjE exE)
    assume "db' = db"
    then show ?thesis using assms(1) Pair by simp
  next
    fix r
    assume lock: "lock_open_review tenant project review db = Some r"
      and reviews: "db_reviews db' = map (\<lambda>q. if rv_id q = as_uuid review then q\<lparr>rv_state := InReview, rv_round := rv_round r + 1,
            rv_fingerprint := fp, rv_updated_at := now\<rparr> else q) (db_reviews db)"
      and rows: "db_rows db' = db_rows db @ new_rows now (as_uuid review) (rv_round r + 1) reviewers"
      and us: "distinct (map as_uuid reviewers)"
    note r = lock_open_review_some[OF lock]
    have only: "q = r" if "q \<in> set (db_reviews db)" "rv_id q = as_uuid review" for q
      using same_review[OF assms(1) that(1) r(1)] that(2) r(2) by simp
    have none: "\<forall>w \<in> set (db_rows db). rr_review w = as_uuid review \<longrightarrow> rr_round w \<noteq> rv_round r + 1"
      using no_rows_of_next[OF assms r(1)] r(2) by auto
    have others: "round_decisions (rv_id q) (rv_round q) db' = round_decisions (rv_id q) (rv_round q) db"
      if "q \<in> set (db_reviews db)" "rv_id q \<noteq> as_uuid review" for q
      using that by (simp add: round_decisions_def rows other_round_decisions del: filter_append)
    have mine: "state_after_decisions (round_decisions (as_uuid review) (rv_round r + 1) db') = InReview"
      unfolding round_decisions_def rows by (rule new_round_decisions[OF none])
    have states: "1 \<le> rv_round q \<and> rv_state q = state_after_decisions (round_decisions (rv_id q) (rv_round q) db')"
      if "q \<in> set (db_reviews db')" for q
      using that inv(4,5) others mine by (auto simp: reviews)
    have "distinct (map row_key (db_rows db'))"
      unfolding rows by (rule distinct_keys_new[OF inv(3) none us])
    moreover have "\<exists>q \<in> set (db_reviews db'). rv_id q = rr_review w \<and> 1 \<le> rr_round w \<and> rr_round w \<le> rv_round q"
      if w: "w \<in> set (db_rows db')" for w
    proof (cases "w \<in> set (db_rows db)")
      case True
      from inv(6)[OF True] obtain q where q: "q \<in> set (db_reviews db)" "rv_id q = rr_review w" "1 \<le> rr_round w" "rr_round w \<le> rv_round q"
        by blast
      show ?thesis
        unfolding reviews set_map bex_simps(7)
        using q only[OF q(1)] by (intro bexI[OF _ q(1)]) auto
    next
      case False
      then show ?thesis
        unfolding reviews set_map bex_simps(7)
        using w r(1,2) by (intro bexI[OF _ r(1)]) (auto simp: rows dest: new_rows_simps)
    qed
    moreover have "rr_decision w = Pending \<longleftrightarrow> rr_decided_at w = None" if "w \<in> set (db_rows db')" for w
      using that inv(7)[of w] by (auto simp: rows dest: new_rows_simps)
    moreover have "map rv_id (db_reviews db') = map rv_id (db_reviews db)" by (simp add: reviews)
    moreover have "map rv_version (filter open_review (db_reviews db')) = map rv_version (filter open_review (db_reviews db))"
      unfolding reviews by (rule open_versions_map) simp
    ultimately show ?thesis
      using inv(1,2) states Pair unfolding review_inv_def by (simp del: One_nat_def)
  qed
qed

lemma row_key_decide [simp]: "row_key (decide_row review rnd user d note now w) = row_key w"
  by (simp add: decide_row_def row_key_def)

lemma decide_row_simps [simp]:
  "rr_review (decide_row review rnd user d note now w) = rr_review w"
  "rr_round (decide_row review rnd user d note now w) = rr_round w"
  "rr_user (decide_row review rnd user d note now w) = rr_user w"
  by (simp_all add: decide_row_def)

lemma record_review_decision_inv:
  assumes "review_inv db"
  shows "review_inv (snd (record_review_decision alive now tenant project review expected user d note people db))"
proof (cases "record_review_decision alive now tenant project review expected user d note people db")
  case (Pair res db')
  note inv = review_invD[OF assms(1)]
  from record_review_decision_cases[OF Pair] show ?thesis
  proof (elim disjE conjE exE)
    assume "db' = db"
    then show ?thesis using assms(1) Pair by simp
  next
    fix r
    let ?row = "decide_row (as_uuid review) expected (as_uuid user) d note now"
    assume lock: "lock_open_review tenant project review db = Some r" and rnd: "rv_round r = expected" and d: "d \<noteq> Pending"
      and rows: "db_rows db' = map ?row (db_rows db)"
      and reviews: "db_reviews db' = map (\<lambda>q. if rv_id q = as_uuid review then q\<lparr>rv_state :=
            state_after_decisions (round_decisions (as_uuid review) expected db'), rv_updated_at := now\<rparr> else q) (db_reviews db)"
    note r = lock_open_review_some[OF lock]
    have only: "q = r" if "q \<in> set (db_reviews db)" "rv_id q = as_uuid review" for q
      using same_review[OF assms(1) that(1) r(1)] that(2) r(2) by simp
    have others: "round_decisions (rv_id q) (rv_round q) db' = round_decisions (rv_id q) (rv_round q) db"
      if "rv_id q \<noteq> as_uuid review" for q
    proof -
      have "?row w = w" if "rr_review w = rv_id q" for w
        using that \<open>rv_id q \<noteq> as_uuid review\<close> by (simp add: decide_row_def decides_def)
      then show ?thesis by (auto simp: round_decisions_def rows filter_map comp_def)
    qed
    have "1 \<le> rv_round q \<and> rv_state q = state_after_decisions (round_decisions (rv_id q) (rv_round q) db')"
      if q: "q \<in> set (db_reviews db')" for q
    proof -
      obtain p where p: "p \<in> set (db_reviews db)" and q': "q = (if rv_id p = as_uuid review then p\<lparr>rv_state :=
            state_after_decisions (round_decisions (as_uuid review) expected db'), rv_updated_at := now\<rparr> else p)"
        using q unfolding reviews by auto
      show ?thesis
      proof (cases "rv_id p = as_uuid review")
        case True
        then show ?thesis using only[OF p True] rnd inv(4)[OF p] by (simp add: q')
      next
        case False
        then show ?thesis using inv(4,5)[OF p] others[OF False] by (simp add: q')
      qed
    qed
    moreover have "distinct (map row_key (db_rows db'))"
      using inv(3) by (simp add: rows comp_def)
    moreover have "\<exists>q \<in> set (db_reviews db'). rv_id q = rr_review w \<and> 1 \<le> rr_round w \<and> rr_round w \<le> rv_round q"
      if "w \<in> set (db_rows db')" for w
    proof -
      obtain w0 where w0: "w0 \<in> set (db_rows db)" "w = ?row w0" using \<open>w \<in> set (db_rows db')\<close> by (auto simp: rows)
      from inv(6)[OF w0(1)] obtain p where p: "p \<in> set (db_reviews db)"
        "rv_id p = rr_review w0" "1 \<le> rr_round w0" "rr_round w0 \<le> rv_round p" by blast
      show ?thesis
        unfolding reviews set_map bex_simps(7) using p by (intro bexI[OF _ p(1)]) (simp add: w0(2))
    qed
    moreover have "rr_decision w = Pending \<longleftrightarrow> rr_decided_at w = None" if "w \<in> set (db_rows db')" for w
      using that inv(7) d by (auto simp: rows decide_row_def)
    moreover have "map rv_id (db_reviews db') = map rv_id (db_reviews db)" by (simp add: reviews)
    moreover have "map rv_version (filter open_review (db_reviews db')) = map rv_version (filter open_review (db_reviews db))"
      by (subst reviews, rule open_versions_map) simp
    ultimately show ?thesis
      using inv(1,2) Pair unfolding review_inv_def by (simp del: One_nat_def)
  qed
qed

lemma withdraw_review_inv:
  assumes "review_inv db"
  shows "review_inv (snd (withdraw_review now tenant project review actor db))"
proof (cases "withdraw_review now tenant project review actor db")
  case (Pair res db')
  note inv = review_invD[OF assms(1)]
  from withdraw_review_cases[OF Pair] show ?thesis
  proof (elim disjE conjE exE)
    assume "db' = db"
    then show ?thesis using assms(1) Pair by simp
  next
    fix r
    let ?f = "\<lambda>q. if rv_id q = rv_id r then q\<lparr>rv_closed_at := Some now, rv_closed_by := Some (as_uuid actor), rv_updated_at := now\<rparr> else q"
    assume reviews: "db_reviews db' = map ?f (db_reviews db)" and rows: "db_rows db' = db_rows db"
    have "filter open_review (map ?f rs) = filter (\<lambda>q. rv_id q \<noteq> rv_id r) (filter open_review rs)" for rs
      by (induction rs) auto
    then have "distinct (map rv_version (filter open_review (db_reviews db')))"
      unfolding reviews by (simp only: distinct_map_filter[OF inv(2)])
    moreover have "map rv_id (db_reviews db') = map rv_id (db_reviews db)" by (simp add: reviews)
    moreover have "round_decisions q n db' = round_decisions q n db" for q n by (simp add: round_decisions_def rows)
    moreover have "\<exists>q \<in> set (db_reviews db'). rv_id q = rr_review w \<and> 1 \<le> rr_round w \<and> rr_round w \<le> rv_round q"
      if "w \<in> set (db_rows db)" for w
    proof -
      from inv(6)[OF that] obtain p where p: "p \<in> set (db_reviews db)"
        "rv_id p = rr_review w" "1 \<le> rr_round w" "rr_round w \<le> rv_round p" by blast
      then show ?thesis unfolding reviews set_map bex_simps(7) by (intro bexI[OF _ p(1)]) simp
    qed
    moreover have "1 \<le> rv_round (?f q) \<and> rv_state (?f q) = state_after_decisions (round_decisions (rv_id (?f q)) (rv_round (?f q)) db)"
      if "q \<in> set (db_reviews db)" for q
      using inv(4,5)[OF that] by simp
    ultimately show ?thesis
      using inv(1,3,7) Pair unfolding review_inv_def by (simp only: snd_conv rows reviews set_map ball_simps) blast
  qed
qed

section \<open>Histories\<close>

inductive review_step :: "review_db \<Rightarrow> review_db \<Rightarrow> bool" where
  insert_step: "new_id \<notin> rv_id ` set (db_reviews db)
    \<Longrightarrow> review_step db (snd (insert_review alive now new_id tenant project version author reviewers fp people db))"
| re_request_step: "review_step db (snd (re_request_review alive now tenant project review expected reviewers fp actor people db))"
| decision_step: "review_step db (snd (record_review_decision alive now tenant project review expected user d remark people db))"
| withdraw_step: "review_step db (snd (withdraw_review now tenant project review actor db))"

lemma review_step_inv: "review_step db db' \<Longrightarrow> review_inv db \<Longrightarrow> review_inv db'"
  by (induction rule: review_step.induct)
    (simp_all add: insert_review_inv re_request_review_inv record_review_decision_inv withdraw_review_inv)

lemma review_inv_empty: "review_inv empty_review_db"
  by (simp add: review_inv_def empty_review_db_def)

lemma review_reachable_inv:
  assumes "review_step\<^sup>*\<^sup>* empty_review_db db"
  shows "review_inv db"
  using assms by (induction rule: rtranclp_induct) (auto intro: review_inv_empty review_step_inv)

text \<open>What a review and a reviewer row may become.\<close>

definition review_follows :: "review \<Rightarrow> review \<Rightarrow> bool" where
  "review_follows r r' \<longleftrightarrow> rv_id r' = rv_id r \<and> rv_tenant r' = rv_tenant r \<and> rv_project r' = rv_project r
     \<and> rv_version r' = rv_version r \<and> rv_requested_by r' = rv_requested_by r
     \<and> (rv_closed_at r \<noteq> None \<longrightarrow> r' = r)
     \<and> (rv_state r' = rv_state r \<or> is_allowed_transition (rv_state r) (rv_state r'))
     \<and> (rv_round r' = rv_round r \<and> rv_fingerprint r' = rv_fingerprint r \<or> rv_round r' = Suc (rv_round r) \<and> rv_state r' = InReview)"

definition row_follows :: "review_db \<Rightarrow> reviewer_row \<Rightarrow> reviewer_row \<Rightarrow> bool" where
  "row_follows db w w' \<longleftrightarrow> w' = w \<or> rr_decision w = Pending \<and> rr_decision w' \<noteq> Pending \<and> row_key w' = row_key w
     \<and> (\<exists>r \<in> set (db_reviews db). rv_id r = rr_review w \<and> rv_round r = rr_round w \<and> open_review r \<and> rv_state r = InReview)"

lemma review_follows_refl [simp]: "review_follows r r"
  by (simp add: review_follows_def)

lemma row_follows_refl [simp]: "row_follows db w w"
  by (simp add: row_follows_def)

lemma follows_same:
  "(\<forall>r \<in> set rs. \<exists>r' \<in> set rs. review_follows r r') \<and> (\<forall>w \<in> set ws. \<exists>w' \<in> set ws. row_follows db w w')"
  using review_follows_refl row_follows_refl by blast

lemma allowed_steps:
  "s \<noteq> Draft \<Longrightarrow> is_allowed_transition s InReview" "is_allowed_transition InReview Approved"
  "is_allowed_transition InReview ChangesRequested" "is_allowed_transition InReview InReview"
  by (cases s) (simp_all add: is_allowed_transition_def transitions_def)

lemma all_in_list_map: "(\<forall>x \<in> set xs. P x (f x)) \<longrightarrow> (\<forall>x \<in> set xs. \<exists>y \<in> set (map f xs). P x y)"
  by auto

lemma step_follows:
  assumes "review_step db db'" and "review_inv db"
  shows "(\<forall>r \<in> set (db_reviews db). \<exists>r' \<in> set (db_reviews db'). review_follows r r')
    \<and> (\<forall>w \<in> set (db_rows db). \<exists>w' \<in> set (db_rows db'). row_follows db w w')"
  using assms
proof (induction rule: review_step.induct)
  case (insert_step new_id db alive now tenant project version author reviewers fp people)
  then show ?case
    using insert_review_cases[OF surjective_pairing, of alive now new_id tenant project version author reviewers fp people db]
    by (auto intro: review_follows_refl row_follows_refl)
next
  case (re_request_step db alive now tenant project review expected reviewers fp actor people)
  from re_request_review_cases[OF surjective_pairing, of alive now tenant project review expected reviewers fp actor people db]
  show ?case
  proof (elim disjE conjE exE)
    fix r assume lock: "lock_open_review tenant project review db = Some r" and s: "can_re_request (rv_state r)"
      and reviews: "db_reviews (snd (re_request_review alive now tenant project review expected reviewers fp actor people db))
        = map (\<lambda>q. if rv_id q = as_uuid review then q\<lparr>rv_state := InReview, rv_round := rv_round r + 1,
            rv_fingerprint := fp, rv_updated_at := now\<rparr> else q) (db_reviews db)"
      and rows: "db_rows (snd (re_request_review alive now tenant project review expected reviewers fp actor people db))
        = db_rows db @ new_rows now (as_uuid review) (rv_round r + 1) reviewers"
    note r = lock_open_review_some[OF lock]
    have "q = r" if "q \<in> set (db_reviews db)" "rv_id q = as_uuid review" for q
      using same_review[OF re_request_step that(1) r(1)] that(2) r(2) by simp
    then show ?thesis
      unfolding reviews rows using r(5) s
      by (intro conjI all_in_list_map[THEN mp] ballI)
        (auto simp: review_follows_def can_re_request_iff allowed_steps intro: row_follows_refl)
  qed (simp add: follows_same)
next
  case (decision_step db alive now tenant project review expected user d remark people)
  from record_review_decision_cases[OF surjective_pairing, of alive now tenant project review expected user d remark people db]
  show ?case
  proof (elim disjE conjE exE)
    let ?db' = "snd (record_review_decision alive now tenant project review expected user d remark people db)"
    fix r assume lock: "lock_open_review tenant project review db = Some r" and s: "rv_state r = InReview"
      and d: "d \<noteq> Pending" and rnd: "rv_round r = expected"
      and reviews: "db_reviews ?db' = map (\<lambda>q. if rv_id q = as_uuid review then q\<lparr>rv_state :=
            state_after_decisions (round_decisions (as_uuid review) expected ?db'), rv_updated_at := now\<rparr> else q) (db_reviews db)"
      and rows: "db_rows ?db' = map (decide_row (as_uuid review) expected (as_uuid user) d remark now) (db_rows db)"
    note r = lock_open_review_some[OF lock]
    have "q = r" if "q \<in> set (db_reviews db)" "rv_id q = as_uuid review" for q
      using same_review[OF decision_step that(1) r(1)] that(2) r(2) by simp
    moreover have "t = Draft \<or> is_allowed_transition InReview t" for t by (cases t) (simp_all add: allowed_steps)
    then have "is_allowed_transition InReview (state_after_decisions ds)" for ds using state_after_not_draft by blast
    ultimately have "\<forall>r \<in> set (db_reviews db). \<exists>r' \<in> set (db_reviews ?db'). review_follows r r'"
      unfolding reviews using r(5) s by (intro all_in_list_map[THEN mp] ballI) (auto simp: review_follows_def)
    moreover have "\<forall>w \<in> set (db_rows db). \<exists>w' \<in> set (db_rows ?db'). row_follows db w w'"
      unfolding rows using r s d rnd
      by (intro all_in_list_map[THEN mp] ballI) (auto simp: row_follows_def decide_row_def decides_def row_key_def)
    ultimately show ?thesis by blast
  qed (simp add: follows_same)
next
  case (withdraw_step db now tenant project review actor)
  from withdraw_review_cases[OF surjective_pairing, of now tenant project review actor db]
  show ?case
  proof (elim disjE conjE exE)
    let ?db' = "snd (withdraw_review now tenant project review actor db)"
    fix r assume lock: "lock_open_review tenant project review db = Some r"
      and reviews: "db_reviews ?db' = map (\<lambda>q. if rv_id q = rv_id r then q\<lparr>rv_closed_at := Some now,
            rv_closed_by := Some (as_uuid actor), rv_updated_at := now\<rparr> else q) (db_reviews db)"
      and rows: "db_rows ?db' = db_rows db"
    note r = lock_open_review_some[OF lock]
    have "open_review q" if "q \<in> set (db_reviews db)" "rv_id q = rv_id r" for q
      using same_review[OF withdraw_step that(1) r(1)] that(2) r(5) by simp
    then show ?thesis
      unfolding reviews rows
      by (intro conjI all_in_list_map[THEN mp] ballI) (auto simp: review_follows_def intro: row_follows_refl)
  qed (simp add: follows_same)
qed

lemma steps_keep_rows:
  assumes "review_step\<^sup>*\<^sup>* db db'" and "review_inv db" and "w \<in> set (db_rows db)"
    and "rr_decision w \<noteq> Pending \<or> (\<exists>r \<in> set (db_reviews db). rv_id r = rr_review w \<and> (rr_round w < rv_round r \<or> \<not> open_review r))"
  shows "w \<in> set (db_rows db')
    \<and> (rr_decision w \<noteq> Pending \<or> (\<exists>r \<in> set (db_reviews db'). rv_id r = rr_review w \<and> (rr_round w < rv_round r \<or> \<not> open_review r)))"
  using assms(1)
proof (induction rule: rtranclp_induct)
  case base
  then show ?case using assms(3,4) by blast
next
  case (step db1 db2)
  have inv: "review_inv db1"
    using step.hyps(1) assms(2) by (induction rule: rtranclp_induct) (auto intro: review_step_inv)
  note follows = step_follows[OF step.hyps(2) inv]
  then obtain w' where w': "w' \<in> set (db_rows db2)" "row_follows db1 w w'" using step.IH by blast
  have "w' = w"
    using w'(2) step.IH same_review[OF inv] unfolding row_follows_def by fastforce
  moreover have "rr_decision w \<noteq> Pending \<or>
      (\<exists>r \<in> set (db_reviews db2). rv_id r = rr_review w \<and> (rr_round w < rv_round r \<or> \<not> open_review r))"
    using step.IH follows unfolding review_follows_def by (metis less_SucI)
  ultimately show ?case using w'(1) by blast
qed

lemma steps_freeze_reviews:
  assumes "review_step\<^sup>*\<^sup>* db db'" and "review_inv db" and "r \<in> set (db_reviews db)"
  shows "\<exists>r' \<in> set (db_reviews db'). rv_id r' = rv_id r \<and> rv_version r' = rv_version r \<and> rv_requested_by r' = rv_requested_by r
    \<and> rv_round r \<le> rv_round r' \<and> (rv_round r' = rv_round r \<longrightarrow> rv_fingerprint r' = rv_fingerprint r)
    \<and> (\<not> open_review r \<longrightarrow> r' = r)"
  using assms(1)
proof (induction rule: rtranclp_induct)
  case base
  then show ?case using assms(3) by blast
next
  case (step db1 db2)
  have inv: "review_inv db1"
    using step.hyps(1) assms(2) by (induction rule: rtranclp_induct) (auto intro: review_step_inv)
  from step.IH obtain r1 where r1: "r1 \<in> set (db_reviews db1)" "rv_id r1 = rv_id r" "rv_version r1 = rv_version r"
    "rv_requested_by r1 = rv_requested_by r" "rv_round r \<le> rv_round r1"
    "rv_round r1 = rv_round r \<longrightarrow> rv_fingerprint r1 = rv_fingerprint r" "\<not> open_review r \<longrightarrow> r1 = r"
    by blast
  from step_follows[OF step.hyps(2) inv] r1(1) obtain r2 where "r2 \<in> set (db_reviews db2)" "review_follows r1 r2" by blast
  then show ?case using r1 by (intro bexI[of _ r2]) (auto simp: review_follows_def)
qed

section \<open>The audit log\<close>

fun replay_event :: "(review_state \<times> nat \<times> bool) option \<Rightarrow> audit_row \<Rightarrow> (review_state \<times> nat \<times> bool) option" where
  "replay_event s e = (case au_event e of
       AuditRequested _ _ \<Rightarrow> Some (InReview, au_round e, False)
     | AuditReRequested _ _ _ _ \<Rightarrow> Some (InReview, au_round e, False)
     | AuditDecision _ _ _ \<Rightarrow> s
     | AuditStateChanged _ t \<Rightarrow> map_option (\<lambda>(_, n, c). (t, n, c)) s
     | AuditWithdrawn _ \<Rightarrow> map_option (\<lambda>(t, n, _). (t, n, True)) s)"

definition replay :: "audit_row list \<Rightarrow> string \<Rightarrow> (review_state \<times> nat \<times> bool) option" where
  "replay entries review = foldl replay_event None (filter (\<lambda>e. au_review e = review) entries)"

lemma replay_append: "replay (xs @ ys) review = foldl replay_event (replay xs review) (filter (\<lambda>e. au_review e = review) ys)"
  by (simp add: replay_def)

lemma replay_others: "\<forall>e \<in> set ys. au_review e \<noteq> review \<Longrightarrow> replay (xs @ ys) review = replay xs review"
  by (simp add: replay_append filter_empty_conv)

definition audit_ok :: "review_db \<Rightarrow> bool" where
  "audit_ok db \<longleftrightarrow> (\<forall>r \<in> set (db_reviews db).
     replay (db_audit db) (rv_id r) = Some (rv_state r, rv_round r, \<not> open_review r))"

lemma audit_okD: "audit_ok db \<Longrightarrow> r \<in> set (db_reviews db) \<Longrightarrow> replay (db_audit db) (rv_id r) = Some (rv_state r, rv_round r, \<not> open_review r)"
  by (simp add: audit_ok_def)

lemma step_audit_ok:
  assumes "review_step db db'" and "review_inv db" and "audit_ok db"
  shows "audit_ok db'"
  using assms
proof (induction rule: review_step.induct)
  case (insert_step new_id db alive now tenant project version author reviewers fp people)
  then show ?case
    using insert_review_cases[OF surjective_pairing, of alive now new_id tenant project version author reviewers fp people db]
    by (auto simp: audit_ok_def replay_append image_iff)
next
  case (re_request_step db alive now tenant project review expected reviewers fp actor people)
  from re_request_review_cases[OF surjective_pairing, of alive now tenant project review expected reviewers fp actor people db]
  show ?case
  proof (elim disjE conjE exE)
    let ?db' = "snd (re_request_review alive now tenant project review expected reviewers fp actor people db)"
    fix r assume lock: "lock_open_review tenant project review db = Some r"
      and reviews: "db_reviews ?db'
        = map (\<lambda>q. if rv_id q = as_uuid review then q\<lparr>rv_state := InReview, rv_round := rv_round r + 1,
            rv_fingerprint := fp, rv_updated_at := now\<rparr> else q) (db_reviews db)"
      and audit: "db_audit ?db' = db_audit db @ [\<lparr>au_tenant = as_uuid tenant, au_project = as_uuid project, au_version = rv_version r,
            au_actor = as_uuid actor, au_review = as_uuid review, au_round = rv_round r + 1,
            au_event = AuditReRequested (rv_round r) (rv_state r) reviewers fp\<rparr>]"
    note r = lock_open_review_some[OF lock]
    have "q = r" if "q \<in> set (db_reviews db)" "rv_id q = as_uuid review" for q
      using same_review[OF re_request_step(1) that(1) r(1)] that(2) r(2) by simp
    then show ?thesis
      using re_request_step(2) r(5) unfolding audit_ok_def reviews set_map ball_simps
      by (intro ballI) (auto simp: audit replay_append)
  qed (use re_request_step in simp)
next
  case (decision_step db alive now tenant project review expected user d remark people)
  from record_review_decision_cases[OF surjective_pairing, of alive now tenant project review expected user d remark people db]
  show ?case
  proof (elim disjE conjE exE)
    let ?db' = "snd (record_review_decision alive now tenant project review expected user d remark people db)"
    let ?t = "state_after_decisions (round_decisions (as_uuid review) expected ?db')"
    fix r es assume lock: "lock_open_review tenant project review db = Some r" and s: "rv_state r = InReview"
      and rnd: "rv_round r = expected"
      and reviews: "db_reviews ?db' = map (\<lambda>q. if rv_id q = as_uuid review then q\<lparr>rv_state := ?t, rv_updated_at := now\<rparr> else q)
        (db_reviews db)"
      and audit: "db_audit ?db' = db_audit db @ es"
      and es: "map au_event es = AuditDecision user d (remark \<noteq> None) # (if ?t = InReview then [] else [AuditStateChanged InReview ?t])"
        "\<forall>e \<in> set es. au_review e = as_uuid review \<and> au_round e = expected"
    note r = lock_open_review_some[OF lock]
    have same: "q = r" if "q \<in> set (db_reviews db)" "rv_id q = as_uuid review" for q
      using same_review[OF decision_step(1) that(1) r(1)] that(2) r(2) by simp
    have "foldl replay_event (Some (InReview, n, c)) es = Some (?t, n, c)" for n c
      using es(1) by (auto simp: map_eq_Cons_conv split: if_splits)
    moreover have "filter (\<lambda>e. au_review e = as_uuid review) es = es" using es(2) by (simp add: filter_id_conv)
    ultimately have "replay (db_audit ?db') (as_uuid review) = Some (?t, rv_round r, False)"
      using audit_okD[OF decision_step(2) r(1)] r(2,5) s by (simp add: audit replay_append)
    moreover have "replay (db_audit ?db') q = replay (db_audit db) q" if "q \<noteq> as_uuid review" for q
      unfolding audit by (rule replay_others) (use es(2) that in auto)
    ultimately show ?thesis
      using decision_step(2) same r(5) unfolding audit_ok_def reviews set_map ball_simps by (intro ballI) auto
  qed (use decision_step in simp)
next
  case (withdraw_step db now tenant project review actor)
  from withdraw_review_cases[OF surjective_pairing, of now tenant project review actor db]
  show ?case
  proof (elim disjE conjE exE)
    let ?db' = "snd (withdraw_review now tenant project review actor db)"
    fix r assume lock: "lock_open_review tenant project review db = Some r"
      and reviews: "db_reviews ?db' = map (\<lambda>q. if rv_id q = rv_id r then q\<lparr>rv_closed_at := Some now,
            rv_closed_by := Some (as_uuid actor), rv_updated_at := now\<rparr> else q) (db_reviews db)"
      and audit: "db_audit ?db' = db_audit db @ [\<lparr>au_tenant = as_uuid tenant, au_project = as_uuid project, au_version = rv_version r,
            au_actor = as_uuid actor, au_review = rv_id r, au_round = rv_round r, au_event = AuditWithdrawn (rv_state r)\<rparr>]"
    note r = lock_open_review_some[OF lock]
    have "q = r" if "q \<in> set (db_reviews db)" "rv_id q = rv_id r" for q
      using same_review[OF withdraw_step(1) that(1) r(1)] that(2) by simp
    then show ?thesis
      using withdraw_step(2) r(1,5) unfolding audit_ok_def reviews set_map ball_simps
      by (intro ballI) (auto simp: audit replay_append)
  qed (use withdraw_step in simp)
qed

lemma review_reachable_audit:
  assumes "review_step\<^sup>*\<^sup>* empty_review_db db"
  shows "audit_ok db"
  using assms
proof (induction rule: rtranclp_induct)
  case base
  then show ?case by (simp add: audit_ok_def empty_review_db_def)
next
  case (step db1 db2)
  then show ?case using step_audit_ok review_reachable_inv by blast
qed

section \<open>Rounds end\<close>

fun approve_all :: "string \<Rightarrow> string \<Rightarrow> string \<Rightarrow> nat \<Rightarrow> (int \<times> string) list \<Rightarrow> review_db \<Rightarrow> review_db" where
  "approve_all tenant project review rnd [] db = db"
| "approve_all tenant project review rnd ((now, user) # xs) db =
     approve_all tenant project review rnd xs
       (snd (record_review_decision (\<lambda>_. True) now tenant project review rnd user Approve None [] db))"

definition pending_users :: "string \<Rightarrow> nat \<Rightarrow> review_db \<Rightarrow> string option set" where
  "pending_users review rnd db = rr_user ` {w \<in> set (db_rows db). rr_review w = review \<and> rr_round w = rnd \<and> rr_decision w = Pending}"

definition round_open :: "string \<Rightarrow> string \<Rightarrow> string \<Rightarrow> nat \<Rightarrow> review_db \<Rightarrow> bool" where
  "round_open tenant project review rnd db \<longleftrightarrow> (\<exists>r. lock_open_review tenant project review db = Some r \<and> rv_round r = rnd
     \<and> rv_state r \<in> {InReview, Approved})"

lemma lock_update:
  assumes "lock_open_review tenant project review db = Some r"
    and "db_reviews db' = map (\<lambda>q. if rv_id q = as_uuid review then f q else q) (db_reviews db)"
    and "\<And>q. rv_id (f q) = rv_id q \<and> rv_tenant (f q) = rv_tenant q \<and> rv_project (f q) = rv_project q
      \<and> rv_closed_at (f q) = rv_closed_at q"
  shows "lock_open_review tenant project review db' = Some (f r)"
proof -
  have "find P (map (\<lambda>q. if Q q then f q else q) rs) = Some (f r)"
    if "find P rs = Some r" "\<And>q. P (f q) = P q" "\<And>q. P q \<Longrightarrow> Q q" for P Q and rs :: "review list"
    using that(1) by (induction rs) (auto simp: that(2,3) split: if_splits)
  from this[OF assms(1)[unfolded lock_open_review_def]] assms(3) show ?thesis
    by (simp add: lock_open_review_def assms(2))
qed

lemma pending_decide_row:
  "rr_decision (decide_row review rnd user Approve remark now w) = Pending \<longleftrightarrow> rr_decision w = Pending \<and> \<not> decides review rnd user w"
  by (simp add: decide_row_def)

lemma approve_step:
  fixes now :: int
  assumes "review_inv db" and "round_open tenant project review rnd db"
    and "list_all is_uuid_string [tenant, project, review, user]"
  defines "db' \<equiv> snd (record_review_decision (\<lambda>_. True) now tenant project review rnd user Approve None [] db)"
  shows "round_open tenant project review rnd db'
    \<and> pending_users (as_uuid review) rnd db' \<subseteq> pending_users (as_uuid review) rnd db - {Some (as_uuid user)}
    \<and> (round_decisions (as_uuid review) rnd db \<noteq> [] \<longrightarrow> round_decisions (as_uuid review) rnd db' \<noteq> [])"
proof -
  obtain r where lock: "lock_open_review tenant project review db = Some r" and rnd: "rv_round r = rnd"
    and st: "rv_state r = InReview \<or> rv_state r = Approved"
    using assms(2) by (auto simp: round_open_def)
  note r = lock_open_review_some[OF lock]
  have state: "rv_state r = state_after_decisions (round_decisions (as_uuid review) rnd db)"
    using review_invD(5)[OF assms(1) r(1)] r(2) rnd by simp
  have no_changes: "RequestChanges \<notin> set (round_decisions (as_uuid review) rnd db)"
    using state st changes_iff by (metis review_state.distinct(9,11))
  have call: "record_review_decision (\<lambda>_. True) now tenant project review rnd user Approve None [] db = (fst (record_review_decision (\<lambda>_. True) now tenant project review rnd user Approve None [] db), db')"
    by (simp add: db'_def)
  from record_review_decision_cases[OF call] show ?thesis
  proof (elim disjE conjE exE)
    assume same: "db' = db" and refused: "\<forall>x. fst (record_review_decision (\<lambda>_. True) now tenant project review rnd user Approve None [] db) \<noteq> Commit x"
    have "Some (as_uuid user) \<notin> pending_users (as_uuid review) rnd db"
    proof (cases "rv_state r = InReview")
      case True
      then have "\<not> list_ex (decides (as_uuid review) rnd (as_uuid user)) (db_rows db)"
        using refused lock rnd assms(3) by (auto simp: record_review_decision_def recordable_decisions_def can_record_decision_def
            guarded_tx_def Let_def split: if_splits)
      then show ?thesis by (auto simp: pending_users_def list_ex_iff decides_def)
    next
      case False
      then have "\<forall>d \<in> set (round_decisions (as_uuid review) rnd db). d = Approve"
        using st state approved_iff by metis
      then show ?thesis by (auto simp: pending_users_def round_decisions_def)
    qed
    then show ?thesis using same assms(2) by auto
  next
    let ?row = "decide_row (as_uuid review) rnd (as_uuid user) Approve None now"
    let ?t = "state_after_decisions (round_decisions (as_uuid review) rnd db')"
    assume rows: "db_rows db' = map ?row (db_rows db)"
      and reviews: "db_reviews db' = map (\<lambda>q. if rv_id q = as_uuid review then q\<lparr>rv_state := ?t, rv_updated_at := now\<rparr> else q) (db_reviews db)"
    have decisions: "round_decisions (as_uuid review) rnd db' =
        map (\<lambda>w. rr_decision (?row w)) (filter (\<lambda>w. rr_review w = as_uuid review \<and> rr_round w = rnd) (db_rows db))"
      by (simp add: round_decisions_def rows filter_map comp_def)
    have "rr_decision w \<noteq> RequestChanges" if "w \<in> set (db_rows db)" "rr_review w = as_uuid review" "rr_round w = rnd" for w
      using no_changes that unfolding round_decisions_def by force
    then have "RequestChanges \<notin> set (round_decisions (as_uuid review) rnd db')"
      unfolding decisions by (force simp: decide_row_def split: if_splits)
    then have "?t \<in> {InReview, Approved}" by (auto simp: state_after_decisions_def)
    moreover have "lock_open_review tenant project review db' = Some (r\<lparr>rv_state := ?t, rv_updated_at := now\<rparr>)"
      by (rule lock_update[OF lock reviews]) simp
    ultimately have "round_open tenant project review rnd db'"
      using rnd by (auto simp: round_open_def)
    moreover have "pending_users (as_uuid review) rnd db' \<subseteq> pending_users (as_uuid review) rnd db - {Some (as_uuid user)}"
      unfolding pending_users_def rows set_map by (auto simp: pending_decide_row decides_def)
    moreover have "round_decisions (as_uuid review) rnd db \<noteq> [] \<longrightarrow> round_decisions (as_uuid review) rnd db' \<noteq> []"
      by (simp add: decisions) (simp add: round_decisions_def)
    ultimately show ?thesis by blast
  qed
qed

lemma approve_all_approves:
  assumes "review_inv db" and "round_open tenant project review rnd db"
    and "list_all is_uuid_string [tenant, project, review]" and "\<forall>x \<in> set xs. is_uuid_string (snd x)"
    and "pending_users (as_uuid review) rnd db \<subseteq> (\<lambda>x. Some (as_uuid (snd x))) ` set xs"
    and "round_decisions (as_uuid review) rnd db \<noteq> []"
  shows "\<exists>r. lock_open_review tenant project review (approve_all tenant project review rnd xs db) = Some r
    \<and> rv_round r = rnd \<and> rv_state r = Approved"
  using assms
proof (induction xs arbitrary: db)
  case Nil
  then obtain r where r: "lock_open_review tenant project review db = Some r" "rv_round r = rnd" "rv_state r \<in> {InReview, Approved}"
    by (auto simp: round_open_def)
  note member = lock_open_review_some[OF r(1)]
  have state: "rv_state r = state_after_decisions (round_decisions (as_uuid review) rnd db)"
    using review_invD(5)[OF Nil.prems(1) member(1)] member(2) r(2) by simp
  have "Pending \<notin> set (round_decisions (as_uuid review) rnd db)"
    using Nil.prems(5) by (auto simp: pending_users_def round_decisions_def)
  moreover have "RequestChanges \<notin> set (round_decisions (as_uuid review) rnd db)"
    using state r(3) changes_iff by (metis empty_iff insert_iff review_state.distinct(9,11))
  ultimately have "\<forall>d \<in> set (round_decisions (as_uuid review) rnd db). d = Approve"
    by (metis decision.exhaust)
  then have "rv_state r = Approved"
    unfolding state approved_iff using Nil.prems(6) by blast
  then show ?case using r by simp
next
  case (Cons x xs)
  obtain now user where x: "x = (now, user)" by (cases x)
  let ?db = "snd (record_review_decision (\<lambda>_. True) now tenant project review rnd user Approve None [] db)"
  have step: "round_open tenant project review rnd ?db"
    "pending_users (as_uuid review) rnd ?db \<subseteq> pending_users (as_uuid review) rnd db - {Some (as_uuid user)}"
    "round_decisions (as_uuid review) rnd ?db \<noteq> []"
    using approve_step[OF Cons.prems(1,2), of user now] Cons.prems(3,4,6) by (auto simp: x)
  show ?case
    unfolding x approve_all.simps
    by (rule Cons.IH[OF record_review_decision_inv[OF Cons.prems(1)] step(1) Cons.prems(3) _ _ step(3)])
      (use Cons.prems(4,5) step(2) in \<open>auto simp: x\<close>)
qed

section \<open>Properties\<close>

text \<open>C27: In every state that any sequence of review transactions reaches, from any number of
  replicas and with any arguments, a version has at most one open review, nobody reviews twice in a
  round, each review is in exactly the state that the decisions of its current round give, and a
  row carries a decision time exactly if it is decided.\<close>

theorem reviews_stay_consistent:
  assumes "review_step\<^sup>*\<^sup>* empty_review_db db"
  shows "distinct (map rv_version (filter open_review (db_reviews db)))
    \<and> distinct (map (\<lambda>w. (rr_review w, rr_round w, rr_user w)) (db_rows db))
    \<and> (\<forall>r \<in> set (db_reviews db). 1 \<le> rv_round r \<and> rv_state r \<in> set review_states
        \<and> rv_state r = state_after_decisions (round_decisions (rv_id r) (rv_round r) db))
    \<and> (\<forall>w \<in> set (db_rows db). rr_decision w = Pending \<longleftrightarrow> rr_decided_at w = None)"
proof -
  note inv = review_invD[OF review_reachable_inv[OF assms]]
  have "s \<noteq> Draft \<Longrightarrow> s \<in> set review_states" for s by (cases s) (simp_all add: review_states_def)
  then have "rv_state r \<in> set review_states" if "r \<in> set (db_reviews db)" for r
    using inv(5)[OF that] state_after_not_draft by metis
  then show ?thesis using inv(2-5,7) by (simp add: row_key_def[abs_def])
qed

definition demo_reviews :: review_db where
  "demo_reviews = snd (insert_review (\<lambda>_. True) 10 (demo_id CHR ''f'') (demo_id CHR ''a'') (demo_id CHR ''b'') (demo_id CHR ''c'')
     (demo_id CHR ''0'') [demo_id CHR ''1'', demo_id CHR ''2''] ''sha256:1'' [] empty_review_db)"

definition demo_decided :: review_db where
  "demo_decided = snd (record_review_decision (\<lambda>_. True) 20 (demo_id CHR ''a'') (demo_id CHR ''b'') (demo_id CHR ''f'') 1
     (demo_id CHR ''1'') Approve None [] demo_reviews)"

lemma demo_reviews_reachable:
  "review_step\<^sup>*\<^sup>* empty_review_db demo_reviews" "review_step\<^sup>*\<^sup>* demo_reviews demo_decided"
  "review_step\<^sup>*\<^sup>* empty_review_db demo_decided"
proof -
  have one: "review_step empty_review_db demo_reviews"
    unfolding demo_reviews_def by (rule insert_step) (simp add: empty_review_db_def)
  have two: "review_step demo_reviews demo_decided" unfolding demo_decided_def by (rule decision_step)
  show "review_step\<^sup>*\<^sup>* empty_review_db demo_reviews" "review_step\<^sup>*\<^sup>* demo_reviews demo_decided"
    "review_step\<^sup>*\<^sup>* empty_review_db demo_decided"
    using one two by auto
qed

lemmas review_tx_defs = insert_review_def re_request_review_def record_review_decision_def withdraw_review_def guarded_tx_def
  insert_reviewers_def audit_tx_def insert_notifications_def update_review_def lock_open_review_def review_drafts_def Let_def

lemma demo_reviews_eq:
  "demo_reviews = \<lparr>db_reviews = [\<lparr>rv_id = demo_id CHR ''f'', rv_tenant = demo_id CHR ''a'', rv_project = demo_id CHR ''b'',
        rv_version = demo_id CHR ''c'', rv_requested_by = Some (demo_id CHR ''0''), rv_state = InReview, rv_round = 1,
        rv_fingerprint = ''sha256:1'', rv_closed_at = None, rv_closed_by = None, rv_created_at = 10, rv_updated_at = 10\<rparr>],
     db_rows = new_rows 10 (demo_id CHR ''f'') 1 [demo_id CHR ''1'', demo_id CHR ''2''],
     db_audit = [\<lparr>au_tenant = demo_id CHR ''a'', au_project = demo_id CHR ''b'', au_version = demo_id CHR ''c'',
        au_actor = demo_id CHR ''0'', au_review = demo_id CHR ''f'', au_round = 1,
        au_event = AuditRequested [demo_id CHR ''1'', demo_id CHR ''2''] ''sha256:1''\<rparr>],
     db_notices = []\<rparr>"
  by (simp add: demo_reviews_def review_tx_defs empty_review_db_def new_rows_def)

lemma demo_decided_simps:
  "map rv_state (db_reviews demo_decided) = [InReview]" "map rv_round (db_reviews demo_decided) = [1]"
  "map rv_id (db_reviews demo_decided) = [demo_id CHR ''f'']" "map rv_tenant (db_reviews demo_decided) = [demo_id CHR ''a'']"
  "map rv_project (db_reviews demo_decided) = [demo_id CHR ''b'']" "map rv_closed_at (db_reviews demo_decided) = [None]"
  "map rr_decision (db_rows demo_decided) = [Approve, Pending]"
  "map rr_user (db_rows demo_decided) = [Some (demo_id CHR ''1''), Some (demo_id CHR ''2'')]"
  "map rr_review (db_rows demo_decided) = [demo_id CHR ''f'', demo_id CHR ''f'']" "map rr_round (db_rows demo_decided) = [1, 1]"
  by (auto simp: demo_decided_def demo_reviews_eq review_tx_defs new_rows_def decides_def round_decisions_def
      recordable_decisions_def can_record_decision_def state_after_decisions_def)

lemma reviews_stay_consistent_witness:
  "distinct (map rv_version (filter open_review (db_reviews demo_decided))) \<and> map rv_state (db_reviews demo_decided) = [InReview]"
  using reviews_stay_consistent[OF demo_reviews_reachable(3)] demo_decided_simps(1) by blast


definition demo_final :: review_db where
  "demo_final = snd (withdraw_review 30 (demo_id CHR ''a'') (demo_id CHR ''b'') (demo_id CHR ''f'') (demo_id CHR ''0'') demo_decided)"

lemma demo_lock: "lock_open_review (demo_id CHR ''a'') (demo_id CHR ''b'') (demo_id CHR ''f'') demo_decided
    = Some (hd (db_reviews demo_decided))"
  using demo_decided_simps(3-6) by (auto simp: lock_open_review_def map_eq_Cons_conv)


text \<open>C28: The audit log is complete. Every transition is logged in the transaction that makes it, so
  replaying the entries of a review from nothing gives its stored state, its round and whether it
  was withdrawn.\<close>

theorem audit_log_replays_to_state:
  assumes "review_step\<^sup>*\<^sup>* empty_review_db db" and "r \<in> set (db_reviews db)"
  shows "replay (db_audit db) (rv_id r) = Some (rv_state r, rv_round r, rv_closed_at r \<noteq> None)"
  using audit_okD[OF review_reachable_audit[OF assms(1)] assms(2)] .

lemma audit_log_replays_to_state_witness:
  "replay (db_audit demo_decided) (demo_id CHR ''f'') = Some (InReview, 1, False)"
proof -
  obtain r where "db_reviews demo_decided = [r]" using demo_decided_simps(1) by (auto simp: map_eq_Cons_conv)
  then show ?thesis
    using audit_log_replays_to_state[OF demo_reviews_reachable(3), of r] demo_decided_simps(1-3,6) by simp
qed

text \<open>C29: Rounds can always be decided. On an open review whose round is undecided, once everyone
  still pending approves, in any order and however often, the review is approved; and a single
  reviewer asking for changes moves it to changes requested at once.\<close>

theorem rounds_can_be_decided:
  assumes "review_step\<^sup>*\<^sup>* empty_review_db db" and "lock_open_review tenant project review db = Some r"
    and "rv_state r = InReview" and "round_decisions (rv_id r) (rv_round r) db \<noteq> []"
    and "list_all is_uuid_string ([tenant, project, review, user] @ map snd xs)"
  shows "(pending_users (rv_id r) (rv_round r) db \<subseteq> (\<lambda>x. Some (as_uuid (snd x))) ` set xs \<longrightarrow>
      map_option rv_state (lock_open_review tenant project review (approve_all tenant project review (rv_round r) xs db))
        = Some Approved)
    \<and> (Some (as_uuid user) \<in> pending_users (rv_id r) (rv_round r) db \<longrightarrow>
      fst (record_review_decision alive now tenant project review (rv_round r) user RequestChanges remark people db)
        = Commit (InReview, ChangesRequested))"
proof (intro conjI impI)
  note inv = review_reachable_inv[OF assms(1)] and r = lock_open_review_some[OF assms(2)]
  have "round_open tenant project review (rv_round r) db" using assms(2,3) by (simp add: round_open_def)
  then show "map_option rv_state (lock_open_review tenant project review (approve_all tenant project review (rv_round r) xs db))
        = Some Approved" if "pending_users (rv_id r) (rv_round r) db \<subseteq> (\<lambda>x. Some (as_uuid (snd x))) ` set xs"
    using approve_all_approves[OF inv, of tenant project review "rv_round r" xs] that assms(4,5) r(2)
    by (auto simp: list_all_iff)
  let ?call = "record_review_decision alive now tenant project review (rv_round r) user RequestChanges remark people db"
  assume "Some (as_uuid user) \<in> pending_users (rv_id r) (rv_round r) db"
  then obtain w where w: "w \<in> set (db_rows db)" "decides (as_uuid review) (rv_round r) (as_uuid user) w"
    using r(2) by (auto simp: pending_users_def decides_def)
  then have committed: "\<exists>x. fst ?call = Commit x"
    using assms(2,3,5) by (auto simp: record_review_decision_def guarded_tx_def recordable_decisions_def can_record_decision_def
        Let_def list_ex_iff)
  from record_review_decision_cases[OF surjective_pairing, of alive now tenant project review "rv_round r" user RequestChanges remark people db]
  show "fst ?call = Commit (InReview, ChangesRequested)"
  proof (elim disjE conjE exE)
    let ?row = "decide_row (as_uuid review) (rv_round r) (as_uuid user) RequestChanges remark now"
    fix r' assume "lock_open_review tenant project review db = Some r'"
      and res: "fst ?call = Commit (rv_state r', state_after_decisions (round_decisions (as_uuid review) (rv_round r) (snd ?call)))"
      and rows: "db_rows (snd ?call) = map ?row (db_rows db)"
    then have "r' = r" using assms(2) by simp
    have "rr_decision (?row w) = RequestChanges" using w(2) by (simp add: decide_row_def)
    moreover have "?row w \<in> set (db_rows (snd ?call))" using w(1) by (simp add: rows)
    ultimately have "RequestChanges \<in> set (round_decisions (as_uuid review) (rv_round r) (snd ?call))"
      using w(2) unfolding round_decisions_def by (force simp: decides_def)
    then show ?thesis using res \<open>r' = r\<close> assms(3) by (simp add: state_after_decisions_def)
  qed (use committed in blast)
qed

lemma rounds_can_be_decided_witness:
  "map_option rv_state (lock_open_review (demo_id CHR ''a'') (demo_id CHR ''b'') (demo_id CHR ''f'')
     (approve_all (demo_id CHR ''a'') (demo_id CHR ''b'') (demo_id CHR ''f'') 1 [(40, demo_id CHR ''2''), (50, demo_id CHR ''1'')] demo_decided))
   = Some Approved"
proof -
  let ?r = "hd (db_reviews demo_decided)" and ?xs = "[(40, demo_id CHR ''2''), (50, demo_id CHR ''1'')] :: (int \<times> string) list"
  obtain r where "db_reviews demo_decided = [r]" using demo_decided_simps(1) by (auto simp: map_eq_Cons_conv)
  then have r: "rv_state ?r = InReview" "rv_round ?r = 1" "rv_id ?r = demo_id CHR ''f''" using demo_decided_simps(1-3) by simp_all
  obtain v w where rows: "db_rows demo_decided = [v, w]" using demo_decided_simps(7) by (auto simp: map_eq_Cons_conv)
  then have "round_decisions (rv_id ?r) (rv_round ?r) demo_decided \<noteq> []"
    "pending_users (rv_id ?r) (rv_round ?r) demo_decided \<subseteq> (\<lambda>x. Some (as_uuid (snd x))) ` set ?xs"
    using demo_decided_simps(7-10) by (auto simp: r round_decisions_def pending_users_def)
  then show ?thesis
    using rounds_can_be_decided[OF demo_reviews_reachable(3) demo_lock r(1), of "demo_id CHR ''2''" ?xs] unfolding r(2) by simp
qed

end
