(* ===== verification/ReviewStore.thy ===== *)
theory ReviewStore
  imports ReviewInvariant
begin

text \<open>
  The rules of the review store (\<open>review_store.py\<close>) between the routes and the transactions of
  \<open>ReviewDb\<close>. Every operation that changes a review first reads and checks, then runs one
  transaction; the two parts are separate definitions, because other requests may run between
  them. The environment of a request is what it reads outside the review tables: the clock, the
  projects, the versions and their content, the members of the tenant.
\<close>

section \<open>Refusals\<close>

datatype review_code = ProjectNotFound | VersionNotFound | ReviewNotFound | VersionPublished | AlreadyOpen
  | InvalidReviewers | SelfReview | Forbidden | NotReviewer | AlreadyDecided | NotInReview | ReviewClosed
  | SpecUnchanged | SpecChanged | ReviewConflict

datatype review_error = Refusal review_code | DatabaseError

definition max_reviewers :: nat where
  "max_reviewers = 20"

record version_row =
  vr_id :: string
  vr_project :: string
  vr_label :: string
  vr_published :: bool

record review_env =
  en_now :: int
  en_new_id :: string
  en_alive :: "string \<Rightarrow> bool"
  en_by_name :: "reviewer_row list \<Rightarrow> reviewer_row list"
  en_project_by_id :: "string \<Rightarrow> string \<Rightarrow> string option"
  en_project_by_slug :: "string \<Rightarrow> string \<Rightarrow> string option"
  en_version_by_id :: "string \<Rightarrow> string \<Rightarrow> version_row option"
  en_version_by_label :: "string \<Rightarrow> string \<Rightarrow> string \<Rightarrow> version_row option"
  en_members :: "string \<Rightarrow> string option list"
  en_admin :: "string \<Rightarrow> string \<Rightarrow> bool"
  en_fingerprint :: "string \<Rightarrow> version_row \<Rightarrow> string"

section \<open>Resolution\<close>

definition resolve_project :: "review_env \<Rightarrow> string \<Rightarrow> string \<Rightarrow> review_code + string" where
  "resolve_project env tenant ref =
     (let r = strip ref;
          row = (if r = [] then None else if is_uuid_string r then en_project_by_id env r tenant
                 else en_project_by_slug env r tenant)
      in case row of None \<Rightarrow> Inl ProjectNotFound | Some p \<Rightarrow> Inr p)"

definition resolve_version :: "review_env \<Rightarrow> string \<Rightarrow> string \<Rightarrow> string \<Rightarrow> review_code + version_row" where
  "resolve_version env tenant project ref =
     (let r = strip ref;
          row = (if is_uuid_string r
                 then (case en_version_by_id env r tenant of
                     Some v \<Rightarrow> if vr_project v \<noteq> project then None else Some v | None \<Rightarrow> None)
                 else if r \<noteq> [] then en_version_by_label env project r tenant else None)
      in case row of None \<Rightarrow> Inl VersionNotFound | Some v \<Rightarrow> Inr v)"

fun first_seen :: "string list \<Rightarrow> string list \<Rightarrow> string list" where
  "first_seen seen [] = seen"
| "first_seen seen (x # xs) = first_seen (if x \<in> set seen then seen else seen @ [x]) xs"

definition validate_reviewers ::
  "review_env \<Rightarrow> string \<Rightarrow> string list \<Rightarrow> string option \<Rightarrow> review_code + string list" where
  "validate_reviewers env tenant ids requester =
     (let canonical = map (\<lambda>i. canonical_uuid (Some i)) ids;
          reviewers = first_seen [] (List.map_filter id canonical);
          members = List.map_filter canonical_uuid (en_members env tenant)
      in if None \<in> set canonical then Inl InvalidReviewers
         else if reviewers = [] then Inl InvalidReviewers
         else if length reviewers > max_reviewers then Inl InvalidReviewers
         else if (case canonical_uuid requester of Some u \<Rightarrow> u \<in> set reviewers | None \<Rightarrow> False) then Inl SelfReview
         else if \<not> list_all (\<lambda>u. u \<in> set members) reviewers then Inl InvalidReviewers
         else Inr reviewers)"

definition require_actor :: "string \<Rightarrow> review_code + string" where
  "require_actor actor = (case canonical_uuid (Some actor) of None \<Rightarrow> Inl Forbidden | Some a \<Rightarrow> Inr a)"

definition review_row :: "string \<Rightarrow> string \<Rightarrow> string \<Rightarrow> review_db \<Rightarrow> review_code + review" where
  "review_row tenant project review db =
     (case get_review tenant project review db of None \<Rightarrow> Inl ReviewNotFound | Some r \<Rightarrow> Inr r)"

definition review_version :: "review_env \<Rightarrow> string \<Rightarrow> review \<Rightarrow> review_code + version_row" where
  "review_version env tenant r =
     (case en_version_by_id env (rv_version r) tenant of None \<Rightarrow> Inl VersionNotFound | Some v \<Rightarrow> Inr v)"

definition refuse_closed :: "review \<Rightarrow> review_code + unit" where
  "refuse_closed r = (if rv_closed_at r \<noteq> None then Inl ReviewClosed else Inr ())"

definition refuse_published :: "version_row \<Rightarrow> review_code + unit" where
  "refuse_published v = (if vr_published v then Inl VersionPublished else Inr ())"

definition refuse :: "bool \<Rightarrow> review_code \<Rightarrow> review_code + unit" where
  "refuse b c = (if b then Inl c else Inr ())"

definition and_then :: "review_code + 'a \<Rightarrow> ('a \<Rightarrow> review_code + 'b) \<Rightarrow> review_code + 'b" where
  "and_then m f = (case m of Inl e \<Rightarrow> Inl e | Inr a \<Rightarrow> f a)"

lemma and_then_Inr [simp]: "and_then m f = Inr b \<longleftrightarrow> (\<exists>a. m = Inr a \<and> f a = Inr b)"
  by (cases m) (auto simp: and_then_def)

lemma refuse_Inr [simp]: "refuse b c = Inr u \<longleftrightarrow> \<not> b"
  by (simp add: refuse_def)

lemma refusals_Inr [simp]:
  "refuse_closed r = Inr u \<longleftrightarrow> open_review r" "refuse_published v = Inr u \<longleftrightarrow> \<not> vr_published v"
  by (auto simp: refuse_closed_def refuse_published_def)

section \<open>Details\<close>

record review_detail =
  rd_review :: review
  rd_reviewers :: "reviewer_row list"
  rd_history :: "reviewer_row list"
  rd_spec_changed :: "bool option"

definition current_round_rows :: "review_env \<Rightarrow> review \<Rightarrow> review_db \<Rightarrow> reviewer_row list \<times> reviewer_row list" where
  "current_round_rows env r db =
     (let rows = list_review_reviewers (en_by_name env) (rv_id r) db
      in (filter (\<lambda>w. rr_round w = rv_round r) rows, filter (\<lambda>w. rr_round w < rv_round r) rows))"

definition detail_of :: "review_env \<Rightarrow> string \<Rightarrow> review \<Rightarrow> string option \<Rightarrow> review_db \<Rightarrow> review_detail" where
  "detail_of env tenant r fingerprint db =
     (let fp = (if rv_closed_at r \<noteq> None then None
                else case fingerprint of Some f \<Rightarrow> Some f
                  | None \<Rightarrow> map_option (en_fingerprint env tenant) (en_version_by_id env (rv_version r) tenant))
      in \<lparr>rd_review = r, rd_reviewers = fst (current_round_rows env r db), rd_history = snd (current_round_rows env r db),
          rd_spec_changed = map_option (\<lambda>f. f \<noteq> rv_fingerprint r) fp\<rparr>)"

definition get_review_detail :: "review_env \<Rightarrow> string \<Rightarrow> string \<Rightarrow> string \<Rightarrow> review_db \<Rightarrow> review_code + review_detail" where
  "get_review_detail env tenant project_ref review db =
     and_then (resolve_project env tenant project_ref) (\<lambda>project.
     and_then (review_row tenant project review db) (\<lambda>r. Inr (detail_of env tenant r None db)))"

record version_review_status =
  vs_version :: string
  vs_published :: bool
  vs_state :: review_state
  vs_review :: "review_detail option"

definition version_review_status ::
  "review_env \<Rightarrow> string \<Rightarrow> string \<Rightarrow> string \<Rightarrow> review_db \<Rightarrow> review_code + version_review_status" where
  "version_review_status env tenant project_ref version_ref db =
     and_then (resolve_project env tenant project_ref) (\<lambda>project.
     and_then (resolve_version env tenant project version_ref) (\<lambda>version.
       let row = get_open_review_for_version tenant project (vr_id version) db
       in Inr \<lparr>vs_version = vr_id version, vs_published = vr_published version,
            vs_state = version_review_state (map_option rv_state row),
            vs_review = map_option (\<lambda>r. detail_of env tenant r None db) row\<rparr>))"

definition list_project_reviews ::
  "review_env \<Rightarrow> string \<Rightarrow> string \<Rightarrow> string option \<Rightarrow> review_state option \<Rightarrow> bool option \<Rightarrow> nat \<Rightarrow> nat \<Rightarrow> review_db
     \<Rightarrow> review_code + review list \<times> nat" where
  "list_project_reviews env tenant project_ref version state open_only page skip db =
     and_then (resolve_project env tenant project_ref) (\<lambda>project.
     and_then (case version of
         Some v \<Rightarrow> if v \<noteq> [] then and_then (resolve_version env tenant project v) (\<lambda>x. Inr (Some (vr_id x))) else Inr None
       | None \<Rightarrow> Inr None) (\<lambda>version_id.
       Inr (list_reviews tenant project version_id state open_only page skip db,
            count_reviews tenant project version_id state open_only db)))"

section \<open>Operations\<close>

text \<open>A plan is what an operation hands from its checks to its transaction.\<close>

datatype review_plan =
    PlanRequest string string version_row "string list" string
  | PlanReRequest string string review version_row "string list" string
  | PlanDecide string string review version_row decision "string option" string
  | PlanWithdraw string string review

definition check_request ::
  "review_env \<Rightarrow> string \<Rightarrow> string \<Rightarrow> string \<Rightarrow> string list \<Rightarrow> string \<Rightarrow> review_db \<Rightarrow> review_code + review_plan" where
  "check_request env tenant project_ref version_ref reviewer_ids actor_id db =
     and_then (require_actor actor_id) (\<lambda>actor.
     and_then (resolve_project env tenant project_ref) (\<lambda>project.
     and_then (resolve_version env tenant project version_ref) (\<lambda>version.
     and_then (refuse_published version) (\<lambda>_.
     and_then (validate_reviewers env tenant reviewer_ids (Some actor)) (\<lambda>reviewers.
     and_then (refuse (get_open_review_for_version tenant project (vr_id version) db \<noteq> None) AlreadyOpen) (\<lambda>_.
       Inr (PlanRequest actor project version reviewers (en_fingerprint env tenant version))))))))"

definition commit_request ::
  "review_env \<Rightarrow> string \<Rightarrow> string \<Rightarrow> string \<Rightarrow> version_row \<Rightarrow> string list \<Rightarrow> string \<Rightarrow> review_db
     \<Rightarrow> (review_error + review_detail) \<times> review_db" where
  "commit_request env tenant actor project version reviewers fingerprint db =
     (case insert_review (en_alive env) (en_now env) (en_new_id env) tenant project (vr_id version) actor reviewers fingerprint
             (recipients (map Some reviewers) [Some actor]) db of
        (Commit new, db1) \<Rightarrow> (case review_row tenant project new db1 of
            Inl c \<Rightarrow> (Inl (Refusal c), db1)
          | Inr r \<Rightarrow> (Inr (detail_of env tenant r (Some fingerprint) db1), db1))
      | (Refused, db1) \<Rightarrow> (Inl (Refusal AlreadyOpen), db1)
      | (Failed, db1) \<Rightarrow> (Inl DatabaseError, db1))"

definition check_re_request ::
  "review_env \<Rightarrow> string \<Rightarrow> string \<Rightarrow> string \<Rightarrow> string list option \<Rightarrow> string \<Rightarrow> review_db \<Rightarrow> review_code + review_plan" where
  "check_re_request env tenant project_ref review reviewer_ids actor_id db =
     and_then (require_actor actor_id) (\<lambda>actor.
     and_then (resolve_project env tenant project_ref) (\<lambda>project.
     and_then (review_row tenant project review db) (\<lambda>r.
     and_then (refuse_closed r) (\<lambda>_.
     and_then (review_version env tenant r) (\<lambda>version.
     and_then (refuse_published version) (\<lambda>_.
     and_then (refuse (\<not> can_re_request (rv_state r)) ReviewConflict) (\<lambda>_.
       let fingerprint = en_fingerprint env tenant version in
     and_then (refuse (fingerprint = rv_fingerprint r) SpecUnchanged) (\<lambda>_.
       let requested = (case reviewer_ids of Some ids \<Rightarrow> ids
             | None \<Rightarrow> List.map_filter rr_user (fst (current_round_rows env r db))) in
     and_then (validate_reviewers env tenant requested (rv_requested_by r)) (\<lambda>reviewers.
       Inr (PlanReRequest actor project r version reviewers fingerprint))))))))))"

definition commit_re_request ::
  "review_env \<Rightarrow> string \<Rightarrow> string \<Rightarrow> string \<Rightarrow> review \<Rightarrow> string list \<Rightarrow> string \<Rightarrow> review_db
     \<Rightarrow> (review_error + review_detail) \<times> review_db" where
  "commit_re_request env tenant actor project r reviewers fingerprint db =
     (case re_request_review (en_alive env) (en_now env) tenant project (rv_id r) (rv_round r) reviewers fingerprint actor
             (recipients (map Some reviewers) [Some actor]) db of
        (Failed, db1) \<Rightarrow> (Inl DatabaseError, db1)
      | (outcome, db1) \<Rightarrow> (case review_row tenant project (rv_id r) db1 of
            Inl c \<Rightarrow> (Inl (Refusal c), db1)
          | Inr fresh \<Rightarrow>
              if (case outcome of Commit _ \<Rightarrow> True | _ \<Rightarrow> False) then (Inr (detail_of env tenant fresh (Some fingerprint) db1), db1)
              else if rv_closed_at fresh \<noteq> None then (Inl (Refusal ReviewClosed), db1)
              else (Inl (Refusal ReviewConflict), db1)))"

definition check_decision ::
  "review_env \<Rightarrow> string \<Rightarrow> string \<Rightarrow> string \<Rightarrow> decision \<Rightarrow> string option \<Rightarrow> string \<Rightarrow> review_db \<Rightarrow> review_code + review_plan" where
  "check_decision env tenant project_ref review d remark actor_id db =
     and_then (require_actor actor_id) (\<lambda>actor.
     and_then (resolve_project env tenant project_ref) (\<lambda>project.
     and_then (review_row tenant project review db) (\<lambda>r.
     and_then (refuse_closed r) (\<lambda>_.
     and_then (review_version env tenant r) (\<lambda>version.
     and_then (refuse_published version) (\<lambda>_.
     and_then (case find (\<lambda>w. canonical_uuid (rr_user w) = Some actor) (fst (current_round_rows env r db)) of
         None \<Rightarrow> Inl NotReviewer | Some mine \<Rightarrow> Inr mine) (\<lambda>mine.
     and_then (refuse (rr_decision mine \<noteq> Pending) AlreadyDecided) (\<lambda>_.
     and_then (refuse (\<not> can_record_decision (rv_state r)) NotInReview) (\<lambda>_.
     and_then (refuse (en_fingerprint env tenant version \<noteq> rv_fingerprint r) SpecChanged) (\<lambda>_.
       Inr (PlanDecide actor project r version d
         (case remark of Some t \<Rightarrow> if t \<noteq> [] \<and> strip t \<noteq> [] then Some t else None | None \<Rightarrow> None)
         (en_fingerprint env tenant version))))))))))))"

definition commit_decision ::
  "review_env \<Rightarrow> string \<Rightarrow> string \<Rightarrow> string \<Rightarrow> review \<Rightarrow> decision \<Rightarrow> string option \<Rightarrow> string \<Rightarrow> review_db
     \<Rightarrow> (review_error + review_detail) \<times> review_db" where
  "commit_decision env tenant actor project r d remark fingerprint db =
     (case record_review_decision (en_alive env) (en_now env) tenant project (rv_id r) (rv_round r) actor d remark
             (recipients [rv_requested_by r] [Some actor]) db of
        (Failed, db1) \<Rightarrow> (Inl DatabaseError, db1)
      | (outcome, db1) \<Rightarrow> (case review_row tenant project (rv_id r) db1 of
            Inl c \<Rightarrow> (Inl (Refusal c), db1)
          | Inr fresh \<Rightarrow>
              if (case outcome of Commit _ \<Rightarrow> True | _ \<Rightarrow> False) then (Inr (detail_of env tenant fresh (Some fingerprint) db1), db1)
              else if rv_closed_at fresh \<noteq> None then (Inl (Refusal ReviewClosed), db1)
              else if rv_round fresh \<noteq> rv_round r \<or> rv_state fresh \<noteq> InReview then (Inl (Refusal NotInReview), db1)
              else (Inl (Refusal AlreadyDecided), db1)))"

definition can_moderate :: "review_env \<Rightarrow> string \<Rightarrow> string \<Rightarrow> string option \<Rightarrow> bool" where
  "can_moderate env tenant actor owner =
     (if actor = [] then False
      else if (case owner of Some u \<Rightarrow> u \<noteq> [] \<and> u = actor | None \<Rightarrow> False) then True
      else if \<not> is_uuid_string actor \<or> \<not> is_uuid_string tenant then False
      else en_admin env tenant actor)"

definition check_withdraw ::
  "review_env \<Rightarrow> string \<Rightarrow> string \<Rightarrow> string \<Rightarrow> string \<Rightarrow> review_db \<Rightarrow> review_code + review_plan" where
  "check_withdraw env tenant project_ref review actor_id db =
     and_then (require_actor actor_id) (\<lambda>actor.
     and_then (resolve_project env tenant project_ref) (\<lambda>project.
     and_then (review_row tenant project review db) (\<lambda>r.
     and_then (refuse_closed r) (\<lambda>_.
     and_then (refuse (\<not> can_moderate env tenant actor (rv_requested_by r)) Forbidden) (\<lambda>_.
       Inr (PlanWithdraw actor project r))))))"

definition commit_withdraw ::
  "review_env \<Rightarrow> string \<Rightarrow> string \<Rightarrow> string \<Rightarrow> review \<Rightarrow> review_db \<Rightarrow> (review_error + review_detail) \<times> review_db" where
  "commit_withdraw env tenant actor project r db =
     (case withdraw_review (en_now env) tenant project (rv_id r) actor db of
        (Failed, db1) \<Rightarrow> (Inl DatabaseError, db1)
      | (outcome, db1) \<Rightarrow> (case review_row tenant project (rv_id r) db1 of
            Inl c \<Rightarrow> (Inl (Refusal c), db1)
          | Inr fresh \<Rightarrow>
              if (case outcome of Commit _ \<Rightarrow> True | _ \<Rightarrow> False) then (Inr (detail_of env tenant fresh None db1), db1)
              else if rv_closed_at fresh \<noteq> None then (Inl (Refusal ReviewClosed), db1)
              else (Inl (Refusal ReviewConflict), db1)))"

text \<open>The second part of an operation, and the operations when nothing runs between their parts.\<close>

definition commit_plan ::
  "review_env \<Rightarrow> string \<Rightarrow> review_plan \<Rightarrow> review_db \<Rightarrow> (review_error + review_detail) \<times> review_db" where
  "commit_plan env tenant plan db = (case plan of
       PlanRequest actor project version reviewers fp \<Rightarrow> commit_request env tenant actor project version reviewers fp db
     | PlanReRequest actor project r version reviewers fp \<Rightarrow> commit_re_request env tenant actor project r reviewers fp db
     | PlanDecide actor project r version d remark fp \<Rightarrow> commit_decision env tenant actor project r d remark fp db
     | PlanWithdraw actor project r \<Rightarrow> commit_withdraw env tenant actor project r db)"

definition run_checked ::
  "review_env \<Rightarrow> string \<Rightarrow> review_code + review_plan \<Rightarrow> review_db \<Rightarrow> (review_error + review_detail) \<times> review_db" where
  "run_checked env tenant checked db = (case checked of
       Inl c \<Rightarrow> (Inl (Refusal c), db)
     | Inr plan \<Rightarrow> commit_plan env tenant plan db)"

definition request_review ::
  "review_env \<Rightarrow> string \<Rightarrow> string \<Rightarrow> string \<Rightarrow> string list \<Rightarrow> string \<Rightarrow> review_db \<Rightarrow> (review_error + review_detail) \<times> review_db" where
  "request_review env tenant project_ref version_ref reviewer_ids actor_id db =
     run_checked env tenant (check_request env tenant project_ref version_ref reviewer_ids actor_id db) db"

definition request_review_again ::
  "review_env \<Rightarrow> string \<Rightarrow> string \<Rightarrow> string \<Rightarrow> string list option \<Rightarrow> string \<Rightarrow> review_db \<Rightarrow> (review_error + review_detail) \<times> review_db" where
  "request_review_again env tenant project_ref review reviewer_ids actor_id db =
     run_checked env tenant (check_re_request env tenant project_ref review reviewer_ids actor_id db) db"

definition record_decision ::
  "review_env \<Rightarrow> string \<Rightarrow> string \<Rightarrow> string \<Rightarrow> decision \<Rightarrow> string option \<Rightarrow> string \<Rightarrow> review_db \<Rightarrow> (review_error + review_detail) \<times> review_db" where
  "record_decision env tenant project_ref review d remark actor_id db =
     run_checked env tenant (check_decision env tenant project_ref review d remark actor_id db) db"

definition withdraw_open_review ::
  "review_env \<Rightarrow> string \<Rightarrow> string \<Rightarrow> string \<Rightarrow> string \<Rightarrow> review_db \<Rightarrow> (review_error + review_detail) \<times> review_db" where
  "withdraw_open_review env tenant project_ref review actor_id db =
     run_checked env tenant (check_withdraw env tenant project_ref review actor_id db) db"

end
