(* ===== verification/ReviewSafety.thy ===== *)
theory ReviewSafety
  imports ReviewStore
begin

text \<open>
  Reviews under concurrency. Requests of any number of users and replicas run their checks and
  their transactions in any interleaving, while versions, members and content change. The log
  is not part of the program: it remembers, for every decision that passed its checks, the
  content the version had then.
\<close>

section \<open>What the checks establish\<close>

lemma require_actor_Inr: "require_actor a = Inr u \<Longrightarrow> canonical u"
  by (auto simp: require_actor_def dest: canonical_uuid_some split: option.splits)

lemma set_first_seen: "set (first_seen seen xs) = set seen \<union> set xs"
  by (induction seen xs rule: first_seen.induct) auto

lemma distinct_first_seen: "distinct seen \<Longrightarrow> distinct (first_seen seen xs)"
  by (induction seen xs rule: first_seen.induct) auto

lemma validate_reviewers_Inr:
  assumes "validate_reviewers env tenant ids requester = Inr us"
  shows "us \<noteq> []" "distinct us" "\<forall>u \<in> set us. canonical u" "length us \<le> max_reviewers"
    "canonical_uuid requester = Some q \<Longrightarrow> q \<notin> set us"
    "\<forall>u \<in> set us. u \<in> set (List.map_filter canonical_uuid (en_members env tenant))"
proof -
  have us: "us = first_seen [] (List.map_filter id (map (\<lambda>i. canonical_uuid (Some i)) ids))"
    and rest: "us \<noteq> []" "length us \<le> max_reviewers" "canonical_uuid requester = Some q \<Longrightarrow> q \<notin> set us"
      "list_all (\<lambda>u. u \<in> set (List.map_filter canonical_uuid (en_members env tenant))) us"
    using assms by (auto simp: validate_reviewers_def Let_def split: if_splits)
  show "us \<noteq> []" "length us \<le> max_reviewers" "canonical_uuid requester = Some q \<Longrightarrow> q \<notin> set us"
    "\<forall>u \<in> set us. u \<in> set (List.map_filter canonical_uuid (en_members env tenant))"
    using rest by (simp_all add: list_all_iff)
  show "distinct us" unfolding us by (rule distinct_first_seen) simp
  show "\<forall>u \<in> set us. canonical u"
    unfolding us by (auto simp: set_first_seen map_filter_def intro: canonical_uuid_some)
qed

section \<open>Interleavings\<close>

record judgement =
  jd_review :: string
  jd_round :: nat
  jd_user :: string
  jd_decision :: decision
  jd_fingerprint :: string

record review_world =
  w_db :: review_db
  w_plans :: "(string \<times> review_plan) list"
  w_log :: "judgement list"

definition empty_world :: review_world where
  "empty_world = \<lparr>w_db = empty_review_db, w_plans = [], w_log = []\<rparr>"

definition judged :: "review_env \<Rightarrow> string \<Rightarrow> review_plan \<Rightarrow> judgement list" where
  "judged env tenant plan = (case plan of
       PlanDecide actor _ r version d _ _ \<Rightarrow>
         [\<lparr>jd_review = rv_id r, jd_round = rv_round r, jd_user = actor, jd_decision = d,
           jd_fingerprint = en_fingerprint env tenant version\<rparr>]
     | _ \<Rightarrow> [])"

definition checked :: "review_env \<Rightarrow> string \<Rightarrow> review_db \<Rightarrow> review_plan \<Rightarrow> bool" where
  "checked env tenant db plan \<longleftrightarrow>
     (\<exists>p v us a. check_request env tenant p v us a db = Inr plan)
   \<or> (\<exists>p r us a. check_re_request env tenant p r us a db = Inr plan)
   \<or> (\<exists>p r d t a. d \<in> set recordable_decisions \<and> check_decision env tenant p r d t a db = Inr plan)
   \<or> (\<exists>p r a. check_withdraw env tenant p r a db = Inr plan)"

inductive world_step :: "review_world \<Rightarrow> review_world \<Rightarrow> bool" where
  check_step: "checked env tenant (w_db w) plan
    \<Longrightarrow> world_step w (w\<lparr>w_plans := (tenant, plan) # w_plans w, w_log := judged env tenant plan @ w_log w\<rparr>)"
| commit_step: "(tenant, plan) \<in> set (w_plans w) \<Longrightarrow> canonical (en_new_id env)
    \<Longrightarrow> en_new_id env \<notin> rv_id ` set (db_reviews (w_db w))
    \<Longrightarrow> world_step w (w\<lparr>w_db := snd (commit_plan env tenant plan (w_db w)), w_plans := remove1 (tenant, plan) (w_plans w)\<rparr>)"

definition ids_ok :: "review_db \<Rightarrow> bool" where
  "ids_ok db \<longleftrightarrow> (\<forall>r \<in> set (db_reviews db). canonical (rv_id r) \<and> (\<forall>u. rv_requested_by r = Some u \<longrightarrow> canonical u))"

definition reviewers_ok :: "review_db \<Rightarrow> bool" where
  "reviewers_ok db \<longleftrightarrow> (\<forall>r \<in> set (db_reviews db). \<forall>w \<in> set (db_rows db). rr_review w = rv_id r \<longrightarrow>
     rr_user w \<noteq> None \<and> rr_user w \<noteq> rv_requested_by r)"

definition votes_ok :: "judgement list \<Rightarrow> review_db \<Rightarrow> bool" where
  "votes_ok js db \<longleftrightarrow> (\<forall>r \<in> set (db_reviews db). \<forall>w \<in> set (db_rows db).
     rr_review w = rv_id r \<and> rr_round w = rv_round r \<and> rr_decision w \<noteq> Pending \<longrightarrow>
     (\<exists>j \<in> set js. jd_review j = rv_id r \<and> jd_round j = rv_round r \<and> rr_user w = Some (jd_user j)
        \<and> jd_decision j = rr_decision w \<and> jd_fingerprint j = rv_fingerprint r))"

text \<open>A review as a plan remembers it: the stored one has moved on at most to later rounds.\<close>

definition remembers :: "review_db \<Rightarrow> review \<Rightarrow> bool" where
  "remembers db r \<longleftrightarrow> (\<exists>r' \<in> set (db_reviews db). rv_id r' = rv_id r \<and> rv_requested_by r' = rv_requested_by r
     \<and> rv_round r \<le> rv_round r' \<and> (rv_round r' = rv_round r \<longrightarrow> rv_fingerprint r' = rv_fingerprint r))"

definition plan_ok :: "judgement list \<Rightarrow> review_db \<Rightarrow> review_plan \<Rightarrow> bool" where
  "plan_ok js db plan = (case plan of
       PlanRequest actor _ _ us _ \<Rightarrow> canonical actor \<and> (\<forall>u \<in> set us. canonical u) \<and> actor \<notin> set us
     | PlanReRequest _ _ r _ us _ \<Rightarrow> remembers db r \<and> (\<forall>u \<in> set us. canonical u \<and> Some u \<noteq> rv_requested_by r)
     | PlanDecide actor _ r _ d _ _ \<Rightarrow> remembers db r \<and> canonical actor \<and> (\<exists>j \<in> set js. jd_review j = rv_id r
         \<and> jd_round j = rv_round r \<and> jd_user j = actor \<and> jd_decision j = d \<and> jd_fingerprint j = rv_fingerprint r)
     | PlanWithdraw _ _ _ \<Rightarrow> True)"

definition world_ok :: "review_world \<Rightarrow> bool" where
  "world_ok w \<longleftrightarrow> review_inv (w_db w) \<and> ids_ok (w_db w) \<and> reviewers_ok (w_db w) \<and> votes_ok (w_log w) (w_db w)
     \<and> (\<forall>(tenant, plan) \<in> set (w_plans w). plan_ok (w_log w) (w_db w) plan)"

lemma get_review_some:
  assumes "get_review tenant project review db = Some r"
  shows "r \<in> set (db_reviews db)" "rv_id r = as_uuid review"
  using assms by (auto simp: get_review_def split: if_splits dest!: found_member)

lemma review_row_Inr: "review_row tenant project review db = Inr r \<longleftrightarrow> get_review tenant project review db = Some r"
  by (auto simp: review_row_def split: option.splits)

lemma remembers_self: "r \<in> set (db_reviews db) \<Longrightarrow> remembers db r"
  by (auto simp: remembers_def)

lemma checked_plan_ok:
  assumes "checked env tenant db plan" and "ids_ok db"
  shows "plan_ok (judged env tenant plan @ js) db plan"
proof -
  consider p v us a where "check_request env tenant p v us a db = Inr plan"
    | p r us a where "check_re_request env tenant p r us a db = Inr plan"
    | p r d t a where "check_decision env tenant p r d t a db = Inr plan"
    | p r a where "check_withdraw env tenant p r a db = Inr plan"
    using assms(1) unfolding checked_def by blast
  then show ?thesis
  proof cases
    case 1
    then obtain actor project version us' fp where plan: "plan = PlanRequest actor project version us' fp"
      and a: "require_actor a = Inr actor" and v: "validate_reviewers env tenant us (Some actor) = Inr us'"
      by (auto simp: check_request_def)
    note v = validate_reviewers_Inr[OF v]
    show ?thesis
      using require_actor_Inr[OF a] v(3) v(5)[OF canonical_uuid_canonical[OF require_actor_Inr[OF a]]]
      by (simp add: plan plan_ok_def)
  next
    case 2
    then obtain actor project q version us' ids where plan: "plan = PlanReRequest actor project q version us' (en_fingerprint env tenant version)"
      and q: "review_row tenant project r db = Inr q" and v: "validate_reviewers env tenant ids (rv_requested_by q) = Inr us'"
      by (auto simp: check_re_request_def Let_def)
    have member: "q \<in> set (db_reviews db)" using q get_review_some(1) by (simp add: review_row_Inr)
    have "Some u \<noteq> rv_requested_by q" if "u \<in> set us'" for u
      using validate_reviewers_Inr(5)[OF v, of u] that assms(2) member canonical_uuid_canonical[of u]
      by (auto simp: ids_ok_def)
    then show ?thesis
      using validate_reviewers_Inr(3)[OF v] remembers_self[OF member] by (auto simp: plan plan_ok_def)
  next
    case 3
    then obtain actor project q version t' fp where plan: "plan = PlanDecide actor project q version d t' fp"
      and a: "require_actor a = Inr actor" and q: "review_row tenant project r db = Inr q"
      and fp: "en_fingerprint env tenant version = rv_fingerprint q"
      by (auto simp: check_decision_def)
    then show ?thesis
      using require_actor_Inr[OF a] remembers_self get_review_some(1)
      by (auto simp: plan_ok_def review_row_Inr judged_def)
  next
    case 4
    then show ?thesis by (auto simp: check_withdraw_def plan_ok_def)
  qed
qed

lemma plan_ok_more_log: "plan_ok js db plan \<Longrightarrow> plan_ok (js' @ js) db plan"
  by (auto simp: plan_ok_def split: review_plan.splits)

lemma votes_ok_more_log: "votes_ok js db \<Longrightarrow> votes_ok (js' @ js) db"
  unfolding votes_ok_def by (metis Un_iff set_append)

text \<open>The transaction behind each commit.\<close>

lemma commit_tx:
  "snd (commit_request env tenant actor project version us fp db)
     = snd (insert_review (en_alive env) (en_now env) (en_new_id env) tenant project (vr_id version) actor us fp
             (recipients (map Some us) [Some actor]) db)"
  "snd (commit_re_request env tenant actor project r us fp db)
     = snd (re_request_review (en_alive env) (en_now env) tenant project (rv_id r) (rv_round r) us fp actor
             (recipients (map Some us) [Some actor]) db)"
  "snd (commit_decision env tenant actor project r d remark fp db)
     = snd (record_review_decision (en_alive env) (en_now env) tenant project (rv_id r) (rv_round r) actor d remark
             (recipients [rv_requested_by r] [Some actor]) db)"
  "snd (commit_withdraw env tenant actor project r db)
     = snd (withdraw_review (en_now env) tenant project (rv_id r) actor db)"
  by (auto simp: commit_request_def commit_re_request_def commit_decision_def commit_withdraw_def
      split: prod.splits tx.splits sum.splits if_splits)

lemma commit_is_review_step:
  assumes "en_new_id env \<notin> rv_id ` set (db_reviews db)"
  shows "review_step db (snd (commit_plan env tenant plan db))"
  using assms review_step.intros by (cases plan) (simp_all add: commit_plan_def commit_tx)

lemma remembers_step:
  assumes "review_step db db'" and "review_inv db" and "remembers db r"
  shows "remembers db' r"
proof -
  from assms(3) obtain r1 where r1: "r1 \<in> set (db_reviews db)" "rv_id r1 = rv_id r" "rv_requested_by r1 = rv_requested_by r"
    "rv_round r \<le> rv_round r1" "rv_round r1 = rv_round r \<longrightarrow> rv_fingerprint r1 = rv_fingerprint r"
    by (auto simp: remembers_def)
  from step_follows[OF assms(1,2)] r1(1) obtain r2 where "r2 \<in> set (db_reviews db')" "review_follows r1 r2" by blast
  then show ?thesis unfolding remembers_def using r1 by (intro bexI[of _ r2]) (auto simp: review_follows_def)
qed

lemma plan_ok_step:
  assumes "review_step db db'" and "review_inv db" and "plan_ok js db plan"
  shows "plan_ok js db' plan"
  using assms(3) remembers_step[OF assms(1,2)] by (auto simp: plan_ok_def split: review_plan.splits)

text \<open>Each kind of commit keeps the ids, the reviewers and the votes in order.\<close>

lemma insert_keeps:
  assumes "insert_review alive now new_id tenant project version actor us fp people db = (res, db')"
    and "review_inv db" and "ids_ok db" and "reviewers_ok db" and "votes_ok js db"
    and "canonical new_id" and "new_id \<notin> rv_id ` set (db_reviews db)"
    and "canonical actor" and "\<forall>u \<in> set us. canonical u" and "actor \<notin> set us"
  shows "ids_ok db' \<and> reviewers_ok db' \<and> votes_ok js db'"
  using insert_review_cases[OF assms(1)]
proof (elim disjE conjE)
  assume "db' = db"
  then show ?thesis using assms(3-5) by simp
next
  let ?r = "\<lparr>rv_id = new_id, rv_tenant = as_uuid tenant, rv_project = as_uuid project,
          rv_version = as_uuid version, rv_requested_by = Some (as_uuid actor), rv_state = InReview, rv_round = 1,
          rv_fingerprint = fp, rv_closed_at = None, rv_closed_by = None, rv_created_at = now, rv_updated_at = now\<rparr>"
  assume reviews: "db_reviews db' = db_reviews db @ [?r]"
    and rows: "db_rows db' = db_rows db @ new_rows now new_id 1 us"
  have old: "rr_review w \<noteq> new_id" if "w \<in> set (db_rows db)" for w
    using no_rows_of_new[OF assms(2,7) that] .
  have other: "rv_id r \<noteq> new_id" if "r \<in> set (db_reviews db)" for r using assms(7) that by auto
  have "ids_ok db'" using assms(3,6,8) by (auto simp: ids_ok_def reviews)
  moreover have "reviewers_ok db'"
    unfolding reviewers_ok_def reviews rows
  proof (intro ballI impI)
    fix r w assume r: "r \<in> set (db_reviews db @ [?r])" and w: "w \<in> set (db_rows db @ new_rows now new_id 1 us)" "rr_review w = rv_id r"
    show "rr_user w \<noteq> None \<and> rr_user w \<noteq> rv_requested_by r"
    proof (cases "w \<in> set (db_rows db)")
      case True
      then have "r \<in> set (db_reviews db)" using r w(2) old by auto
      then show ?thesis using assms(4) True w(2) by (simp add: reviewers_ok_def)
    next
      case False
      then obtain u where u: "u \<in> set us" "rr_user w = Some (as_uuid u)" "rr_review w = new_id"
        using w(1) new_rows_member[of w now new_id 1 us] by auto
      then have "r = ?r" using r w(2) other by auto
      moreover have "as_uuid u = u" "as_uuid actor = actor" "u \<noteq> actor" using assms(8-10) u(1) by auto
      ultimately show ?thesis using u(2) by simp
    qed
  qed
  moreover have "votes_ok js db'"
    unfolding votes_ok_def reviews rows
  proof (intro ballI impI)
    fix r w assume r: "r \<in> set (db_reviews db @ [?r])" and w: "w \<in> set (db_rows db @ new_rows now new_id 1 us)"
      "rr_review w = rv_id r \<and> rr_round w = rv_round r \<and> rr_decision w \<noteq> Pending"
    then have "w \<in> set (db_rows db)" by (auto dest: new_rows_simps)
    moreover from this have "r \<in> set (db_reviews db)" using r w(2) old by auto
    ultimately show "\<exists>j \<in> set js. jd_review j = rv_id r \<and> jd_round j = rv_round r \<and> rr_user w = Some (jd_user j)
        \<and> jd_decision j = rr_decision w \<and> jd_fingerprint j = rv_fingerprint r"
      using assms(5) w(2) by (simp add: votes_ok_def)
  qed
  ultimately show ?thesis by blast
qed

lemma re_request_keeps:
  assumes "re_request_review alive now tenant project (rv_id r) expected us fp actor people db = (res, db')"
    and "review_inv db" and "ids_ok db" and "reviewers_ok db" and "votes_ok js db"
    and "remembers db r" and "\<forall>u \<in> set us. canonical u \<and> Some u \<noteq> rv_requested_by r"
  shows "ids_ok db' \<and> reviewers_ok db' \<and> votes_ok js db'"
  using re_request_review_cases[OF assms(1)]
proof (elim disjE conjE exE)
  assume "db' = db"
  then show ?thesis using assms(3-5) by simp
next
  fix q :: review
  let ?f = "\<lambda>p. if rv_id p = as_uuid (rv_id r) then p\<lparr>rv_state := InReview, rv_round := rv_round q + 1,
            rv_fingerprint := fp, rv_updated_at := now\<rparr> else p"
  assume lock: "lock_open_review tenant project (rv_id r) db = Some q"
    and reviews: "db_reviews db' = map ?f (db_reviews db)"
    and rows: "db_rows db' = db_rows db @ new_rows now (as_uuid (rv_id r)) (rv_round q + 1) us"
  note q = lock_open_review_some[OF lock]
  have id: "as_uuid (rv_id r) = rv_id q" using q(2) by simp
  have "rv_id q = rv_id r"
    using assms(3,6) q(2) by (auto simp: remembers_def ids_ok_def)
  then have by_r: "rv_requested_by q = rv_requested_by r"
    using assms(6) same_review[OF assms(2) _ q(1)] by (auto simp: remembers_def)
  have only: "p = q" if "p \<in> set (db_reviews db)" "rv_id p = rv_id q" for p
    using same_review[OF assms(2) that(1) q(1) that(2)] .
  have none: "rr_round w \<noteq> rv_round q + 1" if "w \<in> set (db_rows db)" "rr_review w = rv_id q" for w
    using no_rows_of_next[OF assms(2) q(1) that] by simp
  have "ids_ok db'" using assms(3) by (auto simp: ids_ok_def reviews)
  moreover have "reviewers_ok db'"
    unfolding reviewers_ok_def reviews rows set_map ball_simps
  proof (intro ballI impI)
    fix p w assume p: "p \<in> set (db_reviews db)" and w: "w \<in> set (db_rows db @ new_rows now (as_uuid (rv_id r)) (rv_round q + 1) us)"
      "rr_review w = rv_id (?f p)"
    then have w': "rr_review w = rv_id p" by (simp split: if_splits)
    show "rr_user w \<noteq> None \<and> rr_user w \<noteq> rv_requested_by (?f p)"
    proof (cases "w \<in> set (db_rows db)")
      case True
      then show ?thesis using assms(4) p w' by (simp add: reviewers_ok_def)
    next
      case False
      then obtain u where u: "u \<in> set us" "rr_user w = Some (as_uuid u)" "rr_review w = rv_id q"
        using w(1) new_rows_member[of w now "as_uuid (rv_id r)" "rv_round q + 1" us] id by auto
      then have "p = q" using only p w' by simp
      then show ?thesis using u assms(7) by_r by auto
    qed
  qed
  moreover have "votes_ok js db'"
    unfolding votes_ok_def reviews rows set_map ball_simps
  proof (intro ballI impI)
    fix p w assume p: "p \<in> set (db_reviews db)" and w: "w \<in> set (db_rows db @ new_rows now (as_uuid (rv_id r)) (rv_round q + 1) us)"
      "rr_review w = rv_id (?f p) \<and> rr_round w = rv_round (?f p) \<and> rr_decision w \<noteq> Pending"
    then have old: "w \<in> set (db_rows db)" by (auto dest: new_rows_simps)
    have "rv_id p \<noteq> rv_id q"
    proof
      assume "rv_id p = rv_id q"
      then have "rr_review w = rv_id q" "rr_round w = rv_round q + 1" using w(2) by (simp_all add: id)
      then show False using none[OF old] by simp
    qed
    then have "?f p = p" by (simp add: id)
    then show "\<exists>j \<in> set js. jd_review j = rv_id (?f p) \<and> jd_round j = rv_round (?f p) \<and> rr_user w = Some (jd_user j)
        \<and> jd_decision j = rr_decision w \<and> jd_fingerprint j = rv_fingerprint (?f p)"
      using assms(5) p old w(2) by (simp add: votes_ok_def)
  qed
  ultimately show ?thesis by blast
qed

lemma decision_keeps:
  assumes "record_review_decision alive now tenant project (rv_id r) (rv_round r) actor d remark people db = (res, db')"
    and "review_inv db" and "ids_ok db" and "reviewers_ok db" and "votes_ok js db"
    and "remembers db r" and "canonical actor"
    and "j \<in> set js" "jd_review j = rv_id r" "jd_round j = rv_round r" "jd_user j = actor" "jd_decision j = d"
      "jd_fingerprint j = rv_fingerprint r"
  shows "ids_ok db' \<and> reviewers_ok db' \<and> votes_ok js db'"
  using record_review_decision_cases[OF assms(1)]
proof (elim disjE conjE exE)
  assume "db' = db"
  then show ?thesis using assms(3-5) by simp
next
  fix q :: review
  let ?t = "state_after_decisions (round_decisions (as_uuid (rv_id r)) (rv_round r) db')"
  let ?f = "\<lambda>p. if rv_id p = as_uuid (rv_id r) then p\<lparr>rv_state := ?t, rv_updated_at := now\<rparr> else p"
  let ?row = "decide_row (as_uuid (rv_id r)) (rv_round r) (as_uuid actor) d remark now"
  assume lock: "lock_open_review tenant project (rv_id r) db = Some q" and rnd: "rv_round q = rv_round r"
    and reviews: "db_reviews db' = map ?f (db_reviews db)" and rows: "db_rows db' = map ?row (db_rows db)"
  note q = lock_open_review_some[OF lock]
  have same: "rv_id q = rv_id r"
    using assms(3,6) q(2) by (auto simp: remembers_def ids_ok_def)
  have only: "p = q" if "p \<in> set (db_reviews db)" "rv_id p = rv_id q" for p
    using same_review[OF assms(2) that(1) q(1) that(2)] .
  have fp: "rv_fingerprint q = rv_fingerprint r"
    using assms(6) only rnd same by (auto simp: remembers_def)
  have keep: "rv_id (?f p) = rv_id p" "rv_requested_by (?f p) = rv_requested_by p" "rv_round (?f p) = rv_round p"
    "rv_fingerprint (?f p) = rv_fingerprint p" for p by simp_all
  have "ids_ok db'" using assms(3) by (auto simp: ids_ok_def reviews)
  moreover have "reviewers_ok db'"
    using assms(4) unfolding reviewers_ok_def reviews rows set_map ball_simps keep by simp
  moreover have "votes_ok js db'"
    unfolding votes_ok_def reviews rows set_map ball_simps keep decide_row_simps
  proof (intro ballI impI)
    fix p w assume p: "p \<in> set (db_reviews db)" and w: "w \<in> set (db_rows db)"
      "rr_review w = rv_id p \<and> rr_round w = rv_round p \<and> rr_decision (?row w) \<noteq> Pending"
    show "\<exists>j \<in> set js. jd_review j = rv_id p \<and> jd_round j = rv_round p \<and> rr_user w = Some (jd_user j)
        \<and> jd_decision j = rr_decision (?row w) \<and> jd_fingerprint j = rv_fingerprint p"
    proof (cases "decides (as_uuid (rv_id r)) (rv_round r) (as_uuid actor) w")
      case True
      then have "p = q" using only[OF p] w(2) q(2) by (simp add: decides_def)
      then show ?thesis
        using True assms(7-13) fp rnd same by (intro bexI[of _ j]) (auto simp: decide_row_def decides_def)
    next
      case False
      then show ?thesis using assms(5) p w by (simp add: votes_ok_def decide_row_def)
    qed
  qed
  ultimately show ?thesis by blast
qed

lemma withdraw_keeps:
  assumes "withdraw_review now tenant project review actor db = (res, db')"
    and "ids_ok db" and "reviewers_ok db" and "votes_ok js db"
  shows "ids_ok db' \<and> reviewers_ok db' \<and> votes_ok js db'"
  using withdraw_review_cases[OF assms(1)]
proof (elim disjE conjE exE)
  assume "db' = db"
  then show ?thesis using assms(2-4) by simp
next
  fix q :: review
  let ?f = "\<lambda>p. if rv_id p = rv_id q then p\<lparr>rv_closed_at := Some now, rv_closed_by := Some (as_uuid actor), rv_updated_at := now\<rparr> else p"
  assume reviews: "db_reviews db' = map ?f (db_reviews db)" and rows: "db_rows db' = db_rows db"
  have keep: "rv_id (?f p) = rv_id p" "rv_requested_by (?f p) = rv_requested_by p" "rv_round (?f p) = rv_round p"
    "rv_fingerprint (?f p) = rv_fingerprint p" for p by simp_all
  show ?thesis
    using assms(2-4) unfolding ids_ok_def reviewers_ok_def votes_ok_def reviews rows set_map ball_simps keep by blast
qed

lemma commit_keeps:
  fixes tenant :: string
  assumes "plan_ok js db plan" and "review_inv db" and "ids_ok db" and "reviewers_ok db" and "votes_ok js db"
    and "canonical (en_new_id env)" and "en_new_id env \<notin> rv_id ` set (db_reviews db)"
  defines "db' \<equiv> snd (commit_plan env tenant plan db)"
  shows "ids_ok db' \<and> reviewers_ok db' \<and> votes_ok js db'"
proof (cases plan)
  case (PlanRequest actor project version us fp)
  then show ?thesis
    using insert_keeps[OF surjective_pairing assms(2-7)] assms(1) by (simp add: db'_def commit_plan_def commit_tx plan_ok_def)
next
  case (PlanReRequest actor project r version us fp)
  then show ?thesis
    using re_request_keeps[OF surjective_pairing assms(2-5)] assms(1) by (simp add: db'_def commit_plan_def commit_tx plan_ok_def)
next
  case (PlanDecide actor project r version d remark fp)
  then show ?thesis
    using decision_keeps[OF surjective_pairing assms(2-5)] assms(1)
    by (auto simp: db'_def commit_plan_def commit_tx plan_ok_def)
next
  case (PlanWithdraw actor project r)
  then show ?thesis
    using withdraw_keeps[OF surjective_pairing assms(3-5)] by (simp add: db'_def commit_plan_def commit_tx)
qed

lemma world_step_ok:
  assumes "world_step w w'" and "world_ok w"
  shows "world_ok w'"
  using assms
proof (induction rule: world_step.induct)
  case (check_step env tenant w plan)
  then show ?case
    using checked_plan_ok[OF check_step(1), of "w_log w"]
    by (auto simp: world_ok_def intro: votes_ok_more_log plan_ok_more_log)
next
  case (commit_step tenant plan w env)
  then have ok: "plan_ok (w_log w) (w_db w) plan" "review_inv (w_db w)" "ids_ok (w_db w)" "reviewers_ok (w_db w)"
    "votes_ok (w_log w) (w_db w)" by (auto simp: world_ok_def)
  note step = commit_is_review_step[OF commit_step(3), of tenant plan]
  have "plan_ok (w_log w) (snd (commit_plan env tenant plan (w_db w))) p"
    if "(t, p) \<in> set (remove1 (tenant, plan) (w_plans w))" for t p
    using plan_ok_step[OF step ok(2)] commit_step(4) notin_set_remove1 that unfolding world_ok_def by fast
  then show ?case
    using commit_keeps[OF ok commit_step(2,3)] review_step_inv[OF step ok(2)] by (auto simp: world_ok_def)
qed

lemma world_ok_empty: "world_ok empty_world"
  using review_inv_empty
  by (simp add: world_ok_def empty_world_def ids_ok_def reviewers_ok_def votes_ok_def empty_review_db_def)

lemma world_reachable_ok:
  assumes "world_step\<^sup>*\<^sup>* empty_world w"
  shows "world_ok w"
  using assms by (induction rule: rtranclp_induct) (auto intro: world_ok_empty world_step_ok)

end
