(* ===== verification/ApprovalGate.thy ===== *)
theory ApprovalGate
  imports ReviewSafety SessionProtocol
begin

text \<open>
  The approval gate of a publish (\<open>approval_policy.py\<close>, \<open>approval_publish_gate.py\<close>): the policy
  of the governing style guide and the verdict on a candidate version. What the policy lookup and
  the reads of the gate answer, or that one of them fails, is given. Its soundness is stated over
  the interleavings of \<open>ReviewSafety\<close>: what a satisfied gate says about the content being
  published.
\<close>

section \<open>Policy\<close>

datatype guide_value = GNone | GBool bool | GInt int | GFloat rat | GText string

definition default_required_approvals :: int where
  "default_required_approvals = 0"

definition max_required_approvals :: int where
  "max_required_approvals = 20"

definition max_reviewer_role_length :: nat where
  "max_reviewer_role_length = 64"

definition normalize_required_approvals :: "guide_value \<Rightarrow> int" where
  "normalize_required_approvals raw =
     (let parsed = (case raw of
            GInt i \<Rightarrow> Some i
          | GFloat q \<Rightarrow> Some (if q < 0 then - \<lfloor>- q\<rfloor> else \<lfloor>q\<rfloor>)
          | GText t \<Rightarrow> py_int t
          | GBool _ \<Rightarrow> None
          | GNone \<Rightarrow> None)
      in case parsed of
           None \<Rightarrow> default_required_approvals
         | Some v \<Rightarrow> if v < 0 then default_required_approvals else min v max_required_approvals)"

definition normalize_required_reviewer_role :: "guide_value \<Rightarrow> string option" where
  "normalize_required_reviewer_role raw = (case raw of
       GText t \<Rightarrow> (let text = lower (strip t) in if text = [] \<or> length text > max_reviewer_role_length then None else Some text)
     | _ \<Rightarrow> None)"

record approval_policy =
  ap_required :: int
  ap_role :: "string option"

definition no_policy :: approval_policy where
  "no_policy = \<lparr>ap_required = default_required_approvals, ap_role = None\<rparr>"

definition policy_active :: "approval_policy \<Rightarrow> bool" where
  "policy_active p \<longleftrightarrow> ap_required p \<ge> 1"

text \<open>The guide that governs the project: the lookup fails, finds none, or finds its two settings.\<close>

datatype guide_lookup = LookupFails | NoGuide | Guide guide_value guide_value

definition resolve_approval_policy :: "guide_lookup \<Rightarrow> approval_policy" where
  "resolve_approval_policy g = (case g of
       Guide required role \<Rightarrow>
         \<lparr>ap_required = normalize_required_approvals required, ap_role = normalize_required_reviewer_role role\<rparr>
     | _ \<Rightarrow> no_policy)"

section \<open>Roles\<close>

record role_env =
  ro_admin :: "string \<Rightarrow> string \<Rightarrow> bool"
  ro_assigned :: "string \<Rightarrow> string \<Rightarrow> string option"
  ro_member :: "string \<Rightarrow> string \<Rightarrow> bool"

definition get_effective_role_slug :: "role_env \<Rightarrow> string \<Rightarrow> string \<Rightarrow> string option" where
  "get_effective_role_slug ro tenant user =
     (if tenant = [] \<or> \<not> is_uuid_string tenant then None
      else if user = [] \<or> \<not> is_uuid_string user then None
      else if ro_admin ro tenant user then Some ''owner''
      else case ro_assigned ro tenant user of
          Some slug \<Rightarrow> Some slug
        | None \<Rightarrow> if ro_member ro tenant user then Some ''editor'' else None)"

definition role_slug :: "role_env \<Rightarrow> string \<Rightarrow> string \<Rightarrow> string option" where
  "role_slug ro tenant user = normalize_required_reviewer_role
     (case get_effective_role_slug ro tenant user of Some s \<Rightarrow> GText s | None \<Rightarrow> GNone)"

section \<open>The verdict\<close>

datatype gate_status = GateDisabled | GateSatisfied | GateBlocked | GateUnavailable

datatype gate_reason = NoReview | ReasonChangesRequested | ReasonSpecChanged | InsufficientApprovals | MissingRequiredRole

record gate_assessment =
  ga_policy :: approval_policy
  ga_status :: gate_status
  ga_reason :: "gate_reason option"
  ga_review :: "string option"
  ga_state :: "review_state option"
  ga_round :: "nat option"
  ga_spec_changed :: "bool option"
  ga_approvals :: int
  ga_changes :: int
  ga_pending :: int
  ga_role_approvals :: int
  ga_approvers :: "(string option \<times> string option) list"
  ga_detail :: "string option"

definition bare_assessment :: "approval_policy \<Rightarrow> gate_status \<Rightarrow> gate_reason option \<Rightarrow> string option \<Rightarrow> gate_assessment" where
  "bare_assessment p status reason detail =
     \<lparr>ga_policy = p, ga_status = status, ga_reason = reason, ga_review = None, ga_state = None, ga_round = None,
      ga_spec_changed = None, ga_approvals = 0, ga_changes = 0, ga_pending = 0, ga_role_approvals = 0, ga_approvers = [],
      ga_detail = detail\<rparr>"

definition max_listed_approvers :: nat where
  "max_listed_approvers = 20"

definition current_round_decisions :: "(reviewer_row list \<Rightarrow> reviewer_row list) \<Rightarrow> review \<Rightarrow> review_db \<Rightarrow> reviewer_row list" where
  "current_round_decisions by_name r db =
     filter (\<lambda>w. rr_round w = rv_round r) (list_review_reviewers by_name (rv_id r) db)"

definition usable :: "string option \<Rightarrow> string option" where
  "usable v = (case v of Some t \<Rightarrow> if t \<noteq> [] then Some t else None | None \<Rightarrow> None)"

text \<open>An approver is listed with the role, which is looked up only when the policy names one.\<close>

fun approver_entries ::
  "role_env \<Rightarrow> string \<Rightarrow> string option \<Rightarrow> reviewer_row list \<Rightarrow> (string option \<times> string option) list \<Rightarrow> int
     \<Rightarrow> (string option \<times> string option) list \<times> int" where
  "approver_entries ro tenant required [] listed n = (listed, n)"
| "approver_entries ro tenant required (w # ws) listed n =
     (if rr_decision w \<noteq> Approve then approver_entries ro tenant required ws listed n
      else let user = usable (rr_user w);
               slug = (case (required, user) of (Some _, Some u) \<Rightarrow> role_slug ro tenant u | _ \<Rightarrow> None);
               n1 = (if required \<noteq> None \<and> user \<noteq> None \<and> slug = required then n + 1 else n);
               listed1 = (if length listed < max_listed_approvers then listed @ [(user, slug)] else listed)
           in approver_entries ro tenant required ws listed1 n1)"

definition refusal_reason :: "gate_assessment \<Rightarrow> gate_reason option" where
  "refusal_reason a =
     (if ga_changes a > 0 then Some ReasonChangesRequested
      else if ga_spec_changed a = Some True then Some ReasonSpecChanged
      else if ga_approvals a < ap_required (ga_policy a) then Some InsufficientApprovals
      else if usable (ap_role (ga_policy a)) \<noteq> None \<and> ga_role_approvals a < 1 then Some MissingRequiredRole
      else None)"

text \<open>The reads of a publish: one of them raises, with a message, or all answer.\<close>

definition assess_approval_gate ::
  "review_env \<Rightarrow> role_env \<Rightarrow> string option \<Rightarrow> string \<Rightarrow> string \<Rightarrow> version_row \<Rightarrow> approval_policy \<Rightarrow> review_db \<Rightarrow> gate_assessment" where
  "assess_approval_gate env ro fault tenant project version policy db =
     (if \<not> policy_active policy then bare_assessment policy GateDisabled None None
      else case fault of
        Some message \<Rightarrow> bare_assessment policy GateUnavailable None (Some message)
      | None \<Rightarrow>
          (case get_open_review_for_version tenant project (vr_id version) db of
             None \<Rightarrow> bare_assessment policy GateBlocked (Some NoReview) None
           | Some r \<Rightarrow>
               (let rows = current_round_decisions (en_by_name env) r db;
                    approvals = length (filter (\<lambda>w. rr_decision w = Approve) rows);
                    changes = length (filter (\<lambda>w. rr_decision w = RequestChanges) rows);
                    (approvers, role_approvals) = approver_entries ro tenant (usable (ap_role policy)) rows [] 0;
                    observed = \<lparr>ga_policy = policy, ga_status = GateSatisfied, ga_reason = None, ga_review = Some (rv_id r),
                      ga_state = Some (rv_state r), ga_round = Some (rv_round r),
                      ga_spec_changed = Some (en_fingerprint env tenant version \<noteq> rv_fingerprint r),
                      ga_approvals = int approvals, ga_changes = int changes,
                      ga_pending = int (length rows) - int approvals - int changes, ga_role_approvals = role_approvals,
                      ga_approvers = approvers, ga_detail = None\<rparr>
                in case refusal_reason observed of
                     None \<Rightarrow> observed
                   | Some reason \<Rightarrow> observed\<lparr>ga_status := GateBlocked, ga_reason := Some reason\<rparr>)))"

definition gate_blocked :: "gate_assessment \<Rightarrow> bool" where
  "gate_blocked a \<longleftrightarrow> ga_status a = GateBlocked"

definition gate_evaluated :: "gate_assessment \<Rightarrow> bool" where
  "gate_evaluated a \<longleftrightarrow> ga_status a \<in> {GateSatisfied, GateBlocked, GateUnavailable}"

section \<open>Facts\<close>

lemma required_approvals_range:
  "0 \<le> normalize_required_approvals raw \<and> normalize_required_approvals raw \<le> max_required_approvals"
  by (auto simp: normalize_required_approvals_def default_required_approvals_def max_required_approvals_def Let_def
      split: option.splits)

definition role_approval :: "role_env \<Rightarrow> string \<Rightarrow> string option \<Rightarrow> reviewer_row \<Rightarrow> bool" where
  "role_approval ro tenant required w \<longleftrightarrow> rr_decision w = Approve \<and> required \<noteq> None
     \<and> (\<exists>u. usable (rr_user w) = Some u \<and> role_slug ro tenant u = required)"

lemma approver_entries_roles:
  "snd (approver_entries ro tenant required ws listed n) = n + int (length (filter (role_approval ro tenant required) ws))"
proof (induction ws arbitrary: listed n)
  case (Cons w ws)
  show ?case
    by (cases "rr_decision w = Approve"; cases "usable (rr_user w)")
      (auto simp: Cons.IH Let_def role_approval_def[of ro tenant required w] split: option.splits)
qed simp

lemma current_rows:
  assumes "\<And>xs. mset (by_name xs) = mset xs" and "canonical (rv_id r)"
  shows "mset (current_round_decisions by_name r db)
    = mset (filter (\<lambda>w. rr_review w = rv_id r \<and> rr_round w = rv_round r) (db_rows db))"
proof -
  have "filter_mset (\<lambda>w. rr_round w = rv_round r) (filter_mset (\<lambda>w. rr_review w = rv_id r) m)
      = filter_mset (\<lambda>w. rr_review w = rv_id r \<and> rr_round w = rv_round r) m" for m
    by (simp add: filter_filter_mset conj_commute)
  then show ?thesis
    using assms by (simp add: current_round_decisions_def list_review_reviewers_def canonical_def mset_filter)
qed

definition gate_observation :: "review_env \<Rightarrow> role_env \<Rightarrow> string \<Rightarrow> version_row \<Rightarrow> approval_policy \<Rightarrow> review_db \<Rightarrow> review \<Rightarrow> bool" where
  "gate_observation env ro tenant version policy db r \<longleftrightarrow>
     (let rows = current_round_decisions (en_by_name env) r db in
      filter (\<lambda>w. rr_decision w = RequestChanges) rows = [] \<and> en_fingerprint env tenant version = rv_fingerprint r
      \<and> ap_required policy \<le> int (length (filter (\<lambda>w. rr_decision w = Approve) rows))
      \<and> (usable (ap_role policy) \<noteq> None \<longrightarrow> filter (role_approval ro tenant (usable (ap_role policy))) rows \<noteq> []))"

lemma gate_satisfied:
  "ga_status (assess_approval_gate env ro fault tenant project version policy db) = GateSatisfied \<longleftrightarrow>
     policy_active policy \<and> fault = None
     \<and> (\<exists>r. get_open_review_for_version tenant project (vr_id version) db = Some r \<and> gate_observation env ro tenant version policy db r)"
proof (cases "policy_active policy \<and> fault = None")
  case True
  show ?thesis
  proof (cases "get_open_review_for_version tenant project (vr_id version) db")
    case None
    then show ?thesis using True by (simp add: assess_approval_gate_def bare_assessment_def)
  next
    case (Some r)
    then show ?thesis
      using True
      by (simp add: assess_approval_gate_def Let_def split_def approver_entries_roles refusal_reason_def gate_observation_def
          not_less filter_empty_conv)
  qed
next
  case False
  then show ?thesis by (auto simp: assess_approval_gate_def bare_assessment_def split: option.splits)
qed

lemma mset_filter_length:
  assumes "mset xs = mset ys"
  shows "length (filter P xs) = length (filter P ys)" "set (filter P xs) = set (filter P ys)"
proof -
  have "mset (filter P xs) = mset (filter P ys)" using assms by simp
  then show "length (filter P xs) = length (filter P ys)" "set (filter P xs) = set (filter P ys)"
    by (metis size_mset, metis set_mset_mset)
qed

text \<open>The users who approved the current round of a review.\<close>

definition approvers_of :: "review \<Rightarrow> review_db \<Rightarrow> string set" where
  "approvers_of r db = {u. \<exists>w \<in> set (db_rows db). rr_review w = rv_id r \<and> rr_round w = rv_round r
     \<and> rr_decision w = Approve \<and> rr_user w = Some u}"

lemma card_approvers:
  assumes "review_inv db" and "reviewers_ok db" and "r \<in> set (db_reviews db)"
  shows "finite (approvers_of r db)
    \<and> card (approvers_of r db) = length (filter (\<lambda>w. rr_review w = rv_id r \<and> rr_round w = rv_round r \<and> rr_decision w = Approve) (db_rows db))"
proof -
  let ?ws = "filter (\<lambda>w. rr_review w = rv_id r \<and> rr_round w = rv_round r \<and> rr_decision w = Approve) (db_rows db)"
  have some: "\<exists>u. rr_user w = Some u" if "w \<in> set ?ws" for w
    using assms(2,3) that by (auto simp: reviewers_ok_def)
  have key: "row_key v = row_key w" if "v \<in> set ?ws" "w \<in> set ?ws" "the (rr_user v) = the (rr_user w)" for v w
    using some[OF that(1)] some[OF that(2)] that by (auto simp: row_key_def)
  have keys: "distinct (map row_key ?ws)" using review_invD(3)[OF assms(1)] by (rule distinct_map_filter)
  then have inj: "inj_on row_key (set ?ws)" and dist: "distinct ?ws" unfolding distinct_map by blast+
  have "inj_on (\<lambda>w. the (rr_user w)) (set ?ws)"
  proof (rule inj_onI)
    fix v w
    assume a: "v \<in> set ?ws" "w \<in> set ?ws" "the (rr_user v) = the (rr_user w)"
    show "v = w" by (rule inj_onD[OF inj key[OF a] a(1,2)])
  qed
  then have "distinct (map (\<lambda>w. the (rr_user w)) ?ws)" using dist by (simp only: distinct_map)
  moreover have "approvers_of r db = set (map (\<lambda>w. the (rr_user w)) ?ws)"
  proof (intro set_eqI iffI)
    fix u assume "u \<in> approvers_of r db"
    then obtain w where w: "w \<in> set ?ws" "rr_user w = Some u" unfolding approvers_of_def mem_Collect_eq set_filter by blast
    show "u \<in> set (map (\<lambda>w. the (rr_user w)) ?ws)"
      unfolding set_map by (rule rev_image_eqI[OF w(1)]) (simp add: w(2))
  next
    fix u assume "u \<in> set (map (\<lambda>w. the (rr_user w)) ?ws)"
    then obtain w where w: "w \<in> set ?ws" "u = the (rr_user w)" unfolding set_map by blast
    then have "rr_user w = Some u" using some[OF w(1)] by auto
    then show "u \<in> approvers_of r db" using w(1) unfolding approvers_of_def mem_Collect_eq set_filter by blast
  qed
  ultimately show ?thesis using distinct_card[of "map (\<lambda>w. the (rr_user w)) ?ws"] by simp
qed

lemma gate_observes:
  assumes "gate_observation env ro tenant version policy db r"
    and "\<And>xs. mset (en_by_name env xs) = mset xs" and "canonical (rv_id r)"
  defines "rows \<equiv> filter (\<lambda>w. rr_review w = rv_id r \<and> rr_round w = rv_round r) (db_rows db)"
  shows "rv_fingerprint r = en_fingerprint env tenant version" "filter (\<lambda>w. rr_decision w = RequestChanges) rows = []"
    "ap_required policy \<le> int (length (filter (\<lambda>w. rr_decision w = Approve) rows))"
    "usable (ap_role policy) \<noteq> None \<Longrightarrow> filter (role_approval ro tenant (usable (ap_role policy))) rows \<noteq> []"
proof -
  note seen = assms(1)[unfolded gate_observation_def Let_def] and same = current_rows[OF assms(2,3), of db, folded rows_def]
  have found: "filter P (current_round_decisions (en_by_name env) r db) = [] \<longleftrightarrow> filter P rows = []" for P
    using mset_filter_length(1)[OF same, of P] by (metis length_0_conv)
  show "rv_fingerprint r = en_fingerprint env tenant version" "filter (\<lambda>w. rr_decision w = RequestChanges) rows = []"
    "usable (ap_role policy) \<noteq> None \<Longrightarrow> filter (role_approval ro tenant (usable (ap_role policy))) rows \<noteq> []"
    using seen unfolding found by simp_all
  show "ap_required policy \<le> int (length (filter (\<lambda>w. rr_decision w = Approve) rows))"
    using seen mset_filter_length(1)[OF same, of "\<lambda>w. rr_decision w = Approve"] by simp
qed

lemma approver_voted:
  assumes "reviewers_ok db" and "votes_ok js db" and "r \<in> set (db_reviews db)" and "u \<in> approvers_of r db"
  shows "rv_requested_by r \<noteq> Some u \<and> (\<exists>j \<in> set js. jd_review j = rv_id r \<and> jd_round j = rv_round r \<and> jd_user j = u
      \<and> jd_decision j = Approve \<and> jd_fingerprint j = rv_fingerprint r)"
proof -
  obtain x where x: "x \<in> set (db_rows db)" "rr_review x = rv_id r" "rr_round x = rv_round r"
    "rr_decision x = Approve" "rr_user x = Some u" using assms(4) by (auto simp: approvers_of_def)
  have "rr_user x \<noteq> rv_requested_by r" using assms(1,3) x(1,2) by (auto simp: reviewers_ok_def)
  moreover have "\<exists>j \<in> set js. jd_review j = rv_id r \<and> jd_round j = rv_round r \<and> rr_user x = Some (jd_user j)
      \<and> jd_decision j = rr_decision x \<and> jd_fingerprint j = rv_fingerprint r"
    using assms(2,3) x(1-4) unfolding votes_ok_def by (metis decision.distinct(3))
  ultimately show ?thesis using x(4,5) by auto
qed

section \<open>Properties\<close>

text \<open>C26: A satisfied gate means real approvals of the very content being published. However requests of
  reviewers, requesters and other replicas interleave and the content changes meanwhile, when an
  armed policy is satisfied the version has an open review of its current content with no change
  request, and at least the required number of different users, none of them the requester, each
  approved while the version had exactly this content; one of them has the required role.\<close>

theorem satisfied_gate_means_real_approvals:
  assumes "world_step\<^sup>*\<^sup>* empty_world w" and "\<forall>xs. mset (en_by_name env xs) = mset xs"
    and "ga_status (assess_approval_gate env ro fault tenant project version policy (w_db w)) = GateSatisfied"
  shows "\<exists>r \<in> set (db_reviews (w_db w)). rv_version r = as_uuid (vr_id version) \<and> open_review r
    \<and> rv_fingerprint r = en_fingerprint env tenant version \<and> rv_state r \<noteq> ChangesRequested
    \<and> ap_required policy \<le> int (card (approvers_of r (w_db w)))
    \<and> (\<forall>u \<in> approvers_of r (w_db w). rv_requested_by r \<noteq> Some u
        \<and> (\<exists>j \<in> set (w_log w). jd_review j = rv_id r \<and> jd_round j = rv_round r \<and> jd_user j = u
            \<and> jd_decision j = Approve \<and> jd_fingerprint j = en_fingerprint env tenant version))
    \<and> (\<forall>q. usable (ap_role policy) = Some q \<longrightarrow> (\<exists>u \<in> approvers_of r (w_db w). role_slug ro tenant u = Some q))"
proof -
  have ok: "review_inv (w_db w)" "ids_ok (w_db w)" "reviewers_ok (w_db w)" "votes_ok (w_log w) (w_db w)"
    using world_reachable_ok[OF assms(1)] by (auto simp: world_ok_def)
  from assms(3)[unfolded gate_satisfied] obtain r where
    r: "get_open_review_for_version tenant project (vr_id version) (w_db w) = Some r"
    and seen: "gate_observation env ro tenant version policy (w_db w) r" by blast
  have member: "r \<in> set (db_reviews (w_db w))" "rv_version r = as_uuid (vr_id version)" "open_review r"
    using r by (auto simp: get_open_review_for_version_def split: if_splits dest!: found_member)
  have "canonical (rv_id r)" using ok(2) member(1) by (auto simp: ids_ok_def)
  note seen = gate_observes[OF seen spec[OF assms(2)] this]
  have "rv_state r \<noteq> ChangesRequested"
    using review_invD(5)[OF ok(1) member(1)] seen(2) by (auto simp: changes_iff round_decisions_def filter_empty_conv)
  moreover have "ap_required policy \<le> int (card (approvers_of r (w_db w)))"
    using seen(3) card_approvers[OF ok(1,3) member(1)] by (simp add: conj_ac)
  moreover note approver_voted[OF ok(3,4) member(1), unfolded seen(1)]
  moreover have "\<exists>u \<in> approvers_of r (w_db w). role_slug ro tenant u = Some q" if q: "usable (ap_role policy) = Some q" for q
  proof -
    obtain x where "x \<in> set (db_rows (w_db w))" "rr_review x = rv_id r" "rr_round x = rv_round r" "role_approval ro tenant (Some q) x"
      using seen(4) q by (auto simp: filter_empty_conv)
    then show ?thesis
      by (auto simp: role_approval_def approvers_of_def usable_def split: option.splits if_splits)
  qed
  ultimately show ?thesis using member seen(1) by blast
qed

definition demo_version :: version_row where
  "demo_version = \<lparr>vr_id = demo_id CHR ''c'', vr_project = demo_id CHR ''b'', vr_label = ''1.0.0'', vr_published = False\<rparr>"

definition demo_env :: review_env where
  "demo_env = \<lparr>en_now = 10, en_new_id = demo_id CHR ''f'', en_alive = \<lambda>_. True, en_by_name = id,
     en_project_by_id = \<lambda>p _. Some p, en_project_by_slug = \<lambda>_ _. None, en_version_by_id = \<lambda>_ _. Some demo_version,
     en_version_by_label = \<lambda>_ _ _. None, en_members = \<lambda>_. [Some (demo_id CHR ''1'')], en_admin = \<lambda>_ _. False,
     en_fingerprint = \<lambda>_ _. ''sha256:1''\<rparr>"

definition demo_roles :: role_env where
  "demo_roles = \<lparr>ro_admin = \<lambda>_ u. u = demo_id CHR ''1'', ro_assigned = \<lambda>_ _. None, ro_member = \<lambda>_ _. True\<rparr>"

definition demo_request_plan :: review_plan where
  "demo_request_plan = PlanRequest (demo_id CHR ''0'') (demo_id CHR ''b'') demo_version [demo_id CHR ''1''] ''sha256:1''"

definition demo_review :: review where
  "demo_review = \<lparr>rv_id = demo_id CHR ''f'', rv_tenant = demo_id CHR ''a'', rv_project = demo_id CHR ''b'',
     rv_version = demo_id CHR ''c'', rv_requested_by = Some (demo_id CHR ''0''), rv_state = InReview, rv_round = 1,
     rv_fingerprint = ''sha256:1'', rv_closed_at = None, rv_closed_by = None, rv_created_at = 10, rv_updated_at = 10\<rparr>"

definition demo_decision_plan :: review_plan where
  "demo_decision_plan = PlanDecide (demo_id CHR ''1'') (demo_id CHR ''b'') demo_review demo_version Approve None ''sha256:1''"

definition demo_requested :: review_db where
  "demo_requested = snd (commit_plan demo_env (demo_id CHR ''a'') demo_request_plan empty_review_db)"

definition demo_approved :: review_db where
  "demo_approved = snd (commit_plan demo_env (demo_id CHR ''a'') demo_decision_plan demo_requested)"

lemma strip_demo_id [simp]: "c \<in> set ''0123456789abcdef'' \<Longrightarrow> strip (demo_id c) = demo_id c"
  using as_uuid_clean[of "demo_id c"] by simp

lemmas demo_env_simps = demo_env_def demo_version_def canonical_uuid_def map_filter_def

lemma demo_request_checked:
  "check_request demo_env (demo_id CHR ''a'') (demo_id CHR ''b'') (demo_id CHR ''c'') [demo_id CHR ''1''] (demo_id CHR ''0'') empty_review_db
     = Inr demo_request_plan"
  by (simp add: check_request_def require_actor_def resolve_project_def resolve_version_def validate_reviewers_def
      get_open_review_for_version_def empty_review_db_def max_reviewers_def demo_request_plan_def demo_env_simps)

lemma demo_requested_simps:
  "db_reviews demo_requested = [demo_review]"
  "db_rows demo_requested = [\<lparr>rr_review = demo_id CHR ''f'', rr_round = 1, rr_user = Some (demo_id CHR ''1''),
     rr_decision = Pending, rr_note = None, rr_decided_at = None, rr_created_at = 10\<rparr>]"
  by (simp_all add: demo_requested_def demo_request_plan_def commit_plan_def commit_tx review_tx_defs
      empty_review_db_def demo_review_def demo_env_simps)

lemma demo_decision_checked:
  "check_decision demo_env (demo_id CHR ''a'') (demo_id CHR ''b'') (demo_id CHR ''f'') Approve None (demo_id CHR ''1'') demo_requested
     = Inr demo_decision_plan"
  by (simp add: check_decision_def require_actor_def resolve_project_def review_row_Inr get_review_def review_version_def
      current_round_rows_def list_review_reviewers_def demo_requested_simps demo_review_def can_record_decision_def
      demo_decision_plan_def demo_env_simps)

lemma demo_approved_simps:
  "db_reviews demo_approved = [demo_review\<lparr>rv_state := Approved\<rparr>]"
  "db_rows demo_approved = [\<lparr>rr_review = demo_id CHR ''f'', rr_round = 1, rr_user = Some (demo_id CHR ''1''),
     rr_decision = Approve, rr_note = None, rr_decided_at = Some 10, rr_created_at = 10\<rparr>]"
  by (auto simp: demo_approved_def demo_decision_plan_def commit_plan_def commit_tx review_tx_defs
      demo_requested_simps recordable_decisions_def can_record_decision_def state_after_decisions_def round_decisions_def
      decides_def demo_review_def demo_env_simps)

definition demo_vote :: judgement where
  "demo_vote = \<lparr>jd_review = demo_id CHR ''f'', jd_round = 1, jd_user = demo_id CHR ''1'', jd_decision = Approve,
     jd_fingerprint = ''sha256:1''\<rparr>"

lemma demo_world_reachable:
  "world_step\<^sup>*\<^sup>* empty_world \<lparr>w_db = demo_approved, w_plans = [], w_log = [demo_vote]\<rparr>"
proof -
  let ?t = "demo_id CHR ''a''"
  have approve_recordable: "Approve \<in> set recordable_decisions" by (simp add: recordable_decisions_def)
  have "checked demo_env ?t empty_review_db demo_request_plan" unfolding checked_def using demo_request_checked by blast
  then have "world_step empty_world \<lparr>w_db = empty_review_db, w_plans = [(?t, demo_request_plan)], w_log = []\<rparr>"
    using check_step[of demo_env ?t empty_world demo_request_plan]
    by (simp add: empty_world_def judged_def demo_request_plan_def)
  moreover have "world_step \<lparr>w_db = empty_review_db, w_plans = [(?t, demo_request_plan)], w_log = []\<rparr>
      \<lparr>w_db = demo_requested, w_plans = [], w_log = []\<rparr>"
    using commit_step[of ?t demo_request_plan "\<lparr>w_db = empty_review_db, w_plans = [(?t, demo_request_plan)], w_log = []\<rparr>" demo_env]
    by (simp add: demo_requested_def demo_id_canonical empty_review_db_def demo_env_def)
  moreover have "checked demo_env ?t demo_requested demo_decision_plan"
    unfolding checked_def using demo_decision_checked approve_recordable by blast
  then have "world_step \<lparr>w_db = demo_requested, w_plans = [], w_log = []\<rparr>
      \<lparr>w_db = demo_requested, w_plans = [(?t, demo_decision_plan)], w_log = [demo_vote]\<rparr>"
    using check_step[of demo_env ?t "\<lparr>w_db = demo_requested, w_plans = [], w_log = []\<rparr>" demo_decision_plan]
    by (simp add: judged_def demo_decision_plan_def demo_vote_def demo_review_def demo_env_def)
  moreover have "world_step \<lparr>w_db = demo_requested, w_plans = [(?t, demo_decision_plan)], w_log = [demo_vote]\<rparr>
      \<lparr>w_db = demo_approved, w_plans = [], w_log = [demo_vote]\<rparr>"
    using commit_step[of ?t demo_decision_plan "\<lparr>w_db = demo_requested, w_plans = [(?t, demo_decision_plan)], w_log = [demo_vote]\<rparr>"
        "demo_env\<lparr>en_new_id := demo_id CHR ''e''\<rparr>"]
    by (simp add: demo_approved_def demo_id_canonical demo_requested_simps demo_review_def demo_env_def demo_decision_plan_def
        commit_plan_def commit_tx)
  ultimately show ?thesis by (meson rtranclp.rtrancl_into_rtrancl rtranclp.rtrancl_refl)
qed

lemma satisfied_gate_means_real_approvals_witness:
  "approvers_of (demo_review\<lparr>rv_state := Approved\<rparr>) demo_approved \<noteq> {}"
proof -
  let ?w = "\<lparr>w_db = demo_approved, w_plans = [], w_log = [demo_vote]\<rparr>"
  let ?p = "\<lparr>ap_required = 1, ap_role = None\<rparr>"
  have "ga_status (assess_approval_gate demo_env demo_roles None (demo_id CHR ''a'') (demo_id CHR ''b'') demo_version ?p (w_db ?w))
      = GateSatisfied"
    by (simp add: gate_satisfied policy_active_def gate_observation_def get_open_review_for_version_def demo_approved_simps
        demo_review_def current_round_decisions_def list_review_reviewers_def usable_def demo_env_simps)
  from satisfied_gate_means_real_approvals[OF demo_world_reachable _ this]
  show ?thesis by (auto simp: demo_approved_simps demo_env_def)
qed

text \<open>The refusals in their order, and the order the docstring of \<open>_refusal_reason\<close> announces: a
  stale round is to outrank a rejection, but the rejection is what the code answers.\<close>

lemma rejection_outranks_stale_round:
  assumes "ga_changes a > 0"
  shows "refusal_reason a = Some ReasonChangesRequested \<and> refusal_reason (a\<lparr>ga_spec_changed := Some True\<rparr>) = Some ReasonChangesRequested"
  using assms by (simp add: refusal_reason_def)

end
