(* ===== verification/JsonValue.thy ===== *)
theory JsonValue
  imports SessionProtocol "HOL-Library.List_Lexorder" "HOL-Library.Char_ord"
begin

text \<open>
  JSON documents as Python sees them. \<open>stable_json\<close> is the document with the keys of every object
  in order: two documents have the same compact dump with \<open>sort_keys\<close> exactly if their sorted
  forms are the same, which is the equality \<open>schema_merge.py\<close> and others use. \<open>at_path\<close> reads a
  document along a list of object keys.
\<close>

named_theorems json_simps \<open>reading and comparing JSON documents\<close>

section \<open>Equality of documents\<close>

fun stable_json :: "json \<Rightarrow> json" where
  "stable_json (JArray xs) = JArray (map stable_json xs)"
| "stable_json (JObject kvs) = JObject (sort_key fst (map (\<lambda>(k, v). (k, stable_json v)) kvs))"
| "stable_json v = v"

text \<open>\<open>None\<close> is the marker \<open>_MISSING\<close> of an absent key.\<close>

definition json_equal :: "json option \<Rightarrow> json option \<Rightarrow> bool" where
  "json_equal a b \<longleftrightarrow> map_option stable_json a = map_option stable_json b"

lemma json_equal_refl [simp]: "json_equal a a"
  by (simp add: json_equal_def)

lemma json_equal_sym: "json_equal a b \<longleftrightarrow> json_equal b a"
  by (auto simp: json_equal_def)

lemma json_equal_trans [trans]: "json_equal a b \<Longrightarrow> json_equal b c \<Longrightarrow> json_equal a c"
  by (simp add: json_equal_def)

lemma json_equal_None [simp]: "json_equal None a \<longleftrightarrow> a = None" "json_equal a None \<longleftrightarrow> a = None"
  by (auto simp: json_equal_def)

lemma json_equal_cong: "json_equal a b \<Longrightarrow> json_equal a c \<longleftrightarrow> json_equal b c"
  "json_equal a b \<Longrightarrow> json_equal c a \<longleftrightarrow> json_equal c b"
  by (auto simp: json_equal_def)

section \<open>Reading along a path\<close>

definition member :: "string \<Rightarrow> json option \<Rightarrow> json option" where
  "member k v = (case v of Some (JObject kvs) \<Rightarrow> map_of kvs k | _ \<Rightarrow> None)"

fun at_path :: "string list \<Rightarrow> json option \<Rightarrow> json option" where
  "at_path [] v = v"
| "at_path (k # ks) v = at_path ks (member k v)"

definition is_object :: "json option \<Rightarrow> bool" where
  "is_object v \<longleftrightarrow> (\<exists>kvs. v = Some (JObject kvs))"

lemma member_object [simp]: "member k (Some (JObject kvs)) = map_of kvs k"
  by (simp add: member_def)

lemma member_other: "\<not> is_object v \<Longrightarrow> member k v = None"
  by (auto simp: member_def is_object_def split: option.splits json.splits)

lemma at_path_None [simp]: "at_path p None = None"
  by (induction p) (simp_all add: member_def)

lemma map_of_insort: "map_of (insort_key fst x xs) = map_of (x # xs)"
  by (induction xs) (auto simp: fun_eq_iff)

lemma map_of_sort_key [simp]: "map_of (sort_key fst kvs) = map_of kvs"
  by (induction kvs) (auto simp: sort_key_def map_of_insort)

lemma map_of_stable: "map_of (map (\<lambda>(k, v). (k, f v)) kvs) k = map_option f (map_of kvs k)"
  by (induction kvs) auto

lemma stable_object: "stable_json v = JObject kvs \<Longrightarrow> \<exists>kws. v = JObject kws"
  by (cases v) auto

lemma json_equal_object: "json_equal v w \<Longrightarrow> is_object v \<longleftrightarrow> is_object w"
  unfolding json_equal_def is_object_def
  by (cases v; cases w; auto; metis stable_json.simps(2) stable_object)

lemma json_equal_member:
  assumes "json_equal v w"
  shows "json_equal (member k v) (member k w)"
proof (cases "is_object v")
  case True
  then obtain kvs kws where "v = Some (JObject kvs)" "w = Some (JObject kws)"
    using json_equal_object[OF assms] by (auto simp: is_object_def)
  moreover from this have "sort_key fst (map (\<lambda>(k, v). (k, stable_json v)) kvs)
      = sort_key fst (map (\<lambda>(k, v). (k, stable_json v)) kws)"
    using assms by (simp add: json_equal_def)
  then have "map_of (map (\<lambda>(k, v). (k, stable_json v)) kvs) k = map_of (map (\<lambda>(k, v). (k, stable_json v)) kws) k"
    by (metis map_of_sort_key)
  ultimately show ?thesis by (simp add: json_equal_def map_of_stable)
next
  case False
  then show ?thesis using json_equal_object[OF assms] by (simp add: member_other)
qed

lemma json_equal_at_path: "json_equal v w \<Longrightarrow> json_equal (at_path p v) (at_path p w)"
  by (induction p arbitrary: v w) (simp_all add: json_equal_member)

lemma at_path_append: "at_path (p @ q) v = at_path q (at_path p v)"
  by (induction p arbitrary: v) simp_all

section \<open>Size\<close>

definition json_size :: "json option \<Rightarrow> nat" where
  "json_size v = (case v of None \<Rightarrow> 0 | Some j \<Rightarrow> size j)"

lemma member_size [simp]: "json_size (map_of kvs k) < size (JObject kvs)"
proof (cases "map_of kvs k")
  case (Some v)
  then have "(k, v) \<in> set kvs" by (rule map_of_SomeD)
  then have "size_prod (\<lambda>_. 0) size (k, v) \<le> size_list (size_prod (\<lambda>_. 0) size) kvs"
    by (rule size_list_estimation') simp
  then show ?thesis using Some by (simp add: json_size_def)
qed (simp add: json_size_def)

end
