(* ===== verification/SchemaMerge.thy ===== *)
theory SchemaMerge
  imports JsonValue
begin

text \<open>
  Three-way merge of the schemas of an OpenAPI document (\<open>schema_merge.py\<close>): the recursive merge of
  JSON values, the merge of \<open>components.schemas\<close> and the test whether its result can be put
  together from whole schemas of the two tips. \<open>Inl\<close> carries the paths of the conflicts. The
  reference reading is \<open>at_path\<close>: what each of the documents has at a list of keys.
\<close>

section \<open>Merge\<close>

definition all_keys :: "(string \<times> 'a) list \<Rightarrow> (string \<times> 'a) list \<Rightarrow> (string \<times> 'a) list \<Rightarrow> string list" where
  "all_keys b o1 t = sort (remdups (map fst b @ map fst o1 @ map fst t))"

definition subpath :: "string \<Rightarrow> string \<Rightarrow> string" where
  "subpath path k = (if path \<noteq> [] then path @ ''.'' @ k else k)"

function (sequential) merge_json_three_way ::
    "json option \<Rightarrow> json option \<Rightarrow> json option \<Rightarrow> string \<Rightarrow> string list + json option"
  and merge_members ::
    "(string \<times> json) list \<Rightarrow> (string \<times> json) list \<Rightarrow> (string \<times> json) list \<Rightarrow> string \<Rightarrow> string list
       \<Rightarrow> string list + (string \<times> json) list" where
  "merge_json_three_way b ours theirs path =
     (if json_equal ours theirs then Inr ours
      else if json_equal ours b then Inr theirs
      else if json_equal theirs b then Inr ours
      else (case (b, ours, theirs) of
          (Some (JObject bs), Some (JObject os), Some (JObject ts)) \<Rightarrow>
            (case merge_members bs os ts path (all_keys bs os ts) of
               Inl conflicts \<Rightarrow> Inl conflicts
             | Inr out \<Rightarrow> Inr (Some (JObject out)))
        | _ \<Rightarrow> Inl [if path \<noteq> [] then path else ''<root>'']))"
| "merge_members bs os ts path [] = Inr []"
| "merge_members bs os ts path (k # ks) =
     (case merge_json_three_way (map_of bs k) (map_of os k) (map_of ts k) (subpath path k) of
        Inl conflicts \<Rightarrow> Inl conflicts
      | Inr merged \<Rightarrow>
          (case merge_members bs os ts path ks of
             Inl conflicts \<Rightarrow> Inl conflicts
           | Inr out \<Rightarrow> Inr (case merged of None \<Rightarrow> out | Some v \<Rightarrow> (k, v) # out)))"
  by pat_completeness auto
termination
proof (relation "measures [\<lambda>x. case x of Inl (_, ours, _, _) \<Rightarrow> 2 * json_size ours
      | Inr (_, os, _, _, _) \<Rightarrow> 2 * size (JObject os) - 1,
     \<lambda>x. case x of Inl _ \<Rightarrow> 0 | Inr (_, _, _, _, ks) \<Rightarrow> length ks]", goal_cases)
  case (3 bs os ts path k ks)
  then show ?case using member_size[of os k] by simp
qed (auto simp: json_size_def)

definition merge_components_schemas_three_way ::
  "(string \<times> json) list option \<Rightarrow> (string \<times> json) list option \<Rightarrow> (string \<times> json) list option
     \<Rightarrow> string list + (string \<times> json) list" where
  "merge_components_schemas_three_way base ours theirs =
     (let b = (case base of None \<Rightarrow> [] | Some d \<Rightarrow> d);
          o1 = (case ours of None \<Rightarrow> [] | Some d \<Rightarrow> d);
          t = (case theirs of None \<Rightarrow> [] | Some d \<Rightarrow> d);
          results = map (\<lambda>name. (name, merge_json_three_way (map_of b name) (map_of o1 name) (map_of t name)
                                         (''schemas.'' @ name))) (all_keys b o1 t);
          conflicts = concat (map (\<lambda>(name, r). case r of Inl cs \<Rightarrow> cs | Inr _ \<Rightarrow> []) results)
      in if conflicts \<noteq> [] then Inl (sort (remdups conflicts))
         else Inr (List.map_filter (\<lambda>(name, r). case r of Inr (Some v) \<Rightarrow> Some (name, v) | _ \<Rightarrow> None) results))"

definition schema_merge_materializable_paths ::
  "(string \<times> json) list \<Rightarrow> (string \<times> json) list \<Rightarrow> (string \<times> json) list \<Rightarrow> bool \<times> string list" where
  "schema_merge_materializable_paths merged ours theirs =
     (let bad = map (\<lambda>name. ''schemas.'' @ name)
            (filter (\<lambda>name.
                 (map_of merged name \<noteq> None \<or> map_of ours name \<noteq> None \<or> map_of theirs name \<noteq> None)
               \<and> \<not> (json_equal (map_of merged name) (map_of ours name) \<or> json_equal (map_of merged name) (map_of theirs name)))
             (all_keys merged ours theirs))
      in (bad = [], bad))"

declare merge_json_three_way.simps [simp del]

section \<open>Edits\<close>

text \<open>What one side did at a path: \<open>ours\<close> and \<open>theirs\<close> and \<open>b\<close> all differ there, and they are not
  three objects that can be merged member by member.\<close>

definition conflict_at :: "json option \<Rightarrow> json option \<Rightarrow> json option \<Rightarrow> string list \<Rightarrow> bool" where
  "conflict_at b ours theirs p \<longleftrightarrow>
     \<not> json_equal (at_path p ours) (at_path p theirs) \<and> \<not> json_equal (at_path p ours) (at_path p b)
     \<and> \<not> json_equal (at_path p theirs) (at_path p b)
     \<and> \<not> (is_object (at_path p b) \<and> is_object (at_path p ours) \<and> is_object (at_path p theirs))"

text \<open>The result at a path: what only one side changed since the base is as that side has it, what
  both changed alike is as they have it, and a value is that of one of the sides, or an object where
  all three have one.\<close>

definition edits_taken :: "json option \<Rightarrow> json option \<Rightarrow> json option \<Rightarrow> json option \<Rightarrow> bool" where
  "edits_taken b ours theirs merged \<longleftrightarrow>
     (json_equal ours b \<longrightarrow> json_equal merged theirs) \<and> (json_equal theirs b \<longrightarrow> json_equal merged ours)
     \<and> (json_equal ours theirs \<longrightarrow> json_equal merged ours)
     \<and> (json_equal merged ours \<or> json_equal merged theirs
        \<or> is_object merged \<and> is_object b \<and> is_object ours \<and> is_object theirs)"

definition path_text :: "string \<Rightarrow> string list \<Rightarrow> string" where
  "path_text path p = (let s = fold (\<lambda>k acc. subpath acc k) p path in if s \<noteq> [] then s else ''<root>'')"

lemma set_all_keys: "set (all_keys b o1 t) = set (map fst b) \<union> set (map fst o1) \<union> set (map fst t)"
  by (simp add: all_keys_def Un_assoc)

lemma distinct_all_keys [simp]: "distinct (all_keys b o1 t)"
  by (simp add: all_keys_def)

lemma all_keys_swap: "all_keys b o1 t = all_keys b t o1"
  unfolding all_keys_def by (rule sorted_distinct_set_unique) auto

lemma not_in_all_keys:
  assumes "k \<notin> set (all_keys b o1 t)"
  shows "map_of b k = None \<and> map_of o1 k = None \<and> map_of t k = None"
  using assms unfolding set_all_keys by (simp add: map_of_eq_None_iff)

text \<open>The members of a merged object.\<close>

lemma merge_members_fst: "merge_members bs os ts path ks = Inr out \<Longrightarrow> set (map fst out) \<subseteq> set ks"
  by (induction ks arbitrary: out) (fastforce split: sum.splits option.splits)+

lemma merge_members_member:
  assumes "merge_members bs os ts path ks = Inr out" and "distinct ks" and "k \<in> set ks"
  shows "merge_json_three_way (map_of bs k) (map_of os k) (map_of ts k) (subpath path k) = Inr (map_of out k)"
  using assms
proof (induction ks arbitrary: out)
  case (Cons j js)
  from Cons.prems(1) obtain m rest where
    m: "merge_json_three_way (map_of bs j) (map_of os j) (map_of ts j) (subpath path j) = Inr m"
    and rest: "merge_members bs os ts path js = Inr rest"
    and out: "out = (case m of None \<Rightarrow> rest | Some v \<Rightarrow> (j, v) # rest)"
    by (auto split: sum.splits)
  have "j \<notin> set (map fst rest)" using merge_members_fst[OF rest] Cons.prems(2) by auto
  then have "map_of rest j = None" by (simp add: map_of_eq_None_iff)
  then show ?case
    using Cons.IH[OF rest] Cons.prems m by (auto simp: out split: option.splits)
qed simp

lemma merge_members_conflict:
  assumes "merge_members bs os ts path ks = Inl cs"
  shows "\<exists>k \<in> set ks. merge_json_three_way (map_of bs k) (map_of os k) (map_of ts k) (subpath path k) = Inl cs"
  using assms by (induction ks) (auto split: sum.splits option.splits)

text \<open>The cases of a merge.\<close>

lemma merge_cases:
  obtains (same) "json_equal ours theirs" "merge_json_three_way b ours theirs path = Inr ours"
  | (ours_kept) "\<not> json_equal ours theirs" "json_equal ours b" "merge_json_three_way b ours theirs path = Inr theirs"
  | (theirs_kept) "\<not> json_equal ours theirs" "json_equal theirs b" "merge_json_three_way b ours theirs path = Inr ours"
  | (conflict) "conflict_at b ours theirs []" "merge_json_three_way b ours theirs path = Inl [if path \<noteq> [] then path else ''<root>'']"
  | (objects) bs os ts where "\<not> json_equal ours theirs" "\<not> json_equal ours b" "\<not> json_equal theirs b"
      "b = Some (JObject bs)" "ours = Some (JObject os)" "theirs = Some (JObject ts)"
      "merge_json_three_way b ours theirs path = (case merge_members bs os ts path (all_keys bs os ts) of
         Inl cs \<Rightarrow> Inl cs | Inr out \<Rightarrow> Inr (Some (JObject out)))"
proof -
  consider "json_equal ours theirs" | "\<not> json_equal ours theirs" "json_equal ours b"
    | "\<not> json_equal ours theirs" "json_equal theirs b" "\<not> json_equal ours b"
    | "\<not> json_equal ours theirs" "\<not> json_equal ours b" "\<not> json_equal theirs b" by blast
  then show thesis
  proof cases
    case 4
    show thesis
    proof (cases "is_object b \<and> is_object ours \<and> is_object theirs")
      case True
      then show thesis using 4 objects by (auto simp: is_object_def merge_json_three_way.simps)
    next
      case False
      then have "merge_json_three_way b ours theirs path = Inl [if path \<noteq> [] then path else ''<root>'']"
        using 4 by (auto simp: merge_json_three_way.simps is_object_def split: option.splits json.splits)
      then show thesis using 4 False conflict by (simp add: conflict_at_def)
    qed
  qed (use same ours_kept theirs_kept in \<open>simp_all add: merge_json_three_way.simps\<close>)
qed

lemma merge_at_path:
  assumes "merge_json_three_way b ours theirs path = Inr merged"
  shows "edits_taken (at_path p b) (at_path p ours) (at_path p theirs) (at_path p merged)"
  using assms
proof (induction p arbitrary: b ours theirs path merged)
  case Nil
  show ?case
    by (rule merge_cases[of ours theirs b path])
      (use Nil in \<open>auto simp: edits_taken_def json_equal_def is_object_def split: sum.splits\<close>)
next
  case (Cons k p)
  note whole = json_equal_at_path[of ours theirs "k # p"] json_equal_at_path[of ours b "k # p"] json_equal_at_path[of theirs b "k # p"]
  show ?case
  proof (rule merge_cases[of ours theirs b path])
    fix bs os ts
    assume docs: "b = Some (JObject bs)" "ours = Some (JObject os)" "theirs = Some (JObject ts)"
      and merge: "merge_json_three_way b ours theirs path = (case merge_members bs os ts path (all_keys bs os ts) of
         Inl cs \<Rightarrow> Inl cs | Inr out \<Rightarrow> Inr (Some (JObject out)))"
    obtain out where out: "merge_members bs os ts path (all_keys bs os ts) = Inr out" "merged = Some (JObject out)"
      using merge Cons.prems by (auto split: sum.splits)
    show ?thesis
    proof (cases "k \<in> set (all_keys bs os ts)")
      case True
      show ?thesis
        using Cons.IH[OF merge_members_member[OF out(1) distinct_all_keys True]] by (simp add: docs out(2))
    next
      case False
      then have "map_of out k = None"
        using merge_members_fst[OF out(1)] by (auto simp: map_of_eq_None_iff)
      then show ?thesis using not_in_all_keys[OF False] by (simp add: docs out(2) edits_taken_def)
    qed
  qed (use Cons.prems whole in \<open>simp_all add: edits_taken_def json_equal_def\<close>)
qed

lemma merge_conflict_found:
  "merge_json_three_way b ours theirs path = Inl cs \<Longrightarrow> \<exists>p. conflict_at b ours theirs p \<and> cs = [path_text path p]"
proof (induction "json_size ours" arbitrary: b ours theirs path rule: less_induct)
  case less
  show ?case
  proof (rule merge_cases[of ours theirs b path])
    assume "conflict_at b ours theirs []" "merge_json_three_way b ours theirs path = Inl [if path \<noteq> [] then path else ''<root>'']"
    then show ?thesis using less.prems by (intro exI[of _ "[]"]) (simp add: path_text_def)
  next
    fix bs os ts
    assume docs: "b = Some (JObject bs)" "ours = Some (JObject os)" "theirs = Some (JObject ts)"
      and merge: "merge_json_three_way b ours theirs path = (case merge_members bs os ts path (all_keys bs os ts) of
         Inl cs \<Rightarrow> Inl cs | Inr out \<Rightarrow> Inr (Some (JObject out)))"
    obtain k where "merge_json_three_way (map_of bs k) (map_of os k) (map_of ts k) (subpath path k) = Inl cs"
      using merge less.prems merge_members_conflict[of bs os ts path] by (auto split: sum.splits)
    moreover have "json_size (map_of os k) < json_size ours" using member_size[of os k] by (simp add: docs json_size_def)
    ultimately obtain p where "conflict_at (map_of bs k) (map_of os k) (map_of ts k) p" "cs = [path_text (subpath path k) p]"
      using less.hyps by blast
    then show ?thesis by (intro exI[of _ "k # p"]) (simp add: conflict_at_def docs path_text_def)
  qed (use less.prems in simp_all)
qed

lemma merge_without_conflict:
  "merge_json_three_way b ours theirs path = Inr merged \<Longrightarrow> \<not> conflict_at b ours theirs p"
proof (induction p arbitrary: b ours theirs path merged)
  case Nil
  show ?case
    by (rule merge_cases[of ours theirs b path]) (use Nil in \<open>auto simp: conflict_at_def is_object_def\<close>)
next
  case (Cons k p)
  note whole = json_equal_at_path[of ours theirs "k # p"] json_equal_at_path[of ours b "k # p"] json_equal_at_path[of theirs b "k # p"]
  show ?case
  proof (rule merge_cases[of ours theirs b path])
    fix bs os ts
    assume docs: "b = Some (JObject bs)" "ours = Some (JObject os)" "theirs = Some (JObject ts)"
      and merge: "merge_json_three_way b ours theirs path = (case merge_members bs os ts path (all_keys bs os ts) of
         Inl cs \<Rightarrow> Inl cs | Inr out \<Rightarrow> Inr (Some (JObject out)))"
    obtain out where out: "merge_members bs os ts path (all_keys bs os ts) = Inr out"
      using merge Cons.prems by (auto split: sum.splits)
    show ?thesis
    proof (cases "k \<in> set (all_keys bs os ts)")
      case True
      show ?thesis
        using Cons.IH[OF merge_members_member[OF out distinct_all_keys True]] by (simp add: docs conflict_at_def)
    next
      case False
      then show ?thesis using not_in_all_keys[OF False] by (simp add: docs conflict_at_def)
    qed
  qed (use Cons.prems whole in \<open>auto simp only: conflict_at_def sum.distinct\<close>)
qed

section \<open>Symmetry\<close>

abbreviation stable_members :: "(string \<times> json) list \<Rightarrow> (string \<times> json) list" where
  "stable_members \<equiv> map (\<lambda>(k, v). (k, stable_json v))"

lemma merge_swap:
  "case merge_json_three_way b ours theirs path of
     Inl cs \<Rightarrow> merge_json_three_way b theirs ours path = Inl cs
   | Inr m \<Rightarrow> \<exists>m'. merge_json_three_way b theirs ours path = Inr m' \<and> json_equal m m'"
  "case merge_members bs os ts path ks of
     Inl cs \<Rightarrow> merge_members bs ts os path ks = Inl cs
   | Inr out \<Rightarrow> \<exists>out'. merge_members bs ts os path ks = Inr out' \<and> stable_members out = stable_members out'"
proof (induction b ours theirs path and bs os ts path ks rule: merge_json_three_way_merge_members.induct)
  case (1 b ours theirs path)
  show ?case
  proof (rule merge_cases[of ours theirs b path])
    fix bs os ts
    assume neq: "\<not> json_equal ours theirs" "\<not> json_equal ours b" "\<not> json_equal theirs b"
      and docs: "b = Some (JObject bs)" "ours = Some (JObject os)" "theirs = Some (JObject ts)"
      and merge: "merge_json_three_way b ours theirs path = (case merge_members bs os ts path (all_keys bs os ts) of
         Inl cs \<Rightarrow> Inl cs | Inr out \<Rightarrow> Inr (Some (JObject out)))"
    have swapped: "merge_json_three_way b theirs ours path = (case merge_members bs ts os path (all_keys bs os ts) of
         Inl cs \<Rightarrow> Inl cs | Inr out \<Rightarrow> Inr (Some (JObject out)))"
      using neq by (simp add: docs merge_json_three_way.simps json_equal_sym[of "Some (JObject ts)"] all_keys_swap[of bs ts])
    show ?thesis
      using "1.IH"[OF neq refl docs(1) refl refl docs(2) refl docs(3) refl] unfolding docs
      by (auto simp: merge[unfolded docs] swapped[unfolded docs] json_equal_def split: sum.splits)
  next
    assume c: "conflict_at b ours theirs []" "merge_json_three_way b ours theirs path = Inl [if path \<noteq> [] then path else ''<root>'']"
    then have "merge_json_three_way b theirs ours path = Inl [if path \<noteq> [] then path else ''<root>'']"
      by (auto simp: merge_json_three_way.simps conflict_at_def is_object_def json_equal_sym split: option.splits json.splits)
    then show ?thesis using c by simp
  qed (auto simp: merge_json_three_way.simps json_equal_def)
next
  case (3 bs os ts path k ks)
  then show ?case by (fastforce simp: json_equal_def split: sum.splits option.splits)
qed simp_all

section \<open>The schemas of a document\<close>

definition schemas_of :: "(string \<times> json) list option \<Rightarrow> (string \<times> json) list" where
  "schemas_of d = (case d of None \<Rightarrow> [] | Some kvs \<Rightarrow> kvs)"

abbreviation schema_at :: "(string \<times> json) list option \<Rightarrow> string list \<Rightarrow> json option" where
  "schema_at d p \<equiv> at_path p (Some (JObject (schemas_of d)))"

definition merge_schema ::
  "(string \<times> json) list option \<Rightarrow> (string \<times> json) list option \<Rightarrow> (string \<times> json) list option \<Rightarrow> string
     \<Rightarrow> string list + json option" where
  "merge_schema base ours theirs name = merge_json_three_way (map_of (schemas_of base) name) (map_of (schemas_of ours) name)
     (map_of (schemas_of theirs) name) (''schemas.'' @ name)"

definition schema_conflicts ::
  "(string \<times> json) list option \<Rightarrow> (string \<times> json) list option \<Rightarrow> (string \<times> json) list option \<Rightarrow> string \<Rightarrow> string list" where
  "schema_conflicts base ours theirs name = (case merge_schema base ours theirs name of Inl cs \<Rightarrow> cs | Inr _ \<Rightarrow> [])"

abbreviation schema_names ::
  "(string \<times> json) list option \<Rightarrow> (string \<times> json) list option \<Rightarrow> (string \<times> json) list option \<Rightarrow> string list" where
  "schema_names base ours theirs \<equiv> all_keys (schemas_of base) (schemas_of ours) (schemas_of theirs)"

lemma absent_everywhere: "name \<notin> set (schema_names base ours theirs) \<Longrightarrow> merge_schema base ours theirs name = Inr None"
  by (drule not_in_all_keys) (simp add: merge_schema_def merge_json_three_way.simps)

lemma no_schema_conflicts: "schema_conflicts base ours theirs name = [] \<longleftrightarrow> (\<exists>m. merge_schema base ours theirs name = Inr m)"
  using merge_conflict_found by (fastforce simp: schema_conflicts_def merge_schema_def split: sum.splits)

lemma map_filter_map: "List.map_filter f (map g xs) = List.map_filter (\<lambda>x. f (g x)) xs"
  by (simp add: map_filter_def filter_map comp_def)

lemma merge_components_cases:
  "merge_components_schemas_three_way base ours theirs =
    (let conflicts = concat (map (schema_conflicts base ours theirs) (schema_names base ours theirs))
     in if conflicts \<noteq> [] then Inl (sort (remdups conflicts))
        else Inr (List.map_filter (\<lambda>name. case merge_schema base ours theirs name of Inr (Some v) \<Rightarrow> Some (name, v) | _ \<Rightarrow> None)
            (schema_names base ours theirs)))"
  unfolding merge_components_schemas_three_way_def Let_def schemas_of_def[symmetric] schema_conflicts_def[abs_def] merge_schema_def
  by (simp add: map_filter_map comp_def)

lemma map_of_map_filter:
  assumes "distinct ks" and "\<And>k kv. f k = Some kv \<Longrightarrow> fst kv = k"
  shows "map_of (List.map_filter f ks) k = (if k \<in> set ks then map_option snd (f k) else None)"
  using assms(1)
proof (induction ks)
  case (Cons j js)
  show ?case
  proof (cases "f j")
    case (Some kv)
    then show ?thesis using Cons assms(2)[OF Some] by (cases kv) (auto simp: map_filter_simps)
  qed (use Cons in \<open>auto simp: map_filter_simps\<close>)
qed (simp add: map_filter_simps)

lemma merge_components_ok:
  "(\<exists>merged. merge_components_schemas_three_way base ours theirs = Inr merged) \<longleftrightarrow>
     (\<forall>name. \<exists>m. merge_schema base ours theirs name = Inr m)"
  using absent_everywhere[of _ base ours theirs]
  by (auto simp: merge_components_cases Let_def no_schema_conflicts split: if_splits)

lemma merge_components_Inr:
  assumes "merge_components_schemas_three_way base ours theirs = Inr merged"
  shows "merge_schema base ours theirs name = Inr (map_of merged name)"
proof -
  let ?keys = "schema_names base ours theirs"
  obtain m where m: "merge_schema base ours theirs name = Inr m" using assms merge_components_ok by blast
  have merged: "merged = List.map_filter (\<lambda>name. case merge_schema base ours theirs name of Inr (Some v) \<Rightarrow> Some (name, v) | _ \<Rightarrow> None) ?keys"
    using assms by (auto simp: merge_components_cases Let_def split: if_splits)
  have "map_of merged name = (if name \<in> set ?keys
      then map_option snd (case merge_schema base ours theirs name of Inr (Some v) \<Rightarrow> Some (name, v) | _ \<Rightarrow> None) else None)"
    unfolding merged by (rule map_of_map_filter) (auto split: sum.splits option.splits)
  then show ?thesis using m absent_everywhere[of name base ours theirs] by (auto split: option.splits)
qed

lemma merge_components_Inl:
  assumes "merge_components_schemas_three_way base ours theirs = Inl cs"
  shows "sorted cs" "distinct cs" "set cs = (\<Union>name. set (schema_conflicts base ours theirs name))"
proof -
  let ?keys = "schema_names base ours theirs"
  have cs: "cs = sort (remdups (concat (map (schema_conflicts base ours theirs) ?keys)))"
    using assms by (auto simp: merge_components_cases Let_def split: if_splits)
  then show "sorted cs" "distinct cs" by simp_all
  have absent: "schema_conflicts base ours theirs name = []" if "name \<notin> set ?keys" for name
    using absent_everywhere[OF that] by (simp add: schema_conflicts_def)
  have "set cs = (\<Union>name \<in> set ?keys. set (schema_conflicts base ours theirs name))" unfolding cs by simp
  then show "set cs = (\<Union>name. set (schema_conflicts base ours theirs name))" using absent by fastforce
qed

text \<open>A conflict inside the schema of a name.\<close>

definition schema_conflict ::
  "(string \<times> json) list option \<Rightarrow> (string \<times> json) list option \<Rightarrow> (string \<times> json) list option \<Rightarrow> string \<Rightarrow> string list \<Rightarrow> bool" where
  "schema_conflict base ours theirs name q \<longleftrightarrow>
     conflict_at (map_of (schemas_of base) name) (map_of (schemas_of ours) name) (map_of (schemas_of theirs) name) q"

lemma conflict_at_member:
  "conflict_at (Some (JObject bs)) (Some (JObject os)) (Some (JObject ts)) (k # p)
     \<longleftrightarrow> conflict_at (map_of bs k) (map_of os k) (map_of ts k) p"
  by (simp add: conflict_at_def)

lemma all_nonempty: "(\<forall>p. p \<noteq> [] \<longrightarrow> P p) \<longleftrightarrow> (\<forall>k p. P (k # p))"
  by (metis list.distinct(1) list.exhaust)

section \<open>Properties\<close>

text \<open>C31: The merge takes every edit of both sides and invents nothing. At every path below
  \<open>components.schemas\<close>, what only one side changed since the base is as that side has it, what both
  changed alike is as they have it, and every value of the result is that of one of the sides, or an
  object that all three documents have as an object there. Keys may be listed in another order.\<close>

theorem merge_takes_every_edit:
  assumes "merge_components_schemas_three_way base ours theirs = Inr merged" and "p \<noteq> []"
  shows "edits_taken (schema_at base p) (schema_at ours p) (schema_at theirs p) (schema_at (Some merged) p)"
proof -
  obtain name q where p: "p = name # q" using assms(2) by (cases p) auto
  have "schemas_of (Some merged) = merged" by (simp add: schemas_of_def)
  then show ?thesis
    using merge_at_path[OF merge_components_Inr[OF assms(1), of name, unfolded merge_schema_def], of q] by (simp add: p)
qed

text \<open>One side retypes a schema, the other describes it.\<close>

definition demo_base :: "(string \<times> json) list" where
  "demo_base = [(''A'', JObject [(''type'', JString ''object''), (''title'', JString ''a'')])]"

definition demo_ours :: "(string \<times> json) list" where
  "demo_ours = [(''A'', JObject [(''type'', JString ''string''), (''title'', JString ''a'')])]"

definition demo_theirs :: "(string \<times> json) list" where
  "demo_theirs = [(''A'', JObject [(''type'', JString ''object''), (''title'', JString ''b'')])]"

lemma demo_merge:
  "merge_components_schemas_three_way (Some demo_base) (Some demo_ours) (Some demo_theirs)
     = Inr [(''A'', JObject [(''title'', JString ''b''), (''type'', JString ''string'')])]"
  by code_simp

lemma merge_takes_every_edit_witness:
  "edits_taken (Some (JString ''a'')) (Some (JString ''a'')) (Some (JString ''b'')) (Some (JString ''b''))"
  using merge_takes_every_edit[OF demo_merge, of "[''A'', ''title'']"]
  by (simp add: schemas_of_def demo_base_def demo_ours_def demo_theirs_def)

text \<open>C32: Exactly the real conflicts are reported. A merge succeeds just when at no path the two
  sides and the base all differ without being three objects. Otherwise the report is sorted without
  duplicates, each entry is the dotted text of such a path, and every schema with such a path is
  reported.\<close>

theorem merge_reports_real_conflicts:
  "((\<exists>merged. merge_components_schemas_three_way base ours theirs = Inr merged) \<longleftrightarrow>
      (\<forall>p. p \<noteq> [] \<longrightarrow> \<not> conflict_at (Some (JObject (schemas_of base))) (Some (JObject (schemas_of ours)))
                             (Some (JObject (schemas_of theirs))) p))
    \<and> (\<forall>cs. merge_components_schemas_three_way base ours theirs = Inl cs \<longrightarrow> sorted cs \<and> distinct cs
        \<and> (\<forall>c \<in> set cs. \<exists>name q. c = path_text (''schemas.'' @ name) q \<and> schema_conflict base ours theirs name q)
        \<and> (\<forall>name q. schema_conflict base ours theirs name q \<longrightarrow>
             (\<exists>q'. schema_conflict base ours theirs name q' \<and> path_text (''schemas.'' @ name) q' \<in> set cs)))"
proof -
  let ?c = "schema_conflict base ours theirs"
  have ok: "(\<exists>m. merge_schema base ours theirs name = Inr m) \<longleftrightarrow> (\<forall>q. \<not> ?c name q)" for name
    unfolding merge_schema_def schema_conflict_def by (metis merge_conflict_found merge_without_conflict sum.exhaust)
  have one: "\<exists>q. ?c name q \<and> schema_conflicts base ours theirs name = [path_text (''schemas.'' @ name) q]"
    if "schema_conflicts base ours theirs name \<noteq> []" for name
    using that merge_conflict_found
    by (auto simp: schema_conflicts_def merge_schema_def schema_conflict_def split: sum.splits)
  have some: "schema_conflicts base ours theirs name \<noteq> []" if "?c name q" for name q
    using that ok[of name] by (metis no_schema_conflicts)
  have every: "(\<forall>p. p \<noteq> [] \<longrightarrow> \<not> conflict_at (Some (JObject (schemas_of base))) (Some (JObject (schemas_of ours)))
      (Some (JObject (schemas_of theirs))) p) \<longleftrightarrow> (\<forall>name q. \<not> ?c name q)"
    by (simp add: all_nonempty conflict_at_member schema_conflict_def)
  have "sorted cs \<and> distinct cs \<and> (\<forall>c \<in> set cs. \<exists>name q. c = path_text (''schemas.'' @ name) q \<and> ?c name q)
      \<and> (\<forall>name q. ?c name q \<longrightarrow> (\<exists>q'. ?c name q' \<and> path_text (''schemas.'' @ name) q' \<in> set cs))"
    if "merge_components_schemas_three_way base ours theirs = Inl cs" for cs
  proof (intro conjI allI impI ballI)
    note cs = merge_components_Inl[OF that]
    show "sorted cs" "distinct cs" using cs by simp_all
    show "\<exists>name q. c = path_text (''schemas.'' @ name) q \<and> ?c name q" if c: "c \<in> set cs" for c
    proof -
      obtain name where name: "c \<in> set (schema_conflicts base ours theirs name)" using c unfolding cs(3) by blast
      then have "schema_conflicts base ours theirs name \<noteq> []" by auto
      then obtain q where "?c name q" "schema_conflicts base ours theirs name = [path_text (''schemas.'' @ name) q]"
        using one by blast
      then show ?thesis using name by (intro exI[of _ name] exI[of _ q]) simp
    qed
    show "\<exists>q'. ?c name q' \<and> path_text (''schemas.'' @ name) q' \<in> set cs" if q: "?c name q" for name q
    proof -
      obtain q' where "?c name q'" "schema_conflicts base ours theirs name = [path_text (''schemas.'' @ name) q']"
        using one[OF some[OF q]] by blast
      then show ?thesis unfolding cs(3) by (intro exI[of _ q'] conjI UN_I[of name]) simp_all
    qed
  qed
  then show ?thesis
    unfolding merge_components_ok ok every by blast
qed

text \<open>The merge does not depend on which branch is merged into which: the other way round it
  reports the same conflicts or gives the same document, keys apart from their order.\<close>

theorem merge_is_symmetric:
  "case merge_components_schemas_three_way base ours theirs of
     Inl cs \<Rightarrow> merge_components_schemas_three_way base theirs ours = Inl cs
   | Inr merged \<Rightarrow> \<exists>swapped. merge_components_schemas_three_way base theirs ours = Inr swapped
       \<and> (\<forall>name. json_equal (map_of merged name) (map_of swapped name))"
proof -
  have swap: "case merge_schema base ours theirs name of Inl cs \<Rightarrow> merge_schema base theirs ours name = Inl cs
      | Inr m \<Rightarrow> \<exists>m'. merge_schema base theirs ours name = Inr m' \<and> json_equal m m'" for name
    unfolding merge_schema_def by (rule merge_swap(1))
  have "schema_conflicts base ours theirs name = schema_conflicts base theirs ours name" for name
    using swap[of name] by (auto simp: schema_conflicts_def split: sum.splits)
  then have conflicts: "schema_conflicts base ours theirs = schema_conflicts base theirs ours" by blast
  show ?thesis
  proof (cases "merge_components_schemas_three_way base ours theirs")
    case (Inl cs)
    then show ?thesis
      using conflicts by (simp add: merge_components_cases Let_def all_keys_swap[of "schemas_of base" "schemas_of theirs"] split: if_splits)
  next
    case (Inr merged)
    then obtain swapped where s: "merge_components_schemas_three_way base theirs ours = Inr swapped"
      using conflicts by (metis merge_components_ok no_schema_conflicts)
    have "json_equal (map_of merged name) (map_of swapped name)" for name
      using swap[of name] by (simp add: merge_components_Inr[OF Inr] merge_components_Inr[OF s])
    then show ?thesis using Inr s by simp
  qed
qed

lemma merge_reports_real_conflicts_witness:
  "\<exists>name q. ''schemas.A.type'' = path_text (''schemas.'' @ name) q
     \<and> schema_conflict (Some demo_base) (Some demo_ours) (Some [(''A'', JObject [(''type'', JString ''array'')])]) name q"
proof -
  have "merge_components_schemas_three_way (Some demo_base) (Some demo_ours)
      (Some [(''A'', JObject [(''type'', JString ''array'')])]) = Inl [''schemas.A.type'']"
    by code_simp
  then show ?thesis using merge_reports_real_conflicts[THEN conjunct2] by fastforce
qed

lemma merge_is_symmetric_witness:
  "\<exists>swapped. merge_components_schemas_three_way (Some demo_base) (Some demo_theirs) (Some demo_ours) = Inr swapped
     \<and> json_equal (Some (JObject [(''title'', JString ''b''), (''type'', JString ''string'')])) (map_of swapped ''A'')"
  using merge_is_symmetric[of "Some demo_base" "Some demo_theirs" "Some demo_ours"] unfolding demo_merge
  by (auto dest: spec[where x = "''A''"])

end
