(* ===== verification/Semver.thy ===== *)
theory Semver
  imports Cadence
begin

text \<open>
  Version labels: decimal numbers as Python prints and reads them, the strict \<open>MAJOR.MINOR.PATCH\<close> of
  the version routes with its patch bump (\<open>version_merge_routes.py\<close>), and the tolerant semantic
  versions of \<open>semver_version.py\<close>. The regular expressions match deterministically, so they are read
  from left to right.
\<close>

section \<open>Decimal numbers\<close>

definition is_digit :: "char \<Rightarrow> bool" where
  "is_digit c \<longleftrightarrow> digit_val c \<noteq> None"

definition digits_val :: "string \<Rightarrow> int" where
  "digits_val s = foldl (\<lambda>acc c. 10 * acc + the (digit_val c)) 0 s"

fun decimal :: "nat \<Rightarrow> string" where
  "decimal n = (if n < 10 then [] else decimal (n div 10)) @ [char_of (48 + int (n mod 10))]"

declare decimal.simps [simp del]

section \<open>Strict versions\<close>

definition read_number :: "string \<Rightarrow> (string \<times> string) option" where
  "read_number s = (let ds = takeWhile is_digit s in if ds = [] then None else Some (ds, dropWhile is_digit s))"

definition read_triple :: "string \<Rightarrow> ((string \<times> string \<times> string) \<times> string) option" where
  "read_triple s =
     Option.bind (read_number s) (\<lambda>(major, s). Option.bind (expect_char CHR ''.'' s) (\<lambda>s.
     Option.bind (read_number s) (\<lambda>(minor, s). Option.bind (expect_char CHR ''.'' s) (\<lambda>s.
     Option.bind (read_number s) (\<lambda>(patch, s). Some ((major, minor, patch), s))))))"

text \<open>The pattern's \<open>$\<close> also matches before a final line feed.\<close>

definition parse_semantic_version :: "string \<Rightarrow> (int \<times> int \<times> int) option" where
  "parse_semantic_version version =
     (case read_triple version of
        Some ((major, minor, patch), rest) \<Rightarrow>
          if rest = [] \<or> rest = [CHR 0x0A] then Some (digits_val major, digits_val minor, digits_val patch) else None
      | None \<Rightarrow> None)"

definition dotted :: "int \<Rightarrow> int \<Rightarrow> int \<Rightarrow> string" where
  "dotted major minor patch = decimal (nat major) @ ''.'' @ decimal (nat minor) @ ''.'' @ decimal (nat patch)"

definition bump_patch_version :: "string \<Rightarrow> string" where
  "bump_patch_version version =
     (case parse_semantic_version version of
        Some (major, minor, patch) \<Rightarrow> dotted major minor (patch + 1)
      | None \<Rightarrow> ''0.1.0'')"

section \<open>Tolerant versions\<close>

definition identifier_char :: "char \<Rightarrow> bool" where
  "identifier_char c \<longleftrightarrow> alnum c \<or> c = CHR ''-''"

fun split_dots :: "string \<Rightarrow> string list" where
  "split_dots [] = [[]]"
| "split_dots (c # s) =
     (if c = CHR ''.'' then [] # split_dots s
      else (case split_dots s of [] \<Rightarrow> [[c]] | w # ws \<Rightarrow> (c # w) # ws))"

definition identifiers :: "string \<Rightarrow> string list option" where
  "identifiers s =
     (let ids = split_dots s in if list_all (\<lambda>w. w \<noteq> [] \<and> list_all identifier_char w) ids then Some ids else None)"

definition before_plus :: "string \<Rightarrow> string" where
  "before_plus s = takeWhile (\<lambda>c. c \<noteq> CHR ''+'') s"

definition build_ok :: "string \<Rightarrow> bool" where
  "build_ok s \<longleftrightarrow> s = [] \<or> hd s = CHR ''+'' \<and> identifiers (tl s) \<noteq> None"

definition core_number :: "string \<Rightarrow> bool" where
  "core_number ds \<longleftrightarrow> ds = ''0'' \<or> hd ds \<noteq> CHR ''0''"

definition parse_semver :: "string \<Rightarrow> (int \<times> int \<times> int \<times> string list) option" where
  "parse_semver label =
     (case read_triple (dropWhile (\<lambda>c. c \<in> set ''vV'') (strip label)) of
        Some ((major, minor, patch), rest) \<Rightarrow>
          if \<not> (core_number major \<and> core_number minor \<and> core_number patch) then None
          else (let numbers = (\<lambda>pre. (digits_val major, digits_val minor, digits_val patch, pre))
            in case expect_char CHR ''-'' rest of
              Some s \<Rightarrow>
                (case identifiers (before_plus s) of
                   Some pre \<Rightarrow> if build_ok (drop (length (before_plus s)) s) then Some (numbers pre) else None
                 | None \<Rightarrow> None)
            | None \<Rightarrow> if build_ok rest then Some (numbers []) else None)
      | None \<Rightarrow> None)"

definition is_major_bump :: "string \<Rightarrow> string \<Rightarrow> bool option" where
  "is_major_bump from_label to_label =
     (case (parse_semver from_label, parse_semver to_label) of
        (Some (from_major, _), Some (to_major, _)) \<Rightarrow> Some (to_major > from_major)
      | _ \<Rightarrow> None)"

definition next_major_label :: "string \<Rightarrow> string option" where
  "next_major_label from_label =
     (case parse_semver from_label of None \<Rightarrow> None | Some (major, _) \<Rightarrow> Some (dotted (major + 1) 0 0))"

section \<open>Printing and reading\<close>

lemma digit_char [simp]: "d < 10 \<Longrightarrow> digit_val (char_of (48 + int d)) = Some (int d)"
  by (simp add: digit_val_def Let_def)

lemma decimal_digits: "list_all is_digit (decimal n) \<and> decimal n \<noteq> []"
proof (induction n rule: decimal.induct)
  case (1 n)
  have "is_digit (char_of (48 + int (n mod 10)))" by (simp add: is_digit_def)
  then show ?case using 1 by (subst (1 2) decimal.simps) (simp split: if_splits)
qed

lemma digits_val_decimal [simp]: "digits_val (decimal n) = int n"
proof (induction n rule: decimal.induct)
  case (1 n)
  have "10 * int (n div 10) + int (n mod 10) = int n" by presburger
  then show ?case using 1 by (subst decimal.simps) (simp add: digits_val_def)
qed

lemma zero_char: "d < 10 \<Longrightarrow> char_of (48 + int d) = CHR ''0'' \<longleftrightarrow> d = 0"
proof -
  have "char_of (48 :: int) = CHR ''0''" using char_of_char[of "CHR ''0''", where ?'a = int] by simp
  moreover have "digit_val CHR ''0'' = Some 0" by (simp add: digit_val_def)
  ultimately show "char_of (48 + int d) = CHR ''0'' \<longleftrightarrow> d = 0" if "d < 10" using digit_char[OF that] by auto
qed

lemma core_number_decimal: "core_number (decimal n)"
proof (induction n rule: decimal.induct)
  case (1 n)
  show ?case
  proof (cases "n < 10")
    case True
    then show ?thesis by (subst decimal.simps) (auto simp: core_number_def zero_char)
  next
    case False
    have "digits_val (decimal (n div 10)) \<noteq> 0" using False by simp
    moreover have "digits_val ''0'' = 0" by (simp add: digits_val_def digit_val_def)
    ultimately have "decimal (n div 10) \<noteq> ''0''" by metis
    then have "hd (decimal (n div 10)) \<noteq> CHR ''0''" using 1 False by (simp add: core_number_def)
    then show ?thesis using False decimal_digits[of "n div 10"] by (subst decimal.simps) (simp add: core_number_def)
  qed
qed

lemma read_number_decimal: "s = [] \<or> \<not> is_digit (hd s) \<Longrightarrow> read_number (decimal n @ s) = Some (decimal n, s)"
proof -
  have "\<And>x. x \<in> set (decimal n) \<Longrightarrow> is_digit x" "decimal n \<noteq> []" using decimal_digits[of n] by (simp_all add: list_all_iff)
  moreover assume "s = [] \<or> \<not> is_digit (hd s)"
  then have "takeWhile is_digit s = []" "dropWhile is_digit s = s" by (cases s; simp)+
  ultimately show ?thesis by (simp add: read_number_def Let_def)
qed

lemma read_triple_dotted:
  "s = [] \<or> \<not> is_digit (hd s) \<Longrightarrow>
     read_triple (dotted a b c @ s) = Some ((decimal (nat a), decimal (nat b), decimal (nat c)), s)"
  by (simp add: read_triple_def dotted_def read_number_decimal is_digit_def digit_val_def)

lemma parse_dotted: "0 \<le> a \<Longrightarrow> 0 \<le> b \<Longrightarrow> 0 \<le> c \<Longrightarrow> parse_semantic_version (dotted a b c) = Some (a, b, c)"
  using read_triple_dotted[of "[]" a b c] by (simp add: parse_semantic_version_def)

lemma digits_val_nonneg: "list_all is_digit s \<Longrightarrow> 0 \<le> digits_val s"
proof (induction s rule: rev_induct)
  case (snoc c s)
  then have "0 \<le> the (digit_val c)" by (auto simp: is_digit_def digit_val_def Let_def split: if_splits)
  then show ?case using snoc by (simp add: digits_val_def)
qed (simp add: digits_val_def)

lemma read_number_digits: "read_number s = Some (ds, rest) \<Longrightarrow> 0 \<le> digits_val ds"
  by (rule digits_val_nonneg) (auto simp: read_number_def Let_def list_all_iff dest: set_takeWhileD split: if_splits)

lemma read_triple_nonneg:
  "read_triple s = Some ((a, b, c), rest) \<Longrightarrow> 0 \<le> digits_val a \<and> 0 \<le> digits_val b \<and> 0 \<le> digits_val c"
  by (auto simp: read_triple_def bind_eq_Some_conv dest: read_number_digits)

lemma parse_semantic_version_nonneg: "parse_semantic_version v = Some (a, b, c) \<Longrightarrow> 0 \<le> a \<and> 0 \<le> b \<and> 0 \<le> c"
  by (auto simp: parse_semantic_version_def split: option.splits if_splits dest: read_triple_nonneg)

lemma parse_semver_nonneg: "parse_semver v = Some (a, b, c, pre) \<Longrightarrow> 0 \<le> a"
  by (auto simp: parse_semver_def Let_def split: option.splits if_splits dest: read_triple_nonneg)

lemma digit_no_space: "is_digit c \<Longrightarrow> \<not> py_space c \<and> c \<notin> set ''vV''"
  using of_nat_of_char[of c, where ?'a = int, symmetric]
  by (auto simp: is_digit_def digit_val_def py_space_def Let_def split: if_splits)

lemma strip_ends: "s \<noteq> [] \<Longrightarrow> \<not> py_space (hd s) \<Longrightarrow> \<not> py_space (last s) \<Longrightarrow> strip s = s"
  using lstrip_id[of s] lstrip_id[of "rev s"] by (simp add: strip_def rstrip_def lstrip_def hd_rev)

lemma dotted_ends: "is_digit (hd (dotted a b c))" "is_digit (last (dotted a b c))" "dotted a b c \<noteq> []"
  using decimal_digits[of "nat a"] decimal_digits[of "nat c"]
  by (cases "decimal (nat a)"; cases "decimal (nat c)" rule: rev_cases; simp add: dotted_def)+

lemma parse_semver_dotted:
  assumes "0 \<le> a" "0 \<le> b" "0 \<le> c"
  shows "parse_semver (dotted a b c) = Some (a, b, c, [])"
proof -
  let ?d = "dotted a b c"
  have "strip ?d = ?d" using strip_ends[of ?d] dotted_ends digit_no_space by metis
  moreover have "dropWhile (\<lambda>c. c \<in> set ''vV'') ?d = ?d"
    using dotted_ends[of a b c] digit_no_space by (cases ?d) auto
  ultimately show ?thesis
    using assms read_triple_dotted[of "[]" a b c]
    by (simp add: parse_semver_def core_number_decimal build_ok_def)
qed

section \<open>Properties\<close>

text \<open>Computed version labels mean what they should: the patch bump of a \<open>MAJOR.MINOR.PATCH\<close> label
  reads back as the same version with the next patch number, and the next major label of a semantic
  version reads back as \<open>MAJOR+1.0.0\<close> without pre-release part and counts as a major bump.\<close>

theorem bumped_labels_read_back:
  "(parse_semantic_version v = Some (major, minor, patch) \<longrightarrow>
       parse_semantic_version (bump_patch_version v) = Some (major, minor, patch + 1))
   \<and> (parse_semver v = Some (major, minor, patch, pre) \<longrightarrow>
       (\<exists>label. next_major_label v = Some label \<and> parse_semver label = Some (major + 1, 0, 0, [])
          \<and> is_major_bump v label = Some True))"
  using parse_semantic_version_nonneg[of v major minor patch] parse_semver_nonneg[of v major minor patch pre]
  by (auto simp: bump_patch_version_def next_major_label_def is_major_bump_def parse_dotted parse_semver_dotted)

lemma bumped_labels_read_back_witness:
  "parse_semantic_version (bump_patch_version ''1.2.9'') = Some (1, 2, 10)
   \<and> is_major_bump ''v2.0.0-rc.1+b7'' (the (next_major_label ''v2.0.0-rc.1+b7'')) = Some True"
proof -
  have "parse_semantic_version ''1.2.9'' = Some (1, 2, 9)" "parse_semver ''v2.0.0-rc.1+b7'' = Some (2, 0, 0, [''rc'', ''1''])"
    by code_simp+
  then show ?thesis
    using bumped_labels_read_back[of "''1.2.9''" 1 2 9] bumped_labels_read_back[of "''v2.0.0-rc.1+b7''" 2 0 0 "[''rc'', ''1'']"]
    by auto
qed

end
