(* ===== verification/MergeBranches.thy ===== *)
theory MergeBranches
  imports SchemaMerge RevisionDag Semver
begin

text \<open>
  Merging one version branch into another (\<open>version_merge_routes.py\<close>): the preview, the checks of a
  merge and its transaction, over the revisions, schemas and branch tips of one project. The schemas
  of a revision are its classes by name. Whether a revision is published and immutable, who asks,
  the compatibility gate, the commit policy, the label of the project's newest version and the new
  revision's identifier are read from an environment; the permission to use the route at all has been
  granted. Labels are unique in a project, so an insert
  whose label is taken fails. A merge first reads and checks and then commits; the two parts are separate
  definitions, because other requests may run between them.
\<close>

section \<open>State\<close>

type_synonym schemas = "(string \<times> json) list"

datatype merge_error = AuthRequired | ProjectMissing | BranchMissing | StaleHead | TipMissing | OverrideForbidden
  | PublishedImmutable | SkipNeedsAdmin | SkipNeedsReason | UnrelatedHistories | BaseMissing string
  | MergeConflict "string list" | MergeBlend "string list" | GateRefused | PolicyRefused
  | VersionTaken | CopyFailed string | InvariantViolated

datatype merge_audit = MergeFailed "string option" merge_error | ImmutabilityOverride string | MergeDone string

record merge_db =
  md_graph :: revision_graph
  md_schemas :: "(string, schemas) dict"
  md_branches :: "(string, string) dict"
  md_audit :: "merge_audit list"

record merge_env =
  me_user :: "string option"
  me_project :: bool
  me_immutable :: "string \<Rightarrow> bool"
  me_admin :: bool
  me_gate :: bool
  me_compatible :: "schemas \<Rightarrow> schemas \<Rightarrow> bool"
  me_policy_ok :: bool
  me_new_id :: string
  me_created :: timestamp
  me_latest :: "string option"

record merge_request =
  mq_source :: string
  mq_target :: string
  mq_base_revision :: string
  mq_override :: bool
  mq_skip_gate :: bool
  mq_gate_reason :: string

record merge_plan =
  mp_source_tip :: string
  mp_target_tip :: string
  mp_branch :: string
  mp_ours :: schemas
  mp_theirs :: schemas
  mp_merged :: schemas

section \<open>Reads\<close>

definition fetch_revision_closure :: "revision_graph \<Rightarrow> string list \<Rightarrow> revision_graph" where
  "fetch_revision_closure graph ids = filter (\<lambda>(r, _). r \<in> set (dict_keys (ancestors graph ids None))) graph"

definition compute_merge_base_revision_id :: "merge_db \<Rightarrow> string \<Rightarrow> string \<Rightarrow> string option" where
  "compute_merge_base_revision_id db a b = merge_base (fetch_revision_closure (md_graph db) [a, b]) a b"

definition extract_schemas :: "merge_db \<Rightarrow> string \<Rightarrow> schemas" where
  "extract_schemas db revision = dict_default (md_schemas db) revision []"

section \<open>Checks\<close>

text \<open>A refusal is audited, except for an override by somebody who may not.\<close>

definition immutability_guard :: "merge_env \<Rightarrow> merge_request \<Rightarrow> string \<Rightarrow> string \<Rightarrow> merge_error + merge_audit list" where
  "immutability_guard env req source_tip target_tip =
     (if \<not> me_immutable env source_tip \<and> \<not> me_immutable env target_tip then Inr []
      else if mq_override req \<and> \<not> me_admin env then Inl OverrideForbidden
      else if \<not> mq_override req then Inl PublishedImmutable
      else Inr [ImmutabilityOverride target_tip])"

definition gate_skip_error :: "merge_env \<Rightarrow> merge_request \<Rightarrow> merge_error option" where
  "gate_skip_error env req =
     (if me_gate env \<and> mq_skip_gate req
      then (if \<not> me_admin env then Some SkipNeedsAdmin
            else if strip (mq_gate_reason req) = [] then Some SkipNeedsReason else None)
      else None)"

definition merged_content :: "merge_env \<Rightarrow> merge_request \<Rightarrow> string \<Rightarrow> string \<Rightarrow> merge_db \<Rightarrow> merge_error + schemas" where
  "merged_content env req source_tip target_tip db =
     (case compute_merge_base_revision_id db source_tip target_tip of
        None \<Rightarrow> Inl UnrelatedHistories
      | Some base \<Rightarrow>
          if map_of (md_graph db) base = None then Inl (BaseMissing base)
          else (let b = extract_schemas db base; o1 = extract_schemas db target_tip; t = extract_schemas db source_tip
            in case merge_components_schemas_three_way (Some b) (Some o1) (Some t) of
                 Inl conflicts \<Rightarrow> Inl (MergeConflict conflicts)
               | Inr merged \<Rightarrow>
                   (case schema_merge_materializable_paths merged o1 t of
                      (False, blend) \<Rightarrow> Inl (MergeBlend blend)
                    | (True, _) \<Rightarrow>
                        if me_gate env \<and> \<not> mq_skip_gate req \<and> \<not> me_compatible env b merged then Inl GateRefused
                        else if \<not> me_policy_ok env then Inl PolicyRefused
                        else Inr merged)))"

definition audited_revision :: "string \<Rightarrow> merge_error \<Rightarrow> string" where
  "audited_revision target_tip e = (case e of BaseMissing base \<Rightarrow> base | _ \<Rightarrow> target_tip)"

definition check_merge :: "merge_env \<Rightarrow> merge_request \<Rightarrow> merge_db \<Rightarrow> (merge_error + merge_plan) \<times> merge_audit list" where
  "check_merge env req db =
     (if me_user env = None then (Inl AuthRequired, [MergeFailed None AuthRequired])
      else if \<not> me_project env then (Inl ProjectMissing, [MergeFailed None ProjectMissing])
      else case (map_of (md_branches db) (strip (mq_source req)), map_of (md_branches db) (strip (mq_target req))) of
        (Some source_tip, Some target_tip) \<Rightarrow>
          (let failed = (\<lambda>e. (Inl e, [MergeFailed (Some (audited_revision target_tip e)) e])) in
           if target_tip \<noteq> strip (mq_base_revision req) then failed StaleHead
           else if map_of (md_graph db) source_tip = None \<or> map_of (md_graph db) target_tip = None then failed TipMissing
           else case immutability_guard env req source_tip target_tip of
             Inl OverrideForbidden \<Rightarrow> (Inl OverrideForbidden, [])
           | Inl e \<Rightarrow> failed e
           | Inr audits \<Rightarrow>
               (case gate_skip_error env req of
                  Some e \<Rightarrow> (Inl e, audits @ [MergeFailed (Some target_tip) e])
                | None \<Rightarrow>
                    (case merged_content env req source_tip target_tip db of
                       Inl e \<Rightarrow> (Inl e, audits @ [MergeFailed (Some (audited_revision target_tip e)) e])
                     | Inr merged \<Rightarrow>
                         (Inr \<lparr>mp_source_tip = source_tip, mp_target_tip = target_tip, mp_branch = strip (mq_target req),
                            mp_ours = extract_schemas db target_tip, mp_theirs = extract_schemas db source_tip,
                            mp_merged = merged\<rparr>, audits))))
      | _ \<Rightarrow> (Inl BranchMissing, [MergeFailed None BranchMissing]))"

section \<open>Transaction\<close>

text \<open>The classes of the new revision: those of the target, without the ones the merge dropped, and
  with the ones that only match the source copied from it.\<close>

fun place_schemas :: "merge_plan \<Rightarrow> schemas \<Rightarrow> schemas \<Rightarrow> schemas \<Rightarrow> merge_error + schemas" where
  "place_schemas plan source classes [] = Inr classes"
| "place_schemas plan source classes ((name, m) # merged) =
     (if json_equal (Some m) (map_of (mp_ours plan) name) then place_schemas plan source classes merged
      else if json_equal (Some m) (map_of (mp_theirs plan) name)
      then (let kept = (if map_of (mp_ours plan) name \<noteq> None then AList.delete name classes else classes)
            in case map_of source name of
                 None \<Rightarrow> Inl (CopyFailed name)
               | Some c \<Rightarrow> place_schemas plan source (AList.update name c kept) merged)
      else Inl InvariantViolated)"

definition new_classes :: "merge_plan \<Rightarrow> merge_db \<Rightarrow> merge_error + schemas" where
  "new_classes plan db =
     place_schemas plan (extract_schemas db (mp_source_tip plan))
       (filter (\<lambda>(name, _). \<not> (map_of (mp_ours plan) name \<noteq> None \<and> map_of (mp_merged plan) name = None))
         (extract_schemas db (mp_target_tip plan)))
       (mp_merged plan)"

definition new_version_string :: "merge_env \<Rightarrow> string" where
  "new_version_string env = (case me_latest env of None \<Rightarrow> ''0.1.0'' | Some latest \<Rightarrow> bump_patch_version latest)"

definition merged_node :: "merge_env \<Rightarrow> merge_plan \<Rightarrow> revision_node" where
  "merged_node env plan = \<lparr>revision_id = me_new_id env, parent_id = Some (mp_target_tip plan),
     merge_parent_id = Some (mp_source_tip plan), rev_created_at = me_created env, version_label = Some (new_version_string env)\<rparr>"

definition commit_merge :: "merge_env \<Rightarrow> merge_plan \<Rightarrow> merge_db \<Rightarrow> (merge_error + string) \<times> merge_db" where
  "commit_merge env plan db =
     (let failed = (\<lambda>e. (Inl e, db\<lparr>md_audit := md_audit db @ [MergeFailed (Some (mp_target_tip plan)) e]\<rparr>)); new = me_new_id env
      in if list_ex (\<lambda>(_, n). version_label n = Some (new_version_string env)) (md_graph db) then failed VersionTaken
         else case new_classes plan db of
           Inl e \<Rightarrow> failed e
         | Inr classes \<Rightarrow>
             (Inr new, \<lparr>md_graph = AList.update new (merged_node env plan) (md_graph db),
                md_schemas = AList.update new classes (md_schemas db),
                md_branches = AList.update (mp_branch plan) new (md_branches db), md_audit = md_audit db @ [MergeDone new]\<rparr>))"

definition version_branch_merge :: "merge_env \<Rightarrow> merge_request \<Rightarrow> merge_db \<Rightarrow> (merge_error + string) \<times> merge_db" where
  "version_branch_merge env req db =
     (case check_merge env req db of
        (Inl e, audits) \<Rightarrow> (Inl e, db\<lparr>md_audit := md_audit db @ audits\<rparr>)
      | (Inr plan, audits) \<Rightarrow> commit_merge env plan (db\<lparr>md_audit := md_audit db @ audits\<rparr>))"

text \<open>What the preview says about the same merge: whether it can be applied automatically.\<close>

definition preview_can_auto_merge :: "merge_db \<Rightarrow> string \<Rightarrow> string \<Rightarrow> merge_error + bool" where
  "preview_can_auto_merge db source_tip target_tip =
     (case compute_merge_base_revision_id db source_tip target_tip of
        None \<Rightarrow> Inl UnrelatedHistories
      | Some base \<Rightarrow>
          if map_of (md_graph db) base = None then Inl (BaseMissing base)
          else (let b = extract_schemas db base; o1 = extract_schemas db target_tip; t = extract_schemas db source_tip
            in case merge_components_schemas_three_way (Some b) (Some o1) (Some t) of
                 Inl conflicts \<Rightarrow> Inr False
               | Inr merged \<Rightarrow> Inr (merged \<noteq> [] \<and> fst (schema_merge_materializable_paths merged o1 t))))"

section \<open>The transaction realises the merge\<close>

lemma map_of_filter_key: "map_of (filter (\<lambda>(k, _). P k) kvs) k = (if P k then map_of kvs k else None)"
  by (induction kvs) auto

lemma distinct_merged:
  assumes "merge_components_schemas_three_way base ours theirs = Inr merged"
  shows "distinct (map fst merged)"
proof -
  have "distinct (map fst (List.map_filter f ks))" if "distinct ks" "\<And>k kv. f k = Some kv \<Longrightarrow> fst kv = k" for f and ks :: "string list"
    using that(1)
  proof (induction ks)
    case (Cons k ks)
    have "set (map fst (List.map_filter f ks)) \<subseteq> set ks" using that(2) by (force simp: map_filter_def)
    then show ?case using Cons that(2) by (fastforce simp: map_filter_simps split: option.splits)
  qed (simp add: map_filter_simps)
  note filtered = this
  let ?f = "\<lambda>name. case merge_schema base ours theirs name of Inr (Some v) \<Rightarrow> Some (name, v) | _ \<Rightarrow> None"
  have "merged = List.map_filter ?f (schema_names base ours theirs)"
    using assms by (auto simp: merge_components_cases Let_def split: if_splits)
  then show ?thesis
    by (simp only:) (rule filtered; auto split: sum.splits option.splits)
qed

definition tip_schema :: "merge_plan \<Rightarrow> string \<Rightarrow> json \<Rightarrow> bool" where
  "tip_schema plan name m \<longleftrightarrow> json_equal (Some m) (map_of (mp_ours plan) name) \<or> json_equal (Some m) (map_of (mp_theirs plan) name)"

lemma place_schemas_places:
  assumes "distinct (map fst merged)" and "\<forall>(name, m) \<in> set merged. tip_schema plan name m"
    and "\<forall>name. map_of source name = map_of (mp_theirs plan) name"
  shows "\<exists>placed. place_schemas plan source classes merged = Inr placed
    \<and> (\<forall>name. map_of placed name = (case map_of merged name of None \<Rightarrow> map_of classes name
         | Some m \<Rightarrow> if json_equal (Some m) (map_of (mp_ours plan) name) then map_of classes name
                    else map_of (mp_theirs plan) name))"
  using assms(1,2)
proof (induction merged arbitrary: classes)
  case (Cons nm merged)
  obtain n m where nm: "nm = (n, m)" by (cases nm)
  have new: "map_of merged n = None" using Cons.prems(1) by (simp add: nm map_of_eq_None_iff)
  show ?case
  proof (cases "json_equal (Some m) (map_of (mp_ours plan) n)")
    case True
    then show ?thesis using Cons.IH[of classes] Cons.prems new by (fastforce simp: nm)
  next
    case False
    then have theirs: "json_equal (Some m) (map_of (mp_theirs plan) n)" using Cons.prems(2) by (simp add: nm tip_schema_def)
    then obtain c where c: "map_of (mp_theirs plan) n = Some c" by (cases "map_of (mp_theirs plan) n") auto
    let ?kept = "if map_of (mp_ours plan) n \<noteq> None then AList.delete n classes else classes"
    have "place_schemas plan source classes (nm # merged) = place_schemas plan source (AList.update n c ?kept) merged"
      using False theirs assms(3) c by (simp add: nm)
    then show ?thesis
      using Cons.IH[of "AList.update n c ?kept"] Cons.prems new False c by (fastforce simp: nm split: option.splits)
  qed
qed simp

text \<open>What the checks of a merge establish.\<close>

definition plan_of :: "merge_db \<Rightarrow> merge_plan \<Rightarrow> bool" where
  "plan_of db plan \<longleftrightarrow> map_of (md_graph db) (mp_source_tip plan) \<noteq> None \<and> map_of (md_graph db) (mp_target_tip plan) \<noteq> None
     \<and> map_of (md_branches db) (mp_branch plan) = Some (mp_target_tip plan)
     \<and> mp_ours plan = extract_schemas db (mp_target_tip plan) \<and> mp_theirs plan = extract_schemas db (mp_source_tip plan)
     \<and> (\<exists>base. compute_merge_base_revision_id db (mp_source_tip plan) (mp_target_tip plan) = Some base
          \<and> map_of (md_graph db) base \<noteq> None
          \<and> merge_components_schemas_three_way (Some (extract_schemas db base)) (Some (mp_ours plan)) (Some (mp_theirs plan))
              = Inr (mp_merged plan))
     \<and> schema_merge_materializable_paths (mp_merged plan) (mp_ours plan) (mp_theirs plan) = (True, [])"

lemma materializable_iff:
  "schema_merge_materializable_paths merged ours theirs = (True, bad) \<longleftrightarrow> bad = []
     \<and> (\<forall>name. json_equal (map_of merged name) (map_of ours name) \<or> json_equal (map_of merged name) (map_of theirs name))"
  using not_in_all_keys[of _ merged ours theirs]
  by (auto simp: schema_merge_materializable_paths_def Let_def filter_empty_conv json_equal_def) metis+

lemma merged_content_Inr:
  assumes "merged_content env req source_tip target_tip db = Inr merged"
  obtains base where "compute_merge_base_revision_id db source_tip target_tip = Some base" "map_of (md_graph db) base \<noteq> None"
    "merge_components_schemas_three_way (Some (extract_schemas db base)) (Some (extract_schemas db target_tip))
       (Some (extract_schemas db source_tip)) = Inr merged"
    "schema_merge_materializable_paths merged (extract_schemas db target_tip) (extract_schemas db source_tip) = (True, [])"
  using assms materializable_iff
  by (fastforce simp: merged_content_def Let_def split: option.splits if_splits sum.splits prod.splits bool.splits)

lemma check_merge_plan:
  assumes "check_merge env req db = (Inr plan, audits)"
  shows "plan_of db plan \<and> map_of (md_branches db) (strip (mq_source req)) = Some (mp_source_tip plan)
    \<and> mp_branch plan = strip (mq_target req) \<and> strip (mq_base_revision req) = mp_target_tip plan"
proof -
  obtain source_tip target_tip where tips: "map_of (md_branches db) (strip (mq_source req)) = Some source_tip"
    "map_of (md_branches db) (strip (mq_target req)) = Some target_tip"
    using assms by (auto simp: check_merge_def split: option.splits if_splits)
  have "merged_content env req source_tip target_tip db = Inr (mp_merged plan)"
    and plan: "mp_source_tip plan = source_tip" "mp_target_tip plan = target_tip" "mp_branch plan = strip (mq_target req)"
      "mp_ours plan = extract_schemas db target_tip" "mp_theirs plan = extract_schemas db source_tip"
    and found: "map_of (md_graph db) source_tip \<noteq> None" "map_of (md_graph db) target_tip \<noteq> None"
      "strip (mq_base_revision req) = target_tip"
    using assms by (auto simp: check_merge_def tips Let_def split: option.splits if_splits sum.splits merge_error.splits)
  from merged_content_Inr[OF this(1)] show ?thesis
    using tips found by (auto simp: plan_of_def plan)
qed

text \<open>The commit of a checked merge cannot fail to place the schemas.\<close>

definition same_schemas :: "schemas \<Rightarrow> schemas \<Rightarrow> bool" where
  "same_schemas a b \<longleftrightarrow> (\<forall>name. json_equal (map_of a name) (map_of b name))"

lemma same_schemas_trans: "same_schemas a b \<Longrightarrow> same_schemas b c \<Longrightarrow> same_schemas a c"
  unfolding same_schemas_def by (blast intro: json_equal_trans)

definition tips_kept :: "merge_plan \<Rightarrow> merge_db \<Rightarrow> merge_db \<Rightarrow> bool" where
  "tips_kept plan db db' \<longleftrightarrow> extract_schemas db' (mp_source_tip plan) = extract_schemas db (mp_source_tip plan)
     \<and> extract_schemas db' (mp_target_tip plan) = extract_schemas db (mp_target_tip plan)"

lemma new_classes_merged:
  assumes "plan_of db plan" and "tips_kept plan db db'"
  shows "\<exists>classes. new_classes plan db' = Inr classes \<and> same_schemas classes (mp_merged plan)"
proof -
  let ?ours = "mp_ours plan" and ?theirs = "mp_theirs plan" and ?merged = "mp_merged plan"
  let ?kept = "filter (\<lambda>(name, _). \<not> (map_of ?ours name \<noteq> None \<and> map_of ?merged name = None)) ?ours"
  have plan: "extract_schemas db' (mp_target_tip plan) = ?ours" "extract_schemas db' (mp_source_tip plan) = ?theirs"
    using assms by (simp_all add: plan_of_def tips_kept_def)
  have either: "json_equal (map_of ?merged name) (map_of ?ours name) \<or> json_equal (map_of ?merged name) (map_of ?theirs name)" for name
    using assms(1) unfolding plan_of_def materializable_iff by blast
  have distinct: "distinct (map fst ?merged)" using assms(1) distinct_merged by (auto simp: plan_of_def)
  have "tip_schema plan name m" if "(name, m) \<in> set ?merged" for name m
    using either[of name] map_of_is_SomeI[OF distinct that] by (simp add: tip_schema_def)
  then have "\<forall>(name, m) \<in> set ?merged. tip_schema plan name m" by blast
  then obtain classes where "new_classes plan db' = Inr classes" and
    placed: "\<And>name. map_of classes name = (case map_of ?merged name of None \<Rightarrow> map_of ?kept name
         | Some m \<Rightarrow> if json_equal (Some m) (map_of ?ours name) then map_of ?kept name else map_of ?theirs name)"
    using place_schemas_places[OF distinct, of plan ?theirs ?kept] unfolding new_classes_def plan by blast
  moreover have "json_equal (map_of classes name) (map_of ?merged name)" for name
  proof (cases "map_of ?merged name")
    case None
    then show ?thesis by (simp add: placed map_of_filter_key)
  next
    case (Some m)
    then show ?thesis using either[of name] by (auto simp: placed map_of_filter_key json_equal_sym)
  qed
  ultimately show ?thesis by (auto simp: same_schemas_def)
qed

lemma extract_audit [simp]: "extract_schemas (db\<lparr>md_audit := audit\<rparr>) r = extract_schemas db r"
  by (simp add: extract_schemas_def)

lemma commit_merge_Inr:
  assumes "commit_merge env plan db = (Inr new, db')"
  obtains classes where "new = me_new_id env" "new_classes plan db = Inr classes"
    "md_graph db' = AList.update new (merged_node env plan) (md_graph db)"
    "\<And>r. extract_schemas db' r = (if r = new then classes else extract_schemas db r)"
    "md_branches db' = AList.update (mp_branch plan) new (md_branches db)"
  using assms
  by (auto simp: commit_merge_def Let_def extract_schemas_def dict_default_update split: if_splits sum.splits)

lemma commit_merge_Inl:
  assumes "commit_merge env plan db = (Inl e, db')" and "plan_of db0 plan" and "tips_kept plan db0 db"
  shows "e = VersionTaken \<and> db' = db\<lparr>md_audit := md_audit db @ [MergeFailed (Some (mp_target_tip plan)) VersionTaken]\<rparr>"
  using assms(1) new_classes_merged[OF assms(2,3)] by (auto simp: commit_merge_def Let_def split: if_splits)

text \<open>Merge bases in the part of the history the database loads.\<close>

lemma parent_of_closure:
  "parent_of (fetch_revision_closure graph ids) c p \<longleftrightarrow> (\<exists>t \<in> set ids. (parent_of graph)\<^sup>*\<^sup>* t c) \<and> parent_of graph c p"
  unfolding parent_of_def fetch_revision_closure_def map_of_filter_key ancestors_all by auto

lemma closure_reaches:
  assumes "\<exists>t \<in> set ids. (parent_of graph)\<^sup>*\<^sup>* t c"
  shows "(parent_of (fetch_revision_closure graph ids))\<^sup>*\<^sup>* c r \<longleftrightarrow> (parent_of graph)\<^sup>*\<^sup>* c r"
proof
  show "(parent_of graph)\<^sup>*\<^sup>* c r" if "(parent_of (fetch_revision_closure graph ids))\<^sup>*\<^sup>* c r"
    using that by (rule rtranclp_mono[THEN predicate2D, rotated]) (auto simp: parent_of_closure)
  show "(parent_of (fetch_revision_closure graph ids))\<^sup>*\<^sup>* c r" if "(parent_of graph)\<^sup>*\<^sup>* c r"
    using that
  proof induction
    case (step x y)
    have "\<exists>t \<in> set ids. (parent_of graph)\<^sup>*\<^sup>* t x" using assms step.hyps(1) by (meson rtranclp_trans)
    then show ?case using step by (meson parent_of_closure rtranclp.rtrancl_into_rtrancl)
  qed simp
qed

lemma common_ancestor_closure:
  "common_ancestor (fetch_revision_closure graph [a, b]) a b c \<longleftrightarrow> common_ancestor graph a b c"
  using closure_reaches[of "[a, b]" graph a c] closure_reaches[of "[a, b]" graph b c]
  by (auto simp: common_ancestor_def)

lemma closure_tranclp:
  assumes "common_ancestor graph a b c"
  shows "(parent_of (fetch_revision_closure graph [a, b]))\<^sup>+\<^sup>+ c r \<longleftrightarrow> (parent_of graph)\<^sup>+\<^sup>+ c r"
proof -
  have r: "\<exists>t \<in> set [a, b]. (parent_of graph)\<^sup>*\<^sup>* t c" using assms by (simp add: common_ancestor_def)
  have "(parent_of (fetch_revision_closure graph [a, b]))\<^sup>*\<^sup>* p r \<longleftrightarrow> (parent_of graph)\<^sup>*\<^sup>* p r"
    if "parent_of graph c p" for p
    by (rule closure_reaches) (use r that in \<open>meson rtranclp.rtrancl_into_rtrancl\<close>)
  then show ?thesis using r parent_of_closure[of graph "[a, b]" c] by (metis rtranclp_into_tranclp2 tranclpD)
qed

lemma best_common_closure:
  "best_common (fetch_revision_closure graph [a, b]) a b c \<longleftrightarrow> best_common graph a b c"
  unfolding best_common_def common_ancestor_closure using closure_tranclp by blast

lemma acyclic_closure: "acyclicP (parent_of graph) \<Longrightarrow> acyclicP (parent_of (fetch_revision_closure graph ids))"
  by (erule acyclic_subset) (auto simp: parent_of_closure)

lemma version_branch_merge_Inr:
  assumes "version_branch_merge env req db = (Inr new, db')"
  obtains plan audits where "check_merge env req db = (Inr plan, audits)"
    "commit_merge env plan (db\<lparr>md_audit := md_audit db @ audits\<rparr>) = (Inr new, db')" "plan_of db plan"
    "map_of (md_branches db) (strip (mq_source req)) = Some (mp_source_tip plan)"
    "mp_branch plan = strip (mq_target req)" "strip (mq_base_revision req) = mp_target_tip plan"
proof -
  obtain plan audits where p: "check_merge env req db = (Inr plan, audits)"
    using assms by (auto simp: version_branch_merge_def split: prod.splits sum.splits)
  then show thesis using that[OF p] assms check_merge_plan[OF p] by (simp add: version_branch_merge_def)
qed

lemma merge_base_of_tips:
  assumes "compute_merge_base_revision_id db a b = Some base"
  shows "best_common (md_graph db) a b base"
  using merge_base_Some(1)[OF assms[unfolded compute_merge_base_revision_id_def]] unfolding best_common_closure .

lemma new_revision:
  assumes "version_branch_merge env req db = (Inr new, db')"
  obtains plan where "plan_of db plan" "same_schemas (extract_schemas db' new) (mp_merged plan)"
    "map_of (md_branches db) (strip (mq_source req)) = Some (mp_source_tip plan)" "new = me_new_id env"
    "mp_branch plan = strip (mq_target req)" "strip (mq_base_revision req) = mp_target_tip plan"
    "md_graph db' = AList.update new (merged_node env plan) (md_graph db)"
    "\<forall>r. r \<noteq> new \<longrightarrow> extract_schemas db' r = extract_schemas db r"
    "md_branches db' = AList.update (strip (mq_target req)) new (md_branches db)"
proof -
  from version_branch_merge_Inr[OF assms] obtain plan audits where
    commit: "commit_merge env plan (db\<lparr>md_audit := md_audit db @ audits\<rparr>) = (Inr new, db')"
    and plan: "plan_of db plan" "map_of (md_branches db) (strip (mq_source req)) = Some (mp_source_tip plan)"
    "mp_branch plan = strip (mq_target req)" "strip (mq_base_revision req) = mp_target_tip plan" .
  have "tips_kept plan db (db\<lparr>md_audit := md_audit db @ audits\<rparr>)" by (simp add: tips_kept_def)
  from new_classes_merged[OF plan(1) this] obtain classes where
    classes: "new_classes plan (db\<lparr>md_audit := md_audit db @ audits\<rparr>) = Inr classes" "same_schemas classes (mp_merged plan)" by blast
  show thesis
    by (rule commit_merge_Inr[OF commit], rule that[of plan]) (use plan classes in auto)
qed

section \<open>Merging the same branch again\<close>

lemma merge_back: "merge_json_three_way b ours b path = Inr ours"
  by (simp add: merge_json_three_way.simps json_equal_def)

lemma merge_components_back:
  "\<exists>merged. merge_components_schemas_three_way (Some b) (Some ours) (Some b) = Inr merged
     \<and> (\<forall>name. map_of merged name = map_of ours name)"
proof -
  have schema: "merge_schema (Some b) (Some ours) (Some b) name = Inr (map_of ours name)" for name
    by (simp add: merge_schema_def schemas_of_def merge_back)
  then obtain merged where m: "merge_components_schemas_three_way (Some b) (Some ours) (Some b) = Inr merged"
    using merge_components_ok by blast
  then show ?thesis using merge_components_Inr[OF m] schema by simp
qed

lemma parent_of_update:
  assumes "\<forall>c. \<not> parent_of graph c new" and "new \<notin> set (parents n)" and "map_of graph new = None"
  shows "parent_of (AList.update new n graph) c p \<longleftrightarrow> c = new \<and> p \<in> set (parents n) \<or> parent_of graph c p"
  using assms by (auto simp: parent_of_def)

lemma acyclic_update:
  assumes "acyclicP (parent_of graph)" and "\<forall>c. \<not> parent_of graph c new" and "new \<notin> set (parents n)"
    and "map_of graph new = None"
  shows "acyclicP (parent_of (AList.update new n graph))"
proof -
  let ?P = "parent_of (AList.update new n graph)"
  note step = parent_of_update[OF assms(2-4)]
  have into: "\<not> ?P\<^sup>+\<^sup>+ x new" for x
  proof
    assume "?P\<^sup>+\<^sup>+ x new"
    then obtain y where "?P y new" by (cases rule: tranclp.cases)
    then show False using assms(2,3) unfolding step by blast
  qed
  have old: "(parent_of graph)\<^sup>+\<^sup>+ c p" if "?P\<^sup>+\<^sup>+ c p" "c \<noteq> new" for c p
    using that
  proof induction
    case (step y z)
    then have "y \<noteq> new" using into by blast
    then show ?case using step parent_of_update[OF assms(2-4)] by (meson tranclp.trancl_into_trancl)
  qed (use step in blast)
  have "\<not> ?P\<^sup>+\<^sup>+ c c" for c
    using old[of c c] into[of c] assms(1) by (cases "c = new") (auto simp: acyclic_def tranclp_unfold)
  then show ?thesis by (simp add: acyclic_def tranclp_unfold)
qed

text \<open>The new identifier names no revision and no parent yet, no revision has the empty identifier, and
  the history has no cycles.\<close>

definition fresh_in_history :: "revision_graph \<Rightarrow> string \<Rightarrow> bool" where
  "fresh_in_history graph new \<longleftrightarrow> acyclicP (parent_of graph) \<and> map_of graph new = None \<and> map_of graph [] = None
     \<and> (\<forall>c. \<not> parent_of graph c new)"

lemma parents_merged: "plan_of db plan \<Longrightarrow> map_of (md_graph db) [] = None
    \<Longrightarrow> set (parents (merged_node env plan)) = {mp_target_tip plan, mp_source_tip plan}"
  by (auto simp: parents_def merged_node_def plan_of_def)

lemma merged_history:
  assumes "plan_of db plan" and "fresh_in_history (md_graph db) new"
  shows "acyclicP (parent_of (AList.update new (merged_node env plan) (md_graph db)))"
    and "parent_of (AList.update new (merged_node env plan) (md_graph db)) c p \<longleftrightarrow>
           c = new \<and> p \<in> {mp_target_tip plan, mp_source_tip plan} \<or> parent_of (md_graph db) c p"
proof -
  have p: "set (parents (merged_node env plan)) = {mp_target_tip plan, mp_source_tip plan}"
    using assms parents_merged by (simp add: fresh_in_history_def)
  have n: "new \<notin> set (parents (merged_node env plan))"
    unfolding p using assms by (auto simp: plan_of_def fresh_in_history_def)
  show "acyclicP (parent_of (AList.update new (merged_node env plan) (md_graph db)))"
    by (rule acyclic_update) (use assms(2) n in \<open>auto simp: fresh_in_history_def\<close>)
  show "parent_of (AList.update new (merged_node env plan) (md_graph db)) c p \<longleftrightarrow>
      c = new \<and> p \<in> {mp_target_tip plan, mp_source_tip plan} \<or> parent_of (md_graph db) c p"
    using parent_of_update[of "md_graph db" new "merged_node env plan" c p] assms(2) n p by (simp add: fresh_in_history_def)
qed

lemma base_after_merge:
  assumes "plan_of db plan" and "fresh_in_history (md_graph db) new"
    and "md_graph db' = AList.update new (merged_node env plan) (md_graph db)"
  shows "compute_merge_base_revision_id db' (mp_source_tip plan) new = Some (mp_source_tip plan)"
proof -
  let ?s = "mp_source_tip plan" and ?g = "md_graph db'"
  have "acyclicP (parent_of ?g)" "parent_of ?g new ?s"
    using merged_history[OF assms(1,2)] unfolding assms(3) by auto
  then show ?thesis
    unfolding compute_merge_base_revision_id_def
    by (intro merge_base_unique acyclic_closure) (auto simp: common_ancestor_closure common_ancestor_def closure_reaches)
qed

text \<open>The content the second merge computes is that of the target.\<close>

lemma merged_content_again:
  assumes "compute_merge_base_revision_id db source_tip target_tip = Some source_tip" and "map_of (md_graph db) source_tip \<noteq> None"
  shows "case merged_content env req source_tip target_tip db of Inr merged \<Rightarrow> same_schemas merged (extract_schemas db target_tip)
    | Inl e \<Rightarrow> e \<in> {GateRefused, PolicyRefused}"
proof -
  obtain merged where m: "merge_components_schemas_three_way (Some (extract_schemas db source_tip))
      (Some (extract_schemas db target_tip)) (Some (extract_schemas db source_tip)) = Inr merged"
    "\<And>name. map_of merged name = map_of (extract_schemas db target_tip) name"
    using merge_components_back by blast
  have "schema_merge_materializable_paths merged (extract_schemas db target_tip) (extract_schemas db source_tip) = (True, [])"
    unfolding materializable_iff by (simp add: m(2))
  then show ?thesis using assms m by (auto simp: merged_content_def same_schemas_def)
qed

definition unrelated_to_content :: "merge_error set" where
  "unrelated_to_content = {AuthRequired, ProjectMissing, StaleHead, OverrideForbidden, PublishedImmutable, SkipNeedsAdmin,
     SkipNeedsReason, GateRefused, PolicyRefused, VersionTaken}"

lemma check_merge_Inl:
  assumes "check_merge env req db = (Inl e, audits)"
    and "map_of (md_branches db) (strip (mq_source req)) = Some source_tip" "map_of (md_graph db) source_tip \<noteq> None"
    and "map_of (md_branches db) (strip (mq_target req)) = Some target_tip" "map_of (md_graph db) target_tip \<noteq> None"
  shows "e \<in> unrelated_to_content \<or> merged_content env req source_tip target_tip db = Inl e"
  using assms
  by (auto simp: check_merge_def Let_def unrelated_to_content_def immutability_guard_def gate_skip_error_def
      split: if_splits sum.splits)

lemma merged_content_Inl:
  assumes "merged_content env req source_tip target_tip db = Inl e"
  shows "e \<in> {UnrelatedHistories, GateRefused, PolicyRefused} \<union> range BaseMissing \<union> range MergeConflict \<union> range MergeBlend"
  using assms unfolding merged_content_def Let_def
  by (simp split: option.splits if_splits sum.splits prod.splits bool.splits) auto

lemma check_merge_audits:
  assumes "check_merge env req db = (Inl e, audits)"
  shows "e \<noteq> InvariantViolated \<and> (\<forall>name. e \<noteq> CopyFailed name)
    \<and> (e = OverrideForbidden \<and> audits = [] \<or> (\<exists>earlier tip. audits = earlier @ [MergeFailed tip e]))"
  using assms
  by (auto simp: check_merge_def immutability_guard_def gate_skip_error_def Let_def
      split: option.splits if_splits sum.splits dest!: merged_content_Inl)

section \<open>Properties\<close>

text \<open>C33: An accepted merge commits the three-way merge of the tips. The base is a best common ancestor
  of the two tips, the new revision holds the merge of the schemas of base, target and source, its
  parents are the two tips, the target branch and no other branch moves to it, and every other
  revision stays as it was.\<close>

theorem accepted_merge_commits_the_result:
  assumes "version_branch_merge env req db = (Inr new, db')"
  shows "\<exists>source_tip target_tip base merged node.
    map_of (md_branches db) (strip (mq_source req)) = Some source_tip
    \<and> map_of (md_branches db) (strip (mq_target req)) = Some target_tip \<and> strip (mq_base_revision req) = target_tip
    \<and> best_common (md_graph db) source_tip target_tip base
    \<and> merge_components_schemas_three_way (Some (extract_schemas db base)) (Some (extract_schemas db target_tip))
        (Some (extract_schemas db source_tip)) = Inr merged
    \<and> same_schemas (extract_schemas db' new) merged
    \<and> map_of (md_graph db') new = Some node \<and> parent_id node = Some target_tip \<and> merge_parent_id node = Some source_tip
    \<and> (\<forall>b. map_of (md_branches db') b = (if b = strip (mq_target req) then Some new else map_of (md_branches db) b))
    \<and> (\<forall>r. r \<noteq> new \<longrightarrow> map_of (md_graph db') r = map_of (md_graph db) r \<and> extract_schemas db' r = extract_schemas db r)"
proof -
  from new_revision[OF assms] obtain plan where plan: "plan_of db plan" "same_schemas (extract_schemas db' new) (mp_merged plan)"
    "map_of (md_branches db) (strip (mq_source req)) = Some (mp_source_tip plan)" "new = me_new_id env"
    "mp_branch plan = strip (mq_target req)" "strip (mq_base_revision req) = mp_target_tip plan"
    "md_graph db' = AList.update new (merged_node env plan) (md_graph db)"
    "\<forall>r. r \<noteq> new \<longrightarrow> extract_schemas db' r = extract_schemas db r"
    "md_branches db' = AList.update (strip (mq_target req)) new (md_branches db)" .
  then obtain base where "compute_merge_base_revision_id db (mp_source_tip plan) (mp_target_tip plan) = Some base"
    "merge_components_schemas_three_way (Some (extract_schemas db base)) (Some (extract_schemas db (mp_target_tip plan)))
       (Some (extract_schemas db (mp_source_tip plan))) = Inr (mp_merged plan)"
    by (auto simp: plan_of_def)
  then show ?thesis
    using plan merge_base_of_tips
    by (intro exI[of _ "mp_source_tip plan"] exI[of _ "mp_target_tip plan"] exI[of _ base] exI[of _ "mp_merged plan"]
        exI[of _ "merged_node env plan"] conjI) (auto simp: plan_of_def merged_node_def)
qed


text \<open>Merging a branch again right after a merge finds nothing to do: whatever the second request
  asks, it meets no conflict, no blend and no unrelated or missing history, and if it is accepted its
  revision has the schemas of the first merge. The new identifier is taken to be unused before.\<close>

theorem merging_again_changes_no_schema:
  assumes "version_branch_merge env req db = (Inr new, db1)" and "fresh_in_history (md_graph db) new"
    and "strip (mq_source req) \<noteq> strip (mq_target req)"
    and "strip (mq_source again) = strip (mq_source req)" "strip (mq_target again) = strip (mq_target req)"
    and "version_branch_merge env2 again db1 = (result, db2)"
  shows "case result of Inr newer \<Rightarrow> same_schemas (extract_schemas db2 newer) (extract_schemas db1 new)
    | Inl e \<Rightarrow> e \<in> unrelated_to_content"
proof -
  from new_revision[OF assms(1)] obtain plan where plan: "plan_of db plan"
    "map_of (md_branches db) (strip (mq_source req)) = Some (mp_source_tip plan)"
    "md_graph db1 = AList.update new (merged_node env plan) (md_graph db)"
    "md_branches db1 = AList.update (strip (mq_target req)) new (md_branches db)" .
  let ?s = "mp_source_tip plan"
  have tips: "map_of (md_branches db1) (strip (mq_source again)) = Some ?s" "map_of (md_graph db1) ?s \<noteq> None"
    "map_of (md_branches db1) (strip (mq_target again)) = Some new" "map_of (md_graph db1) new \<noteq> None"
    using plan assms(3-5) by (auto simp: plan_of_def)
  note base = base_after_merge[OF plan(1) assms(2) plan(3)]
  have content: "case merged_content env' req' ?s new db1 of Inr merged \<Rightarrow> same_schemas merged (extract_schemas db1 new)
    | Inl e \<Rightarrow> e \<in> {GateRefused, PolicyRefused}" for env' req'
    by (rule merged_content_again[OF base tips(2)])
  show ?thesis
  proof (cases result)
    case (Inr newer)
    from new_revision[OF assms(6)[unfolded Inr]] obtain plan2 where plan2: "plan_of db1 plan2"
      "same_schemas (extract_schemas db2 newer) (mp_merged plan2)"
      "map_of (md_branches db1) (strip (mq_source again)) = Some (mp_source_tip plan2)"
      "mp_branch plan2 = strip (mq_target again)" .
    then have "mp_source_tip plan2 = ?s" "mp_target_tip plan2 = new" using tips by (auto simp: plan_of_def)
    then obtain merged where "merge_components_schemas_three_way (Some (extract_schemas db1 ?s)) (Some (extract_schemas db1 new))
        (Some (extract_schemas db1 ?s)) = Inr merged" "merged = mp_merged plan2"
      using base plan2(1) by (auto simp: plan_of_def)
    then have "same_schemas (mp_merged plan2) (extract_schemas db1 new)"
      using merge_components_back[of "extract_schemas db1 ?s" "extract_schemas db1 new"] by (auto simp: same_schemas_def)
    then show ?thesis using plan2(2) same_schemas_trans by (auto simp: Inr)
  next
    case (Inl e)
    obtain r audits where check: "check_merge env2 again db1 = (r, audits)" by (cases "check_merge env2 again db1")
    show ?thesis
    proof (cases r)
      case (Inl e')
      then have "check_merge env2 again db1 = (Inl e, audits)" using assms(6) check \<open>result = Inl e\<close>
        by (simp add: version_branch_merge_def)
      from check_merge_Inl[OF this tips] show ?thesis
        using content[of env2 again] by (auto simp: \<open>result = Inl e\<close> unrelated_to_content_def)
    next
      case (Inr plan2)
      then have "commit_merge env2 plan2 (db1\<lparr>md_audit := md_audit db1 @ audits\<rparr>) = (Inl e, db2)"
        using assms(6) check \<open>result = Inl e\<close> by (simp add: version_branch_merge_def)
      from commit_merge_Inl[OF this check_merge_plan[OF check[unfolded Inr], THEN conjunct1]]
      show ?thesis by (auto simp: \<open>result = Inl e\<close> tips_kept_def unrelated_to_content_def)
    qed
  qed
qed

text \<open>The preview announces what the merge then does, except for an empty result. Whatever the
  merge route accepts, the preview announces as mergeable just when the merged document has a schema
  at all; so a merge that drops the last schemas is announced as blocked although the route commits
  it. What the preview announces as mergeable, only the gate and the commit policy can still refuse.\<close>

theorem preview_agrees_except_on_empty:
  "(\<forall>merged. merged_content env req source_tip target_tip db = Inr merged \<longrightarrow>
      preview_can_auto_merge db source_tip target_tip = Inr (merged \<noteq> []))
   \<and> (preview_can_auto_merge db source_tip target_tip = Inr True \<longrightarrow>
      (\<exists>merged. merged_content env req source_tip target_tip db = Inr merged)
      \<or> merged_content env req source_tip target_tip db \<in> {Inl GateRefused, Inl PolicyRefused})"
proof (intro conjI allI impI)
  show "preview_can_auto_merge db source_tip target_tip = Inr (merged \<noteq> [])"
    if "merged_content env req source_tip target_tip db = Inr merged" for merged
    by (rule merged_content_Inr[OF that]) (simp add: preview_can_auto_merge_def)
  show "(\<exists>merged. merged_content env req source_tip target_tip db = Inr merged)
      \<or> merged_content env req source_tip target_tip db \<in> {Inl GateRefused, Inl PolicyRefused}"
    if preview: "preview_can_auto_merge db source_tip target_tip = Inr True"
  proof -
    obtain base merged where "compute_merge_base_revision_id db source_tip target_tip = Some base" "map_of (md_graph db) base \<noteq> None"
      "merge_components_schemas_three_way (Some (extract_schemas db base)) (Some (extract_schemas db target_tip))
         (Some (extract_schemas db source_tip)) = Inr merged"
      "fst (schema_merge_materializable_paths merged (extract_schemas db target_tip) (extract_schemas db source_tip))"
      using preview by (auto simp: preview_can_auto_merge_def Let_def split: option.splits if_splits sum.splits)
    then show ?thesis
      by (cases "schema_merge_materializable_paths merged (extract_schemas db target_tip) (extract_schemas db source_tip)")
        (auto simp: merged_content_def)
  qed
qed

text \<open>C35: Two merges into the same branch can both succeed and one be lost: when both are checked before
  either commits, and the second chooses a label that is still free, the second commit moves the
  branch to a revision that does not descend from the first one's. The test against a stale head is
  made before the transaction, and the transaction sets the tip unconditionally.\<close>

theorem concurrent_merges_lose_one:
  assumes "check_merge env1 req1 db = (Inr plan1, audits1)" and "check_merge env2 req2 db = (Inr plan2, audits2)"
    and "mp_branch plan1 = mp_branch plan2" and "me_new_id env1 \<noteq> me_new_id env2"
    and "fresh_in_history (md_graph db) (me_new_id env1)" and "fresh_in_history (md_graph db) (me_new_id env2)"
    and "commit_merge env1 plan1 db = (Inr new1, db1)"
    and "\<forall>(_, n) \<in> set (md_graph db1). version_label n \<noteq> Some (new_version_string env2)"
  shows "\<exists>db2. commit_merge env2 plan2 db1 = (Inr (me_new_id env2), db2)
    \<and> map_of (md_branches db1) (mp_branch plan1) = Some new1
    \<and> map_of (md_branches db2) (mp_branch plan1) = Some (me_new_id env2)
    \<and> \<not> (parent_of (md_graph db2))\<^sup>*\<^sup>* (me_new_id env2) new1"
proof -
  let ?new2 = "me_new_id env2"
  note plans = check_merge_plan[OF assms(1), THEN conjunct1] check_merge_plan[OF assms(2), THEN conjunct1]
  obtain classes1 where first: "new1 = me_new_id env1" "new_classes plan1 db = Inr classes1"
    "md_graph db1 = AList.update new1 (merged_node env1 plan1) (md_graph db)"
    "\<And>r. extract_schemas db1 r = (if r = new1 then classes1 else extract_schemas db r)"
    "md_branches db1 = AList.update (mp_branch plan1) new1 (md_branches db)"
    by (rule commit_merge_Inr[OF assms(7)]) blast
  have neq: "new1 \<noteq> mp_source_tip plan2" "new1 \<noteq> mp_target_tip plan2"
    using plans(2) assms(5) by (auto simp: first(1) plan_of_def fresh_in_history_def)
  have "tips_kept plan2 db db1" using neq by (simp add: tips_kept_def first(4))
  from new_classes_merged[OF plans(2) this] obtain classes2 where "new_classes plan2 db1 = Inr classes2" by blast
  moreover have "\<not> list_ex (\<lambda>(_, n). version_label n = Some (new_version_string env2)) (md_graph db1)"
    using assms(8) by (auto simp: list_ex_iff)
  ultimately obtain db2 where second: "commit_merge env2 plan2 db1 = (Inr ?new2, db2)"
    by (simp add: commit_merge_def Let_def)
  obtain classes where db2: "md_graph db2 = AList.update ?new2 (merged_node env2 plan2) (md_graph db1)"
    "md_branches db2 = AList.update (mp_branch plan2) ?new2 (md_branches db1)"
    by (rule commit_merge_Inr[OF second]) blast
  have p: "set (parents (merged_node env plan)) = {mp_target_tip plan, mp_source_tip plan}" if "plan_of db plan" for env plan
    by (rule parents_merged[OF that]) (use assms(5) in \<open>simp add: fresh_in_history_def\<close>)
  have "\<not> parent_of (md_graph db2) c new1" for c
    using p[OF plans(1)] p[OF plans(2)] neq assms(5) plans(1)
    by (auto simp: db2(1) first parent_of_def plan_of_def fresh_in_history_def split: if_splits)
  then have "\<not> (parent_of (md_graph db2))\<^sup>*\<^sup>* ?new2 new1"
    using assms(4) first(1) by (metis rtranclp.cases)
  then show ?thesis using second assms(3) by (simp add: first(5) db2(2))
qed

section \<open>A merge of two branches\<close>

text \<open>\<open>main\<close> added a schema, \<open>dev\<close> retyped another.\<close>

definition demo_merge_db :: merge_db where
  "demo_merge_db = \<lparr>md_graph = map (\<lambda>(r, p). (r, \<lparr>revision_id = r, parent_id = p, merge_parent_id = None,
       rev_created_at = TsText ''2026-01-01'', version_label = Some r\<rparr>))
       [(''a'', None), (''b'', Some ''a''), (''c'', Some ''a'')],
     md_schemas = [(''a'', [(''A'', JString ''object'')]), (''b'', [(''A'', JString ''object''), (''B'', JNull)]),
       (''c'', [(''A'', JString ''string'')])],
     md_branches = [(''main'', ''b''), (''dev'', ''c'')], md_audit = []\<rparr>"

definition demo_merge_env :: "string \<Rightarrow> string \<Rightarrow> merge_env" where
  "demo_merge_env new latest = \<lparr>me_user = Some ''u'', me_project = True, me_immutable = (\<lambda>_. False), me_admin = False,
     me_gate = False, me_compatible = (\<lambda>_ _. True), me_policy_ok = True, me_new_id = new, me_created = TsText ''2026-01-02'',
     me_latest = Some latest\<rparr>"

definition demo_request :: "string \<Rightarrow> merge_request" where
  "demo_request base = \<lparr>mq_source = ''dev'', mq_target = ''main'', mq_base_revision = base, mq_override = False,
     mq_skip_gate = False, mq_gate_reason = []\<rparr>"

lemma demo_check: "check_merge (demo_merge_env ''n'' ''0.1.1'') (demo_request ''b'') demo_merge_db =
    (Inr \<lparr>mp_source_tip = ''c'', mp_target_tip = ''b'', mp_branch = ''main'',
       mp_ours = [(''A'', JString ''object''), (''B'', JNull)], mp_theirs = [(''A'', JString ''string'')],
       mp_merged = [(''A'', JString ''string''), (''B'', JNull)]\<rparr>, [])"
  by code_simp

lemma demo_merged: "version_branch_merge (demo_merge_env ''n'' ''0.1.1'') (demo_request ''b'') demo_merge_db =
    (Inr ''n'', snd (version_branch_merge (demo_merge_env ''n'' ''0.1.1'') (demo_request ''b'') demo_merge_db))"
  by code_simp

lemma accepted_merge_commits_the_result_witness:
  "\<exists>merged. same_schemas (extract_schemas (snd (version_branch_merge (demo_merge_env ''n'' ''0.1.1'') (demo_request ''b'') demo_merge_db)) ''n'')
      merged \<and> best_common (md_graph demo_merge_db) ''c'' ''b'' ''a''"
proof -
  have "merge_base (md_graph demo_merge_db) ''c'' ''b'' = Some ''a''" by code_simp
  from accepted_merge_commits_the_result[OF demo_merged] merge_base_Some(1)[OF this] show ?thesis by blast
qed


lemma demo_fresh: "new \<notin> {''a'', ''b'', ''c'', []} \<Longrightarrow> fresh_in_history (md_graph demo_merge_db) new"
  unfolding fresh_in_history_def
  by (intro conjI acyclic_by_rank[where f = "\<lambda>r. if r = ''a'' then 0 else 1"])
    (auto simp: demo_merge_db_def parents_def parent_of_def split: if_splits)

lemma merging_again_changes_no_schema_witness:
  "let db1 = snd (version_branch_merge (demo_merge_env ''n'' ''0.1.1'') (demo_request ''b'') demo_merge_db);
       db2 = snd (version_branch_merge (demo_merge_env ''o'' ''0.1.2'') (demo_request ''n'') db1)
   in same_schemas (extract_schemas db2 ''o'') (extract_schemas db1 ''n'')"
proof -
  let ?db1 = "snd (version_branch_merge (demo_merge_env ''n'' ''0.1.1'') (demo_request ''b'') demo_merge_db)"
  have again: "version_branch_merge (demo_merge_env ''o'' ''0.1.2'') (demo_request ''n'') ?db1 =
      (Inr ''o'', snd (version_branch_merge (demo_merge_env ''o'' ''0.1.2'') (demo_request ''n'') ?db1))"
    by code_simp
  have "strip ''dev'' \<noteq> strip ''main''" by code_simp
  then show ?thesis
    using merging_again_changes_no_schema[OF demo_merged demo_fresh _ _ _ again] by (simp add: demo_request_def)
qed

lemma concurrent_merges_lose_one_witness:
  "\<exists>plan db1 db2. commit_merge (demo_merge_env ''n'' ''0.1.1'') plan demo_merge_db = (Inr ''n'', db1)
     \<and> commit_merge (demo_merge_env ''o'' ''0.1.2'') plan db1 = (Inr ''o'', db2)
     \<and> map_of (md_branches db2) ''main'' = Some ''o'' \<and> \<not> (parent_of (md_graph db2))\<^sup>*\<^sup>* ''o'' ''n''"
proof -
  let ?e1 = "demo_merge_env ''n'' ''0.1.1''" and ?e2 = "demo_merge_env ''o'' ''0.1.2''"
  let ?plan = "projr (fst (check_merge ?e1 (demo_request ''b'') demo_merge_db))"
  have c: "check_merge ?e1 (demo_request ''b'') demo_merge_db = (Inr ?plan, [])"
    "check_merge ?e2 (demo_request ''b'') demo_merge_db = (Inr ?plan, [])"
    "commit_merge ?e1 ?plan demo_merge_db = (Inr ''n'', snd (commit_merge ?e1 ?plan demo_merge_db))"
    "list_all (\<lambda>(_, n). version_label n \<noteq> Some (new_version_string ?e2)) (md_graph (snd (commit_merge ?e1 ?plan demo_merge_db)))"
    "mp_branch ?plan = ''main''"
    by code_simp+
  have labels: "\<forall>(_, n) \<in> set (md_graph (snd (commit_merge ?e1 ?plan demo_merge_db))). version_label n \<noteq> Some (new_version_string ?e2)"
    using c(4) by (simp only: list_all_iff)
  have ids: "me_new_id (demo_merge_env r v) = r" for r v by (simp add: demo_merge_env_def)
  have fresh: "''n'' \<noteq> ''o''" "fresh_in_history (md_graph demo_merge_db) ''n''" "fresh_in_history (md_graph demo_merge_db) ''o''"
    by (simp, (rule demo_fresh, simp)+)
  from concurrent_merges_lose_one[OF c(1,2) refl _ _ _ c(3) labels, unfolded ids c(5), OF fresh]
  show ?thesis by (elim exE conjE) (intro exI conjI, rule c(3), assumption+)
qed

lemma preview_agrees_except_on_empty_witness:
  "preview_can_auto_merge demo_merge_db ''c'' ''b'' = Inr True"
proof -
  have "merged_content (demo_merge_env ''n'' ''0.1.1'') (demo_request ''b'') ''c'' ''b'' demo_merge_db =
      Inr [(''A'', JString ''string''), (''B'', JNull)]"
    by code_simp
  then show ?thesis using preview_agrees_except_on_empty[THEN conjunct1] by fastforce
qed

end
