(* ===== verification/ScanBudget.thy ===== *)
theory ScanBudget
  imports JsonValue Cadence
begin

text \<open>
  The policy of a bounded repository walk (\<open>repository_scan_budget.py\<close>): the clamped time budget and
  chunk size, the budget object, and the resume cursor with its JSON form. Clock readings are
  rationals instead of floats. What \<open>str\<close> makes of a JSON value that is not text and \<open>int\<close> of a
  float are parameters of reading a cursor; a stored tip that is not text reads as absent.
\<close>

section \<open>Budget\<close>

definition resolve_scan_budget_seconds :: "int option \<Rightarrow> int \<Rightarrow> int \<Rightarrow> int \<Rightarrow> int" where
  "resolve_scan_budget_seconds configured default_seconds floor_seconds ceiling_seconds =
     (let flr = (if floor_seconds \<ge> 1 then floor_seconds else 1);
          ceiling = (if ceiling_seconds \<ge> flr then ceiling_seconds else flr);
          budget = (case configured of None \<Rightarrow> default_seconds | Some c \<Rightarrow> if c \<le> 0 then default_seconds else c)
      in if budget < flr then flr else if budget > ceiling then ceiling else budget)"

definition max_walk_chunk_size :: int where
  "max_walk_chunk_size = 1000"

definition default_walk_chunk_size :: int where
  "default_walk_chunk_size = 1000"

definition resolve_chunk_size :: "int option \<Rightarrow> int" where
  "resolve_chunk_size configured =
     min (case configured of None \<Rightarrow> default_walk_chunk_size | Some c \<Rightarrow> if c \<le> 0 then default_walk_chunk_size else c)
       max_walk_chunk_size"

fun chunk_up :: "int \<Rightarrow> 'a list \<Rightarrow> 'a list \<Rightarrow> 'a list list" where
  "chunk_up limit buffer [] = (if buffer = [] then [] else [buffer])"
| "chunk_up limit buffer (x # xs) =
     (let buffer = buffer @ [x]
      in if int (length buffer) \<ge> limit then buffer # chunk_up limit [] xs else chunk_up limit buffer xs)"

definition chunked :: "'a list \<Rightarrow> int \<Rightarrow> 'a list list" where
  "chunked items limit = chunk_up (resolve_chunk_size (Some limit)) [] items"

record scan_budget =
  sb_seconds :: int
  sb_started :: rat

definition new_scan_budget :: "int option \<Rightarrow> rat \<Rightarrow> scan_budget" where
  "new_scan_budget seconds now =
     \<lparr>sb_seconds = (case seconds of None \<Rightarrow> 0 | Some s \<Rightarrow> if s > 0 then s else 0), sb_started = now\<rparr>"

definition exhausted :: "scan_budget \<Rightarrow> rat \<Rightarrow> bool" where
  "exhausted budget now = (if sb_seconds budget \<le> 0 then False else now - sb_started budget \<ge> of_int (sb_seconds budget))"

definition remaining_seconds :: "scan_budget \<Rightarrow> rat \<Rightarrow> rat option" where
  "remaining_seconds budget now =
     (if sb_seconds budget \<le> 0 then None else Some (of_int (sb_seconds budget) - (now - sb_started budget)))"

section \<open>Cursor\<close>

datatype walk_mode = RecursiveWalk | SparseWalk

record scan_cursor =
  sc_tree :: string
  sc_mode :: walk_mode
  sc_emitted :: int
  sc_pending :: "(string \<times> string) list"
  sc_tip_sha :: "string option"
  sc_tip_at :: "string option"
  sc_truncated :: "string list"

definition cursor_schema_version :: int where
  "cursor_schema_version = 1"

definition mode_text :: "walk_mode \<Rightarrow> string" where
  "mode_text m = (case m of RecursiveWalk \<Rightarrow> ''recursive'' | SparseWalk \<Rightarrow> ''sparse'')"

definition mode_of_text :: "string \<Rightarrow> walk_mode" where
  "mode_of_text t = (if t = ''sparse'' then SparseWalk else RecursiveWalk)"

definition text_json :: "string option \<Rightarrow> json" where
  "text_json t = (case t of None \<Rightarrow> JNull | Some s \<Rightarrow> JString s)"

definition cursor_to_json :: "scan_cursor \<Rightarrow> json" where
  "cursor_to_json c = JObject
     [(''version'', JInt cursor_schema_version), (''tree_sha'', JString (sc_tree c)), (''mode'', JString (mode_text (sc_mode c))),
      (''emitted'', JInt (sc_emitted c)),
      (''pending'', JArray (map (\<lambda>(sha, pre). JObject [(''sha'', JString sha), (''prefix'', JString pre)]) (sc_pending c))),
      (''tip_commit_sha'', text_json (sc_tip_sha c)), (''tip_committed_at'', text_json (sc_tip_at c)),
      (''truncated_prefixes'', JArray (map JString (sc_truncated c)))]"

text \<open>Python's view of a JSON value: its truth, \<open>int(x or 0)\<close> and \<open>str(x or "")\<close>.\<close>

record py_views =
  pv_str :: "json \<Rightarrow> string"
  pv_float_int :: "string \<Rightarrow> int"

definition truthy :: "json \<Rightarrow> bool" where
  "truthy v = (case v of
       JNull \<Rightarrow> False | JBool b \<Rightarrow> b | JInt i \<Rightarrow> i \<noteq> 0
     | JFloat t \<Rightarrow> list_ex (\<lambda>c. digit_val c \<notin> {None, Some 0}) (takeWhile (\<lambda>c. c \<notin> set ''eE'') t)
     | JString s \<Rightarrow> s \<noteq> [] | JArray xs \<Rightarrow> xs \<noteq> [] | JObject kvs \<Rightarrow> kvs \<noteq> [])"

definition str_of :: "py_views \<Rightarrow> json \<Rightarrow> string" where
  "str_of pv v = (case v of JString s \<Rightarrow> s | _ \<Rightarrow> pv_str pv v)"

definition str_or_empty :: "py_views \<Rightarrow> json option \<Rightarrow> string" where
  "str_or_empty pv v = (case v of None \<Rightarrow> [] | Some j \<Rightarrow> if truthy j then str_of pv j else [])"

datatype cursor_error = NotANumber

definition int_or_zero :: "py_views \<Rightarrow> json option \<Rightarrow> cursor_error + int" where
  "int_or_zero pv v =
     (case v of
        None \<Rightarrow> Inr 0
      | Some j \<Rightarrow>
          if \<not> truthy j then Inr 0
          else (case j of
              JBool b \<Rightarrow> Inr 1
            | JInt i \<Rightarrow> Inr i
            | JFloat t \<Rightarrow> Inr (pv_float_int pv t)
            | JString s \<Rightarrow> (case py_int s of None \<Rightarrow> Inl NotANumber | Some i \<Rightarrow> Inr i)
            | _ \<Rightarrow> Inl NotANumber))"

definition read_pending :: "py_views \<Rightarrow> json \<Rightarrow> (string \<times> string) option" where
  "read_pending pv entry =
     (case entry of
        JObject kvs \<Rightarrow>
          (let sha = strip (str_or_empty pv (map_of kvs ''sha''))
           in if sha = [] then None else Some (sha, str_or_empty pv (map_of kvs ''prefix'')))
      | _ \<Rightarrow> None)"

definition text_or_none :: "json option \<Rightarrow> string option" where
  "text_or_none v = (case v of Some (JString s) \<Rightarrow> if s = [] then None else Some s | _ \<Rightarrow> None)"

definition cursor_from_json :: "py_views \<Rightarrow> json option \<Rightarrow> cursor_error + scan_cursor option" where
  "cursor_from_json pv payload =
     (case payload of
        Some (JObject kvs) \<Rightarrow>
          (case int_or_zero pv (map_of kvs ''version'') of
             Inl e \<Rightarrow> Inl e
           | Inr version \<Rightarrow>
               (let tree = strip (str_or_empty pv (map_of kvs ''tree_sha''));
                    pending = (case map_of kvs ''pending'' of
                        Some (JArray entries) \<Rightarrow> Some (List.map_filter (read_pending pv) entries)
                      | None \<Rightarrow> Some []
                      | Some JNull \<Rightarrow> Some []
                      | _ \<Rightarrow> None);
                    truncated = (case map_of kvs ''truncated_prefixes'' of Some (JArray ps) \<Rightarrow> map (str_of pv) ps | _ \<Rightarrow> []);
                    mode = str_or_empty pv (map_of kvs ''mode'')
                in if version \<noteq> cursor_schema_version \<or> tree = [] then Inr None
                   else case pending of
                     None \<Rightarrow> Inr None
                   | Some pending \<Rightarrow>
                       (case int_or_zero pv (map_of kvs ''emitted'') of
                          Inl e \<Rightarrow> Inl e
                        | Inr emitted \<Rightarrow>
                            Inr (Some \<lparr>sc_tree = tree, sc_mode = mode_of_text mode, sc_emitted = max 0 emitted, sc_pending = pending,
                              sc_tip_sha = text_or_none (map_of kvs ''tip_commit_sha''),
                              sc_tip_at = text_or_none (map_of kvs ''tip_committed_at''), sc_truncated = truncated\<rparr>))))
      | _ \<Rightarrow> Inr None)"

section \<open>Expiry and abandonment\<close>

definition default_cursor_max_age_seconds :: int where
  "default_cursor_max_age_seconds = 86400"

definition is_cursor_expired :: "timestamp \<Rightarrow> py_datetime \<Rightarrow> int \<Rightarrow> bool" where
  "is_cursor_expired updated_at now max_age_seconds =
     (if max_age_seconds \<le> 0 then False
      else case as_utc updated_at of
        None \<Rightarrow> True
      | Some written \<Rightarrow> instant now - instant written \<ge> max_age_seconds * usec)"

definition max_scan_resume_attempts :: int where
  "max_scan_resume_attempts = 20"

definition should_abandon_cursor :: "int option \<Rightarrow> int \<Rightarrow> bool" where
  "should_abandon_cursor attempt_count max_attempts =
     ((case attempt_count of None \<Rightarrow> 0 | Some n \<Rightarrow> n) \<ge> max 1 max_attempts)"

section \<open>Cursors survive storage\<close>

definition cursor_ok :: "scan_cursor \<Rightarrow> bool" where
  "cursor_ok c \<longleftrightarrow> sc_tree c \<noteq> [] \<and> strip (sc_tree c) = sc_tree c \<and> 0 \<le> sc_emitted c
     \<and> list_all (\<lambda>(sha, _). sha \<noteq> [] \<and> strip sha = sha) (sc_pending c) \<and> sc_tip_sha c \<noteq> Some [] \<and> sc_tip_at c \<noteq> Some []"

lemma str_or_empty_text [simp]: "str_or_empty pv (Some (JString s)) = s"
  by (simp add: str_or_empty_def str_of_def truthy_def)

lemma int_or_zero_int [simp]: "int_or_zero pv (Some (JInt i)) = Inr i"
  by (simp add: int_or_zero_def truthy_def)

lemma text_or_none_text: "t \<noteq> Some [] \<Longrightarrow> text_or_none (Some (text_json t)) = t"
  by (cases t) (auto simp: text_or_none_def text_json_def)

lemma mode_of_mode_text [simp]: "mode_of_text (mode_text m) = m"
  by (cases m) (simp_all add: mode_of_text_def mode_text_def)

lemma read_pending_written:
  "list_all (\<lambda>(sha, _). sha \<noteq> [] \<and> strip sha = sha) pending \<Longrightarrow>
     List.map_filter (read_pending pv) (map (\<lambda>(sha, pre). JObject [(''sha'', JString sha), (''prefix'', JString pre)]) pending)
       = pending"
  by (induction pending) (auto simp: map_filter_simps read_pending_def)

lemma cursor_from_to_json: "cursor_ok c \<Longrightarrow> cursor_from_json pv (Some (cursor_to_json c)) = Inr (Some c)"
  by (simp add: cursor_from_json_def cursor_to_json_def cursor_ok_def read_pending_written text_or_none_text
      cursor_schema_version_def str_of_def comp_def max_def)

text \<open>\<open>from_json\<close> promises \<open>None\<close> for anything malformed, but raises on a version that is not a number.\<close>

lemma malformed_version_raises: "cursor_from_json pv (Some (JObject [(''version'', JString ''one'')])) = Inl NotANumber"
  by (simp add: cursor_from_json_def int_or_zero_def truthy_def) code_simp

lemma budget_range:
  "let flr = max 1 floor_seconds; b = resolve_scan_budget_seconds configured default_seconds floor_seconds ceiling_seconds
   in flr \<le> b \<and> b \<le> max flr ceiling_seconds"
  by (auto simp: resolve_scan_budget_seconds_def Let_def)

lemma chunk_size_range: "1 \<le> resolve_chunk_size c \<and> resolve_chunk_size c \<le> 1000"
  by (auto simp: resolve_chunk_size_def max_walk_chunk_size_def default_walk_chunk_size_def split: option.splits)

lemma chunk_up_spec:
  assumes "1 \<le> limit" and "int (length buffer) < limit"
  shows "concat (chunk_up limit buffer xs) = buffer @ xs
    \<and> (\<forall>c \<in> set (chunk_up limit buffer xs). c \<noteq> [] \<and> int (length c) \<le> limit)"
  using assms by (induction limit buffer xs rule: chunk_up.induct) (auto simp: Let_def)

section \<open>Properties\<close>

text \<open>A stored cursor reads back as the position it was: whatever the mode, queue, tip and
  truncated prefixes, provided its tree and pending directories have proper identifiers.\<close>

theorem cursor_roundtrip:
  "cursor_ok c \<Longrightarrow> cursor_from_json pv (Some (cursor_to_json c)) = Inr (Some c)"
  by (rule cursor_from_to_json)

lemma cursor_roundtrip_witness:
  "let c = \<lparr>sc_tree = ''t'', sc_mode = SparseWalk, sc_emitted = 3, sc_pending = [(''d'', ''src/a'')], sc_tip_sha = Some ''c'',
      sc_tip_at = None, sc_truncated = []\<rparr>
   in cursor_from_json \<lparr>pv_str = (\<lambda>_. []), pv_float_int = (\<lambda>_. 0)\<rparr> (Some (cursor_to_json c)) = Inr (Some c)"
  unfolding Let_def by (rule cursor_roundtrip) (simp add: cursor_ok_def strip_def lstrip_def rstrip_def py_space_def)

end
