(* ===== verification/FileKinds.thy ===== *)
theory FileKinds
  imports Conflict
begin

text \<open>
  What a walked file is, from its name alone (\<open>repository_file_scan.py\<close>): the candidate kind of a
  path, the test whether a file can be imported, and the SQL fragments that \<open>database.py\<close> and
  \<open>repository_spec_catalog.py\<close> keep as mirrors of it. \<open>lower\<close> stands for \<open>str.lower\<close> and for the
  case folding of \<open>ILIKE\<close>; both are only compared with ASCII text.
\<close>

section \<open>Text\<close>

definition starts_with :: "string \<Rightarrow> string \<Rightarrow> bool" where
  "starts_with s t = (take (length t) s = t)"

definition ends_with :: "string \<Rightarrow> string \<Rightarrow> bool" where
  "ends_with s t = (length t \<le> length s \<and> drop (length s - length t) s = t)"

fun contains :: "string \<Rightarrow> string \<Rightarrow> bool" where
  "contains [] t = (t = [])"
| "contains (c # s) t = (starts_with (c # s) t \<or> contains s t)"

definition basename :: "string \<Rightarrow> string" where
  "basename s = rsplit_last (CHR ''/'') s"

definition slashed :: "string \<Rightarrow> string" where
  "slashed s = map (\<lambda>c. if c = CHR 0x5C then CHR ''/'' else c) s"

section \<open>Kinds\<close>

definition is_document :: "string \<Rightarrow> bool" where
  "is_document base \<longleftrightarrow> ends_with base ''.yaml'' \<or> ends_with base ''.yml'' \<or> ends_with base ''.json''"

definition detected_kind_from_path :: "string \<Rightarrow> string option" where
  "detected_kind_from_path path =
     (let raw = strip path; low = lower raw; base = basename low in
      if raw = [] then None
      else if base = ''schema.prisma'' then Some ''prisma-candidate''
      else if base = ''postman_collection.json'' \<or> ends_with base ''.postman.json'' then Some ''postman-candidate''
      else if contains base ''openapi'' \<and> is_document base then Some ''openapi-candidate''
      else if contains base ''swagger'' \<and> is_document base then Some ''openapi-candidate''
      else if contains base ''arazzo'' \<and> is_document base then Some ''arazzo-candidate''
      else if contains base ''.arazzo.yaml'' \<or> contains low ''.arazzo.yml'' then Some ''arazzo-candidate''
      else if contains base ''asyncapi'' \<and> is_document base then Some ''asyncapi-candidate''
      else if ends_with base ''.proto'' then Some ''protobuf-candidate''
      else if ends_with base ''.avsc'' then Some ''avro-candidate''
      else if ends_with base ''.graphql'' \<or> ends_with base ''.gql'' then Some ''graphql-candidate''
      else if ends_with base ''.dbml'' then Some ''dbml-candidate''
      else if ends_with base ''.sql'' \<or> ends_with base ''.ddl'' then Some ''sql-ddl-candidate''
      else if contains low ''/schemas/'' \<and> ends_with base ''.json'' then Some ''json-candidate''
      else if ends_with base ''.schema.json'' then Some ''json-candidate''
      else if ends_with base ''.yaml'' \<or> ends_with base ''.yml'' then Some ''yaml-candidate''
      else if ends_with base ''.json'' then Some ''json-candidate''
      else None)"

definition json_schema_shaped_path :: "string \<Rightarrow> bool" where
  "json_schema_shaped_path path =
     (let low = slashed (lower (strip path)) in
      if \<not> ends_with low ''.json'' then False
      else if ends_with (basename low) ''.schema.json'' then True
      else contains low ''/schemas/'' \<or> starts_with low ''schemas/'')"

definition importable_kinds :: "string list" where
  "importable_kinds = [''openapi'', ''arazzo'', ''asyncapi'', ''graphql'', ''protobuf'', ''postman'', ''prisma'', ''sql-ddl'',
     ''avro'', ''dbml'']"

definition importable_hint :: "string option \<Rightarrow> string \<Rightarrow> bool" where
  "importable_hint kind path =
     (case kind of
        None \<Rightarrow> False
      | Some k \<Rightarrow>
          if k = [] then False
          else if list_ex (\<lambda>p. starts_with (lower k) p) importable_kinds then True
          else starts_with (lower k) ''json'' \<and> json_schema_shaped_path path)"

section \<open>The mirrors in SQL\<close>

fun like_match :: "string \<Rightarrow> string \<Rightarrow> bool" where
  "like_match [] s = (s = [])"
| "like_match (p # ps) [] = (p = CHR ''%'' \<and> like_match ps [])"
| "like_match (p # ps) (c # s) =
     (if p = CHR ''%'' then like_match ps (c # s) \<or> like_match (p # ps) s
      else (p = CHR ''_'' \<or> p = c) \<and> like_match ps s)"

definition ilike :: "string \<Rightarrow> string \<Rightarrow> bool" where
  "ilike s pattern = like_match (lower pattern) (lower s)"

definition json_schema_sql :: "string \<Rightarrow> bool" where
  "json_schema_sql path \<longleftrightarrow>
     ilike path ''%.schema.json'' \<or> ilike path ''%/schemas/%.json'' \<or> ilike path ''schemas/%.json''"

definition importable_sql :: "string option \<Rightarrow> string \<Rightarrow> bool" where
  "importable_sql kind path =
     (case kind of
        None \<Rightarrow> False
      | Some k \<Rightarrow>
          ilike k ''openapi%'' \<or> ilike k ''arazzo%'' \<or> ilike k ''asyncapi%'' \<or> ilike k ''graphql%'' \<or> ilike k ''protobuf%''
          \<or> ilike k ''postman%'' \<or> ilike k ''prisma%'' \<or> ilike k ''sql-ddl%'' \<or> ilike k ''avro%'' \<or> ilike k ''dbml%''
          \<or> ilike k ''json%'' \<and> json_schema_sql path)"

definition spec_format_sql :: "string option \<Rightarrow> string \<Rightarrow> string" where
  "spec_format_sql kind path =
     (case kind of
        None \<Rightarrow> ''unclassified''
      | Some k \<Rightarrow>
          if ilike k ''openapi%'' \<or> ilike k ''swagger%'' then ''openapi''
          else if ilike k ''arazzo%'' then ''arazzo''
          else if ilike k ''asyncapi%'' then ''asyncapi''
          else if ilike k ''graphql%'' then ''graphql''
          else if ilike k ''protobuf%'' then ''protobuf''
          else if ilike k ''postman%'' then ''postman''
          else if ilike k ''sql-ddl%'' then ''sql_ddl''
          else if ilike k ''prisma%'' then ''prisma''
          else if ilike k ''avro%'' then ''avro''
          else if ilike k ''dbml%'' then ''dbml''
          else if ilike k ''json%'' \<and> json_schema_sql path then ''json_schema''
          else ''other'')"

section \<open>Patterns\<close>

lemma starts_with_iff: "starts_with s t \<longleftrightarrow> (\<exists>r. s = t @ r)"
  unfolding starts_with_def by (metis append_eq_conv_conj append_take_drop_id)

lemma ends_with_iff: "ends_with s t \<longleftrightarrow> (\<exists>r. s = r @ t)"
  unfolding ends_with_def by (auto simp: append_eq_conv_conj) (metis append_take_drop_id)

lemma contains_iff: "contains s t \<longleftrightarrow> (\<exists>a b. s = a @ t @ b)"
proof (induction s)
  case (Cons c s)
  show ?case
  proof
    assume "contains (c # s) t"
    then consider r where "c # s = t @ r" | a b where "s = a @ t @ b"
      using Cons.IH by (auto simp: starts_with_iff)
    then show "\<exists>a b. c # s = a @ t @ b" by cases (metis append_Nil, metis append_Cons)
  next
    assume "\<exists>a b. c # s = a @ t @ b"
    then obtain a b where ab: "c # s = a @ t @ b" by blast
    show "contains (c # s) t"
    proof (cases a)
      case Nil
      then have "starts_with (c # s) t" using ab by (auto simp: starts_with_iff)
      then show ?thesis by simp
    qed (use ab Cons.IH in auto)
  qed
qed auto

definition literal :: "string \<Rightarrow> bool" where
  "literal t \<longleftrightarrow> CHR ''%'' \<notin> set t \<and> CHR ''_'' \<notin> set t"

lemma like_literal: "literal t \<Longrightarrow> like_match (t @ p) s \<longleftrightarrow> (\<exists>r. s = t @ r \<and> like_match p r)"
proof (induction t arbitrary: s)
  case (Cons c t)
  then show ?case by (cases s) (auto simp: literal_def)
qed simp

lemma like_any: "like_match (CHR ''%'' # p) s \<longleftrightarrow> (\<exists>a r. s = a @ r \<and> like_match p r)"
proof (induction s)
  case (Cons c s)
  have "(\<exists>a r. c # s = a @ r \<and> like_match p r) \<longleftrightarrow> like_match p (c # s) \<or> (\<exists>a r. s = a @ r \<and> like_match p r)"
    by (auto simp: Cons_eq_append_conv)
  then show ?case using Cons.IH by simp
qed simp

lemma like_nil: "like_match [] r \<longleftrightarrow> r = []"
  by simp

lemma like_prefix: "literal t \<Longrightarrow> like_match (t @ ''%'') s \<longleftrightarrow> starts_with s t"
  by (auto simp: like_literal like_any starts_with_iff)

lemma like_suffix: "literal t \<Longrightarrow> like_match (CHR ''%'' # t) s \<longleftrightarrow> ends_with s t"
  using like_literal[of t "[]"] by (auto simp: like_any ends_with_iff)

lemma like_between:
  "literal t \<Longrightarrow> literal u \<Longrightarrow> like_match (t @ CHR ''%'' # u) s \<longleftrightarrow> (\<exists>r. s = t @ r \<and> ends_with r u)"
  by (simp add: like_literal like_suffix)

lemma like_contains:
  "literal t \<Longrightarrow> literal u \<Longrightarrow>
     like_match (CHR ''%'' # t @ CHR ''%'' # u) s \<longleftrightarrow> (\<exists>a r. s = a @ t @ r \<and> ends_with r u)"
  unfolding like_any like_between by blast

section \<open>Agreement\<close>

lemma ends_with_append:
  assumes "u \<noteq> []" and "last u \<notin> set t"
  shows "ends_with (u @ r) t \<longleftrightarrow> ends_with r t"
proof
  assume "ends_with (u @ r) t"
  then obtain q where "u @ r = q @ t" by (auto simp: ends_with_iff)
  then consider us where "u = q @ us" "us @ r = t" | us where "q = u @ us" "r = us @ t"
    by (auto simp: append_eq_append_conv2)
  then show "ends_with r t"
  proof cases
    case 1
    then have "us = []" using assms by (cases us rule: rev_cases) auto
    then show ?thesis using 1 by (auto simp: ends_with_iff)
  qed (auto simp: ends_with_iff)
qed (auto simp: ends_with_iff)

lemma contains_ends:
  assumes "t \<noteq> []" and "last t \<notin> set u"
  shows "contains s t \<and> ends_with s u \<longleftrightarrow> (\<exists>a r. s = a @ t @ r \<and> ends_with r u)"
    and "starts_with s t \<and> ends_with s u \<longleftrightarrow> (\<exists>r. s = t @ r \<and> ends_with r u)"
proof -
  have "ends_with (a @ t @ r) u \<longleftrightarrow> ends_with r u" for a r
    using ends_with_append[of "a @ t" u r] assms by simp
  then show "contains s t \<and> ends_with s u \<longleftrightarrow> (\<exists>a r. s = a @ t @ r \<and> ends_with r u)"
    unfolding contains_iff by metis
  show "starts_with s t \<and> ends_with s u \<longleftrightarrow> (\<exists>r. s = t @ r \<and> ends_with r u)"
    unfolding starts_with_iff using ends_with_append[OF assms] by metis
qed

lemma basename_split: "s = basename s \<or> (\<exists>a. s = a @ CHR ''/'' # basename s)"
proof -
  let ?t = "takeWhile (\<lambda>c. c \<noteq> CHR ''/'') (rev s)" and ?d = "dropWhile (\<lambda>c. c \<noteq> CHR ''/'') (rev s)"
  have s: "s = rev ?d @ basename s"
    unfolding basename_def rsplit_last_def by (metis rev_append rev_rev_ident takeWhile_dropWhile_id)
  show ?thesis
  proof (cases ?d)
    case Nil
    then have "s = basename s" using s unfolding Nil by simp
    then show ?thesis by blast
  next
    case (Cons x d)
    moreover have "x = CHR ''/''" using hd_dropWhile[of "\<lambda>c. c \<noteq> CHR ''/''" "rev s"] Cons by simp
    ultimately have "s = rev d @ CHR ''/'' # basename s" using s by (metis append.assoc append_Cons append_Nil rev.simps(2))
    then show ?thesis by blast
  qed
qed

lemma basename_ends: "CHR ''/'' \<notin> set t \<Longrightarrow> ends_with (basename s) t \<longleftrightarrow> ends_with s t"
proof (rule disjE[OF basename_split[of s]])
  assume t: "CHR ''/'' \<notin> set t" and "\<exists>a. s = a @ CHR ''/'' # basename s"
  then obtain a where a: "s = (a @ ''/'') @ basename s" by auto
  have "ends_with ((a @ ''/'') @ basename s) t \<longleftrightarrow> ends_with (basename s) t"
    by (rule ends_with_append) (use t in auto)
  then show "ends_with (basename s) t \<longleftrightarrow> ends_with s t" using a by simp
qed simp

lemma lower_backslash: "lower_char c = CHR 0x5C \<longleftrightarrow> c = CHR 0x5C"
proof
  assume c: "lower_char c = CHR 0x5C"
  then have "(of_char (lower_char c) :: nat) = 92" by simp
  moreover have "(of_char c :: nat) < 256" by simp
  ultimately have "lower_char c = c" by (auto simp: lower_char_def Let_def split: if_splits)
  then show "c = CHR 0x5C" using c by simp
qed (simp add: lower_char_def)

lemma lower_texts:
  "lower ''%.schema.json'' = CHR ''%'' # ''.schema.json''" "lower ''%/schemas/%.json'' = CHR ''%'' # ''/schemas/'' @ CHR ''%'' # ''.json''"
  "lower ''schemas/%.json'' = ''schemas/'' @ CHR ''%'' # ''.json''"
  by code_simp+

lemma literals: "literal ''.schema.json''" "literal ''/schemas/''" "literal ''.json''" "literal ''schemas/''"
  by (simp_all add: literal_def)

text \<open>Without a backslash and without surrounding space the path test and its mirror agree.\<close>

lemma json_schema_agrees:
  assumes "strip path = path" and "CHR 0x5C \<notin> set path"
  shows "json_schema_shaped_path path = json_schema_sql path"
proof -
  let ?low = "lower path"
  have "CHR 0x5C \<notin> set ?low"
  proof
    assume "CHR 0x5C \<in> set ?low"
    then obtain c where "c \<in> set path" "lower_char c = CHR 0x5C" unfolding lower_def set_map by (elim imageE) simp
    then show False using assms(2) unfolding lower_backslash by simp
  qed
  then have low: "slashed (lower (strip path)) = ?low"
    unfolding assms(1) slashed_def by (intro map_idI) auto
  have "ends_with ?low ''.json''" if suffix: "ends_with ?low ''.schema.json''"
  proof -
    obtain r where "?low = (r @ ''.schema'') @ ''.json''" using suffix by (auto simp: ends_with_iff)
    then show ?thesis unfolding ends_with_iff by blast
  qed
  moreover have "contains ?low ''/schemas/'' \<and> ends_with ?low ''.json''
      \<longleftrightarrow> (\<exists>a r. ?low = a @ ''/schemas/'' @ r \<and> ends_with r ''.json'')"
    by (rule contains_ends(1)) simp_all
  moreover have "starts_with ?low ''schemas/'' \<and> ends_with ?low ''.json''
      \<longleftrightarrow> (\<exists>r. ?low = ''schemas/'' @ r \<and> ends_with r ''.json'')"
    by (rule contains_ends(2)) simp_all
  moreover have "ends_with (basename ?low) ''.schema.json'' = ends_with ?low ''.schema.json''"
    by (rule basename_ends) simp
  ultimately show ?thesis
    unfolding json_schema_shaped_path_def Let_def low json_schema_sql_def ilike_def lower_texts
      like_suffix[OF literals(1)] like_contains[OF literals(2,3)] like_between[OF literals(4,3)]
    by argo
qed

lemma lower_prefixes:
  "lower ''openapi%'' = ''openapi'' @ ''%''" "lower ''arazzo%'' = ''arazzo'' @ ''%''" "lower ''asyncapi%'' = ''asyncapi'' @ ''%''"
  "lower ''graphql%'' = ''graphql'' @ ''%''" "lower ''protobuf%'' = ''protobuf'' @ ''%''" "lower ''postman%'' = ''postman'' @ ''%''"
  "lower ''prisma%'' = ''prisma'' @ ''%''" "lower ''sql-ddl%'' = ''sql-ddl'' @ ''%''" "lower ''avro%'' = ''avro'' @ ''%''"
  "lower ''dbml%'' = ''dbml'' @ ''%''" "lower ''json%'' = ''json'' @ ''%''" "lower ''swagger%'' = ''swagger'' @ ''%''"
  by code_simp+

lemma literal_kinds: "list_all literal importable_kinds" "literal ''json''" "literal ''swagger''"
  by (simp_all add: literal_def importable_kinds_def)

lemma ilike_kind: "p \<in> set (''json'' # ''swagger'' # importable_kinds) \<Longrightarrow> like_match (p @ ''%'') s \<longleftrightarrow> starts_with s p"
  using literal_kinds by (intro like_prefix) (auto simp: list_all_iff)

lemma importable_sql_iff:
  "importable_sql (Some k) path \<longleftrightarrow> list_ex (\<lambda>p. starts_with (lower k) p) importable_kinds
     \<or> starts_with (lower k) ''json'' \<and> json_schema_sql path"
  unfolding importable_sql_def ilike_def lower_prefixes option.case
  by (simp only: ilike_kind importable_kinds_def list.set insert_iff simp_thms list_ex_iff bex_simps empty_iff disj_assoc)

lemma kinds_are_lower:
  assumes "detected_kind_from_path path = Some k"
  shows "k \<in> set [''prisma-candidate'', ''postman-candidate'', ''openapi-candidate'', ''arazzo-candidate'', ''asyncapi-candidate'',
    ''protobuf-candidate'', ''avro-candidate'', ''graphql-candidate'', ''dbml-candidate'', ''sql-ddl-candidate'',
    ''json-candidate'', ''yaml-candidate'']"
  using assms unfolding detected_kind_from_path_def Let_def by (simp only: option.inject option.distinct list.set split: if_splits) auto

section \<open>Properties\<close>

text \<open>The importable test and its SQL mirror agree on every kind and every path that has no
  backslash and no surrounding space, so the counts kept while a branch is scanned and the counts
  read back from the rows are the same; and for the kinds the scanner assigns, a file is importable
  just when the catalog files it under a format.\<close>

theorem importable_mirrors_agree:
  assumes "strip path = path" and "CHR 0x5C \<notin> set path"
  shows "importable_hint kind path = importable_sql kind path
    \<and> (importable_sql (detected_kind_from_path name) path \<longleftrightarrow>
        spec_format_sql (detected_kind_from_path name) path \<notin> {''unclassified'', ''other''})"
proof
  show "importable_hint kind path = importable_sql kind path"
  proof (cases kind)
    case (Some k)
    have "\<not> list_ex (\<lambda>p. starts_with [] p) importable_kinds" "\<not> starts_with [] ''json''"
      by (simp_all add: importable_kinds_def starts_with_def)
    then show ?thesis
      by (cases "k = []") (auto simp: Some importable_hint_def importable_sql_iff json_schema_agrees[OF assms] lower_def)
  qed (simp add: importable_hint_def importable_sql_def)
  show "importable_sql (detected_kind_from_path name) path \<longleftrightarrow>
        spec_format_sql (detected_kind_from_path name) path \<notin> {''unclassified'', ''other''}"
  proof (cases "detected_kind_from_path name")
    case (Some k)
    have "importable_sql (Some k) path \<longleftrightarrow> spec_format_sql (Some k) path \<notin> {''unclassified'', ''other''}" if "\<not> ilike k ''swagger%''"
      using that unfolding importable_sql_def spec_format_sql_def option.case by (simp split: if_splits)
    moreover have "\<not> ilike k ''swagger%''"
      using kinds_are_lower[OF Some] unfolding ilike_def lower_prefixes by (auto simp: ilike_kind lower_def lower_char_def starts_with_def)
    ultimately show ?thesis unfolding Some by blast
  qed (simp add: importable_sql_def spec_format_sql_def)
qed

text \<open>On a path with a backslash the two differ.\<close>

lemma mirrors_differ_on_backslash:
  "importable_hint (detected_kind_from_path (''api'' @ [CHR 0x5C] @ ''schemas'' @ [CHR 0x5C] @ ''pet.json''))
     (''api'' @ [CHR 0x5C] @ ''schemas'' @ [CHR 0x5C] @ ''pet.json'')
   \<and> \<not> importable_sql (detected_kind_from_path (''api'' @ [CHR 0x5C] @ ''schemas'' @ [CHR 0x5C] @ ''pet.json''))
     (''api'' @ [CHR 0x5C] @ ''schemas'' @ [CHR 0x5C] @ ''pet.json'')"
  by code_simp

lemma importable_mirrors_agree_witness:
  "importable_sql (Some ''json-candidate'') ''api/schemas/pet.json''"
proof -
  have "strip ''api/schemas/pet.json'' = ''api/schemas/pet.json''" "importable_hint (Some ''json-candidate'') ''api/schemas/pet.json''"
    by code_simp+
  then show ?thesis using importable_mirrors_agree[of "''api/schemas/pet.json''" "Some ''json-candidate''"] by simp
qed

end
