(* ===== verification/ScanWalk.thy ===== *)
theory ScanWalk
  imports ScanBudget FileKinds "HOL-Library.Multiset"
begin

text \<open>
  The bounded walk of a branch's tree (\<open>repository_file_scan.py\<close>): the classification of the
  provider's answers, the first cursor, the recursive and the sparse walk with their chunks, pauses
  and interruptions. The provider's answers and the clock are oracles, numbered by request and by
  reading; answers are decoded JSON. The walk hands its chunks to the sink; it does not read what
  the sink does with them, so it returns the list of them. Error texts are the values of \<open>failure\<close>.
\<close>

section \<open>Provider\<close>

datatype entry_kind = BlobEntry | TreeEntry | OtherEntry

record tree_entry =
  te_kind :: entry_kind
  te_path :: string
  te_sha :: string
  te_size :: "int option"

record tree_reply =
  tr_truncated :: bool
  tr_entries :: "tree_entry list"

record branch_reply =
  br_commit :: string
  br_date :: string
  br_tree :: "string option"

datatype 'a http_reply = NetworkError string | HttpReply int 'a

datatype failure = RequestFailed string string | ApiError string int | ResourceNotFound string | BranchNotFound string | NoTreeSha
  | SetupFailed string | AttemptsExhausted "failure option" | CursorUnreadable

datatype scan_failure = TransientFailure failure | FatalFailure failure

record walk_env =
  we_branch :: "string \<Rightarrow> branch_reply http_reply"
  we_tree :: "nat \<Rightarrow> string \<Rightarrow> bool \<Rightarrow> tree_reply http_reply"
  we_clock :: "nat \<Rightarrow> rat"

definition transient_statuses :: "int list" where
  "transient_statuses = [408, 425, 429, 500, 502, 503, 504]"

definition get_github_json :: "string \<Rightarrow> 'a http_reply \<Rightarrow> scan_failure + 'a" where
  "get_github_json what reply =
     (case reply of
        NetworkError text \<Rightarrow> Inl (TransientFailure (RequestFailed what text))
      | HttpReply status payload \<Rightarrow>
          if status \<in> set transient_statuses then Inl (TransientFailure (ApiError what status))
          else if status = 404 then Inl (FatalFailure (ResourceNotFound what))
          else if status \<noteq> 200 then Inl (FatalFailure (ApiError what status))
          else Inr payload)"

definition start_cursor_for_branch :: "walk_env \<Rightarrow> string \<Rightarrow> scan_failure + scan_cursor" where
  "start_cursor_for_branch env branch =
     (case get_github_json ''branches'' (we_branch env branch) of
        Inl (FatalFailure (ResourceNotFound _)) \<Rightarrow> Inl (FatalFailure (BranchNotFound branch))
      | Inl e \<Rightarrow> Inl e
      | Inr tip \<Rightarrow>
          (case br_tree tip of
             None \<Rightarrow> Inl (FatalFailure NoTreeSha)
           | Some tree \<Rightarrow>
               if tree = [] then Inl (FatalFailure NoTreeSha)
               else Inr \<lparr>sc_tree = tree, sc_mode = RecursiveWalk, sc_emitted = 0, sc_pending = [],
                 sc_tip_sha = nonempty (take 64 (br_commit tip)), sc_tip_at = nonempty (strip (br_date tip)), sc_truncated = []\<rparr>))"

section \<open>Rows\<close>

record file_row =
  fr_path :: string
  fr_name :: string
  fr_ext :: "string option"
  fr_size :: "int option"
  fr_blob_sha :: "string option"
  fr_kind :: "string option"
  fr_commit :: "string option"
  fr_committed :: "string option"

definition blob_entry :: "tree_entry \<Rightarrow> string \<Rightarrow> scan_cursor \<Rightarrow> file_row" where
  "blob_entry entry path c =
     (let name = basename path;
          ext = (if CHR ''.'' \<in> set name then take 64 (lower (rsplit_last (CHR ''.'') name)) else [])
      in \<lparr>fr_path = path, fr_name = take 512 name, fr_ext = nonempty ext, fr_size = te_size entry,
           fr_blob_sha = nonempty (take 64 (te_sha entry)), fr_kind = detected_kind_from_path path,
           fr_commit = sc_tip_sha c, fr_committed = sc_tip_at c\<rparr>)"

section \<open>Walk\<close>

record walk =
  wk_cursor :: scan_cursor
  wk_buffer :: "file_row list"
  wk_chunks :: "file_row list list"
  wk_requests :: nat
  wk_readings :: nat

datatype walk_end = Finished | Paused | Interrupted failure | Broken failure

definition walk_flush :: "walk \<Rightarrow> walk" where
  "walk_flush w =
     (if wk_buffer w = [] then w
      else w\<lparr>wk_chunks := wk_chunks w @ [wk_buffer w], wk_buffer := [],
             wk_cursor := (wk_cursor w)\<lparr>sc_emitted := sc_emitted (wk_cursor w) + int (length (wk_buffer w))\<rparr>\<rparr>)"

definition buffer_row :: "int \<Rightarrow> tree_entry \<Rightarrow> string \<Rightarrow> walk \<Rightarrow> walk" where
  "buffer_row limit entry path w =
     (let w = w\<lparr>wk_buffer := wk_buffer w @ [blob_entry entry path (wk_cursor w)]\<rparr>
      in if int (length (wk_buffer w)) \<ge> limit then walk_flush w else w)"

definition budget_spent :: "walk_env \<Rightarrow> scan_budget option \<Rightarrow> walk \<Rightarrow> bool \<times> walk" where
  "budget_spent env budget w =
     (case budget of
        None \<Rightarrow> (False, w)
      | Some b \<Rightarrow> (exhausted b (we_clock env (wk_readings w)), w\<lparr>wk_readings := Suc (wk_readings w)\<rparr>))"

text \<open>The blobs of a recursive listing, from the one after the \<open>skip\<close> already emitted.\<close>

fun emit_blobs :: "walk_env \<Rightarrow> scan_budget option \<Rightarrow> int \<Rightarrow> int \<Rightarrow> int \<Rightarrow> tree_entry list \<Rightarrow> walk \<Rightarrow> walk_end \<times> walk" where
  "emit_blobs env budget limit skip seen [] w = (Finished, walk_flush w)"
| "emit_blobs env budget limit skip seen (e # es) w =
     (if te_kind e \<noteq> BlobEntry \<or> te_path e = [] then emit_blobs env budget limit skip seen es w
      else if seen + 1 \<le> skip then emit_blobs env budget limit skip (seen + 1) es w
      else (let w = buffer_row limit e (te_path e) w
        in if wk_buffer w \<noteq> [] then emit_blobs env budget limit skip (seen + 1) es w
           else (case budget_spent env budget w of
               (True, w) \<Rightarrow> (Paused, walk_flush w)
             | (False, w) \<Rightarrow> emit_blobs env budget limit skip (seen + 1) es w)))"

definition join_path :: "string \<Rightarrow> string \<Rightarrow> string" where
  "join_path pre name = (if pre \<noteq> [] then pre @ ''/'' @ name else name)"

fun list_directory :: "int \<Rightarrow> string \<Rightarrow> tree_entry list \<Rightarrow> walk \<Rightarrow> walk" where
  "list_directory limit pre [] w = w"
| "list_directory limit pre (e # es) w =
     list_directory limit pre es
       (if te_path e = [] then w
        else case te_kind e of
          TreeEntry \<Rightarrow>
            if te_sha e = [] then w
            else w\<lparr>wk_cursor := (wk_cursor w)\<lparr>sc_pending := sc_pending (wk_cursor w) @ [(te_sha e, join_path pre (te_path e))]\<rparr>\<rparr>
        | BlobEntry \<Rightarrow> buffer_row limit e (join_path pre (te_path e)) w
        | OtherEntry \<Rightarrow> w)"

definition enter_directory :: "int \<Rightarrow> string \<Rightarrow> tree_reply \<Rightarrow> walk \<Rightarrow> walk" where
  "enter_directory limit pre reply w =
     (let c = wk_cursor w;
          c = c\<lparr>sc_pending := tl (sc_pending c)\<rparr>;
          c = (if tr_truncated reply \<and> pre \<notin> set (sc_truncated c) then c\<lparr>sc_truncated := sc_truncated c @ [pre]\<rparr> else c)
      in list_directory limit pre (tr_entries reply) (w\<lparr>wk_cursor := c\<rparr>))"

definition request_tree :: "walk_env \<Rightarrow> string \<Rightarrow> bool \<Rightarrow> walk \<Rightarrow> (scan_failure + tree_reply) \<times> walk" where
  "request_tree env sha recursive w =
     (get_github_json ''tree'' (we_tree env (wk_requests w) sha recursive), w\<lparr>wk_requests := Suc (wk_requests w)\<rparr>)"

definition failed_walk :: "scan_failure \<Rightarrow> walk \<Rightarrow> walk_end \<times> walk" where
  "failed_walk e w = (case e of TransientFailure f \<Rightarrow> (Interrupted f, walk_flush w) | FatalFailure f \<Rightarrow> (Broken f, w))"

partial_function (option) walk_sparse :: "walk_env \<Rightarrow> scan_budget option \<Rightarrow> int \<Rightarrow> walk \<Rightarrow> (walk_end \<times> walk) option" where
  "walk_sparse env budget limit w =
     (case sc_pending (wk_cursor w) of
        [] \<Rightarrow> Some (Finished, walk_flush w)
      | (sha, pre) # _ \<Rightarrow>
          (case budget_spent env budget w of
             (spent, w) \<Rightarrow>
               if spent then Some (Paused, walk_flush w)
               else (case request_tree env sha False w of
                  (answer, w) \<Rightarrow>
                    (case answer of
                       Inl e \<Rightarrow> Some (failed_walk e w)
                     | Inr reply \<Rightarrow> walk_sparse env budget limit (enter_directory limit pre reply w)))))"

declare walk_sparse.simps [code]

definition walk_tree :: "walk_env \<Rightarrow> scan_budget option \<Rightarrow> int \<Rightarrow> walk \<Rightarrow> (walk_end \<times> walk) option" where
  "walk_tree env budget limit w =
     (if sc_mode (wk_cursor w) = RecursiveWalk
      then (case request_tree env (sc_tree (wk_cursor w)) True w of
          (Inl e, w) \<Rightarrow> Some (failed_walk e w)
        | (Inr reply, w) \<Rightarrow>
            if tr_truncated reply
            then walk_sparse env budget limit
              (w\<lparr>wk_cursor := (wk_cursor w)\<lparr>sc_mode := SparseWalk, sc_pending := [(sc_tree (wk_cursor w), [])], sc_emitted := 0\<rparr>\<rparr>)
            else Some (emit_blobs env budget limit (sc_emitted (wk_cursor w)) 0 (tr_entries reply) w))
      else walk_sparse env budget limit w)"

text \<open>The result: how the walk ended, the chunks, and the cursor that a pause or a transient failure
  leaves.\<close>

record walk_result =
  wr_end :: walk_end
  wr_cursor :: "scan_cursor option"
  wr_chunks :: "file_row list list"
  wr_truncated :: "string list"

definition walk_github_tree_in_chunks ::
  "walk_env \<Rightarrow> string \<Rightarrow> scan_cursor option \<Rightarrow> scan_budget option \<Rightarrow> int \<Rightarrow> walk_result option" where
  "walk_github_tree_in_chunks env branch start budget chunk_size =
     (let limit = resolve_chunk_size (Some chunk_size)
      in case (case start of Some c \<Rightarrow> Inr c | None \<Rightarrow> start_cursor_for_branch env branch) of
        Inl (TransientFailure f) \<Rightarrow> Some \<lparr>wr_end = Interrupted f, wr_cursor = None, wr_chunks = [], wr_truncated = []\<rparr>
      | Inl (FatalFailure f) \<Rightarrow> Some \<lparr>wr_end = Broken f, wr_cursor = None, wr_chunks = [], wr_truncated = []\<rparr>
      | Inr c \<Rightarrow>
          map_option (\<lambda>(e, w). \<lparr>wr_end = e, wr_cursor = (case e of Paused \<Rightarrow> Some (wk_cursor w) | Interrupted _ \<Rightarrow> Some (wk_cursor w) | _ \<Rightarrow> None),
               wr_chunks = wk_chunks w, wr_truncated = sc_truncated (wk_cursor w)\<rparr>)
            (walk_tree env budget limit
              \<lparr>wk_cursor = c, wk_buffer = [], wk_chunks = [], wk_requests = 0, wk_readings = 0\<rparr>))"

definition fetch_github_tree_blobs :: "walk_env \<Rightarrow> string \<Rightarrow> (failure + file_row list) option" where
  "fetch_github_tree_blobs env branch =
     map_option (\<lambda>r. case wr_end r of Interrupted f \<Rightarrow> Inl f | Broken f \<Rightarrow> Inl f | _ \<Rightarrow> Inr (concat (wr_chunks r)))
       (walk_github_tree_in_chunks env branch None None 0)"

end
