(* ===== verification/ScanTree.thy ===== *)
theory ScanTree
  imports ScanWalk
begin

text \<open>
  What a walk indexes. A git tree is a directory of files, directories and links; the provider's
  object store gives the listing of every directory by its identifier. An honest provider answers
  with these listings, in any order, possibly cut short when it says so, and its recursive listings
  of one tree keep their order. Then a walk from a good position returns, and leaves a good position
  or, when it finishes, the files of the whole tree.
\<close>

section \<open>Trees\<close>

datatype git_item = GitFile string "int option" | GitDir string "(string \<times> git_item) list" | GitLink string

type_synonym git_file = "string \<times> string \<times> int option"

type_synonym object_store = "string \<Rightarrow> (string \<times> git_item) list option"

fun git_files :: "string \<Rightarrow> git_item \<Rightarrow> git_file list" where
  "git_files path (GitFile sha sz) = [(path, sha, sz)]"
| "git_files path (GitDir sha items) = concat (map (\<lambda>p. git_files (join_path path (fst p)) (snd p)) items)"
| "git_files path (GitLink sha) = []"

fun dir_count :: "git_item \<Rightarrow> nat" where
  "dir_count (GitDir sha items) = Suc (sum_list (map (\<lambda>p. dir_count (snd p)) items))"
| "dir_count _ = 0"

fun item_ok :: "object_store \<Rightarrow> git_item \<Rightarrow> bool" where
  "item_ok st (GitDir sha items) \<longleftrightarrow> sha \<noteq> [] \<and> strip sha = sha \<and> st sha = Some items
     \<and> (\<forall>p \<in> set items. fst p \<noteq> [] \<and> item_ok st (snd p))"
| "item_ok st _ \<longleftrightarrow> True"

definition stored_dir :: "object_store \<Rightarrow> string \<Rightarrow> git_item" where
  "stored_dir st sha = GitDir sha (case st sha of None \<Rightarrow> [] | Some items \<Rightarrow> items)"

definition tree_files :: "object_store \<Rightarrow> string \<Rightarrow> git_file set" where
  "tree_files st sha = set (git_files [] (stored_dir st sha))"

definition tree_ok :: "object_store \<Rightarrow> string \<Rightarrow> bool" where
  "tree_ok st sha \<longleftrightarrow> item_ok st (stored_dir st sha) \<and> inj_on fst (tree_files st sha) \<and> (\<forall>f \<in> tree_files st sha. fst f \<noteq> [])"

definition entry_of :: "string \<times> git_item \<Rightarrow> tree_entry" where
  "entry_of p = (case snd p of
       GitFile sha sz \<Rightarrow> \<lparr>te_kind = BlobEntry, te_path = fst p, te_sha = sha, te_size = sz\<rparr>
     | GitDir sha _ \<Rightarrow> \<lparr>te_kind = TreeEntry, te_path = fst p, te_sha = sha, te_size = None\<rparr>
     | GitLink sha \<Rightarrow> \<lparr>te_kind = OtherEntry, te_path = fst p, te_sha = sha, te_size = None\<rparr>)"

lemma entry_of_simps [simp]:
  "entry_of (n, GitFile sha sz) = \<lparr>te_kind = BlobEntry, te_path = n, te_sha = sha, te_size = sz\<rparr>"
  "entry_of (n, GitDir sha items) = \<lparr>te_kind = TreeEntry, te_path = n, te_sha = sha, te_size = None\<rparr>"
  "entry_of (n, GitLink sha) = \<lparr>te_kind = OtherEntry, te_path = n, te_sha = sha, te_size = None\<rparr>"
  by (simp_all add: entry_of_def)

definition file_entry :: "git_file \<Rightarrow> tree_entry" where
  "file_entry f = (case f of (path, sha, sz) \<Rightarrow> \<lparr>te_kind = BlobEntry, te_path = path, te_sha = sha, te_size = sz\<rparr>)"

definition row_of :: "scan_cursor \<Rightarrow> git_file \<Rightarrow> file_row" where
  "row_of c f = blob_entry (file_entry f) (fst f) c"

definition lists :: "tree_reply \<Rightarrow> (string \<times> git_item) list \<Rightarrow> bool" where
  "lists reply items \<longleftrightarrow> (\<exists>shown. tr_entries reply = map entry_of shown \<and> mset shown \<subseteq># mset items
     \<and> (\<not> tr_truncated reply \<longrightarrow> mset shown = mset items))"

definition honest :: "object_store \<Rightarrow> (string \<Rightarrow> git_file list) \<Rightarrow> walk_env \<Rightarrow> bool" where
  "honest st listing env \<longleftrightarrow>
     (\<forall>n sha items reply. st sha = Some items \<and> we_tree env n sha False = HttpReply 200 reply \<longrightarrow> lists reply items)
     \<and> (\<forall>n sha reply. tree_ok st sha \<and> we_tree env n sha True = HttpReply 200 reply \<and> \<not> tr_truncated reply \<longrightarrow>
          set (listing sha) = tree_files st sha
          \<and> filter (\<lambda>e. te_kind e = BlobEntry \<and> te_path e \<noteq> []) (tr_entries reply) = map file_entry (listing sha))
     \<and> (\<forall>branch tip sha. we_branch env branch = HttpReply 200 tip \<and> br_tree tip = Some sha \<longrightarrow> tree_ok st sha)"

section \<open>Positions\<close>

definition cursor_rows :: "object_store \<Rightarrow> scan_cursor \<Rightarrow> file_row set" where
  "cursor_rows st c = row_of c ` tree_files st (sc_tree c)"

definition dir_files :: "object_store \<Rightarrow> string \<times> string \<Rightarrow> git_file set" where
  "dir_files st d = set (git_files (snd d) (stored_dir st (fst d)))"

definition pending_ok :: "object_store \<Rightarrow> scan_cursor \<Rightarrow> bool" where
  "pending_ok st c \<longleftrightarrow> (\<forall>d \<in> set (sc_pending c). item_ok st (stored_dir st (fst d)) \<and> dir_files st d \<subseteq> tree_files st (sc_tree c))"

text \<open>The rows \<open>D\<close> are indexed; what is left is behind the position.\<close>

definition good_position :: "object_store \<Rightarrow> (string \<Rightarrow> git_file list) \<Rightarrow> scan_cursor \<Rightarrow> file_row set \<Rightarrow> bool" where
  "good_position st listing c D \<longleftrightarrow> tree_ok st (sc_tree c) \<and> cursor_ok c \<and> D \<subseteq> cursor_rows st c
     \<and> (case sc_mode c of
          RecursiveWalk \<Rightarrow> sc_truncated c = [] \<and> row_of c ` set (take (nat (sc_emitted c)) (listing (sc_tree c))) \<subseteq> D
        | SparseWalk \<Rightarrow> pending_ok st c
            \<and> (sc_truncated c = [] \<longrightarrow> (\<forall>f \<in> tree_files st (sc_tree c). row_of c f \<in> D \<or> (\<exists>d \<in> set (sc_pending c). f \<in> dir_files st d))))"

definition walked :: "walk \<Rightarrow> file_row set" where
  "walked w = set (concat (wk_chunks w)) \<union> set (wk_buffer w)"

definition same_tree :: "scan_cursor \<Rightarrow> scan_cursor \<Rightarrow> bool" where
  "same_tree c c' \<longleftrightarrow> sc_tree c' = sc_tree c \<and> sc_mode c' = sc_mode c \<and> sc_tip_sha c' = sc_tip_sha c \<and> sc_tip_at c' = sc_tip_at c"

definition chunks_ok :: "int \<Rightarrow> walk \<Rightarrow> bool" where
  "chunks_ok limit w \<longleftrightarrow> (\<forall>c \<in> set (wk_chunks w). c \<noteq> [] \<and> int (length c) \<le> limit) \<and> int (length (wk_buffer w)) < limit"

lemma same_tree_refl [simp]: "same_tree c c"
  by (simp add: same_tree_def)

lemma same_tree_trans [trans]: "same_tree a b \<Longrightarrow> same_tree b c \<Longrightarrow> same_tree a c"
  by (simp add: same_tree_def)

lemma blob_entry_row: "blob_entry e path c = row_of c (path, te_sha e, te_size e)"
  by (simp add: row_of_def file_entry_def blob_entry_def)

lemma row_of_same: "sc_tip_sha c' = sc_tip_sha c \<Longrightarrow> sc_tip_at c' = sc_tip_at c \<Longrightarrow> row_of c' = row_of c"
  by (intro ext) (simp add: row_of_def blob_entry_def)

section \<open>Steps of the walk\<close>

lemma flush_spec:
  "walked (walk_flush w) = walked w" "wk_buffer (walk_flush w) = []" "same_tree (wk_cursor w) (wk_cursor (walk_flush w))"
  "sc_pending (wk_cursor (walk_flush w)) = sc_pending (wk_cursor w)" "sc_truncated (wk_cursor (walk_flush w)) = sc_truncated (wk_cursor w)"
  "sc_emitted (wk_cursor (walk_flush w)) = sc_emitted (wk_cursor w) + int (length (wk_buffer w))"
  by (auto simp: walk_flush_def walked_def same_tree_def)

lemma flush_chunks: "chunks_ok limit w \<Longrightarrow> chunks_ok limit (walk_flush w)"
  by (auto simp: walk_flush_def chunks_ok_def)

lemma buffer_row_spec:
  assumes "w' = buffer_row limit e path w"
  shows "walked w' = insert (row_of (wk_cursor w) (path, te_sha e, te_size e)) (walked w)"
    "same_tree (wk_cursor w) (wk_cursor w')" "sc_pending (wk_cursor w') = sc_pending (wk_cursor w)"
    "sc_truncated (wk_cursor w') = sc_truncated (wk_cursor w)"
    "sc_emitted (wk_cursor w') + int (length (wk_buffer w')) = sc_emitted (wk_cursor w) + int (length (wk_buffer w)) + 1"
    "1 \<le> limit \<Longrightarrow> chunks_ok limit w \<Longrightarrow> chunks_ok limit w'"
    "sc_emitted (wk_cursor w) \<le> sc_emitted (wk_cursor w')"
  unfolding assms buffer_row_def Let_def blob_entry_row
  by (auto simp: flush_spec walked_def same_tree_def walk_flush_def chunks_ok_def)

lemma budget_spent_same: "budget_spent env budget w = (spent, w') \<Longrightarrow>
    wk_cursor w' = wk_cursor w \<and> wk_buffer w' = wk_buffer w \<and> wk_chunks w' = wk_chunks w \<and> wk_requests w' = wk_requests w"
  by (auto simp: budget_spent_def split: option.splits)

text \<open>A directory listing queues the sub-directories and buffers the files.\<close>

definition subdirs :: "string \<Rightarrow> (string \<times> git_item) list \<Rightarrow> (string \<times> string) list" where
  "subdirs pre items = concat (map (\<lambda>p. case snd p of GitDir sha _ \<Rightarrow> [(sha, join_path pre (fst p))] | _ \<Rightarrow> []) items)"

definition own_files :: "string \<Rightarrow> (string \<times> git_item) list \<Rightarrow> git_file list" where
  "own_files pre items = concat (map (\<lambda>p. case snd p of GitFile sha sz \<Rightarrow> [(join_path pre (fst p), sha, sz)] | _ \<Rightarrow> []) items)"

lemma list_directory_spec:
  assumes "\<forall>p \<in> set items. fst p \<noteq> [] \<and> item_ok st (snd p)" and "1 \<le> limit" and "chunks_ok limit w"
    and "w' = list_directory limit pre (map entry_of items) w"
  shows "walked w' = walked w \<union> row_of (wk_cursor w) ` set (own_files pre items) \<and> same_tree (wk_cursor w) (wk_cursor w')
    \<and> sc_pending (wk_cursor w') = sc_pending (wk_cursor w) @ subdirs pre items
    \<and> sc_truncated (wk_cursor w') = sc_truncated (wk_cursor w) \<and> chunks_ok limit w'
    \<and> sc_emitted (wk_cursor w) \<le> sc_emitted (wk_cursor w')"
  using assms
proof (induction items arbitrary: w)
  case Nil
  then show ?case by (simp add: own_files_def subdirs_def)
next
  case (Cons p items)
  obtain name item where p: "p = (name, item)" by (cases p)
  have name: "name \<noteq> []" "item_ok st item" using Cons.prems(1) by (auto simp: p)
  define w1 where "w1 = (case item of
      GitDir sha _ \<Rightarrow> w\<lparr>wk_cursor := (wk_cursor w)\<lparr>sc_pending := sc_pending (wk_cursor w) @ [(sha, join_path pre name)]\<rparr>\<rparr>
    | GitFile sha sz \<Rightarrow> buffer_row limit (entry_of p) (join_path pre name) w
    | GitLink _ \<Rightarrow> w)"
  have w': "w' = list_directory limit pre (map entry_of items) w1"
    using name Cons.prems(4) by (cases item) (auto simp: p w1_def)
  have "walked w1 = walked w \<union> row_of (wk_cursor w) ` set (own_files pre [p]) \<and> same_tree (wk_cursor w) (wk_cursor w1)
    \<and> sc_pending (wk_cursor w1) = sc_pending (wk_cursor w) @ subdirs pre [p]
    \<and> sc_truncated (wk_cursor w1) = sc_truncated (wk_cursor w) \<and> chunks_ok limit w1
    \<and> sc_emitted (wk_cursor w) \<le> sc_emitted (wk_cursor w1)"
  proof (cases item)
    case (GitFile sha sz)
    then have "w1 = buffer_row limit (entry_of p) (join_path pre name) w" by (simp add: w1_def)
    note spec = buffer_row_spec[OF this]
    show ?thesis using spec(1-4,7) spec(6)[OF Cons.prems(2,3)] by (simp add: p GitFile own_files_def subdirs_def)
  qed (use Cons.prems(3) in \<open>simp_all add: w1_def p own_files_def subdirs_def walked_def same_tree_def chunks_ok_def\<close>)
  then have w1: "walked w1 = walked w \<union> row_of (wk_cursor w) ` set (own_files pre [p])" "same_tree (wk_cursor w) (wk_cursor w1)"
    "sc_pending (wk_cursor w1) = sc_pending (wk_cursor w) @ subdirs pre [p]"
    "sc_truncated (wk_cursor w1) = sc_truncated (wk_cursor w)" "chunks_ok limit w1"
    "sc_emitted (wk_cursor w) \<le> sc_emitted (wk_cursor w1)" by blast+
  have rows: "row_of (wk_cursor w1) = row_of (wk_cursor w)" using w1(2) by (intro row_of_same) (simp_all add: same_tree_def)
  have "own_files pre (p # items) = own_files pre [p] @ own_files pre items" "subdirs pre (p # items) = subdirs pre [p] @ subdirs pre items"
    by (simp_all add: own_files_def subdirs_def)
  moreover have "\<forall>p \<in> set items. fst p \<noteq> [] \<and> item_ok st (snd p)" using Cons.prems(1) by simp
  note Cons.IH[OF this Cons.prems(2) w1(5) w', unfolded rows]
  ultimately show ?case
    using w1(1,3,4,6) same_tree_trans[OF w1(2), of "wk_cursor w'"] by (simp add: image_Un Un_assoc)
qed

lemma git_files_dir:
  assumes "\<forall>p \<in> set items. item_ok st (snd p)"
  shows "set (git_files pre (GitDir sha items)) = set (own_files pre items) \<union> (\<Union>d \<in> set (subdirs pre items). dir_files st d)"
  using assms
proof (induction items)
  case (Cons p items)
  have "set (git_files (join_path pre (fst p)) (snd p)) = set (own_files pre [p]) \<union> (\<Union>d \<in> set (subdirs pre [p]). dir_files st d)"
    using Cons.prems by (cases "snd p") (auto simp: own_files_def subdirs_def dir_files_def stored_dir_def)
  moreover have "own_files pre (p # items) = own_files pre [p] @ own_files pre items" "subdirs pre (p # items) = subdirs pre [p] @ subdirs pre items"
    by (simp_all add: own_files_def subdirs_def)
  ultimately show ?case using Cons by auto
qed (simp add: own_files_def subdirs_def)

lemma subdirs_ok:
  assumes "\<forall>p \<in> set items. fst p \<noteq> [] \<and> item_ok st (snd p)" and "d \<in> set (subdirs pre items)"
  shows "item_ok st (stored_dir st (fst d))"
proof -
  obtain name sha inner where d: "(name, GitDir sha inner) \<in> set items" "fst d = sha"
    using assms(2) by (auto simp: subdirs_def split: git_item.splits)
  then have "item_ok st (GitDir sha inner)" using assms(1) by force
  then show ?thesis unfolding d(2) by (simp add: stored_dir_def)
qed

definition weight :: "object_store \<Rightarrow> (string \<times> string) list \<Rightarrow> nat" where
  "weight st dirs = sum_list (map (\<lambda>d. dir_count (stored_dir st (fst d))) dirs)"

lemma weight_subdirs:
  assumes "\<forall>p \<in> set items. item_ok st (snd p)"
  shows "weight st (subdirs pre items) = sum_list (map (\<lambda>p. dir_count (snd p)) items)"
  using assms
proof (induction items)
  case (Cons p items)
  then show ?case by (cases "snd p") (auto simp: weight_def subdirs_def stored_dir_def)
qed (simp add: weight_def subdirs_def)

lemma sum_list_sub: "mset xs \<subseteq># mset ys \<Longrightarrow> sum_list (map f xs) \<le> (sum_list (map f ys) :: nat)"
proof -
  assume "mset xs \<subseteq># mset ys"
  then obtain m where "mset ys = mset xs + m" by (auto simp: mset_subset_eq_exists_conv)
  then have "sum_mset (image_mset f (mset ys)) = sum_mset (image_mset f (mset xs)) + sum_mset (image_mset f m)" by simp
  then show ?thesis by (simp add: sum_mset_sum_list flip: mset_map)
qed

section \<open>The sparse walk\<close>

definition sparse_inv :: "object_store \<Rightarrow> file_row set \<Rightarrow> int \<Rightarrow> walk \<Rightarrow> bool" where
  "sparse_inv st D limit w \<longleftrightarrow> (let c = wk_cursor w in
     sc_mode c = SparseWalk \<and> tree_ok st (sc_tree c) \<and> pending_ok st c \<and> chunks_ok limit w \<and> 0 \<le> sc_emitted c
     \<and> D \<union> walked w \<subseteq> cursor_rows st c
     \<and> (sc_truncated c = [] \<longrightarrow> (\<forall>f \<in> tree_files st (sc_tree c). row_of c f \<in> D \<union> walked w \<or> (\<exists>d \<in> set (sc_pending c). f \<in> dir_files st d))))"

lemma item_ok_stored: "item_ok st (GitDir sha items) \<Longrightarrow> stored_dir st sha = GitDir sha items"
  by (simp add: stored_dir_def)

lemma stored_items:
  assumes "item_ok st (stored_dir st sha)"
  obtains items where "st sha = Some items" "stored_dir st sha = GitDir sha items"
    "\<forall>p \<in> set items. fst p \<noteq> [] \<and> item_ok st (snd p)"
  using assms by (cases "st sha") (auto simp: stored_dir_def)

lemma enter_directory_inv:
  assumes inv: "sparse_inv st D limit w" and pending: "sc_pending (wk_cursor w) = (sha, pre) # rest"
    and limit: "1 \<le> limit" and lists: "\<And>items. st sha = Some items \<Longrightarrow> lists reply items"
  shows "sparse_inv st D limit (enter_directory limit pre reply w)
    \<and> same_tree (wk_cursor w) (wk_cursor (enter_directory limit pre reply w))
    \<and> weight st (sc_pending (wk_cursor (enter_directory limit pre reply w))) < weight st (sc_pending (wk_cursor w))
    \<and> (\<not> tr_truncated reply \<longrightarrow> sc_truncated (wk_cursor (enter_directory limit pre reply w)) = sc_truncated (wk_cursor w))"
proof -
  let ?c = "wk_cursor w" and ?w' = "enter_directory limit pre reply w"
  have dir: "item_ok st (stored_dir st sha)" "dir_files st (sha, pre) \<subseteq> tree_files st (sc_tree ?c)"
    using inv pending by (auto simp: sparse_inv_def pending_ok_def Let_def)
  obtain its where its: "st sha = Some its" "stored_dir st sha = GitDir sha its"
    "\<forall>p \<in> set its. fst p \<noteq> [] \<and> item_ok st (snd p)"
    by (rule stored_items[OF dir(1)])
  obtain shown where shown: "tr_entries reply = map entry_of shown" "mset shown \<subseteq># mset its"
    "\<not> tr_truncated reply \<Longrightarrow> mset shown = mset its"
    using lists[OF its(1)] by (auto simp: lists_def)
  have sub: "set shown \<subseteq> set its" using shown(2) by (metis set_mset_mono set_mset_mset)
  then have ok: "\<forall>p \<in> set shown. fst p \<noteq> [] \<and> item_ok st (snd p)" using its(3) by blast
  define w1 where "w1 = w\<lparr>wk_cursor := ?c\<lparr>sc_pending := rest,
      sc_truncated := (if tr_truncated reply \<and> pre \<notin> set (sc_truncated ?c) then sc_truncated ?c @ [pre] else sc_truncated ?c)\<rparr>\<rparr>"
  have w': "?w' = list_directory limit pre (map entry_of shown) w1"
    by (simp add: enter_directory_def Let_def pending shown(1) w1_def)
  have "chunks_ok limit w1" using inv by (simp add: w1_def sparse_inv_def chunks_ok_def Let_def)
  note spec = list_directory_spec[OF ok limit this w']
  have rows: "row_of (wk_cursor w1) = row_of ?c" "row_of (wk_cursor ?w') = row_of ?c"
    using spec by (auto intro!: row_of_same simp: w1_def same_tree_def)
  have own: "set (own_files pre shown) \<subseteq> set (own_files pre its)" "set (subdirs pre shown) \<subseteq> set (subdirs pre its)"
    using sub by (auto simp: own_files_def subdirs_def)
  have dir_eq: "dir_files st (sha, pre) = set (own_files pre its) \<union> (\<Union>d \<in> set (subdirs pre its). dir_files st d)"
    using git_files_dir[of its st pre sha] its by (simp add: dir_files_def)
  have kept: "sc_tree (wk_cursor ?w') = sc_tree ?c" "sc_mode (wk_cursor ?w') = sc_mode ?c"
    "sc_pending (wk_cursor ?w') = rest @ subdirs pre shown"
    "sc_truncated (wk_cursor ?w') = sc_truncated (wk_cursor w1)" "sc_emitted ?c \<le> sc_emitted (wk_cursor ?w')"
    "walked ?w' = walked w \<union> row_of ?c ` set (own_files pre shown)" "same_tree ?c (wk_cursor ?w')"
    using spec unfolding rows by (auto simp: w1_def same_tree_def walked_def)
  have below: "d \<in> set (subdirs pre shown) \<Longrightarrow> dir_files st d \<subseteq> tree_files st (sc_tree ?c)" for d
    using own(2) dir(2) unfolding dir_eq by blast
  have "pending_ok st ?c" using inv by (simp add: sparse_inv_def Let_def)
  then have "pending_ok st (wk_cursor ?w')"
    using below subdirs_ok[OF ok] unfolding pending_ok_def kept pending set_append by (auto simp del: split_paired_All split_paired_Ex)
  moreover have "D \<union> walked ?w' \<subseteq> cursor_rows st (wk_cursor ?w')"
    using inv dir(2) own(1) unfolding dir_eq by (auto simp: cursor_rows_def kept rows sparse_inv_def Let_def)
  moreover have "row_of ?c f \<in> D \<union> walked ?w' \<or> (\<exists>d \<in> set (rest @ subdirs pre shown). f \<in> dir_files st d)"
    if f: "f \<in> tree_files st (sc_tree ?c)" and t: "sc_truncated (wk_cursor ?w') = []" for f
  proof -
    have "\<not> tr_truncated reply" "sc_truncated ?c = []" using t by (auto simp: kept w1_def split: if_splits)
    then have same: "set shown = set its" using shown(3) by (metis set_mset_mset)
    then have eq: "set (own_files pre shown) = set (own_files pre its)" "set (subdirs pre shown) = set (subdirs pre its)"
      by (simp_all add: own_files_def subdirs_def)
    consider "row_of ?c f \<in> D \<union> walked w" | "f \<in> dir_files st (sha, pre)" | "\<exists>d \<in> set rest. f \<in> dir_files st d"
      using inv f \<open>sc_truncated ?c = []\<close> by (auto simp: sparse_inv_def Let_def pending)
    then show ?thesis by cases (auto simp: kept dir_eq eq)
  qed
  moreover have "weight st (rest @ subdirs pre shown) < weight st (sc_pending ?c)"
  proof -
    have "weight st (subdirs pre shown) \<le> sum_list (map (\<lambda>p. dir_count (snd p)) its)"
      using weight_subdirs[of shown st pre] ok sum_list_sub[OF shown(2)] by simp
    then show ?thesis by (simp add: weight_def pending its(2))
  qed
  moreover have "\<not> tr_truncated reply \<longrightarrow> sc_truncated (wk_cursor ?w') = sc_truncated ?c" by (simp add: kept w1_def)
  ultimately show ?thesis
    using inv spec kept rows by (auto simp: sparse_inv_def Let_def)
qed

definition settled :: "walk_end \<Rightarrow> walk \<Rightarrow> bool" where
  "settled e w \<longleftrightarrow> ((\<exists>f. e = Broken f) \<or> wk_buffer w = []) \<and> (e = Finished \<longrightarrow> sc_pending (wk_cursor w) = [])"

lemma sparse_inv_cong:
  assumes "sparse_inv st D limit w" and "same_tree (wk_cursor w) (wk_cursor w')" and "walked w' = walked w"
    and "sc_pending (wk_cursor w') = sc_pending (wk_cursor w)" "sc_truncated (wk_cursor w') = sc_truncated (wk_cursor w)"
    and "sc_emitted (wk_cursor w) \<le> sc_emitted (wk_cursor w')" "chunks_ok limit w'"
  shows "sparse_inv st D limit w'"
proof -
  have "row_of (wk_cursor w') = row_of (wk_cursor w)" using assms(2) by (intro row_of_same) (simp_all add: same_tree_def)
  then show ?thesis
    using assms by (simp add: sparse_inv_def Let_def same_tree_def pending_ok_def cursor_rows_def)
qed

lemma flush_inv: "sparse_inv st D limit w \<Longrightarrow> sparse_inv st D limit (walk_flush w)"
  by (rule sparse_inv_cong) (auto simp: flush_spec flush_chunks sparse_inv_def Let_def)

lemma get_github_json_Inr: "get_github_json what r = Inr reply \<longleftrightarrow> r = HttpReply 200 reply"
  by (auto simp: get_github_json_def transient_statuses_def split: http_reply.splits if_splits)

definition complete_listings :: "walk_env \<Rightarrow> bool" where
  "complete_listings env \<longleftrightarrow> (\<forall>n sha reply. we_tree env n sha False = HttpReply 200 reply \<longrightarrow> \<not> tr_truncated reply)"

lemma walk_sparse_returns:
  assumes "honest st listing env" and "1 \<le> limit" and "sparse_inv st D limit w"
  shows "\<exists>e w'. walk_sparse env budget limit w = Some (e, w') \<and> sparse_inv st D limit w'
    \<and> same_tree (wk_cursor w) (wk_cursor w') \<and> settled e w'
    \<and> (complete_listings env \<longrightarrow> sc_truncated (wk_cursor w') = sc_truncated (wk_cursor w))"
  using assms(3)
proof (induction "weight st (sc_pending (wk_cursor w))" arbitrary: w rule: less_induct)
  case less
  note step = walk_sparse.simps[of env budget limit w]
  show ?case
  proof (cases "sc_pending (wk_cursor w)")
    case Nil
    then show ?thesis using flush_inv[OF less.prems] by (auto simp: step flush_spec settled_def)
  next
    case (Cons d rest)
    obtain sha pre where d: "d = (sha, pre)" by (cases d)
    obtain spent w1 where b: "budget_spent env budget w = (spent, w1)" by (cases "budget_spent env budget w")
    define w2 where "w2 = snd (request_tree env sha False w1)"
    have w1: "sparse_inv st D limit w1" "same_tree (wk_cursor w) (wk_cursor w1)"
      and w2: "sparse_inv st D limit w2" "same_tree (wk_cursor w) (wk_cursor w2)" "wk_cursor w2 = wk_cursor w"
      using sparse_inv_cong[OF less.prems] less.prems budget_spent_same[OF b]
      by (auto simp: w2_def request_tree_def walked_def chunks_ok_def sparse_inv_def Let_def)
    have w1_truncated: "sc_truncated (wk_cursor w1) = sc_truncated (wk_cursor w)" using budget_spent_same[OF b] by simp
    show ?thesis
    proof (cases spent)
      case True
      then show ?thesis
        using flush_inv[OF w1(1)] w1(2) w1_truncated by (auto simp: step Cons d b flush_spec settled_def intro: same_tree_trans)
    next
      case False
      show ?thesis
      proof (cases "get_github_json ''tree'' (we_tree env (wk_requests w1) sha False)")
        case (Inl e)
        then have "walk_sparse env budget limit w = Some (failed_walk e w2)"
          using False by (simp add: step Cons d b request_tree_def w2_def)
        then show ?thesis
          using flush_inv[OF w2(1)] w2(1,2) arg_cong[OF w2(3), of sc_truncated]
          by (cases e) (auto simp: failed_walk_def flush_spec settled_def intro: same_tree_trans)
      next
        case (Inr reply)
        let ?w3 = "enter_directory limit pre reply w2"
        have pending: "sc_pending (wk_cursor w2) = (sha, pre) # rest" using Cons d w2(3) by simp
        have "lists reply items" if "st sha = Some items" for items
          using assms(1) that Inr by (auto simp: honest_def get_github_json_Inr)
        note entered = enter_directory_inv[OF w2(1) pending assms(2) this]
        then obtain e w' where "walk_sparse env budget limit ?w3 = Some (e, w')" "sparse_inv st D limit w'"
          "same_tree (wk_cursor ?w3) (wk_cursor w')" "settled e w'"
          "complete_listings env \<longrightarrow> sc_truncated (wk_cursor w') = sc_truncated (wk_cursor ?w3)"
          using less.hyps[of ?w3] w2(3) by auto
        moreover have "complete_listings env \<longrightarrow> \<not> tr_truncated reply"
          using Inr by (auto simp: complete_listings_def get_github_json_Inr)
        moreover have "walk_sparse env budget limit w = walk_sparse env budget limit ?w3"
          using False Inr by (simp add: step Cons d b request_tree_def w2_def)
        ultimately show ?thesis using entered w2(2,3) same_tree_trans by metis
      qed
    qed
  qed
qed

section \<open>The recursive walk\<close>

lemma emit_blobs_spec:
  assumes "filter (\<lambda>e. te_kind e = BlobEntry \<and> te_path e \<noteq> []) es = map file_entry fs" and "1 \<le> limit" and "chunks_ok limit w"
    and "0 \<le> skip" and "0 \<le> seen" and "sc_emitted (wk_cursor w) + int (length (wk_buffer w)) = max skip seen"
    and "emit_blobs env budget limit skip seen es w = (e, w')"
  shows "same_tree (wk_cursor w) (wk_cursor w') \<and> sc_pending (wk_cursor w') = sc_pending (wk_cursor w)
    \<and> sc_truncated (wk_cursor w') = sc_truncated (wk_cursor w) \<and> chunks_ok limit w' \<and> wk_buffer w' = []
    \<and> e \<in> {Finished, Paused}
    \<and> (\<exists>n \<le> length fs. walked w' = walked w \<union> row_of (wk_cursor w) ` set (drop (nat (skip - seen)) (take n fs))
         \<and> sc_emitted (wk_cursor w') = max skip (seen + int n) \<and> (e = Finished \<longrightarrow> n = length fs))"
  using assms
proof (induction es arbitrary: seen fs w)
  case Nil
  then show ?case by (auto simp: flush_spec flush_chunks)
next
  case (Cons x es)
  show ?case
  proof (cases "te_kind x = BlobEntry \<and> te_path x \<noteq> []")
    case False
    then show ?thesis using Cons.IH[of fs w seen] Cons.prems by auto
  next
    case True
    then obtain f fs' where fs: "fs = f # fs'" "x = file_entry f"
      "filter (\<lambda>e. te_kind e = BlobEntry \<and> te_path e \<noteq> []) es = map file_entry fs'"
      using Cons.prems(1) by (cases fs) auto
    show ?thesis
    proof (cases "seen + 1 \<le> skip")
      case skipped: True
      then have "emit_blobs env budget limit skip (seen + 1) es w = (e, w')" using Cons.prems(7) True by simp
      note ih = Cons.IH[OF fs(3) Cons.prems(2-4) _ _ this]
      have "sc_emitted (wk_cursor w) + int (length (wk_buffer w)) = max skip (seen + 1)" using Cons.prems(6) skipped by simp
      with ih Cons.prems(5) obtain n where n: "n \<le> length fs'"
        "walked w' = walked w \<union> row_of (wk_cursor w) ` set (drop (nat (skip - (seen + 1))) (take n fs'))"
        "sc_emitted (wk_cursor w') = max skip (seen + 1 + int n)" "e = Finished \<longrightarrow> n = length fs'" by auto
      have "nat (skip - seen) = Suc (nat (skip - (seen + 1)))" using skipped by simp
      then have "drop (nat (skip - seen)) (take (Suc n) fs) = drop (nat (skip - (seen + 1))) (take n fs')" by (simp add: fs(1))
      then show ?thesis
        using ih Cons.prems(5,6) skipped n by (auto simp: fs(1) intro!: exI[of _ "Suc n"])
    next
      case emitted: False
      define w1 where "w1 = buffer_row limit x (te_path x) w"
      note spec = buffer_row_spec[OF w1_def]
      have row: "row_of (wk_cursor w) (te_path x, te_sha x, te_size x) = row_of (wk_cursor w) f"
        by (cases f) (simp add: fs(2) file_entry_def)
      have rows: "row_of (wk_cursor w1) = row_of (wk_cursor w)" using spec(2) by (intro row_of_same) (simp_all add: same_tree_def)
      have count: "sc_emitted (wk_cursor w1) + int (length (wk_buffer w1)) = max skip (seen + 1)" using spec(5) Cons.prems(6) emitted by simp
      have zero: "nat (skip - seen) = 0" "nat (skip - (seen + 1)) = 0" using emitted by simp_all
      have cont: ?thesis if run: "emit_blobs env budget limit skip (seen + 1) es w2 = (e, w')"
        and same: "wk_cursor w2 = wk_cursor w1" "wk_buffer w2 = wk_buffer w1" "wk_chunks w2 = wk_chunks w1" for w2
      proof -
        have "chunks_ok limit w2" using spec(6)[OF Cons.prems(2,3)] same by (simp add: chunks_ok_def)
        note ih = Cons.IH[OF fs(3) Cons.prems(2) this Cons.prems(4) _ _ run, unfolded same rows zero]
        have walked: "walked w2 = insert (row_of (wk_cursor w) f) (walked w)" using spec(1) row same by (simp add: walked_def)
        obtain n where n: "n \<le> length fs'" "walked w' = walked w2 \<union> row_of (wk_cursor w) ` set (take n fs')"
          "sc_emitted (wk_cursor w') = max skip (seen + 1 + int n)" "e = Finished \<longrightarrow> n = length fs'"
          using ih Cons.prems(5) count by auto
        have "walked w' = walked w \<union> row_of (wk_cursor w) ` set (drop (nat (skip - seen)) (take (Suc n) fs))"
          unfolding n(2) walked zero fs(1) by auto
        moreover have "same_tree (wk_cursor w) (wk_cursor w')" using ih Cons.prems(5) count spec(2) same_tree_trans by auto
        ultimately show ?thesis
          using ih Cons.prems(5) count spec(3,4) n(1,3,4) by (auto simp: fs(1) intro!: exI[of _ "Suc n"])
      qed
      have run: "(if wk_buffer w1 \<noteq> [] then emit_blobs env budget limit skip (seen + 1) es w1
          else (case budget_spent env budget w1 of
              (True, w) \<Rightarrow> (Paused, walk_flush w)
            | (False, w) \<Rightarrow> emit_blobs env budget limit skip (seen + 1) es w)) = (e, w')"
        using Cons.prems(7) True emitted by (simp add: w1_def Let_def split: if_splits)
      obtain spent w2 where b: "budget_spent env budget w1 = (spent, w2)" by (cases "budget_spent env budget w1")
      note same = budget_spent_same[OF b]
      consider "wk_buffer w1 \<noteq> []" | "wk_buffer w1 = []" "\<not> spent" | "wk_buffer w1 = []" spent by blast
      then show ?thesis
      proof cases
        case 3
        then have "e = Paused" "w' = walk_flush w2" using run b by auto
        then have w': "e = Paused" "wk_cursor w' = wk_cursor w1" "wk_buffer w' = []" "wk_chunks w' = wk_chunks w1"
          using same 3 by (auto simp: walk_flush_def)
        have "walked w' = walked w \<union> row_of (wk_cursor w) ` set (drop (nat (skip - seen)) (take 1 fs))"
          using spec(1) row w' 3 unfolding zero fs(1) by (simp add: walked_def)
        then show ?thesis
          using spec(2,3,4) spec(6)[OF Cons.prems(2,3)] w' count 3 Cons.prems(2)
          by (auto simp: fs(1) chunks_ok_def intro!: exI[of _ 1])
      qed (use cont run b same in auto)
    qed
  qed
qed

section \<open>A whole pass of the walk\<close>

definition new_walk :: "scan_cursor \<Rightarrow> walk" where
  "new_walk c = \<lparr>wk_cursor = c, wk_buffer = [], wk_chunks = [], wk_requests = 0, wk_readings = 0\<rparr>"

lemma new_walk_simps [simp]: "wk_cursor (new_walk c) = c" "wk_buffer (new_walk c) = []" "wk_chunks (new_walk c) = []"
  "wk_requests (new_walk c) = 0" "walked (new_walk c) = {}"
  by (simp_all add: new_walk_def walked_def)

text \<open>What holds of a walk that started at \<open>c\<close> with the rows \<open>D\<close> indexed.\<close>

definition walk_ok ::
  "object_store \<Rightarrow> (string \<Rightarrow> git_file list) \<Rightarrow> int \<Rightarrow> scan_cursor \<Rightarrow> file_row set \<Rightarrow> walk_end \<Rightarrow> walk \<Rightarrow> bool" where
  "walk_ok st listing limit c D e w \<longleftrightarrow> (let c' = wk_cursor w; D' = D \<union> set (concat (wk_chunks w)) in
     sc_tree c' = sc_tree c \<and> sc_tip_sha c' = sc_tip_sha c \<and> sc_tip_at c' = sc_tip_at c
     \<and> (\<forall>k \<in> set (wk_chunks w). k \<noteq> [] \<and> int (length k) \<le> limit) \<and> D' \<subseteq> cursor_rows st c
     \<and> (case e of
          Finished \<Rightarrow> sc_truncated c' = [] \<longrightarrow> D' = cursor_rows st c
        | Broken _ \<Rightarrow> True
        | _ \<Rightarrow> good_position st listing c' D'))"

lemma walk_ok_sparse:
  assumes "sparse_inv st D limit w" and "settled e w" and "sc_tree (wk_cursor w) = sc_tree c"
    and "sc_tip_sha (wk_cursor w) = sc_tip_sha c" "sc_tip_at (wk_cursor w) = sc_tip_at c" and "cursor_ok c"
  shows "walk_ok st listing limit c D e w"
proof -
  let ?c = "wk_cursor w"
  have rows: "cursor_rows st ?c = cursor_rows st c" "row_of ?c = row_of c"
    using assms(3-5) row_of_same[of ?c c] by (simp_all add: cursor_rows_def)
  have "list_all (\<lambda>(sha, _). sha \<noteq> [] \<and> strip sha = sha) (sc_pending ?c)"
    using assms(1) by (auto simp: sparse_inv_def Let_def pending_ok_def stored_dir_def list_all_iff)
  then have ok: "cursor_ok ?c"
    using assms(1,3-6) by (simp add: cursor_ok_def sparse_inv_def Let_def)
  have flushed: "walked w = set (concat (wk_chunks w))" if "\<nexists>f. e = Broken f"
    using assms(2) that by (auto simp: settled_def walked_def)
  have sub: "D \<union> walked w \<subseteq> cursor_rows st c" "set (concat (wk_chunks w)) \<subseteq> walked w"
    using assms(1) by (auto simp: sparse_inv_def Let_def rows walked_def)
  have left: "sc_truncated ?c = [] \<Longrightarrow> f \<in> tree_files st (sc_tree c) \<Longrightarrow>
      row_of c f \<in> D \<union> walked w \<or> (\<exists>d \<in> set (sc_pending ?c). f \<in> dir_files st d)" for f
    using assms(1,3) by (auto simp: sparse_inv_def Let_def rows)
  have good: "good_position st listing ?c (D \<union> walked w)"
    using assms(1) ok left rows sub by (auto simp: good_position_def sparse_inv_def Let_def assms(3))
  have done1: "D \<union> walked w = cursor_rows st c" if "e = Finished" "sc_truncated ?c = []"
    using left[OF that(2)] sub(1) assms(2) that(1) by (auto simp: settled_def cursor_rows_def)
  show ?thesis
    using assms(1,3-5) sub good done1 flushed
    by (cases e) (auto simp: walk_ok_def Let_def sparse_inv_def chunks_ok_def)
qed

lemma sparse_start:
  assumes "good_position st listing c D" and "sc_mode c = SparseWalk" and "1 \<le> limit" and "wk_cursor w = c" "wk_buffer w = []" "wk_chunks w = []"
  shows "sparse_inv st D limit w"
  using assms by (simp add: good_position_def sparse_inv_def Let_def walked_def chunks_ok_def cursor_ok_def)

lemma good_position_sparse:
  assumes "good_position st listing c D"
  shows "good_position st listing (c\<lparr>sc_mode := SparseWalk, sc_pending := [(sc_tree c, [])], sc_emitted := 0\<rparr>) D"
proof -
  let ?c = "c\<lparr>sc_mode := SparseWalk, sc_pending := [(sc_tree c, [])], sc_emitted := 0\<rparr>"
  have "row_of ?c = row_of c" by (rule row_of_same) simp_all
  then show ?thesis
    using assms by (auto simp: good_position_def cursor_ok_def pending_ok_def dir_files_def tree_files_def cursor_rows_def tree_ok_def)
qed

lemma walk_tree_returns:
  assumes "honest st listing env" and "1 \<le> limit" and "good_position st listing c D"
  shows "\<exists>e w. walk_tree env budget limit (new_walk c) = Some (e, w) \<and> walk_ok st listing limit c D e w
    \<and> (complete_listings env \<longrightarrow> sc_truncated (wk_cursor w) = sc_truncated c)"
proof (cases "sc_mode c")
  case SparseWalk
  have "sparse_inv st D limit (new_walk c)" by (rule sparse_start[OF assms(3) SparseWalk assms(2)]) simp_all
  from walk_sparse_returns[OF assms(1,2) this, of budget] obtain e w where run: "walk_sparse env budget limit (new_walk c) = Some (e, w)"
    "sparse_inv st D limit w" "same_tree c (wk_cursor w)" "settled e w"
    "complete_listings env \<longrightarrow> sc_truncated (wk_cursor w) = sc_truncated c"
    by auto
  moreover have "cursor_ok c" using assms(3) by (simp add: good_position_def)
  ultimately show ?thesis
    using walk_ok_sparse[of st D limit w e c listing] SparseWalk by (auto simp: walk_tree_def same_tree_def)
next
  case RecursiveWalk
  have ok: "cursor_ok c" "tree_ok st (sc_tree c)" "D \<subseteq> cursor_rows st c" "sc_truncated c = []"
    "row_of c ` set (take (nat (sc_emitted c)) (listing (sc_tree c))) \<subseteq> D"
    using assms(3) RecursiveWalk by (auto simp: good_position_def)
  define w1 where "w1 = snd (request_tree env (sc_tree c) True (new_walk c))"
  have w1: "wk_cursor w1 = c" "wk_buffer w1 = []" "wk_chunks w1 = []" "walked w1 = {}" "walk_flush w1 = w1"
    by (simp_all add: w1_def request_tree_def walked_def walk_flush_def)
  show ?thesis
  proof (cases "get_github_json ''tree'' (we_tree env 0 (sc_tree c) True)")
    case (Inl e)
    then have "walk_tree env budget limit (new_walk c) = Some (failed_walk e w1)"
      using RecursiveWalk by (simp add: walk_tree_def request_tree_def w1_def)
    then show ?thesis
      using assms(3) ok(3) w1 by (cases e) (auto simp: failed_walk_def walk_ok_def Let_def)
  next
    case (Inr reply)
    show ?thesis
    proof (cases "tr_truncated reply")
      case True
      let ?c = "c\<lparr>sc_mode := SparseWalk, sc_pending := [(sc_tree c, [])], sc_emitted := 0\<rparr>"
      let ?w = "w1\<lparr>wk_cursor := ?c\<rparr>"
      have "sparse_inv st D limit ?w"
        by (rule sparse_start[OF good_position_sparse[OF assms(3)] _ assms(2)]) (simp_all add: w1)
      from walk_sparse_returns[OF assms(1,2) this, of budget] obtain e w where run: "walk_sparse env budget limit ?w = Some (e, w)"
        "sparse_inv st D limit w" "same_tree ?c (wk_cursor w)" "settled e w"
        "complete_listings env \<longrightarrow> sc_truncated (wk_cursor w) = sc_truncated c"
        by auto
      moreover have "walk_tree env budget limit (new_walk c) = walk_sparse env budget limit ?w"
        using RecursiveWalk Inr True w1(1) by (simp add: walk_tree_def request_tree_def w1_def)
      ultimately show ?thesis
        using walk_ok_sparse[OF run(2,4) _ _ _ ok(1)] by (auto simp: same_tree_def)
    next
      case False
      let ?fs = "listing (sc_tree c)"
      have listing: "set ?fs = tree_files st (sc_tree c)"
        "filter (\<lambda>e. te_kind e = BlobEntry \<and> te_path e \<noteq> []) (tr_entries reply) = map file_entry ?fs"
        using assms(1) ok(2) Inr False unfolding honest_def get_github_json_Inr by blast+
      obtain e w where run: "emit_blobs env budget limit (sc_emitted c) 0 (tr_entries reply) w1 = (e, w)"
        by (cases "emit_blobs env budget limit (sc_emitted c) 0 (tr_entries reply) w1")
      have "walk_tree env budget limit (new_walk c) = Some (e, w)"
        using RecursiveWalk Inr False w1(1) run by (simp add: walk_tree_def request_tree_def w1_def)
      moreover have "walk_ok st listing limit c D e w \<and> sc_truncated (wk_cursor w) = []"
      proof -
        have "chunks_ok limit w1" "0 \<le> sc_emitted c" using assms(2) ok(1) by (simp_all add: w1 chunks_ok_def cursor_ok_def)
        note spec = emit_blobs_spec[OF listing(2) assms(2) this(1,2) _ _ run, unfolded w1, simplified]
        then obtain n where n: "n \<le> length ?fs" "walked w = row_of c ` set (drop (nat (sc_emitted c)) (take n ?fs))"
          "sc_emitted (wk_cursor w) = max (sc_emitted c) (int n)" "e = Finished \<longrightarrow> n = length ?fs"
          using \<open>0 \<le> sc_emitted c\<close> by (auto simp: w1)
        let ?k = "nat (sc_emitted c)"
        have same: "same_tree c (wk_cursor w)" "sc_pending (wk_cursor w) = sc_pending c" "sc_truncated (wk_cursor w) = []"
          "chunks_ok limit w" "walked w = set (concat (wk_chunks w))" "e \<in> {Finished, Paused}"
          using spec ok(4) \<open>0 \<le> sc_emitted c\<close> by (auto simp: w1 walked_def)
        have rows: "row_of (wk_cursor w) = row_of c" "cursor_rows st (wk_cursor w) = cursor_rows st c"
          using same(1) row_of_same[of "wk_cursor w" c] by (simp_all add: same_tree_def cursor_rows_def)
        have "set (drop ?k (take n ?fs)) \<subseteq> set ?fs" by (meson in_set_dropD in_set_takeD subsetI)
        then have sub: "D \<union> walked w \<subseteq> cursor_rows st c"
          using ok(3) listing(1) by (auto simp: n(2) cursor_rows_def)
        have "set (take (nat (max (sc_emitted c) (int n))) ?fs) \<subseteq> set (take ?k ?fs) \<union> set (drop ?k (take n ?fs))"
        proof (cases "?k \<le> n")
          case True
          then have "take n ?fs = take ?k ?fs @ drop ?k (take n ?fs)" by (metis append_take_drop_id min.absorb1 take_take)
          then have "set (take n ?fs) = set (take ?k ?fs) \<union> set (drop ?k (take n ?fs))" by (metis set_append)
          moreover have "nat (max (sc_emitted c) (int n)) = n" using True by simp
          ultimately show ?thesis by simp
        qed (auto simp: max_def nat_le_iff)
        then have emitted: "row_of c ` set (take (nat (sc_emitted (wk_cursor w))) ?fs) \<subseteq> D \<union> walked w"
          using ok(5) unfolding n(2,3) by blast
        have "cursor_rows st c \<subseteq> D \<union> walked w" if "e = Finished"
        proof -
          have "nat (max (sc_emitted c) (int n)) \<ge> length ?fs" using n(4) that by simp
          then show ?thesis using emitted listing(1) by (simp add: n(3) cursor_rows_def)
        qed
        moreover have "good_position st listing (wk_cursor w) (D \<union> walked w)"
          using ok(1,2) same sub emitted RecursiveWalk n(3)
          by (auto simp: good_position_def rows same_tree_def cursor_ok_def)
        ultimately show ?thesis
          using same sub by (cases e) (auto simp: walk_ok_def Let_def same_tree_def chunks_ok_def)
      qed
      ultimately show ?thesis using ok(4) by auto
    qed
  qed
qed

end
