(* ===== verification/ScanIndex.thy ===== *)
theory ScanIndex
  imports ScanWalk
begin

text \<open>
  A scan pass over one branch and the job that runs it (\<open>repository_file_scan.py\<close>), on the tables it
  uses (\<open>database.py\<close>): the indexed files, the stored resume cursors, the scan jobs, and of a
  repository row what a scan writes. Provider, clock, settings and the linked account are read from
  an environment. A pass is also given as its beginning and its end, because a process may die in
  between: then the chunks written so far stay. The advisory matching of code owners and catalog
  files after a completed walk is left out. Error texts are the values of \<open>failure\<close>.
\<close>

section \<open>Tables\<close>

type_synonym branch_key = "string \<times> string"

record cursor_row =
  cu_json :: json
  cu_entries :: int
  cu_importable :: int
  cu_attempts :: int
  cu_error :: "failure option"
  cu_updated :: timestamp

datatype scan_status = Unscanned | Scanning | Ready | Errored

record scanned_repo =
  rp_tenant :: string
  rp_deleted :: bool
  rp_default_branch :: string
  rp_total :: int
  rp_importable :: int
  rp_status :: scan_status
  rp_last_scanned :: timestamp

datatype scan_job_status = JobQueued | JobRunning | JobSucceeded | JobFailed

datatype job_note = PassPaused | RepositoryRowMissing | ScanError failure

record scan_job =
  sj_tenant :: string
  sj_repo :: string
  sj_branch :: string
  sj_status :: scan_job_status
  sj_created :: int
  sj_requeued :: "int option"
  sj_note :: "job_note option"

record scan_db =
  sx_files :: "(branch_key \<times> string, file_row) dict"
  sx_cursors :: "(branch_key, cursor_row) dict"
  sx_repos :: "(string, scanned_repo) dict"
  sx_jobs :: "(string, scan_job) dict"
  sx_volume :: "(string \<times> int) list"

definition delete_tenant_repository_files :: "branch_key \<Rightarrow> scan_db \<Rightarrow> scan_db" where
  "delete_tenant_repository_files key db = db\<lparr>sx_files := filter (\<lambda>((k, _), _). k \<noteq> key) (sx_files db)\<rparr>"

definition append_tenant_repository_files :: "branch_key \<Rightarrow> file_row list \<Rightarrow> scan_db \<Rightarrow> scan_db" where
  "append_tenant_repository_files key rows db =
     db\<lparr>sx_files := fold (\<lambda>r. AList.update (key, fr_path r) r) rows (sx_files db)\<rparr>"

definition count_tenant_repository_files :: "branch_key \<Rightarrow> scan_db \<Rightarrow> int \<times> int" where
  "count_tenant_repository_files key db =
     (let rows = map snd (filter (\<lambda>((k, _), _). k = key) (sx_files db))
      in (int (length rows), int (length (filter (\<lambda>r. importable_sql (fr_kind r) (fr_path r)) rows))))"

definition get_repository_scan_cursor :: "branch_key \<Rightarrow> scan_db \<Rightarrow> cursor_row option" where
  "get_repository_scan_cursor key db = map_of (sx_cursors db) key"

definition save_repository_scan_cursor ::
  "timestamp \<Rightarrow> branch_key \<Rightarrow> json \<Rightarrow> int \<Rightarrow> int \<Rightarrow> failure option \<Rightarrow> scan_db \<Rightarrow> scan_db" where
  "save_repository_scan_cursor now key j entries importable error db =
     (let attempts = (case map_of (sx_cursors db) key of
            None \<Rightarrow> 0
          | Some old \<Rightarrow> if entries > cu_entries old then 0 else cu_attempts old + 1)
      in db\<lparr>sx_cursors := AList.update key \<lparr>cu_json = j, cu_entries = entries, cu_importable = importable,
           cu_attempts = attempts, cu_error = error, cu_updated = now\<rparr> (sx_cursors db)\<rparr>)"

definition clear_repository_scan_cursor :: "branch_key \<Rightarrow> scan_db \<Rightarrow> scan_db" where
  "clear_repository_scan_cursor key db = db\<lparr>sx_cursors := AList.delete key (sx_cursors db)\<rparr>"

definition update_tenant_repository_after_file_scan ::
  "timestamp \<Rightarrow> string \<Rightarrow> string \<Rightarrow> int \<Rightarrow> int \<Rightarrow> scan_status \<Rightarrow> bool \<Rightarrow> scan_db \<Rightarrow> scan_db" where
  "update_tenant_repository_after_file_scan now tenant repo file_total importable status touch db =
     (case map_of (sx_repos db) repo of
        Some r \<Rightarrow>
          if rp_tenant r = tenant \<and> \<not> rp_deleted r
          then db\<lparr>sx_repos := AList.update repo (r\<lparr>rp_total := file_total, rp_importable := importable, rp_status := status,
                 rp_last_scanned := (if touch then now else rp_last_scanned r)\<rparr>) (sx_repos db)\<rparr>
          else db
      | None \<Rightarrow> db)"

section \<open>A pass\<close>

record scan_env =
  se_walk :: walk_env
  se_setup :: "failure option"
  se_now :: py_datetime
  se_started :: rat
  se_tenant_budget :: "int option"
  se_budget_default :: int
  se_budget_min :: int
  se_budget_max :: int
  se_chunk_size :: int
  se_views :: py_views

record resume_state =
  rm_cursor :: scan_cursor
  rm_entries :: int
  rm_importable :: int

definition load_resume_state :: "scan_env \<Rightarrow> branch_key \<Rightarrow> scan_db \<Rightarrow> (failure + resume_state option) \<times> scan_db" where
  "load_resume_state env key db =
     (case get_repository_scan_cursor key db of
        None \<Rightarrow> (Inr None, db)
      | Some stored \<Rightarrow>
          if should_abandon_cursor (Some (cu_attempts stored)) max_scan_resume_attempts
          then (Inl (AttemptsExhausted (cu_error stored)), clear_repository_scan_cursor key db)
          else if is_cursor_expired (cu_updated stored) (se_now env) default_cursor_max_age_seconds
          then (Inr None, clear_repository_scan_cursor key db)
          else (case cursor_from_json (se_views env) (Some (cu_json stored)) of
              Inl NotANumber \<Rightarrow> (Inl CursorUnreadable, db)
            | Inr None \<Rightarrow> (Inr None, clear_repository_scan_cursor key db)
            | Inr (Some c) \<Rightarrow>
                (Inr (Some \<lparr>rm_cursor = c, rm_entries = cu_entries stored, rm_importable = cu_importable stored\<rparr>), db)))"

record scan_counts =
  ct_entries :: int
  ct_importable :: int
  ct_bytes :: int

text \<open>The part of a pass before its walk: a fresh walk drops the previous snapshot.\<close>

definition start_scan :: "scan_env \<Rightarrow> branch_key \<Rightarrow> scan_db \<Rightarrow> (failure + scan_cursor option \<times> scan_counts) \<times> scan_db" where
  "start_scan env key db =
     (case se_setup env of
        Some f \<Rightarrow> (Inl f, db)
      | None \<Rightarrow>
          (case load_resume_state env key db of
             (Inl f, db) \<Rightarrow> (Inl f, db)
           | (Inr (Some r), db) \<Rightarrow>
               (Inr (Some (rm_cursor r), \<lparr>ct_entries = rm_entries r, ct_importable = rm_importable r, ct_bytes = 0\<rparr>), db)
           | (Inr None, db) \<Rightarrow>
               (Inr (None, \<lparr>ct_entries = 0, ct_importable = 0, ct_bytes = 0\<rparr>), delete_tenant_repository_files key db)))"

definition scan_sink :: "branch_key \<Rightarrow> file_row list \<Rightarrow> scan_counts \<times> scan_db \<Rightarrow> scan_counts \<times> scan_db" where
  "scan_sink key chunk s =
     (case s of (counts, db) \<Rightarrow>
        (\<lparr>ct_entries = ct_entries counts + int (length chunk),
          ct_importable = ct_importable counts + int (length (filter (\<lambda>r. importable_hint (fr_kind r) (fr_path r)) chunk)),
          ct_bytes = ct_bytes counts + sum_list (map (\<lambda>r. case fr_size r of None \<Rightarrow> 0 | Some n \<Rightarrow> max 0 n) chunk)\<rparr>,
         append_tenant_repository_files key chunk db))"

definition store_cursor :: "scan_env \<Rightarrow> string \<Rightarrow> branch_key \<Rightarrow> scan_cursor option \<Rightarrow> failure option \<Rightarrow> scan_counts \<times> scan_db \<Rightarrow> scan_db" where
  "store_cursor env tenant key state error s =
     (case (state, s) of
        (None, (_, db)) \<Rightarrow> db
      | (Some c, (counts, db)) \<Rightarrow>
          update_tenant_repository_after_file_scan (TsDatetime (se_now env)) tenant (fst key) (ct_entries counts) (ct_importable counts)
            Scanning False
            (save_repository_scan_cursor (TsDatetime (se_now env)) key (cursor_to_json c) (ct_entries counts) (ct_importable counts)
              error db))"

datatype scan_result = ScanPass int int bool bool int | ScanInterrupted failure | ScanFailed failure

text \<open>The part after the walk.\<close>

definition finish_scan ::
  "scan_env \<Rightarrow> string \<Rightarrow> branch_key \<Rightarrow> bool \<Rightarrow> walk_result \<Rightarrow> scan_counts \<times> scan_db \<Rightarrow> scan_result \<times> scan_db" where
  "finish_scan env tenant key resumed r s =
     (case s of (counts, db) \<Rightarrow>
       (case wr_end r of
          Interrupted f \<Rightarrow> (ScanInterrupted f, store_cursor env tenant key (wr_cursor r) (Some f) s)
        | Broken f \<Rightarrow> (ScanFailed f, db)
        | Paused \<Rightarrow>
            (ScanPass (ct_entries counts) (ct_importable counts) False resumed (ct_bytes counts),
             (store_cursor env tenant key (wr_cursor r) None s)\<lparr>sx_volume := sx_volume db @ [(tenant, ct_bytes counts)]\<rparr>)
        | Finished \<Rightarrow>
            (let db = clear_repository_scan_cursor key db;
                 (file_total, importable) = count_tenant_repository_files key db;
                 db = update_tenant_repository_after_file_scan (TsDatetime (se_now env)) tenant (fst key) file_total importable Ready True db
             in (ScanPass file_total importable True resumed (ct_bytes counts),
                 db\<lparr>sx_volume := sx_volume db @ [(tenant, ct_bytes counts)]\<rparr>))))"

definition scan_budget_of :: "scan_env \<Rightarrow> scan_budget" where
  "scan_budget_of env = new_scan_budget
     (Some (resolve_scan_budget_seconds (se_tenant_budget env) (se_budget_default env) (se_budget_min env) (se_budget_max env)))
     (se_started env)"

definition scan_walk :: "scan_env \<Rightarrow> branch_key \<Rightarrow> scan_cursor option \<Rightarrow> walk_result option" where
  "scan_walk env key start =
     walk_github_tree_in_chunks (se_walk env) (snd key) start (Some (scan_budget_of env)) (resolve_chunk_size (Some (se_chunk_size env)))"

definition scan_branch :: "scan_env \<Rightarrow> string \<Rightarrow> branch_key \<Rightarrow> scan_db \<Rightarrow> (scan_result \<times> scan_db) option" where
  "scan_branch env tenant key db =
     (case start_scan env key db of
        (Inl f, db) \<Rightarrow> Some (ScanFailed f, db)
      | (Inr (start, counts), db) \<Rightarrow>
          map_option (\<lambda>r. finish_scan env tenant key (start \<noteq> None) r (fold (scan_sink key) (wr_chunks r) (counts, db)))
            (scan_walk env key start))"

text \<open>The process dies after \<open>n\<close> of the chunks are written.\<close>

definition crashed_scan :: "scan_env \<Rightarrow> branch_key \<Rightarrow> nat \<Rightarrow> scan_db \<Rightarrow> scan_db option" where
  "crashed_scan env key n db =
     (case start_scan env key db of
        (Inl f, db) \<Rightarrow> Some db
      | (Inr (start, counts), db) \<Rightarrow>
          map_option (\<lambda>r. snd (fold (scan_sink key) (take n (wr_chunks r)) (counts, db))) (scan_walk env key start))"

section \<open>Jobs\<close>

definition enqueue_repository_file_scan_job_if_idle :: "string \<Rightarrow> int \<Rightarrow> string \<Rightarrow> branch_key \<Rightarrow> scan_db \<Rightarrow> string option \<times> scan_db" where
  "enqueue_repository_file_scan_job_if_idle new now tenant key db =
     (if list_ex (\<lambda>(_, j). (sj_repo j, sj_branch j) = key \<and> sj_status j \<in> {JobQueued, JobRunning}) (sx_jobs db)
      then (None, db)
      else (Some new, db\<lparr>sx_jobs := AList.update new \<lparr>sj_tenant = tenant, sj_repo = fst key, sj_branch = snd key,
             sj_status = JobQueued, sj_created = now, sj_requeued = None, sj_note = None\<rparr> (sx_jobs db)\<rparr>))"

definition claim_order :: "string \<times> scan_job \<Rightarrow> int" where
  "claim_order e = (case sj_requeued (snd e) of Some t \<Rightarrow> t | None \<Rightarrow> sj_created (snd e))"

definition claim_next_repository_file_scan_job :: "scan_db \<Rightarrow> (string \<times> scan_job) option \<times> scan_db" where
  "claim_next_repository_file_scan_job db =
     (case filter (\<lambda>(_, j). sj_status j = JobQueued) (sx_jobs db) of
        [] \<Rightarrow> (None, db)
      | e # es \<Rightarrow>
          (case min_key claim_order e es of
             (i, j) \<Rightarrow>
               (let j = j\<lparr>sj_status := JobRunning\<rparr> in (Some (i, j), db\<lparr>sx_jobs := AList.update i j (sx_jobs db)\<rparr>))))"

definition set_job :: "string \<Rightarrow> (scan_job \<Rightarrow> scan_job) \<Rightarrow> scan_db \<Rightarrow> scan_db" where
  "set_job i f db = (case map_of (sx_jobs db) i of None \<Rightarrow> db | Some j \<Rightarrow> db\<lparr>sx_jobs := AList.update i (f j) (sx_jobs db)\<rparr>)"

definition mark_repository_file_scan_job_succeeded :: "string \<Rightarrow> scan_db \<Rightarrow> scan_db" where
  "mark_repository_file_scan_job_succeeded i = set_job i (\<lambda>j. j\<lparr>sj_status := JobSucceeded, sj_note := None\<rparr>)"

definition requeue_repository_file_scan_job :: "string \<Rightarrow> int \<Rightarrow> job_note \<Rightarrow> scan_db \<Rightarrow> scan_db" where
  "requeue_repository_file_scan_job i now text =
     set_job i (\<lambda>j. j\<lparr>sj_status := JobQueued, sj_requeued := Some now, sj_note := Some text\<rparr>)"

definition mark_repository_file_scan_job_failed :: "string \<Rightarrow> job_note \<Rightarrow> scan_db \<Rightarrow> scan_db" where
  "mark_repository_file_scan_job_failed i text = set_job i (\<lambda>j. j\<lparr>sj_status := JobFailed, sj_note := Some text\<rparr>)"

definition get_scanned_repository :: "string \<Rightarrow> string \<Rightarrow> scan_db \<Rightarrow> scanned_repo option" where
  "get_scanned_repository tenant repo db =
     (case map_of (sx_repos db) repo of
        Some r \<Rightarrow> if rp_tenant r = tenant \<and> \<not> rp_deleted r then Some r else None
      | None \<Rightarrow> None)"

definition branch_owns_repository_status :: "scanned_repo option \<Rightarrow> string \<Rightarrow> bool" where
  "branch_owns_repository_status row branch =
     (case row of
        None \<Rightarrow> True
      | Some r \<Rightarrow> (let d = strip (rp_default_branch r) in if d = [] then True else branch = d))"

definition fail_job_and_repo :: "timestamp \<Rightarrow> string \<Rightarrow> string \<Rightarrow> string \<Rightarrow> job_note \<Rightarrow> bool \<Rightarrow> scan_db \<Rightarrow> scan_db" where
  "fail_job_and_repo now tenant repo i text fail_repository db =
     (let db = mark_repository_file_scan_job_failed i text db
      in if fail_repository then update_tenant_repository_after_file_scan now tenant repo 0 0 Errored True db else db)"

definition process_next_repository_file_scan_job :: "scan_env \<Rightarrow> int \<Rightarrow> scan_db \<Rightarrow> (int \<times> scan_db) option" where
  "process_next_repository_file_scan_job env now db =
     (case claim_next_repository_file_scan_job db of
        (None, db) \<Rightarrow> Some (0, db)
      | (Some (i, job), db) \<Rightarrow>
          (let tenant = sj_tenant job; repo = sj_repo job; branch = sj_branch job; row = get_scanned_repository tenant repo db in
           if row = None then Some (1, mark_repository_file_scan_job_failed i RepositoryRowMissing db)
           else map_option (\<lambda>(outcome, db). (1,
             case outcome of
               ScanPass _ _ completed _ _ \<Rightarrow>
                 if completed then mark_repository_file_scan_job_succeeded i db
                 else requeue_repository_file_scan_job i now PassPaused db
             | ScanInterrupted f \<Rightarrow>
                 if get_repository_scan_cursor (repo, branch) db \<noteq> None
                 then requeue_repository_file_scan_job i now (ScanError f) db
                 else fail_job_and_repo (TsDatetime (se_now env)) tenant repo i (ScanError f) (branch_owns_repository_status row branch) db
             | ScanFailed f \<Rightarrow>
                 fail_job_and_repo (TsDatetime (se_now env)) tenant repo i (ScanError f) (branch_owns_repository_status row branch) db))
             (scan_branch env tenant (repo, branch) db)))"

end
