(* ===== verification/ScanSound.thy ===== *)
theory ScanSound
  imports ScanTree ScanIndex
begin

text \<open>
  The resumable scan over its whole life. Passes may pause when their budget is spent, be interrupted
  by the provider, die after any of their chunks, be abandoned or expire, on any branch and in any
  order; every stored cursor stays a good position for the rows indexed under its branch. Hence a
  pass that completes has indexed the files of one tree the branch pointed at, stamped with that
  tip, and nothing else, however its walk was cut up; and every pass returns.
\<close>

section \<open>One pass of the walk\<close>

definition tip_of :: "(string \<Rightarrow> branch_reply set) \<Rightarrow> string \<Rightarrow> scan_cursor \<Rightarrow> bool" where
  "tip_of tips branch c \<longleftrightarrow> (\<exists>t \<in> tips branch. br_tree t = Some (sc_tree c)
     \<and> sc_tip_sha c = nonempty (take 64 (br_commit t)) \<and> sc_tip_at c = nonempty (strip (br_date t)))"

text \<open>An environment of a history: an honest provider whose branches only ever point at \<open>tips\<close>, and
  whose directory listings are complete when \<open>full\<close>.\<close>

definition provider_ok ::
  "object_store \<Rightarrow> (string \<Rightarrow> git_file list) \<Rightarrow> (string \<Rightarrow> branch_reply set) \<Rightarrow> bool \<Rightarrow> walk_env \<Rightarrow> bool" where
  "provider_ok st listing tips full env \<longleftrightarrow> honest st listing env \<and> (full \<longrightarrow> complete_listings env)
     \<and> (\<forall>branch t. we_branch env branch = HttpReply 200 t \<longrightarrow> t \<in> tips branch)"

lemma good_position_mono:
  "good_position st listing c D \<Longrightarrow> D \<subseteq> D' \<Longrightarrow> D' \<subseteq> cursor_rows st c \<Longrightarrow> good_position st listing c D'"
  by (auto simp: good_position_def split: walk_mode.splits)

lemma start_cursor_good:
  assumes "provider_ok st listing tips full env" and "start_cursor_for_branch env branch = Inr c"
  shows "good_position st listing c {} \<and> sc_truncated c = [] \<and> tip_of tips branch c"
proof -
  obtain t tree where t: "we_branch env branch = HttpReply 200 t" "br_tree t = Some tree" "tree \<noteq> []"
    and c: "c = \<lparr>sc_tree = tree, sc_mode = RecursiveWalk, sc_emitted = 0, sc_pending = [],
      sc_tip_sha = nonempty (take 64 (br_commit t)), sc_tip_at = nonempty (strip (br_date t)), sc_truncated = []\<rparr>"
    using assms(2) by (auto simp: start_cursor_for_branch_def get_github_json_Inr split: sum.splits scan_failure.splits failure.splits option.splits if_splits)
  have tree: "tree_ok st tree" using assms(1) t by (auto simp: provider_ok_def honest_def)
  then have "strip tree = tree" by (simp add: tree_ok_def stored_dir_def)
  moreover have "tip_of tips branch c" using assms(1) t(1,2) by (auto simp: provider_ok_def tip_of_def c)
  moreover have "nonempty x \<noteq> Some []" for x by (simp add: nonempty_def)
  ultimately show ?thesis using tree t(3) by (simp add: good_position_def cursor_ok_def c)
qed

text \<open>The cursor a pass starts from: the stored one, or the tip of the branch.\<close>

definition pass_from ::
  "object_store \<Rightarrow> (string \<Rightarrow> git_file list) \<Rightarrow> (string \<Rightarrow> branch_reply set) \<Rightarrow> bool \<Rightarrow> string \<Rightarrow> scan_cursor option \<Rightarrow> file_row set
   \<Rightarrow> bool" where
  "pass_from st listing tips full branch start D \<longleftrightarrow>
     (case start of
        None \<Rightarrow> D = {}
      | Some c \<Rightarrow> good_position st listing c D \<and> tip_of tips branch c \<and> (full \<longrightarrow> sc_truncated c = []))"

definition pass_result ::
  "object_store \<Rightarrow> (string \<Rightarrow> git_file list) \<Rightarrow> (string \<Rightarrow> branch_reply set) \<Rightarrow> bool \<Rightarrow> string \<Rightarrow> int \<Rightarrow> file_row set
   \<Rightarrow> scan_cursor \<Rightarrow> walk_result \<Rightarrow> bool" where
  "pass_result st listing tips full branch limit D c r \<longleftrightarrow> (let D' = D \<union> set (concat (wr_chunks r)) in
     good_position st listing c D \<and> tip_of tips branch c \<and> D' \<subseteq> cursor_rows st c
     \<and> (\<forall>k \<in> set (wr_chunks r). k \<noteq> [] \<and> int (length k) \<le> limit)
     \<and> (wr_end r = Finished \<and> full \<longrightarrow> D' = cursor_rows st c)
     \<and> (\<forall>c'. wr_cursor r = Some c' \<longrightarrow> good_position st listing c' D' \<and> tip_of tips branch c' \<and> (full \<longrightarrow> sc_truncated c' = []))
     \<and> (wr_cursor r = None \<longleftrightarrow> wr_end r = Finished \<or> (\<exists>f. wr_end r = Broken f)))"

lemma walk_in_chunks_returns:
  assumes "provider_ok st listing tips full env" and "pass_from st listing tips full branch start D"
  shows "\<exists>r. walk_github_tree_in_chunks env branch start budget chunk_size = Some r
    \<and> ((\<exists>c. (start = None \<or> start = Some c) \<and> pass_result st listing tips full branch (resolve_chunk_size (Some chunk_size)) D c r)
       \<or> start = None \<and> wr_chunks r = [] \<and> wr_cursor r = None \<and> ((\<exists>f. wr_end r = Interrupted f) \<or> (\<exists>f. wr_end r = Broken f)))"
proof -
  let ?limit = "resolve_chunk_size (Some chunk_size)"
  have limit: "1 \<le> ?limit" by (simp add: chunk_size_range)
  have run: ?thesis if from_c: "(case start of Some c \<Rightarrow> Inr c | None \<Rightarrow> start_cursor_for_branch env branch) = Inr c"
    and start: "start = None \<or> start = Some c"
    and c: "good_position st listing c D" "tip_of tips branch c" "full \<longrightarrow> sc_truncated c = []" for c
  proof -
    obtain e w where w: "walk_tree env budget ?limit (new_walk c) = Some (e, w)" "walk_ok st listing ?limit c D e w"
      "complete_listings env \<longrightarrow> sc_truncated (wk_cursor w) = sc_truncated c"
      using walk_tree_returns[OF _ limit c(1)] assms(1) unfolding provider_ok_def by blast
    let ?r = "\<lparr>wr_end = e, wr_cursor = (case e of Paused \<Rightarrow> Some (wk_cursor w) | Interrupted _ \<Rightarrow> Some (wk_cursor w) | _ \<Rightarrow> None),
      wr_chunks = wk_chunks w, wr_truncated = sc_truncated (wk_cursor w)\<rparr>"
    have result: "walk_github_tree_in_chunks env branch start budget chunk_size = Some ?r"
      using w(1) unfolding walk_github_tree_in_chunks_def Let_def from_c new_walk_def by simp
    have trunc: "full \<longrightarrow> sc_truncated (wk_cursor w) = []" using w(3) c(3) assms(1) by (auto simp: provider_ok_def)
    have tip: "tip_of tips branch (wk_cursor w)" using w(2) c(2) by (simp add: walk_ok_def Let_def tip_of_def)
    have "pass_result st listing tips full branch ?limit D c ?r"
      using w(2) c trunc tip by (cases e) (auto simp: pass_result_def walk_ok_def Let_def)
    then show ?thesis using result start by blast
  qed
  show ?thesis
  proof (cases start)
    case (Some c)
    then show ?thesis using run[of c] assms(2) by (simp add: pass_from_def)
  next
    case None
    then have D: "D = {}" using assms(2) by (simp add: pass_from_def)
    show ?thesis
    proof (cases "start_cursor_for_branch env branch")
      case (Inl e)
      then show ?thesis using None by (cases e) (auto simp: walk_github_tree_in_chunks_def Let_def)
    next
      case (Inr c)
      then show ?thesis using run[of c] start_cursor_good[OF assms(1) Inr] None D by simp
    qed
  qed
qed

section \<open>Indexed rows\<close>

definition branch_rows :: "branch_key \<Rightarrow> scan_db \<Rightarrow> file_row list" where
  "branch_rows key db = map snd (filter (\<lambda>((k, _), _). k = key) (sx_files db))"

definition indexed :: "branch_key \<Rightarrow> scan_db \<Rightarrow> file_row set" where
  "indexed key db = set (branch_rows key db)"

definition files_ok :: "scan_db \<Rightarrow> bool" where
  "files_ok db \<longleftrightarrow> wf_dict (sx_files db) \<and> (\<forall>((k, p), r) \<in> set (sx_files db). fr_path r = p)"

lemma indexed_lookup:
  assumes "files_ok db"
  shows "r \<in> indexed key db \<longleftrightarrow> map_of (sx_files db) (key, fr_path r) = Some r"
proof -
  have "map_of (sx_files db) (key, fr_path r) = Some r \<longleftrightarrow> ((key, fr_path r), r) \<in> set (sx_files db)"
    using assms by (simp add: files_ok_def wf_dict_def)
  then show ?thesis using assms by (force simp: indexed_def branch_rows_def files_ok_def)
qed

lemma indexed_one_row: "files_ok db \<Longrightarrow> r \<in> indexed key db \<Longrightarrow> s \<in> indexed key db \<Longrightarrow> fr_path r = fr_path s \<Longrightarrow> r = s"
  by (simp add: indexed_lookup)

lemma branch_rows_distinct:
  assumes "files_ok db"
  shows "distinct (branch_rows key db)"
proof -
  let ?rows = "filter (\<lambda>((k, _), _). k = key) (sx_files db)"
  have "distinct (map fst ?rows)" using assms by (simp add: files_ok_def wf_dict_def distinct_map_filter)
  moreover have "map fst ?rows = map (\<lambda>r. (key, fr_path r)) (map snd ?rows)"
    using assms by (auto simp: files_ok_def)
  ultimately show ?thesis unfolding branch_rows_def by (metis distinct_map)
qed

lemma set_update: "set (AList.update k v d) \<subseteq> insert (k, v) (set d)"
  by (induction d) auto

lemma append_one:
  fixes key r
  assumes "files_ok db"
  defines "db' \<equiv> db\<lparr>sx_files := AList.update (key, fr_path r) r (sx_files db)\<rparr>"
  shows "files_ok db'" "indexed key db' = insert r {s \<in> indexed key db. fr_path s \<noteq> fr_path r}"
    "k \<noteq> key \<Longrightarrow> indexed k db' = indexed k db"
proof -
  show ok: "files_ok db'" using assms set_update[of "(key, fr_path r)" r "sx_files db"] by (auto simp: files_ok_def)
  show "indexed key db' = insert r {s \<in> indexed key db. fr_path s \<noteq> fr_path r}"
    using indexed_lookup[OF ok, of _ key] indexed_lookup[OF assms(1), of _ key] by (auto simp: db'_def split: if_splits)
  show "indexed k db' = indexed k db" if "k \<noteq> key"
    using indexed_lookup[OF ok, of _ k] indexed_lookup[OF assms(1), of _ k] that by (auto simp: db'_def split: if_splits)
qed

lemma append_fold: "append_tenant_repository_files key (r # rows) db =
  append_tenant_repository_files key rows (db\<lparr>sx_files := AList.update (key, fr_path r) r (sx_files db)\<rparr>)"
  by (simp add: append_tenant_repository_files_def)

lemma append_rows:
  assumes "files_ok db" and "inj_on fr_path R" and "indexed key db \<union> set rows \<subseteq> R"
  defines "db' \<equiv> append_tenant_repository_files key rows db"
  shows "files_ok db' \<and> indexed key db' = indexed key db \<union> set rows \<and> (\<forall>k. k \<noteq> key \<longrightarrow> indexed k db' = indexed k db)"
  using assms(1,3) unfolding db'_def
proof (induction rows arbitrary: db)
  case Nil
  then show ?case by (simp add: append_tenant_repository_files_def)
next
  case (Cons r rows)
  let ?db = "db\<lparr>sx_files := AList.update (key, fr_path r) r (sx_files db)\<rparr>"
  note one = append_one[OF Cons.prems(1), where key = key and r = r]
  have here: "indexed key ?db = insert r (indexed key db)"
    using Cons.prems(2) assms(2) unfolding one(2) by (auto simp: inj_on_def)
  have "files_ok (append_tenant_repository_files key rows ?db)
      \<and> indexed key (append_tenant_repository_files key rows ?db) = indexed key ?db \<union> set rows
      \<and> (\<forall>k. k \<noteq> key \<longrightarrow> indexed k (append_tenant_repository_files key rows ?db) = indexed k ?db)"
    using Cons.prems by (intro Cons.IH one(1)) (auto simp: here)
  then show ?case using here one(3) by (simp add: append_fold)
qed

lemma append_keeps [simp]:
  "sx_cursors (append_tenant_repository_files key rows db) = sx_cursors db"
  "sx_repos (append_tenant_repository_files key rows db) = sx_repos db"
  "sx_jobs (append_tenant_repository_files key rows db) = sx_jobs db"
  "sx_volume (append_tenant_repository_files key rows db) = sx_volume db"
  by (simp_all add: append_tenant_repository_files_def)

lemma delete_rows:
  assumes "files_ok db"
  shows "files_ok (delete_tenant_repository_files key db)" "indexed key (delete_tenant_repository_files key db) = {}"
    "k \<noteq> key \<Longrightarrow> indexed k (delete_tenant_repository_files key db) = indexed k db"
  using assms by (auto simp: files_ok_def delete_tenant_repository_files_def indexed_def branch_rows_def wf_dict_def distinct_map_filter)

lemma sink_rows:
  assumes "files_ok db" and "inj_on fr_path R" and "indexed key db \<union> set (concat chunks) \<subseteq> R"
    and "fold (scan_sink key) chunks (counts, db) = (counts', db')"
  shows "files_ok db' \<and> indexed key db' = indexed key db \<union> set (concat chunks) \<and> (\<forall>k. k \<noteq> key \<longrightarrow> indexed k db' = indexed k db)
    \<and> sx_cursors db' = sx_cursors db \<and> sx_repos db' = sx_repos db \<and> sx_jobs db' = sx_jobs db \<and> sx_volume db' = sx_volume db"
  using assms(1,3,4)
proof (induction chunks arbitrary: counts db)
  case (Cons rows chunks)
  obtain counts1 where sink: "scan_sink key rows (counts, db) = (counts1, append_tenant_repository_files key rows db)"
    by (simp add: scan_sink_def)
  have "indexed key db \<union> set rows \<subseteq> R" using Cons.prems(2) by auto
  note one = append_rows[OF Cons.prems(1) assms(2) this]
  have "fold (scan_sink key) chunks (counts1, append_tenant_repository_files key rows db) = (counts', db')"
    using Cons.prems(3) by (simp add: sink)
  from Cons.IH[OF _ _ this] show ?case using one Cons.prems(2) by auto
qed simp

lemma path_of_row [simp]: "fr_path (row_of c f) = fst f"
  by (simp add: row_of_def blob_entry_def Let_def)

lemma cursor_rows_inj:
  assumes "tree_ok st (sc_tree c)"
  shows "inj_on fr_path (cursor_rows st c)" "inj_on (row_of c) (tree_files st (sc_tree c))"
proof -
  have inj: "inj_on fst (tree_files st (sc_tree c))" using assms by (simp add: tree_ok_def)
  then show "inj_on (row_of c) (tree_files st (sc_tree c))" by (metis (lifting) inj_on_def path_of_row)
  show "inj_on fr_path (cursor_rows st c)"
    using inj unfolding cursor_rows_def inj_on_def by (metis (no_types, lifting) imageE path_of_row)
qed

section \<open>The invariant of the store\<close>

definition scan_inv ::
  "object_store \<Rightarrow> (string \<Rightarrow> git_file list) \<Rightarrow> (string \<Rightarrow> branch_reply set) \<Rightarrow> bool \<Rightarrow> scan_db \<Rightarrow> bool" where
  "scan_inv st listing tips full db \<longleftrightarrow> files_ok db
     \<and> (\<forall>key stored. map_of (sx_cursors db) key = Some stored \<longrightarrow>
          (\<exists>c. cu_json stored = cursor_to_json c \<and> pass_from st listing tips full (snd key) (Some c) (indexed key db)))"

lemma scan_inv_empty: "sx_files db = [] \<Longrightarrow> sx_cursors db = [] \<Longrightarrow> scan_inv st listing tips full db"
  by (simp add: scan_inv_def files_ok_def)

lemma scan_inv_cong:
  assumes "scan_inv st listing tips full db" and "sx_files db' = sx_files db" and "sx_cursors db' = sx_cursors db"
  shows "scan_inv st listing tips full db'"
  using assms by (simp add: scan_inv_def files_ok_def indexed_def branch_rows_def)

lemma scan_inv_stored:
  "scan_inv st listing tips full db \<Longrightarrow> map_of (sx_cursors db) key = Some stored \<Longrightarrow>
     \<exists>c. cu_json stored = cursor_to_json c \<and> pass_from st listing tips full (snd key) (Some c) (indexed key db)"
  unfolding scan_inv_def by blast

lemma scan_inv_clear: "scan_inv st listing tips full db \<Longrightarrow> scan_inv st listing tips full (clear_repository_scan_cursor key db)"
  by (auto simp: scan_inv_def clear_repository_scan_cursor_def files_ok_def indexed_def branch_rows_def delete_conv split: if_splits)

lemma clear_keeps [simp]:
  "sx_files (clear_repository_scan_cursor key db) = sx_files db"
  "sx_repos (clear_repository_scan_cursor key db) = sx_repos db"
  "sx_jobs (clear_repository_scan_cursor key db) = sx_jobs db"
  "map_of (sx_cursors (clear_repository_scan_cursor key db)) = (map_of (sx_cursors db))(key := None)"
  by (auto simp: clear_repository_scan_cursor_def)

lemma update_keeps [simp]:
  "sx_files (update_tenant_repository_after_file_scan now tenant repo n i s touch db) = sx_files db"
  "sx_cursors (update_tenant_repository_after_file_scan now tenant repo n i s touch db) = sx_cursors db"
  "sx_jobs (update_tenant_repository_after_file_scan now tenant repo n i s touch db) = sx_jobs db"
  by (auto simp: update_tenant_repository_after_file_scan_def split: option.splits)

lemma indexed_cong: "sx_files db' = sx_files db \<Longrightarrow> branch_rows key db' = branch_rows key db \<and> indexed key db' = indexed key db \<and> files_ok db' = files_ok db"
  by (simp add: indexed_def branch_rows_def files_ok_def)

lemma scan_inv_branch:
  assumes "scan_inv st listing tips full db" and "files_ok db'" and "\<forall>k. k \<noteq> key \<longrightarrow> indexed k db' = indexed k db"
    and "\<forall>k. k \<noteq> key \<longrightarrow> map_of (sx_cursors db') k = map_of (sx_cursors db) k"
    and "\<forall>stored. map_of (sx_cursors db') key = Some stored \<longrightarrow>
          (\<exists>c. cu_json stored = cursor_to_json c \<and> pass_from st listing tips full (snd key) (Some c) (indexed key db'))"
  shows "scan_inv st listing tips full db'"
  unfolding scan_inv_def
proof (intro conjI allI impI)
  fix k stored assume "map_of (sx_cursors db') k = Some stored"
  then show "\<exists>c. cu_json stored = cursor_to_json c \<and> pass_from st listing tips full (snd k) (Some c) (indexed k db')"
    using assms(3,4)[rule_format, of k] assms(5) scan_inv_stored[OF assms(1), of k stored] by (cases "k = key") simp_all
qed (rule assms(2))

text \<open>The beginning of a pass: it reads the stored position, or starts over with no rows.\<close>

lemma start_scan_spec:
  assumes "scan_inv st listing tips full db" and "start_scan env key db = (res, db1)"
  shows "scan_inv st listing tips full db1 \<and> sx_jobs db1 = sx_jobs db \<and> sx_repos db1 = sx_repos db
    \<and> (\<forall>k. k \<noteq> key \<longrightarrow> indexed k db1 = indexed k db)
    \<and> (\<forall>start counts. res = Inr (start, counts) \<longrightarrow> pass_from st listing tips full (snd key) start (indexed key db1)
         \<and> (case start of
              None \<Rightarrow> map_of (sx_cursors db1) key = None \<and> counts = \<lparr>ct_entries = 0, ct_importable = 0, ct_bytes = 0\<rparr>
            | Some c \<Rightarrow> \<exists>stored. map_of (sx_cursors db1) key = Some stored \<and> cu_json stored = cursor_to_json c
                \<and> ct_entries counts = cu_entries stored))"
proof -
  have fresh: "scan_inv st listing tips full (delete_tenant_repository_files key d)
      \<and> sx_jobs (delete_tenant_repository_files key d) = sx_jobs d \<and> sx_repos (delete_tenant_repository_files key d) = sx_repos d
      \<and> (\<forall>k. k \<noteq> key \<longrightarrow> indexed k (delete_tenant_repository_files key d) = indexed k d)
      \<and> pass_from st listing tips full (snd key) None (indexed key (delete_tenant_repository_files key d))
      \<and> map_of (sx_cursors (delete_tenant_repository_files key d)) key = None"
    if "scan_inv st listing tips full d" "map_of (sx_cursors d) key = None" for d
  proof -
    have ok: "files_ok d" using that(1) by (simp add: scan_inv_def)
    have same: "sx_cursors (delete_tenant_repository_files key d) = sx_cursors d"
      "sx_jobs (delete_tenant_repository_files key d) = sx_jobs d" "sx_repos (delete_tenant_repository_files key d) = sx_repos d"
      by (simp_all add: delete_tenant_repository_files_def)
    note rows = delete_rows[OF ok, where key = key]
    have "scan_inv st listing tips full (delete_tenant_repository_files key d)"
      using rows that(2) by (intro scan_inv_branch[OF that(1), where key = key]) (simp_all add: same)
    then show ?thesis using rows that(2) by (simp add: same pass_from_def)
  qed
  show ?thesis
  proof (cases "se_setup env")
    case Some
    then show ?thesis using assms by (auto simp: start_scan_def)
  next
    case no_error: None
    show ?thesis
    proof (cases "map_of (sx_cursors db) key")
      case None
      then show ?thesis
        using assms no_error fresh[OF assms(1) None]
        by (auto simp: start_scan_def load_resume_state_def get_repository_scan_cursor_def)
    next
      case (Some stored)
      then obtain c where c: "cu_json stored = cursor_to_json c" "pass_from st listing tips full (snd key) (Some c) (indexed key db)"
        using scan_inv_stored[OF assms(1)] by blast
      then have "cursor_from_json (se_views env) (Some (cu_json stored)) = Inr (Some c)"
        by (auto simp: pass_from_def good_position_def intro: cursor_from_to_json)
      then show ?thesis
        using assms no_error Some c scan_inv_clear[OF assms(1), of key] fresh[of "clear_repository_scan_cursor key db"]
          indexed_cong[OF clear_keeps(1), of _ key db]
        by (auto simp: start_scan_def load_resume_state_def get_repository_scan_cursor_def split: if_splits)
    qed
  qed
qed

lemma store_cursor_keeps:
  "sx_files (store_cursor env tenant key state error (counts, db)) = sx_files db"
  "sx_jobs (store_cursor env tenant key state error (counts, db)) = sx_jobs db"
  "k \<noteq> key \<Longrightarrow> map_of (sx_cursors (store_cursor env tenant key state error (counts, db))) k = map_of (sx_cursors db) k"
  "\<exists>row. map_of (sx_cursors (store_cursor env tenant key (Some c) error (counts, db))) key = Some row \<and> cu_json row = cursor_to_json c"
  "store_cursor env tenant key None error (counts, db) = db"
  by (auto simp: store_cursor_def save_repository_scan_cursor_def Let_def split: option.splits)

text \<open>What a pass leaves, by its outcome.\<close>

definition pass_outcome ::
  "object_store \<Rightarrow> (string \<Rightarrow> branch_reply set) \<Rightarrow> bool \<Rightarrow> branch_key \<Rightarrow> scan_result \<Rightarrow> scan_db \<Rightarrow> bool" where
  "pass_outcome st tips full key outcome db \<longleftrightarrow>
     (case outcome of
        ScanPass n i completed resumed bytes \<Rightarrow>
          if completed
          then map_of (sx_cursors db) key = None \<and> n = int (length (branch_rows key db))
             \<and> i = int (length (filter (\<lambda>r. importable_sql (fr_kind r) (fr_path r)) (branch_rows key db)))
             \<and> (\<exists>c. tip_of tips (snd key) c \<and> tree_ok st (sc_tree c) \<and> indexed key db \<subseteq> cursor_rows st c
                  \<and> (full \<longrightarrow> indexed key db = cursor_rows st c))
          else map_of (sx_cursors db) key \<noteq> None
      | _ \<Rightarrow> True)"

lemma finish_scan_keeps:
  assumes "finish_scan env tenant key resumed r (counts, db) = (outcome, db')"
  shows "sx_files db' = sx_files db" "sx_jobs db' = sx_jobs db" "k \<noteq> key \<Longrightarrow> map_of (sx_cursors db') k = map_of (sx_cursors db) k"
    "wr_cursor r = Some c \<Longrightarrow> wr_end r = Paused \<or> (\<exists>f. wr_end r = Interrupted f) \<Longrightarrow>
       \<exists>row. map_of (sx_cursors db') key = Some row \<and> cu_json row = cursor_to_json c"
    "wr_cursor r = None \<Longrightarrow> \<exists>f. wr_end r = Interrupted f \<Longrightarrow> db' = db"
    "wr_end r = Finished \<Longrightarrow> map_of (sx_cursors db') key = None"
    "wr_end r = Broken f \<Longrightarrow> db' = db"
  using assms by (auto simp: finish_scan_def store_cursor_keeps Let_def split: walk_end.splits prod.splits)

lemma start_rows_inj:
  assumes "pass_result st listing tips full branch limit D c r"
  shows "inj_on fr_path (cursor_rows st c)" "tree_ok st (sc_tree c)" "D \<union> set (concat (wr_chunks r)) \<subseteq> cursor_rows st c"
  using assms cursor_rows_inj(1) by (auto simp: pass_result_def Let_def good_position_def)

lemma scan_branch_spec:
  assumes "scan_inv st listing tips full db" and "provider_ok st listing tips full (se_walk env)"
  shows "\<exists>outcome db'. scan_branch env tenant key db = Some (outcome, db') \<and> scan_inv st listing tips full db'
    \<and> pass_outcome st tips full key outcome db' \<and> (\<forall>k. k \<noteq> key \<longrightarrow> indexed k db' = indexed k db) \<and> sx_jobs db' = sx_jobs db"
proof -
  obtain res db1 where start: "start_scan env key db = (res, db1)" by (cases "start_scan env key db")
  note began = start_scan_spec[OF assms(1) start]
  show ?thesis
  proof (cases res)
    case (Inl f)
    then show ?thesis using began start by (auto simp: scan_branch_def pass_outcome_def)
  next
    case (Inr p)
    obtain start counts where p: "p = (start, counts)" by (cases p)
    have from1: "pass_from st listing tips full (snd key) start (indexed key db1)" using began Inr p by simp
    let ?limit = "resolve_chunk_size (Some (resolve_chunk_size (Some (se_chunk_size env))))"
    obtain r where r: "scan_walk env key start = Some r"
      and cases: "(\<exists>c. (start = None \<or> start = Some c) \<and> pass_result st listing tips full (snd key) ?limit (indexed key db1) c r)
        \<or> start = None \<and> wr_chunks r = [] \<and> wr_cursor r = None \<and> ((\<exists>f. wr_end r = Interrupted f) \<or> (\<exists>f. wr_end r = Broken f))"
      using walk_in_chunks_returns[OF assms(2) from1, where budget = "Some (scan_budget_of env)"] unfolding scan_walk_def by blast
    obtain counts2 db2 where sunk: "fold (scan_sink key) (wr_chunks r) (counts, db1) = (counts2, db2)"
      by (cases "fold (scan_sink key) (wr_chunks r) (counts, db1)")
    obtain outcome db' where fin: "finish_scan env tenant key (start \<noteq> None) r (counts2, db2) = (outcome, db')"
      by (cases "finish_scan env tenant key (start \<noteq> None) r (counts2, db2)")
    have run: "scan_branch env tenant key db = Some (outcome, db')"
      using start Inr p r sunk fin by (simp add: scan_branch_def)
    note kept = finish_scan_keeps[OF fin]
    have files1: "files_ok db1" using began by (simp add: scan_inv_def)
    consider (walk) c where "pass_result st listing tips full (snd key) ?limit (indexed key db1) c r" "start = None \<or> start = Some c"
      | (none) "start = None" "wr_chunks r = []" "wr_cursor r = None" "(\<exists>f. wr_end r = Interrupted f) \<or> (\<exists>f. wr_end r = Broken f)"
      using cases by metis
    then show ?thesis
    proof cases
      case none
      then have "db2 = db1" "db' = db1" using sunk kept(5,7) by auto
      moreover have "pass_outcome st tips full key outcome db'"
        using fin none(4) by (auto simp: finish_scan_def pass_outcome_def)
      ultimately show ?thesis using run began by simp
    next
      case (walk c)
      note sank = sink_rows[OF files1 start_rows_inj(1,3)[OF walk(1)] sunk]
      have rows: "indexed key db' = indexed key db1 \<union> set (concat (wr_chunks r))" "files_ok db'"
        "\<forall>k. k \<noteq> key \<longrightarrow> indexed k db' = indexed k db1"
        using sank indexed_cong[OF kept(1)] by simp_all
      have "\<exists>c'. cu_json stored = cursor_to_json c' \<and> pass_from st listing tips full (snd key) (Some c') (indexed key db')"
        if stored: "map_of (sx_cursors db') key = Some stored" for stored
      proof (cases "wr_cursor r")
        case (Some c')
        then have "wr_end r = Paused \<or> (\<exists>f. wr_end r = Interrupted f)"
          using walk(1) by (cases "wr_end r") (auto simp: pass_result_def Let_def)
        then show ?thesis
          using kept(4)[OF Some] stored walk(1) Some by (auto simp: pass_result_def Let_def pass_from_def rows)
      next
        case None
        then obtain f where f: "wr_end r = Broken f"
          using walk(1) kept(6) stored by (auto simp: pass_result_def Let_def)
        then have "map_of (sx_cursors db1) key = Some stored" using stored sank kept(7) by simp
        then have "start = Some c" "cu_json stored = cursor_to_json c"
          using began Inr p walk(2) by (auto split: option.splits)
        then show ?thesis
          using from1 good_position_mono[of st listing c "indexed key db1" "indexed key db'"] start_rows_inj(3)[OF walk(1)]
          by (auto simp: pass_from_def rows)
      qed
      then have "scan_inv st listing tips full db'"
        using began rows sank kept(3) by (intro scan_inv_branch[where key = key and db' = db' and db = db1]) auto
      moreover have "pass_outcome st tips full key outcome db'"
      proof (cases "wr_end r")
        case Finished
        then have "outcome = ScanPass (int (length (branch_rows key db'))) (int (length (filter (\<lambda>r. importable_sql (fr_kind r) (fr_path r)) (branch_rows key db')))) True
            (start \<noteq> None) (ct_bytes counts2)"
          using fin indexed_cong[OF kept(1), of key] indexed_cong[OF clear_keeps(1), of key key db2]
          by (auto simp: finish_scan_def Let_def count_tenant_repository_files_def branch_rows_def)
        then show ?thesis
          using walk(1) start_rows_inj(2,3)[OF walk(1)] kept(6)[OF Finished] Finished
          by (auto simp: pass_outcome_def pass_result_def Let_def rows)
      next
        case Paused
        then have "wr_cursor r \<noteq> None" using walk(1) by (auto simp: pass_result_def Let_def)
        then show ?thesis using kept(4) Paused fin by (auto simp: pass_outcome_def finish_scan_def)
      qed (use fin in \<open>auto simp: finish_scan_def pass_outcome_def\<close>)
      ultimately show ?thesis using run rows(3) began sank kept(2) by auto
    qed
  qed
qed

lemma crashed_scan_spec:
  assumes "scan_inv st listing tips full db" and "provider_ok st listing tips full (se_walk env)" and "crashed_scan env key n db = Some db'"
  shows "scan_inv st listing tips full db'"
proof -
  obtain res db1 where start: "start_scan env key db = (res, db1)" by (cases "start_scan env key db")
  note began = start_scan_spec[OF assms(1) start]
  show ?thesis
  proof (cases res)
    case (Inl f)
    then show ?thesis using began start assms(3) by (simp add: crashed_scan_def)
  next
    case (Inr p)
    obtain start counts where p: "p = (start, counts)" by (cases p)
    have from1: "pass_from st listing tips full (snd key) start (indexed key db1)" using began Inr p by simp
    have files1: "files_ok db1" using began by (simp add: scan_inv_def)
    obtain r where r: "scan_walk env key start = Some r" and db': "db' = snd (fold (scan_sink key) (take n (wr_chunks r)) (counts, db1))"
      using assms(3) start Inr p by (auto simp: crashed_scan_def)
    obtain counts2 where sunk: "fold (scan_sink key) (take n (wr_chunks r)) (counts, db1) = (counts2, db')"
      using db' by (metis prod.collapse)
    consider (walk) c where "pass_result st listing tips full (snd key) (resolve_chunk_size (Some (resolve_chunk_size (Some (se_chunk_size env)))))
        (indexed key db1) c r" "start = None \<or> start = Some c"
      | (none) "wr_chunks r = []"
      using walk_in_chunks_returns[OF assms(2) from1, where budget = "Some (scan_budget_of env)"] r unfolding scan_walk_def by (metis option.inject)
    then show ?thesis
    proof cases
      case none
      then show ?thesis using sunk began by simp
    next
      case (walk c)
      have "set (concat (take n (wr_chunks r))) \<subseteq> set (concat (wr_chunks r))" using set_take_subset[of n "wr_chunks r"] by auto
      then have sub: "indexed key db1 \<union> set (concat (take n (wr_chunks r))) \<subseteq> cursor_rows st c"
        using start_rows_inj(3)[OF walk(1)] by blast
      note sank = sink_rows[OF files1 start_rows_inj(1)[OF walk(1)] sub sunk]
      have "\<exists>c'. cu_json stored = cursor_to_json c' \<and> pass_from st listing tips full (snd key) (Some c') (indexed key db')"
        if "map_of (sx_cursors db') key = Some stored" for stored
      proof -
        have "start = Some c" "cu_json stored = cursor_to_json c"
          using that sank began Inr p walk(2) by (auto split: option.splits)
        then show ?thesis
          using from1 good_position_mono[of st listing c "indexed key db1" "indexed key db'"] sub sank
          by (auto simp: pass_from_def)
      qed
      then show ?thesis
        using began sank by (intro scan_inv_branch[where key = key and db' = db' and db = db1]) auto
    qed
  qed
qed

section \<open>Jobs\<close>

lemma set_job_keeps [simp]: "sx_files (set_job i f db) = sx_files db" "sx_cursors (set_job i f db) = sx_cursors db"
  by (simp_all add: set_job_def split: option.splits)

lemmas job_marks = mark_repository_file_scan_job_succeeded_def requeue_repository_file_scan_job_def
  mark_repository_file_scan_job_failed_def fail_job_and_repo_def

lemma set_job_lookup: "map_of (sx_jobs (set_job i f db)) j = (if j = i then map_option f (map_of (sx_jobs db) i) else map_of (sx_jobs db) j)"
  by (simp add: set_job_def split: option.splits)

lemma claim_spec:
  assumes "claim_next_repository_file_scan_job db = (claimed, db')"
  shows "sx_files db' = sx_files db" "sx_cursors db' = sx_cursors db" "sx_repos db' = sx_repos db"
    "claimed = Some (i, j) \<Longrightarrow> map_of (sx_jobs db') i = Some j \<and> sj_status j = JobRunning"
  using assms by (auto simp: claim_next_repository_file_scan_job_def Let_def split: list.splits prod.splits)

lemma scan_inv_job:
  assumes "scan_inv st listing tips full db" and "provider_ok st listing tips full (se_walk env)"
  shows "\<exists>n db'. process_next_repository_file_scan_job env now db = Some (n, db') \<and> scan_inv st listing tips full db'
    \<and> (\<forall>i job db1. claim_next_repository_file_scan_job db = (Some (i, job), db1) \<longrightarrow>
         (\<exists>job'. map_of (sx_jobs db') i = Some job' \<and> sj_status job' \<noteq> JobRunning
            \<and> (sj_status job' = JobQueued \<longrightarrow> map_of (sx_cursors db') (sj_repo job, sj_branch job) \<noteq> None)
            \<and> (sj_status job' = JobSucceeded \<longrightarrow> (\<exists>file_total importable resumed bytes db2.
                  scan_branch env (sj_tenant job) (sj_repo job, sj_branch job) db1 = Some (ScanPass file_total importable True resumed bytes, db2)
                  \<and> sx_files db' = sx_files db2))))"
proof -
  obtain claimed db1 where claim: "claim_next_repository_file_scan_job db = (claimed, db1)" by fastforce
  note claimed = claim_spec[OF claim]
  have inv1: "scan_inv st listing tips full db1" by (rule scan_inv_cong[OF assms(1) claimed(1,2)])
  show ?thesis
  proof (cases claimed)
    case None
    then show ?thesis using claim inv1 by (auto simp: process_next_repository_file_scan_job_def)
  next
    case (Some p)
    obtain i job where p: "p = (i, job)" by (cases p)
    have here: "map_of (sx_jobs db1) i = Some job" using claimed(4) Some p by blast
    let ?row = "get_scanned_repository (sj_tenant job) (sj_repo job) db1" and ?key = "(sj_repo job, sj_branch job)"
    show ?thesis
    proof (cases ?row)
      case None
      then show ?thesis
        using claim Some p here scan_inv_cong[OF inv1]
        by (auto simp: process_next_repository_file_scan_job_def job_marks set_job_lookup)
    next
      case row: (Some r)
      obtain outcome db2 where pass: "scan_branch env (sj_tenant job) ?key db1 = Some (outcome, db2)" "scan_inv st listing tips full db2"
        "pass_outcome st tips full ?key outcome db2" "sx_jobs db2 = sx_jobs db1"
        using scan_branch_spec[OF inv1 assms(2), of "sj_tenant job" ?key] by blast
      have job2: "map_of (sx_jobs db2) i = Some job" using here pass(4) by simp
      show ?thesis
        using claim Some p row pass(1,3) job2 scan_inv_cong[OF pass(2)]
        by (cases outcome)
          (auto simp: process_next_repository_file_scan_job_def job_marks set_job_lookup pass_outcome_def get_repository_scan_cursor_def Let_def)
    qed
  qed
qed

section \<open>Histories\<close>

inductive scan_step ::
  "object_store \<Rightarrow> (string \<Rightarrow> git_file list) \<Rightarrow> (string \<Rightarrow> branch_reply set) \<Rightarrow> bool \<Rightarrow> scan_db \<Rightarrow> scan_db \<Rightarrow> bool"
  for st listing tips full where
  a_pass: "provider_ok st listing tips full (se_walk env) \<Longrightarrow> scan_branch env tenant key db = Some (outcome, db') \<Longrightarrow>
    scan_step st listing tips full db db'"
| a_crash: "provider_ok st listing tips full (se_walk env) \<Longrightarrow> crashed_scan env key n db = Some db' \<Longrightarrow>
    scan_step st listing tips full db db'"
| a_job: "provider_ok st listing tips full (se_walk env) \<Longrightarrow> process_next_repository_file_scan_job env now db = Some (n, db') \<Longrightarrow>
    scan_step st listing tips full db db'"
| other_work: "sx_files db' = sx_files db \<Longrightarrow> sx_cursors db' = sx_cursors db \<Longrightarrow> scan_step st listing tips full db db'"

lemma scan_step_inv: "scan_step st listing tips full db db' \<Longrightarrow> scan_inv st listing tips full db \<Longrightarrow> scan_inv st listing tips full db'"
proof (induction rule: scan_step.induct)
  case (a_pass env tenant key db outcome db')
  then show ?case using scan_branch_spec[of st listing tips full db env tenant key] by auto
next
  case (a_crash env key n db db')
  then show ?case using crashed_scan_spec by blast
next
  case (a_job env now db n db')
  then show ?case using scan_inv_job[of st listing tips full db env now] by auto
qed (rule scan_inv_cong)

definition scan_history ::
  "object_store \<Rightarrow> (string \<Rightarrow> git_file list) \<Rightarrow> (string \<Rightarrow> branch_reply set) \<Rightarrow> bool \<Rightarrow> scan_db \<Rightarrow> bool" where
  "scan_history st listing tips full db \<longleftrightarrow>
     (\<exists>db0. sx_files db0 = [] \<and> sx_cursors db0 = [] \<and> (scan_step st listing tips full)\<^sup>*\<^sup>* db0 db)"

lemma scan_history_start: "sx_files db = [] \<Longrightarrow> sx_cursors db = [] \<Longrightarrow> scan_history st listing tips full db"
  unfolding scan_history_def by blast

lemma scan_history_inv: "scan_history st listing tips full db \<Longrightarrow> scan_inv st listing tips full db"
proof -
  assume "scan_history st listing tips full db"
  then obtain db0 where "sx_files db0 = []" "sx_cursors db0 = []" "(scan_step st listing tips full)\<^sup>*\<^sup>* db0 db"
    by (auto simp: scan_history_def)
  from this(3,1,2) show ?thesis by (induction rule: rtranclp_induct) (auto intro: scan_inv_empty scan_step_inv)
qed

section \<open>Why a walk stops\<close>

definition stop_cause :: "walk_env \<Rightarrow> scan_budget option \<Rightarrow> walk_end \<Rightarrow> bool" where
  "stop_cause env budget e \<longleftrightarrow>
     (e = Paused \<longrightarrow> (\<exists>b n. budget = Some b \<and> exhausted b (we_clock env n)))
     \<and> ((\<exists>f. e = Interrupted f \<or> e = Broken f) \<longrightarrow>
          (\<exists>n sha recursive f. get_github_json ''tree'' (we_tree env n sha recursive) = Inl f))"

lemma budget_spent_cause: "budget_spent env budget w = (True, w') \<Longrightarrow> \<exists>b n. budget = Some b \<and> exhausted b (we_clock env n)"
  by (auto simp: budget_spent_def split: option.splits)

lemma failed_walk_cause:
  "get_github_json ''tree'' (we_tree env n sha recursive) = Inl f \<Longrightarrow> failed_walk f w = (e, w') \<Longrightarrow> stop_cause env budget e"
  by (auto simp: stop_cause_def failed_walk_def split: scan_failure.splits)

lemma walk_sparse_cause: "walk_sparse env budget limit w = Some y \<Longrightarrow> stop_cause env budget (fst y)"
proof (induction rule: walk_sparse.raw_induct[rotated, consumes 1])
  case (1 walk_sparse env budget limit w y)
  obtain spent w1 where b: "budget_spent env budget w = (spent, w1)" by (cases "budget_spent env budget w")
  show ?case
  proof (cases "sc_pending (wk_cursor w)")
    case Nil
    then show ?thesis using 1(2) by (auto simp: stop_cause_def)
  next
    case (Cons d rest)
    obtain sha pre where d: "d = (sha, pre)" by (cases d)
    show ?thesis
    proof (cases spent)
      case True
      then show ?thesis using 1(2) Cons d b budget_spent_cause[of env budget w w1] by (auto simp: stop_cause_def)
    next
      case False
      show ?thesis
      proof (cases "get_github_json ''tree'' (we_tree env (wk_requests w1) sha False)")
        case (Inl f)
        then show ?thesis
          using 1(2) Cons d b False failed_walk_cause[OF Inl, of _ "fst y" "snd y" budget] by (simp add: request_tree_def)
      next
        case (Inr reply)
        then show ?thesis using 1(1) 1(2) Cons d b False by (simp add: request_tree_def)
      qed
    qed
  qed
qed

lemma emit_blobs_cause: "emit_blobs env budget limit skip seen es w = (e, w') \<Longrightarrow> stop_cause env budget e"
proof (induction env budget limit skip seen es w rule: emit_blobs.induct)
  case (2 env budget limit skip seen x es w)
  then show ?case
    using budget_spent_cause by (auto simp: Let_def stop_cause_def split: if_splits prod.splits bool.splits)
qed (auto simp: stop_cause_def)

lemma walk_tree_cause: "walk_tree env budget limit w = Some (e, w') \<Longrightarrow> stop_cause env budget e"
  using walk_sparse_cause[of env budget limit _ "(e, w')"] emit_blobs_cause failed_walk_cause
  by (auto simp: walk_tree_def request_tree_def split: if_splits sum.splits)

lemma walk_in_chunks_cause:
  assumes "walk_github_tree_in_chunks env branch start budget chunk_size = Some r"
  shows "start = None \<and> (\<exists>e. start_cursor_for_branch env branch = Inl e) \<or> stop_cause env budget (wr_end r)"
  using assms walk_tree_cause
  by (auto simp: walk_github_tree_in_chunks_def Let_def split: option.splits sum.splits scan_failure.splits)

text \<open>A branch tip, every listing and the whole budget are there.\<close>

definition healthy :: "scan_env \<Rightarrow> string \<Rightarrow> bool" where
  "healthy env branch \<longleftrightarrow> se_setup env = None
     \<and> (\<exists>t tree. we_branch (se_walk env) branch = HttpReply 200 t \<and> br_tree t = Some tree \<and> tree \<noteq> [])
     \<and> (\<forall>n sha recursive. \<exists>reply. we_tree (se_walk env) n sha recursive = HttpReply 200 reply)
     \<and> (\<forall>n. \<not> exhausted (scan_budget_of env) (we_clock (se_walk env) n))"

lemma start_scan_succeeds:
  assumes "scan_inv st listing tips full db" and "se_setup env = None"
    and "\<forall>stored. map_of (sx_cursors db) key = Some stored \<longrightarrow> cu_attempts stored < max_scan_resume_attempts"
  shows "\<exists>start counts db1. start_scan env key db = (Inr (start, counts), db1)"
proof (cases "map_of (sx_cursors db) key")
  case None
  then show ?thesis using assms(2) by (simp add: start_scan_def load_resume_state_def get_repository_scan_cursor_def)
next
  case (Some stored)
  then obtain c where c: "cu_json stored = cursor_to_json c" "pass_from st listing tips full (snd key) (Some c) (indexed key db)"
    using scan_inv_stored[OF assms(1)] by blast
  then have "cursor_from_json (se_views env) (Some (cu_json stored)) = Inr (Some c)"
    by (auto simp: pass_from_def good_position_def intro: cursor_from_to_json)
  moreover have "cu_attempts stored < 20" using assms(3) Some by (simp add: max_scan_resume_attempts_def)
  ultimately show ?thesis
    using Some assms(2)
    by (simp add: start_scan_def load_resume_state_def get_repository_scan_cursor_def should_abandon_cursor_def max_scan_resume_attempts_def)
qed

lemma healthy_scan_completes:
  assumes "scan_inv st listing tips full db" and "provider_ok st listing tips full (se_walk env)" and "healthy env (snd key)"
    and "\<forall>stored. map_of (sx_cursors db) key = Some stored \<longrightarrow> cu_attempts stored < max_scan_resume_attempts"
  shows "\<exists>file_total importable resumed bytes db'. scan_branch env tenant key db = Some (ScanPass file_total importable True resumed bytes, db')"
proof -
  have "se_setup env = None" using assms(3) by (simp add: healthy_def)
  from start_scan_succeeds[OF assms(1) this assms(4)] obtain start counts db1
    where start: "start_scan env key db = (Inr (start, counts), db1)" by blast
  then have "pass_from st listing tips full (snd key) start (indexed key db1)" using start_scan_spec[OF assms(1) start] by simp
  from walk_in_chunks_returns[OF assms(2) this] obtain r where r: "scan_walk env key start = Some r"
    unfolding scan_walk_def by blast
  have served: "get_github_json what (we_tree (se_walk env) n sha recursive) \<noteq> Inl f" for what n sha recursive f
  proof -
    obtain reply where "we_tree (se_walk env) n sha recursive = HttpReply 200 reply" using assms(3) unfolding healthy_def by blast
    then show ?thesis by (metis Inr_Inl_False get_github_json_Inr)
  qed
  have "\<exists>c. start_cursor_for_branch (se_walk env) (snd key) = Inr c"
    using assms(3) by (auto simp: healthy_def start_cursor_for_branch_def get_github_json_def transient_statuses_def)
  then have "stop_cause (se_walk env) (Some (scan_budget_of env)) (wr_end r)"
    using walk_in_chunks_cause[OF r[unfolded scan_walk_def]] by auto
  then have "wr_end r = Finished"
    using served assms(3) by (cases "wr_end r") (auto simp: stop_cause_def healthy_def)
  then show ?thesis
    using start r by (auto simp: scan_branch_def finish_scan_def Let_def split: prod.splits)
qed

section \<open>A small repository\<close>

definition sample_store :: object_store where
  "sample_store = [''t'' \<mapsto> [(''a.json'', GitFile ''b'' (Some 7))]]"

definition sample_listing :: "string \<Rightarrow> git_file list" where
  "sample_listing sha = [(''a.json'', ''b'', Some 7)]"

definition sample_tip :: branch_reply where
  "sample_tip = \<lparr>br_commit = ''c'', br_date = [], br_tree = Some ''t''\<rparr>"

definition sample_env :: scan_env where
  "sample_env = \<lparr>se_walk = \<lparr>we_branch = (\<lambda>_. HttpReply 200 sample_tip),
      we_tree = (\<lambda>_ _ _. HttpReply 200 \<lparr>tr_truncated = False,
         tr_entries = [\<lparr>te_kind = BlobEntry, te_path = ''a.json'', te_sha = ''b'', te_size = Some 7\<rparr>]\<rparr>),
      we_clock = (\<lambda>_. 0)\<rparr>,
    se_setup = None, se_now = \<lparr>dt_wall = 0, dt_offset = Some 0\<rparr>, se_started = 0, se_tenant_budget = None, se_budget_default = 60,
    se_budget_min = 10, se_budget_max = 600, se_chunk_size = 500, se_views = \<lparr>pv_str = (\<lambda>_. []), pv_float_int = (\<lambda>_. 0)\<rparr>\<rparr>"

definition empty_scan_db :: scan_db where
  "empty_scan_db = \<lparr>sx_files = [], sx_cursors = [], sx_repos = [], sx_jobs = [], sx_volume = []\<rparr>"

lemma sample_provider: "provider_ok sample_store sample_listing (\<lambda>_. {sample_tip}) True (se_walk sample_env)"
proof -
  have items: "sample_store sha = Some items \<longleftrightarrow> sha = ''t'' \<and> items = [(''a.json'', GitFile ''b'' (Some 7))]" for sha items
    by (auto simp: sample_store_def)
  have files: "tree_files sample_store sha = (if sha = ''t'' then {(''a.json'', ''b'', Some 7)} else {})" for sha
    by (auto simp: tree_files_def stored_dir_def sample_store_def join_path_def)
  have id: "strip ''t'' = ''t''" by code_simp
  have here: "sample_store ''t'' = Some [(''a.json'', GitFile ''b'' (Some 7))]" by (simp add: items)
  have ok: "tree_ok sample_store sha \<longleftrightarrow> sha = ''t''" for sha
    by (auto simp: tree_ok_def files stored_dir_def items here id split: option.splits)
  show ?thesis
    by (auto simp: provider_ok_def honest_def complete_listings_def sample_env_def lists_def items ok files sample_listing_def
        sample_tip_def file_entry_def intro!: exI[of _ "[(''a.json'', GitFile ''b'' (Some 7))]"])
qed

lemma sample_pass: "map_option fst (scan_branch sample_env [] (''r'', ''main'') empty_scan_db) = Some (ScanPass 1 0 True False 7)"
  by code_simp

lemma sample_history: "scan_history st listing tips full empty_scan_db"
  by (rule scan_history_start) (simp_all add: empty_scan_db_def)

section \<open>Properties\<close>



text \<open>C2: Every pass returns, after any history and whatever the clock and the provider do: with an
  outcome, and having handed on only non-empty chunks of at most a thousand rows.\<close>

theorem every_pass_returns:
  assumes "scan_history st listing tips full db" and "provider_ok st listing tips full (se_walk env)"
  shows "\<exists>outcome db'. scan_branch env tenant key db = Some (outcome, db')
    \<and> (\<forall>start counts db1 r. start_scan env key db = (Inr (start, counts), db1) \<and> scan_walk env key start = Some r \<longrightarrow>
         (\<forall>chunk \<in> set (wr_chunks r). chunk \<noteq> [] \<and> length chunk \<le> 1000))"
proof -
  have inv: "scan_inv st listing tips full db" by (rule scan_history_inv[OF assms(1)])
  have "chunk \<noteq> [] \<and> length chunk \<le> 1000"
    if "start_scan env key db = (Inr (start, counts), db1)" "scan_walk env key start = Some r" "chunk \<in> set (wr_chunks r)"
    for start counts db1 r chunk
  proof -
    have "pass_from st listing tips full (snd key) start (indexed key db1)" using start_scan_spec[OF inv that(1)] by simp
    from walk_in_chunks_returns[OF assms(2) this, of "Some (scan_budget_of env)" "resolve_chunk_size (Some (se_chunk_size env))"] that(2,3)
    obtain c where "pass_result st listing tips full (snd key) (resolve_chunk_size (Some (resolve_chunk_size (Some (se_chunk_size env)))))
        (indexed key db1) c r"
      by (auto simp: scan_walk_def)
    then have "chunk \<noteq> [] \<and> int (length chunk) \<le> resolve_chunk_size (Some (resolve_chunk_size (Some (se_chunk_size env))))"
      using that(3) by (simp add: pass_result_def Let_def)
    moreover have "resolve_chunk_size (Some (resolve_chunk_size (Some (se_chunk_size env)))) \<le> 1000" using chunk_size_range by blast
    ultimately show ?thesis by linarith
  qed
  then show ?thesis using scan_branch_spec[OF inv assms(2), of tenant key] by blast
qed

lemma every_pass_returns_witness:
  "\<exists>outcome db'. scan_branch sample_env [] (''r'', ''main'') empty_scan_db = Some (outcome, db')"
  using every_pass_returns[OF sample_history sample_provider] by blast

text \<open>C7: A pass whose provider answers every request, whose budget lasts and whose stored position is
  not worn out completes the scan, wherever the earlier passes left it.\<close>

theorem healthy_pass_completes:
  assumes "scan_history st listing tips full db" and "provider_ok st listing tips full (se_walk env)" and "healthy env (snd key)"
    and "\<forall>stored. map_of (sx_cursors db) key = Some stored \<longrightarrow> cu_attempts stored < max_scan_resume_attempts"
  shows "\<exists>file_total importable resumed bytes db'. scan_branch env tenant key db = Some (ScanPass file_total importable True resumed bytes, db')"
  by (rule healthy_scan_completes[OF scan_history_inv[OF assms(1)] assms(2-4)])

lemma healthy_pass_completes_witness:
  "\<exists>file_total importable resumed bytes db'.
     scan_branch sample_env [] (''r'', ''main'') empty_scan_db = Some (ScanPass file_total importable True resumed bytes, db')"
  by (rule healthy_pass_completes[OF sample_history sample_provider])
    (auto simp: healthy_def sample_env_def sample_tip_def empty_scan_db_def exhausted_def scan_budget_of_def new_scan_budget_def
      resolve_scan_budget_seconds_def)

text \<open>C8: The worker settles the job it claims: the job no longer runs, it is queued again only when the
  branch has a stored position to resume from, and it succeeded only by a pass that completed the walk.\<close>

theorem claimed_job_settles:
  assumes "scan_history st listing tips full db" and "provider_ok st listing tips full (se_walk env)"
    and "claim_next_repository_file_scan_job db = (Some (i, job), db1)"
  shows "\<exists>n db' job'. process_next_repository_file_scan_job env now db = Some (n, db')
    \<and> map_of (sx_jobs db') i = Some job' \<and> sj_status job' \<noteq> JobRunning
    \<and> (sj_status job' = JobQueued \<longrightarrow> map_of (sx_cursors db') (sj_repo job, sj_branch job) \<noteq> None)
    \<and> (sj_status job' = JobSucceeded \<longrightarrow> (\<exists>file_total importable resumed bytes db2.
          scan_branch env (sj_tenant job) (sj_repo job, sj_branch job) db1 = Some (ScanPass file_total importable True resumed bytes, db2)
          \<and> sx_files db' = sx_files db2))"
  using scan_inv_job[OF scan_history_inv[OF assms(1)] assms(2), of now] assms(3) by blast

lemma claimed_job_settles_witness:
  "let db = empty_scan_db\<lparr>sx_jobs := [(''j'', \<lparr>sj_tenant = [], sj_repo = ''r'', sj_branch = ''main'', sj_status = JobQueued,
       sj_created = 0, sj_requeued = None, sj_note = None\<rparr>)]\<rparr>
   in \<exists>n db' job'. process_next_repository_file_scan_job sample_env 1 db = Some (n, db')
        \<and> map_of (sx_jobs db') ''j'' = Some job' \<and> sj_status job' \<noteq> JobRunning"
proof -
  let ?job = "\<lparr>sj_tenant = [], sj_repo = ''r'', sj_branch = ''main'', sj_status = JobQueued,
       sj_created = 0, sj_requeued = None, sj_note = None\<rparr>"
  let ?db = "empty_scan_db\<lparr>sx_jobs := [(''j'', ?job)]\<rparr>"
  have history: "scan_history sample_store sample_listing (\<lambda>_. {sample_tip}) True ?db"
    by (rule scan_history_start) (simp_all add: empty_scan_db_def)
  obtain db1 where "claim_next_repository_file_scan_job ?db = (Some (''j'', ?job\<lparr>sj_status := JobRunning\<rparr>), db1)"
    by (simp add: claim_next_repository_file_scan_job_def Let_def)
  from claimed_job_settles[OF history sample_provider this, of 1] show ?thesis unfolding Let_def by blast
qed

end
