(* ===== verification/WireFormat.thy ===== *)
theory WireFormat
  imports Prelude "HOL-Library.Word"
begin

text \<open>
  The protobuf wire format as \<open>sparkplug_payload.py\<close> reads it: base-128 varints, the elements of a
  message, UTF-8 text. Bytes are \<open>8 word\<close>; an offset into the buffer is the rest of the buffer.
  A reader that consumes one item is prefix-free (locale \<open>framing\<close>): cut the input and it either
  runs over the end or has read whole items. Encoders give the other direction.
\<close>

unbundle bit_operations_syntax

type_synonym byte = "8 word"
type_synonym bytes = "byte list"

section \<open>Results\<close>

definition try_then :: "'e + 'a \<Rightarrow> ('a \<Rightarrow> 'e + 'b) \<Rightarrow> 'e + 'b" where
  "try_then r f = (case r of Inl e \<Rightarrow> Inl e | Inr x \<Rightarrow> f x)"

fun try_fold :: "('a \<Rightarrow> 's \<Rightarrow> 'e + 's) \<Rightarrow> 'a list \<Rightarrow> 's \<Rightarrow> 'e + 's" where
  "try_fold f [] s = Inr s"
| "try_fold f (x # xs) s = try_then (f x s) (try_fold f xs)"

lemma try_then_simps [simp]: "try_then (Inl e) f = Inl e" "try_then (Inr x) f = f x"
  by (simp_all add: try_then_def)

lemma try_then_Inr: "try_then r f = Inr y \<longleftrightarrow> (\<exists>x. r = Inr x \<and> f x = Inr y)"
  by (cases r) simp_all

lemma try_then_cong [fundef_cong]: "r = r' \<Longrightarrow> (\<And>x. r' = Inr x \<Longrightarrow> f x = g x) \<Longrightarrow> try_then r f = try_then r' g"
  by (cases r') simp_all

lemma try_fold_cong: "(\<And>x s. x \<in> set xs \<Longrightarrow> f x s = g x s) \<Longrightarrow> try_fold f xs s = try_fold g xs s"
  by (induction xs arbitrary: s) (auto intro!: try_then_cong)

lemma try_fold_append: "try_fold f (xs @ ys) s = try_then (try_fold f xs s) (try_fold f ys)"
proof (induction xs arbitrary: s)
  case (Cons x xs)
  then show ?case by (cases "f x s") simp_all
qed simp

section \<open>Elements\<close>

datatype wire_problem = VarintTooLong | FieldNumberZero | UndefinedWireType int int

datatype wire_fault = Overrun | Broken wire_problem

fun read_varint :: "int \<Rightarrow> nat \<Rightarrow> bytes \<Rightarrow> wire_fault + int \<times> bytes" where
  "read_varint result shift [] = Inl Overrun"
| "read_varint result shift (byte # data) =
     (let result = result OR push_bit shift (uint (byte AND 0x7F))
      in if byte AND 0x80 = 0 then Inr (result, data)
         else if shift + 7 \<ge> 70 then Inl (Broken VarintTooLong)
         else read_varint result (shift + 7) data)"

definition varint :: "bytes \<Rightarrow> wire_fault + int \<times> bytes" where
  "varint data = read_varint 0 0 data"

datatype wire_value = Varint int | Fixed64 bytes | Len bytes | Fixed32 bytes

record element =
  el_number :: int
  el_value :: wire_value

definition wire_type :: "element \<Rightarrow> int" where
  "wire_type e = (case el_value e of Varint _ \<Rightarrow> 0 | Fixed64 _ \<Rightarrow> 1 | Len _ \<Rightarrow> 2 | Fixed32 _ \<Rightarrow> 5)"

definition take_bytes :: "int \<Rightarrow> bytes \<Rightarrow> wire_fault + bytes \<times> bytes" where
  "take_bytes n data = (if n > int (length data) then Inl Overrun else Inr (take (nat n) data, drop (nat n) data))"

definition element_value :: "int \<Rightarrow> bytes \<Rightarrow> wire_fault + element \<times> bytes" where
  "element_value key data =
     (let number = drop_bit 3 key; kind = key AND 7
      in if number = 0 then Inl (Broken FieldNumberZero)
         else if kind = 0 then try_then (varint data) (\<lambda>(v, data). Inr (\<lparr>el_number = number, el_value = Varint v\<rparr>, data))
         else if kind = 1 then try_then (take_bytes 8 data) (\<lambda>(b, data). Inr (\<lparr>el_number = number, el_value = Fixed64 b\<rparr>, data))
         else if kind = 5 then try_then (take_bytes 4 data) (\<lambda>(b, data). Inr (\<lparr>el_number = number, el_value = Fixed32 b\<rparr>, data))
         else if kind = 2 then try_then (varint data) (\<lambda>(n, data).
           try_then (take_bytes n data) (\<lambda>(b, data). Inr (\<lparr>el_number = number, el_value = Len b\<rparr>, data)))
         else Inl (Broken (UndefinedWireType number kind)))"

definition next_element :: "bytes \<Rightarrow> wire_fault + element \<times> bytes" where
  "next_element data = try_then (varint data) (\<lambda>(key, data). element_value key data)"

section \<open>Reading item by item\<close>

text \<open>What one read consumed: the item does not depend on what follows, and less of it overruns.\<close>

definition consumed :: "(bytes \<Rightarrow> wire_fault + 'a \<times> bytes) \<Rightarrow> bytes \<Rightarrow> 'a \<Rightarrow> bool" where
  "consumed read used x \<longleftrightarrow> (\<forall>rest. read (used @ rest) = Inr (x, rest)) \<and> (\<forall>k < length used. read (take k used) = Inl Overrun)"

definition prefix_free :: "(bytes \<Rightarrow> wire_fault + 'a \<times> bytes) \<Rightarrow> bool" where
  "prefix_free read \<longleftrightarrow> (\<forall>data x rest. read data = Inr (x, rest) \<longrightarrow> (\<exists>used. data = used @ rest \<and> used \<noteq> [] \<and> consumed read used x))"

lemma consumed_then:
  assumes "consumed read used x" and "used' = [] \<and> (\<forall>rest. cont x rest = Inr (y, rest)) \<or> consumed (cont x) used' y"
  shows "consumed (\<lambda>data. try_then (read data) (\<lambda>(x, data). cont x data)) (used @ used') y"
proof -
  have cut: "try_then (read (take k (used @ used'))) (\<lambda>(x, data). cont x data) = Inl Overrun" if "k < length (used @ used')" for k
  proof (cases "k < length used")
    case True
    then show ?thesis using assms(1) by (simp add: consumed_def)
  next
    case False
    then have "read (take k (used @ used')) = Inr (x, take (k - length used) used')"
      using assms(1) by (simp add: consumed_def)
    then show ?thesis using assms(2) False that by (auto simp: consumed_def)
  qed
  then show ?thesis using assms by (auto simp: consumed_def)
qed

lemma read_varint_used:
  assumes "read_varint result shift data = Inr (v, rest)"
  shows "\<exists>used. data = used @ rest \<and> used \<noteq> [] \<and> consumed (read_varint result shift) used v"
  using assms
proof (induction result shift data rule: read_varint.induct)
  case (2 result shift byte data)
  let ?result = "result OR push_bit shift (uint (byte AND 0x7F))"
  show ?case
  proof (cases "byte AND 0x80 = 0")
    case True
    then show ?thesis using 2(2) by (auto simp: consumed_def Let_def intro!: exI[of _ "[byte]"])
  next
    case False
    then have small: "\<not> shift + 7 \<ge> 70" using 2(2) by (auto simp: Let_def split: if_splits)
    then have "read_varint ?result (shift + 7) data = Inr (v, rest)" using 2(2) False by (simp add: Let_def)
    from 2(1)[OF refl False small this] obtain used
      where used: "data = used @ rest" "used \<noteq> []" "consumed (read_varint ?result (shift + 7)) used v" by blast
    have "read_varint result shift (take k (byte # used)) = Inl Overrun" if "k < Suc (length used)" for k
      using used(3) that small False by (cases k) (auto simp: consumed_def Let_def)
    then show ?thesis
      using used small False by (intro exI[of _ "byte # used"]) (auto simp: consumed_def Let_def)
  qed
qed simp

lemma varint_prefix_free: "prefix_free varint"
  unfolding prefix_free_def varint_def using read_varint_used by blast

lemma take_bytes_used:
  assumes "take_bytes n data = Inr (b, rest)"
  shows "data = b @ rest \<and> length b = nat n \<and> (b \<noteq> [] \<longrightarrow> consumed (take_bytes n) b b) \<and> (b = [] \<longrightarrow> (\<forall>rest. take_bytes n rest = Inr ([], rest)))"
  using assms by (auto simp: take_bytes_def consumed_def min_def split: if_splits)

locale framing =
  fixes read :: "bytes \<Rightarrow> wire_fault + 'a \<times> bytes" and read_all :: "bytes \<Rightarrow> wire_fault + 'a list"
  assumes one_item: "prefix_free read"
    and no_item: "read_all [] = Inr []"
    and all_items: "data \<noteq> [] \<Longrightarrow> read_all data = try_then (read data) (\<lambda>(x, rest). try_then (read_all rest) (\<lambda>xs. Inr (x # xs)))"
begin

lemma read_all_used: "used \<noteq> [] \<Longrightarrow> consumed read used x \<Longrightarrow> read_all (used @ rest) = try_then (read_all rest) (\<lambda>xs. Inr (x # xs))"
  by (simp add: all_items consumed_def)

lemma all_induct [consumes 1, case_names none more]:
  assumes "read_all data = Inr xs" and "P [] []"
    and "\<And>used rest x xs. used \<noteq> [] \<Longrightarrow> consumed read used x \<Longrightarrow> read_all rest = Inr xs \<Longrightarrow> P rest xs \<Longrightarrow> P (used @ rest) (x # xs)"
  shows "P data xs"
  using assms(1)
proof (induction "length data" arbitrary: data xs rule: less_induct)
  case less
  show ?case
  proof (cases "data = []")
    case True
    then show ?thesis using less.prems assms(2) by (simp add: no_item)
  next
    case False
    then obtain x rest ys where x: "read data = Inr (x, rest)" "read_all rest = Inr ys" "xs = x # ys"
      using less.prems by (auto simp: all_items try_then_Inr)
    then obtain used where "data = used @ rest" "used \<noteq> []" "consumed read used x"
      using one_item unfolding prefix_free_def by blast
    then show ?thesis using assms(3) less.hyps x by auto
  qed
qed

lemma read_all_append: "read_all a = Inr xs \<Longrightarrow> read_all (a @ b) = try_then (read_all b) (\<lambda>ys. Inr (xs @ ys))"
proof (induction rule: all_induct)
  case none
  then show ?case by (cases "read_all b") simp_all
next
  case (more used rest x xs)
  then show ?case by (cases "read_all b") (simp_all add: read_all_used)
qed

lemma read_all_cut:
  assumes "read_all data = Inr xs"
  shows "read_all (take n data) = Inl Overrun \<or> (\<exists>k \<le> length xs. read_all (take n data) = Inr (take k xs))"
  using assms
proof (induction arbitrary: n rule: all_induct)
  case (more used rest x xs)
  show ?case
  proof (cases "n < length used")
    case True
    then have "read (take n used) = Inl Overrun" using more(2) by (simp add: consumed_def)
    moreover have "n = 0 \<or> take n used \<noteq> []" using more(1) by auto
    ultimately show ?thesis using True by (auto simp: all_items no_item intro: exI[of _ 0])
  next
    case False
    then have split: "take n (used @ rest) = used @ take (n - length used) rest" by simp
    consider "read_all (take (n - length used) rest) = Inl Overrun"
      | k where "k \<le> length xs" "read_all (take (n - length used) rest) = Inr (take k xs)"
      using more(4) by blast
    then show ?thesis
    proof cases
      case 1
      then have "read_all (take n (used @ rest)) = Inl Overrun" unfolding split read_all_used[OF more(1,2)] by simp
      then show ?thesis by simp
    next
      case (2 k)
      then have "read_all (take n (used @ rest)) = Inr (take (Suc k) (x # xs))"
        unfolding split read_all_used[OF more(1,2)] by simp
      then show ?thesis using 2(1) by (metis Suc_le_mono length_Cons)
    qed
  qed
qed (simp add: no_item)

lemma read_all_cat:
  assumes "\<And>x. x \<in> set xs \<Longrightarrow> write x \<noteq> [] \<and> consumed read (write x) x"
  shows "read_all (concat (map write xs)) = Inr xs"
  using assms
proof (induction xs)
  case (Cons x xs)
  then have "write x \<noteq> []" "consumed read (write x) x" "read_all (concat (map write xs)) = Inr xs" by simp_all
  then show ?case by (simp add: read_all_used)
qed (simp add: no_item)

end

text \<open>Nothing consumed, or a prefix-free read.\<close>

definition consumed_or_none :: "(bytes \<Rightarrow> wire_fault + 'a \<times> bytes) \<Rightarrow> bytes \<Rightarrow> 'a \<Rightarrow> bool" where
  "consumed_or_none read used x \<longleftrightarrow> used = [] \<and> (\<forall>rest. read rest = Inr (x, rest)) \<or> consumed read used x"

lemma consumed_or_none_return: "consumed_or_none (\<lambda>data. Inr (x, data)) [] x"
  by (simp add: consumed_or_none_def)

lemma consumed_or_none_then:
  assumes "consumed_or_none read used x" and "consumed_or_none (cont x) used' y"
  shows "consumed_or_none (\<lambda>data. try_then (read data) (\<lambda>(x, data). cont x data)) (used @ used') y"
proof (cases "used = [] \<and> (\<forall>rest. read rest = Inr (x, rest))")
  case True
  then have "(\<lambda>data. try_then (read data) (\<lambda>(x, data). cont x data)) = cont x" by auto
  then show ?thesis using assms(2) True by simp
next
  case False
  then have "consumed read used x" using assms(1) by (auto simp: consumed_or_none_def)
  from consumed_then[OF this, of used' cont y] show ?thesis using assms(2) by (auto simp: consumed_or_none_def)
qed

lemma varint_read:
  assumes "varint data = Inr (v, rest)"
  obtains used where "data = used @ rest" "used \<noteq> []" "consumed varint used v" "consumed_or_none varint used v"
  using varint_prefix_free assms unfolding prefix_free_def consumed_or_none_def by blast

lemma take_bytes_read:
  assumes "take_bytes n data = Inr (b, rest)"
  shows "data = b @ rest" "consumed_or_none (take_bytes n) b b"
  using take_bytes_used[OF assms] by (cases "b = []"; simp add: consumed_or_none_def)+

lemma element_value_read:
  assumes "element_value key data = Inr (e, rest)"
  shows "\<exists>used. data = used @ rest \<and> consumed_or_none (element_value key) used e"
proof -
  let ?number = "drop_bit 3 key" and ?kind = "key AND 7"
  have number: "?number \<noteq> 0" using assms by (auto simp: element_value_def Let_def split: if_splits)
  consider (v) "?kind = 0" | (f8) "?kind = 1" | (f4) "?kind = 5" | (len) "?kind = 2"
    using assms by (auto simp: element_value_def Let_def split: if_splits)
  then show ?thesis
  proof cases
    case v
    have body: "element_value key = (\<lambda>data. try_then (varint data) (\<lambda>(v, data). Inr (\<lparr>el_number = ?number, el_value = Varint v\<rparr>, data)))"
      using v number by (simp add: element_value_def Let_def fun_eq_iff)
    obtain x where x: "varint data = Inr (x, rest)" "e = \<lparr>el_number = ?number, el_value = Varint x\<rparr>"
      using assms unfolding body by (auto simp: try_then_Inr)
    obtain used where used: "data = used @ rest" "consumed_or_none varint used x" using varint_read[OF x(1)] by blast
    have "consumed_or_none (element_value key) (used @ []) e"
      unfolding body by (rule consumed_or_none_then[OF used(2)]) (simp add: x(2) consumed_or_none_return)
    then show ?thesis using used(1) by auto
  next
    case f8
    have body: "element_value key = (\<lambda>data. try_then (take_bytes 8 data) (\<lambda>(b, data). Inr (\<lparr>el_number = ?number, el_value = Fixed64 b\<rparr>, data)))"
      using f8 number by (simp add: element_value_def Let_def fun_eq_iff)
    obtain b where b: "take_bytes 8 data = Inr (b, rest)" "e = \<lparr>el_number = ?number, el_value = Fixed64 b\<rparr>"
      using assms unfolding body by (auto simp: try_then_Inr)
    have "consumed_or_none (element_value key) (b @ []) e"
      unfolding body by (rule consumed_or_none_then[OF take_bytes_read(2)[OF b(1)]]) (simp add: b(2) consumed_or_none_return)
    then show ?thesis using take_bytes_read(1)[OF b(1)] by auto
  next
    case f4
    have body: "element_value key = (\<lambda>data. try_then (take_bytes 4 data) (\<lambda>(b, data). Inr (\<lparr>el_number = ?number, el_value = Fixed32 b\<rparr>, data)))"
      using f4 number by (simp add: element_value_def Let_def fun_eq_iff)
    obtain b where b: "take_bytes 4 data = Inr (b, rest)" "e = \<lparr>el_number = ?number, el_value = Fixed32 b\<rparr>"
      using assms unfolding body by (auto simp: try_then_Inr)
    have "consumed_or_none (element_value key) (b @ []) e"
      unfolding body by (rule consumed_or_none_then[OF take_bytes_read(2)[OF b(1)]]) (simp add: b(2) consumed_or_none_return)
    then show ?thesis using take_bytes_read(1)[OF b(1)] by auto
  next
    case len
    have body: "element_value key = (\<lambda>data. try_then (varint data) (\<lambda>(n, data).
        try_then (take_bytes n data) (\<lambda>(b, data). Inr (\<lparr>el_number = ?number, el_value = Len b\<rparr>, data))))"
      using len number by (simp add: element_value_def Let_def fun_eq_iff)
    obtain n rest1 b where n: "varint data = Inr (n, rest1)" and b: "take_bytes n rest1 = Inr (b, rest)"
      "e = \<lparr>el_number = ?number, el_value = Len b\<rparr>"
      using assms unfolding body by (auto simp: try_then_Inr)
    obtain used where used: "data = used @ rest1" "consumed_or_none varint used n" using varint_read[OF n] by blast
    have inner: "consumed_or_none (\<lambda>data. try_then (take_bytes n data) (\<lambda>(b, data). Inr (\<lparr>el_number = ?number, el_value = Len b\<rparr>, data))) (b @ []) e"
      by (rule consumed_or_none_then[OF take_bytes_read(2)[OF b(1)]]) (simp add: b(2) consumed_or_none_return)
    have "consumed_or_none (element_value key) (used @ (b @ [])) e"
      unfolding body by (rule consumed_or_none_then[OF used(2)]) (rule inner)
    then show ?thesis using used(1) take_bytes_read(1)[OF b(1)] by auto
  qed
qed

lemma next_element_prefix_free: "prefix_free next_element"
  unfolding prefix_free_def
proof (intro allI impI)
  fix data e rest assume "next_element data = Inr (e, rest)"
  then obtain key data1 where key: "varint data = Inr (key, data1)" and e: "element_value key data1 = Inr (e, rest)"
    by (auto simp: next_element_def try_then_Inr)
  obtain used where used: "data = used @ data1" "used \<noteq> []" "consumed varint used key" using varint_read[OF key] by blast
  obtain used' where used': "data1 = used' @ rest" "consumed_or_none (element_value key) used' e"
    using element_value_read[OF e] by blast
  have "consumed next_element (used @ used') e"
    using consumed_then[OF used(3), of used' element_value e] used'(2) unfolding consumed_or_none_def next_element_def[abs_def] by simp
  then show "\<exists>used. data = used @ rest \<and> used \<noteq> [] \<and> consumed next_element used e"
    using used used'(1) by (intro exI[of _ "used @ used'"]) simp
qed

lemma prefix_free_shorter: "prefix_free read \<Longrightarrow> read data = Inr (x, rest) \<Longrightarrow> length rest < length data"
  unfolding prefix_free_def by fastforce

function elements :: "bytes \<Rightarrow> wire_fault + element list" where
  "elements data =
     (if data = [] then Inr []
      else try_then (next_element data) (\<lambda>(e, rest). try_then (elements rest) (\<lambda>es. Inr (e # es))))"
  by auto
termination by (relation "measure length") (auto dest: prefix_free_shorter[OF next_element_prefix_free])

declare elements.simps [simp del]

text \<open>\<open>repeated uint32\<close> in its packed form.\<close>

function packed_varints :: "bytes \<Rightarrow> wire_fault + int list" where
  "packed_varints data =
     (if data = [] then Inr []
      else try_then (varint data) (\<lambda>(v, rest). try_then (packed_varints rest) (\<lambda>vs. Inr (v # vs))))"
  by auto
termination by (relation "measure length") (auto dest: prefix_free_shorter[OF varint_prefix_free])

declare packed_varints.simps [simp del]

interpretation wire: framing next_element elements
proof
  show "prefix_free next_element" by (rule next_element_prefix_free)
qed (simp_all add: elements.simps)

interpretation packed: framing varint packed_varints
proof
  show "prefix_free varint" by (rule varint_prefix_free)
qed (simp_all add: packed_varints.simps)

section \<open>Writing\<close>

fun write_varint :: "nat \<Rightarrow> bytes" where
  "write_varint n = (if n < 128 then [word_of_nat n] else word_of_nat (n mod 128 + 128) # write_varint (n div 128))"

declare write_varint.simps [simp del]

definition write_element :: "element \<Rightarrow> bytes" where
  "write_element e = write_varint (nat (8 * el_number e + wire_type e)) @
     (case el_value e of
        Varint v \<Rightarrow> write_varint (nat v)
      | Fixed64 b \<Rightarrow> b
      | Len b \<Rightarrow> write_varint (length b) @ b
      | Fixed32 b \<Rightarrow> b)"

definition write_elements :: "element list \<Rightarrow> bytes" where
  "write_elements es = concat (map write_element es)"

definition element_ok :: "element \<Rightarrow> bool" where
  "element_ok e \<longleftrightarrow> 0 < el_number e \<and> el_number e < 2 ^ 29
     \<and> (case el_value e of Varint v \<Rightarrow> 0 \<le> v \<and> v < 2 ^ 64 | Fixed64 b \<Rightarrow> length b = 8 | Len b \<Rightarrow> length b < 2 ^ 63 | Fixed32 b \<Rightarrow> length b = 4)"

lemma low_bits: "k < 128 \<Longrightarrow> uint ((word_of_nat k :: byte) AND 0x7F) = int k" "k < 128 \<Longrightarrow> (word_of_nat k :: byte) AND 0x80 = 0"
  "k < 128 \<Longrightarrow> uint ((word_of_nat (k + 128) :: byte) AND 0x7F) = int k" "k < 128 \<Longrightarrow> (word_of_nat (k + 128) :: byte) AND 0x80 \<noteq> 0"
proof -
  have all: "\<forall>k \<in> set [0..<128]. uint ((word_of_nat k :: byte) AND 0x7F) = int k \<and> (word_of_nat k :: byte) AND 0x80 = 0
      \<and> uint ((word_of_nat (k + 128) :: byte) AND 0x7F) = int k \<and> (word_of_nat (k + 128) :: byte) AND 0x80 \<noteq> 0"
    by code_simp
  assume "k < 128"
  with all show "uint ((word_of_nat k :: byte) AND 0x7F) = int k" "(word_of_nat k :: byte) AND 0x80 = 0"
    "uint ((word_of_nat (k + 128) :: byte) AND 0x7F) = int k" "(word_of_nat (k + 128) :: byte) AND 0x80 \<noteq> 0"
    by simp_all
qed

lemma or_shifted:
  fixes result x :: int
  assumes "0 \<le> result" and "result < 2 ^ shift"
  shows "result OR push_bit shift x = result + x * 2 ^ shift"
proof -
  have "\<not> bit result n" if "shift \<le> n" for n
    using assms that by (metis bit_take_bit_iff linorder_not_le take_bit_int_eq_self)
  then have "result + push_bit shift x = result OR push_bit shift x"
    by (intro disjunctive_add) (auto simp: bit_push_bit_iff)
  then show ?thesis by (simp add: push_bit_eq_mult)
qed

lemma read_write_varint:
  assumes "0 \<le> result" and "result < 2 ^ shift" and "shift + 7 * m < 70" and "n < 128 ^ Suc m"
  shows "read_varint result shift (write_varint n @ rest) = Inr (result + int n * 2 ^ shift, rest)"
  using assms
proof (induction m arbitrary: n result shift)
  case 0
  then show ?case by (simp add: write_varint.simps[of n] Let_def low_bits or_shifted)
next
  case (Suc m)
  show ?case
  proof (cases "n < 128")
    case True
    then show ?thesis using Suc.prems by (simp add: write_varint.simps[of n] Let_def low_bits or_shifted)
  next
    case False
    let ?low = "result + int (n mod 128) * 2 ^ shift"
    have "n mod 128 < 128" by simp
    then have "int (n mod 128) \<le> 127" by linarith
    then have "int (n mod 128) * 2 ^ shift \<le> 127 * 2 ^ shift" by (intro mult_right_mono) simp_all
    moreover have "(2::int) ^ (shift + 7) = 127 * 2 ^ shift + 2 ^ shift" by (simp add: power_add)
    moreover have "0 \<le> int (n mod 128) * 2 ^ shift" by simp
    ultimately have low: "0 \<le> ?low" "?low < 2 ^ (shift + 7)" using Suc.prems(1,2) by linarith+
    have "n div 128 < 128 ^ Suc m" using Suc.prems(4) by (simp add: less_mult_imp_div_less mult.commute)
    from Suc.IH[OF low _ this] Suc.prems(3)
    have "read_varint ?low (shift + 7) (write_varint (n div 128) @ rest) = Inr (?low + int (n div 128) * 2 ^ (shift + 7), rest)"
      by simp
    moreover have "?low + int (n div 128) * 2 ^ (shift + 7) = result + int n * 2 ^ shift"
    proof -
      have "int n = int (n mod 128) + 128 * int (n div 128)" by (simp add: zdiv_int zmod_int)
      then show ?thesis by (simp add: power_add algebra_simps)
    qed
    ultimately show ?thesis
      using False Suc.prems low_bits(3,4)[of "n mod 128", simplified]
      by (simp add: write_varint.simps[of n] Let_def or_shifted)
  qed
qed

lemma write_varint_not_Nil [simp]: "write_varint n \<noteq> []"
  by (simp add: write_varint.simps[of n])

lemma varint_written: "n < 2 ^ 64 \<Longrightarrow> varint (write_varint n @ rest) = Inr (int n, rest)"
  using read_write_varint[of 0 0 9 n rest] by (simp add: varint_def)

lemma consumed_exact:
  assumes "prefix_free read" and "\<And>rest. read (used @ rest) = Inr (x, rest)"
  shows "consumed read used x"
proof -
  have "read (used @ []) = Inr (x, [])" by (rule assms(2))
  with assms(1) obtain used' where "used @ [] = used' @ []" "consumed read used' x" unfolding prefix_free_def by blast
  then show ?thesis by simp
qed

lemma next_element_written:
  assumes "element_ok e"
  shows "next_element (write_element e @ rest) = Inr (e, rest)"
proof -
  obtain number v where e: "e = \<lparr>el_number = number, el_value = v\<rparr>" by (cases e)
  have ok: "0 < number" "number < 2 ^ 29" "0 \<le> wire_type e" "wire_type e < 8"
    using assms by (auto simp: e element_ok_def wire_type_def split: wire_value.splits)
  let ?key = "8 * number + wire_type e"
  have "nat ?key < 2 ^ 64" using ok by (simp add: nat_less_iff)
  then have key: "varint (write_varint (nat ?key) @ more) = Inr (?key, more)" for more
    using varint_written[of "nat ?key" more] ok by simp
  have parts: "drop_bit 3 ?key = number" "?key AND 7 = wire_type e"
  proof -
    show "drop_bit 3 ?key = number" using ok by (simp add: drop_bit_eq_div)
    have "?key AND 7 = take_bit 3 ?key" by (simp add: take_bit_eq_mask mask_eq_exp_minus_1)
    then show "?key AND 7 = wire_type e" using ok by (simp add: take_bit_eq_mod)
  qed
  have sizes: "varint (write_varint (nat n) @ more) = Inr (n, more)" if "0 \<le> n" "n < 2 ^ 64" for n more
    using varint_written[of "nat n" more] that by (simp add: nat_less_iff)
  have lengths: "varint (write_varint (length b) @ more) = Inr (int (length b), more)" if "length b < 2 ^ 63" for b :: bytes and more
    using varint_written[of "length b" more] that by simp
  show ?thesis
    using assms key parts ok sizes lengths
    by (cases v) (simp_all add: e write_element_def next_element_def element_value_def element_ok_def wire_type_def take_bytes_def Let_def)
qed

lemma write_element_not_Nil [simp]: "write_element e \<noteq> []"
  by (simp add: write_element_def)

lemma elements_written: "list_all element_ok es \<Longrightarrow> elements (write_elements es) = Inr es"
  unfolding write_elements_def
  by (rule wire.read_all_cat) (auto simp: list_all_iff intro!: consumed_exact next_element_prefix_free next_element_written)

lemma elements_written_append:
  "list_all element_ok es \<Longrightarrow> elements (write_elements es @ rest) = try_then (elements rest) (\<lambda>fs. Inr (es @ fs))"
  using elements_written wire.read_all_append by blast

lemma element_parts_shorter:
  assumes "elements data = Inr es" and "e \<in> set es" and "el_value e = Len b"
  shows "length b < length data"
  using assms
proof (induction rule: wire.all_induct)
  case (more used rest x xs)
  show ?case
  proof (cases "e = x")
    case True
    have "next_element (used @ []) = Inr (x, [])" using more(2) unfolding consumed_def by blast
    then obtain key data1 where "varint used = Inr (key, data1)" and e: "element_value key data1 = Inr (x, [])"
      by (auto simp: next_element_def try_then_Inr)
    then have "length data1 < length used" using prefix_free_shorter[OF varint_prefix_free] by blast
    moreover have "length b \<le> length data1"
    proof -
      obtain n rest1 where "varint data1 = Inr (n, rest1)" "take_bytes n rest1 = Inr (b, [])"
        using e True more.prems by (auto simp: element_value_def Let_def try_then_Inr split: if_splits)
      then show ?thesis using prefix_free_shorter[OF varint_prefix_free] take_bytes_read(1) by fastforce
    qed
    ultimately show ?thesis by simp
  next
    case False
    then show ?thesis using more by simp
  qed
qed simp

end
