(* ===== verification/Utf8.thy ===== *)
theory Utf8
  imports WireFormat
begin

text \<open>
  \<open>bytes.decode("utf-8")\<close>, strict: overlong forms, surrogates and values above U+10FFFF are errors.
  Decoded text is the list of its code points.
\<close>

type_synonym unicode = "nat list"

definition continuation :: "nat \<Rightarrow> bool" where
  "continuation b \<longleftrightarrow> 0x80 \<le> b \<and> b \<le> 0xBF"

definition second_of_three :: "nat \<Rightarrow> nat \<Rightarrow> bool" where
  "second_of_three a b \<longleftrightarrow> continuation b \<and> (a = 0xE0 \<longrightarrow> 0xA0 \<le> b) \<and> (a = 0xED \<longrightarrow> b \<le> 0x9F)"

definition second_of_four :: "nat \<Rightarrow> nat \<Rightarrow> bool" where
  "second_of_four a b \<longleftrightarrow> continuation b \<and> (a = 0xF0 \<longrightarrow> 0x90 \<le> b) \<and> (a = 0xF4 \<longrightarrow> b \<le> 0x8F)"

fun utf8_decode :: "nat list \<Rightarrow> unicode option" where
  "utf8_decode [] = Some []"
| "utf8_decode (a # s) =
     (if a < 0x80 then map_option ((#) a) (utf8_decode s)
      else if 0xC2 \<le> a \<and> a \<le> 0xDF then
        (case s of
           b # s \<Rightarrow> if continuation b then map_option ((#) ((a - 0xC0) * 64 + (b - 0x80))) (utf8_decode s) else None
         | _ \<Rightarrow> None)
      else if 0xE0 \<le> a \<and> a \<le> 0xEF then
        (case s of
           b # c # s \<Rightarrow>
             if second_of_three a b \<and> continuation c
             then map_option ((#) ((a - 0xE0) * 4096 + (b - 0x80) * 64 + (c - 0x80))) (utf8_decode s) else None
         | _ \<Rightarrow> None)
      else if 0xF0 \<le> a \<and> a \<le> 0xF4 then
        (case s of
           b # c # d # s \<Rightarrow>
             if second_of_four a b \<and> continuation c \<and> continuation d
             then map_option ((#) ((a - 0xF0) * 262144 + (b - 0x80) * 4096 + (c - 0x80) * 64 + (d - 0x80))) (utf8_decode s) else None
         | _ \<Rightarrow> None)
      else None)"

definition decode_text :: "bytes \<Rightarrow> unicode option" where
  "decode_text b = utf8_decode (map unat b)"

definition scalar_value :: "nat \<Rightarrow> bool" where
  "scalar_value c \<longleftrightarrow> c < 0x110000 \<and> \<not> (0xD800 \<le> c \<and> c < 0xE000)"

definition utf8_units :: "nat \<Rightarrow> nat list" where
  "utf8_units c =
     (if c < 0x80 then [c]
      else if c < 0x800 then [0xC0 + c div 64, 0x80 + c mod 64]
      else if c < 0x10000 then [0xE0 + c div 4096, 0x80 + c div 64 mod 64, 0x80 + c mod 64]
      else [0xF0 + c div 262144, 0x80 + c div 4096 mod 64, 0x80 + c div 64 mod 64, 0x80 + c mod 64])"

definition encode_text :: "unicode \<Rightarrow> bytes" where
  "encode_text cs = map word_of_nat (concat (map utf8_units cs))"

lemma units_byte: "scalar_value c \<Longrightarrow> u \<in> set (utf8_units c) \<Longrightarrow> u < 256"
  by (auto simp: utf8_units_def scalar_value_def split: if_splits)

lemma digits_64:
  fixes c :: nat
  obtains p q r t where "c = 64 * (64 * (64 * p + q) + r) + t" "q < 64" "r < 64" "t < 64"
    "c div 64 = 64 * (64 * p + q) + r" "c mod 64 = t" "c div 4096 = 64 * p + q" "c div 64 mod 64 = r"
    "c div 262144 = p" "c div 4096 mod 64 = q"
proof -
  have parts: "c div 4096 = c div 64 div 64" "c div 262144 = c div 4096 div 64" by (simp_all flip: div_mult2_eq)
  have split: "x = 64 * (x div 64) + x mod 64" for x :: nat by simp
  show thesis
    by (rule that[of "c div 262144" "c div 4096 mod 64" "c div 64 mod 64" "c mod 64"])
      (use split[of c] split[of "c div 64"] split[of "c div 4096"] in \<open>simp_all add: parts\<close>)
qed

lemma decode_units:
  assumes "scalar_value c"
  shows "utf8_decode (utf8_units c @ s) = map_option ((#) c) (utf8_decode s)"
proof -
  obtain p q r t where d: "c = 64 * (64 * (64 * p + q) + r) + t" "q < 64" "r < 64" "t < 64"
    "c div 64 = 64 * (64 * p + q) + r" "c mod 64 = t" "c div 4096 = 64 * p + q" "c div 64 mod 64 = r"
    "c div 262144 = p" "c div 4096 mod 64 = q" by (rule digits_64)
  have ok: "c < 0x110000" "c < 0xD800 \<or> 0xE000 \<le> c" using assms by (auto simp: scalar_value_def)
  consider "c < 0x80" | "0x80 \<le> c" "c < 0x800" | "0x800 \<le> c" "c < 0x10000" | "0x10000 \<le> c" by linarith
  then show ?thesis
  proof cases
    case 2
    then have zero: "p = 0" "q = 0" "r < 32" using d(1-4) by auto
    then have "2 \<le> r" using 2 d(1,4) by simp
    then show ?thesis using 2 d zero by (simp add: utf8_units_def continuation_def mult.commute)
  next
    case 3
    then have p: "p = 0" using d(1) by simp
    then have "q < 16" "q = 0 \<longrightarrow> 32 \<le> r" "q = 13 \<longrightarrow> r \<le> 31" using 3 d(1,3,4) ok by auto
    then show ?thesis using 3 d p by (simp add: utf8_units_def continuation_def second_of_three_def mult.commute)
  next
    case 4
    have "p \<le> 4" using d(1) ok by simp
    moreover have "p = 0 \<longrightarrow> 16 \<le> q" "p = 4 \<longrightarrow> q \<le> 15" using 4 d(1,3,4) ok by auto
    ultimately show ?thesis using 4 d by (simp add: utf8_units_def continuation_def second_of_four_def mult.commute)
  qed (simp add: utf8_units_def)
qed

lemma decode_encode_text: "list_all scalar_value cs \<Longrightarrow> decode_text (encode_text cs) = Some cs"
proof -
  assume ok: "list_all scalar_value cs"
  then have "map unat (encode_text cs) = concat (map utf8_units cs)"
    unfolding encode_text_def map_map
    by (intro map_idI) (auto simp: list_all_iff unat_of_nat take_bit_eq_mod dest!: units_byte)
  moreover have "utf8_decode (concat (map utf8_units cs)) = Some cs"
    using ok by (induction cs) (simp_all add: decode_units)
  ultimately show ?thesis by (simp add: decode_text_def)
qed

end
