(* ===== verification/Sparkplug.thy ===== *)
theory Sparkplug
  imports Utf8 Semver
begin

text \<open>
  The Sparkplug B payload reader (\<open>sparkplug_payload.py\<close>): every message of the schema, the tests
  of wire types, text and counts, and the difference between a payload that was cut off and a broken
  one. Floating point values are kept as their bytes, a \<open>bytes\<close> value as its length, as in the
  source. Error texts are reduced to the problem; the place a text names is left out. Python's limit
  on nested calls is not modelled.
\<close>

section \<open>Values and errors\<close>

datatype sparkplug_problem = WireProblem wire_problem | NestedOverrun | WrongWireType int int int | NotUtf8
  | UnpairedProperties int int | CutColumnType | UntypedColumns int int | ColumnCount int int

datatype sparkplug_error = InputEmpty | InputTruncated | InputMalformed sparkplug_problem

definition datatype_names :: "string list" where
  "datatype_names = [''Unknown'', ''Int8'', ''Int16'', ''Int32'', ''Int64'', ''UInt8'', ''UInt16'', ''UInt32'', ''UInt64'', ''Float'',
     ''Double'', ''Boolean'', ''String'', ''DateTime'', ''Text'', ''UUID'', ''DataSet'', ''Bytes'', ''File'', ''Template'',
     ''PropertySet'', ''PropertySetList'', ''Int8Array'', ''Int16Array'', ''Int32Array'', ''Int64Array'', ''UInt8Array'',
     ''UInt16Array'', ''UInt32Array'', ''UInt64Array'', ''FloatArray'', ''DoubleArray'', ''BooleanArray'', ''StringArray'',
     ''DateTimeArray'']"

definition known_datatype :: "int \<Rightarrow> bool" where
  "known_datatype n \<longleftrightarrow> 0 \<le> n \<and> n < int (length datatype_names)"

definition datatype_name :: "int option \<Rightarrow> string option" where
  "datatype_name value = map_option (\<lambda>n. if known_datatype n then datatype_names ! nat n
     else ''DataType('' @ (if n < 0 then ''-'' else []) @ decimal (nat \<bar>n\<bar>) @ '')'') value"

record metadata =
  md_multi_part :: "bool option"
  md_content_type :: "unicode option"
  md_size :: "int option"
  md_seq :: "int option"
  md_file_name :: "unicode option"
  md_file_type :: "unicode option"
  md_md5 :: "unicode option"
  md_description :: "unicode option"

datatype meta_value = MetaBool bool | MetaText unicode | MetaInt int

definition metadata_as_dict :: "metadata \<Rightarrow> (string, meta_value) dict" where
  "metadata_as_dict m = List.map_filter (\<lambda>(k, v). map_option (Pair k) v)
     [(''isMultiPart'', map_option MetaBool (md_multi_part m)), (''contentType'', map_option MetaText (md_content_type m)),
      (''size'', map_option MetaInt (md_size m)), (''seq'', map_option MetaInt (md_seq m)),
      (''fileName'', map_option MetaText (md_file_name m)), (''fileType'', map_option MetaText (md_file_type m)),
      (''md5'', map_option MetaText (md_md5 m)), (''description'', map_option MetaText (md_description m))]"

datatype property_content = NoContent | IntContent int | FloatContent bytes | DoubleContent bytes | BoolContent bool
  | TextContent unicode | SetContent "(unicode \<times> property_content) list" | SetsContent "(unicode \<times> property_content) list list"

record property_value =
  pv_type :: "int option"
  pv_value :: property_content
  pv_null :: bool

type_synonym property_pairs = "(unicode \<times> property_value) list"

record data_set =
  ds_columns :: "(unicode \<times> int option) list"
  ds_row_count :: int

record template_head =
  tm_version :: "unicode option"
  tm_parameters :: "(unicode \<times> int option) list"
  tm_ref :: "unicode option"
  tm_is_definition :: bool

datatype value_field = IntField | LongField | FloatField | DoubleField | BooleanField | StringField | BytesField | DatasetField
  | TemplateField | ExtensionField

datatype scalar = ScalarInt int | ScalarFloat bytes | ScalarDouble bytes | ScalarBool bool | ScalarText unicode | ScalarLength int

record metric_head =
  mh_name :: "unicode option"
  mh_alias :: "int option"
  mh_timestamp :: "int option"
  mh_datatype :: "int option"
  mh_historical :: bool
  mh_transient :: bool
  mh_null :: bool
  mh_metadata :: "metadata option"
  mh_properties :: property_pairs
  mh_value_field :: "value_field option"
  mh_value :: "scalar option"
  mh_dataset :: "data_set option"
  mh_unknown :: int

datatype sparkplug_metric = SparkplugMetric (mt_head: metric_head) (mt_template: "sparkplug_template option")
  and sparkplug_template = SparkplugTemplate (tm_head: template_head) (tm_metrics: "sparkplug_metric list")

record sparkplug_payload =
  pl_timestamp :: "int option"
  pl_metrics :: "sparkplug_metric list"
  pl_seq :: "int option"
  pl_uuid :: "unicode option"
  pl_body_length :: "int option"
  pl_unknown :: int
  pl_size :: int

section \<open>Fields\<close>

definition nested :: "bytes \<Rightarrow> sparkplug_problem + element list" where
  "nested data =
     (case elements data of
        Inl Overrun \<Rightarrow> Inl NestedOverrun
      | Inl (Broken p) \<Rightarrow> Inl (WireProblem p)
      | Inr es \<Rightarrow> Inr es)"

definition as_bytes :: "element \<Rightarrow> sparkplug_problem + bytes" where
  "as_bytes e = (case el_value e of Len b \<Rightarrow> Inr b | _ \<Rightarrow> Inl (WrongWireType (el_number e) (wire_type e) 2))"

definition as_int :: "element \<Rightarrow> sparkplug_problem + int" where
  "as_int e = (case el_value e of Varint v \<Rightarrow> Inr v | _ \<Rightarrow> Inl (WrongWireType (el_number e) (wire_type e) 0))"

definition as_bool :: "element \<Rightarrow> sparkplug_problem + bool" where
  "as_bool e = try_then (as_int e) (\<lambda>v. Inr (v \<noteq> 0))"

definition as_float :: "element \<Rightarrow> sparkplug_problem + bytes" where
  "as_float e = (case el_value e of Fixed32 b \<Rightarrow> Inr b | _ \<Rightarrow> Inl (WrongWireType (el_number e) (wire_type e) 5))"

definition as_double :: "element \<Rightarrow> sparkplug_problem + bytes" where
  "as_double e = (case el_value e of Fixed64 b \<Rightarrow> Inr b | _ \<Rightarrow> Inl (WrongWireType (el_number e) (wire_type e) 1))"

definition as_text :: "element \<Rightarrow> sparkplug_problem + unicode" where
  "as_text e = try_then (as_bytes e) (\<lambda>b. case decode_text b of None \<Rightarrow> Inl NotUtf8 | Some t \<Rightarrow> Inr t)"

section \<open>Messages\<close>

definition empty_metadata :: metadata where
  "empty_metadata = \<lparr>md_multi_part = None, md_content_type = None, md_size = None, md_seq = None, md_file_name = None,
     md_file_type = None, md_md5 = None, md_description = None\<rparr>"

definition metadata_field :: "element \<Rightarrow> metadata \<Rightarrow> sparkplug_problem + metadata" where
  "metadata_field e m = (let n = el_number e in
     if n = 1 then try_then (as_bool e) (\<lambda>v. Inr (m\<lparr>md_multi_part := Some v\<rparr>))
     else if n = 2 then try_then (as_text e) (\<lambda>t. Inr (m\<lparr>md_content_type := Some t\<rparr>))
     else if n = 5 then try_then (as_text e) (\<lambda>t. Inr (m\<lparr>md_file_name := Some t\<rparr>))
     else if n = 6 then try_then (as_text e) (\<lambda>t. Inr (m\<lparr>md_file_type := Some t\<rparr>))
     else if n = 7 then try_then (as_text e) (\<lambda>t. Inr (m\<lparr>md_md5 := Some t\<rparr>))
     else if n = 8 then try_then (as_text e) (\<lambda>t. Inr (m\<lparr>md_description := Some t\<rparr>))
     else if n = 3 then try_then (as_int e) (\<lambda>v. Inr (m\<lparr>md_size := Some v\<rparr>))
     else if n = 4 then try_then (as_int e) (\<lambda>v. Inr (m\<lparr>md_seq := Some v\<rparr>))
     else Inr m)"

definition read_metadata :: "bytes \<Rightarrow> sparkplug_problem + metadata" where
  "read_metadata data = try_then (nested data) (\<lambda>es. try_fold metadata_field es empty_metadata)"

definition property_dict :: "property_pairs \<Rightarrow> (unicode \<times> property_content) list" where
  "property_dict pairs = fold (\<lambda>(k, v). AList.update k (if pv_null v then NoContent else pv_value v)) pairs []"

definition property_sets :: "(bytes \<Rightarrow> sparkplug_problem + property_pairs) \<Rightarrow> element list \<Rightarrow>
    sparkplug_problem + (unicode \<times> property_content) list list" where
  "property_sets read_set items = try_fold (\<lambda>item sets. try_then (as_bytes item) (\<lambda>b. try_then (read_set b)
     (\<lambda>pairs. Inr (sets @ [property_dict pairs])))) (filter (\<lambda>item. el_number item = 1) items) []"

definition property_value_field ::
  "(bytes \<Rightarrow> sparkplug_problem + property_pairs) \<Rightarrow> element \<Rightarrow> property_value \<Rightarrow> sparkplug_problem + property_value" where
  "property_value_field read_set e v = (let n = el_number e in
     if n = 1 then try_then (as_int e) (\<lambda>x. Inr (v\<lparr>pv_type := Some x\<rparr>))
     else if n = 2 then try_then (as_bool e) (\<lambda>x. Inr (v\<lparr>pv_null := x\<rparr>))
     else if n = 3 \<or> n = 4 then try_then (as_int e) (\<lambda>x. Inr (v\<lparr>pv_value := IntContent x\<rparr>))
     else if n = 5 then try_then (as_float e) (\<lambda>x. Inr (v\<lparr>pv_value := FloatContent x\<rparr>))
     else if n = 6 then try_then (as_double e) (\<lambda>x. Inr (v\<lparr>pv_value := DoubleContent x\<rparr>))
     else if n = 7 then try_then (as_bool e) (\<lambda>x. Inr (v\<lparr>pv_value := BoolContent x\<rparr>))
     else if n = 8 then try_then (as_text e) (\<lambda>x. Inr (v\<lparr>pv_value := TextContent x\<rparr>))
     else if n = 9 then try_then (as_bytes e) (\<lambda>b. try_then (read_set b)
       (\<lambda>pairs. Inr (v\<lparr>pv_value := SetContent (property_dict pairs)\<rparr>)))
     else if n = 10 then try_then (as_bytes e) (\<lambda>b. try_then (nested b) (\<lambda>items. try_then (property_sets read_set items)
       (\<lambda>sets. Inr (v\<lparr>pv_value := SetsContent sets\<rparr>))))
     else Inr v)"

definition read_property_value :: "(bytes \<Rightarrow> sparkplug_problem + property_pairs) \<Rightarrow> bytes \<Rightarrow> sparkplug_problem + property_value" where
  "read_property_value read_set data = try_then (nested data)
     (\<lambda>es. try_fold (property_value_field read_set) es \<lparr>pv_type = None, pv_value = NoContent, pv_null = False\<rparr>)"

definition property_set_field :: "(bytes \<Rightarrow> sparkplug_problem + property_value) \<Rightarrow> element \<Rightarrow> unicode list \<times> property_value list \<Rightarrow>
    sparkplug_problem + unicode list \<times> property_value list" where
  "property_set_field read_value e s = (case s of (keys, vals) \<Rightarrow>
     if el_number e = 1 then try_then (as_text e) (\<lambda>t. Inr (keys @ [t], vals))
     else if el_number e = 2 then try_then (as_bytes e) (\<lambda>b. try_then (read_value b) (\<lambda>v. Inr (keys, vals @ [v])))
     else Inr (keys, vals))"

definition property_set_of :: "(bytes \<Rightarrow> sparkplug_problem + property_value) \<Rightarrow> bytes \<Rightarrow> sparkplug_problem + property_pairs" where
  "property_set_of read_value data = try_then (nested data) (\<lambda>es. try_then (try_fold (property_set_field read_value) es ([], []))
     (\<lambda>(keys, vals). if length keys \<noteq> length vals then Inl (UnpairedProperties (int (length keys)) (int (length vals)))
       else Inr (zip keys vals)))"

text \<open>Only parts of the message are read recursively.\<close>

lemma nested_shorter: "nested data = Inr es \<Longrightarrow> e \<in> set es \<Longrightarrow> as_bytes e = Inr b \<Longrightarrow> length b < length data"
  by (auto simp: nested_def as_bytes_def split: sum.splits wire_fault.splits wire_value.splits intro: element_parts_shorter)

lemma property_set_of_cong [fundef_cong]:
  assumes "data = data'" and "\<And>b. length b < length data' \<Longrightarrow> f b = g b"
  shows "property_set_of f data = property_set_of g data'"
  unfolding property_set_of_def assms(1)
  by (intro try_then_cong refl try_fold_cong) (auto simp: property_set_field_def nested_shorter assms(2) intro!: try_then_cong)

lemma read_property_value_cong [fundef_cong]:
  assumes "data = data'" and "\<And>b. length b < length data' \<Longrightarrow> f b = g b"
  shows "read_property_value f data = read_property_value g data'"
proof -
  have sets: "property_sets f items = property_sets g items" if "nested b = Inr items" "length b < length data'" for b items
    unfolding property_sets_def
    by (intro try_fold_cong try_then_cong refl) (use nested_shorter[OF that(1)] that(2) in \<open>auto intro!: assms(2) intro: less_trans\<close>)
  show ?thesis
    unfolding read_property_value_def assms(1)
    by (intro try_then_cong refl try_fold_cong)
      (auto simp: property_value_field_def Let_def nested_shorter assms(2) sets intro!: try_then_cong)
qed

function read_property_set :: "bytes \<Rightarrow> sparkplug_problem + property_pairs" where
  "read_property_set data = property_set_of (read_property_value read_property_set) data"
  by auto
termination by (relation "measure length") auto

declare read_property_set.simps [simp del]

record dataset_state =
  st_columns :: "unicode list"
  st_types :: "int list"
  st_rows :: int
  st_declared :: "int option"

definition dataset_field :: "element \<Rightarrow> dataset_state \<Rightarrow> sparkplug_problem + dataset_state" where
  "dataset_field e s = (let n = el_number e in
     if n = 1 then try_then (as_int e) (\<lambda>v. Inr (s\<lparr>st_declared := Some v\<rparr>))
     else if n = 2 then try_then (as_text e) (\<lambda>t. Inr (s\<lparr>st_columns := st_columns s @ [t]\<rparr>))
     else if n = 3 then
       (case el_value e of
          Len packed \<Rightarrow>
            (case packed_varints packed of
               Inl Overrun \<Rightarrow> Inl CutColumnType
             | Inl (Broken p) \<Rightarrow> Inl (WireProblem p)
             | Inr vs \<Rightarrow> Inr (s\<lparr>st_types := st_types s @ vs\<rparr>))
        | _ \<Rightarrow> try_then (as_int e) (\<lambda>v. Inr (s\<lparr>st_types := st_types s @ [v]\<rparr>)))
     else if n = 4 then try_then (as_bytes e) (\<lambda>_. Inr (s\<lparr>st_rows := st_rows s + 1\<rparr>))
     else Inr s)"

definition dataset_of :: "dataset_state \<Rightarrow> sparkplug_problem + data_set" where
  "dataset_of s = (let columns = st_columns s; types = st_types s in
     if types \<noteq> [] \<and> length types \<noteq> length columns then Inl (UntypedColumns (int (length columns)) (int (length types)))
     else if st_declared s \<noteq> None \<and> st_declared s \<noteq> Some (int (length columns))
       then Inl (ColumnCount (the (st_declared s)) (int (length columns)))
     else Inr \<lparr>ds_columns = map (\<lambda>(i, name). (name, if i < length types then Some (types ! i) else None)) (enumerate 0 columns),
       ds_row_count = st_rows s\<rparr>)"

definition read_dataset :: "bytes \<Rightarrow> sparkplug_problem + data_set" where
  "read_dataset data = try_then (nested data) (\<lambda>es.
     try_then (try_fold dataset_field es \<lparr>st_columns = [], st_types = [], st_rows = 0, st_declared = None\<rparr>) dataset_of)"

definition parameter_field :: "element \<Rightarrow> unicode \<times> int option \<Rightarrow> sparkplug_problem + unicode \<times> int option" where
  "parameter_field e s = (case s of (name, kind) \<Rightarrow>
     if el_number e = 1 then try_then (as_text e) (\<lambda>t. Inr (t, kind))
     else if el_number e = 2 then try_then (as_int e) (\<lambda>v. Inr (name, Some v))
     else Inr s)"

definition read_parameter :: "bytes \<Rightarrow> sparkplug_problem + unicode \<times> int option" where
  "read_parameter data = try_then (nested data) (\<lambda>es. try_fold parameter_field es ([], None))"

definition template_field :: "(bytes \<Rightarrow> sparkplug_problem + sparkplug_metric) \<Rightarrow> element \<Rightarrow> template_head \<times> sparkplug_metric list \<Rightarrow>
    sparkplug_problem + template_head \<times> sparkplug_metric list" where
  "template_field read_metric e s = (case s of (h, ms) \<Rightarrow> let n = el_number e in
     if n = 1 then try_then (as_text e) (\<lambda>t. Inr (h\<lparr>tm_version := Some t\<rparr>, ms))
     else if n = 2 then try_then (as_bytes e) (\<lambda>b. try_then (read_metric b) (\<lambda>m. Inr (h, ms @ [m])))
     else if n = 3 then try_then (as_bytes e) (\<lambda>b. try_then (read_parameter b) (\<lambda>p. Inr (h\<lparr>tm_parameters := tm_parameters h @ [p]\<rparr>, ms)))
     else if n = 4 then try_then (as_text e) (\<lambda>t. Inr (h\<lparr>tm_ref := Some t\<rparr>, ms))
     else if n = 5 then try_then (as_bool e) (\<lambda>v. Inr (h\<lparr>tm_is_definition := v\<rparr>, ms))
     else Inr s)"

definition empty_template_head :: template_head where
  "empty_template_head = \<lparr>tm_version = None, tm_parameters = [], tm_ref = None, tm_is_definition = False\<rparr>"

definition read_template :: "(bytes \<Rightarrow> sparkplug_problem + sparkplug_metric) \<Rightarrow> bytes \<Rightarrow> sparkplug_problem + sparkplug_template" where
  "read_template read_metric data = try_then (nested data) (\<lambda>es.
     try_then (try_fold (template_field read_metric) es (empty_template_head, [])) (\<lambda>(h, ms). Inr (SparkplugTemplate h ms)))"

definition value_fields :: "int \<Rightarrow> value_field option" where
  "value_fields = map_of [(10, IntField), (11, LongField), (12, FloatField), (13, DoubleField), (14, BooleanField), (15, StringField),
     (16, BytesField), (17, DatasetField), (18, TemplateField), (19, ExtensionField)]"

definition read_scalar :: "value_field \<Rightarrow> element \<Rightarrow> sparkplug_problem + scalar" where
  "read_scalar f e = (case f of
       FloatField \<Rightarrow> try_then (as_float e) (\<lambda>b. Inr (ScalarFloat b))
     | DoubleField \<Rightarrow> try_then (as_double e) (\<lambda>b. Inr (ScalarDouble b))
     | BooleanField \<Rightarrow> try_then (as_bool e) (\<lambda>v. Inr (ScalarBool v))
     | StringField \<Rightarrow> try_then (as_text e) (\<lambda>t. Inr (ScalarText t))
     | BytesField \<Rightarrow> try_then (as_bytes e) (\<lambda>b. Inr (ScalarLength (int (length b))))
     | _ \<Rightarrow> try_then (as_int e) (\<lambda>v. Inr (ScalarInt v)))"

definition metric_field :: "(bytes \<Rightarrow> sparkplug_problem + sparkplug_template) \<Rightarrow> element \<Rightarrow> metric_head \<times> sparkplug_template option \<Rightarrow>
    sparkplug_problem + metric_head \<times> sparkplug_template option" where
  "metric_field read_tmpl e s = (case s of (h, t) \<Rightarrow> let n = el_number e in
     if n = 1 then try_then (as_text e) (\<lambda>x. Inr (h\<lparr>mh_name := Some x\<rparr>, t))
     else if n = 2 then try_then (as_int e) (\<lambda>x. Inr (h\<lparr>mh_alias := Some x\<rparr>, t))
     else if n = 3 then try_then (as_int e) (\<lambda>x. Inr (h\<lparr>mh_timestamp := Some x\<rparr>, t))
     else if n = 4 then try_then (as_int e) (\<lambda>x. Inr (h\<lparr>mh_datatype := Some x\<rparr>, t))
     else if n = 5 then try_then (as_bool e) (\<lambda>x. Inr (h\<lparr>mh_historical := x\<rparr>, t))
     else if n = 6 then try_then (as_bool e) (\<lambda>x. Inr (h\<lparr>mh_transient := x\<rparr>, t))
     else if n = 7 then try_then (as_bool e) (\<lambda>x. Inr (h\<lparr>mh_null := x\<rparr>, t))
     else if n = 8 then try_then (as_bytes e) (\<lambda>b. try_then (read_metadata b) (\<lambda>x. Inr (h\<lparr>mh_metadata := Some x\<rparr>, t)))
     else if n = 9 then try_then (as_bytes e) (\<lambda>b. try_then (read_property_set b) (\<lambda>x. Inr (h\<lparr>mh_properties := x\<rparr>, t)))
     else (case value_fields n of
         None \<Rightarrow> Inr (h\<lparr>mh_unknown := mh_unknown h + 1\<rparr>, t)
       | Some f \<Rightarrow>
           (let h = h\<lparr>mh_value_field := Some f\<rparr> in
            if f = DatasetField then try_then (as_bytes e) (\<lambda>b. try_then (read_dataset b) (\<lambda>x. Inr (h\<lparr>mh_dataset := Some x\<rparr>, t)))
            else if f = TemplateField then try_then (as_bytes e) (\<lambda>b. try_then (read_tmpl b) (\<lambda>x. Inr (h, Some x)))
            else if f = ExtensionField then try_then (as_bytes e) (\<lambda>_. Inr (h, t))
            else try_then (read_scalar f e) (\<lambda>x. Inr (h\<lparr>mh_value := Some x\<rparr>, t)))))"

definition empty_metric_head :: metric_head where
  "empty_metric_head = \<lparr>mh_name = None, mh_alias = None, mh_timestamp = None, mh_datatype = None, mh_historical = False,
     mh_transient = False, mh_null = False, mh_metadata = None, mh_properties = [], mh_value_field = None, mh_value = None,
     mh_dataset = None, mh_unknown = 0\<rparr>"

definition metric_of :: "(bytes \<Rightarrow> sparkplug_problem + sparkplug_template) \<Rightarrow> bytes \<Rightarrow> sparkplug_problem + sparkplug_metric" where
  "metric_of read_tmpl data = try_then (nested data) (\<lambda>es.
     try_then (try_fold (metric_field read_tmpl) es (empty_metric_head, None)) (\<lambda>(h, t). Inr (SparkplugMetric h t)))"

lemma read_template_cong [fundef_cong]:
  assumes "data = data'" and "\<And>b. length b < length data' \<Longrightarrow> f b = g b"
  shows "read_template f data = read_template g data'"
  unfolding read_template_def assms(1)
  by (intro try_then_cong refl try_fold_cong) (auto simp: template_field_def Let_def nested_shorter assms(2) intro!: try_then_cong)

lemma metric_of_cong [fundef_cong]:
  assumes "data = data'" and "\<And>b. length b < length data' \<Longrightarrow> f b = g b"
  shows "metric_of f data = metric_of g data'"
  unfolding metric_of_def assms(1)
  by (intro try_then_cong refl try_fold_cong)
    (auto simp: metric_field_def Let_def nested_shorter assms(2) intro!: try_then_cong split: option.splits)

function read_metric :: "bytes \<Rightarrow> sparkplug_problem + sparkplug_metric" where
  "read_metric data = metric_of (read_template read_metric) data"
  by auto
termination by (relation "measure length") auto

declare read_metric.simps [simp del]

section \<open>Payloads\<close>

definition payload_field :: "element \<Rightarrow> sparkplug_payload \<Rightarrow> sparkplug_problem + sparkplug_payload" where
  "payload_field e p = (let n = el_number e in
     if n = 1 then try_then (as_int e) (\<lambda>v. Inr (p\<lparr>pl_timestamp := Some v\<rparr>))
     else if n = 2 then try_then (as_bytes e) (\<lambda>b. try_then (read_metric b) (\<lambda>m. Inr (p\<lparr>pl_metrics := pl_metrics p @ [m]\<rparr>)))
     else if n = 3 then try_then (as_int e) (\<lambda>v. Inr (p\<lparr>pl_seq := Some v\<rparr>))
     else if n = 4 then try_then (as_text e) (\<lambda>t. Inr (p\<lparr>pl_uuid := Some t\<rparr>))
     else if n = 5 then try_then (as_bytes e) (\<lambda>b. Inr (p\<lparr>pl_body_length := Some (int (length b))\<rparr>))
     else Inr (p\<lparr>pl_unknown := pl_unknown p + 1\<rparr>))"

definition empty_payload :: "int \<Rightarrow> sparkplug_payload" where
  "empty_payload n = \<lparr>pl_timestamp = None, pl_metrics = [], pl_seq = None, pl_uuid = None, pl_body_length = None, pl_unknown = 0,
     pl_size = n\<rparr>"

definition decode_payload :: "bytes \<Rightarrow> sparkplug_error + sparkplug_payload" where
  "decode_payload data =
     (if data = [] then Inl InputEmpty
      else case elements data of
        Inl Overrun \<Rightarrow> Inl InputTruncated
      | Inl (Broken p) \<Rightarrow> Inl (InputMalformed (WireProblem p))
      | Inr es \<Rightarrow>
          (case try_fold payload_field es (empty_payload (int (length data))) of
             Inl p \<Rightarrow> Inl (InputMalformed p)
           | Inr payload \<Rightarrow> Inr payload))"

definition addressable :: "sparkplug_metric \<Rightarrow> bool" where
  "addressable m \<longleftrightarrow> \<not> (mh_name (mt_head m) = None \<and> mh_alias (mt_head m) = None)
     \<and> (case mh_datatype (mt_head m) of None \<Rightarrow> True | Some n \<Rightarrow> known_datatype n)"

definition sniff_payload :: "bytes option \<Rightarrow> bool" where
  "sniff_payload data =
     (case data of
        None \<Rightarrow> False
      | Some data \<Rightarrow>
          if data = [] then False
          else (case elements data of
              Inl _ \<Rightarrow> False
            | Inr es \<Rightarrow>
                if list_ex (\<lambda>e. el_number e \<notin> {1, 2, 3, 4, 5}) es then False
                else (case decode_payload data of
                    Inl _ \<Rightarrow> False
                  | Inr payload \<Rightarrow> pl_metrics payload \<noteq> [] \<and> list_all addressable (pl_metrics payload))))"

end
