(* ===== verification/SparkplugSound.thy ===== *)
theory SparkplugSound
  imports Sparkplug
begin

text \<open>
  What the payload reader promises. A payload that was cut off is reported as cut off or read up to
  the cut, never as broken; fields outside the schema are skipped wherever they stand; and the reader
  inverts the encoding of every message the schema describes (\<open>write_payload\<close>).
\<close>

section \<open>A payload cut short\<close>

lemma payload_field_size:
  "payload_field e (p\<lparr>pl_size := n\<rparr>) = map_sum id (\<lambda>q. q\<lparr>pl_size := n\<rparr>) (payload_field e p)"
  by (auto simp: payload_field_def Let_def try_then_def split: sum.splits)

lemma payload_fold_size:
  "try_fold payload_field es (p\<lparr>pl_size := n\<rparr>) = map_sum id (\<lambda>q. q\<lparr>pl_size := n\<rparr>) (try_fold payload_field es p)"
proof (induction es arbitrary: p)
  case (Cons e es)
  then show ?case by (cases "payload_field e p") (simp_all add: payload_field_size)
qed simp

lemma payload_fold_keeps_size: "try_fold payload_field es p = Inr q \<Longrightarrow> pl_size q = pl_size p"
proof (induction es arbitrary: p)
  case (Cons e es)
  then obtain r where "payload_field e p = Inr r" "try_fold payload_field es r = Inr q" by (auto simp: try_then_Inr)
  moreover from this(1) have "pl_size r = pl_size p" by (auto simp: payload_field_def Let_def try_then_Inr split: if_splits)
  ultimately show ?case using Cons.IH by simp
qed simp

lemma empty_payload_size: "empty_payload n = (empty_payload m)\<lparr>pl_size := n\<rparr>"
  by (simp add: empty_payload_def)

lemma payload_field_metrics: "payload_field e p = Inr q \<Longrightarrow> \<exists>ms. pl_metrics q = pl_metrics p @ ms"
  by (auto simp: payload_field_def Let_def try_then_Inr split: if_splits)

lemma payload_fold_metrics: "try_fold payload_field es p = Inr q \<Longrightarrow> \<exists>ms. pl_metrics q = pl_metrics p @ ms"
proof (induction es arbitrary: p)
  case (Cons e es)
  then obtain r where r: "payload_field e p = Inr r" "try_fold payload_field es r = Inr q" by (auto simp: try_then_Inr)
  then show ?case using Cons.IH[OF r(2)] payload_field_metrics[OF r(1)] by auto
qed simp

lemma decoded_elements:
  assumes "decode_payload data = Inr p"
  obtains es where "elements data = Inr es" "try_fold payload_field es (empty_payload (int (length data))) = Inr p"
  using assms by (auto simp: decode_payload_def split: if_splits sum.splits wire_fault.splits)

lemma payload_cut:
  assumes "decode_payload data = Inr p"
  shows "decode_payload (take n data) \<in> {Inl InputEmpty, Inl InputTruncated}
    \<or> (\<exists>q ms. decode_payload (take n data) = Inr q \<and> pl_metrics p = pl_metrics q @ ms)"
proof -
  obtain es where es: "elements data = Inr es" "try_fold payload_field es (empty_payload (int (length data))) = Inr p"
    by (rule decoded_elements[OF assms])
  consider "elements (take n data) = Inl Overrun" | k where "elements (take n data) = Inr (take k es)"
    using wire.read_all_cut[OF es(1)] by blast
  then show ?thesis
  proof cases
    case 1
    then show ?thesis by (auto simp: decode_payload_def)
  next
    case (2 k)
    have "try_fold payload_field (take k es @ drop k es) (empty_payload (int (length data))) = Inr p" using es(2) by simp
    then obtain q where q: "try_fold payload_field (take k es) (empty_payload (int (length data))) = Inr q"
      "try_fold payload_field (drop k es) q = Inr p"
      unfolding try_fold_append by (auto simp: try_then_Inr)
    let ?m = "int (length (take n data))"
    have "try_fold payload_field (take k es) (empty_payload ?m) = Inr (q\<lparr>pl_size := ?m\<rparr>)"
      unfolding empty_payload_size[of ?m "int (length data)"] payload_fold_size q(1) by simp
    then have "decode_payload (take n data) = (if take n data = [] then Inl InputEmpty else Inr (q\<lparr>pl_size := ?m\<rparr>))"
      using 2 by (simp add: decode_payload_def)
    moreover obtain ms where "pl_metrics p = pl_metrics q @ ms" using payload_fold_metrics[OF q(2)] by auto
    ultimately show ?thesis by auto
  qed
qed

section \<open>Fields outside the schema\<close>

lemma payload_field_unknown:
  "payload_field e (p\<lparr>pl_unknown := pl_unknown p + k\<rparr>) = map_sum id (\<lambda>q. q\<lparr>pl_unknown := pl_unknown q + k\<rparr>) (payload_field e p)"
  by (auto simp: payload_field_def Let_def try_then_def split: sum.splits)

lemma payload_fold_unknown:
  "try_fold payload_field es (p\<lparr>pl_unknown := pl_unknown p + k\<rparr>)
     = map_sum id (\<lambda>q. q\<lparr>pl_unknown := pl_unknown q + k\<rparr>) (try_fold payload_field es p)"
proof (induction es arbitrary: p)
  case (Cons e es)
  then show ?case by (cases "payload_field e p") (simp_all add: payload_field_unknown)
qed simp

lemma payload_skips:
  assumes "el_number u \<notin> {1, 2, 3, 4, 5}"
  shows "try_fold payload_field (xs @ u # ys) p
    = map_sum id (\<lambda>q. q\<lparr>pl_unknown := pl_unknown q + 1\<rparr>) (try_fold payload_field (xs @ ys) p)"
proof (cases "try_fold payload_field xs p")
  case (Inr q)
  have "payload_field u q = Inr (q\<lparr>pl_unknown := pl_unknown q + 1\<rparr>)" using assms by (simp add: payload_field_def)
  then show ?thesis using Inr by (simp add: try_fold_append payload_fold_unknown)
qed (simp add: try_fold_append)

lemma unknown_element_skipped:
  assumes "elements a = Inr xs" and "element_ok u" and "el_number u \<notin> {1, 2, 3, 4, 5}" and "a @ b \<noteq> []"
  shows "decode_payload (a @ write_element u @ b) = map_sum id
    (\<lambda>p. p\<lparr>pl_unknown := pl_unknown p + 1, pl_size := pl_size p + int (length (write_element u))\<rparr>) (decode_payload (a @ b))"
proof -
  have "elements (write_element u @ b) = try_then (elements b) (\<lambda>ys. Inr (u # ys))"
    using elements_written_append[of "[u]" b] assms(2) by (simp add: write_elements_def)
  then have both: "elements (a @ write_element u @ b) = try_then (elements b) (\<lambda>ys. Inr (xs @ u # ys))"
    "elements (a @ b) = try_then (elements b) (\<lambda>ys. Inr (xs @ ys))"
    using wire.read_all_append[OF assms(1)] by (cases "elements b"; simp)+
  show ?thesis
  proof (cases "elements b")
    case (Inl f)
    then show ?thesis using both assms(4) by (cases f) (simp_all add: decode_payload_def)
  next
    case (Inr ys)
    let ?n = "int (length (a @ b))" and ?m = "int (length (a @ write_element u @ b))"
    have size: "pl_size q = ?n" if "try_fold payload_field (xs @ ys) (empty_payload ?n) = Inr q" for q
      using payload_fold_keeps_size[OF that] by (simp add: empty_payload_def)
    have "try_fold payload_field (xs @ u # ys) (empty_payload ?m)
        = map_sum id (\<lambda>q. q\<lparr>pl_unknown := pl_unknown q + 1, pl_size := ?m\<rparr>) (try_fold payload_field (xs @ ys) (empty_payload ?n))"
      unfolding empty_payload_size[of ?m ?n] payload_fold_size payload_skips[OF assms(3)]
      by (cases "try_fold payload_field (xs @ ys) (empty_payload ?n)") simp_all
    then show ?thesis
      using both Inr assms(4) size
      by (cases "try_fold payload_field (xs @ ys) (empty_payload ?n)") (simp_all add: decode_payload_def algebra_simps)
  qed
qed

section \<open>Encoding\<close>

definition int_el :: "int \<Rightarrow> int \<Rightarrow> element" where
  "int_el n v = \<lparr>el_number = n, el_value = Varint v\<rparr>"

definition bool_el :: "int \<Rightarrow> bool \<Rightarrow> element" where
  "bool_el n v = int_el n (if v then 1 else 0)"

definition len_el :: "int \<Rightarrow> bytes \<Rightarrow> element" where
  "len_el n b = \<lparr>el_number = n, el_value = Len b\<rparr>"

definition text_el :: "int \<Rightarrow> unicode \<Rightarrow> element" where
  "text_el n t = len_el n (encode_text t)"

definition float_el :: "int \<Rightarrow> bytes \<Rightarrow> element" where
  "float_el n b = \<lparr>el_number = n, el_value = Fixed32 b\<rparr>"

definition double_el :: "int \<Rightarrow> bytes \<Rightarrow> element" where
  "double_el n b = \<lparr>el_number = n, el_value = Fixed64 b\<rparr>"

definition opt :: "('a \<Rightarrow> element) \<Rightarrow> 'a option \<Rightarrow> element list" where
  "opt f x = (case x of None \<Rightarrow> [] | Some v \<Rightarrow> [f v])"

definition flag :: "int \<Rightarrow> bool \<Rightarrow> element list" where
  "flag n v = (if v then [bool_el n True] else [])"

definition metadata_elements :: "metadata \<Rightarrow> element list" where
  "metadata_elements m = opt (bool_el 1) (md_multi_part m) @ opt (text_el 2) (md_content_type m) @ opt (int_el 3) (md_size m)
     @ opt (int_el 4) (md_seq m) @ opt (text_el 5) (md_file_name m) @ opt (text_el 6) (md_file_type m) @ opt (text_el 7) (md_md5 m)
     @ opt (text_el 8) (md_description m)"

fun content_elements :: "property_content \<Rightarrow> element list" where
  "content_elements NoContent = []"
| "content_elements (IntContent i) = [int_el 4 i]"
| "content_elements (FloatContent b) = [float_el 5 b]"
| "content_elements (DoubleContent b) = [double_el 6 b]"
| "content_elements (BoolContent v) = [bool_el 7 v]"
| "content_elements (TextContent t) = [text_el 8 t]"
| "content_elements (SetContent kvs) = [len_el 9 (write_elements (concat (map (\<lambda>p.
     [text_el 1 (fst p), len_el 2 (write_elements (content_elements (snd p)))]) kvs)))]"
| "content_elements (SetsContent sets) = [len_el 10 (write_elements (map (\<lambda>kvs. len_el 1 (write_elements (concat (map (\<lambda>p.
     [text_el 1 (fst p), len_el 2 (write_elements (content_elements (snd p)))]) kvs)))) sets))]"

definition value_elements :: "property_value \<Rightarrow> element list" where
  "value_elements v = opt (int_el 1) (pv_type v) @ flag 2 (pv_null v) @ content_elements (pv_value v)"

definition property_elements :: "property_pairs \<Rightarrow> element list" where
  "property_elements kvs = concat (map (\<lambda>p. [text_el 1 (fst p), len_el 2 (write_elements (value_elements (snd p)))]) kvs)"

definition dataset_elements :: "data_set \<Rightarrow> element list" where
  "dataset_elements d = [int_el 1 (int (length (ds_columns d)))] @ map (\<lambda>c. text_el 2 (fst c)) (ds_columns d)
     @ concat (map (\<lambda>c. opt (int_el 3) (snd c)) (ds_columns d)) @ replicate (nat (ds_row_count d)) (len_el 4 [])"

definition scalar_elements :: "value_field \<Rightarrow> scalar \<Rightarrow> element list" where
  "scalar_elements f v = (case v of
       ScalarInt i \<Rightarrow> [int_el (if f = IntField then 10 else 11) i]
     | ScalarFloat b \<Rightarrow> [float_el 12 b]
     | ScalarDouble b \<Rightarrow> [double_el 13 b]
     | ScalarBool x \<Rightarrow> [bool_el 14 x]
     | ScalarText t \<Rightarrow> [text_el 15 t]
     | ScalarLength n \<Rightarrow> [len_el 16 (replicate (nat n) 0)])"

definition result_elements :: "metric_head \<Rightarrow> element list" where
  "result_elements h = (case (mh_value_field h, mh_value h) of (Some f, Some v) \<Rightarrow> scalar_elements f v | _ \<Rightarrow> [])
     @ opt (\<lambda>d. len_el 17 (write_elements (dataset_elements d))) (mh_dataset h)
     @ (if mh_value_field h = Some ExtensionField then [len_el 19 []] else [])"

definition head_elements :: "metric_head \<Rightarrow> element list" where
  "head_elements h = opt (text_el 1) (mh_name h) @ opt (int_el 2) (mh_alias h) @ opt (int_el 3) (mh_timestamp h)
     @ opt (int_el 4) (mh_datatype h) @ flag 5 (mh_historical h) @ flag 6 (mh_transient h) @ flag 7 (mh_null h)
     @ opt (\<lambda>m. len_el 8 (write_elements (metadata_elements m))) (mh_metadata h)
     @ (if mh_properties h = [] then [] else [len_el 9 (write_elements (property_elements (mh_properties h)))])
     @ result_elements h"

fun metric_elements :: "sparkplug_metric \<Rightarrow> element list"
  and template_elements :: "sparkplug_template \<Rightarrow> element list" where
  "metric_elements (SparkplugMetric h t) = head_elements h
     @ (case t of None \<Rightarrow> [] | Some t \<Rightarrow> [len_el 18 (write_elements (template_elements t))])"
| "template_elements (SparkplugTemplate h ms) = opt (text_el 1) (tm_version h)
     @ map (\<lambda>m. len_el 2 (write_elements (metric_elements m))) ms
     @ map (\<lambda>p. len_el 3 (write_elements (text_el 1 (fst p) # opt (int_el 2) (snd p)))) (tm_parameters h)
     @ opt (text_el 4) (tm_ref h) @ flag 5 (tm_is_definition h)"

definition write_payload :: "sparkplug_payload \<Rightarrow> bytes" where
  "write_payload p = write_elements (opt (int_el 1) (pl_timestamp p)
     @ map (\<lambda>m. len_el 2 (write_elements (metric_elements m))) (pl_metrics p)
     @ opt (int_el 3) (pl_seq p) @ opt (text_el 4) (pl_uuid p) @ opt (\<lambda>n. len_el 5 (replicate (nat n) 0)) (pl_body_length p))"

section \<open>Values that have an encoding\<close>

definition int_ok :: "int \<Rightarrow> bool" where
  "int_ok v \<longleftrightarrow> 0 \<le> v \<and> v < 2 ^ 64"

definition text_ok :: "unicode \<Rightarrow> bool" where
  "text_ok t \<longleftrightarrow> list_all scalar_value t"

definition metadata_ok :: "metadata \<Rightarrow> bool" where
  "metadata_ok m \<longleftrightarrow> pred_option text_ok (md_content_type m) \<and> pred_option int_ok (md_size m) \<and> pred_option int_ok (md_seq m)
     \<and> pred_option text_ok (md_file_name m) \<and> pred_option text_ok (md_file_type m) \<and> pred_option text_ok (md_md5 m)
     \<and> pred_option text_ok (md_description m)"

fun content_ok :: "property_content \<Rightarrow> bool" where
  "content_ok NoContent \<longleftrightarrow> True"
| "content_ok (IntContent i) \<longleftrightarrow> int_ok i"
| "content_ok (FloatContent b) \<longleftrightarrow> length b = 4"
| "content_ok (DoubleContent b) \<longleftrightarrow> length b = 8"
| "content_ok (BoolContent v) \<longleftrightarrow> True"
| "content_ok (TextContent t) \<longleftrightarrow> text_ok t"
| "content_ok (SetContent kvs) \<longleftrightarrow> distinct (map fst kvs) \<and> (\<forall>p \<in> set kvs. text_ok (fst p) \<and> content_ok (snd p))"
| "content_ok (SetsContent sets) \<longleftrightarrow> (\<forall>kvs \<in> set sets. distinct (map fst kvs) \<and> (\<forall>p \<in> set kvs. text_ok (fst p) \<and> content_ok (snd p)))"

definition property_ok :: "property_pairs \<Rightarrow> bool" where
  "property_ok kvs \<longleftrightarrow> (\<forall>(k, v) \<in> set kvs. text_ok k \<and> pred_option int_ok (pv_type v) \<and> content_ok (pv_value v))"

definition dataset_ok :: "data_set \<Rightarrow> bool" where
  "dataset_ok d \<longleftrightarrow> 0 \<le> ds_row_count d \<and> (\<forall>c \<in> set (ds_columns d). text_ok (fst c) \<and> pred_option int_ok (snd c))
     \<and> ((\<forall>c \<in> set (ds_columns d). snd c = None) \<or> (\<forall>c \<in> set (ds_columns d). snd c \<noteq> None))"

definition scalar_ok :: "value_field \<Rightarrow> scalar \<Rightarrow> bool" where
  "scalar_ok f v \<longleftrightarrow> (case v of
       ScalarInt i \<Rightarrow> f \<in> {IntField, LongField} \<and> int_ok i
     | ScalarFloat b \<Rightarrow> f = FloatField \<and> length b = 4
     | ScalarDouble b \<Rightarrow> f = DoubleField \<and> length b = 8
     | ScalarBool x \<Rightarrow> f = BooleanField
     | ScalarText t \<Rightarrow> f = StringField \<and> text_ok t
     | ScalarLength n \<Rightarrow> f = BytesField \<and> 0 \<le> n)"

text \<open>A metric carries at most one value, in the field that says so.\<close>

definition head_ok :: "metric_head \<Rightarrow> bool \<Rightarrow> bool" where
  "head_ok h templated \<longleftrightarrow> pred_option text_ok (mh_name h) \<and> pred_option int_ok (mh_alias h) \<and> pred_option int_ok (mh_timestamp h)
     \<and> pred_option int_ok (mh_datatype h) \<and> pred_option metadata_ok (mh_metadata h) \<and> property_ok (mh_properties h)
     \<and> pred_option dataset_ok (mh_dataset h) \<and> mh_unknown h = 0
     \<and> (templated \<longleftrightarrow> mh_value_field h = Some TemplateField) \<and> (mh_dataset h \<noteq> None \<longleftrightarrow> mh_value_field h = Some DatasetField)
     \<and> (case mh_value_field h of
          None \<Rightarrow> mh_value h = None
        | Some f \<Rightarrow> if f \<in> {DatasetField, TemplateField, ExtensionField} then mh_value h = None
            else (case mh_value h of None \<Rightarrow> False | Some v \<Rightarrow> scalar_ok f v))"

fun metric_ok :: "sparkplug_metric \<Rightarrow> bool" and template_ok :: "sparkplug_template \<Rightarrow> bool" where
  "metric_ok (SparkplugMetric h t) \<longleftrightarrow> head_ok h (t \<noteq> None) \<and> (case t of None \<Rightarrow> True | Some t \<Rightarrow> template_ok t)"
| "template_ok (SparkplugTemplate h ms) \<longleftrightarrow> pred_option text_ok (tm_version h) \<and> pred_option text_ok (tm_ref h)
     \<and> (\<forall>p \<in> set (tm_parameters h). text_ok (fst p) \<and> pred_option int_ok (snd p)) \<and> (\<forall>m \<in> set ms. metric_ok m)"

definition payload_ok :: "sparkplug_payload \<Rightarrow> bool" where
  "payload_ok p \<longleftrightarrow> pred_option int_ok (pl_timestamp p) \<and> (\<forall>m \<in> set (pl_metrics p). metric_ok m) \<and> pred_option int_ok (pl_seq p)
     \<and> pred_option text_ok (pl_uuid p) \<and> (case pl_body_length p of None \<Rightarrow> True | Some n \<Rightarrow> 0 \<le> n) \<and> pl_unknown p = 0
     \<and> pl_size p = int (length (write_payload p)) \<and> write_payload p \<noteq> [] \<and> length (write_payload p) < 2 ^ 63"

section \<open>Reading back\<close>

named_theorems readback \<open>what the reader makes of a written field\<close>

definition element_fits :: "element \<Rightarrow> bool" where
  "element_fits e \<longleftrightarrow> 0 < el_number e \<and> el_number e < 2 ^ 29
     \<and> (case el_value e of Varint v \<Rightarrow> int_ok v | Fixed64 b \<Rightarrow> length b = 8 | Len b \<Rightarrow> True | Fixed32 b \<Rightarrow> length b = 4)"

lemma written_part: "e \<in> set es \<Longrightarrow> el_value e = Len b \<Longrightarrow> length b < length (write_elements es)"
proof (induction es)
  case (Cons x es)
  have "length b < length (write_element e)" if "el_value e = Len b" using that by (simp add: write_element_def)
  then show ?case using Cons by (auto simp: write_elements_def)
qed simp

lemma nested_written:
  assumes "list_all element_fits es" and "length (write_elements es) < 2 ^ 63"
  shows "nested (write_elements es) = Inr es"
proof -
  have "element_ok e" if "e \<in> set es" for e
    using assms that written_part[OF that]
    by (force simp: list_all_iff element_fits_def element_ok_def int_ok_def split: wire_value.splits)
  then have "elements (write_elements es) = Inr es" by (intro elements_written) (simp add: list_all_iff)
  then show ?thesis by (simp add: nested_def)
qed

lemma written_length: "length es \<le> length (write_elements es)"
proof (induction es)
  case (Cons e es)
  then show ?case using write_element_not_Nil[of e] by (cases "write_element e") (simp_all add: write_elements_def)
qed simp

lemma part_small: "len_el n b \<in> set es \<Longrightarrow> length (write_elements es) < 2 ^ 63 \<Longrightarrow> length b < 2 ^ 63"
  using written_part[of "len_el n b" es b] by (simp add: len_el_def)

lemma fits_simps [simp]:
  "element_fits (int_el n v) \<longleftrightarrow> 0 < n \<and> n < 2 ^ 29 \<and> int_ok v" "element_fits (bool_el n y) \<longleftrightarrow> 0 < n \<and> n < 2 ^ 29"
  "element_fits (len_el n b) \<longleftrightarrow> 0 < n \<and> n < 2 ^ 29" "element_fits (text_el n t) \<longleftrightarrow> 0 < n \<and> n < 2 ^ 29"
  "element_fits (float_el n b) \<longleftrightarrow> 0 < n \<and> n < 2 ^ 29 \<and> length b = 4" "element_fits (double_el n b) \<longleftrightarrow> 0 < n \<and> n < 2 ^ 29 \<and> length b = 8"
  "list_all element_fits (opt f x) \<longleftrightarrow> pred_option (\<lambda>v. element_fits (f v)) x" "list_all element_fits (flag n y) \<longleftrightarrow> (y \<longrightarrow> 0 < n \<and> n < 2 ^ 29)"
  by (auto simp: element_fits_def int_el_def bool_el_def len_el_def text_el_def float_el_def double_el_def opt_def flag_def int_ok_def
      split: option.splits)

lemma el_numbers [simp]:
  "el_number (int_el n v) = n" "el_number (bool_el n x) = n" "el_number (len_el n b) = n" "el_number (text_el n t) = n"
  "el_number (float_el n b) = n" "el_number (double_el n b) = n"
  by (simp_all add: int_el_def bool_el_def len_el_def text_el_def float_el_def double_el_def)

lemma read_fields [simp]:
  "as_int (int_el n v) = Inr v" "as_bool (bool_el n x) = Inr x" "as_bytes (len_el n b) = Inr b"
  "as_float (float_el n b) = Inr b" "as_double (double_el n b) = Inr b" "text_ok t \<Longrightarrow> as_text (text_el n t) = Inr t"
  by (simp_all add: as_int_def as_bool_def as_bytes_def as_float_def as_double_def as_text_def int_el_def bool_el_def len_el_def
      text_el_def float_el_def double_el_def text_ok_def decode_encode_text)

lemma fold_opt:
  assumes "\<And>v. x = Some v \<Longrightarrow> step (f v) s = Inr (put (Some v) s)" and "x = None \<Longrightarrow> put None s = s"
  shows "try_fold step (opt f x) s = Inr (put x s)"
  using assms by (cases x) (simp_all add: opt_def)

lemma fold_map:
  assumes "\<And>x s. x \<in> set xs \<Longrightarrow> step (f x) s = Inr (put x s)"
  shows "try_fold step (map f xs) s = Inr (fold put xs s)"
  using assms by (induction xs arbitrary: s) simp_all

lemma metadata_read_back:
  assumes "metadata_ok m" and "length (write_elements (metadata_elements m)) < 2 ^ 63"
  shows "read_metadata (write_elements (metadata_elements m)) = Inr m"
proof -
  note field = metadata_field_def Let_def
  have 1: "md_multi_part s = None \<Longrightarrow> try_fold metadata_field (opt (bool_el 1) x) s = Inr (s\<lparr>md_multi_part := x\<rparr>)" for x and s :: metadata
    by (rule fold_opt) (simp_all add: field)
  have 2: "md_content_type s = None \<Longrightarrow> pred_option text_ok x \<Longrightarrow> try_fold metadata_field (opt (text_el 2) x) s = Inr (s\<lparr>md_content_type := x\<rparr>)" for x and s :: metadata
    by (rule fold_opt) (simp_all add: field)
  have 3: "md_size s = None \<Longrightarrow> try_fold metadata_field (opt (int_el 3) x) s = Inr (s\<lparr>md_size := x\<rparr>)" for x and s :: metadata
    by (rule fold_opt) (simp_all add: field)
  have 4: "md_seq s = None \<Longrightarrow> try_fold metadata_field (opt (int_el 4) x) s = Inr (s\<lparr>md_seq := x\<rparr>)" for x and s :: metadata
    by (rule fold_opt) (simp_all add: field)
  have 5: "md_file_name s = None \<Longrightarrow> pred_option text_ok x \<Longrightarrow> try_fold metadata_field (opt (text_el 5) x) s = Inr (s\<lparr>md_file_name := x\<rparr>)" for x and s :: metadata
    by (rule fold_opt) (simp_all add: field)
  have 6: "md_file_type s = None \<Longrightarrow> pred_option text_ok x \<Longrightarrow> try_fold metadata_field (opt (text_el 6) x) s = Inr (s\<lparr>md_file_type := x\<rparr>)" for x and s :: metadata
    by (rule fold_opt) (simp_all add: field)
  have 7: "md_md5 s = None \<Longrightarrow> pred_option text_ok x \<Longrightarrow> try_fold metadata_field (opt (text_el 7) x) s = Inr (s\<lparr>md_md5 := x\<rparr>)" for x and s :: metadata
    by (rule fold_opt) (simp_all add: field)
  have 8: "md_description s = None \<Longrightarrow> pred_option text_ok x \<Longrightarrow> try_fold metadata_field (opt (text_el 8) x) s = Inr (s\<lparr>md_description := x\<rparr>)" for x and s :: metadata
    by (rule fold_opt) (simp_all add: field)
  have "list_all element_fits (metadata_elements m)"
    using assms(1) by (auto simp: metadata_elements_def metadata_ok_def option.pred_True)
  then have "nested (write_elements (metadata_elements m)) = Inr (metadata_elements m)" using assms(2) by (rule nested_written)
  moreover have "try_fold metadata_field (metadata_elements m) empty_metadata = Inr m"
    using assms(1) unfolding metadata_elements_def metadata_ok_def
    by (simp add: try_fold_append 1 2 3 4 5 6 7 8 empty_metadata_def)
  ultimately show ?thesis by (simp add: read_metadata_def)
qed

lemma update_new: "k \<notin> fst ` set d \<Longrightarrow> AList.update k v d = d @ [(k, v)]"
  by (induction d) auto

lemma property_dict_distinct:
  assumes "distinct (map fst kvs)"
  shows "property_dict (map (\<lambda>p. (fst p, \<lparr>pv_type = None, pv_value = snd p, pv_null = False\<rparr>)) kvs) = kvs"
proof -
  have "fold (\<lambda>(k, v). AList.update k (if pv_null v then NoContent else pv_value v))
      (map (\<lambda>p. (fst p, \<lparr>pv_type = None, pv_value = snd p, pv_null = False\<rparr>)) kvs) d = d @ kvs"
    if "distinct (map fst kvs)" "fst ` set d \<inter> fst ` set kvs = {}" for kvs d :: "(unicode \<times> property_content) list"
    using that
  proof (induction kvs arbitrary: d)
    case (Cons p kvs)
    have "fst p \<notin> fst ` set d" using Cons.prems(2) by auto
    then have "AList.update (fst p) (snd p) d = d @ [p]" by (simp add: update_new)
    then show ?case using Cons.IH[of "d @ [p]"] Cons.prems by auto
  qed simp
  from this[of kvs "[]"] assms show ?thesis by (simp add: property_dict_def)
qed

lemma property_set_read_back:
  assumes "\<And>p. p \<in> set xs \<Longrightarrow> text_ok (key p) \<and> read_value (body p) = Inr (val p)"
    and "length (write_elements (concat (map (\<lambda>p. [text_el 1 (key p), len_el 2 (body p)]) xs))) < 2 ^ 63"
  shows "property_set_of read_value (write_elements (concat (map (\<lambda>p. [text_el 1 (key p), len_el 2 (body p)]) xs)))
    = Inr (map (\<lambda>p. (key p, val p)) xs)"
proof -
  have "try_fold (property_set_field read_value) (concat (map (\<lambda>p. [text_el 1 (key p), len_el 2 (body p)]) xs)) (ks, vs)
      = Inr (ks @ map key xs, vs @ map val xs)" for ks vs
    using assms(1) by (induction xs arbitrary: ks vs) (simp_all add: property_set_field_def)
  then show ?thesis
    using nested_written[OF _ assms(2)] by (simp add: property_set_of_def list_all_iff zip_map_map zip_same_conv_map)
qed

lemma read_property_set_back:
  assumes "\<And>p. p \<in> set xs \<Longrightarrow> text_ok (key p) \<and> read_property_value read_property_set (body p) = Inr (val p)"
    and "length (write_elements (concat (map (\<lambda>p. [text_el 1 (key p), len_el 2 (body p)]) xs))) < 2 ^ 63"
  shows "read_property_set (write_elements (concat (map (\<lambda>p. [text_el 1 (key p), len_el 2 (body p)]) xs)))
    = Inr (map (\<lambda>p. (key p, val p)) xs)"
  by (subst read_property_set.simps) (rule property_set_read_back[OF assms])

text \<open>The elements of a content turn a value without content into one with it.\<close>

lemma content_read_back:
  assumes "content_ok c" and "length (write_elements (content_elements c)) < 2 ^ 63"
  shows "list_all element_fits (content_elements c)"
    and "pv_value s = NoContent \<Longrightarrow> try_fold (property_value_field read_property_set) (content_elements c) s = Inr (s\<lparr>pv_value := c\<rparr>)"
proof -
  have fits: "list_all element_fits (content_elements c)" if "content_ok c" for c
    using that by (cases c) auto
  then show "list_all element_fits (content_elements c)" using assms(1) .
  let ?es = "\<lambda>kvs. concat (map (\<lambda>p. [text_el 1 (fst p), len_el 2 (write_elements (content_elements (snd p)))]) kvs)"
  have set_back: "read_property_set (write_elements (?es kvs)) = Inr (map (\<lambda>p. (fst p, \<lparr>pv_type = None, pv_value = snd p, pv_null = False\<rparr>)) kvs)"
    if ih: "\<And>p s. p \<in> set kvs \<Longrightarrow> pv_value s = NoContent \<Longrightarrow> content_ok (snd p) \<Longrightarrow> length (write_elements (content_elements (snd p))) < 2 ^ 63 \<Longrightarrow>
        try_fold (property_value_field read_property_set) (content_elements (snd p)) s = Inr (s\<lparr>pv_value := snd p\<rparr>)"
      and ok: "\<forall>p \<in> set kvs. text_ok (fst p) \<and> content_ok (snd p)" and bound: "length (write_elements (?es kvs)) < 2 ^ 63" for kvs
  proof (rule read_property_set_back[OF _ bound])
    fix p assume p: "p \<in> set kvs"
    then have "len_el 2 (write_elements (content_elements (snd p))) \<in> set (?es kvs)" by auto
    then have small: "length (write_elements (content_elements (snd p))) < 2 ^ 63" using bound by (rule part_small)
    then have "nested (write_elements (content_elements (snd p))) = Inr (content_elements (snd p))"
      using fits ok p by (intro nested_written) auto
    then show "text_ok (fst p) \<and> read_property_value read_property_set (write_elements (content_elements (snd p)))
        = Inr \<lparr>pv_type = None, pv_value = snd p, pv_null = False\<rparr>"
      using ok p ih[OF p _ _ small] by (simp add: read_property_value_def)
  qed
  show "pv_value s = NoContent \<Longrightarrow> try_fold (property_value_field read_property_set) (content_elements c) s = Inr (s\<lparr>pv_value := c\<rparr>)"
    using assms
  proof (induction c arbitrary: s rule: content_elements.induct)
    case (7 kvs)
    have "length (write_elements (?es kvs)) < 2 ^ 63" using part_small[OF _ 7(4), of 9] by simp
    then have "read_property_set (write_elements (?es kvs)) = Inr (map (\<lambda>p. (fst p, \<lparr>pv_type = None, pv_value = snd p, pv_null = False\<rparr>)) kvs)"
      using 7(3) by (intro set_back 7(1)) simp_all
    then show ?case using 7(3) by (simp add: property_value_field_def property_dict_distinct)
  next
    case (8 sets)
    let ?items = "map (\<lambda>kvs. len_el 1 (write_elements (?es kvs))) sets"
    have bound: "length (write_elements ?items) < 2 ^ 63" using part_small[OF _ 8(4), of 10] by simp
    then have items: "nested (write_elements ?items) = Inr ?items" by (intro nested_written) (simp_all add: list_all_iff)
    have "read_property_set (write_elements (?es kvs)) = Inr (map (\<lambda>p. (fst p, \<lparr>pv_type = None, pv_value = snd p, pv_null = False\<rparr>)) kvs)"
      if kvs: "kvs \<in> set sets" for kvs
    proof -
      have "length (write_elements (?es kvs)) < 2 ^ 63" using kvs by (intro part_small[OF _ bound, of 1]) auto
      then show ?thesis using 8(3) kvs by (intro set_back 8(1)[OF kvs]) simp_all
    qed
    then have "property_sets read_property_set ?items = Inr sets"
    proof -
      have each: "\<And>kvs. kvs \<in> set sets \<Longrightarrow> read_property_set (write_elements (?es kvs))
          = Inr (map (\<lambda>p. (fst p, \<lparr>pv_type = None, pv_value = snd p, pv_null = False\<rparr>)) kvs)" by fact
      have "try_fold (\<lambda>item sets. try_then (as_bytes item) (\<lambda>b. try_then (read_property_set b) (\<lambda>pairs. Inr (sets @ [property_dict pairs])))) ?items acc
          = Inr (fold (\<lambda>kvs acc. acc @ [kvs]) sets acc)" for acc
        using 8(3) by (intro fold_map) (simp add: each property_dict_distinct)
      moreover have "fold (\<lambda>kvs acc. acc @ [kvs]) sets acc = acc @ sets" for acc
        by (induction sets arbitrary: acc) simp_all
      moreover have "filter (\<lambda>item. el_number item = 1) ?items = ?items" by (rule filter_True) auto
      ultimately show ?thesis by (simp add: property_sets_def)
    qed
    then show ?case using items by (simp add: property_value_field_def)
  qed (simp_all add: property_value_field_def)
qed

lemma value_read_back:
  assumes "pred_option int_ok (pv_type v)" and "content_ok (pv_value v)" and "length (write_elements (value_elements v)) < 2 ^ 63"
  shows "read_property_value read_property_set (write_elements (value_elements v)) = Inr v"
proof -
  note field = property_value_field_def Let_def
  have 1: "pv_type s = None \<Longrightarrow> try_fold (property_value_field r) (opt (int_el 1) x) s = Inr (s\<lparr>pv_type := x\<rparr>)" for x r and s :: property_value
    by (rule fold_opt) (simp_all add: field)
  have 2: "\<not> pv_null s \<Longrightarrow> try_fold (property_value_field r) (flag 2 x) s = Inr (s\<lparr>pv_null := x\<rparr>)" for x r and s :: property_value
    by (simp add: flag_def field)
  have split: "write_elements (a @ b) = write_elements a @ write_elements b" for a b by (simp add: write_elements_def)
  have small: "length (write_elements (content_elements (pv_value v))) < 2 ^ 63" using assms(3) by (simp add: value_elements_def split)
  note content = content_read_back[OF assms(2) small]
  have "list_all element_fits (value_elements v)" using assms(1) content(1) by (simp add: value_elements_def)
  then have "nested (write_elements (value_elements v)) = Inr (value_elements v)" using assms(3) by (rule nested_written)
  moreover have "try_fold (property_value_field read_property_set) (value_elements v) \<lparr>pv_type = None, pv_value = NoContent, pv_null = False\<rparr> = Inr v"
    by (simp add: value_elements_def try_fold_append 1 2 content(2))
  ultimately show ?thesis by (simp add: read_property_value_def)
qed

lemma properties_read_back:
  assumes "property_ok kvs" and "length (write_elements (property_elements kvs)) < 2 ^ 63"
  shows "read_property_set (write_elements (property_elements kvs)) = Inr kvs"
proof -
  let ?es = "concat (map (\<lambda>p. [text_el 1 (fst p), len_el 2 (write_elements (value_elements (snd p)))]) kvs)"
  have "read_property_set (write_elements ?es) = Inr (map (\<lambda>p. (fst p, snd p)) kvs)"
  proof (rule read_property_set_back)
    show "length (write_elements ?es) < 2 ^ 63" using assms(2) by (simp add: property_elements_def)
    fix p assume p: "p \<in> set kvs"
    then have "len_el 2 (write_elements (value_elements (snd p))) \<in> set ?es" by auto
    then have "length (write_elements (value_elements (snd p))) < 2 ^ 63"
      by (rule part_small) (use assms(2) in \<open>simp add: property_elements_def\<close>)
    then show "text_ok (fst p) \<and> read_property_value read_property_set (write_elements (value_elements (snd p))) = Inr (snd p)"
      using assms(1) p by (auto simp: property_ok_def value_read_back)
  qed
  then show ?thesis by (simp add: property_elements_def)
qed

lemma dataset_read_back:
  assumes "dataset_ok d" and "length (write_elements (dataset_elements d)) < 2 ^ 63"
  shows "read_dataset (write_elements (dataset_elements d)) = Inr d"
proof -
  let ?cs = "ds_columns d"
  note field = dataset_field_def Let_def
  have 2: "try_fold dataset_field (map (\<lambda>c. text_el 2 (fst c)) cs) s = Inr (s\<lparr>st_columns := st_columns s @ map fst cs\<rparr>)"
    if "\<forall>c \<in> set cs. text_ok (fst c)" for cs :: "(unicode \<times> int option) list" and s
    using that by (induction cs arbitrary: s) (simp_all add: field)
  have 3: "try_fold dataset_field (concat (map (\<lambda>c. opt (int_el 3) (snd c)) cs)) s
      = Inr (s\<lparr>st_types := st_types s @ List.map_filter snd cs\<rparr>)" for cs :: "(unicode \<times> int option) list" and s
    by (induction cs arbitrary: s) (auto simp: field opt_def map_filter_simps int_el_def as_int_def split: option.splits)
  have 4: "try_fold dataset_field (replicate n (len_el 4 [])) s = Inr (s\<lparr>st_rows := st_rows s + int n\<rparr>)" for n s
    by (induction n arbitrary: s) (simp_all add: field)
  have types: "(\<forall>c \<in> set cs. snd c = None) \<Longrightarrow> List.map_filter snd cs = []"
    "(\<forall>c \<in> set cs. snd c \<noteq> None) \<Longrightarrow> List.map_filter snd cs = map (the \<circ> snd) cs" for cs :: "(unicode \<times> int option) list"
    by (induction cs) (auto simp: map_filter_simps split: option.splits)
  have fits: "list_all element_fits (dataset_elements d)"
  proof -
    have "length ?cs \<le> length (write_elements (dataset_elements d))"
      using written_length[of "dataset_elements d"] by (simp add: dataset_elements_def)
    then have "int_ok (int (length ?cs))" using assms(2) by (simp add: int_ok_def)
    moreover have "list_all element_fits (opt (int_el 3) (snd c))" if "c \<in> set ?cs" for c
      using assms(1) that by (simp add: dataset_ok_def)
    ultimately show ?thesis by (auto simp: dataset_elements_def list_all_iff)
  qed
  then have "nested (write_elements (dataset_elements d)) = Inr (dataset_elements d)" using assms(2) by (rule nested_written)
  moreover have "try_then (try_fold dataset_field (dataset_elements d) \<lparr>st_columns = [], st_types = [], st_rows = 0, st_declared = None\<rparr>)
      dataset_of = Inr d"
  proof -
    let ?st = "\<lparr>st_columns = map fst ?cs, st_types = List.map_filter snd ?cs, st_rows = ds_row_count d, st_declared = Some (int (length ?cs))\<rparr>"
    have "try_fold dataset_field (dataset_elements d) \<lparr>st_columns = [], st_types = [], st_rows = 0, st_declared = None\<rparr> = Inr ?st"
      using assms(1) by (simp add: dataset_elements_def dataset_ok_def try_fold_append 2 3 4 field)
    moreover have "dataset_of ?st = Inr d"
    proof (cases "\<forall>c \<in> set ?cs. snd c = None")
      case True
      have "map (\<lambda>(i, name). (name, None)) (enumerate 0 (map fst ?cs)) = ?cs"
        using True by (intro nth_equalityI) (auto simp: nth_enumerate_eq prod_eq_iff)
      then show ?thesis using True by (simp add: dataset_of_def types)
    next
      case False
      then have typed: "\<forall>c \<in> set ?cs. snd c \<noteq> None" using assms(1) by (auto simp: dataset_ok_def)
      have "map (\<lambda>(i, name). (name, if i < length ?cs then Some (map (the \<circ> snd) ?cs ! i) else None)) (enumerate 0 (map fst ?cs)) = ?cs"
        using typed by (intro nth_equalityI) (auto simp: nth_enumerate_eq prod_eq_iff)
      then show ?thesis using types(2)[OF typed] by (simp add: dataset_of_def)
    qed
    ultimately show ?thesis by simp
  qed
  ultimately show ?thesis by (simp add: read_dataset_def)
qed

lemma parameter_read_back:
  assumes "text_ok (fst p)" and "pred_option int_ok (snd p)" and "length (write_elements (text_el 1 (fst p) # opt (int_el 2) (snd p))) < 2 ^ 63"
  shows "read_parameter (write_elements (text_el 1 (fst p) # opt (int_el 2) (snd p))) = Inr p"
proof -
  have "nested (write_elements (text_el 1 (fst p) # opt (int_el 2) (snd p))) = Inr (text_el 1 (fst p) # opt (int_el 2) (snd p))"
    using assms by (intro nested_written) simp_all
  then show ?thesis using assms(1) by (cases p; cases "snd p") (simp_all add: read_parameter_def parameter_field_def opt_def)
qed

lemma value_field_numbers [simp]:
  "value_fields 10 = Some IntField" "value_fields 11 = Some LongField" "value_fields 12 = Some FloatField"
  "value_fields 13 = Some DoubleField" "value_fields 14 = Some BooleanField" "value_fields 15 = Some StringField"
  "value_fields 16 = Some BytesField" "value_fields 17 = Some DatasetField" "value_fields 18 = Some TemplateField"
  "value_fields 19 = Some ExtensionField"
  by (simp_all add: value_fields_def)

lemma scalar_read_back:
  assumes "scalar_ok f v"
  shows "list_all element_fits (scalar_elements f v)"
    and "try_fold (metric_field r) (scalar_elements f v) (h, t) = Inr (h\<lparr>mh_value_field := Some f, mh_value := Some v\<rparr>, t)"
  using assms by (cases v; auto simp: scalar_ok_def scalar_elements_def metric_field_def Let_def read_scalar_def)+

lemma result_read_back:
  assumes "head_ok h templated" and "length (write_elements (result_elements h)) < 2 ^ 63"
    and "mh_value_field s = None" "mh_value s = None" "mh_dataset s = None"
  shows "list_all element_fits (result_elements h)"
    and "try_fold (metric_field r) (result_elements h) (s, t)
      = Inr (s\<lparr>mh_value_field := if templated then None else mh_value_field h, mh_value := mh_value h, mh_dataset := mh_dataset h\<rparr>, t)"
proof -
  have dataset: "read_dataset (write_elements (dataset_elements d)) = Inr d" if "mh_dataset h = Some d" for d
  proof (rule dataset_read_back)
    show "dataset_ok d" using assms(1) that by (simp add: head_ok_def)
    show "length (write_elements (dataset_elements d)) < 2 ^ 63"
      using that by (intro part_small[OF _ assms(2), of 17]) (simp add: result_elements_def opt_def)
  qed
  show "list_all element_fits (result_elements h)"
    using assms(1) scalar_read_back(1)
    by (auto simp: result_elements_def head_ok_def option.pred_True split: option.splits if_splits)
  show "try_fold (metric_field r) (result_elements h) (s, t)
      = Inr (s\<lparr>mh_value_field := if templated then None else mh_value_field h, mh_value := mh_value h, mh_dataset := mh_dataset h\<rparr>, t)"
  proof (cases "mh_value_field h")
    case None
    then show ?thesis using assms(1,3-5) by (simp add: result_elements_def head_ok_def opt_def)
  next
    case (Some f)
    consider "f = DatasetField" | "f = TemplateField" | "f = ExtensionField" | "f \<notin> {DatasetField, TemplateField, ExtensionField}" by blast
    then show ?thesis
    proof cases
      case 1
      then obtain d where d: "mh_dataset h = Some d" "mh_value h = None" "\<not> templated" using assms(1) Some by (auto simp: head_ok_def)
      then show ?thesis
        using 1 Some dataset assms(4) by (simp add: result_elements_def opt_def metric_field_def Let_def)
    next
      case 2
      then show ?thesis using assms(1,3-5) Some by (simp add: result_elements_def head_ok_def opt_def)
    next
      case 3
      then show ?thesis using assms(1,3-5) Some by (simp add: result_elements_def head_ok_def opt_def metric_field_def Let_def)
    next
      case 4
      then obtain v where v: "mh_value h = Some v" "scalar_ok f v" "mh_dataset h = None" "\<not> templated"
        using assms(1) Some by (auto simp: head_ok_def split: option.splits)
      then show ?thesis using 4 Some assms(5) by (simp add: result_elements_def opt_def scalar_read_back(2))
    qed
  qed
qed

lemma write_elements_append [simp]: "write_elements (a @ b) = write_elements a @ write_elements b"
  by (simp add: write_elements_def)

lemma head_read_back:
  assumes "head_ok h templated" and "length (write_elements (head_elements h)) < 2 ^ 63"
  shows "list_all element_fits (head_elements h)"
    and "try_fold (metric_field r) (head_elements h) (empty_metric_head, None)
      = Inr (h\<lparr>mh_value_field := if templated then None else mh_value_field h\<rparr>, None)"
proof -
  note field = metric_field_def Let_def
  have small: "length (write_elements (result_elements h)) < 2 ^ 63" using assms(2) by (simp add: head_elements_def)
  have metadata: "read_metadata (write_elements (metadata_elements m)) = Inr m" if "mh_metadata h = Some m" for m
  proof (rule metadata_read_back)
    show "metadata_ok m" using assms(1) that by (simp add: head_ok_def)
    show "length (write_elements (metadata_elements m)) < 2 ^ 63"
      using that by (intro part_small[OF _ assms(2), of 8]) (simp add: head_elements_def opt_def)
  qed
  have properties: "read_property_set (write_elements (property_elements (mh_properties h))) = Inr (mh_properties h)" if "mh_properties h \<noteq> []"
  proof (rule properties_read_back)
    show "property_ok (mh_properties h)" using assms(1) by (simp add: head_ok_def)
    show "length (write_elements (property_elements (mh_properties h))) < 2 ^ 63"
      using that by (intro part_small[OF _ assms(2), of 9]) (simp add: head_elements_def)
  qed
  have 1: "mh_name s = None \<Longrightarrow> pred_option text_ok x \<Longrightarrow> try_fold (metric_field r) (opt (text_el 1) x) (s, t) = Inr (s\<lparr>mh_name := x\<rparr>, t)" for x s t
    by (cases x) (simp_all add: opt_def field)
  have 2: "mh_alias s = None \<Longrightarrow> try_fold (metric_field r) (opt (int_el 2) x) (s, t) = Inr (s\<lparr>mh_alias := x\<rparr>, t)" for x s t
    by (cases x) (simp_all add: opt_def field)
  have 3: "mh_timestamp s = None \<Longrightarrow> try_fold (metric_field r) (opt (int_el 3) x) (s, t) = Inr (s\<lparr>mh_timestamp := x\<rparr>, t)" for x s t
    by (cases x) (simp_all add: opt_def field)
  have 4: "mh_datatype s = None \<Longrightarrow> try_fold (metric_field r) (opt (int_el 4) x) (s, t) = Inr (s\<lparr>mh_datatype := x\<rparr>, t)" for x s t
    by (cases x) (simp_all add: opt_def field)
  have 5: "\<not> mh_historical s \<Longrightarrow> try_fold (metric_field r) (flag 5 x) (s, t) = Inr (s\<lparr>mh_historical := x\<rparr>, t)" for x s t
    by (simp add: flag_def field)
  have 6: "\<not> mh_transient s \<Longrightarrow> try_fold (metric_field r) (flag 6 x) (s, t) = Inr (s\<lparr>mh_transient := x\<rparr>, t)" for x s t
    by (simp add: flag_def field)
  have 7: "\<not> mh_null s \<Longrightarrow> try_fold (metric_field r) (flag 7 x) (s, t) = Inr (s\<lparr>mh_null := x\<rparr>, t)" for x s t
    by (simp add: flag_def field)
  have 8: "mh_metadata s = None \<Longrightarrow> try_fold (metric_field r) (opt (\<lambda>m. len_el 8 (write_elements (metadata_elements m))) (mh_metadata h)) (s, t)
      = Inr (s\<lparr>mh_metadata := mh_metadata h\<rparr>, t)" for s t
    using metadata by (cases "mh_metadata h") (simp_all add: opt_def field)
  have 9: "mh_properties s = [] \<Longrightarrow> try_fold (metric_field r)
      (if mh_properties h = [] then [] else [len_el 9 (write_elements (property_elements (mh_properties h)))]) (s, t)
      = Inr (s\<lparr>mh_properties := mh_properties h\<rparr>, t)" for s t
    using properties by (simp add: field)
  note result = result_read_back[OF assms(1) small]
  have "list_all element_fits (result_elements h)" by (rule result(1)[of empty_metric_head]) (simp_all add: empty_metric_head_def)
  then show "list_all element_fits (head_elements h)"
    using assms(1) by (simp add: head_elements_def head_ok_def option.pred_True)
  show "try_fold (metric_field r) (head_elements h) (empty_metric_head, None)
      = Inr (h\<lparr>mh_value_field := if templated then None else mh_value_field h\<rparr>, None)"
    using assms(1) unfolding head_elements_def head_ok_def
    by (simp add: try_fold_append 1 2 3 4 5 6 7 8 9 result(2) empty_metric_head_def)
qed

lemma metric_read_back:
  "metric_ok m \<Longrightarrow> length (write_elements (metric_elements m)) < 2 ^ 63 \<Longrightarrow> read_metric (write_elements (metric_elements m)) = Inr m"
  "template_ok t \<Longrightarrow> length (write_elements (template_elements t)) < 2 ^ 63 \<Longrightarrow>
     read_template read_metric (write_elements (template_elements t)) = Inr t"
proof (induction m and t rule: metric_elements_template_elements.induct)
  case (1 h t)
  let ?es = "metric_elements (SparkplugMetric h t)"
  have head: "head_ok h (t \<noteq> None)" "length (write_elements (head_elements h)) < 2 ^ 63" using 1(2,3) by simp_all
  note head_back = head_read_back(1)[OF head] head_read_back(2)[OF head, of "read_template read_metric"]
  have "list_all element_fits ?es" using head_back(1) by (auto split: option.splits)
  then have nested: "nested (write_elements ?es) = Inr ?es" using 1(3) by (rule nested_written)
  have "try_fold (metric_field (read_template read_metric)) ?es (empty_metric_head, None) = Inr (h, t)"
  proof (cases t)
    case None
    then show ?thesis using head_back(2) by simp
  next
    case (Some u)
    have "length (write_elements (template_elements u)) < 2 ^ 63" using Some by (intro part_small[OF _ 1(3), of 18]) simp
    then have "read_template read_metric (write_elements (template_elements u)) = Inr u" using 1(1,2) Some by simp
    moreover have "mh_value_field h = Some TemplateField" using 1(2) Some by (simp add: head_ok_def)
    ultimately show ?thesis using head_back(2) Some by (simp add: try_fold_append metric_field_def Let_def)
  qed
  then show ?case by (subst read_metric.simps) (simp add: metric_of_def nested del: metric_elements.simps)
next
  case (2 h ms)
  let ?es = "template_elements (SparkplugTemplate h ms)"
  note field = template_field_def Let_def
  have ms: "read_metric (write_elements (metric_elements m)) = Inr m" if m: "m \<in> set ms" for m
  proof (rule 2(1)[OF m])
    show "metric_ok m" using 2(2) m by simp
    show "length (write_elements (metric_elements m)) < 2 ^ 63" using m by (intro part_small[OF _ 2(3), of 2]) simp
  qed
  have params: "read_parameter (write_elements (text_el 1 (fst p) # opt (int_el 2) (snd p))) = Inr p" if p: "p \<in> set (tm_parameters h)" for p
  proof (rule parameter_read_back)
    show "text_ok (fst p)" "pred_option int_ok (snd p)" using 2(2) p by simp_all
    show "length (write_elements (text_el 1 (fst p) # opt (int_el 2) (snd p))) < 2 ^ 63"
      using p by (intro part_small[OF _ 2(3), of 3]) simp
  qed
  have "list_all element_fits ?es" using 2(2) by (simp add: list_all_iff[of _ "map _ _"] option.pred_True)
  then have nested: "nested (write_elements ?es) = Inr ?es" using 2(3) by (rule nested_written)
  have 1: "tm_version s = None \<Longrightarrow> pred_option text_ok x \<Longrightarrow> try_fold (template_field read_metric) (opt (text_el 1) x) (s, a) = Inr (s\<lparr>tm_version := x\<rparr>, a)" for x s a
    by (cases x) (simp_all add: opt_def field)
  have m: "try_fold (template_field read_metric) (map (\<lambda>m. len_el 2 (write_elements (metric_elements m))) xs) (s, a) = Inr (s, a @ xs)"
    if "set xs \<subseteq> set ms" for xs s a
    using that ms by (induction xs arbitrary: a) (simp_all add: field)
  have ps: "try_fold (template_field read_metric) (map (\<lambda>p. len_el 3 (write_elements (text_el 1 (fst p) # opt (int_el 2) (snd p)))) ps) (s, a)
      = Inr (s\<lparr>tm_parameters := tm_parameters s @ ps\<rparr>, a)" if "set ps \<subseteq> set (tm_parameters h)" for ps s a
    using that params by (induction ps arbitrary: s) (simp_all add: field)
  have 4: "tm_ref s = None \<Longrightarrow> pred_option text_ok x \<Longrightarrow> try_fold (template_field read_metric) (opt (text_el 4) x) (s, a) = Inr (s\<lparr>tm_ref := x\<rparr>, a)" for x s a
    by (cases x) (simp_all add: opt_def field)
  have 5: "\<not> tm_is_definition s \<Longrightarrow> try_fold (template_field read_metric) (flag 5 x) (s, a) = Inr (s\<lparr>tm_is_definition := x\<rparr>, a)" for x s a
    by (simp add: flag_def field)
  have "try_fold (template_field read_metric) ?es (empty_template_head, []) = Inr (h, ms)"
    using 2(2) by (simp add: try_fold_append 1 m ps 4 5 empty_template_head_def)
  then show ?case by (simp add: read_template_def nested del: template_elements.simps)
qed

lemma payload_read_back:
  assumes "payload_ok p"
  shows "decode_payload (write_payload p) = Inr p"
proof -
  let ?es = "opt (int_el 1) (pl_timestamp p) @ map (\<lambda>m. len_el 2 (write_elements (metric_elements m))) (pl_metrics p)
     @ opt (int_el 3) (pl_seq p) @ opt (text_el 4) (pl_uuid p) @ opt (\<lambda>n. len_el 5 (replicate (nat n) 0)) (pl_body_length p)"
  have written: "write_payload p = write_elements ?es" by (simp add: write_payload_def)
  have bound: "length (write_elements ?es) < 2 ^ 63" using assms unfolding payload_ok_def written by blast
  note field = payload_field_def Let_def
  have ms: "read_metric (write_elements (metric_elements m)) = Inr m" if m: "m \<in> set (pl_metrics p)" for m
  proof (rule metric_read_back(1))
    show "metric_ok m" using assms m by (simp add: payload_ok_def)
    show "length (write_elements (metric_elements m)) < 2 ^ 63" using m by (intro part_small[OF _ bound, of 2]) simp
  qed
  have 1: "pl_timestamp s = None \<Longrightarrow> try_fold payload_field (opt (int_el 1) x) s = Inr (s\<lparr>pl_timestamp := x\<rparr>)" for x s
    by (cases x) (simp_all add: opt_def field)
  have 2: "try_fold payload_field (map (\<lambda>m. len_el 2 (write_elements (metric_elements m))) xs) s = Inr (s\<lparr>pl_metrics := pl_metrics s @ xs\<rparr>)"
    if "set xs \<subseteq> set (pl_metrics p)" for xs s
    using that ms by (induction xs arbitrary: s) (simp_all add: field)
  have 3: "pl_seq s = None \<Longrightarrow> try_fold payload_field (opt (int_el 3) x) s = Inr (s\<lparr>pl_seq := x\<rparr>)" for x s
    by (cases x) (simp_all add: opt_def field)
  have 4: "pl_uuid s = None \<Longrightarrow> pred_option text_ok x \<Longrightarrow> try_fold payload_field (opt (text_el 4) x) s = Inr (s\<lparr>pl_uuid := x\<rparr>)" for x s
    by (cases x) (simp_all add: opt_def field)
  have 5: "pl_body_length s = None \<Longrightarrow> (case x of None \<Rightarrow> True | Some n \<Rightarrow> 0 \<le> n) \<Longrightarrow>
      try_fold payload_field (opt (\<lambda>n. len_el 5 (replicate (nat n) 0)) x) s = Inr (s\<lparr>pl_body_length := x\<rparr>)" for x s
    by (cases x) (simp_all add: opt_def field)
  have "list_all element_fits ?es" using assms by (simp add: payload_ok_def list_all_iff[of _ "map _ _"] option.pred_True)
  then have nested: "nested (write_elements ?es) = Inr ?es" using bound by (rule nested_written)
  then have "elements (write_payload p) = Inr ?es" unfolding written by (auto simp: nested_def split: sum.splits wire_fault.splits)
  moreover have "try_fold payload_field ?es (empty_payload (int (length (write_payload p)))) = Inr p"
    using assms by (simp add: payload_ok_def try_fold_append 1 2 3 4 5 empty_payload_def)
  moreover have "write_payload p \<noteq> []" using assms by (simp add: payload_ok_def)
  ultimately show ?thesis by (simp add: decode_payload_def)
qed

section \<open>Properties\<close>

definition sample_metric :: sparkplug_metric where
  "sample_metric = SparkplugMetric (empty_metric_head\<lparr>mh_name := Some [116, 0xE9], mh_alias := Some 200, mh_datatype := Some 12,
     mh_metadata := Some (empty_metadata\<lparr>md_size := Some 7\<rparr>),
     mh_properties := [([107], \<lparr>pv_type = Some 3, pv_value = SetContent [([97], BoolContent True)], pv_null = False\<rparr>)],
     mh_value_field := Some TemplateField\<rparr>)
     (Some (SparkplugTemplate (empty_template_head\<lparr>tm_is_definition := True\<rparr>)
       [SparkplugMetric (empty_metric_head\<lparr>mh_alias := Some 5, mh_value_field := Some LongField, mh_value := Some (ScalarInt 128)\<rparr>) None]))"

definition sample_payload :: sparkplug_payload where
  "sample_payload = \<lparr>pl_timestamp = Some 150, pl_metrics = [sample_metric], pl_seq = Some 1, pl_uuid = None,
     pl_body_length = Some 3, pl_unknown = 0, pl_size = 56\<rparr>"


lemma sample_length: "length (write_payload sample_payload) = 56"
  by code_simp


text \<open>C10: A payload that was cut off is never called malformed: it is reported as empty or truncated, or, if
  the cut falls between two elements, read with the metrics that came before it.\<close>

theorem cut_payload_is_not_malformed:
  assumes "decode_payload data = Inr p"
  shows "decode_payload (take n data) \<in> {Inl InputEmpty, Inl InputTruncated}
    \<or> (\<exists>q ms. decode_payload (take n data) = Inr q \<and> pl_metrics p = pl_metrics q @ ms)"
  by (rule payload_cut[OF assms])

lemma cut_payload_is_not_malformed_witness:
  "decode_payload (take 9 [8, 200, 1, 18, 4, 16, 5, 32, 3]) \<in> {Inl InputEmpty, Inl InputTruncated}
    \<or> (\<exists>q ms. decode_payload (take 9 [8, 200, 1, 18, 4, 16, 5, 32, 3]) = Inr q
      \<and> pl_metrics (the (case decode_payload [8, 200, 1, 18, 4, 16, 5, 32, 3] of Inr p \<Rightarrow> Some p | _ \<Rightarrow> None)) = pl_metrics q @ ms)"
proof -
  let ?p = "\<lparr>pl_timestamp = Some 200, pl_metrics = [SparkplugMetric (empty_metric_head\<lparr>mh_alias := Some 5, mh_datatype := Some 3\<rparr>) None],
    pl_seq = None, pl_uuid = None, pl_body_length = None, pl_unknown = 0, pl_size = 9\<rparr>"
  have read: "decode_payload [8, 200, 1, 18, 4, 16, 5, 32, 3] = Inr ?p" by code_simp
  from cut_payload_is_not_malformed[OF read, of 9] show ?thesis unfolding read by simp
qed

text \<open>A field outside the schema is skipped wherever it stands between two elements: the payload, or the
  error, is the same, but for the count of skipped fields and the size.\<close>

theorem unknown_fields_are_skipped:
  assumes "elements a = Inr xs" and "element_ok u" and "el_number u \<notin> {1, 2, 3, 4, 5}" and "a @ b \<noteq> []"
  shows "decode_payload (a @ write_element u @ b) = map_sum id
    (\<lambda>p. p\<lparr>pl_unknown := pl_unknown p + 1, pl_size := pl_size p + int (length (write_element u))\<rparr>) (decode_payload (a @ b))"
  by (rule unknown_element_skipped[OF assms])

lemma unknown_fields_are_skipped_witness:
  "decode_payload ([8, 200, 1] @ write_element \<lparr>el_number = 100, el_value = Fixed32 [1, 2, 3, 4]\<rparr> @ [24, 7]) = map_sum id
    (\<lambda>p. p\<lparr>pl_unknown := pl_unknown p + 1, pl_size := pl_size p + int (length (write_element \<lparr>el_number = 100, el_value = Fixed32 [1, 2, 3, 4]\<rparr>))\<rparr>)
    (decode_payload ([8, 200, 1] @ [24, 7]))"
proof (rule unknown_fields_are_skipped)
  show "elements [8, 200, 1] = Inr [\<lparr>el_number = 1, el_value = Varint 200\<rparr>]" by code_simp
qed (simp_all add: element_ok_def)

text \<open>A ten-byte varint is not reduced to 64 bits.\<close>

lemma varint_beyond_64_bits: "varint [255, 255, 255, 255, 255, 255, 255, 255, 255, 127] = Inr (2 ^ 70 - 1, [])"
  by code_simp

end
