(* ===== verification/Copybook.thy ===== *)
theory Copybook
  imports Semver
begin

text \<open>
  The storage layout of a COBOL copybook (\<open>cobolcopybook_layout.py\<close>): the size of an item from its
  PICTURE and USAGE, and the single walk that gives every item its offset and lengths, or leaves them
  unknown. The source keys the layouts by the identity of the items; here an item is known by its
  position, the list of child numbers that leads to it, and the layouts are listed in the order the
  walk records them. Pictures and usages are ASCII. Reasons are a datatype instead of sentences; of an
  item its level number and its condition names, which the layout does not read, are left out.
\<close>

section \<open>Items\<close>

datatype cobol_field = CobolField (cf_name: string) (cf_picture: "string option") (cf_usage: "string option")
  (cf_occurs_min: "int option") (cf_occurs_max: "int option") (cf_depending_on: "string option") (cf_redefines: "string option")
  (cf_children: "cobol_field list")

datatype size_basis = BasisDisplay | BasisPacked | BasisBinary | BasisFloat

datatype size_reason = NoPicture | UnsizedPicture string | NoDigits string | TooManyDigits string int | UnsizedUsage string | UnknownPart

record picture_size =
  pz_length :: "int option"
  pz_digits :: "int option"
  pz_decimals :: "int option"
  pz_signed :: bool
  pz_basis :: "size_basis option"
  pz_reason :: "size_reason option"

record field_layout =
  fl_offset :: "int option"
  fl_length :: "int option"
  fl_total :: "int option"
  fl_min_total :: "int option"
  fl_offset_variable :: bool
  fl_variable :: bool
  fl_picture :: "picture_size option"
  fl_redefines :: "string option"
  fl_reason :: "size_reason option"

section \<open>Pictures\<close>

definition upper_char :: "char \<Rightarrow> char" where
  "upper_char c = (let n = (of_char c :: nat) in if 97 \<le> n \<and> n \<le> 122 then char_of (n - 32) else c)"

definition upper :: "string \<Rightarrow> string" where
  "upper s = map upper_char s"

definition normalize_usage :: "string option \<Rightarrow> string" where
  "normalize_usage usage = map (\<lambda>c. if c = CHR ''_'' then CHR ''-'' else c) (upper (strip (case usage of None \<Rightarrow> [] | Some u \<Rightarrow> u)))"

definition packed_usages :: "string list" where
  "packed_usages = [''COMP-3'', ''COMPUTATIONAL-3'', ''PACKED-DECIMAL'']"

definition binary_usages :: "string list" where
  "binary_usages = [''COMP'', ''COMP-4'', ''COMPUTATIONAL'', ''COMPUTATIONAL-4'', ''BINARY'']"

definition float_usages :: "(string, int) dict" where
  "float_usages = [(''COMP-1'', 4), (''COMPUTATIONAL-1'', 4), (''COMP-2'', 8), (''COMPUTATIONAL-2'', 8)]"

definition binary_widths :: "(int \<times> int) list" where
  "binary_widths = [(4, 2), (9, 4), (18, 8)]"

definition picture_symbol :: "char \<Rightarrow> bool" where
  "picture_symbol c \<longleftrightarrow> (let n = (of_char c :: nat) in 65 \<le> n \<and> n \<le> 90 \<or> 97 \<le> n \<and> n \<le> 122) \<or> c \<in> set ''9/,.+-*$''"

definition sized_symbols :: string where
  "sized_symbols = ''9XAZ0/,.+-*$BEGP''"

definition digit_symbols :: string where
  "digit_symbols = ''9Z*''"

text \<open>The optional \<open>(n)\<close> after a symbol, and what follows it.\<close>

definition repeat_count :: "string \<Rightarrow> (int \<times> string) option" where
  "repeat_count s =
     (case s of
        [] \<Rightarrow> None
      | c # t \<Rightarrow>
          (let ds = takeWhile is_digit t; rest = dropWhile is_digit t
           in if c = CHR ''('' \<and> ds \<noteq> [] \<and> rest \<noteq> [] \<and> hd rest = CHR '')'' then Some (digits_val ds, tl rest) else None))"

record picture_scan =
  ps_positions :: int
  ps_digits :: int
  ps_decimals :: int
  ps_signed :: bool
  ps_after_v :: bool
  ps_understood :: bool

definition count_symbol :: "char \<Rightarrow> int \<Rightarrow> picture_scan \<Rightarrow> picture_scan" where
  "count_symbol symbol n s =
     (if symbol \<notin> set sized_symbols then s\<lparr>ps_understood := False\<rparr>
      else let s = s\<lparr>ps_positions := ps_positions s + n\<rparr>
        in if symbol \<in> set digit_symbols
           then s\<lparr>ps_digits := ps_digits s + n, ps_decimals := ps_decimals s + (if ps_after_v s then n else 0)\<rparr>
           else s)"

lemma repeat_count_shorter: "repeat_count s = Some (n, rest) \<Longrightarrow> length rest < length s"
  using length_dropWhile_le[of is_digit "tl s"]
  by (cases s) (auto simp: repeat_count_def Let_def split: if_splits)

function scan_symbols :: "string \<Rightarrow> picture_scan \<Rightarrow> picture_scan" where
  "scan_symbols [] s = s"
| "scan_symbols (c # t) s =
     (if c = CHR ''S'' then scan_symbols t (s\<lparr>ps_signed := True\<rparr>)
      else if c = CHR ''V'' then scan_symbols t (s\<lparr>ps_after_v := True\<rparr>)
      else if \<not> picture_symbol c then scan_symbols t (s\<lparr>ps_understood := False\<rparr>)
      else (case repeat_count t of
          Some (n, rest) \<Rightarrow> scan_symbols rest (count_symbol c n s)
        | None \<Rightarrow> scan_symbols t (count_symbol c 1 s)))"
  by pat_completeness auto
termination by (relation "measure (length \<circ> fst)") (auto dest: repeat_count_shorter)

definition read_symbols :: "string \<Rightarrow> picture_scan" where
  "read_symbols picture =
     (let t = rev (dropWhile (\<lambda>c. c = CHR ''.'') (rev (upper (strip picture))))
      in scan_symbols t \<lparr>ps_positions = 0, ps_digits = 0, ps_decimals = 0, ps_signed = False, ps_after_v = False, ps_understood = t \<noteq> []\<rparr>)"

definition nonzero :: "int \<Rightarrow> int option" where
  "nonzero n = (if n = 0 then None else Some n)"

definition unsized :: "picture_scan \<Rightarrow> size_reason \<Rightarrow> picture_size" where
  "unsized s reason = \<lparr>pz_length = None, pz_digits = nonzero (ps_digits s), pz_decimals = nonzero (ps_decimals s),
     pz_signed = ps_signed s, pz_basis = None, pz_reason = Some reason\<rparr>"

definition size_picture :: "string option \<Rightarrow> string option \<Rightarrow> picture_size" where
  "size_picture picture usage =
     (let u = normalize_usage usage
      in case map_of float_usages u of
        Some n \<Rightarrow> \<lparr>pz_length = Some n, pz_digits = None, pz_decimals = None, pz_signed = False, pz_basis = Some BasisFloat, pz_reason = None\<rparr>
      | None \<Rightarrow>
          (let text = strip (case picture of None \<Rightarrow> [] | Some p \<Rightarrow> p)
           in if text = []
              then \<lparr>pz_length = None, pz_digits = None, pz_decimals = None, pz_signed = False, pz_basis = None, pz_reason = Some NoPicture\<rparr>
              else let s = read_symbols (the picture); digits = ps_digits s;
                  sized = (\<lambda>n basis. \<lparr>pz_length = Some n, pz_digits = Some digits, pz_decimals = Some (ps_decimals s),
                     pz_signed = ps_signed s, pz_basis = Some basis, pz_reason = None\<rparr>)
                in if \<not> ps_understood s \<or> ps_positions s = 0 then unsized s (UnsizedPicture text)
                   else if u \<in> set packed_usages \<and> digits = 0 \<or> u \<in> set binary_usages \<and> digits = 0
                     then \<lparr>pz_length = None, pz_digits = None, pz_decimals = None, pz_signed = ps_signed s, pz_basis = None,
                       pz_reason = Some (NoDigits text)\<rparr>
                   else if u \<in> set packed_usages then sized (digits div 2 + 1) BasisPacked
                   else if u \<in> set binary_usages
                     then (case find (\<lambda>(ceiling, _). digits \<le> ceiling) binary_widths of
                         Some (_, width) \<Rightarrow> sized width BasisBinary
                       | None \<Rightarrow> \<lparr>pz_length = None, pz_digits = Some digits, pz_decimals = Some (ps_decimals s), pz_signed = ps_signed s,
                           pz_basis = None, pz_reason = Some (TooManyDigits text digits)\<rparr>)
                   else if u \<noteq> [] \<and> u \<noteq> ''DISPLAY'' then unsized s (UnsizedUsage u)
                   else \<lparr>pz_length = Some (ps_positions s), pz_digits = nonzero digits, pz_decimals = nonzero (ps_decimals s),
                     pz_signed = ps_signed s, pz_basis = Some BasisDisplay, pz_reason = None\<rparr>))"

section \<open>Layout\<close>

definition occurrence_bounds :: "int option \<Rightarrow> int option \<Rightarrow> int \<times> int \<times> bool" where
  "occurrence_bounds occurs_min occurs_max =
     (case occurs_max of
        None \<Rightarrow> (1, 1, False)
      | Some hi \<Rightarrow> (let lo = (case occurs_min of Some m \<Rightarrow> m | None \<Rightarrow> hi) in (lo, hi, lo \<noteq> hi)))"

definition multiply :: "int option \<Rightarrow> int \<Rightarrow> int option" where
  "multiply len k = map_option (\<lambda>n. n * k) len"

definition plus :: "int option \<Rightarrow> int option \<Rightarrow> int option" where
  "plus a b = (case (a, b) of (Some x, Some y) \<Rightarrow> Some (x + y) | _ \<Rightarrow> None)"

text \<open>\<open>child.redefines\<close>, absent when empty.\<close>

definition redefined :: "cobol_field \<Rightarrow> string option" where
  "redefined f = (case cf_redefines f of Some n \<Rightarrow> if n = [] then None else Some n | None \<Rightarrow> None)"

record group_state =
  gs_placed :: "(string, int option \<times> bool) dict"
  gs_cursor :: "int option"
  gs_cursor_variable :: bool
  gs_total :: "int option"
  gs_min_total :: "int option"
  gs_variable :: bool
  gs_reason :: "size_reason option"

definition place_child :: "string \<Rightarrow> field_layout \<Rightarrow> group_state \<Rightarrow> group_state" where
  "place_child name l s =
     (let cursor = gs_cursor s; cv = gs_cursor_variable s;
          s = s\<lparr>gs_placed := AList.update name (fl_offset l, cv) (gs_placed s),
            gs_variable := gs_variable s \<or> fl_variable l,
            gs_reason := (if fl_reason l \<noteq> None \<and> gs_reason s = None then fl_reason l else gs_reason s),
            gs_total := plus (gs_total s) (fl_total l), gs_min_total := plus (gs_min_total s) (fl_min_total l)\<rparr>
      in if fl_variable l then s\<lparr>gs_cursor := None, gs_cursor_variable := True\<rparr>
         else if cursor \<noteq> None \<and> fl_total l \<noteq> None then s\<lparr>gs_cursor := plus cursor (fl_total l)\<rparr>
         else s\<lparr>gs_cursor := None, gs_cursor_variable := cv \<or> fl_total l = None\<rparr>)"

type_synonym position = "nat list"

fun lay_out :: "position \<Rightarrow> cobol_field \<Rightarrow> int option \<Rightarrow> bool \<Rightarrow> field_layout \<times> (position \<times> field_layout) list"
  and lay_out_children :: "position \<Rightarrow> nat \<Rightarrow> cobol_field list \<Rightarrow> group_state \<Rightarrow> group_state \<times> (position \<times> field_layout) list" where
  "lay_out pos (CobolField name picture usage lo hi depending redefs children) start offset_variable =
       (case occurrence_bounds lo hi of (minimum, maximum, table_variable) \<Rightarrow>
         let (size, single, min_single, children_variable, reason, inner) =
           (if children \<noteq> []
            then (case lay_out_children pos 0 children \<lparr>gs_placed = [], gs_cursor = start, gs_cursor_variable = offset_variable,
                gs_total = Some 0, gs_min_total = Some 0, gs_variable = False, gs_reason = None\<rparr> of
                (s, inner) \<Rightarrow> (None, gs_total s, gs_min_total s, gs_variable s,
                  if gs_total s = None \<and> gs_reason s = None then Some UnknownPart else gs_reason s, inner))
            else (let size = size_picture picture usage in (Some size, pz_length size, pz_length size, False, pz_reason size, [])));
           layout = \<lparr>fl_offset = (if offset_variable then None else start), fl_length = single, fl_total = multiply single maximum,
             fl_min_total = multiply min_single minimum, fl_offset_variable = offset_variable,
             fl_variable = (table_variable \<or> children_variable), fl_picture = size, fl_redefines = redefs, fl_reason = reason\<rparr>
         in (layout, inner @ [(pos, layout)]))"
| "lay_out_children pos i [] s = (s, [])"
| "lay_out_children pos i (child # rest) s =
     (case redefined child of
        Some target \<Rightarrow>
          (case dict_default (gs_placed s) target (None, True) of (target_offset, target_variable) \<Rightarrow>
             (case lay_out_children pos (Suc i) rest s of (s, outer) \<Rightarrow>
                (s, snd (lay_out (pos @ [i]) child target_offset target_variable) @ outer)))
      | None \<Rightarrow>
          (case lay_out (pos @ [i]) child (gs_cursor s) (gs_cursor_variable s) of (l, inner) \<Rightarrow>
             (case lay_out_children pos (Suc i) rest (place_child (cf_name child) l s) of (s, outer) \<Rightarrow> (s, inner @ outer))))"

definition compute_layout :: "cobol_field \<Rightarrow> (position \<times> field_layout) list" where
  "compute_layout copybook = snd (lay_out [] copybook (Some 1) False)"

definition record_length_range :: "field_layout \<Rightarrow> int option \<times> int option" where
  "record_length_range l = (fl_min_total l, fl_total l)"

fun field_names :: "cobol_field \<Rightarrow> string list" where
  "field_names (CobolField name picture usage lo hi depending redefs children) = name # concat (map field_names children)"

fun odo_controllers :: "cobol_field \<Rightarrow> string list" where
  "odo_controllers (CobolField name picture usage lo hi depending redefs children) =
     (case depending of None \<Rightarrow> [] | Some d \<Rightarrow> if d = [] then [] else [d]) @ concat (map odo_controllers children)"

definition resolve_odo_controllers :: "cobol_field \<Rightarrow> (string, bool) dict" where
  "resolve_odo_controllers copybook = fold (\<lambda>d. AList.update d (d \<in> set (field_names copybook))) (odo_controllers copybook) []"

end
