(* ===== verification/CopybookSound.thy ===== *)
theory CopybookSound
  imports Copybook
begin

text \<open>
  What a layout promises (\<open>cobolcopybook_layout.py\<close>). The reference is the storage a record has at run
  time, once every variable table has its number of occurrences: \<open>extent\<close> is the room an item takes
  and \<open>storage\<close> lists, in the order of the layout, where every item starts and how much room it takes.
  The layout is an abstraction of it: an offset it reports is the start of the item in every record,
  and the two lengths bound the room of the item from both sides. For copybooks whose tables are all
  fixed it is exact.
\<close>

section \<open>The storage of one record\<close>

text \<open>The number of occurrences of every item, by its position.\<close>

type_synonym occurrences = "position \<Rightarrow> int"

fun extent :: "occurrences \<Rightarrow> position \<Rightarrow> cobol_field \<Rightarrow> int option"
  and extents :: "occurrences \<Rightarrow> position \<Rightarrow> nat \<Rightarrow> cobol_field list \<Rightarrow> int option" where
  "extent c pos (CobolField name picture usage lo hi depending redefs children) =
     multiply (if children = [] then pz_length (size_picture picture usage) else extents c pos 0 children) (c pos)"
| "extents c pos i [] = Some 0"
| "extents c pos i (child # rest) =
     (if redefined child = None then plus (extent c (pos @ [i]) child) (extents c pos (Suc i) rest) else extents c pos (Suc i) rest)"

fun storage :: "occurrences \<Rightarrow> position \<Rightarrow> cobol_field \<Rightarrow> int option \<Rightarrow> (position \<times> int option \<times> int option) list"
  and storage_children :: "occurrences \<Rightarrow> position \<Rightarrow> nat \<Rightarrow> cobol_field list \<Rightarrow> (string, int option) dict \<Rightarrow> int option
     \<Rightarrow> (position \<times> int option \<times> int option) list" where
  "storage c pos (CobolField name picture usage lo hi depending redefs children) start =
     (if children = [] then [] else storage_children c pos 0 children [] start)
       @ [(pos, start, extent c pos (CobolField name picture usage lo hi depending redefs children))]"
| "storage_children c pos i [] starts cursor = []"
| "storage_children c pos i (child # rest) starts cursor =
     (case redefined child of
        Some target \<Rightarrow> storage c (pos @ [i]) child (dict_default starts target None) @ storage_children c pos (Suc i) rest starts cursor
      | None \<Rightarrow> storage c (pos @ [i]) child cursor
          @ storage_children c pos (Suc i) rest (AList.update (cf_name child) cursor starts) (plus cursor (extent c (pos @ [i]) child)))"

text \<open>Every item's declared bounds and its occurrences are related by \<open>R\<close>.\<close>

fun counts_ok :: "(int \<Rightarrow> int \<Rightarrow> int \<Rightarrow> bool) \<Rightarrow> occurrences \<Rightarrow> position \<Rightarrow> cobol_field \<Rightarrow> bool"
  and counts_ok_children :: "(int \<Rightarrow> int \<Rightarrow> int \<Rightarrow> bool) \<Rightarrow> occurrences \<Rightarrow> position \<Rightarrow> nat \<Rightarrow> cobol_field list \<Rightarrow> bool" where
  "counts_ok R c pos (CobolField name picture usage lo hi depending redefs children) \<longleftrightarrow>
     R (fst (occurrence_bounds lo hi)) (fst (snd (occurrence_bounds lo hi))) (c pos) \<and> counts_ok_children R c pos 0 children"
| "counts_ok_children R c pos i [] \<longleftrightarrow> True"
| "counts_ok_children R c pos i (child # rest) \<longleftrightarrow> counts_ok R c (pos @ [i]) child \<and> counts_ok_children R c pos (Suc i) rest"

section \<open>Picture lengths\<close>

lemma repeat_count_nonneg: "repeat_count s = Some (n, rest) \<Longrightarrow> 0 \<le> n"
  by (auto simp: repeat_count_def Let_def list_all_iff intro!: digits_val_nonneg dest: set_takeWhileD split: list.splits if_splits)

lemma count_symbol_nonneg:
  "0 \<le> n \<Longrightarrow> 0 \<le> ps_positions s \<and> 0 \<le> ps_digits s
     \<Longrightarrow> 0 \<le> ps_positions (count_symbol symbol n s) \<and> 0 \<le> ps_digits (count_symbol symbol n s)"
  by (simp add: count_symbol_def Let_def)

lemma scan_symbols_nonneg:
  "0 \<le> ps_positions s \<and> 0 \<le> ps_digits s \<Longrightarrow> 0 \<le> ps_positions (scan_symbols t s) \<and> 0 \<le> ps_digits (scan_symbols t s)"
proof (induction t s rule: scan_symbols.induct)
  case (2 c t s)
  have "0 \<le> n" if "repeat_count t = Some (n, rest)" for n rest
    using that by (rule repeat_count_nonneg)
  then show ?case
    using 2 count_symbol_nonneg[of 1 s c] by (auto simp: count_symbol_nonneg simp del: neq0_conv split: option.split)
qed simp

lemma read_symbols_nonneg: "0 \<le> ps_positions (read_symbols p) \<and> 0 \<le> ps_digits (read_symbols p)"
  by (simp add: read_symbols_def Let_def scan_symbols_nonneg)

lemma size_picture_nonneg: "pz_length (size_picture picture usage) = Some n \<Longrightarrow> 0 \<le> n"
  using read_symbols_nonneg[of "the picture"]
  by (auto simp: size_picture_def Let_def unsized_def float_usages_def binary_widths_def split: option.splits if_splits)

section \<open>Lengths\<close>

lemma plus_simps [simp]: "plus (Some 0) a = a" "plus a (Some 0) = a" "plus (plus a b) d = plus a (plus b d)" "plus None a = None"
  "plus a None = None" "plus (Some x) (Some y) = Some (x + y)"
  by (auto simp: plus_def split: option.splits)

lemma multiply_simps [simp]: "multiply None k = None" "multiply (Some n) k = Some (n * k)"
  by (simp_all add: multiply_def)

lemma occurrence_bounds_variable: "snd (snd (occurrence_bounds lo hi)) \<longleftrightarrow> fst (occurrence_bounds lo hi) \<noteq> fst (snd (occurrence_bounds lo hi))"
  by (simp add: occurrence_bounds_def Let_def split: option.split)

lemma lay_out_leaf:
  "lay_out pos (CobolField name picture usage lo hi depending redefs []) start ov =
     (let z = size_picture picture usage; b = occurrence_bounds lo hi;
          l = \<lparr>fl_offset = (if ov then None else start), fl_length = pz_length z, fl_total = multiply (pz_length z) (fst (snd b)),
            fl_min_total = multiply (pz_length z) (fst b), fl_offset_variable = ov, fl_variable = (fst b \<noteq> fst (snd b)),
            fl_picture = Some z, fl_redefines = redefs, fl_reason = pz_reason z\<rparr>
      in (l, [(pos, l)]))"
  by (simp add: Let_def split_beta occurrence_bounds_variable)

definition group_start :: "int option \<Rightarrow> bool \<Rightarrow> group_state" where
  "group_start start ov = \<lparr>gs_placed = [], gs_cursor = start, gs_cursor_variable = ov, gs_total = Some 0, gs_min_total = Some 0,
     gs_variable = False, gs_reason = None\<rparr>"

lemma group_start_simps [simp]:
  "gs_placed (group_start a b) = []" "gs_cursor (group_start a b) = a" "gs_cursor_variable (group_start a b) = b"
  "gs_total (group_start a b) = Some 0" "gs_min_total (group_start a b) = Some 0" "gs_variable (group_start a b) = False"
  by (simp_all add: group_start_def)

lemma lay_out_group:
  "children \<noteq> [] \<Longrightarrow> lay_out pos (CobolField name picture usage lo hi depending redefs children) start ov =
     (let (s, inner) = lay_out_children pos 0 children (group_start start ov); b = occurrence_bounds lo hi;
          l = \<lparr>fl_offset = (if ov then None else start), fl_length = gs_total s, fl_total = multiply (gs_total s) (fst (snd b)),
            fl_min_total = multiply (gs_min_total s) (fst b), fl_offset_variable = ov, fl_variable = (fst b \<noteq> fst (snd b) \<or> gs_variable s),
            fl_picture = None, fl_redefines = redefs,
            fl_reason = (if gs_total s = None \<and> gs_reason s = None then Some UnknownPart else gs_reason s)\<rparr>
      in (l, inner @ [(pos, l)]))"
  by (simp add: Let_def split_beta occurrence_bounds_variable group_start_def)

lemma lay_out_offset: "fl_offset (fst (lay_out pos f start ov)) = (if ov then None else start)"
  by (cases f; cases "cf_children f = []") (simp_all add: lay_out_leaf lay_out_group Let_def split_beta del: lay_out.simps)

lemma place_child_simps [simp]:
  "gs_placed (place_child name l s) = AList.update name (fl_offset l, gs_cursor_variable s) (gs_placed s)"
  "gs_total (place_child name l s) = plus (gs_total s) (fl_total l)"
  "gs_min_total (place_child name l s) = plus (gs_min_total s) (fl_min_total l)"
  "gs_variable (place_child name l s) \<longleftrightarrow> gs_variable s \<or> fl_variable l"
  by (simp_all add: place_child_def Let_def)

lemma place_child_cursor:
  "gs_cursor (place_child name l s) = (if fl_variable l then None else plus (gs_cursor s) (fl_total l))"
  "gs_cursor_variable (place_child name l s) \<longleftrightarrow> fl_variable l \<or> gs_cursor_variable s \<or> fl_total l = None"
  by (auto simp: place_child_def Let_def plus_def split: option.split)

lemma lay_out_children_Cons:
  "lay_out_children pos i (child # rest) s =
     (case redefined child of
        Some target \<Rightarrow>
          (let t = dict_default (gs_placed s) target (None, True); r = lay_out_children pos (Suc i) rest s
           in (fst r, snd (lay_out (pos @ [i]) child (fst t) (snd t)) @ snd r))
      | None \<Rightarrow>
          (let l = lay_out (pos @ [i]) child (gs_cursor s) (gs_cursor_variable s);
               r = lay_out_children pos (Suc i) rest (place_child (cf_name child) (fst l) s)
           in (fst r, snd l @ snd r)))"
  by (simp add: Let_def split_beta split: option.split)

declare lay_out.simps [simp del] lay_out_children.simps(2) [simp del]
lemmas lay_out_simps = lay_out_leaf lay_out_group lay_out_children_Cons Let_def split_beta

text \<open>
  What is known of the minimum, the actual and the maximum room of an item, when its occurrences keep
  to \<open>R\<close>: a relation that a leaf satisfies and that sums and repetitions keep is kept by the walk.
\<close>

locale length_view =
  fixes R :: "int \<Rightarrow> int \<Rightarrow> int \<Rightarrow> bool"
    and T :: "bool \<Rightarrow> int option \<Rightarrow> int option \<Rightarrow> int option \<Rightarrow> bool"
  assumes leaf: "(\<And>n. x = Some n \<Longrightarrow> 0 \<le> n) \<Longrightarrow> T False x x x"
    and sum: "T v m e t \<Longrightarrow> T w m' e' t' \<Longrightarrow> T (v \<or> w) (plus m m') (plus e e') (plus t t')"
    and times: "R lo hi n \<Longrightarrow> T v m e t \<Longrightarrow> T (lo \<noteq> hi \<or> v) (multiply m lo) (multiply e n) (multiply t hi)"
begin

lemma walk:
  "counts_ok R' c pos f \<Longrightarrow> R' = R \<Longrightarrow>
     T (fl_variable (fst (lay_out pos f start ov))) (fl_min_total (fst (lay_out pos f start ov))) (extent c pos f)
       (fl_total (fst (lay_out pos f start ov)))"
  "counts_ok_children R' c pos i fs \<Longrightarrow> R' = R \<Longrightarrow> T (gs_variable s) (gs_min_total s) e (gs_total s) \<Longrightarrow>
     T (gs_variable (fst (lay_out_children pos i fs s))) (gs_min_total (fst (lay_out_children pos i fs s))) (plus e (extents c pos i fs))
       (gs_total (fst (lay_out_children pos i fs s)))"
proof (induction R' c pos f and R' c pos i fs arbitrary: start ov and s e rule: counts_ok_counts_ok_children.induct)
  case (1 R' c pos name picture usage lo hi depending redefs children)
  let ?b = "occurrence_bounds lo hi"
  have R: "R (fst ?b) (fst (snd ?b)) (c pos)" using 1 by simp
  show ?case
  proof (cases "children = []")
    case True
    show ?thesis using times[OF R leaf[OF size_picture_nonneg[of picture usage]]] True by (simp add: lay_out_simps)
  next
    case False
    let ?s = "fst (lay_out_children pos 0 children (group_start start ov))"
    have "T (gs_variable ?s) (gs_min_total ?s) (plus (Some 0) (extents c pos 0 children)) (gs_total ?s)"
      by (rule "1.IH") (use 1 leaf[of "Some 0"] in simp_all)
    then show ?thesis using times[OF R] False by (simp add: lay_out_simps)
  qed
next
  case (3 R' c pos i child rest)
  show ?case
  proof (cases "redefined child")
    case None
    let ?l = "fst (lay_out (pos @ [i]) child (gs_cursor s) (gs_cursor_variable s))"
    have "T (fl_variable ?l) (fl_min_total ?l) (extent c (pos @ [i]) child) (fl_total ?l)" using 3 by simp
    then have "T (gs_variable s \<or> fl_variable ?l) (plus (gs_min_total s) (fl_min_total ?l)) (plus e (extent c (pos @ [i]) child))
       (plus (gs_total s) (fl_total ?l))" using sum 3 by blast
    then show ?thesis using "3.IH"(2)[of "place_child (cf_name child) ?l s" "plus e (extent c (pos @ [i]) child)"] 3 None by (simp add: lay_out_simps)
  next
    case (Some target)
    then show ?thesis using 3 by (simp add: lay_out_simps)
  qed
qed simp

lemmas walk_item = walk(1)[OF _ refl]

end

text \<open>Both bounds, and nothing unknown on one side only; without a variable table they meet.\<close>

definition length_bounds :: "bool \<Rightarrow> int option \<Rightarrow> int option \<Rightarrow> int option \<Rightarrow> bool" where
  "length_bounds v m e t \<longleftrightarrow>
     (case (m, e, t) of
        (None, None, None) \<Rightarrow> True
      | (Some m, Some e, Some t) \<Rightarrow> 0 \<le> m \<and> m \<le> e \<and> e \<le> t \<and> (\<not> v \<longrightarrow> m = t)
      | _ \<Rightarrow> False)"

lemma length_bounds_cases [consumes 1]:
  "length_bounds v m e t \<Longrightarrow> (m = None \<Longrightarrow> e = None \<Longrightarrow> t = None \<Longrightarrow> P)
     \<Longrightarrow> (\<And>a b d. m = Some a \<Longrightarrow> e = Some b \<Longrightarrow> t = Some d \<Longrightarrow> 0 \<le> a \<Longrightarrow> a \<le> b \<Longrightarrow> b \<le> d \<Longrightarrow> (\<not> v \<Longrightarrow> a = d) \<Longrightarrow> P) \<Longrightarrow> P"
  by (auto simp: length_bounds_def split: option.splits)

lemma length_bounds_simps [simp]:
  "length_bounds v None None None" "length_bounds v (Some a) (Some b) (Some d) \<longleftrightarrow> 0 \<le> a \<and> a \<le> b \<and> b \<le> d \<and> (\<not> v \<longrightarrow> a = d)"
  by (simp_all add: length_bounds_def)

lemma length_bounds_multiply:
  assumes "0 \<le> lo" and "lo \<le> n" and "n \<le> hi" and "length_bounds v m e t"
  shows "length_bounds (lo \<noteq> hi \<or> v) (multiply m lo) (multiply e n) (multiply t hi)"
  using assms(4)
proof (cases rule: length_bounds_cases)
  case (2 a b d)
  have "a * lo \<le> b * n" and "b * n \<le> d * hi" using assms 2 by (auto intro!: mult_mono)
  then show ?thesis using assms 2 by auto
qed simp

text \<open>The occurrences that keep to the declared bounds; when \<open>fixed\<close>, no table varies.\<close>

definition keeps_bounds :: "bool \<Rightarrow> int \<Rightarrow> int \<Rightarrow> int \<Rightarrow> bool" where
  "keeps_bounds fixed lo hi n \<longleftrightarrow> 0 \<le> lo \<and> lo \<le> n \<and> n \<le> hi \<and> (fixed \<longrightarrow> lo = hi)"

definition admissible :: "bool \<Rightarrow> occurrences \<Rightarrow> cobol_field \<Rightarrow> bool" where
  "admissible fixed c f = counts_ok (keeps_bounds fixed) c [] f"

interpretation bounds: length_view "keeps_bounds fixed" "\<lambda>v m e t. length_bounds v m e t \<and> (fixed \<longrightarrow> \<not> v)" for fixed
proof
  fix lo hi n v m e t
  assume "keeps_bounds fixed lo hi n" and "length_bounds v m e t \<and> (fixed \<longrightarrow> \<not> v)"
  then show "length_bounds (lo \<noteq> hi \<or> v) (multiply m lo) (multiply e n) (multiply t hi) \<and> (fixed \<longrightarrow> \<not> (lo \<noteq> hi \<or> v))"
    using length_bounds_multiply[of lo n hi v m e t] by (auto simp: keeps_bounds_def)
qed (auto simp: length_bounds_def split: option.splits)

interpretation minimum: length_view "\<lambda>lo hi n. n = lo" "\<lambda>v m e t. m = e"
  by unfold_locales simp_all

interpretation maximum: length_view "\<lambda>lo hi n. n = hi" "\<lambda>v m e t. t = e"
  by unfold_locales simp_all

section \<open>Offsets\<close>

text \<open>A start the walk knows is the start; when no table varies it is withheld only where there is none.\<close>

definition known_start :: "bool \<Rightarrow> int option \<times> bool \<Rightarrow> int option \<Rightarrow> bool" where
  "known_start fixed p start \<longleftrightarrow> (\<not> snd p \<longrightarrow> fst p = start) \<and> (fixed \<longrightarrow> fst p = start \<and> (snd p \<longleftrightarrow> start = None))"

definition item_sound :: "bool \<Rightarrow> position \<times> field_layout \<Rightarrow> position \<times> int option \<times> int option \<Rightarrow> bool" where
  "item_sound fixed i r \<longleftrightarrow>
     (case (i, r) of ((p, l), (q, start, room)) \<Rightarrow>
        p = q \<and> (fl_offset l \<noteq> None \<longrightarrow> start = fl_offset l) \<and> length_bounds (fl_variable l) (fl_min_total l) room (fl_total l)
          \<and> (fixed \<longrightarrow> start = fl_offset l \<and> \<not> fl_variable l))"

lemma item_sound_own:
  "counts_ok (keeps_bounds fixed) c pos f \<Longrightarrow> known_start fixed (start, ov) start' \<Longrightarrow>
     item_sound fixed (pos, fst (lay_out pos f start ov)) (pos, start', extent c pos f)"
  using bounds.walk_item[of fixed c pos f start ov] by (auto simp: item_sound_def known_start_def lay_out_offset)

lemma known_start_advance:
  "known_start fixed (gs_cursor s, gs_cursor_variable s) cursor \<Longrightarrow>
   length_bounds (fl_variable l) m room (fl_total l) \<and> (fixed \<longrightarrow> \<not> fl_variable l) \<Longrightarrow>
   known_start fixed (gs_cursor (place_child name l s), gs_cursor_variable (place_child name l s)) (plus cursor room)"
  by (elim conjE length_bounds_cases) (auto simp: known_start_def place_child_cursor)

lemma lay_out_records_own: "\<exists>inner. snd (lay_out pos f start ov) = inner @ [(pos, fst (lay_out pos f start ov))]"
  by (cases f; cases "cf_children f = []") (simp_all add: lay_out_simps)

lemma offsets_sound:
  "counts_ok R c pos f \<Longrightarrow> R = keeps_bounds fixed \<Longrightarrow> known_start fixed (start, ov) start' \<Longrightarrow>
     list_all2 (item_sound fixed) (snd (lay_out pos f start ov)) (storage c pos f start')"
  "counts_ok_children R c pos i fs \<Longrightarrow> R = keeps_bounds fixed \<Longrightarrow>
     known_start fixed (gs_cursor s, gs_cursor_variable s) cursor \<Longrightarrow>
     (\<And>t. known_start fixed (dict_default (gs_placed s) t (None, True)) (dict_default starts t None)) \<Longrightarrow>
     list_all2 (item_sound fixed) (snd (lay_out_children pos i fs s)) (storage_children c pos i fs starts cursor)"
proof (induction R c pos f and R c pos i fs arbitrary: start ov start' and s starts cursor rule: counts_ok_counts_ok_children.induct)
  case (1 R c pos name picture usage lo hi depending redefs children)
  let ?f = "CobolField name picture usage lo hi depending redefs children"
  have own: "item_sound fixed (pos, fst (lay_out pos ?f start ov)) (pos, start', extent c pos ?f)"
    using 1 by (intro item_sound_own) simp_all
  show ?case
  proof (cases "children = []")
    case True
    then show ?thesis using own by (simp add: lay_out_simps)
  next
    case False
    have "list_all2 (item_sound fixed) (snd (lay_out_children pos 0 children (group_start start ov))) (storage_children c pos 0 children [] start')"
      by (rule "1.IH") (use 1 in \<open>simp_all add: known_start_def dict_default_def\<close>)
    then show ?thesis using own False by (simp add: lay_out_simps list_all2_appendI)
  qed
next
  case (3 R c pos i child rest)
  show ?case
  proof (cases "redefined child")
    case None
    let ?l = "fst (lay_out (pos @ [i]) child (gs_cursor s) (gs_cursor_variable s))"
    have "known_start fixed (gs_cursor (place_child (cf_name child) ?l s), gs_cursor_variable (place_child (cf_name child) ?l s))
       (plus cursor (extent c (pos @ [i]) child))"
      using "3.prems" bounds.walk_item[of fixed c "pos @ [i]" child "gs_cursor s" "gs_cursor_variable s"]
      by (intro known_start_advance[of _ _ _ _ "fl_min_total ?l"]) simp_all
    moreover have "known_start fixed (fl_offset ?l, gs_cursor_variable s) cursor"
      using 3 by (auto simp: lay_out_offset known_start_def)
    ultimately show ?thesis using 3 None
      by (auto simp: lay_out_simps dict_default_update intro!: list_all2_appendI)
  next
    case (Some target)
    then show ?thesis using 3 by (auto simp: lay_out_simps intro!: list_all2_appendI)
  qed
qed simp

lemma layout_items_sound: "admissible fixed c f \<Longrightarrow> list_all2 (item_sound fixed) (compute_layout f) (storage c [] f (Some 1))"
  unfolding compute_layout_def admissible_def by (rule offsets_sound(1)[OF _ refl]) (simp_all add: known_start_def)

section \<open>Pictures\<close>

lemma repeat_count_none: "s = [] \<or> hd s \<noteq> CHR ''('' \<Longrightarrow> repeat_count s = None"
  by (auto simp: repeat_count_def Let_def split: list.split)

lemma repeat_count_decimal [simp]: "repeat_count (CHR ''('' # decimal n @ CHR '')'' # rest) = Some (int n, rest)"
proof -
  have ds: "\<forall>c \<in> set (decimal n). is_digit c" "decimal n \<noteq> []" using decimal_digits[of n] by (auto simp: list_all_iff)
  have "\<not> is_digit (CHR '')'')" by (simp add: is_digit_def digit_val_def)
  moreover from this have "takeWhile is_digit (decimal n @ CHR '')'' # rest) = decimal n" "dropWhile is_digit (decimal n @ CHR '')'' # rest) = CHR '')'' # rest"
    using ds by (simp_all add: takeWhile_append2 dropWhile_append2)
  ultimately show ?thesis using ds by (simp add: repeat_count_def Let_def)
qed

lemma count_symbol_twice: "count_symbol c k (count_symbol c n s) = count_symbol c (n + k) s"
  by (auto simp: count_symbol_def Let_def)

lemma scan_copies:
  assumes "c \<noteq> CHR ''S''" and "c \<noteq> CHR ''V''" and "picture_symbol c" and "rest = [] \<or> hd rest \<noteq> CHR ''(''"
  shows "scan_symbols (replicate (Suc n) c @ rest) s = scan_symbols rest (count_symbol c (int (Suc n)) s)"
proof (induction n arbitrary: s)
  case 0
  then show ?case using assms by (simp add: repeat_count_none)
next
  case (Suc n)
  have "c \<noteq> CHR ''(''" using assms(3) by (auto simp: picture_symbol_def Let_def)
  then have "scan_symbols (replicate (Suc (Suc n)) c @ rest) s = scan_symbols (replicate (Suc n) c @ rest) (count_symbol c 1 s)"
    using assms by (simp add: repeat_count_none)
  then show ?case using Suc by (simp only: count_symbol_twice) (simp add: algebra_simps)
qed

text \<open>A repetition count is a shorthand. A picture symbol with a count \<open>(n)\<close> is read as \<open>n\<close> copies of the symbol.\<close>

lemma repetition_is_shorthand:
  assumes "c \<noteq> CHR ''S''" and "c \<noteq> CHR ''V''" and "picture_symbol c" and "rest = [] \<or> hd rest \<noteq> CHR ''(''" and "0 < n"
  shows "scan_symbols (c # CHR ''('' # decimal n @ CHR '')'' # rest) s = scan_symbols (replicate n c @ rest) s"
  using scan_copies[OF assms(1-4), of "n - 1" s] assms by simp

text \<open>
  The length of an item holds its value: it is known exactly when there is no reason for it to be
  unknown; a packed item has a half byte for each digit and one for the sign, rounded up, and a binary
  item is wide enough for every signed number of its digits.
\<close>

definition holds_value :: "picture_size \<Rightarrow> bool" where
  "holds_value z \<longleftrightarrow> (pz_length z = None \<longleftrightarrow> pz_reason z \<noteq> None) \<and>
     (case pz_length z of
        None \<Rightarrow> True
      | Some w \<Rightarrow> 0 \<le> w \<and>
          (case pz_digits z of
             None \<Rightarrow> pz_basis z \<noteq> Some BasisPacked \<and> pz_basis z \<noteq> Some BasisBinary
           | Some d \<Rightarrow> (pz_basis z = Some BasisPacked \<longrightarrow> d + 1 \<le> 2 * w \<and> 2 * w \<le> d + 2) \<and>
               (pz_basis z = Some BasisBinary \<longrightarrow> (10::int) ^ nat d \<le> 2 ^ nat (8 * w - 1))))"

lemma binary_width_enough:
  assumes "find (\<lambda>(ceiling, _). d \<le> ceiling) binary_widths = Some (k, w)"
  shows "0 \<le> w \<and> (10::int) ^ nat d \<le> 2 ^ nat (8 * w - 1)"
proof -
  have "d \<le> 4 \<and> w = 2 \<or> d \<le> 9 \<and> w = 4 \<or> d \<le> 18 \<and> w = 8"
    using assms by (auto simp: binary_widths_def split: if_splits)
  moreover have "(10::int) ^ nat d \<le> 10 ^ k" if "d \<le> int k" for k
    using that by (intro power_increasing) auto
  from this[of 4] this[of 9] this[of 18] have "(d \<le> 4 \<longrightarrow> (10::int) ^ nat d \<le> 2 ^ 15) \<and> (d \<le> 9 \<longrightarrow> (10::int) ^ nat d \<le> 2 ^ 31)
     \<and> (d \<le> 18 \<longrightarrow> (10::int) ^ nat d \<le> 2 ^ 63)"
    by fastforce
  ultimately show ?thesis by auto
qed

lemma picture_length_holds_value: "holds_value (size_picture picture usage)"
  using read_symbols_nonneg[of "the picture"] 
  by (auto simp: holds_value_def size_picture_def Let_def unsized_def float_usages_def dest: binary_width_enough
      split: option.splits if_splits)

text \<open>Where the analysis departs from COBOL: the insertion symbol 0 is not read, and P is given room.\<close>

lemma zero_insertion_is_unsized:
  "CHR ''0'' \<in> set sized_symbols \<and> pz_reason (size_picture (Some ''9(5)00'') None) = Some (UnsizedPicture ''9(5)00'')"
  by code_simp

lemma scaling_takes_room: "pz_length (size_picture (Some ''9(3)PPP'') None) = Some 6"
  by code_simp

section \<open>The layout of a copybook\<close>

lemma root_layout: "snd (last (compute_layout f)) = fst (lay_out [] f (Some 1) False)"
  using lay_out_records_own[of "[]" f "Some 1" False] by (auto simp: compute_layout_def)

text \<open>The two lengths of a record are reached, at the least and at the greatest occurrence counts.\<close>

lemma record_lengths_reached:
  assumes "counts_ok (\<lambda>lo hi n. n = lo) least [] f" and "counts_ok (\<lambda>lo hi n. n = hi) greatest [] f"
  shows "record_length_range (snd (last (compute_layout f))) = (extent least [] f, extent greatest [] f)"
  using minimum.walk_item[OF assms(1), of "Some 1" False] maximum.walk_item[OF assms(2), of "Some 1" False]
  by (simp add: record_length_range_def root_layout)

lemma item_sound_exact: "item_sound True (p, l) (q, start, room) \<Longrightarrow> (p, fl_offset l, fl_total l) = (q, start, room)"
  by (auto simp: item_sound_def elim!: length_bounds_cases)

lemma layout_items_exact:
  "list_all2 (item_sound True) ls rs \<Longrightarrow> map (\<lambda>(p, l). (p, fl_offset l, fl_total l)) ls = rs"
  by (induction rule: list_all2_induct) (auto dest: item_sound_exact)

text \<open>C11: the layout of a copybook is true of every record. Whatever number of occurrences, within the
  declared bounds, the variable tables of a record have: every item is listed once, an offset the layout
  reports is where the item starts in that record, also for an item that redefines another, and the two
  lengths bound the room it takes there, both unknown when that room is. A copybook whose tables are all
  fixed loses nothing: offsets and lengths are the real ones, and withheld only where there are none.\<close>

theorem layout_true_of_every_record:
  assumes "admissible False c f"
  shows "list_all2 (\<lambda>(p, l) (q, start, room). p = q \<and> (fl_offset l \<noteq> None \<longrightarrow> start = fl_offset l) \<and> length_bounds (fl_variable l) (fl_min_total l) room (fl_total l))
         (compute_layout f) (storage c [] f (Some 1)) \<and>
     (admissible True c f \<longrightarrow> map (\<lambda>(p, l). (p, fl_offset l, fl_total l)) (compute_layout f) = storage c [] f (Some 1))"
  using layout_items_sound[OF assms] layout_items_sound[of True c f] layout_items_exact
  by (auto simp: item_sound_def elim!: list_all2_mono)

text \<open>A counter, a table that depends on it, a packed amount after it, and the counter described again.\<close>

definition item :: "string \<Rightarrow> string \<Rightarrow> string option \<Rightarrow> cobol_field" where
  "item name picture usage = CobolField name (Some picture) usage None None None None []"

definition sample_copybook :: "int \<Rightarrow> cobol_field" where
  "sample_copybook least = CobolField ''REC'' None None None None None None
     [item ''N'' ''9(2)'' None,
      CobolField ''T'' (Some ''X(4)'') None (Some least) (Some 3) (Some ''N'') None [],
      item ''A'' ''S9(5)V99'' (Some ''comp-3''),
      CobolField ''M'' (Some ''XX'') None None None None (Some ''N'') []]"

definition sample_counts :: "int \<Rightarrow> occurrences" where
  "sample_counts n p = (if p = [1] then n else 1)"

theorem layout_true_of_every_record_witness:
  "list_all2 (\<lambda>(p, l) (q, start, room). p = q \<and> (fl_offset l \<noteq> None \<longrightarrow> start = fl_offset l) \<and> length_bounds (fl_variable l) (fl_min_total l) room (fl_total l))
     (compute_layout (sample_copybook 0)) (storage (sample_counts 2) [] (sample_copybook 0) (Some 1)) \<and>
   map (\<lambda>(p, l). (p, fl_offset l, fl_total l)) (compute_layout (sample_copybook 3)) = storage (sample_counts 3) [] (sample_copybook 3) (Some 1) \<and>
   map (\<lambda>(p, l). (fl_offset l, fl_min_total l, fl_total l)) (compute_layout (sample_copybook 0)) =
     [(Some 1, Some 2, Some 2), (Some 3, Some 0, Some 12), (None, Some 4, Some 4), (Some 1, Some 2, Some 2), (Some 1, Some 6, Some 18)]"
proof -
  have "admissible False (sample_counts 2) (sample_copybook 0)" "admissible False (sample_counts 3) (sample_copybook 3)"
    "admissible True (sample_counts 3) (sample_copybook 3)"
    by code_simp+
  moreover have "map (\<lambda>(p, l). (fl_offset l, fl_min_total l, fl_total l)) (compute_layout (sample_copybook 0)) =
     [(Some 1, Some 2, Some 2), (Some 3, Some 0, Some 12), (None, Some 4, Some 4), (Some 1, Some 2, Some 2), (Some 1, Some 6, Some 18)]"
    by code_simp
  ultimately show ?thesis
    using layout_true_of_every_record[of "sample_counts 2" "sample_copybook 0"] layout_true_of_every_record[of "sample_counts 3" "sample_copybook 3"]
    by simp
qed

end
