(* ===== verification/Calendar.thy ===== *)
theory Calendar
  imports Semver
begin

text \<open>
  Instants written as text, as \<open>datetime.strftime\<close> does: the calendar date of a day counted from
  1970-01-01, and the forms \<open>%Y-%m-%dT%H:%M:%S\<close> and \<open>%Y-%m-%dT%H:%M\<close>. Years are written without
  padding, as the C library does. Reading a text of a year from 1000 on gives the instant back, to the
  second.
\<close>

section \<open>The date of a day\<close>

definition year_length :: "int \<Rightarrow> int" where
  "year_length y = (if leap_year y then 366 else 365)"

lemma div_pred:
  assumes "0 < (k::int)"
  shows "y div k = (y - 1) div k + (if k dvd y then 1 else 0)"
proof (cases "k dvd y")
  case True
  then have "(y - 1) div k = y div k - 1"
    using assms by (intro int_div_pos_eq[of _ _ _ "k - 1"]) (auto simp: algebra_simps)
  then show ?thesis using True by simp
next
  case False
  then have "0 < y mod k" "y mod k < k" using assms by (simp_all add: dvd_eq_mod_eq_0 order.not_eq_order_implies_strict)
  then have "(y - 1) div k = y div k" by (intro int_div_pos_eq[of _ _ _ "y mod k - 1"]) auto
  then show ?thesis using False by simp
qed

lemma next_year: "epoch_day (y + 1) 1 1 = epoch_day y 1 1 + year_length y"
proof -
  define p q r where "p \<longleftrightarrow> 4 dvd y" and "q \<longleftrightarrow> 100 dvd y" and "r \<longleftrightarrow> 400 dvd y"
  define a b d where "a = (y - 1) div 4" and "b = (y - 1) div 100" and "d = (y - 1) div 400"
  have "y div 4 = a + (if p then 1 else 0)" "y div 100 = b + (if q then 1 else 0)" "y div 400 = d + (if r then 1 else 0)"
    unfolding p_def q_def r_def a_def b_def d_def by (rule div_pred, simp)+
  moreover have "q \<Longrightarrow> p" "r \<Longrightarrow> q" unfolding p_def q_def r_def by (erule dvd_trans[rotated], simp)+
  moreover have "epoch_day (y + 1) 1 1 = y * 365 + y div 4 - y div 100 + y div 400 - 719162"
    "epoch_day y 1 1 = (y - 1) * 365 + a - b + d - 719162"
    by (simp_all add: epoch_day_def days_before_month_def a_def b_def d_def)
  moreover have "year_length y = (if p \<and> (\<not> q \<or> r) then 366 else 365)"
    by (simp add: year_length_def leap_year_def p_def q_def r_def)
  ultimately show ?thesis by (cases p; cases q; cases r) simp_all
qed

lemma year_length_pos: "365 \<le> year_length y \<and> year_length y \<le> 366"
  by (simp add: year_length_def)

function year_from :: "int \<Rightarrow> int \<Rightarrow> int" where
  "year_from n y = (if epoch_day (y + 1) 1 1 \<le> n then year_from n (y + 1) else y)"
  by pat_completeness auto
termination
proof (relation "measure (\<lambda>(n, y). nat (n + 1 - epoch_day y 1 1))")
  show "((n, y + 1), n, y) \<in> measure (\<lambda>(n, y). nat (n + 1 - epoch_day y 1 1))" if "epoch_day (y + 1) 1 1 \<le> n" for n y
    using that year_length_pos[of y] next_year[of y] by simp
qed simp

declare year_from.simps [simp del]

text \<open>Days before year 1 to days: no year has more than 366 days, so the search starts at or before the year.\<close>

definition year_of :: "int \<Rightarrow> int" where
  "year_of n = year_from n ((n + 719162) div 366 + 1)"

definition month_of :: "int \<Rightarrow> int \<Rightarrow> int" where
  "month_of y d = 1 + int (length (takeWhile (\<lambda>m. days_before_month y (m + 1) \<le> d) [1..11]))"

definition civil :: "int \<Rightarrow> int \<times> int \<times> int" where
  "civil n =
     (let y = year_of n; d = n - epoch_day y 1 1; m = month_of y d
      in (y, m, d - days_before_month y m + 1))"

lemma year_from_bounds:
  "epoch_day y 1 1 \<le> n \<Longrightarrow> epoch_day (year_from n y) 1 1 \<le> n \<and> n < epoch_day (year_from n y + 1) 1 1 \<and> y \<le> year_from n y"
proof (induction n y rule: year_from.induct)
  case (1 n y)
  then show ?case by (subst (1 2 3) year_from.simps) auto
qed

lemma epoch_day_first: "1 \<le> y \<Longrightarrow> epoch_day y 1 1 \<le> (y - 1) * 366 - 719162"
proof (induction "nat (y - 1)" arbitrary: y)
  case 0
  then show ?case by (simp add: epoch_day_def days_before_month_def)
next
  case (Suc k)
  then have "2 \<le> y" and "k = nat (y - 2)" by linarith+
  then show ?case using next_year[of "y - 1"] year_length_pos[of "y - 1"] Suc.hyps(1)[of "y - 1"] by (simp add: algebra_simps)
qed

lemma year_of_bounds:
  assumes "- 719162 \<le> n"
  shows "epoch_day (year_of n) 1 1 \<le> n" "n < epoch_day (year_of n) 1 1 + year_length (year_of n)" "1 \<le> year_of n"
proof -
  let ?q = "(n + 719162) div 366"
  have q: "0 \<le> ?q" "?q * 366 \<le> n + 719162" using assms by (simp_all add: pos_imp_zdiv_nonneg_iff)
  then have "epoch_day (?q + 1) 1 1 \<le> n" using epoch_day_first[of "?q + 1"] by simp
  from year_from_bounds[OF this] q show "epoch_day (year_of n) 1 1 \<le> n" "n < epoch_day (year_of n) 1 1 + year_length (year_of n)" "1 \<le> year_of n"
    unfolding year_of_def[symmetric] next_year by simp_all
qed

lemma epoch_day_mono: "y \<le> z \<Longrightarrow> epoch_day y 1 1 \<le> epoch_day z 1 1"
proof (induction "nat (z - y)" arbitrary: z)
  case (Suc k)
  then have "k = nat (z - 1 - y)" and "y \<le> z - 1" by linarith+
  then show ?case using Suc.hyps(1)[of "z - 1"] next_year[of "z - 1"] year_length_pos[of "z - 1"] by simp
qed simp

lemma year_of_between:
  assumes "epoch_day y 1 1 \<le> n" and "n < epoch_day z 1 1" and "1 \<le> y"
  shows "y \<le> year_of n \<and> year_of n < z"
proof -
  have "- 719162 \<le> n" using assms epoch_day_mono[of 1 y] by (simp add: epoch_day_def days_before_month_def)
  note b = year_of_bounds[OF this]
  then have "\<not> year_of n + 1 \<le> y" using assms(1) epoch_day_mono[of "year_of n + 1" y] next_year[of "year_of n"] by auto
  moreover have "\<not> z \<le> year_of n" using b assms(2) epoch_day_mono[of z "year_of n"] by auto
  ultimately show ?thesis by simp
qed

lemma next_month: "1 \<le> m \<Longrightarrow> days_before_month y (m + 1) = days_before_month y m + days_in_month y m"
  by (simp add: days_before_month_def upto_rec2)

lemma year_of_months: "days_before_month y 13 = year_length y" "days_before_month y 1 = 0"
  by (simp_all add: days_before_month_def year_length_def days_in_month_def upto.simps)

lemma month_of_bounds:
  assumes "0 \<le> d" and "d < year_length y"
  shows "1 \<le> month_of y d" "month_of y d \<le> 12" "days_before_month y (month_of y d) \<le> d"
    "d < days_before_month y (month_of y d) + days_in_month y (month_of y d)"
proof -
  let ?P = "\<lambda>m. days_before_month y (m + 1) \<le> d"
  let ?k = "length (takeWhile ?P [1..11])"
  have m: "month_of y d = 1 + int ?k" by (simp add: month_of_def)
  have k: "?k \<le> 11" using length_takeWhile_le[of ?P "[1..11]"] by simp
  have nth: "[1..11] ! i = 1 + int i" if "i < 11" for i using that by (subst nth_upto) simp_all
  show "1 \<le> month_of y d" "month_of y d \<le> 12" using k by (simp_all add: m)
  show "days_before_month y (month_of y d) \<le> d"
  proof (cases ?k)
    case 0
    then show ?thesis using assms by (simp add: m year_of_months)
  next
    case (Suc j)
    then have "?P ([1..11] ! j)" using nth_length_takeWhile set_takeWhileD[of "takeWhile ?P [1..11] ! j" ?P "[1..11]"]
      by (metis lessI nth_mem takeWhile_nth)
    then show ?thesis using nth[of j] k Suc by (simp add: m add.commute)
  qed
  have "\<not> ?P (1 + int ?k)"
  proof (cases "?k < 11")
    case True
    then show ?thesis using nth_length_takeWhile[of ?P "[1..11]"] nth[of ?k] by simp
  next
    case False
    then have "?k = 11" using k by simp
    then show ?thesis using assms by (simp add: year_of_months)
  qed
  then show "d < days_before_month y (month_of y d) + days_in_month y (month_of y d)"
    using next_month[of "month_of y d" y] by (simp add: m)
qed

text \<open>The date of a day is a valid one, and it is that day.\<close>

lemma civil_date:
  assumes "- 719162 \<le> n" and "civil n = (y, m, d)"
  shows "y = year_of n \<and> 1 \<le> y \<and> 1 \<le> m \<and> m \<le> 12 \<and> 1 \<le> d \<and> d \<le> days_in_month y m \<and> epoch_day y m d = n"
proof -
  define e where "e = n - epoch_day y 1 1"
  have y: "y = year_of n" and m: "m = month_of y e" and d: "d = e - days_before_month y m + 1"
    using assms(2) by (auto simp: civil_def Let_def e_def)
  have "0 \<le> e" "e < year_length y" "1 \<le> y" using year_of_bounds[OF assms(1)] by (simp_all add: y e_def)
  note b = month_of_bounds[OF this(1,2), folded m] this(3)
  have "epoch_day y m d = epoch_day y 1 1 + days_before_month y m + d - 1" by (simp add: epoch_day_def year_of_months)
  then show ?thesis using b y by (simp add: d e_def)
qed

section \<open>Instants as text\<close>

definition two_digits :: "int \<Rightarrow> string" where
  "two_digits n = [char_of (48 + n div 10), char_of (48 + n mod 10)]"

definition date_text :: "int \<Rightarrow> string" where
  "date_text n = (case civil n of (y, m, d) \<Rightarrow> decimal (nat y) @ ''-'' @ two_digits m @ ''-'' @ two_digits d)"

text \<open>\<open>HH:MM\<close> and \<open>HH:MM:SS\<close> of a number of seconds since midnight.\<close>

definition minute_text :: "int \<Rightarrow> string" where
  "minute_text t = two_digits (t div 3600) @ '':'' @ two_digits (t div 60 mod 60)"

definition second_text :: "int \<Rightarrow> string" where
  "second_text t = minute_text t @ '':'' @ two_digits (t mod 60)"

definition instant_minutes :: "int \<Rightarrow> string" where
  "instant_minutes i = date_text (i div day_usec) @ ''T'' @ minute_text (i div usec mod 86400)"

definition instant_seconds :: "int \<Rightarrow> string" where
  "instant_seconds i = date_text (i div day_usec) @ ''T'' @ second_text (i div usec mod 86400)"

text \<open>Whole days from year 1000 to year 9999, whose texts have ten characters.\<close>

definition four_digit_day :: "int \<Rightarrow> bool" where
  "four_digit_day n \<longleftrightarrow> - 354285 \<le> n \<and> n < 2932897"

lemma read_two_digits [simp]: "0 \<le> n \<Longrightarrow> n < 100 \<Longrightarrow> read_digits 2 acc (two_digits n @ s) = Some (100 * acc + n, s)"
proof -
  assume n: "0 \<le> n" "n < 100"
  moreover from n have "nat (n div 10) < 10" "0 \<le> n div 10" by (auto simp: pos_imp_zdiv_nonneg_iff)
  ultimately have "digit_val (char_of (48 + n div 10)) = Some (n div 10)" "digit_val (char_of (48 + n mod 10)) = Some (n mod 10)"
    using digit_char[of "nat (n div 10)"] digit_char[of "nat (n mod 10)"] by simp_all
  then show ?thesis by (simp add: two_digits_def numeral_2_eq_2)
qed

lemma read_digits_all:
  "list_all is_digit ds \<Longrightarrow> read_digits (length ds) acc (ds @ s) = Some (foldl (\<lambda>a c. 10 * a + the (digit_val c)) acc ds, s)"
  by (induction ds arbitrary: acc) (auto simp: is_digit_def)

lemma decimal_four: "1000 \<le> n \<Longrightarrow> n < 10000 \<Longrightarrow> length (decimal n) = 4"
proof -
  assume n: "1000 \<le> n" "n < 10000"
  then have "n div 10 div 10 = n div 100" "n div 10 div 10 div 10 = n div 1000" by (simp_all add: div_mult2_eq[symmetric])
  moreover have "10 \<le> n div 100" "n div 1000 < 10" "10 \<le> n div 10" using n by auto
  ultimately show ?thesis
    using n by (subst decimal.simps, subst decimal.simps, subst decimal.simps, subst decimal.simps) simp
qed

lemma four_digit_year:
  assumes "four_digit_day n"
  shows "1000 \<le> year_of n \<and> year_of n < 10000" "- 719162 \<le> n"
proof -
  have "epoch_day 1000 1 1 = - 354285" "epoch_day 10000 1 1 = 2932897" by (simp_all add: epoch_day_def days_before_month_def)
  then show "1000 \<le> year_of n \<and> year_of n < 10000" using assms year_of_between[of 1000 n 10000] by (simp add: four_digit_day_def)
  show "- 719162 \<le> n" using assms by (simp add: four_digit_day_def)
qed

lemma read_date_text [simp]:
  assumes "four_digit_day n"
  shows "read_date (date_text n @ s) = Some (n, s)"
proof -
  obtain y m d where c: "civil n = (y, m, d)" by (cases "civil n")
  note v = civil_date[OF four_digit_year(2)[OF assms] c] four_digit_year(1)[OF assms]
  have y: "length (decimal (nat y)) = 4" using v by (intro decimal_four) auto
  have "read_digits 4 0 (decimal (nat y) @ t) = Some (y, t)" for t
    using read_digits_all[of "decimal (nat y)" 0 t] decimal_digits[of "nat y"] digits_val_decimal[of "nat y"] v
    unfolding digits_val_def y by simp
  moreover have "d < 100" "m < 100" using v by (auto simp: days_in_month_def split: if_splits)
  ultimately show ?thesis using v by (auto simp: read_date_def date_text_def c)
qed

lemma date_text_length:
  assumes "four_digit_day n"
  shows "length (date_text n) = 10"
proof -
  obtain y m d where c: "civil n = (y, m, d)" by (cases "civil n")
  have "length (decimal (nat y)) = 4"
    using civil_date[OF four_digit_year(2)[OF assms] c] four_digit_year(1)[OF assms] by (intro decimal_four) auto
  then show ?thesis by (simp add: date_text_def c two_digits_def)
qed

lemma read_second_text:
  assumes "0 \<le> t" and "t < 86400"
  shows "read_clock (second_text t @ ''+00:00'') = Some (t * usec, ''+00:00'')"
proof -
  define h m x where "h = t div 3600" and "m = t div 60 mod 60" and "x = t mod 60"
  have h: "h = t div 60 div 60" unfolding h_def by (simp add: zdiv_zmult2_eq[symmetric])
  have "0 \<le> h" "h < 24" unfolding h_def using assms by (simp_all add: pos_imp_zdiv_nonneg_iff)
  moreover have "0 \<le> m" "m < 60" "0 \<le> x" "x < 60" unfolding m_def x_def by simp_all
  moreover have "(h * 60 + m) * 60 + x = t" unfolding h m_def x_def by simp
  ultimately show ?thesis
    unfolding second_text_def minute_text_def h_def[symmetric] m_def[symmetric] x_def[symmetric] by (simp add: read_clock_def)
qed

lemma read_no_offset: "read_offset ''+00:00'' = Some (Some 0)"
  by code_simp

text \<open>Reading back what was written gives the instant to the second.\<close>

theorem instant_seconds_roundtrip:
  assumes "four_digit_day (i div day_usec)"
  shows "fromisoformat (instant_seconds i @ ''+00:00'') = Some \<lparr>dt_wall = i div usec * usec, dt_offset = Some 0\<rparr>"
proof -
  have "i div day_usec = i div usec div 86400" by (simp add: zdiv_zmult2_eq[symmetric])
  moreover have "a * day_usec + b * usec = (a * 86400 + b) * usec" for a b by (simp add: algebra_simps)
  ultimately have "i div day_usec * day_usec + i div usec mod 86400 * usec = i div usec * usec"
    using div_mult_mod_eq[of "i div usec" 86400] by metis
  then show ?thesis
    using assms read_second_text[of "i div usec mod 86400"]
    by (simp add: fromisoformat_def instant_seconds_def read_no_offset)
qed

end
