(* ===== verification/Lifecycle.thy ===== *)
theory Lifecycle
  imports Calendar ScanBudget ReviewIds
begin

text \<open>
  The life cycle and the deprecation of a schema revision, kept in its metadata
  (\<open>revision_lifecycle.py\<close>, \<open>revision_deprecation.py\<close>): the effective life cycle in Python and in SQL, the
  transitions, the merge of a patch, the normal form of the instants, the schedule rules and the whole
  update. Metadata are JSON objects as dictionaries; \<open>loads\<close> is \<open>json.loads\<close>, for a row whose metadata
  arrive as text. Instants are microseconds since 1970; one outside the years 1 to 9999 is the
  \<open>OverflowError\<close> of \<open>datetime.astimezone\<close>. The texts of warnings are left out.
\<close>

type_synonym version_metadata = "(string, json) dict"

section \<open>Reading metadata\<close>

definition coerce_metadata :: "(string \<Rightarrow> json option) \<Rightarrow> json option \<Rightarrow> version_metadata" where
  "coerce_metadata loads raw =
     (case raw of
        Some (JObject m) \<Rightarrow> m
      | Some (JString s) \<Rightarrow> (case loads s of Some (JObject m) \<Rightarrow> m | _ \<Rightarrow> [])
      | _ \<Rightarrow> [])"

text \<open>\<open>v.strip()\<close> when \<open>v\<close> is a text that is not blank.\<close>

definition nonblank :: "json option \<Rightarrow> string option" where
  "nonblank v = (case v of Some (JString s) \<Rightarrow> nonempty (strip s) | _ \<Rightarrow> None)"

fun first_text :: "string list \<Rightarrow> version_metadata \<Rightarrow> string option" where
  "first_text [] m = None"
| "first_text (k # ks) m = (case nonblank (map_of m k) of Some s \<Rightarrow> Some s | None \<Rightarrow> first_text ks m)"

text \<open>\<open>m.get(a) or m.get(b)\<close>.\<close>

definition get_or :: "version_metadata \<Rightarrow> string \<Rightarrow> string \<Rightarrow> json option" where
  "get_or m a b = (case map_of m a of Some v \<Rightarrow> if truthy v then Some v else map_of m b | None \<Rightarrow> map_of m b)"

definition sunset_alias_keys :: "string list" where
  "sunset_alias_keys = [''sunsetAt'', ''sunsetDate'', ''sunset_date'']"

definition successor_alias_keys :: "string list" where
  "successor_alias_keys = [''successorRevisionId'', ''successor_revision_id'']"

definition deprecation_msg_alias_keys :: "string list" where
  "deprecation_msg_alias_keys = [''deprecationMessage'', ''message'']"

definition deprecated_at_keys :: "string list" where
  "deprecated_at_keys = [''deprecatedAt'', ''deprecated_at'']"

definition removable_deprecation_keys :: "string list" where
  "removable_deprecation_keys = sunset_alias_keys @ deprecated_at_keys @ successor_alias_keys @ deprecation_msg_alias_keys"

definition successor_revision_id_from_metadata :: "version_metadata \<Rightarrow> string option" where
  "successor_revision_id_from_metadata m = first_text successor_alias_keys m"

definition effective_sunset_string :: "version_metadata \<Rightarrow> string option" where
  "effective_sunset_string m = first_text sunset_alias_keys m"

definition effective_deprecated_at_string :: "version_metadata \<Rightarrow> string option" where
  "effective_deprecated_at_string m = first_text deprecated_at_keys m"

definition is_revision_deprecated :: "version_metadata \<Rightarrow> bool" where
  "is_revision_deprecated m =
     (case map_of m ''deprecated'' of
        Some (JBool b) \<Rightarrow> b
      | Some (JString s) \<Rightarrow> lower s \<in> {''true'', ''1'', ''yes''}
      | _ \<Rightarrow> False)"

section \<open>Merging a patch\<close>

text \<open>A value that removes a deprecation key: null or a blank text.\<close>

definition clears :: "json \<Rightarrow> bool" where
  "clears v = (case v of JNull \<Rightarrow> True | JString s \<Rightarrow> strip s = [] | _ \<Rightarrow> False)"

definition patch_clears_key :: "version_metadata \<Rightarrow> string \<Rightarrow> bool" where
  "patch_clears_key patch k = (case map_of patch k of Some v \<Rightarrow> clears v | None \<Rightarrow> False)"

definition patch_clears_any_in_group :: "version_metadata \<Rightarrow> string list \<Rightarrow> bool" where
  "patch_clears_any_in_group patch keys = list_ex (patch_clears_key patch) keys"

definition patch_clears_sunset_aliases :: "version_metadata \<Rightarrow> bool" where
  "patch_clears_sunset_aliases patch = patch_clears_any_in_group patch sunset_alias_keys"

definition pop_keys :: "string list \<Rightarrow> version_metadata \<Rightarrow> version_metadata" where
  "pop_keys keys m = fold AList.delete keys m"

definition patch_key :: "string \<times> json \<Rightarrow> version_metadata \<Rightarrow> version_metadata" where
  "patch_key kv m =
     (case kv of (k, v) \<Rightarrow>
        if k \<in> set removable_deprecation_keys \<and> clears v then AList.delete k m
        else AList.update k v m)"

definition merge_version_metadata :: "version_metadata \<Rightarrow> version_metadata option \<Rightarrow> version_metadata" where
  "merge_version_metadata base patch =
     (case patch of
        None \<Rightarrow> base
      | Some p \<Rightarrow>
          (if p = [] then base
           else let m = fold patch_key p base;
               m = (if patch_clears_sunset_aliases p then pop_keys sunset_alias_keys m else m);
               m = (if patch_clears_any_in_group p successor_alias_keys then pop_keys successor_alias_keys m else m)
             in if patch_clears_any_in_group p deprecation_msg_alias_keys then pop_keys deprecation_msg_alias_keys m else m))"

section \<open>Instants\<close>

datatype revision_error = NullLifecycle | InvalidLifecycle | ArchivedIsTerminal | InvalidTransition string string | InvalidSunset
  | DateOutOfRange | SunsetNeedsDeprecation | SuccessorNotUuid | SunsetBeforeDeprecation | SuccessorIsSelf | SuccessorElsewhere

definition parse_calendar_date :: "string option \<Rightarrow> int option" where
  "parse_calendar_date s =
     (case s of
        None \<Rightarrow> None
      | Some s \<Rightarrow> (let t = strip s in if length t < 10 then None
          else (case read_date (take 10 t) of Some (d, []) \<Rightarrow> Some d | _ \<Rightarrow> None)))"

text \<open>The instants of the years 1 to 9999.\<close>

definition instant_in_range :: "int \<Rightarrow> bool" where
  "instant_in_range i \<longleftrightarrow> - 719162 * day_usec \<le> i \<and> i < 2932897 * day_usec"

definition parse_iso_utc_instant :: "string option \<Rightarrow> revision_error + int option" where
  "parse_iso_utc_instant s =
     (case s of
        None \<Rightarrow> Inr None
      | Some s \<Rightarrow>
          (let t = strip s
           in if t = [] then Inr None
              else if length t = 10 \<and> t ! 4 = CHR ''-'' \<and> t ! 7 = CHR ''-''
                then Inr (case read_date t of Some (d, []) \<Rightarrow> Some (d * day_usec) | _ \<Rightarrow> None)
              else (case fromisoformat (if last t = CHR ''Z'' then butlast t @ ''+00:00'' else t) of
                  None \<Rightarrow> Inr None
                | Some dt \<Rightarrow>
                    (case dt_offset dt of
                       None \<Rightarrow> Inr (Some (dt_wall dt))
                     | Some off \<Rightarrow> if instant_in_range (dt_wall dt - off) then Inr (Some (dt_wall dt - off)) else Inl DateOutOfRange))))"

definition format_utc_z :: "int \<Rightarrow> string" where
  "format_utc_z i = instant_seconds i @ ''Z''"

definition normalize_sunset_instant_str :: "string option \<Rightarrow> revision_error + string option" where
  "normalize_sunset_instant_str raw =
     (case raw of
        None \<Rightarrow> Inr None
      | Some s \<Rightarrow>
          (if strip s = [] then Inr None
           else (case parse_iso_utc_instant (Some (strip s)) of
               Inl e \<Rightarrow> Inl e
             | Inr None \<Rightarrow> Inl InvalidSunset
             | Inr (Some i) \<Rightarrow> Inr (Some (format_utc_z i)))))"

section \<open>Life cycle\<close>

datatype lifecycle = Stable | Beta | Deprecated | Archived

definition lifecycle_text :: "lifecycle \<Rightarrow> string" where
  "lifecycle_text l = (case l of Stable \<Rightarrow> ''stable'' | Beta \<Rightarrow> ''beta'' | Deprecated \<Rightarrow> ''deprecated'' | Archived \<Rightarrow> ''archived'')"

definition lifecycle_of_text :: "string \<Rightarrow> lifecycle option" where
  "lifecycle_of_text t = find (\<lambda>l. lifecycle_text l = t) [Stable, Beta, Deprecated, Archived]"

fun lifecycle_transitions :: "lifecycle \<Rightarrow> lifecycle list" where
  "lifecycle_transitions Stable = [Beta, Deprecated, Archived]"
| "lifecycle_transitions Beta = [Stable, Deprecated, Archived]"
| "lifecycle_transitions Deprecated = [Stable, Beta, Archived]"
| "lifecycle_transitions Archived = []"

definition normalize_lifecycle_token :: "json option \<Rightarrow> lifecycle option" where
  "normalize_lifecycle_token raw = (case raw of Some (JString s) \<Rightarrow> lifecycle_of_text (lower (strip s)) | _ \<Rightarrow> None)"

definition effective_lifecycle :: "version_metadata \<Rightarrow> lifecycle" where
  "effective_lifecycle m =
     (case normalize_lifecycle_token (map_of m ''lifecycle'') of
        Some l \<Rightarrow> l
      | None \<Rightarrow> if is_revision_deprecated m then Deprecated else Stable)"

definition validate_lifecycle_transition :: "bool \<Rightarrow> lifecycle \<Rightarrow> lifecycle \<Rightarrow> revision_error + unit" where
  "validate_lifecycle_transition allow_exit_archived old new =
     (if old = new then Inr ()
      else if old = Archived then (if allow_exit_archived \<and> new \<in> {Stable, Beta, Deprecated} then Inr () else Inl ArchivedIsTerminal)
      else if new \<in> set (lifecycle_transitions old) then Inr ()
      else Inl (InvalidTransition (lifecycle_text old) (lifecycle_text new)))"

section \<open>Storage form and schedule\<close>

definition text_value :: "string option \<Rightarrow> json" where
  "text_value v = (case v of Some s \<Rightarrow> JString s | None \<Rightarrow> JNull)"

definition store_sunset :: "version_metadata \<Rightarrow> revision_error + version_metadata" where
  "store_sunset m =
     (case effective_sunset_string m of
        None \<Rightarrow> Inr (pop_keys sunset_alias_keys m)
      | Some raw \<Rightarrow>
          (case normalize_sunset_instant_str (Some raw) of
             Inl e \<Rightarrow> Inl e
           | Inr written \<Rightarrow> Inr (AList.delete ''sunset_date'' (AList.update ''sunsetDate'' (text_value written) (AList.update ''sunsetAt'' (text_value written) m)))))"

definition store_deprecated_at :: "version_metadata \<Rightarrow> revision_error + version_metadata" where
  "store_deprecated_at m =
     (case effective_deprecated_at_string m of
        None \<Rightarrow> Inr (pop_keys deprecated_at_keys m)
      | Some raw \<Rightarrow>
          (case normalize_sunset_instant_str (Some raw) of
             Inl e \<Rightarrow> Inl e
           | Inr written \<Rightarrow> Inr (AList.delete ''deprecated_at'' (AList.update ''deprecatedAt'' (text_value written) m))))"

definition store_successor :: "version_metadata \<Rightarrow> version_metadata" where
  "store_successor m =
     (case nonblank (get_or m ''successorRevisionId'' ''successor_revision_id'') of
        Some s \<Rightarrow> AList.delete ''successor_revision_id'' (AList.update ''successorRevisionId'' (JString s) m)
      | None \<Rightarrow> pop_keys successor_alias_keys m)"

definition normalize_deprecation_metadata_for_storage :: "version_metadata \<Rightarrow> revision_error + version_metadata" where
  "normalize_deprecation_metadata_for_storage m =
     (case store_sunset m of
        Inl e \<Rightarrow> Inl e
      | Inr m \<Rightarrow> (case store_deprecated_at m of Inl e \<Rightarrow> Inl e | Inr m \<Rightarrow> Inr (store_successor m)))"

definition validate_deprecation_schedule :: "version_metadata \<Rightarrow> revision_error + unit" where
  "validate_deprecation_schedule m =
     (case effective_sunset_string m of
        None \<Rightarrow> Inr ()
      | Some sunset \<Rightarrow>
          (if effective_lifecycle m \<notin> {Deprecated, Archived} \<and> \<not> is_revision_deprecated m then Inl SunsetNeedsDeprecation
           else if (case nonblank (get_or m ''successorRevisionId'' ''successor_revision_id'') of Some s \<Rightarrow> \<not> is_uuid_string s | None \<Rightarrow> False)
             then Inl SuccessorNotUuid
           else (case effective_deprecated_at_string m of
               None \<Rightarrow> Inr ()
             | Some since \<Rightarrow>
                 (case parse_iso_utc_instant (Some since) of
                    Inl e \<Rightarrow> Inl e
                  | Inr d_dep \<Rightarrow>
                      (case parse_iso_utc_instant (Some sunset) of
                         Inl e \<Rightarrow> Inl e
                       | Inr d_sun \<Rightarrow>
                           (case (d_dep, d_sun) of
                              (Some dep, Some sun) \<Rightarrow> if sun < dep then Inl SunsetBeforeDeprecation else Inr ()
                            | _ \<Rightarrow> Inr ()))))))"

section \<open>The update\<close>

definition leaving_keys :: "string list" where
  "leaving_keys = sunset_alias_keys @ deprecated_at_keys @ successor_alias_keys"

text \<open>The life cycle a patch asks for; \<open>None\<close> when it asks for none.\<close>

definition requested_lifecycle :: "version_metadata \<Rightarrow> revision_error + lifecycle option" where
  "requested_lifecycle patch =
     (case map_of patch ''lifecycle'' of
        None \<Rightarrow> Inr None
      | Some JNull \<Rightarrow> Inl NullLifecycle
      | Some v \<Rightarrow> (case normalize_lifecycle_token (Some v) of None \<Rightarrow> Inl InvalidLifecycle | Some l \<Rightarrow> Inr (Some l)))"

definition apply_lifecycle :: "lifecycle \<Rightarrow> lifecycle \<Rightarrow> version_metadata \<Rightarrow> version_metadata" where
  "apply_lifecycle old_lc new_lc m =
     (let m = AList.update ''lifecycle'' (JString (lifecycle_text new_lc)) m;
          m = (if new_lc = Deprecated then AList.update ''deprecated'' (JBool True) m
               else if new_lc \<in> {Stable, Beta} \<and> old_lc = Deprecated then AList.update ''deprecated'' (JBool False) m else m)
      in if new_lc \<in> {Stable, Beta} \<and> \<not> is_revision_deprecated m then pop_keys leaving_keys m else m)"

definition prepare_version_metadata_update :: "bool \<Rightarrow> version_metadata \<Rightarrow> version_metadata option \<Rightarrow> revision_error + version_metadata" where
  "prepare_version_metadata_update allow_exit_archived existing patch =
     (case patch of
        None \<Rightarrow> Inr existing
      | Some p \<Rightarrow>
          (let old_lc = effective_lifecycle existing
           in case requested_lifecycle p of
             Inl e \<Rightarrow> Inl e
           | Inr asked \<Rightarrow>
               (let m = merge_version_metadata existing patch;
                    m = (if map_of p ''deprecated'' = Some (JBool False) \<and> old_lc = Deprecated \<and> asked = None
                         then AList.update ''lifecycle'' (JString (lifecycle_text Stable)) m else m);
                    new_lc = effective_lifecycle m
                in case validate_lifecycle_transition allow_exit_archived old_lc new_lc of
                  Inl e \<Rightarrow> Inl e
                | Inr _ \<Rightarrow>
                    (case normalize_deprecation_metadata_for_storage (apply_lifecycle old_lc new_lc m) of
                       Inl e \<Rightarrow> Inl e
                     | Inr m \<Rightarrow> (case validate_deprecation_schedule m of Inl e \<Rightarrow> Inl e | Inr _ \<Rightarrow> Inr m)))))"

section \<open>The SQL reading\<close>

text \<open>\<open>metadata->>key\<close> of a value, where the text matters: floats, arrays and objects have none that the expression compares with.\<close>

definition sql_text :: "json option \<Rightarrow> string" where
  "sql_text v =
     (case v of
        Some (JString s) \<Rightarrow> s
      | Some (JBool b) \<Rightarrow> if b then ''true'' else ''false''
      | Some (JInt i) \<Rightarrow> (if i < 0 then ''-'' else []) @ decimal (nat \<bar>i\<bar>)
      | _ \<Rightarrow> [])"

definition sql_trim :: "string \<Rightarrow> string" where
  "sql_trim s = strip_chars '' '' s"

definition sql_effective_lifecycle :: "version_metadata \<Rightarrow> lifecycle" where
  "sql_effective_lifecycle m =
     (case lifecycle_of_text (lower (sql_trim (sql_text (map_of m ''lifecycle'')))) of
        Some l \<Rightarrow> l
      | None \<Rightarrow>
          if sql_text (map_of m ''deprecated'') \<in> {''true'', ''1'', ''True'', ''yes''} \<or> map_of m ''deprecated'' = Some (JBool True)
          then Deprecated else Stable)"

section \<open>What readers are told\<close>

datatype timeline_status = Announced | Imminent | Past
datatype lifecycle_phase = DeprecatedPhase | SunsetReached

definition sunset_timeline_fields :: "version_metadata \<Rightarrow> int \<Rightarrow> timeline_status \<times> lifecycle_phase \<times> string option" where
  "sunset_timeline_fields m today =
     (let norm_sunset = effective_sunset_string m
      in case parse_calendar_date norm_sunset of
        Some d \<Rightarrow>
          (if d < today then (Past, SunsetReached, norm_sunset)
           else if d - today \<le> 30 then (Imminent, DeprecatedPhase, norm_sunset)
           else (Announced, DeprecatedPhase, norm_sunset))
      | None \<Rightarrow> (Announced, DeprecatedPhase, if is_revision_deprecated m then None else norm_sunset))"

definition migration_guide_issue_url :: string where
  "migration_guide_issue_url = ''https://github.com/KenSuenobu/objectified-commercial/issues/747''"

definition text_member :: "string \<Rightarrow> string option \<Rightarrow> version_metadata" where
  "text_member k v = (case v of Some s \<Rightarrow> [(k, JString s)] | None \<Rightarrow> [])"

definition deprecation_payload_for_openapi :: "version_metadata \<Rightarrow> version_metadata option" where
  "deprecation_payload_for_openapi m =
     (if \<not> is_revision_deprecated m then None
      else let sunset = effective_sunset_string m
        in Some ([(''deprecated'', JBool True), (''migrationGuideUrl'', JString migration_guide_issue_url)]
          @ text_member ''message'' (nonblank (get_or m ''deprecationMessage'' ''message''))
          @ text_member ''successorRevisionId'' (nonblank (get_or m ''successorRevisionId'' ''successor_revision_id''))
          @ text_member ''sunsetAt'' sunset @ text_member ''sunsetDate'' sunset))"

end
