(* ===== verification/RefreshExecutor.thy ===== *)
theory RefreshExecutor
  imports Sweep Lifecycle
begin

text \<open>
  What the executor of refresh jobs hands to the import worker (\<open>repository_refresh_executor.py\<close>): the
  stored import spec of a job, the provenance of the version it makes, the version line it lands in.
  \<open>loads\<close> is \<open>json.loads\<close>, \<open>None\<close> for text that is no JSON, and \<open>surface\<close> how the database driver surfaces
  the options column; with the sweep, every enqueued job replays the spec it was enqueued for.
\<close>

datatype options_value = OptionsAbsent | OptionsDict "(string, json) dict" | OptionsText string | OptionsOther

datatype executor_error = OptionsNotJson | OptionsNotObject | UnsupportedOptions | MissingSourceKind | ContradictingProjects

definition coerce_options_blob :: "(string \<Rightarrow> json option) \<Rightarrow> options_value \<Rightarrow> executor_error + (string, json) dict" where
  "coerce_options_blob loads raw =
     (case raw of
        OptionsAbsent \<Rightarrow> Inr []
      | OptionsDict d \<Rightarrow> Inr d
      | OptionsText s \<Rightarrow>
          (if strip s = [] then Inr []
           else (case loads (strip s) of
               None \<Rightarrow> Inl OptionsNotJson
             | Some (JObject d) \<Rightarrow> Inr d
             | Some _ \<Rightarrow> Inl OptionsNotObject))
      | OptionsOther \<Rightarrow> Inl UnsupportedOptions)"

record stored_spec =
  ss_source_kind :: string
  ss_format_override :: "string option"
  ss_content_type :: "string option"
  ss_options :: "(string, json) dict"
  ss_schema_version :: int

definition build_stored_spec_from_refresh_job ::
  "(string \<Rightarrow> json option) \<Rightarrow> (string \<Rightarrow> options_value) \<Rightarrow> refresh_job \<Rightarrow> executor_error + stored_spec" where
  "build_stored_spec_from_refresh_job loads surface job =
     (let source_kind = strip (case job_source_kind job of Some k \<Rightarrow> k | None \<Rightarrow> [])
      in if source_kind = [] then Inl MissingSourceKind
         else (case coerce_options_blob loads (surface (job_options job)) of
             Inl e \<Rightarrow> Inl e
           | Inr options \<Rightarrow> Inr \<lparr>ss_source_kind = source_kind, ss_format_override = job_format_override job,
               ss_content_type = job_content_type job, ss_options = options, ss_schema_version = job_schema_version job\<rparr>))"

definition clean_str :: "string option \<Rightarrow> string option" where
  "clean_str raw = (case raw of None \<Rightarrow> None | Some s \<Rightarrow> nonempty (strip s))"

record refresh_provenance =
  rp_parent_version :: "string option"
  rp_source_commit_sha :: "string option"
  rp_source_committed_at :: timestamp

definition build_refresh_provenance_from_job :: "refresh_job \<Rightarrow> string option \<Rightarrow> refresh_provenance" where
  "build_refresh_provenance_from_job job parent = \<lparr>rp_parent_version = clean_str parent,
     rp_source_commit_sha = clean_str (job_remote_commit_sha job), rp_source_committed_at = job_remote_committed_at job\<rparr>"

record version_target =
  vt_version_id :: string
  vt_description :: "string option"

text \<open>The project an import goes to: an existing one by its identifier, or a new one by name and slug.\<close>

record project_target =
  pt_project :: "string option"
  pt_name :: "string option"
  pt_slug :: "string option"

record start_metadata =
  sm_source_kind :: string
  sm_project :: project_target
  sm_version :: version_target
  sm_existing_project :: "string option"
  sm_spec :: stored_spec
  sm_provenance :: refresh_provenance

definition auto_import_source_kind :: string where
  "auto_import_source_kind = ''repository_auto_import''"

definition target_ids_disagree :: "project_target \<Rightarrow> string option \<Rightarrow> bool" where
  "target_ids_disagree project existing =
     (case (pt_project project, existing) of
        (Some a, Some b) \<Rightarrow> a \<noteq> [] \<and> b \<noteq> [] \<and> a \<noteq> b
      | _ \<Rightarrow> False)"

definition build_auto_refresh_import_metadata ::
  "(string \<Rightarrow> json option) \<Rightarrow> (string \<Rightarrow> options_value) \<Rightarrow> refresh_job \<Rightarrow> project_target \<Rightarrow> version_target \<Rightarrow> string option \<Rightarrow> string option
     \<Rightarrow> executor_error + start_metadata" where
  "build_auto_refresh_import_metadata loads surface job project version existing parent =
     (case build_stored_spec_from_refresh_job loads surface job of
        Inl e \<Rightarrow> Inl e
      | Inr spec \<Rightarrow>
          (if target_ids_disagree project existing then Inl ContradictingProjects
           else Inr \<lparr>sm_source_kind = auto_import_source_kind, sm_project = project, sm_version = version, sm_existing_project = existing,
             sm_spec = spec, sm_provenance = build_refresh_provenance_from_job job parent\<rparr>))"

definition format_version_tag :: "py_datetime \<Rightarrow> string" where
  "format_version_tag w = instant_minutes (instant w) @ ''Z''"

definition version_line_label :: "string \<Rightarrow> py_datetime \<Rightarrow> string" where
  "version_line_label line w = line @ ''-'' @ format_version_tag w"

definition build_version_line_target :: "refresh_job \<Rightarrow> py_datetime \<Rightarrow> version_target option" where
  "build_version_line_target job now =
     (case clean_str (job_version_line job) of
        None \<Rightarrow> None
      | Some line \<Rightarrow> Some \<lparr>vt_version_id = version_line_label line now,
          vt_description = Some (case clean_str (Some (job_branch job)) of
              Some branch \<Rightarrow> ''Refreshed from branch '' @ branch @ '' into version line '' @ line
            | None \<Rightarrow> ''Refreshed into version line '' @ line)\<rparr>)"

section \<open>Replaying the import\<close>

text \<open>
  JSON text has only blanks around it, and blank text is none; the driver surfaces the column as the
  object it holds or as its text.
\<close>

definition reads_json :: "(string \<Rightarrow> json option) \<Rightarrow> bool" where
  "reads_json loads \<longleftrightarrow> (\<forall>t v. loads t = Some v \<longrightarrow> strip t \<noteq> [] \<and> loads (strip t) = Some v)"

definition surfaces_json :: "(string \<Rightarrow> json option) \<Rightarrow> (string \<Rightarrow> options_value) \<Rightarrow> bool" where
  "surfaces_json loads surface \<longleftrightarrow> (\<forall>t d. loads t = Some (JObject d) \<longrightarrow> surface t \<in> {OptionsDict d, OptionsText t})"

lemma surfaced_options:
  "reads_json loads \<Longrightarrow> surfaces_json loads surface \<Longrightarrow> loads t = Some (JObject d) \<Longrightarrow> coerce_options_blob loads (surface t) = Inr d"
  unfolding reads_json_def surfaces_json_def coerce_options_blob_def by fastforce

text \<open>The jobs a tick adds, hydrated: the kind, format, content type and options are those stored at the first import.\<close>

theorem hydrated_job_replays_the_import:
  assumes "process_repository_refresh_sweep env st db = Some s" and "reads_json loads" and "surfaces_json loads surface"
  shows "\<exists>new. refresh_jobs (sw_db s) = refresh_jobs db @ new \<and>
     (\<forall>j \<in> set new. \<exists>spec \<in> set (import_specs db). replays spec j \<and>
        (\<forall>kind options. spec_source_kind spec = Some kind \<and> strip kind \<noteq> [] \<and> loads (spec_options spec) = Some (JObject options) \<longrightarrow>
           build_stored_spec_from_refresh_job loads surface j =
             Inr \<lparr>ss_source_kind = strip kind, ss_format_override = spec_format_override spec, ss_content_type = spec_content_type spec,
               ss_options = options, ss_schema_version = job_schema_version j\<rparr>))"
proof -
  obtain new where new: "refresh_jobs (sw_db s) = refresh_jobs db @ new" "\<forall>j \<in> set new. \<exists>spec \<in> set (import_specs db). replays spec j"
  proof (cases "rs_enabled st")
    case False
    then show ?thesis using that[of "[]"] assms(1) sweep_disabled[OF False, of env db] by auto
  next
    case True
    let ?s0 = "\<lparr>sw_db = db, sw_quota = load_tracker env st db, sw_total = 0, sw_notices = []\<rparr>"
    obtain rows where fold: "s = fold (sweep_repository env st) rows ?s0" using sweep_visits[OF assms(1) True] .
    show ?thesis using that sweep_jobs[of env st rows ?s0] unfolding fold new_job_def by fastforce
  qed
  have "build_stored_spec_from_refresh_job loads surface j =
      Inr \<lparr>ss_source_kind = strip kind, ss_format_override = spec_format_override spec, ss_content_type = spec_content_type spec,
        ss_options = options, ss_schema_version = job_schema_version j\<rparr>"
    if r: "replays spec j" and k: "spec_source_kind spec = Some kind" "strip kind \<noteq> []" and o: "loads (spec_options spec) = Some (JObject options)"
    for spec j kind options
  proof -
    have "strip (spec_options spec) \<noteq> []" using o assms(2) by (auto simp: reads_json_def)
    then have "job_options j = spec_options spec" using r by (simp add: replays_def)
    then show ?thesis
      using r k surfaced_options[OF assms(2,3) o] by (simp add: build_stored_spec_from_refresh_job_def replays_def)
  qed
  then show ?thesis using new by blast
qed

end
