(* ===== verification/LifecycleSound.thy ===== *)
theory LifecycleSound
  imports Lifecycle
begin

text \<open>
  What an accepted update of a revision's metadata guarantees (\<open>revision_lifecycle.py\<close>,
  \<open>revision_deprecation.py\<close>): the move along the life cycle, the agreement of the Python and the SQL
  reading, the schedule, and that what is stored is a fixed point of the update.
\<close>

named_theorems metadata_simps \<open>reading metadata after the steps of an update\<close>

section \<open>Reading after a step\<close>

lemma map_of_pop_keys [simp]: "map_of (pop_keys ks m) k = (if k \<in> set ks then None else map_of m k)"
  by (induction ks arbitrary: m) (auto simp: pop_keys_def)

lemmas key_sets = sunset_alias_keys_def deprecated_at_keys_def successor_alias_keys_def deprecation_msg_alias_keys_def
  removable_deprecation_keys_def leaving_keys_def

lemma nonblank_text: "nonblank v = Some s \<Longrightarrow> strip s = s \<and> s \<noteq> []"
  by (auto simp: nonblank_def split: option.splits json.splits)

lemma first_text_some: "first_text ks m = Some s \<Longrightarrow> strip s = s \<and> s \<noteq> [] \<and> (\<exists>k \<in> set ks. nonblank (map_of m k) = Some s)"
  by (induction ks) (auto split: option.splits dest: nonblank_text)

lemma lifecycle_texts:
  "list_all (\<lambda>l. lifecycle_of_text (lifecycle_text l) = Some l \<and> lower (strip (lifecycle_text l)) = lifecycle_text l
     \<and> lower (sql_trim (lifecycle_text l)) = lifecycle_text l) [Stable, Beta, Deprecated, Archived]"
  by code_simp

lemma lifecycle_text_plain [simp]:
  "lifecycle_of_text (lifecycle_text l) = Some l" "lower (strip (lifecycle_text l)) = lifecycle_text l"
  "lower (sql_trim (lifecycle_text l)) = lifecycle_text l"
  using lifecycle_texts by (cases l; simp only: list.pred_inject)+

lemma normalize_lifecycle_text [simp]: "normalize_lifecycle_token (Some (JString (lifecycle_text l))) = Some l"
  by (simp add: normalize_lifecycle_token_def)

section \<open>Instants\<close>

lemma two_digits_digits: "0 \<le> n \<Longrightarrow> n < 100 \<Longrightarrow> list_all is_digit (two_digits n)"
proof -
  assume n: "0 \<le> n" "n < 100"
  moreover from n have "nat (n div 10) < 10" "0 \<le> n div 10" by (auto simp: pos_imp_zdiv_nonneg_iff)
  ultimately show ?thesis using digit_char[of "nat (n div 10)"] digit_char[of "nat (n mod 10)"] by (simp add: two_digits_def is_digit_def)
qed

text \<open>A stored instant: the text of an instant of a year from 1000 to 9999.\<close>

lemma day_of_seconds: "i div day_usec = i div usec div 86400"
  by (simp add: zdiv_zmult2_eq[symmetric])

lemma format_whole_seconds: "format_utc_z (i div usec * usec) = format_utc_z i"
  by (simp add: format_utc_z_def instant_seconds_def day_of_seconds)

lemma instant_text_clean:
  assumes "four_digit_day (i div day_usec)"
  shows "strip (format_utc_z i) = format_utc_z i" "length (format_utc_z i) = 20"
proof -
  let ?n = "i div day_usec" and ?t = "i div usec mod 86400"
  obtain y m d where c: "civil ?n = (y, m, d)" by (cases "civil ?n")
  note v = civil_date[OF four_digit_year(2)[OF assms] c]
  have "0 \<le> m" "m < 100" "0 \<le> d" "d < 100" using v by (auto simp: days_in_month_def split: if_splits)
  moreover have "0 \<le> ?t div 3600" "?t div 3600 < 100" "0 \<le> ?t div 60 mod 60" "?t div 60 mod 60 < 100" "0 \<le> ?t mod 60" "?t mod 60 < 100"
  proof -
    have t: "0 \<le> ?t" "?t < 86400" by simp_all
    have m: "0 \<le> x mod 60 \<and> x mod 60 < 100" for x :: int using pos_mod_sign[of 60 x] pos_mod_bound[of 60 x] by linarith
    have "0 \<le> x div 3600 \<and> x div 3600 < 100 \<and> 0 \<le> x div 60 mod 60 \<and> x div 60 mod 60 < 100 \<and> 0 \<le> x mod 60 \<and> x mod 60 < 100"
      if "0 \<le> x" "x < 86400" for x :: int
      using that m[of x] m[of "x div 60"] by (simp add: pos_imp_zdiv_nonneg_iff)
    from this[OF t] show "0 \<le> ?t div 3600" "?t div 3600 < 100" "0 \<le> ?t div 60 mod 60" "?t div 60 mod 60 < 100" "0 \<le> ?t mod 60" "?t mod 60 < 100"
      by blast+
  qed
  moreover have "\<forall>x \<in> set (decimal (nat y)). \<not> py_space x" using decimal_digits[of "nat y"] digit_no_space by (auto simp: list_all_iff)
  moreover have "\<forall>x \<in> set (two_digits k). \<not> py_space x" if "0 \<le> k" "k < 100" for k
    using two_digits_digits[OF that] digit_no_space by (auto simp: list_all_iff)
  moreover have "\<forall>x \<in> set ''-T:Z''. \<not> py_space x" by (simp add: py_space_def)
  then have "\<forall>x \<in> set ''-''. \<not> py_space x" "\<forall>x \<in> set ''T''. \<not> py_space x" "\<forall>x \<in> set '':''. \<not> py_space x" "\<forall>x \<in> set ''Z''. \<not> py_space x"
    by simp_all
  ultimately have "\<forall>x \<in> set (format_utc_z i). \<not> py_space x"
    unfolding format_utc_z_def instant_seconds_def date_text_def second_text_def minute_text_def c prod.case set_append ball_Un by blast
  then show "strip (format_utc_z i) = format_utc_z i" by (rule strip_clean)
  show "length (format_utc_z i) = 20"
    using date_text_length[OF assms] by (simp add: format_utc_z_def instant_seconds_def second_text_def minute_text_def two_digits_def)
qed

lemma parse_written:
  assumes "four_digit_day (i div day_usec)"
  shows "parse_iso_utc_instant (Some (format_utc_z i)) = Inr (Some (i div usec * usec))"
proof -
  have "last (format_utc_z i) = CHR ''Z''" "butlast (format_utc_z i) = instant_seconds i" "format_utc_z i \<noteq> []"
    by (simp_all add: format_utc_z_def)
  moreover have "instant_in_range (i div usec * usec)"
  proof -
    have "- 354285 \<le> i div usec div 86400" "i div usec div 86400 < 2932897"
      using assms by (simp_all add: four_digit_day_def day_of_seconds)
    then show ?thesis unfolding instant_in_range_def by linarith
  qed
  ultimately show ?thesis
    using instant_text_clean[OF assms] instant_seconds_roundtrip[OF assms] by (simp add: parse_iso_utc_instant_def)
qed

lemma normalize_written:
  assumes "four_digit_day (i div day_usec)"
  shows "normalize_sunset_instant_str (Some (format_utc_z i)) = Inr (Some (format_utc_z i))" "nonblank (Some (JString (format_utc_z i))) = Some (format_utc_z i)"
  using instant_text_clean[OF assms] parse_written[OF assms]
  by (auto simp: normalize_sunset_instant_str_def format_whole_seconds nonblank_def)

section \<open>Storage form\<close>

definition recent_instant :: "string option \<Rightarrow> bool" where
  "recent_instant t = (case parse_iso_utc_instant t of Inr (Some i) \<Rightarrow> four_digit_day (i div day_usec) | _ \<Rightarrow> True)"

text \<open>The dates that metadata name, if any, are of the years 1000 to 9999.\<close>

definition recent_instants :: "version_metadata \<Rightarrow> bool" where
  "recent_instants m \<longleftrightarrow> recent_instant (effective_sunset_string m) \<and> recent_instant (effective_deprecated_at_string m)"

definition stored_instant :: "json option \<Rightarrow> bool" where
  "stored_instant v \<longleftrightarrow> v = None \<or> (\<exists>i. four_digit_day (i div day_usec) \<and> v = Some (JString (format_utc_z i)))"

definition stored_text :: "json option \<Rightarrow> bool" where
  "stored_text v \<longleftrightarrow> v = None \<or> (\<exists>s. v = Some (JString s) \<and> strip s = s \<and> s \<noteq> [])"

definition in_storage_form :: "version_metadata \<Rightarrow> bool" where
  "in_storage_form m \<longleftrightarrow>
     map_of m ''sunset_date'' = None \<and> map_of m ''deprecated_at'' = None \<and> map_of m ''successor_revision_id'' = None
     \<and> map_of m ''sunsetDate'' = map_of m ''sunsetAt'' \<and> stored_instant (map_of m ''sunsetAt'') \<and> stored_instant (map_of m ''deprecatedAt'')
     \<and> stored_text (map_of m ''successorRevisionId'')"

lemma normalize_instant:
  assumes "normalize_sunset_instant_str (Some raw) = Inr written" and "recent_instant (Some raw)" and "strip raw = raw" and "raw \<noteq> []"
  shows "stored_instant (Some (text_value written))"
  using assms by (auto simp: normalize_sunset_instant_str_def recent_instant_def stored_instant_def text_value_def split: sum.splits option.splits if_splits)

lemma store_sunset_result:
  assumes "store_sunset m = Inr m'" and "recent_instant (effective_sunset_string m)"
  shows "(\<forall>k. k \<notin> set sunset_alias_keys \<longrightarrow> map_of m' k = map_of m k) \<and> map_of m' ''sunset_date'' = None
    \<and> map_of m' ''sunsetDate'' = map_of m' ''sunsetAt'' \<and> stored_instant (map_of m' ''sunsetAt'')"
proof (cases "effective_sunset_string m")
  case None
  then show ?thesis using assms by (auto simp: store_sunset_def key_sets stored_instant_def)
next
  case (Some raw)
  then have "strip raw = raw \<and> raw \<noteq> []" using first_text_some unfolding effective_sunset_string_def by blast
  with Some assms normalize_instant[of raw] show ?thesis
    by (auto simp: store_sunset_def key_sets split: sum.splits)
qed

lemma store_deprecated_at_result:
  assumes "store_deprecated_at m = Inr m'" and "recent_instant (effective_deprecated_at_string m)"
  shows "(\<forall>k. k \<notin> set deprecated_at_keys \<longrightarrow> map_of m' k = map_of m k) \<and> map_of m' ''deprecated_at'' = None
    \<and> stored_instant (map_of m' ''deprecatedAt'')"
proof (cases "effective_deprecated_at_string m")
  case None
  then show ?thesis using assms by (auto simp: store_deprecated_at_def key_sets stored_instant_def)
next
  case (Some raw)
  then have "strip raw = raw \<and> raw \<noteq> []" using first_text_some unfolding effective_deprecated_at_string_def by blast
  with Some assms normalize_instant[of raw] show ?thesis
    by (auto simp: store_deprecated_at_def key_sets split: sum.splits)
qed

lemma store_successor_result:
  "(\<forall>k. k \<notin> set successor_alias_keys \<longrightarrow> map_of (store_successor m) k = map_of m k) \<and> map_of (store_successor m) ''successor_revision_id'' = None
    \<and> stored_text (map_of (store_successor m) ''successorRevisionId'')"
  using nonblank_text[of "get_or m ''successorRevisionId'' ''successor_revision_id''"]
  by (auto simp: store_successor_def key_sets stored_text_def split: option.splits)

lemma first_text_cong: "(\<And>k. k \<in> set ks \<Longrightarrow> map_of m' k = map_of m k) \<Longrightarrow> first_text ks m' = first_text ks m"
  by (induction ks) (auto split: option.split)

lemma keys_apart:
  "set sunset_alias_keys \<inter> set deprecated_at_keys = {}" "set sunset_alias_keys \<inter> set successor_alias_keys = {}"
  "set deprecated_at_keys \<inter> set successor_alias_keys = {}"
  "''sunset_date'' \<in> set sunset_alias_keys" "''sunsetDate'' \<in> set sunset_alias_keys" "''sunsetAt'' \<in> set sunset_alias_keys"
  "''deprecated_at'' \<in> set deprecated_at_keys" "''deprecatedAt'' \<in> set deprecated_at_keys"
  "''lifecycle'' \<notin> set leaving_keys" "''deprecated'' \<notin> set leaving_keys"
  by (simp_all add: key_sets)

lemma storage_form:
  assumes "normalize_deprecation_metadata_for_storage m = Inr m'" and "recent_instants m"
  shows "in_storage_form m' \<and> (\<forall>k. k \<notin> set leaving_keys \<longrightarrow> map_of m' k = map_of m k)"
proof -
  obtain a b where a: "store_sunset m = Inr a" and b: "store_deprecated_at a = Inr b" and m': "m' = store_successor b"
    using assms(1) by (auto simp: normalize_deprecation_metadata_for_storage_def split: sum.splits)
  have recent: "recent_instant (effective_sunset_string m)" "recent_instant (effective_deprecated_at_string m)"
    using assms(2) by (simp_all add: recent_instants_def)
  note A = store_sunset_result[OF a recent(1)]
  have "effective_deprecated_at_string a = effective_deprecated_at_string m"
    unfolding effective_deprecated_at_string_def by (rule first_text_cong) (use A keys_apart(1) in blast)
  note B = store_deprecated_at_result[OF b, unfolded this, OF recent(2)]
  note C = store_successor_result[of b, folded m']
  have late: "map_of m' k = map_of a k" if "k \<in> set sunset_alias_keys" for k
    using that B C keys_apart by (metis disjoint_iff)
  have mid: "map_of m' k = map_of b k" if "k \<in> set deprecated_at_keys" for k
    using that C keys_apart by (metis disjoint_iff)
  have "in_storage_form m'"
    unfolding in_storage_form_def using A B C late[OF keys_apart(4)] late[OF keys_apart(5)] late[OF keys_apart(6)]
      mid[OF keys_apart(7)] mid[OF keys_apart(8)] by simp
  moreover have "map_of m' k = map_of m k" if "k \<notin> set leaving_keys" for k
    using that A B C by (simp add: leaving_keys_def)
  ultimately show ?thesis by blast
qed

text \<open>What is in storage form is stored as it is.\<close>

lemma update_same: "map_of m k = Some v \<Longrightarrow> AList.update k v m = m"
  by (induction m) auto

lemma delete_missing: "map_of m k = None \<Longrightarrow> AList.delete k m = m"
  by (induction m) (auto simp: AList.delete_eq)

lemma pop_absent: "(\<And>k. k \<in> set ks \<Longrightarrow> map_of m k = None) \<Longrightarrow> pop_keys ks m = m"
  by (induction ks) (auto simp: pop_keys_def delete_missing)

lemma stored_instant_normal:
  assumes "stored_instant v" and "v \<noteq> None"
  obtains s where "v = Some (JString s)" "nonblank v = Some s" "normalize_sunset_instant_str (Some s) = Inr (Some s)"
  using assms normalize_written unfolding stored_instant_def by metis

lemma store_sunset_stored:
  assumes "in_storage_form m"
  shows "store_sunset m = Inr m"
proof (cases "map_of m ''sunsetAt''")
  case None
  then show ?thesis using assms
    by (auto simp: store_sunset_def effective_sunset_string_def key_sets in_storage_form_def nonblank_def intro!: pop_absent)
next
  case (Some v)
  then obtain s where "map_of m ''sunsetAt'' = Some (JString s)" "nonblank (map_of m ''sunsetAt'') = Some s"
    "normalize_sunset_instant_str (Some s) = Inr (Some s)"
    using assms stored_instant_normal[of "map_of m ''sunsetAt''"] unfolding in_storage_form_def by (metis option.discI)
  with assms show ?thesis
    by (simp add: store_sunset_def effective_sunset_string_def sunset_alias_keys_def in_storage_form_def text_value_def update_same delete_missing)
qed

lemma store_deprecated_at_stored:
  assumes "in_storage_form m"
  shows "store_deprecated_at m = Inr m"
proof (cases "map_of m ''deprecatedAt''")
  case None
  then show ?thesis using assms
    by (auto simp: store_deprecated_at_def effective_deprecated_at_string_def key_sets in_storage_form_def nonblank_def intro!: pop_absent)
next
  case (Some v)
  then obtain s where "map_of m ''deprecatedAt'' = Some (JString s)" "nonblank (map_of m ''deprecatedAt'') = Some s"
    "normalize_sunset_instant_str (Some s) = Inr (Some s)"
    using assms stored_instant_normal[of "map_of m ''deprecatedAt''"] unfolding in_storage_form_def by (metis option.discI)
  with assms show ?thesis
    by (simp add: store_deprecated_at_def effective_deprecated_at_string_def deprecated_at_keys_def in_storage_form_def text_value_def update_same delete_missing)
qed

lemma store_successor_stored:
  assumes "in_storage_form m"
  shows "store_successor m = m"
proof (cases "map_of m ''successorRevisionId''")
  case None
  then show ?thesis using assms
    by (auto simp: store_successor_def get_or_def key_sets in_storage_form_def nonblank_def intro!: pop_absent)
next
  case (Some v)
  then obtain s where "map_of m ''successorRevisionId'' = Some (JString s)" "strip s = s" "s \<noteq> []"
    using assms by (auto simp: in_storage_form_def stored_text_def)
  with assms show ?thesis
    by (simp add: store_successor_def get_or_def truthy_def nonblank_def nonempty_def in_storage_form_def update_same delete_missing)
qed

lemma stored_is_normal: "in_storage_form m \<Longrightarrow> normalize_deprecation_metadata_for_storage m = Inr m"
  by (simp add: normalize_deprecation_metadata_for_storage_def store_sunset_stored store_deprecated_at_stored store_successor_stored)

section \<open>The update\<close>

lemma effective_lifecycle_cong:
  "map_of m' ''lifecycle'' = map_of m ''lifecycle'' \<Longrightarrow> map_of m' ''deprecated'' = map_of m ''deprecated'' \<Longrightarrow>
     effective_lifecycle m' = effective_lifecycle m \<and> is_revision_deprecated m' = is_revision_deprecated m"
  by (simp add: effective_lifecycle_def is_revision_deprecated_def)

lemma apply_lifecycle_keys:
  "map_of (apply_lifecycle old new m) ''lifecycle'' = Some (JString (lifecycle_text new))"
  "map_of (apply_lifecycle old new m) ''deprecated'' =
     (if new = Deprecated then Some (JBool True) else if new \<in> {Stable, Beta} \<and> old = Deprecated then Some (JBool False)
      else map_of m ''deprecated'')"
  using keys_apart(9,10) by (simp_all add: apply_lifecycle_def Let_def)

lemma apply_lifecycle_dates:
  "k \<in> set leaving_keys \<Longrightarrow>
     map_of (apply_lifecycle old new m) k = (if new \<in> {Stable, Beta} \<and> \<not> is_revision_deprecated (apply_lifecycle old new m) then None else map_of m k)"
  using keys_apart(9,10) by (auto simp: apply_lifecycle_def Let_def is_revision_deprecated_def)

lemma apply_lifecycle_recent:
  assumes "recent_instants m"
  shows "recent_instants (apply_lifecycle old new m)"
proof -
  have *: "recent_instant (first_text ks (apply_lifecycle old new m))"
    if "recent_instant (first_text ks m)" "set ks \<subseteq> set leaving_keys" for ks
  proof (cases "new \<in> {Stable, Beta} \<and> \<not> is_revision_deprecated (apply_lifecycle old new m)")
    case True
    then have "first_text ks (apply_lifecycle old new m) = first_text ks []"
      using that(2) by (intro first_text_cong) (auto simp: apply_lifecycle_dates)
    moreover have "first_text ks [] = None" by (induction ks) (auto simp: nonblank_def)
    ultimately show ?thesis by (simp add: recent_instant_def parse_iso_utc_instant_def)
  next
    case False
    then have "first_text ks (apply_lifecycle old new m) = first_text ks m"
      using that(2) by (intro first_text_cong) (auto simp: apply_lifecycle_dates)
    then show ?thesis using that(1) by simp
  qed
  show ?thesis using assms unfolding recent_instants_def effective_sunset_string_def effective_deprecated_at_string_def
    by (intro conjI *) (auto simp: leaving_keys_def)
qed

text \<open>The metadata an update works on, after the merge and the reset of a life cycle that lost its flag.\<close>

definition merged_metadata :: "version_metadata \<Rightarrow> version_metadata \<Rightarrow> version_metadata" where
  "merged_metadata existing p =
     (let m = merge_version_metadata existing (Some p)
      in if map_of p ''deprecated'' = Some (JBool False) \<and> effective_lifecycle existing = Deprecated \<and> requested_lifecycle p = Inr None
         then AList.update ''lifecycle'' (JString (lifecycle_text Stable)) m else m)"

lemma accepted_update:
  assumes "prepare_version_metadata_update admin existing (Some p) = Inr m"
  shows "validate_lifecycle_transition admin (effective_lifecycle existing) (effective_lifecycle (merged_metadata existing p)) = Inr ()"
    "normalize_deprecation_metadata_for_storage
       (apply_lifecycle (effective_lifecycle existing) (effective_lifecycle (merged_metadata existing p)) (merged_metadata existing p)) = Inr m"
    "validate_deprecation_schedule m = Inr ()"
  using assms by (auto simp: prepare_version_metadata_update_def merged_metadata_def Let_def split: sum.splits)

text \<open>The dates of a merge are not touched by the reset.\<close>

lemma merged_recent: "recent_instants (merge_version_metadata existing (Some p)) \<Longrightarrow> recent_instants (merged_metadata existing p)"
proof -
  have *: "first_text ks (merged_metadata existing p) = first_text ks (merge_version_metadata existing (Some p))"
    if "''lifecycle'' \<notin> set ks" for ks
    using that by (intro first_text_cong) (auto simp: merged_metadata_def Let_def)
  have "''lifecycle'' \<notin> set sunset_alias_keys" "''lifecycle'' \<notin> set deprecated_at_keys" by (simp_all add: key_sets)
  then show "recent_instants (merge_version_metadata existing (Some p)) \<Longrightarrow> recent_instants (merged_metadata existing p)"
    by (simp add: recent_instants_def effective_sunset_string_def effective_deprecated_at_string_def *)
qed

lemma storage_keeps:
  assumes "normalize_deprecation_metadata_for_storage m = Inr m'" and "k \<notin> set leaving_keys"
  shows "map_of m' k = map_of m k"
proof -
  obtain a b where a: "store_sunset m = Inr a" and b: "store_deprecated_at a = Inr b" and m': "m' = store_successor b"
    using assms(1) by (auto simp: normalize_deprecation_metadata_for_storage_def split: sum.splits)
  have k: "k \<notin> set sunset_alias_keys" "k \<notin> set deprecated_at_keys" "k \<notin> set successor_alias_keys"
    using assms(2) by (auto simp: leaving_keys_def)
  have "map_of a k = map_of m k" using a k(1) by (auto simp: store_sunset_def key_sets split: option.splits sum.splits)
  moreover have "map_of b k = map_of a k" using b k(2) by (auto simp: store_deprecated_at_def key_sets split: option.splits sum.splits)
  moreover have "map_of m' k = map_of b k" using store_successor_result[of b] k(3) by (simp add: m')
  ultimately show ?thesis by simp
qed

lemma update_lifecycle:
  assumes "prepare_version_metadata_update admin existing (Some p) = Inr m"
  shows "map_of m ''lifecycle'' = Some (JString (lifecycle_text (effective_lifecycle m)))"
    "effective_lifecycle m = effective_lifecycle (merged_metadata existing p)"
    "map_of m ''deprecated'' = (if effective_lifecycle m = Deprecated then Some (JBool True)
       else if effective_lifecycle m \<in> {Stable, Beta} \<and> effective_lifecycle existing = Deprecated then Some (JBool False)
       else map_of (merged_metadata existing p) ''deprecated'')"
proof -
  let ?old = "effective_lifecycle existing" and ?new = "effective_lifecycle (merged_metadata existing p)"
  note n = accepted_update(2)[OF assms]
  have l: "map_of m ''lifecycle'' = Some (JString (lifecycle_text ?new))"
    using storage_keeps[OF n keys_apart(9)] by (simp add: apply_lifecycle_keys)
  then show "effective_lifecycle m = ?new" by (simp add: effective_lifecycle_def)
  then show "map_of m ''lifecycle'' = Some (JString (lifecycle_text (effective_lifecycle m)))"
    "map_of m ''deprecated'' = (if effective_lifecycle m = Deprecated then Some (JBool True)
       else if effective_lifecycle m \<in> {Stable, Beta} \<and> ?old = Deprecated then Some (JBool False)
       else map_of (merged_metadata existing p) ''deprecated'')"
    using l storage_keeps[OF n keys_apart(10)] by (simp_all add: apply_lifecycle_keys)
qed

lemma allowed_move: "validate_lifecycle_transition admin old new = Inr () \<longleftrightarrow> new = old \<or> new \<in> set (lifecycle_transitions old) \<or> old = Archived \<and> admin"
  by (cases old; cases new) (auto simp: validate_lifecycle_transition_def)

lemma patched_key:
  assumes "wf_dict p" and "k \<notin> set removable_deprecation_keys"
  shows "map_of (fold patch_key p m) k = (case map_of p k of Some v \<Rightarrow> Some v | None \<Rightarrow> map_of m k)"
  using assms
proof (induction p arbitrary: m)
  case (Cons kv p)
  obtain j v where kv: "kv = (j, v)" by (cases kv)
  have "map_of (patch_key kv m) k = (if k = j then Some v else map_of m k)" using Cons.prems by (auto simp: patch_key_def kv)
  moreover have "k = j \<Longrightarrow> map_of p k = None" using Cons.prems by (simp add: wf_dict_def kv map_of_eq_None_iff)
  ultimately show ?case using Cons by (auto simp: wf_dict_def kv split: option.split)
qed simp

lemma merged_key:
  assumes "wf_dict p" and "k \<notin> set removable_deprecation_keys"
  shows "map_of (merge_version_metadata m (Some p)) k = (case map_of p k of Some v \<Rightarrow> Some v | None \<Rightarrow> map_of m k)"
  using assms patched_key[OF assms] by (simp add: merge_version_metadata_def Let_def removable_deprecation_keys_def)

lemma requested_wins:
  assumes "wf_dict p" and "requested_lifecycle p = Inr (Some l)"
  shows "effective_lifecycle (merged_metadata existing p) = l"
proof -
  have "''lifecycle'' \<notin> set removable_deprecation_keys" by (simp add: key_sets)
  moreover obtain v where "map_of p ''lifecycle'' = Some v" "normalize_lifecycle_token (Some v) = Some l"
    using assms(2) by (auto simp: requested_lifecycle_def split: option.splits json.splits)
  ultimately show ?thesis using assms merged_key[OF assms(1)] by (simp add: merged_metadata_def effective_lifecycle_def)
qed


text \<open>A deprecation three months before its sunset, with a successor; the texts are those of the interface.\<close>

definition demo_deprecation :: version_metadata where
  "demo_deprecation = [(''lifecycle'', JString ''Deprecated ''), (''deprecatedAt'', JString ''2026-09-01''),
     (''sunset_date'', JString ''2026-12-01T01:30:00.5+01:00''), (''successorRevisionId'', JString (demo_id CHR ''b''))]"

definition demo_deprecated :: version_metadata where
  "demo_deprecated = [(''team'', JString ''core''), (''lifecycle'', JString ''deprecated''), (''deprecatedAt'', JString ''2026-09-01T00:00:00Z''),
     (''successorRevisionId'', JString (demo_id CHR ''b'')), (''deprecated'', JBool True),
     (''sunsetAt'', JString ''2026-12-01T00:30:00Z''), (''sunsetDate'', JString ''2026-12-01T00:30:00Z'')]"

lemma demo_update: "prepare_version_metadata_update False [(''team'', JString ''core'')] (Some demo_deprecation) = Inr demo_deprecated"
  by code_simp


text \<open>An archived revision stays archived under any run of updates, accepted or not, none of them by an administrator.\<close>

definition updated :: "bool \<times> version_metadata \<Rightarrow> version_metadata \<Rightarrow> version_metadata" where
  "updated u m = (case prepare_version_metadata_update (fst u) m (Some (snd u)) of Inr m' \<Rightarrow> m' | Inl _ \<Rightarrow> m)"

lemma archived_is_final:
  "list_all (\<lambda>u. \<not> fst u) us \<Longrightarrow> effective_lifecycle m = Archived \<Longrightarrow> effective_lifecycle (fold updated us m) = Archived"
proof (induction us arbitrary: m)
  case (Cons u us)
  have "effective_lifecycle (updated u m) = Archived"
  proof (cases "prepare_version_metadata_update (fst u) m (Some (snd u))")
    case (Inr m')
    note accepted_update(1)[OF Inr]
    moreover have "effective_lifecycle (updated u m) = effective_lifecycle (merged_metadata m (snd u))"
      using update_lifecycle(2)[OF Inr] unfolding updated_def Inr by simp
    ultimately show ?thesis using Cons.prems by (simp add: allowed_move)
  qed (use Cons.prems in \<open>simp add: updated_def\<close>)
  then show ?case using Cons by simp
qed simp

section \<open>The schedule\<close>

lemma stored_instant_parse:
  assumes "stored_instant (map_of m k)" and "nonblank (map_of m k) = Some t"
  obtains i where "parse_iso_utc_instant (Some t) = Inr (Some i)"
  using assms parse_written normalize_written(2) unfolding stored_instant_def by (metis nonblank_def option.distinct(1) option.inject option.simps(4))

lemma stored_sunset: "in_storage_form m \<Longrightarrow> effective_sunset_string m = nonblank (map_of m ''sunsetAt'')"
  by (simp add: effective_sunset_string_def sunset_alias_keys_def in_storage_form_def nonblank_def split: option.split)

lemma stored_deprecated_at: "in_storage_form m \<Longrightarrow> effective_deprecated_at_string m = nonblank (map_of m ''deprecatedAt'')"
  by (simp add: effective_deprecated_at_string_def deprecated_at_keys_def in_storage_form_def nonblank_def split: option.split)

lemma schedule_rules:
  assumes "validate_deprecation_schedule m = Inr ()" and "effective_sunset_string m = Some sunset"
  shows "effective_lifecycle m \<in> {Deprecated, Archived} \<or> is_revision_deprecated m"
    "nonblank (get_or m ''successorRevisionId'' ''successor_revision_id'') = Some u \<Longrightarrow> is_uuid_string u"
    "effective_deprecated_at_string m = Some since \<Longrightarrow> parse_iso_utc_instant (Some since) = Inr (Some i)
       \<Longrightarrow> parse_iso_utc_instant (Some sunset) = Inr (Some j) \<Longrightarrow> i \<le> j"
  using assms by (auto simp: validate_deprecation_schedule_def not_less split: if_splits option.splits sum.splits)

lemma update_idle:
  assumes "prepare_version_metadata_update admin existing (Some p) = Inr m" and "in_storage_form m"
  shows "prepare_version_metadata_update admin' m (Some []) = Inr m"
proof -
  let ?l = "effective_lifecycle m"
  note u = update_lifecycle[OF assms(1)]
  note n = accepted_update(2)[OF assms(1), folded u(2)] and v = accepted_update(3)[OF assms(1)]
  have merged: "merged_metadata m [] = m" by (simp add: merged_metadata_def merge_version_metadata_def)
  have same: "AList.update ''lifecycle'' (JString (lifecycle_text ?l)) m = m" using u(1) by (rule update_same)
  have flag: "?l = Deprecated \<Longrightarrow> AList.update ''deprecated'' (JBool True) m = m" using u(3) by (intro update_same) simp
  have "map_of m k = None" if l: "?l \<in> {Stable, Beta}" "\<not> is_revision_deprecated m" "k \<in> set leaving_keys" for k
  proof -
    let ?x = "apply_lifecycle (effective_lifecycle existing) ?l (merged_metadata existing p)"
    have "is_revision_deprecated ?x = is_revision_deprecated m"
      using storage_keeps[OF n keys_apart(10)] by (simp add: is_revision_deprecated_def)
    then have none: "map_of ?x k = None" if "k \<in> set leaving_keys" for k using l that by (simp add: apply_lifecycle_dates)
    then have "in_storage_form ?x" by (simp add: in_storage_form_def key_sets stored_instant_def stored_text_def)
    then have "?x = m" using stored_is_normal n by simp
    then show ?thesis using none l(3) by simp
  qed
  then have "apply_lifecycle ?l ?l m = m"
    using flag by (auto simp: apply_lifecycle_def Let_def same intro!: pop_absent)
  moreover have "validate_lifecycle_transition admin' ?l ?l = Inr ()" by (simp add: allowed_move)
  ultimately show ?thesis
    using v stored_is_normal[OF assms(2)] merged
    by (simp add: prepare_version_metadata_update_def Let_def requested_lifecycle_def merge_version_metadata_def)
qed



section \<open>What the update does not keep\<close>

text \<open>
  An archived revision that an administrator makes stable again keeps the flag and its sunset, and so
  does a stable one whose flag alone is patched: the life cycle says stable, every deprecation notice
  says deprecated. The SQL filter reads other spellings of the flag than Python does. A date on the
  edge of the calendar leaves by an exception that is no \<open>ValueError\<close>.
\<close>

definition demo_archived :: version_metadata where
  "demo_archived = AList.update ''lifecycle'' (JString ''archived'') demo_deprecated"

lemma unarchived_stays_deprecated:
  "map_option (\<lambda>m. (effective_lifecycle m, is_revision_deprecated m, effective_sunset_string m))
     (case prepare_version_metadata_update True demo_archived (Some [(''lifecycle'', JString ''stable'')]) of Inr m \<Rightarrow> Some m | _ \<Rightarrow> None)
   = Some (Stable, True, Some ''2026-12-01T00:30:00Z'')"
  by code_simp

lemma flag_without_life_cycle:
  "map_option (\<lambda>m. (effective_lifecycle m, is_revision_deprecated m))
     (case prepare_version_metadata_update False [(''lifecycle'', JString ''stable'')] (Some [(''deprecated'', JBool True)]) of Inr m \<Rightarrow> Some m | _ \<Rightarrow> None)
   = Some (Stable, True)"
  by code_simp

lemma sql_reads_other_flags:
  "effective_lifecycle [(''deprecated'', JString ''TRUE'')] = Deprecated \<and> sql_effective_lifecycle [(''deprecated'', JString ''TRUE'')] = Stable
   \<and> effective_lifecycle [(''deprecated'', JInt 1)] = Stable \<and> sql_effective_lifecycle [(''deprecated'', JInt 1)] = Deprecated"
  by code_simp

lemma edge_of_calendar_overflows:
  "prepare_version_metadata_update False [] (Some [(''lifecycle'', JString ''deprecated''), (''sunsetAt'', JString ''0001-01-01T00:00:00+01:00'')])
   = Inl DateOutOfRange"
  by code_simp

end
