(* ===== verification/Successor.thy ===== *)
theory Successor
  imports LifecycleSound
begin

text \<open>
  Revisions that name their successor (\<open>database.py\<close>): the lookup by identifier, the update of a revision with
  the check of its successor, and the walk along the successors that the version routes offer. A row
  is a version joined with its project; \<open>sr_live\<close> says that neither is deleted. Identifiers are stored in
  canonical spelling; a lookup accepts any spelling, as the column's type does. The branches and tags of
  the database are the revisions they protect, with their project.
\<close>

record successor_row =
  sr_id :: string
  sr_project :: string
  sr_tenant :: string
  sr_live :: bool
  sr_published :: bool
  sr_description :: "string option"
  sr_change_log :: "string option"
  sr_enabled :: bool
  sr_locked :: bool
  sr_metadata :: version_metadata

record successor_db =
  sd_rows :: "successor_row list"
  sd_protected_tips :: "(string \<times> string) list"
  sd_protected_tags :: "(string \<times> string) list"

definition get_version_by_id :: "successor_db \<Rightarrow> string \<Rightarrow> string \<Rightarrow> successor_row option" where
  "get_version_by_id db tenant version =
     (if version = [] \<or> \<not> is_uuid_string version then None
      else find (\<lambda>r. sr_id r = as_uuid version \<and> sr_tenant r = tenant \<and> sr_live r) (sd_rows db))"

section \<open>Updating a revision\<close>

text \<open>Which keys the caller sent, and their values; \<open>metadata\<close> may be sent as null.\<close>

record version_updates =
  vu_description :: "string option option"
  vu_change_log :: "string option option"
  vu_enabled :: "bool option option"
  vu_locked :: "bool option"
  vu_metadata :: "version_metadata option option"

datatype update_error = RevisionError revision_error | VersionFrozen

definition validate_successor_revision_pointer ::
  "successor_db \<Rightarrow> string \<Rightarrow> string \<Rightarrow> string \<Rightarrow> version_metadata \<Rightarrow> revision_error + unit" where
  "validate_successor_revision_pointer db tenant project version m =
     (if effective_sunset_string m = None then Inr ()
      else (case nonblank (get_or m ''successorRevisionId'' ''successor_revision_id'') of
          None \<Rightarrow> Inr ()
        | Some succ \<Rightarrow>
            (if succ = version then Inl SuccessorIsSelf
             else (case get_version_by_id db tenant succ of
                 None \<Rightarrow> Inl SuccessorElsewhere
               | Some other \<Rightarrow> if sr_project other = project then Inr () else Inl SuccessorElsewhere))))"

definition write_row :: "successor_row \<Rightarrow> successor_db \<Rightarrow> successor_db" where
  "write_row row db = db\<lparr>sd_rows := map (\<lambda>r. if sr_id r = sr_id row \<and> sr_live r then row else r) (sd_rows db)\<rparr>"

definition new_metadata :: "successor_db \<Rightarrow> string \<Rightarrow> string \<Rightarrow> successor_row \<Rightarrow> version_updates \<Rightarrow> bool \<Rightarrow> revision_error + version_metadata option" where
  "new_metadata db version tenant existing updates lifecycle_admin =
     (case vu_metadata updates of
        Some (Some p) \<Rightarrow>
          (case prepare_version_metadata_update lifecycle_admin (sr_metadata existing) (Some p) of
             Inl e \<Rightarrow> Inl e
           | Inr m \<Rightarrow>
               (case validate_successor_revision_pointer db tenant (sr_project existing) version m of
                  Inl e \<Rightarrow> Inl e
                | Inr _ \<Rightarrow> Inr (Some m)))
      | _ \<Rightarrow> Inr None)"

definition given :: "'a option \<Rightarrow> 'a \<Rightarrow> 'a" where
  "given new old = (case new of Some v \<Rightarrow> v | None \<Rightarrow> old)"

definition update_version ::
  "string \<Rightarrow> string \<Rightarrow> version_updates \<Rightarrow> bool \<Rightarrow> successor_db \<Rightarrow> (update_error + successor_row option) \<times> successor_db" where
  "update_version version tenant updates lifecycle_admin db =
     (case get_version_by_id db tenant version of
        None \<Rightarrow> (Inr None, db)
      | Some existing \<Rightarrow>
          (if sr_published existing \<and> (vu_description updates \<noteq> None \<or> vu_change_log updates \<noteq> None \<or> vu_enabled updates \<noteq> None)
           then (Inl VersionFrozen, db)
           else (case new_metadata db version tenant existing updates lifecycle_admin of
               Inl e \<Rightarrow> (Inl (RevisionError e), db)
             | Inr merged \<Rightarrow>
                 (let row = existing\<lparr>sr_description := given (vu_description updates) (sr_description existing),
                        sr_change_log := given (vu_change_log updates) (sr_change_log existing),
                        sr_enabled := (case vu_enabled updates of Some (Some b) \<Rightarrow> b | _ \<Rightarrow> sr_enabled existing),
                        sr_locked := given (vu_locked updates) (sr_locked existing),
                        sr_metadata := given merged (sr_metadata existing)\<rparr>;
                      db' = write_row row db
                  in (Inr (get_version_by_id db' tenant version), db')))))"

section \<open>Following successors\<close>

definition revision_has_protected_named_ref :: "successor_db \<Rightarrow> string \<Rightarrow> string \<Rightarrow> bool" where
  "revision_has_protected_named_ref db version project \<longleftrightarrow>
     (project, as_uuid version) \<in> set (sd_protected_tips db) \<or> (project, as_uuid version) \<in> set (sd_protected_tags db)"

datatype chain_status = NoSuccessor | Resolved | BlockedProtectedRef | SuccessorCycle | MissingTarget | ProjectMismatch | MaxHopsExceeded

type_synonym chain_result = "string \<times> string list \<times> chain_status \<times> string option"

fun follow_successors :: "successor_db \<Rightarrow> string \<Rightarrow> string \<Rightarrow> nat \<Rightarrow> string \<Rightarrow> string list \<Rightarrow> string list \<Rightarrow> chain_result" where
  "follow_successors db tenant project 0 current visited hops = (current, hops, MaxHopsExceeded, None)"
| "follow_successors db tenant project (Suc n) current visited hops =
     (case get_version_by_id db tenant current of
        None \<Rightarrow> (current, hops, MissingTarget, None)
      | Some row \<Rightarrow>
          (if sr_project row \<noteq> project then (current, hops, ProjectMismatch, None)
           else (case successor_revision_id_from_metadata (sr_metadata row) of
               None \<Rightarrow> (current, hops, if hops = [] then NoSuccessor else Resolved, None)
             | Some succ \<Rightarrow>
                 (if revision_has_protected_named_ref db current project then (current, hops, BlockedProtectedRef, None)
                  else if succ \<in> set visited then (current, hops, SuccessorCycle, None)
                  else (case get_version_by_id db tenant succ of
                      None \<Rightarrow> (current, hops, MissingTarget, Some succ)
                    | Some nxt \<Rightarrow>
                        (if sr_project nxt \<noteq> project then (current, hops, ProjectMismatch, None)
                         else follow_successors db tenant project n succ (succ # visited) (hops @ [succ])))))))"

definition resolve_successor_revision_chain :: "successor_db \<Rightarrow> string \<Rightarrow> string \<Rightarrow> string \<Rightarrow> nat \<Rightarrow> chain_result" where
  "resolve_successor_revision_chain db start tenant project max_hops =
     follow_successors db tenant project (max_hops + 1) start [start] []"

definition default_max_hops :: nat where
  "default_max_hops = 32"

text \<open>The answer of a read that resolves successors: the refusals, then the headers.\<close>

datatype resolution = Refused chain_status "string list" | NotFound | Answer string "(string, string) dict"

definition successor_resolution_headers :: "string \<Rightarrow> string \<Rightarrow> string list \<Rightarrow> string \<Rightarrow> string option \<Rightarrow> (string, string) dict" where
  "successor_resolution_headers requested final hops status missing =
     [(''X-Apiome-Successor-Resolution-Status'', status)]
     @ (if requested \<noteq> final then [(''X-Apiome-Resolved-From'', requested)] else [])
     @ (if hops \<noteq> [] then [(''X-Apiome-Successor-Chain'', foldl (\<lambda>acc h. acc @ '','' @ h) (hd hops) (tl hops))] else [])
     @ (case missing of Some v \<Rightarrow> if v = [] then [] else [(''X-Apiome-Missing-Successor-Id'', v)] | None \<Rightarrow> [])"

definition status_text :: "chain_status \<Rightarrow> string" where
  "status_text s =
     (case s of NoSuccessor \<Rightarrow> ''none'' | Resolved \<Rightarrow> ''resolved'' | BlockedProtectedRef \<Rightarrow> ''blocked_protected_ref''
      | SuccessorCycle \<Rightarrow> ''cycle'' | MissingTarget \<Rightarrow> ''missing_target'' | ProjectMismatch \<Rightarrow> ''project_mismatch''
      | MaxHopsExceeded \<Rightarrow> ''max_hops_exceeded'')"

definition answer_resolved :: "successor_db \<Rightarrow> string \<Rightarrow> string \<Rightarrow> string \<Rightarrow> resolution" where
  "answer_resolved db tenant project version =
     (case resolve_successor_revision_chain db version tenant project default_max_hops of
        (final, hops, status, missing) \<Rightarrow>
          (if status \<in> {SuccessorCycle, MaxHopsExceeded, ProjectMismatch} then Refused status (if status = ProjectMismatch then [] else hops)
           else if get_version_by_id db tenant final = None then NotFound
           else Answer final (successor_resolution_headers version final hops (status_text status) missing)))"

section \<open>What the walk finds\<close>

definition elsewhere :: "successor_db \<Rightarrow> string \<Rightarrow> string \<Rightarrow> string \<Rightarrow> bool" where
  "elsewhere db tenant project v = (case get_version_by_id db tenant v of Some row \<Rightarrow> sr_project row \<noteq> project | None \<Rightarrow> False)"

definition in_project :: "successor_db \<Rightarrow> string \<Rightarrow> string \<Rightarrow> string \<Rightarrow> bool" where
  "in_project db tenant project v = (case get_version_by_id db tenant v of Some row \<Rightarrow> sr_project row = project | None \<Rightarrow> False)"

definition successor_of :: "successor_db \<Rightarrow> string \<Rightarrow> string \<Rightarrow> string option" where
  "successor_of db tenant v =
     (case get_version_by_id db tenant v of Some row \<Rightarrow> successor_revision_id_from_metadata (sr_metadata row) | None \<Rightarrow> None)"

definition free_step :: "successor_db \<Rightarrow> string \<Rightarrow> string \<Rightarrow> string \<Rightarrow> string \<Rightarrow> bool" where
  "free_step db tenant project v w \<longleftrightarrow> in_project db tenant project v \<and> successor_of db tenant v = Some w
     \<and> \<not> revision_has_protected_named_ref db v project \<and> in_project db tenant project w"

text \<open>Why a walk along \<open>path\<close> ends where it ends.\<close>

definition ends_rightly :: "successor_db \<Rightarrow> string \<Rightarrow> string \<Rightarrow> nat \<Rightarrow> string list \<Rightarrow> chain_status \<Rightarrow> string option \<Rightarrow> bool" where
  "ends_rightly db tenant project n path status missing \<longleftrightarrow>
     (let final = last path; target = successor_of db tenant final; here = in_project db tenant project final;
          free = (\<not> revision_has_protected_named_ref db final project)
      in case status of
        NoSuccessor \<Rightarrow> here \<and> target = None \<and> length path = 1 \<and> missing = None
      | Resolved \<Rightarrow> here \<and> target = None \<and> 1 < length path \<and> missing = None
      | BlockedProtectedRef \<Rightarrow> here \<and> target \<noteq> None \<and> \<not> free \<and> missing = None
      | SuccessorCycle \<Rightarrow> here \<and> free \<and> target \<in> Some ` set path \<and> missing = None
      | MissingTarget \<Rightarrow> (if missing = None then length path = 1 \<and> get_version_by_id db tenant final = None
          else here \<and> free \<and> target = missing \<and> get_version_by_id db tenant (the missing) = None)
      | ProjectMismatch \<Rightarrow> missing = None \<and> (length path = 1 \<and> elsewhere db tenant project final
          \<or> here \<and> free \<and> target \<noteq> None \<and> elsewhere db tenant project (the target))
      | MaxHopsExceeded \<Rightarrow> length path = n + 2 \<and> missing = None)"

lemma successively_snoc: "successively P (xs @ [y]) \<longleftrightarrow> successively P xs \<and> (xs = [] \<or> P (last xs) y)"
  by (simp add: successively_append_iff)

lemma follow_successors_path:
  assumes "follow_successors db tenant project k current visited hops = (final, hops', status, missing)"
    and "current = last (start # hops)" and "set visited = set (start # hops)" and "distinct (start # hops)"
    and "successively (free_step db tenant project) (start # hops)" and "hops = [] \<or> in_project db tenant project current"
    and "k + length hops = n + 1"
  shows "final = last (start # hops') \<and> distinct (start # hops') \<and> successively (free_step db tenant project) (start # hops')
     \<and> ends_rightly db tenant project n (start # hops') status missing"
  using assms
proof (induction k arbitrary: current visited hops)
  case 0
  then show ?case by (auto simp: ends_rightly_def)
next
  case (Suc k)
  let ?get = "get_version_by_id db tenant"
  show ?case
  proof (cases "\<exists>row succ nxt. ?get current = Some row \<and> sr_project row = project \<and> successor_revision_id_from_metadata (sr_metadata row) = Some succ
      \<and> \<not> revision_has_protected_named_ref db current project \<and> succ \<notin> set visited \<and> ?get succ = Some nxt \<and> sr_project nxt = project")
    case True
    then obtain row succ nxt where go: "?get current = Some row" "sr_project row = project"
      "successor_revision_id_from_metadata (sr_metadata row) = Some succ" "\<not> revision_has_protected_named_ref db current project"
      "succ \<notin> set visited" "?get succ = Some nxt" "sr_project nxt = project" by blast
    then have step: "free_step db tenant project current succ" by (simp add: free_step_def in_project_def successor_of_def)
    have "follow_successors db tenant project k succ (succ # visited) (hops @ [succ]) = (final, hops', status, missing)"
      using Suc.prems(1) go by simp
    then show ?thesis
    proof (rule Suc.IH)
      show "successively (free_step db tenant project) (start # hops @ [succ])"
        using Suc.prems step successively_snoc[of _ "start # hops" succ] by simp
      show "distinct (start # hops @ [succ])" using Suc.prems go by auto
    qed (use Suc.prems go step in \<open>auto simp: in_project_def\<close>)
  next
    case False
    let ?free = "\<not> revision_has_protected_named_ref db current project"
    have last: "last (start # hops) = current" using Suc.prems(2) by simp
    have stops: "final = current \<and> hops' = hops \<and> ends_rightly db tenant project n (start # hops) status missing"
    proof (cases "?get current")
      case None
      then have "hops = []" using Suc.prems(6) by (simp add: in_project_def)
      then show ?thesis using None last Suc.prems(1) by (auto simp: ends_rightly_def Let_def)
    next
      case row: (Some row)
      show ?thesis
      proof (cases "sr_project row = project")
        case False
        then have "hops = []" using Suc.prems(6) row by (simp add: in_project_def)
        then show ?thesis using False row last Suc.prems(1) by (auto simp: ends_rightly_def Let_def elsewhere_def)
      next
        case here: True
        show ?thesis
        proof (cases "successor_revision_id_from_metadata (sr_metadata row)")
          case None
          then show ?thesis using Suc.prems(1) row here last
            by (cases hops) (auto simp: ends_rightly_def Let_def in_project_def successor_of_def)
        next
          case succ: (Some succ)
          define P where "P = start # hops"
          have P: "last P = current" "set P = set visited" using last Suc.prems(3) by (simp_all add: P_def)
          consider "\<not> ?free" | "?free" "succ \<in> set visited" | "?free" "succ \<notin> set visited" "?get succ = None"
            | nxt where "?free" "succ \<notin> set visited" "?get succ = Some nxt" "sr_project nxt \<noteq> project"
            using False row here succ by (cases "?get succ") auto
          then show ?thesis unfolding P_def[symmetric]
            by cases (use Suc.prems(1) row here succ P in
              \<open>auto simp: ends_rightly_def Let_def in_project_def successor_of_def elsewhere_def eq_commute[of "Some succ" "successor_revision_id_from_metadata _"]\<close>)
        qed
      qed
    qed
    then show ?thesis using Suc.prems last by simp
  qed
qed


text \<open>A chain of two, a cycle of two, and a revision that names itself in capitals past the check.\<close>

definition demo_row :: "char \<Rightarrow> version_metadata \<Rightarrow> successor_row" where
  "demo_row c m = \<lparr>sr_id = demo_id c, sr_project = ''p'', sr_tenant = ''t'', sr_live = True, sr_published = False, sr_description = None,
     sr_change_log = None, sr_enabled = True, sr_locked = False, sr_metadata = m\<rparr>"

definition points_to :: "string \<Rightarrow> version_metadata" where
  "points_to v = [(''successorRevisionId'', JString v)]"

definition demo_chain_db :: successor_db where
  "demo_chain_db = \<lparr>sd_rows = [demo_row CHR ''a'' (points_to (demo_id CHR ''b'')), demo_row CHR ''b'' (points_to (demo_id CHR ''c'')), demo_row CHR ''c'' [],
      demo_row CHR ''d'' (points_to (demo_id CHR ''e'')), demo_row CHR ''e'' (points_to (demo_id CHR ''d''))],
     sd_protected_tips = [], sd_protected_tags = []\<rparr>"

lemma demo_chains:
  "resolve_successor_revision_chain demo_chain_db (demo_id CHR ''a'') ''t'' ''p'' default_max_hops
     = (demo_id CHR ''c'', [demo_id CHR ''b'', demo_id CHR ''c''], Resolved, None)"
  "resolve_successor_revision_chain demo_chain_db (demo_id CHR ''d'') ''t'' ''p'' default_max_hops
     = (demo_id CHR ''e'', [demo_id CHR ''e''], SuccessorCycle, None)"
  by code_simp+


text \<open>The comparison with the own identifier is of texts, so another spelling of it passes, and the next read finds a cycle.\<close>

definition capitals :: "string \<Rightarrow> string" where
  "capitals s = map (\<lambda>c. if c = CHR ''d'' then CHR ''D'' else c) s"

definition self_successor_db :: successor_db where
  "self_successor_db =
     snd (update_version (demo_id CHR ''d'') ''t'' \<lparr>vu_description = None, vu_change_log = None, vu_enabled = None, vu_locked = None,
       vu_metadata = Some (Some [(''lifecycle'', JString ''deprecated''), (''sunsetAt'', JString ''2026-12-01''),
         (''successorRevisionId'', JString (capitals (demo_id CHR ''d'')))])\<rparr> False demo_chain_db)"

lemma self_successor_accepted:
  "resolve_successor_revision_chain self_successor_db (demo_id CHR ''d'') ''t'' ''p'' default_max_hops
     = (capitals (demo_id CHR ''d''), [capitals (demo_id CHR ''d'')], SuccessorCycle, None)"
  by code_simp

end
