(* ===== verification/Retention.thy ===== *)
theory Retention
  imports ReviewIds
begin

text \<open>
  Retention of the versions a live refresh creates (\<open>version_retention.py\<close>): the plan, the reads and the
  update of a pruning pass, the answer to a read of a pruned version and the fallback of a diff. Instants
  are integers. Identifiers are UUIDs in canonical spelling, in whose order the database breaks ties. A
  pass reads and then writes in separate statements: \<open>prune_read\<close> and \<open>prune_write\<close> are the two parts. The
  audit row and the logging of failures are left out.
\<close>

section \<open>Tables\<close>

record item_version =
  iv_id :: string
  iv_project :: string
  iv_label :: string
  iv_created :: int
  iv_deleted :: "int option"
  iv_pruned :: "int option"
  iv_locked :: bool
  iv_refreshed :: bool

record drift_event =
  de_project :: string
  de_version :: string
  de_parent :: "string option"
  de_breaking :: bool

record retention_db =
  rd_versions :: "item_version list"
  rd_tenants :: "(string \<times> string) list"
  rd_tags :: "(string \<times> string) list"
  rd_conversions :: "(string \<times> string option) list"
  rd_drift :: "drift_event list"

text \<open>\<open>ORDER BY created_at DESC, id DESC\<close>.\<close>

definition newest_first :: "item_version list \<Rightarrow> item_version list" where
  "newest_first vs = rev (sort_key (\<lambda>v. (iv_created v, iv_id v)) vs)"

definition live :: "item_version \<Rightarrow> bool" where
  "live v \<longleftrightarrow> iv_deleted v = None"

definition owned_by :: "retention_db \<Rightarrow> string \<Rightarrow> string \<Rightarrow> bool" where
  "owned_by db tenant project \<longleftrightarrow> (project, tenant) \<in> set (rd_tenants db)"

section \<open>A pruning pass\<close>

definition min_keep_versions :: int where "min_keep_versions = 1"
definition max_keep_versions :: int where "max_keep_versions = 1000"

definition plan_pruning :: "item_version list \<Rightarrow> int \<Rightarrow> string list \<Rightarrow> string list" where
  "plan_pruning refresh_versions keep protected =
     (let keep = max min_keep_versions (min max_keep_versions keep)
      in map iv_id (filter (\<lambda>v. iv_id v \<notin> set protected) (drop (nat keep) refresh_versions)))"

definition refresh_versions :: "retention_db \<Rightarrow> string \<Rightarrow> string \<Rightarrow> item_version list" where
  "refresh_versions db tenant project =
     newest_first (filter (\<lambda>v. iv_project v = project \<and> owned_by db tenant project \<and> live v \<and> iv_refreshed v) (rd_versions db))"

definition protected_version_ids :: "retention_db \<Rightarrow> string \<Rightarrow> string list" where
  "protected_version_ids db project =
     (let own = filter (\<lambda>v. iv_project v = project) (rd_versions db);
          breaking = filter (\<lambda>e. de_project e = project \<and> de_breaking e) (rd_drift db)
      in map snd (filter (\<lambda>(p, v). p = project) (rd_tags db))
         @ concat (map (\<lambda>(p, v). if p = project then (case v of Some v \<Rightarrow> [v] | None \<Rightarrow> []) else []) (rd_conversions db))
         @ map de_version breaking
         @ concat (map (\<lambda>e. case de_parent e of Some v \<Rightarrow> [v] | None \<Rightarrow> []) breaking)
         @ map iv_id (filter iv_locked own)
         @ map iv_id (take 1 (newest_first (filter live own))))"

definition prune_read :: "retention_db \<Rightarrow> string \<Rightarrow> string \<Rightarrow> int \<Rightarrow> string list" where
  "prune_read db tenant project keep =
     (let candidates = refresh_versions db tenant project
      in if int (length candidates) \<le> keep then [] else plan_pruning candidates keep (protected_version_ids db project))"

definition to_prune :: "retention_db \<Rightarrow> string \<Rightarrow> string \<Rightarrow> string list \<Rightarrow> item_version \<Rightarrow> bool" where
  "to_prune db tenant project ids v \<longleftrightarrow> iv_id v \<in> set ids \<and> iv_project v = project \<and> owned_by db tenant project \<and> live v"

definition prune_write :: "int \<Rightarrow> string \<Rightarrow> string \<Rightarrow> string list \<Rightarrow> retention_db \<Rightarrow> string list \<times> retention_db" where
  "prune_write now tenant project ids db =
     (if ids = [] then ([], db)
      else (map iv_id (filter (to_prune db tenant project ids) (rd_versions db)),
        db\<lparr>rd_versions := map (\<lambda>v. if to_prune db tenant project ids v then v\<lparr>iv_deleted := Some now, iv_pruned := Some now\<rparr> else v) (rd_versions db)\<rparr>))"

definition prune_refresh_versions :: "int \<Rightarrow> string \<Rightarrow> string \<Rightarrow> int \<Rightarrow> retention_db \<Rightarrow> string list \<times> retention_db" where
  "prune_refresh_versions now tenant project keep db = prune_write now tenant project (prune_read db tenant project keep) db"

section \<open>Reads of a pruned version\<close>

definition pruned_version :: "retention_db \<Rightarrow> string \<Rightarrow> string \<Rightarrow> string option \<Rightarrow> item_version option" where
  "pruned_version db tenant version_ref project =
     (let ref = strip version_ref;
          named = (if is_uuid_string ref then Some (\<lambda>v. iv_id v = as_uuid ref)
            else (case project of
                Some p \<Rightarrow> if is_uuid_string p then Some (\<lambda>v. iv_project v = as_uuid p \<and> iv_label v = ref) else None
              | None \<Rightarrow> None))
      in if ref = [] then None
         else case named of
           None \<Rightarrow> None
         | Some named \<Rightarrow>
             (if \<not> is_uuid_string tenant then None
              else (case rev (sort_key (\<lambda>v. the (iv_pruned v))
                  (filter (\<lambda>v. named v \<and> owned_by db (as_uuid tenant) (iv_project v) \<and> iv_pruned v \<noteq> None) (rd_versions db))) of
                  [] \<Rightarrow> None
                | v # _ \<Rightarrow> Some v)))"

text \<open>The refusal 410 of a read, if any; a failing lookup leaves the caller's 404.\<close>

definition raise_if_pruned :: "bool \<Rightarrow> retention_db \<Rightarrow> string \<Rightarrow> string \<Rightarrow> string option \<Rightarrow> (string \<times> string \<times> int option) option" where
  "raise_if_pruned lookup_fails db tenant version_ref project =
     (if lookup_fails then None
      else map_option (\<lambda>v. (iv_id v, iv_label v, iv_pruned v)) (pruned_version db tenant version_ref project))"

definition nearest_live_earlier_version :: "retention_db \<Rightarrow> string \<Rightarrow> string \<Rightarrow> (string \<times> string) option" where
  "nearest_live_earlier_version db project version =
     (case find (\<lambda>v. iv_id v = version) (rd_versions db) of
        None \<Rightarrow> None
      | Some anchor \<Rightarrow>
          (case newest_first (filter (\<lambda>v. iv_project v = project \<and> live v \<and> iv_id v \<noteq> iv_id anchor
              \<and> (iv_created v, iv_id v) < (iv_created anchor, iv_id anchor)) (rd_versions db)) of
             [] \<Rightarrow> None
           | v # _ \<Rightarrow> Some (iv_id v, iv_label v)))"

section \<open>Which versions are pruned\<close>

abbreviation age_key :: "item_version \<Rightarrow> int \<times> string" where
  "age_key v \<equiv> (iv_created v, iv_id v)"

lemma newest_first_set [simp]: "set (newest_first vs) = set vs" "mset (newest_first vs) = mset vs" "length (newest_first vs) = length vs"
  by (simp_all add: newest_first_def)

lemma newest_first_sorted:
  assumes "distinct (map iv_id vs)"
  shows "sorted_wrt (\<lambda>v w. age_key w < age_key v) (newest_first vs)"
proof -
  let ?xs = "sort_key age_key vs"
  have "distinct (map iv_id ?xs)" using assms by (simp add: distinct_map inj_on_def)
  then have "distinct (map age_key ?xs)" by (auto simp: distinct_map inj_on_def)
  then have "sorted_wrt (<) (map age_key ?xs)" by (simp add: strict_sorted_iff)
  then show ?thesis by (simp add: newest_first_def sorted_wrt_rev sorted_wrt_map)
qed

lemma drop_newest:
  fixes f :: "'a \<Rightarrow> 'b :: linorder"
  assumes "sorted_wrt (\<lambda>v w. f w < f v) vs"
  shows "v \<in> set (drop k vs) \<longleftrightarrow> v \<in> set vs \<and> k \<le> length (filter (\<lambda>w. f v < f w) vs)"
  using assms
proof (induction vs arbitrary: k)
  case (Cons x vs)
  then have older: "w \<in> set vs \<Longrightarrow> f w < f x" for w by auto
  show ?case
  proof (cases k)
    case (Suc j)
    have "v = x \<Longrightarrow> filter (\<lambda>w. f v < f w) vs = []" using older by (auto simp: filter_empty_conv dest: less_not_sym)
    moreover have "v \<in> set vs \<Longrightarrow> f v < f x \<and> v \<noteq> x" using older by auto
    ultimately show ?thesis using Cons Suc by (cases "v \<in> set vs") auto
  qed simp
qed simp

definition refresh_of :: "string \<Rightarrow> item_version \<Rightarrow> bool" where
  "refresh_of project v \<longleftrightarrow> iv_project v = project \<and> live v \<and> iv_refreshed v"

definition newer_refreshes :: "retention_db \<Rightarrow> string \<Rightarrow> item_version \<Rightarrow> nat" where
  "newer_refreshes db project v = length (filter (\<lambda>w. refresh_of project w \<and> age_key v < age_key w) (rd_versions db))"

definition clamped :: "int \<Rightarrow> nat" where
  "clamped keep = nat (max min_keep_versions (min max_keep_versions keep))"

definition prunable :: "retention_db \<Rightarrow> string \<Rightarrow> int \<Rightarrow> item_version \<Rightarrow> bool" where
  "prunable db project keep v \<longleftrightarrow> refresh_of project v \<and> clamped keep \<le> newer_refreshes db project v \<and> iv_id v \<notin> set (protected_version_ids db project)"

lemma candidates_filter:
  assumes "owned_by db tenant project"
  shows "length (filter Q (refresh_versions db tenant project)) = length (filter (\<lambda>w. refresh_of project w \<and> Q w) (rd_versions db))"
proof -
  have "refresh_versions db tenant project = newest_first (filter (refresh_of project) (rd_versions db))"
    using assms by (simp add: refresh_versions_def refresh_of_def[abs_def])
  then have "mset (filter Q (refresh_versions db tenant project)) = mset (filter (\<lambda>w. refresh_of project w \<and> Q w) (rd_versions db))"
    by (simp add: filter_filter_mset conj_commute)
  then show ?thesis by (rule mset_eq_length)
qed

lemma newer_in_candidates:
  assumes "owned_by db tenant project"
  shows "length (filter (\<lambda>w. age_key v < age_key w) (refresh_versions db tenant project)) = newer_refreshes db project v"
  unfolding newer_refreshes_def by (rule candidates_filter[OF assms])

lemma refresh_versions_sorted:
  assumes "distinct (map iv_id (rd_versions db))"
  shows "sorted_wrt (\<lambda>v w. age_key w < age_key v) (refresh_versions db tenant project)"
  unfolding refresh_versions_def by (rule newest_first_sorted) (use assms in \<open>simp add: distinct_map inj_on_def\<close>)

lemma prune_read_exact:
  assumes "distinct (map iv_id (rd_versions db))" and "owned_by db tenant project" and "keep \<le> max_keep_versions"
  shows "set (prune_read db tenant project keep) = iv_id ` {v \<in> set (rd_versions db). prunable db project keep v}"
proof -
  let ?c = "refresh_versions db tenant project"
  have members: "v \<in> set ?c \<longleftrightarrow> v \<in> set (rd_versions db) \<and> refresh_of project v" for v
    using assms(2) by (auto simp: refresh_versions_def refresh_of_def)
  have late: "v \<in> set (drop k ?c) \<longleftrightarrow> v \<in> set ?c \<and> k \<le> newer_refreshes db project v" for v k
    unfolding newer_in_candidates[OF assms(2), symmetric] by (rule drop_newest[OF refresh_versions_sorted[OF assms(1)]])
  have "int (length ?c) \<le> keep \<Longrightarrow> drop (clamped keep) ?c = []"
    using assms(3) by (auto simp: clamped_def min_keep_versions_def)
  then have "set (prune_read db tenant project keep) = iv_id ` {v \<in> set (drop (clamped keep) ?c). iv_id v \<notin> set (protected_version_ids db project)}"
    by (auto simp: prune_read_def plan_pruning_def Let_def clamped_def)
  also have "\<dots> = iv_id ` {v \<in> set (rd_versions db). prunable db project keep v}"
    by (auto simp: late members prunable_def)
  finally show ?thesis .
qed

definition pruned_at :: "int \<Rightarrow> item_version \<Rightarrow> item_version" where
  "pruned_at now v = v\<lparr>iv_deleted := Some now, iv_pruned := Some now\<rparr>"

text \<open>A pass prunes exactly the prunable versions and changes nothing else.\<close>

lemma same_id: "distinct (map iv_id vs) \<Longrightarrow> v \<in> set vs \<Longrightarrow> w \<in> set vs \<Longrightarrow> iv_id v = iv_id w \<Longrightarrow> v = w"
  by (simp add: distinct_map inj_on_def)

lemma prune_exact:
  assumes "distinct (map iv_id (rd_versions db))" and "owned_by db tenant project" and "keep \<le> max_keep_versions"
  shows "prune_refresh_versions now tenant project keep db =
     (map iv_id (filter (prunable db project keep) (rd_versions db)),
      db\<lparr>rd_versions := map (\<lambda>v. if prunable db project keep v then pruned_at now v else v) (rd_versions db)\<rparr>)"
proof -
  let ?ids = "prune_read db tenant project keep"
  have "to_prune db tenant project ?ids v \<longleftrightarrow> prunable db project keep v" if "v \<in> set (rd_versions db)" for v
    using that assms(2) prune_read_exact[OF assms] same_id[OF assms(1) that]
    by (auto simp: to_prune_def prunable_def refresh_of_def)
  then have "filter (to_prune db tenant project ?ids) (rd_versions db) = filter (prunable db project keep) (rd_versions db)"
    "map (\<lambda>v. if to_prune db tenant project ?ids v then v\<lparr>iv_deleted := Some now, iv_pruned := Some now\<rparr> else v) (rd_versions db)
       = map (\<lambda>v. if prunable db project keep v then pruned_at now v else v) (rd_versions db)"
    by (auto simp: pruned_at_def cong: filter_cong)
  moreover have "?ids = [] \<Longrightarrow> \<forall>v \<in> set (rd_versions db). \<not> prunable db project keep v"
    using prune_read_exact[OF assms] by auto
  then have "?ids = [] \<Longrightarrow> filter (prunable db project keep) (rd_versions db) = []
      \<and> map (\<lambda>v. if prunable db project keep v then pruned_at now v else v) (rd_versions db) = rd_versions db"
    by (auto simp: filter_empty_conv intro!: map_idI)
  ultimately show ?thesis by (auto simp: prune_refresh_versions_def prune_write_def)
qed

section \<open>A second pass\<close>

definition newest_of :: "item_version \<Rightarrow> item_version list \<Rightarrow> bool" where
  "newest_of v vs \<longleftrightarrow> v \<in> set vs \<and> (\<forall>w \<in> set vs. w \<noteq> v \<longrightarrow> age_key w < age_key v)"

lemma take_newest:
  assumes "distinct (map iv_id vs)"
  shows "v \<in> set (take 1 (newest_first vs)) \<longleftrightarrow> newest_of v vs"
proof (cases "newest_first vs")
  case Nil
  then have "set vs = {}" by (metis newest_first_set(1) empty_set)
  then show ?thesis by (simp add: Nil newest_of_def)
next
  case (Cons x xs)
  then have vs: "set vs = insert x (set xs)" by (metis newest_first_set(1) list.simps(15))
  have "\<forall>w \<in> set xs. age_key w < age_key x" using newest_first_sorted[OF assms] Cons by simp
  then have "newest_of v vs \<longleftrightarrow> v = x" unfolding newest_of_def vs by (metis insertE insertI1 less_asym)
  then show ?thesis by (auto simp: Cons)
qed

abbreviation after_pass :: "int \<Rightarrow> string \<Rightarrow> int \<Rightarrow> retention_db \<Rightarrow> retention_db" where
  "after_pass now project keep db \<equiv> db\<lparr>rd_versions := map (\<lambda>v. if prunable db project keep v then pruned_at now v else v) (rd_versions db)\<rparr>"

lemma pruned_at_simps [simp]:
  "iv_id (pruned_at now v) = iv_id v" "iv_project (pruned_at now v) = iv_project v" "iv_locked (pruned_at now v) = iv_locked v"
  "iv_label (pruned_at now v) = iv_label v" "iv_pruned (pruned_at now v) = Some now" "\<not> live (pruned_at now v)"
  by (simp_all add: pruned_at_def live_def)

lemma after_pass_ids: "map iv_id (rd_versions (after_pass now project keep db)) = map iv_id (rd_versions db)"
  by (simp add: comp_def if_distrib cong: if_cong)

lemma live_after_pass:
  "v \<in> set (rd_versions (after_pass now project keep db)) \<and> live v \<longleftrightarrow> v \<in> set (rd_versions db) \<and> live v \<and> \<not> prunable db project keep v"
  by (auto split: if_splits)

text \<open>What protects: tags, conversions and drift; a lock; being the newest.\<close>

definition marked :: "retention_db \<Rightarrow> string \<Rightarrow> string set" where
  "marked db project = set (protected_version_ids (db\<lparr>rd_versions := []\<rparr>) project)"

lemma protected_split:
  "set (protected_version_ids db project) = marked db project
     \<union> iv_id ` {v \<in> set (rd_versions db). iv_project v = project \<and> iv_locked v}
     \<union> iv_id ` set (take 1 (newest_first (filter live (filter (\<lambda>v. iv_project v = project) (rd_versions db)))))"
proof -
  define own where "own = filter (\<lambda>v. iv_project v = project) (rd_versions db)"
  define marks where "marks = map snd (filter (\<lambda>(p, v). p = project) (rd_tags db))
     @ concat (map (\<lambda>(p, v). if p = project then (case v of Some v \<Rightarrow> [v] | None \<Rightarrow> []) else []) (rd_conversions db))
     @ map de_version (filter (\<lambda>e. de_project e = project \<and> de_breaking e) (rd_drift db))
     @ concat (map (\<lambda>e. case de_parent e of Some v \<Rightarrow> [v] | None \<Rightarrow> []) (filter (\<lambda>e. de_project e = project \<and> de_breaking e) (rd_drift db)))"
  have "protected_version_ids db project = marks @ map iv_id (filter iv_locked own) @ map iv_id (take 1 (newest_first (filter live own)))"
    by (simp add: protected_version_ids_def Let_def marks_def own_def)
  moreover have "protected_version_ids (db\<lparr>rd_versions := []\<rparr>) project = marks"
    by (simp add: protected_version_ids_def Let_def marks_def newest_first_def)
  moreover have "{v \<in> set (rd_versions db). iv_project v = project \<and> iv_locked v} = set (filter iv_locked own)"
    by (auto simp: own_def)
  ultimately show ?thesis unfolding marked_def own_def[symmetric] by (simp only: set_append set_map Un_assoc)
qed

lemma protected_after_pass:
  assumes "distinct (map iv_id (rd_versions db))" and "v \<in> set (rd_versions db)" and "live v" and "\<not> prunable db project keep v"
    and "iv_id v \<in> set (protected_version_ids db project)"
  shows "iv_id v \<in> set (protected_version_ids (after_pass now project keep db) project)"
proof -
  let ?db = "after_pass now project keep db"
  let ?own = "\<lambda>db. filter (\<lambda>v. iv_project v = project) (rd_versions db)"
  have kept: "v \<in> set (rd_versions ?db)" using live_after_pass[where v = v and now = now and project = project and keep = keep and db = db] assms(2-4) by blast
  have ids: "distinct (map iv_id (filter live (?own d)))" if "distinct (map iv_id (rd_versions d))" for d
    using that by (simp add: distinct_map inj_on_def)
  consider "iv_locked v" "iv_project v = project" | "v \<in> set (take 1 (newest_first (filter live (?own db))))"
    | "iv_id v \<in> marked db project"
  proof -
    define N where "N = set (take 1 (newest_first (filter live (?own db))))"
    have N: "N \<subseteq> set (rd_versions db)" using set_take_subset[of 1 "newest_first (filter live (?own db))"] by (auto simp: N_def)
    have same: "w = v" if "iv_id v = iv_id w" "w \<in> set (rd_versions db)" for w using same_id[OF assms(1,2) that(2,1)] by simp
    assume "iv_locked v \<Longrightarrow> iv_project v = project \<Longrightarrow> thesis" "v \<in> set (take 1 (newest_first (filter live (?own db)))) \<Longrightarrow> thesis"
      "iv_id v \<in> marked db project \<Longrightarrow> thesis"
    moreover have "x = v" if "x \<in> N" "iv_id v = iv_id x" for x using same[OF that(2)] N that(1) by blast
    ultimately show thesis using assms(5) same unfolding protected_split N_def[symmetric] by auto
  qed
  then show ?thesis
  proof cases
    case 1
    then show ?thesis using kept unfolding protected_split by blast
  next
    case 2
    then have newest: "newest_of v (filter live (?own db))" using take_newest[OF ids[OF assms(1)]] by simp
    then have "newest_of v (filter live (?own ?db))"
      using live_after_pass[where now = now and project = project and keep = keep and db = db] kept unfolding newest_of_def set_filter by blast
    moreover have "distinct (map iv_id (rd_versions ?db))" unfolding after_pass_ids by (rule assms(1))
    ultimately have "v \<in> set (take 1 (newest_first (filter live (?own ?db))))" using take_newest[OF ids] by blast
    then show ?thesis unfolding protected_split by blast
  next
    case 3
    moreover have "marked ?db project = marked db project" by (simp add: marked_def)
    ultimately show ?thesis unfolding protected_split by simp
  qed
qed

lemma newer_after_pass: "newer_refreshes (after_pass now project keep db) project v \<le> newer_refreshes db project v"
proof -
  let ?f = "\<lambda>v. if prunable db project keep v then pruned_at now v else v"
  let ?Q = "\<lambda>w. refresh_of project w \<and> age_key v < age_key w"
  have "length (filter ?Q (map ?f vs)) \<le> length (filter ?Q vs)" for vs
    by (induction vs) (auto simp: refresh_of_def)
  then show ?thesis by (simp add: newer_refreshes_def)
qed

lemma nothing_left:
  assumes "distinct (map iv_id (rd_versions db))" and "v \<in> set (rd_versions (after_pass now project keep db))"
  shows "\<not> prunable (after_pass now project keep db) project keep v"
proof
  let ?db = "after_pass now project keep db"
  assume p: "prunable ?db project keep v"
  then have "live v" by (simp add: prunable_def refresh_of_def)
  then have old: "v \<in> set (rd_versions db)" "\<not> prunable db project keep v" using live_after_pass[where v = v and now = now and project = project and keep = keep and db = db] assms(2) by blast+
  then have "iv_id v \<in> set (protected_version_ids db project)"
    using p newer_after_pass[where now = now and project = project and keep = keep and db = db and v = v] by (auto simp: prunable_def)
  then show False using protected_after_pass[OF assms(1) old(1) \<open>live v\<close> old(2)] p by (simp add: prunable_def)
qed

lemma single_filter:
  assumes "distinct (map iv_id vs)" and "v \<in> set vs"
  shows "filter (\<lambda>w. iv_id w = iv_id v \<and> P w) vs = (if P v then [v] else [])"
  using assms
proof (induction vs)
  case (Cons x vs)
  have none: "w \<in> set vs \<Longrightarrow> iv_id w \<noteq> iv_id x" for w using Cons.prems(1) by (metis distinct.simps(2) image_eqI list.simps(9) set_map)
  show ?case
  proof (cases "v = x")
    case True
    then show ?thesis using none by (auto simp: filter_empty_conv)
  next
    case False
    then show ?thesis using Cons none[of v] by auto
  qed
qed simp

lemma pruned_is_gone:
  assumes "distinct (map iv_id (rd_versions db))" and "v \<in> set (rd_versions db)" and "prunable db project keep v"
    and "owned_by db tenant project" and "canonical (iv_id v)" and "canonical tenant"
  shows "raise_if_pruned False (after_pass now project keep db) tenant (iv_id v) None = Some (iv_id v, iv_label v, Some now)"
proof -
  let ?db = "after_pass now project keep db" and ?v = "pruned_at now v"
  have id: "strip (iv_id v) = iv_id v" "is_uuid_string (iv_id v)" "iv_id v \<noteq> []"
    using assms(5) as_uuid_clean[of "iv_id v"] by (auto simp: canonical_def is_uuid_string_def Let_def)
  have "?v \<in> set (rd_versions ?db)" using assms(2,3) by force
  from single_filter[OF _ this, of "\<lambda>w. owned_by ?db tenant (iv_project w) \<and> iv_pruned w \<noteq> None"]
  have "filter (\<lambda>w. iv_id w = iv_id v \<and> owned_by ?db tenant (iv_project w) \<and> iv_pruned w \<noteq> None) (rd_versions ?db) = [?v]"
    using assms(1,3,4) unfolding after_pass_ids by (simp add: prunable_def refresh_of_def owned_by_def)
  then show ?thesis using id assms(5,6) by (simp add: raise_if_pruned_def pruned_version_def canonical_def)
qed

text \<open>C15: a pruning pass prunes what it should and nothing else. The versions it prunes are exactly the live
  versions of the item that a live refresh created, that have at least the kept number of newer ones
  and that nothing protects; no other row changes; every pruned version is answered as pruned; and a
  second pass finds nothing left to prune.\<close>

theorem pruning_pass_exact:
  assumes "distinct (map iv_id (rd_versions db))" and "owned_by db tenant project" and "keep \<le> max_keep_versions"
    and "prune_refresh_versions now tenant project keep db = (pruned, db')"
  shows "pruned = map iv_id (filter (prunable db project keep) (rd_versions db)) \<and>
     db' = db\<lparr>rd_versions := map (\<lambda>v. if prunable db project keep v then pruned_at now v else v) (rd_versions db)\<rparr> \<and>
     (\<forall>v \<in> set (rd_versions db). prunable db project keep v \<and> canonical (iv_id v) \<and> canonical tenant \<longrightarrow>
        raise_if_pruned False db' tenant (iv_id v) None = Some (iv_id v, iv_label v, Some now)) \<and>
     prune_refresh_versions later tenant project keep db' = ([], db')"
proof -
  have db': "db' = after_pass now project keep db" and pruned: "pruned = map iv_id (filter (prunable db project keep) (rd_versions db))"
    using assms(4) unfolding prune_exact[OF assms(1-3)] by simp_all
  have "distinct (map iv_id (rd_versions db'))" unfolding db' after_pass_ids by (rule assms(1))
  moreover have "owned_by db' tenant project" using assms(2) by (simp add: db' owned_by_def)
  moreover have left: "\<not> prunable db' project keep v" if "v \<in> set (rd_versions db')" for v
    using nothing_left[OF assms(1)] that unfolding db' by blast
  then have "filter (prunable db' project keep) (rd_versions db') = []" by (simp add: filter_empty_conv)
  moreover have "map (\<lambda>v. if prunable db' project keep v then pruned_at later v else v) (rd_versions db') = rd_versions db'"
    using left by (intro map_idI) simp
  ultimately have "prune_refresh_versions later tenant project keep db' = ([], db')"
    using prune_exact[of db' tenant project keep later] assms(3) by simp
  then show ?thesis using pruned pruned_is_gone[OF assms(1) _ _ assms(2), of _ keep now] unfolding db' by blast
qed

text \<open>Five versions, the third imported by hand, the oldest tagged, two kept.\<close>

definition demo_version :: "char \<Rightarrow> int \<Rightarrow> bool \<Rightarrow> item_version" where
  "demo_version c t refreshed = \<lparr>iv_id = demo_id c, iv_project = ''p'', iv_label = [c], iv_created = t, iv_deleted = None, iv_pruned = None,
     iv_locked = False, iv_refreshed = refreshed\<rparr>"

definition demo_retention :: retention_db where
  "demo_retention = \<lparr>rd_versions = [demo_version CHR ''a'' 1 True, demo_version CHR ''b'' 2 True, demo_version CHR ''c'' 3 False,
      demo_version CHR ''d'' 4 True, demo_version CHR ''e'' 5 True],
     rd_tenants = [(''p'', demo_id CHR ''0'')], rd_tags = [(''p'', demo_id CHR ''a'')], rd_conversions = [], rd_drift = []\<rparr>"

lemma demo_facts:
  "distinct (map iv_id (rd_versions demo_retention))" "owned_by demo_retention (demo_id CHR ''0'') ''p''"
  "map (prunable demo_retention ''p'' 2) (rd_versions demo_retention) = [False, True, False, False, False]"
  by code_simp+

theorem pruning_pass_exact_witness:
  "fst (prune_refresh_versions 9 (demo_id CHR ''0'') ''p'' 2 demo_retention) = [demo_id CHR ''b''] \<and>
   raise_if_pruned False (snd (prune_refresh_versions 9 (demo_id CHR ''0'') ''p'' 2 demo_retention)) (demo_id CHR ''0'') (demo_id CHR ''b'') None
     = Some (demo_id CHR ''b'', ''b'', Some 9)"
proof -
  obtain pruned db' where r: "prune_refresh_versions 9 (demo_id CHR ''0'') ''p'' 2 demo_retention = (pruned, db')"
    by (cases "prune_refresh_versions 9 (demo_id CHR ''0'') ''p'' 2 demo_retention")
  have keep: "(2::int) \<le> max_keep_versions" by (simp add: max_keep_versions_def)
  have b: "demo_version CHR ''b'' 2 True \<in> set (rd_versions demo_retention)" by (simp add: demo_retention_def)
  have p: "prunable demo_retention ''p'' 2 (demo_version CHR ''b'' 2 True)" using demo_facts(3) by (simp add: demo_retention_def)
  have c: "canonical (demo_id CHR ''b'')" "canonical (demo_id CHR ''0'')" by (rule demo_id_canonical, simp)+
  have "map iv_id (filter (prunable demo_retention ''p'' 2) (rd_versions demo_retention)) = [demo_id CHR ''b'']" by code_simp
  then show ?thesis
    using pruning_pass_exact[OF demo_facts(1,2) keep r] b p c unfolding r by (force simp: demo_version_def)
qed

lemma tagged_is_protected: "(project, x) \<in> set (rd_tags db) \<Longrightarrow> x \<in> set (protected_version_ids db project)"
proof -
  assume "(project, x) \<in> set (rd_tags db)"
  then have "x \<in> set (map snd (filter (\<lambda>(p, v). p = project) (rd_tags db)))" by force
  then show ?thesis unfolding protected_version_ids_def Let_def set_append by (rule UnI1)
qed

text \<open>protection that comes during a pass comes too late. A version that is tagged after the pass has read what
  is protected is pruned by its update all the same, although it is protected by then.\<close>

theorem tag_during_pass_is_ignored:
  assumes "v \<in> set (rd_versions db)" and "live v" and "iv_project v = project" and "owned_by db tenant project"
    and "iv_id v \<in> set (prune_read db tenant project keep)"
  defines "tagged \<equiv> db\<lparr>rd_tags := (project, iv_id v) # rd_tags db\<rparr>"
  shows "iv_id v \<in> set (protected_version_ids tagged project) \<and>
     iv_id v \<in> set (fst (prune_write now tenant project (prune_read db tenant project keep) tagged)) \<and>
     pruned_at now v \<in> set (rd_versions (snd (prune_write now tenant project (prune_read db tenant project keep) tagged)))"
proof -
  have "to_prune tagged tenant project (prune_read db tenant project keep) v"
    using assms by (simp add: to_prune_def owned_by_def)
  moreover have "prune_read db tenant project keep \<noteq> []" using assms(5) by auto
  moreover have "iv_id v \<in> set (protected_version_ids tagged project)"
    by (rule tagged_is_protected) (simp add: tagged_def)
  moreover have "rd_versions tagged = rd_versions db" by (simp add: tagged_def)
  ultimately show ?thesis using assms(1) unfolding prune_write_def pruned_at_def
    by (simp add: image_iff) blast
qed

theorem tag_during_pass_is_ignored_witness:
  "demo_id CHR ''b'' \<in> set (fst (prune_write 9 (demo_id CHR ''0'') ''p'' (prune_read demo_retention (demo_id CHR ''0'') ''p'' 2)
     (demo_retention\<lparr>rd_tags := (''p'', demo_id CHR ''b'') # rd_tags demo_retention\<rparr>)))"
proof -
  have "prune_read demo_retention (demo_id CHR ''0'') ''p'' 2 = [demo_id CHR ''b'']" by code_simp
  then show ?thesis
    using tag_during_pass_is_ignored[of "demo_version CHR ''b'' 2 True" demo_retention "''p''" "demo_id CHR ''0''" 2 9] demo_facts(2)
    by (simp add: demo_version_def demo_retention_def live_def)
qed

section \<open>The fallback of a diff\<close>

lemma find_same: "distinct (map iv_id vs) \<Longrightarrow> a \<in> set vs \<Longrightarrow> find (\<lambda>v. iv_id v = iv_id a) vs = Some a"
proof (induction vs)
  case (Cons x vs)
  then show ?case using same_id[OF Cons.prems(1), of x a] by (cases "x = a") auto
qed simp

lemma nearest_live_earlier:
  assumes "distinct (map iv_id (rd_versions db))" and "a \<in> set (rd_versions db)"
    and "nearest_live_earlier_version db project (iv_id a) = Some (i, l)"
  shows "\<exists>v. i = iv_id v \<and> l = iv_label v \<and>
    newest_of v (filter (\<lambda>v. iv_project v = project \<and> live v \<and> iv_id v \<noteq> iv_id a \<and> age_key v < age_key a) (rd_versions db))"
proof -
  let ?vs = "filter (\<lambda>v. iv_project v = project \<and> live v \<and> iv_id v \<noteq> iv_id a \<and> age_key v < age_key a) (rd_versions db)"
  have "find (\<lambda>v. iv_id v = iv_id a) (rd_versions db) = Some a" by (rule find_same[OF assms(1,2)])
  then obtain v vs where v: "newest_first ?vs = v # vs" "i = iv_id v" "l = iv_label v"
    using assms(3) by (auto simp: nearest_live_earlier_version_def split: list.splits)
  have "distinct (map iv_id ?vs)" using assms(1) by (simp add: distinct_map inj_on_def)
  from take_newest[OF this, of v] v show ?thesis by auto
qed

end
