(* ===== verification/Archive.thy ===== *)
theory Archive
  imports FileKinds Utf8
begin

text \<open>
  The intake of uploaded archives (\<open>archive_intake.py\<close>) and the rules for member paths
  (\<open>intake_paths.py\<close>). What the \<open>zipfile\<close> and \<open>tarfile\<close> modules read from the uploaded bytes is an argument:
  whether the container opens, its entries with their headers, and what a member's stream yields. A
  stream that fails with an exception the code does not catch is an outcome of its own. Errors are
  their taxonomy codes. Names are text, members the code points of their decoded text. The choice of a
  root document among the members is not modelled.
\<close>

section \<open>Member paths\<close>

fun split_slash :: "string \<Rightarrow> string list" where
  "split_slash [] = [[]]"
| "split_slash (c # s) = (if c = CHR ''/'' then [] # split_slash s
     else (case split_slash s of p # ps \<Rightarrow> (c # p) # ps | [] \<Rightarrow> [[c]]))"

fun join_slash :: "string list \<Rightarrow> string" where
  "join_slash [] = []"
| "join_slash [p] = p"
| "join_slash (p # ps) = p @ CHR ''/'' # join_slash ps"

text \<open>\<open>PurePosixPath\<close>: empty and dot components disappear; \<open>str\<close> joins the parts.\<close>

definition pure_parts :: "string \<Rightarrow> string list" where
  "pure_parts s = filter (\<lambda>p. p \<noteq> [] \<and> p \<noteq> ''.'') (split_slash s)"

definition is_absolute :: "string \<Rightarrow> bool" where
  "is_absolute s \<longleftrightarrow> s \<noteq> [] \<and> hd s = CHR ''/''"

text \<open>\<open>pure.suffix\<close>: from the last dot of the name, if that is neither its first nor its last character.\<close>

definition pure_suffix :: "string list \<Rightarrow> string" where
  "pure_suffix parts =
     (if parts = [] then []
      else let name = last parts; tail = rev (takeWhile (\<lambda>c. c \<noteq> CHR ''.'') (rev name)); rest = take (length name - length tail) name
        in if tail = [] \<or> length rest \<le> 1 then [] else CHR ''.'' # tail)"

datatype path_error = EmptyPath | AbsolutePath | EscapingPath | InvalidName | TooDeep | WrongSuffix

definition validated_intake_path :: "string option \<Rightarrow> string list option \<Rightarrow> nat \<Rightarrow> string \<Rightarrow> path_error + string list" where
  "validated_intake_path required_suffix allowed_suffixes max_depth path =
     (let raw = strip path; slashes = slashed raw; parts = pure_parts slashes; pure = join_slash parts
      in if raw = [] then Inl EmptyPath
         else if is_absolute slashes then Inl AbsolutePath
         else if parts = [] \<or> ''..'' \<in> set parts then Inl EscapingPath
         else if list_ex (\<lambda>p. p = [] \<or> p = ''.'' \<or> p = ''..'') parts then Inl InvalidName
         else if max_depth < length parts then Inl TooDeep
         else if (case required_suffix of Some s \<Rightarrow> pure_suffix parts \<noteq> s | None \<Rightarrow> False) then Inl WrongSuffix
         else if (case allowed_suffixes of Some ss \<Rightarrow> \<not> list_ex (\<lambda>s. ends_with (lower pure) (lower s)) ss | None \<Rightarrow> False) then Inl WrongSuffix
         else Inr parts)"

definition normalised_member_name :: "string list \<Rightarrow> string" where
  "normalised_member_name parts = join_slash parts"

definition binary_suffixes :: "string list" where
  "binary_suffixes = [''.png'', ''.jpg'', ''.jpeg'', ''.gif'', ''.bmp'', ''.ico'', ''.webp'', ''.svgz'',
     ''.pdf'', ''.zip'', ''.gz'', ''.tgz'', ''.bz2'', ''.xz'', ''.7z'', ''.jar'', ''.war'', ''.woff'', ''.woff2'', ''.ttf'', ''.otf'', ''.eot'',
     ''.so'', ''.dylib'', ''.dll'', ''.exe'', ''.class'', ''.pyc'', ''.wasm'', ''.mp3'', ''.mp4'', ''.mov'', ''.avi'', ''.webm'']"

definition is_binary_suffix :: "string \<Rightarrow> bool" where
  "is_binary_suffix path = list_ex (ends_with (lower path)) binary_suffixes"

section \<open>Recognising archives and members\<close>

definition is_archive_filename :: "string \<Rightarrow> bool" where
  "is_archive_filename filename \<longleftrightarrow> filename \<noteq> [] \<and>
     (let l = lower (basename (slashed filename)) in ends_with l ''.tar.gz'' \<or> ends_with l ''.tgz'' \<or> ends_with l ''.zip'' \<or> ends_with l ''.tar'')"

definition is_archive_payload :: "bytes \<Rightarrow> string option \<Rightarrow> bool" where
  "is_archive_payload raw filename \<longleftrightarrow>
     (case filename of Some f \<Rightarrow> f \<noteq> [] \<and> is_archive_filename f | None \<Rightarrow> False)
     \<or> 4 \<le> length raw \<and> take 2 raw = [0x50, 0x4B]
     \<or> take 2 raw = [0x1F, 0x8B]
     \<or> 262 \<le> length raw \<and> take 5 (drop 257 raw) = [0x75, 0x73, 0x74, 0x61, 0x72]"

datatype skip_reason = DirectoryEntry | ResourceFork | VcsMetadata | OsMetadata | HiddenFile | NotARegularFile

function strip_dot_slash :: "string \<Rightarrow> string" where
  "strip_dot_slash s = (if starts_with s ''./'' then strip_dot_slash (drop 2 s) else s)"
  by pat_completeness auto
termination by (relation "measure length") (auto simp: starts_with_iff)

declare strip_dot_slash.simps [simp del]

definition member_skip_reason :: "string \<Rightarrow> skip_reason option" where
  "member_skip_reason name =
     (let n = strip_dot_slash (slashed name); base = basename n
      in if n = [] \<or> ends_with n ''/'' then Some DirectoryEntry
         else if starts_with n ''__MACOSX/'' then Some ResourceFork
         else if starts_with n ''.git/'' then Some VcsMetadata
         else if base = ''.DS_Store'' \<or> base = ''Thumbs.db'' then Some OsMetadata
         else if starts_with base ''.'' then Some HiddenFile
         else None)"

section \<open>Text of a member\<close>

text \<open>
  \<open>decode("utf-8", errors="replace")\<close>: the next character and how many bytes it takes. Bytes that start no
  character give the replacement character, once for the longest start of a character there.
\<close>

definition next_character :: "nat \<Rightarrow> nat list \<Rightarrow> nat \<times> nat" where
  "next_character a s =
     (let bad = 0xFFFD; nth0 = (\<lambda>i. if i < length s then s ! i else 0)
      in if a < 0x80 then (a, 1)
         else if 0xC2 \<le> a \<and> a \<le> 0xDF then
           (if continuation (nth0 0) then ((a - 0xC0) * 64 + (nth0 0 - 0x80), 2) else (bad, 1))
         else if 0xE0 \<le> a \<and> a \<le> 0xEF then
           (if \<not> second_of_three a (nth0 0) then (bad, 1)
            else if \<not> continuation (nth0 1) then (bad, 2)
            else ((a - 0xE0) * 4096 + (nth0 0 - 0x80) * 64 + (nth0 1 - 0x80), 3))
         else if 0xF0 \<le> a \<and> a \<le> 0xF4 then
           (if \<not> second_of_four a (nth0 0) then (bad, 1)
            else if \<not> continuation (nth0 1) then (bad, 2)
            else if \<not> continuation (nth0 2) then (bad, 3)
            else ((a - 0xF0) * 262144 + (nth0 0 - 0x80) * 4096 + (nth0 1 - 0x80) * 64 + (nth0 2 - 0x80), 4))
         else (bad, 1))"

function utf8_replace :: "nat list \<Rightarrow> unicode" where
  "utf8_replace [] = []"
| "utf8_replace (a # s) = (case next_character a s of (c, n) \<Rightarrow> c # utf8_replace (drop (n - 1) s))"
  by pat_completeness auto
termination by (relation "measure length") (auto simp: less_Suc_eq_le)

definition decode_replacing :: "bytes \<Rightarrow> unicode" where
  "decode_replacing data = utf8_replace (map unat data)"

definition encoded_length :: "unicode \<Rightarrow> nat" where
  "encoded_length text = length (encode_text text)"

section \<open>Unpacking\<close>

datatype archive_error = ArchiveInvalid | TooLarge | ExpansionLimit | UnsafeConstruct | UncaughtException

record archive_policy =
  ap_max_entries :: nat
  ap_max_total_bytes :: nat
  ap_max_file_bytes :: nat
  ap_max_depth :: nat
  ap_max_compression_ratio :: rat

text \<open>What reading a member yields: bytes, an error the code catches, or another exception.\<close>

datatype member_stream = Yields bytes | CaughtFailure | OtherFailure

record zip_info =
  zi_filename :: string
  zi_external_attr :: "32 word"
  zi_file_size :: nat
  zi_stream :: member_stream

datatype tar_kind = TarLink | TarDevice | TarRegular | TarDirectory | TarOther

record tar_info =
  ti_name :: string
  ti_kind :: tar_kind
  ti_size :: nat
  ti_stream :: member_stream

datatype zip_container = BadZip | ZipEntries "zip_info list"
datatype tar_container = BadTar | UnlistableTar | TarEntries "tar_info list"

record unpacked =
  up_members :: "(string, unicode) dict"
  up_binary :: "(string, bytes) dict"
  up_ignored :: "(string \<times> skip_reason) list"
  up_total :: nat

definition record_ignored :: "string \<Rightarrow> skip_reason \<Rightarrow> unpacked \<Rightarrow> unpacked" where
  "record_ignored path reason u = (if reason = DirectoryEntry then u else u\<lparr>up_ignored := up_ignored u @ [(path, reason)]\<rparr>)"

definition validate_member_path :: "archive_policy \<Rightarrow> string \<Rightarrow> archive_error + string" where
  "validate_member_path policy name =
     (case validated_intake_path None None (ap_max_depth policy) name of
        Inl _ \<Rightarrow> Inl ArchiveInvalid
      | Inr parts \<Rightarrow> Inr (normalised_member_name parts))"

text \<open>The bytes of a member, read with a ceiling one above the limit.\<close>

definition read_member :: "archive_policy \<Rightarrow> member_stream \<Rightarrow> archive_error + bytes" where
  "read_member policy stream =
     (case stream of
        OtherFailure \<Rightarrow> Inl UncaughtException
      | CaughtFailure \<Rightarrow> Inl ArchiveInvalid
      | Yields data \<Rightarrow>
          (let most = ap_max_file_bytes policy + 1; data = take most data
           in if most \<le> length data then Inl TooLarge else Inr data))"

definition decode_member_bytes :: "archive_policy \<Rightarrow> bytes \<Rightarrow> archive_error + unicode" where
  "decode_member_bytes policy data =
     (if ap_max_file_bytes policy < length data then Inl TooLarge else Inr (decode_replacing data))"

definition keep_binary :: "string \<Rightarrow> bytes \<Rightarrow> (string, bytes) dict \<Rightarrow> (string, bytes) dict" where
  "keep_binary name data binary = (if decode_text data = None then AList.update name data binary else binary)"

definition add_member :: "archive_policy \<Rightarrow> string \<Rightarrow> nat \<Rightarrow> member_stream \<Rightarrow> unpacked \<Rightarrow> archive_error + unpacked" where
  "add_member policy raw_name declared stream u =
     (case validate_member_path policy raw_name of
        Inl e \<Rightarrow> Inl e
      | Inr name \<Rightarrow>
          (if map_of (up_members u) name \<noteq> None then Inl ArchiveInvalid
           else if ap_max_file_bytes policy < declared then Inl TooLarge
           else if ap_max_total_bytes policy < up_total u + declared then Inl TooLarge
           else (case read_member policy stream of
               Inl e \<Rightarrow> Inl e
             | Inr data \<Rightarrow>
                 (case decode_member_bytes policy data of
                    Inl e \<Rightarrow> Inl e
                  | Inr t \<Rightarrow> Inr (u\<lparr>up_members := AList.update name t (up_members u),
                      up_binary := keep_binary name data (up_binary u), up_total := up_total u + declared\<rparr>)))))"

definition zip_symlink :: "zip_info \<Rightarrow> bool" where
  "zip_symlink i \<longleftrightarrow> and (zi_external_attr i) 0xF000 = 0xA000"

definition zip_entry :: "archive_policy \<Rightarrow> zip_info \<Rightarrow> unpacked \<Rightarrow> archive_error + unpacked" where
  "zip_entry policy i u =
     (if ends_with (zi_filename i) ''/'' then Inr u
      else (case member_skip_reason (zi_filename i) of
          Some reason \<Rightarrow> Inr (record_ignored (zi_filename i) reason u)
        | None \<Rightarrow>
            (if zip_symlink i then Inl UnsafeConstruct
             else add_member policy (zi_filename i) (zi_file_size i) (zi_stream i) u)))"

datatype tar_screen = Accepted | SkippedEntry | RefusedEntry archive_error

definition tar_extract_filter :: "tar_info \<Rightarrow> tar_screen" where
  "tar_extract_filter i =
     (if ti_kind i = TarLink then RefusedEntry UnsafeConstruct
      else if ti_kind i = TarDevice then RefusedEntry UnsafeConstruct
      else if ti_kind i \<noteq> TarRegular then SkippedEntry
      else if is_absolute (slashed (ti_name i)) then RefusedEntry UnsafeConstruct
      else Accepted)"

definition tar_entry :: "archive_policy \<Rightarrow> tar_info \<Rightarrow> unpacked \<Rightarrow> archive_error + unpacked" where
  "tar_entry policy i u =
     (case tar_extract_filter i of
        RefusedEntry e \<Rightarrow> Inl e
      | SkippedEntry \<Rightarrow> Inr (if ti_kind i = TarDirectory then u else record_ignored (ti_name i) NotARegularFile u)
      | Accepted \<Rightarrow>
          (case member_skip_reason (ti_name i) of
             Some reason \<Rightarrow> Inr (record_ignored (ti_name i) reason u)
           | None \<Rightarrow> add_member policy (ti_name i) (ti_size i) (ti_stream i) u))"

definition no_members :: unpacked where
  "no_members = \<lparr>up_members = [], up_binary = [], up_ignored = [], up_total = 0\<rparr>"

fun each_entry :: "('i \<Rightarrow> unpacked \<Rightarrow> archive_error + unpacked) \<Rightarrow> 'i list \<Rightarrow> unpacked \<Rightarrow> archive_error + unpacked" where
  "each_entry f [] u = Inr u"
| "each_entry f (i # rest) u = (case f i u of Inl e \<Rightarrow> Inl e | Inr u \<Rightarrow> each_entry f rest u)"

definition unpack_entries :: "archive_policy \<Rightarrow> ('i \<Rightarrow> unpacked \<Rightarrow> archive_error + unpacked) \<Rightarrow> 'i list \<Rightarrow> archive_error + unpacked" where
  "unpack_entries policy f infos =
     (if ap_max_entries policy < length infos then Inl TooLarge
      else (case each_entry f infos no_members of
          Inl e \<Rightarrow> Inl e
        | Inr u \<Rightarrow> if up_members u = [] then Inl ArchiveInvalid else Inr u))"

definition unpack_zip :: "archive_policy \<Rightarrow> zip_container \<Rightarrow> archive_error + unpacked" where
  "unpack_zip policy archive =
     (case archive of BadZip \<Rightarrow> Inl ArchiveInvalid | ZipEntries infos \<Rightarrow> unpack_entries policy (zip_entry policy) infos)"

definition unpack_tar :: "archive_policy \<Rightarrow> tar_container \<Rightarrow> archive_error + unpacked" where
  "unpack_tar policy archive =
     (case archive of
        BadTar \<Rightarrow> Inl ArchiveInvalid
      | UnlistableTar \<Rightarrow> Inl UncaughtException
      | TarEntries infos \<Rightarrow> unpack_entries policy (tar_entry policy) infos)"

definition uncompressed_size :: "unpacked \<Rightarrow> nat" where
  "uncompressed_size u = (\<Sum>(name, text)\<leftarrow>up_members u. encoded_length text)"

definition unpack_archive_members ::
  "(bytes \<Rightarrow> zip_container) \<Rightarrow> (bytes \<Rightarrow> tar_container) \<Rightarrow> archive_policy \<Rightarrow> bytes \<Rightarrow> archive_error + unpacked" where
  "unpack_archive_members read_zip read_tar policy raw =
     (if ap_max_total_bytes policy < length raw then Inl TooLarge
      else (case (if take 2 raw = [0x50, 0x4B] then unpack_zip policy (read_zip raw) else unpack_tar policy (read_tar raw)) of
          Inl e \<Rightarrow> Inl e
        | Inr u \<Rightarrow>
            (if 0 < length raw \<and> ap_max_compression_ratio policy < of_nat (uncompressed_size u) / of_nat (length raw)
             then Inl ExpansionLimit else Inr u)))"

end
