(* ===== verification/ArchiveSound.thy ===== *)
theory ArchiveSound
  imports Archive
begin

text \<open>
  What unpacking an archive promises (\<open>archive_intake.py\<close>). Every entry has a fate that does not depend
  on the others: it is dropped, reported as ignored with a reason, offered as a member, or refused. The
  result is the concatenation of the fates, and an archive unpacks exactly when no entry is refused and
  the members keep to the policy together; the two containers are instances of one interface.
\<close>

section \<open>Member names\<close>

lemma split_slash_ne [simp]: "split_slash s \<noteq> []"
  by (induction s) (auto split: list.splits)

lemma split_slash_no_slash: "p \<in> set (split_slash s) \<Longrightarrow> CHR ''/'' \<notin> set p"
  by (induction s arbitrary: p) (force split: list.splits if_splits)+

lemma split_slash_chars: "p \<in> set (split_slash s) \<Longrightarrow> set p \<subseteq> set s"
  by (induction s arbitrary: p) (force split: list.splits if_splits)+

lemma split_slash_part: "CHR ''/'' \<notin> set p \<Longrightarrow> split_slash p = [p]"
  by (induction p) auto

lemma split_slash_append: "CHR ''/'' \<notin> set p \<Longrightarrow> split_slash (p @ CHR ''/'' # s) = p # split_slash s"
  by (induction p) auto

lemma split_join_slash:
  "ps \<noteq> [] \<Longrightarrow> \<forall>p \<in> set ps. CHR ''/'' \<notin> set p \<Longrightarrow> split_slash (join_slash ps) = ps"
  by (induction ps rule: join_slash.induct) (auto simp: split_slash_part split_slash_append)

lemma join_slash_chars: "set (join_slash ps) \<subseteq> insert (CHR ''/'') (\<Union>p \<in> set ps. set p)"
  by (induction ps rule: join_slash.induct) auto

lemma pure_parts_ok:
  assumes "p \<in> set (pure_parts s)"
  shows "p \<noteq> []" "p \<noteq> ''.''" "CHR ''/'' \<notin> set p" "set p \<subseteq> set s"
  using assms split_slash_no_slash split_slash_chars unfolding pure_parts_def by auto

text \<open>A relative path of at most \<open>depth\<close> parts that no resolution can lead outside its directory.\<close>

definition sandboxed_name :: "nat \<Rightarrow> string \<Rightarrow> bool" where
  "sandboxed_name depth name \<longleftrightarrow>
     length (split_slash name) \<le> depth \<and> CHR 0x5C \<notin> set name
     \<and> (\<forall>p \<in> set (split_slash name). p \<noteq> [] \<and> p \<noteq> ''.'' \<and> p \<noteq> ''..'')"

lemma validated_parts:
  assumes "validated_intake_path suffix suffixes depth path = Inr parts"
  shows "parts = pure_parts (slashed (strip path))" "parts \<noteq> []" "''..'' \<notin> set parts" "length parts \<le> depth"
  using assms by (auto simp: validated_intake_path_def Let_def split: if_splits)

lemma validated_name_sandboxed:
  assumes "validate_member_path policy name = Inr m"
  shows "sandboxed_name (ap_max_depth policy) m"
proof -
  obtain parts where parts: "validated_intake_path None None (ap_max_depth policy) name = Inr parts" and m: "m = join_slash parts"
    using assms by (auto simp: validate_member_path_def normalised_member_name_def split: sum.splits)
  note v = validated_parts[OF parts]
  have ok: "\<forall>p \<in> set parts. p \<noteq> [] \<and> p \<noteq> ''.'' \<and> CHR ''/'' \<notin> set p \<and> set p \<subseteq> set (slashed (strip name))"
    using pure_parts_ok v(1) by blast
  have split: "split_slash m = parts" unfolding m using v(2) ok by (intro split_join_slash) auto
  have "CHR 0x5C \<notin> set (slashed (strip name))" by (auto simp: slashed_def)
  then have "CHR 0x5C \<notin> set m" using ok join_slash_chars[of parts] unfolding m by fastforce
  then show ?thesis using split ok v by (auto simp: sandboxed_name_def)
qed

section \<open>The replacing decoder\<close>

text \<open>Text that is valid is decoded without loss; decoding never leaves the Unicode range.\<close>

lemma replace_agrees_with_strict: "utf8_decode s = Some t \<Longrightarrow> utf8_replace s = t"
proof (induction s arbitrary: t rule: utf8_decode.induct)
  case (2 a s)
  consider "a < 0x80" | "0xC2 \<le> a" "a \<le> 0xDF" | "0xE0 \<le> a" "a \<le> 0xEF" | "0xF0 \<le> a" "a \<le> 0xF4"
    using "2.prems" by (fastforce split: if_splits)
  then show ?case
  proof cases
    case 1
    then show ?thesis using 2 by (auto simp: next_character_def)
  next
    case 2
    then obtain b r where "s = b # r" "continuation b" using "2.prems" by (auto split: list.splits if_splits)
    then show ?thesis using "2.prems" "2.IH"(2) 2 by (auto simp: next_character_def)
  next
    case 3
    then obtain b c r where "s = b # c # r" "second_of_three a b" "continuation c"
      using "2.prems" by (auto split: list.splits if_splits)
    then show ?thesis using "2.prems" "2.IH"(3) 3 by (auto simp: next_character_def)
  next
    case 4
    then obtain b c d r where "s = b # c # d # r" "second_of_four a b" "continuation c" "continuation d"
      using "2.prems" by (auto split: list.splits if_splits)
    then show ?thesis using "2.prems" "2.IH"(4) 4 by (auto simp: next_character_def)
  qed
qed simp

section \<open>The fate of an entry\<close>

datatype fate = Dropped | Ignored string skip_reason | Offered string nat member_stream | Refused

fun offered :: "fate list \<Rightarrow> (string \<times> nat \<times> member_stream) list" where
  "offered [] = []"
| "offered (Offered n d st # fs) = (n, d, st) # offered fs"
| "offered (_ # fs) = offered fs"

fun reported :: "fate list \<Rightarrow> (string \<times> skip_reason) list" where
  "reported [] = []"
| "reported (Ignored n r # fs) = (if r = DirectoryEntry then [] else [(n, r)]) @ reported fs"
| "reported (_ # fs) = reported fs"

fun payload :: "member_stream \<Rightarrow> bytes" where
  "payload (Yields data) = data"
| "payload _ = []"

definition canonical :: "archive_policy \<Rightarrow> string \<Rightarrow> string" where
  "canonical policy name = (case validate_member_path policy name of Inr m \<Rightarrow> m | Inl _ \<Rightarrow> [])"

text \<open>A member that keeps to the policy by itself.\<close>

definition admissible :: "archive_policy \<Rightarrow> string \<times> nat \<times> member_stream \<Rightarrow> bool" where
  "admissible policy x = (case x of (n, d, st) \<Rightarrow>
     (\<exists>m. validate_member_path policy n = Inr m) \<and> d \<le> ap_max_file_bytes policy
     \<and> (\<exists>data. st = Yields data \<and> length data \<le> ap_max_file_bytes policy))"

definition member_of :: "archive_policy \<Rightarrow> string \<times> nat \<times> member_stream \<Rightarrow> string \<times> unicode" where
  "member_of policy x = (case x of (n, d, st) \<Rightarrow> (canonical policy n, decode_replacing (payload st)))"

definition original_of :: "archive_policy \<Rightarrow> string \<times> nat \<times> member_stream \<Rightarrow> (string \<times> bytes) list" where
  "original_of policy x = (case x of (n, d, st) \<Rightarrow> if decode_text (payload st) = None then [(canonical policy n, payload st)] else [])"

definition declared_of :: "string \<times> nat \<times> member_stream \<Rightarrow> nat" where
  "declared_of x = fst (snd x)"

definition append_member :: "archive_policy \<Rightarrow> string \<times> nat \<times> member_stream \<Rightarrow> unpacked \<Rightarrow> unpacked" where
  "append_member policy x u = u\<lparr>up_members := up_members u @ [member_of policy x], up_binary := up_binary u @ original_of policy x,
     up_total := up_total u + declared_of x\<rparr>"

lemma update_fresh: "k \<notin> fst ` set d \<Longrightarrow> AList.update k v d = d @ [(k, v)]"
  by (induction d) auto

definition clean :: "unpacked \<Rightarrow> bool" where
  "clean u \<longleftrightarrow> fst ` set (up_binary u) \<subseteq> fst ` set (up_members u)"

lemma add_member_iff:
  assumes "clean u"
  shows "add_member policy n d st u = Inr u' \<longleftrightarrow>
     admissible policy (n, d, st) \<and> canonical policy n \<notin> fst ` set (up_members u)
     \<and> up_total u + d \<le> ap_max_total_bytes policy \<and> u' = append_member policy (n, d, st) u"
proof (cases "validate_member_path policy n")
  case (Inr m)
  have can: "canonical policy n = m" by (simp add: canonical_def Inr)
  have fresh: "map_of (up_members u) m \<noteq> None \<longleftrightarrow> m \<in> fst ` set (up_members u)" by (simp add: map_of_eq_None_iff)
  show ?thesis
  proof (cases st)
    case (Yields data)
    show ?thesis
    proof (cases "m \<in> fst ` set (up_members u) \<or> \<not> length data \<le> ap_max_file_bytes policy")
      case True
      then show ?thesis
        using fresh by (auto simp: add_member_def admissible_def Inr can Yields read_member_def Let_def)
    next
      case False
      have "m \<notin> fst ` set (up_binary u)" using assms False by (auto simp: clean_def)
      then show ?thesis using False fresh
        by (auto simp: add_member_def admissible_def Inr can Yields read_member_def Let_def decode_member_bytes_def
            append_member_def member_of_def original_of_def declared_of_def keep_binary_def update_fresh)
    qed
  qed (auto simp: add_member_def admissible_def Inr read_member_def)
qed (auto simp: add_member_def admissible_def)

section \<open>The entries of a container\<close>

definition outcome_from :: "archive_policy \<Rightarrow> unpacked \<Rightarrow> fate list \<Rightarrow> unpacked" where
  "outcome_from policy u fates =
     u\<lparr>up_members := up_members u @ map (member_of policy) (offered fates),
       up_binary := up_binary u @ concat (map (original_of policy) (offered fates)),
       up_ignored := up_ignored u @ reported fates,
       up_total := up_total u + sum_list (map declared_of (offered fates))\<rparr>"

definition keeps_to_policy :: "archive_policy \<Rightarrow> unpacked \<Rightarrow> fate list \<Rightarrow> bool" where
  "keeps_to_policy policy u fates \<longleftrightarrow>
     Refused \<notin> set fates \<and> list_all (admissible policy) (offered fates)
     \<and> distinct (map fst (up_members u) @ map (canonical policy \<circ> fst) (offered fates))
     \<and> up_total u + sum_list (map declared_of (offered fates)) \<le> ap_max_total_bytes policy"

text \<open>The interface of a container: every entry is handled according to a fate of its own.\<close>

locale container =
  fixes policy :: archive_policy
    and handle :: "'i \<Rightarrow> unpacked \<Rightarrow> archive_error + unpacked"
    and fate_of :: "'i \<Rightarrow> fate"
  assumes dropped: "fate_of i = Dropped \<Longrightarrow> handle i u = Inr u"
    and ignored: "fate_of i = Ignored n r \<Longrightarrow> handle i u = Inr (record_ignored n r u)"
    and offered: "fate_of i = Offered n d st \<Longrightarrow> handle i u = add_member policy n d st u"
    and refused: "fate_of i = Refused \<Longrightarrow> handle i u \<noteq> Inr u'"
begin

lemma each_entry_iff:
  "clean u \<Longrightarrow> distinct (map fst (up_members u)) \<Longrightarrow> up_total u \<le> ap_max_total_bytes policy \<Longrightarrow>
   each_entry handle infos u = Inr u' \<longleftrightarrow>
     keeps_to_policy policy u (map fate_of infos) \<and> u' = outcome_from policy u (map fate_of infos)"
proof (induction infos arbitrary: u)
  case (Cons i infos)
  show ?case
  proof (cases "fate_of i")
    case Dropped
    then show ?thesis using Cons dropped by (simp add: keeps_to_policy_def outcome_from_def)
  next
    case (Ignored n r)
    have "clean (record_ignored n r u)" using Cons.prems(1) by (simp add: clean_def record_ignored_def)
    then have "each_entry handle infos (record_ignored n r u) = Inr u' \<longleftrightarrow>
        keeps_to_policy policy (record_ignored n r u) (map fate_of infos)
        \<and> u' = outcome_from policy (record_ignored n r u) (map fate_of infos)"
      using Cons.prems by (intro Cons.IH) (simp_all add: record_ignored_def)
    then show ?thesis using ignored[OF Ignored, of u]
      by (simp add: Ignored keeps_to_policy_def outcome_from_def record_ignored_def)
  next
    case Refused
    then have "\<not> each_entry handle (i # infos) u = Inr u'" using refused[OF Refused, of u] by (auto split: sum.splits)
    then show ?thesis by (simp add: Refused keeps_to_policy_def)
  next
    case (Offered n d st)
    let ?x = "(n, d, st)" and ?v = "append_member policy (n, d, st) u" and ?fs = "map fate_of infos"
    define fits where "fits \<longleftrightarrow> admissible policy ?x \<and> canonical policy n \<notin> fst ` set (up_members u) \<and> up_total u + d \<le> ap_max_total_bytes policy"
    have step: "handle i u = Inr v \<longleftrightarrow> fits \<and> v = ?v" for v
      using offered[OF Offered, of u] add_member_iff[OF Cons.prems(1)] by (simp add: fits_def conj_assoc)
    have names: "map fst (up_members ?v) = map fst (up_members u) @ [canonical policy n]"
      by (simp add: append_member_def member_of_def)
    have ih: "each_entry handle infos ?v = Inr u' \<longleftrightarrow> keeps_to_policy policy ?v ?fs \<and> u' = outcome_from policy ?v ?fs" if fits
    proof (rule Cons.IH)
      show "clean ?v" using Cons.prems(1) by (auto simp: clean_def append_member_def member_of_def original_of_def)
      show "distinct (map fst (up_members ?v))" using that Cons.prems(2) unfolding names by (auto simp: fits_def)
      show "up_total ?v \<le> ap_max_total_bytes policy" using that by (simp add: fits_def append_member_def declared_of_def)
    qed
    have keeps: "keeps_to_policy policy u (Offered n d st # ?fs) \<longleftrightarrow> fits \<and> keeps_to_policy policy ?v ?fs"
      unfolding keeps_to_policy_def names
      by (auto simp: fits_def append_member_def declared_of_def)
    have "outcome_from policy ?v ?fs = outcome_from policy u (Offered n d st # ?fs)"
      by (simp add: outcome_from_def append_member_def)
    moreover have "each_entry handle (i # infos) u = Inr u' \<longleftrightarrow> fits \<and> each_entry handle infos ?v = Inr u'"
    proof (cases "handle i u")
      case (Inr v)
      then show ?thesis using step[of v] by auto
    qed (use step[of ?v] in auto)
    ultimately show ?thesis using ih keeps by (auto simp: Offered)
  qed
qed (auto simp: keeps_to_policy_def outcome_from_def)

lemma unpack_entries_iff:
  "unpack_entries policy handle infos = Inr u \<longleftrightarrow>
     length infos \<le> ap_max_entries policy \<and> keeps_to_policy policy no_members (map fate_of infos)
     \<and> offered (map fate_of infos) \<noteq> [] \<and> u = outcome_from policy no_members (map fate_of infos)"
proof -
  have "each_entry handle infos no_members = Inr v \<longleftrightarrow>
      keeps_to_policy policy no_members (map fate_of infos) \<and> v = outcome_from policy no_members (map fate_of infos)" for v
    by (rule each_entry_iff) (simp_all add: clean_def no_members_def)
  moreover have "unpack_entries policy handle infos = Inr u \<longleftrightarrow>
      length infos \<le> ap_max_entries policy \<and> each_entry handle infos no_members = Inr u \<and> up_members u \<noteq> []"
    by (cases "each_entry handle infos no_members") (auto simp: unpack_entries_def)
  moreover have "up_members (outcome_from policy no_members fates) = map (member_of policy) (offered fates)" for fates
    by (simp add: outcome_from_def no_members_def)
  ultimately show ?thesis by (metis map_is_Nil_conv)
qed

end

text \<open>The two containers.\<close>

definition zip_fate :: "zip_info \<Rightarrow> fate" where
  "zip_fate i =
     (if ends_with (zi_filename i) ''/'' then Dropped
      else (case member_skip_reason (zi_filename i) of
          Some r \<Rightarrow> Ignored (zi_filename i) r
        | None \<Rightarrow> if zip_symlink i then Refused else Offered (zi_filename i) (zi_file_size i) (zi_stream i)))"

definition tar_fate :: "tar_info \<Rightarrow> fate" where
  "tar_fate i =
     (case tar_extract_filter i of
        RefusedEntry e \<Rightarrow> Refused
      | SkippedEntry \<Rightarrow> if ti_kind i = TarDirectory then Dropped else Ignored (ti_name i) NotARegularFile
      | Accepted \<Rightarrow>
          (case member_skip_reason (ti_name i) of
             Some r \<Rightarrow> Ignored (ti_name i) r
           | None \<Rightarrow> Offered (ti_name i) (ti_size i) (ti_stream i)))"

interpretation zip: container policy "zip_entry policy" zip_fate for policy
  by unfold_locales (auto simp: zip_fate_def zip_entry_def split: if_splits option.splits)

interpretation tar: container policy "tar_entry policy" tar_fate for policy
  by unfold_locales (auto simp: tar_fate_def tar_entry_def split: if_splits option.splits tar_screen.splits)


section \<open>What the archive unpacks to\<close>

text \<open>The fates of the entries of an archive that opens.\<close>

definition archive_fates :: "(bytes \<Rightarrow> zip_container) \<Rightarrow> (bytes \<Rightarrow> tar_container) \<Rightarrow> bytes \<Rightarrow> fate list option" where
  "archive_fates read_zip read_tar raw =
     (if take 2 raw = [0x50, 0x4B] then (case read_zip raw of ZipEntries is \<Rightarrow> Some (map zip_fate is) | BadZip \<Rightarrow> None)
      else (case read_tar raw of TarEntries is \<Rightarrow> Some (map tar_fate is) | _ \<Rightarrow> None))"

definition outcome :: "archive_policy \<Rightarrow> fate list \<Rightarrow> unpacked" where
  "outcome policy fates =
     \<lparr>up_members = map (member_of policy) (offered fates), up_binary = concat (map (original_of policy) (offered fates)),
      up_ignored = reported fates, up_total = sum_list (map declared_of (offered fates))\<rparr>"

definition acceptable :: "archive_policy \<Rightarrow> fate list \<Rightarrow> bool" where
  "acceptable policy fates \<longleftrightarrow>
     length fates \<le> ap_max_entries policy \<and> Refused \<notin> set fates \<and> offered fates \<noteq> []
     \<and> list_all (admissible policy) (offered fates) \<and> distinct (map (canonical policy \<circ> fst) (offered fates))
     \<and> sum_list (map declared_of (offered fates)) \<le> ap_max_total_bytes policy"

definition within_ratio :: "archive_policy \<Rightarrow> bytes \<Rightarrow> unpacked \<Rightarrow> bool" where
  "within_ratio policy raw u \<longleftrightarrow> raw = [] \<or> of_nat (uncompressed_size u) \<le> ap_max_compression_ratio policy * of_nat (length raw)"

lemma outcome_from_start: "outcome_from policy no_members fates = outcome policy fates"
  by (simp add: outcome_from_def outcome_def no_members_def)

lemma acceptable_from_start:
  "acceptable policy fates \<longleftrightarrow> length fates \<le> ap_max_entries policy \<and> keeps_to_policy policy no_members fates \<and> offered fates \<noteq> []"
  by (auto simp: acceptable_def keeps_to_policy_def no_members_def)

lemma unpack_members_iff:
  "(if take 2 raw = [0x50, 0x4B] then unpack_zip policy (read_zip raw) else unpack_tar policy (read_tar raw)) = Inr u \<longleftrightarrow>
     (\<exists>fates. archive_fates read_zip read_tar raw = Some fates \<and> acceptable policy fates \<and> u = outcome policy fates)"
  by (auto simp: unpack_zip_def unpack_tar_def archive_fates_def zip.unpack_entries_iff tar.unpack_entries_iff
      acceptable_from_start outcome_from_start split: zip_container.splits tar_container.splits)

lemma unpack_archive_iff:
  "unpack_archive_members read_zip read_tar policy raw = Inr u \<longleftrightarrow>
     length raw \<le> ap_max_total_bytes policy
     \<and> (\<exists>fates. archive_fates read_zip read_tar raw = Some fates \<and> acceptable policy fates \<and> u = outcome policy fates)
     \<and> within_ratio policy raw u"
proof -
  have ratio: "within_ratio policy raw v \<longleftrightarrow>
      \<not> (0 < length raw \<and> ap_max_compression_ratio policy < of_nat (uncompressed_size v) / of_nat (length raw))" for v
    by (auto simp: within_ratio_def not_less divide_le_eq)
  define r where "r = (if take 2 raw = [0x50, 0x4B] then unpack_zip policy (read_zip raw) else unpack_tar policy (read_tar raw))"
  have "unpack_archive_members read_zip read_tar policy raw = Inr u \<longleftrightarrow> length raw \<le> ap_max_total_bytes policy \<and> r = Inr u \<and> within_ratio policy raw u"
    unfolding unpack_archive_members_def r_def[symmetric] ratio by (cases r) (auto simp: not_less)
  then show ?thesis using unpack_members_iff unfolding r_def by blast
qed


text \<open>C17: An upload unpacks exactly when the compressed bytes are within the total limit, the container opens
  and has at most the allowed number of entries, none of them a link or device, the members offered are
  not empty, each has an acceptable name and size and reads completely, their normalised names differ, the
  declared sizes fit in the total limit and the text is within the compression ratio. The result then is
  every member's text in the order of the archive, the exact bytes of those that are not text, and every
  other entry but the directories reported with its reason.\<close>

theorem unpacking_exact:
  "unpack_archive_members read_zip read_tar policy raw = Inr u \<longleftrightarrow>
     length raw \<le> ap_max_total_bytes policy
     \<and> (\<exists>fates. archive_fates read_zip read_tar raw = Some fates \<and> acceptable policy fates \<and> u = outcome policy fates)
     \<and> within_ratio policy raw u"
  by (rule unpack_archive_iff)

lemma offered_member:
  assumes "acceptable policy fates" "(name, t) \<in> set (up_members (outcome policy fates))"
  obtains data where "length data \<le> ap_max_file_bytes policy" "t = decode_replacing data"
    "sandboxed_name (ap_max_depth policy) name"
    "case decode_text data of Some s \<Rightarrow> t = s | None \<Rightarrow> (name, data) \<in> set (up_binary (outcome policy fates))"
proof -
  obtain n d st where x: "(n, d, st) \<in> set (offered fates)" and nt: "(name, t) = member_of policy (n, d, st)"
    using assms(2) by (auto simp: outcome_def)
  have "admissible policy (n, d, st)" using assms(1) x by (auto simp: acceptable_def list_all_iff)
  then obtain m data where m: "validate_member_path policy n = Inr m" and st: "st = Yields data" and
    small: "length data \<le> ap_max_file_bytes policy" by (auto simp: admissible_def)
  have name: "name = m" and t: "t = decode_replacing data" using nt by (auto simp: member_of_def canonical_def m st)
  have "(name, data) \<in> set (up_binary (outcome policy fates))" if "decode_text data = None"
  proof -
    have "(name, data) \<in> set (original_of policy (n, d, st))" using that by (simp add: original_of_def st canonical_def m name)
    then show ?thesis using x by (auto simp: outcome_def)
  qed
  moreover have "t = s" if "decode_text data = Some s" for s
    using that replace_agrees_with_strict unfolding t decode_replacing_def decode_text_def by simp
  ultimately have "case decode_text data of Some s \<Rightarrow> t = s | None \<Rightarrow> (name, data) \<in> set (up_binary (outcome policy fates))"
    by (simp split: option.splits)
  then show ?thesis using that[OF small t] validated_name_sandboxed[OF m] name by blast
qed


text \<open>Streams that yield at most the declared size keep the whole archive within the total limit.\<close>

lemma whole_archive_bounded:
  assumes "acceptable policy fates" "\<forall>(n, d, st) \<in> set (offered fates). length (payload st) \<le> d"
  shows "(\<Sum>(n, d, st)\<leftarrow>offered fates. length (payload st)) \<le> ap_max_total_bytes policy"
proof -
  have "(\<Sum>(n, d, st)\<leftarrow>offered fates. length (payload st)) \<le> (\<Sum>x\<leftarrow>offered fates. declared_of x)"
    using assms(2) by (intro sum_list_mono) (auto simp: declared_of_def)
  then show ?thesis using assms(1) by (simp add: acceptable_def)
qed

text \<open>
  Two gaps of the screening. A zip file written on Unix keeps the file's mode in the upper half of the
  external attributes, where the test for links does not look. And the rules that skip metadata read the
  name before it is normalised, so that a doubled slash leads into the repository's own directory.
\<close>

lemma unix_links_are_not_recognised:
  fixes mode :: "16 word"
  assumes "zi_external_attr i = push_bit 16 (ucast mode)"
  shows "\<not> zip_symlink i"
proof -
  define k where "k = (0xF000 :: 32 word)"
  have "k = take_bit 16 k" by (simp add: k_def)
  then have low: "bit k n \<Longrightarrow> n < 16" for n by (metis bit_take_bit_iff)
  have "and (push_bit 16 (ucast mode)) k = 0"
    by (rule bit_word_eqI) (auto simp: bit_and_iff bit_push_bit_iff dest: low)
  then show ?thesis using assms by (simp add: zip_symlink_def k_def)
qed

lemma metadata_slips_through:
  "member_skip_reason ''.//.git/config'' = None"
  "validate_member_path \<lparr>ap_max_entries = 1, ap_max_total_bytes = 1, ap_max_file_bytes = 1, ap_max_depth = 2, ap_max_compression_ratio = 1\<rparr>
     ''.//.git/config'' = Inr ''.git/config''"
  "member_skip_reason ''.git/config'' = Some VcsMetadata"
  by code_simp+


section \<open>A small archive\<close>

definition sample_policy :: archive_policy where
  "sample_policy = \<lparr>ap_max_entries = 3, ap_max_total_bytes = 10, ap_max_file_bytes = 4, ap_max_depth = 2, ap_max_compression_ratio = 2\<rparr>"

definition sample_entries :: "zip_info list" where
  "sample_entries =
     [\<lparr>zi_filename = ''a/'', zi_external_attr = 0x10, zi_file_size = 0, zi_stream = Yields []\<rparr>,
      \<lparr>zi_filename = ''.git/x'', zi_external_attr = 0, zi_file_size = 1, zi_stream = Yields [0x31]\<rparr>,
      \<lparr>zi_filename = ''a/.//b'', zi_external_attr = 0, zi_file_size = 2, zi_stream = Yields [0x68, 0xFF]\<rparr>]"

definition sample_unpacked :: unpacked where
  "sample_unpacked = \<lparr>up_members = [(''a/b'', [0x68, 0xFFFD])], up_binary = [(''a/b'', [0x68, 0xFF])],
     up_ignored = [(''.git/x'', VcsMetadata)], up_total = 2\<rparr>"

lemma sample_fates: "map zip_fate sample_entries = [Dropped, Ignored ''.git/x'' VcsMetadata, Offered ''a/.//b'' 2 (Yields [0x68, 0xFF])]"
  by code_simp

lemma sample_name: "validate_member_path sample_policy ''a/.//b'' = Inr ''a/b''"
  by code_simp

lemma sample_unpacks:
  "unpack_archive_members (\<lambda>_. ZipEntries sample_entries) (\<lambda>_. BadTar) sample_policy [0x50, 0x4B, 3, 4] = Inr sample_unpacked"
proof -
  let ?fates = "map zip_fate sample_entries"
  have "outcome sample_policy ?fates = sample_unpacked"
    by (simp add: outcome_def sample_unpacked_def sample_fates member_of_def original_of_def canonical_def sample_name declared_of_def
        decode_replacing_def decode_text_def next_character_def)
  moreover have "acceptable sample_policy ?fates"
    by (simp add: acceptable_def sample_fates admissible_def sample_name declared_of_def) (simp add: sample_policy_def)
  moreover have "within_ratio sample_policy [0x50, 0x4B, 3, 4] sample_unpacked"
    by (simp add: within_ratio_def sample_policy_def sample_unpacked_def uncompressed_size_def encoded_length_def encode_text_def utf8_units_def)
  ultimately show ?thesis
    by (simp add: unpack_archive_iff archive_fates_def) (simp add: sample_policy_def)
qed


end
