(* ===== verification/WebhookSecrets.thy ===== *)
theory WebhookSecrets
  imports RefreshDb ScanIndex WireFormat
begin

text \<open>
  The signing secrets of repository webhooks: provisioning and the secrets that verify
  (\<open>repository_webhook_subscriptions.py\<close>, \<open>push_webhook_crypto.py\<close>), rotation
  (\<open>repository_webhook_rotation.py\<close>), the sweep of the grace windows
  (\<open>repository_webhook_secret_sweep.py\<close>) and the statements of \<open>database.py\<close> they use. The provider is a
  dictionary of the secrets its hooks hold; what it answers to an update is an argument, and an answer
  that is lost may or may not have been carried out. Fernet, SHA-256 and HMAC are fields of the
  environment. A provider update and the record of how it went are two steps (\<open>sync_call\<close>,
  \<open>sync_record\<close>), as other callers can come between them. Statements of one table are atomic.
\<close>

section \<open>Environment\<close>

record webhook_env =
  we_key :: "string option"
  we_seal :: "string \<Rightarrow> string \<Rightarrow> bytes"
  we_unseal :: "string \<Rightarrow> bytes \<Rightarrow> string option"
  we_sha256 :: "string \<Rightarrow> string"
  we_hmac :: "string \<Rightarrow> bytes \<Rightarrow> string"
  we_json :: "bytes \<Rightarrow> json option"
  we_views :: py_views
  we_grace :: int
  we_min_grace :: int
  we_max_grace :: int
  we_base_url :: string
  we_enabled :: bool
  we_pr_preview :: bool

definition encrypt_signing_secret :: "webhook_env \<Rightarrow> string \<Rightarrow> bytes option" where
  "encrypt_signing_secret env plain =
     (case we_key env of
        None \<Rightarrow> None
      | Some key \<Rightarrow> if key = [] \<or> plain = [] then None else Some (we_seal env (strip key) plain))"

definition decrypt_signing_secret :: "webhook_env \<Rightarrow> bytes \<Rightarrow> string option" where
  "decrypt_signing_secret env blob =
     (case we_key env of
        None \<Rightarrow> None
      | Some key \<Rightarrow> if key = [] \<or> blob = [] then None else we_unseal env (strip key) blob)"

definition secret_fingerprint :: "webhook_env \<Rightarrow> string \<Rightarrow> string option" where
  "secret_fingerprint env secret = (if secret = [] then None else Some (take 16 (we_sha256 env secret)))"

definition supported_providers :: "string list" where
  "supported_providers = [''github'', ''gitlab'', ''bitbucket'']"

definition normalize_provider :: "string \<Rightarrow> string option" where
  "normalize_provider raw = (let p = lower (strip raw) in if p \<in> set supported_providers then Some p else None)"

section \<open>Tables\<close>

datatype registration_state = LocalHook | RegisteredHook | FailedHook

datatype sync_error =
  NoProviderHook | NotAutomatic string | NoToken | NoDeliveryUrl | NoOwnerName | HookUnreachable | HookRefused nat | HookStatus nat

record webhook_subscription =
  ws_id :: string
  ws_tenant :: string
  ws_repository :: string
  ws_provider :: string
  ws_full_name :: string
  ws_secret_enc :: "bytes option"
  ws_fingerprint :: "string option"
  ws_pr_preview :: bool
  ws_hook_id :: "string option"
  ws_registration :: registration_state
  ws_registration_error :: "sync_error option"
  ws_previous_enc :: "bytes option"
  ws_previous_fingerprint :: "string option"
  ws_previous_expires :: "int option"
  ws_rotated_at :: "int option"
  ws_rotation_count :: int
  ws_synced :: bool
  ws_rotation_error :: "sync_error option"
  ws_event_count :: int
  ws_last_event :: "int option"
  ws_last_delivery :: "string option"
  ws_created :: int

datatype generation = CurrentSecret | PreviousSecret

datatype delivery_outcome = Enqueued | PreviewScan | Ignored | Duplicate | Rejected

datatype event_error = UnsupportedEvent | NotABranch | BranchDeleted | MissingCommit | MissingRepository | MissingBranch

datatype delivery_reason =
  NoSubscriptionHere | SignatureInvalid | BranchNotTracked | PrPreviewDisabled | PrActionNotActionable | PrHeadInFork
| PrHeadMissing | ScanInFlight | RepositoryNotPollable | WebhooksDisabled | EventRefused event_error

text \<open>A delivery in the ledger: whom it was recorded for, its identifier, what it said and what became of it.\<close>

record webhook_event =
  wv_tenant :: "string option"
  wv_subscription :: "string option"
  wv_repository :: "string option"
  wv_provider :: string
  wv_delivery :: "string option"
  wv_event_type :: "string option"
  wv_action :: "string option"
  wv_full_name :: "string option"
  wv_branch :: "string option"
  wv_head :: "string option"
  wv_pr :: "int option"
  wv_outcome :: delivery_outcome
  wv_reason :: "delivery_reason option"
  wv_jobs :: nat

datatype webhook_audit =
  HookRegistered registration_state "string option" "sync_error option"
| SecretRotated "string option" "string option" int "int option" int bool "sync_error option" bool
| SecretExpired "string option" "string option" int bool "sync_error option"
| DeliveryRejected "string option" "string option"
| DeliveryAccepted webhook_event bool nat nat nat generation

text \<open>\<open>wd_moves\<close> logs the movements of refs that are handed to the drafts bound to them.\<close>

record webhook_db =
  wd_subs :: "webhook_subscription list"
  wd_events :: "webhook_event list"
  wd_audits :: "(string \<times> string \<times> webhook_audit) list"
  wd_hooks :: "(string \<times> string, string) dict"
  wd_refresh :: refresh_db
  wd_scan :: scan_db
  wd_moves :: "(string \<times> string \<times> string \<times> string option) list"

definition wd_clock :: "webhook_db \<Rightarrow> int" where
  "wd_clock db = db_clock (wd_refresh db)"

definition insert_workflow_audit :: "string \<Rightarrow> string \<Rightarrow> webhook_audit \<Rightarrow> webhook_db \<Rightarrow> webhook_db" where
  "insert_workflow_audit tenant repository a db = db\<lparr>wd_audits := wd_audits db @ [(tenant, repository, a)]\<rparr>"

definition update_subscription :: "string \<Rightarrow> (webhook_subscription \<Rightarrow> webhook_subscription) \<Rightarrow> webhook_db \<Rightarrow> webhook_db" where
  "update_subscription sid f db = db\<lparr>wd_subs := map (\<lambda>s. if ws_id s = sid then f s else s) (wd_subs db)\<rparr>"

definition subscription_by_id :: "string \<Rightarrow> webhook_db \<Rightarrow> webhook_subscription option" where
  "subscription_by_id sid db = find (\<lambda>s. ws_id s = sid) (wd_subs db)"

text \<open>The join with repositories that are not soft-deleted.\<close>

definition repository_live :: "webhook_db \<Rightarrow> webhook_subscription \<Rightarrow> bool" where
  "repository_live db s = list_ex (live_row (ws_repository s)) (repositories (wd_refresh db))"

definition insert_repository_webhook_subscription ::
  "webhook_subscription \<Rightarrow> webhook_db \<Rightarrow> webhook_subscription option \<times> webhook_db" where
  "insert_repository_webhook_subscription row db =
     (if ws_repository row \<in> set (map ws_repository (wd_subs db)) then (None, db)
      else (Some row, db\<lparr>wd_subs := wd_subs db @ [row]\<rparr>))"

definition get_repository_webhook_subscription :: "string \<Rightarrow> string \<Rightarrow> webhook_db \<Rightarrow> webhook_subscription option" where
  "get_repository_webhook_subscription tenant repository db =
     find (\<lambda>s. ws_repository s = repository \<and> ws_tenant s = tenant) (wd_subs db)"

definition find_repository_webhook_subscriptions :: "string \<Rightarrow> string \<Rightarrow> webhook_db \<Rightarrow> webhook_subscription list" where
  "find_repository_webhook_subscriptions provider full_name db =
     sort_key ws_created (filter (\<lambda>s. ws_provider s = provider \<and> ws_full_name s = full_name \<and> repository_live db s) (wd_subs db))"

definition update_repository_webhook_registration ::
  "string \<Rightarrow> registration_state \<Rightarrow> string option \<Rightarrow> sync_error option \<Rightarrow> webhook_db \<Rightarrow> webhook_db" where
  "update_repository_webhook_registration sid state hook err db =
     update_subscription sid (\<lambda>s. s\<lparr>ws_registration := state,
       ws_hook_id := (case hook of None \<Rightarrow> ws_hook_id s | Some h \<Rightarrow> Some h), ws_registration_error := err\<rparr>) db"

definition rotated_row :: "int \<Rightarrow> bytes \<Rightarrow> string option \<Rightarrow> int \<Rightarrow> webhook_subscription \<Rightarrow> webhook_subscription" where
  "rotated_row now enc fp grace s =
     s\<lparr>ws_previous_enc := ws_secret_enc s, ws_previous_fingerprint := ws_fingerprint s,
       ws_previous_expires := Some (now + max 0 grace * usec), ws_secret_enc := Some enc, ws_fingerprint := fp,
       ws_rotated_at := Some now, ws_rotation_count := ws_rotation_count s + 1, ws_synced := False, ws_rotation_error := None\<rparr>"

definition db_rotate_webhook_secret ::
  "string \<Rightarrow> bytes \<Rightarrow> string option \<Rightarrow> int \<Rightarrow> webhook_db \<Rightarrow> webhook_subscription option \<times> webhook_db" where
  "db_rotate_webhook_secret sid enc fp grace db =
     (let db' = update_subscription sid (\<lambda>s. if ws_secret_enc s = None then s else rotated_row (wd_clock db) enc fp grace s) db
      in (case subscription_by_id sid db of
            Some s \<Rightarrow> if ws_secret_enc s = None then None else subscription_by_id sid db'
          | None \<Rightarrow> None, db'))"

definition set_repository_webhook_provider_secret_synced :: "string \<Rightarrow> bool \<Rightarrow> sync_error option \<Rightarrow> webhook_db \<Rightarrow> webhook_db" where
  "set_repository_webhook_provider_secret_synced sid synced err =
     update_subscription sid (\<lambda>s. s\<lparr>ws_synced := synced, ws_rotation_error := if synced then None else err\<rparr>)"

definition bounded_limit :: "int option \<Rightarrow> nat" where
  "bounded_limit limit = nat (max 1 (min 1000 (case limit of None \<Rightarrow> 100 | Some n \<Rightarrow> n)))"

definition window_closed :: "int \<Rightarrow> webhook_subscription \<Rightarrow> bool" where
  "window_closed now s \<longleftrightarrow> ws_previous_enc s \<noteq> None \<and> (case ws_previous_expires s of None \<Rightarrow> False | Some t \<Rightarrow> t \<le> now)"

definition expiry_key :: "webhook_subscription \<Rightarrow> int" where
  "expiry_key s = (case ws_previous_expires s of None \<Rightarrow> 0 | Some t \<Rightarrow> t)"

definition retired_row :: "webhook_subscription \<Rightarrow> webhook_subscription" where
  "retired_row s = s\<lparr>ws_previous_enc := None, ws_previous_fingerprint := None, ws_previous_expires := None\<rparr>"

text \<open>The rows as they were, and the table with their windows cleared.\<close>

definition claim_expired_repository_webhook_secrets :: "int option \<Rightarrow> webhook_db \<Rightarrow> webhook_subscription list \<times> webhook_db" where
  "claim_expired_repository_webhook_secrets limit db =
     (let due = take (bounded_limit limit) (sort_key expiry_key (filter (window_closed (wd_clock db)) (wd_subs db)))
      in (due, db\<lparr>wd_subs := map (\<lambda>s. if ws_id s \<in> set (map ws_id due) then retired_row s else s) (wd_subs db)\<rparr>))"

definition pending_sync :: "webhook_db \<Rightarrow> webhook_subscription \<Rightarrow> bool" where
  "pending_sync db s \<longleftrightarrow> \<not> ws_synced s \<and> (case ws_previous_expires s of None \<Rightarrow> False | Some t \<Rightarrow> wd_clock db < t) \<and> repository_live db s"

definition list_pending_provider_secret :: "int option \<Rightarrow> webhook_db \<Rightarrow> webhook_subscription list" where
  "list_pending_provider_secret limit db = take (bounded_limit limit) (sort_key expiry_key (filter (pending_sync db) (wd_subs db)))"

section \<open>The secrets that verify\<close>

definition open_blob :: "webhook_env \<Rightarrow> bytes option \<Rightarrow> string option" where
  "open_blob env blob = (case blob of None \<Rightarrow> None | Some b \<Rightarrow> if b = [] then None else decrypt_signing_secret env b)"

definition resolve_subscription_secret :: "webhook_env \<Rightarrow> webhook_subscription \<Rightarrow> string option" where
  "resolve_subscription_secret env s = open_blob env (ws_secret_enc s)"

definition previous_secret_is_live :: "int \<Rightarrow> webhook_subscription \<Rightarrow> bool" where
  "previous_secret_is_live now s \<longleftrightarrow>
     (case ws_previous_enc s of None \<Rightarrow> False | Some b \<Rightarrow> b \<noteq> []) \<and> (case ws_previous_expires s of None \<Rightarrow> False | Some t \<Rightarrow> now < t)"

definition resolve_subscription_secrets :: "webhook_env \<Rightarrow> int \<Rightarrow> webhook_subscription \<Rightarrow> (string \<times> generation) list" where
  "resolve_subscription_secrets env now s =
     (let current = open_blob env (ws_secret_enc s);
          previous = (if previous_secret_is_live now s then open_blob env (ws_previous_enc s) else None)
      in (case current of Some c \<Rightarrow> if c = [] then [] else [(c, CurrentSecret)] | None \<Rightarrow> [])
         @ (case previous of Some p \<Rightarrow> if p = [] \<or> Some p = current then [] else [(p, PreviousSecret)] | None \<Rightarrow> []))"

section \<open>Provider hooks\<close>

definition webhook_endpoint_path :: "string \<Rightarrow> string" where
  "webhook_endpoint_path provider = ''/v1/repositories/webhook/'' @ (case normalize_provider provider of None \<Rightarrow> ''github'' | Some p \<Rightarrow> p)"

definition webhook_endpoint_url :: "webhook_env \<Rightarrow> string \<Rightarrow> string option" where
  "webhook_endpoint_url env provider =
     (let base = rev (dropWhile (\<lambda>c. c = CHR ''/'') (rev (strip (we_base_url env))))
      in if base = [] then None else Some (base @ webhook_endpoint_path provider))"

text \<open>What comes of a request to the provider: no answer, with the update carried out or not, or a status.\<close>

datatype hook_reply = LostReply bool | Status nat

definition hook_accepts :: "hook_reply \<Rightarrow> bool" where
  "hook_accepts reply = (case reply of LostReply applied \<Rightarrow> applied | Status n \<Rightarrow> n = 200 \<or> n = 201)"

definition hook_error :: "hook_reply \<Rightarrow> sync_error option" where
  "hook_error reply =
     (case reply of
        LostReply _ \<Rightarrow> Some HookUnreachable
      | Status n \<Rightarrow> if n = 200 \<or> n = 201 then None else if n = 403 \<or> n = 404 then Some (HookRefused n) else Some (HookStatus n))"

definition update_github_webhook_secret ::
  "hook_reply \<Rightarrow> string \<Rightarrow> string \<Rightarrow> string \<Rightarrow> webhook_db \<Rightarrow> sync_error option \<times> webhook_db" where
  "update_github_webhook_secret reply full_name hook secret db =
     (hook_error reply, if hook_accepts reply then db\<lparr>wd_hooks := AList.update (full_name, hook) secret (wd_hooks db)\<rparr> else db)"

definition sync_call ::
  "webhook_env \<Rightarrow> hook_reply \<Rightarrow> string option \<Rightarrow> webhook_subscription \<Rightarrow> string \<Rightarrow> webhook_db \<Rightarrow> sync_error option \<times> webhook_db" where
  "sync_call env reply access_token s secret db =
     (let provider = lower (ws_provider s); hook = strip (case ws_hook_id s of None \<Rightarrow> [] | Some h \<Rightarrow> h);
          full_name = lower (strip (ws_full_name s))
      in if hook = [] then (Some NoProviderHook, db)
         else if provider \<noteq> ''github'' then (Some (NotAutomatic provider), db)
         else if access_token = None \<or> access_token = Some [] then (Some NoToken, db)
         else if webhook_endpoint_url env provider = None then (Some NoDeliveryUrl, db)
         else if CHR ''/'' \<notin> set full_name then (Some NoOwnerName, db)
         else update_github_webhook_secret reply full_name hook secret db)"

definition sync_record :: "bool \<Rightarrow> string \<Rightarrow> sync_error option \<Rightarrow> webhook_db \<Rightarrow> webhook_db" where
  "sync_record unwritable sid err db =
     (if unwritable then db else set_repository_webhook_provider_secret_synced sid (err = None) err db)"

definition sync_provider_secret ::
  "webhook_env \<Rightarrow> hook_reply \<Rightarrow> bool \<Rightarrow> string option \<Rightarrow> webhook_subscription \<Rightarrow> string \<Rightarrow> webhook_db \<Rightarrow> sync_error option \<times> webhook_db" where
  "sync_provider_secret env reply unwritable access_token s secret db =
     (case sync_call env reply access_token s secret db of (err, db) \<Rightarrow> (err, sync_record unwritable (ws_id s) err db))"

section \<open>Provisioning\<close>

record provision_result =
  pr_subscription :: "webhook_subscription option"
  pr_secret :: "string option"
  pr_state :: registration_state

datatype provision_gap = ProviderUnsupported | NoFullName | StoreFailedOnInsert | AlreadySubscribed

text \<open>The answer to the request for a hook carries the hook's identifier, if the body has one.\<close>

definition register_github_webhook ::
  "hook_reply \<Rightarrow> string option \<Rightarrow> string \<Rightarrow> string \<Rightarrow> webhook_db \<Rightarrow> (sync_error + string option) \<times> webhook_db" where
  "register_github_webhook reply hook full_name secret db =
     (case hook_error reply of Some err \<Rightarrow> Inl err | None \<Rightarrow> Inr hook,
      case hook of
        Some h \<Rightarrow> if hook_accepts reply then db\<lparr>wd_hooks := AList.update (full_name, h) secret (wd_hooks db)\<rparr> else db
      | None \<Rightarrow> db)"

definition new_subscription ::
  "webhook_env \<Rightarrow> string \<Rightarrow> string \<Rightarrow> string \<Rightarrow> string \<Rightarrow> string \<Rightarrow> string \<Rightarrow> int \<Rightarrow> webhook_subscription" where
  "new_subscription env sid tenant repository provider full_name secret now =
     \<lparr>ws_id = sid, ws_tenant = tenant, ws_repository = repository, ws_provider = provider, ws_full_name = full_name,
      ws_secret_enc = encrypt_signing_secret env secret, ws_fingerprint = secret_fingerprint env secret, ws_pr_preview = True,
      ws_hook_id = None, ws_registration = LocalHook, ws_registration_error = None, ws_previous_enc = None,
      ws_previous_fingerprint = None, ws_previous_expires = None, ws_rotated_at = None, ws_rotation_count = 0,
      ws_synced = True, ws_rotation_error = None, ws_event_count = 0, ws_last_event = None, ws_last_delivery = None, ws_created = now\<rparr>"

definition provision_repository_webhook ::
  "webhook_env \<Rightarrow> string \<Rightarrow> string \<Rightarrow> bool \<Rightarrow> hook_reply \<Rightarrow> string option \<Rightarrow> bool \<Rightarrow> string \<Rightarrow> string \<Rightarrow> string \<Rightarrow> string option
     \<Rightarrow> string option \<Rightarrow> webhook_db \<Rightarrow> (provision_gap + provision_result) \<times> webhook_db" where
  "provision_repository_webhook env sid minted insert_fails reply hook unwritable tenant repository provider full_name access_token db =
     (case normalize_provider provider of
        None \<Rightarrow> (Inl ProviderUnsupported, db)
      | Some key \<Rightarrow>
          (let full = lower (strip (case full_name of None \<Rightarrow> [] | Some n \<Rightarrow> n))
           in if full = [] then (Inl NoFullName, db)
              else if insert_fails then (Inl StoreFailedOnInsert, db)
              else (case insert_repository_webhook_subscription
                       (new_subscription env sid tenant repository key full minted (wd_clock db)) db of
                  (None, db) \<Rightarrow> (Inl AlreadySubscribed, db)
                | (Some row, db) \<Rightarrow>
                    (if access_token = None \<or> access_token = Some [] \<or> webhook_endpoint_url env key = None \<or> key \<noteq> ''github''
                     then (Inr \<lparr>pr_subscription = Some row, pr_secret = Some minted, pr_state = LocalHook\<rparr>, db)
                     else (case register_github_webhook reply hook full minted db of
                         (outcome, db) \<Rightarrow>
                           (let state = (case outcome of Inr _ \<Rightarrow> RegisteredHook | Inl _ \<Rightarrow> FailedHook);
                                hook_id = (case outcome of Inr h \<Rightarrow> h | Inl _ \<Rightarrow> None);
                                err = (case outcome of Inr _ \<Rightarrow> None | Inl e \<Rightarrow> Some e);
                                db = (if unwritable then db else update_repository_webhook_registration sid state hook_id err db);
                                row = (if unwritable then row else the (subscription_by_id sid db))
                            in (Inr \<lparr>pr_subscription = Some row, pr_secret = Some minted, pr_state = state\<rparr>,
                                insert_workflow_audit tenant repository (HookRegistered state hook_id err) db)))))))"

section \<open>Rotation\<close>

definition resolve_grace_seconds :: "webhook_env \<Rightarrow> int option \<Rightarrow> int" where
  "resolve_grace_seconds env requested =
     (let low = max 0 (we_min_grace env); high = max low (we_max_grace env);
          value = (case requested of None \<Rightarrow> we_grace env | Some r \<Rightarrow> r)
      in max low (min high value))"

datatype rotation_error = NoSubscription | NoSecretToRotate | NoEncryptionKey | StoreFailed

record rotation_result =
  ro_subscription :: webhook_subscription
  ro_grace :: int
  ro_provider_synced :: bool
  ro_provider_error :: "sync_error option"

text \<open>Up to the new secret in the row: the refusals, then the update.\<close>

definition rotate_store ::
  "webhook_env \<Rightarrow> string \<Rightarrow> bool \<Rightarrow> string \<Rightarrow> string \<Rightarrow> int option \<Rightarrow> webhook_db
     \<Rightarrow> (rotation_error + webhook_subscription \<times> webhook_subscription) \<times> webhook_db" where
  "rotate_store env minted store_fails tenant repository grace db =
     (case get_repository_webhook_subscription tenant repository db of
        None \<Rightarrow> (Inl NoSubscription, db)
      | Some s \<Rightarrow>
          (if ws_fingerprint s = None \<or> ws_fingerprint s = Some [] then (Inl NoSecretToRotate, db)
           else (case encrypt_signing_secret env minted of
               None \<Rightarrow> (Inl NoEncryptionKey, db)
             | Some enc \<Rightarrow>
                 (if enc = [] then (Inl NoEncryptionKey, db)
                  else if store_fails then (Inl StoreFailed, db)
                  else (case db_rotate_webhook_secret (ws_id s) enc (secret_fingerprint env minted) (resolve_grace_seconds env grace) db of
                      (None, db) \<Rightarrow> (Inl NoSecretToRotate, db)
                    | (Some rotated, db) \<Rightarrow> (Inr (s, rotated), db))))))"

definition rotate_repository_webhook_secret ::
  "webhook_env \<Rightarrow> string \<Rightarrow> bool \<Rightarrow> hook_reply \<Rightarrow> bool \<Rightarrow> string \<Rightarrow> string \<Rightarrow> int option \<Rightarrow> string option \<Rightarrow> webhook_db
     \<Rightarrow> (rotation_error + rotation_result) \<times> webhook_db" where
  "rotate_repository_webhook_secret env minted store_fails reply unwritable tenant repository grace access_token db =
     (case rotate_store env minted store_fails tenant repository grace db of
        (Inl e, db) \<Rightarrow> (Inl e, db)
      | (Inr (s, rotated), db) \<Rightarrow>
          (case sync_provider_secret env reply unwritable access_token rotated minted db of
             (err, db) \<Rightarrow>
               (let window = resolve_grace_seconds env grace; synced = (err = None);
                    rotated = rotated\<lparr>ws_synced := synced, ws_rotation_error := err\<rparr>
                in (Inr \<lparr>ro_subscription = rotated, ro_grace = window, ro_provider_synced = synced, ro_provider_error = err\<rparr>,
                    insert_workflow_audit (ws_tenant rotated) (ws_repository rotated)
                      (SecretRotated (ws_fingerprint rotated) (ws_fingerprint s) window (ws_previous_expires rotated)
                         (ws_rotation_count rotated) synced err (\<not> ws_synced s)) db))))"

section \<open>The sweep of the grace windows\<close>

text \<open>One more attempt for every rotation the provider has not confirmed.\<close>

definition retry_one ::
  "webhook_env \<Rightarrow> (webhook_subscription \<Rightarrow> hook_reply) \<Rightarrow> (webhook_subscription \<Rightarrow> bool) \<Rightarrow> (webhook_subscription \<Rightarrow> string option)
     \<Rightarrow> webhook_subscription \<Rightarrow> nat \<times> webhook_db \<Rightarrow> nat \<times> webhook_db" where
  "retry_one env reply unwritable token s acc =
     (case resolve_subscription_secret env s of
        None \<Rightarrow> acc
      | Some secret \<Rightarrow>
          (if secret = [] then acc
           else (case sync_provider_secret env (reply s) (unwritable s) (token s) s secret (snd acc) of
               (err, db) \<Rightarrow> (if err = None then fst acc + 1 else fst acc, db))))"

definition retry_provider_updates ::
  "webhook_env \<Rightarrow> (webhook_subscription \<Rightarrow> hook_reply) \<Rightarrow> (webhook_subscription \<Rightarrow> bool) \<Rightarrow> (webhook_subscription \<Rightarrow> string option)
     \<Rightarrow> bool \<Rightarrow> nat \<Rightarrow> webhook_db \<Rightarrow> nat \<times> webhook_db" where
  "retry_provider_updates env reply unwritable token unreadable limit db =
     (if unreadable then (0, db)
      else fold (retry_one env reply unwritable token) (list_pending_provider_secret (Some (int limit)) db) (0, db))"

definition audit_expiry :: "webhook_subscription \<Rightarrow> webhook_db \<Rightarrow> webhook_db" where
  "audit_expiry s db =
     (if ws_tenant s = [] then db
      else insert_workflow_audit (ws_tenant s) (ws_repository s)
        (SecretExpired (ws_previous_fingerprint s) (ws_fingerprint s) (ws_rotation_count s) (ws_synced s)
           (if ws_synced s then None else ws_rotation_error s)) db)"

definition retire_expired_secrets :: "bool \<Rightarrow> nat \<Rightarrow> webhook_db \<Rightarrow> webhook_subscription list \<times> webhook_db" where
  "retire_expired_secrets unclaimable limit db =
     (if unclaimable then ([], db)
      else (case claim_expired_repository_webhook_secrets (Some (int limit)) db of
          (retired, db) \<Rightarrow> (retired, fold audit_expiry retired db)))"

definition process_repository_webhook_secret_sweep ::
  "webhook_env \<Rightarrow> (webhook_subscription \<Rightarrow> hook_reply) \<Rightarrow> (webhook_subscription \<Rightarrow> bool) \<Rightarrow> (webhook_subscription \<Rightarrow> string option)
     \<Rightarrow> bool \<Rightarrow> bool \<Rightarrow> int option \<Rightarrow> webhook_db \<Rightarrow> nat \<times> nat \<times> webhook_db" where
  "process_repository_webhook_secret_sweep env reply unwritable token unreadable unclaimable limit db =
     (let bounded = nat (max 1 (min 500 (case limit of None \<Rightarrow> 50 | Some n \<Rightarrow> n)))
      in case retry_provider_updates env reply unwritable token unreadable bounded db of
           (synced, db) \<Rightarrow>
             (case retire_expired_secrets unclaimable bounded db of (retired, db) \<Rightarrow> (synced, length retired, db)))"

text \<open>
  The trigger \<open>repository_webhook_secret_guard\<close>: which rewritten rows the database accepts.
\<close>

definition webhook_secret_guard :: "webhook_subscription \<Rightarrow> webhook_subscription \<Rightarrow> bool" where
  "webhook_secret_guard old new \<longleftrightarrow>
     ws_id new = ws_id old \<and> ws_tenant new = ws_tenant old \<and> ws_repository new = ws_repository old \<and> ws_created new = ws_created old
     \<and> (if ws_secret_enc old \<noteq> None \<and> ws_secret_enc new \<noteq> ws_secret_enc old
        then ws_secret_enc new \<noteq> None \<and> ws_previous_enc new = ws_secret_enc old \<and> ws_previous_expires new \<noteq> None
          \<and> ws_rotation_count old < ws_rotation_count new
        else (ws_previous_enc new = ws_previous_enc old \<or> ws_previous_enc new = None)
          \<and> (case (ws_previous_expires old, ws_previous_expires new) of (Some a, Some b) \<Rightarrow> b \<le> a | _ \<Rightarrow> True))
     \<and> ws_rotation_count old \<le> ws_rotation_count new"

end
