(* ===== verification/WebhookIngest.thy ===== *)
theory WebhookIngest
  imports WebhookSecrets
begin

text \<open>
  Deliveries of repository webhooks: signatures and payloads (\<open>repository_webhook_ingest.py\<close>) and
  what a delivery triggers (\<open>repository_webhook_dispatch.py\<close>), with the statements of \<open>database.py\<close>
  they use. Parsing of the body as JSON and HMAC are fields of the environment; which statements fail
  is an argument, as the code carries on after most failures. A failed comparison (\<open>compare_digest\<close> of
  text that is not ASCII raises) is an error of its own. The drafts bound to a moved ref and the checks
  announced for it are other components: the movement is logged and their counts are arguments.
\<close>

section \<open>Headers\<close>

type_synonym headers = "(string \<times> string) list"

definition header_named :: "string \<Rightarrow> headers \<Rightarrow> string option" where
  "header_named name headers = map_option snd (find (\<lambda>(k, _). lower k = lower name) headers)"

definition header :: "headers \<Rightarrow> string \<Rightarrow> string option" where
  "header headers name = (case header_named name headers of None \<Rightarrow> None | Some v \<Rightarrow> nonempty (strip v))"

text \<open>The last of several headers of one name, as they are put into a dictionary.\<close>

fun first_header :: "headers \<Rightarrow> string list \<Rightarrow> string option" where
  "first_header headers [] = None"
| "first_header headers (name # names) =
     (case header_named name (rev headers) of
        None \<Rightarrow> first_header headers names
      | Some v \<Rightarrow> if strip v = [] then first_header headers names else Some (strip v))"

record delivery_headers =
  dh_event :: "string option"
  dh_delivery :: "string option"

definition read_delivery_headers :: "headers \<Rightarrow> delivery_headers" where
  "read_delivery_headers headers =
     \<lparr>dh_event = first_header headers [''X-GitHub-Event'', ''X-Gitlab-Event'', ''X-Event-Key''],
      dh_delivery = first_header headers [''X-GitHub-Delivery'', ''X-Gitlab-Event-UUID'', ''X-Request-UUID'', ''X-Hook-UUID'']\<rparr>"

section \<open>Signatures\<close>

definition signature_header :: "string \<Rightarrow> string" where
  "signature_header provider =
     (if provider = ''github'' then ''X-Hub-Signature-256'' else if provider = ''gitlab'' then ''X-Gitlab-Token'' else ''X-Hub-Signature'')"

datatype compare_error = NotAscii

definition ascii :: "string \<Rightarrow> bool" where
  "ascii s = list_all (\<lambda>c. (of_char c :: nat) < 128) s"

definition compare_digest :: "string \<Rightarrow> string \<Rightarrow> compare_error + bool" where
  "compare_digest a b = (if ascii a \<and> ascii b then Inr (a = b) else Inl NotAscii)"

definition verify_hex_hmac :: "webhook_env \<Rightarrow> string \<Rightarrow> bytes \<Rightarrow> string \<Rightarrow> string \<Rightarrow> compare_error + bool" where
  "verify_hex_hmac env secret raw value prefix =
     (if \<not> starts_with value prefix then Inr False else compare_digest (prefix @ we_hmac env secret raw) value)"

definition verify_signature :: "webhook_env \<Rightarrow> string \<Rightarrow> string option \<Rightarrow> bytes \<Rightarrow> headers \<Rightarrow> compare_error + bool" where
  "verify_signature env provider secret raw headers =
     (case (normalize_provider provider, secret) of
        (Some key, Some x) \<Rightarrow>
          (if x = [] then Inr False
           else (case header headers (signature_header key) of
               None \<Rightarrow> Inr False
             | Some value \<Rightarrow>
                 if key = ''github'' \<or> key = ''bitbucket'' then verify_hex_hmac env x raw value ''sha256='' else compare_digest x value))
      | _ \<Rightarrow> Inr False)"

section \<open>Payloads\<close>

datatype event_kind = PushEvent | PullRequestEvent

record parsed_event =
  pe_kind :: event_kind
  pe_full_name :: string
  pe_branch :: string
  pe_head :: string
  pe_action :: string
  pe_pr :: "int option"
  pe_head_branch :: "string option"
  pe_head_in_repo :: bool
  pe_paths :: "string list option"

definition pull_request_actions :: "string list" where
  "pull_request_actions = [''opened'', ''reopened'', ''synchronize'', ''synchronized'', ''ready_for_review'', ''open'', ''reopen'', ''update'',
     ''created'', ''updated'']"

definition mapping :: "json option \<Rightarrow> (string \<times> json) list" where
  "mapping v = (case v of Some (JObject kvs) \<Rightarrow> kvs | _ \<Rightarrow> [])"

text \<open>\<open>a or b\<close>; an integer or truth value as a number; and the equality of two identifiers.\<close>

definition first_true :: "json option \<Rightarrow> json option \<Rightarrow> json option" where
  "first_true a b = (case a of Some v \<Rightarrow> if truthy v then a else b | None \<Rightarrow> b)"

definition int_value :: "json option \<Rightarrow> int option" where
  "int_value v = (case v of Some (JInt i) \<Rightarrow> Some i | Some (JBool b) \<Rightarrow> Some (if b then 1 else 0) | _ \<Rightarrow> None)"

definition same_id :: "json option \<Rightarrow> json option \<Rightarrow> bool" where
  "same_id a b = (case (int_value a, int_value b) of (Some i, Some j) \<Rightarrow> i = j | _ \<Rightarrow> a = b)"

definition absent :: "json option \<Rightarrow> bool" where
  "absent v = (v = None \<or> v = Some JNull)"

definition branch_from_ref :: "string \<Rightarrow> string option" where
  "branch_from_ref ref = (if starts_with ref ''refs/heads/'' then nonempty (drop 11 ref) else None)"

definition is_null_sha :: "string \<Rightarrow> bool" where
  "is_null_sha sha = (sha \<noteq> [] \<and> list_all (\<lambda>c. c = CHR ''0'') sha)"

definition github_push_commit_limit :: nat where
  "github_push_commit_limit = 2048"

text \<open>The paths of one list of a commit; no paths are known if it is not a list.\<close>

definition listed_paths :: "json option \<Rightarrow> string list option" where
  "listed_paths v =
     (case v of
        None \<Rightarrow> Some []
      | Some JNull \<Rightarrow> Some []
      | Some (JArray xs) \<Rightarrow>
          Some (concat (map (\<lambda>x. case x of JString p \<Rightarrow> if strip p = [] then [] else [dropWhile (\<lambda>c. c = CHR ''/'') (strip p)] | _ \<Rightarrow> []) xs))
      | Some _ \<Rightarrow> None)"

definition commit_paths :: "json \<Rightarrow> string list option" where
  "commit_paths commit =
     (let entry = mapping (Some commit)
      in case (listed_paths (map_of entry ''added''), listed_paths (map_of entry ''modified''), listed_paths (map_of entry ''removed'')) of
           (Some a, Some m, Some r) \<Rightarrow> Some (a @ m @ r)
         | _ \<Rightarrow> None)"

fun all_paths :: "json list \<Rightarrow> string list option" where
  "all_paths [] = Some []"
| "all_paths (c # cs) = (case (commit_paths c, all_paths cs) of (Some p, Some q) \<Rightarrow> Some (p @ q) | _ \<Rightarrow> None)"

definition changed_paths_from_commits :: "json option \<Rightarrow> bool \<Rightarrow> string list option" where
  "changed_paths_from_commits commits whole =
     (case commits of
        Some (JArray cs) \<Rightarrow> if whole then map_option (\<lambda>ps. sort (remdups ps)) (all_paths cs) else None
      | _ \<Rightarrow> None)"

definition push_event :: "string \<Rightarrow> string \<Rightarrow> string \<Rightarrow> string list option \<Rightarrow> parsed_event" where
  "push_event full_name branch head_sha paths =
     \<lparr>pe_kind = PushEvent, pe_full_name = full_name, pe_branch = branch, pe_head = take 64 head_sha, pe_action = [], pe_pr = None,
      pe_head_branch = None, pe_head_in_repo = False, pe_paths = paths\<rparr>"

definition parse_github_push :: "webhook_env \<Rightarrow> (string \<times> json) list \<Rightarrow> string \<Rightarrow> event_error + parsed_event" where
  "parse_github_push env payload full_name =
     (case branch_from_ref (str_or_empty (we_views env) (map_of payload ''ref'')) of
        None \<Rightarrow> Inl NotABranch
      | Some branch \<Rightarrow>
          (if map_of payload ''deleted'' = Some (JBool True) then Inl BranchDeleted
           else (let sha = str_or_empty (we_views env) (first_true (map_of payload ''after'') (map_of (mapping (map_of payload ''head_commit'')) ''id''));
                     commits = map_of payload ''commits'';
                     capped = (case commits of Some (JArray cs) \<Rightarrow> github_push_commit_limit \<le> length cs | _ \<Rightarrow> False)
                 in if sha = [] \<or> is_null_sha sha then Inl MissingCommit
                    else Inr (push_event full_name branch sha
                      (changed_paths_from_commits commits (map_of payload ''forced'' \<noteq> Some (JBool True) \<and> \<not> capped))))))"

definition parse_github_pull_request :: "webhook_env \<Rightarrow> (string \<times> json) list \<Rightarrow> string \<Rightarrow> event_error + parsed_event" where
  "parse_github_pull_request env payload full_name =
     (let pv = we_views env; pr = mapping (map_of payload ''pull_request''); base = mapping (map_of pr ''base''); h = mapping (map_of pr ''head'');
          base_branch = str_or_empty pv (map_of base ''ref'');
          head_repo = lower (str_or_empty pv (map_of (mapping (map_of h ''repo'')) ''full_name''))
      in if base_branch = [] then Inl MissingBranch
         else Inr \<lparr>pe_kind = PullRequestEvent, pe_full_name = full_name, pe_branch = base_branch,
           pe_head = take 64 (str_or_empty pv (map_of h ''sha'')), pe_action = lower (strip (str_or_empty pv (map_of payload ''action''))),
           pe_pr = int_value (first_true (map_of payload ''number'') (map_of pr ''number'')),
           pe_head_branch = nonempty (str_or_empty pv (map_of h ''ref'')), pe_head_in_repo = (head_repo \<noteq> [] \<and> head_repo = full_name),
           pe_paths = None\<rparr>)"

definition parse_gitlab :: "webhook_env \<Rightarrow> (string \<times> json) list \<Rightarrow> string \<Rightarrow> string \<Rightarrow> event_error + parsed_event" where
  "parse_gitlab env payload event full_name =
     (let pv = we_views env; kind = lower (strip (if event = [] then str_or_empty pv (map_of payload ''object_kind'') else event))
      in if kind = ''push'' \<or> kind = ''push hook''
         then (case branch_from_ref (str_or_empty pv (map_of payload ''ref'')) of
             None \<Rightarrow> Inl NotABranch
           | Some branch \<Rightarrow>
               (let sha = str_or_empty pv (first_true (map_of payload ''after'') (map_of payload ''checkout_sha''));
                    commits = map_of payload ''commits'';
                    cut = (case (int_value (map_of payload ''total_commits_count''), commits) of
                        (Some n, Some (JArray cs)) \<Rightarrow> int (length cs) < n
                      | _ \<Rightarrow> False)
                in if sha = [] \<or> is_null_sha sha then Inl (if is_null_sha sha then BranchDeleted else MissingCommit)
                   else Inr (push_event full_name branch sha (changed_paths_from_commits commits (\<not> cut)))))
         else if kind = ''merge_request'' \<or> kind = ''merge request hook''
         then (let attrs = mapping (map_of payload ''object_attributes''); base_branch = str_or_empty pv (map_of attrs ''target_branch'');
                   source = map_of attrs ''source_project_id'';
                   sha = str_or_empty pv (map_of (mapping (map_of attrs ''last_commit'')) ''id'')
               in if base_branch = [] then Inl MissingBranch
                  else Inr \<lparr>pe_kind = PullRequestEvent, pe_full_name = full_name, pe_branch = base_branch, pe_head = take 64 sha,
                    pe_action = lower (strip (str_or_empty pv (map_of attrs ''action''))), pe_pr = int_value (map_of attrs ''iid''),
                    pe_head_branch = nonempty (str_or_empty pv (map_of attrs ''source_branch'')),
                    pe_head_in_repo = (\<not> absent source \<and> same_id source (map_of attrs ''target_project_id'')), pe_paths = None\<rparr>)
         else Inl UnsupportedEvent)"

definition parse_bitbucket :: "webhook_env \<Rightarrow> (string \<times> json) list \<Rightarrow> string \<Rightarrow> string \<Rightarrow> event_error + parsed_event" where
  "parse_bitbucket env payload event full_name =
     (let pv = we_views env; key = lower (strip event)
      in if key = ''repo:push''
         then (let change = (case map_of (mapping (map_of payload ''push'')) ''changes'' of Some (JArray (c # _)) \<Rightarrow> mapping (Some c) | _ \<Rightarrow> []);
                   new = map_of change ''new''; target = mapping new; branch = str_or_empty pv (map_of target ''name'');
                   sha = str_or_empty pv (map_of (mapping (map_of target ''target'')) ''hash'')
               in if absent new then Inl BranchDeleted
                  else if lower (str_or_empty pv (map_of target ''type'')) \<noteq> ''branch'' then Inl NotABranch
                  else if branch = [] then Inl MissingBranch
                  else if sha = [] then Inl MissingCommit
                  else Inr (push_event full_name branch sha None))
         else if starts_with key ''pullrequest:''
         then (let pr = mapping (map_of payload ''pullrequest''); destination = mapping (map_of pr ''destination'');
                   source = mapping (map_of pr ''source'');
                   base_branch = str_or_empty pv (map_of (mapping (map_of destination ''branch'')) ''name'');
                   source_repo = lower (str_or_empty pv (map_of (mapping (map_of source ''repository'')) ''full_name''))
               in if base_branch = [] then Inl MissingBranch
                  else Inr \<lparr>pe_kind = PullRequestEvent, pe_full_name = full_name, pe_branch = base_branch,
                    pe_head = take 64 (str_or_empty pv (map_of (mapping (map_of source ''commit'')) ''hash'')),
                    pe_action = drop 12 key, pe_pr = int_value (map_of pr ''id''),
                    pe_head_branch = nonempty (str_or_empty pv (map_of (mapping (map_of source ''branch'')) ''name'')),
                    pe_head_in_repo = (source_repo \<noteq> [] \<and> source_repo = full_name), pe_paths = None\<rparr>)
         else Inl UnsupportedEvent)"

definition repo_full_name_from_payload :: "webhook_env \<Rightarrow> string \<Rightarrow> (string \<times> json) list \<Rightarrow> string" where
  "repo_full_name_from_payload env provider payload =
     (let repo = mapping (map_of payload ''repository'');
          candidate = (if provider = ''gitlab''
            then first_true (map_of (mapping (map_of payload ''project'')) ''path_with_namespace'') (map_of repo ''path_with_namespace'')
            else map_of repo ''full_name'')
      in lower (strip (str_or_empty (we_views env) candidate)))"

definition parse_webhook_event :: "webhook_env \<Rightarrow> string \<Rightarrow> string option \<Rightarrow> (string \<times> json) list \<Rightarrow> event_error + parsed_event" where
  "parse_webhook_event env key event_type payload =
     (let full_name = repo_full_name_from_payload env key payload;
          event = lower (strip (case event_type of None \<Rightarrow> [] | Some e \<Rightarrow> e))
      in if full_name = [] then Inl MissingRepository
         else if key = ''github''
         then if event = ''push'' then parse_github_push env payload full_name
              else if event = ''pull_request'' then parse_github_pull_request env payload full_name
              else Inl UnsupportedEvent
         else if key = ''gitlab'' then parse_gitlab env payload event full_name
         else parse_bitbucket env payload event full_name)"

section \<open>Statements\<close>

text \<open>Which statements fail while one delivery is handled, and how many drafts and checks a movement concerns.\<close>

record delivery_faults =
  df_lookup :: bool
  df_branches :: bool
  df_enqueue :: bool
  df_due :: bool
  df_paths :: bool
  df_ledger :: "string option \<Rightarrow> bool"
  df_touch :: bool
  df_candidates :: "string \<Rightarrow> string \<Rightarrow> nat"
  df_checks :: "string \<Rightarrow> string \<Rightarrow> nat"

definition db_record_webhook_event :: "webhook_event \<Rightarrow> webhook_db \<Rightarrow> webhook_event option \<times> webhook_db" where
  "db_record_webhook_event e db =
     (if wv_subscription e \<noteq> None \<and> wv_delivery e \<noteq> None
         \<and> list_ex (\<lambda>old. wv_subscription old = wv_subscription e \<and> wv_delivery old = wv_delivery e) (wd_events db)
      then (None, db) else (Some e, db\<lparr>wd_events := wd_events db @ [e]\<rparr>))"

definition touch_repository_webhook_subscription :: "string \<Rightarrow> string option \<Rightarrow> webhook_db \<Rightarrow> webhook_db" where
  "touch_repository_webhook_subscription sid delivery db =
     update_subscription sid (\<lambda>s. s\<lparr>ws_last_event := Some (wd_clock db),
       ws_last_delivery := (case delivery of None \<Rightarrow> ws_last_delivery s | Some d \<Rightarrow> Some d), ws_event_count := ws_event_count s + 1\<rparr>) db"

definition pollable :: "string \<Rightarrow> repository \<Rightarrow> bool" where
  "pollable rid r \<longleftrightarrow> live_row rid r \<and> auto_refresh_enabled r \<and> refresh_paused_at r = None"

definition due_now :: "repository \<Rightarrow> repository" where
  "due_now r = r\<lparr>last_refreshed_at := None, refresh_backoff_until := None\<rparr>"

definition mark_repository_poll_due :: "string \<Rightarrow> webhook_db \<Rightarrow> bool \<times> webhook_db" where
  "mark_repository_poll_due rid db =
     (list_ex (pollable rid) (repositories (wd_refresh db)),
      db\<lparr>wd_refresh := update_repositories (pollable rid) due_now (wd_refresh db)\<rparr>)"

definition enqueue_scan :: "bool \<Rightarrow> string \<Rightarrow> string \<Rightarrow> branch_key \<Rightarrow> webhook_db \<Rightarrow> string option \<times> webhook_db" where
  "enqueue_scan fails new tenant key db =
     (if fails then (None, db)
      else (case enqueue_repository_file_scan_job_if_idle new (wd_clock db) tenant key (wd_scan db) of
          (job, scan) \<Rightarrow> (job, db\<lparr>wd_scan := scan\<rparr>)))"

section \<open>Dispatch\<close>

record ingest_result =
  ir_outcome :: delivery_outcome
  ir_reason :: "delivery_reason option"
  ir_jobs :: nat
  ir_repository :: "string option"
  ir_tenant :: "string option"
  ir_branch :: "string option"
  ir_poll_due :: bool
  ir_candidates :: nat
  ir_checks :: nat
  ir_paths :: "string list"

definition ignored :: "delivery_reason \<Rightarrow> string option \<Rightarrow> string option \<Rightarrow> ingest_result" where
  "ignored reason repository branch =
     \<lparr>ir_outcome = Ignored, ir_reason = Some reason, ir_jobs = 0, ir_repository = repository, ir_tenant = None, ir_branch = branch,
      ir_poll_due = False, ir_candidates = 0, ir_checks = 0, ir_paths = []\<rparr>"

text \<open>The ledger row of a delivery, for the subscription it was recorded for, if any, and the event, if it was parsed.\<close>

definition ledger_row ::
  "string \<Rightarrow> delivery_outcome \<Rightarrow> delivery_headers \<Rightarrow> webhook_subscription option \<Rightarrow> parsed_event option \<Rightarrow> string option
     \<Rightarrow> delivery_reason option \<Rightarrow> nat \<Rightarrow> webhook_event" where
  "ledger_row provider outcome delivery sub event full_name reason jobs =
     \<lparr>wv_tenant = map_option ws_tenant sub, wv_subscription = map_option ws_id sub, wv_repository = map_option ws_repository sub,
      wv_provider = provider, wv_delivery = dh_delivery delivery, wv_event_type = dh_event delivery,
      wv_action = (case event of None \<Rightarrow> None | Some e \<Rightarrow> nonempty (pe_action e)),
      wv_full_name = (case event of None \<Rightarrow> full_name | Some e \<Rightarrow> Some (pe_full_name e)),
      wv_branch = map_option pe_branch event, wv_head = (case event of None \<Rightarrow> None | Some e \<Rightarrow> nonempty (pe_head e)),
      wv_pr = (case event of None \<Rightarrow> None | Some e \<Rightarrow> pe_pr e), wv_outcome = outcome, wv_reason = reason, wv_jobs = jobs\<rparr>"

text \<open>The row, whether the store took part, and the state.\<close>

definition record_delivery :: "delivery_faults \<Rightarrow> webhook_event \<Rightarrow> webhook_db \<Rightarrow> (webhook_event option \<times> bool) \<times> webhook_db" where
  "record_delivery f e db =
     (if df_ledger f (wv_subscription e) then ((None, False), db)
      else (case db_record_webhook_event e db of (row, db) \<Rightarrow> ((row, True), db)))"

definition touch_subscription :: "delivery_faults \<Rightarrow> webhook_subscription \<Rightarrow> delivery_headers \<Rightarrow> webhook_db \<Rightarrow> webhook_db" where
  "touch_subscription f s delivery db = (if df_touch f then db else touch_repository_webhook_subscription (ws_id s) (dh_delivery delivery) db)"

definition audit_delivery :: "webhook_subscription \<Rightarrow> webhook_audit \<Rightarrow> webhook_db \<Rightarrow> webhook_db" where
  "audit_delivery s a db = (if ws_tenant s = [] then db else insert_workflow_audit (ws_tenant s) (ws_repository s) a db)"

text \<open>The first subscription with a secret the delivery verifies with.\<close>

fun verified_secret :: "webhook_env \<Rightarrow> string \<Rightarrow> bytes \<Rightarrow> headers \<Rightarrow> (string \<times> generation) list \<Rightarrow> compare_error + generation option" where
  "verified_secret env provider raw headers [] = Inr None"
| "verified_secret env provider raw headers ((x, g) # xs) =
     (case verify_signature env provider (Some x) raw headers of
        Inl e \<Rightarrow> Inl e
      | Inr True \<Rightarrow> Inr (Some g)
      | Inr False \<Rightarrow> verified_secret env provider raw headers xs)"

fun verified_candidate ::
  "webhook_env \<Rightarrow> int \<Rightarrow> string \<Rightarrow> bytes \<Rightarrow> headers \<Rightarrow> webhook_subscription list
     \<Rightarrow> compare_error + (webhook_subscription \<times> generation) option" where
  "verified_candidate env now provider raw headers [] = Inr None"
| "verified_candidate env now provider raw headers (s # ss) =
     (case verified_secret env provider raw headers (resolve_subscription_secrets env now s) of
        Inl e \<Rightarrow> Inl e
      | Inr (Some g) \<Rightarrow> Inr (Some (s, g))
      | Inr None \<Rightarrow> verified_candidate env now provider raw headers ss)"

definition resolve_verified_subscription ::
  "webhook_env \<Rightarrow> delivery_faults \<Rightarrow> string \<Rightarrow> string \<Rightarrow> bytes \<Rightarrow> headers \<Rightarrow> webhook_db
     \<Rightarrow> compare_error + (webhook_subscription \<times> generation) option \<times> webhook_subscription list" where
  "resolve_verified_subscription env f provider full_name raw headers db =
     (if df_lookup f then Inr (None, [])
      else (let candidates = find_repository_webhook_subscriptions provider full_name db
            in case verified_candidate env (wd_clock db) provider raw headers candidates of
                 Inl e \<Rightarrow> Inl e
               | Inr found \<Rightarrow> Inr (found, candidates)))"

definition tracked_branches :: "delivery_faults \<Rightarrow> string \<Rightarrow> webhook_db \<Rightarrow> string list" where
  "tracked_branches f rid db = (if df_branches f then [] else list_repository_import_spec_branches rid (wd_refresh db))"

definition tracked_changed_paths :: "string \<Rightarrow> string \<Rightarrow> string list option \<Rightarrow> webhook_db \<Rightarrow> string list option" where
  "tracked_changed_paths rid branch changed db =
     (case changed of
        None \<Rightarrow> None
      | Some ps \<Rightarrow> Some (sort (remdups (filter (\<lambda>p. p \<in> set ps) (list_repository_import_spec_paths rid branch (wd_refresh db))))))"

definition moved_ref :: "parsed_event \<Rightarrow> (string \<times> string) option" where
  "moved_ref e =
     (if pe_head e = [] then None
      else (case pe_kind e of
          PushEvent \<Rightarrow> if pe_branch e = [] then None else Some (pe_branch e, pe_head e)
        | PullRequestEvent \<Rightarrow>
            (if \<not> pe_head_in_repo e \<or> (pe_action e \<noteq> [] \<and> pe_action e \<notin> set pull_request_actions) then None
             else case pe_head_branch e of None \<Rightarrow> None | Some b \<Rightarrow> if b = [] then None else Some (b, pe_head e))))"

text \<open>The movement goes to the drafts bound to the ref and to their checks.\<close>

definition announce_move ::
  "delivery_faults \<Rightarrow> webhook_subscription \<Rightarrow> parsed_event \<Rightarrow> delivery_headers \<Rightarrow> webhook_db \<Rightarrow> (nat \<times> nat) \<times> webhook_db" where
  "announce_move f s e delivery db =
     (case moved_ref e of
        None \<Rightarrow> ((0, 0), db)
      | Some (ref, sha) \<Rightarrow> ((df_candidates f ref sha, df_checks f ref sha),
          db\<lparr>wd_moves := wd_moves db @ [(ws_repository s, ref, sha, dh_delivery delivery)]\<rparr>))"

definition dispatch_push ::
  "delivery_faults \<Rightarrow> string \<Rightarrow> webhook_subscription \<Rightarrow> parsed_event \<Rightarrow> webhook_db \<Rightarrow> ingest_result \<times> webhook_db" where
  "dispatch_push f new s e db =
     (let rid = ws_repository s
      in if pe_branch e \<notin> set (tracked_branches f rid db) then (ignored BranchNotTracked (Some rid) (Some (pe_branch e)), db)
         else (case enqueue_scan (df_enqueue f) new (ws_tenant s) (rid, pe_branch e) db of
             (job, db) \<Rightarrow>
               (case (if df_due f then (False, db) else mark_repository_poll_due rid db) of
                  (due, db) \<Rightarrow>
                    (if \<not> due \<and> job = None then (ignored RepositoryNotPollable (Some rid) (Some (pe_branch e)), db)
                     else (\<lparr>ir_outcome = Enqueued, ir_reason = (if job = None then Some ScanInFlight else None),
                         ir_jobs = (if job = None then 0 else 1), ir_repository = Some rid, ir_tenant = Some (ws_tenant s),
                         ir_branch = Some (pe_branch e), ir_poll_due = due, ir_candidates = 0, ir_checks = 0,
                         ir_paths = (if due \<and> \<not> df_paths f
                           then (case tracked_changed_paths rid (pe_branch e) (pe_paths e) db of None \<Rightarrow> [] | Some ps \<Rightarrow> ps) else [])\<rparr>, db)))))"

definition dispatch_pull_request ::
  "webhook_env \<Rightarrow> delivery_faults \<Rightarrow> string \<Rightarrow> webhook_subscription \<Rightarrow> parsed_event \<Rightarrow> webhook_db \<Rightarrow> ingest_result \<times> webhook_db" where
  "dispatch_pull_request env f new s e db =
     (let rid = ws_repository s; refuse = (\<lambda>reason. (ignored reason (Some rid) (Some (pe_branch e)), db))
      in if \<not> we_pr_preview env \<or> \<not> ws_pr_preview s then refuse PrPreviewDisabled
         else if pe_action e \<noteq> [] \<and> pe_action e \<notin> set pull_request_actions then refuse PrActionNotActionable
         else if pe_branch e \<notin> set (tracked_branches f rid db) then refuse BranchNotTracked
         else if \<not> pe_head_in_repo e then refuse PrHeadInFork
         else (case pe_head_branch e of
             None \<Rightarrow> refuse PrHeadMissing
           | Some b \<Rightarrow>
               (if b = [] then refuse PrHeadMissing
                else (case enqueue_scan (df_enqueue f) new (ws_tenant s) (rid, b) db of
                    (job, db) \<Rightarrow>
                      (\<lparr>ir_outcome = PreviewScan, ir_reason = (if job = None then Some ScanInFlight else None),
                         ir_jobs = (if job = None then 0 else 1), ir_repository = Some rid, ir_tenant = None, ir_branch = Some b,
                         ir_poll_due = False, ir_candidates = 0, ir_checks = 0, ir_paths = []\<rparr>, db)))))"

section \<open>A delivery\<close>

datatype ingest_error = BadProvider | BadBody | NotAnObject | NoRepositoryNamed | BadSignature | CompareFailed

text \<open>Nothing verified: recorded and audited for every candidate.\<close>

definition reject_for :: "delivery_faults \<Rightarrow> string \<Rightarrow> delivery_headers \<Rightarrow> string \<Rightarrow> webhook_subscription \<Rightarrow> webhook_db \<Rightarrow> webhook_db" where
  "reject_for f key delivery full_name s db =
     audit_delivery s (DeliveryRejected (dh_event delivery) (dh_delivery delivery))
       (snd (record_delivery f (ledger_row key Rejected delivery (Some s) None (Some full_name) (Some SignatureInvalid) 0) db))"

text \<open>A payload that asks for nothing: counted once.\<close>

definition inert_delivery ::
  "delivery_faults \<Rightarrow> string \<Rightarrow> delivery_headers \<Rightarrow> string \<Rightarrow> webhook_subscription \<Rightarrow> event_error \<Rightarrow> webhook_db \<Rightarrow> ingest_result \<times> webhook_db" where
  "inert_delivery f key delivery full_name s err db =
     (case record_delivery f (ledger_row key Ignored delivery (Some s) None (Some full_name) (Some (EventRefused err)) 0) db of
        ((row, stored), db) \<Rightarrow>
          (if stored \<and> row = None \<and> dh_delivery delivery \<noteq> None
           then ((ignored (EventRefused err) (Some (ws_repository s)) None)\<lparr>ir_outcome := Duplicate, ir_reason := None\<rparr>, db)
           else (ignored (EventRefused err) (Some (ws_repository s)) None, touch_subscription f s delivery db)))"

definition dispatch_event ::
  "webhook_env \<Rightarrow> delivery_faults \<Rightarrow> string \<Rightarrow> delivery_headers \<Rightarrow> webhook_subscription \<Rightarrow> parsed_event \<Rightarrow> webhook_db
     \<Rightarrow> ingest_result \<times> webhook_db" where
  "dispatch_event env f new delivery s e db =
     (case announce_move f s e delivery db of
        ((candidates, checks), db) \<Rightarrow>
          (case (case pe_kind e of PushEvent \<Rightarrow> dispatch_push f new s e db | PullRequestEvent \<Rightarrow> dispatch_pull_request env f new s e db) of
             (result, db) \<Rightarrow> (result\<lparr>ir_candidates := candidates, ir_checks := checks\<rparr>, db)))"

definition settle_delivery ::
  "delivery_faults \<Rightarrow> string \<Rightarrow> delivery_headers \<Rightarrow> webhook_subscription \<Rightarrow> generation \<Rightarrow> parsed_event \<Rightarrow> ingest_result \<Rightarrow> webhook_db
     \<Rightarrow> ingest_result \<times> webhook_db" where
  "settle_delivery f key delivery s g e result db =
     (let entry = ledger_row key (ir_outcome result) delivery (Some s) (Some e) None (ir_reason result) (ir_jobs result)
      in case record_delivery f entry db of
           ((row, stored), db) \<Rightarrow>
             (if stored \<and> row = None \<and> dh_delivery delivery \<noteq> None
              then (result\<lparr>ir_outcome := Duplicate, ir_reason := None, ir_jobs := 0, ir_tenant := None, ir_poll_due := False, ir_paths := []\<rparr>, db)
              else (let db = touch_subscription f s delivery db
                    in (result,
                        if ir_outcome result \<in> {Enqueued, PreviewScan} \<or> ir_candidates result \<noteq> 0 \<or> ir_checks result \<noteq> 0
                        then audit_delivery s (DeliveryAccepted (entry\<lparr>wv_branch := ir_branch result\<rparr>) (ir_poll_due result) (ir_candidates result)
                               (ir_checks result) (length (ir_paths result)) g) db
                        else db))))"

definition ingest_webhook_delivery ::
  "webhook_env \<Rightarrow> delivery_faults \<Rightarrow> string \<Rightarrow> string \<Rightarrow> bytes \<Rightarrow> headers \<Rightarrow> webhook_db \<Rightarrow> (ingest_error + ingest_result) \<times> webhook_db" where
  "ingest_webhook_delivery env f new provider raw headers db =
     (case normalize_provider provider of
        None \<Rightarrow> (Inl BadProvider, db)
      | Some key \<Rightarrow>
          (let delivery = read_delivery_headers headers
           in if \<not> we_enabled env
              then (Inr (ignored WebhooksDisabled None None),
                    snd (record_delivery f (ledger_row key Ignored delivery None None None (Some WebhooksDisabled) 0) db))
              else (case we_json env raw of
                  None \<Rightarrow> (Inl BadBody, db)
                | Some (JObject payload) \<Rightarrow>
                    (let full_name = repo_full_name_from_payload env key payload
                     in if full_name = [] then (Inl NoRepositoryNamed, db)
                        else (case resolve_verified_subscription env f key full_name raw headers db of
                            Inl _ \<Rightarrow> (Inl CompareFailed, db)
                          | Inr (None, []) \<Rightarrow>
                              (Inr (ignored NoSubscriptionHere None None),
                               snd (record_delivery f (ledger_row key Ignored delivery None None (Some full_name) (Some NoSubscriptionHere) 0) db))
                          | Inr (None, candidates) \<Rightarrow> (Inl BadSignature, fold (reject_for f key delivery full_name) candidates db)
                          | Inr (Some (s, g), _) \<Rightarrow>
                              (case parse_webhook_event env key (dh_event delivery) payload of
                                 Inl err \<Rightarrow> (case inert_delivery f key delivery full_name s err db of (r, db) \<Rightarrow> (Inr r, db))
                               | Inr e \<Rightarrow>
                                   (case dispatch_event env f new delivery s e db of
                                      (result, db) \<Rightarrow> (case settle_delivery f key delivery s g e result db of (r, db) \<Rightarrow> (Inr r, db))))))
                | Some _ \<Rightarrow> (Inl NotAnObject, db))))"

end
