(* ===== verification/WebhookSecretsSound.thy ===== *)
theory WebhookSecretsSound
  imports WebhookSecrets
begin

text \<open>
  What rotating signing secrets guarantees (\<open>repository_webhook_rotation.py\<close>). \<open>secret_step\<close> interleaves
  the parts of any number of rotations, sweeps and provisionings with the clock; minted secrets are
  fresh. A secret that stopped verifying never verifies again, and a displaced one stops within the grace
  bound, under every interleaving. That the provider's secret keeps verifying needs more: rotations and
  retries that do not overlap. If they do, the last section shows what is lost.
\<close>

section \<open>Ciphertexts\<close>

text \<open>Fernet under a configured key: what was sealed opens.\<close>

definition vault :: "webhook_env \<Rightarrow> bool" where
  "vault env \<longleftrightarrow> (case we_key env of None \<Rightarrow> False | Some key \<Rightarrow> key \<noteq> []
     \<and> (\<forall>p. we_seal env (strip key) p \<noteq> [] \<and> we_unseal env (strip key) (we_seal env (strip key) p) = Some p))"

lemma open_encrypted:
  assumes "vault env" "encrypt_signing_secret env p = Some c"
  shows "open_blob env (Some c) = Some p" "c \<noteq> []" "p \<noteq> []"
  using assms by (auto simp: vault_def encrypt_signing_secret_def open_blob_def decrypt_signing_secret_def split: option.splits if_splits)

lemma encrypt_defined: "vault env \<Longrightarrow> p \<noteq> [] \<Longrightarrow> \<exists>c. encrypt_signing_secret env p = Some c"
  by (auto simp: vault_def encrypt_signing_secret_def split: option.splits)

text \<open>The secrets a delivery may be signed with.\<close>

definition live_secrets :: "webhook_env \<Rightarrow> int \<Rightarrow> webhook_subscription \<Rightarrow> string set" where
  "live_secrets env now s = fst ` set (resolve_subscription_secrets env now s)"

lemma live_secrets_iff:
  "x \<in> live_secrets env now s \<longleftrightarrow> x \<noteq> [] \<and> (open_blob env (ws_secret_enc s) = Some x
     \<or> previous_secret_is_live now s \<and> open_blob env (ws_previous_enc s) = Some x)"
  by (cases "open_blob env (ws_secret_enc s)"; cases "open_blob env (ws_previous_enc s)"; cases "previous_secret_is_live now s")
    (auto simp: live_secrets_def resolve_subscription_secrets_def)

definition verifies :: "webhook_env \<Rightarrow> webhook_db \<Rightarrow> string \<Rightarrow> string \<Rightarrow> bool" where
  "verifies env db sid x \<longleftrightarrow> (\<exists>s \<in> set (wd_subs db). ws_id s = sid \<and> x \<in> live_secrets env (wd_clock db) s)"

section \<open>Histories\<close>

record secret_state =
  st_db :: webhook_db
  st_calls :: "(webhook_subscription \<times> string) list"
  st_records :: "(string \<times> sync_error option) list"
  st_minted :: "string set"

definition hook_key :: "webhook_subscription \<Rightarrow> (string \<times> string) option" where
  "hook_key s = (case ws_hook_id s of None \<Rightarrow> None | Some h \<Rightarrow> if strip h = [] then None else Some (lower (strip (ws_full_name s)), strip h))"

definition fresh_hook :: "webhook_db \<Rightarrow> string option \<Rightarrow> bool" where
  "fresh_hook db hook \<longleftrightarrow> (case hook of None \<Rightarrow> True | Some h \<Rightarrow> strip h = h \<and> (\<forall>k \<in> fst ` set (wd_hooks db). snd k \<noteq> h))"

definition pass_time :: "nat \<Rightarrow> webhook_db \<Rightarrow> webhook_db" where
  "pass_time n db = db\<lparr>wd_refresh := (wd_refresh db)\<lparr>db_clock := db_clock (wd_refresh db) + int n\<rparr>\<rparr>"

inductive secret_step :: "webhook_env \<Rightarrow> secret_state \<Rightarrow> secret_state \<Rightarrow> bool" for env where
  Provision: "provision_repository_webhook env sid minted fails reply hook unwritable tenant repository provider full_name token (st_db st) = (r, db)
    \<Longrightarrow> sid \<notin> ws_id ` set (wd_subs (st_db st)) \<Longrightarrow> minted \<notin> st_minted st \<Longrightarrow> minted \<noteq> [] \<Longrightarrow> fresh_hook (st_db st) hook
    \<Longrightarrow> secret_step env st (st\<lparr>st_db := db, st_minted := insert minted (st_minted st)\<rparr>)"
| Rotate: "rotate_store env minted False tenant repository grace (st_db st) = (Inr (s, rotated), db)
    \<Longrightarrow> minted \<notin> st_minted st
    \<Longrightarrow> secret_step env st (st\<lparr>st_db := db, st_calls := (rotated, minted) # st_calls st, st_minted := insert minted (st_minted st)\<rparr>)"
| SweepRead: "s \<in> set (list_pending_provider_secret limit (st_db st)) \<Longrightarrow> resolve_subscription_secret env s = Some x \<Longrightarrow> x \<noteq> []
    \<Longrightarrow> secret_step env st (st\<lparr>st_calls := (s, x) # st_calls st\<rparr>)"
| Call: "(s, x) \<in> set (st_calls st) \<Longrightarrow> sync_call env reply token s x (st_db st) = (err, db)
    \<Longrightarrow> secret_step env st (st\<lparr>st_db := db, st_calls := remove1 (s, x) (st_calls st), st_records := (ws_id s, err) # st_records st\<rparr>)"
| Record: "(sid, err) \<in> set (st_records st)
    \<Longrightarrow> secret_step env st (st\<lparr>st_db := sync_record unwritable sid err (st_db st), st_records := remove1 (sid, err) (st_records st)\<rparr>)"
| Abandon: "secret_step env st (st\<lparr>st_calls := [], st_records := []\<rparr>)"
| Retire: "secret_step env st (st\<lparr>st_db := snd (retire_expired_secrets unclaimable limit (st_db st))\<rparr>)"
| Tick: "secret_step env st (st\<lparr>st_db := pass_time n (st_db st)\<rparr>)"

inductive_cases secret_stepE: "secret_step env st st'"

definition empty_secret_state :: "refresh_db \<Rightarrow> scan_db \<Rightarrow> secret_state" where
  "empty_secret_state r c = \<lparr>st_db = \<lparr>wd_subs = [], wd_events = [], wd_audits = [], wd_hooks = [], wd_refresh = r, wd_scan = c, wd_moves = []\<rparr>,
     st_calls = [], st_records = [], st_minted = {}\<rparr>"

abbreviation "secret_steps env \<equiv> (secret_step env)\<^sup>*\<^sup>*"

section \<open>What one step does to a row\<close>

text \<open>The ways a row can change, with the clock it changed under.\<close>

definition row_moved :: "webhook_env \<Rightarrow> int \<Rightarrow> string set \<Rightarrow> webhook_subscription \<Rightarrow> webhook_subscription \<Rightarrow> bool" where
  "row_moved env now minted old new \<longleftrightarrow>
     ws_id new = ws_id old
     \<and> ((ws_secret_enc new, ws_previous_enc new, ws_previous_expires new, ws_rotated_at new)
          = (ws_secret_enc old, ws_previous_enc old, ws_previous_expires old, ws_rotated_at old)
        \<or> window_closed now old \<and> (ws_secret_enc new, ws_previous_enc new, ws_rotated_at new) = (ws_secret_enc old, None, ws_rotated_at old)
        \<or> (\<exists>x \<in> minted. ws_secret_enc new = encrypt_signing_secret env x \<and> ws_secret_enc new \<noteq> None
             \<and> ws_previous_enc new = ws_secret_enc old \<and> ws_rotated_at new = Some now
             \<and> (\<exists>w. 0 \<le> w \<and> w \<le> max (max 0 (we_min_grace env)) (we_max_grace env) \<and> ws_previous_expires new = Some (now + w * usec))))"

definition born :: "webhook_env \<Rightarrow> string set \<Rightarrow> webhook_subscription \<Rightarrow> bool" where
  "born env minted s \<longleftrightarrow> (\<exists>x \<in> minted. ws_secret_enc s = encrypt_signing_secret env x) \<and> ws_previous_enc s = None"

definition moved :: "webhook_env \<Rightarrow> string set \<Rightarrow> webhook_db \<Rightarrow> webhook_db \<Rightarrow> bool" where
  "moved env minted db db' \<longleftrightarrow> wd_clock db \<le> wd_clock db'
     \<and> (\<forall>new \<in> set (wd_subs db'). (\<exists>old \<in> set (wd_subs db). row_moved env (wd_clock db) minted old new)
          \<or> ws_id new \<notin> ws_id ` set (wd_subs db) \<and> born env minted new)"

lemma row_moved_refl: "row_moved env now minted s s"
  by (simp add: row_moved_def)

lemma moved_refl: "moved env minted db db"
  using row_moved_refl by (force simp: moved_def)

lemma moved_same: "wd_subs db' = wd_subs db \<Longrightarrow> wd_clock db \<le> wd_clock db' \<Longrightarrow> moved env minted db db'"
  using row_moved_refl by (force simp: moved_def)

lemma moved_map:
  assumes "wd_subs db' = map f (wd_subs db)" "wd_clock db' = wd_clock db"
    "\<And>s. s \<in> set (wd_subs db) \<Longrightarrow> row_moved env (wd_clock db) minted s (f s)"
  shows "moved env minted db db'"
  using assms by (auto simp: moved_def)

lemma grace_bounds: "0 \<le> resolve_grace_seconds env g" "resolve_grace_seconds env g \<le> max (max 0 (we_min_grace env)) (we_max_grace env)"
  by (auto simp: resolve_grace_seconds_def Let_def)

lemma clock_simps [simp]:
  "wd_clock (update_subscription sid f db) = wd_clock db" "wd_clock (insert_workflow_audit t r a db) = wd_clock db"
  "wd_clock (db\<lparr>wd_hooks := h\<rparr>) = wd_clock db" "wd_clock (db\<lparr>wd_subs := ss\<rparr>) = wd_clock db"
  "wd_subs (insert_workflow_audit t r a db) = wd_subs db" "wd_hooks (insert_workflow_audit t r a db) = wd_hooks db"
  "wd_hooks (update_subscription sid f db) = wd_hooks db"
  by (simp_all add: wd_clock_def update_subscription_def insert_workflow_audit_def)

lemma sync_call_rows:
  "sync_call env reply token s x db = (err, db') \<Longrightarrow> wd_subs db' = wd_subs db \<and> wd_clock db' = wd_clock db"
  by (auto simp: sync_call_def Let_def update_github_webhook_secret_def split: if_splits)

lemma moved_update:
  assumes "\<And>s. row_moved env (wd_clock db) minted s (f s)"
  shows "moved env minted db (update_subscription sid f db)"
  by (rule moved_map[where f = "\<lambda>s. if ws_id s = sid then f s else s"]) (auto simp: update_subscription_def row_moved_refl assms)

lemma sync_record_moved: "moved env minted db (sync_record unwritable sid err db)"
  by (auto simp: sync_record_def moved_refl set_repository_webhook_provider_secret_synced_def row_moved_def intro!: moved_update)

lemma audit_fold_rows: "wd_subs (fold audit_expiry rows db) = wd_subs db \<and> wd_clock (fold audit_expiry rows db) = wd_clock db
    \<and> wd_hooks (fold audit_expiry rows db) = wd_hooks db"
  by (induction rows arbitrary: db) (auto simp: audit_expiry_def)

definition ids_distinct :: "webhook_db \<Rightarrow> bool" where
  "ids_distinct db \<longleftrightarrow> distinct (map ws_id (wd_subs db))"

lemma same_row: "ids_distinct db \<Longrightarrow> s \<in> set (wd_subs db) \<Longrightarrow> t \<in> set (wd_subs db) \<Longrightarrow> ws_id s = ws_id t \<Longrightarrow> s = t"
  by (auto simp: ids_distinct_def distinct_map inj_on_def)

lemma retire_rows:
  assumes "ids_distinct db"
  shows "\<exists>f. wd_subs (snd (retire_expired_secrets unclaimable limit db)) = map f (wd_subs db)
    \<and> (\<forall>s \<in> set (wd_subs db). f s = s \<or> window_closed (wd_clock db) s \<and> f s = retired_row s)"
    "wd_clock (snd (retire_expired_secrets unclaimable limit db)) = wd_clock db"
    "wd_hooks (snd (retire_expired_secrets unclaimable limit db)) = wd_hooks db"
proof -
  define due where "due = take (bounded_limit (Some (int limit))) (sort_key expiry_key (filter (window_closed (wd_clock db)) (wd_subs db)))"
  define f where "f s = (if ws_id s \<in> set (map ws_id due) then retired_row s else s)" for s
  have due: "s \<in> set (wd_subs db) \<and> window_closed (wd_clock db) s" if "s \<in> set due" for s
    using that set_take_subset unfolding due_def by fastforce
  have "f s = s \<or> window_closed (wd_clock db) s \<and> f s = retired_row s" if s: "s \<in> set (wd_subs db)" for s
  proof (cases "ws_id s \<in> set (map ws_id due)")
    case True
    then obtain t where "t \<in> set due" "ws_id t = ws_id s" by auto
    then have "window_closed (wd_clock db) s" using due same_row[OF assms _ s] by metis
    then show ?thesis by (simp add: f_def True)
  qed (simp add: f_def)
  moreover have "wd_subs (snd (retire_expired_secrets unclaimable limit db)) = (if unclaimable then wd_subs db else map f (wd_subs db))"
    by (auto simp: retire_expired_secrets_def claim_expired_repository_webhook_secrets_def Let_def audit_fold_rows f_def[abs_def] due_def)
  ultimately show "\<exists>f. wd_subs (snd (retire_expired_secrets unclaimable limit db)) = map f (wd_subs db)
    \<and> (\<forall>s \<in> set (wd_subs db). f s = s \<or> window_closed (wd_clock db) s \<and> f s = retired_row s)"
    by (cases unclaimable) (auto intro: exI[of _ f] exI[of _ "\<lambda>s. s"])
qed (simp_all add: retire_expired_secrets_def claim_expired_repository_webhook_secrets_def Let_def audit_fold_rows)

lemma retire_moved: "ids_distinct db \<Longrightarrow> moved env minted db (snd (retire_expired_secrets unclaimable limit db))"
  using retire_rows[of db unclaimable limit]
  by (auto intro!: moved_map simp: row_moved_def retired_row_def)

lemma rotate_rows:
  assumes "rotate_store env minted fails tenant repository grace db = (Inr (s, rotated), db')"
  obtains enc where "s \<in> set (wd_subs db)" "encrypt_signing_secret env minted = Some enc"
    "db' = update_subscription (ws_id s) (\<lambda>s. if ws_secret_enc s = None then s
       else rotated_row (wd_clock db) enc (secret_fingerprint env minted) (resolve_grace_seconds env grace) s) db"
    "subscription_by_id (ws_id s) db' = Some rotated"
proof -
  from assms obtain enc where get: "get_repository_webhook_subscription tenant repository db = Some s"
    and enc: "encrypt_signing_secret env minted = Some enc"
    and rot: "db_rotate_webhook_secret (ws_id s) enc (secret_fingerprint env minted) (resolve_grace_seconds env grace) db = (Some rotated, db')"
    by (auto simp: rotate_store_def split: option.splits if_splits prod.splits)
  have "s \<in> set (wd_subs db)" using get by (auto simp: get_repository_webhook_subscription_def find_Some_iff)
  then show ?thesis using that rot enc
    by (auto simp: db_rotate_webhook_secret_def Let_def split: option.splits if_splits)
qed

lemma rotate_moved:
  assumes "rotate_store env minted fails tenant repository grace db = (Inr (s, rotated), db')"
  shows "moved env {minted} db db'"
proof -
  obtain enc where enc: "encrypt_signing_secret env minted = Some enc" and db': "db' = update_subscription (ws_id s)
      (\<lambda>s. if ws_secret_enc s = None then s else rotated_row (wd_clock db) enc (secret_fingerprint env minted) (resolve_grace_seconds env grace) s) db"
    using rotate_rows[OF assms] by blast
  have "row_moved env (wd_clock db) {minted} t (rotated_row (wd_clock db) enc fp (resolve_grace_seconds env grace) t)" for t fp
    using grace_bounds[where env = env and g = grace]
    by (auto simp: row_moved_def rotated_row_def enc intro!: exI[of _ "resolve_grace_seconds env grace"])
  then show ?thesis unfolding db' by (intro moved_update) (simp add: row_moved_refl)
qed

lemma lower_char_idem: "lower_char (lower_char c) = lower_char c"
  by (auto simp: lower_char_def Let_def)

lemma py_space_lower: "py_space (lower_char c) = py_space c"
  by (auto simp: lower_char_def py_space_def Let_def)

lemma lower_idem [simp]: "lower (lower s) = lower s"
  by (simp add: lower_def lower_char_idem)

lemma strip_lower: "strip (lower s) = lower (strip s)"
  by (simp add: strip_def lstrip_def rstrip_def lower_def dropWhile_map rev_map py_space_lower comp_def)

lemma update_last:
  "ws_id row = sid \<Longrightarrow> sid \<notin> ws_id ` set ss \<Longrightarrow>
   map (\<lambda>s. if ws_id s = sid then f s else s) (ss @ [row]) = ss @ [f row]"
  by (auto simp: image_iff intro!: map_idI)

lemma provision_taken:
  assumes run: "provision_repository_webhook env sid minted fails reply hook unwritable tenant repository provider full_name token db = (r, db')"
    and fresh: "sid \<notin> ws_id ` set (wd_subs db)" and provider: "normalize_provider provider = Some key"
    and full_def: "full = lower (strip (case full_name of None \<Rightarrow> [] | Some n \<Rightarrow> n))"
    and ok: "full \<noteq> []" "\<not> fails" "repository \<notin> set (map ws_repository (wd_subs db))"
  shows "\<exists>row. wd_subs db' = wd_subs db @ [row] \<and> wd_clock db' = wd_clock db \<and> ws_id row = sid
      \<and> ws_secret_enc row = encrypt_signing_secret env minted \<and> ws_previous_enc row = None \<and> ws_synced row \<and> ws_full_name row = full
      \<and> lower (strip full) = full \<and> (ws_hook_id row = None \<or> ws_hook_id row = hook)
      \<and> (wd_hooks db' = wd_hooks db \<and> ws_hook_id row = None \<or> (\<exists>h. hook = Some h \<and> wd_hooks db' = AList.update (full, h) minted (wd_hooks db)))"
proof -
  define row where "row = new_subscription env sid tenant repository key full minted (wd_clock db)"
  define mid where "mid = db\<lparr>wd_subs := wd_subs db @ [row]\<rparr>"
  have mid: "wd_subs mid = wd_subs db @ [row]" "wd_hooks mid = wd_hooks db" "wd_clock mid = wd_clock db" "ws_id row = sid"
    by (simp_all add: mid_def row_def new_subscription_def)
  have row: "ws_secret_enc row = encrypt_signing_secret env minted" "ws_previous_enc row = None" "ws_synced row" "ws_full_name row = full"
    "lower (strip full) = full" "ws_hook_id row = None"
    by (simp_all add: row_def new_subscription_def full_def strip_lower flip: strip_def)
  have ins: "insert_repository_webhook_subscription row db = (Some row, mid)"
    using ok(3) by (simp add: insert_repository_webhook_subscription_def row_def new_subscription_def mid_def)
  note unfolded = run[unfolded provision_repository_webhook_def provider option.case Let_def, folded full_def, folded row_def,
      unfolded ins option.case prod.case]
  consider (Plain) "db' = mid"
    | (Hook) err hooked where "register_github_webhook reply hook full minted mid = (err, hooked)"
        "db' = insert_workflow_audit tenant repository (HookRegistered (case err of Inr _ \<Rightarrow> RegisteredHook | Inl _ \<Rightarrow> FailedHook)
             (case err of Inr h \<Rightarrow> h | Inl _ \<Rightarrow> None) (case err of Inr _ \<Rightarrow> None | Inl e \<Rightarrow> Some e))
           (if unwritable then hooked else update_repository_webhook_registration sid (case err of Inr _ \<Rightarrow> RegisteredHook | Inl _ \<Rightarrow> FailedHook)
             (case err of Inr h \<Rightarrow> h | Inl _ \<Rightarrow> None) (case err of Inr _ \<Rightarrow> None | Inl e \<Rightarrow> Some e) hooked)"
    using unfolded ok(1,2) by (auto split: if_splits prod.splits)
  then show ?thesis
  proof cases
    case Plain
    then show ?thesis using mid row by (intro exI[of _ row]) auto
  next
    case (Hook err hooked)
    have hooked: "wd_subs hooked = wd_subs mid" "wd_clock hooked = wd_clock mid"
      "wd_hooks hooked = wd_hooks mid \<and> (case err of Inr h \<Rightarrow> h | Inl _ \<Rightarrow> None) = None
        \<or> (\<exists>h. hook = Some h \<and> wd_hooks hooked = AList.update (full, h) minted (wd_hooks mid))"
      "(case err of Inr h \<Rightarrow> h | Inl _ \<Rightarrow> None) = None \<or> (case err of Inr h \<Rightarrow> h | Inl _ \<Rightarrow> None) = hook"
      using Hook(1) by (auto simp: register_github_webhook_def hook_accepts_def hook_error_def split: option.splits hook_reply.splits if_splits)
    define row' where "row' = (if unwritable then row else row\<lparr>ws_registration := (case err of Inr _ \<Rightarrow> RegisteredHook | Inl _ \<Rightarrow> FailedHook),
        ws_hook_id := (case err of Inr h \<Rightarrow> h | Inl _ \<Rightarrow> None), ws_registration_error := (case err of Inr _ \<Rightarrow> None | Inl e \<Rightarrow> Some e)\<rparr>)"
    have "wd_subs (update_subscription sid f hooked) = wd_subs db @ [f row]" for f
      using update_last[OF mid(4) fresh] by (simp only: update_subscription_def hooked(1) mid(1)) simp
    then have "wd_subs db' = wd_subs db @ [row']"
      using row(6) hooked(1) mid(1)
      by (simp add: Hook(2) row'_def update_repository_webhook_registration_def split: option.splits)
    moreover have "wd_clock db' = wd_clock db" "wd_hooks db' = wd_hooks hooked"
      using hooked(2) mid(3) by (auto simp: Hook(2) update_repository_webhook_registration_def)
    ultimately show ?thesis
      using row mid hooked by (intro exI[of _ row']) (auto simp: row'_def)
  qed
qed

lemma provision_rows:
  assumes "provision_repository_webhook env sid minted fails reply hook unwritable tenant repository provider full_name token db = (r, db')"
    and fresh: "sid \<notin> ws_id ` set (wd_subs db)"
  obtains (Nothing) "wd_subs db' = wd_subs db" "wd_hooks db' = wd_hooks db" "wd_clock db' = wd_clock db"
  | (Added) row full where "wd_subs db' = wd_subs db @ [row]" "wd_clock db' = wd_clock db" "ws_id row = sid"
      "ws_secret_enc row = encrypt_signing_secret env minted" "ws_previous_enc row = None" "ws_synced row" "ws_full_name row = full"
      "lower (strip full) = full" "ws_hook_id row = None \<or> ws_hook_id row = hook"
      "wd_hooks db' = wd_hooks db \<and> ws_hook_id row = None \<or> (\<exists>h. hook = Some h \<and> wd_hooks db' = AList.update (full, h) minted (wd_hooks db))"
proof -
  define full where "full = lower (strip (case full_name of None \<Rightarrow> [] | Some n \<Rightarrow> n))"
  consider (Refused) "normalize_provider provider = None \<or> full = [] \<or> fails \<or> repository \<in> set (map ws_repository (wd_subs db))"
    | (Taken) key where "normalize_provider provider = Some key" "full \<noteq> []" "\<not> fails" "repository \<notin> set (map ws_repository (wd_subs db))"
    by (cases "normalize_provider provider") auto
  then show ?thesis
  proof cases
    case Refused
    then have "db' = db"
      using assms(1)
      by (cases "normalize_provider provider"; cases "full = []"; cases fails)
        (simp_all add: provision_repository_webhook_def insert_repository_webhook_subscription_def new_subscription_def full_def[symmetric])
    then show ?thesis using Nothing by simp
  next
    case (Taken key)
    then show ?thesis using provision_taken[OF assms(1) fresh Taken(1) full_def] Added by metis
  qed
qed

lemma provision_moved:
  assumes "provision_repository_webhook env sid minted fails reply hook unwritable tenant repository provider full_name token db = (r, db')"
    "sid \<notin> ws_id ` set (wd_subs db)"
  shows "moved env {minted} db db'"
  using provision_rows[OF assms]
  by cases (use assms(2) in \<open>force simp: moved_def row_moved_refl born_def\<close>)+

section \<open>Displaced secrets\<close>

lemma update_ids: "(\<And>s. ws_id (f s) = ws_id s) \<Longrightarrow> map ws_id (wd_subs (update_subscription sid f db)) = map ws_id (wd_subs db)"
  by (simp add: update_subscription_def)

lemma step_moved:
  assumes "secret_step env st st'" "ids_distinct (st_db st)"
  shows "moved env (st_minted st' - st_minted st) (st_db st) (st_db st') \<and> ids_distinct (st_db st') \<and> st_minted st \<subseteq> st_minted st'"
  using assms(1)
proof cases
  case (Provision sid minted fails reply hook unwritable tenant repository provider full_name token r db)
  have "ids_distinct db"
    using provision_rows[OF Provision(2,3)] assms(2) Provision(3) by cases (simp_all add: ids_distinct_def)
  then show ?thesis using provision_moved[OF Provision(2,3)] Provision by (auto simp: insert_Diff_if)
next
  case (Rotate minted tenant repository grace s rotated db)
  obtain enc where "db = update_subscription (ws_id s) (\<lambda>s. if ws_secret_enc s = None then s
       else rotated_row (wd_clock (st_db st)) enc (secret_fingerprint env minted) (resolve_grace_seconds env grace) s) (st_db st)"
    using rotate_rows[OF Rotate(2)] by blast
  then have "map ws_id (wd_subs db) = map ws_id (wd_subs (st_db st))" by (simp add: update_ids rotated_row_def)
  then have "ids_distinct db" using assms(2) by (simp add: ids_distinct_def)
  then show ?thesis using rotate_moved[OF Rotate(2)] Rotate by (auto simp: insert_Diff_if)
next
  case (Call s x reply token err db)
  then show ?thesis using sync_call_rows[OF Call(3)] assms(2) by (auto simp: ids_distinct_def intro!: moved_same)
next
  case (Record sid err unwritable)
  have "map ws_id (wd_subs (sync_record unwritable sid err db)) = map ws_id (wd_subs db)" for db
    by (auto simp: sync_record_def set_repository_webhook_provider_secret_synced_def update_subscription_def)
  then show ?thesis using Record sync_record_moved assms(2) by (simp add: ids_distinct_def)
next
  case (Retire unclaimable limit)
  obtain f where f: "wd_subs (snd (retire_expired_secrets unclaimable limit (st_db st))) = map f (wd_subs (st_db st))"
    "\<forall>s \<in> set (wd_subs (st_db st)). f s = s \<or> window_closed (wd_clock (st_db st)) s \<and> f s = retired_row s"
    using retire_rows(1)[OF assms(2)] by blast
  have ids: "map ws_id (map f (wd_subs (st_db st))) = map ws_id (wd_subs (st_db st))"
    unfolding map_map by (rule map_cong[OF refl]) (use f(2) in \<open>force simp: retired_row_def\<close>)
  have "ids_distinct (snd (retire_expired_secrets unclaimable limit (st_db st)))"
    unfolding ids_distinct_def f(1) ids using assms(2) by (simp add: ids_distinct_def)
  then show ?thesis using Retire retire_moved[OF assms(2)] by simp
next
  case (Tick n)
  then show ?thesis using assms(2) by (auto simp: pass_time_def wd_clock_def ids_distinct_def intro!: moved_same)
qed (use assms(2) in \<open>simp_all add: moved_refl\<close>)

definition grace_bound :: "webhook_env \<Rightarrow> int" where
  "grace_bound env = max (max 0 (we_min_grace env)) (we_max_grace env) * usec"

text \<open>Every ciphertext in a row seals a minted secret, and an outgoing one has a bounded deadline.\<close>

definition row_issued :: "webhook_env \<Rightarrow> int \<Rightarrow> string set \<Rightarrow> webhook_subscription \<Rightarrow> bool" where
  "row_issued env now minted s \<longleftrightarrow>
     (\<exists>x \<in> minted. ws_secret_enc s = encrypt_signing_secret env x)
     \<and> (ws_previous_enc s \<noteq> None \<longrightarrow> (\<exists>x \<in> minted. ws_previous_enc s = encrypt_signing_secret env x)
          \<and> (\<exists>r e. ws_rotated_at s = Some r \<and> r \<le> now \<and> ws_previous_expires s = Some e \<and> e \<le> r + grace_bound env))"

definition secret_inv :: "webhook_env \<Rightarrow> secret_state \<Rightarrow> bool" where
  "secret_inv env st \<longleftrightarrow> ids_distinct (st_db st) \<and> [] \<notin> st_minted st
     \<and> (\<forall>s \<in> set (wd_subs (st_db st)). row_issued env (wd_clock (st_db st)) (st_minted st) s)"

lemma row_issued_mono: "row_issued env now minted s \<Longrightarrow> now \<le> now' \<Longrightarrow> minted \<subseteq> minted' \<Longrightarrow> row_issued env now' minted' s"
  unfolding row_issued_def by (meson order_trans subsetD)

lemma row_moved_issued:
  assumes "row_moved env now minted' old new" "row_issued env now minted old" "minted \<subseteq> all" "minted' \<subseteq> all" "now \<le> now'"
  shows "row_issued env now' all new"
proof -
  have old: "row_issued env now' all old" using row_issued_mono assms by blast
  from assms(1) consider
      (Same) "ws_secret_enc new = ws_secret_enc old" "ws_previous_enc new = ws_previous_enc old"
        "ws_previous_expires new = ws_previous_expires old" "ws_rotated_at new = ws_rotated_at old"
    | (Gone) "ws_secret_enc new = ws_secret_enc old" "ws_previous_enc new = None"
    | (Turned) x w where "x \<in> minted'" "ws_secret_enc new = encrypt_signing_secret env x" "ws_previous_enc new = ws_secret_enc old"
        "ws_rotated_at new = Some now" "w \<le> max (max 0 (we_min_grace env)) (we_max_grace env)" "ws_previous_expires new = Some (now + w * usec)"
    unfolding row_moved_def by auto
  then show ?thesis
  proof cases
    case Same
    then show ?thesis using old by (simp add: row_issued_def)
  next
    case Gone
    then show ?thesis using old by (simp add: row_issued_def)
  next
    case Turned
    have "now + w * usec \<le> now + grace_bound env" using Turned(5) by (simp add: grace_bound_def mult_right_mono)
    then show ?thesis using Turned old assms(4,5) unfolding row_issued_def by auto
  qed
qed

lemma secret_inv_step:
  assumes "secret_step env st st'" "secret_inv env st" "vault env"
  shows "secret_inv env st'"
proof -
  have distinct: "ids_distinct (st_db st)" using assms(2) by (simp add: secret_inv_def)
  note m = step_moved[OF assms(1) distinct]
  have "[] \<notin> st_minted st'"
    using assms(1)
  proof cases
    case (Rotate minted tenant repository grace s rotated db)
    obtain enc where "encrypt_signing_secret env minted = Some enc" using rotate_rows[OF Rotate(2)] by blast
    then show ?thesis using Rotate(1) open_encrypted(3)[OF assms(3)] assms(2) by (auto simp: secret_inv_def)
  qed (use assms(2) in \<open>auto simp: secret_inv_def\<close>)
  moreover have "row_issued env (wd_clock (st_db st')) (st_minted st') new" if new: "new \<in> set (wd_subs (st_db st'))" for new
  proof -
    have clock: "wd_clock (st_db st) \<le> wd_clock (st_db st')" using m by (simp add: moved_def)
    consider (Moved) old where "old \<in> set (wd_subs (st_db st))" "row_moved env (wd_clock (st_db st)) (st_minted st' - st_minted st) old new"
      | (Born) "born env (st_minted st' - st_minted st) new"
      using m new unfolding moved_def by blast
    then show ?thesis
    proof cases
      case Moved
      have "row_issued env (wd_clock (st_db st)) (st_minted st) old" using Moved(1) assms(2) by (simp add: secret_inv_def)
      then show ?thesis using row_moved_issued[OF Moved(2) _ _ _ clock] m by blast
    next
      case Born
      then show ?thesis by (auto simp: born_def row_issued_def)
    qed
  qed
  ultimately show ?thesis using m by (simp add: secret_inv_def)
qed

lemma secret_inv_steps: "secret_steps env st st' \<Longrightarrow> secret_inv env st \<Longrightarrow> vault env \<Longrightarrow> secret_inv env st'"
  by (induction rule: rtranclp_induct) (auto dest: secret_inv_step)

lemma secret_inv_empty: "secret_inv env (empty_secret_state r c)"
  by (simp add: secret_inv_def empty_secret_state_def ids_distinct_def)

text \<open>A step makes nothing verify but what verified before and what it minted.\<close>

lemma sealed_apart:
  assumes "vault env" "encrypt_signing_secret env y = Some c" "open_blob env (Some c) = Some x"
  shows "x = y"
  using open_encrypted(1)[OF assms(1,2)] assms(3) by simp

lemma open_sealed': "vault env \<Longrightarrow> open_blob env (encrypt_signing_secret env y) = Some x \<Longrightarrow> x = y"
  using sealed_apart by (cases "encrypt_signing_secret env y") (auto simp: open_blob_def split: option.splits)

lemma open_sealed: "vault env \<Longrightarrow> blob = encrypt_signing_secret env y \<Longrightarrow> open_blob env blob = Some x \<Longrightarrow> x = y"
  using open_sealed' by blast

lemma row_moved_live:
  assumes "row_moved env now minted old new" "x \<in> live_secrets env now' new" "now \<le> now'" "vault env"
  shows "x \<in> live_secrets env now old \<or> x \<in> minted"
proof -
  have x: "x \<noteq> []" "open_blob env (ws_secret_enc new) = Some x \<or> previous_secret_is_live now' new \<and> open_blob env (ws_previous_enc new) = Some x"
    using assms(2) by (simp_all add: live_secrets_iff)
  from assms(1) consider
      (Same) "ws_secret_enc new = ws_secret_enc old" "ws_previous_enc new = ws_previous_enc old"
        "ws_previous_expires new = ws_previous_expires old"
    | (Gone) "ws_secret_enc new = ws_secret_enc old" "ws_previous_enc new = None"
    | (Turned) y where "y \<in> minted" "ws_secret_enc new = encrypt_signing_secret env y" "ws_previous_enc new = ws_secret_enc old"
    unfolding row_moved_def by auto
  then show ?thesis
  proof cases
    case Same
    then have "previous_secret_is_live now' new \<Longrightarrow> previous_secret_is_live now old"
      using assms(3) by (auto simp: previous_secret_is_live_def split: option.splits)
    then show ?thesis using x Same by (auto simp: live_secrets_iff)
  next
    case Gone
    then show ?thesis using x by (auto simp: live_secrets_iff previous_secret_is_live_def)
  next
    case Turned
    then show ?thesis using x open_sealed[OF assms(4) Turned(2)] by (auto simp: live_secrets_iff)
  qed
qed

lemma step_verifies:
  assumes "secret_step env st st'" "secret_inv env st" "vault env" "verifies env (st_db st') sid x"
  shows "verifies env (st_db st) sid x \<or> x \<notin> st_minted st"
proof -
  have m: "moved env (st_minted st' - st_minted st) (st_db st) (st_db st')"
    using step_moved[OF assms(1)] assms(2) by (simp add: secret_inv_def)
  obtain new where new: "new \<in> set (wd_subs (st_db st'))" "ws_id new = sid" "x \<in> live_secrets env (wd_clock (st_db st')) new"
    using assms(4) by (auto simp: verifies_def)
  have clock: "wd_clock (st_db st) \<le> wd_clock (st_db st')" using m by (simp add: moved_def)
  consider (Moved) old where "old \<in> set (wd_subs (st_db st))" "row_moved env (wd_clock (st_db st)) (st_minted st' - st_minted st) old new"
    | (Born) "born env (st_minted st' - st_minted st) new"
    using m new(1) unfolding moved_def by blast
  then show ?thesis
  proof cases
    case Moved
    then show ?thesis using row_moved_live[OF Moved(2) new(3) clock assms(3)] new(2)
      by (auto simp: verifies_def row_moved_def)
  next
    case Born
    then show ?thesis using new(3)
      by (auto dest: open_sealed'[OF assms(3)] simp: born_def live_secrets_iff previous_secret_is_live_def)
  qed
qed

lemma steps_verifies:
  assumes "secret_steps env st st'" "secret_inv env st" "vault env" "x \<in> st_minted st" "verifies env (st_db st') sid x"
  shows "verifies env (st_db st) sid x"
  using assms(1,5)
proof (induction rule: rtranclp_induct)
  case (step mid last)
  have inv: "secret_inv env mid" using secret_inv_steps[OF step.hyps(1)] assms by blast
  have "st_minted st \<subseteq> st_minted mid"
    using step.hyps(1) assms(2,3)
  proof (induction rule: rtranclp_induct)
    case (step a b)
    have "ids_distinct (st_db a)" using secret_inv_steps[OF step.hyps(1)] step.prems by (simp add: secret_inv_def)
    then show ?case using step step_moved by blast
  qed simp
  then show ?case using step_verifies[OF step.hyps(2) inv assms(3) step.prems] assms(4) step.IH by blast
qed

lemma issued_open:
  assumes "row_issued env now minted s" "open_blob env (ws_secret_enc s) = Some y \<or> open_blob env (ws_previous_enc s) = Some y" "vault env"
  shows "y \<in> minted"
proof -
  have "open_blob env None = None" by (simp add: open_blob_def)
  then have "(\<exists>x \<in> minted. ws_secret_enc s = encrypt_signing_secret env x \<and> open_blob env (ws_secret_enc s) = Some y)
      \<or> (\<exists>x \<in> minted. ws_previous_enc s = encrypt_signing_secret env x \<and> open_blob env (ws_previous_enc s) = Some y)"
    using assms(1,2) unfolding row_issued_def by (cases "ws_previous_enc s") auto
  then show ?thesis using open_sealed[OF assms(3)] by blast
qed

lemma live_secrets_issued:
  assumes "row_issued env now minted s" "x \<in> live_secrets env now s" "vault env"
  shows "x \<in> minted \<and> (open_blob env (ws_secret_enc s) = Some x \<or> (\<exists>r. ws_rotated_at s = Some r \<and> now < r + grace_bound env))"
proof -
  have x: "open_blob env (ws_secret_enc s) = Some x \<or> previous_secret_is_live now s \<and> open_blob env (ws_previous_enc s) = Some x"
    using assms(2) by (simp add: live_secrets_iff)
  show ?thesis
  proof (cases "open_blob env (ws_secret_enc s) = Some x")
    case True
    then show ?thesis using assms(1) by (auto simp: row_issued_def dest: open_sealed'[OF assms(3)])
  next
    case False
    then have live: "previous_secret_is_live now s" and opened: "open_blob env (ws_previous_enc s) = Some x" using x by auto
    then have "ws_previous_enc s \<noteq> None" by (auto simp: open_blob_def split: option.splits)
    then obtain y r e where "y \<in> minted" "ws_previous_enc s = encrypt_signing_secret env y" "ws_rotated_at s = Some r"
      "ws_previous_expires s = Some e" "e \<le> r + grace_bound env"
      using assms(1) unfolding row_issued_def by blast
    then show ?thesis using live open_sealed[OF assms(3) _ opened] by (auto simp: previous_secret_is_live_def)
  qed
qed


section \<open>The provider's secret\<close>

definition quiet :: "secret_state \<Rightarrow> string \<Rightarrow> bool" where
  "quiet st sid \<longleftrightarrow> (\<forall>t \<in> set (st_calls st). ws_id (fst t) \<noteq> sid) \<and> (\<forall>r \<in> set (st_records st). fst r \<noteq> sid)"

text \<open>
  A step in turn: an update of the provider is only begun for a subscription no other is under way for, and
  a rotation only of a secret the provider is known to hold.
\<close>

definition in_turn :: "secret_state \<Rightarrow> secret_state \<Rightarrow> bool" where
  "in_turn st st' \<longleftrightarrow> (\<forall>t \<in> set (st_calls st') - set (st_calls st). quiet st (ws_id (fst t))
     \<and> (st_minted st' = st_minted st \<or> (\<forall>s \<in> set (wd_subs (st_db st)). ws_id s = ws_id (fst t) \<longrightarrow> ws_synced s)))"

definition serial_step :: "webhook_env \<Rightarrow> secret_state \<Rightarrow> secret_state \<Rightarrow> bool" where
  "serial_step env st st' \<longleftrightarrow> secret_step env st st' \<and> in_turn st st'"

abbreviation "serial_steps env \<equiv> (serial_step env)\<^sup>*\<^sup>*"

definition held :: "webhook_db \<Rightarrow> webhook_subscription \<Rightarrow> string option" where
  "held db s = (case hook_key s of None \<Rightarrow> None | Some k \<Rightarrow> map_of (wd_hooks db) k)"

definition row_served :: "webhook_env \<Rightarrow> webhook_db \<Rightarrow> webhook_subscription \<Rightarrow> bool" where
  "row_served env db s \<longleftrightarrow> (\<forall>x. held db s = Some x \<longrightarrow>
     open_blob env (ws_secret_enc s) = Some x
     \<or> \<not> ws_synced s \<and> (open_blob env (ws_previous_enc s) = Some x \<or> ws_previous_enc s = None))"

definition call_current :: "webhook_env \<Rightarrow> webhook_db \<Rightarrow> webhook_subscription \<times> string \<Rightarrow> bool" where
  "call_current env db t \<longleftrightarrow> (\<exists>s \<in> set (wd_subs db). ws_id s = ws_id (fst t) \<and> hook_key s = hook_key (fst t)
     \<and> open_blob env (ws_secret_enc s) = Some (snd t))"

definition record_true :: "webhook_env \<Rightarrow> webhook_db \<Rightarrow> string \<times> sync_error option \<Rightarrow> bool" where
  "record_true env db r \<longleftrightarrow> (snd r = None \<longrightarrow> (\<forall>s \<in> set (wd_subs db). ws_id s = fst r \<longrightarrow> held db s = open_blob env (ws_secret_enc s)))"

definition keys_apart :: "webhook_db \<Rightarrow> bool" where
  "keys_apart db \<longleftrightarrow> (\<forall>s \<in> set (wd_subs db). \<forall>t \<in> set (wd_subs db). hook_key s \<noteq> None \<longrightarrow> hook_key s = hook_key t \<longrightarrow> s = t)
     \<and> (\<forall>s \<in> set (wd_subs db). \<forall>k. hook_key s = Some k \<longrightarrow> k \<in> fst ` set (wd_hooks db))"

definition served :: "webhook_env \<Rightarrow> secret_state \<Rightarrow> bool" where
  "served env st \<longleftrightarrow> keys_apart (st_db st) \<and> (\<forall>s \<in> set (wd_subs (st_db st)). row_served env (st_db st) s)
     \<and> (\<forall>t \<in> set (st_calls st). call_current env (st_db st) t) \<and> (\<forall>r \<in> set (st_records st). record_true env (st_db st) r)"

lemma held_cong: "wd_hooks db = wd_hooks db' \<Longrightarrow> held db s = held db' s"
  by (simp add: held_def split: option.splits)

lemma keys_apart_map:
  assumes "keys_apart db'" "wd_subs db = map f (wd_subs db')" "wd_hooks db = wd_hooks db'"
    "\<And>s. s \<in> set (wd_subs db') \<Longrightarrow> hook_key (f s) = hook_key s"
  shows "keys_apart db"
  using assms unfolding keys_apart_def by auto

text \<open>Rows rewritten in place that keep hook and current secret.\<close>

lemma served_rewrite:
  assumes "served env st" "wd_subs db = map f (wd_subs (st_db st))" "wd_hooks db = wd_hooks (st_db st)"
    and keep: "\<And>s. s \<in> set (wd_subs (st_db st)) \<Longrightarrow> ws_id (f s) = ws_id s \<and> hook_key (f s) = hook_key s \<and> ws_secret_enc (f s) = ws_secret_enc s"
    and row: "\<And>s. s \<in> set (wd_subs (st_db st)) \<Longrightarrow> row_served env db (f s)"
    and calls: "set calls \<subseteq> set (st_calls st)" and records: "set records \<subseteq> set (st_records st)"
  shows "served env (st\<lparr>st_db := db, st_calls := calls, st_records := records\<rparr>)"
proof -
  have held: "held db s = held (st_db st) s" for s by (simp add: held_def assms(3) split: option.splits)
  have "keys_apart db"
    using assms(1) keep by (intro keys_apart_map[OF _ assms(2,3)]) (auto simp: served_def)
  moreover have "call_current env db t" if "call_current env (st_db st) t" for t
    using that keep unfolding call_current_def assms(2) by fastforce
  moreover have "record_true env db r" if "record_true env (st_db st) r" for r
    using that keep held unfolding record_true_def assms(2) by (auto simp: held_def)
  ultimately show ?thesis
    using assms(1) row calls records unfolding served_def by (auto simp: assms(2))
qed

lemma sync_call_hooks:
  assumes "sync_call env reply token s x db = (err, db')"
  shows "wd_subs db' = wd_subs db"
    "wd_hooks db' = wd_hooks db \<and> err \<noteq> None \<or> (\<exists>k. hook_key s = Some k \<and> wd_hooks db' = AList.update k x (wd_hooks db))"
  using assms
  by (auto simp: sync_call_def Let_def update_github_webhook_secret_def hook_key_def hook_accepts_def hook_error_def
      split: if_splits option.splits hook_reply.splits)

lemma served_call:
  assumes "served env st" "(s, x) \<in> set (st_calls st)" "sync_call env reply token s x (st_db st) = (err, db)"
    and distinct: "ids_distinct (st_db st)"
  shows "served env (st\<lparr>st_db := db, st_calls := remove1 (s, x) (st_calls st), st_records := (ws_id s, err) # st_records st\<rparr>)"
proof (cases "wd_hooks db = wd_hooks (st_db st) \<and> err \<noteq> None")
  case True
  have "served env (st\<lparr>st_db := db, st_calls := remove1 (s, x) (st_calls st), st_records := st_records st\<rparr>)"
  proof (rule served_rewrite[OF assms(1), where f = "\<lambda>s. s"])
    show "row_served env db t" if "t \<in> set (wd_subs (st_db st))" for t
      using assms(1) that True held_cong[of db "st_db st"] unfolding served_def row_served_def by simp
  qed (use sync_call_hooks(1)[OF assms(3)] True in \<open>auto dest: set_remove1_subset[THEN subsetD]\<close>)
  then show ?thesis using True by (auto simp: served_def record_true_def)
next
  case False
  then obtain k where k: "hook_key s = Some k" "wd_hooks db = AList.update k x (wd_hooks (st_db st))"
    using sync_call_hooks(2)[OF assms(3)] by blast
  have subs: "wd_subs db = wd_subs (st_db st)" by (rule sync_call_hooks(1)[OF assms(3)])
  obtain row where row: "row \<in> set (wd_subs (st_db st))" "ws_id row = ws_id s" "hook_key row = Some k" "open_blob env (ws_secret_enc row) = Some x"
    using assms(1,2) k(1) unfolding served_def call_current_def by fastforce
  have apart: "keys_apart (st_db st)" using assms(1) by (simp add: served_def)
  have held: "held db t = (if t = row then Some x else held (st_db st) t)" if "t \<in> set (wd_subs (st_db st))" for t
    using that row apart unfolding keys_apart_def held_def k(2) by (auto split: option.splits)
  have "keys_apart db" using apart unfolding keys_apart_def subs k(2) by (auto simp: dom_update)
  moreover have "row_served env db t" if "t \<in> set (wd_subs (st_db st))" for t
    using assms(1) that held[OF that] row(4) unfolding served_def row_served_def by auto
  moreover have "call_current env db t" if "t \<in> set (st_calls st)" for t
    using assms(1) that unfolding served_def call_current_def subs by simp
  moreover have "record_true env db r" if "r \<in> set (st_records st)" for r
    using assms(1) that held row(4) unfolding served_def record_true_def subs by auto
  moreover have "record_true env db (ws_id s, err)"
  proof -
    have "t = row" if "t \<in> set (wd_subs (st_db st))" "ws_id t = ws_id s" for t
      using same_row[OF distinct that(1) row(1)] that(2) row(2) by simp
    then show ?thesis using held row(4) unfolding record_true_def subs by auto
  qed
  ultimately show ?thesis
    unfolding served_def using subs set_remove1_subset[of "(s, x)" "st_calls st"] by auto
qed

lemma hook_key_rotated: "hook_key (rotated_row now enc fp g s) = hook_key s"
  by (cases "ws_hook_id s") (simp_all add: hook_key_def rotated_row_def)

lemma hook_key_noted: "hook_key (s\<lparr>ws_synced := b, ws_rotation_error := e\<rparr>) = hook_key s"
  by (cases "ws_hook_id s") (simp_all add: hook_key_def)

lemma served_record:
  assumes "served env st" "(sid, err) \<in> set (st_records st)"
  shows "served env (st\<lparr>st_db := sync_record unwritable sid err (st_db st), st_records := remove1 (sid, err) (st_records st)\<rparr>)"
proof -
  define f where "f s = (if \<not> unwritable \<and> ws_id s = sid then s\<lparr>ws_synced := (err = None), ws_rotation_error := if err = None then None else err\<rparr> else s)"
    for s :: webhook_subscription
  have "served env (st\<lparr>st_db := sync_record unwritable sid err (st_db st), st_calls := st_calls st, st_records := remove1 (sid, err) (st_records st)\<rparr>)"
  proof (rule served_rewrite[OF assms(1), where f = f])
    show "wd_subs (sync_record unwritable sid err (st_db st)) = map f (wd_subs (st_db st))"
      by (cases unwritable)
        (auto simp: sync_record_def set_repository_webhook_provider_secret_synced_def update_subscription_def f_def intro!: map_idI[symmetric])
    show "wd_hooks (sync_record unwritable sid err (st_db st)) = wd_hooks (st_db st)"
      by (simp add: sync_record_def set_repository_webhook_provider_secret_synced_def)
    then have held: "held (sync_record unwritable sid err (st_db st)) t = held (st_db st) t" for t by (rule held_cong)
    show "row_served env (sync_record unwritable sid err (st_db st)) (f s)" if s: "s \<in> set (wd_subs (st_db st))" for s
    proof -
      have same: "held (st_db st) (f s) = held (st_db st) s" by (simp add: held_def f_def hook_key_noted)
      have row: "row_served env (st_db st) s" and true: "record_true env (st_db st) (sid, err)"
        using assms s by (auto simp: served_def)
      show ?thesis
      proof (cases "\<not> unwritable \<and> ws_id s = sid \<and> err = None")
        case True
        then have "held (st_db st) s = open_blob env (ws_secret_enc s)" using true s by (simp add: record_true_def)
        then show ?thesis using same held by (simp add: row_served_def f_def)
      next
        case False
        then show ?thesis using row same held by (auto simp: row_served_def f_def)
      qed
    qed
  qed (auto simp: f_def hook_key_noted dest: set_remove1_subset[THEN subsetD])
  then show ?thesis by simp
qed

lemma hook_key_retired: "hook_key (retired_row s) = hook_key s"
  by (cases "ws_hook_id s") (simp_all add: retired_row_def hook_key_def)

lemma served_retire:
  assumes "served env st" "ids_distinct (st_db st)"
  shows "served env (st\<lparr>st_db := snd (retire_expired_secrets unclaimable limit (st_db st))\<rparr>)"
proof -
  let ?db = "snd (retire_expired_secrets unclaimable limit (st_db st))"
  obtain f where f: "wd_subs ?db = map f (wd_subs (st_db st))"
    "\<forall>s \<in> set (wd_subs (st_db st)). f s = s \<or> window_closed (wd_clock (st_db st)) s \<and> f s = retired_row s"
    using retire_rows(1)[OF assms(2)] by blast
  have hooks: "wd_hooks ?db = wd_hooks (st_db st)" by (rule retire_rows(3)[OF assms(2)])
  have "served env (st\<lparr>st_db := ?db, st_calls := st_calls st, st_records := st_records st\<rparr>)"
  proof (rule served_rewrite[OF assms(1) f(1) hooks])
    show "ws_id (f s) = ws_id s \<and> hook_key (f s) = hook_key s \<and> ws_secret_enc (f s) = ws_secret_enc s"
      if "s \<in> set (wd_subs (st_db st))" for s
    proof -
      have "f s = s \<or> f s = retired_row s" using f(2) that by blast
      then show ?thesis using hook_key_retired by (auto simp: retired_row_def)
    qed
    show "row_served env ?db (f s)" if "s \<in> set (wd_subs (st_db st))" for s
    proof -
      have "row_served env (st_db st) s" using assms(1) that by (simp add: served_def)
      moreover have "held ?db s = held (st_db st) s" "held ?db (retired_row s) = held (st_db st) s"
        using held_cong[OF hooks] by (simp_all add: held_def hook_key_retired)
      ultimately show ?thesis using f(2) that by (auto simp: row_served_def retired_row_def)
    qed
  qed simp_all
  then show ?thesis by simp
qed

lemma served_tick: "served env st \<Longrightarrow> served env (st\<lparr>st_db := pass_time n (st_db st)\<rparr>)"
  using served_rewrite[of env st "pass_time n (st_db st)" "\<lambda>s. s" "st_calls st" "st_records st"] held_cong[of "pass_time n (st_db st)" "st_db st"]
  by (simp add: pass_time_def served_def row_served_def)

lemma rotate_has_secret:
  assumes "rotate_store env minted fails tenant repository grace db = (Inr (s, rotated), db')" "ids_distinct db"
  shows "ws_secret_enc s \<noteq> None"
proof -
  from assms(1) obtain enc fp g where get: "get_repository_webhook_subscription tenant repository db = Some s"
    and rot: "db_rotate_webhook_secret (ws_id s) enc fp g db = (Some rotated, db')"
    by (auto simp: rotate_store_def split: option.splits if_splits prod.splits)
  obtain t where t: "subscription_by_id (ws_id s) db = Some t" "ws_secret_enc t \<noteq> None"
    using rot by (auto simp: db_rotate_webhook_secret_def Let_def split: option.splits if_splits)
  have "s \<in> set (wd_subs db)" "t \<in> set (wd_subs db)" "ws_id t = ws_id s"
    using get t(1) by (auto simp: get_repository_webhook_subscription_def subscription_by_id_def find_Some_iff)
  then show ?thesis using same_row[OF assms(2)] t(2) by metis
qed

lemma served_rotate:
  assumes "served env st" "rotate_store env minted False tenant repository grace (st_db st) = (Inr (s, rotated), db)"
    and distinct: "ids_distinct (st_db st)" and vault: "vault env"
    and quiet: "quiet st (ws_id s)" and synced: "\<forall>t \<in> set (wd_subs (st_db st)). ws_id t = ws_id s \<longrightarrow> ws_synced t"
  shows "served env (st\<lparr>st_db := db, st_calls := (rotated, minted) # st_calls st, st_minted := ms\<rparr>)"
proof -
  obtain enc where s: "s \<in> set (wd_subs (st_db st))" and enc: "encrypt_signing_secret env minted = Some enc"
    and db: "db = update_subscription (ws_id s) (\<lambda>s. if ws_secret_enc s = None then s
       else rotated_row (wd_clock (st_db st)) enc (secret_fingerprint env minted) (resolve_grace_seconds env grace) s) (st_db st)"
    and rotated: "subscription_by_id (ws_id s) db = Some rotated"
    using rotate_rows[OF assms(2)] by blast
  define new where "new = rotated_row (wd_clock (st_db st)) enc (secret_fingerprint env minted) (resolve_grace_seconds env grace) s"
  define f where "f t = (if t = s then new else t)" for t
  have sealed: "ws_secret_enc s \<noteq> None" by (rule rotate_has_secret[OF assms(2) distinct])
  have other: "ws_id t = ws_id s \<longleftrightarrow> t = s" if "t \<in> set (wd_subs (st_db st))" for t
    using same_row[OF distinct that s] by auto
  have subs: "wd_subs db = map f (wd_subs (st_db st))" and hooks: "wd_hooks db = wd_hooks (st_db st)"
    using other sealed by (auto simp: db update_subscription_def f_def new_def)
  have new: "ws_id new = ws_id s" "hook_key new = hook_key s" "\<not> ws_synced new" "ws_secret_enc new = Some enc" "ws_previous_enc new = ws_secret_enc s"
    by (simp_all add: new_def hook_key_rotated) (simp_all add: rotated_row_def)
  have "rotated \<in> set (wd_subs db)" "ws_id rotated = ws_id s"
    using rotated by (auto simp: subscription_by_id_def find_Some_iff)
  then have "rotated = new" using subs other by (auto simp: f_def split: if_splits)
  have held: "held db t = held (st_db st) t" "held db new = held (st_db st) s" for t
    using held_cong[OF hooks] new(2) by (simp_all add: held_def)
  have opens: "open_blob env (Some enc) = Some minted" by (rule open_encrypted(1)[OF vault enc])
  have quiet_calls: "ws_id (fst t) \<noteq> ws_id s" if "t \<in> set (st_calls st)" for t using quiet that by (auto simp: quiet_def)
  have quiet_records: "fst r \<noteq> ws_id s" if "r \<in> set (st_records st)" for r using quiet that by (auto simp: quiet_def)
  have "keys_apart db"
    using assms(1) new(2) by (intro keys_apart_map[OF _ subs hooks]) (auto simp: served_def f_def)
  moreover have "row_served env db (f t)" if "t \<in> set (wd_subs (st_db st))" for t
    using assms(1) that s synced held new unfolding served_def row_served_def by (auto simp: f_def)
  moreover have "call_current env db t" if t: "t \<in> set (st_calls st)" for t
  proof -
    obtain u where u: "u \<in> set (wd_subs (st_db st))" "ws_id u = ws_id (fst t)" "hook_key u = hook_key (fst t)" "open_blob env (ws_secret_enc u) = Some (snd t)"
      using assms(1) t unfolding served_def call_current_def by blast
    then have "u \<noteq> s" using quiet_calls[OF t] by auto
    then show ?thesis using u unfolding call_current_def subs by (auto simp: f_def intro!: bexI[of _ u])
  qed
  moreover have "call_current env db (rotated, minted)"
    using s \<open>rotated = new\<close> new opens unfolding call_current_def subs by (auto simp: f_def intro!: bexI[of _ s])
  moreover have "record_true env db r" if r: "r \<in> set (st_records st)" for r
  proof -
    have "record_true env (st_db st) r" using assms(1) r by (simp add: served_def)
    then show ?thesis using quiet_records[OF r] held new(1) unfolding record_true_def subs by (auto simp: f_def)
  qed
  ultimately show ?thesis unfolding served_def by (simp add: subs)
qed

lemma served_provision:
  assumes "served env st"
    and run: "provision_repository_webhook env sid minted fails reply hook unwritable tenant repository provider full_name token (st_db st) = (r, db)"
    and fresh: "sid \<notin> ws_id ` set (wd_subs (st_db st))" "minted \<noteq> []" "fresh_hook (st_db st) hook" and vault: "vault env"
    and old: "\<forall>x \<in> fst ` set (st_records st). x \<in> ws_id ` set (wd_subs (st_db st))"
  shows "served env (st\<lparr>st_db := db, st_minted := ms\<rparr>)"
proof (cases rule: provision_rows[OF run fresh(1)])
  case 1
  note Nothing = this
  have "served env (st\<lparr>st_db := db, st_calls := st_calls st, st_records := st_records st\<rparr>)"
    using assms(1) Nothing held_cong[OF Nothing(2)]
    by (intro served_rewrite[where f = "\<lambda>s. s"]) (auto simp: served_def row_served_def)
  then show ?thesis by (simp add: served_def)
next
  case (2 row full)
  note Added = this
  have key: "hook_key row = None \<or> (\<exists>h. hook = Some h \<and> hook_key row = Some (full, h) \<and> wd_hooks db = AList.update (full, h) minted (wd_hooks (st_db st)))"
    using Added fresh(3) by (auto simp: hook_key_def fresh_hook_def split: option.splits)
  have hooks: "map_of (wd_hooks db) k = map_of (wd_hooks (st_db st)) k" if "k \<in> fst ` set (wd_hooks (st_db st))" for k
  proof -
    have "k \<noteq> (full, h)" if "hook = Some h" for h using that fresh(3) \<open>k \<in> fst ` set (wd_hooks (st_db st))\<close> by (auto simp: fresh_hook_def)
    then show ?thesis using Added(10) by auto
  qed
  have known: "k \<in> fst ` set (wd_hooks (st_db st))" if "s \<in> set (wd_subs (st_db st))" "hook_key s = Some k" for s k
    using assms(1) that unfolding served_def keys_apart_def by blast
  have held: "held db s = held (st_db st) s" if "s \<in> set (wd_subs (st_db st))" for s
    using known[OF that] hooks by (auto simp: held_def split: option.splits)
  have opens: "open_blob env (ws_secret_enc row) = Some minted"
    using encrypt_defined[OF vault fresh(2)] open_encrypted(1)[OF vault] Added(4) by auto
  have held_row: "held db row = None \<or> held db row = Some minted" using key by (auto simp: held_def)
  have unshared: "hook_key s \<noteq> hook_key row" if "s \<in> set (wd_subs (st_db st))" "hook_key row \<noteq> None" for s
    using known[OF that(1)] key that(2) fresh(3) by (fastforce simp: fresh_hook_def)
  have "keys_apart db"
    unfolding keys_apart_def Added(1)
  proof (intro conjI ballI allI impI)
    fix s t assume "s \<in> set (wd_subs (st_db st) @ [row])" "t \<in> set (wd_subs (st_db st) @ [row])" "hook_key s \<noteq> None" "hook_key s = hook_key t"
    then show "s = t" using unshared assms(1) unfolding served_def keys_apart_def by (auto; metis)
  next
    fix s k assume s: "s \<in> set (wd_subs (st_db st) @ [row])" "hook_key s = Some k"
    have dom: "fst ` set (wd_hooks (st_db st)) \<subseteq> fst ` set (wd_hooks db)" using Added(10)
      by (elim disjE exE conjE) (simp_all add: dom_update subset_insertI)
    show "k \<in> fst ` set (wd_hooks db)"
    proof (cases "s = row")
      case True
      then show ?thesis using s(2) key by (auto simp: dom_update)
    next
      case False
      then have "s \<in> set (wd_subs (st_db st))" using s(1) by simp
      then show ?thesis using known[OF _ s(2)] dom by blast
    qed
  qed
  moreover have "row_served env db s" if "s \<in> set (wd_subs db)" for s
    using that assms(1) held held_row opens unfolding Added(1) served_def row_served_def by auto
  moreover have "call_current env db t" if "t \<in> set (st_calls st)" for t
    using assms(1) that unfolding served_def call_current_def Added(1) by fastforce
  moreover have "record_true env db x" if x: "x \<in> set (st_records st)" for x
  proof -
    have "fst x \<noteq> ws_id row" using old x fresh(1) Added(3) by (metis imageI)
    moreover have "record_true env (st_db st) x" using assms(1) x by (simp add: served_def)
    ultimately show ?thesis using held unfolding record_true_def Added(1) by auto
  qed
  ultimately show ?thesis unfolding served_def by simp
qed

lemma served_step:
  assumes "serial_step env st st'" "served env st" "secret_inv env st" "vault env"
    and old: "\<forall>x \<in> fst ` set (st_records st). x \<in> ws_id ` set (wd_subs (st_db st))"
    and known: "\<forall>t \<in> set (st_calls st). snd t \<in> st_minted st"
  shows "served env st'"
proof -
  have step: "secret_step env st st'" and turn: "in_turn st st'" using assms(1) by (simp_all add: serial_step_def)
  have distinct: "ids_distinct (st_db st)" using assms(3) by (simp add: secret_inv_def)
  from step show ?thesis
  proof cases
    case (Provision sid minted fails reply hook unwritable tenant repository provider full_name token r db)
    then show ?thesis using served_provision[OF assms(2)] assms(4) old by simp
  next
    case (Rotate minted tenant repository grace s rotated db)
    have "(rotated, minted) \<notin> set (st_calls st)" using known Rotate(3) by force
    moreover have "ws_id rotated = ws_id s"
      using rotate_rows[OF Rotate(2)] by (auto simp: subscription_by_id_def find_Some_iff)
    moreover have "st_minted st' \<noteq> st_minted st" using Rotate(1,3) by auto
    ultimately have "quiet st (ws_id s)" "\<forall>t \<in> set (wd_subs (st_db st)). ws_id t = ws_id s \<longrightarrow> ws_synced t"
      using turn[unfolded in_turn_def, rule_format, of "(rotated, minted)"] Rotate(1) by auto
    then show ?thesis using served_rotate[OF assms(2) Rotate(2) distinct assms(4)] Rotate(1) by simp
  next
    case (SweepRead s limit x)
    have "s \<in> set (wd_subs (st_db st))"
      using SweepRead(2) set_take_subset unfolding list_pending_provider_secret_def by fastforce
    then have "call_current env (st_db st) (s, x)" using SweepRead(3) by (auto simp: call_current_def resolve_subscription_secret_def)
    then show ?thesis using assms(2) SweepRead(1) by (simp add: served_def)
  next
    case (Call s x reply token err db)
    then show ?thesis using served_call[OF assms(2)] distinct by simp
  next
    case (Record sid err unwritable)
    then show ?thesis using served_record[OF assms(2)] by simp
  next
    case Abandon
    then show ?thesis using assms(2) by (simp add: served_def)
  next
    case (Retire unclaimable limit)
    then show ?thesis using served_retire[OF assms(2) distinct] by simp
  next
    case (Tick n)
    then show ?thesis using served_tick[OF assms(2)] by simp
  qed
qed

text \<open>Who is being updated, and with what.\<close>

definition tasks_known :: "secret_state \<Rightarrow> bool" where
  "tasks_known st \<longleftrightarrow> (\<forall>x \<in> fst ` set (st_records st). x \<in> ws_id ` set (wd_subs (st_db st)))
     \<and> (\<forall>t \<in> set (st_calls st). snd t \<in> st_minted st \<and> ws_id (fst t) \<in> ws_id ` set (wd_subs (st_db st)))"

lemma rotated_id: "ws_id (if ws_secret_enc s = None then s else rotated_row now enc fp g s) = ws_id s"
  by (simp add: rotated_row_def)

lemma step_ids:
  assumes "secret_step env st st'" "ids_distinct (st_db st)"
  shows "ws_id ` set (wd_subs (st_db st)) \<subseteq> ws_id ` set (wd_subs (st_db st'))"
  using assms(1)
proof cases
  case (Provision sid minted fails reply hook unwritable tenant repository provider full_name token r db)
  then show ?thesis by (cases rule: provision_rows[OF Provision(2,3)]) auto
next
  case (Rotate minted tenant repository grace s rotated db)
  then obtain f sid where f: "\<And>s. ws_id (f s) = ws_id s" "db = update_subscription sid f (st_db st)"
    using rotate_rows[OF Rotate(2)] by (metis (no_types, lifting) rotated_id)
  have "set (map ws_id (wd_subs db)) = set (map ws_id (wd_subs (st_db st)))" unfolding f(2) by (simp only: update_ids[OF f(1)])
  then show ?thesis using Rotate(1) by simp
next
  case (Call s x reply token err db)
  then show ?thesis using sync_call_rows[OF Call(3)] by simp
next
  case (Record sid err unwritable)
  have "set (map ws_id (wd_subs (sync_record unwritable sid err db))) = set (map ws_id (wd_subs db))" for db
    by (simp only: sync_record_def set_repository_webhook_provider_secret_synced_def) (simp add: update_ids del: set_map)
  then show ?thesis using Record(1) by simp
next
  case (Retire unclaimable limit)
  obtain f where f: "wd_subs (snd (retire_expired_secrets unclaimable limit (st_db st))) = map f (wd_subs (st_db st))"
    "\<forall>s \<in> set (wd_subs (st_db st)). f s = s \<or> window_closed (wd_clock (st_db st)) s \<and> f s = retired_row s"
    using retire_rows(1)[OF assms(2)] by blast
  have "ws_id (f s) = ws_id s" if "s \<in> set (wd_subs (st_db st))" for s
  proof -
    have "f s = s \<or> f s = retired_row s" using f(2) that by blast
    then show ?thesis by (auto simp: retired_row_def)
  qed
  then show ?thesis using Retire f(1) by (auto simp: image_iff)
qed (auto simp: pass_time_def)

lemma found_by_id: "subscription_by_id sid db = Some s \<Longrightarrow> s \<in> set (wd_subs db)"
  by (auto simp: subscription_by_id_def find_Some_iff)

lemma tasks_known_step:
  assumes "secret_step env st st'" "tasks_known st" "secret_inv env st" "vault env"
  shows "tasks_known st'"
proof -
  have distinct: "ids_distinct (st_db st)" using assms(3) by (simp add: secret_inv_def)
  have ids: "ws_id ` set (wd_subs (st_db st)) \<subseteq> ws_id ` set (wd_subs (st_db st'))" by (rule step_ids[OF assms(1) distinct])
  have minted: "st_minted st \<subseteq> st_minted st'" using step_moved[OF assms(1) distinct] by blast
  have old_records: "fst r \<in> ws_id ` set (wd_subs (st_db st'))" if "r \<in> set (st_records st)" for r
    using assms(2) ids that by (auto simp: tasks_known_def)
  have old_calls: "snd t \<in> st_minted st' \<and> ws_id (fst t) \<in> ws_id ` set (wd_subs (st_db st'))" if "t \<in> set (st_calls st)" for t
    using assms(2) ids minted that by (auto simp: tasks_known_def)
  have "(\<forall>r \<in> set (st_records st'). fst r \<in> ws_id ` set (wd_subs (st_db st')))
    \<and> (\<forall>t \<in> set (st_calls st'). snd t \<in> st_minted st' \<and> ws_id (fst t) \<in> ws_id ` set (wd_subs (st_db st')))"
    using assms(1)
  proof cases
    case (Rotate new tenant repository grace s rotated db)
    have "rotated \<in> set (wd_subs db)" using rotate_rows[OF Rotate(2)] found_by_id by metis
    then show ?thesis using Rotate(1) old_records old_calls by auto
  next
    case (SweepRead s limit x)
    have s: "s \<in> set (wd_subs (st_db st))"
      using SweepRead(2) set_take_subset unfolding list_pending_provider_secret_def by fastforce
    then have "row_issued env (wd_clock (st_db st)) (st_minted st) s" using assms(3) by (simp add: secret_inv_def)
    then have "x \<in> st_minted st"
      using issued_open[OF _ _ assms(4)] SweepRead(3) unfolding resolve_subscription_secret_def by blast
    then show ?thesis using SweepRead(1) s old_records old_calls by auto
  next
    case (Call s x reply token err db)
    then show ?thesis using old_records old_calls[OF Call(2)] old_calls set_remove1_subset[of "(s, x)" "st_calls st"] by auto
  next
    case (Record sid err unwritable)
    then show ?thesis using old_records old_calls set_remove1_subset[of "(sid, err)" "st_records st"] by auto
  qed (use old_records old_calls in simp_all)
  then show ?thesis by (auto simp: tasks_known_def)
qed

lemma serial_invariants:
  assumes "serial_steps env (empty_secret_state r c) st" "vault env"
  shows "served env st \<and> secret_inv env st \<and> tasks_known st"
  using assms(1)
proof (induction rule: rtranclp_induct)
  case base
  show ?case by (simp add: secret_inv_empty) (simp add: served_def keys_apart_def tasks_known_def empty_secret_state_def)
next
  case (step a b)
  then have inv: "secret_inv env a" "tasks_known a" "served env a" and one: "secret_step env a b"
    by (simp_all add: serial_step_def)
  have "served env b"
    by (rule served_step[OF step.hyps(2) inv(3,1) assms(2)]) (use inv(2) in \<open>auto simp: tasks_known_def\<close>)
  then show ?case using secret_inv_step[OF one inv(1) assms(2)] tasks_known_step[OF one inv(2,1) assms(2)] by blast
qed

text \<open>C19: As long as the updates of one subscription's hook do not overlap and a secret is only rotated once the
  provider is known to hold it, the secret the provider's hook holds verifies whenever the subscription is marked
  as synced or its grace window is open, whatever the provider answers, whichever answers are lost and whenever
  a process stops.\<close>

theorem provider_secret_verifies:
  assumes "vault env" "serial_steps env (empty_secret_state r c) st" "s \<in> set (wd_subs (st_db st))" "held (st_db st) s = Some x"
    and "ws_synced s \<or> previous_secret_is_live (wd_clock (st_db st)) s"
  shows "x \<in> live_secrets env (wd_clock (st_db st)) s"
proof -
  have inv: "served env st" "secret_inv env st" using serial_invariants[OF assms(2,1)] by blast+
  have row: "row_served env (st_db st) s" "row_issued env (wd_clock (st_db st)) (st_minted st) s" "[] \<notin> st_minted st"
    using inv assms(3) by (auto simp: served_def secret_inv_def)
  have sealed: "y \<noteq> []" if "open_blob env (ws_secret_enc s) = Some y \<or> open_blob env (ws_previous_enc s) = Some y" for y
  proof -
    have "y \<in> st_minted st" by (rule issued_open[OF row(2) that assms(1)])
    then show ?thesis using row(3) by auto
  qed
  have "open_blob env (ws_secret_enc s) = Some x
      \<or> previous_secret_is_live (wd_clock (st_db st)) s \<and> open_blob env (ws_previous_enc s) = Some x"
    using row(1) assms(4,5) by (auto simp: row_served_def previous_secret_is_live_def)
  then show ?thesis using sealed unfolding live_secrets_iff by blast
qed

section \<open>Updates of the row\<close>

text \<open>Every update the program makes is one the database's trigger accepts.\<close>

lemma updates_pass_the_guard:
  "enc \<noteq> ws_secret_enc s \<Longrightarrow> enc = Some e \<Longrightarrow> ws_secret_enc s \<noteq> None \<Longrightarrow> webhook_secret_guard s (rotated_row now e fp g s)"
  "webhook_secret_guard s (retired_row s)"
  "webhook_secret_guard s (s\<lparr>ws_synced := b, ws_rotation_error := err\<rparr>)"
  "webhook_secret_guard s (s\<lparr>ws_registration := state, ws_hook_id := hook, ws_registration_error := err\<rparr>)"
  "webhook_secret_guard s (s\<lparr>ws_last_event := t, ws_last_delivery := d, ws_event_count := n\<rparr>)"
  by (auto simp: webhook_secret_guard_def rotated_row_def retired_row_def split: option.splits)

lemma row_after: "(\<And>s. ws_id (f s) = ws_id s) \<Longrightarrow> subscription_by_id sid (update_subscription sid f db) = map_option f (subscription_by_id sid db)"
proof -
  assume id: "\<And>s. ws_id (f s) = ws_id s"
  have "find (\<lambda>s. ws_id s = sid) (map (\<lambda>s. if ws_id s = sid then f s else s) ss) = map_option f (find (\<lambda>s. ws_id s = sid) ss)" for ss
    by (induction ss) (simp_all add: id)
  then show ?thesis by (simp add: update_subscription_def subscription_by_id_def)
qed

lemma refused_rotation_changes_nothing:
  assumes "rotate_repository_webhook_secret env minted fails reply unwritable tenant repository grace token db = (Inl e, db')" "ids_distinct db"
  shows "db' = db"
proof -
  have same: "update_subscription sid (\<lambda>s. if ws_secret_enc s = None then s else f s) db = db"
    if "subscription_by_id sid db = Some s" "ws_secret_enc s = None" for sid f s
  proof -
    have "s \<in> set (wd_subs db)" "ws_id s = sid" using that(1) by (auto simp: subscription_by_id_def find_Some_iff)
    then have "(if ws_id t = sid then if ws_secret_enc t = None then t else f t else t) = t" if "t \<in> set (wd_subs db)" for t
      using same_row[OF assms(2) that] \<open>ws_secret_enc s = None\<close> by auto
    then show ?thesis by (simp add: update_subscription_def map_idI)
  qed
  have none: "update_subscription sid f db = db" if "subscription_by_id sid db = None" for sid f
  proof -
    have "map (\<lambda>s. if ws_id s = sid then f s else s) (wd_subs db) = wd_subs db"
      using that by (auto simp: subscription_by_id_def find_None_iff intro!: map_idI)
    then show ?thesis by (simp add: update_subscription_def)
  qed
  have "rotate_store env minted fails tenant repository grace db = (Inl e, db')"
    using assms(1) by (auto simp: rotate_repository_webhook_secret_def Let_def split: sum.splits prod.splits)
  then show ?thesis
    using same none by (auto simp: row_after rotated_id rotate_store_def db_rotate_webhook_secret_def Let_def split: option.splits if_splits prod.splits)
qed

section \<open>A retry that overlaps a rotation\<close>

lemma sync_ok:
  assumes "sync_provider_secret env reply False token s x db = (None, db')"
  obtains k hooked where "hook_key s = Some k" "wd_subs hooked = wd_subs db" "wd_hooks hooked = AList.update k x (wd_hooks db)"
    "wd_clock hooked = wd_clock db"
    "db' = update_subscription (ws_id s) (\<lambda>s. s\<lparr>ws_synced := True, ws_rotation_error := None\<rparr>) hooked"
proof -
  obtain hooked where call: "sync_call env reply token s x db = (None, hooked)" "db' = sync_record False (ws_id s) None hooked"
    using assms by (auto simp: sync_provider_secret_def split: prod.splits)
  then show ?thesis
    using that sync_call_hooks[OF call(1)] sync_call_rows[OF call(1)]
    by (auto simp: sync_record_def set_repository_webhook_provider_secret_synced_def)
qed

lemma by_id_cong: "wd_subs db = wd_subs db' \<Longrightarrow> subscription_by_id sid db = subscription_by_id sid db'"
  by (simp add: subscription_by_id_def)

text \<open>C20: A retry of the sweep that has read a subscription before it is rotated and reaches the provider after
  the rotation did puts the displaced secret back into the provider's hook and marks the subscription as
  synced: once the grace window of the rotation is over, the provider's secret does not verify, and no
  sweep will try to repair it.\<close>

theorem overlapping_retry_loses_the_hook:
  assumes "vault env" "ids_distinct db" "s \<in> set (list_pending_provider_secret limit db)" "resolve_subscription_secret env s = Some x"
    and rotation: "rotate_store env y False tenant repository grace db = (Inr (s, rotated), db1)" "x \<noteq> y"
    and first: "sync_provider_secret env (Status 200) False token rotated y db1 = (None, db2)"
    and late: "sync_provider_secret env (Status 200) False token s x db2 = (None, db3)"
    and over: "wd_clock db + resolve_grace_seconds env grace * usec \<le> now"
  shows "\<exists>row. subscription_by_id (ws_id s) db3 = Some row \<and> held db3 row = Some x \<and> ws_synced row
    \<and> x \<notin> live_secrets env now row \<and> row \<notin> set (list_pending_provider_secret limit' db3)"
proof -
  obtain enc where enc: "encrypt_signing_secret env y = Some enc" and s: "s \<in> set (wd_subs db)"
    and db1: "db1 = update_subscription (ws_id s) (\<lambda>s. if ws_secret_enc s = None then s
       else rotated_row (wd_clock db) enc (secret_fingerprint env y) (resolve_grace_seconds env grace) s) db"
    and rotated: "subscription_by_id (ws_id s) db1 = Some rotated"
    using rotate_rows[OF rotation(1)] by blast
  define new where "new = rotated_row (wd_clock db) enc (secret_fingerprint env y) (resolve_grace_seconds env grace) s"
  have sealed: "ws_secret_enc s \<noteq> None" by (rule rotate_has_secret[OF rotation(1) assms(2)])
  have "subscription_by_id (ws_id s) db = Some s"
  proof (cases "subscription_by_id (ws_id s) db")
    case None
    then show ?thesis using s by (auto simp: subscription_by_id_def find_None_iff)
  next
    case (Some t)
    then show ?thesis using same_row[OF assms(2) found_by_id[OF Some] s] by (auto simp: subscription_by_id_def find_Some_iff)
  qed
  then have "rotated = new" using rotated sealed by (simp add: db1 row_after rotated_row_def new_def)
  then have sid: "ws_id rotated = ws_id s" by (simp add: new_def rotated_row_def)
  obtain k mid where mid: "hook_key rotated = Some k" "wd_subs mid = wd_subs db1"
      "db2 = update_subscription (ws_id s) (\<lambda>s. s\<lparr>ws_synced := True, ws_rotation_error := None\<rparr>) mid"
    using sync_ok[OF first] sid by metis
  obtain k' last_db where last_db: "hook_key s = Some k'" "wd_subs last_db = wd_subs db2" "wd_hooks last_db = AList.update k' x (wd_hooks db2)"
      "db3 = update_subscription (ws_id s) (\<lambda>s. s\<lparr>ws_synced := True, ws_rotation_error := None\<rparr>) last_db"
    using sync_ok[OF late] by metis
  define row where "row = new\<lparr>ws_synced := True, ws_rotation_error := None\<rparr>"
  have "subscription_by_id (ws_id s) db2 = Some row"
    using rotated \<open>rotated = new\<close> by_id_cong[OF mid(2)] by (simp add: mid(3) row_after row_def)
  then have found: "subscription_by_id (ws_id s) db3 = Some row"
    using by_id_cong[OF last_db(2)] by (simp add: last_db(4) row_after row_def)
  have "hook_key row = hook_key s" by (simp add: row_def new_def hook_key_noted hook_key_rotated)
  then have "held db3 row = Some x" using last_db(1,3,4) by (simp add: held_def)
  moreover have "x \<notin> live_secrets env now row"
  proof -
    have "open_blob env (ws_secret_enc row) = Some y" using open_encrypted(1)[OF assms(1) enc] by (simp add: row_def new_def rotated_row_def)
    moreover have "\<not> previous_secret_is_live now row"
      using over grace_bounds(1)[of env grace] by (auto simp: previous_secret_is_live_def row_def new_def rotated_row_def)
    ultimately show ?thesis using rotation(2) by (auto simp: live_secrets_iff)
  qed
  moreover have "ws_synced row" by (simp add: row_def)
  moreover have "row \<notin> set (list_pending_provider_secret limit' db3)"
    using \<open>ws_synced row\<close> set_take_subset unfolding list_pending_provider_secret_def pending_sync_def by fastforce
  ultimately show ?thesis using found by blast
qed

section \<open>A small history\<close>

definition sample_env :: webhook_env where
  "sample_env = \<lparr>we_key = Some ''k'', we_seal = (\<lambda>_ p. 1 # map of_char p), we_unseal = (\<lambda>_ b. Some (map (\<lambda>w. char_of (unat w)) (tl b))),
     we_sha256 = (\<lambda>s. s), we_hmac = (\<lambda>s _. s), we_json = (\<lambda>_. None), we_views = \<lparr>pv_str = (\<lambda>_. []), pv_float_int = (\<lambda>_. 0)\<rparr>,
     we_grace = 2, we_min_grace = 0, we_max_grace = 3, we_base_url = ''https://a'', we_enabled = True, we_pr_preview = True\<rparr>"

lemma sample_vault: "vault sample_env"
proof -
  have "char_of (unat (of_char c :: 8 word)) = c" for c
  proof -
    have "unat (of_char c :: 8 word) = unat (of_nat (of_char c) :: 8 word)" by (simp only: of_nat_of_char)
    also have "\<dots> = of_char c" by (simp add: unat_of_nat)
    finally show ?thesis by simp
  qed
  then show ?thesis by (simp add: vault_def sample_env_def comp_def)
qed

definition sample_refresh :: refresh_db where
  "sample_refresh = (empty_refresh_db 0)\<lparr>repositories := [fresh_repository ''r'' ''t'' 0]\<rparr>"

definition sample_scans :: scan_db where
  "sample_scans = \<lparr>sx_files = [], sx_cursors = [], sx_repos = [], sx_jobs = [], sx_volume = []\<rparr>"

definition sample_row :: webhook_subscription where
  "sample_row = \<lparr>ws_id = ''s'', ws_tenant = ''t'', ws_repository = ''r'', ws_provider = ''github'', ws_full_name = ''o/n'',
     ws_secret_enc = Some [1, 0x78], ws_fingerprint = Some ''x'', ws_pr_preview = True, ws_hook_id = Some ''7'',
     ws_registration = RegisteredHook, ws_registration_error = None, ws_previous_enc = None, ws_previous_fingerprint = None,
     ws_previous_expires = None, ws_rotated_at = None, ws_rotation_count = 0, ws_synced = True, ws_rotation_error = None,
     ws_event_count = 0, ws_last_event = None, ws_last_delivery = None, ws_created = 0\<rparr>"

definition sample_db :: "webhook_subscription \<Rightarrow> string \<Rightarrow> webhook_db" where
  "sample_db s secret = \<lparr>wd_subs = [s], wd_events = [], wd_audits = [(''t'', ''r'', HookRegistered RegisteredHook (Some ''7'') None)],
     wd_hooks = [((''o/n'', ''7''), secret)], wd_refresh = sample_refresh, wd_scan = sample_scans, wd_moves = []\<rparr>"

lemma sample_texts:
  "normalize_provider ''github'' = Some ''github''" "lower (strip ''o/n'') = ''o/n''" "lower ''github'' = ''github''" "strip ''7'' = ''7''"
  "webhook_endpoint_url sample_env ''github'' = Some ''https://a/v1/repositories/webhook/github''"
  "encrypt_signing_secret sample_env ''x'' = Some [1, 0x78]" "encrypt_signing_secret sample_env ''y'' = Some [1, 0x79]"
  "encrypt_signing_secret sample_env ''z'' = Some [1, 0x7A]"
  "secret_fingerprint sample_env ''x'' = Some ''x''" "secret_fingerprint sample_env ''y'' = Some ''y''" "secret_fingerprint sample_env ''z'' = Some ''z''"
  by code_simp+

lemma sample_provision:
  "provision_repository_webhook sample_env ''s'' ''x'' False (Status 201) (Some ''7'') False ''t'' ''r'' ''github'' (Some ''o/n'') (Some ''token'')
     (st_db (empty_secret_state sample_refresh sample_scans))
   = (Inr \<lparr>pr_subscription = Some sample_row, pr_secret = Some ''x'', pr_state = RegisteredHook\<rparr>, sample_db sample_row ''x'')"
  by (simp add: provision_repository_webhook_def sample_texts insert_repository_webhook_subscription_def new_subscription_def Let_def
      empty_secret_state_def register_github_webhook_def hook_error_def hook_accepts_def update_repository_webhook_registration_def
      update_subscription_def subscription_by_id_def insert_workflow_audit_def sample_row_def sample_db_def wd_clock_def sample_refresh_def
      empty_refresh_db_def)

definition sample_turned :: "webhook_subscription \<Rightarrow> bytes \<Rightarrow> string \<Rightarrow> webhook_subscription" where
  "sample_turned s enc fp = rotated_row 0 enc (Some fp) 2 s"

abbreviation "row_y \<equiv> sample_turned sample_row [1, 0x79] ''y''"
abbreviation "row_z \<equiv> sample_turned row_y [1, 0x7A] ''z''"

lemma sample_grace: "resolve_grace_seconds sample_env None = 2"
  by (simp add: resolve_grace_seconds_def sample_env_def)

lemma sample_clock: "wd_clock (sample_db s h) = 0"
  by (simp add: wd_clock_def sample_db_def sample_refresh_def empty_refresh_db_def)

lemma sample_refresh_repos: "list_ex (live_row ''r'') (repositories sample_refresh)"
  by (simp add: sample_refresh_def live_row_def fresh_repository_def)

lemma sample_turn:
  assumes "ws_id s = ''s''" "ws_tenant s = ''t''" "ws_repository s = ''r''" "ws_fingerprint s = Some (a # b)" "ws_secret_enc s = Some e"
    "encrypt_signing_secret sample_env y = Some enc" "secret_fingerprint sample_env y = Some fp" "enc \<noteq> []"
  shows "rotate_store sample_env y False ''t'' ''r'' None (sample_db s h) = (Inr (s, sample_turned s enc fp), sample_db (sample_turned s enc fp) h)"
proof -
  have "wd_subs (sample_db t h) = [t]" "(sample_db s h)\<lparr>wd_subs := [t]\<rparr> = sample_db t h" for t by (simp_all add: sample_db_def)
  moreover have "ws_id (rotated_row n enc f g s) = ''s''" for n f g using assms(1) by (simp add: rotated_row_def)
  ultimately show ?thesis
    using assms by (simp add: rotate_store_def get_repository_webhook_subscription_def db_rotate_webhook_secret_def update_subscription_def
        subscription_by_id_def sample_turned_def sample_clock sample_grace Let_def)
qed

lemma sample_rotation:
  "rotate_store sample_env ''y'' False ''t'' ''r'' None (sample_db sample_row h) = (Inr (sample_row, row_y), sample_db row_y h)"
  "rotate_store sample_env ''z'' False ''t'' ''r'' None (sample_db row_y h) = (Inr (row_y, row_z), sample_db row_z h)"
  by (rule sample_turn; simp add: sample_row_def sample_turned_def rotated_row_def sample_texts)+

definition sample_start :: secret_state where
  "sample_start = empty_secret_state sample_refresh sample_scans"

definition sample_provisioned :: secret_state where
  "sample_provisioned = sample_start\<lparr>st_db := sample_db sample_row ''x'', st_minted := {''x''}\<rparr>"

definition sample_rotated :: secret_state where
  "sample_rotated = sample_provisioned\<lparr>st_db := sample_db row_y ''x'', st_calls := [(row_y, ''y'')], st_minted := {''y'', ''x''}\<rparr>"

definition sample_closed :: secret_state where
  "sample_closed = sample_rotated\<lparr>st_db := pass_time 2000000 (st_db sample_rotated)\<rparr>"

lemmas sample_states = sample_start_def sample_provisioned_def sample_rotated_def empty_secret_state_def

lemma sample_steps:
  "secret_step sample_env sample_start sample_provisioned" "secret_step sample_env sample_provisioned sample_rotated"
  "secret_step sample_env sample_rotated sample_closed"
proof -
  have "fresh_hook (st_db sample_start) (Some ''7'')" by (simp add: fresh_hook_def sample_states sample_texts)
  then have "secret_step sample_env sample_start (sample_start\<lparr>st_db := sample_db sample_row ''x'', st_minted := insert ''x'' (st_minted sample_start)\<rparr>)"
    by (intro secret_step.Provision[OF sample_provision[folded sample_start_def]]) (simp_all add: sample_states)
  then show "secret_step sample_env sample_start sample_provisioned" by (simp add: sample_states)
  have "secret_step sample_env sample_provisioned (sample_provisioned\<lparr>st_db := sample_db row_y ''x'',
      st_calls := (row_y, ''y'') # st_calls sample_provisioned, st_minted := insert ''y'' (st_minted sample_provisioned)\<rparr>)"
    by (intro secret_step.Rotate[where tenant = "''t''" and repository = "''r''" and grace = None and s = sample_row]) (simp_all add: sample_states sample_rotation)
  then show "secret_step sample_env sample_provisioned sample_rotated" by (simp add: sample_states)
  show "secret_step sample_env sample_rotated sample_closed" unfolding sample_closed_def by (rule secret_step.Tick)
qed

lemma sample_opens:
  "open_blob sample_env (ws_secret_enc row_y) = Some ''y''" "open_blob sample_env (ws_previous_enc row_y) = Some ''x''"
  "previous_secret_is_live now row_y \<longleftrightarrow> now < 2000000"
proof -
  show "open_blob sample_env (ws_secret_enc row_y) = Some ''y''" "open_blob sample_env (ws_previous_enc row_y) = Some ''x''"
    using open_encrypted(1)[OF sample_vault sample_texts(6)] open_encrypted(1)[OF sample_vault sample_texts(7)]
    by (simp_all add: sample_turned_def rotated_row_def sample_row_def)
qed (simp add: previous_secret_is_live_def sample_turned_def rotated_row_def sample_row_def)


text \<open>While the provider still holds the displaced secret, it verifies.\<close>

theorem provider_secret_verifies_witness:
  "held (st_db sample_rotated) row_y = Some ''x'' \<and> \<not> ws_synced row_y
    \<and> ''x'' \<in> live_secrets sample_env (wd_clock (st_db sample_rotated)) row_y"
proof -
  have "in_turn sample_start sample_provisioned" "in_turn sample_provisioned sample_rotated"
    by (simp_all add: in_turn_def quiet_def sample_states sample_db_def sample_row_def)
  then have "serial_step sample_env sample_start sample_provisioned" "serial_step sample_env sample_provisioned sample_rotated"
    using sample_steps by (simp_all add: serial_step_def)
  then have "serial_steps sample_env (empty_secret_state sample_refresh sample_scans) sample_rotated"
    unfolding sample_start_def by (rule converse_rtranclp_into_rtranclp[OF _ r_into_rtranclp])
  moreover have "row_y \<in> set (wd_subs (st_db sample_rotated))" by (simp add: sample_rotated_def sample_db_def)
  moreover have held: "held (st_db sample_rotated) row_y = Some ''x''"
    by (simp add: held_def hook_key_def sample_rotated_def sample_db_def sample_turned_def rotated_row_def sample_row_def sample_texts)
  moreover have "previous_secret_is_live (wd_clock (st_db sample_rotated)) row_y"
    unfolding sample_opens(3) by (simp add: sample_rotated_def sample_clock)
  ultimately have "''x'' \<in> live_secrets sample_env (wd_clock (st_db sample_rotated)) row_y"
    using provider_secret_verifies[OF sample_vault] by blast
  then show ?thesis using held by (simp add: sample_turned_def rotated_row_def)
qed

lemma sample_sync:
  assumes "ws_id s = ''s''" "ws_provider s = ''github''" "ws_full_name s = ''o/n''" "ws_hook_id s = Some ''7''" "ws_id t = ''s''"
  shows "sync_provider_secret sample_env (Status 200) False (Some ''k'') s x (sample_db t h)
    = (None, sample_db (t\<lparr>ws_synced := True, ws_rotation_error := None\<rparr>) x)"
  using assms by (simp add: sync_provider_secret_def sync_call_def Let_def sample_texts update_github_webhook_secret_def hook_error_def hook_accepts_def
      sync_record_def set_repository_webhook_provider_secret_synced_def update_subscription_def sample_db_def)

text \<open>A sweep reads the pending rotation to one secret, a rotation to another comes in between.\<close>

theorem overlapping_retry_loses_the_hook_witness:
  "\<exists>row. subscription_by_id ''s'' (snd (sync_provider_secret sample_env (Status 200) False (Some ''k'') row_y ''y''
        (snd (sync_provider_secret sample_env (Status 200) False (Some ''k'') row_z ''z'' (sample_db row_z ''x''))))) = Some row
      \<and> ws_synced row \<and> ''y'' \<notin> live_secrets sample_env 2000000 row"
proof -
  let ?synced = "\<lambda>s. s\<lparr>ws_synced := True, ws_rotation_error := None\<rparr> :: webhook_subscription"
  have facts: "ws_id row_y = ''s''" "ws_provider row_y = ''github''" "ws_full_name row_y = ''o/n''" "ws_hook_id row_y = Some ''7''"
    "ws_id row_z = ''s''" "ws_provider row_z = ''github''" "ws_full_name row_z = ''o/n''" "ws_hook_id row_z = Some ''7''"
    by (simp_all add: sample_turned_def rotated_row_def sample_row_def)
  have first: "sync_provider_secret sample_env (Status 200) False (Some ''k'') row_z ''z'' (sample_db row_z ''x'') = (None, sample_db (?synced row_z) ''z'')"
    by (rule sample_sync) (simp_all add: facts)
  have late: "sync_provider_secret sample_env (Status 200) False (Some ''k'') row_y ''y'' (sample_db (?synced row_z) ''z'')
      = (None, sample_db (?synced (?synced row_z)) ''y'')"
    by (rule sample_sync) (simp_all add: facts)
  have "ids_distinct (sample_db row_y ''x'')" by (simp add: ids_distinct_def sample_db_def)
  moreover have "row_y \<in> set (list_pending_provider_secret None (sample_db row_y ''x''))"
    by (simp add: list_pending_provider_secret_def pending_sync_def sample_clock[unfolded sample_db_def] repository_live_def bounded_limit_def sample_db_def
        sample_refresh_repos sample_turned_def rotated_row_def sample_row_def)
  moreover have "resolve_subscription_secret sample_env row_y = Some ''y''" by (simp add: resolve_subscription_secret_def sample_opens)
  ultimately show ?thesis
    using overlapping_retry_loses_the_hook[OF sample_vault _ _ _ sample_rotation(2) _ first late, where now = 2000000]
    by (auto simp: facts first late sample_clock sample_grace)
qed

end
