(* ===== verification/WebhookIngestSound.thy ===== *)
theory WebhookIngestSound
  imports WebhookIngest WebhookSecretsSound
begin

text \<open>
  What deliveries of repository webhooks can and cannot do (\<open>repository_webhook_dispatch.py\<close>): nothing
  is dispatched but for the subscription whose secret signed the delivery, and only what that
  subscription allows; a signed push on a tracked branch is scanned and polled; pushes are read as the
  providers write them; and a delivery identifier that was once rejected stays spent.
\<close>

section \<open>Signing schemes\<close>

text \<open>A scheme signs a body with a secret; what it accepts is exactly its signature.\<close>

locale signing =
  fixes sign :: "string \<Rightarrow> bytes \<Rightarrow> string" and accept :: "string \<Rightarrow> bytes \<Rightarrow> string \<Rightarrow> compare_error + bool"
  assumes accept_sound: "accept x raw v = Inr True \<Longrightarrow> v = sign x raw"
    and accept_signed: "ascii (sign x raw) \<Longrightarrow> accept x raw (sign x raw) = Inr True"
    and accept_decides: "ascii (sign x raw) \<Longrightarrow> ascii v \<Longrightarrow> accept x raw v = Inr True \<or> accept x raw v = Inr False"
begin

lemma accepts_iff: "ascii (sign x raw) \<Longrightarrow> ascii v \<Longrightarrow> accept x raw v = Inr (v = sign x raw)"
  using accept_decides[of x raw v] accept_sound[of x raw v] accept_signed[of x raw] by auto

lemma one_signature: "accept x raw v = Inr True \<Longrightarrow> accept x raw w = Inr True \<Longrightarrow> v = w"
  using accept_sound by blast

end

lemma starts_with_append [simp]: "starts_with (p @ s) p"
  by (simp add: starts_with_def)

interpretation hex: signing "\<lambda>x raw. ''sha256='' @ we_hmac env x raw" "\<lambda>x raw v. verify_hex_hmac env x raw v ''sha256=''" for env
  by unfold_locales (simp_all only: verify_hex_hmac_def compare_digest_def starts_with_append if_True simp_thms if_False split: if_splits, auto)

interpretation token: signing "\<lambda>x _. x" "\<lambda>x _ v. compare_digest x v"
  by unfold_locales (auto simp: compare_digest_def split: if_splits)

definition expected_signature :: "webhook_env \<Rightarrow> string \<Rightarrow> string \<Rightarrow> bytes \<Rightarrow> string" where
  "expected_signature env key x raw = (if key = ''gitlab'' then x else ''sha256='' @ we_hmac env x raw)"

definition genuine :: "webhook_env \<Rightarrow> string \<Rightarrow> string \<Rightarrow> bytes \<Rightarrow> headers \<Rightarrow> bool" where
  "genuine env key x raw headers \<longleftrightarrow> header headers (signature_header key) = Some (expected_signature env key x raw)"

lemma normalized_provider:
  assumes "normalize_provider p = Some key"
  shows "key \<in> set supported_providers" "normalize_provider key = Some key"
proof -
  show key: "key \<in> set supported_providers" using assms by (auto simp: normalize_provider_def Let_def split: if_splits)
  have "normalize_provider ''github'' = Some ''github''" "normalize_provider ''gitlab'' = Some ''gitlab''"
    "normalize_provider ''bitbucket'' = Some ''bitbucket''" by code_simp+
  then show "normalize_provider key = Some key" using key unfolding supported_providers_def by auto
qed

lemma verify_signature_key:
  assumes "normalize_provider key = Some key" "x \<noteq> []"
  shows "verify_signature env key (Some x) raw headers =
    (case header headers (signature_header key) of None \<Rightarrow> Inr False
     | Some v \<Rightarrow> if key = ''gitlab'' then compare_digest x v else verify_hex_hmac env x raw v ''sha256='')"
  using assms normalized_provider(1)[OF assms(1)]
  by (auto simp: verify_signature_def supported_providers_def split: option.splits)

lemma verified_is_genuine:
  assumes "verify_signature env key (Some x) raw headers = Inr True" "normalize_provider key = Some key"
  shows "genuine env key x raw headers"
proof -
  have "x \<noteq> []" using assms(1) by (auto simp: verify_signature_def assms(2))
  then show ?thesis
    using assms(1) hex.accept_sound token.accept_sound
    by (auto simp: verify_signature_key[OF assms(2)] genuine_def expected_signature_def split: option.splits if_splits)
qed

lemma verified_secretE:
  assumes "verified_secret env key raw headers xs = Inr (Some g)"
  obtains x where "(x, g) \<in> set xs" "verify_signature env key (Some x) raw headers = Inr True"
  using assms by (induction xs rule: verified_secret.induct) (auto split: sum.splits bool.splits)

lemma verified_candidateE:
  assumes "verified_candidate env now key raw headers ss = Inr (Some (s, g))"
  obtains "s \<in> set ss" "verified_secret env key raw headers (resolve_subscription_secrets env now s) = Inr (Some g)"
  using assms by (induction ss rule: verified_candidate.induct) (auto split: sum.splits option.splits)

lemma candidate_rows:
  "s \<in> set (find_repository_webhook_subscriptions key full_name db) \<longleftrightarrow>
     s \<in> set (wd_subs db) \<and> ws_provider s = key \<and> ws_full_name s = full_name \<and> repository_live db s"
  by (auto simp: find_repository_webhook_subscriptions_def)

lemma resolved_is_signed:
  assumes "resolve_verified_subscription env f key full_name raw headers db = Inr (Some (s, g), cs)" "normalize_provider key = Some key"
  shows "s \<in> set (wd_subs db) \<and> ws_provider s = key \<and> ws_full_name s = full_name \<and> repository_live db s
    \<and> (\<exists>x \<in> live_secrets env (wd_clock db) s. genuine env key x raw headers)"
proof -
  have "verified_candidate env (wd_clock db) key raw headers (find_repository_webhook_subscriptions key full_name db) = Inr (Some (s, g))"
    using assms(1) by (auto simp: resolve_verified_subscription_def Let_def split: if_splits sum.splits)
  then obtain x where "s \<in> set (find_repository_webhook_subscriptions key full_name db)"
    "(x, g) \<in> set (resolve_subscription_secrets env (wd_clock db) s)" "verify_signature env key (Some x) raw headers = Inr True"
    by (elim verified_candidateE verified_secretE)
  then show ?thesis
    using verified_is_genuine[OF _ assms(2)] unfolding candidate_rows live_secrets_def by force
qed

section \<open>What a delivery changes\<close>

definition untouched :: "webhook_db \<Rightarrow> webhook_db \<Rightarrow> bool" where
  "untouched db db' \<longleftrightarrow> wd_subs db' = wd_subs db \<and> wd_refresh db' = wd_refresh db \<and> wd_scan db' = wd_scan db
     \<and> wd_moves db' = wd_moves db \<and> wd_hooks db' = wd_hooks db"

text \<open>What may be done for a subscription: its counters, one scan and one poll of its repository, one movement.\<close>

definition counted :: "webhook_subscription \<Rightarrow> webhook_subscription \<Rightarrow> bool" where
  "counted old new \<longleftrightarrow>
     (\<exists>t d n. new = old\<lparr>ws_last_event := t, ws_last_delivery := d, ws_event_count := n\<rparr>)"

definition acted_for :: "webhook_subscription \<Rightarrow> webhook_db \<Rightarrow> webhook_db \<Rightarrow> bool" where
  "acted_for s db db' \<longleftrightarrow>
     list_all2 (\<lambda>old new. new = old \<or> ws_id old = ws_id s \<and> counted old new) (wd_subs db) (wd_subs db')
     \<and> wd_refresh db' \<in> {wd_refresh db, update_repositories (pollable (ws_repository s)) due_now (wd_refresh db)}
     \<and> (wd_scan db' = wd_scan db \<or> (\<exists>new b. wd_scan db' =
          snd (enqueue_repository_file_scan_job_if_idle new (wd_clock db) (ws_tenant s) (ws_repository s, b) (wd_scan db))))
     \<and> (wd_moves db' = wd_moves db \<or> (\<exists>ref sha d. wd_moves db' = wd_moves db @ [(ws_repository s, ref, sha, d)]))
     \<and> wd_hooks db' = wd_hooks db"

lemma untouched_refl [simp]: "untouched db db"
  by (simp add: untouched_def)

lemma record_untouched: "record_delivery f e db = (r, db') \<Longrightarrow> untouched db db'"
  by (auto simp: record_delivery_def db_record_webhook_event_def untouched_def split: if_splits)

lemma untouched_trans: "untouched a b \<Longrightarrow> untouched b c \<Longrightarrow> untouched a c"
  by (simp add: untouched_def)

lemma audit_untouched: "untouched db (audit_delivery s a db)"
  by (simp add: audit_delivery_def insert_workflow_audit_def untouched_def)

lemma untouched_clock: "untouched db db' \<Longrightarrow> wd_clock db' = wd_clock db"
  by (simp add: untouched_def wd_clock_def)

lemma reject_untouched: "untouched db (reject_for f key delivery full_name s db)"
  unfolding reject_for_def
  by (rule untouched_trans[OF record_untouched audit_untouched]) (rule prod.collapse[symmetric])

lemma rejects_untouched: "untouched db (fold (reject_for f key delivery full_name) ss db)"
  by (induction ss arbitrary: db) (auto intro: untouched_trans[OF reject_untouched])

lemma acted_refl: "acted_for s db db"
  by (auto simp: acted_for_def list_all2_same)

lemma counted_touch: "counted s (s\<lparr>ws_last_event := t, ws_last_delivery := d, ws_event_count := n\<rparr>)"
  unfolding counted_def by blast

lemma touch_acted: "acted_for s db (touch_subscription f s delivery db)"
proof (cases "df_touch f")
  case False
  then show ?thesis
    by (simp add: touch_subscription_def acted_for_def touch_repository_webhook_subscription_def update_subscription_def list_all2_map2
        list_all2_same counted_touch)
qed (simp add: touch_subscription_def acted_refl)

text \<open>Steps of one delivery after another.\<close>

lemma acted_untouched: "untouched db db1 \<Longrightarrow> acted_for s db1 db2 \<Longrightarrow> acted_for s db db2"
  by (frule untouched_clock) (simp add: acted_for_def untouched_def)

lemma untouched_acted: "acted_for s db db1 \<Longrightarrow> untouched db1 db2 \<Longrightarrow> acted_for s db db2"
  by (auto simp: acted_for_def untouched_def)

lemma touch_after:
  assumes "acted_for s db db1" "wd_subs db1 = wd_subs db"
  shows "acted_for s db (touch_subscription f s delivery db1)"
proof -
  have rest: "wd_refresh (touch_subscription f s delivery db1) = wd_refresh db1" "wd_scan (touch_subscription f s delivery db1) = wd_scan db1"
    "wd_moves (touch_subscription f s delivery db1) = wd_moves db1" "wd_hooks (touch_subscription f s delivery db1) = wd_hooks db1"
    by (simp_all add: touch_subscription_def touch_repository_webhook_subscription_def update_subscription_def)
  show ?thesis using touch_acted[of s db1 f delivery] assms by (simp add: acted_for_def rest)
qed

lemma announce_acted:
  "announce_move f s e delivery db = (n, db') \<Longrightarrow>
     acted_for s db db' \<and> wd_subs db' = wd_subs db \<and> wd_refresh db' = wd_refresh db \<and> wd_scan db' = wd_scan db"
  by (auto simp: announce_move_def acted_for_def list_all2_same split: option.splits)

lemma enqueue_scan_result:
  "enqueue_scan fails new tenant key db = (job, db') \<Longrightarrow>
     wd_subs db' = wd_subs db \<and> wd_refresh db' = wd_refresh db \<and> wd_moves db' = wd_moves db \<and> wd_hooks db' = wd_hooks db
     \<and> (wd_scan db' = wd_scan db
        \<or> wd_scan db' = snd (enqueue_repository_file_scan_job_if_idle new (wd_clock db) tenant key (wd_scan db)))"
  by (auto simp: enqueue_scan_def split: if_splits prod.splits)

lemma mark_due_result:
  "mark_repository_poll_due rid db = (due, db') \<Longrightarrow>
     wd_subs db' = wd_subs db \<and> wd_scan db' = wd_scan db \<and> wd_moves db' = wd_moves db \<and> wd_hooks db' = wd_hooks db
     \<and> wd_refresh db' = update_repositories (pollable rid) due_now (wd_refresh db)"
  by (auto simp: mark_repository_poll_due_def)

lemma dispatch_push_result:
  assumes "dispatch_push f new s e db = (r, db')"
  shows "wd_subs db' = wd_subs db \<and> wd_moves db' = wd_moves db \<and> wd_hooks db' = wd_hooks db
    \<and> wd_refresh db' \<in> {wd_refresh db, update_repositories (pollable (ws_repository s)) due_now (wd_refresh db)}
    \<and> (wd_scan db' = wd_scan db \<or> wd_scan db' =
         snd (enqueue_repository_file_scan_job_if_idle new (wd_clock db) (ws_tenant s) (ws_repository s, pe_branch e) (wd_scan db)))"
proof (cases "pe_branch e \<in> set (tracked_branches f (ws_repository s) db)")
  case True
  obtain job mid where job: "enqueue_scan (df_enqueue f) new (ws_tenant s) (ws_repository s, pe_branch e) db = (job, mid)"
    by fastforce
  obtain due last_db where due: "(if df_due f then (False, mid) else mark_repository_poll_due (ws_repository s) mid) = (due, last_db)"
    by fastforce
  have "db' = last_db" using assms True by (auto simp: dispatch_push_def Let_def job due split: if_splits)
  moreover have "wd_subs last_db = wd_subs mid \<and> wd_scan last_db = wd_scan mid \<and> wd_moves last_db = wd_moves mid \<and> wd_hooks last_db = wd_hooks mid
      \<and> wd_refresh last_db \<in> {wd_refresh mid, update_repositories (pollable (ws_repository s)) due_now (wd_refresh mid)}"
    using due mark_due_result[of "ws_repository s" mid due last_db] by (auto split: if_splits)
  ultimately show ?thesis using enqueue_scan_result[OF job] by simp
qed (use assms in \<open>simp add: dispatch_push_def\<close>)

lemma dispatch_pull_request_result:
  assumes "dispatch_pull_request env f new s e db = (r, db')"
  shows "wd_subs db' = wd_subs db \<and> wd_moves db' = wd_moves db \<and> wd_hooks db' = wd_hooks db \<and> wd_refresh db' = wd_refresh db
    \<and> (wd_scan db' = wd_scan db \<or> (\<exists>b. wd_scan db' =
         snd (enqueue_repository_file_scan_job_if_idle new (wd_clock db) (ws_tenant s) (ws_repository s, b) (wd_scan db))))"
  using assms
  by (auto simp: dispatch_pull_request_def Let_def split: if_splits option.splits prod.splits dest!: enqueue_scan_result)

lemma dispatch_acted:
  assumes "dispatch_event env f new delivery s e db = (r, db')"
  shows "acted_for s db db' \<and> wd_subs db' = wd_subs db"
proof -
  obtain n mid where mid: "announce_move f s e delivery db = (n, mid)" by fastforce
  obtain r' where last_db: "(case pe_kind e of PushEvent \<Rightarrow> dispatch_push f new s e mid | PullRequestEvent \<Rightarrow> dispatch_pull_request env f new s e mid) = (r', db')"
    using assms by (auto simp: dispatch_event_def mid split: prod.splits)
  have clock: "wd_clock mid = wd_clock db" using announce_acted[OF mid] by (simp add: wd_clock_def)
  have "wd_subs db' = wd_subs mid \<and> wd_moves db' = wd_moves mid \<and> wd_hooks db' = wd_hooks mid
    \<and> wd_refresh db' \<in> {wd_refresh mid, update_repositories (pollable (ws_repository s)) due_now (wd_refresh mid)}
    \<and> (wd_scan db' = wd_scan mid \<or> (\<exists>b. wd_scan db' =
         snd (enqueue_repository_file_scan_job_if_idle new (wd_clock mid) (ws_tenant s) (ws_repository s, b) (wd_scan mid))))"
    using last_db dispatch_push_result[of f new s e mid r' db'] dispatch_pull_request_result[of env f new s e mid r' db']
    by (cases "pe_kind e") auto
  then show ?thesis using announce_acted[OF mid] by (auto simp: acted_for_def clock)
qed

lemma settle_acted:
  assumes "settle_delivery f key delivery s g e result db1 = (r, db')" "acted_for s db db1" "wd_subs db1 = wd_subs db"
  shows "acted_for s db db'"
proof -
  define entry where "entry = ledger_row key (ir_outcome result) delivery (Some s) (Some e) None (ir_reason result) (ir_jobs result)"
  obtain row stored mid where mid: "record_delivery f entry db1 = ((row, stored), mid)" by (metis surj_pair)
  have kept: "acted_for s db mid" "wd_subs mid = wd_subs db"
    using untouched_acted[OF assms(2) record_untouched[OF mid]] record_untouched[OF mid] assms(3) by (simp_all add: untouched_def)
  have "db' = mid \<or> db' = touch_subscription f s delivery mid \<or> (\<exists>a. db' = audit_delivery s a (touch_subscription f s delivery mid))"
    using assms(1) by (auto simp: settle_delivery_def entry_def[symmetric] mid Let_def split: if_splits)
  then show ?thesis using kept touch_after[OF kept] untouched_acted[OF touch_after[OF kept] audit_untouched] by auto
qed

text \<open>The ways a delivery can be handled.\<close>

lemma ingest_cases:
  assumes "ingest_webhook_delivery env f new provider raw headers db = (r, db')"
  obtains (Refused) err where "r = Inl err" "err \<noteq> BadSignature" "db' = db"
  | (Recorded) q e where "r = Inr (ignored q None None)" "db' = snd (record_delivery f e db)"
  | (Unsigned) key payload candidates where "r = Inl BadSignature" "we_enabled env" "normalize_provider provider = Some key"
      "we_json env raw = Some (JObject payload)"
      "resolve_verified_subscription env f key (repo_full_name_from_payload env key payload) raw headers db = Inr (None, candidates)"
      "db' = fold (reject_for f key (read_delivery_headers headers) (repo_full_name_from_payload env key payload)) candidates db"
  | (Inert) key payload s g cs err q where "r = Inr q" "normalize_provider provider = Some key" "we_json env raw = Some (JObject payload)"
      "resolve_verified_subscription env f key (repo_full_name_from_payload env key payload) raw headers db = Inr (Some (s, g), cs)"
      "parse_webhook_event env key (dh_event (read_delivery_headers headers)) payload = Inl err"
      "inert_delivery f key (read_delivery_headers headers) (repo_full_name_from_payload env key payload) s err db = (q, db')"
  | (Dispatched) key payload s g cs e result mid q where "r = Inr q" "normalize_provider provider = Some key"
      "we_json env raw = Some (JObject payload)"
      "resolve_verified_subscription env f key (repo_full_name_from_payload env key payload) raw headers db = Inr (Some (s, g), cs)"
      "parse_webhook_event env key (dh_event (read_delivery_headers headers)) payload = Inr e"
      "dispatch_event env f new (read_delivery_headers headers) s e db = (result, mid)"
      "settle_delivery f key (read_delivery_headers headers) s g e result mid = (q, db')"
proof (cases "normalize_provider provider")
  case None
  then show ?thesis using assms Refused by (auto simp: ingest_webhook_delivery_def)
next
  case (Some key)
  note run = assms[unfolded ingest_webhook_delivery_def Some option.case Let_def]
  let ?delivery = "read_delivery_headers headers"
  show ?thesis
  proof (cases "we_enabled env")
    case False
    then show ?thesis using run Recorded by auto
  next
    case True
    show ?thesis
    proof (cases "\<exists>payload. we_json env raw = Some (JObject payload) \<and> repo_full_name_from_payload env key payload \<noteq> []")
      case False
      then show ?thesis using run True Refused by (auto split: option.splits json.splits if_splits)
    next
      case named: True
      then obtain payload where payload: "we_json env raw = Some (JObject payload)" "repo_full_name_from_payload env key payload \<noteq> []" by blast
      define full where "full = repo_full_name_from_payload env key payload"
      note run' = run[unfolded payload(1) option.case json.case, folded full_def]
      show ?thesis
      proof (cases "resolve_verified_subscription env f key full raw headers db")
        case (Inl e)
        then show ?thesis using run' True payload(2) Refused by (auto simp: full_def)
      next
        case (Inr found)
        obtain sub cs where found: "found = (sub, cs)" by (cases found)
        show ?thesis
        proof (cases sub)
          case None
          then show ?thesis
            using run' True payload Inr found Recorded Unsigned[OF _ True Some payload(1), folded full_def]
            by (cases cs) (auto simp: full_def[symmetric])
        next
          case sub: (Some sg)
          obtain s g where sg: "sg = (s, g)" by (cases sg)
          have resolved: "resolve_verified_subscription env f key full raw headers db = Inr (Some (s, g), cs)"
            using Inr found sub sg by simp
          have tail: "(case parse_webhook_event env key (dh_event ?delivery) payload of
               Inl err \<Rightarrow> (case inert_delivery f key ?delivery full s err db of (r, db) \<Rightarrow> (Inr r, db))
             | Inr e \<Rightarrow> (case dispatch_event env f new ?delivery s e db of
                 (result, db) \<Rightarrow> (case settle_delivery f key ?delivery s g e result db of (r, db) \<Rightarrow> (Inr r, db)))) = (r, db')"
            using run' True payload(2) resolved by (simp add: full_def)
          show ?thesis
          proof (cases "parse_webhook_event env key (dh_event ?delivery) payload")
            case (Inl err)
            obtain q q' where "inert_delivery f key ?delivery full s err db = (q, q')" by fastforce
            then show ?thesis using tail Inl Inert[OF _ Some payload(1) resolved[unfolded full_def] Inl] by (auto simp: full_def)
          next
            case (Inr e)
            obtain result mid where mid: "dispatch_event env f new ?delivery s e db = (result, mid)" by fastforce
            obtain q q' where "settle_delivery f key ?delivery s g e result mid = (q, q')" by fastforce
            then show ?thesis using tail Inr mid Dispatched[OF _ Some payload(1) resolved[unfolded full_def] Inr mid] by (auto simp: full_def)
          qed
        qed
      qed
    qed
  qed
qed

lemma inert_acted:
  assumes "inert_delivery f key delivery full_name s err db = (r, db')"
  shows "acted_for s db db'"
proof -
  define entry where "entry = ledger_row key Ignored delivery (Some s) None (Some full_name) (Some (EventRefused err)) 0"
  obtain row stored mid where mid: "record_delivery f entry db = ((row, stored), mid)" by (metis surj_pair)
  have "db' = mid \<or> db' = touch_subscription f s delivery mid"
    using assms by (auto simp: inert_delivery_def entry_def[symmetric] mid split: if_splits)
  then show ?thesis
    using untouched_acted[OF acted_refl record_untouched[OF mid]] touch_acted acted_untouched[OF record_untouched[OF mid]] by blast
qed


section \<open>A spent identifier\<close>

definition ledger_has :: "string \<Rightarrow> string \<Rightarrow> webhook_db \<Rightarrow> bool" where
  "ledger_has sid d db \<longleftrightarrow> (\<exists>e \<in> set (wd_events db). wv_subscription e = Some sid \<and> wv_delivery e = Some d)"

lemma record_event_has:
  "record_delivery f e db = (r, db') \<Longrightarrow> ledger_has sid d db \<Longrightarrow> ledger_has sid d db'"
  by (auto simp: record_delivery_def db_record_webhook_event_def ledger_has_def split: if_splits)

lemma record_event_new:
  assumes "record_delivery f e db = (r, db')" "\<not> df_ledger f (Some sid)" "wv_subscription e = Some sid" "wv_delivery e = Some d"
  shows "ledger_has sid d db'"
  using assms by (auto simp: record_delivery_def db_record_webhook_event_def ledger_has_def list_ex_iff split: if_splits)

lemma record_spent:
  assumes "ledger_has sid d db" "\<not> df_ledger f (Some sid)" "wv_subscription e = Some sid" "wv_delivery e = Some d"
  shows "record_delivery f e db = ((None, True), db)"
  using assms by (auto simp: record_delivery_def db_record_webhook_event_def ledger_has_def list_ex_iff)

lemma audit_has: "ledger_has sid d (audit_delivery s a db) = ledger_has sid d db"
  by (simp add: ledger_has_def audit_delivery_def insert_workflow_audit_def)

lemma rejects_spend:
  assumes "s \<in> set ss \<or> ledger_has (ws_id s) d db" "\<not> df_ledger f (Some (ws_id s))" "dh_delivery delivery = Some d"
  shows "ledger_has (ws_id s) d (fold (reject_for f key delivery full_name) ss db)"
  using assms(1)
proof (induction ss arbitrary: db)
  case (Cons t ts)
  define entry where "entry = ledger_row key Rejected delivery (Some t) None (Some full_name) (Some SignatureInvalid) 0"
  have split: "record_delivery f entry db = (fst (record_delivery f entry db), snd (record_delivery f entry db))" by simp
  have entry: "wv_subscription entry = Some (ws_id t)" "wv_delivery entry = Some d" by (simp_all add: entry_def ledger_row_def assms(3))
  have "ledger_has (ws_id s) d (reject_for f key delivery full_name t db)" if "t = s \<or> ledger_has (ws_id s) d db"
    using that record_event_has[OF split] record_event_new[OF split assms(2)] entry
    by (auto simp: reject_for_def audit_has entry_def[symmetric])
  then show ?case using Cons by auto
qed simp

lemma dispatch_keeps_ledger:
  assumes "dispatch_event env f new delivery s e db = (r, db')"
  shows "wd_events db' = wd_events db \<and> wd_audits db' = wd_audits db"
  using assms
  by (auto simp: dispatch_event_def announce_move_def dispatch_push_def dispatch_pull_request_def enqueue_scan_def mark_repository_poll_due_def
      Let_def split: option.splits prod.splits if_splits event_kind.splits)

text \<open>The provider and the repository a delivery names.\<close>

definition addressed :: "webhook_env \<Rightarrow> string \<Rightarrow> bytes \<Rightarrow> (string \<times> string) option" where
  "addressed env provider raw =
     (case (normalize_provider provider, we_json env raw) of
        (Some key, Some (JObject payload)) \<Rightarrow> Some (key, repo_full_name_from_payload env key payload)
      | _ \<Rightarrow> None)"

lemma rejected_spends:
  assumes "ingest_webhook_delivery env f new provider raw headers db = (Inl BadSignature, db')"
    and "addressed env provider raw = Some (key, full_name)" "s \<in> set (find_repository_webhook_subscriptions key full_name db)"
    and "dh_delivery (read_delivery_headers headers) = Some d" "\<not> df_ledger f (Some (ws_id s))"
  shows "ledger_has (ws_id s) d db' \<and> we_enabled env"
  using assms(1)
proof (cases rule: ingest_cases)
  case (Unsigned key' payload candidates)
  have same: "key' = key" "repo_full_name_from_payload env key payload = full_name"
    using assms(2) Unsigned(3,4) by (auto simp: addressed_def)
  have none: "candidates = [] \<or> candidates = find_repository_webhook_subscriptions key full_name db"
    using Unsigned(5) unfolding same by (auto simp: resolve_verified_subscription_def Let_def split: if_splits sum.splits)
  have "candidates \<noteq> []"
  proof
    assume "candidates = []"
    then have "fst (ingest_webhook_delivery env f new provider raw headers db) \<noteq> Inl BadSignature"
      using Unsigned(2-5) by (simp add: ingest_webhook_delivery_def Let_def)
    then show False using assms(1) by simp
  qed
  then have "s \<in> set candidates" using none assms(3) by blast
  then show ?thesis using rejects_spend[OF disjI1 assms(5,4)] Unsigned(2,6) by blast
qed simp_all

lemma ingest_resolved:
  assumes "we_enabled env" "normalize_provider provider = Some key" "we_json env raw = Some (JObject payload)"
    "full_name = repo_full_name_from_payload env key payload" "full_name \<noteq> []"
    "resolve_verified_subscription env f key full_name raw headers db = Inr (Some (s, g), cs)"
  shows "ingest_webhook_delivery env f new provider raw headers db =
    (let delivery = read_delivery_headers headers
     in case parse_webhook_event env key (dh_event delivery) payload of
          Inl err \<Rightarrow> (case inert_delivery f key delivery full_name s err db of (r, db) \<Rightarrow> (Inr r, db))
        | Inr e \<Rightarrow> (case dispatch_event env f new delivery s e db of
            (result, db) \<Rightarrow> (case settle_delivery f key delivery s g e result db of (r, db) \<Rightarrow> (Inr r, db))))"
  using assms(1-3,5,6) by (simp add: ingest_webhook_delivery_def Let_def assms(4)[symmetric])

lemma spent_is_duplicate:
  assumes "ingest_webhook_delivery env f new provider raw headers db = (Inr r, db')" "we_enabled env"
    and "addressed env provider raw = Some (key, full_name)"
    and "resolve_verified_subscription env f key full_name raw headers db = Inr (Some (s, g), cs)"
    and "ledger_has (ws_id s) d db" "dh_delivery (read_delivery_headers headers) = Some d" "\<not> df_ledger f (Some (ws_id s))"
  shows "ir_outcome r = Duplicate \<and> ir_paths r = [] \<and> wd_audits db' = wd_audits db \<and> wd_subs db' = wd_subs db"
proof -
  obtain payload where payload: "normalize_provider provider = Some key" "we_json env raw = Some (JObject payload)"
    "full_name = repo_full_name_from_payload env key payload"
    using assms(3) by (auto simp: addressed_def split: option.splits json.splits)
  have named: "full_name \<noteq> []"
    using assms(1,2) payload by (auto simp: ingest_webhook_delivery_def Let_def)
  let ?delivery = "read_delivery_headers headers"
  note run = assms(1)[unfolded ingest_resolved[OF assms(2) payload named assms(4)] Let_def]
  show ?thesis
  proof (cases "parse_webhook_event env key (dh_event ?delivery) payload")
    case (Inl err)
    have "record_delivery f (ledger_row key Ignored ?delivery (Some s) None (Some full_name) (Some (EventRefused err)) 0) db = ((None, True), db)"
      by (rule record_spent[OF assms(5,7)]) (simp_all add: ledger_row_def assms(6))
    then show ?thesis using run by (auto simp: Inl inert_delivery_def ignored_def assms(6))
  next
    case (Inr e)
    obtain result mid where mid: "dispatch_event env f new ?delivery s e db = (result, mid)" by fastforce
    have kept: "wd_events mid = wd_events db" "wd_audits mid = wd_audits db" "wd_subs mid = wd_subs db"
      using dispatch_keeps_ledger[OF mid] dispatch_acted[OF mid] by simp_all
    have "ledger_has (ws_id s) d mid" using assms(5) by (simp add: ledger_has_def kept)
    then have "record_delivery f (ledger_row key (ir_outcome result) ?delivery (Some s) (Some e) None (ir_reason result) (ir_jobs result)) mid
        = ((None, True), mid)"
      by (rule record_spent[OF _ assms(7)]) (simp_all add: ledger_row_def assms(6))
    then show ?thesis using run kept by (auto simp: Inr mid settle_delivery_def Let_def assms(6))
  qed
qed

text \<open>C23: A delivery that was rejected spends its identifier for every subscription it might have been meant for. When the
  provider sends it again under that identifier, now properly signed, it is answered as a duplicate, whatever
  happened in between as long as the ledger keeps its rows: it is not audited, not counted for the
  subscription, and the files it changed are not refreshed at once, although nothing was done for it before.\<close>

theorem rejected_delivery_stays_spent:
  assumes "ingest_webhook_delivery env f new provider raw headers db = (Inl BadSignature, db1)"
    and "addressed env provider raw = Some (key, full_name)" "s \<in> set (find_repository_webhook_subscriptions key full_name db)"
    and "dh_delivery (read_delivery_headers headers) = Some d" "\<not> df_ledger f (Some (ws_id s))"
    and "set (wd_events db1) \<subseteq> set (wd_events db2)"
    and "ingest_webhook_delivery env f' new' provider raw' headers' db2 = (Inr r, db3)"
    and "addressed env provider raw' = Some (key, full_name)"
    and "resolve_verified_subscription env f' key full_name raw' headers' db2 = Inr (Some (t, g), cs)" "ws_id t = ws_id s"
    and "dh_delivery (read_delivery_headers headers') = Some d" "\<not> df_ledger f' (Some (ws_id s))"
  shows "untouched db db1 \<and> ir_outcome r = Duplicate \<and> ir_paths r = [] \<and> wd_audits db3 = wd_audits db2 \<and> wd_subs db3 = wd_subs db2"
proof -
  have spent: "ledger_has (ws_id s) d db1" "we_enabled env" using rejected_spends[OF assms(1-5)] by blast+
  then have "ledger_has (ws_id t) d db2" using assms(6,10) by (auto simp: ledger_has_def)
  moreover have "untouched db db1"
    using assms(1) by (cases rule: ingest_cases) (auto simp: rejects_untouched)
  ultimately show ?thesis using spent_is_duplicate[OF assms(7) spent(2) assms(8,9)] assms(10-12) by simp
qed

section \<open>A signed push\<close>

text \<open>Digests and secrets are hexadecimal.\<close>

definition hexadecimal :: "webhook_env \<Rightarrow> int \<Rightarrow> webhook_subscription \<Rightarrow> bool" where
  "hexadecimal env now s \<longleftrightarrow> (\<forall>x raw. ascii (we_hmac env x raw)) \<and> (\<forall>x \<in> live_secrets env now s. ascii x)"

lemma ascii_append [simp]: "ascii (a @ b) = (ascii a \<and> ascii b)"
  by (simp add: ascii_def)

lemma ascii_prefix: "ascii ''sha256=''"
  by code_simp

lemma verified_secret_some:
  assumes "\<forall>(y, h) \<in> set xs. \<exists>b. verify_signature env key (Some y) raw headers = Inr b"
    "(x, g) \<in> set xs" "verify_signature env key (Some x) raw headers = Inr True"
  shows "\<exists>h. verified_secret env key raw headers xs = Inr (Some h)"
  using assms
proof (induction xs)
  case (Cons yh xs)
  obtain y h where yh: "yh = (y, h)" by (cases yh)
  obtain b where b: "verify_signature env key (Some y) raw headers = Inr b" using Cons.prems(1) yh by auto
  show ?case
  proof (cases b)
    case False
    then have "(x, g) \<in> set xs" using Cons.prems(2,3) b yh by auto
    then show ?thesis using Cons.IH Cons.prems(1,3) b False yh by simp
  qed (simp add: yh b)
qed simp

lemma signed_is_resolved:
  assumes "normalize_provider key = Some key" "hexadecimal env (wd_clock db) s" "x \<in> live_secrets env (wd_clock db) s"
    "genuine env key x raw headers" "find_repository_webhook_subscriptions key full_name db = [s]" "\<not> df_lookup f"
  shows "\<exists>g. resolve_verified_subscription env f key full_name raw headers db = Inr (Some (s, g), [s])"
proof -
  define secrets where "secrets = resolve_subscription_secrets env (wd_clock db) s"
  have live: "y \<in> live_secrets env (wd_clock db) s" if "(y, h) \<in> set secrets" for y h
    using that unfolding live_secrets_def secrets_def by force
  have header: "header headers (signature_header key) = Some (expected_signature env key x raw)"
    using assms(4) by (simp add: genuine_def)
  have ascii: "ascii (we_hmac env y raw)" "y \<in> live_secrets env (wd_clock db) s \<Longrightarrow> ascii y" for y
    using assms(2) by (simp_all add: hexadecimal_def)
  have checks: "verify_signature env key (Some y) raw headers = Inr (expected_signature env key x raw = expected_signature env key y raw)"
    if "y \<in> live_secrets env (wd_clock db) s" for y
  proof -
    have "y \<noteq> []" using that by (simp add: live_secrets_iff)
    moreover have "compare_digest y x = Inr (x = y)" using token.accepts_iff[OF ascii(2)[OF that] ascii(2)[OF assms(3)]] .
    moreover have "verify_hex_hmac env y raw (''sha256='' @ we_hmac env x raw) ''sha256='' = Inr (we_hmac env x raw = we_hmac env y raw)"
    proof -
      have signed: "ascii (''sha256='' @ we_hmac env z raw)" for z by (simp only: ascii_append ascii_prefix ascii(1) simp_thms)
      show ?thesis using hex.accepts_iff[where env = env, OF signed signed] by simp
    qed
    ultimately show ?thesis by (simp add: verify_signature_key[OF assms(1)] header expected_signature_def)
  qed
  obtain g where "(x, g) \<in> set secrets" using assms(3) unfolding live_secrets_def secrets_def by force
  then have "\<exists>h. verified_secret env key raw headers secrets = Inr (Some h)"
    by (intro verified_secret_some) (use checks live in \<open>auto intro: checks[OF assms(3)]\<close>)
  then show ?thesis using assms(5,6) by (auto simp: resolve_verified_subscription_def secrets_def)
qed

lemma scan_covers:
  assumes "enqueue_scan False new tenant key db = (job, db')"
  shows "\<exists>(i, j) \<in> set (sx_jobs (wd_scan db')). (sj_repo j, sj_branch j) = key \<and> sj_status j \<in> {JobQueued, JobRunning}"
proof (cases "list_ex (\<lambda>(_, j). (sj_repo j, sj_branch j) = key \<and> sj_status j \<in> {JobQueued, JobRunning}) (sx_jobs (wd_scan db))")
  case True
  then have "wd_scan db' = wd_scan db" using assms by (auto simp: enqueue_scan_def enqueue_repository_file_scan_job_if_idle_def)
  then show ?thesis using True by (auto simp: list_ex_iff)
next
  case False
  define j where "j = \<lparr>sj_tenant = tenant, sj_repo = fst key, sj_branch = snd key, sj_status = JobQueued, sj_created = wd_clock db,
    sj_requeued = None, sj_note = None\<rparr>"
  have "sx_jobs (wd_scan db') = AList.update new j (sx_jobs (wd_scan db))"
    using assms False by (auto simp: enqueue_scan_def enqueue_repository_file_scan_job_if_idle_def j_def)
  moreover have "(new, j) \<in> set (AList.update new j (sx_jobs (wd_scan db)))" by (rule map_of_SomeD) (simp add: update_conv')
  ultimately show ?thesis by (auto simp: j_def intro!: bexI[of _ "(new, j)"])
qed

lemma due_now_is_due:
  assumes "row \<in> set (repositories db)" "pollable rid row" "repo_status row \<in> {''ready'', ''error''}"
  shows "due_now row \<in> set (list_due_repositories flr (update_repositories (pollable rid) due_now db))"
  using assms
  by (auto simp: list_due_repositories_def update_repositories_def is_due_row_def due_now_def pollable_def live_row_def image_iff
      intro!: bexI[of _ row])

lemma settle_rest:
  assumes "settle_delivery f key delivery s g e result db = (r, db')"
  shows "wd_refresh db' = wd_refresh db \<and> wd_scan db' = wd_scan db \<and> (ir_outcome r = ir_outcome result \<or> ir_outcome r = Duplicate)"
proof -
  define entry where "entry = ledger_row key (ir_outcome result) delivery (Some s) (Some e) None (ir_reason result) (ir_jobs result)"
  obtain row stored mid where mid: "record_delivery f entry db = ((row, stored), mid)" by (metis surj_pair)
  have "wd_refresh mid = wd_refresh db" "wd_scan mid = wd_scan db" using record_untouched[OF mid] by (simp_all add: untouched_def)
  moreover have "wd_refresh (touch_subscription f s delivery mid) = wd_refresh mid" "wd_scan (touch_subscription f s delivery mid) = wd_scan mid"
    by (simp_all add: touch_subscription_def touch_repository_webhook_subscription_def update_subscription_def)
  ultimately show ?thesis using assms audit_untouched[of "touch_subscription f s delivery mid" s]
    by (auto simp: settle_delivery_def entry_def[symmetric] mid Let_def untouched_def split: if_splits)
qed

lemma push_dispatched:
  assumes "dispatch_push f new s e db = (r, db')" "\<not> df_branches f" "\<not> df_enqueue f" "\<not> df_due f"
    and "pe_branch e \<in> set (list_repository_import_spec_branches (ws_repository s) (wd_refresh db))"
    and row: "row \<in> set (repositories (wd_refresh db))" "pollable (ws_repository s) row" "repo_status row \<in> {''ready'', ''error''}"
  shows "ir_outcome r = Enqueued \<and> due_now row \<in> set (list_due_repositories flr (wd_refresh db'))
    \<and> (\<exists>(i, j) \<in> set (sx_jobs (wd_scan db')). (sj_repo j, sj_branch j) = (ws_repository s, pe_branch e) \<and> sj_status j \<in> {JobQueued, JobRunning})"
proof -
  obtain job mid where job: "enqueue_scan False new (ws_tenant s) (ws_repository s, pe_branch e) db = (job, mid)" by fastforce
  obtain due end_db where due: "mark_repository_poll_due (ws_repository s) mid = (due, end_db)" by fastforce
  have mid: "wd_refresh mid = wd_refresh db" using enqueue_scan_result[OF job] by simp
  have "due" using due row by (auto simp: mark_repository_poll_due_def mid list_ex_iff)
  then have "db' = end_db" "ir_outcome r = Enqueued"
    using assms(1-5) job due by (auto simp: dispatch_push_def tracked_branches_def Let_def split: prod.splits)
  moreover have "wd_refresh end_db = update_repositories (pollable (ws_repository s)) due_now (wd_refresh db)" "wd_scan end_db = wd_scan mid"
    using mark_due_result[OF due] mid by simp_all
  ultimately show ?thesis using due_now_is_due[OF row] scan_covers[OF job] by simp
qed


section \<open>Pushes as the providers write them\<close>

text \<open>A commit has the files it added, modified and removed.\<close>

type_synonym commit_files = "string list \<times> string list \<times> string list"

fun write_commit :: "commit_files \<Rightarrow> json" where
  "write_commit (a, m, r) = JObject [(''added'', JArray (map JString a)), (''modified'', JArray (map JString m)), (''removed'', JArray (map JString r))]"

fun commit_files :: "commit_files \<Rightarrow> string list" where
  "commit_files (a, m, r) = a @ m @ r"

definition push_name :: "string \<Rightarrow> string" where
  "push_name key = (if key = ''github'' then ''push'' else if key = ''gitlab'' then ''Push Hook'' else ''repo:push'')"

definition write_push :: "string \<Rightarrow> string \<Rightarrow> string \<Rightarrow> string \<Rightarrow> commit_files list \<Rightarrow> (string \<times> json) list" where
  "write_push key full_name branch sha commits =
     (let named = [(''ref'', JString (''refs/heads/'' @ branch)), (''after'', JString sha), (''commits'', JArray (map write_commit commits))]
      in if key = ''github'' then named @ [(''repository'', JObject [(''full_name'', JString full_name)])]
         else if key = ''gitlab''
         then named @ [(''total_commits_count'', JInt (int (length commits))), (''project'', JObject [(''path_with_namespace'', JString full_name)])]
         else [(''push'', JObject [(''changes'', JArray [JObject [(''new'', JObject [(''type'', JString ''branch''), (''name'', JString branch),
                 (''target'', JObject [(''hash'', JString sha)])])]])]),
               (''repository'', JObject [(''full_name'', JString full_name)])])"

definition clean_path :: "string \<Rightarrow> bool" where
  "clean_path p \<longleftrightarrow> p \<noteq> [] \<and> strip p = p \<and> hd p \<noteq> CHR ''/''"

lemma listed_written: "list_all clean_path ps \<Longrightarrow> listed_paths (Some (JArray (map JString ps))) = Some ps"
proof (induction ps)
  case (Cons p ps)
  then have "dropWhile (\<lambda>c. c = CHR ''/'') (strip p) = p" by (cases p) (auto simp: clean_path_def)
  then show ?case using Cons by (simp add: listed_paths_def clean_path_def)
qed (simp add: listed_paths_def)

lemma commits_written:
  assumes "list_all (\<lambda>c. list_all clean_path (commit_files c)) commits"
  shows "all_paths (map write_commit commits) = Some (concat (map commit_files commits))"
  using assms
proof (induction commits)
  case (Cons c cs)
  obtain a m r where c: "c = (a, m, r)" by (cases c)
  have "listed_paths (Some (JArray (map JString a))) = Some a" "listed_paths (Some (JArray (map JString m))) = Some m"
    "listed_paths (Some (JArray (map JString r))) = Some r"
    using Cons.prems by (simp_all add: c listed_written)
  then have "commit_paths (write_commit c) = Some (commit_files c)" by (simp add: commit_paths_def mapping_def c)
  then show ?case using Cons by simp
qed simp

lemma branch_written: "branch \<noteq> [] \<Longrightarrow> branch_from_ref (''refs/heads/'' @ branch) = Some branch"
  by (simp add: branch_from_ref_def starts_with_def nonempty_def)

lemma text_read: "str_or_empty pv (Some (JString s)) = s"
  by (simp add: str_or_empty_def truthy_def str_of_def)

text \<open>What the providers write of a push to a branch is read back from it: the repository, the branch, the commit and, if the
  provider lists them, every file the push touched, in order and once.\<close>

theorem pushes_are_read_back:
  assumes "key \<in> set supported_providers" "branch \<noteq> []" "sha \<noteq> []" "\<not> is_null_sha sha" "length sha \<le> 64"
    and "full_name \<noteq> []" "lower (strip full_name) = full_name"
    and "list_all (\<lambda>c. list_all clean_path (commit_files c)) commits" "length commits < github_push_commit_limit"
  shows "parse_webhook_event env key (Some (push_name key)) (write_push key full_name branch sha commits)
    = Inr (push_event full_name branch sha
        (if key = ''bitbucket'' then None else Some (sort (remdups (concat (map commit_files commits))))))"
proof -
  have names: "lower (strip ''push'') = ''push''" "lower (strip ''Push Hook'') = ''push hook''" "lower (strip ''repo:push'') = ''repo:push''"
    "lower (strip ''push hook'') = ''push hook''" "lower ''branch'' = ''branch''"
    by code_simp+
  have first: "first_true (Some (JString s)) v = Some (JString s)" if "s \<noteq> []" for s v
    using that by (simp add: first_true_def truthy_def)
  have paths: "changed_paths_from_commits (Some (JArray (map write_commit commits))) True = Some (sort (remdups (concat (map commit_files commits))))"
    by (simp add: changed_paths_from_commits_def commits_written[OF assms(8)])
  consider "key = ''github''" | "key = ''gitlab''" | "key = ''bitbucket''" using assms(1) by (auto simp: supported_providers_def)
  then show ?thesis
  proof cases
    case 1
    have name: "repo_full_name_from_payload env key (write_push key full_name branch sha commits) = full_name"
      using assms(7) by (simp add: 1 repo_full_name_from_payload_def write_push_def mapping_def text_read Let_def)
    show ?thesis
      using assms(2-6,9) name paths
      by (simp add: 1 parse_webhook_event_def Let_def push_name_def names parse_github_push_def write_push_def text_read branch_written[OF assms(2), simplified] first)
  next
    case 2
    have name: "repo_full_name_from_payload env key (write_push key full_name branch sha commits) = full_name"
      using assms(6,7) by (simp add: 2 repo_full_name_from_payload_def write_push_def mapping_def text_read Let_def first)
    show ?thesis
      using assms(2-6) name paths
      by (simp add: 2 parse_webhook_event_def Let_def push_name_def names parse_gitlab_def write_push_def text_read branch_written[OF assms(2), simplified] first int_value_def)
  next
    case 3
    have name: "repo_full_name_from_payload env key (write_push key full_name branch sha commits) = full_name"
      using assms(7) by (simp add: 3 repo_full_name_from_payload_def write_push_def mapping_def text_read Let_def)
    show ?thesis
      using assms(2-6) name
      by (simp add: 3 parse_webhook_event_def Let_def push_name_def names parse_bitbucket_def write_push_def text_read mapping_def absent_def)
  qed
qed

text \<open>A signature that is not ASCII is no mismatch: the comparison raises, and nothing on the way to the route expects that.\<close>

lemma foreign_signature_raises:
  assumes "normalize_provider key = Some key" "x \<noteq> []" "header headers (signature_header key) = Some v" "\<not> ascii v"
    "key = ''gitlab'' \<or> starts_with v ''sha256=''"
  shows "verify_signature env key (Some x) raw headers = Inl NotAscii"
  using assms by (auto simp: verify_signature_key compare_digest_def verify_hex_hmac_def)

section \<open>Sample deliveries\<close>

definition demo_payload :: "(string \<times> json) list" where
  "demo_payload = write_push ''github'' ''o/n'' ''main'' ''c0'' [([''a.yaml''], [], [])]"

definition demo_env :: webhook_env where
  "demo_env = sample_env\<lparr>we_hmac := (\<lambda>x _. if x = ''x'' then ''x'' else ''0''), we_json := (\<lambda>_. Some (JObject demo_payload))\<rparr>"

definition demo_spec :: import_spec where
  "demo_spec = \<lparr>spec_id = ''i'', spec_repository = ''r'', spec_branch = ''main'', spec_path = ''a.yaml'', spec_project = None,
     spec_source_kind = None, spec_format_override = None, spec_content_type = None, spec_options = [], spec_schema_version = None,
     spec_created_by = None, last_imported_commit_sha = None, last_imported_committed_at = TsNone, last_imported_blob_sha = None\<rparr>"

definition demo_db :: webhook_db where
  "demo_db = (sample_db sample_row ''x'')\<lparr>wd_refresh := sample_refresh\<lparr>import_specs := [demo_spec]\<rparr>\<rparr>"

definition no_faults :: delivery_faults where
  "no_faults = \<lparr>df_lookup = False, df_branches = False, df_enqueue = False, df_due = False, df_paths = False, df_ledger = (\<lambda>_. False),
     df_touch = False, df_candidates = (\<lambda>_ _. 0), df_checks = (\<lambda>_ _. 0)\<rparr>"

definition demo_headers :: "string \<Rightarrow> headers" where
  "demo_headers sig = [(''x-github-event'', ''push''), (''x-github-delivery'', ''d1''), (''x-hub-signature-256'', sig)]"

lemma demo_header:
  "read_delivery_headers (demo_headers sig) = \<lparr>dh_event = Some ''push'', dh_delivery = Some ''d1''\<rparr>"
  "header (demo_headers sig) (signature_header ''github'') = nonempty (strip sig)"
proof -
  have lowered: "lower ''x-github-event'' = ''x-github-event''" "lower ''x-github-delivery'' = ''x-github-delivery''"
    "lower ''x-hub-signature-256'' = ''x-hub-signature-256''" "lower ''X-GitHub-Event'' = ''x-github-event''"
    "lower ''X-GitHub-Delivery'' = ''x-github-delivery''" "lower ''X-Hub-Signature-256'' = ''x-hub-signature-256''"
    "strip ''push'' = ''push''" "strip ''d1'' = ''d1''"
    by code_simp+
  show "read_delivery_headers (demo_headers sig) = \<lparr>dh_event = Some ''push'', dh_delivery = Some ''d1''\<rparr>"
    by (simp add: read_delivery_headers_def demo_headers_def header_named_def lowered)
  show "header (demo_headers sig) (signature_header ''github'') = nonempty (strip sig)"
    by (simp add: header_def demo_headers_def header_named_def signature_header_def lowered)
qed

lemma delivery_facts:
  "addressed demo_env ''github'' raw = Some (''github'', ''o/n'')"
  "find_repository_webhook_subscriptions ''github'' ''o/n'' demo_db = [sample_row]"
  "live_secrets demo_env now sample_row = {''x''}" "resolve_subscription_secrets demo_env now sample_row = [(''x'', CurrentSecret)]"
  "wd_clock demo_db = 0"
proof -
  have "repo_full_name_from_payload demo_env ''github'' demo_payload = ''o/n''"
    by (simp add: repo_full_name_from_payload_def demo_payload_def write_push_def mapping_def text_read Let_def sample_texts)
  then show "addressed demo_env ''github'' raw = Some (''github'', ''o/n'')"
    by (simp add: addressed_def sample_texts demo_env_def)
  show "find_repository_webhook_subscriptions ''github'' ''o/n'' demo_db = [sample_row]"
    using sample_refresh_repos
    by (simp add: find_repository_webhook_subscriptions_def demo_db_def sample_db_def repository_live_def sample_row_def)
  have "open_blob sample_env (Some [1, 0x78]) = Some ''x''" using open_encrypted(1)[OF sample_vault sample_texts(6)] .
  moreover have "open_blob demo_env b = open_blob sample_env b" for b
    by (simp add: open_blob_def decrypt_signing_secret_def demo_env_def cong: option.case_cong if_cong)
  ultimately have "open_blob demo_env (ws_secret_enc sample_row) = Some ''x''" by (simp add: sample_row_def)
  then show secrets: "resolve_subscription_secrets demo_env now sample_row = [(''x'', CurrentSecret)]"
    by (simp add: resolve_subscription_secrets_def previous_secret_is_live_def sample_row_def)
  then show "live_secrets demo_env now sample_row = {''x''}" by (simp add: live_secrets_def)
  show "wd_clock demo_db = 0" by (simp add: demo_db_def wd_clock_def sample_refresh_def empty_refresh_db_def)
qed

lemma demo_signature:
  "verify_signature demo_env ''github'' (Some ''x'') raw (demo_headers ''sha256=z'') = Inr False"
  "genuine demo_env ''github'' ''x'' raw (demo_headers ''sha256=x'')" "\<not> genuine demo_env ''github'' ''x'' raw (demo_headers ''sha256=z'')"
proof -
  have texts: "strip ''sha256=z'' = ''sha256=z''" "strip ''sha256=x'' = ''sha256=x''" "ascii ''sha256=z''" "ascii ''sha256=x''"
    by code_simp+
  have hmac: "we_hmac demo_env ''x'' raw = ''x''" for raw by (simp add: demo_env_def)
  have key: "normalize_provider ''github'' = Some ''github''" by (rule sample_texts(1))
  show "verify_signature demo_env ''github'' (Some ''x'') raw (demo_headers ''sha256=z'') = Inr False"
    using texts by (simp add: verify_signature_key[OF key] demo_header(2) hmac verify_hex_hmac_def compare_digest_def starts_with_def nonempty_def)
  show "genuine demo_env ''github'' ''x'' raw (demo_headers ''sha256=x'')" "\<not> genuine demo_env ''github'' ''x'' raw (demo_headers ''sha256=z'')"
    by (simp_all add: genuine_def demo_header(2) texts expected_signature_def hmac nonempty_def)
qed


lemma demo_parse: "parse_webhook_event demo_env ''github'' (Some ''push'') demo_payload = Inr (push_event ''o/n'' ''main'' ''c0'' (Some [''a.yaml'']))"
proof -
  have "clean_path ''a.yaml''" "lower (strip ''o/n'') = ''o/n''" "\<not> is_null_sha ''c0''" by code_simp+
  moreover have "push_name ''github'' = ''push''" by (simp add: push_name_def)
  ultimately show ?thesis
    using pushes_are_read_back[of "''github''" "''main''" "''c0''" "''o/n''" "[([''a.yaml''], [], [])]" demo_env]
    by (simp add: demo_payload_def supported_providers_def github_push_commit_limit_def)
qed


text \<open>Forged, then delivered again under the same identifier with the right signature.\<close>

theorem rejected_delivery_stays_spent_witness:
  "\<exists>db1 r db3. ingest_webhook_delivery demo_env no_faults ''j'' ''github'' [] (demo_headers ''sha256=z'') demo_db = (Inl BadSignature, db1)
    \<and> ingest_webhook_delivery demo_env no_faults ''j'' ''github'' [] (demo_headers ''sha256=x'') db1 = (Inr r, db3)
    \<and> ir_outcome r = Duplicate \<and> wd_audits db3 = wd_audits db1"
proof -
  have enabled: "we_enabled demo_env" "we_json demo_env [] = Some (JObject demo_payload)" by (simp_all add: demo_env_def sample_env_def)
  have named: "repo_full_name_from_payload demo_env ''github'' demo_payload = ''o/n''"
    using delivery_facts(1)[of "[]"] by (simp add: addressed_def enabled sample_texts)
  have unresolved: "resolve_verified_subscription demo_env no_faults ''github'' ''o/n'' [] (demo_headers ''sha256=z'') demo_db = Inr (None, [sample_row])"
    by (simp add: resolve_verified_subscription_def no_faults_def delivery_facts demo_signature(1))
  obtain db1 where first: "ingest_webhook_delivery demo_env no_faults ''j'' ''github'' [] (demo_headers ''sha256=z'') demo_db = (Inl BadSignature, db1)"
    and db1: "db1 = fold (reject_for no_faults ''github'' (read_delivery_headers (demo_headers ''sha256=z'')) ''o/n'') [sample_row] demo_db"
    by (simp add: ingest_webhook_delivery_def sample_texts enabled named unresolved Let_def)
  have same: "untouched demo_db db1" unfolding db1 by (rule rejects_untouched)
  then have clock: "wd_clock db1 = 0" using untouched_clock delivery_facts(5) by metis
  have subs: "find_repository_webhook_subscriptions ''github'' ''o/n'' db1 = [sample_row]"
    using same delivery_facts(2) by (simp add: untouched_def find_repository_webhook_subscriptions_def repository_live_def)
  have "ascii ''x''" "ascii ''0''" by code_simp+
  then have "hexadecimal demo_env (wd_clock db1) sample_row" by (simp add: hexadecimal_def delivery_facts) (simp add: demo_env_def)
  then obtain g where resolved: "resolve_verified_subscription demo_env no_faults ''github'' ''o/n'' [] (demo_headers ''sha256=x'') db1
      = Inr (Some (sample_row, g), [sample_row])"
    using signed_is_resolved[OF sample_texts(1) _ _ demo_signature(2) subs, of no_faults] by (auto simp: delivery_facts no_faults_def)
  obtain r db3 where second: "ingest_webhook_delivery demo_env no_faults ''j'' ''github'' [] (demo_headers ''sha256=x'') db1 = (Inr r, db3)"
    using ingest_resolved[OF enabled(1) sample_texts(1) enabled(2) named[symmetric] _ resolved, of "''j''"]
    by (auto simp: Let_def demo_header(1) demo_parse split: prod.splits)
  show ?thesis
    using first second rejected_delivery_stays_spent[OF first delivery_facts(1) _ _ _ subset_refl second delivery_facts(1) resolved, of sample_row "''d1''"]
    by (auto simp: delivery_facts demo_header(1) no_faults_def)
qed

end
