(* ===== verification/Spec2Isabelle.thy ===== *)
theory Spec2Isabelle
  imports Sweep Conflict RevisionDag PgCaps AgentQuota AvroSound ApprovalGate MergeBranches ScanSound SparkplugSound CopybookSound RefreshExecutor Successor Retention ArchiveSound
    WebhookIngestSound
begin

text \<open>
  A verification library for Apiome, a platform that keeps, versions, compares and publishes API
  schemas. Its services are Python programs over one Postgres database: the REST service
  (\<open>apiome-rest/src/app\<close>), the stateful mock server (\<open>apiome-mock/src/apiome_mock\<close>) and the agent
  surface (\<open>apiome-mcp/src/apiome_mcp\<close>). File names below are those of the REST service unless a
  path says otherwise.

  \<^bold>\<open>Parts of the program and the theories that model them.\<close>

  \<^item> \<^emph>\<open>Auto-refresh of repositories.\<close> A worker wakes up, takes the repositories that are due, walks
    their branches and enqueues a re-import of every file that is newer than its last import.
    \<open>Freshness\<close> has the decisions on one file (\<open>repository_refresh_comparator.py\<close>,
    \<open>repository_refresh_status.py\<close>, \<open>repository_checksum_idempotency.py\<close>), \<open>Conflict\<close> what happens to a
    hand-edited version (\<open>repository_divergence_guard.py\<close>, \<open>repository_conflict_policy.py\<close>), \<open>Cadence\<close>
    when a repository or a branch is due (\<open>repository_refresh_cadence.py\<close>,
    \<open>repository_refresh_backoff.py\<close>, \<open>mcp_discovery_backoff.py\<close>, \<open>repository_branch_refresh_policy.py\<close>),
    \<open>Quota\<close> fairness between tenants and the counters (\<open>repository_refresh_quota.py\<close>,
    \<open>repository_quota_window.py\<close>), \<open>RefreshDb\<close> the rows and SQL statements of \<open>database.py\<close> that the sweep
    uses, \<open>Sweep\<close> a whole tick (\<open>refresh_source.py\<close>, \<open>repository_refresh_sweep.py\<close>) and \<open>RefreshExecutor\<close>
    what its jobs hand to the import worker (\<open>repository_refresh_executor.py\<close>).
  \<^item> \<^emph>\<open>Scan of a repository branch.\<close> A walk of the provider's tree, bounded by a time budget, that
    pauses, fails and resumes: \<open>FileKinds\<close> (what a file is, from its path, in Python and in SQL),
    \<open>ScanBudget\<close> (\<open>repository_scan_budget.py\<close>), \<open>ScanWalk\<close> and \<open>ScanIndex\<close> (\<open>repository_file_scan.py\<close> and its
    statements of \<open>database.py\<close>). \<open>ScanTree\<close> says what a tree holds and what one walk does to it,
    \<open>ScanSound\<close> what any history of passes leaves.
  \<^item> \<^emph>\<open>Revisions.\<close> \<open>RevisionDag\<close> has ancestors and merge bases (\<open>revision_dag.py\<close>), \<open>JsonValue\<close> JSON
    documents, \<open>SchemaMerge\<close> the three-way merge (\<open>schema_merge.py\<close>), \<open>Semver\<close> version labels
    (\<open>semver_version.py\<close>), \<open>MergeBranches\<close> the merge request with its transaction
    (\<open>version_merge_routes.py\<close>).
  \<^item> \<^emph>\<open>Life of a revision.\<close> \<open>Calendar\<close> writes instants as text, \<open>Lifecycle\<close> has the life cycle and the
    deprecation schedule in a revision's metadata (\<open>revision_lifecycle.py\<close>, \<open>revision_deprecation.py\<close>),
    \<open>LifecycleSound\<close> what an accepted update guarantees, \<open>Successor\<close> the update of a revision and the walk
    along successors (\<open>database.py\<close>, \<open>versions_routes.py\<close>), \<open>Retention\<close> the pruning of versions that live
    refreshes create (\<open>version_retention.py\<close>).
  \<^item> \<^emph>\<open>Reviews.\<close> \<open>ReviewDb\<close> has the life cycle, the tables and the transactions (\<open>review_lifecycle.py\<close>,
    \<open>reviews.py\<close>, \<open>database.py\<close>), \<open>ReviewIds\<close> identifiers, \<open>ReviewStore\<close> the rules in front of the
    transactions (\<open>review_store.py\<close>), \<open>ApprovalGate\<close> the gate of a publish (\<open>approval_policy.py\<close>,
    \<open>approval_publish_gate.py\<close>); \<open>ReviewInvariant\<close> and \<open>ReviewSafety\<close> prove what their histories keep.
  \<^item> \<^emph>\<open>Avro compatibility.\<close> \<open>AvroCompat\<close> has the engine (\<open>avro_compatibility.py\<close>), \<open>AvroSound\<close> the
    resolution rules of the Avro specification and that the engine's verdicts follow from them.
  \<^item> \<^emph>\<open>Sparkplug B payloads.\<close> \<open>WireFormat\<close> has the protobuf elements with the locale of prefix-free readers,
    \<open>Utf8\<close> the strict decoder of text, \<open>Sparkplug\<close> the messages (\<open>sparkplug_payload.py\<close>), \<open>SparkplugSound\<close> an
    encoder of all of them, the round trip and what happens to payloads cut short.
  \<^item> \<^emph>\<open>COBOL copybooks.\<close> \<open>Copybook\<close> has the sizes of pictures and the layout walk
    (\<open>cobolcopybook_layout.py\<close>), \<open>CopybookSound\<close> the storage of a record and that the layout is true of
    every one, with the locale of what the walk knows of lengths.
  \<^item> \<^emph>\<open>Archive uploads.\<close> \<open>Archive\<close> has member paths, screening and unpacking (\<open>intake_paths.py\<close>,
    \<open>archive_intake.py\<close>), \<open>ArchiveSound\<close> the fate of an entry with the locale of containers, interpreted for
    zip and tar, and that what unpacks is exactly what keeps to the policy.
  \<^item> \<^emph>\<open>Webhooks of repositories.\<close> \<open>WebhookSecrets\<close> has the signing secrets: provisioning, rotation, the
    sweep of the grace windows and the provider's hooks (\<open>repository_webhook_subscriptions.py\<close>,
    \<open>repository_webhook_rotation.py\<close>, \<open>repository_webhook_secret_sweep.py\<close>); \<open>WebhookSecretsSound\<close> what any
    interleaving of them keeps, and what an overlap of a retry with a rotation loses. \<open>WebhookIngest\<close> has the
    deliveries: signatures, the payloads of three providers, what is dispatched and recorded
    (\<open>repository_webhook_ingest.py\<close>, \<open>repository_webhook_dispatch.py\<close>); \<open>WebhookIngestSound\<close> the locale of
    signing schemes, interpreted for both, and what a delivery can and cannot do.
  \<^item> \<^emph>\<open>Stateful mocks.\<close> \<open>SessionProtocol\<close> is what the session stores share, with the store's contract
    as a locale, \<open>SessionStore\<close> the in-process store, \<open>PgSessionStore\<close> the shared one, \<open>PgCaps\<close> its
    limits, \<open>StoreAgreement\<close> the agreement of the two.
  \<^item> \<^emph>\<open>Limits on callers.\<close> \<open>RateLimit\<close> has the token buckets of the mock server and the agent surface
    (\<open>rate_limit.py\<close>, \<open>agent_quotas.py\<close>), \<open>AgentQuota\<close> the quotas of agent keys.

  \<open>Prelude\<close> holds dictionaries, text, digits and dates as Python has them, and the collections of
  rewrite rules the component theories extend.

  \<^bold>\<open>Correspondence.\<close> A class or row is a record, an enumeration a datatype, a table a list of rows in
  order of insertion or a dictionary (association list) by key, a function or statement a definition of
  the same name; where two parts of the program use one name, the later theory's is prefixed. A
  Python exception is the left value of a sum, an absent value \<open>None\<close>. Statements that run in one
  transaction are one step; an operation that checks first and writes later is two
  (\<open>pg_put_check\<close>/\<open>pg_put_write\<close>, \<open>check_\<close>/\<open>commit_\<close> of reviews and merges), and histories interleave the
  parts of different callers. Python integers are \<open>int\<close>, times are integers of microseconds or
  rationals for monotonic clocks, text is a list of code points below 256.

  \<^bold>\<open>Loops.\<close> Structural recursion wherever the loop is over a list. The ancestor walk terminates by the
  revisions not yet seen, the Avro comparison by the pairs of names not yet in progress, the schema
  merge by the size of the documents. The year of a day is searched upwards by a
  function whose measure is the distance left, the walk along successors recurses on the hops allowed,
  which the program bounds by 32. The round robin is \<open>while_option\<close> and the sparse walk a partial
  function; that they return is proved (\<open>interleave_permutes\<close>, \<open>every_pass_returns\<close>). No other
  definition uses fuel.

  \<^bold>\<open>What stands for code outside.\<close> The SHA-256 digest, Fernet, HMAC, the database's \<open>hashtext\<close>, collation and jsonb
  storage, the Avro parser, \<open>str\<close> and \<open>int\<close> of unusual JSON values, the provider's answers, clocks,
  new identifiers, refused inserts and failing reads are arguments of the definitions. The laws a
  proof needs of them are its hypotheses or a locale's assumptions: that the provider answers with
  the listings of one object store (\<open>honest\<close>), that Fernet opens what it sealed (\<open>vault\<close>), that jsonb keeps an object's members (\<open>StoreAgreement\<close>),
  that the Avro parser resolves names (\<open>well_parsed\<close>).

  \<^bold>\<open>What the lemma groups show.\<close> Each component theory proves its operations' behaviour on every
  branch and the invariant of its state; the properties are the numbered theorems: what a tick may
  and may not change, that a completed scan indexed exactly one tree, that merge bases and merges are
  the best and the right ones, that a satisfied gate means real approvals under any interleaving,
  that stored reviews equal the replay of their audit log, that the two session stores implement one
  specification, that the limiters bound throughput, that Avro verdicts are sound. Properties of kind
  error show what a concurrent or failing caller can break.

  \<^bold>\<open>Not modelled.\<close> The user interfaces, the command line, HTTP routing and serialisation; the importers,
  parsers, normalisers, emitters and linters of the many schema formats; code generation, catalog,
  export jobs, outbound webhooks, insights and the hosting of the documentation sites; connectors as a second
  refresh source and the download and import steps behind the executor. Of the modelled files, logging, metrics, texts for
  people and the plumbing of rows are left out; the components of the manifest say which.
\<close>

end
